(* ===== verification/Prelude.thy ===== *)
theory Prelude
  imports Main "HOL-Library.Word"
begin

text \<open>
  What every component of the development shares: the exceptions the library throws
  (\<open>include/luvcoro/error.hpp\<close> and the standard exceptions its code constructs), libuv's
  status codes as the values its documentation promises (zero on success, a negative error
  code otherwise, the named codes pairwise different), and the facts on lists and maps that
  the waiter queues, the channel and the stream code rest on.
\<close>

section \<open>Errors\<close>

text \<open>
  A libuv error code. Only the codes the sources compare against are named; every other
  code is \<open>UV_other\<close>.
\<close>

datatype uv_errno =
    UV_ECANCELED | UV_EBUSY | UV_ENOSYS | UV_EOF | UV_ENOENT | UV_EEXIST | UV_ENOTEMPTY
  | UV_ENOBUFS | UV_other nat

text \<open>
  An \<open>int\<close> status of libuv: \<open>Uv_ok\<close> is zero, \<open>Uv_err e\<close> is the negative code \<open>e\<close>.
\<close>

datatype uv_status = Uv_ok | Uv_err uv_errno

fun uv_failed :: "uv_status \<Rightarrow> bool" where
  "uv_failed Uv_ok = False"
| "uv_failed (Uv_err e) = True"

text \<open>
  The exceptions: \<open>uv_error\<close> with its code and the name of the failed call,
  \<open>operation_cancelled\<close>, \<open>operation_timeout\<close>, the channel's \<open>closed_error\<close>, the standard
  exceptions with their message, and any exception of the user's own code, told apart by a
  number.
\<close>

datatype exn =
    Uv_error uv_errno string
  | Operation_cancelled
  | Operation_timeout
  | Closed_error
  | Runtime_error string
  | Invalid_argument string
  | User_exception nat

type_synonym 'a result = "exn + 'a"

fun throw_uv_error :: "uv_errno \<Rightarrow> string \<Rightarrow> 'a result" where
  "throw_uv_error code op_name = Inl (Uv_error code op_name)"

section \<open>Hint collections\<close>

named_theorems live_simps \<open>rewriting of the live part of a waiter queue\<close>
named_theorems inv_intros \<open>an operation keeps its component's invariant\<close>

section \<open>Lists and maps\<close>

lemma filter_fun_upd_notin [simp]:
  "w \<notin> set xs \<Longrightarrow> filter (\<lambda>x. P ((f(w := v)) x)) xs = filter (\<lambda>x. P (f x)) xs"
  by (rule filter_cong) auto

lemma map_fun_upd_notin [simp]:
  "w \<notin> set xs \<Longrightarrow> map (\<lambda>x. g ((f(w := v)) x)) xs = map (\<lambda>x. g (f x)) xs"
  by (rule map_cong) auto

lemma filter_dropWhile_not [simp]: "filter P (dropWhile (\<lambda>x. \<not> P x) xs) = filter P xs"
  by (induction xs) auto

lemma dropWhile_not_Nil_iff: "dropWhile (\<lambda>x. \<not> P x) xs = [] \<longleftrightarrow> filter P xs = []"
  by (induction xs) auto

lemma dropWhile_not_ConsD:
  "dropWhile (\<lambda>x. \<not> P x) xs = y # ys \<Longrightarrow> P y \<and> filter P xs = y # filter P ys"
  by (induction xs) (auto split: if_splits)

lemma set_dropWhile_subset: "set (dropWhile P xs) \<subseteq> set xs"
  by (metis set_dropWhileD subsetI)

lemma length_dropWhile_le' [simp]: "length (dropWhile P xs) \<le> length xs"
  by (rule length_dropWhile_le)

end
