(* ===== verification/Runtime.thy ===== *)
theory Runtime
  imports Prelude
begin

text \<open>
  The event-loop runtime of \<open>src/runtime.cpp\<close>: the job queue of \<open>uv_runtime\<close> with its
  wake-up handle, the thread-local binding of \<open>runtime_scope\<close> and the process-global thread
  pool configuration. Jobs are values of a type \<open>'j\<close>; what a job does is a function
  \<open>exec\<close> on the runtime and the rest of the world \<open>'s\<close>. libuv's \<open>uv_async_send\<close> is the
  parameter \<open>rt_send_rc\<close>: the status it answers.
\<close>

section \<open>The job queue\<close>

record 'j uv_runtime =
  rt_queue :: "'j list"
  rt_shutting_down :: bool
  rt_wakeup :: bool
  rt_send_rc :: uv_status

text \<open>\<open>uv_async_send\<close>: marks the wake-up handle pending, unless libuv refuses.\<close>

definition async_send :: "'j uv_runtime \<Rightarrow> unit result \<times> 'j uv_runtime" where
  "async_send rt =
     (case rt_send_rc rt of
        Uv_err e \<Rightarrow> (throw_uv_error e ''uv_async_send'', rt)
      | Uv_ok \<Rightarrow> (Inr (), rt\<lparr>rt_wakeup := True\<rparr>))"

definition post :: "'j \<Rightarrow> 'j uv_runtime \<Rightarrow> unit result \<times> 'j uv_runtime" where
  "post fn rt =
     (if rt_shutting_down rt
      then (Inl (Runtime_error ''uv_runtime is shutting down''), rt)
      else async_send (rt\<lparr>rt_queue := rt_queue rt @ [fn]\<rparr>))"

text \<open>\<open>drain\<close>: the queue is swapped out under the lock, then the jobs run in order.\<close>

fun drain_loop :: "('j \<Rightarrow> 'j uv_runtime \<times> 's \<Rightarrow> 'j uv_runtime \<times> 's) \<Rightarrow> 'j list
    \<Rightarrow> 'j uv_runtime \<times> 's \<Rightarrow> 'j uv_runtime \<times> 's" where
  "drain_loop exec [] w = w"
| "drain_loop exec (fn # local) w = drain_loop exec local (exec fn w)"

definition drain :: "('j \<Rightarrow> 'j uv_runtime \<times> 's \<Rightarrow> 'j uv_runtime \<times> 's)
    \<Rightarrow> 'j uv_runtime \<times> 's \<Rightarrow> 'j uv_runtime \<times> 's" where
  "drain exec w = drain_loop exec (rt_queue (fst w)) ((fst w)\<lparr>rt_queue := []\<rparr>, snd w)"

text \<open>The loop serves the pending wake-up: libuv clears it and calls \<open>on_async\<close>.\<close>

definition on_async :: "('j \<Rightarrow> 'j uv_runtime \<times> 's \<Rightarrow> 'j uv_runtime \<times> 's)
    \<Rightarrow> 'j uv_runtime \<times> 's \<Rightarrow> 'j uv_runtime \<times> 's" where
  "on_async exec w =
     (if rt_wakeup (fst w) then drain exec ((fst w)\<lparr>rt_wakeup := False\<rparr>, snd w) else w)"

text \<open>
  \<open>call\<close>: on the loop thread the function runs at once; elsewhere it is posted and the caller
  blocks on the future, so the loop first runs the jobs queued before it and then the
  function, whose value or exception the future hands back.
\<close>

definition uv_call :: "bool \<Rightarrow> ('j \<Rightarrow> 'j uv_runtime \<times> 's \<Rightarrow> 'j uv_runtime \<times> 's)
    \<Rightarrow> 'j \<Rightarrow> ('j uv_runtime \<times> 's \<Rightarrow> 'a result \<times> 'j uv_runtime \<times> 's)
    \<Rightarrow> 'j uv_runtime \<times> 's \<Rightarrow> 'a result \<times> 'j uv_runtime \<times> 's" where
  "uv_call loop_thread exec job fn w =
     (if loop_thread then fn w
      else (case post job (fst w) of
              (Inl e, rt) \<Rightarrow> (Inl e, rt, snd w)
            | (Inr _, rt) \<Rightarrow>
                fn (drain_loop exec (butlast (rt_queue rt)) (rt\<lparr>rt_queue := [], rt_wakeup := False\<rparr>, snd w))))"

text \<open>
  The destructor: mark the runtime, push the job that closes every handle (past the guard of
  \<open>post\<close>, which would now refuse it), wake the loop and wait for that job.
\<close>

definition runtime_shutdown :: "'j \<Rightarrow> 'j uv_runtime \<Rightarrow> 'j uv_runtime" where
  "runtime_shutdown close_handles rt =
     (if rt_shutting_down rt then rt
      else snd (async_send (rt\<lparr>rt_shutting_down := True, rt_queue := rt_queue rt @ [close_handles]\<rparr>)))"

definition new_runtime :: "'j uv_runtime" where
  "new_runtime = \<lparr>rt_queue = [], rt_shutting_down = False, rt_wakeup = False, rt_send_rc = Uv_ok\<rparr>"

section \<open>The thread pool configuration\<close>

text \<open>
  The process-global state: the size configured so far and the value put in the environment
  variable \<open>UV_THREADPOOL_SIZE\<close> (the number whose decimal form is stored). \<open>setenv\<close> is the
  parameter \<open>setenv_ok\<close>.
\<close>

record pool_state =
  configured_thread_pool_size :: "32 word option"
  env_UV_THREADPOOL_SIZE :: "32 word option"

definition kMaxThreadPoolSize :: "32 word" where
  "kMaxThreadPoolSize = 1024"

definition set_thread_pool_size_env :: "bool \<Rightarrow> 32 word \<Rightarrow> pool_state \<Rightarrow> unit result \<times> pool_state" where
  "set_thread_pool_size_env setenv_ok pool_size p =
     (if \<not> setenv_ok then (Inl (Runtime_error ''failed to set UV_THREADPOOL_SIZE''), p)
      else (Inr (), p\<lparr>env_UV_THREADPOOL_SIZE := Some pool_size\<rparr>))"

definition configure_thread_pool :: "bool \<Rightarrow> 32 word \<Rightarrow> pool_state \<Rightarrow> unit result \<times> pool_state" where
  "configure_thread_pool setenv_ok pool_size p =
     (if pool_size = 0 then (Inr (), p)
      else if kMaxThreadPoolSize < pool_size
      then (Inl (Runtime_error ''UV_THREADPOOL_SIZE must be between 1 and 1024''), p)
      else if configured_thread_pool_size p \<noteq> None \<and> configured_thread_pool_size p \<noteq> Some pool_size
      then (Inl (Runtime_error
              ''libuv thread pool size is process-global and was already configured differently''), p)
      else (case set_thread_pool_size_env setenv_ok pool_size p of
              (Inl e, p') \<Rightarrow> (Inl e, p')
            | (Inr _, p') \<Rightarrow> (Inr (), p'\<lparr>configured_thread_pool_size := Some pool_size\<rparr>)))"

section \<open>The thread-local runtime\<close>

text \<open>
  \<open>tls_current_runtime\<close> is a nullable pointer (runtimes are numbered); a \<open>runtime_scope\<close>
  saves the previous one and its destructor restores it.
\<close>

type_synonym tls = "nat option"

record runtime_scope =
  previous :: tls

definition scope_enter :: "nat \<Rightarrow> tls \<Rightarrow> runtime_scope \<times> tls" where
  "scope_enter runtime cur = (\<lparr>previous = cur\<rparr>, Some runtime)"

definition scope_exit :: "runtime_scope \<Rightarrow> tls \<Rightarrow> tls" where
  "scope_exit sc cur = previous sc"

definition try_current_runtime :: "tls \<Rightarrow> nat option" where
  "try_current_runtime cur = cur"

definition current_runtime :: "tls \<Rightarrow> nat result" where
  "current_runtime cur =
     (case cur of
        None \<Rightarrow> Inl (Runtime_error ''no current luvcoro::uv_runtime bound to this thread'')
      | Some r \<Rightarrow> Inr r)"

text \<open>\<open>with_runtime\<close>: the scope's destructor runs whether the body returns or throws.\<close>

definition with_runtime :: "nat \<Rightarrow> (tls \<times> 's \<Rightarrow> 'a result \<times> tls \<times> 's) \<Rightarrow> tls \<times> 's
    \<Rightarrow> 'a result \<times> tls \<times> 's" where
  "with_runtime runtime fn w =
     (case scope_enter runtime (fst w) of
        (sc, cur) \<Rightarrow> (case fn (cur, snd w) of (r, cur', s') \<Rightarrow> (r, scope_exit sc cur', s')))"

section \<open>Lemmas\<close>

lemma new_runtime_simps [simp]:
  "rt_queue new_runtime = []" "\<not> rt_shutting_down new_runtime" "\<not> rt_wakeup new_runtime"
  "rt_send_rc new_runtime = Uv_ok"
  by (simp_all add: new_runtime_def)

lemma async_send_queue [simp]: "rt_queue (snd (async_send rt)) = rt_queue rt"
  by (simp add: async_send_def split: uv_status.split)

lemma async_send_shutting_down [simp]:
  "rt_shutting_down (snd (async_send rt)) = rt_shutting_down rt"
  by (simp add: async_send_def split: uv_status.split)

lemma async_send_send_rc [simp]: "rt_send_rc (snd (async_send rt)) = rt_send_rc rt"
  by (simp add: async_send_def split: uv_status.split)

lemma async_send_wakeup:
  "rt_wakeup (snd (async_send rt)) \<longleftrightarrow> rt_wakeup rt \<or> rt_send_rc rt = Uv_ok"
  by (simp add: async_send_def split: uv_status.split)

lemma post_queue:
  "rt_queue (snd (post fn rt)) = (if rt_shutting_down rt then rt_queue rt else rt_queue rt @ [fn])"
  by (simp add: post_def)

lemma post_shutting_down [simp]: "rt_shutting_down (snd (post fn rt)) = rt_shutting_down rt"
  by (simp add: post_def)

lemma post_send_rc [simp]: "rt_send_rc (snd (post fn rt)) = rt_send_rc rt"
  by (simp add: post_def)

lemma post_wakeup:
  "rt_wakeup (snd (post fn rt)) \<longleftrightarrow>
     rt_wakeup rt \<or> (\<not> rt_shutting_down rt \<and> rt_send_rc rt = Uv_ok)"
  by (auto simp: post_def async_send_wakeup)

lemma post_Inr_iff:
  "(\<exists>u. fst (post fn rt) = Inr u) \<longleftrightarrow> \<not> rt_shutting_down rt \<and> rt_send_rc rt = Uv_ok"
  by (auto simp: post_def async_send_def split: uv_status.split)


text \<open>Draining is a fold; splitting the swapped-out queue splits the run.\<close>

lemma drain_loop_append [simp]:
  "drain_loop exec (js @ ks) w = drain_loop exec ks (drain_loop exec js w)"
  by (induction js arbitrary: w) auto

section \<open>Jobs that use the queue only by posting\<close>

text \<open>
  What posting does to a runtime: the queue grows at its end, a wake-up is pending once it
  has grown, and the flags stay.
\<close>

definition rt_extends :: "'j uv_runtime \<Rightarrow> 'j uv_runtime \<Rightarrow> bool" where
  "rt_extends rt rt' \<longleftrightarrow>
     (\<exists>ks. rt_queue rt' = rt_queue rt @ ks \<and>
        (ks \<noteq> [] \<longrightarrow> rt_send_rc rt = Uv_ok \<longrightarrow> rt_wakeup rt')) \<and>
     (rt_wakeup rt \<longrightarrow> rt_wakeup rt') \<and>
     rt_send_rc rt' = rt_send_rc rt \<and> rt_shutting_down rt' = rt_shutting_down rt"

lemma rt_extends_refl [simp, intro]: "rt_extends rt rt"
  by (simp add: rt_extends_def)

lemma rt_extends_trans:
  assumes "rt_extends rt rt'" and "rt_extends rt' rt''"
  shows "rt_extends rt rt''"
proof -
  from assms obtain ks ls where
    "rt_queue rt' = rt_queue rt @ ks" "ks \<noteq> [] \<longrightarrow> rt_send_rc rt = Uv_ok \<longrightarrow> rt_wakeup rt'"
    "rt_queue rt'' = rt_queue rt' @ ls" "ls \<noteq> [] \<longrightarrow> rt_send_rc rt' = Uv_ok \<longrightarrow> rt_wakeup rt''"
    unfolding rt_extends_def by blast
  with assms show ?thesis
    unfolding rt_extends_def by (intro conjI exI [of _ "ks @ ls"]) auto
qed

lemma rt_extends_post [simp, intro]: "rt_extends rt (snd (post j rt))"
  by (auto simp: rt_extends_def post_queue post_wakeup)

text \<open>
  The interface between the runtime and the components whose jobs it runs: a job may post
  further jobs and touches nothing else of the runtime.
\<close>

locale posting_jobs =
  fixes exec :: "'j \<Rightarrow> 'j uv_runtime \<times> 's \<Rightarrow> 'j uv_runtime \<times> 's"
  assumes exec_extends: "rt_extends (fst w) (fst (exec j w))"
begin

lemma drain_loop_extends: "rt_extends (fst w) (fst (drain_loop exec js w))"
proof (induction js arbitrary: w)
  case (Cons j js)
  from exec_extends [of w j] Cons.IH [of "exec j w"] show ?case
    by (simp add: rt_extends_trans)
qed simp

lemma drain_loop_queue:
  "\<exists>ks. rt_queue (fst (drain_loop exec js w)) = rt_queue (fst w) @ ks \<and>
      (ks \<noteq> [] \<longrightarrow> rt_send_rc (fst w) = Uv_ok \<longrightarrow> rt_wakeup (fst (drain_loop exec js w)))"
  using drain_loop_extends unfolding rt_extends_def by blast

text \<open>No job is stranded: whenever the queue is not empty a wake-up is pending.\<close>

lemma on_async_not_stranded:
  assumes "rt_send_rc (fst w) = Uv_ok" and "rt_queue (fst w) \<noteq> [] \<longrightarrow> rt_wakeup (fst w)"
  shows "rt_queue (fst (on_async exec w)) \<noteq> [] \<longrightarrow> rt_wakeup (fst (on_async exec w))"
proof (cases "rt_wakeup (fst w)")
  case True
  let ?w = "((fst w)\<lparr>rt_wakeup := False, rt_queue := []\<rparr>, snd w)"
  from True have eq: "on_async exec w = drain_loop exec (rt_queue (fst w)) ?w"
    by (simp add: on_async_def drain_def)
  obtain ks where "rt_queue (fst (drain_loop exec (rt_queue (fst w)) ?w)) = [] @ ks"
      "ks \<noteq> [] \<longrightarrow> rt_wakeup (fst (drain_loop exec (rt_queue (fst w)) ?w))"
    using drain_loop_queue [of "rt_queue (fst w)" ?w] assms(1) by auto
  then show ?thesis by (simp add: eq)
next
  case False
  with assms(2) show ?thesis by (simp add: on_async_def)
qed

end

text \<open>
  The same jobs with a log of what ran: the history \<open>log @ queue\<close> of a runtime is only ever
  extended at its end, so jobs run once each, in the order they were posted.
\<close>

definition logged :: "('j \<Rightarrow> 'j uv_runtime \<times> 's \<Rightarrow> 'j uv_runtime \<times> 's)
    \<Rightarrow> 'j \<Rightarrow> 'j uv_runtime \<times> ('j list \<times> 's) \<Rightarrow> 'j uv_runtime \<times> ('j list \<times> 's)" where
  "logged exec j w =
     (case exec j (fst w, snd (snd w)) of (rt, s) \<Rightarrow> (rt, fst (snd w) @ [j], s))"

lemma logged_fst: "fst (logged exec j w) = fst (exec j (fst w, snd (snd w)))"
  by (simp add: logged_def split: prod.split)

lemma logged_log: "fst (snd (logged exec j w)) = fst (snd w) @ [j]"
  by (simp add: logged_def split: prod.split)

context posting_jobs
begin

lemma drain_loop_logged_log:
  "fst (snd (drain_loop (logged exec) js w)) = fst (snd w) @ js"
  by (induction js arbitrary: w) (auto simp: logged_log)

lemma logged_posting: "posting_jobs (logged exec)"
  using exec_extends by unfold_locales (metis fst_conv logged_fst)

lemma on_async_history:
  "\<exists>ks. fst (snd (on_async (logged exec) w)) @ rt_queue (fst (on_async (logged exec) w)) =
      fst (snd w) @ rt_queue (fst w) @ ks"
proof (cases "rt_wakeup (fst w)")
  case True
  let ?w = "((fst w)\<lparr>rt_wakeup := False, rt_queue := []\<rparr>, snd w)"
  from True have eq: "on_async (logged exec) w = drain_loop (logged exec) (rt_queue (fst w)) ?w"
    by (simp add: on_async_def drain_def)
  obtain ks where "rt_queue (fst (drain_loop (logged exec) (rt_queue (fst w)) ?w)) = [] @ ks"
    using posting_jobs.drain_loop_queue [OF logged_posting, of "rt_queue (fst w)" ?w] by auto
  then show ?thesis by (simp add: eq drain_loop_logged_log)
next
  case False
  then show ?thesis by (simp add: on_async_def)
qed

lemma on_async_runs_all:
  assumes "rt_wakeup (fst w)"
  shows "fst (snd (on_async (logged exec) w)) = fst (snd w) @ rt_queue (fst w)"
  using assms by (simp add: on_async_def drain_def drain_loop_logged_log)

end

end
