(* ===== verification/Timer.thy ===== *)
theory Timer
  imports Runtime
begin

text \<open>
  The timer waits of \<open>src/runtime.cpp\<close>: \<open>timer_wait_state\<close> with its handlers and the jobs it
  posts to the loop, the awaiter of \<open>sleep_for\<close>, \<open>sleep_until\<close> and \<open>steady_timer\<close>.
  libuv's \<open>uv_timer_init\<close> and \<open>uv_timer_start\<close> answer the statuses in \<open>timer_env\<close>. A
  coroutine handle is a boolean (null or not); the field \<open>tw_resumes\<close> counts how often the
  continuation was resumed.
\<close>

section \<open>The state of one wait\<close>

text \<open>\<open>tw_ctx\<close> is the \<open>timer_ctx\<close> pointer: \<open>Some closing\<close> when it is not null.\<close>

record timer_wait =
  tw_continuation :: bool
  tw_ctx :: "bool option"
  tw_resumed :: bool
  tw_completed :: bool
  tw_cancelled :: bool
  tw_status :: uv_status
  tw_resumes :: nat

datatype timer_job = Timer_start | Timer_cancel | Timer_resume

record timer_env =
  te_init_rc :: uv_status
  te_start_rc :: uv_status

type_synonym timer_world = "timer_job uv_runtime \<times> timer_wait"

definition new_timer_wait :: timer_wait where
  "new_timer_wait = \<lparr>tw_continuation = False, tw_ctx = None, tw_resumed = False,
     tw_completed = False, tw_cancelled = False, tw_status = Uv_ok, tw_resumes = 0\<rparr>"

section \<open>The handlers\<close>

definition tw_close_timer :: "timer_wait \<Rightarrow> timer_wait" where
  "tw_close_timer t =
     (case tw_ctx t of
        None \<Rightarrow> t
      | Some closing \<Rightarrow> if closing then t else t\<lparr>tw_ctx := Some True\<rparr>)"

text \<open>The close callback of libuv frees the context.\<close>

definition tw_on_closed :: "timer_wait \<Rightarrow> timer_wait" where
  "tw_on_closed t = t\<lparr>tw_ctx := None\<rparr>"

text \<open>\<open>resume_on_runtime\<close>: the atomic exchange, then the job that resumes.\<close>

definition tw_resume_on_runtime :: "timer_world \<Rightarrow> unit result \<times> timer_world" where
  "tw_resume_on_runtime w =
     (if tw_resumed (snd w) then (Inr (), w)
      else (case post Timer_resume (fst w) of
              (r, rt) \<Rightarrow> (r, rt, (snd w)\<lparr>tw_resumed := True\<rparr>)))"

definition tw_run_resume :: "timer_wait \<Rightarrow> timer_wait" where
  "tw_run_resume t =
     (let continuation = tw_continuation t;
          t = t\<lparr>tw_continuation := False\<rparr>
      in if continuation then t\<lparr>tw_resumes := Suc (tw_resumes t)\<rparr> else t)"

definition tw_fire :: "timer_world \<Rightarrow> unit result \<times> timer_world" where
  "tw_fire w =
     (if tw_completed (snd w) then (Inr (), w)
      else tw_resume_on_runtime
             (fst w, tw_close_timer ((snd w)\<lparr>tw_completed := True, tw_status := Uv_ok\<rparr>)))"

definition tw_cancel :: "timer_world \<Rightarrow> unit result \<times> timer_world" where
  "tw_cancel w =
     (if tw_completed (snd w) then (Inr (), w)
      else tw_resume_on_runtime
             (fst w, tw_close_timer ((snd w)\<lparr>tw_completed := True, tw_cancelled := True\<rparr>)))"

definition tw_fail :: "uv_errno \<Rightarrow> timer_world \<Rightarrow> unit result \<times> timer_world" where
  "tw_fail rc w =
     (if tw_completed (snd w) then (Inr (), w)
      else tw_resume_on_runtime
             (fst w, tw_close_timer ((snd w)\<lparr>tw_completed := True, tw_status := Uv_err rc\<rparr>)))"

text \<open>\<open>start\<close>: a failed \<open>uv_timer_init\<close> frees the new context before it is stored.\<close>

definition tw_start :: "timer_env \<Rightarrow> timer_world \<Rightarrow> unit result \<times> timer_world" where
  "tw_start env w =
     (if tw_completed (snd w) then (Inr (), w)
      else (case te_init_rc env of
              Uv_err rc \<Rightarrow> tw_fail rc w
            | Uv_ok \<Rightarrow>
                (let t = (snd w)\<lparr>tw_ctx := Some False\<rparr>
                 in (case te_start_rc env of
                       Uv_err rc \<Rightarrow> tw_fail rc (fst w, tw_close_timer t)
                     | Uv_ok \<Rightarrow> (Inr (), fst w, t)))))"

text \<open>What the loop does with a posted job.\<close>

fun timer_exec :: "timer_env \<Rightarrow> timer_job \<Rightarrow> timer_world \<Rightarrow> timer_world" where
  "timer_exec env Timer_start w = snd (tw_start env w)"
| "timer_exec env Timer_cancel w = snd (tw_cancel w)"
| "timer_exec env Timer_resume w = (fst w, tw_run_resume (snd w))"

section \<open>sleep\_for\<close>

text \<open>
  Milliseconds are an \<open>int\<close>. \<open>stop_requested\<close> is the token's state when the function reads
  it. When the token is already stopped as the stop callback is constructed, the callback runs
  at once (\<open>fires\<close>).
\<close>

definition sleep_for_await_ready :: "int \<Rightarrow> bool \<Rightarrow> bool" where
  "sleep_for_await_ready delay stop_requested \<longleftrightarrow> delay \<le> 0 \<and> \<not> stop_requested"

definition sleep_for_await_suspend :: "bool \<Rightarrow> bool \<Rightarrow> bool \<Rightarrow> timer_world \<Rightarrow> bool result \<times> timer_world" where
  "sleep_for_await_suspend stop_requested stop_possible fires w =
     (if stop_requested
      then (Inr False, fst w, (snd w)\<lparr>tw_cancelled := True, tw_completed := True\<rparr>)
      else
        let t = (snd w)\<lparr>tw_continuation := True\<rparr>;
            rt = (if stop_possible \<and> fires then snd (post Timer_cancel (fst w)) else fst w)
        in (case post Timer_start rt of
              (Inl e, rt') \<Rightarrow> (Inl e, rt', t)
            | (Inr _, rt') \<Rightarrow> (Inr (\<not> tw_resumed t), rt', t)))"

definition sleep_for_await_resume :: "bool \<Rightarrow> timer_wait \<Rightarrow> unit result" where
  "sleep_for_await_resume stop_requested t =
     (if tw_cancelled t \<or> stop_requested then Inl Operation_cancelled
      else (case tw_status t of
              Uv_err e \<Rightarrow> throw_uv_error e ''uv_timer_start''
            | Uv_ok \<Rightarrow> Inr ()))"

section \<open>sleep\_until and steady\_timer\<close>

text \<open>
  Times of the steady clock are nanoseconds. The outcome is an immediate result or the delay
  in milliseconds handed to \<open>sleep_for\<close>: \<open>duration_cast\<close> truncates.
\<close>

datatype sleep_plan = Return_now "unit result" | Sleep_for int

definition sleep_until :: "int \<Rightarrow> bool \<Rightarrow> int \<Rightarrow> sleep_plan" where
  "sleep_until now stop_requested deadline =
     (if deadline \<le> now
      then (if stop_requested then Return_now (Inl Operation_cancelled) else Return_now (Inr ()))
      else Sleep_for ((deadline - now) div 1000000))"

text \<open>
  \<open>steady_timer\<close>: \<open>expires_at\<close> replaces the stop source, so a later \<open>cancel\<close> reaches only the
  waits begun after it; stop sources are numbered, and the set of stopped ones is kept.
\<close>

record steady_timer =
  st_expiry :: int
  st_source :: nat
  st_stopped :: "nat list"
  st_next :: nat

definition expires_at :: "int \<Rightarrow> steady_timer \<Rightarrow> steady_timer" where
  "expires_at deadline t = t\<lparr>st_expiry := deadline, st_source := st_next t, st_next := Suc (st_next t)\<rparr>"

definition expires_after :: "int \<Rightarrow> int \<Rightarrow> steady_timer \<Rightarrow> steady_timer" where
  "expires_after now delay t = expires_at (now + delay) t"

definition steady_cancel :: "steady_timer \<Rightarrow> steady_timer" where
  "steady_cancel t = t\<lparr>st_stopped := st_source t # st_stopped t\<rparr>"

definition steady_wait :: "int \<Rightarrow> steady_timer \<Rightarrow> sleep_plan \<times> nat" where
  "steady_wait now t = (sleep_until now (st_source t \<in> set (st_stopped t)) (st_expiry t), st_source t)"


section \<open>The life of one wait\<close>

text \<open>
  What can happen to a suspended wait: the stop callback runs (it posts the cancel job), the
  loop serves its wake-up, libuv fires the timer if it is armed, libuv reports it closed.
\<close>

datatype timer_event = Ev_stop | Ev_loop | Ev_fire | Ev_closed

fun timer_step :: "timer_env \<Rightarrow> timer_event \<Rightarrow> timer_world \<Rightarrow> timer_world" where
  "timer_step env Ev_stop w = (snd (post Timer_cancel (fst w)), snd w)"
| "timer_step env Ev_loop w = on_async (timer_exec env) w"
| "timer_step env Ev_fire w = (if tw_ctx (snd w) = Some False then snd (tw_fire w) else w)"
| "timer_step env Ev_closed w =
     (if tw_ctx (snd w) = Some True then (fst w, tw_on_closed (snd w)) else w)"

fun timer_run :: "timer_env \<Rightarrow> timer_event list \<Rightarrow> timer_world \<Rightarrow> timer_world" where
  "timer_run env [] w = w"
| "timer_run env (e # es) w = timer_run env es (timer_step env e w)"

lemmas timer_handler_defs =
  tw_resume_on_runtime_def tw_fire_def tw_cancel_def tw_fail_def tw_start_def
  tw_close_timer_def tw_run_resume_def tw_on_closed_def

lemma resume_on_runtime_extends: "rt_extends (fst w) (fst (snd (tw_resume_on_runtime w)))"
  by (simp add: tw_resume_on_runtime_def case_prod_beta)

lemma tw_fail_extends: "rt_extends (fst w) (fst (snd (tw_fail rc w)))"
  by (auto simp: tw_fail_def intro: rt_extends_trans [OF _ resume_on_runtime_extends])

lemma timer_exec_extends: "rt_extends (fst w) (fst (timer_exec env j w))"
proof (cases j)
  case Timer_start
  then show ?thesis
    using tw_fail_extends [of w] tw_fail_extends [of "(fst w, t)" for t]
    by (simp add: tw_start_def Let_def split: uv_status.split)
next
  case Timer_cancel
  then show ?thesis
    by (auto simp: tw_cancel_def intro: rt_extends_trans [OF _ resume_on_runtime_extends])
qed simp

interpretation timer_jobs: posting_jobs "timer_exec env" for env
  by unfold_locales (rule timer_exec_extends)

text \<open>
  The invariant, stated over the jobs swapped out of the queue but not yet run (\<open>js\<close>)
  followed by the queue. Of a wait that is not completed: the start job is on its way or the
  timer is armed. Of a completed one: the timer is disarmed, and the resume job is on its way
  or has run, once.
\<close>

definition timer_ok :: "timer_job list \<Rightarrow> timer_world \<Rightarrow> bool" where
  "timer_ok js w \<longleftrightarrow>
     (let t = snd w; q = js @ rt_queue (fst w) in
       rt_send_rc (fst w) = Uv_ok \<and> \<not> rt_shutting_down (fst w) \<and>
       count_list q Timer_start \<le> 1 \<and> (Timer_start \<in> set q \<longrightarrow> tw_ctx t = None) \<and>
       (tw_resumed t \<longleftrightarrow> tw_completed t) \<and>
       (if tw_completed t
        then tw_ctx t \<noteq> Some False \<and> count_list q Timer_resume + tw_resumes t = 1 \<and>
          (tw_continuation t \<longleftrightarrow> tw_resumes t = 0)
        else tw_resumes t = 0 \<and> tw_continuation t \<and> \<not> tw_cancelled t \<and> tw_status t = Uv_ok \<and>
          Timer_resume \<notin> set q \<and> (Timer_start \<in> set q \<or> tw_ctx t = Some False)))"

lemma post_ok_queue:
  "rt_send_rc rt = Uv_ok \<Longrightarrow> \<not> rt_shutting_down rt \<Longrightarrow>
     snd (post j rt) = rt\<lparr>rt_queue := rt_queue rt @ [j], rt_wakeup := True\<rparr>"
  by (simp add: post_def async_send_def)

lemma timer_ok_exec: "timer_ok (j # js) w \<Longrightarrow> timer_ok js (timer_exec env j w)"
  by (cases j; cases "tw_ctx (snd w)")
    (auto simp: timer_ok_def timer_handler_defs Let_def case_prod_beta post_ok_queue
       count_list_0_iff split: uv_status.split if_splits)


lemma timer_ok_drain_loop: "timer_ok (js @ ks) w \<Longrightarrow> timer_ok ks (drain_loop (timer_exec env) js w)"
  by (induction js arbitrary: w) (simp_all add: timer_ok_exec)

lemma timer_ok_swap:
  "timer_ok [] w \<Longrightarrow> timer_ok (rt_queue (fst w)) ((fst w)\<lparr>rt_wakeup := b, rt_queue := []\<rparr>, snd w)"
  by (simp add: timer_ok_def Let_def)

lemma timer_ok_on_async: "timer_ok [] w \<Longrightarrow> timer_ok [] (on_async (timer_exec env) w)"
  using timer_ok_drain_loop [of "rt_queue (fst w)" "[]"]
  by (simp add: on_async_def drain_def timer_ok_swap)

lemma timer_ok_step: "timer_ok [] w \<Longrightarrow> timer_ok [] (timer_step env e w)"
proof (cases e)
  case Ev_stop
  moreover assume "timer_ok [] w"
  ultimately show ?thesis
    by (auto simp: timer_ok_def Let_def post_ok_queue)
next
  case Ev_fire
  moreover assume "timer_ok [] w"
  ultimately show ?thesis
    by (auto simp: timer_ok_def timer_handler_defs Let_def case_prod_beta post_ok_queue
       count_list_0_iff split: if_splits)
next
  case Ev_closed
  moreover assume "timer_ok [] w"
  ultimately show ?thesis
    by (auto simp: timer_ok_def tw_on_closed_def Let_def split: if_splits)
qed (simp add: timer_ok_on_async)

lemma timer_ok_run: "timer_ok [] w \<Longrightarrow> timer_ok [] (timer_run env es w)"
  by (induction es arbitrary: w) (auto simp: timer_ok_step)

text \<open>The awaiter of \<open>sleep_for\<close> hands the loop a wait that satisfies the invariant.\<close>

lemma timer_ok_suspend:
  assumes "sleep_for_await_suspend False sp fires (rt, new_timer_wait) = (Inr b, w)"
    and "rt_queue rt = []" and "rt_send_rc rt = Uv_ok" and "\<not> rt_shutting_down rt"
  shows "timer_ok [] w" and "rt_wakeup (fst w)" and "b"
  using assms
  by (auto simp: sleep_for_await_suspend_def Let_def post_ok_queue new_timer_wait_def timer_ok_def
       post_def async_send_def split: if_splits)

lemma timer_step_not_stranded:
  assumes "timer_ok [] w" and "rt_queue (fst w) \<noteq> [] \<longrightarrow> rt_wakeup (fst w)"
  shows "rt_queue (fst (timer_step env e w)) \<noteq> [] \<longrightarrow> rt_wakeup (fst (timer_step env e w))"
proof (cases e)
  case Ev_loop
  with timer_jobs.on_async_not_stranded assms show ?thesis
    by (simp add: timer_ok_def Let_def)
qed (use assms in \<open>auto simp: timer_ok_def Let_def post_ok_queue timer_handler_defs case_prod_beta
      split: if_splits\<close>)

lemma timer_run_not_stranded:
  assumes "timer_ok [] w" and "rt_queue (fst w) \<noteq> [] \<longrightarrow> rt_wakeup (fst w)"
  shows "rt_queue (fst (timer_run env es w)) \<noteq> [] \<longrightarrow> rt_wakeup (fst (timer_run env es w))"
  using assms
proof (induction es arbitrary: w)
  case (Cons e es)
  then show ?case
    using timer_ok_step timer_step_not_stranded by simp
qed simp

text \<open>Jobs of a completed wait post nothing; jobs of any wait post only the resume job.\<close>

lemma timer_exec_completed:
  "tw_completed (snd w) \<Longrightarrow> tw_completed (snd (timer_exec env j w)) \<and> fst (timer_exec env j w) = fst w"
  by (cases j) (simp_all add: timer_handler_defs Let_def)

lemma drain_loop_completed:
  "tw_completed (snd w) \<Longrightarrow>
     tw_completed (snd (drain_loop (timer_exec env) js w)) \<and> fst (drain_loop (timer_exec env) js w) = fst w"
  by (induction js arbitrary: w) (simp_all add: timer_exec_completed)

lemma timer_exec_start_notin:
  "Timer_start \<notin> set (rt_queue (fst w)) \<Longrightarrow> Timer_start \<notin> set (rt_queue (fst (timer_exec env j w)))"
  by (cases j; cases "tw_ctx (snd w)")
    (auto simp: timer_handler_defs Let_def case_prod_beta post_queue split: uv_status.split)

lemma drain_loop_start_notin:
  "Timer_start \<notin> set (rt_queue (fst w)) \<Longrightarrow>
     Timer_start \<notin> set (rt_queue (fst (drain_loop (timer_exec env) js w)))"
  by (induction js arbitrary: w) (simp_all add: timer_exec_start_notin)

lemma timer_served:
  assumes "timer_ok [] w" and "rt_queue (fst w) \<noteq> [] \<longrightarrow> rt_wakeup (fst w)"
  shows "tw_completed (snd w) \<Longrightarrow> tw_resumes (snd (on_async (timer_exec env) w)) = 1"
    and "tw_completed (snd (on_async (timer_exec env) w)) \<or>
      tw_ctx (snd (on_async (timer_exec env) w)) = Some False"
proof -
  let ?w = "((fst w)\<lparr>rt_wakeup := False, rt_queue := []\<rparr>, snd w)"
  let ?w' = "on_async (timer_exec env) w"
  have ok: "timer_ok [] ?w'" using assms(1) by (rule timer_ok_on_async)
  have run: "?w' = drain_loop (timer_exec env) (rt_queue (fst w)) ?w \<or> (rt_queue (fst w) = [] \<and> ?w' = w)"
    using assms(2) by (auto simp: on_async_def drain_def)
  show "tw_resumes (snd ?w') = 1" if "tw_completed (snd w)"
  proof -
    have "rt_queue (fst ?w') = [] \<and> tw_completed (snd ?w')"
      using run drain_loop_completed [of ?w env "rt_queue (fst w)"] that by auto
    with ok show ?thesis by (simp add: timer_ok_def Let_def)
  qed
  have "Timer_start \<notin> set (rt_queue (fst ?w'))"
    using run drain_loop_start_notin [of ?w env "rt_queue (fst w)"] by auto
  with ok show "tw_completed (snd ?w') \<or> tw_ctx (snd ?w') = Some False"
    by (auto simp: timer_ok_def Let_def split: if_splits)
qed

text \<open>Without a firing of the timer a completed wait was cancelled or failed.\<close>

definition not_fired_ok :: "timer_wait \<Rightarrow> bool" where
  "not_fired_ok t \<longleftrightarrow> (tw_completed t \<longrightarrow> tw_cancelled t \<or> uv_failed (tw_status t))"

lemma not_fired_exec: "not_fired_ok (snd w) \<Longrightarrow> not_fired_ok (snd (timer_exec env j w))"
  by (cases j; cases "tw_ctx (snd w)")
    (auto simp: not_fired_ok_def timer_handler_defs Let_def case_prod_beta split: uv_status.split)

lemma not_fired_drain_loop:
  "not_fired_ok (snd w) \<Longrightarrow> not_fired_ok (snd (drain_loop (timer_exec env) js w))"
  by (induction js arbitrary: w) (simp_all add: not_fired_exec)

lemma not_fired_run:
  "Ev_fire \<notin> set es \<Longrightarrow> not_fired_ok (snd w) \<Longrightarrow> not_fired_ok (snd (timer_run env es w))"
proof (induction es arbitrary: w)
  case (Cons e es)
  have "not_fired_ok (snd (timer_step env e w))"
    using Cons.prems not_fired_drain_loop
      [of "((fst w)\<lparr>rt_wakeup := False, rt_queue := []\<rparr>, snd w)" env "rt_queue (fst w)"]
    by (cases e) (simp_all add: on_async_def drain_def not_fired_ok_def tw_on_closed_def)
  with Cons show ?case by simp
qed simp

section \<open>Properties\<close>

text \<open>
  When the timer has not fired, whatever completed the wait (a stop request, a failing
  \<open>uv_timer_init\<close> or \<open>uv_timer_start\<close>) makes \<open>await_resume\<close> throw.
\<close>

lemma sleep_for_throws_early:
  assumes "Ev_fire \<notin> set es"
    and "tw_completed (snd (timer_run env es w0))" and "\<not> tw_completed (snd w0)"
  shows "\<exists>e. sleep_for_await_resume stop_requested (snd (timer_run env es w0)) = Inl e"
proof -
  have "not_fired_ok (snd (timer_run env es w0))"
    using assms(1,3) by (intro not_fired_run) (simp_all add: not_fired_ok_def)
  with assms(2) show ?thesis
    by (cases "tw_status (snd (timer_run env es w0))")
      (auto simp: not_fired_ok_def sleep_for_await_resume_def)
qed

text \<open>
  C5. On a running loop a suspended \<open>sleep_for\<close> is resumed exactly once, whatever the order
  of stop request, loop turns, timer firing and handle close: never more than once after any
  run; once it has completed the next loop turn resumes it; and as long as it has not
  completed, a loop turn leaves its timer armed, so nothing is forgotten. It never ends early: when
  the timer has not fired, whatever completed the wait makes \<open>await_resume\<close> throw.
\<close>

theorem sleep_for_resumed_exactly_once:
  assumes "sleep_for_await_suspend False sp fires (rt, new_timer_wait) = (Inr True, w0)"
    and "rt_queue rt = []" and "rt_send_rc rt = Uv_ok" and "\<not> rt_shutting_down rt"
  shows "tw_resumes (snd (timer_run env es w0)) \<le> 1 \<and>
    (tw_completed (snd (timer_run env es w0)) \<longrightarrow>
       tw_resumes (snd (on_async (timer_exec env) (timer_run env es w0))) = 1) \<and>
    (tw_completed (snd (on_async (timer_exec env) (timer_run env es w0))) \<or>
       tw_ctx (snd (on_async (timer_exec env) (timer_run env es w0))) = Some False) \<and>
    (Ev_fire \<notin> set es \<and> tw_completed (snd (timer_run env es w0)) \<longrightarrow>
       (\<exists>e. sleep_for_await_resume stop_requested (snd (timer_run env es w0)) = Inl e))"
proof -
  note start = timer_ok_suspend [OF assms]
  have ok: "timer_ok [] (timer_run env es w0)"
    using start(1) by (rule timer_ok_run)
  have pending: "rt_queue (fst (timer_run env es w0)) \<noteq> [] \<longrightarrow> rt_wakeup (fst (timer_run env es w0))"
    using start by (intro timer_run_not_stranded) auto
  from ok have "tw_resumes (snd (timer_run env es w0)) \<le> 1"
    by (auto simp: timer_ok_def Let_def split: if_splits)
  moreover have "\<not> tw_completed (snd w0)"
    using assms(1) by (auto simp: sleep_for_await_suspend_def new_timer_wait_def Let_def split: prod.splits sum.splits)
  ultimately show ?thesis using timer_served [OF ok pending] sleep_for_throws_early [of es env w0 stop_requested] by blast
qed

theorem sleep_for_resumed_exactly_once_witness:
  "tw_resumes (snd (timer_run \<lparr>te_init_rc = Uv_ok, te_start_rc = Uv_ok\<rparr> [Ev_loop, Ev_fire, Ev_stop, Ev_loop]
     (snd (sleep_for_await_suspend False True False (new_runtime, new_timer_wait))))) \<le> 1"
proof -
  have "sleep_for_await_suspend False True False (new_runtime, new_timer_wait) =
      (Inr True, snd (sleep_for_await_suspend False True False (new_runtime, new_timer_wait)))"
    by (simp add: sleep_for_await_suspend_def new_runtime_def new_timer_wait_def post_def async_send_def)
  from sleep_for_resumed_exactly_once [OF this, of "\<lparr>te_init_rc = Uv_ok, te_start_rc = Uv_ok\<rparr>"
      "[Ev_loop, Ev_fire, Ev_stop, Ev_loop]"]
  show ?thesis by (simp add: new_runtime_def)
qed

end
