(* ===== verification/Waiters.thy ===== *)
theory Waiters
  imports Runtime "HOL-Library.Multiset"
begin

text \<open>
  The waiters of \<open>include/luvcoro/sync.hpp\<close> and the helpers of its \<open>detail\<close> namespace that all
  synchronisation primitives share. A waiter is a shared object: the queue of the primitive,
  the awaiter and the stop callback point to it. Waiters are numbered and live in a heap
  \<open>nat \<Rightarrow> waiter\<close>; a queue is a list of numbers. Resuming a coroutine is recorded: inline
  resumptions are appended to a log, posted ones go to the runtime's queue.
\<close>

section \<open>Waiters\<close>

text \<open>The handle and the stop callback are booleans: set or not.\<close>

record waiter =
  w_continuation :: bool
  w_stop_callback :: bool
  w_active :: bool
  w_completed :: bool
  w_cancelled :: bool

definition new_waiter :: waiter where
  "new_waiter = \<lparr>w_continuation = False, w_stop_callback = False, w_active = True,
     w_completed = False, w_cancelled = False\<rparr>"

type_synonym wheap = "nat \<Rightarrow> waiter"

text \<open>What a primitive's operation may do besides changing its own state.\<close>

type_synonym wake_ctx = "nat uv_runtime \<times> nat list"

text \<open>The outcome of a \<open>co_await\<close>: the coroutine is suspended, or it goes on with a result.\<close>

datatype 'a awaited = Suspended | Continues "'a result"

section \<open>The helpers of detail\<close>

definition require_runtime_thread :: "bool \<Rightarrow> string \<Rightarrow> unit result" where
  "require_runtime_thread is_loop_thread op_name =
     (if \<not> is_loop_thread
      then Inl (Runtime_error (op_name @ '' must be called on the bound runtime thread''))
      else Inr ())"

definition resume_waiter :: "bool \<Rightarrow> wheap \<Rightarrow> nat \<Rightarrow> wake_ctx \<Rightarrow> unit result \<times> wake_ctx" where
  "resume_waiter is_loop_thread heap w c =
     (if \<not> w_continuation (heap w) then (Inr (), c)
      else if is_loop_thread then (Inr (), fst c, snd c @ [w])
      else (case post w (fst c) of (r, rt) \<Rightarrow> (r, rt, snd c)))"

text \<open>The job that \<open>resume_waiter\<close> posts.\<close>

definition run_resume_job :: "wheap \<Rightarrow> nat \<Rightarrow> wake_ctx \<Rightarrow> wake_ctx" where
  "run_resume_job heap w c = (if w_continuation (heap w) then (fst c, snd c @ [w]) else c)"

definition resume_waiter_noexcept :: "bool \<Rightarrow> wheap \<Rightarrow> nat \<Rightarrow> wake_ctx \<Rightarrow> wake_ctx" where
  "resume_waiter_noexcept is_loop_thread heap w c = snd (resume_waiter is_loop_thread heap w c)"

fun prune_inactive :: "wheap \<Rightarrow> nat list \<Rightarrow> nat list" where
  "prune_inactive heap [] = []"
| "prune_inactive heap (w # ws) = (if \<not> w_active (heap w) then prune_inactive heap ws else w # ws)"

interpretation resume_jobs: posting_jobs "run_resume_job heap" for heap
  by unfold_locales (simp add: run_resume_job_def)

section \<open>Taking the front waiter\<close>

text \<open>
  What \<open>unlock\<close>, \<open>release\<close>, \<open>notify_one\<close>, \<open>notify_all\<close> and \<open>set\<close> do to wake somebody: drop the
  inactive waiters at the front, pop the first one and mark it completed.
\<close>

definition mark_woken :: "waiter \<Rightarrow> waiter" where
  "mark_woken w = w\<lparr>w_active := False, w_completed := True\<rparr>"

definition take_front :: "wheap \<times> nat list \<Rightarrow> (nat \<times> wheap \<times> nat list) option" where
  "take_front hq =
     (case prune_inactive (fst hq) (snd hq) of
        [] \<Rightarrow> None
      | w # ws \<Rightarrow> Some (w, (fst hq)(w := mark_woken (fst hq w)), ws))"

text \<open>The waiters of a queue that still wait.\<close>

definition live :: "wheap \<Rightarrow> nat list \<Rightarrow> nat list" where
  "live heap q = filter (\<lambda>w. w_active (heap w)) q"

lemma prune_inactive_dropWhile: "prune_inactive heap q = dropWhile (\<lambda>w. \<not> w_active (heap w)) q"
  by (induction q) auto

lemma live_prune [simp, live_simps]: "live heap (prune_inactive heap q) = live heap q"
  by (simp add: live_def prune_inactive_dropWhile)

lemma live_Nil [simp, live_simps]: "live heap [] = []"
  by (simp add: live_def)

lemma live_append [simp, live_simps]: "live heap (q @ q') = live heap q @ live heap q'"
  by (simp add: live_def)

lemma live_Cons [simp, live_simps]:
  "live heap (w # q) = (if w_active (heap w) then w # live heap q else live heap q)"
  by (simp add: live_def)

lemma live_upd_notin [simp, live_simps]: "w \<notin> set q \<Longrightarrow> live (heap(w := x)) q = live heap q"
  unfolding live_def by (rule filter_fun_upd_notin)

lemma set_live: "set (live heap q) = {w \<in> set q. w_active (heap w)}"
  by (auto simp: live_def)

lemma live_upd_inactive: "\<not> w_active x \<Longrightarrow> live (heap(w := x)) q = filter (\<lambda>v. v \<noteq> w) (live heap q)"
  by (induction q) auto

lemma live_upd_same: "w_active x = w_active (heap w) \<Longrightarrow> live (heap(w := x)) q = live heap q"
  by (induction q) auto

lemma distinct_prune [simp]: "distinct q \<Longrightarrow> distinct (prune_inactive heap q)"
  by (simp add: prune_inactive_dropWhile distinct_dropWhile)

lemma set_prune: "set (prune_inactive heap q) \<subseteq> set q"
  by (simp add: prune_inactive_dropWhile set_dropWhile_subset)

lemma prune_idem [simp]: "prune_inactive heap (prune_inactive heap q) = prune_inactive heap q"
  by (induction q) auto

lemma prune_upd_notin [simp]: "w \<notin> set q \<Longrightarrow> prune_inactive (heap(w := x)) q = prune_inactive heap q"
  by (induction q) auto

lemma notin_prune [simp]: "w \<notin> set q \<Longrightarrow> w \<notin> set (prune_inactive heap q)"
  using set_prune [of heap q] by auto

lemma prune_keeps_live: "v \<in> set q \<Longrightarrow> w_active (heap v) \<Longrightarrow> v \<in> set (prune_inactive heap q)"
  by (induction q) auto

lemma prune_Nil_iff [simp]: "prune_inactive heap q = [] \<longleftrightarrow> live heap q = []"
  by (induction q) auto

lemma prune_ConsD:
  "prune_inactive heap q = w # ws \<Longrightarrow> w_active (heap w) \<and> live heap q = w # live heap ws \<and> set ws \<subseteq> set q \<and> w \<in> set q"
  by (induction q) (auto split: if_splits)

lemma mark_woken_simps [simp]:
  "w_active (mark_woken w) = False" "w_completed (mark_woken w) = True"
  "w_cancelled (mark_woken w) = w_cancelled w" "w_continuation (mark_woken w) = w_continuation w"
  "w_stop_callback (mark_woken w) = w_stop_callback w"
  by (simp_all add: mark_woken_def)

lemma take_front_None_iff: "take_front (heap, q) = None \<longleftrightarrow> live heap q = []"
  by (auto simp: take_front_def split: list.split dest: prune_ConsD)

lemma take_front_Cons:
  "prune_inactive heap q = w # ws \<Longrightarrow> take_front (heap, q) = Some (w, heap(w := mark_woken (heap w)), ws)"
  by (simp add: take_front_def)

lemma take_front_Nil: "prune_inactive heap q = [] \<Longrightarrow> take_front (heap, q) = None"
  by (simp add: take_front_None_iff)

lemma take_front_SomeD:
  "take_front (heap, q) = Some (w, heap', q') \<Longrightarrow>
     heap' = heap(w := mark_woken (heap w)) \<and> prune_inactive heap q = w # q'"
  by (auto simp: take_front_def split: list.splits)

lemma mark_woken_idem [simp]: "mark_woken (mark_woken w) = mark_woken w"
  by (simp add: mark_woken_def)

section \<open>Resumptions done and pending\<close>

text \<open>The clients resumed so far and those whose resumption waits in the runtime's queue.\<close>

definition woken :: "wake_ctx \<Rightarrow> nat list" where
  "woken c = snd c @ rt_queue (fst c)"

definition ctx_ok :: "wake_ctx \<Rightarrow> bool" where
  "ctx_ok c \<longleftrightarrow> \<not> rt_shutting_down (fst c) \<and> rt_send_rc (fst c) = Uv_ok \<and>
     (rt_queue (fst c) \<noteq> [] \<longrightarrow> rt_wakeup (fst c))"

lemma ctx_ok_initial [simp]: "ctx_ok (new_runtime, [])"
  by (simp add: ctx_ok_def new_runtime_def)

lemma woken_initial [simp]: "woken (new_runtime, []) = []"
  by (simp add: woken_def new_runtime_def)

lemma woken_append_log [simp]: "set (woken (fst c, snd c @ [w])) = insert w (set (woken c))"
  by (auto simp: woken_def)

lemma ctx_ok_log [simp]: "ctx_ok (fst c, l) = ctx_ok c"
  by (simp add: ctx_ok_def)

lemma post_ok:
  assumes "ctx_ok c"
  shows "post w (fst c) = (Inr (), (fst c)\<lparr>rt_queue := rt_queue (fst c) @ [w], rt_wakeup := True\<rparr>)"
  using assms by (simp add: ctx_ok_def post_def async_send_def)

lemma resume_waiter_ok:
  assumes "ctx_ok c"
  shows "fst (resume_waiter b heap w c) = Inr ()"
    and "ctx_ok (snd (resume_waiter b heap w c))"
    and "mset (woken (snd (resume_waiter b heap w c))) =
      (if w_continuation (heap w) then {#w#} else {#}) + mset (woken c)"
    and "set (rt_queue (fst (snd (resume_waiter b heap w c)))) \<subseteq>
      set (rt_queue (fst c)) \<union> (if w_continuation (heap w) then {w} else {})"
  using assms post_ok [OF assms, of w] by (auto simp: resume_waiter_def woken_def ctx_ok_def)

lemma resume_waiter_woken_set:
  assumes "ctx_ok c"
  shows "set (woken (snd (resume_waiter b heap w c))) =
     (if w_continuation (heap w) then {w} else {}) \<union> set (woken c)"
proof -
  have "set_mset (mset (woken (snd (resume_waiter b heap w c)))) =
      set_mset ((if w_continuation (heap w) then {#w#} else {#}) + mset (woken c))"
    using resume_waiter_ok(3) [OF assms, of b heap w] by simp
  then show ?thesis by (simp split: if_splits)
qed

lemma drain_resume_jobs:
  "\<forall>w\<in>set js. w_continuation (heap w) \<Longrightarrow>
     drain_loop (run_resume_job heap) js c = (fst c, snd c @ js)"
  by (induction js arbitrary: c) (auto simp: run_resume_job_def)

lemma on_async_resume_jobs:
  assumes "ctx_ok c" and "\<forall>w\<in>set (rt_queue (fst c)). w_continuation (heap w)"
  shows "on_async (run_resume_job heap) c = ((fst c)\<lparr>rt_queue := [], rt_wakeup := False\<rparr>, woken c)"
proof (cases "rt_wakeup (fst c)")
  case True
  with assms(2) show ?thesis by (simp add: on_async_def drain_def drain_resume_jobs woken_def)
next
  case False
  with assms(1) have "rt_queue (fst c) = []" by (simp add: ctx_ok_def)
  with False show ?thesis by (cases c) (simp add: on_async_def woken_def)
qed

lemma on_async_resume_ok:
  assumes "ctx_ok c" and "\<forall>w\<in>set (rt_queue (fst c)). w_continuation (heap w)"
  shows "ctx_ok (on_async (run_resume_job heap) c)"
    and "woken (on_async (run_resume_job heap) c) = woken c"
    and "rt_queue (fst (on_async (run_resume_job heap) c)) = []"
    and "snd (on_async (run_resume_job heap) c) = woken c"
  using assms by (simp_all add: on_async_resume_jobs ctx_ok_def woken_def)

section \<open>Cancelling a waiter at once\<close>

text \<open>
  \<open>cancel_waiter\<close> of the primitives that any thread may use: under the lock the waiter is marked
  cancelled, unless it is done already, and after the lock it is resumed.
\<close>

definition cancel_now :: "bool \<Rightarrow> nat \<Rightarrow> wheap \<times> wake_ctx \<Rightarrow> wheap \<times> wake_ctx" where
  "cancel_now is_loop_thread w hc =
     (let x = fst hc w in
      if \<not> w_active x \<or> w_completed x then hc
      else
        let h = (fst hc)(w := x\<lparr>w_active := False, w_completed := True, w_cancelled := True\<rparr>);
            should_resume = w_continuation x
        in (h, if should_resume then resume_waiter_noexcept is_loop_thread h w (snd hc) else snd hc))"

lemma cancel_now_other: "v \<noteq> w \<Longrightarrow> fst (cancel_now b w hc) v = fst hc v"
  by (simp add: cancel_now_def Let_def)

lemma live_cancel_now:
  assumes "\<And>v. v \<in> set (live (fst hc) q) \<Longrightarrow> \<not> w_completed (fst hc v)"
  shows "live (fst (cancel_now b w hc)) q = filter (\<lambda>v. v \<noteq> w) (live (fst hc) q)"
proof (cases "w_active (fst hc w) \<and> \<not> w_completed (fst hc w)")
  case True
  then show ?thesis by (simp add: cancel_now_def Let_def live_upd_inactive)
next
  case False
  with assms have "w \<notin> set (live (fst hc) q)" by (auto simp: set_live)
  with False show ?thesis by (auto simp: cancel_now_def Let_def intro!: filter_True [symmetric])
qed

text \<open>Waking the waiters that were taken from the queue, in order.\<close>

fun resume_waiters :: "bool \<Rightarrow> wheap \<Rightarrow> nat list \<Rightarrow> wake_ctx \<Rightarrow> unit result \<times> wake_ctx" where
  "resume_waiters is_loop_thread heap [] c = (Inr (), c)"
| "resume_waiters is_loop_thread heap (w # ws) c =
     (case resume_waiter is_loop_thread heap w c of
        (Inl e, c') \<Rightarrow> (Inl e, c')
      | (Inr u, c') \<Rightarrow> resume_waiters is_loop_thread heap ws c')"

lemma resume_waiters_ok:
  assumes "ctx_ok c" and "\<forall>w\<in>set ws. w_continuation (heap w)"
  shows "fst (resume_waiters b heap ws c) = Inr () \<and> ctx_ok (snd (resume_waiters b heap ws c)) \<and>
    mset (woken (snd (resume_waiters b heap ws c))) = mset ws + mset (woken c)"
  using assms
proof (induction ws arbitrary: c)
  case (Cons w ws)
  obtain c' where r: "resume_waiter b heap w c = (Inr (), c')" "ctx_ok c'" "mset (woken c') = {#w#} + mset (woken c)"
    using resume_waiter_ok(1-3) [OF Cons.prems(1), of b heap w] Cons.prems(2)
    by (cases "resume_waiter b heap w c") auto
  with Cons.IH [of c'] Cons.prems(2) show ?case by simp
qed simp

lemma resume_waiters_loop:
  "\<forall>w\<in>set ws. w_continuation (heap w) \<Longrightarrow> resume_waiters True heap ws c = (Inr (), fst c, snd c @ ws)"
  by (induction ws arbitrary: c) (auto simp: resume_waiter_def)

section \<open>The interface of a wake-up queue\<close>

text \<open>
  What the primitives need of a queue of waiters: \<open>pop\<close> takes the waiter that has waited
  longest among those still waiting (\<open>alive\<close>), and there is one as long as somebody waits.
\<close>

locale wakeup_queue =
  fixes pop :: "'s \<Rightarrow> (nat \<times> 's) option"
    and alive :: "'s \<Rightarrow> nat list"
    and wf :: "'s \<Rightarrow> bool"
  assumes pop_None: "wf s \<Longrightarrow> pop s = None \<longleftrightarrow> alive s = []"
    and pop_Some: "wf s \<Longrightarrow> pop s = Some (w, s') \<Longrightarrow> alive s = w # alive s' \<and> wf s'"

text \<open>Popping at most \<open>n\<close> waiters.\<close>

fun pop_n :: "('s \<Rightarrow> (nat \<times> 's) option) \<Rightarrow> nat \<Rightarrow> 's \<Rightarrow> nat list \<times> 's" where
  "pop_n pop 0 s = ([], s)"
| "pop_n pop (Suc n) s =
     (case pop s of
        None \<Rightarrow> ([], s)
      | Some (w, s') \<Rightarrow> (case pop_n pop n s' of (ws, s'') \<Rightarrow> (w # ws, s'')))"

context wakeup_queue
begin

lemma pop_n_fifo:
  "wf s \<Longrightarrow> pop_n pop n s = (ws, s') \<Longrightarrow>
     ws = take n (alive s) \<and> alive s' = drop n (alive s) \<and> wf s'"
proof (induction n arbitrary: s ws s')
  case (Suc n)
  show ?case
  proof (cases "pop s")
    case None
    with Suc.prems pop_None show ?thesis by auto
  next
    case (Some p)
    obtain w t where p: "p = (w, t)" by fastforce
    obtain vs t' where rec: "pop_n pop n t = (vs, t')" by fastforce
    from Suc.prems Some p pop_Some have t: "alive s = w # alive t" "wf t" by auto
    with Suc.IH rec have "vs = take n (alive t) \<and> alive t' = drop n (alive t) \<and> wf t'" by blast
    with Suc.prems Some p rec t show ?thesis by simp
  qed
qed simp

lemma pop_n_all:
  assumes "wf s" and "length (alive s) \<le> n" and "pop_n pop n s = (ws, s')"
  shows "ws = alive s \<and> alive s' = []"
  using pop_n_fifo [OF assms(1,3)] assms(2) by simp

lemma pop_first: "wf s \<Longrightarrow> alive s = w # ws \<Longrightarrow> \<exists>s'. pop s = Some (w, s') \<and> alive s' = ws \<and> wf s'"
  using pop_None pop_Some by (cases "pop s") auto

end

text \<open>The deque of waiters of \<open>sync.hpp\<close> is one.\<close>

interpretation sync_queue: wakeup_queue take_front "\<lambda>hq. live (fst hq) (snd hq)" "\<lambda>hq. distinct (snd hq)"
proof (unfold_locales, goal_cases)
  case (1 s)
  then show ?case by (cases s) (simp add: take_front_None_iff)
next
  case (2 s w s')
  obtain heap q where s: "s = (heap, q)" by fastforce
  with 2 obtain ws where ws: "prune_inactive heap q = w # ws" "s' = (heap(w := mark_woken (heap w)), ws)"
    by (auto simp: take_front_def split: list.splits)
  with 2 s have "distinct (w # ws)" by (metis distinct_prune snd_conv)
  with ws s show ?case by (simp add: prune_ConsD)
qed

lemma pop_n_take_front_heap:
  "pop_n take_front n (heap, q) = (ws, t) \<Longrightarrow>
     fst t = (\<lambda>v. if v \<in> set ws then mark_woken (heap v) else heap v)"
proof (induction n arbitrary: heap q ws t)
  case (Suc n)
  show ?case
  proof (cases "take_front (heap, q)")
    case None
    with Suc.prems show ?thesis by auto
  next
    case (Some p)
    obtain w h' q' where p: "p = (w, h', q')" by (cases p) auto
    obtain vs t' where rec: "pop_n take_front n (h', q') = (vs, t')" by (metis surj_pair)
    from Suc.prems Some p rec have eq: "ws = w # vs" "t = t'" by auto
    from take_front_SomeD Some p have h': "h' = heap(w := mark_woken (heap w))" by blast
    from Suc.IH [OF rec] show ?thesis by (auto simp: eq h' fun_eq_iff)
  qed
qed auto

end
