(* ===== verification/Async_Mutex.thy ===== *)
theory Async_Mutex
  imports Waiters
begin

text \<open>
  \<open>async_mutex\<close> of \<open>include/luvcoro/sync.hpp\<close>, the mutex that any thread may use. Each block
  guarded by the system mutex is one function; the awaiter of \<open>lock\<close> is split where other
  threads may run in between.
\<close>

section \<open>State and operations\<close>

record async_mutex =
  am_locked :: bool
  am_waiters :: "nat list"
  am_heap :: wheap

definition new_async_mutex :: async_mutex where
  "new_async_mutex = \<lparr>am_locked = False, am_waiters = [], am_heap = (\<lambda>_. new_waiter)\<rparr>"

definition am_cancel_waiter :: "bool \<Rightarrow> nat \<Rightarrow> async_mutex \<times> wake_ctx \<Rightarrow> async_mutex \<times> wake_ctx" where
  "am_cancel_waiter is_loop_thread w mc =
     (let m = fst mc; x = am_heap m w in
      if \<not> w_active x \<or> w_completed x then mc
      else
        let m' = m\<lparr>am_heap := (am_heap m)(w := x\<lparr>w_active := False, w_completed := True, w_cancelled := True\<rparr>)\<rparr>;
            should_resume = w_continuation x
        in (m', if should_resume then resume_waiter_noexcept is_loop_thread (am_heap m') w (snd mc) else snd mc))"

definition am_await_ready :: "nat \<Rightarrow> async_mutex \<Rightarrow> bool \<times> async_mutex" where
  "am_await_ready w m =
     (let m = m\<lparr>am_waiters := prune_inactive (am_heap m) (am_waiters m)\<rparr> in
      if \<not> am_locked m \<and> am_waiters m = []
      then (True, m\<lparr>am_locked := True,
              am_heap := (am_heap m)(w := (am_heap m w)\<lparr>w_completed := True\<rparr>)\<rparr>)
      else (False, m))"

text \<open>The steps of \<open>await_suspend\<close>: refusal of a stopped token,\<close>

definition am_suspend_stopped :: "nat \<Rightarrow> async_mutex \<Rightarrow> async_mutex" where
  "am_suspend_stopped w m =
     m\<lparr>am_heap := (am_heap m)(w := (am_heap m w)\<lparr>w_completed := True, w_cancelled := True\<rparr>)\<rparr>"

text \<open>storing the handle and queueing under the lock (\<open>True\<close>: the mutex was free after all),\<close>

definition am_suspend_enqueue :: "nat \<Rightarrow> async_mutex \<Rightarrow> bool \<times> async_mutex" where
  "am_suspend_enqueue w m =
     (let m = m\<lparr>am_heap := (am_heap m)(w := (am_heap m w)\<lparr>w_continuation := True\<rparr>)\<rparr>;
          m = m\<lparr>am_waiters := prune_inactive (am_heap m) (am_waiters m)\<rparr> in
      if \<not> am_locked m \<and> am_waiters m = []
      then (True, m\<lparr>am_locked := True,
              am_heap := (am_heap m)(w := (am_heap m w)\<lparr>w_completed := True\<rparr>)\<rparr>)
      else (False, m\<lparr>am_waiters := am_waiters m @ [w]\<rparr>))"

text \<open>registering the stop callback, which runs at once when the token is already stopped,\<close>

definition am_suspend_register :: "bool \<Rightarrow> bool \<Rightarrow> bool \<Rightarrow> nat \<Rightarrow> async_mutex \<times> wake_ctx \<Rightarrow> async_mutex \<times> wake_ctx" where
  "am_suspend_register is_loop_thread stop_possible stop_requested w mc =
     (if stop_possible
      then
        let m = fst mc;
            m' = m\<lparr>am_heap := (am_heap m)(w := (am_heap m w)\<lparr>w_stop_callback := True\<rparr>)\<rparr>
        in if stop_requested then am_cancel_waiter is_loop_thread w (m', snd mc) else (m', snd mc)
      else mc)"

text \<open>and the answer under the lock.\<close>

definition am_suspend_answer :: "nat \<Rightarrow> async_mutex \<Rightarrow> bool" where
  "am_suspend_answer w m = (\<not> w_completed (am_heap m w))"

text \<open>
  The whole of \<open>await_suspend\<close> when nobody interferes. \<open>stopped_before\<close> and \<open>stopped_at_register\<close>
  are the token's state at its two readings.
\<close>

definition am_await_suspend :: "bool \<Rightarrow> bool \<Rightarrow> bool \<Rightarrow> bool \<Rightarrow> nat \<Rightarrow> async_mutex \<times> wake_ctx
    \<Rightarrow> bool \<times> async_mutex \<times> wake_ctx" where
  "am_await_suspend is_loop_thread stop_possible stopped_before stopped_at_register w mc =
     (if stopped_before then (False, am_suspend_stopped w (fst mc), snd mc)
      else (case am_suspend_enqueue w (fst mc) of
              (True, m) \<Rightarrow> (False, m, snd mc)
            | (False, m) \<Rightarrow>
                (let mc' = am_suspend_register is_loop_thread stop_possible stopped_at_register w (m, snd mc)
                 in (am_suspend_answer w (fst mc'), mc'))))"

definition am_await_resume :: "nat \<Rightarrow> async_mutex \<Rightarrow> unit result \<times> async_mutex" where
  "am_await_resume w m =
     (let m = m\<lparr>am_heap := (am_heap m)(w := (am_heap m w)\<lparr>w_stop_callback := False\<rparr>)\<rparr> in
      (if w_cancelled (am_heap m w) then Inl Operation_cancelled else Inr (), m))"

text \<open>\<open>co_await mutex.lock(token)\<close> up to its first suspension.\<close>

definition am_lock :: "bool \<Rightarrow> bool \<Rightarrow> bool \<Rightarrow> bool \<Rightarrow> nat \<Rightarrow> async_mutex \<times> wake_ctx
    \<Rightarrow> unit awaited \<times> async_mutex \<times> wake_ctx" where
  "am_lock is_loop_thread stop_possible stopped_before stopped_at_register w mc =
     (case am_await_ready w (fst mc) of
        (True, m) \<Rightarrow> (case am_await_resume w m of (r, m') \<Rightarrow> (Continues r, m', snd mc))
      | (False, m) \<Rightarrow>
          (case am_await_suspend is_loop_thread stop_possible stopped_before stopped_at_register w (m, snd mc) of
             (True, mc') \<Rightarrow> (Suspended, mc')
           | (False, mc') \<Rightarrow> (case am_await_resume w (fst mc') of (r, m') \<Rightarrow> (Continues r, m', snd mc'))))"

definition am_try_lock :: "async_mutex \<Rightarrow> bool \<times> async_mutex" where
  "am_try_lock m =
     (let m = m\<lparr>am_waiters := prune_inactive (am_heap m) (am_waiters m)\<rparr> in
      if am_locked m \<or> am_waiters m \<noteq> [] then (False, m)
      else (True, m\<lparr>am_locked := True\<rparr>))"

definition am_unlock :: "bool \<Rightarrow> async_mutex \<times> wake_ctx \<Rightarrow> unit result \<times> async_mutex \<times> wake_ctx" where
  "am_unlock is_loop_thread mc =
     (let m = fst mc in
      if \<not> am_locked m then (Inl (Runtime_error ''async_mutex is not locked''), mc)
      else (case take_front (am_heap m, am_waiters m) of
              None \<Rightarrow> (Inr (), m\<lparr>am_waiters := prune_inactive (am_heap m) (am_waiters m), am_locked := False\<rparr>, snd mc)
            | Some (next_waiter, heap, q) \<Rightarrow>
                (case resume_waiter is_loop_thread heap next_waiter (snd mc) of
                   (r, c) \<Rightarrow> (r, m\<lparr>am_heap := heap, am_waiters := q\<rparr>, c))))"


section \<open>Many threads\<close>

text \<open>
  One client per number \<open>w\<close>: it calls \<open>lock\<close> (with the waiter \<open>w\<close>) or \<open>try_lock\<close>, and may
  unlock once it holds the mutex. The program counter says how far the call has come. The log
  of the wake-up context lists every time the code after the \<open>co_await\<close> of a client is entered,
  be it inline, from a posted job, or because the awaiter did not suspend.
\<close>

datatype lock_pc = PNew | PSuspend | PEnqueued | PRegistered | PSuspended | PContinued | PTried

record am_sys =
  as_mutex :: async_mutex
  as_ctx :: wake_ctx
  as_pc :: "nat \<Rightarrow> lock_pc"
  as_released :: "nat set"

definition am_initial :: am_sys where
  "am_initial = \<lparr>as_mutex = new_async_mutex, as_ctx = (new_runtime, []), as_pc = (\<lambda>_. PNew),
     as_released = {}\<rparr>"

text \<open>The steps; the booleans are the thread a step runs on and the state of the stop token.\<close>

datatype am_event =
    Am_ready nat
  | Am_stopped nat
  | Am_enqueue nat
  | Am_register bool bool bool nat
  | Am_answer nat
  | Am_cancel bool nat
  | Am_try nat
  | Am_unlock bool nat
  | Am_loop

text \<open>A client that goes on without having been suspended.\<close>

definition am_continue :: "nat \<Rightarrow> async_mutex \<Rightarrow> am_sys \<Rightarrow> am_sys" where
  "am_continue w m s =
     s\<lparr>as_mutex := snd (am_await_resume w m), as_pc := (as_pc s)(w := PContinued),
       as_ctx := (fst (as_ctx s), snd (as_ctx s) @ [w])\<rparr>"

definition am_granted :: "am_sys \<Rightarrow> nat \<Rightarrow> bool" where
  "am_granted s w \<longleftrightarrow>
     (as_pc s w = PTried \<or> w_completed (am_heap (as_mutex s) w) \<and> \<not> w_cancelled (am_heap (as_mutex s) w)) \<and>
     w \<notin> as_released s"

definition am_holds :: "am_sys \<Rightarrow> nat \<Rightarrow> bool" where
  "am_holds s w \<longleftrightarrow> am_granted s w \<and> (as_pc s w = PTried \<or> w \<in> set (snd (as_ctx s)))"

fun am_step :: "am_event \<Rightarrow> am_sys \<Rightarrow> am_sys option" where
  "am_step (Am_ready w) s =
     (if as_pc s w = PNew
      then (case am_await_ready w (as_mutex s) of
              (True, m) \<Rightarrow> Some (am_continue w m s)
            | (False, m) \<Rightarrow> Some (s\<lparr>as_mutex := m, as_pc := (as_pc s)(w := PSuspend)\<rparr>))
      else None)"
| "am_step (Am_stopped w) s =
     (if as_pc s w = PSuspend
      then Some (am_continue w (am_suspend_stopped w (as_mutex s)) s)
      else None)"
| "am_step (Am_enqueue w) s =
     (if as_pc s w = PSuspend
      then (case am_suspend_enqueue w (as_mutex s) of
              (True, m) \<Rightarrow> Some (am_continue w m s)
            | (False, m) \<Rightarrow> Some (s\<lparr>as_mutex := m, as_pc := (as_pc s)(w := PEnqueued)\<rparr>))
      else None)"
| "am_step (Am_register is_loop_thread stop_possible stop_requested w) s =
     (if as_pc s w = PEnqueued
      then (case am_suspend_register is_loop_thread stop_possible stop_requested w (as_mutex s, as_ctx s) of
              (m, c) \<Rightarrow> Some (s\<lparr>as_mutex := m, as_ctx := c, as_pc := (as_pc s)(w := PRegistered)\<rparr>))
      else None)"
| "am_step (Am_answer w) s =
     (if as_pc s w = PRegistered
      then (if am_suspend_answer w (as_mutex s)
            then Some (s\<lparr>as_pc := (as_pc s)(w := PSuspended)\<rparr>)
            else Some (am_continue w (as_mutex s) s))
      else None)"
| "am_step (Am_cancel is_loop_thread w) s =
     (if w_stop_callback (am_heap (as_mutex s) w)
      then (case am_cancel_waiter is_loop_thread w (as_mutex s, as_ctx s) of
              (m, c) \<Rightarrow> Some (s\<lparr>as_mutex := m, as_ctx := c\<rparr>))
      else None)"
| "am_step (Am_try w) s =
     (if as_pc s w = PNew
      then (case am_try_lock (as_mutex s) of
              (True, m) \<Rightarrow> Some (s\<lparr>as_mutex := m, as_pc := (as_pc s)(w := PTried)\<rparr>)
            | (False, m) \<Rightarrow> Some (s\<lparr>as_mutex := m\<rparr>))
      else None)"
| "am_step (Am_unlock is_loop_thread w) s =
     (if am_holds s w
      then (case am_unlock is_loop_thread (as_mutex s, as_ctx s) of
              (r, m, c) \<Rightarrow> Some (s\<lparr>as_mutex := m, as_ctx := c, as_released := insert w (as_released s)\<rparr>))
      else None)"
| "am_step Am_loop s =
     Some (s\<lparr>as_ctx := on_async (run_resume_job (am_heap (as_mutex s))) (as_ctx s)\<rparr>)"

fun am_run :: "am_event list \<Rightarrow> am_sys \<Rightarrow> am_sys option" where
  "am_run [] s = Some s"
| "am_run (ev # evs) s = (case am_step ev s of None \<Rightarrow> None | Some s' \<Rightarrow> am_run evs s')"

inductive am_reachable :: "am_sys \<Rightarrow> bool" where
  am_start: "am_reachable am_initial"
| am_more: "am_reachable s \<Longrightarrow> am_step ev s = Some s' \<Longrightarrow> am_reachable s'"

section \<open>The invariant\<close>

text \<open>What holds of each client, by how far its call has come.\<close>

definition am_client_ok :: "am_sys \<Rightarrow> nat \<Rightarrow> bool" where
  "am_client_ok s w \<longleftrightarrow>
     (let h = am_heap (as_mutex s); q = am_waiters (as_mutex s); x = h w; woke = w \<in> set (woken (as_ctx s)) in
      (w \<in> as_released s \<longrightarrow> as_pc s w = PTried \<or> w_completed x \<and> \<not> w_cancelled x) \<and>
      (w \<in> set (rt_queue (fst (as_ctx s))) \<longrightarrow> w_continuation x) \<and>
      (case as_pc s w of
         PNew \<Rightarrow> x = new_waiter \<and> w \<notin> set q \<and> \<not> woke
       | PSuspend \<Rightarrow> x = new_waiter \<and> w \<notin> set q \<and> \<not> woke
       | PTried \<Rightarrow> x = new_waiter \<and> w \<notin> set q \<and> \<not> woke
       | PContinued \<Rightarrow> w_completed x \<and> w \<notin> set (live h q)
       | PSuspended \<Rightarrow> w_continuation x \<and> w_active x = (\<not> w_completed x) \<and>
           (w_active x \<longrightarrow> w \<in> set q) \<and> (w_cancelled x \<longrightarrow> w_completed x) \<and> woke = w_completed x
       | _ \<Rightarrow> w_continuation x \<and> w_active x = (\<not> w_completed x) \<and>
           (w_active x \<longrightarrow> w \<in> set q) \<and> (w_cancelled x \<longrightarrow> w_completed x) \<and> (woke \<longrightarrow> w_completed x)))"

definition am_inv :: "am_sys \<Rightarrow> bool" where
  "am_inv s \<longleftrightarrow>
     ctx_ok (as_ctx s) \<and> distinct (am_waiters (as_mutex s)) \<and>
     (am_locked (as_mutex s) \<longleftrightarrow> (\<exists>w. am_granted s w)) \<and>
     (\<forall>w v. am_granted s w \<longrightarrow> am_granted s v \<longrightarrow> w = v) \<and>
     (\<not> am_locked (as_mutex s) \<longrightarrow> live (am_heap (as_mutex s)) (am_waiters (as_mutex s)) = []) \<and>
     (\<forall>w. am_client_ok s w)"

lemma am_inv_initial: "am_inv am_initial"
  by (simp add: am_inv_def am_initial_def new_async_mutex_def am_granted_def am_client_ok_def new_waiter_def)

text \<open>Changing some clients only: the others keep their part.\<close>

definition am_others_kept :: "nat set \<Rightarrow> am_sys \<Rightarrow> am_sys \<Rightarrow> bool" where
  "am_others_kept W s s' \<longleftrightarrow>
     (\<forall>v. v \<notin> W \<longrightarrow> am_heap (as_mutex s') v = am_heap (as_mutex s) v \<and> as_pc s' v = as_pc s v \<and>
        (v \<in> as_released s' \<longleftrightarrow> v \<in> as_released s) \<and>
        (v \<in> set (woken (as_ctx s')) \<longleftrightarrow> v \<in> set (woken (as_ctx s))) \<and>
        (v \<in> set (rt_queue (fst (as_ctx s'))) \<longrightarrow> v \<in> set (rt_queue (fst (as_ctx s)))) \<and>
        (v \<in> set (am_waiters (as_mutex s')) \<longrightarrow> v \<in> set (am_waiters (as_mutex s))) \<and>
        (v \<in> set (am_waiters (as_mutex s)) \<longrightarrow> w_active (am_heap (as_mutex s) v) \<longrightarrow> v \<in> set (am_waiters (as_mutex s'))))"

lemma am_others_client_ok:
  "am_others_kept W s s' \<Longrightarrow> am_client_ok s v \<Longrightarrow> v \<notin> W \<Longrightarrow> am_client_ok s' v"
  unfolding am_others_kept_def am_client_ok_def Let_def set_live
  by (cases "as_pc s v") auto

lemma am_others_granted:
  "am_others_kept W s s' \<Longrightarrow> v \<notin> W \<Longrightarrow> am_granted s' v \<longleftrightarrow> am_granted s v"
  unfolding am_others_kept_def am_granted_def by auto

lemma am_inv_one:
  assumes "am_inv s" and "am_others_kept {w} s s'" and "am_client_ok s' w"
    and "ctx_ok (as_ctx s')" and "distinct (am_waiters (as_mutex s'))"
    and "am_locked (as_mutex s') \<longleftrightarrow> am_locked (as_mutex s) \<and> \<not> am_granted s w \<or> am_granted s' w"
    and "am_granted s' w \<Longrightarrow> am_granted s w \<or> \<not> am_locked (as_mutex s)"
    and "\<not> am_locked (as_mutex s') \<Longrightarrow> live (am_heap (as_mutex s')) (am_waiters (as_mutex s')) = []"
  shows "am_inv s'"
proof -
  have g: "am_granted s' v \<longleftrightarrow> am_granted s v" if "v \<noteq> w" for v
    using am_others_granted [OF assms(2), of v] that by simp
  from assms(1) have u: "am_granted s w \<Longrightarrow> am_granted s v \<Longrightarrow> w = v" for w v
    by (auto simp: am_inv_def)
  from assms(1) have l: "am_locked (as_mutex s) \<longleftrightarrow> (\<exists>w. am_granted s w)"
    by (auto simp: am_inv_def)
  have "am_locked (as_mutex s') \<longleftrightarrow> (\<exists>w. am_granted s' w)"
    using g u l assms(6) by metis
  moreover have "v = v'" if "am_granted s' v" "am_granted s' v'" for v v'
    using that g u l assms(7) by metis
  moreover have "am_client_ok s' v" for v
    using assms(1-3) am_others_client_ok [OF assms(2), of v] by (cases "v = w") (auto simp: am_inv_def)
  ultimately show ?thesis using assms(4,5,8) unfolding am_inv_def by blast
qed

lemmas am_unfold = am_client_ok_def am_granted_def am_others_kept_def am_continue_def
  am_await_resume_def Let_def

lemma am_inv_clientD: "am_inv s \<Longrightarrow> am_client_ok s w"
  by (simp add: am_inv_def)

lemma am_ready_inv:
  assumes "am_inv s" and "am_step (Am_ready w) s = Some s'"
  shows "am_inv s'"
proof -
  note cl = am_inv_clientD [OF assms(1), of w]
  from assms(2) have pc: "as_pc s w = PNew" by (simp split: if_splits)
  with cl have x: "am_heap (as_mutex s) w = new_waiter" "w \<notin> set (am_waiters (as_mutex s))"
      "w \<notin> set (woken (as_ctx s))" "w \<notin> as_released s"
    by (auto simp: am_client_ok_def Let_def new_waiter_def)
  let ?q = "prune_inactive (am_heap (as_mutex s)) (am_waiters (as_mutex s))"
  have q: "set ?q \<subseteq> set (am_waiters (as_mutex s))" by (rule set_prune)
  have g: "\<not> am_granted s w" using pc x by (simp add: am_granted_def new_waiter_def)
  show ?thesis
  proof (cases "\<not> am_locked (as_mutex s) \<and> live (am_heap (as_mutex s)) (am_waiters (as_mutex s)) = []")
    case True
    with assms(2) pc have s': "s' = am_continue w ((as_mutex s)\<lparr>am_waiters := ?q, am_locked := True,
        am_heap := (am_heap (as_mutex s))(w := (am_heap (as_mutex s) w)\<lparr>w_completed := True\<rparr>)\<rparr>) s"
      by (simp add: am_await_ready_def Let_def)
    show ?thesis
    proof (rule am_inv_one [OF assms(1), of w])
      show "am_others_kept {w} s s'"
        using x q True by (auto simp: s' am_unfold prune_keeps_live)
      show "am_client_ok s' w"
        using x q True by (auto simp: s' am_unfold new_waiter_def set_live woken_def)
    qed (use assms(1) x g pc True q in \<open>auto simp: s' am_unfold am_inv_def new_waiter_def\<close>)
  next
    case False
    with assms(2) pc have s': "s' = s\<lparr>as_mutex := (as_mutex s)\<lparr>am_waiters := ?q\<rparr>, as_pc := (as_pc s)(w := PSuspend)\<rparr>"
      by (auto simp: am_await_ready_def Let_def)
    show ?thesis
    proof (rule am_inv_one [OF assms(1), of w])
      show "am_others_kept {w} s s'"
        using x q by (auto simp: s' am_unfold prune_keeps_live)
      show "am_client_ok s' w"
        using x q by (auto simp: s' am_unfold new_waiter_def woken_def)
    qed (use assms(1) x g pc q in \<open>auto simp: s' am_unfold am_inv_def new_waiter_def\<close>)
  qed
qed

lemma am_new_client:
  assumes "am_inv s" and "as_pc s w = PNew \<or> as_pc s w = PSuspend"
  shows "am_heap (as_mutex s) w = new_waiter" "w \<notin> set (am_waiters (as_mutex s))"
    "w \<notin> set (woken (as_ctx s))" "w \<notin> as_released s" "w \<notin> set (rt_queue (fst (as_ctx s)))"
    "\<not> am_granted s w"
  using am_inv_clientD [OF assms(1), of w] assms(2)
  by (auto simp: am_client_ok_def Let_def new_waiter_def am_granted_def)

lemma am_stopped_inv:
  assumes "am_inv s" and "am_step (Am_stopped w) s = Some s'"
  shows "am_inv s'"
proof -
  from assms(2) have pc: "as_pc s w = PSuspend"
    and s': "s' = am_continue w (am_suspend_stopped w (as_mutex s)) s"
    by (simp_all split: if_splits)
  note x = am_new_client [OF assms(1) disjI2 [OF pc]]
  show ?thesis
  proof (rule am_inv_one [OF assms(1), of w])
    show "am_others_kept {w} s s'"
      using x by (auto simp: s' am_unfold am_suspend_stopped_def)
    show "am_client_ok s' w"
      using x by (auto simp: s' am_unfold am_suspend_stopped_def new_waiter_def set_live)
  qed (use assms(1) x pc in \<open>auto simp: s' am_unfold am_inv_def am_suspend_stopped_def new_waiter_def\<close>)
qed

lemma am_enqueue_inv:
  assumes "am_inv s" and "am_step (Am_enqueue w) s = Some s'"
  shows "am_inv s'"
proof -
  from assms(2) have pc: "as_pc s w = PSuspend" by (simp split: if_splits)
  note x = am_new_client [OF assms(1) disjI2 [OF pc]]
  let ?h = "(am_heap (as_mutex s))(w := new_waiter\<lparr>w_continuation := True\<rparr>)"
  let ?q = "prune_inactive ?h (am_waiters (as_mutex s))"
  have q: "set ?q \<subseteq> set (am_waiters (as_mutex s))" by (rule set_prune)
  have l: "live ?h (am_waiters (as_mutex s)) = live (am_heap (as_mutex s)) (am_waiters (as_mutex s))"
    using x by simp
  show ?thesis
  proof (cases "\<not> am_locked (as_mutex s) \<and> live (am_heap (as_mutex s)) (am_waiters (as_mutex s)) = []")
    case True
    with assms(2) pc x l have s': "s' = am_continue w ((as_mutex s)\<lparr>am_waiters := ?q, am_locked := True,
        am_heap := (am_heap (as_mutex s))(w := new_waiter\<lparr>w_continuation := True, w_completed := True\<rparr>)\<rparr>) s"
      by (simp add: am_suspend_enqueue_def Let_def)
    show ?thesis
    proof (rule am_inv_one [OF assms(1), of w])
      show "am_others_kept {w} s s'"
        using x q True by (auto simp: s' am_unfold prune_keeps_live)
      show "am_client_ok s' w"
        using x q True by (auto simp: s' am_unfold new_waiter_def set_live)
    qed (use assms(1) x pc True q in \<open>auto simp: s' am_unfold am_inv_def new_waiter_def\<close>)
  next
    case False
    with assms(2) pc x l have s': "s' = s\<lparr>as_mutex := (as_mutex s)\<lparr>am_waiters := ?q @ [w], am_heap := ?h\<rparr>,
        as_pc := (as_pc s)(w := PEnqueued)\<rparr>"
      by (auto simp: am_suspend_enqueue_def Let_def)
    show ?thesis
    proof (rule am_inv_one [OF assms(1), of w])
      show "am_others_kept {w} s s'"
        using x q by (auto simp: s' am_unfold prune_keeps_live)
      show "am_client_ok s' w"
        using x q by (auto simp: s' am_unfold new_waiter_def)
    qed (use assms(1) x pc q False in \<open>auto simp: s' am_unfold am_inv_def new_waiter_def\<close>)
  qed
qed

lemma am_try_inv:
  assumes "am_inv s" and "am_step (Am_try w) s = Some s'"
  shows "am_inv s'"
proof -
  from assms(2) have pc: "as_pc s w = PNew" by (simp split: if_splits)
  note x = am_new_client [OF assms(1) disjI1 [OF pc]]
  let ?q = "prune_inactive (am_heap (as_mutex s)) (am_waiters (as_mutex s))"
  have q: "set ?q \<subseteq> set (am_waiters (as_mutex s))" by (rule set_prune)
  show ?thesis
  proof (cases "\<not> am_locked (as_mutex s) \<and> live (am_heap (as_mutex s)) (am_waiters (as_mutex s)) = []")
    case True
    with assms(2) pc have s': "s' = s\<lparr>as_mutex := (as_mutex s)\<lparr>am_waiters := ?q, am_locked := True\<rparr>,
        as_pc := (as_pc s)(w := PTried)\<rparr>"
      by (simp add: am_try_lock_def Let_def)
    show ?thesis
    proof (rule am_inv_one [OF assms(1), of w])
      show "am_others_kept {w} s s'"
        using x q by (auto simp: s' am_unfold prune_keeps_live)
      show "am_client_ok s' w"
        using x q by (auto simp: s' am_unfold new_waiter_def)
    qed (use assms(1) x pc True q in \<open>auto simp: s' am_unfold am_inv_def new_waiter_def\<close>)
  next
    case False
    with assms(2) pc have s': "s' = s\<lparr>as_mutex := (as_mutex s)\<lparr>am_waiters := ?q\<rparr>\<rparr>"
      by (auto simp: am_try_lock_def Let_def)
    show ?thesis
    proof (rule am_inv_one [OF assms(1), of w])
      show "am_others_kept {w} s s'"
        using x q by (auto simp: s' am_unfold prune_keeps_live)
      show "am_client_ok s' w"
        using x q pc by (auto simp: s' am_unfold new_waiter_def)
    qed (use assms(1) x pc q in \<open>auto simp: s' am_unfold am_inv_def new_waiter_def\<close>)
  qed
qed

lemma am_cancel_waiter_inv:
  assumes "am_inv s" and "as_pc s w \<in> {PEnqueued, PRegistered, PSuspended, PContinued}"
  shows "am_inv (s\<lparr>as_mutex := fst (am_cancel_waiter b w (as_mutex s, as_ctx s)),
                   as_ctx := snd (am_cancel_waiter b w (as_mutex s, as_ctx s))\<rparr>)" (is "am_inv ?s")
proof (cases "w_active (am_heap (as_mutex s) w) \<and> \<not> w_completed (am_heap (as_mutex s) w)")
  case False
  then show ?thesis using assms(1) by (auto simp: am_cancel_waiter_def Let_def)
next
  case True
  let ?x = "(am_heap (as_mutex s) w)\<lparr>w_active := False, w_completed := True, w_cancelled := True\<rparr>"
  let ?h = "(am_heap (as_mutex s))(w := ?x)"
  let ?c = "snd (resume_waiter b ?h w (as_ctx s))"
  from True am_inv_clientD [OF assms(1), of w] assms(2)
  have cl: "w_continuation (am_heap (as_mutex s) w)" "w \<notin> as_released s" "as_pc s w \<in> {PEnqueued, PRegistered, PSuspended}"
    "w \<in> set (am_waiters (as_mutex s))"
    by (auto simp: am_client_ok_def Let_def)
  with True have s': "?s = s\<lparr>as_mutex := (as_mutex s)\<lparr>am_heap := ?h\<rparr>, as_ctx := ?c\<rparr>"
    by (simp add: am_cancel_waiter_def Let_def resume_waiter_noexcept_def)
  from assms(1) have ok: "ctx_ok (as_ctx s)" by (simp add: am_inv_def)
  note rw = resume_waiter_ok [OF ok, of b ?h w] resume_waiter_woken_set [OF ok, of b ?h w]
  have c: "set (woken ?c) = insert w (set (woken (as_ctx s)))" "ctx_ok ?c"
    "\<And>v. v \<in> set (rt_queue (fst ?c)) \<Longrightarrow> v \<noteq> w \<Longrightarrow> v \<in> set (rt_queue (fst (as_ctx s)))"
    using rw cl by auto
  have "\<not> am_granted s w" using True cl by (auto simp: am_granted_def)
  show ?thesis
    unfolding s'
  proof (rule am_inv_one [OF assms(1), of w], goal_cases)
    case 1
    then show ?case using c by (auto simp: am_unfold)
  next
    case 2
    then show ?case using cl c by (auto simp: am_unfold)
  qed (use assms(1) cl c True in \<open>auto simp: am_granted_def am_inv_def live_upd_inactive\<close>)
qed

lemma am_stop_callback_pc:
  assumes "am_inv s" and "w_stop_callback (am_heap (as_mutex s) w)"
  shows "as_pc s w \<in> {PEnqueued, PRegistered, PSuspended, PContinued}"
  using am_inv_clientD [OF assms(1), of w] assms(2)
  by (cases "as_pc s w") (auto simp: am_client_ok_def Let_def new_waiter_def)

lemma am_cancel_inv:
  assumes "am_inv s" and "am_step (Am_cancel b w) s = Some s'"
  shows "am_inv s'"
  using assms am_cancel_waiter_inv [OF assms(1) am_stop_callback_pc [OF assms(1)], of w b]
  by (auto simp: case_prod_beta split: if_splits)

lemma am_registered_inv:
  assumes "am_inv s" and "as_pc s w = PEnqueued"
    and "\<exists>b. h = (am_heap (as_mutex s))(w := (am_heap (as_mutex s) w)\<lparr>w_stop_callback := b\<rparr>)"
  shows "am_inv (s\<lparr>as_mutex := (as_mutex s)\<lparr>am_heap := h\<rparr>, as_pc := (as_pc s)(w := PRegistered)\<rparr>)"
proof -
  obtain b where h: "h = (am_heap (as_mutex s))(w := (am_heap (as_mutex s) w)\<lparr>w_stop_callback := b\<rparr>)"
    using assms(3) by blast
  note cl = am_inv_clientD [OF assms(1), of w]
  show ?thesis
    unfolding h
  proof (rule am_inv_one [OF assms(1), of w], goal_cases)
    case 1
    then show ?case by (auto simp: am_unfold)
  next
    case 2
    then show ?case using cl assms(2) by (auto simp: am_unfold)
  qed (use assms(1,2) in \<open>auto simp: am_granted_def am_inv_def live_upd_same\<close>)
qed

lemma am_register_inv:
  assumes "am_inv s" and "am_step (Am_register b sp sr w) s = Some s'"
  shows "am_inv s'"
proof -
  from assms(2) have pc: "as_pc s w = PEnqueued" by (simp split: if_splits)
  show ?thesis
  proof (cases sp)
    case False
    have "s\<lparr>as_mutex := (as_mutex s)\<lparr>am_heap := (am_heap (as_mutex s))(w := (am_heap (as_mutex s) w)\<lparr>w_stop_callback := w_stop_callback (am_heap (as_mutex s) w)\<rparr>)\<rparr>, as_pc := (as_pc s)(w := PRegistered)\<rparr> = s'"
      using False assms(2) pc by (simp add: am_suspend_register_def)
    with am_registered_inv [OF assms(1) pc] show ?thesis by metis
  next
    case True
    let ?s = "s\<lparr>as_mutex := (as_mutex s)\<lparr>am_heap := (am_heap (as_mutex s))(w := (am_heap (as_mutex s) w)\<lparr>w_stop_callback := True\<rparr>)\<rparr>, as_pc := (as_pc s)(w := PRegistered)\<rparr>"
    have i: "am_inv ?s" using am_registered_inv [OF assms(1) pc] by blast
    show ?thesis
    proof (cases sr)
      case True
      with \<open>sp\<close> assms(2) pc have "s' = ?s\<lparr>as_mutex := fst (am_cancel_waiter b w (as_mutex ?s, as_ctx ?s)),
                   as_ctx := snd (am_cancel_waiter b w (as_mutex ?s, as_ctx ?s))\<rparr>"
        by (intro am_sys.equality) (auto simp: am_suspend_register_def Let_def case_prod_beta)
      with am_cancel_waiter_inv [OF i, of w b] show ?thesis by simp
    next
      case False
      with True assms(2) pc have "s' = ?s" by (simp add: am_suspend_register_def Let_def)
      with i show ?thesis by simp
    qed
  qed
qed

lemma am_answer_inv:
  assumes "am_inv s" and "am_step (Am_answer w) s = Some s'"
  shows "am_inv s'"
proof -
  from assms(2) have pc: "as_pc s w = PRegistered" by (simp split: if_splits)
  note cl = am_inv_clientD [OF assms(1), of w]
  show ?thesis
  proof (cases "w_completed (am_heap (as_mutex s) w)")
    case True
    with assms(2) pc have s': "s' = am_continue w (as_mutex s) s"
      by (simp add: am_suspend_answer_def)
    show ?thesis
    proof (rule am_inv_one [OF assms(1), of w], goal_cases)
      case 1
      then show ?case by (auto simp: s' am_unfold)
    next
      case 2
      then show ?case using cl pc True by (auto simp: s' am_unfold set_live)
    qed (use assms(1) pc True in \<open>auto simp: s' am_unfold am_inv_def live_upd_same\<close>)
  next
    case False
    with assms(2) pc have s': "s' = s\<lparr>as_pc := (as_pc s)(w := PSuspended)\<rparr>"
      by (simp add: am_suspend_answer_def)
    show ?thesis
    proof (rule am_inv_one [OF assms(1), of w], goal_cases)
      case 1
      then show ?case by (auto simp: s' am_unfold)
    next
      case 2
      then show ?case using cl pc False by (auto simp: s' am_unfold set_live)
    qed (use assms(1) pc False in \<open>auto simp: s' am_unfold am_inv_def\<close>)
  qed
qed

lemma am_loop_inv:
  assumes "am_inv s" and "am_step Am_loop s = Some s'"
  shows "am_inv s'"
proof -
  have "\<forall>w\<in>set (rt_queue (fst (as_ctx s))). w_continuation (am_heap (as_mutex s) w)"
    using am_inv_clientD [OF assms(1)] by (auto simp: am_client_ok_def Let_def)
  moreover have "ctx_ok (as_ctx s)" using assms(1) by (simp add: am_inv_def)
  ultimately have c: "ctx_ok (as_ctx s')" "woken (as_ctx s') = woken (as_ctx s)" "rt_queue (fst (as_ctx s')) = []"
    using assms(2) by (auto simp: on_async_resume_ok)
  from assms(2) have s': "as_mutex s' = as_mutex s" "as_pc s' = as_pc s" "as_released s' = as_released s" by auto
  have "am_client_ok s' v" for v
    using am_inv_clientD [OF assms(1), of v] c s' by (auto simp: am_client_ok_def Let_def)
  with assms(1) c s' show ?thesis by (simp add: am_inv_def am_granted_def)
qed

text \<open>Handing the mutex over changes two clients: the one that leaves and the one it wakes.\<close>

lemma am_unlock_inv:
  assumes "am_inv s" and "am_step (Am_unlock b w) s = Some s'"
  shows "am_inv s'"
proof -
  let ?h = "am_heap (as_mutex s)" and ?q = "am_waiters (as_mutex s)"
  from assms(2) have g: "am_granted s w" by (simp add: am_holds_def split: if_splits)
  from assms(2) have step: "as_mutex s' = fst (snd (am_unlock b (as_mutex s, as_ctx s)))"
      "as_ctx s' = snd (snd (am_unlock b (as_mutex s, as_ctx s)))"
      "as_released s' = insert w (as_released s)" "as_pc s' = as_pc s"
    by (auto simp: case_prod_beta split: if_splits)
  from g assms(1) have lk: "am_locked (as_mutex s)" and only: "\<And>v. am_granted s v \<Longrightarrow> v = w"
    and ok: "ctx_ok (as_ctx s)" and dq: "distinct ?q"
    by (auto simp: am_inv_def)
  note cl = am_inv_clientD [OF assms(1)]
  show ?thesis
  proof (cases "take_front (?h, ?q)")
    case None
    let ?q' = "prune_inactive ?h ?q"
    from None lk step have s': "as_mutex s' = (as_mutex s)\<lparr>am_waiters := ?q', am_locked := False\<rparr>" "as_ctx s' = as_ctx s"
      by (simp_all add: am_unlock_def Let_def)
    have q: "set ?q' \<subseteq> set ?q" by (rule set_prune)
    from None have l: "live ?h ?q = []" by (simp add: take_front_None_iff)
    show ?thesis
    proof (rule am_inv_one [OF assms(1), of w], goal_cases)
      case 1
      then show ?case using q step(3,4) by (auto simp: s' am_unfold prune_keeps_live)
    next
      case 2
      then show ?case using cl [of w] g q step(3,4) by (auto simp: s' am_unfold prune_keeps_live set_live split: lock_pc.splits)
    qed (use assms(1) g l step(3,4) in \<open>auto simp: s' am_inv_def am_granted_def\<close>)
  next
    case (Some p)
    obtain v h' q' where p: "p = (v, h', q')" by (cases p) auto
    with Some have tf: "take_front (?h, ?q) = Some (v, h', q')" by simp
    have pop: "live ?h ?q = v # live h' q'" "distinct q'"
      using sync_queue.pop_Some [OF _ tf] dq by simp_all
    from tf have h': "h' = ?h(v := mark_woken (?h v))" and pr: "prune_inactive ?h ?q = v # q'"
      by (auto simp: take_front_def split: list.splits)
    from pr have q': "set q' \<subseteq> set ?q" "v \<notin> set q'" "v \<in> set ?q"
      using set_prune [of ?h ?q] distinct_prune [OF dq, of ?h] by auto
    from pop have "v \<in> set (live ?h ?q)" by simp
    then have act: "w_active (?h v)" by (simp add: set_live)
    with cl [of v] q' have v: "w_continuation (?h v)" "\<not> w_completed (?h v)" "\<not> w_cancelled (?h v)"
        "as_pc s v \<in> {PEnqueued, PRegistered, PSuspended}" "v \<notin> as_released s"
      by (auto simp: am_client_ok_def Let_def set_live split: lock_pc.splits)
    with g have vw: "v \<noteq> w" by (auto simp: am_granted_def)
    let ?c = "snd (resume_waiter b h' v (as_ctx s))"
    from tf lk step have s': "as_mutex s' = (as_mutex s)\<lparr>am_heap := h', am_waiters := q'\<rparr>" "as_ctx s' = ?c"
      by (simp_all add: am_unlock_def Let_def case_prod_beta)
    note rw = resume_waiter_ok [OF ok, of b h' v] resume_waiter_woken_set [OF ok, of b h' v]
    have c: "set (woken ?c) = insert v (set (woken (as_ctx s)))" "ctx_ok ?c"
      "\<And>u. u \<in> set (rt_queue (fst ?c)) \<Longrightarrow> u \<noteq> v \<Longrightarrow> u \<in> set (rt_queue (fst (as_ctx s)))"
      using rw v h' by auto
    have keep: "u \<in> set q'" if "u \<in> set ?q" "w_active (?h u)" "u \<noteq> v" for u
      using prune_keeps_live [of u ?q ?h] that pr by simp
    have others: "am_others_kept {v, w} s s'"
      using c q' keep step(3,4) by (auto simp: am_others_kept_def s' h')
    have okv: "am_client_ok s' v"
      using cl [of v] v vw c act q' step(3,4) by (auto simp: am_client_ok_def Let_def s' h' split: lock_pc.splits)
    have okw: "am_client_ok s' w"
      using cl [of w] g vw c q' keep step(3,4)
      by (auto simp: am_client_ok_def Let_def s' h' am_granted_def set_live split: lock_pc.splits)
    have okc: "am_client_ok s' u" for u
      using okv okw am_others_client_ok [OF others cl [of u]] by (cases "u = v"; cases "u = w") auto
    have gr: "am_granted s' u \<longleftrightarrow> u = v" for u
      using v vw step(3,4) only am_others_granted [OF others, of u]
      by (cases "u = v"; cases "u = w") (auto simp: am_granted_def s' h')
    from okc gr c pop lk show ?thesis by (simp add: am_inv_def s')
  qed
qed

theorem am_step_inv: "am_inv s \<Longrightarrow> am_step ev s = Some s' \<Longrightarrow> am_inv s'"
  by (cases ev; hypsubst)
    (rule am_ready_inv am_stopped_inv am_enqueue_inv am_register_inv am_answer_inv am_cancel_inv
       am_try_inv am_unlock_inv am_loop_inv, assumption, assumption)+

lemma am_reachable_inv: "am_reachable s \<Longrightarrow> am_inv s"
  by (induction rule: am_reachable.induct) (auto simp: am_inv_initial am_step_inv simp del: am_step.simps)


section \<open>What the mutex promises\<close>

text \<open>
  C1. Mutual exclusion: however the steps of the lock calls, cancellations, unlocks and posted
  resumptions interleave, two clients that hold the mutex are the same one, and it is locked.
\<close>
theorem am_mutual_exclusion:
  assumes "am_reachable s" and "am_holds s w" and "am_holds s v"
  shows "w = v \<and> am_locked (as_mutex s)"
  using am_reachable_inv [OF assms(1)] assms(2,3) by (auto simp: am_inv_def am_holds_def)

lemma am_run_reachable: "am_reachable s \<Longrightarrow> am_run evs s = Some s' \<Longrightarrow> am_reachable s'"
  by (induction evs arbitrary: s) (auto split: option.splits intro: am_more simp del: am_step.simps)

lemmas am_run_eval = am_initial_def new_async_mutex_def new_waiter_def new_runtime_def am_await_ready_def
  am_continue_def am_await_resume_def am_suspend_enqueue_def am_suspend_register_def am_suspend_answer_def
  am_cancel_waiter_def am_try_lock_def am_unlock_def take_front_def mark_woken_def resume_waiter_def
  resume_waiter_noexcept_def post_def async_send_def on_async_def drain_def run_resume_job_def
  am_holds_def am_granted_def Let_def am_suspend_stopped_def am_await_suspend_def live_def

text \<open>Client 1 has got the mutex from client 0, which unlocked it on another thread.\<close>

definition am_trace_handover :: "am_event list" where
  "am_trace_handover = [Am_ready 0, Am_ready 1, Am_enqueue 1, Am_register True True False 1, Am_answer 1,
     Am_unlock False 0, Am_loop]"

theorem am_mutual_exclusion_witness:
  "\<exists>s. am_run am_trace_handover am_initial = Some s \<and> am_holds s 1 \<and> am_locked (as_mutex s)"
proof -
  obtain s where s: "am_run am_trace_handover am_initial = Some s" and h: "am_holds s 1"
    by (simp add: am_trace_handover_def am_run_eval)
  from am_mutual_exclusion [OF am_run_reachable [OF am_start s] h h] s h show ?thesis by blast
qed

text \<open>
  C2. No lost wake-up: once the mutex is free, no client stays suspended in \<open>lock\<close> for longer
  than the runtime needs to run the jobs that are queued.
\<close>
theorem am_no_lost_wakeup:
  assumes "am_reachable s" and "as_pc s w = PSuspended" and "\<not> am_locked (as_mutex s)"
    and "am_step Am_loop s = Some s'"
  shows "w \<in> set (snd (as_ctx s'))"
proof -
  from am_reachable_inv [OF assms(1)] have i: "am_inv s" .
  from i assms(3) have "live (am_heap (as_mutex s)) (am_waiters (as_mutex s)) = []" by (simp add: am_inv_def)
  then have "\<not> (w \<in> set (am_waiters (as_mutex s)) \<and> w_active (am_heap (as_mutex s) w))"
    by (metis (mono_tags, lifting) empty_iff list.set(1) mem_Collect_eq set_live)
  with am_inv_clientD [OF i, of w] assms(2) have "w \<in> set (woken (as_ctx s))"
    by (auto simp: am_client_ok_def Let_def)
  moreover have "\<forall>w\<in>set (rt_queue (fst (as_ctx s))). w_continuation (am_heap (as_mutex s) w)"
    using am_inv_clientD [OF i] by (auto simp: am_client_ok_def Let_def)
  ultimately show ?thesis
    using assms(4) i by (auto simp: am_inv_def on_async_resume_ok)
qed

text \<open>Client 1 is cancelled from another thread, then client 0 unlocks.\<close>

definition am_trace_cancel :: "am_event list" where
  "am_trace_cancel = [Am_ready 0, Am_ready 1, Am_enqueue 1, Am_register True True False 1, Am_answer 1,
     Am_cancel False 1, Am_unlock True 0]"

theorem am_no_lost_wakeup_witness:
  "\<exists>s s'. am_run am_trace_cancel am_initial = Some s \<and> am_step Am_loop s = Some s' \<and> 1 \<in> set (snd (as_ctx s'))"
proof -
  obtain s where s: "am_run am_trace_cancel am_initial = Some s" and
    h: "as_pc s 1 = PSuspended" "\<not> am_locked (as_mutex s)"
    by (simp add: am_trace_cancel_def am_run_eval)
  obtain s' where s': "am_step Am_loop s = Some s'" by simp
  from am_no_lost_wakeup [OF am_run_reachable [OF am_start s] h s'] s s' show ?thesis by blast
qed

text \<open>
  Handover is first come, first served: unlocking gives the mutex to the client that has
  waited longest among those still waiting, without ever freeing it in between.
\<close>
theorem am_unlock_fifo:
  assumes "am_reachable s" and "am_holds s w" and "live (am_heap (as_mutex s)) (am_waiters (as_mutex s)) = v # vs"
  shows "\<exists>s'. am_step (Am_unlock b w) s = Some s' \<and> am_locked (as_mutex s') \<and> am_granted s' v \<and>
    live (am_heap (as_mutex s')) (am_waiters (as_mutex s')) = vs \<and> v \<in> set (woken (as_ctx s'))"
proof -
  let ?h = "am_heap (as_mutex s)" and ?q = "am_waiters (as_mutex s)"
  from am_reachable_inv [OF assms(1)] have i: "am_inv s" .
  then have ok: "ctx_ok (as_ctx s)" and dq: "distinct ?q" by (simp_all add: am_inv_def)
  from sync_queue.pop_first [of "(?h, ?q)"] dq assms(3)
  obtain h' q' where tf: "take_front (?h, ?q) = Some (v, h', q')" and l: "live h' q' = vs" by auto
  from tf have h': "h' = ?h(v := mark_woken (?h v))" by (auto simp: take_front_def split: list.splits)
  from assms(3) have vq: "v \<in> set ?q" "w_active (?h v)"
    using set_live [of ?h ?q] by auto
  with am_inv_clientD [OF i, of v]
  have v: "w_continuation (?h v)" "\<not> w_completed (?h v)" "\<not> w_cancelled (?h v)" "v \<notin> as_released s" "as_pc s v \<noteq> PTried"
    by (auto simp: am_client_ok_def Let_def set_live split: lock_pc.splits)
  with assms(2) have vw: "v \<noteq> w" by (auto simp: am_holds_def am_granted_def)
  from assms(2) i have lk: "am_locked (as_mutex s)" by (auto simp: am_holds_def am_inv_def)
  obtain s' where step: "am_step (Am_unlock b w) s = Some s'" using assms(2) by (simp add: case_prod_beta)
  with assms(2) lk tf have s': "as_mutex s' = (as_mutex s)\<lparr>am_heap := h', am_waiters := q'\<rparr>"
      "as_ctx s' = snd (resume_waiter b h' v (as_ctx s))" "as_released s' = insert w (as_released s)"
    by (auto simp: case_prod_beta am_unlock_def Let_def)
  show ?thesis
    using step s' l lk v vw resume_waiter_woken_set [OF ok, of b h' v]
    by (intro exI [of _ s']) (simp add: am_granted_def h' del: am_step.simps)
qed

theorem am_unlock_fifo_witness:
  "\<exists>s s'. am_run [Am_ready 0, Am_ready 1, Am_enqueue 1, Am_ready 2, Am_enqueue 2] am_initial = Some s \<and>
     am_step (Am_unlock True 0) s = Some s' \<and> am_granted s' 1 \<and>
     live (am_heap (as_mutex s')) (am_waiters (as_mutex s')) = [2]"
proof -
  obtain s where s: "am_run [Am_ready 0, Am_ready 1, Am_enqueue 1, Am_ready 2, Am_enqueue 2] am_initial = Some s"
    and h: "am_holds s 0" "live (am_heap (as_mutex s)) (am_waiters (as_mutex s)) = [1, 2]"
    by (simp add: am_run_eval)
  from am_unlock_fifo [OF am_run_reachable [OF am_start s] h, of True] s show ?thesis by blast
qed


section \<open>Resuming once\<close>

text \<open>
  Is every suspended client resumed only once? Not when \<open>unlock\<close> runs on another thread between
  the queueing and the last check of \<open>await_suspend\<close>: it finds the handle already stored and
  posts a resumption, and the check then lets the coroutine go on as well.
\<close>

definition am_trace_race :: "am_event list" where
  "am_trace_race = [Am_ready 0, Am_ready 1, Am_enqueue 1, Am_unlock False 0, Am_register True True False 1,
     Am_answer 1, Am_loop]"

text \<open>
  The code after \<open>co_await mutex.lock()\<close> can be entered twice for one call: the steps of one
  \<open>lock\<close> on the runtime thread interleaved with one \<open>unlock\<close> on another thread reach it.
\<close>
theorem am_double_resume_reachable:
  "\<exists>s. am_reachable s \<and> am_run am_trace_race am_initial = Some s \<and> count_list (snd (as_ctx s)) 1 = 2"
proof -
  obtain s where "am_run am_trace_race am_initial = Some s" "count_list (snd (as_ctx s)) 1 = 2"
    by (simp add: am_trace_race_def am_run_eval)
  with am_run_reachable [OF am_start] show ?thesis by blast
qed

text \<open>
  Runs without that interference: while a client is between queueing and its last check, only
  that client moves, and its token is not stopped in between.
\<close>

definition am_calm :: "am_event \<Rightarrow> am_sys \<Rightarrow> bool" where
  "am_calm ev s \<longleftrightarrow>
     (\<forall>w. as_pc s w \<in> {PEnqueued, PRegistered} \<longrightarrow> (\<exists>b sp. ev = Am_register b sp False w) \<or> ev = Am_answer w)"

inductive am_calm_reachable :: "am_sys \<Rightarrow> bool" where
  am_calm_start: "am_calm_reachable am_initial"
| am_calm_more: "am_calm_reachable s \<Longrightarrow> am_calm ev s \<Longrightarrow> am_step ev s = Some s' \<Longrightarrow> am_calm_reachable s'"

definition am_once :: "am_sys \<Rightarrow> bool" where
  "am_once s \<longleftrightarrow> distinct (woken (as_ctx s)) \<and>
     (\<forall>w. as_pc s w \<in> {PEnqueued, PRegistered} \<longrightarrow> \<not> w_completed (am_heap (as_mutex s) w)) \<and>
     (\<forall>w. w \<in> set (woken (as_ctx s)) \<longrightarrow> w_completed (am_heap (as_mutex s) w))"

lemma am_calm_reachable_imp: "am_calm_reachable s \<Longrightarrow> am_reachable s"
  by (induction rule: am_calm_reachable.induct) (auto intro: am_start am_more simp del: am_step.simps)

lemma distinct_woken_log: "distinct (woken (fst c, snd c @ [w])) \<longleftrightarrow> w \<notin> set (woken c) \<and> distinct (woken c)"
  by (auto simp: woken_def)

lemma distinct_woken_resume:
  assumes "ctx_ok c" and "w \<notin> set (woken c)" and "distinct (woken c)"
  shows "distinct (woken (snd (resume_waiter b h w c)))"
proof (cases "w_continuation (h w)")
  case True
  with resume_waiter_ok(3) [OF assms(1), of b h w]
  have "mset (woken (snd (resume_waiter b h w c))) = mset (w # woken c)" by simp
  then have "distinct (woken (snd (resume_waiter b h w c))) \<longleftrightarrow> distinct (w # woken c)"
    by (rule mset_eq_imp_distinct_iff)
  with assms show ?thesis by simp
next
  case False
  with assms(3) show ?thesis by (simp add: resume_waiter_def)
qed

text \<open>A step that lets one new client go on, or wakes one waiting client, keeps it.\<close>

lemma am_once_continue:
  assumes "am_once s" and "w \<notin> set (woken (as_ctx s))" and "w_completed (am_heap m w)"
    and "\<forall>v. v \<noteq> w \<longrightarrow> am_heap m v = am_heap (as_mutex s) v"
  shows "am_once (am_continue w m s)"
  using assms by (auto simp: am_once_def am_continue_def am_await_resume_def Let_def distinct_woken_log)

lemma am_once_wake:
  assumes "am_once s" and "ctx_ok (as_ctx s)" and "w_completed (am_heap m w)"
    and "\<not> w_completed (am_heap (as_mutex s) w)" and "as_pc s w \<notin> {PEnqueued, PRegistered}"
    and "\<forall>v. v \<noteq> w \<longrightarrow> am_heap m v = am_heap (as_mutex s) v"
    and "as_mutex s' = m" and "as_ctx s' = snd (resume_waiter b (am_heap m) w (as_ctx s))" and "as_pc s' = as_pc s"
  shows "am_once s'"
proof -
  from assms(1,4) have nw: "w \<notin> set (woken (as_ctx s))" "distinct (woken (as_ctx s))" by (auto simp: am_once_def)
  from distinct_woken_resume [OF assms(2) nw, of b "am_heap m"] resume_waiter_woken_set [OF assms(2), of b "am_heap m" w]
  have "distinct (woken (as_ctx s'))" "set (woken (as_ctx s')) \<subseteq> insert w (set (woken (as_ctx s)))"
    using assms(8) by auto
  with assms(1,3,5-7,9) show ?thesis unfolding am_once_def by (metis insert_iff subsetD)
qed

lemma am_once_cancel:
  assumes "am_inv s" and "am_once s" and "as_pc s w = PSuspended \<or> as_pc s w = PContinued"
  shows "am_once (s\<lparr>as_mutex := fst (am_cancel_waiter b w (as_mutex s, as_ctx s)),
                   as_ctx := snd (am_cancel_waiter b w (as_mutex s, as_ctx s))\<rparr>)" (is "am_once ?s")
proof (cases "w_active (am_heap (as_mutex s) w) \<and> \<not> w_completed (am_heap (as_mutex s) w)")
  case True
  then have "w_continuation (am_heap (as_mutex s) w)"
    using am_inv_clientD [OF assms(1), of w] assms(3) by (auto simp: am_client_ok_def Let_def)
  with True assms show ?thesis
    by (intro am_once_wake [of s "as_mutex ?s" w ?s b])
      (auto simp: am_cancel_waiter_def Let_def am_inv_def resume_waiter_noexcept_def)
qed (use assms in \<open>auto simp: am_cancel_waiter_def Let_def\<close>)

lemma am_once_step:
  assumes i: "am_inv s" and o: "am_once s" and calm: "am_calm ev s" and step: "am_step ev s = Some s'"
  shows "am_once s'"
proof (cases ev)
  case (Am_ready w)
  with step have pc: "as_pc s w = PNew" by (simp split: if_splits)
  note x = am_new_client [OF i disjI1 [OF pc]]
  from step Am_ready pc x o show ?thesis
    by (auto simp: am_await_ready_def Let_def intro!: am_once_continue split: if_splits)
      (auto simp: am_once_def)
next
  case (Am_stopped w)
  with step have pc: "as_pc s w = PSuspend" by (simp split: if_splits)
  note x = am_new_client [OF i disjI2 [OF pc]]
  from step Am_stopped pc x o show ?thesis
    by (auto simp: am_suspend_stopped_def intro!: am_once_continue)
next
  case (Am_enqueue w)
  with step have pc: "as_pc s w = PSuspend" by (simp split: if_splits)
  note x = am_new_client [OF i disjI2 [OF pc]]
  from step Am_enqueue pc x o show ?thesis
    by (auto simp: am_suspend_enqueue_def Let_def intro!: am_once_continue split: if_splits)
      (auto simp: am_once_def new_waiter_def)
next
  case (Am_register b sp sr w)
  with step have pc: "as_pc s w = PEnqueued" by (simp split: if_splits)
  then have "(\<exists>b sp. ev = Am_register b sp False w) \<or> ev = Am_answer w"
    using calm unfolding am_calm_def by blast
  with Am_register have "\<not> sr" by simp
  with step Am_register pc o show ?thesis
    by (auto simp: am_suspend_register_def am_once_def Let_def split: if_splits)
next
  case (Am_answer w)
  with step have pc: "as_pc s w = PRegistered" by (simp split: if_splits)
  with o have "\<not> w_completed (am_heap (as_mutex s) w)" by (auto simp: am_once_def)
  with step Am_answer pc o show ?thesis by (auto simp: am_suspend_answer_def am_once_def split: if_splits)
next
  case (Am_cancel b w)
  with step have cb: "w_stop_callback (am_heap (as_mutex s) w)" by (simp split: if_splits)
  from am_stop_callback_pc [OF i cb] calm Am_cancel have "as_pc s w = PSuspended \<or> as_pc s w = PContinued"
    by (auto simp: am_calm_def)
  from am_once_cancel [OF i o this, of b] step Am_cancel cb show ?thesis by (auto simp: case_prod_beta)
next
  case (Am_try w)
  with step have pc: "as_pc s w = PNew" by (simp split: if_splits)
  from step Am_try pc o show ?thesis
    by (auto simp: am_try_lock_def Let_def am_once_def split: if_splits)
next
  case (Am_unlock b w)
  let ?h = "am_heap (as_mutex s)" and ?q = "am_waiters (as_mutex s)"
  from step Am_unlock have g: "am_granted s w" by (simp add: am_holds_def split: if_splits)
  from step Am_unlock have st: "as_mutex s' = fst (snd (am_unlock b (as_mutex s, as_ctx s)))"
      "as_ctx s' = snd (snd (am_unlock b (as_mutex s, as_ctx s)))" "as_pc s' = as_pc s"
    by (auto simp: case_prod_beta split: if_splits)
  from g i have lk: "am_locked (as_mutex s)" and ok: "ctx_ok (as_ctx s)" and dq: "distinct ?q"
    by (auto simp: am_inv_def)
  show ?thesis
  proof (cases "take_front (?h, ?q)")
    case None
    with st lk o show ?thesis by (simp add: am_unlock_def Let_def am_once_def)
  next
    case (Some p)
    obtain v h' q' where p: "p = (v, h', q')" by (cases p) auto
    with Some have h': "h' = ?h(v := mark_woken (?h v))" and v: "v \<in> set (live ?h ?q)"
      using sync_queue.pop_Some [of "(?h, ?q)" v "(h', q')"] dq by (auto simp: take_front_def split: list.splits)
    with am_inv_clientD [OF i, of v] have "\<not> w_completed (?h v)" "as_pc s v \<noteq> PNew"
      by (auto simp: am_client_ok_def Let_def set_live split: lock_pc.splits)
    moreover have "as_pc s v \<notin> {PEnqueued, PRegistered}" using calm Am_unlock by (auto simp: am_calm_def)
    ultimately show ?thesis using Some p st lk o ok h'
      by (intro am_once_wake [of s "as_mutex s'" v s' b]) (auto simp: am_unlock_def Let_def case_prod_beta)
  qed
next
  case Am_loop
  have "\<forall>w\<in>set (rt_queue (fst (as_ctx s))). w_continuation (am_heap (as_mutex s) w)"
    using am_inv_clientD [OF i] by (auto simp: am_client_ok_def Let_def)
  with i step Am_loop o show ?thesis
    by (auto simp: am_inv_def on_async_resume_ok am_once_def)
qed

text \<open>
  C3. Without that interference every call is resumed at most once, in any order of all other
  steps, cancellations and unlocks from other threads included.
\<close>
theorem am_calm_resumed_once:
  assumes "am_calm_reachable s"
  shows "distinct (snd (as_ctx s) @ rt_queue (fst (as_ctx s)))"
proof -
  from assms have "am_once s"
  proof induction
    case am_calm_start
    show ?case by (simp add: am_once_def am_initial_def new_async_mutex_def new_waiter_def)
  next
    case (am_calm_more s ev s')
    with am_once_step am_reachable_inv [OF am_calm_reachable_imp] show ?case by blast
  qed
  then show ?thesis by (simp add: am_once_def woken_def)
qed

fun am_calm_run :: "am_event list \<Rightarrow> am_sys \<Rightarrow> am_sys option" where
  "am_calm_run [] s = Some s"
| "am_calm_run (ev # evs) s =
     (if am_calm ev s then (case am_step ev s of None \<Rightarrow> None | Some s' \<Rightarrow> am_calm_run evs s') else None)"

lemma am_calm_run_reachable: "am_calm_reachable s \<Longrightarrow> am_calm_run evs s = Some s' \<Longrightarrow> am_calm_reachable s'"
  by (induction evs arbitrary: s) (auto split: option.splits if_splits intro: am_calm_more simp del: am_step.simps)

lemma if_eq_iff: "((if b then x else y) = z) = (b \<and> x = z \<or> \<not> b \<and> y = z)"
  by simp

theorem am_calm_resumed_once_witness:
  "\<exists>s. am_calm_run am_trace_handover am_initial = Some s \<and> 1 \<in> set (snd (as_ctx s)) \<and>
     distinct (snd (as_ctx s) @ rt_queue (fst (as_ctx s)))"
proof -
  obtain s where s: "am_calm_run am_trace_handover am_initial = Some s" and h: "1 \<in> set (snd (as_ctx s))"
    by (auto simp: am_trace_handover_def am_run_eval am_calm_def if_eq_iff)
  from am_calm_resumed_once [OF am_calm_run_reachable [OF am_calm_start s]] s h show ?thesis by blast
qed


end
