(* ===== verification/Local_Mutex.thy ===== *)
theory Local_Mutex
  imports Async_Mutex
begin

text \<open>
  \<open>local_async_mutex\<close> of \<open>include/luvcoro/sync.hpp\<close>, which only the thread of its runtime may
  use. There is no system mutex; a stop callback, which may run on any thread, posts a job, and
  that job cancels the waiter. The jobs in the runtime's queue are these cancellations, named by
  their waiter.
\<close>

section \<open>State and operations\<close>

record local_async_mutex =
  lm_locked :: bool
  lm_waiters :: "nat list"
  lm_heap :: wheap

definition new_local_async_mutex :: local_async_mutex where
  "new_local_async_mutex = \<lparr>lm_locked = False, lm_waiters = [], lm_heap = (\<lambda>_. new_waiter)\<rparr>"

text \<open>The posted job; its resumption is appended to the log.\<close>

definition cancel_waiter_job :: "nat \<Rightarrow> wheap \<times> nat list \<Rightarrow> wheap \<times> nat list" where
  "cancel_waiter_job w hl =
     (let x = fst hl w in
      if \<not> w_active x \<or> w_completed x then hl
      else ((fst hl)(w := x\<lparr>w_active := False, w_completed := True, w_cancelled := True\<rparr>),
            if w_continuation x then snd hl @ [w] else snd hl))"

definition lm_cancel_waiter :: "nat \<Rightarrow> nat uv_runtime \<Rightarrow> nat uv_runtime" where
  "lm_cancel_waiter w rt = snd (post w rt)"

definition lm_await_ready :: "bool \<Rightarrow> nat \<Rightarrow> local_async_mutex \<Rightarrow> bool result \<times> local_async_mutex" where
  "lm_await_ready is_loop_thread w m =
     (case require_runtime_thread is_loop_thread ''local_async_mutex::lock'' of
        Inl e \<Rightarrow> (Inl e, m)
      | Inr _ \<Rightarrow>
          (let m = m\<lparr>lm_waiters := prune_inactive (lm_heap m) (lm_waiters m)\<rparr> in
           if \<not> lm_locked m \<and> lm_waiters m = []
           then (Inr True, m\<lparr>lm_locked := True,
                   lm_heap := (lm_heap m)(w := (lm_heap m w)\<lparr>w_completed := True\<rparr>)\<rparr>)
           else (Inr False, m)))"

definition lm_await_suspend :: "bool \<Rightarrow> bool \<Rightarrow> bool \<Rightarrow> bool \<Rightarrow> nat \<Rightarrow> local_async_mutex \<times> nat uv_runtime
    \<Rightarrow> bool result \<times> local_async_mutex \<times> nat uv_runtime" where
  "lm_await_suspend is_loop_thread stop_possible stopped_before stopped_at_register w mr =
     (case require_runtime_thread is_loop_thread ''local_async_mutex::lock'' of
        Inl e \<Rightarrow> (Inl e, mr)
      | Inr _ \<Rightarrow>
          (let m = fst mr in
           if stopped_before
           then (Inr False, m\<lparr>lm_heap := (lm_heap m)(w := (lm_heap m w)\<lparr>w_completed := True, w_cancelled := True\<rparr>)\<rparr>, snd mr)
           else
             let m = m\<lparr>lm_heap := (lm_heap m)(w := (lm_heap m w)\<lparr>w_continuation := True\<rparr>)\<rparr>;
                 m = m\<lparr>lm_waiters := prune_inactive (lm_heap m) (lm_waiters m)\<rparr>
             in if \<not> lm_locked m \<and> lm_waiters m = []
                then (Inr False, m\<lparr>lm_locked := True,
                        lm_heap := (lm_heap m)(w := (lm_heap m w)\<lparr>w_completed := True\<rparr>)\<rparr>, snd mr)
                else
                  let m = m\<lparr>lm_waiters := lm_waiters m @ [w]\<rparr>;
                      mr' = (if stop_possible
                             then (m\<lparr>lm_heap := (lm_heap m)(w := (lm_heap m w)\<lparr>w_stop_callback := True\<rparr>)\<rparr>,
                                   if stopped_at_register then lm_cancel_waiter w (snd mr) else snd mr)
                             else (m, snd mr))
                  in (Inr (\<not> w_completed (lm_heap (fst mr') w)), mr')))"

definition lm_await_resume :: "nat \<Rightarrow> local_async_mutex \<Rightarrow> unit result \<times> local_async_mutex" where
  "lm_await_resume w m =
     (let m = m\<lparr>lm_heap := (lm_heap m)(w := (lm_heap m w)\<lparr>w_stop_callback := False\<rparr>)\<rparr> in
      (if w_cancelled (lm_heap m w) then Inl Operation_cancelled else Inr (), m))"

text \<open>\<open>co_await mutex.lock(token)\<close> up to its first suspension.\<close>

definition lm_lock :: "bool \<Rightarrow> bool \<Rightarrow> bool \<Rightarrow> bool \<Rightarrow> nat \<Rightarrow> local_async_mutex \<times> nat uv_runtime
    \<Rightarrow> unit awaited \<times> local_async_mutex \<times> nat uv_runtime" where
  "lm_lock is_loop_thread stop_possible stopped_before stopped_at_register w mr =
     (case lm_await_ready is_loop_thread w (fst mr) of
        (Inl e, m) \<Rightarrow> (Continues (Inl e), m, snd mr)
      | (Inr True, m) \<Rightarrow> (case lm_await_resume w m of (r, m') \<Rightarrow> (Continues r, m', snd mr))
      | (Inr False, m) \<Rightarrow>
          (case lm_await_suspend is_loop_thread stop_possible stopped_before stopped_at_register w (m, snd mr) of
             (Inl e, mr') \<Rightarrow> (Continues (Inl e), mr')
           | (Inr True, mr') \<Rightarrow> (Suspended, mr')
           | (Inr False, mr') \<Rightarrow> (case lm_await_resume w (fst mr') of (r, m') \<Rightarrow> (Continues r, m', snd mr'))))"

definition lm_try_lock :: "bool \<Rightarrow> local_async_mutex \<Rightarrow> bool result \<times> local_async_mutex" where
  "lm_try_lock is_loop_thread m =
     (case require_runtime_thread is_loop_thread ''local_async_mutex::try_lock'' of
        Inl e \<Rightarrow> (Inl e, m)
      | Inr _ \<Rightarrow>
          (let m = m\<lparr>lm_waiters := prune_inactive (lm_heap m) (lm_waiters m)\<rparr> in
           if lm_locked m \<or> lm_waiters m \<noteq> [] then (Inr False, m)
           else (Inr True, m\<lparr>lm_locked := True\<rparr>)))"

text \<open>\<open>unlock\<close>; resuming the next holder inline is its last action, recorded in the log.\<close>

definition lm_unlock :: "bool \<Rightarrow> local_async_mutex \<times> nat list \<Rightarrow> unit result \<times> local_async_mutex \<times> nat list" where
  "lm_unlock is_loop_thread ml =
     (case require_runtime_thread is_loop_thread ''local_async_mutex::unlock'' of
        Inl e \<Rightarrow> (Inl e, ml)
      | Inr _ \<Rightarrow>
          (let m = fst ml in
           if \<not> lm_locked m then (Inl (Runtime_error ''local_async_mutex is not locked''), ml)
           else (case take_front (lm_heap m, lm_waiters m) of
                   None \<Rightarrow> (Inr (), m\<lparr>lm_waiters := prune_inactive (lm_heap m) (lm_waiters m), lm_locked := False\<rparr>, snd ml)
                 | Some (next_waiter, heap, q) \<Rightarrow>
                     (Inr (), m\<lparr>lm_heap := heap, lm_waiters := q\<rparr>,
                      if w_continuation (heap next_waiter) then snd ml @ [next_waiter] else snd ml))))"

section \<open>The clients on the runtime thread\<close>

record lm_sys =
  ls_mutex :: local_async_mutex
  ls_rt :: "nat uv_runtime"
  ls_log :: "nat list"
  ls_pc :: "nat \<Rightarrow> lock_pc"
  ls_released :: "nat set"

definition lm_initial :: lm_sys where
  "lm_initial = \<lparr>ls_mutex = new_local_async_mutex, ls_rt = new_runtime, ls_log = [], ls_pc = (\<lambda>_. PNew),
     ls_released = {}\<rparr>"

definition lm_granted :: "lm_sys \<Rightarrow> nat \<Rightarrow> bool" where
  "lm_granted s w \<longleftrightarrow>
     (ls_pc s w = PTried \<or> w_completed (lm_heap (ls_mutex s) w) \<and> \<not> w_cancelled (lm_heap (ls_mutex s) w)) \<and>
     w \<notin> ls_released s"

definition lm_holds :: "lm_sys \<Rightarrow> nat \<Rightarrow> bool" where
  "lm_holds s w \<longleftrightarrow> lm_granted s w \<and> (ls_pc s w = PTried \<or> w \<in> set (ls_log s))"

datatype lm_event =
    Lm_lock bool bool bool nat
  | Lm_cancel nat
  | Lm_try nat
  | Lm_unlock nat
  | Lm_job

text \<open>
  A step is one operation on the runtime thread, a stop callback on any thread, or the loop
  running the oldest posted job.
\<close>

fun lm_step :: "lm_event \<Rightarrow> lm_sys \<Rightarrow> lm_sys option" where
  "lm_step (Lm_lock stop_possible stopped_before stopped_at_register w) s =
     (if ls_pc s w = PNew
      then (case lm_lock True stop_possible stopped_before stopped_at_register w (ls_mutex s, ls_rt s) of
              (Suspended, m, rt) \<Rightarrow> Some (s\<lparr>ls_mutex := m, ls_rt := rt, ls_pc := (ls_pc s)(w := PSuspended)\<rparr>)
            | (Continues r, m, rt) \<Rightarrow> Some (s\<lparr>ls_mutex := m, ls_rt := rt, ls_pc := (ls_pc s)(w := PContinued),
                 ls_log := ls_log s @ [w]\<rparr>))
      else None)"
| "lm_step (Lm_cancel w) s =
     (if w_stop_callback (lm_heap (ls_mutex s) w)
      then Some (s\<lparr>ls_rt := lm_cancel_waiter w (ls_rt s)\<rparr>)
      else None)"
| "lm_step (Lm_try w) s =
     (if ls_pc s w = PNew
      then (case lm_try_lock True (ls_mutex s) of
              (Inr True, m) \<Rightarrow> Some (s\<lparr>ls_mutex := m, ls_pc := (ls_pc s)(w := PTried)\<rparr>)
            | (_, m) \<Rightarrow> Some (s\<lparr>ls_mutex := m\<rparr>))
      else None)"
| "lm_step (Lm_unlock w) s =
     (if lm_holds s w
      then (case lm_unlock True (ls_mutex s, ls_log s) of
              (r, m, l) \<Rightarrow> Some (s\<lparr>ls_mutex := m, ls_log := l, ls_released := insert w (ls_released s)\<rparr>))
      else None)"
| "lm_step Lm_job s =
     (case rt_queue (ls_rt s) of
        [] \<Rightarrow> None
      | w # jobs \<Rightarrow>
          (case cancel_waiter_job w (lm_heap (ls_mutex s), ls_log s) of
             (h, l) \<Rightarrow> Some (s\<lparr>ls_mutex := (ls_mutex s)\<lparr>lm_heap := h\<rparr>, ls_log := l,
                                ls_rt := (ls_rt s)\<lparr>rt_queue := jobs\<rparr>\<rparr>)))"

fun lm_run :: "lm_event list \<Rightarrow> lm_sys \<Rightarrow> lm_sys option" where
  "lm_run [] s = Some s"
| "lm_run (ev # evs) s = (case lm_step ev s of None \<Rightarrow> None | Some s' \<Rightarrow> lm_run evs s')"

inductive lm_reachable :: "lm_sys \<Rightarrow> bool" where
  lm_start: "lm_reachable lm_initial"
| lm_more: "lm_reachable s \<Longrightarrow> lm_step ev s = Some s' \<Longrightarrow> lm_reachable s'"

section \<open>Refinement of the mutex for all threads\<close>

text \<open>
  Seen from the runtime thread, each operation does what the corresponding one of \<open>async_mutex\<close>
  does there.
\<close>

definition lm_abs :: "local_async_mutex \<Rightarrow> async_mutex" where
  "lm_abs m = \<lparr>am_locked = lm_locked m, am_waiters = lm_waiters m, am_heap = lm_heap m\<rparr>"

lemma lm_abs_simps [simp]:
  "am_locked (lm_abs m) = lm_locked m" "am_waiters (lm_abs m) = lm_waiters m" "am_heap (lm_abs m) = lm_heap m"
  by (simp_all add: lm_abs_def)

lemma lm_lock_refines:
  "am_lock True sp sb False w (lm_abs m, c) =
     (case lm_lock True sp sb sr w (m, rt) of (res, m', rt') \<Rightarrow> (res, lm_abs m', c))"
  by (cases "w_completed (lm_heap m w)")
    (simp_all add: lm_lock_def am_lock_def lm_await_ready_def am_await_ready_def require_runtime_thread_def
     lm_await_suspend_def am_await_suspend_def am_suspend_enqueue_def am_suspend_register_def
     am_suspend_answer_def am_suspend_stopped_def lm_await_resume_def am_await_resume_def lm_abs_def Let_def)

lemma lm_lock_rt:
  assumes "\<not> w_completed (lm_heap m w)" and "lm_lock True sp sb sr w (m, rt) = (res, m', rt')"
  shows "rt' = rt \<or> rt' = lm_cancel_waiter w rt \<and> res = Suspended \<and> w_stop_callback (lm_heap m' w)"
  using assms
  by (auto simp: lm_lock_def lm_await_ready_def require_runtime_thread_def lm_await_suspend_def lm_await_resume_def
    Let_def split: if_splits)

lemma lm_try_lock_refines:
  "am_try_lock (lm_abs m) = (case lm_try_lock True m of (r, m') \<Rightarrow> (r = Inr True, lm_abs m'))"
  by (simp add: lm_try_lock_def am_try_lock_def require_runtime_thread_def lm_abs_def Let_def)

lemma lm_unlock_refines:
  "am_unlock True (lm_abs m, rt, l) =
     (case lm_unlock True (m, l) of
        (Inr u, m', l') \<Rightarrow> (Inr u, lm_abs m', rt, l')
      | (Inl e, m', l') \<Rightarrow> (Inl (Runtime_error ''async_mutex is not locked''), lm_abs m', rt, l'))"
  by (auto simp: lm_unlock_def am_unlock_def require_runtime_thread_def lm_abs_def Let_def resume_waiter_def
     split: option.split)

lemma lm_cancel_job_refines:
  "am_cancel_waiter True w (lm_abs m, rt, l) =
     (case cancel_waiter_job w (lm_heap m, l) of (h, l') \<Rightarrow> (lm_abs (m\<lparr>lm_heap := h\<rparr>), rt, l'))"
  by (simp add: cancel_waiter_job_def am_cancel_waiter_def lm_abs_def Let_def resume_waiter_noexcept_def resume_waiter_def)

text \<open>A whole \<open>lock\<close> is a calm run of its steps.\<close>

definition am_settled :: "am_sys \<Rightarrow> bool" where
  "am_settled s \<longleftrightarrow> (\<forall>w. as_pc s w \<notin> {PEnqueued, PRegistered})"

definition am_after_lock :: "nat \<Rightarrow> unit awaited \<times> async_mutex \<times> wake_ctx \<Rightarrow> am_sys \<Rightarrow> am_sys" where
  "am_after_lock w out s =
     (case out of
        (Suspended, m, c) \<Rightarrow> s\<lparr>as_mutex := m, as_ctx := c, as_pc := (as_pc s)(w := PSuspended)\<rparr>
      | (Continues r, m, c) \<Rightarrow> s\<lparr>as_mutex := m, as_ctx := (fst c, snd c @ [w]), as_pc := (as_pc s)(w := PContinued)\<rparr>)"

lemma am_settled_calm: "am_settled s \<Longrightarrow> am_calm ev s"
  by (auto simp: am_settled_def am_calm_def)

lemma am_calm_run_append:
  "am_calm_run (evs @ evs') s = (case am_calm_run evs s of None \<Rightarrow> None | Some s' \<Rightarrow> am_calm_run evs' s')"
  by (induction evs arbitrary: s) (auto split: option.split simp del: am_step.simps)

lemma am_lock_calm_run:
  assumes "am_settled s" and "as_pc s w = PNew"
  shows "\<exists>evs. am_calm_run evs s = Some (am_after_lock w (am_lock True sp sb False w (as_mutex s, as_ctx s)) s)"
proof -
  obtain b m where r: "am_await_ready w (as_mutex s) = (b, m)" by fastforce
  show ?thesis
  proof (cases b)
    case True
    with r assms have "am_calm_run [Am_ready w] s = Some (am_after_lock w (am_lock True sp sb False w (as_mutex s, as_ctx s)) s)"
      by (simp add: am_settled_calm am_after_lock_def am_lock_def am_continue_def case_prod_beta)
    then show ?thesis by blast
  next
    case False
    let ?s = "s\<lparr>as_mutex := m, as_pc := (as_pc s)(w := PSuspend)\<rparr>"
    from assms have set1: "am_settled ?s" by (simp add: am_settled_def)
    from False r assms have r1: "am_calm_run [Am_ready w] s = Some ?s"
      by (simp add: am_settled_calm)
    show ?thesis
    proof (cases sb)
      case True
      with False r set1 have "am_calm_run [Am_stopped w] ?s = Some (am_after_lock w (am_lock True sp sb False w (as_mutex s, as_ctx s)) s)"
        by (simp add: am_settled_calm am_after_lock_def am_lock_def am_continue_def am_await_suspend_def case_prod_beta)
      with r1 show ?thesis using am_calm_run_append [of "[Am_ready w]" "[Am_stopped w]" s] by (auto simp del: am_calm_run.simps)
    next
      case nsb: False
      obtain b' m' where e: "am_suspend_enqueue w m = (b', m')" by fastforce
      show ?thesis
      proof (cases b')
        case True
        with False r nsb e set1 have "am_calm_run [Am_enqueue w] ?s = Some (am_after_lock w (am_lock True sp sb False w (as_mutex s, as_ctx s)) s)"
          by (simp add: am_settled_calm am_after_lock_def am_lock_def am_continue_def am_await_suspend_def case_prod_beta)
        with r1 show ?thesis using am_calm_run_append [of "[Am_ready w]" "[Am_enqueue w]" s] by (auto simp del: am_calm_run.simps)
      next
        case b': False
        have c1: "am_calm (Am_register True sp False w) (?s\<lparr>as_mutex := m', as_pc := (as_pc s)(w := PEnqueued)\<rparr>)"
          and c2: "am_calm (Am_answer w) (?s\<lparr>as_mutex := x, as_pc := (as_pc s)(w := PRegistered)\<rparr>)" for x
          using assms by (auto simp: am_calm_def am_settled_def)
        from False r nsb e b' set1 c1 c2
        have "am_calm_run [Am_enqueue w, Am_register True sp False w, Am_answer w] ?s =
            Some (am_after_lock w (am_lock True sp sb False w (as_mutex s, as_ctx s)) s)"
          by (auto simp: am_settled_calm am_after_lock_def am_lock_def am_continue_def am_await_suspend_def
            am_suspend_register_def Let_def case_prod_beta)
        with r1 show ?thesis
          using am_calm_run_append [of "[Am_ready w]" "[Am_enqueue w, Am_register True sp False w, Am_answer w]" s]
          by (auto simp del: am_calm_run.simps)
      qed
    qed
  qed
qed


section \<open>The simulation\<close>

definition lm_sim :: "lm_sys \<Rightarrow> am_sys \<Rightarrow> bool" where
  "lm_sim ls s \<longleftrightarrow> as_mutex s = lm_abs (ls_mutex ls) \<and> as_ctx s = (new_runtime, ls_log ls) \<and>
     as_pc s = ls_pc ls \<and> as_released s = ls_released ls \<and> am_settled s"

definition lm_jobs_ok :: "lm_sys \<Rightarrow> bool" where
  "lm_jobs_ok ls \<longleftrightarrow> (\<forall>w\<in>set (rt_queue (ls_rt ls)).
     w_completed (lm_heap (ls_mutex ls) w) \<or> w_stop_callback (lm_heap (ls_mutex ls) w))"

lemma am_calm_run_single:
  "am_calm_reachable s \<Longrightarrow> am_settled s \<Longrightarrow> am_step ev s = Some s' \<Longrightarrow> am_calm_reachable s'"
  by (blast intro: am_calm_more am_settled_calm)

lemma lm_heap_lock_other:
  assumes "lm_lock True sp sb sr w (m, rt) = (res, m', rt')" and "v \<noteq> w"
  shows "lm_heap m' v = lm_heap m v"
  using assms by (cases "w_completed (lm_heap m w)")
    (auto simp: lm_lock_def lm_await_ready_def require_runtime_thread_def lm_await_suspend_def
      lm_await_resume_def Let_def split: if_splits)

lemma queue_lm_cancel: "set (rt_queue (lm_cancel_waiter w rt)) \<subseteq> insert w (set (rt_queue rt))"
  by (auto simp: lm_cancel_waiter_def post_queue)

text \<open>Every step of the local mutex is a calm run of the other one, on the same clients.\<close>

lemma lm_sim_lock:
  assumes sim: "lm_sim ls s" and reach: "am_calm_reachable s" and jobs: "lm_jobs_ok ls"
    and step: "lm_step (Lm_lock sp sb sr w) ls = Some ls'"
  shows "\<exists>s'. am_calm_reachable s' \<and> lm_sim ls' s' \<and> lm_jobs_ok ls'"
proof -
  from step have pc: "ls_pc ls w = PNew" by (simp split: if_splits)
  obtain res m rt where l: "lm_lock True sp sb sr w (ls_mutex ls, ls_rt ls) = (res, m, rt)" by (cases "lm_lock True sp sb sr w (ls_mutex ls, ls_rt ls)") auto
  from sim have st: "am_settled s" and pc': "as_pc s w = PNew" using pc by (auto simp: lm_sim_def)
  from sim have am: "am_lock True sp sb False w (as_mutex s, as_ctx s) = (res, lm_abs m, as_ctx s)"
    using lm_lock_refines [of sp sb w "ls_mutex ls" "as_ctx s" sr "ls_rt ls"] l by (simp add: lm_sim_def)
  let ?s = "am_after_lock w (am_lock True sp sb False w (as_mutex s, as_ctx s)) s"
  from am_lock_calm_run [OF st pc'] reach have r: "am_calm_reachable ?s" by (blast intro: am_calm_run_reachable)
  have n: "\<not> w_completed (lm_heap (ls_mutex ls) w)" "w \<notin> set (rt_queue (ls_rt ls))"
    using am_new_client(1) [OF am_reachable_inv [OF am_calm_reachable_imp [OF reach]], of w] pc' sim jobs
    by (auto simp: lm_sim_def new_waiter_def lm_jobs_ok_def)
  from step pc l am sim have s': "lm_sim ls' ?s"
    by (auto simp: lm_sim_def am_after_lock_def am_settled_def split: awaited.splits)
  from step pc l have ls': "ls_mutex ls' = m" "ls_rt ls' = rt" by (auto split: awaited.splits)
  have "lm_jobs_ok ls'"
    unfolding lm_jobs_ok_def ls'
  proof
    fix v assume v: "v \<in> set (rt_queue rt)"
    show "w_completed (lm_heap m v) \<or> w_stop_callback (lm_heap m v)"
    proof (cases "v = w")
      case True
      with v n lm_lock_rt [OF n(1) l] show ?thesis by auto
    next
      case False
      with v lm_lock_rt [OF n(1) l] queue_lm_cancel have "v \<in> set (rt_queue (ls_rt ls))" by fastforce
      with jobs lm_heap_lock_other [OF l False] show ?thesis by (simp add: lm_jobs_ok_def)
    qed
  qed
  with r s' show ?thesis by blast
qed

lemma lm_sim_unlock:
  assumes sim: "lm_sim ls s" and reach: "am_calm_reachable s" and jobs: "lm_jobs_ok ls"
    and step: "lm_step (Lm_unlock w) ls = Some ls'"
  shows "\<exists>s'. am_calm_reachable s' \<and> lm_sim ls' s' \<and> lm_jobs_ok ls'"
proof -
  from step have h: "lm_holds ls w" by (simp split: if_splits)
  with sim have h': "am_holds s w"
    by (simp add: lm_sim_def am_holds_def am_granted_def lm_holds_def lm_granted_def)
  from h' have lk: "lm_locked (ls_mutex ls)"
    using am_reachable_inv [OF am_calm_reachable_imp [OF reach]] sim by (auto simp: am_inv_def am_holds_def lm_sim_def)
  obtain r m l where u: "lm_unlock True (ls_mutex ls, ls_log ls) = (r, m, l)" by (cases "lm_unlock True (ls_mutex ls, ls_log ls)") auto
  have "\<exists>s'. am_step (Am_unlock True w) s = Some s' \<and> as_mutex s' = lm_abs m \<and> as_ctx s' = (new_runtime, l) \<and>
      as_pc s' = as_pc s \<and> as_released s' = insert w (as_released s)"
    using h' sim u lm_unlock_refines [of "ls_mutex ls" new_runtime "ls_log ls"]
    by (auto simp: lm_sim_def split: sum.splits)
  then obtain s' where s': "am_step (Am_unlock True w) s = Some s'" "as_mutex s' = lm_abs m" "as_ctx s' = (new_runtime, l)"
      "as_pc s' = as_pc s" "as_released s' = insert w (as_released s)" by blast
  from step h u have ls': "ls_mutex ls' = m" "ls_log ls' = l" "ls_rt ls' = ls_rt ls" "ls_pc ls' = ls_pc ls"
      "ls_released ls' = insert w (ls_released ls)" by auto
  have "lm_sim ls' s'" using sim s'(2-) ls' by (auto simp: lm_sim_def am_settled_def)
  moreover have "w_stop_callback (lm_heap m v) = w_stop_callback (lm_heap (ls_mutex ls) v) \<and>
      (w_completed (lm_heap (ls_mutex ls) v) \<longrightarrow> w_completed (lm_heap m v))" for v
    using u lk by (auto simp: lm_unlock_def require_runtime_thread_def Let_def take_front_def split: list.splits if_splits)
  then have "lm_jobs_ok ls'" using jobs unfolding lm_jobs_ok_def ls'(1,3) by blast
  moreover have "am_calm_reachable s'" using am_calm_run_single [OF reach _ s'(1)] sim by (simp add: lm_sim_def)
  ultimately show ?thesis by blast
qed

lemma lm_sim_job:
  assumes sim: "lm_sim ls s" and reach: "am_calm_reachable s" and jobs: "lm_jobs_ok ls"
    and step: "lm_step Lm_job ls = Some ls'"
  shows "\<exists>s'. am_calm_reachable s' \<and> lm_sim ls' s' \<and> lm_jobs_ok ls'"
proof -
  from step obtain w js where q: "rt_queue (ls_rt ls) = w # js" by (auto split: list.splits)
  obtain h l where c: "cancel_waiter_job w (lm_heap (ls_mutex ls), ls_log ls) = (h, l)" by fastforce
  from step q c have ls': "ls' = ls\<lparr>ls_mutex := (ls_mutex ls)\<lparr>lm_heap := h\<rparr>, ls_log := l, ls_rt := (ls_rt ls)\<lparr>rt_queue := js\<rparr>\<rparr>"
    by simp
  have j: "lm_jobs_ok ls'"
    using jobs q c by (auto simp: ls' lm_jobs_ok_def cancel_waiter_job_def Let_def split: if_splits)
  show ?thesis
  proof (cases "w_stop_callback (lm_heap (ls_mutex ls) w)")
    case True
    with sim c have "\<exists>s'. am_step (Am_cancel True w) s = Some s' \<and> lm_sim ls' s'"
      using lm_cancel_job_refines [of w "ls_mutex ls" new_runtime "ls_log ls"]
      by (auto simp: lm_sim_def am_settled_def ls')
    with am_calm_run_single [OF reach] sim j show ?thesis by (auto simp: lm_sim_def simp del: am_step.simps)
  next
    case False
    with jobs q have "w_completed (lm_heap (ls_mutex ls) w)" by (auto simp: lm_jobs_ok_def)
    with c have "h = lm_heap (ls_mutex ls)" "l = ls_log ls" by (auto simp: cancel_waiter_job_def Let_def)
    with sim have "lm_sim ls' s" by (simp add: lm_sim_def ls')
    with reach j show ?thesis by blast
  qed
qed

lemma lm_sim_step:
  assumes sim: "lm_sim ls s" and reach: "am_calm_reachable s" and jobs: "lm_jobs_ok ls"
    and step: "lm_step ev ls = Some ls'"
  shows "\<exists>s'. am_calm_reachable s' \<and> lm_sim ls' s' \<and> lm_jobs_ok ls'"
proof (cases ev)
  case (Lm_lock sp sb sr w)
  with assms lm_sim_lock show ?thesis by blast
next
  case (Lm_cancel w)
  with step have w: "w_stop_callback (lm_heap (ls_mutex ls) w)" "ls' = ls\<lparr>ls_rt := lm_cancel_waiter w (ls_rt ls)\<rparr>"
    by (auto split: if_splits)
  with sim have "lm_sim ls' s" by (simp add: lm_sim_def)
  moreover have "lm_jobs_ok ls'"
    using jobs w queue_lm_cancel [of w "ls_rt ls"] by (auto simp: lm_jobs_ok_def)
  ultimately show ?thesis using reach by blast
next
  case (Lm_try w)
  with step have pc: "ls_pc ls w = PNew" by (simp split: if_splits)
  obtain r m where t: "lm_try_lock True (ls_mutex ls) = (r, m)" by fastforce
  from step pc Lm_try sim t lm_try_lock_refines [of "ls_mutex ls"]
  have "\<exists>s'. am_step (Am_try w) s = Some s' \<and> lm_sim ls' s'"
    by (auto simp: lm_sim_def am_settled_def split: sum.splits bool.splits if_splits)
  moreover have "lm_jobs_ok ls'"
    using step Lm_try pc jobs
    by (auto simp: lm_jobs_ok_def lm_try_lock_def require_runtime_thread_def Let_def split: if_splits)
  moreover from sim have "am_settled s" by (simp add: lm_sim_def)
  ultimately show ?thesis using am_calm_run_single [OF reach] by blast
next
  case (Lm_unlock w)
  with assms lm_sim_unlock show ?thesis by blast
next
  case Lm_job
  with assms lm_sim_job show ?thesis by blast
qed

lemma lm_simulated: "lm_reachable ls \<Longrightarrow> \<exists>s. am_calm_reachable s \<and> lm_sim ls s \<and> lm_jobs_ok ls"
proof (induction rule: lm_reachable.induct)
  case lm_start
  have "lm_sim lm_initial am_initial" "lm_jobs_ok lm_initial"
    by (auto simp: lm_sim_def lm_jobs_ok_def lm_initial_def am_initial_def lm_abs_def new_async_mutex_def
      new_local_async_mutex_def am_settled_def)
  then show ?case using am_calm_start by blast
next
  case (lm_more s ev s')
  then show ?case using lm_sim_step by blast
qed

section \<open>What the local mutex promises\<close>

text \<open>
  C4. The local mutex is the mutex for all threads, without its race: every state it reaches
  is, client by client, a state that the other one reaches without interference, with the same
  holder and the same waiters, and nobody is resumed twice.
\<close>
theorem lm_mutual_exclusion_and_once:
  assumes "lm_reachable s"
  shows "(\<exists>a. am_calm_reachable a \<and> as_mutex a = lm_abs (ls_mutex s) \<and> (\<forall>w. am_holds a w = lm_holds s w)) \<and>
    (\<forall>w v. lm_holds s w \<and> lm_holds s v \<longrightarrow> w = v) \<and> distinct (ls_log s)"
proof -
  from lm_simulated [OF assms] obtain a where a: "am_calm_reachable a" "lm_sim s a" by blast
  from a(2) have h: "am_holds a w = lm_holds s w" for w
    by (simp add: lm_sim_def am_holds_def am_granted_def lm_holds_def lm_granted_def)
  have "am_once a"
    using a(1)
  proof induction
    case am_calm_start
    show ?case by (simp add: am_once_def am_initial_def new_async_mutex_def new_waiter_def)
  next
    case (am_calm_more s ev s')
    with am_once_step am_reachable_inv [OF am_calm_reachable_imp] show ?case by blast
  qed
  with a(2) have "distinct (ls_log s)" by (simp add: am_once_def lm_sim_def woken_def)
  moreover have "w = v" if "am_holds a w" "am_holds a v" for w v
    using am_reachable_inv [OF am_calm_reachable_imp [OF a(1)]] that by (auto simp: am_inv_def am_holds_def)
  ultimately show ?thesis using a h unfolding lm_sim_def by blast
qed

lemma lm_run_reachable: "lm_reachable s \<Longrightarrow> lm_run evs s = Some s' \<Longrightarrow> lm_reachable s'"
  by (induction evs arbitrary: s) (auto split: option.splits intro: lm_more simp del: lm_step.simps)

lemmas lm_run_eval = lm_initial_def new_local_async_mutex_def new_waiter_def new_runtime_def lm_await_ready_def
  lm_await_resume_def lm_await_suspend_def lm_lock_def lm_try_lock_def lm_unlock_def lm_cancel_waiter_def
  cancel_waiter_job_def require_runtime_thread_def take_front_def mark_woken_def post_def async_send_def
  lm_holds_def lm_granted_def live_def Let_def

text \<open>Client 1 waits and is cancelled by a token that stops while it registers; client 2 gets the mutex.\<close>

definition lm_trace :: "lm_event list" where
  "lm_trace = [Lm_lock True False False 0, Lm_lock True False True 1, Lm_lock False False False 2,
     Lm_job, Lm_unlock 0]"

theorem lm_mutual_exclusion_and_once_witness:
  "\<exists>s. lm_run lm_trace lm_initial = Some s \<and> lm_holds s 2 \<and> ls_log s = [0, 1, 2] \<and> distinct (ls_log s) \<and>
     (\<forall>w v. lm_holds s w \<and> lm_holds s v \<longrightarrow> w = v)"
proof -
  obtain s where s: "lm_run lm_trace lm_initial = Some s" "lm_holds s 2" "ls_log s = [0, 1, 2]"
    by (simp add: lm_trace_def lm_run_eval)
  from lm_mutual_exclusion_and_once [OF lm_run_reachable [OF lm_start s(1)]] s show ?thesis by blast
qed

text \<open>
  On the runtime thread no wake-up is lost either: while the mutex is free, a client
  suspended in \<open>lock\<close> has already been resumed.
\<close>
theorem lm_no_lost_wakeup:
  assumes "lm_reachable s" and "ls_pc s w = PSuspended" and "\<not> lm_locked (ls_mutex s)"
  shows "w \<in> set (ls_log s)"
proof -
  from lm_simulated [OF assms(1)] obtain a where a: "am_calm_reachable a" "lm_sim s a" by blast
  from am_reachable_inv [OF am_calm_reachable_imp [OF a(1)]] have i: "am_inv a" .
  from i assms(3) a(2) have "live (am_heap (as_mutex a)) (am_waiters (as_mutex a)) = []"
    by (simp add: am_inv_def lm_sim_def)
  then have "\<not> (w \<in> set (am_waiters (as_mutex a)) \<and> w_active (am_heap (as_mutex a) w))"
    using set_live [of "am_heap (as_mutex a)" "am_waiters (as_mutex a)"] by auto
  with am_inv_clientD [OF i, of w] assms(2) a(2) show ?thesis
    by (auto simp: am_client_ok_def Let_def lm_sim_def woken_def)
qed

theorem lm_no_lost_wakeup_witness:
  "\<exists>s. lm_run [Lm_lock True False False 0, Lm_lock False False False 1, Lm_unlock 0, Lm_unlock 1] lm_initial = Some s \<and>
     1 \<in> set (ls_log s)"
proof -
  obtain s where s: "lm_run [Lm_lock True False False 0, Lm_lock False False False 1, Lm_unlock 0, Lm_unlock 1] lm_initial = Some s"
    "ls_pc s 1 = PSuspended" "\<not> lm_locked (ls_mutex s)"
    by (simp add: lm_run_eval)
  from lm_no_lost_wakeup [OF lm_run_reachable [OF lm_start s(1)] s(2,3)] s show ?thesis by blast
qed


end
