(* ===== verification/Mutex_Guards.thy ===== *)
theory Mutex_Guards
  imports Local_Mutex
begin

text \<open>
  The lock guards of \<open>include/luvcoro/sync.hpp\<close>: \<open>async_mutex_guard\<close> and
  \<open>local_async_mutex_guard\<close>. A guard is a nullable pointer to a mutex; mutexes are numbered, and
  so are the guard variables of the program.
\<close>

section \<open>Guards over any mutex\<close>

text \<open>
  The two classes have the same code up to the type of mutex; \<open>unlock\<close> is the \<open>unlock()\<close> of
  that type on a store \<open>'s\<close> of mutexes.
\<close>

type_synonym guards = "nat \<Rightarrow> nat option"

definition guard_owns_lock :: "guards \<Rightarrow> nat \<Rightarrow> bool" where
  "guard_owns_lock gv i = (gv i \<noteq> None)"

text \<open>\<open>unlock()\<close>: the pointer is cleared first, so the exception of the mutex leaves it empty.\<close>

definition guard_unlock :: "(nat \<Rightarrow> 's \<Rightarrow> unit result \<times> 's) \<Rightarrow> nat \<Rightarrow> guards \<times> 's \<Rightarrow> unit result \<times> guards \<times> 's" where
  "guard_unlock unlock i gs =
     (case fst gs i of
        None \<Rightarrow> (Inr (), gs)
      | Some m \<Rightarrow> (case unlock m (snd gs) of (r, s) \<Rightarrow> (r, (fst gs)(i := None), s)))"

text \<open>The destructor swallows what \<open>unlock\<close> throws.\<close>

definition guard_destroy :: "(nat \<Rightarrow> 's \<Rightarrow> unit result \<times> 's) \<Rightarrow> nat \<Rightarrow> guards \<times> 's \<Rightarrow> guards \<times> 's" where
  "guard_destroy unlock i gs =
     (case fst gs i of
        None \<Rightarrow> gs
      | Some m \<Rightarrow> ((fst gs)(i := None), snd (unlock m (snd gs))))"

definition guard_move :: "nat \<Rightarrow> nat \<Rightarrow> guards \<times> 's \<Rightarrow> guards \<times> 's" where
  "guard_move i other gs = ((fst gs)(i := fst gs other, other := None), snd gs)"

definition guard_assign :: "(nat \<Rightarrow> 's \<Rightarrow> unit result \<times> 's) \<Rightarrow> nat \<Rightarrow> nat \<Rightarrow> guards \<times> 's \<Rightarrow> guards \<times> 's" where
  "guard_assign unlock i other gs =
     (if i = other then gs
      else
        let s = (case fst gs i of None \<Rightarrow> snd gs | Some m \<Rightarrow> snd (unlock m (snd gs)))
        in ((fst gs)(i := fst gs other, other := None), s))"

text \<open>\<open>scoped_lock\<close>: once \<open>lock\<close> has returned, a guard for the mutex.\<close>

fun scoped_lock_outcome :: "nat \<Rightarrow> unit awaited \<Rightarrow> nat option awaited" where
  "scoped_lock_outcome m Suspended = Suspended"
| "scoped_lock_outcome m (Continues (Inl e)) = Continues (Inl e)"
| "scoped_lock_outcome m (Continues (Inr u)) = Continues (Inr (Some m))"

section \<open>The interface of a mutex to its guards\<close>

text \<open>
  Unlocking a mutex that is locked does not throw and leaves the other mutexes locked or free as
  they are. \<open>ok\<close> says that the runtime still accepts jobs.
\<close>

locale lockable =
  fixes unlock :: "nat \<Rightarrow> 's \<Rightarrow> unit result \<times> 's"
    and locked :: "nat \<Rightarrow> 's \<Rightarrow> bool"
    and ok :: "'s \<Rightarrow> bool"
  assumes unlock_locked: "ok s \<Longrightarrow> locked m s \<Longrightarrow> fst (unlock m s) = Inr ()"
    and unlock_ok: "ok s \<Longrightarrow> ok (snd (unlock m s))"
    and unlock_other: "ok s \<Longrightarrow> m' \<noteq> m \<Longrightarrow> locked m' (snd (unlock m s)) = locked m' s"

definition guards_ok :: "(nat \<Rightarrow> 's \<Rightarrow> bool) \<Rightarrow> ('s \<Rightarrow> bool) \<Rightarrow> guards \<times> 's \<Rightarrow> bool" where
  "guards_ok locked ok gs \<longleftrightarrow> ok (snd gs) \<and>
     (\<forall>i j m. fst gs i = Some m \<longrightarrow> fst gs j = Some m \<longrightarrow> i = j) \<and>
     (\<forall>i m. fst gs i = Some m \<longrightarrow> locked m (snd gs))"

datatype guard_event = G_unlock nat | G_destroy nat | G_move nat nat | G_assign nat nat

text \<open>One operation of a program on its guards; a move constructs a fresh variable.\<close>

fun guard_step :: "(nat \<Rightarrow> 's \<Rightarrow> unit result \<times> 's) \<Rightarrow> guard_event \<Rightarrow> guards \<times> 's \<Rightarrow> unit result \<times> guards \<times> 's" where
  "guard_step unlock (G_unlock i) gs = guard_unlock unlock i gs"
| "guard_step unlock (G_destroy i) gs = (Inr (), guard_destroy unlock i gs)"
| "guard_step unlock (G_move i j) gs = (Inr (), if fst gs i = None then guard_move i j gs else gs)"
| "guard_step unlock (G_assign i j) gs = (Inr (), guard_assign unlock i j gs)"

fun guard_run :: "(nat \<Rightarrow> 's \<Rightarrow> unit result \<times> 's) \<Rightarrow> guard_event list \<Rightarrow> guards \<times> 's \<Rightarrow> unit result \<times> guards \<times> 's" where
  "guard_run unlock [] gs = (Inr (), gs)"
| "guard_run unlock (ev # evs) gs =
     (case guard_step unlock ev gs of
        (Inl e, gs') \<Rightarrow> (Inl e, gs')
      | (Inr u, gs') \<Rightarrow> guard_run unlock evs gs')"

context lockable
begin

lemma guards_ok_release:
  assumes "guards_ok locked ok (gv, s)" and "gv i = Some m"
  shows "fst (unlock m s) = Inr () \<and> guards_ok locked ok (gv(i := None), snd (unlock m s))"
  using assms unlock_locked [of s m] unlock_ok [of s m] unlock_other [of s _ m]
  unfolding guards_ok_def by (auto split: if_splits) metis

lemma guards_ok_move: "guards_ok locked ok (gv, s) \<Longrightarrow> gv i = None \<or> i = j \<Longrightarrow> guards_ok locked ok (gv(i := gv j, j := None), s)"
  unfolding guards_ok_def by (auto split: if_splits)

lemma guard_step_ok:
  assumes "guards_ok locked ok gs"
  shows "fst (guard_step unlock ev gs) = Inr () \<and> guards_ok locked ok (snd (guard_step unlock ev gs))"
proof -
  obtain gv s where gs: "gs = (gv, s)" by fastforce
  show ?thesis
  proof (cases ev)
    case (G_unlock i)
    with assms gs guards_ok_release show ?thesis
      by (cases "gv i") (auto simp: guard_unlock_def case_prod_beta)
  next
    case (G_destroy i)
    with assms gs guards_ok_release show ?thesis
      by (cases "gv i") (auto simp: guard_destroy_def)
  next
    case (G_move i j)
    with assms gs guards_ok_move [of gv s i j] show ?thesis by (simp add: guard_move_def)
  next
    case (G_assign i j)
    show ?thesis
    proof (cases "gv i")
      case None
      with assms gs G_assign guards_ok_move [of gv s i j] show ?thesis by (simp add: guard_assign_def)
    next
      case (Some m)
      with assms gs guards_ok_release have "guards_ok locked ok (gv(i := None), snd (unlock m s))" by blast
      with guards_ok_move [of "gv(i := None)" "snd (unlock m s)" i j] have
        "i \<noteq> j \<Longrightarrow> guards_ok locked ok (gv(i := gv j, j := None), snd (unlock m s))" by simp
      with assms gs G_assign Some show ?thesis by (simp add: guard_assign_def)
    qed
  qed
qed

lemma guard_run_ok:
  "guards_ok locked ok gs \<Longrightarrow>
     fst (guard_run unlock evs gs) = Inr () \<and> guards_ok locked ok (snd (guard_run unlock evs gs))"
proof (induction evs arbitrary: gs)
  case (Cons ev evs)
  from guard_step_ok [OF Cons.prems, of ev] obtain gs' where "guard_step unlock ev gs = (Inr (), gs')" "guards_ok locked ok gs'"
    by (cases "guard_step unlock ev gs") auto
  with Cons.IH show ?case by simp
qed simp

end

section \<open>The two kinds of mutex\<close>

definition am_store_unlock :: "bool \<Rightarrow> nat \<Rightarrow> (nat \<Rightarrow> async_mutex) \<times> wake_ctx \<Rightarrow> unit result \<times> (nat \<Rightarrow> async_mutex) \<times> wake_ctx" where
  "am_store_unlock b m s =
     (case am_unlock b (fst s m, snd s) of (r, x, c) \<Rightarrow> (r, (fst s)(m := x), c))"

definition lm_store_unlock :: "nat \<Rightarrow> (nat \<Rightarrow> local_async_mutex) \<times> nat list \<Rightarrow> unit result \<times> (nat \<Rightarrow> local_async_mutex) \<times> nat list" where
  "lm_store_unlock m s =
     (case lm_unlock True (fst s m, snd s) of (r, x, l) \<Rightarrow> (r, (fst s)(m := x), l))"

text \<open>The members of \<open>local_async_mutex_guard\<close>, which repeat those of \<open>async_mutex_guard\<close> over the local mutexes.\<close>

type_synonym lm_store = "(nat \<Rightarrow> local_async_mutex) \<times> nat list"

definition local_guard_unlock :: "nat \<Rightarrow> guards \<times> lm_store \<Rightarrow> unit result \<times> guards \<times> lm_store" where
  "local_guard_unlock = guard_unlock lm_store_unlock"

definition local_guard_destroy :: "nat \<Rightarrow> guards \<times> lm_store \<Rightarrow> guards \<times> lm_store" where
  "local_guard_destroy = guard_destroy lm_store_unlock"

definition local_guard_move :: "nat \<Rightarrow> nat \<Rightarrow> guards \<times> lm_store \<Rightarrow> guards \<times> lm_store" where
  "local_guard_move = guard_move"

definition local_guard_assign :: "nat \<Rightarrow> nat \<Rightarrow> guards \<times> lm_store \<Rightarrow> guards \<times> lm_store" where
  "local_guard_assign = guard_assign lm_store_unlock"

interpretation am_guards: lockable "am_store_unlock b" "\<lambda>m s. am_locked (fst s m)" "\<lambda>s. ctx_ok (snd s)" for b
  by unfold_locales
    (auto simp: am_store_unlock_def am_unlock_def Let_def case_prod_beta resume_waiter_ok split: option.split)

interpretation lm_guards: lockable lm_store_unlock "\<lambda>m s. lm_locked (fst s m)" "\<lambda>s. True"
  by unfold_locales
    (auto simp: lm_store_unlock_def lm_unlock_def require_runtime_thread_def Let_def case_prod_beta split: option.split)

text \<open>
  C6. Guards own what they lock: whatever a program does with its guards (unlocking, moving,
  assigning, destroying), no two of them own the same mutex, each owned mutex is locked, and no
  \<open>unlock\<close> on the way throws, so the destructors' \<open>catch (...)\<close> never hides a failure.
\<close>
theorem am_guards_own:
  assumes "guards_ok (\<lambda>m s. am_locked (fst s m)) (\<lambda>s. ctx_ok (snd s)) gs"
  shows "fst (guard_run (am_store_unlock b) evs gs) = Inr () \<and>
    guards_ok (\<lambda>m s. am_locked (fst s m)) (\<lambda>s. ctx_ok (snd s)) (snd (guard_run (am_store_unlock b) evs gs))"
  by (rule am_guards.guard_run_ok [OF assms])

text \<open>Guard 0 owns mutex 5, guard 1 owns mutex 6; guard 0 is assigned guard 1, then both are destroyed.\<close>

definition guards_example :: "guards \<times> (nat \<Rightarrow> async_mutex) \<times> wake_ctx" where
  "guards_example = ((\<lambda>_. None)(0 := Some 5, 1 := Some 6),
     (\<lambda>_. new_async_mutex\<lparr>am_locked := True\<rparr>), (new_runtime, []))"

theorem am_guards_own_witness:
  "fst (guard_run (am_store_unlock True) [G_assign 0 1, G_destroy 0, G_destroy 1] guards_example) = Inr ()"
proof -
  have "guards_ok (\<lambda>m s. am_locked (fst s m)) (\<lambda>s. ctx_ok (snd s)) guards_example"
    by (simp add: guards_ok_def guards_example_def)
  from am_guards_own [OF this] show ?thesis by blast
qed

text \<open>
  The same for the guards of local mutexes on the runtime thread.
\<close>
theorem lm_guards_own:
  assumes "guards_ok (\<lambda>m s. lm_locked (fst s m)) (\<lambda>s. True) gs"
  shows "fst (guard_run lm_store_unlock evs gs) = Inr () \<and>
    guards_ok (\<lambda>m s. lm_locked (fst s m)) (\<lambda>s. True) (snd (guard_run lm_store_unlock evs gs))"
  by (rule lm_guards.guard_run_ok [OF assms])

text \<open>
  A local guard that is destroyed, or assigned to, unlocks the mutex it owns and nothing else.
\<close>

lemma local_guard_releases:
  assumes "guards_ok (\<lambda>m s. lm_locked (fst s m)) (\<lambda>s. True) (gv, s)" and "gv i = Some m" and "m' \<noteq> m"
  shows "fst (local_guard_destroy i (gv, s)) i = None \<and>
    lm_locked (fst (snd (local_guard_destroy i (gv, s))) m') = lm_locked (fst s m') \<and>
    (i \<noteq> j \<longrightarrow> fst (local_guard_assign i j (gv, s)) i = gv j \<and>
       snd (local_guard_assign i j (gv, s)) = snd (local_guard_destroy i (gv, s)))"
  using assms(2) lm_guards.unlock_other [OF TrueI assms(3), of s]
  by (simp add: local_guard_destroy_def local_guard_assign_def guard_destroy_def guard_assign_def)

end
