(* ===== verification/Semaphore.thy ===== *)
theory Semaphore
  imports Waiters
begin

text \<open>
  \<open>async_semaphore\<close> and \<open>local_async_semaphore\<close> of \<open>include/luvcoro/sync.hpp\<close>. Permits are
  integers (the source's \<open>ptrdiff_t\<close>, whose overflow is undefined in C++ and not modelled).
\<close>

section \<open>The semaphore for all threads\<close>

record async_semaphore =
  se_permits :: int
  se_waiters :: "nat list"
  se_heap :: wheap

definition new_async_semaphore :: "int \<Rightarrow> async_semaphore result" where
  "new_async_semaphore initial =
     (if initial < 0 then Inl (Invalid_argument ''async_semaphore initial count must be >= 0'')
      else Inr \<lparr>se_permits = initial, se_waiters = [], se_heap = (\<lambda>_. new_waiter)\<rparr>)"

definition se_cancel_waiter :: "bool \<Rightarrow> nat \<Rightarrow> async_semaphore \<times> wake_ctx \<Rightarrow> async_semaphore \<times> wake_ctx" where
  "se_cancel_waiter is_loop_thread w sc =
     (case cancel_now is_loop_thread w (se_heap (fst sc), snd sc) of
        (h, c) \<Rightarrow> ((fst sc)\<lparr>se_heap := h\<rparr>, c))"

definition se_await_ready :: "nat \<Rightarrow> async_semaphore \<Rightarrow> bool \<times> async_semaphore" where
  "se_await_ready w s =
     (let s = s\<lparr>se_waiters := prune_inactive (se_heap s) (se_waiters s)\<rparr> in
      if se_permits s > 0
      then (True, s\<lparr>se_permits := se_permits s - 1,
              se_heap := (se_heap s)(w := (se_heap s w)\<lparr>w_completed := True\<rparr>)\<rparr>)
      else (False, s))"

definition se_await_suspend :: "bool \<Rightarrow> bool \<Rightarrow> bool \<Rightarrow> bool \<Rightarrow> nat \<Rightarrow> async_semaphore \<times> wake_ctx
    \<Rightarrow> bool \<times> async_semaphore \<times> wake_ctx" where
  "se_await_suspend is_loop_thread stop_possible stopped_before stopped_at_register w sc =
     (let s = fst sc in
      if stopped_before
      then (False, s\<lparr>se_heap := (se_heap s)(w := (se_heap s w)\<lparr>w_completed := True, w_cancelled := True\<rparr>)\<rparr>, snd sc)
      else
        let s = s\<lparr>se_heap := (se_heap s)(w := (se_heap s w)\<lparr>w_continuation := True\<rparr>)\<rparr>;
            s = s\<lparr>se_waiters := prune_inactive (se_heap s) (se_waiters s)\<rparr>
        in if se_permits s > 0
           then (False, s\<lparr>se_permits := se_permits s - 1,
                   se_heap := (se_heap s)(w := (se_heap s w)\<lparr>w_completed := True\<rparr>)\<rparr>, snd sc)
           else
             let s = s\<lparr>se_waiters := se_waiters s @ [w]\<rparr>;
                 sc' = (if stop_possible
                        then (let s = s\<lparr>se_heap := (se_heap s)(w := (se_heap s w)\<lparr>w_stop_callback := True\<rparr>)\<rparr>
                              in if stopped_at_register then se_cancel_waiter is_loop_thread w (s, snd sc) else (s, snd sc))
                        else (s, snd sc))
             in (\<not> w_completed (se_heap (fst sc') w), sc'))"

definition se_await_resume :: "nat \<Rightarrow> async_semaphore \<Rightarrow> unit result \<times> async_semaphore" where
  "se_await_resume w s =
     (let s = s\<lparr>se_heap := (se_heap s)(w := (se_heap s w)\<lparr>w_stop_callback := False\<rparr>)\<rparr> in
      (if w_cancelled (se_heap s w) then Inl Operation_cancelled else Inr (), s))"

text \<open>\<open>co_await semaphore.acquire(token)\<close> up to its first suspension.\<close>

definition se_acquire :: "bool \<Rightarrow> bool \<Rightarrow> bool \<Rightarrow> bool \<Rightarrow> nat \<Rightarrow> async_semaphore \<times> wake_ctx
    \<Rightarrow> unit awaited \<times> async_semaphore \<times> wake_ctx" where
  "se_acquire is_loop_thread stop_possible stopped_before stopped_at_register w sc =
     (case se_await_ready w (fst sc) of
        (True, s) \<Rightarrow> (case se_await_resume w s of (r, s') \<Rightarrow> (Continues r, s', snd sc))
      | (False, s) \<Rightarrow>
          (case se_await_suspend is_loop_thread stop_possible stopped_before stopped_at_register w (s, snd sc) of
             (True, sc') \<Rightarrow> (Suspended, sc')
           | (False, sc') \<Rightarrow> (case se_await_resume w (fst sc') of (r, s') \<Rightarrow> (Continues r, s', snd sc'))))"

definition se_try_acquire :: "async_semaphore \<Rightarrow> bool \<times> async_semaphore" where
  "se_try_acquire s =
     (let s = s\<lparr>se_waiters := prune_inactive (se_heap s) (se_waiters s)\<rparr> in
      if se_permits s \<le> 0 then (False, s)
      else (True, s\<lparr>se_permits := se_permits s - 1\<rparr>))"

text \<open>
  \<open>release\<close>: the loop takes at most \<open>count\<close> waiters and answers what is left of \<open>count\<close>, the
  waiters it took, and the heap and queue it leaves.
\<close>

fun se_release_loop :: "nat \<Rightarrow> wheap \<times> nat list \<Rightarrow> nat \<times> nat list \<times> wheap \<times> nat list" where
  "se_release_loop 0 hq = (0, [], hq)"
| "se_release_loop (Suc k) hq =
     (case snd hq of
        [] \<Rightarrow> (Suc k, [], hq)
      | w # q \<Rightarrow>
          (let h = (fst hq)(w := mark_woken (fst hq w)) in
           case se_release_loop k (h, prune_inactive h q) of
             (n, ready, hq') \<Rightarrow> (n, w # ready, hq')))"

definition se_release :: "bool \<Rightarrow> int \<Rightarrow> async_semaphore \<times> wake_ctx \<Rightarrow> unit result \<times> async_semaphore \<times> wake_ctx" where
  "se_release is_loop_thread cnt sc =
     (let s = fst sc in
      if cnt \<le> 0 then (Inl (Invalid_argument ''async_semaphore release count must be > 0''), sc)
      else (case se_release_loop (nat cnt) (se_heap s, prune_inactive (se_heap s) (se_waiters s)) of
              (n, ready_waiters, h, q) \<Rightarrow>
                (let s' = s\<lparr>se_heap := h, se_waiters := q, se_permits := se_permits s + int n\<rparr> in
                 case resume_waiters is_loop_thread h ready_waiters (snd sc) of
                   (r, c) \<Rightarrow> (r, s', c))))"

definition se_available :: "async_semaphore \<Rightarrow> int" where
  "se_available s = se_permits s"

text \<open>The loop pops from the front of the queue, as the interface of wake-up queues has it.\<close>

lemma se_release_loop_pop_n:
  "se_release_loop n (h, prune_inactive h q) = (n', ready, hq') \<Longrightarrow>
     \<exists>t. pop_n take_front n (h, q) = (ready, t) \<and> n' + length ready = n \<and>
       fst t = fst hq' \<and> live (fst hq') (snd hq') = live (fst t) (snd t) \<and>
       (distinct q \<longrightarrow> distinct (snd hq')) \<and> set (snd hq') \<subseteq> set q"
proof (induction n arbitrary: h q n' ready hq')
  case 0
  then show ?case using set_prune [of h q] by auto
next
  case (Suc n)
  show ?case
  proof (cases "prune_inactive h q")
    case Nil
    with Suc.prems have "n' = Suc n" "ready = []" "hq' = (h, [])" by auto
    with Nil take_front_Nil [OF Nil] show ?thesis by simp
  next
    case (Cons w ws)
    let ?h = "h(w := mark_woken (h w))"
    obtain m r x where rec: "se_release_loop n (?h, prune_inactive ?h ws) = (m, r, x)" by (metis prod_cases3)
    with Suc.prems Cons have eq: "n' = m" "ready = w # r" "hq' = x" by auto
    from Suc.IH [OF rec] obtain t where t: "pop_n take_front n (?h, ws) = (r, t)" "m + length r = n"
      "fst t = fst x" "live (fst x) (snd x) = live (fst t) (snd t)"
      "distinct ws \<longrightarrow> distinct (snd x)" "set (snd x) \<subseteq> set ws" by blast
    have "distinct q \<Longrightarrow> distinct ws" using distinct_prune [of q h] Cons by simp
    moreover have "set ws \<subseteq> set q" using set_prune [of h q] Cons by auto
    ultimately show ?thesis using t eq take_front_Cons [OF Cons] by auto
  qed
qed

section \<open>The abstract semaphore\<close>

text \<open>
  What the semaphore promises: a number of permits and the clients waiting, first come, first
  served. \<open>release\<close> serves the clients that have waited longest and keeps only what is left.
\<close>

type_synonym sem_spec = "int \<times> nat list"

datatype se_event =
    Se_acquire bool bool bool bool nat
  | Se_try
  | Se_release bool int
  | Se_cancel bool nat

fun se_spec_step :: "se_event \<Rightarrow> sem_spec \<Rightarrow> sem_spec" where
  "se_spec_step (Se_acquire b sp stopped_before stopped_at_register w) (p, ws) =
     (if p > 0 then (p - 1, ws)
      else if stopped_before \<or> sp \<and> stopped_at_register then (p, ws)
      else (p, ws @ [w]))"
| "se_spec_step Se_try (p, ws) = (if p > 0 then (p - 1, ws) else (p, ws))"
| "se_spec_step (Se_release b n) (p, ws) =
     (if n \<le> 0 then (p, ws) else (p + int (nat n - length ws), drop (nat n) ws))"
| "se_spec_step (Se_cancel b w) (p, ws) = (p, filter (\<lambda>v. v \<noteq> w) ws)"

fun se_step :: "se_event \<Rightarrow> async_semaphore \<times> wake_ctx \<Rightarrow> async_semaphore \<times> wake_ctx" where
  "se_step (Se_acquire b sp stopped_before stopped_at_register w) sc = snd (se_acquire b sp stopped_before stopped_at_register w sc)"
| "se_step Se_try sc = (snd (se_try_acquire (fst sc)), snd sc)"
| "se_step (Se_release b n) sc = snd (se_release b n sc)"
| "se_step (Se_cancel b w) sc = se_cancel_waiter b w sc"

definition se_abs :: "async_semaphore \<Rightarrow> sem_spec" where
  "se_abs s = (se_permits s, live (se_heap s) (se_waiters s))"

definition se_inv :: "async_semaphore \<Rightarrow> bool" where
  "se_inv s \<longleftrightarrow> se_permits s \<ge> 0 \<and> distinct (se_waiters s) \<and>
     (\<forall>w\<in>set (live (se_heap s) (se_waiters s)). \<not> w_completed (se_heap s w)) \<and>
     (se_permits s > 0 \<longrightarrow> live (se_heap s) (se_waiters s) = [])"

text \<open>An \<open>acquire\<close> uses a waiter of its own.\<close>

fun se_fresh :: "se_event \<Rightarrow> async_semaphore \<Rightarrow> bool" where
  "se_fresh (Se_acquire b sp sb sr w) s \<longleftrightarrow> se_heap s w = new_waiter \<and> w \<notin> set (se_waiters s)"
| "se_fresh ev s \<longleftrightarrow> True"

lemma se_release_abs:
  assumes "se_inv s" and "n > 0"
  shows "se_abs (fst (snd (se_release b n (s, c)))) = se_spec_step (Se_release b n) (se_abs s) \<and>
    se_inv (fst (snd (se_release b n (s, c))))"
proof -
  let ?h = "se_heap s" and ?q = "se_waiters s"
  obtain m ready h' q' where l: "se_release_loop (nat n) (?h, prune_inactive ?h ?q) = (m, ready, h', q')"
    by (metis prod_cases4)
  from se_release_loop_pop_n [OF l] obtain t where t: "pop_n take_front (nat n) (?h, ?q) = (ready, t)"
    "m + length ready = nat n" "fst t = h'" "live h' q' = live (fst t) (snd t)" "distinct ?q \<longrightarrow> distinct q'"
    by auto
  from assms(1) have dq: "distinct ?q" by (simp add: se_inv_def)
  from sync_queue.pop_n_fifo [of "(?h, ?q)", OF _ t(1)] dq
  have f: "ready = take (nat n) (live ?h ?q)" "live h' q' = drop (nat n) (live ?h ?q)"
    using t(4) by auto
  have m: "m = nat n - length (live ?h ?q)" using t(2) f(1) by simp
  have s': "fst (snd (se_release b n (s, c))) = s\<lparr>se_heap := h', se_waiters := q', se_permits := se_permits s + int m\<rparr>"
    using assms(2) l by (simp add: se_release_def Let_def case_prod_beta)
  from pop_n_take_front_heap [OF t(1)] t(3)
  have h': "h' = (\<lambda>v. if v \<in> set ready then mark_woken (?h v) else ?h v)" by simp
  have dl: "distinct (live ?h ?q)" using dq by (simp add: live_def)
  have nr: "v \<notin> set ready" if "v \<in> set (drop (nat n) (live ?h ?q))" for v
    using that dl f(1) by (metis append_take_drop_id disjoint_iff distinct_append)
  have "\<forall>v\<in>set (live h' q'). \<not> w_completed (h' v)"
    using assms(1) nr unfolding f(2) by (auto simp: h' se_inv_def dest: in_set_dropD)
  moreover have "se_permits s + int m > 0 \<longrightarrow> live h' q' = []"
    using assms(1) m f(2) by (auto simp: se_inv_def)
  ultimately show ?thesis
    using assms t(5) dq m f(2) by (auto simp: s' se_abs_def se_inv_def)
qed

lemma se_acquire_abs:
  assumes "se_inv s" and "se_heap s w = new_waiter" and "w \<notin> set (se_waiters s)"
  shows "se_abs (fst (snd (se_acquire b sp sb sr w (s, c)))) = se_spec_step (Se_acquire b sp sb sr w) (se_abs s) \<and>
    se_inv (fst (snd (se_acquire b sp sb sr w (s, c))))"
proof -
  let ?h = "se_heap s" and ?q = "se_waiters s"
  have l: "w \<notin> set (live ?h ?q)" using assms(3) by (simp add: set_live)
  show ?thesis
    using assms l
    by (auto simp: se_acquire_def se_await_ready_def se_await_suspend_def se_await_resume_def Let_def new_waiter_def
       se_abs_def se_inv_def se_cancel_waiter_def cancel_now_def case_prod_beta split: bool.splits)
qed

lemma se_step_abs:
  assumes "se_inv (fst sc)" and "se_fresh ev (fst sc)"
  shows "se_abs (fst (se_step ev sc)) = se_spec_step ev (se_abs (fst sc)) \<and> se_inv (fst (se_step ev sc))"
proof (cases ev)
  case (Se_acquire b sp sb sr w)
  with assms se_acquire_abs [of "fst sc" w b sp sb sr "snd sc"] show ?thesis by simp
next
  case Se_try
  with assms show ?thesis by (auto simp: se_try_acquire_def Let_def se_abs_def se_inv_def)
next
  case (Se_release b n)
  with assms se_release_abs [of "fst sc" n b "snd sc"] show ?thesis
    by (cases "n > 0") (auto simp: se_release_def se_abs_def)
next
  case (Se_cancel b w)
  have c: "\<And>v. v \<in> set (live (fst (se_heap (fst sc), snd sc)) (se_waiters (fst sc))) \<Longrightarrow> \<not> w_completed (fst (se_heap (fst sc), snd sc) v)"
    using assms(1) by (auto simp: se_inv_def)
  from live_cancel_now [of "(se_heap (fst sc), snd sc)" "se_waiters (fst sc)" b w, OF c] Se_cancel assms(1)
  show ?thesis
    by (auto simp: se_cancel_waiter_def se_abs_def se_inv_def case_prod_beta cancel_now_other)
qed

fun se_run :: "se_event list \<Rightarrow> async_semaphore \<times> wake_ctx \<Rightarrow> async_semaphore \<times> wake_ctx" where
  "se_run [] sc = sc"
| "se_run (ev # evs) sc = se_run evs (se_step ev sc)"

fun se_spec_run :: "se_event list \<Rightarrow> sem_spec \<Rightarrow> sem_spec" where
  "se_spec_run [] a = a"
| "se_spec_run (ev # evs) a = se_spec_run evs (se_spec_step ev a)"

fun se_all_fresh :: "se_event list \<Rightarrow> async_semaphore \<times> wake_ctx \<Rightarrow> bool" where
  "se_all_fresh [] sc = True"
| "se_all_fresh (ev # evs) sc = (se_fresh ev (fst sc) \<and> se_all_fresh evs (se_step ev sc))"

lemma se_run_abs:
  "se_inv (fst sc) \<Longrightarrow> se_all_fresh evs sc \<Longrightarrow>
     se_abs (fst (se_run evs sc)) = se_spec_run evs (se_abs (fst sc)) \<and> se_inv (fst (se_run evs sc))"
  by (induction evs arbitrary: sc) (auto simp: se_step_abs simp del: se_step.simps se_fresh.simps)

lemma se_inv_new: "new_async_semaphore n = Inr s \<Longrightarrow> se_inv s"
  by (auto simp: new_async_semaphore_def se_inv_def split: if_splits)

text \<open>
  C7. \<open>async_semaphore\<close> refines the abstract semaphore: whatever calls of \<open>acquire\<close>,
  \<open>try_acquire\<close>, \<open>release\<close> and whatever cancellations come in whatever order, its permits and
  the clients waiting in it are those of the abstract semaphore. The deque with its inactive
  entries and the pruning are invisible, and while permits are left nobody waits.
\<close>
theorem se_refines:
  assumes "new_async_semaphore n = Inr s" and "se_all_fresh evs (s, c)"
  shows "se_abs (fst (se_run evs (s, c))) = se_spec_run evs (n, []) \<and>
    (se_available (fst (se_run evs (s, c))) > 0 \<longrightarrow> snd (se_abs (fst (se_run evs (s, c)))) = [])"
proof -
  from assms(1) have "se_abs s = (n, [])"
    by (auto simp: new_async_semaphore_def se_abs_def split: if_splits)
  with se_run_abs [of "(s, c)" evs] se_inv_new [OF assms(1)] assms(2) show ?thesis
    by (auto simp: se_inv_def se_available_def se_abs_def)
qed

lemmas se_eval = new_async_semaphore_def new_waiter_def se_acquire_def se_await_ready_def se_await_suspend_def
  se_await_resume_def se_try_acquire_def se_release_def se_cancel_waiter_def cancel_now_def resume_waiter_noexcept_def
  resume_waiter_def mark_woken_def se_abs_def live_def Let_def

text \<open>One permit: client 0 takes it, 1 to 3 wait, 2 is cancelled, and three permits are released.\<close>

definition se_trace :: "se_event list" where
  "se_trace = [Se_acquire True True False False 0, Se_acquire True True False False 1,
     Se_acquire True True False False 2, Se_acquire True False False False 3, Se_cancel True 2, Se_release True 3]"

theorem se_refines_witness:
  "\<exists>s. new_async_semaphore 1 = Inr s \<and> se_abs (fst (se_run se_trace (s, new_runtime, []))) = (1, [])"
proof -
  obtain s where s: "new_async_semaphore 1 = Inr s" and s_def: "s = \<lparr>se_permits = 1, se_waiters = [], se_heap = (\<lambda>_. new_waiter)\<rparr>"
    by (simp add: new_async_semaphore_def)
  have "se_all_fresh se_trace (s, new_runtime, [])"
    by (simp add: se_trace_def s_def se_eval)
  from se_refines [OF s this] have "se_abs (fst (se_run se_trace (s, new_runtime, []))) = se_spec_run se_trace (1, [])" ..
  also have "\<dots> = (1, [])" by (simp add: se_trace_def)
  finally show ?thesis using s by blast
qed

text \<open>
  \<open>release\<close> wakes exactly the clients it serves, in the order they have waited: on the
  runtime thread the next \<open>count\<close> waiting clients are resumed one after the other and nobody
  else is.
\<close>
theorem se_release_wakes:
  assumes "se_inv s" and "n > 0" and "\<forall>w\<in>set (live (se_heap s) (se_waiters s)). w_continuation (se_heap s w)"
  shows "\<exists>s'. se_release True n (s, c) = (Inr (), s', fst c, snd c @ take (nat n) (live (se_heap s) (se_waiters s)))"
proof -
  let ?h = "se_heap s" and ?q = "se_waiters s"
  obtain m ready h' q' where l: "se_release_loop (nat n) (?h, prune_inactive ?h ?q) = (m, ready, h', q')"
    by (metis prod_cases4)
  from se_release_loop_pop_n [OF l] obtain t where t: "pop_n take_front (nat n) (?h, ?q) = (ready, t)" "fst t = h'"
    by auto
  from sync_queue.pop_n_fifo [of "(?h, ?q)", OF _ t(1)] assms(1) have r: "ready = take (nat n) (live ?h ?q)"
    by (simp add: se_inv_def)
  with assms(3) pop_n_take_front_heap [OF t(1)] t(2) have "\<forall>w\<in>set ready. w_continuation (h' w)"
    by (auto dest: in_set_takeD)
  with resume_waiters_loop assms(2) l r show ?thesis by (simp add: se_release_def Let_def)
qed

theorem se_release_wakes_witness:
  "\<exists>s s'. se_inv s \<and> live (se_heap s) (se_waiters s) = [4, 7, 9] \<and>
     se_release True 2 (s, new_runtime, []) = (Inr (), s', new_runtime, [4, 7])"
proof -
  let ?s = "\<lparr>se_permits = 0, se_waiters = [4, 7, 9], se_heap = (\<lambda>_. new_waiter\<lparr>w_continuation := True\<rparr>)\<rparr>"
  have i: "se_inv ?s" "live (se_heap ?s) (se_waiters ?s) = [4, 7, 9]"
    by (simp_all add: se_inv_def new_waiter_def)
  have "\<forall>w\<in>set (live (se_heap ?s) (se_waiters ?s)). w_continuation (se_heap ?s w)" by simp
  from se_release_wakes [OF i(1) _ this, of 2 "(new_runtime, [])"] i show ?thesis by (auto simp: numeral_2_eq_2)
qed

end
