(* ===== verification/Local_Semaphore.thy ===== *)
theory Local_Semaphore
  imports Semaphore Local_Mutex
begin

text \<open>
  \<open>local_async_semaphore\<close> of \<open>include/luvcoro/sync.hpp\<close>. It belongs to one thread, and its
  \<open>release\<close> resumes the clients it serves in the middle of its loop: what a resumed coroutine
  does before it suspends again (other calls of the same semaphore included) happens before the
  next iteration. The resumption is therefore a parameter \<open>resume\<close> of the loop, and the record is
  extended by what the clients keep.
\<close>

section \<open>State and operations\<close>

record local_async_semaphore =
  ss_permits :: int
  ss_waiters :: "nat list"
  ss_heap :: wheap

definition new_local_async_semaphore :: "int \<Rightarrow> local_async_semaphore result" where
  "new_local_async_semaphore initial =
     (if initial < 0 then Inl (Invalid_argument ''local_async_semaphore initial count must be >= 0'')
      else Inr \<lparr>ss_permits = initial, ss_waiters = [], ss_heap = (\<lambda>_. new_waiter)\<rparr>)"

definition ss_cancel_waiter :: "nat \<Rightarrow> nat uv_runtime \<Rightarrow> nat uv_runtime" where
  "ss_cancel_waiter w rt = snd (post w rt)"

text \<open>The job it posts; the answer says whether the client is to be resumed.\<close>

definition ss_cancel_job :: "nat \<Rightarrow> 'z local_async_semaphore_scheme \<Rightarrow> bool \<times> 'z local_async_semaphore_scheme" where
  "ss_cancel_job w s =
     (let x = ss_heap s w in
      if \<not> w_active x \<or> w_completed x then (False, s)
      else (w_continuation x,
            s\<lparr>ss_heap := (ss_heap s)(w := x\<lparr>w_active := False, w_completed := True, w_cancelled := True\<rparr>)\<rparr>))"

definition ss_await_ready :: "bool \<Rightarrow> nat \<Rightarrow> 'z local_async_semaphore_scheme \<Rightarrow> bool result \<times> 'z local_async_semaphore_scheme" where
  "ss_await_ready is_loop_thread w s =
     (case require_runtime_thread is_loop_thread ''local_async_semaphore::acquire'' of
        Inl e \<Rightarrow> (Inl e, s)
      | Inr _ \<Rightarrow>
          (let s = s\<lparr>ss_waiters := prune_inactive (ss_heap s) (ss_waiters s)\<rparr> in
           if ss_permits s > 0
           then (Inr True, s\<lparr>ss_permits := ss_permits s - 1,
                   ss_heap := (ss_heap s)(w := (ss_heap s w)\<lparr>w_completed := True\<rparr>)\<rparr>)
           else (Inr False, s)))"

definition ss_await_suspend :: "bool \<Rightarrow> bool \<Rightarrow> bool \<Rightarrow> bool \<Rightarrow> nat
    \<Rightarrow> 'z local_async_semaphore_scheme \<times> nat uv_runtime
    \<Rightarrow> bool result \<times> 'z local_async_semaphore_scheme \<times> nat uv_runtime" where
  "ss_await_suspend is_loop_thread stop_possible stopped_before stopped_at_register w sr =
     (case require_runtime_thread is_loop_thread ''local_async_semaphore::acquire'' of
        Inl e \<Rightarrow> (Inl e, sr)
      | Inr _ \<Rightarrow>
          (let s = fst sr in
           if stopped_before
           then (Inr False, s\<lparr>ss_heap := (ss_heap s)(w := (ss_heap s w)\<lparr>w_completed := True, w_cancelled := True\<rparr>)\<rparr>, snd sr)
           else
             let s = s\<lparr>ss_heap := (ss_heap s)(w := (ss_heap s w)\<lparr>w_continuation := True\<rparr>)\<rparr>;
                 s = s\<lparr>ss_waiters := prune_inactive (ss_heap s) (ss_waiters s)\<rparr>
             in if ss_permits s > 0
                then (Inr False, s\<lparr>ss_permits := ss_permits s - 1,
                        ss_heap := (ss_heap s)(w := (ss_heap s w)\<lparr>w_completed := True\<rparr>)\<rparr>, snd sr)
                else
                  let s = s\<lparr>ss_waiters := ss_waiters s @ [w]\<rparr>;
                      sr' = (if stop_possible
                             then (s\<lparr>ss_heap := (ss_heap s)(w := (ss_heap s w)\<lparr>w_stop_callback := True\<rparr>)\<rparr>,
                                   if stopped_at_register then ss_cancel_waiter w (snd sr) else snd sr)
                             else (s, snd sr))
                  in (Inr (\<not> w_completed (ss_heap (fst sr') w)), sr')))"

definition ss_await_resume :: "nat \<Rightarrow> 'z local_async_semaphore_scheme \<Rightarrow> unit result \<times> 'z local_async_semaphore_scheme" where
  "ss_await_resume w s =
     (let s = s\<lparr>ss_heap := (ss_heap s)(w := (ss_heap s w)\<lparr>w_stop_callback := False\<rparr>)\<rparr> in
      (if w_cancelled (ss_heap s w) then Inl Operation_cancelled else Inr (), s))"

definition ss_acquire :: "bool \<Rightarrow> bool \<Rightarrow> bool \<Rightarrow> bool \<Rightarrow> nat
    \<Rightarrow> 'z local_async_semaphore_scheme \<times> nat uv_runtime
    \<Rightarrow> unit awaited \<times> 'z local_async_semaphore_scheme \<times> nat uv_runtime" where
  "ss_acquire is_loop_thread stop_possible stopped_before stopped_at_register w sr =
     (case ss_await_ready is_loop_thread w (fst sr) of
        (Inl e, s) \<Rightarrow> (Continues (Inl e), s, snd sr)
      | (Inr True, s) \<Rightarrow> (case ss_await_resume w s of (r, s') \<Rightarrow> (Continues r, s', snd sr))
      | (Inr False, s) \<Rightarrow>
          (case ss_await_suspend is_loop_thread stop_possible stopped_before stopped_at_register w (s, snd sr) of
             (Inl e, sr') \<Rightarrow> (Continues (Inl e), sr')
           | (Inr True, sr') \<Rightarrow> (Suspended, sr')
           | (Inr False, sr') \<Rightarrow> (case ss_await_resume w (fst sr') of (r, s') \<Rightarrow> (Continues r, s', snd sr'))))"

definition ss_try_acquire :: "bool \<Rightarrow> 'z local_async_semaphore_scheme \<Rightarrow> bool result \<times> 'z local_async_semaphore_scheme" where
  "ss_try_acquire is_loop_thread s =
     (case require_runtime_thread is_loop_thread ''local_async_semaphore::try_acquire'' of
        Inl e \<Rightarrow> (Inl e, s)
      | Inr _ \<Rightarrow>
          (let s = s\<lparr>ss_waiters := prune_inactive (ss_heap s) (ss_waiters s)\<rparr> in
           if ss_permits s \<le> 0 then (Inr False, s)
           else (Inr True, s\<lparr>ss_permits := ss_permits s - 1\<rparr>)))"

text \<open>
  The loop of \<open>release\<close>, with what is left of \<open>count\<close>. \<open>resume w\<close> is what the coroutine of
  \<open>w\<close> does until it suspends; \<open>None\<close> when that never ends.
\<close>

fun ss_release_loop :: "(nat \<Rightarrow> 'z local_async_semaphore_scheme \<Rightarrow> 'z local_async_semaphore_scheme option) \<Rightarrow> nat
    \<Rightarrow> 'z local_async_semaphore_scheme \<Rightarrow> (nat \<times> 'z local_async_semaphore_scheme) option" where
  "ss_release_loop resume 0 s = Some (0, s)"
| "ss_release_loop resume (Suc k) s =
     (case ss_waiters s of
        [] \<Rightarrow> Some (Suc k, s)
      | w # q \<Rightarrow>
          (let s = s\<lparr>ss_waiters := q, ss_heap := (ss_heap s)(w := mark_woken (ss_heap s w))\<rparr> in
           case (if w_continuation (ss_heap s w) then resume w s else Some s) of
             None \<Rightarrow> None
           | Some s' \<Rightarrow> ss_release_loop resume k (s'\<lparr>ss_waiters := prune_inactive (ss_heap s') (ss_waiters s')\<rparr>)))"

definition ss_release :: "(nat \<Rightarrow> 'z local_async_semaphore_scheme \<Rightarrow> 'z local_async_semaphore_scheme option) \<Rightarrow> bool \<Rightarrow> int
    \<Rightarrow> 'z local_async_semaphore_scheme \<Rightarrow> (unit result \<times> 'z local_async_semaphore_scheme) option" where
  "ss_release resume is_loop_thread cnt s =
     (case require_runtime_thread is_loop_thread ''local_async_semaphore::release'' of
        Inl e \<Rightarrow> Some (Inl e, s)
      | Inr _ \<Rightarrow>
          if cnt \<le> 0 then Some (Inl (Invalid_argument ''local_async_semaphore release count must be > 0''), s)
          else (case ss_release_loop resume (nat cnt) (s\<lparr>ss_waiters := prune_inactive (ss_heap s) (ss_waiters s)\<rparr>) of
                  None \<Rightarrow> None
                | Some (k, s') \<Rightarrow> Some (Inr (), s'\<lparr>ss_permits := ss_permits s' + int k\<rparr>)))"

definition ss_available :: "bool \<Rightarrow> 'z local_async_semaphore_scheme \<Rightarrow> int result" where
  "ss_available is_loop_thread s =
     (case require_runtime_thread is_loop_thread ''local_async_semaphore::available'' of
        Inl e \<Rightarrow> Inl e
      | Inr _ \<Rightarrow> Inr (ss_permits s))"

section \<open>Clients that run when they are resumed\<close>

text \<open>
  The world of the clients: the runtime's queue of cancellation jobs, the permits granted so far
  and the permits released so far.
\<close>

record ss_world = local_async_semaphore +
  sw_rt :: "nat uv_runtime"
  sw_granted :: int
  sw_released :: int

datatype ss_op =
    Ss_acquire bool bool bool nat
  | Ss_try
  | Ss_release int
  | Ss_stop nat
  | Ss_job

text \<open>
  \<open>prog granted w\<close> is what client \<open>w\<close> does from its resumption to its next suspension. Calls
  of \<open>release\<close> resume clients, which may call \<open>release\<close> again: \<open>fuel\<close> bounds that nesting and
  the length of the run, and \<open>None\<close> means only that it ran out. Every call of \<open>acquire\<close> makes an
  awaiter of its own, so an operation that names a used one is passed over.
\<close>

fun ss_exec :: "nat \<Rightarrow> (bool \<Rightarrow> nat \<Rightarrow> ss_op list) \<Rightarrow> ss_op list \<Rightarrow> ss_world \<Rightarrow> ss_world option" where
  "ss_exec 0 prog ops s = None"
| "ss_exec (Suc n) prog [] s = Some s"
| "ss_exec (Suc n) prog (Ss_acquire sp sb sr w # ops) s =
     (if ss_heap s w \<noteq> new_waiter \<or> w \<in> set (ss_waiters s) then ss_exec n prog ops s
      else (case ss_acquire True sp sb sr w (s, sw_rt s) of
              (Suspended, s', rt) \<Rightarrow> Some (s'\<lparr>sw_rt := rt\<rparr>)
            | (Continues (Inr _), s', rt) \<Rightarrow> ss_exec n prog ops (s'\<lparr>sw_rt := rt, sw_granted := sw_granted s' + 1\<rparr>)
            | (Continues (Inl _), s', rt) \<Rightarrow> ss_exec n prog ops (s'\<lparr>sw_rt := rt\<rparr>)))"
| "ss_exec (Suc n) prog (Ss_try # ops) s =
     (case ss_try_acquire True s of
        (Inr True, s') \<Rightarrow> ss_exec n prog ops (s'\<lparr>sw_granted := sw_granted s' + 1\<rparr>)
      | (_, s') \<Rightarrow> ss_exec n prog ops s')"
| "ss_exec (Suc n) prog (Ss_release cnt # ops) s =
     (case ss_release (\<lambda>w s. ss_exec n prog (prog True w) (s\<lparr>sw_granted := sw_granted s + 1\<rparr>)) True cnt s of
        None \<Rightarrow> None
      | Some (Inl _, s') \<Rightarrow> ss_exec n prog ops s'
      | Some (Inr _, s') \<Rightarrow> ss_exec n prog ops (s'\<lparr>sw_released := sw_released s' + cnt\<rparr>))"
| "ss_exec (Suc n) prog (Ss_stop w # ops) s =
     (if w_stop_callback (ss_heap s w) then ss_exec n prog ops (s\<lparr>sw_rt := ss_cancel_waiter w (sw_rt s)\<rparr>)
      else ss_exec n prog ops s)"
| "ss_exec (Suc n) prog (Ss_job # ops) s =
     (case rt_queue (sw_rt s) of
        [] \<Rightarrow> ss_exec n prog ops s
      | w # js \<Rightarrow>
          (case ss_cancel_job w (s\<lparr>sw_rt := (sw_rt s)\<lparr>rt_queue := js\<rparr>\<rparr>) of
             (False, s') \<Rightarrow> ss_exec n prog ops s'
           | (True, s') \<Rightarrow>
               (case ss_exec n prog (prog False w) s' of
                  None \<Rightarrow> None
                | Some s'' \<Rightarrow> ss_exec n prog ops s'')))"

text \<open>A program is a list of coroutines; each starts when those before it are suspended or done.\<close>

fun ss_exec_all :: "nat \<Rightarrow> (bool \<Rightarrow> nat \<Rightarrow> ss_op list) \<Rightarrow> ss_op list list \<Rightarrow> ss_world \<Rightarrow> ss_world option" where
  "ss_exec_all n prog [] s = Some s"
| "ss_exec_all n prog (ops # opss) s =
     (case ss_exec n prog ops s of None \<Rightarrow> None | Some s' \<Rightarrow> ss_exec_all n prog opss s')"

section \<open>Conservation of permits\<close>

definition ss_ok :: "'z local_async_semaphore_scheme \<Rightarrow> bool" where
  "ss_ok s \<longleftrightarrow> ss_permits s \<ge> 0 \<and> (\<forall>w\<in>set (ss_waiters s). w_continuation (ss_heap s w)) \<and>
     (ss_permits s > 0 \<longrightarrow> live (ss_heap s) (ss_waiters s) = [])"

definition ss_balance :: "ss_world \<Rightarrow> int" where
  "ss_balance s = ss_permits s + sw_granted s - sw_released s"

lemma ss_ok_prune: "ss_ok s \<Longrightarrow> ss_ok (s\<lparr>ss_waiters := prune_inactive (ss_heap s) (ss_waiters s)\<rparr>)"
  using set_prune [of "ss_heap s" "ss_waiters s"] by (auto simp: ss_ok_def)

lemma ss_release_loop_balance:
  assumes "\<And>w s s'. ss_ok s \<Longrightarrow> resume w s = Some s' \<Longrightarrow> ss_ok s' \<and> ss_balance s' = ss_balance s + 1"
  shows "ss_ok s \<Longrightarrow> prune_inactive (ss_heap s) (ss_waiters s) = ss_waiters s \<Longrightarrow>
     ss_release_loop resume k s = Some (m, s') \<Longrightarrow>
     m \<le> k \<and> ss_ok s' \<and> ss_balance s' = ss_balance s + int k - int m \<and> (m > 0 \<longrightarrow> live (ss_heap s') (ss_waiters s') = [])"
proof (induction k arbitrary: s)
  case 0
  then show ?case by simp
next
  case (Suc k)
  show ?case
  proof (cases "ss_waiters s")
    case Nil
    with Suc.prems show ?thesis by auto
  next
    case (Cons w q)
    let ?s = "s\<lparr>ss_waiters := q, ss_heap := (ss_heap s)(w := mark_woken (ss_heap s w))\<rparr>"
    from Suc.prems(2) Cons have act: "w_active (ss_heap s w)" by (metis prune_ConsD)
    with Suc.prems(1) Cons have p0: "ss_permits s = 0" by (auto simp: ss_ok_def)
    from Suc.prems(1) Cons p0 have ok: "ss_ok ?s" and cont: "w_continuation (ss_heap ?s w)" by (auto simp: ss_ok_def)
    have b: "ss_balance ?s = ss_balance s" by (simp add: ss_balance_def)
    from Suc.prems(3) Cons cont obtain t where t: "resume w ?s = Some t"
      "ss_release_loop resume k (t\<lparr>ss_waiters := prune_inactive (ss_heap t) (ss_waiters t)\<rparr>) = Some (m, s')"
      by (auto simp: Let_def split: option.splits)
    from assms [OF ok t(1)] b have ot: "ss_ok t" "ss_balance t = ss_balance s + 1" by simp_all
    from Suc.IH [OF ss_ok_prune [OF ot(1)] _ t(2)] ot(2) show ?thesis by (auto simp: ss_balance_def)
  qed
qed

lemma ss_release_balance:
  assumes "\<And>w s s'. ss_ok s \<Longrightarrow> resume w s = Some s' \<Longrightarrow> ss_ok s' \<and> ss_balance s' = ss_balance s + 1"
    and "ss_ok s" and "ss_release resume True cnt s = Some (r, s')"
  shows "ss_ok s' \<and> ss_balance s' = ss_balance s + (case r of Inr _ \<Rightarrow> cnt | Inl _ \<Rightarrow> 0)"
proof (cases "cnt \<le> 0")
  case True
  with assms(2,3) show ?thesis by (auto simp: ss_release_def require_runtime_thread_def)
next
  case False
  let ?s = "s\<lparr>ss_waiters := prune_inactive (ss_heap s) (ss_waiters s)\<rparr>"
  from assms(3) False obtain k t where t: "ss_release_loop resume (nat cnt) ?s = Some (k, t)"
    "r = Inr ()" "s' = t\<lparr>ss_permits := ss_permits t + int k\<rparr>"
    by (auto simp: ss_release_def require_runtime_thread_def split: option.splits)
  have "k \<le> nat cnt \<and> ss_ok t \<and> ss_balance t = ss_balance ?s + int (nat cnt) - int k \<and>
      (k > 0 \<longrightarrow> live (ss_heap t) (ss_waiters t) = [])"
    by (rule ss_release_loop_balance [OF _ ss_ok_prune [OF assms(2)] _ t(1)]) (simp_all add: assms(1))
  with t False show ?thesis by (auto simp: ss_ok_def ss_balance_def)
qed

lemma ss_acquire_balance:
  assumes "ss_ok s" and "ss_heap s w = new_waiter" and "w \<notin> set (ss_waiters s)"
    and "ss_acquire True sp sb sr w (s, rt) = (out, s', rt')"
  shows "ss_ok s' \<and> sw_granted s' = sw_granted s \<and> sw_released s' = sw_released s \<and>
    ss_permits s' = ss_permits s - (if out = Continues (Inr ()) then 1 else 0)"
  using assms set_prune [of "ss_heap s" "ss_waiters s"]
  by (auto simp: ss_acquire_def ss_await_ready_def ss_await_suspend_def ss_await_resume_def require_runtime_thread_def
      Let_def ss_ok_def new_waiter_def split: if_splits)

lemma ss_exec_balance:
  "ss_exec n prog ops s = Some s' \<Longrightarrow> ss_ok s \<Longrightarrow> ss_ok s' \<and> ss_balance s' = ss_balance s"
proof (induction n arbitrary: ops s s')
  case (Suc n)
  show ?case
  proof (cases ops)
    case Nil
    with Suc.prems show ?thesis by simp
  next
    case (Cons op rest)
    show ?thesis
    proof (cases op)
      case (Ss_acquire sp sb sr w)
      show ?thesis
      proof (cases "ss_heap s w = new_waiter \<and> w \<notin> set (ss_waiters s)")
        case False
        with Suc.prems(1) Cons Ss_acquire have "ss_exec n prog rest s = Some s'" by auto
        from Suc.IH [OF this Suc.prems(2)] show ?thesis .
      next
        case True
      then have fresh: "ss_heap s w = new_waiter" "w \<notin> set (ss_waiters s)" by simp_all
      obtain out t rt where a: "ss_acquire True sp sb sr w (s, sw_rt s) = (out, t, rt)" by (metis prod_cases3)
      note b = ss_acquire_balance [OF Suc.prems(2) fresh a]
      show ?thesis
      proof (cases out)
        case Suspended
        with Suc.prems Cons Ss_acquire fresh a b show ?thesis by (auto simp: ss_ok_def ss_balance_def)
      next
        case (Continues r)
        let ?t = "case r of Inr _ \<Rightarrow> t\<lparr>sw_rt := rt, sw_granted := sw_granted t + 1\<rparr> | Inl _ \<Rightarrow> t\<lparr>sw_rt := rt\<rparr>"
        from Continues Suc.prems(1) Cons Ss_acquire fresh a have e: "ss_exec n prog rest ?t = Some s'"
          by (auto split: sum.splits)
        have "ss_ok ?t" "ss_balance ?t = ss_balance s"
          using b Continues by (auto simp: ss_ok_def ss_balance_def split: sum.splits)
        with Suc.IH [OF e] show ?thesis by simp
      qed
      qed
    next
      case Ss_try
      obtain r t where a: "ss_try_acquire True s = (r, t)" by fastforce
      let ?t = "if r = Inr True then t\<lparr>sw_granted := sw_granted t + 1\<rparr> else t"
      from Suc.prems(1) Cons Ss_try a have e: "ss_exec n prog rest ?t = Some s'"
        by (auto split: sum.splits bool.splits)
      have "ss_ok ?t" "ss_balance ?t = ss_balance s"
        using a Suc.prems(2) ss_ok_prune [OF Suc.prems(2)]
        by (auto simp: ss_try_acquire_def require_runtime_thread_def Let_def ss_ok_def ss_balance_def split: if_splits)
      with Suc.IH [OF e] show ?thesis by simp
    next
      case (Ss_release cnt)
      let ?res = "\<lambda>w s. ss_exec n prog (prog True w) (s\<lparr>sw_granted := sw_granted s + 1\<rparr>)"
      have res: "ss_ok s' \<and> ss_balance s' = ss_balance s + 1" if "ss_ok s" "?res w s = Some s'" for w s s'
        using Suc.IH [OF that(2)] that(1) by (simp add: ss_ok_def ss_balance_def)
      from Suc.prems(1) Cons Ss_release obtain r t where a: "ss_release ?res True cnt s = Some (r, t)"
        by (auto split: option.splits)
      let ?t = "case r of Inr _ \<Rightarrow> t\<lparr>sw_released := sw_released t + cnt\<rparr> | Inl _ \<Rightarrow> t"
      from Suc.prems(1) Cons Ss_release a have e: "ss_exec n prog rest ?t = Some s'"
        by (auto split: sum.splits)
      have "ss_ok t \<and> ss_balance t = ss_balance s + (case r of Inr _ \<Rightarrow> cnt | Inl _ \<Rightarrow> 0)"
        by (rule ss_release_balance [OF _ Suc.prems(2) a]) (rule res)
      then have "ss_ok ?t" "ss_balance ?t = ss_balance s"
        by (auto simp: ss_ok_def ss_balance_def split: sum.splits)
      with Suc.IH [OF e] show ?thesis by simp
    next
      case (Ss_stop w)
      let ?t = "if w_stop_callback (ss_heap s w) then s\<lparr>sw_rt := ss_cancel_waiter w (sw_rt s)\<rparr> else s"
      from Suc.prems(1) Cons Ss_stop have e: "ss_exec n prog rest ?t = Some s'" by auto
      have "ss_ok ?t" "ss_balance ?t = ss_balance s" using Suc.prems(2) by (auto simp: ss_ok_def ss_balance_def)
      with Suc.IH [OF e] show ?thesis by simp
    next
      case Ss_job
      show ?thesis
      proof (cases "rt_queue (sw_rt s)")
        case Nil
        with Suc Cons Ss_job show ?thesis by simp
      next
        case q: (Cons w js)
        obtain r t where a: "ss_cancel_job w (s\<lparr>sw_rt := (sw_rt s)\<lparr>rt_queue := js\<rparr>\<rparr>) = (r, t)" by fastforce
        have t: "ss_ok t" "ss_balance t = ss_balance s"
          using a Suc.prems(2)
          by (auto simp: ss_cancel_job_def Let_def ss_ok_def ss_balance_def live_upd_inactive split: if_splits)
        show ?thesis
        proof (cases r)
          case False
          with Suc.prems(1) Cons Ss_job q a have e: "ss_exec n prog rest t = Some s'" by simp
          with Suc.IH [OF e] t show ?thesis by simp
        next
          case True
          with Suc.prems(1) Cons Ss_job q a obtain t' where e: "ss_exec n prog (prog False w) t = Some t'" "ss_exec n prog rest t' = Some s'"
            by (auto split: option.splits)
          with Suc.IH [OF e(1)] Suc.IH [OF e(2)] t show ?thesis by simp
        qed
      qed
    qed
  qed
qed simp

lemma ss_exec_all_balance:
  "ss_exec_all n prog opss s = Some s' \<Longrightarrow> ss_ok s \<Longrightarrow> ss_ok s' \<and> ss_balance s' = ss_balance s"
proof (induction opss arbitrary: s)
  case (Cons ops opss)
  then obtain t where "ss_exec n prog ops s = Some t" "ss_exec_all n prog opss t = Some s'" by (auto split: option.splits)
  with ss_exec_balance Cons show ?case by metis
qed simp

definition ss_initial :: "int \<Rightarrow> ss_world" where
  "ss_initial n = \<lparr>ss_permits = n, ss_waiters = [], ss_heap = (\<lambda>_. new_waiter), sw_rt = new_runtime,
     sw_granted = 0, sw_released = 0\<rparr>"

section \<open>Every run ends\<close>

text \<open>More fuel does not change a run that ended.\<close>

lemma ss_release_loop_mono:
  assumes "\<And>w s s'. resume w s = Some s' \<Longrightarrow> resume' w s = Some s'"
  shows "ss_release_loop resume k s = Some r \<Longrightarrow> ss_release_loop resume' k s = Some r"
  by (induction k arbitrary: s) (auto simp: Let_def assms split: list.splits option.splits if_splits)

lemma ss_release_mono:
  assumes "\<And>w s s'. resume w s = Some s' \<Longrightarrow> resume' w s = Some s'" and "ss_release resume b cnt s = Some r"
  shows "ss_release resume' b cnt s = Some r"
  using assms(2) ss_release_loop_mono [of resume resume', OF assms(1)]
  by (auto simp: ss_release_def require_runtime_thread_def split: option.splits if_splits)

lemma ss_exec_Suc: "ss_exec n prog ops s = Some s' \<Longrightarrow> ss_exec (Suc n) prog ops s = Some s'"
proof (induction n arbitrary: ops s s')
  case (Suc n)
  show ?case
  proof (cases ops)
    case (Cons op rest)
    show ?thesis
    proof (cases op)
      case (Ss_release cnt)
      from Suc.prems Cons Ss_release show ?thesis
        using ss_release_mono [of "\<lambda>w s. ss_exec n prog (prog True w) (s\<lparr>sw_granted := sw_granted s + 1\<rparr>)"
            "\<lambda>w s. ss_exec (Suc n) prog (prog True w) (s\<lparr>sw_granted := sw_granted s + 1\<rparr>)" True cnt s]
        by (auto simp: Suc.IH simp del: ss_exec.simps(2-) simp add: ss_exec.simps(5) split: option.splits sum.splits)
    qed (use Suc Cons in \<open>auto split: option.splits sum.splits prod.splits awaited.splits list.splits if_splits bool.splits\<close>)
  qed (use Suc in simp)
qed simp

lemma ss_exec_mono: "n \<le> m \<Longrightarrow> ss_exec n prog ops s = Some s' \<Longrightarrow> ss_exec m prog ops s = Some s'"
  by (induction rule: dec_induct) (auto dest: ss_exec_Suc)

lemma ss_exec_all_mono: "n \<le> m \<Longrightarrow> ss_exec_all n prog opss s = Some s' \<Longrightarrow> ss_exec_all m prog opss s = Some s'"
  by (induction opss arbitrary: s) (auto split: option.splits dest: ss_exec_mono)

text \<open>A client that is to be resumed stands in the queue, so every resumption shortens it.\<close>

definition ss_queued :: "'z local_async_semaphore_scheme \<Rightarrow> bool" where
  "ss_queued s \<longleftrightarrow> (\<forall>w. w_active (ss_heap s w) \<and> w_continuation (ss_heap s w) \<and> \<not> w_completed (ss_heap s w) \<longrightarrow>
     w \<in> set (ss_waiters s)) \<and> (\<forall>w\<in>set (ss_waiters s). w_continuation (ss_heap s w)) \<and> distinct (ss_waiters s)"

definition ss_len :: "'z local_async_semaphore_scheme \<Rightarrow> nat" where
  "ss_len s = length (live (ss_heap s) (ss_waiters s))"

lemma ss_queued_prune:
  "ss_queued s \<Longrightarrow> ss_queued (s\<lparr>ss_waiters := prune_inactive (ss_heap s) (ss_waiters s)\<rparr>) \<and>
     ss_len (s\<lparr>ss_waiters := prune_inactive (ss_heap s) (ss_waiters s)\<rparr>) = ss_len s"
  using set_prune [of "ss_heap s" "ss_waiters s"]
  by (auto simp: ss_queued_def ss_len_def prune_keeps_live)

lemma ss_acquire_queued:
  assumes "ss_queued s" and "ss_heap s w = new_waiter" and "w \<notin> set (ss_waiters s)"
    and "ss_acquire True sp sb sr w (s, rt) = (out, s', rt')"
  shows "ss_queued s' \<and> ss_len s' \<le> ss_len s + (if out = Suspended then 1 else 0)"
  using assms set_prune [of "ss_heap s" "ss_waiters s"]
  by (auto simp: ss_acquire_def ss_await_ready_def ss_await_suspend_def ss_await_resume_def require_runtime_thread_def
      Let_def ss_queued_def ss_len_def new_waiter_def prune_keeps_live split: if_splits)

lemma ss_release_loop_ends:
  assumes res: "\<And>w s. ss_queued s \<Longrightarrow> ss_len s < L \<Longrightarrow> \<exists>n s'. ex n w s = Some s' \<and> ss_queued s' \<and> ss_len s' \<le> ss_len s + 1"
    and mono: "\<And>(n::nat) m w s s'. n \<le> m \<Longrightarrow> ex n w s = Some s' \<Longrightarrow> ex m w s = Some s'"
  shows "ss_queued s \<Longrightarrow> prune_inactive (ss_heap s) (ss_waiters s) = ss_waiters s \<Longrightarrow> ss_len s \<le> L \<Longrightarrow>
    \<exists>n m s'. ss_release_loop (ex n) k s = Some (m, s') \<and> ss_queued s' \<and> ss_len s' \<le> ss_len s"
proof (induction k arbitrary: s)
  case (Suc k)
  show ?case
  proof (cases "ss_waiters s")
    case Nil
    with Suc.prems show ?thesis by simp
  next
    case (Cons w q)
    let ?s = "s\<lparr>ss_waiters := q, ss_heap := (ss_heap s)(w := mark_woken (ss_heap s w))\<rparr>"
    from Suc.prems(2) Cons have act: "w_active (ss_heap s w)" by (metis prune_ConsD)
    from Suc.prems(1) Cons have q: "ss_queued ?s" and cont: "w_continuation (ss_heap s w)"
      by (auto simp: ss_queued_def mark_woken_def)
    from Suc.prems(1) Cons act have len: "ss_len s = ss_len ?s + 1" by (auto simp: ss_len_def ss_queued_def)
    with res [OF q, of w] Suc.prems(3) obtain n1 t where
      t: "ex n1 w ?s = Some t" "ss_queued t" "ss_len t \<le> ss_len s" by auto
    let ?t = "t\<lparr>ss_waiters := prune_inactive (ss_heap t) (ss_waiters t)\<rparr>"
    have "\<exists>n m s'. ss_release_loop (ex n) k ?t = Some (m, s') \<and> ss_queued s' \<and> ss_len s' \<le> ss_len ?t"
      by (rule Suc.IH) (use ss_queued_prune [OF t(2)] t(3) Suc.prems(3) in auto)
    then obtain n2 m s' where r: "ss_release_loop (ex n2) k ?t = Some (m, s')" "ss_queued s'" "ss_len s' \<le> ss_len s"
      using ss_queued_prune [OF t(2)] t(3) by auto
    have "ss_release_loop (ex (max n1 n2)) k ?t = Some (m, s')"
      by (rule ss_release_loop_mono [OF _ r(1)]) (rule mono [OF max.cobounded2])
    moreover have "ex (max n1 n2) w ?s = Some t" by (rule mono [OF _ t(1)]) simp
    ultimately have "ss_release_loop (ex (max n1 n2)) (Suc k) s = Some (m, s')"
      using Cons cont by (simp add: Let_def mark_woken_def)
    with r show ?thesis by blast
  qed
qed simp

lemma ss_release_ends:
  assumes res: "\<And>w s. ss_queued s \<Longrightarrow> ss_len s < L \<Longrightarrow> \<exists>n s'. ex n w s = Some s' \<and> ss_queued s' \<and> ss_len s' \<le> ss_len s + 1"
    and mono: "\<And>(n::nat) m w s s'. n \<le> m \<Longrightarrow> ex n w s = Some s' \<Longrightarrow> ex m w s = Some s'"
    and "ss_queued s" and "ss_len s \<le> L"
  shows "\<exists>n r s'. ss_release (ex n) True cnt s = Some (r, s') \<and> ss_queued s' \<and> ss_len s' \<le> ss_len s"
proof (cases "cnt \<le> 0")
  case True
  with assms(3) show ?thesis by (auto simp: ss_release_def require_runtime_thread_def)
next
  case False
  let ?s = "s\<lparr>ss_waiters := prune_inactive (ss_heap s) (ss_waiters s)\<rparr>"
  note p = ss_queued_prune [OF assms(3)]
  have "\<exists>n m s'. ss_release_loop (ex n) (nat cnt) ?s = Some (m, s') \<and> ss_queued s' \<and> ss_len s' \<le> ss_len ?s"
    by (rule ss_release_loop_ends [where L = L, OF res mono]) (use p assms(4) in auto)
  then obtain n m s' where r: "ss_release_loop (ex n) (nat cnt) ?s = Some (m, s')" "ss_queued s'" "ss_len s' \<le> ss_len s"
    using p by auto
  then have "ss_queued (s'\<lparr>ss_permits := ss_permits s' + int m\<rparr>)" "ss_len (s'\<lparr>ss_permits := ss_permits s' + int m\<rparr>) \<le> ss_len s"
    by (simp_all add: ss_queued_def ss_len_def)
  with r(1) False show ?thesis
    by (intro exI [of _ n] exI [of _ "Inr ()"] exI [of _ "s'\<lparr>ss_permits := ss_permits s' + int m\<rparr>"])
      (simp add: ss_release_def require_runtime_thread_def)
qed

lemma ss_cancel_job_queued:
  assumes "ss_queued s" and "ss_cancel_job w s = (r, s')"
  shows "ss_queued s' \<and> ss_len s' + (if r then 1 else 0) \<le> ss_len s"
proof (cases "w_active (ss_heap s w) \<and> \<not> w_completed (ss_heap s w)")
  case True
  let ?q = "live (ss_heap s) (ss_waiters s)"
  from assms(2) True have r: "r = w_continuation (ss_heap s w)" and s': "ss_queued s \<Longrightarrow> ss_queued s'"
    "live (ss_heap s') (ss_waiters s') = filter (\<lambda>v. v \<noteq> w) ?q"
    by (auto simp: ss_cancel_job_def Let_def ss_queued_def live_upd_inactive split: if_splits)
  have "length (filter (\<lambda>v. v \<noteq> w) ?q) < length ?q" if "w_continuation (ss_heap s w)"
    using that assms(1) True by (intro length_filter_less [of w]) (auto simp: ss_queued_def set_live)
  with r s' assms(1) length_filter_le [of "\<lambda>v. v \<noteq> w" ?q] show ?thesis by (auto simp: ss_len_def)
qed (use assms in \<open>auto simp: ss_cancel_job_def Let_def split: if_splits\<close>)

text \<open>What is left of a coroutine, and of the ones it resumes, comes to its end.\<close>

definition ss_ends :: "(bool \<Rightarrow> nat \<Rightarrow> ss_op list) \<Rightarrow> ss_op list \<Rightarrow> ss_world \<Rightarrow> bool" where
  "ss_ends prog ops s \<longleftrightarrow> (\<exists>n s'. ss_exec n prog ops s = Some s' \<and> ss_queued s' \<and> ss_len s' \<le> ss_len s + 1)"

lemma ss_endsI:
  assumes "ss_ends prog ops t" and "ss_len t \<le> ss_len s"
    and "\<And>n. m \<le> n \<Longrightarrow> ss_exec (Suc n) prog (op # ops) s = ss_exec n prog ops t"
  shows "ss_ends prog (op # ops) s"
proof -
  from assms(1) obtain n s' where n: "ss_exec n prog ops t = Some s'" "ss_queued s'" "ss_len s' \<le> ss_len t + 1"
    by (auto simp: ss_ends_def)
  have "ss_exec (Suc (max m n)) prog (op # ops) s = Some s'"
    using assms(3) [of "max m n"] ss_exec_mono [OF _ n(1), of "max m n"] by simp
  with n assms(2) show ?thesis unfolding ss_ends_def by force
qed

lemma ss_exec_ends_step:
  assumes nested: "\<And>ops s. ss_queued s \<Longrightarrow> ss_len s < L \<Longrightarrow> ss_ends prog ops s"
    and rest: "\<And>s. ss_queued s \<Longrightarrow> ss_len s \<le> L \<Longrightarrow> ss_ends prog ops s"
    and s: "ss_queued s" "ss_len s \<le> L"
  shows "ss_ends prog (op # ops) s"
proof (cases op)
  case (Ss_acquire sp sb sr w)
  show ?thesis
  proof (cases "ss_heap s w = new_waiter \<and> w \<notin> set (ss_waiters s)")
    case False
    with Ss_acquire show ?thesis by (intro ss_endsI [OF rest [OF s]]) auto
  next
    case True
    obtain out t rt where a: "ss_acquire True sp sb sr w (s, sw_rt s) = (out, t, rt)" by (metis prod_cases3)
    from ss_acquire_queued [OF s(1) _ _ a] True have q: "ss_queued t" "ss_len t \<le> ss_len s + (if out = Suspended then 1 else 0)"
      by auto
    show ?thesis
    proof (cases out)
      case Suspended
      with q have "ss_queued (t\<lparr>sw_rt := rt\<rparr>)" "ss_len (t\<lparr>sw_rt := rt\<rparr>) \<le> ss_len s + 1"
        by (simp_all add: ss_queued_def ss_len_def)
      moreover from Ss_acquire True a Suspended have "ss_exec (Suc 0) prog (op # ops) s = Some (t\<lparr>sw_rt := rt\<rparr>)" by simp
      ultimately show ?thesis unfolding ss_ends_def by blast
    next
      case (Continues r)
      let ?t = "case r of Inr _ \<Rightarrow> t\<lparr>sw_rt := rt, sw_granted := sw_granted t + 1\<rparr> | Inl _ \<Rightarrow> t\<lparr>sw_rt := rt\<rparr>"
      from q Continues have t: "ss_queued ?t" "ss_len ?t \<le> ss_len s"
        by (auto simp: ss_queued_def ss_len_def split: sum.splits)
      show ?thesis
        by (rule ss_endsI [OF rest [OF t(1)] t(2)]) (use t s Ss_acquire True a Continues in \<open>auto split: sum.splits\<close>)
    qed
  qed
next
  case Ss_try
  obtain r t where a: "ss_try_acquire True s = (r, t)" by fastforce
  let ?t = "if r = Inr True then t\<lparr>sw_granted := sw_granted t + 1\<rparr> else t"
  from a ss_queued_prune [OF s(1)] have t: "ss_queued ?t" "ss_len ?t \<le> ss_len s"
    by (auto simp: ss_try_acquire_def require_runtime_thread_def Let_def ss_queued_def ss_len_def split: if_splits)
  show ?thesis
    by (rule ss_endsI [OF rest [OF t(1)] t(2)]) (use t s Ss_try a in \<open>auto split: sum.splits bool.splits\<close>)
next
  case (Ss_release cnt)
  let ?res = "\<lambda>n w s. ss_exec n prog (prog True w) (s\<lparr>sw_granted := sw_granted s + 1\<rparr>)"
  have "\<exists>n r s'. ss_release (?res n) True cnt s = Some (r, s') \<and> ss_queued s' \<and> ss_len s' \<le> ss_len s"
  proof (rule ss_release_ends [where L = L])
    fix w and s :: ss_world
    assume "ss_queued s" "ss_len s < L"
    with nested [of "s\<lparr>sw_granted := sw_granted s + 1\<rparr>" "prog True w"]
    show "\<exists>n s'. ?res n w s = Some s' \<and> ss_queued s' \<and> ss_len s' \<le> ss_len s + 1"
      by (simp add: ss_ends_def ss_queued_def ss_len_def)
  qed (use s ss_exec_mono in auto)
  then obtain m r t where r: "ss_release (?res m) True cnt s = Some (r, t)" "ss_queued t" "ss_len t \<le> ss_len s" by blast
  let ?t = "case r of Inr _ \<Rightarrow> t\<lparr>sw_released := sw_released t + cnt\<rparr> | Inl _ \<Rightarrow> t"
  from r have t: "ss_queued ?t" "ss_len ?t \<le> ss_len s" by (auto simp: ss_queued_def ss_len_def split: sum.splits)
  have e: "ss_release (?res n) True cnt s = Some (r, t)" if "m \<le> n" for n
    by (rule ss_release_mono [OF _ r(1)]) (rule ss_exec_mono [OF that])
  show ?thesis
    by (rule ss_endsI [OF rest [OF t(1)] t(2), of m]) (use t s e Ss_release in \<open>auto split: sum.splits\<close>)
next
  case (Ss_stop w)
  let ?t = "if w_stop_callback (ss_heap s w) then s\<lparr>sw_rt := ss_cancel_waiter w (sw_rt s)\<rparr> else s"
  from s have t: "ss_queued ?t" "ss_len ?t \<le> ss_len s" by (auto simp: ss_queued_def ss_len_def)
  show ?thesis by (rule ss_endsI [OF rest [OF t(1)] t(2)]) (use t s Ss_stop in auto)
next
  case Ss_job
  show ?thesis
  proof (cases "rt_queue (sw_rt s)")
    case Nil
    with Ss_job show ?thesis by (intro ss_endsI [OF rest [OF s]]) auto
  next
    case (Cons w js)
    let ?s = "s\<lparr>sw_rt := (sw_rt s)\<lparr>rt_queue := js\<rparr>\<rparr>"
    obtain r t where a: "ss_cancel_job w ?s = (r, t)" by fastforce
    have "ss_queued ?s" "ss_len ?s = ss_len s" using s by (simp_all add: ss_queued_def ss_len_def)
    with ss_cancel_job_queued [OF _ a] have t: "ss_queued t" "ss_len t + (if r then 1 else 0) \<le> ss_len s" by auto
    show ?thesis
    proof (cases r)
      case False
      with t a Cons Ss_job s show ?thesis by (intro ss_endsI [OF rest, of t]) auto
    next
      case True
      with t s nested [of t "prog False w"] obtain n t' where
        n: "ss_exec n prog (prog False w) t = Some t'" "ss_queued t'" "ss_len t' \<le> ss_len t + 1"
        by (auto simp: ss_ends_def)
      show ?thesis
      proof (rule ss_endsI [OF rest [OF n(2)], of s n])
        fix k assume "n \<le> k"
        with ss_exec_mono [OF _ n(1)] a Cons Ss_job True
        show "ss_exec (Suc k) prog (op # ops) s = ss_exec k prog ops t'" by simp
      qed (use n t s True in auto)
    qed
  qed
qed

lemma ss_exec_ends: "ss_queued s \<Longrightarrow> ss_len s \<le> L \<Longrightarrow> ss_ends prog ops s"
proof (induction L arbitrary: ops s rule: less_induct)
  case (less L)
  have nested: "ss_ends prog ops s" if "ss_queued s" "ss_len s < L" for ops s
    using less.IH [OF that(2) that(1) order_refl] .
  from less.prems show ?case
  proof (induction ops arbitrary: s)
    case Nil
    then have "ss_exec (Suc 0) prog [] s = Some s \<and> ss_queued s \<and> ss_len s \<le> ss_len s + 1" by simp
    then show ?case unfolding ss_ends_def by blast
  next
    case (Cons op ops)
    show ?case by (rule ss_exec_ends_step [where L = L, OF nested Cons.IH Cons.prems])
  qed
qed

lemma ss_exec_all_ends: "ss_queued s \<Longrightarrow> \<exists>n s'. ss_exec_all n prog opss s = Some s'"
proof (induction opss arbitrary: s)
  case (Cons ops opss)
  from ss_exec_ends [OF Cons.prems order_refl, of prog ops] obtain n t where
    n: "ss_exec n prog ops s = Some t" "ss_queued t" by (auto simp: ss_ends_def)
  from Cons.IH [OF n(2)] obtain m s' where m: "ss_exec_all m prog opss t = Some s'" by blast
  have "ss_exec_all (max n m) prog (ops # opss) s = Some s'"
    using ss_exec_mono [OF _ n(1), of "max n m"] ss_exec_all_mono [OF _ m, of "max n m"] by simp
  then show ?case by blast
qed simp

text \<open>
  C8. Permits are conserved, and every run ends: whatever the coroutines do that a \<open>release\<close> resumes
  in its middle (acquire, release again, be cancelled), the nested resumptions come to an end, and
  when the outermost calls have returned the permits left are the initial ones plus those released
  minus those granted, none is negative, and while permits are left nobody waits.
\<close>
theorem ss_permits_conserved:
  assumes "0 \<le> n"
  shows "\<exists>enough s. (\<forall>fuel\<ge>enough. ss_exec_all fuel prog opss (ss_initial n) = Some s) \<and>
    ss_permits s = n + sw_released s - sw_granted s \<and> 0 \<le> ss_permits s \<and>
    (0 < ss_permits s \<longrightarrow> live (ss_heap s) (ss_waiters s) = [])"
proof -
  have "ss_queued (ss_initial n)" by (simp add: ss_queued_def ss_initial_def new_waiter_def)
  from ss_exec_all_ends [OF this] obtain enough s where e: "ss_exec_all enough prog opss (ss_initial n) = Some s" by blast
  from assms have "ss_ok (ss_initial n)" "ss_balance (ss_initial n) = n"
    by (auto simp: ss_ok_def ss_initial_def ss_balance_def)
  with ss_exec_all_balance [OF e] ss_exec_all_mono [OF _ e] show ?thesis
    by (intro exI [of _ enough] exI [of _ s]) (auto simp: ss_ok_def ss_balance_def)
qed

text \<open>
  Client 1 waits and, once granted, releases two permits and acquires again; client 2 waits and is
  cancelled; client 9 releases one permit.
\<close>

definition ss_example_prog :: "bool \<Rightarrow> nat \<Rightarrow> ss_op list" where
  "ss_example_prog granted w = (if granted \<and> w = 1 then [Ss_release 2, Ss_acquire False False False 3] else [])"

theorem ss_permits_conserved_witness:
  "\<exists>s. ss_exec_all 9 ss_example_prog
     [[Ss_acquire False False False 1], [Ss_acquire True False False 2], [Ss_stop 2], [Ss_job], [Ss_release 1]]
     (ss_initial 0) = Some s \<and> ss_permits s = 1 \<and> sw_granted s = 2 \<and> sw_released s = 3 \<and>
     ss_permits s = 0 + sw_released s - sw_granted s"
proof -
  obtain s where s: "ss_exec_all 9 ss_example_prog
     [[Ss_acquire False False False 1], [Ss_acquire True False False 2], [Ss_stop 2], [Ss_job], [Ss_release 1]]
     (ss_initial 0) = Some s" "ss_permits s = 1 \<and> sw_granted s = 2 \<and> sw_released s = 3"
    by (simp add: ss_initial_def ss_example_prog_def ss_acquire_def ss_await_ready_def ss_await_suspend_def
        ss_await_resume_def require_runtime_thread_def new_waiter_def Let_def ss_cancel_waiter_def post_def
        async_send_def new_runtime_def ss_cancel_job_def ss_release_def mark_woken_def eval_nat_numeral)
  from ss_permits_conserved [of 0 ss_example_prog
    "[[Ss_acquire False False False 1], [Ss_acquire True False False 2], [Ss_stop 2], [Ss_job], [Ss_release 1]]"]
  obtain enough s' where e: "\<forall>fuel\<ge>enough. ss_exec_all fuel ss_example_prog
     [[Ss_acquire False False False 1], [Ss_acquire True False False 2], [Ss_stop 2], [Ss_job], [Ss_release 1]]
     (ss_initial 0) = Some s'" "ss_permits s' = 0 + sw_released s' - sw_granted s'" by auto
  from e(1) [rule_format, of "max enough 9"] ss_exec_all_mono [OF _ s(1), of "max enough 9"] have "s' = s" by simp
  with e s show ?thesis by blast
qed


end
