(* ===== verification/Condition_Variable.thy ===== *)
theory Condition_Variable
  imports Async_Mutex
begin

text \<open>
  \<open>async_condition_variable\<close> of \<open>include/luvcoro/sync.hpp\<close>, used with an \<open>async_mutex\<close>. A wait
  queues its waiter, unlocks the mutex and suspends; when it goes on it locks the mutex again
  before it returns or throws.
\<close>

section \<open>State and operations\<close>

record async_condition_variable =
  cv_waiters :: "nat list"
  cv_heap :: wheap

definition new_async_condition_variable :: async_condition_variable where
  "new_async_condition_variable = \<lparr>cv_waiters = [], cv_heap = (\<lambda>_. new_waiter)\<rparr>"

definition cv_cancel_waiter :: "bool \<Rightarrow> nat \<Rightarrow> async_condition_variable \<times> wake_ctx \<Rightarrow> async_condition_variable \<times> wake_ctx" where
  "cv_cancel_waiter is_loop_thread w vc =
     (case cancel_now is_loop_thread w (cv_heap (fst vc), snd vc) of
        (h, c) \<Rightarrow> ((fst vc)\<lparr>cv_heap := h\<rparr>, c))"

text \<open>
  \<open>wait\<close> up to its \<open>co_await\<close>: queue the waiter, register the stop callback (which runs at once
  when the token is stopped), unlock the mutex. What \<open>unlock\<close> throws leaves the function.
\<close>

definition cv_wait_begin :: "bool \<Rightarrow> bool \<Rightarrow> bool \<Rightarrow> nat \<Rightarrow> async_condition_variable \<times> async_mutex \<times> wake_ctx
    \<Rightarrow> unit result \<times> async_condition_variable \<times> async_mutex \<times> wake_ctx" where
  "cv_wait_begin is_loop_thread stop_possible stopped w vmc =
     (let v = (fst vmc)\<lparr>cv_waiters := cv_waiters (fst vmc) @ [w]\<rparr>;
          vc = (if stop_possible
                then (let v = v\<lparr>cv_heap := (cv_heap v)(w := (cv_heap v w)\<lparr>w_stop_callback := True\<rparr>)\<rparr>
                      in if stopped then cv_cancel_waiter is_loop_thread w (v, snd (snd vmc)) else (v, snd (snd vmc)))
                else (v, snd (snd vmc)))
      in case am_unlock is_loop_thread (fst (snd vmc), snd vc) of
           (r, m, c) \<Rightarrow> (r, fst vc, m, c))"

definition cv_await_ready :: "nat \<Rightarrow> async_condition_variable \<Rightarrow> bool" where
  "cv_await_ready w v = w_completed (cv_heap v w)"

text \<open>Storing the handle and the answer; another thread may act in between.\<close>

definition cv_suspend_store :: "nat \<Rightarrow> async_condition_variable \<Rightarrow> async_condition_variable" where
  "cv_suspend_store w v = v\<lparr>cv_heap := (cv_heap v)(w := (cv_heap v w)\<lparr>w_continuation := True\<rparr>)\<rparr>"

definition cv_suspend_answer :: "nat \<Rightarrow> async_condition_variable \<Rightarrow> bool" where
  "cv_suspend_answer w v = (\<not> w_completed (cv_heap v w))"

definition cv_await_resume :: "nat \<Rightarrow> async_condition_variable \<Rightarrow> unit result \<times> async_condition_variable" where
  "cv_await_resume w v =
     (let v = v\<lparr>cv_heap := (cv_heap v)(w := (cv_heap v w)\<lparr>w_stop_callback := False\<rparr>)\<rparr> in
      (if w_cancelled (cv_heap v w) then Inl Operation_cancelled else Inr (), v))"

text \<open>The outcome of \<open>wait\<close> once the mutex has been locked again.\<close>

definition cv_wait_end :: "unit result \<Rightarrow> unit result \<Rightarrow> unit result" where
  "cv_wait_end awaited relocked =
     (let cancelled = (awaited = Inl Operation_cancelled) in
      case relocked of
        Inl e \<Rightarrow> Inl e
      | Inr _ \<Rightarrow> if cancelled then Inl Operation_cancelled else Inr ())"

definition cv_notify_one :: "bool \<Rightarrow> async_condition_variable \<times> wake_ctx \<Rightarrow> unit result \<times> async_condition_variable \<times> wake_ctx" where
  "cv_notify_one is_loop_thread vc =
     (let v = fst vc in
      case take_front (cv_heap v, cv_waiters v) of
        None \<Rightarrow> (Inr (), v\<lparr>cv_waiters := prune_inactive (cv_heap v) (cv_waiters v)\<rparr>, snd vc)
      | Some (ready_waiter, h, q) \<Rightarrow>
          (case resume_waiter is_loop_thread h ready_waiter (snd vc) of
             (r, c) \<Rightarrow> (r, v\<lparr>cv_heap := h, cv_waiters := q\<rparr>, c)))"

text \<open>The loop of \<open>notify_all\<close>: the waiters it took and the heap it leaves; the queue ends empty.\<close>

function cv_notify_loop :: "wheap \<Rightarrow> nat list \<Rightarrow> nat list \<times> wheap" where
  "cv_notify_loop h q =
     (case q of
        [] \<Rightarrow> ([], h)
      | w # q' \<Rightarrow>
          (let h' = h(w := mark_woken (h w)) in
           case cv_notify_loop h' (prune_inactive h' q') of (ready, h'') \<Rightarrow> (w # ready, h'')))"
  by pat_completeness auto
termination
  by (relation "measure (\<lambda>(h, q). length q)") (auto simp: prune_inactive_dropWhile le_imp_less_Suc)

declare cv_notify_loop.simps [simp del]

definition cv_notify_all :: "bool \<Rightarrow> async_condition_variable \<times> wake_ctx \<Rightarrow> unit result \<times> async_condition_variable \<times> wake_ctx" where
  "cv_notify_all is_loop_thread vc =
     (let v = fst vc in
      case cv_notify_loop (cv_heap v) (prune_inactive (cv_heap v) (cv_waiters v)) of
        (ready_waiters, h) \<Rightarrow>
          (case resume_waiters is_loop_thread h ready_waiters (snd vc) of
             (r, c) \<Rightarrow> (r, v\<lparr>cv_heap := h, cv_waiters := []\<rparr>, c)))"

section \<open>What notifying does\<close>

lemma cv_notify_loop_pop_n:
  "length q \<le> n \<Longrightarrow> cv_notify_loop h (prune_inactive h q) = (ready, h') \<Longrightarrow>
     \<exists>t. pop_n take_front n (h, q) = (ready, t) \<and> fst t = h'"
proof (induction n arbitrary: h q ready h')
  case 0
  then show ?case by (simp add: cv_notify_loop.simps)
next
  case (Suc n)
  show ?case
  proof (cases "prune_inactive h q")
    case Nil
    with Suc.prems take_front_Nil [OF Nil] show ?thesis by (simp add: cv_notify_loop.simps)
  next
    case (Cons w ws)
    let ?h = "h(w := mark_woken (h w))"
    obtain r x where rec: "cv_notify_loop ?h (prune_inactive ?h ws) = (r, x)" by fastforce
    with Suc.prems(2) Cons have eq: "ready = w # r" "h' = x" by (auto simp: cv_notify_loop.simps [of h])
    have "length (prune_inactive h q) \<le> length q" by (simp add: prune_inactive_dropWhile)
    with Cons Suc.prems(1) have "length ws \<le> n" by simp
    from Suc.IH [OF this rec] obtain t where "pop_n take_front n (?h, ws) = (r, t)" "fst t = x" by blast
    with take_front_Cons [OF Cons] eq show ?thesis by (intro exI [of _ t]) simp
  qed
qed

lemma cv_notify_loop_spec:
  assumes "distinct q" and "cv_notify_loop h (prune_inactive h q) = (ready, h')"
  shows "ready = live h q \<and> h' = (\<lambda>v. if v \<in> set (live h q) then mark_woken (h v) else h v)"
proof -
  from cv_notify_loop_pop_n [OF order_refl assms(2)] obtain t where
    t: "pop_n take_front (length q) (h, q) = (ready, t)" "fst t = h'" by blast
  have "length (live h q) \<le> length q" by (simp add: live_def)
  with sync_queue.pop_n_all [of "(h, q)", OF _ _ t(1)] assms(1) have "ready = live h q" by simp
  with pop_n_take_front_heap [OF t(1)] t(2) show ?thesis by simp
qed

lemma live_all_woken: "live (\<lambda>v. if v \<in> set (live h q) then mark_woken (h v) else h v) q = []"
  by (auto simp: live_def filter_empty_conv)

text \<open>
  \<open>notify_all\<close> wakes everybody who waits, in the order they began to wait, and nobody else;
  the queue ends empty. Called on the runtime thread it resumes those that have suspended.
\<close>
theorem cv_notify_all_wakes:
  assumes "distinct (cv_waiters v)" and "\<forall>w\<in>set (live (cv_heap v) (cv_waiters v)). w_continuation (cv_heap v w)"
  shows "\<exists>v'. cv_notify_all True (v, c) = (Inr (), v', fst c, snd c @ live (cv_heap v) (cv_waiters v)) \<and>
    cv_waiters v' = [] \<and>
    (\<forall>w. cv_await_ready w v' \<longleftrightarrow> cv_await_ready w v \<or> w \<in> set (live (cv_heap v) (cv_waiters v)))"
proof -
  obtain ready h where l: "cv_notify_loop (cv_heap v) (prune_inactive (cv_heap v) (cv_waiters v)) = (ready, h)" by fastforce
  note sp = cv_notify_loop_spec [OF assms(1) l]
  have "resume_waiters True h ready c = (Inr (), fst c, snd c @ ready)"
    by (rule resume_waiters_loop) (use assms(2) sp in auto)
  with l sp show ?thesis by (auto simp: cv_notify_all_def cv_await_ready_def)
qed

theorem cv_notify_all_wakes_witness:
  "\<exists>v v'. live (cv_heap v) (cv_waiters v) = [4, 7] \<and>
     cv_notify_all True (v, new_runtime, []) = (Inr (), v', new_runtime, [4, 7]) \<and> cv_await_ready 7 v'"
proof -
  let ?v = "\<lparr>cv_waiters = [4, 5, 7], cv_heap = (\<lambda>w. new_waiter\<lparr>w_continuation := True, w_active := (w \<noteq> 5)\<rparr>)\<rparr>"
  have l: "live (cv_heap ?v) (cv_waiters ?v) = [4, 7]" by simp
  have "distinct (cv_waiters ?v)" "\<forall>w\<in>set (live (cv_heap ?v) (cv_waiters ?v)). w_continuation (cv_heap ?v w)" by simp_all
  from cv_notify_all_wakes [OF this, of "(new_runtime, [])"] l obtain v' where
    "cv_notify_all True (?v, new_runtime, []) = (Inr (), v', new_runtime, [4, 7])" "cv_await_ready 7 v'"
    by auto
  with l show ?thesis by (intro exI [of _ ?v] exI [of _ v']) simp
qed

section \<open>No notification is missed\<close>

text \<open>
  What other threads may do to a condition variable after a wait has unlocked the mutex: notify,
  cancel other waiters, and begin waits of their own (the queueing part of \<open>cv_wait_begin\<close>).
\<close>

datatype cv_event = Cv_one bool | Cv_all bool | Cv_cancel bool nat | Cv_enter nat

fun cv_step :: "cv_event \<Rightarrow> async_condition_variable \<times> wake_ctx \<Rightarrow> async_condition_variable \<times> wake_ctx" where
  "cv_step (Cv_one b) vc = snd (cv_notify_one b vc)"
| "cv_step (Cv_all b) vc = snd (cv_notify_all b vc)"
| "cv_step (Cv_cancel b w) vc = cv_cancel_waiter b w vc"
| "cv_step (Cv_enter w) vc =
     (if cv_heap (fst vc) w = new_waiter \<and> w \<notin> set (cv_waiters (fst vc))
      then ((fst vc)\<lparr>cv_waiters := cv_waiters (fst vc) @ [w]\<rparr>, snd vc)
      else vc)"

fun cv_run :: "cv_event list \<Rightarrow> async_condition_variable \<times> wake_ctx \<Rightarrow> async_condition_variable \<times> wake_ctx" where
  "cv_run [] vc = vc"
| "cv_run (ev # evs) vc = cv_run evs (cv_step ev vc)"

text \<open>The waiter is still in the queue, or it has been completed.\<close>

definition cv_waits_or_done :: "nat \<Rightarrow> async_condition_variable \<Rightarrow> bool" where
  "cv_waits_or_done w v \<longleftrightarrow> distinct (cv_waiters v) \<and>
     (w_completed (cv_heap v w) \<or> w \<in> set (live (cv_heap v) (cv_waiters v)))"

lemma cv_notify_one_waits:
  assumes "cv_waits_or_done w v"
  shows "cv_waits_or_done w (fst (snd (cv_notify_one b (v, c))))"
proof (cases "take_front (cv_heap v, cv_waiters v)")
  case None
  with assms show ?thesis by (simp add: cv_notify_one_def cv_waits_or_done_def)
next
  case (Some p)
  obtain u h q where p: "p = (u, h, q)" by (cases p) auto
  with Some have tf: "take_front (cv_heap v, cv_waiters v) = Some (u, h, q)" by simp
  from sync_queue.pop_Some [OF _ tf] assms have "live (cv_heap v) (cv_waiters v) = u # live h q" "distinct q"
    by (auto simp: cv_waits_or_done_def)
  with take_front_SomeD [OF tf] tf assms show ?thesis
    by (auto simp: cv_notify_one_def cv_waits_or_done_def case_prod_beta)
qed

lemma cv_notify_all_waits:
  assumes "cv_waits_or_done w v"
  shows "w_completed (cv_heap (fst (snd (cv_notify_all b (v, c)))) w) \<and> cv_waits_or_done w (fst (snd (cv_notify_all b (v, c))))"
proof -
  obtain ready h where l: "cv_notify_loop (cv_heap v) (prune_inactive (cv_heap v) (cv_waiters v)) = (ready, h)" by fastforce
  from cv_notify_loop_spec [OF _ l] assms show ?thesis
    by (auto simp: l cv_notify_all_def cv_waits_or_done_def case_prod_beta)
qed

lemma cv_step_waits:
  assumes "cv_waits_or_done w (fst vc)"
  shows "cv_waits_or_done w (fst (cv_step ev vc))"
proof (cases ev)
  case (Cv_one b)
  with cv_notify_one_waits [OF assms, of b "snd vc"] show ?thesis by simp
next
  case (Cv_all b)
  with cv_notify_all_waits [OF assms, of b "snd vc"] show ?thesis by simp
next
  case (Cv_cancel b u)
  show ?thesis
  proof (cases "u = w")
    case True
    with assms Cv_cancel show ?thesis
      by (auto simp: cv_cancel_waiter_def cancel_now_def cv_waits_or_done_def Let_def case_prod_beta set_live)
  next
    case False
    with assms Cv_cancel show ?thesis
      by (auto simp: cv_cancel_waiter_def cancel_now_other cv_waits_or_done_def case_prod_beta set_live)
  qed
next
  case (Cv_enter u)
  with assms show ?thesis by (auto simp: cv_waits_or_done_def)
qed

lemma cv_run_waits: "cv_waits_or_done w (fst vc) \<Longrightarrow> cv_waits_or_done w (fst (cv_run evs vc))"
  by (induction evs arbitrary: vc) (simp_all add: cv_step_waits del: cv_step.simps)

lemma cv_step_completed:
  "cv_waits_or_done w (fst vc) \<Longrightarrow> w_completed (cv_heap (fst vc) w) \<Longrightarrow> w_completed (cv_heap (fst (cv_step ev vc)) w)"
proof (induction ev)
  case (Cv_one b)
  then show ?case
    by (cases "take_front (cv_heap (fst vc), cv_waiters (fst vc))")
      (auto simp: cv_notify_one_def Let_def case_prod_beta dest!: take_front_SomeD)
next
  case (Cv_all b)
  with cv_notify_all_waits [of w "fst vc" b "snd vc"] show ?case by simp
next
  case (Cv_cancel b u)
  then show ?case by (auto simp: cv_cancel_waiter_def cancel_now_def Let_def case_prod_beta)
qed auto

lemma cv_run_completed:
  "cv_waits_or_done w (fst vc) \<Longrightarrow> w_completed (cv_heap (fst vc) w) \<Longrightarrow> w_completed (cv_heap (fst (cv_run evs vc)) w)"
  by (induction evs arbitrary: vc) (simp_all add: cv_step_waits cv_step_completed del: cv_step.simps)

lemma cv_run_append: "cv_run (evs @ evs') vc = cv_run evs' (cv_run evs vc)"
  by (induction evs arbitrary: vc) simp_all

text \<open>How many waiters that still count stand before \<open>w\<close> in the queue.\<close>

definition cv_ahead :: "nat \<Rightarrow> async_condition_variable \<Rightarrow> nat" where
  "cv_ahead w v = length (takeWhile (\<lambda>u. u \<noteq> w) (live (cv_heap v) (cv_waiters v)))"

definition cv_is_one :: "cv_event \<Rightarrow> bool" where
  "cv_is_one ev = (case ev of Cv_one _ \<Rightarrow> True | _ \<Rightarrow> False)"

definition cv_is_all :: "cv_event \<Rightarrow> bool" where
  "cv_is_all ev = (case ev of Cv_all _ \<Rightarrow> True | _ \<Rightarrow> False)"

lemma cv_is_simps [simp]:
  "cv_is_one (Cv_one b)" "\<not> cv_is_one (Cv_all b)" "\<not> cv_is_one (Cv_cancel b u)" "\<not> cv_is_one (Cv_enter u)"
  "\<not> cv_is_all (Cv_one b)" "cv_is_all (Cv_all b)" "\<not> cv_is_all (Cv_cancel b u)" "\<not> cv_is_all (Cv_enter u)"
  by (simp_all add: cv_is_one_def cv_is_all_def)

lemma length_takeWhile_filter: "length (takeWhile P (filter Q xs)) \<le> length (takeWhile P xs) \<or> (\<exists>x\<in>set xs. \<not> P x \<and> \<not> Q x)"
  by (induction xs) auto

text \<open>Each \<open>notify_one\<close> completes \<open>w\<close> or brings it one place forward; nothing moves it back.\<close>

lemma cv_notify_one_ahead:
  assumes "cv_waits_or_done w v" and "\<not> w_completed (cv_heap (fst (snd (cv_notify_one b (v, c)))) w)"
  shows "cv_ahead w (fst (snd (cv_notify_one b (v, c)))) + 1 \<le> cv_ahead w v"
proof (cases "take_front (cv_heap v, cv_waiters v)")
  case None
  with assms sync_queue.pop_None [of "(cv_heap v, cv_waiters v)"] show ?thesis
    by (auto simp: cv_notify_one_def cv_waits_or_done_def)
next
  case (Some p)
  obtain u h q where p: "p = (u, h, q)" by (cases p) auto
  with Some have tf: "take_front (cv_heap v, cv_waiters v) = Some (u, h, q)" by simp
  from sync_queue.pop_Some [OF _ tf] assms(1) have "live (cv_heap v) (cv_waiters v) = u # live h q"
    by (auto simp: cv_waits_or_done_def)
  with take_front_SomeD [OF tf] tf assms(2) show ?thesis
    by (auto simp: cv_notify_one_def cv_ahead_def case_prod_beta)
qed

lemma cv_step_ahead:
  assumes "cv_waits_or_done w (fst vc)" and "\<not> w_completed (cv_heap (fst (cv_step ev vc)) w)"
  shows "cv_ahead w (fst (cv_step ev vc)) + (if cv_is_one ev then 1 else 0) \<le> cv_ahead w (fst vc)"
proof (cases ev)
  case (Cv_one b)
  with cv_notify_one_ahead [of w "fst vc" b "snd vc"] assms show ?thesis by simp
next
  case (Cv_all b)
  with cv_notify_all_waits [OF assms(1), of b "snd vc"] assms(2) show ?thesis by simp
next
  case (Cv_cancel b u)
  let ?q = "live (cv_heap (fst vc)) (cv_waiters (fst vc))"
  from Cv_cancel have q: "live (cv_heap (fst (cv_step ev vc))) (cv_waiters (fst (cv_step ev vc))) \<in> {filter (\<lambda>x. x \<noteq> u) ?q, ?q}"
    by (simp add: cv_cancel_waiter_def cancel_now_def Let_def case_prod_beta live_upd_inactive)
  have "u \<noteq> w"
  proof
    assume "u = w"
    with Cv_cancel assms(2) have "\<not> w_completed (cv_heap (fst vc) w)" "\<not> w_active (cv_heap (fst vc) w)"
      by (simp_all add: cv_cancel_waiter_def cancel_now_def Let_def case_prod_beta split: if_splits)
    with assms(1) show False by (simp add: cv_waits_or_done_def set_live)
  qed
  with q length_takeWhile_filter [of "\<lambda>x. x \<noteq> w" "\<lambda>x. x \<noteq> u" ?q] Cv_cancel show ?thesis
    by (auto simp: cv_ahead_def simp del: cv_step.simps)
next
  case (Cv_enter u)
  from assms(2) Cv_enter have "\<not> w_completed (cv_heap (fst vc) w)" by (auto split: if_splits)
  with assms(1) have "w \<in> set (live (cv_heap (fst vc)) (cv_waiters (fst vc)))" by (simp add: cv_waits_or_done_def)
  with Cv_enter show ?thesis by (auto simp: cv_ahead_def live_append takeWhile_append1)
qed

lemma cv_run_ahead:
  "cv_waits_or_done w (fst vc) \<Longrightarrow> \<not> w_completed (cv_heap (fst (cv_run evs vc)) w) \<Longrightarrow>
     length (filter cv_is_one evs) + cv_ahead w (fst (cv_run evs vc)) \<le> cv_ahead w (fst vc)"
proof (induction evs arbitrary: vc)
  case (Cons ev evs)
  have w: "cv_waits_or_done w (fst (cv_step ev vc))" by (rule cv_step_waits [OF Cons.prems(1)])
  from Cons.prems(2) have n: "\<not> w_completed (cv_heap (fst (cv_run evs (cv_step ev vc))) w)" by simp
  then have "\<not> w_completed (cv_heap (fst (cv_step ev vc)) w)" using cv_run_completed [OF w] by blast
  from cv_step_ahead [OF Cons.prems(1) this] Cons.IH [OF w n] show ?case by (auto simp del: cv_step.simps split: if_splits)
qed simp

lemma cv_run_all_completed:
  assumes "cv_waits_or_done w (fst vc)" and "\<exists>ev\<in>set evs. cv_is_all ev"
  shows "w_completed (cv_heap (fst (cv_run evs vc)) w)"
proof -
  from assms(2) obtain ev where "ev \<in> set evs" "cv_is_all ev" by blast
  then obtain b where "Cv_all b \<in> set evs" by (cases ev rule: cv_event.exhaust) auto
  then obtain pre post where evs: "evs = pre @ [Cv_all b] @ post" by (auto dest!: split_list)
  have w1: "cv_waits_or_done w (fst (cv_run pre vc))" by (rule cv_run_waits [OF assms(1)])
  let ?s = "cv_step (Cv_all b) (cv_run pre vc)"
  from cv_notify_all_waits [OF w1, of b "snd (cv_run pre vc)"]
  have "cv_waits_or_done w (fst ?s)" "w_completed (cv_heap (fst ?s) w)" by simp_all
  from cv_run_completed [OF this, of post] evs show ?thesis by (simp add: cv_run_append)
qed

text \<open>
  C9. Once a wait has queued its waiter and unlocked the mutex, no notification is missed. Whatever
  calls of other threads fall before the coroutine suspends (notifications, cancellations, waits of
  others), its waiter is still in the queue, to be woken, or it has been completed; after a
  \<open>notify_all\<close> among them, or more calls of \<open>notify_one\<close> than there were waiters before it, it has
  been completed, and then the awaiter answers that it need not suspend.
\<close>
theorem cv_no_missed_notify:
  assumes "cv_wait_begin b False False w (v, m, c) = (Inr (), v', m', c')"
    and "cv_heap v w = new_waiter" and "w \<notin> set (cv_waiters v)" and "distinct (cv_waiters v)"
  shows "let after = fst (cv_run evs (v', c')) in
    (cv_await_ready w after \<or> w \<in> set (live (cv_heap after) (cv_waiters after))) \<and>
    ((\<exists>ev\<in>set evs. cv_is_all ev) \<or> length (live (cv_heap v) (cv_waiters v)) < length (filter cv_is_one evs)
       \<longrightarrow> cv_await_ready w after) \<and>
    (cv_await_ready w after \<longrightarrow> \<not> cv_suspend_answer w (cv_suspend_store w after))"
proof -
  from assms(1) have v': "v' = v\<lparr>cv_waiters := cv_waiters v @ [w]\<rparr>"
    by (auto simp: cv_wait_begin_def case_prod_beta Let_def)
  with assms(2-4) have w: "cv_waits_or_done w (fst (v', c'))" by (auto simp: cv_waits_or_done_def new_waiter_def)
  have "takeWhile (\<lambda>u. u \<noteq> w) (live (cv_heap v) (cv_waiters v) @ [w]) = live (cv_heap v) (cv_waiters v)"
    using assms(3) by (subst takeWhile_append2) (auto simp: set_live)
  with v' assms(2) have "cv_ahead w (fst (v', c')) = length (live (cv_heap v) (cv_waiters v))"
    by (simp add: cv_ahead_def new_waiter_def)
  with cv_run_ahead [OF w, of evs]
  have one: "length (live (cv_heap v) (cv_waiters v)) < length (filter cv_is_one evs) \<longrightarrow>
      w_completed (cv_heap (fst (cv_run evs (v', c'))) w)" by linarith
  with cv_run_all_completed [OF w, of evs] cv_run_waits [OF w, of evs] show ?thesis
    by (auto simp: Let_def cv_await_ready_def cv_waits_or_done_def cv_suspend_answer_def cv_suspend_store_def)
qed

text \<open>One client is queued before client 3; a second \<open>notify_one\<close> reaches client 3.\<close>

theorem cv_no_missed_notify_witness:
  "\<exists>v' m' c'. cv_wait_begin True False False 3
        (new_async_condition_variable\<lparr>cv_waiters := [1]\<rparr>, new_async_mutex\<lparr>am_locked := True\<rparr>, new_runtime, [])
      = (Inr (), v', m', c') \<and>
    cv_await_ready 3 (fst (cv_run [Cv_enter 4, Cv_one False, Cv_cancel True 4, Cv_one True] (v', c')))"
proof -
  let ?v = "new_async_condition_variable\<lparr>cv_waiters := [1]\<rparr>" and ?m = "new_async_mutex\<lparr>am_locked := True\<rparr>"
  let ?evs = "[Cv_enter 4, Cv_one False, Cv_cancel True 4, Cv_one True]"
  obtain v' m' c' where b: "cv_wait_begin True False False 3 (?v, ?m, new_runtime, []) = (Inr (), v', m', c')"
    by (simp add: cv_wait_begin_def am_unlock_def new_async_mutex_def take_front_def Let_def)
  have p: "cv_heap ?v 3 = new_waiter" "3 \<notin> set (cv_waiters ?v)" "distinct (cv_waiters ?v)"
    by (simp_all add: new_async_condition_variable_def)
  have l: "length (live (cv_heap ?v) (cv_waiters ?v)) < length (filter cv_is_one ?evs)"
    by (simp add: new_async_condition_variable_def new_waiter_def)
  from cv_no_missed_notify [OF b p, of ?evs] b l show ?thesis unfolding Let_def by blast
qed

text \<open>
  A wait on a mutex that is not locked throws, but its waiter stays in the queue: the next
  \<open>notify_one\<close> is spent on it, and a client that really waits stays asleep.
\<close>
theorem cv_stale_waiter_swallows_notify:
  assumes "\<not> am_locked m" and "distinct (cv_waiters v)" and "live (cv_heap v) (cv_waiters v) = []"
    and "cv_heap v w = new_waiter" and "cv_heap v u = new_waiter" and "w \<noteq> u" and "w \<notin> set (cv_waiters v)" and "u \<notin> set (cv_waiters v)"
    and "cv_wait_begin b False False w (v, m, c) = (r, v1, m1, c1)"
    and "cv_wait_begin b False False u (v1, m\<lparr>am_locked := True\<rparr>, c1) = (Inr (), v2, m2, c2)"
    and "cv_notify_one b (v2, c2) = (r', v3, c3)"
  shows "r = Inl (Runtime_error ''async_mutex is not locked'') \<and> \<not> cv_await_ready u v3 \<and> cv_await_ready w v3"
proof -
  from assms(1,9) have r: "r = Inl (Runtime_error ''async_mutex is not locked'')" and
    v1: "v1 = v\<lparr>cv_waiters := cv_waiters v @ [w]\<rparr>"
    by (simp_all add: cv_wait_begin_def am_unlock_def Let_def)
  from assms(10) v1 have v2: "v2 = v\<lparr>cv_waiters := cv_waiters v @ [w, u]\<rparr>"
    by (auto simp: cv_wait_begin_def Let_def case_prod_beta)
  have l: "live (cv_heap v2) (cv_waiters v2) = [w, u]" and d: "distinct (cv_waiters v2)"
    using assms(2-8) by (auto simp: v2 new_waiter_def)
  from sync_queue.pop_first [of "(cv_heap v2, cv_waiters v2)" w "[u]"] l d obtain h q where
    tf: "take_front (cv_heap v2, cv_waiters v2) = Some (w, h, q)" by auto
  with take_front_SomeD [OF tf] assms(5,6,11) r show ?thesis
    by (auto simp: cv_notify_one_def cv_await_ready_def case_prod_beta v2 new_waiter_def Let_def)
qed

theorem cv_stale_waiter_swallows_notify_witness:
  "\<exists>v3 c3 r'. cv_notify_one True
     (new_async_condition_variable\<lparr>cv_waiters := [1, 2]\<rparr>, new_runtime, []) = (r', v3, c3) \<and> \<not> cv_await_ready 2 v3"
proof -
  let ?v = new_async_condition_variable
  obtain r v1 m1 c1 where b: "cv_wait_begin True False False 1 (?v, new_async_mutex, new_runtime, []) = (r, v1, m1, c1)"
    and v1: "v1 = ?v\<lparr>cv_waiters := [1]\<rparr>" "c1 = (new_runtime, [])"
    by (simp add: cv_wait_begin_def am_unlock_def new_async_mutex_def new_async_condition_variable_def Let_def)
  obtain v2 m2 c2 where d: "cv_wait_begin True False False 2 (v1, new_async_mutex\<lparr>am_locked := True\<rparr>, c1) = (Inr (), v2, m2, c2)"
    and v2: "v2 = ?v\<lparr>cv_waiters := [1, 2]\<rparr>" "c2 = (new_runtime, [])"
    by (simp add: v1 cv_wait_begin_def am_unlock_def new_async_mutex_def take_front_def new_async_condition_variable_def Let_def)
  obtain r' v3 c3 where e: "cv_notify_one True (v2, c2) = (r', v3, c3)" by (metis prod_cases3)
  have "\<not> am_locked new_async_mutex" "distinct (cv_waiters ?v)" "live (cv_heap ?v) (cv_waiters ?v) = []"
    "cv_heap ?v 1 = new_waiter" "cv_heap ?v 2 = new_waiter" "(1::nat) \<noteq> 2" "1 \<notin> set (cv_waiters ?v)" "2 \<notin> set (cv_waiters ?v)"
    by (simp_all add: new_async_mutex_def new_async_condition_variable_def)
  from cv_stale_waiter_swallows_notify [OF this b d e] e v2 show ?thesis by auto
qed

end
