(* ===== verification/Local_Condvar_Event.thy ===== *)
theory Local_Condvar_Event
  imports Local_Mutex
begin

text \<open>
  \<open>local_async_condition_variable\<close> and \<open>local_async_event\<close> of \<open>include/luvcoro/sync.hpp\<close>.
  Both wake their waiters in a loop that resumes each coroutine inline and then looks at the
  queue again, so what a resumed coroutine does decides how the loop goes on.
\<close>

section \<open>The waking loop\<close>

text \<open>
  The loop that \<open>notify_all\<close> and \<open>set\<close> share: \<open>get\<close> and \<open>put\<close> reach the primitive's heap and
  queue in a state \<open>'s\<close>, \<open>resume w\<close> is what the coroutine of \<open>w\<close> does until it suspends. The
  loop need not end, so it runs on fuel; \<open>None\<close> means that the fuel ran out.
\<close>

fun wake_loop :: "('s \<Rightarrow> wheap \<times> nat list) \<Rightarrow> (wheap \<times> nat list \<Rightarrow> 's \<Rightarrow> 's) \<Rightarrow> (nat \<Rightarrow> 's \<Rightarrow> 's) \<Rightarrow> nat \<Rightarrow> 's \<Rightarrow> 's option" where
  "wake_loop get put resume 0 s = None"
| "wake_loop get put resume (Suc n) s =
     (case snd (get s) of
        [] \<Rightarrow> Some s
      | w # q \<Rightarrow>
          (let h = (fst (get s))(w := mark_woken (fst (get s) w));
               s = put (h, q) s;
               s = (if w_continuation (h w) then resume w s else s)
           in wake_loop get put resume n (put (fst (get s), prune_inactive (fst (get s)) (snd (get s))) s)))"

definition wake_all :: "('s \<Rightarrow> wheap \<times> nat list) \<Rightarrow> (wheap \<times> nat list \<Rightarrow> 's \<Rightarrow> 's) \<Rightarrow> (nat \<Rightarrow> 's \<Rightarrow> 's) \<Rightarrow> nat \<Rightarrow> 's \<Rightarrow> 's option" where
  "wake_all get put resume n s =
     wake_loop get put resume n (put (fst (get s), prune_inactive (fst (get s)) (snd (get s))) s)"

text \<open>
  What the coroutines may do to the heap: the waiters in the queue wait on, and no waiter that is
  completed becomes incomplete.
\<close>

definition same_waiting :: "nat set \<Rightarrow> wheap \<Rightarrow> wheap \<Rightarrow> bool" where
  "same_waiting Q h h' \<longleftrightarrow>
     (\<forall>v\<in>Q. w_active (h' v) = w_active (h v) \<and> w_continuation (h' v) = w_continuation (h v)) \<and>
     (\<forall>v. w_completed (h v) \<longrightarrow> w_completed (h' v))"

lemma same_waiting_live: "same_waiting (set q) h h' \<Longrightarrow> live h' q = live h q"
  by (auto simp: same_waiting_def live_def intro: filter_cong)

lemma same_waiting_prune: "same_waiting (set q) h h' \<Longrightarrow> prune_inactive h' q = prune_inactive h q"
  by (auto simp: same_waiting_def prune_inactive_dropWhile intro: dropWhile_cong)

text \<open>
  The contract under which it ends: the coroutines that are resumed leave the waiting ones as they
  are (in particular they do not queue new waiters) and keep the condition \<open>P\<close> that makes them
  do so. \<open>trace\<close> lists the resumptions.
\<close>

locale calm_clients =
  fixes get :: "'s \<Rightarrow> wheap \<times> nat list" and put :: "wheap \<times> nat list \<Rightarrow> 's \<Rightarrow> 's"
    and resume :: "nat \<Rightarrow> 's \<Rightarrow> 's" and trace :: "'s \<Rightarrow> nat list" and P :: "'s \<Rightarrow> bool"
  assumes get_put: "get (put hq s) = hq"
    and trace_put: "trace (put hq s) = trace s"
    and P_put: "P s \<Longrightarrow> set q \<subseteq> set (snd (get s)) \<Longrightarrow> P (put (h, q) s)"
    and resume_P: "P s \<Longrightarrow> P (resume w s)"
    and resume_queue: "P s \<Longrightarrow> snd (get (resume w s)) = snd (get s) \<or>
      snd (get (resume w s)) = prune_inactive (fst (get s)) (snd (get s))"
    and resume_heap: "P s \<Longrightarrow> same_waiting (set (snd (get s))) (fst (get s)) (fst (get (resume w s)))"
    and resume_trace: "P s \<Longrightarrow> trace (resume w s) = trace s @ [w]"
begin

lemma wake_loop_calm:
  assumes "P s" and "get s = (h, q)" and "distinct q" and "prune_inactive h q = q"
    and "\<forall>w\<in>set (live h q). w_continuation (h w)" and "length q < n"
  shows "\<exists>s' h'. wake_loop get put resume n s = Some s' \<and> P s' \<and> trace s' = trace s @ live h q \<and>
    get s' = (h', []) \<and> (\<forall>v. w_completed (h v) \<or> v \<in> set (live h q) \<longrightarrow> w_completed (h' v))"
  using assms
proof (induction n arbitrary: s h q)
  case (Suc n)
  show ?case
  proof (cases q)
    case Nil
    with Suc.prems show ?thesis by (intro exI [of _ s] exI [of _ h]) simp
  next
    case (Cons w ws)
    with Suc.prems(4) have act: "w_active (h w)" by (metis prune_ConsD)
    let ?h = "h(w := mark_woken (h w))"
    let ?s = "put (?h, ws) s"
    let ?t = "resume w ?s"
    from Suc.prems(2) Cons have Ps: "P ?s" using P_put [OF Suc.prems(1), of ws ?h] by auto
    obtain g v where g: "get ?t = (g, v)" by fastforce
    with resume_heap [OF Ps, of w] get_put have sw: "same_waiting (set ws) ?h g" by simp
    from g resume_queue [OF Ps, of w] get_put have v: "v = ws \<or> v = prune_inactive ?h ws" by simp
    with same_waiting_prune [OF sw] have pv: "prune_inactive g v = prune_inactive g ws" by (metis prune_idem)
    let ?u = "put (g, prune_inactive g v) ?t"
    from Suc.prems(5) Cons act have cont: "w_continuation (?h w)" by simp
    from Suc.prems(3) Cons have nw: "w \<notin> set ws" "distinct ws" by simp_all
    have u: "P ?u" "trace ?u = trace s @ [w]"
      using P_put [OF resume_P [OF Ps]] g set_prune [of g v] trace_put resume_trace [OF Ps] by simp_all
    have "length (prune_inactive g ws) \<le> length ws" by (simp add: prune_inactive_dropWhile)
    with Suc.prems(6) Cons pv have len: "length (prune_inactive g v) < n" by simp
    have lv: "live g (prune_inactive g v) = live h ws"
      using nw same_waiting_live [OF sw] pv by simp
    have cn: "\<forall>v'\<in>set (live g (prune_inactive g v)). w_continuation (g v')"
      using Suc.prems(5) Cons act nw sw unfolding lv by (auto simp: set_live same_waiting_def)
    from Suc.IH [OF u(1) get_put _ prune_idem cn len] nw(2) pv
    obtain s' h' where s': "wake_loop get put resume n ?u = Some s'" "P s'" "trace s' = trace s @ [w] @ live h ws"
      "get s' = (h', [])" "\<forall>v'. w_completed (g v') \<or> v' \<in> set (live h ws) \<longrightarrow> w_completed (h' v')"
      unfolding lv u(2) by auto
    have step: "wake_loop get put resume (Suc n) s = wake_loop get put resume n ?u"
      using Suc.prems(2) Cons cont g by (simp add: Let_def)
    have l: "live h q = w # live h ws" using Cons act by simp
    have "w_completed (g w)" "\<forall>v'. w_completed (h v') \<longrightarrow> w_completed (g v')"
      using sw unfolding same_waiting_def by (metis fun_upd_same mark_woken_simps(2), metis fun_upd_other fun_upd_same mark_woken_simps(2))
    then show ?thesis unfolding step l
      by (intro exI [of _ s'] exI [of _ h']) (use s' in auto)
  qed
qed simp

lemma wake_all_calm:
  assumes "P s" and "get s = (h, q)" and "distinct q"
    and "\<forall>w\<in>set (live h q). w_continuation (h w)" and "length q < n"
  shows "\<exists>s' h'. wake_all get put resume n s = Some s' \<and> P s' \<and> trace s' = trace s @ live h q \<and>
    get s' = (h', []) \<and> (\<forall>v. w_completed (h v) \<or> v \<in> set (live h q) \<longrightarrow> w_completed (h' v))"
proof -
  have "length (prune_inactive h q) \<le> length q" by (simp add: prune_inactive_dropWhile)
  with assms(5) have len: "length (prune_inactive h q) < n" by simp
  have c: "\<forall>w\<in>set (live h (prune_inactive h q)). w_continuation (h w)" using assms(4) by simp
  have "P (put (h, prune_inactive h q) s)" using P_put [OF assms(1)] assms(2) set_prune [of h q] by simp
  from wake_loop_calm [OF this get_put distinct_prune [OF assms(3)] prune_idem c len]
  show ?thesis using assms(2) by (simp add: wake_all_def trace_put)
qed

end

section \<open>The local condition variable\<close>

record local_async_condition_variable =
  lc_waiters :: "nat list"
  lc_heap :: wheap

text \<open>
  The condition variable among its clients: the mutex, the runtime's queue of cancellations, the
  clients that the mutex and the condition variable have resumed, and the next free waiter.
\<close>

record lc_world = local_async_condition_variable +
  lw_mutex :: local_async_mutex
  lw_rt :: "nat uv_runtime"
  lw_log :: "nat list"
  lw_trace :: "nat list"
  lw_next :: nat

definition lc_cancel_waiter :: "nat \<Rightarrow> lc_world \<Rightarrow> lc_world" where
  "lc_cancel_waiter w s = s\<lparr>lw_rt := snd (post w (lw_rt s))\<rparr>"

text \<open>\<open>wait\<close> up to its \<open>co_await\<close>.\<close>

definition lc_wait_begin :: "bool \<Rightarrow> bool \<Rightarrow> bool \<Rightarrow> nat \<Rightarrow> lc_world \<Rightarrow> unit result \<times> lc_world" where
  "lc_wait_begin is_loop_thread stop_possible stopped w s =
     (case require_runtime_thread is_loop_thread ''local_async_condition_variable::wait'' of
        Inl e \<Rightarrow> (Inl e, s)
      | Inr _ \<Rightarrow>
          (let s = s\<lparr>lc_waiters := lc_waiters s @ [w]\<rparr>;
               s = (if stop_possible
                    then (let s = s\<lparr>lc_heap := (lc_heap s)(w := (lc_heap s w)\<lparr>w_stop_callback := True\<rparr>)\<rparr>
                          in if stopped then lc_cancel_waiter w s else s)
                    else s)
           in case lm_unlock is_loop_thread (lw_mutex s, lw_log s) of
                (r, m, l) \<Rightarrow> (r, s\<lparr>lw_mutex := m, lw_log := l\<rparr>)))"

definition lc_await_ready :: "nat \<Rightarrow> 'z local_async_condition_variable_scheme \<Rightarrow> bool" where
  "lc_await_ready w s = w_completed (lc_heap s w)"

definition lc_await_suspend :: "nat \<Rightarrow> 'z local_async_condition_variable_scheme \<Rightarrow> bool \<times> 'z local_async_condition_variable_scheme" where
  "lc_await_suspend w s =
     (let s = s\<lparr>lc_heap := (lc_heap s)(w := (lc_heap s w)\<lparr>w_continuation := True\<rparr>)\<rparr>
      in (\<not> w_completed (lc_heap s w), s))"

definition lc_await_resume :: "nat \<Rightarrow> 'z local_async_condition_variable_scheme \<Rightarrow> unit result \<times> 'z local_async_condition_variable_scheme" where
  "lc_await_resume w s =
     (let s = s\<lparr>lc_heap := (lc_heap s)(w := (lc_heap s w)\<lparr>w_stop_callback := False\<rparr>)\<rparr> in
      (if w_cancelled (lc_heap s w) then Inl Operation_cancelled else Inr (), s))"

text \<open>The outcome of \<open>wait\<close> once the mutex has been locked again: only a cancellation is held back until then.\<close>

definition lc_wait_end :: "unit result \<Rightarrow> unit result \<Rightarrow> unit result" where
  "lc_wait_end awaited relocked =
     (let cancelled = (awaited = Inl Operation_cancelled) in
      case relocked of
        Inl e \<Rightarrow> Inl e
      | Inr _ \<Rightarrow> if cancelled then Inl Operation_cancelled else Inr ())"

text \<open>\<open>await_resume\<close> throws nothing but a cancellation, so the outcome is the awaiter's once the mutex is held.\<close>

lemma lc_wait_end_honest: "lc_wait_end (fst (lc_await_resume w s)) (Inr ()) = fst (lc_await_resume w s)"
  by (simp add: lc_wait_end_def lc_await_resume_def Let_def)

definition lc_notify_one :: "(nat \<Rightarrow> lc_world \<Rightarrow> lc_world) \<Rightarrow> bool \<Rightarrow> lc_world \<Rightarrow> unit result \<times> lc_world" where
  "lc_notify_one resume is_loop_thread s =
     (case require_runtime_thread is_loop_thread ''local_async_condition_variable::notify_one'' of
        Inl e \<Rightarrow> (Inl e, s)
      | Inr _ \<Rightarrow>
          (case take_front (lc_heap s, lc_waiters s) of
             None \<Rightarrow> (Inr (), s\<lparr>lc_waiters := prune_inactive (lc_heap s) (lc_waiters s)\<rparr>)
           | Some (w, h, q) \<Rightarrow>
               (let s = s\<lparr>lc_heap := h, lc_waiters := q\<rparr>
                in (Inr (), if w_continuation (h w) then resume w s else s))))"

definition lc_get :: "lc_world \<Rightarrow> wheap \<times> nat list" where
  "lc_get s = (lc_heap s, lc_waiters s)"

definition lc_put :: "wheap \<times> nat list \<Rightarrow> lc_world \<Rightarrow> lc_world" where
  "lc_put hq s = s\<lparr>lc_heap := fst hq, lc_waiters := snd hq\<rparr>"

definition lc_notify_all :: "(nat \<Rightarrow> lc_world \<Rightarrow> lc_world) \<Rightarrow> bool \<Rightarrow> nat \<Rightarrow> lc_world \<Rightarrow> (unit result \<times> lc_world) option" where
  "lc_notify_all resume is_loop_thread n s =
     (case require_runtime_thread is_loop_thread ''local_async_condition_variable::notify_all'' of
        Inl e \<Rightarrow> Some (Inl e, s)
      | Inr _ \<Rightarrow> map_option (\<lambda>s'. (Inr (), s')) (wake_all lc_get lc_put resume n s))"

text \<open>
  What a client of \<open>wait(mutex, predicate)\<close> does when it is resumed: it leaves the awaiter, locks
  the mutex again and, once it has it, waits again as long as the predicate is false. Every call
  uses a waiter of its own.
\<close>

definition lc_client :: "bool \<Rightarrow> nat \<Rightarrow> lc_world \<Rightarrow> lc_world" where
  "lc_client predicate w s =
     (let s = snd (lc_await_resume w (s\<lparr>lw_trace := lw_trace s @ [w]\<rparr>)) in
      case lm_lock True False False False (lw_next s) (lw_mutex s, lw_rt s) of
        (out, m, rt) \<Rightarrow>
          (let s = s\<lparr>lw_mutex := m, lw_rt := rt, lw_next := Suc (lw_next s)\<rparr> in
           if out = Continues (Inr ()) \<and> \<not> predicate
           then (let w' = lw_next s; s = s\<lparr>lw_next := Suc (lw_next s)\<rparr> in
                 case lc_wait_begin True False False w' s of
                   (Inl e, s') \<Rightarrow> s'
                 | (Inr _, s') \<Rightarrow> if lc_await_ready w' s' then s' else snd (lc_await_suspend w' s'))
           else s))"

definition lc_mutex_held :: "lc_world \<Rightarrow> bool" where
  "lc_mutex_held s \<longleftrightarrow> lm_locked (lw_mutex s) \<and> (\<forall>i\<ge>lw_next s. lm_heap (lw_mutex s) i = new_waiter)"

lemma lm_lock_held:
  assumes "lm_locked m" and "lm_heap m w = new_waiter"
  shows "\<exists>m'. lm_lock True False False False w (m, rt) = (Suspended, m', rt) \<and> lm_locked m' \<and>
    (\<forall>v. v \<noteq> w \<longrightarrow> lm_heap m' v = lm_heap m v)"
  using assms
  by (simp add: lm_lock_def lm_await_ready_def require_runtime_thread_def lm_await_suspend_def Let_def new_waiter_def)

lemma lc_client_held:
  assumes "lc_mutex_held s"
  shows "lc_mutex_held (lc_client p w s) \<and> lc_waiters (lc_client p w s) = lc_waiters s \<and>
    same_waiting Q (lc_heap s) (lc_heap (lc_client p w s)) \<and> lw_trace (lc_client p w s) = lw_trace s @ [w]"
proof -
  from assms lm_lock_held [of "lw_mutex s" "lw_next s" "lw_rt s"] obtain m' where
    m': "lm_lock True False False False (lw_next s) (lw_mutex s, lw_rt s) = (Suspended, m', lw_rt s)" "lm_locked m'"
      "\<forall>v. v \<noteq> lw_next s \<longrightarrow> lm_heap m' v = lm_heap (lw_mutex s) v"
    by (auto simp: lc_mutex_held_def)
  with assms show ?thesis
    by (auto simp: lc_client_def lc_await_resume_def Let_def lc_mutex_held_def same_waiting_def)
qed

interpretation lc_clients: calm_clients lc_get lc_put "lc_client predicate" lw_trace lc_mutex_held for predicate
  by unfold_locales (simp_all add: lc_get_def lc_put_def lc_client_held, simp add: lc_mutex_held_def)

text \<open>
  C10. While somebody holds the mutex, \<open>notify_all\<close> of the local condition variable returns and
  has resumed every waiting client exactly once, in the order they waited: whatever their
  predicates say, they queue at the mutex. Fuel for one more iteration than there are waiters is
  enough.
\<close>
theorem lc_notify_all_wakes:
  assumes "lc_mutex_held s" and "distinct (lc_waiters s)" and "length (lc_waiters s) < n"
    and "\<forall>w\<in>set (live (lc_heap s) (lc_waiters s)). w_continuation (lc_heap s w)"
  shows "\<exists>s'. lc_notify_all (lc_client predicate) True n s = Some (Inr (), s') \<and> lc_waiters s' = [] \<and>
    lw_trace s' = lw_trace s @ live (lc_heap s) (lc_waiters s) \<and>
    (\<forall>w\<in>set (live (lc_heap s) (lc_waiters s)). lc_await_ready w s')"
proof -
  from lc_clients.wake_all_calm [OF assms(1), of "lc_heap s" "lc_waiters s" n predicate] assms(2-4)
  obtain s' h' where "wake_all lc_get lc_put (lc_client predicate) n s = Some s'"
    "lw_trace s' = lw_trace s @ live (lc_heap s) (lc_waiters s)" "lc_get s' = (h', [])"
    "\<forall>v. w_completed (lc_heap s v) \<or> v \<in> set (live (lc_heap s) (lc_waiters s)) \<longrightarrow> w_completed (h' v)"
    by (auto simp: lc_get_def)
  then show ?thesis
    by (auto simp: lc_notify_all_def require_runtime_thread_def lc_get_def lc_await_ready_def)
qed

definition lc_example :: "bool \<Rightarrow> nat list \<Rightarrow> lc_world" where
  "lc_example locked ws = \<lparr>lc_waiters = ws, lc_heap = (\<lambda>w. if w \<in> set ws then new_waiter\<lparr>w_continuation := True\<rparr> else new_waiter),
     lw_mutex = new_local_async_mutex\<lparr>lm_locked := locked\<rparr>, lw_rt = new_runtime, lw_log = [], lw_trace = [], lw_next = 10\<rparr>"

theorem lc_notify_all_wakes_witness:
  "\<exists>s'. lc_notify_all (lc_client False) True 3 (lc_example True [4, 2]) = Some (Inr (), s') \<and>
     lc_waiters s' = [] \<and> lw_trace s' = [4, 2]"
proof -
  have "lc_mutex_held (lc_example True [4, 2])" "distinct (lc_waiters (lc_example True [4, 2]))"
    "length (lc_waiters (lc_example True [4, 2])) < 3"
    "\<forall>w\<in>set (live (lc_heap (lc_example True [4, 2])) (lc_waiters (lc_example True [4, 2]))). w_continuation (lc_heap (lc_example True [4, 2]) w)"
    by (auto simp: lc_mutex_held_def lc_example_def new_local_async_mutex_def set_live)
  from lc_notify_all_wakes [OF this, of False] show ?thesis
    by (auto simp: lc_example_def new_waiter_def)
qed

text \<open>One client waits, its predicate stays false, and nobody holds the mutex.\<close>

definition lc_lonely :: "lc_world \<Rightarrow> bool" where
  "lc_lonely s \<longleftrightarrow> (\<exists>w. lc_waiters s = [w] \<and> w_active (lc_heap s w) \<and> w_continuation (lc_heap s w) \<and> w < lw_next s) \<and>
     \<not> lm_locked (lw_mutex s) \<and> lm_waiters (lw_mutex s) = [] \<and>
     (\<forall>i\<ge>lw_next s. lm_heap (lw_mutex s) i = new_waiter \<and> lc_heap s i = new_waiter)"

lemma lc_client_lonely:
  assumes "lc_waiters s = []" and "w < lw_next s" and "\<not> lm_locked (lw_mutex s)" and "lm_waiters (lw_mutex s) = []"
    and "\<forall>i\<ge>lw_next s. lm_heap (lw_mutex s) i = new_waiter \<and> lc_heap s i = new_waiter"
  shows "lc_lonely (lc_client False w s)"
proof -
  have "lm_lock True False False False (lw_next s) (lw_mutex s, lw_rt s) =
      (Continues (Inr ()), (lw_mutex s)\<lparr>lm_locked := True,
         lm_heap := (lm_heap (lw_mutex s))(lw_next s := new_waiter\<lparr>w_completed := True\<rparr>)\<rparr>, lw_rt s)"
    using assms(3-5)
    by (auto simp: lm_lock_def lm_await_ready_def require_runtime_thread_def Let_def lm_await_resume_def new_waiter_def
      intro!: local_async_mutex.equality)
  with assms show ?thesis
    by (simp add: lc_client_def lc_await_resume_def Let_def lc_wait_begin_def require_runtime_thread_def lm_unlock_def
      take_front_def lc_await_ready_def lc_await_suspend_def new_waiter_def lc_lonely_def)
qed

lemma lc_loop_lonely: "lc_lonely s \<Longrightarrow> wake_loop lc_get lc_put (lc_client False) n s = None"
proof (induction n arbitrary: s)
  case (Suc n)
  from Suc.prems obtain w where w: "lc_waiters s = [w]" "w_active (lc_heap s w)" "w_continuation (lc_heap s w)" "w < lw_next s"
    by (auto simp: lc_lonely_def)
  let ?t = "lc_put ((lc_heap s)(w := mark_woken (lc_heap s w)), []) s"
  have l: "lc_lonely (lc_client False w ?t)"
    by (rule lc_client_lonely) (use Suc.prems w in \<open>auto simp: lc_put_def lc_lonely_def\<close>)
  have id: "lc_put (fst (lc_get x), prune_inactive (fst (lc_get x)) (snd (lc_get x))) x = x" if "lc_lonely x" for x
    using that by (auto simp: lc_lonely_def lc_put_def lc_get_def)
  show ?case
    using w Suc.IH [OF l] id [OF l] by (simp add: lc_get_def [of s] Let_def)
qed simp

text \<open>
  Called while nobody holds the mutex, the local \<open>notify_all\<close> may never return: a client
  whose predicate is still false gets the mutex inline, waits again inside the loop and is found
  in the queue again. No amount of fuel is enough.
\<close>
theorem lc_notify_all_never_returns:
  assumes "lc_lonely s"
  shows "lc_notify_all (lc_client False) True n s = None"
proof -
  from assms have "lc_put (fst (lc_get s), prune_inactive (fst (lc_get s)) (snd (lc_get s))) s = s"
    by (auto simp: lc_lonely_def lc_put_def lc_get_def)
  with lc_loop_lonely [OF assms, of n] show ?thesis
    by (simp add: lc_notify_all_def require_runtime_thread_def wake_all_def)
qed

theorem lc_notify_all_never_returns_witness:
  "lc_notify_all (lc_client False) True 1000 (lc_example False [4]) = None"
proof -
  have "lc_lonely (lc_example False [4])"
    by (simp add: lc_lonely_def lc_example_def new_local_async_mutex_def new_waiter_def)
  then show ?thesis by (rule lc_notify_all_never_returns)
qed

section \<open>The local event\<close>

record local_async_event =
  le_signaled :: bool
  le_waiters :: "nat list"
  le_heap :: wheap

record le_world = local_async_event +
  ew_rt :: "nat uv_runtime"
  ew_trace :: "nat list"
  ew_next :: nat

definition le_cancel_waiter :: "nat \<Rightarrow> nat uv_runtime \<Rightarrow> nat uv_runtime" where
  "le_cancel_waiter w rt = snd (post w rt)"

definition le_await_ready :: "bool \<Rightarrow> nat \<Rightarrow> 'z local_async_event_scheme \<Rightarrow> bool result \<times> 'z local_async_event_scheme" where
  "le_await_ready is_loop_thread w s =
     (case require_runtime_thread is_loop_thread ''local_async_event::wait'' of
        Inl e \<Rightarrow> (Inl e, s)
      | Inr _ \<Rightarrow>
          (let s = s\<lparr>le_waiters := prune_inactive (le_heap s) (le_waiters s)\<rparr> in
           if le_signaled s then (Inr True, s\<lparr>le_heap := (le_heap s)(w := (le_heap s w)\<lparr>w_completed := True\<rparr>)\<rparr>)
           else (Inr False, s)))"

definition le_await_suspend :: "bool \<Rightarrow> bool \<Rightarrow> bool \<Rightarrow> bool \<Rightarrow> nat \<Rightarrow> 'z local_async_event_scheme \<times> nat uv_runtime
    \<Rightarrow> bool result \<times> 'z local_async_event_scheme \<times> nat uv_runtime" where
  "le_await_suspend is_loop_thread stop_possible stopped_before stopped_at_register w sr =
     (case require_runtime_thread is_loop_thread ''local_async_event::wait'' of
        Inl e \<Rightarrow> (Inl e, sr)
      | Inr _ \<Rightarrow>
          (let s = fst sr in
           if stopped_before
           then (Inr False, s\<lparr>le_heap := (le_heap s)(w := (le_heap s w)\<lparr>w_completed := True, w_cancelled := True\<rparr>)\<rparr>, snd sr)
           else
             let s = s\<lparr>le_heap := (le_heap s)(w := (le_heap s w)\<lparr>w_continuation := True\<rparr>)\<rparr>;
                 s = s\<lparr>le_waiters := prune_inactive (le_heap s) (le_waiters s)\<rparr>
             in if le_signaled s
                then (Inr False, s\<lparr>le_heap := (le_heap s)(w := (le_heap s w)\<lparr>w_completed := True\<rparr>)\<rparr>, snd sr)
                else
                  let s = s\<lparr>le_waiters := le_waiters s @ [w]\<rparr>;
                      sr' = (if stop_possible
                             then (s\<lparr>le_heap := (le_heap s)(w := (le_heap s w)\<lparr>w_stop_callback := True\<rparr>)\<rparr>,
                                   if stopped_at_register then le_cancel_waiter w (snd sr) else snd sr)
                             else (s, snd sr))
                  in (Inr (\<not> w_completed (le_heap (fst sr') w)), sr')))"

definition le_await_resume :: "nat \<Rightarrow> 'z local_async_event_scheme \<Rightarrow> unit result \<times> 'z local_async_event_scheme" where
  "le_await_resume w s =
     (let s = s\<lparr>le_heap := (le_heap s)(w := (le_heap s w)\<lparr>w_stop_callback := False\<rparr>)\<rparr> in
      (if w_cancelled (le_heap s w) then Inl Operation_cancelled else Inr (), s))"

definition le_wait :: "bool \<Rightarrow> bool \<Rightarrow> bool \<Rightarrow> bool \<Rightarrow> nat \<Rightarrow> 'z local_async_event_scheme \<times> nat uv_runtime
    \<Rightarrow> unit awaited \<times> 'z local_async_event_scheme \<times> nat uv_runtime" where
  "le_wait is_loop_thread stop_possible stopped_before stopped_at_register w sr =
     (case le_await_ready is_loop_thread w (fst sr) of
        (Inl e, s) \<Rightarrow> (Continues (Inl e), s, snd sr)
      | (Inr True, s) \<Rightarrow> (case le_await_resume w s of (r, s') \<Rightarrow> (Continues r, s', snd sr))
      | (Inr False, s) \<Rightarrow>
          (case le_await_suspend is_loop_thread stop_possible stopped_before stopped_at_register w (s, snd sr) of
             (Inl e, sr') \<Rightarrow> (Continues (Inl e), sr')
           | (Inr True, sr') \<Rightarrow> (Suspended, sr')
           | (Inr False, sr') \<Rightarrow> (case le_await_resume w (fst sr') of (r, s') \<Rightarrow> (Continues r, s', snd sr'))))"

definition le_get :: "le_world \<Rightarrow> wheap \<times> nat list" where
  "le_get s = (le_heap s, le_waiters s)"

definition le_put :: "wheap \<times> nat list \<Rightarrow> le_world \<Rightarrow> le_world" where
  "le_put hq s = s\<lparr>le_heap := fst hq, le_waiters := snd hq\<rparr>"

definition le_set :: "(nat \<Rightarrow> le_world \<Rightarrow> le_world) \<Rightarrow> bool \<Rightarrow> nat \<Rightarrow> le_world \<Rightarrow> (unit result \<times> le_world) option" where
  "le_set resume is_loop_thread n s =
     (case require_runtime_thread is_loop_thread ''local_async_event::set'' of
        Inl e \<Rightarrow> Some (Inl e, s)
      | Inr _ \<Rightarrow> map_option (\<lambda>s'. (Inr (), s')) (wake_all le_get le_put resume n (s\<lparr>le_signaled := True\<rparr>)))"

definition le_reset :: "bool \<Rightarrow> 'z local_async_event_scheme \<Rightarrow> unit result \<times> 'z local_async_event_scheme" where
  "le_reset is_loop_thread s =
     (case require_runtime_thread is_loop_thread ''local_async_event::reset'' of
        Inl e \<Rightarrow> (Inl e, s)
      | Inr _ \<Rightarrow> (Inr (), s\<lparr>le_signaled := False\<rparr>))"

definition le_is_set :: "bool \<Rightarrow> 'z local_async_event_scheme \<Rightarrow> bool result" where
  "le_is_set is_loop_thread s =
     (case require_runtime_thread is_loop_thread ''local_async_event::is_set'' of
        Inl e \<Rightarrow> Inl e
      | Inr _ \<Rightarrow> Inr (le_signaled s))"

text \<open>A client that waits \<open>k w\<close> more times in a row, with a token it may have stopped, when resumed.\<close>

fun le_wait_again :: "bool \<Rightarrow> nat \<Rightarrow> le_world \<Rightarrow> le_world" where
  "le_wait_again stopped 0 s = s"
| "le_wait_again stopped (Suc k) s =
     (case le_wait True True stopped stopped (ew_next s) (s, ew_rt s) of
        (out, s', rt) \<Rightarrow>
          (let s' = s'\<lparr>ew_rt := rt, ew_next := Suc (ew_next s')\<rparr> in
           if out = Suspended then s' else le_wait_again stopped k s'))"

definition le_client :: "bool \<Rightarrow> (nat \<Rightarrow> nat) \<Rightarrow> nat \<Rightarrow> le_world \<Rightarrow> le_world" where
  "le_client stopped k w s =
     le_wait_again stopped (k w) (snd (le_await_resume w (s\<lparr>ew_trace := ew_trace s @ [w]\<rparr>)))"

definition le_set_ok :: "le_world \<Rightarrow> bool" where
  "le_set_ok s \<longleftrightarrow> le_signaled s \<and> (\<forall>v\<in>set (le_waiters s). v < ew_next s)"

lemma le_wait_signaled:
  assumes "le_signaled s"
  shows "\<exists>r s'. le_wait True sp sb sr w (s, rt) = (Continues r, s', rt) \<and> le_signaled s' \<and>
    le_waiters s' = prune_inactive (le_heap s) (le_waiters s) \<and> local_async_event.more s' = local_async_event.more s \<and>
    (\<forall>v. v \<noteq> w \<longrightarrow> le_heap s' v = le_heap s v) \<and> w_completed (le_heap s' w)"
  using assms
  by (simp add: le_wait_def le_await_ready_def require_runtime_thread_def Let_def le_await_resume_def)

lemma le_wait_again_ok:
  assumes "le_set_ok s"
  shows "le_set_ok (le_wait_again st k s) \<and> ew_trace (le_wait_again st k s) = ew_trace s \<and>
    (le_waiters (le_wait_again st k s) = le_waiters s \<or>
     le_waiters (le_wait_again st k s) = prune_inactive (le_heap s) (le_waiters s)) \<and>
    (\<forall>v<ew_next s. le_heap (le_wait_again st k s) v = le_heap s v) \<and>
    (\<forall>v. w_completed (le_heap s v) \<longrightarrow> w_completed (le_heap (le_wait_again st k s) v))"
  using assms
proof (induction k arbitrary: s)
  case 0
  then show ?case by simp
next
  case (Suc k)
  from Suc.prems have sg: "le_signaled s" by (simp add: le_set_ok_def)
  obtain r s1 where w: "le_wait True True st st (ew_next s) (s, ew_rt s) = (Continues r, s1, ew_rt s)" "le_signaled s1"
      "le_waiters s1 = prune_inactive (le_heap s) (le_waiters s)" "local_async_event.more s1 = local_async_event.more s"
      "\<forall>v. v \<noteq> ew_next s \<longrightarrow> le_heap s1 v = le_heap s v" "w_completed (le_heap s1 (ew_next s))"
    using le_wait_signaled [OF sg, of True st st "ew_next s" "ew_rt s"] by blast
  let ?t = "s1\<lparr>ew_rt := ew_rt s, ew_next := Suc (ew_next s1)\<rparr>"
  have more: "ew_next s1 = ew_next s" "ew_trace s1 = ew_trace s"
    using w(4) by (cases s1; cases s; simp)+
  have q: "set (le_waiters s1) \<subseteq> set (le_waiters s)" using w(3) set_prune [of "le_heap s" "le_waiters s"] by simp
  with Suc.prems w more have ok: "le_set_ok ?t" by (auto simp: le_set_ok_def less_Suc_eq)
  have "same_waiting (set (le_waiters s1)) (le_heap s) (le_heap s1)"
    using w(5,6) q Suc.prems unfolding same_waiting_def le_set_ok_def by (metis order_less_irrefl subsetD)
  then have pr: "prune_inactive (le_heap s1) (le_waiters s1) = le_waiters s1"
    using same_waiting_prune w(3) by simp
  have step: "le_wait_again st (Suc k) s = le_wait_again st k ?t" using w(1) by (simp add: Let_def)
  have c: "\<forall>v. w_completed (le_heap s v) \<longrightarrow> w_completed (le_heap s1 v)" using w(5,6) by metis
  from Suc.IH [OF ok] pr w(3,5) more c show ?case unfolding step by (auto simp: less_Suc_eq)
qed

lemma le_client_ok:
  assumes "le_set_ok s"
  shows "le_set_ok (le_client st k w s) \<and> ew_trace (le_client st k w s) = ew_trace s @ [w] \<and>
    (le_waiters (le_client st k w s) = le_waiters s \<or>
     le_waiters (le_client st k w s) = prune_inactive (le_heap s) (le_waiters s)) \<and>
    same_waiting (set (le_waiters s)) (le_heap s) (le_heap (le_client st k w s))"
proof -
  let ?s = "snd (le_await_resume w (s\<lparr>ew_trace := ew_trace s @ [w]\<rparr>))"
  have r: "le_waiters ?s = le_waiters s" "ew_trace ?s = ew_trace s @ [w]" "ew_next ?s = ew_next s" "le_signaled ?s = le_signaled s"
    "\<forall>v. w_active (le_heap ?s v) = w_active (le_heap s v) \<and> w_continuation (le_heap ?s v) = w_continuation (le_heap s v) \<and>
       w_completed (le_heap ?s v) = w_completed (le_heap s v)"
    by (auto simp: le_await_resume_def Let_def)
  have ok: "le_set_ok ?s" using assms r by (simp add: le_set_ok_def)
  have pr: "prune_inactive (le_heap ?s) (le_waiters s) = prune_inactive (le_heap s) (le_waiters s)"
    using r(5) by (intro same_waiting_prune) (simp add: same_waiting_def)
  from le_wait_again_ok [OF ok, of st "k w"] r pr assms show ?thesis
    unfolding le_client_def same_waiting_def by (auto simp: le_set_ok_def)
qed

interpretation le_clients: calm_clients le_get le_put "le_client stopped k" ew_trace le_set_ok for stopped k
  by unfold_locales (auto simp: le_get_def le_put_def le_client_ok, auto simp: le_set_ok_def)

text \<open>
  \<open>set\<close> of the local event returns and resumes every waiting client exactly once, in order,
  even when the clients wait again at once, with tokens stopped or not: the event is signalled
  before the loop starts, so they pass.
\<close>
theorem le_set_wakes:
  assumes "distinct (le_waiters s)" and "\<forall>v\<in>set (le_waiters s). v < ew_next s" and "length (le_waiters s) < n"
    and "\<forall>w\<in>set (live (le_heap s) (le_waiters s)). w_continuation (le_heap s w)"
  shows "\<exists>s'. le_set (le_client stopped k) True n s = Some (Inr (), s') \<and> le_is_set True s' = Inr True \<and>
    le_waiters s' = [] \<and> ew_trace s' = ew_trace s @ live (le_heap s) (le_waiters s)"
proof -
  have ok: "le_set_ok (s\<lparr>le_signaled := True\<rparr>)" using assms(2) by (simp add: le_set_ok_def)
  from le_clients.wake_all_calm [OF ok, of "le_heap s" "le_waiters s" n stopped k] assms
  obtain s' h' where "wake_all le_get le_put (le_client stopped k) n (s\<lparr>le_signaled := True\<rparr>) = Some s'"
    "le_set_ok s'" "ew_trace s' = ew_trace s @ live (le_heap s) (le_waiters s)" "le_get s' = (h', [])"
    by (auto simp: le_get_def)
  then show ?thesis
    by (auto simp: le_set_def require_runtime_thread_def le_get_def le_is_set_def le_set_ok_def)
qed

theorem le_set_wakes_witness:
  "\<exists>s'. le_set (le_client True (\<lambda>_. 2)) True 3
       \<lparr>le_signaled = False, le_waiters = [1, 0], le_heap = (\<lambda>_. new_waiter\<lparr>w_continuation := True\<rparr>),
        ew_rt = new_runtime, ew_trace = [], ew_next = 2\<rparr> = Some (Inr (), s') \<and> ew_trace s' = [1, 0]"
proof -
  let ?s = "\<lparr>le_signaled = False, le_waiters = [1, 0], le_heap = (\<lambda>_. new_waiter\<lparr>w_continuation := True\<rparr>),
        ew_rt = new_runtime, ew_trace = [], ew_next = 2\<rparr>"
  have "distinct (le_waiters ?s)" "\<forall>v\<in>set (le_waiters ?s). v < ew_next ?s" "length (le_waiters ?s) < 3"
    "\<forall>w\<in>set (live (le_heap ?s) (le_waiters ?s)). w_continuation (le_heap ?s w)" by simp_all
  from le_set_wakes [OF this, of True "\<lambda>_. 2"] show ?thesis by (auto simp: new_waiter_def)
qed

end
