(* ===== verification/Channel.thy ===== *)
theory Channel
  imports Waiters
begin

text \<open>
  \<open>message_channel\<close> of \<open>include/luvcoro/message.hpp\<close>: a FIFO of messages of a type \<open>'a\<close> with
  coroutines (and threads) waiting on both ends. Waiters are numbered and live in two heaps.
  This theory holds the state and the functions that run under the channel's lock; the
  operations built on them are in \<open>Channel_Ops\<close>.
\<close>

section \<open>State\<close>

record 'a receiver_waiter =
  rw_continuation :: bool
  rw_value :: "'a option"
  rw_exception :: "exn option"
  rw_active :: bool
  rw_completed :: bool
  rw_timed_out :: bool
  rw_timer :: "nat option"

record 'a sender_waiter =
  sd_continuation :: bool
  sd_value :: "'a option"
  sd_exception :: "exn option"
  sd_active :: bool
  sd_completed :: bool

definition new_receiver :: "'a receiver_waiter" where
  "new_receiver = \<lparr>rw_continuation = False, rw_value = None, rw_exception = None, rw_active = True,
     rw_completed = False, rw_timed_out = False, rw_timer = None\<rparr>"

definition new_sender :: "'a \<Rightarrow> 'a sender_waiter" where
  "new_sender v = \<lparr>sd_continuation = False, sd_value = Some v, sd_exception = None, sd_active = True,
     sd_completed = False\<rparr>"

record 'a channel =
  ch_capacity :: nat
  ch_messages :: "'a list"
  ch_receiver_waiters :: "nat list"
  ch_sender_waiters :: "nat list"
  ch_ready_receivers :: "nat list"
  ch_ready_senders :: "nat list"
  ch_closed :: bool
  ch_handle_initialized :: bool
  ch_handle_closing :: bool
  ch_receivers :: "nat \<Rightarrow> 'a receiver_waiter"
  ch_senders :: "nat \<Rightarrow> 'a sender_waiter"

definition new_channel :: "nat \<Rightarrow> 'a channel" where
  "new_channel capacity = \<lparr>ch_capacity = capacity, ch_messages = [], ch_receiver_waiters = [],
     ch_sender_waiters = [], ch_ready_receivers = [], ch_ready_senders = [], ch_closed = False,
     ch_handle_initialized = True, ch_handle_closing = False, ch_receivers = (\<lambda>_. new_receiver),
     ch_senders = (\<lambda>_. undefined)\<rparr>"

text \<open>What a locked section asks to be done after unlocking.\<close>

record effects =
  fx_wake_loop :: bool
  fx_notify_blocked_senders :: bool
  fx_timers_to_cancel :: "nat list"

definition no_effects :: effects where
  "no_effects = \<lparr>fx_wake_loop = False, fx_notify_blocked_senders = False, fx_timers_to_cancel = []\<rparr>"

type_synonym 'a locked = "'a channel \<times> effects"

section \<open>Under the lock\<close>

fun prune_waiters :: "(nat \<Rightarrow> bool) \<Rightarrow> nat list \<Rightarrow> nat list" where
  "prune_waiters active [] = []"
| "prune_waiters active (w # ws) = (if \<not> active w then prune_waiters active ws else w # ws)"

definition pruned_receivers :: "'a channel \<Rightarrow> nat list" where
  "pruned_receivers ch = prune_waiters (\<lambda>w. rw_active (ch_receivers ch w)) (ch_receiver_waiters ch)"

definition pruned_senders :: "'a channel \<Rightarrow> nat list" where
  "pruned_senders ch = prune_waiters (\<lambda>w. sd_active (ch_senders ch w)) (ch_sender_waiters ch)"

definition pop_receiver_waiter_locked :: "'a channel \<Rightarrow> nat option \<times> 'a channel" where
  "pop_receiver_waiter_locked ch =
     (case pruned_receivers ch of
        [] \<Rightarrow> (None, ch\<lparr>ch_receiver_waiters := []\<rparr>)
      | w # ws \<Rightarrow> (Some w, ch\<lparr>ch_receiver_waiters := ws\<rparr>))"

definition pop_sender_waiter_locked :: "'a channel \<Rightarrow> nat option \<times> 'a channel" where
  "pop_sender_waiter_locked ch =
     (case pruned_senders ch of
        [] \<Rightarrow> (None, ch\<lparr>ch_sender_waiters := []\<rparr>)
      | w # ws \<Rightarrow> (Some w, ch\<lparr>ch_sender_waiters := ws\<rparr>))"

definition has_waiting_receivers_locked :: "'a channel \<Rightarrow> bool \<times> 'a channel" where
  "has_waiting_receivers_locked ch =
     (let ch = ch\<lparr>ch_receiver_waiters := pruned_receivers ch\<rparr> in (ch_receiver_waiters ch \<noteq> [], ch))"

definition has_waiting_senders_locked :: "'a channel \<Rightarrow> bool \<times> 'a channel" where
  "has_waiting_senders_locked ch =
     (let ch = ch\<lparr>ch_sender_waiters := pruned_senders ch\<rparr> in (ch_sender_waiters ch \<noteq> [], ch))"

definition has_buffer_capacity_locked :: "'a channel \<Rightarrow> bool" where
  "has_buffer_capacity_locked ch \<longleftrightarrow> ch_capacity ch = 0 \<or> length (ch_messages ch) < ch_capacity ch"

definition can_send_now_locked :: "'a channel \<Rightarrow> bool \<times> 'a channel" where
  "can_send_now_locked ch =
     (if ch_closed ch \<or> ch_handle_closing ch then (False, ch)
      else (case has_waiting_senders_locked ch of
              (True, ch) \<Rightarrow> (False, ch)
            | (False, ch) \<Rightarrow>
                (case has_waiting_receivers_locked ch of
                   (True, ch) \<Rightarrow> (True, ch)
                 | (False, ch) \<Rightarrow> (has_buffer_capacity_locked ch, ch))))"

text \<open>Completing a receiver: its timer is handed over for cancellation, a suspended one is ready.\<close>

definition complete_receiver :: "('a receiver_waiter \<Rightarrow> 'a receiver_waiter) \<Rightarrow> nat \<Rightarrow> 'a locked \<Rightarrow> 'a locked" where
  "complete_receiver set_result w cf =
     (let x = set_result ((ch_receivers (fst cf) w)\<lparr>rw_active := False, rw_completed := True\<rparr>);
          fx = (case rw_timer x of
                  None \<Rightarrow> snd cf
                | Some t \<Rightarrow> (snd cf)\<lparr>fx_timers_to_cancel := fx_timers_to_cancel (snd cf) @ [t]\<rparr>);
          ch = (fst cf)\<lparr>ch_receivers := (ch_receivers (fst cf))(w := x\<lparr>rw_timer := None\<rparr>)\<rparr>
      in (if rw_continuation x then ch\<lparr>ch_ready_receivers := ch_ready_receivers ch @ [w]\<rparr> else ch, fx))"

definition complete_receiver_value_locked :: "nat \<Rightarrow> 'a \<Rightarrow> 'a locked \<Rightarrow> 'a locked" where
  "complete_receiver_value_locked w v =
     complete_receiver (\<lambda>x. x\<lparr>rw_timed_out := False, rw_value := Some v\<rparr>) w"

definition complete_receiver_exception_locked :: "nat \<Rightarrow> exn \<Rightarrow> 'a locked \<Rightarrow> 'a locked" where
  "complete_receiver_exception_locked w e = complete_receiver (\<lambda>x. x\<lparr>rw_exception := Some e\<rparr>) w"

definition complete_sender :: "('a sender_waiter \<Rightarrow> 'a sender_waiter) \<Rightarrow> nat \<Rightarrow> 'a channel \<Rightarrow> 'a channel" where
  "complete_sender set_result w ch =
     (let x = set_result ((ch_senders ch w)\<lparr>sd_active := False, sd_completed := True\<rparr>);
          ch = ch\<lparr>ch_senders := (ch_senders ch)(w := x)\<rparr>
      in if sd_continuation x then ch\<lparr>ch_ready_senders := ch_ready_senders ch @ [w]\<rparr> else ch)"

definition complete_sender_locked :: "nat \<Rightarrow> 'a channel \<Rightarrow> 'a channel" where
  "complete_sender_locked = complete_sender (\<lambda>x. x)"

definition complete_sender_exception_locked :: "nat \<Rightarrow> exn \<Rightarrow> 'a channel \<Rightarrow> 'a channel" where
  "complete_sender_exception_locked w e = complete_sender (\<lambda>x. x\<lparr>sd_exception := Some e\<rparr>) w"

text \<open>Moving the value out of a sender.\<close>

definition take_sender_value :: "nat \<Rightarrow> 'a channel \<Rightarrow> 'a \<times> 'a channel" where
  "take_sender_value w ch =
     (the (sd_value (ch_senders ch w)),
      ch\<lparr>ch_senders := (ch_senders ch)(w := (ch_senders ch w)\<lparr>sd_value := None\<rparr>)\<rparr>)"

definition place_send_locked :: "'a \<Rightarrow> 'a locked \<Rightarrow> 'a locked" where
  "place_send_locked v cf =
     (case pop_receiver_waiter_locked (fst cf) of
        (Some w, ch) \<Rightarrow>
          (case complete_receiver_value_locked w v (ch, snd cf) of (ch', fx) \<Rightarrow> (ch', fx\<lparr>fx_wake_loop := True\<rparr>))
      | (None, ch) \<Rightarrow> (ch\<lparr>ch_messages := ch_messages ch @ [v]\<rparr>, snd cf))"

lemma length_prune_waiters: "length (prune_waiters active ws) \<le> length ws"
  by (induction ws) auto

text \<open>The first loop of \<open>pump_locked\<close>: waiting receivers are served from the buffer, then from the senders.\<close>

function pump_receivers :: "'a locked \<Rightarrow> 'a locked" where
  "pump_receivers cf =
     (case pruned_receivers (fst cf) of
        [] \<Rightarrow> ((fst cf)\<lparr>ch_receiver_waiters := []\<rparr>, snd cf)
      | w # ws \<Rightarrow>
          (let ch = (fst cf)\<lparr>ch_receiver_waiters := ws\<rparr> in
           case ch_messages ch of
             v # vs \<Rightarrow>
               (case complete_receiver_value_locked w v (ch\<lparr>ch_messages := vs\<rparr>, snd cf) of
                  (ch', fx) \<Rightarrow> pump_receivers (ch', fx\<lparr>fx_wake_loop := True, fx_notify_blocked_senders := True\<rparr>))
           | [] \<Rightarrow>
               (case pop_sender_waiter_locked ch of
                  (Some s, ch) \<Rightarrow>
                    (case take_sender_value s ch of (v, ch) \<Rightarrow>
                       (case complete_receiver_value_locked w v (ch, snd cf) of
                          (ch', fx) \<Rightarrow> pump_receivers (complete_sender_locked s ch', fx\<lparr>fx_wake_loop := True\<rparr>)))
                | (None, ch) \<Rightarrow> (ch\<lparr>ch_receiver_waiters := w # ch_receiver_waiters ch\<rparr>, snd cf))))"
  by pat_completeness auto

lemma complete_receiver_keeps [simp]:
  "ch_receiver_waiters (fst (complete_receiver f w cf)) = ch_receiver_waiters (fst cf)"
  "ch_sender_waiters (fst (complete_receiver f w cf)) = ch_sender_waiters (fst cf)"
  "ch_messages (fst (complete_receiver f w cf)) = ch_messages (fst cf)"
  "ch_senders (fst (complete_receiver f w cf)) = ch_senders (fst cf)"
  "ch_capacity (fst (complete_receiver f w cf)) = ch_capacity (fst cf)"
  "ch_closed (fst (complete_receiver f w cf)) = ch_closed (fst cf)"
  "ch_handle_closing (fst (complete_receiver f w cf)) = ch_handle_closing (fst cf)"
  "ch_handle_initialized (fst (complete_receiver f w cf)) = ch_handle_initialized (fst cf)"
  "ch_ready_senders (fst (complete_receiver f w cf)) = ch_ready_senders (fst cf)"
  by (simp_all add: complete_receiver_def Let_def)

lemma complete_sender_keeps [simp]:
  "ch_receiver_waiters (complete_sender f w ch) = ch_receiver_waiters ch"
  "ch_sender_waiters (complete_sender f w ch) = ch_sender_waiters ch"
  "ch_messages (complete_sender f w ch) = ch_messages ch"
  "ch_receivers (complete_sender f w ch) = ch_receivers ch"
  "ch_capacity (complete_sender f w ch) = ch_capacity ch"
  "ch_closed (complete_sender f w ch) = ch_closed ch"
  "ch_handle_closing (complete_sender f w ch) = ch_handle_closing ch"
  "ch_handle_initialized (complete_sender f w ch) = ch_handle_initialized ch"
  "ch_ready_receivers (complete_sender f w ch) = ch_ready_receivers ch"
  by (simp_all add: complete_sender_def Let_def)

lemma pop_sender_receivers:
  "pop_sender_waiter_locked ch = (r, ch') \<Longrightarrow> ch_receiver_waiters ch' = ch_receiver_waiters ch"
  by (auto simp: pop_sender_waiter_locked_def split: list.splits)

lemma take_sender_value_receivers:
  "take_sender_value s ch = (v, ch') \<Longrightarrow> ch_receiver_waiters ch' = ch_receiver_waiters ch"
  by (auto simp: take_sender_value_def)

lemma complete_receiver_value_pair:
  "complete_receiver_value_locked w v cf = (ch', fx) \<Longrightarrow> ch_receiver_waiters ch' = ch_receiver_waiters (fst cf)"
  unfolding complete_receiver_value_locked_def by (metis complete_receiver_keeps(1) fst_conv)

lemma pruned_receivers_Cons_length:
  "pruned_receivers ch = w # ws \<Longrightarrow> length ws < length (ch_receiver_waiters ch)"
  using length_prune_waiters [of "\<lambda>w. rw_active (ch_receivers ch w)" "ch_receiver_waiters ch"]
  by (simp add: pruned_receivers_def)

termination pump_receivers
  by (relation "measure (\<lambda>cf. length (ch_receiver_waiters (fst cf)))")
    (auto dest!: complete_receiver_value_pair [OF sym] pop_sender_receivers [OF sym]
       take_sender_value_receivers [OF sym] pruned_receivers_Cons_length simp: complete_sender_locked_def)

declare pump_receivers.simps [simp del]

text \<open>The second loop: blocked senders fill the buffer.\<close>

function pump_senders :: "'a locked \<Rightarrow> 'a locked" where
  "pump_senders cf =
     (if has_buffer_capacity_locked (fst cf)
      then (case pruned_senders (fst cf) of
              [] \<Rightarrow> ((fst cf)\<lparr>ch_sender_waiters := []\<rparr>, snd cf)
            | s # ws \<Rightarrow>
                (case take_sender_value s ((fst cf)\<lparr>ch_sender_waiters := ws\<rparr>) of
                   (v, ch) \<Rightarrow>
                     pump_senders (complete_sender_locked s (ch\<lparr>ch_messages := ch_messages ch @ [v]\<rparr>),
                       (snd cf)\<lparr>fx_wake_loop := True\<rparr>)))
      else cf)"
  by pat_completeness auto

lemma pruned_senders_Cons_length:
  "pruned_senders ch = w # ws \<Longrightarrow> length ws < length (ch_sender_waiters ch)"
  using length_prune_waiters [of "\<lambda>w. sd_active (ch_senders ch w)" "ch_sender_waiters ch"]
  by (simp add: pruned_senders_def)

termination pump_senders
  by (relation "measure (\<lambda>cf. length (ch_sender_waiters (fst cf)))")
    (auto simp: complete_sender_locked_def take_sender_value_def dest!: pruned_senders_Cons_length)

declare pump_senders.simps [simp del]

definition pump_locked :: "'a locked \<Rightarrow> 'a locked" where
  "pump_locked cf = pump_senders (pump_receivers cf)"

definition try_recv_locked :: "nat \<Rightarrow> 'a locked \<Rightarrow> bool \<times> 'a locked" where
  "try_recv_locked w cf =
     (case ch_messages (fst cf) of
        v # vs \<Rightarrow>
          (case pump_locked (complete_receiver_value_locked w v ((fst cf)\<lparr>ch_messages := vs\<rparr>, snd cf)) of
             (ch, fx) \<Rightarrow> (True, ch, fx\<lparr>fx_notify_blocked_senders := True\<rparr>))
      | [] \<Rightarrow>
          (case pop_sender_waiter_locked (fst cf) of
             (Some s, ch) \<Rightarrow>
               (case take_sender_value s ch of (v, ch) \<Rightarrow>
                  (case complete_receiver_value_locked w v (ch, snd cf) of
                     (ch', fx) \<Rightarrow> (True, complete_sender_locked s ch', fx\<lparr>fx_wake_loop := True\<rparr>)))
           | (None, ch) \<Rightarrow>
               if ch_closed ch \<or> ch_handle_closing ch
               then (True, complete_receiver_exception_locked w Closed_error (ch, snd cf))
               else (False, ch, snd cf)))"

section \<open>The two queues of waiters\<close>

definition live_receivers :: "'a channel \<Rightarrow> nat list" where
  "live_receivers ch = filter (\<lambda>w. rw_active (ch_receivers ch w)) (ch_receiver_waiters ch)"

definition live_senders :: "'a channel \<Rightarrow> nat list" where
  "live_senders ch = filter (\<lambda>w. sd_active (ch_senders ch w)) (ch_sender_waiters ch)"

lemma prune_waiters_filter [simp]: "filter P (prune_waiters P ws) = filter P ws"
  by (induction ws) auto

lemma prune_waiters_Nil [simp]: "prune_waiters P ws = [] \<longleftrightarrow> filter P ws = []"
  by (induction ws) auto

lemma prune_waiters_ConsD:
  "prune_waiters P ws = v # vs \<Longrightarrow> P v \<and> filter P ws = v # filter P vs \<and> set (v # vs) \<subseteq> set ws"
  by (induction ws) (auto split: if_splits)

lemma set_prune_waiters: "set (prune_waiters P ws) \<subseteq> set ws"
  by (induction ws) auto

lemma distinct_prune_waiters: "distinct ws \<Longrightarrow> distinct (prune_waiters P ws)"
  by (induction ws) auto

text \<open>Popping is that of a wake-up queue, on both sides.\<close>

definition some_popped :: "nat option \<times> 's \<Rightarrow> (nat \<times> 's) option" where
  "some_popped r = map_option (\<lambda>w. (w, snd r)) (fst r)"

interpretation receiver_queue: wakeup_queue "\<lambda>ch. some_popped (pop_receiver_waiter_locked ch)" live_receivers "\<lambda>ch. True"
  by unfold_locales
    (auto simp: some_popped_def pop_receiver_waiter_locked_def pruned_receivers_def live_receivers_def
      split: list.splits dest!: prune_waiters_ConsD)

interpretation sender_queue: wakeup_queue "\<lambda>ch. some_popped (pop_sender_waiter_locked ch)" live_senders "\<lambda>ch. True"
  by unfold_locales
    (auto simp: some_popped_def pop_sender_waiter_locked_def pruned_senders_def live_senders_def
      split: list.splits dest!: prune_waiters_ConsD)

lemma pop_receiver_cases:
  obtains (none) "live_receivers ch = []" "pop_receiver_waiter_locked ch = (None, ch\<lparr>ch_receiver_waiters := []\<rparr>)"
  | (some) w ws where "live_receivers ch = w # live_receivers (ch\<lparr>ch_receiver_waiters := ws\<rparr>)"
      "pop_receiver_waiter_locked ch = (Some w, ch\<lparr>ch_receiver_waiters := ws\<rparr>)" "pruned_receivers ch = w # ws"
proof (cases "pruned_receivers ch")
  case Nil
  then have "live_receivers ch = []" by (simp add: pruned_receivers_def live_receivers_def)
  with Nil none show thesis by (simp add: pop_receiver_waiter_locked_def)
next
  case (Cons w ws)
  then have "live_receivers ch = w # live_receivers (ch\<lparr>ch_receiver_waiters := ws\<rparr>)"
    by (auto simp: pruned_receivers_def live_receivers_def dest: prune_waiters_ConsD)
  with Cons some show thesis by (simp add: pop_receiver_waiter_locked_def)
qed

lemma pop_sender_cases:
  obtains (none) "live_senders ch = []" "pop_sender_waiter_locked ch = (None, ch\<lparr>ch_sender_waiters := []\<rparr>)"
  | (some) w ws where "live_senders ch = w # live_senders (ch\<lparr>ch_sender_waiters := ws\<rparr>)"
      "pop_sender_waiter_locked ch = (Some w, ch\<lparr>ch_sender_waiters := ws\<rparr>)" "pruned_senders ch = w # ws"
proof (cases "pruned_senders ch")
  case Nil
  then have "live_senders ch = []" by (simp add: pruned_senders_def live_senders_def)
  with Nil none show thesis by (simp add: pop_sender_waiter_locked_def)
next
  case (Cons w ws)
  then have "live_senders ch = w # live_senders (ch\<lparr>ch_sender_waiters := ws\<rparr>)"
    by (auto simp: pruned_senders_def live_senders_def dest: prune_waiters_ConsD)
  with Cons some show thesis by (simp add: pop_sender_waiter_locked_def)
qed

section \<open>Contents and invariant\<close>

text \<open>
  The messages in the channel, in order: the buffer, then what the blocked senders hold.
\<close>

definition sender_value :: "'a channel \<Rightarrow> nat \<Rightarrow> 'a" where
  "sender_value ch s = the (sd_value (ch_senders ch s))"

definition content :: "'a channel \<Rightarrow> 'a list" where
  "content ch = ch_messages ch @ map (sender_value ch) (live_senders ch)"

definition ch_waiters_ok :: "'a channel \<Rightarrow> bool" where
  "ch_waiters_ok ch \<longleftrightarrow> distinct (ch_receiver_waiters ch) \<and> distinct (ch_sender_waiters ch) \<and>
     (\<forall>s\<in>set (live_senders ch). sd_value (ch_senders ch s) \<noteq> None \<and> \<not> sd_completed (ch_senders ch s)) \<and>
     (\<forall>w\<in>set (live_receivers ch). rw_value (ch_receivers ch w) = None \<and>
        rw_exception (ch_receivers ch w) = None \<and> \<not> rw_completed (ch_receivers ch w))"

definition ch_inv :: "'a channel \<Rightarrow> bool" where
  "ch_inv ch \<longleftrightarrow> ch_waiters_ok ch \<and> ch_handle_initialized ch \<and> (ch_handle_closing ch \<longleftrightarrow> ch_closed ch) \<and>
     (live_receivers ch \<noteq> [] \<longrightarrow> content ch = [] \<and> \<not> ch_closed ch) \<and>
     (live_senders ch \<noteq> [] \<longrightarrow> \<not> has_buffer_capacity_locked ch \<and> \<not> ch_closed ch) \<and>
     (ch_capacity ch \<noteq> 0 \<longrightarrow> length (ch_messages ch) \<le> ch_capacity ch)"

lemma live_senders_complete [simp]:
  "live_senders (complete_sender f s ch) =
     filter (\<lambda>v. (v = s \<longrightarrow> sd_active (f ((ch_senders ch s)\<lparr>sd_active := False, sd_completed := True\<rparr>))) \<and> (v \<noteq> s \<longrightarrow> sd_active (ch_senders ch v)))
       (ch_sender_waiters ch)"
  by (auto simp: live_senders_def complete_sender_def Let_def intro!: filter_cong)

text \<open>Moving the oldest blocked sender's message into the buffer.\<close>

definition admit_sender :: "nat \<Rightarrow> nat list \<Rightarrow> 'a channel \<Rightarrow> 'a channel" where
  "admit_sender s ws ch =
     (case take_sender_value s (ch\<lparr>ch_sender_waiters := ws\<rparr>) of
        (v, ch') \<Rightarrow> complete_sender_locked s (ch'\<lparr>ch_messages := ch_messages ch' @ [v]\<rparr>))"

lemma pruned_senders_ConsD:
  "pruned_senders ch = s # ws \<Longrightarrow> live_senders ch = s # filter (\<lambda>w. sd_active (ch_senders ch w)) ws \<and>
     set (s # ws) \<subseteq> set (ch_sender_waiters ch) \<and> (distinct (ch_sender_waiters ch) \<longrightarrow> distinct (s # ws))"
  unfolding pruned_senders_def live_senders_def
  using prune_waiters_ConsD distinct_prune_waiters by metis

lemma admit_sender_spec:
  assumes "ch_waiters_ok ch" and "pruned_senders ch = s # ws"
  shows "ch_waiters_ok (admit_sender s ws ch) \<and> content (admit_sender s ws ch) = content ch \<and>
    live_senders ch = s # live_senders (admit_sender s ws ch) \<and>
    ch_receiver_waiters (admit_sender s ws ch) = ch_receiver_waiters ch \<and>
    ch_receivers (admit_sender s ws ch) = ch_receivers ch \<and>
    ch_messages (admit_sender s ws ch) = ch_messages ch @ [sender_value ch s]"
proof -
  from pruned_senders_ConsD [OF assms(2)] assms(1)
  have l: "live_senders ch = s # filter (\<lambda>w. sd_active (ch_senders ch w)) ws" and d: "s \<notin> set ws" "distinct ws"
    by (auto simp: ch_waiters_ok_def)
  let ?a = "admit_sender s ws ch"
  have la: "live_senders ?a = filter (\<lambda>w. sd_active (ch_senders ch w)) ws"
    using d by (auto simp: admit_sender_def take_sender_value_def complete_sender_locked_def intro!: filter_cong)
  have m: "ch_messages ?a = ch_messages ch @ [sender_value ch s]"
    by (simp add: admit_sender_def take_sender_value_def complete_sender_locked_def sender_value_def)
  have sv: "ch_senders ?a v = ch_senders ch v" if "v \<noteq> s" for v
    using that by (auto simp: admit_sender_def take_sender_value_def complete_sender_locked_def complete_sender_def Let_def)
  have "sender_value ?a v = sender_value ch v" if "v \<in> set (live_senders ?a)" for v
  proof -
    from that la have "v \<in> set ws" by simp
    with d have "v \<noteq> s" by auto
    with sv show ?thesis by (simp add: sender_value_def)
  qed
  then have "map (sender_value ?a) (live_senders ?a) = map (sender_value ch) (live_senders ?a)"
    by simp
  then have c: "content ?a = content ch" using m la l by (simp add: content_def)
  have r: "ch_receiver_waiters ?a = ch_receiver_waiters ch" "ch_receivers ?a = ch_receivers ch" "ch_sender_waiters ?a = ws"
    by (simp_all add: admit_sender_def take_sender_value_def complete_sender_locked_def)
  have "live_receivers ?a = live_receivers ch" using r by (simp add: live_receivers_def)
  moreover have "ch_senders ?a v = ch_senders ch v" if "v \<in> set (live_senders ?a)" for v
    using that la d sv by (metis filter_is_subset subsetD)
  ultimately have "ch_waiters_ok ?a"
    using assms(1) r la l d unfolding ch_waiters_ok_def by simp
  with c la l r m show ?thesis by simp
qed

lemma pump_senders_unfold:
  "pump_senders cf =
     (if has_buffer_capacity_locked (fst cf)
      then (case pruned_senders (fst cf) of
              [] \<Rightarrow> ((fst cf)\<lparr>ch_sender_waiters := []\<rparr>, snd cf)
            | s # ws \<Rightarrow> pump_senders (admit_sender s ws (fst cf), (snd cf)\<lparr>fx_wake_loop := True\<rparr>))
      else cf)"
proof (cases "has_buffer_capacity_locked (fst cf)")
  case True
  show ?thesis
  proof (cases "pruned_senders (fst cf)")
    case Nil
    show ?thesis by (rule trans [OF pump_senders.simps]) (simp only: True Nil if_True list.case)
  next
    case (Cons s ws)
    obtain v ch where t: "take_sender_value s ((fst cf)\<lparr>ch_sender_waiters := ws\<rparr>) = (v, ch)" by fastforce
    show ?thesis
      by (rule trans [OF pump_senders.simps]) (simp only: True Cons t if_True list.case prod.case admit_sender_def)
  qed
next
  case False
  show ?thesis by (rule trans [OF pump_senders.simps]) (simp only: False if_False)
qed

lemma admit_sender_keeps [simp]:
  "ch_capacity (admit_sender s ws ch) = ch_capacity ch" "ch_closed (admit_sender s ws ch) = ch_closed ch"
  "ch_handle_closing (admit_sender s ws ch) = ch_handle_closing ch"
  "ch_handle_initialized (admit_sender s ws ch) = ch_handle_initialized ch"
  "ch_receiver_waiters (admit_sender s ws ch) = ch_receiver_waiters ch"
  "ch_receivers (admit_sender s ws ch) = ch_receivers ch"
  "ch_sender_waiters (admit_sender s ws ch) = ws"
  "ch_ready_receivers (admit_sender s ws ch) = ch_ready_receivers ch"
  by (simp_all add: admit_sender_def take_sender_value_def complete_sender_locked_def)

lemma pump_senders_spec:
  assumes "ch_waiters_ok (fst cf)" and "ch_capacity (fst cf) \<noteq> 0 \<longrightarrow> length (ch_messages (fst cf)) \<le> ch_capacity (fst cf)"
  shows "ch_waiters_ok (fst (pump_senders cf)) \<and> content (fst (pump_senders cf)) = content (fst cf) \<and>
    ch_receiver_waiters (fst (pump_senders cf)) = ch_receiver_waiters (fst cf) \<and>
    ch_receivers (fst (pump_senders cf)) = ch_receivers (fst cf) \<and>
    ch_ready_receivers (fst (pump_senders cf)) = ch_ready_receivers (fst cf) \<and>
    ch_capacity (fst (pump_senders cf)) = ch_capacity (fst cf) \<and>
    ch_closed (fst (pump_senders cf)) = ch_closed (fst cf) \<and>
    ch_handle_closing (fst (pump_senders cf)) = ch_handle_closing (fst cf) \<and>
    ch_handle_initialized (fst (pump_senders cf)) = ch_handle_initialized (fst cf) \<and>
    (live_senders (fst (pump_senders cf)) \<noteq> [] \<longrightarrow> \<not> has_buffer_capacity_locked (fst (pump_senders cf))) \<and>
    set (live_senders (fst (pump_senders cf))) \<subseteq> set (live_senders (fst cf)) \<and>
    (ch_capacity (fst cf) \<noteq> 0 \<longrightarrow> length (ch_messages (fst (pump_senders cf))) \<le> ch_capacity (fst cf)) \<and>
    fx_notify_blocked_senders (snd (pump_senders cf)) = fx_notify_blocked_senders (snd cf) \<and>
    (fx_wake_loop (snd cf) \<or> live_senders (fst (pump_senders cf)) \<noteq> live_senders (fst cf) \<longrightarrow> fx_wake_loop (snd (pump_senders cf)))"
  using assms
proof (induction cf rule: pump_senders.induct)
  case (1 cf)
  show ?case
  proof (cases "has_buffer_capacity_locked (fst cf)")
    case False
    with 1 show ?thesis by (simp add: pump_senders_unfold [of cf])
  next
    case True
    show ?thesis
    proof (cases "pruned_senders (fst cf)")
      case Nil
      then have "live_senders (fst cf) = []" by (simp add: pruned_senders_def live_senders_def)
      moreover have "live_senders ((fst cf)\<lparr>ch_sender_waiters := []\<rparr>) = []" by (simp add: live_senders_def)
      moreover have "live_receivers ((fst cf)\<lparr>ch_sender_waiters := []\<rparr>) = live_receivers (fst cf)" by (simp add: live_receivers_def)
      ultimately show ?thesis using 1 True Nil
        by (simp add: pump_senders_unfold [of cf] ch_waiters_ok_def content_def)
    next
      case (Cons s ws)
      note a = admit_sender_spec [OF 1(2) Cons]
      let ?cf = "(admit_sender s ws (fst cf), (snd cf)\<lparr>fx_wake_loop := True\<rparr>)"
      have eq: "pump_senders cf = pump_senders ?cf" using True Cons by (simp add: pump_senders_unfold [of cf])
      have len: "ch_capacity (fst ?cf) \<noteq> 0 \<longrightarrow> length (ch_messages (fst ?cf)) \<le> ch_capacity (fst ?cf)"
        using a True by (auto simp: has_buffer_capacity_locked_def)
      obtain x y where t: "take_sender_value s ((fst cf)\<lparr>ch_sender_waiters := ws\<rparr>) = (x, y)" by fastforce
      have q: "?cf = (complete_sender_locked s (y\<lparr>ch_messages := ch_messages y @ [x]\<rparr>), (snd cf)\<lparr>fx_wake_loop := True\<rparr>)"
        using t by (simp add: admit_sender_def)
      have ok: "ch_waiters_ok (fst ?cf)" using a by simp
      have ih: "ch_waiters_ok (fst (pump_senders ?cf)) \<and> content (fst (pump_senders ?cf)) = content (fst ?cf) \<and>
        ch_receiver_waiters (fst (pump_senders ?cf)) = ch_receiver_waiters (fst ?cf) \<and>
        ch_receivers (fst (pump_senders ?cf)) = ch_receivers (fst ?cf) \<and>
        ch_ready_receivers (fst (pump_senders ?cf)) = ch_ready_receivers (fst ?cf) \<and>
        ch_capacity (fst (pump_senders ?cf)) = ch_capacity (fst ?cf) \<and>
        ch_closed (fst (pump_senders ?cf)) = ch_closed (fst ?cf) \<and>
        ch_handle_closing (fst (pump_senders ?cf)) = ch_handle_closing (fst ?cf) \<and>
        ch_handle_initialized (fst (pump_senders ?cf)) = ch_handle_initialized (fst ?cf) \<and>
        (live_senders (fst (pump_senders ?cf)) \<noteq> [] \<longrightarrow> \<not> has_buffer_capacity_locked (fst (pump_senders ?cf))) \<and>
        set (live_senders (fst (pump_senders ?cf))) \<subseteq> set (live_senders (fst ?cf)) \<and>
        (ch_capacity (fst ?cf) \<noteq> 0 \<longrightarrow> length (ch_messages (fst (pump_senders ?cf))) \<le> ch_capacity (fst ?cf)) \<and>
        fx_notify_blocked_senders (snd (pump_senders ?cf)) = fx_notify_blocked_senders (snd ?cf) \<and>
        (fx_wake_loop (snd ?cf) \<or> live_senders (fst (pump_senders ?cf)) \<noteq> live_senders (fst ?cf) \<longrightarrow> fx_wake_loop (snd (pump_senders ?cf)))"
        using 1(1) [OF True Cons t [symmetric]] ok len unfolding q by blast
      with a show ?thesis unfolding eq by auto
    qed
  qed
qed


end
