(* ===== verification/Channel_Ops.thy ===== *)
theory Channel_Ops
  imports Channel
begin

text \<open>
  The operations of \<open>message_channel\<close>: what the public functions and the awaiters do around the
  locked sections of \<open>Channel\<close>, the wake-up of ready waiters and the timers of \<open>recv_for\<close>.
\<close>

section \<open>The world of a channel\<close>

text \<open>The jobs the channel posts to its runtime.\<close>

datatype chan_job = Cj_timer_start nat int | Cj_timer_cancel nat | Cj_close

record channel_timer =
  ct_waiter :: nat
  ct_handle :: bool
  ct_canceled :: bool
  ct_closing :: bool

datatype resumed = Receiver nat | Sender nat

text \<open>
  Besides the channel: the runtime, whether the channel's own \<open>uv_async_t\<close> is open and pending and
  what \<open>uv_async_send\<close> answers for it, the timers, the coroutines resumed so far, and how often
  \<open>send_cv\<close> was notified.
\<close>

record 'a chan_world =
  cw_ch :: "'a channel"
  cw_rt :: "chan_job uv_runtime"
  cw_async_open :: bool
  cw_async_pending :: bool
  cw_async_rc :: uv_status
  cw_timers :: "nat \<Rightarrow> channel_timer"
  cw_resumed :: "resumed list"
  cw_cv_notified :: nat

definition new_chan_world :: "nat \<Rightarrow> 'a chan_world" where
  "new_chan_world capacity = \<lparr>cw_ch = new_channel capacity, cw_rt = new_runtime, cw_async_open = True,
     cw_async_pending = False, cw_async_rc = Uv_ok,
     cw_timers = (\<lambda>_. \<lparr>ct_waiter = 0, ct_handle = False, ct_canceled = False, ct_closing = False\<rparr>),
     cw_resumed = [], cw_cv_notified = 0\<rparr>"

text \<open>The constructor; libuv's answer to \<open>uv_async_init\<close> is a parameter.\<close>

definition construct_channel :: "uv_status \<Rightarrow> nat \<Rightarrow> 'a chan_world result" where
  "construct_channel init_rc capacity =
     (case init_rc of
        Uv_err e \<Rightarrow> throw_uv_error e ''uv_async_init''
      | Uv_ok \<Rightarrow> Inr (new_chan_world capacity))"

section \<open>After unlocking\<close>

definition flush_ready_waiters :: "'a chan_world \<Rightarrow> 'a chan_world" where
  "flush_ready_waiters c =
     c\<lparr>cw_ch := (cw_ch c)\<lparr>ch_ready_receivers := [], ch_ready_senders := []\<rparr>,
       cw_resumed := cw_resumed c @ map Receiver (ch_ready_receivers (cw_ch c)) @ map Sender (ch_ready_senders (cw_ch c))\<rparr>"

definition cancel_timer_posted :: "nat \<Rightarrow> 'a chan_world \<Rightarrow> 'a chan_world" where
  "cancel_timer_posted t c = c\<lparr>cw_rt := snd (post (Cj_timer_cancel t) (cw_rt c))\<rparr>"

definition cancel_timers :: "nat list \<Rightarrow> 'a chan_world \<Rightarrow> 'a chan_world" where
  "cancel_timers ts c = fold cancel_timer_posted ts c"

definition notify_ready_waiters :: "bool \<Rightarrow> 'a chan_world \<Rightarrow> unit result \<times> 'a chan_world" where
  "notify_ready_waiters is_loop_thread c =
     (if is_loop_thread then (Inr (), flush_ready_waiters c)
      else if \<not> cw_async_open c then (Inl (Runtime_error ''message_channel async handle is closing''), c)
      else (case cw_async_rc c of
              Uv_err e \<Rightarrow> (throw_uv_error e ''uv_async_send'', c)
            | Uv_ok \<Rightarrow> (Inr (), c\<lparr>cw_async_pending := True\<rparr>)))"

definition finalize_after_unlock :: "bool \<Rightarrow> effects \<Rightarrow> 'a chan_world \<Rightarrow> unit result \<times> 'a chan_world" where
  "finalize_after_unlock is_loop_thread fx c =
     (let c = (if fx_notify_blocked_senders fx then c\<lparr>cw_cv_notified := cw_cv_notified c + 1\<rparr> else c);
          c = cancel_timers (fx_timers_to_cancel fx) c
      in if fx_wake_loop fx then notify_ready_waiters is_loop_thread c else (Inr (), c))"

section \<open>Sending\<close>

definition send_refused :: "'a channel \<Rightarrow> exn option" where
  "send_refused ch =
     (if ch_closed ch \<or> ch_handle_closing ch then Some (Runtime_error ''message_channel is closed'')
      else if \<not> ch_handle_initialized ch then Some (Runtime_error ''message_channel is not initialized'')
      else None)"

definition try_send :: "bool \<Rightarrow> 'a \<Rightarrow> 'a chan_world \<Rightarrow> bool result \<times> 'a chan_world" where
  "try_send is_loop_thread v c =
     (case send_refused (cw_ch c) of
        Some e \<Rightarrow> (Inl e, c)
      | None \<Rightarrow>
          (case can_send_now_locked (cw_ch c) of
             (False, ch) \<Rightarrow> (Inr False, c\<lparr>cw_ch := ch\<rparr>)
           | (True, ch) \<Rightarrow>
               (case place_send_locked v (ch, no_effects) of
                  (ch, fx) \<Rightarrow>
                    (case finalize_after_unlock is_loop_thread (fx\<lparr>fx_notify_blocked_senders := False\<rparr>) (c\<lparr>cw_ch := ch\<rparr>) of
                       (Inl e, c) \<Rightarrow> (Inl e, c)
                     | (Inr _, c) \<Rightarrow> (Inr True, c)))))"

text \<open>
  \<open>send\<close>, one pass of its loop: it fails, it has to wait on \<open>send_cv\<close>, or it has sent. After a
  wait the loop starts again with the same checks.
\<close>

datatype send_pass = Send_failed exn | Send_waits | Send_done

definition blocking_send_pass :: "bool \<Rightarrow> 'a \<Rightarrow> 'a chan_world \<Rightarrow> send_pass \<times> 'a chan_world" where
  "blocking_send_pass loop_thread v c =
     (case send_refused (cw_ch c) of
        Some e \<Rightarrow> (Send_failed e, c)
      | None \<Rightarrow>
          (case can_send_now_locked (cw_ch c) of
             (False, ch) \<Rightarrow>
               (if loop_thread
                then (Send_failed (Runtime_error ''message_channel::send would block on the runtime thread; use async_send''),
                      c\<lparr>cw_ch := ch\<rparr>)
                else (Send_waits, c\<lparr>cw_ch := ch\<rparr>))
           | (True, ch) \<Rightarrow>
               (case place_send_locked v (ch, no_effects) of
                  (ch, fx) \<Rightarrow>
                    (case finalize_after_unlock loop_thread (fx\<lparr>fx_notify_blocked_senders := False\<rparr>) (c\<lparr>cw_ch := ch\<rparr>) of
                       (Inl e, c) \<Rightarrow> (Send_failed e, c)
                     | (Inr _, c) \<Rightarrow> (Send_done, c)))))"

text \<open>
  \<open>async_send\<close>: both \<open>await_ready\<close> and \<open>await_suspend\<close> first look whether they can finish at
  once. The answer of this common part is \<open>True\<close> when they can.
\<close>

definition async_send_attempt :: "nat \<Rightarrow> 'a locked \<Rightarrow> bool \<times> 'a locked" where
  "async_send_attempt s cf =
     (let ch = fst cf;
          done = (\<lambda>e ch. ch\<lparr>ch_senders := (ch_senders ch)(s := (ch_senders ch s)\<lparr>sd_exception := e, sd_completed := True\<rparr>)\<rparr>)
      in if ch_closed ch \<or> ch_handle_closing ch then (True, done (Some Closed_error) ch, snd cf)
         else if \<not> ch_handle_initialized ch
         then (True, done (Some (Runtime_error ''message_channel is not initialized'')) ch, snd cf)
         else (case can_send_now_locked ch of
                 (False, ch) \<Rightarrow> (False, ch, snd cf)
               | (True, ch) \<Rightarrow>
                   (case take_sender_value s ch of (v, ch) \<Rightarrow>
                      (case place_send_locked v (ch, snd cf) of
                         (ch, fx) \<Rightarrow> (True, done (sd_exception (ch_senders ch s)) ch, fx)))))"

definition async_send_await_suspend :: "nat \<Rightarrow> 'a locked \<Rightarrow> bool \<times> 'a locked" where
  "async_send_await_suspend s cf =
     (let ch = (fst cf)\<lparr>ch_senders := (ch_senders (fst cf))(s := (ch_senders (fst cf) s)\<lparr>sd_continuation := True\<rparr>)\<rparr> in
      case async_send_attempt s (ch, snd cf) of
        (True, cf') \<Rightarrow> (False, cf')
      | (False, ch, fx) \<Rightarrow> (True, ch\<lparr>ch_sender_waiters := ch_sender_waiters ch @ [s]\<rparr>, fx))"

definition async_send_await_resume :: "bool \<Rightarrow> nat \<Rightarrow> effects \<Rightarrow> 'a chan_world \<Rightarrow> unit result \<times> 'a chan_world" where
  "async_send_await_resume is_loop_thread s fx c =
     (case finalize_after_unlock is_loop_thread (fx\<lparr>fx_notify_blocked_senders := False\<rparr>) c of
        (Inl e, c) \<Rightarrow> (Inl e, c)
      | (Inr _, c) \<Rightarrow>
          (case sd_exception (ch_senders (cw_ch c) s) of Some e \<Rightarrow> (Inl e, c) | None \<Rightarrow> (Inr (), c)))"

text \<open>\<open>co_await channel.async_send(v)\<close> up to its first suspension, nobody interfering.\<close>

definition channel_async_send :: "bool \<Rightarrow> nat \<Rightarrow> 'a \<Rightarrow> 'a chan_world \<Rightarrow> unit awaited \<times> 'a chan_world" where
  "channel_async_send is_loop_thread s v c =
     (let ch = (cw_ch c)\<lparr>ch_senders := (ch_senders (cw_ch c))(s := new_sender v)\<rparr> in
      case async_send_attempt s (ch, no_effects) of
        (True, ch, fx) \<Rightarrow>
          (case async_send_await_resume is_loop_thread s fx (c\<lparr>cw_ch := ch\<rparr>) of (r, c) \<Rightarrow> (Continues r, c))
      | (False, cf) \<Rightarrow>
          (case async_send_await_suspend s cf of
             (True, ch, fx) \<Rightarrow> (Suspended, c\<lparr>cw_ch := ch\<rparr>)
           | (False, ch, fx) \<Rightarrow>
               (case async_send_await_resume is_loop_thread s fx (c\<lparr>cw_ch := ch\<rparr>) of (r, c) \<Rightarrow> (Continues r, c))))"

section \<open>Receiving\<close>

text \<open>Taking a message without a receiver: the common part of \<open>try_recv\<close> and \<open>blocking_next\<close>.\<close>

definition take_message :: "'a locked \<Rightarrow> 'a option \<times> 'a locked" where
  "take_message cf =
     (case ch_messages (fst cf) of
        v # vs \<Rightarrow> (Some v, pump_locked ((fst cf)\<lparr>ch_messages := vs\<rparr>, snd cf))
      | [] \<Rightarrow>
          (case pop_sender_waiter_locked (fst cf) of
             (None, ch) \<Rightarrow> (None, ch, snd cf)
           | (Some s, ch) \<Rightarrow>
               (case take_sender_value s ch of
                  (v, ch) \<Rightarrow> (Some v, complete_sender_locked s ch,
                     (snd cf)\<lparr>fx_wake_loop := True, fx_notify_blocked_senders := True\<rparr>))))"

definition try_recv :: "bool \<Rightarrow> 'a chan_world \<Rightarrow> 'a option result \<times> 'a chan_world" where
  "try_recv is_loop_thread c =
     (case take_message (cw_ch c, no_effects) of
        (value, ch, fx) \<Rightarrow>
          (case finalize_after_unlock is_loop_thread fx (c\<lparr>cw_ch := ch\<rparr>) of
             (Inl e, c) \<Rightarrow> (Inl e, c)
           | (Inr _, c) \<Rightarrow> (Inr value, c)))"

text \<open>
  \<open>blocking_next\<close> up to the point where it blocks on a \<open>recv\<close>: \<open>Inr None\<close> means that it goes
  on to block, \<open>Inr (Some x)\<close> that it returns \<open>x\<close>.
\<close>

definition blocking_next_start :: "bool \<Rightarrow> 'a chan_world \<Rightarrow> 'a option option result \<times> 'a chan_world" where
  "blocking_next_start is_loop_thread c =
     (if is_loop_thread
      then (Inl (Runtime_error ''message_channel blocking iteration cannot run on the runtime thread''), c)
      else (case take_message (cw_ch c, no_effects) of
              (value, ch, fx) \<Rightarrow>
                (if value = None \<and> (ch_closed ch \<or> ch_handle_closing ch) then (Inr (Some None), c\<lparr>cw_ch := ch\<rparr>)
                 else (case finalize_after_unlock is_loop_thread fx (c\<lparr>cw_ch := ch\<rparr>) of
                         (Inl e, c) \<Rightarrow> (Inl e, c)
                       | (Inr _, c) \<Rightarrow> (Inr (map_option Some value), c)))))"

text \<open>\<open>recv\<close>: \<open>await_ready\<close> is \<open>try_recv_locked\<close>; \<open>await_suspend\<close> stores the handle and tries again.\<close>

definition recv_await_suspend :: "nat \<Rightarrow> 'a locked \<Rightarrow> bool \<times> 'a locked" where
  "recv_await_suspend w cf =
     (let ch = (fst cf)\<lparr>ch_receivers := (ch_receivers (fst cf))(w := (ch_receivers (fst cf) w)\<lparr>rw_continuation := True\<rparr>)\<rparr> in
      case try_recv_locked w (ch, snd cf) of
        (True, cf') \<Rightarrow> (False, cf')
      | (False, ch, fx) \<Rightarrow> (True, ch\<lparr>ch_receiver_waiters := ch_receiver_waiters ch @ [w]\<rparr>, fx))"

definition recv_await_resume :: "bool \<Rightarrow> nat \<Rightarrow> effects \<Rightarrow> 'a chan_world \<Rightarrow> 'a result \<times> 'a chan_world" where
  "recv_await_resume is_loop_thread w fx c =
     (case finalize_after_unlock is_loop_thread fx c of
        (Inl e, c) \<Rightarrow> (Inl e, c)
      | (Inr _, c) \<Rightarrow>
          (case rw_exception (ch_receivers (cw_ch c) w) of
             Some e \<Rightarrow> (Inl e, c)
           | None \<Rightarrow> (Inr (the (rw_value (ch_receivers (cw_ch c) w))), c)))"

definition recv :: "bool \<Rightarrow> nat \<Rightarrow> 'a chan_world \<Rightarrow> 'a awaited \<times> 'a chan_world" where
  "recv is_loop_thread w c =
     (let ch = (cw_ch c)\<lparr>ch_receivers := (ch_receivers (cw_ch c))(w := new_receiver)\<rparr> in
      case try_recv_locked w (ch, no_effects) of
        (True, ch, fx) \<Rightarrow> (case recv_await_resume is_loop_thread w fx (c\<lparr>cw_ch := ch\<rparr>) of (r, c) \<Rightarrow> (Continues r, c))
      | (False, cf) \<Rightarrow>
          (case recv_await_suspend w cf of
             (True, ch, fx) \<Rightarrow> (Suspended, c\<lparr>cw_ch := ch\<rparr>)
           | (False, ch, fx) \<Rightarrow> (case recv_await_resume is_loop_thread w fx (c\<lparr>cw_ch := ch\<rparr>) of (r, c) \<Rightarrow> (Continues r, c))))"

section \<open>Receiving with a timeout\<close>

definition recv_for_attempt :: "int \<Rightarrow> nat \<Rightarrow> 'a locked \<Rightarrow> bool \<times> 'a locked" where
  "recv_for_attempt timeout w cf =
     (case try_recv_locked w cf of
        (True, cf') \<Rightarrow> (True, cf')
      | (False, ch, fx) \<Rightarrow>
          if timeout \<le> 0
          then (True, ch\<lparr>ch_receivers := (ch_receivers ch)(w := (ch_receivers ch w)\<lparr>rw_completed := True, rw_timed_out := True\<rparr>)\<rparr>, fx)
          else (False, ch, fx))"

text \<open>
  \<open>await_suspend\<close>: the waiter gets a timer (numbered \<open>t\<close>) whose start is posted to the runtime; if
  that fails the receiver is completed with the exception, is put among the ready ones, and the
  coroutine is not suspended.
\<close>

definition recv_for_await_suspend :: "int \<Rightarrow> nat \<Rightarrow> nat \<Rightarrow> effects \<Rightarrow> 'a chan_world \<Rightarrow> bool \<times> effects \<times> 'a chan_world" where
  "recv_for_await_suspend timeout w t fx c =
     (let ch = (cw_ch c)\<lparr>ch_receivers := (ch_receivers (cw_ch c))(w := (ch_receivers (cw_ch c) w)\<lparr>rw_continuation := True\<rparr>)\<rparr> in
      case recv_for_attempt timeout w (ch, fx) of
        (True, ch, fx) \<Rightarrow> (False, fx, c\<lparr>cw_ch := ch\<rparr>)
      | (False, ch, fx) \<Rightarrow>
          (let ch = ch\<lparr>ch_receivers := (ch_receivers ch)(w := (ch_receivers ch w)\<lparr>rw_timer := Some t\<rparr>),
                       ch_receiver_waiters := ch_receiver_waiters ch @ [w]\<rparr>;
               timers = (cw_timers c)(t := \<lparr>ct_waiter = w, ct_handle = False, ct_canceled = False, ct_closing = False\<rparr>)
           in case post (Cj_timer_start t timeout) (cw_rt c) of
                (Inr _, rt) \<Rightarrow> (True, fx, c\<lparr>cw_ch := ch, cw_rt := rt, cw_timers := timers\<rparr>)
              | (Inl e, rt) \<Rightarrow>
                  (let x = ch_receivers ch w in
                   if rw_active x \<and> \<not> rw_completed x
                   then (False, fx\<lparr>fx_wake_loop := True\<rparr>,
                         c\<lparr>cw_ch := ch\<lparr>ch_receivers := (ch_receivers ch)(w := x\<lparr>rw_active := False, rw_completed := True,
                               rw_exception := Some e, rw_timer := None\<rparr>),
                               ch_ready_receivers := ch_ready_receivers ch @ [w]\<rparr>, cw_rt := rt, cw_timers := timers\<rparr>)
                   else (False, fx, c\<lparr>cw_ch := ch, cw_rt := rt, cw_timers := timers\<rparr>))))"

definition recv_for_await_resume :: "bool \<Rightarrow> nat \<Rightarrow> effects \<Rightarrow> 'a chan_world \<Rightarrow> 'a option result \<times> 'a chan_world" where
  "recv_for_await_resume is_loop_thread w fx c =
     (case finalize_after_unlock is_loop_thread fx c of
        (Inl e, c) \<Rightarrow> (Inl e, c)
      | (Inr _, c) \<Rightarrow>
          (let x = ch_receivers (cw_ch c) w in
           case rw_exception x of
             Some e \<Rightarrow> (Inl e, c)
           | None \<Rightarrow> if rw_timed_out x then (Inr None, c) else (Inr (rw_value x), c)))"

definition recv_for :: "bool \<Rightarrow> int \<Rightarrow> nat \<Rightarrow> nat \<Rightarrow> 'a chan_world \<Rightarrow> 'a option awaited \<times> 'a chan_world" where
  "recv_for is_loop_thread timeout w t c =
     (let ch = (cw_ch c)\<lparr>ch_receivers := (ch_receivers (cw_ch c))(w := new_receiver)\<rparr> in
      case recv_for_attempt timeout w (ch, no_effects) of
        (True, ch, fx) \<Rightarrow> (case recv_for_await_resume is_loop_thread w fx (c\<lparr>cw_ch := ch\<rparr>) of (r, c) \<Rightarrow> (Continues r, c))
      | (False, ch, fx) \<Rightarrow>
          (case recv_for_await_suspend timeout w t fx (c\<lparr>cw_ch := ch\<rparr>) of
             (True, fx, c) \<Rightarrow> (Suspended, c)
           | (False, fx, c) \<Rightarrow> (case recv_for_await_resume is_loop_thread w fx c of (r, c) \<Rightarrow> (Continues r, c))))"

section \<open>Timers\<close>

definition ct_close_handle :: "nat \<Rightarrow> 'a chan_world \<Rightarrow> 'a chan_world" where
  "ct_close_handle t c =
     (if \<not> ct_handle (cw_timers c t) \<or> ct_closing (cw_timers c t) then c
      else c\<lparr>cw_timers := (cw_timers c)(t := (cw_timers c t)\<lparr>ct_closing := True\<rparr>)\<rparr>)"

text \<open>libuv reports the handle closed.\<close>

definition ct_on_closed :: "nat \<Rightarrow> 'a chan_world \<Rightarrow> 'a chan_world" where
  "ct_on_closed t c = c\<lparr>cw_timers := (cw_timers c)(t := (cw_timers c t)\<lparr>ct_handle := False\<rparr>)\<rparr>"

text \<open>What \<open>fire\<close> and \<open>fail\<close> do with the receiver under the lock.\<close>

definition ct_complete :: "('a receiver_waiter \<Rightarrow> 'a receiver_waiter) \<Rightarrow> nat \<Rightarrow> 'a channel \<Rightarrow> 'a channel" where
  "ct_complete set_result w ch =
     (let x = ch_receivers ch w in
      if rw_active x \<and> \<not> rw_completed x
      then ch\<lparr>ch_receivers := (ch_receivers ch)(w := set_result (x\<lparr>rw_active := False, rw_completed := True, rw_timer := None\<rparr>)),
              ch_ready_receivers := ch_ready_receivers ch @ [w]\<rparr>
      else ch)"

definition ct_fire :: "nat \<Rightarrow> 'a chan_world \<Rightarrow> 'a chan_world" where
  "ct_fire t c =
     (let ch = ct_complete (\<lambda>x. x\<lparr>rw_timed_out := True\<rparr>) (ct_waiter (cw_timers c t)) (cw_ch c)
      in ct_close_handle t (flush_ready_waiters (c\<lparr>cw_ch := ch\<rparr>)))"

definition ct_fail :: "exn \<Rightarrow> nat \<Rightarrow> 'a chan_world \<Rightarrow> 'a chan_world" where
  "ct_fail e t c =
     (let ch = ct_complete (\<lambda>x. x\<lparr>rw_exception := Some e\<rparr>) (ct_waiter (cw_timers c t)) (cw_ch c)
      in flush_ready_waiters (c\<lparr>cw_ch := ch\<rparr>))"

definition ct_cancel :: "nat \<Rightarrow> 'a chan_world \<Rightarrow> 'a chan_world" where
  "ct_cancel t c = ct_close_handle t (c\<lparr>cw_timers := (cw_timers c)(t := (cw_timers c t)\<lparr>ct_canceled := True\<rparr>)\<rparr>)"

definition ct_start :: "uv_status \<Rightarrow> uv_status \<Rightarrow> nat \<Rightarrow> int \<Rightarrow> 'a chan_world \<Rightarrow> 'a chan_world" where
  "ct_start init_rc start_rc t timeout c =
     (let x = ch_receivers (cw_ch c) (ct_waiter (cw_timers c t)) in
      if ct_canceled (cw_timers c t) \<or> \<not> rw_active x \<or> rw_completed x then c
      else
        let c = c\<lparr>cw_timers := (cw_timers c)(t := (cw_timers c t)\<lparr>ct_handle := True\<rparr>)\<rparr>
        in (case init_rc of
              Uv_err e \<Rightarrow> ct_fail (Uv_error e ''uv_timer_init'') t c
            | Uv_ok \<Rightarrow>
                (case start_rc of
                   Uv_err e \<Rightarrow> ct_close_handle t (ct_fail (Uv_error e ''uv_timer_start'') t c)
                 | Uv_ok \<Rightarrow> c)))"

section \<open>Closing\<close>

text \<open>The two loops of \<open>close\<close>.\<close>

function close_receivers :: "'a locked \<Rightarrow> 'a locked" where
  "close_receivers cf =
     (case pruned_receivers (fst cf) of
        [] \<Rightarrow> ((fst cf)\<lparr>ch_receiver_waiters := []\<rparr>, snd cf)
      | w # ws \<Rightarrow> close_receivers (complete_receiver_exception_locked w Closed_error ((fst cf)\<lparr>ch_receiver_waiters := ws\<rparr>, snd cf)))"
  by pat_completeness auto
termination
  by (relation "measure (\<lambda>cf. length (ch_receiver_waiters (fst cf)))")
    (auto simp: complete_receiver_exception_locked_def dest: pruned_receivers_Cons_length)

function close_senders :: "'a channel \<Rightarrow> 'a channel" where
  "close_senders ch =
     (case pruned_senders ch of
        [] \<Rightarrow> ch\<lparr>ch_sender_waiters := []\<rparr>
      | s # ws \<Rightarrow> close_senders (complete_sender_exception_locked s Closed_error (ch\<lparr>ch_sender_waiters := ws\<rparr>)))"
  by pat_completeness auto
termination
  by (relation "measure (\<lambda>ch. length (ch_sender_waiters ch))")
    (auto simp: complete_sender_exception_locked_def dest: pruned_senders_Cons_length)

declare close_receivers.simps [simp del]
declare close_senders.simps [simp del]

definition close_locked :: "'a locked \<Rightarrow> 'a locked" where
  "close_locked cf =
     (case close_receivers ((fst cf)\<lparr>ch_closed := True\<rparr>, snd cf) of
        (ch, fx) \<Rightarrow> ((close_senders ch)\<lparr>ch_handle_closing := True\<rparr>, fx))"

definition close_channel :: "'a chan_world \<Rightarrow> unit result \<times> 'a chan_world" where
  "close_channel c =
     (let should_schedule_close = (\<not> ch_handle_closing (cw_ch c)) in
      case close_locked (cw_ch c, no_effects) of
        (ch, fx) \<Rightarrow>
          (let c = cancel_timers (fx_timers_to_cancel fx) (c\<lparr>cw_ch := ch, cw_cv_notified := cw_cv_notified c + 1\<rparr>) in
           if should_schedule_close
           then (case post Cj_close (cw_rt c) of (r, rt) \<Rightarrow> (r, c\<lparr>cw_rt := rt\<rparr>))
           else (Inr (), c)))"

text \<open>The job that closes the handle.\<close>

definition close_job :: "'a chan_world \<Rightarrow> 'a chan_world" where
  "close_job c = (flush_ready_waiters c)\<lparr>cw_async_open := False\<rparr>"

text \<open>The runtime runs its oldest job; libuv's answers to the timer calls are parameters.\<close>

definition chan_job_step :: "uv_status \<Rightarrow> uv_status \<Rightarrow> 'a chan_world \<Rightarrow> 'a chan_world" where
  "chan_job_step init_rc start_rc c =
     (case rt_queue (cw_rt c) of
        [] \<Rightarrow> c
      | j # js \<Rightarrow>
          (let c = c\<lparr>cw_rt := (cw_rt c)\<lparr>rt_queue := js\<rparr>\<rparr> in
           case j of
             Cj_timer_start t timeout \<Rightarrow> ct_start init_rc start_rc t timeout c
           | Cj_timer_cancel t \<Rightarrow> ct_cancel t c
           | Cj_close \<Rightarrow> close_job c))"

text \<open>The loop serves the channel's own wake-up.\<close>

definition chan_on_async :: "'a chan_world \<Rightarrow> 'a chan_world" where
  "chan_on_async c =
     (if cw_async_pending c then flush_ready_waiters (c\<lparr>cw_async_pending := False\<rparr>) else c)"

section \<open>Observers\<close>

definition channel_size :: "'a chan_world \<Rightarrow> nat" where
  "channel_size c = length (ch_messages (cw_ch c))"

definition channel_is_closed :: "'a chan_world \<Rightarrow> bool" where
  "channel_is_closed c = ch_closed (cw_ch c)"

text \<open>\<open>next\<close>: a closed channel ends the iteration instead of throwing.\<close>

fun recv_optional_result :: "'a result \<Rightarrow> 'a option result" where
  "recv_optional_result (Inl Closed_error) = Inr None"
| "recv_optional_result (Inl e) = Inl e"
| "recv_optional_result (Inr v) = Inr (Some v)"

text \<open>
  The loop of \<open>recv_until_stop_task\<close> over what its polls answer: each poll is the token's state
  before it and the result of its \<open>recv_for\<close>. \<open>None\<close> means that it is still polling when the
  list ends.
\<close>

fun recv_until_stop :: "(bool \<times> 'a option result) list \<Rightarrow> 'a option result option" where
  "recv_until_stop [] = None"
| "recv_until_stop ((stop_requested, poll) # polls) =
     (if stop_requested then Some (Inr None)
      else (case poll of
              Inl e \<Rightarrow> if e = Closed_error then Some (Inr None) else Some (Inl e)
            | Inr (Some v) \<Rightarrow> Some (Inr (Some v))
            | Inr None \<Rightarrow> recv_until_stop polls))"

end
