(* ===== verification/Channel_Spec.thy ===== *)
theory Channel_Spec
  imports Channel_Ops
begin

text \<open>
  What a channel promises: it is a bounded first-in first-out queue with receivers waiting at its
  empty end. The theory relates every locked section to that specification and states the
  properties of whole runs.
\<close>

section \<open>The locked sections under the invariant\<close>

lemma ch_inv_simps:
  assumes "ch_inv ch"
  shows "ch_waiters_ok ch" "ch_handle_initialized ch" "ch_handle_closing ch \<longleftrightarrow> ch_closed ch"
  using assms by (simp_all add: ch_inv_def)

text \<open>Senders block only when the buffer is full, so an empty buffer means an empty channel.\<close>

lemma content_Nil_iff:
  assumes "ch_inv ch"
  shows "content ch = [] \<longleftrightarrow> ch_messages ch = []" and "ch_messages ch = [] \<Longrightarrow> live_senders ch = []"
  using assms by (auto simp: ch_inv_def content_def has_buffer_capacity_locked_def)

lemma pump_receivers_idle:
  assumes "live_receivers (fst cf) = []"
  shows "pump_receivers cf = ((fst cf)\<lparr>ch_receiver_waiters := []\<rparr>, snd cf)"
proof -
  from assms have "pruned_receivers (fst cf) = []" by (simp add: pruned_receivers_def live_receivers_def)
  then show ?thesis by (subst pump_receivers.simps) simp
qed

lemma live_receivers_complete:
  "w \<notin> set (ch_receiver_waiters (fst cf)) \<Longrightarrow> live_receivers (fst (complete_receiver f w cf)) = live_receivers (fst cf)"
  by (auto simp: live_receivers_def complete_receiver_def Let_def intro!: filter_cong)

lemma content_complete_receiver [simp]:
  "content (fst (complete_receiver f w cf)) = content (fst cf)"
  by (simp add: content_def live_senders_def sender_value_def)

lemma live_senders_complete_receiver [simp]:
  "live_senders (fst (complete_receiver f w cf)) = live_senders (fst cf)"
  by (simp add: live_senders_def)

lemma complete_receiver_other: "v \<noteq> w \<Longrightarrow> ch_receivers (fst (complete_receiver f w cf)) v = ch_receivers (fst cf) v"
  by (simp add: complete_receiver_def Let_def)

lemma complete_receiver_self:
  "ch_receivers (fst (complete_receiver f w cf)) w =
     (f ((ch_receivers (fst cf) w)\<lparr>rw_active := False, rw_completed := True\<rparr>))\<lparr>rw_timer := None\<rparr>"
  by (simp add: complete_receiver_def Let_def)

lemma ch_waiters_ok_complete:
  assumes "ch_waiters_ok (fst cf)" and "w \<notin> set (ch_receiver_waiters (fst cf))"
  shows "ch_waiters_ok (fst (complete_receiver f w cf))"
proof -
  have "v \<noteq> w" if "v \<in> set (live_receivers (fst cf))" for v using that assms(2) by (auto simp: live_receivers_def)
  then show ?thesis
    using assms live_receivers_complete [OF assms(2), of f]
    by (auto simp: ch_waiters_ok_def complete_receiver_other)
qed

lemma ch_inv_complete:
  assumes "ch_inv (fst cf)" and "w \<notin> set (ch_receiver_waiters (fst cf))"
  shows "ch_inv (fst (complete_receiver f w cf))"
  using assms ch_waiters_ok_complete [of cf w f] live_receivers_complete [OF assms(2), of f]
  by (simp add: ch_inv_def has_buffer_capacity_locked_def)

lemma pump_senders_idle:
  assumes "live_senders (fst cf) = []"
  shows "snd (pump_senders cf) = snd cf"
proof -
  from assms have "pruned_senders (fst cf) = []" by (simp add: pruned_senders_def live_senders_def)
  then show ?thesis by (subst pump_senders.simps) simp
qed

text \<open>Taking the first message: the pump moves a blocked sender's message up.\<close>

lemma pump_after_take:
  assumes "ch_inv ch" and "ch_messages ch = v # vs"
  shows "\<exists>ch'. fst (pump_locked (ch\<lparr>ch_messages := vs\<rparr>, fx)) = ch' \<and> ch_inv ch' \<and> content ch' = tl (content ch) \<and>
    live_receivers ch' = [] \<and> ch_closed ch' = ch_closed ch \<and> ch_capacity ch' = ch_capacity ch \<and>
    ch_receivers ch' = ch_receivers ch \<and> set (ch_receiver_waiters ch') \<subseteq> set (ch_receiver_waiters ch) \<and>
    ch_ready_receivers ch' = ch_ready_receivers ch \<and>
    fx_notify_blocked_senders (snd (pump_locked (ch\<lparr>ch_messages := vs\<rparr>, fx))) = fx_notify_blocked_senders fx \<and>
    (live_senders ch = [] \<longrightarrow> fx_wake_loop (snd (pump_locked (ch\<lparr>ch_messages := vs\<rparr>, fx))) = fx_wake_loop fx) \<and>
    (fx_wake_loop fx \<or> live_senders ch' \<noteq> live_senders ch \<longrightarrow> fx_wake_loop (snd (pump_locked (ch\<lparr>ch_messages := vs\<rparr>, fx))))"
proof -
  let ?ch = "ch\<lparr>ch_messages := vs\<rparr>"
  have c: "content ch = v # content ?ch" "live_senders ?ch = live_senders ch" "live_receivers ?ch = live_receivers ch"
    using assms(2) by (simp_all add: content_def live_senders_def live_receivers_def sender_value_def)
  from assms(1) c have lr: "live_receivers ch = []" by (auto simp: ch_inv_def)
  let ?p = "?ch\<lparr>ch_receiver_waiters := []\<rparr>"
  have p: "pump_locked (?ch, fx) = pump_senders (?p, fx)"
    using pump_receivers_idle [of "(?ch, fx)"] lr c by (simp add: pump_locked_def)
  have pl: "live_senders ?p = live_senders ch" "live_receivers ?p = []" "content ?p = content ?ch"
    by (simp_all add: content_def live_senders_def live_receivers_def sender_value_def)
  have ok: "ch_waiters_ok ?p"
    using assms(1) pl by (auto simp: ch_inv_def ch_waiters_ok_def)
  have len: "ch_capacity ?p \<noteq> 0 \<longrightarrow> length (ch_messages ?p) \<le> ch_capacity ?p"
    using assms by (auto simp: ch_inv_def)
  let ?r = "fst (pump_senders (?p, fx))"
  from pump_senders_spec [of "(?p, fx)"] ok len have sp: "ch_waiters_ok ?r" "content ?r = content ?p"
    "ch_receiver_waiters ?r = ch_receiver_waiters ?p" "ch_receivers ?r = ch_receivers ?p" "ch_ready_receivers ?r = ch_ready_receivers ?p"
    "ch_capacity ?r = ch_capacity ?p" "ch_closed ?r = ch_closed ?p" "ch_handle_closing ?r = ch_handle_closing ?p"
    "ch_handle_initialized ?r = ch_handle_initialized ?p"
    "live_senders ?r \<noteq> [] \<longrightarrow> \<not> has_buffer_capacity_locked ?r"
    "set (live_senders ?r) \<subseteq> set (live_senders ?p)"
    "ch_capacity ?p \<noteq> 0 \<longrightarrow> length (ch_messages ?r) \<le> ch_capacity ?p"
    "fx_notify_blocked_senders (snd (pump_senders (?p, fx))) = fx_notify_blocked_senders fx"
    "fx_wake_loop fx \<or> live_senders ?r \<noteq> live_senders ?p \<longrightarrow> fx_wake_loop (snd (pump_senders (?p, fx)))"
    by simp_all
  have r0: "live_receivers ?r = []" using sp(3) by (simp add: live_receivers_def)
  have cl: "live_senders ?r \<noteq> [] \<longrightarrow> \<not> ch_closed ?r"
    using sp(7,11) pl assms(1) by (auto simp: ch_inv_def)
  have "ch_inv ?r"
    using sp r0 cl assms(1) by (auto simp: ch_inv_def)
  moreover have "live_senders ch = [] \<longrightarrow> snd (pump_senders (?p, fx)) = fx"
    using pump_senders_idle [of "(?p, fx)"] pl by simp
  ultimately show ?thesis using sp r0 pl c unfolding p by simp
qed

lemma try_recv_locked_value:
  assumes "ch_inv ch" and "w \<notin> set (ch_receiver_waiters ch)" and "content ch = v # vs"
  shows "\<exists>ch' fx'. try_recv_locked w (ch, fx) = (True, ch', fx') \<and> ch_inv ch' \<and> content ch' = vs \<and>
    live_receivers ch' = [] \<and> ch_closed ch' = ch_closed ch \<and> ch_capacity ch' = ch_capacity ch \<and>
    ch_receivers ch' w = (ch_receivers ch w)\<lparr>rw_active := False, rw_completed := True, rw_timed_out := False,
       rw_value := Some v, rw_timer := None\<rparr> \<and>
    (\<forall>u. u \<noteq> w \<longrightarrow> ch_receivers ch' u = ch_receivers ch u) \<and> w \<notin> set (ch_receiver_waiters ch') \<and>
    ch_ready_receivers ch' = ch_ready_receivers ch @ (if rw_continuation (ch_receivers ch w) then [w] else []) \<and>
    fx_notify_blocked_senders fx' \<and> (live_senders ch = [] \<longrightarrow> fx_wake_loop fx' = fx_wake_loop fx) \<and>
    (fx_wake_loop fx \<or> live_senders ch' \<noteq> live_senders ch \<longrightarrow> fx_wake_loop fx')"
proof -
  from content_Nil_iff [OF assms(1)] assms(3) obtain ms where m: "ch_messages ch = v # ms"
    by (cases "ch_messages ch") (auto simp: content_def)
  let ?f = "\<lambda>x. x\<lparr>rw_timed_out := False, rw_value := Some v\<rparr>"
  let ?c = "complete_receiver ?f w (ch, fx)"
  have eq: "complete_receiver ?f w (ch\<lparr>ch_messages := ms\<rparr>, fx) = ((fst ?c)\<lparr>ch_messages := ms\<rparr>, snd ?c)"
    by (simp add: complete_receiver_def Let_def split: option.split)
  have inv: "ch_inv (fst ?c)" using ch_inv_complete [of "(ch, fx)" w ?f] assms(1,2) by simp
  have mc: "ch_messages (fst ?c) = v # ms" using m by simp
  from pump_after_take [OF inv mc, of "snd ?c"] obtain ch' where
    p: "fst (pump_locked ((fst ?c)\<lparr>ch_messages := ms\<rparr>, snd ?c)) = ch'" "ch_inv ch'" "content ch' = vs"
      "live_receivers ch' = []" "ch_closed ch' = ch_closed ch" "ch_capacity ch' = ch_capacity ch"
      "ch_receivers ch' = ch_receivers (fst ?c)" "set (ch_receiver_waiters ch') \<subseteq> set (ch_receiver_waiters ch)"
      "ch_ready_receivers ch' = ch_ready_receivers (fst ?c)"
      "live_senders ch = [] \<longrightarrow> fx_wake_loop (snd (pump_locked ((fst ?c)\<lparr>ch_messages := ms\<rparr>, snd ?c))) = fx_wake_loop (snd ?c)"
      "fx_wake_loop (snd ?c) \<or> live_senders ch' \<noteq> live_senders ch \<longrightarrow>
         fx_wake_loop (snd (pump_locked ((fst ?c)\<lparr>ch_messages := ms\<rparr>, snd ?c)))"
    using assms(3) by auto
  have w: "fx_wake_loop (snd ?c) = fx_wake_loop fx" by (simp add: complete_receiver_def Let_def split: option.split)
  have rd: "ch_ready_receivers (fst ?c) = ch_ready_receivers ch @ (if rw_continuation (ch_receivers ch w) then [w] else [])"
    by (simp add: complete_receiver_def Let_def)
  have "try_recv_locked w (ch, fx) = (True, ch', (snd (pump_locked ((fst ?c)\<lparr>ch_messages := ms\<rparr>, snd ?c)))\<lparr>fx_notify_blocked_senders := True\<rparr>)"
    using m p(1) eq by (simp add: try_recv_locked_def complete_receiver_value_locked_def case_prod_beta)
  with p w rd assms(2) show ?thesis
    by (auto simp: complete_receiver_self complete_receiver_other)
qed

lemma pop_sender_empty:
  assumes "live_senders ch = []"
  shows "pop_sender_waiter_locked ch = (None, ch\<lparr>ch_sender_waiters := []\<rparr>)"
  using assms by (cases ch rule: pop_sender_cases) simp_all

lemma ch_inv_drop_senders:
  assumes "ch_inv ch" and "live_senders ch = []"
  shows "ch_inv (ch\<lparr>ch_sender_waiters := []\<rparr>)" "content (ch\<lparr>ch_sender_waiters := []\<rparr>) = content ch"
    "live_receivers (ch\<lparr>ch_sender_waiters := []\<rparr>) = live_receivers ch" "live_senders (ch\<lparr>ch_sender_waiters := []\<rparr>) = []"
proof -
  show c: "content (ch\<lparr>ch_sender_waiters := []\<rparr>) = content ch" and r: "live_receivers (ch\<lparr>ch_sender_waiters := []\<rparr>) = live_receivers ch"
    and l: "live_senders (ch\<lparr>ch_sender_waiters := []\<rparr>) = []"
    using assms(2) by (simp_all add: content_def live_senders_def live_receivers_def)
  show "ch_inv (ch\<lparr>ch_sender_waiters := []\<rparr>)"
    using assms c r l by (simp add: ch_inv_def ch_waiters_ok_def has_buffer_capacity_locked_def)
qed

text \<open>Receiving from an empty channel: an exception when it is closed, otherwise no result.\<close>

lemma try_recv_locked_empty:
  assumes "ch_inv ch" and "content ch = []"
  shows "try_recv_locked w (ch, fx) =
     (if ch_closed ch then (True, complete_receiver_exception_locked w Closed_error (ch\<lparr>ch_sender_waiters := []\<rparr>, fx))
      else (False, ch\<lparr>ch_sender_waiters := []\<rparr>, fx))"
  using assms content_Nil_iff [OF assms(1)] ch_inv_simps [OF assms(1)]
  by (simp add: try_recv_locked_def pop_sender_empty)

lemma take_message_spec:
  assumes "ch_inv ch"
  shows "\<exists>ch' fx'. take_message (ch, fx) = ((case content ch of [] \<Rightarrow> None | v # vs \<Rightarrow> Some v), ch', fx') \<and>
    ch_inv ch' \<and> content ch' = tl (content ch) \<and> live_receivers ch' = live_receivers ch \<and>
    ch_closed ch' = ch_closed ch \<and> ch_capacity ch' = ch_capacity ch \<and> ch_receivers ch' = ch_receivers ch \<and>
    set (ch_receiver_waiters ch') \<subseteq> set (ch_receiver_waiters ch) \<and>
    ch_ready_receivers ch' = ch_ready_receivers ch \<and>
    fx_notify_blocked_senders fx' = fx_notify_blocked_senders fx \<and>
    (live_senders ch = [] \<longrightarrow> fx_wake_loop fx' = fx_wake_loop fx) \<and>
    (fx_wake_loop fx \<or> live_senders ch' \<noteq> live_senders ch \<longrightarrow> fx_wake_loop fx')"
proof (cases "ch_messages ch")
  case Nil
  with content_Nil_iff [OF assms] have "content ch = []" "live_senders ch = []" by simp_all
  with Nil ch_inv_drop_senders [OF assms] show ?thesis
    by (intro exI [of _ "ch\<lparr>ch_sender_waiters := []\<rparr>"] exI [of _ fx]) (simp add: take_message_def pop_sender_empty)
next
  case (Cons v vs)
  then have c: "content ch = v # tl (content ch)" by (simp add: content_def)
  with assms have "live_receivers ch = []" by (auto simp: ch_inv_def)
  with pump_after_take [OF assms Cons, of fx] c Cons show ?thesis
    by (cases "pump_locked (ch\<lparr>ch_messages := vs\<rparr>, fx)") (auto simp: take_message_def split: list.split)
qed

lemma ch_inv_prune:
  assumes "ch_inv ch" and "filter (\<lambda>w. rw_active (ch_receivers ch w)) rs = live_receivers ch" and "distinct rs"
    and "filter (\<lambda>w. sd_active (ch_senders ch w)) ss = live_senders ch" and "distinct ss"
  shows "ch_inv (ch\<lparr>ch_receiver_waiters := rs, ch_sender_waiters := ss\<rparr>) \<and>
    content (ch\<lparr>ch_receiver_waiters := rs, ch_sender_waiters := ss\<rparr>) = content ch \<and>
    live_receivers (ch\<lparr>ch_receiver_waiters := rs, ch_sender_waiters := ss\<rparr>) = live_receivers ch \<and>
    live_senders (ch\<lparr>ch_receiver_waiters := rs, ch_sender_waiters := ss\<rparr>) = live_senders ch"
proof -
  let ?c = "ch\<lparr>ch_receiver_waiters := rs, ch_sender_waiters := ss\<rparr>"
  have l: "live_senders ?c = live_senders ch" "live_receivers ?c = live_receivers ch"
    using assms(2,4) by (simp_all add: live_senders_def [of ?c] live_receivers_def [of ?c])
  then have c: "content ?c = content ch" by (simp add: content_def sender_value_def)
  with l assms show ?thesis by (simp add: ch_inv_def ch_waiters_ok_def has_buffer_capacity_locked_def)
qed

lemma can_send_now_spec:
  assumes "ch_inv ch"
  shows "\<exists>ch' rs ss. can_send_now_locked ch = (\<not> ch_closed ch \<and>
      (live_receivers ch \<noteq> [] \<or> ch_capacity ch = 0 \<or> length (content ch) < ch_capacity ch), ch') \<and>
    ch' = ch\<lparr>ch_receiver_waiters := rs, ch_sender_waiters := ss\<rparr> \<and> ch_inv ch' \<and> content ch' = content ch \<and>
    live_receivers ch' = live_receivers ch \<and> live_senders ch' = live_senders ch \<and>
    set rs \<subseteq> set (ch_receiver_waiters ch) \<and> set ss \<subseteq> set (ch_sender_waiters ch)"
proof (cases "ch_closed ch")
  case True
  with assms show ?thesis
    by (intro exI [of _ ch] exI [of _ "ch_receiver_waiters ch"] exI [of _ "ch_sender_waiters ch"])
      (simp add: can_send_now_locked_def)
next
  case False
  with ch_inv_simps [OF assms] have op: "\<not> ch_closed ch" "\<not> ch_handle_closing ch" by simp_all
  have d: "distinct (ch_receiver_waiters ch)" "distinct (ch_sender_waiters ch)"
    using ch_inv_simps(1) [OF assms] by (simp_all add: ch_waiters_ok_def)
  let ?rs = "pruned_receivers ch" and ?ss = "pruned_senders ch"
  have e: "?ss = [] \<longleftrightarrow> live_senders ch = []" "?rs = [] \<longleftrightarrow> live_receivers ch = []"
    by (simp_all add: pruned_senders_def live_senders_def pruned_receivers_def live_receivers_def)
  have sub: "set ?rs \<subseteq> set (ch_receiver_waiters ch)" "set ?ss \<subseteq> set (ch_sender_waiters ch)"
    by (simp_all add: pruned_receivers_def pruned_senders_def set_prune_waiters)
  have f: "filter (\<lambda>w. rw_active (ch_receivers ch w)) ?rs = live_receivers ch" "distinct ?rs"
    "filter (\<lambda>w. sd_active (ch_senders ch w)) ?ss = live_senders ch" "distinct ?ss"
    using d by (simp_all add: pruned_receivers_def pruned_senders_def live_receivers_def live_senders_def distinct_prune_waiters)
  show ?thesis
  proof (cases "live_senders ch = []")
    case True
    then have "content ch = ch_messages ch" by (simp add: content_def)
    moreover have "can_send_now_locked ch =
        (?rs \<noteq> [] \<or> has_buffer_capacity_locked ch, ch\<lparr>ch_receiver_waiters := ?rs, ch_sender_waiters := ?ss\<rparr>)"
      using op e(1) True
      by (auto simp: can_send_now_locked_def has_waiting_senders_locked_def has_waiting_receivers_locked_def Let_def
          has_buffer_capacity_locked_def pruned_receivers_def split: bool.splits)
    ultimately show ?thesis
      using op e(2) ch_inv_prune [OF assms f] sub
      by (intro exI [of _ "ch\<lparr>ch_receiver_waiters := ?rs, ch_sender_waiters := ?ss\<rparr>"] exI [of _ ?rs] exI [of _ ?ss])
        (auto simp: has_buffer_capacity_locked_def)
  next
    case False
    with assms have full: "ch_capacity ch \<noteq> 0" "\<not> length (ch_messages ch) < ch_capacity ch" "live_receivers ch = []"
      by (auto simp: ch_inv_def has_buffer_capacity_locked_def content_def)
    then have "\<not> length (content ch) < ch_capacity ch" by (simp add: content_def)
    moreover have "can_send_now_locked ch = (False, ch\<lparr>ch_sender_waiters := ?ss\<rparr>)"
      using op e(1) False by (simp add: can_send_now_locked_def has_waiting_senders_locked_def Let_def)
    moreover have "ch_inv (ch\<lparr>ch_sender_waiters := ?ss\<rparr>) \<and> content (ch\<lparr>ch_sender_waiters := ?ss\<rparr>) = content ch \<and>
        live_receivers (ch\<lparr>ch_sender_waiters := ?ss\<rparr>) = live_receivers ch \<and> live_senders (ch\<lparr>ch_sender_waiters := ?ss\<rparr>) = live_senders ch"
      using ch_inv_prune [OF assms _ d(1) f(3,4)] by (simp add: live_receivers_def)
    ultimately show ?thesis using full sub
      by (intro exI [of _ "ch\<lparr>ch_sender_waiters := ?ss\<rparr>"] exI [of _ "ch_receiver_waiters ch"] exI [of _ ?ss]) simp
  qed
qed

text \<open>Placing a message: the longest-waiting receiver gets it, or it goes to the end of the buffer.\<close>

lemma place_send_spec:
  assumes "ch_inv ch" and "\<not> ch_closed ch" and "live_receivers ch \<noteq> [] \<or> ch_capacity ch = 0 \<or> length (content ch) < ch_capacity ch"
  shows "\<exists>ch' fx'. place_send_locked v (ch, fx) = (ch', fx') \<and> ch_inv ch' \<and> ch_closed ch' = ch_closed ch \<and>
    ch_capacity ch' = ch_capacity ch \<and> live_senders ch' = live_senders ch \<and>
    ch_senders ch' = ch_senders ch \<and> set (ch_sender_waiters ch') = set (ch_sender_waiters ch) \<and>
    set (ch_receiver_waiters ch') \<subseteq> set (ch_receiver_waiters ch) \<and>
    (case live_receivers ch of
       [] \<Rightarrow> content ch' = content ch @ [v] \<and> live_receivers ch' = [] \<and> ch_receivers ch' = ch_receivers ch \<and>
         ch_ready_receivers ch' = ch_ready_receivers ch \<and> fx' = fx
     | w # ws \<Rightarrow> content ch' = [] \<and> live_receivers ch' = ws \<and>
         ch_receivers ch' = (ch_receivers ch)(w := (ch_receivers ch w)\<lparr>rw_active := False, rw_completed := True,
           rw_timed_out := False, rw_value := Some v, rw_timer := None\<rparr>) \<and>
         ch_ready_receivers ch' = ch_ready_receivers ch @ (if rw_continuation (ch_receivers ch w) then [w] else []) \<and>
         fx_wake_loop fx')"
proof (cases ch rule: pop_receiver_cases)
  case none
  with assms have c: "live_senders ch = []"
    by (auto simp: ch_inv_def content_def has_buffer_capacity_locked_def)
  let ?c = "ch\<lparr>ch_receiver_waiters := [], ch_messages := ch_messages ch @ [v]\<rparr>"
  have l: "live_senders ?c = []" "live_receivers ?c = []" using c by (simp_all add: live_senders_def live_receivers_def)
  have "ch_capacity ch \<noteq> 0 \<longrightarrow> length (ch_messages ch) < ch_capacity ch"
    using assms(3) none c by (auto simp: content_def)
  then have i: "ch_inv ?c" using assms(1) l c by (auto simp: ch_inv_def ch_waiters_ok_def)
  have "content ?c = content ch @ [v]" using l c by (simp add: content_def)
  with none l c i show ?thesis
    by (intro exI [of _ ?c] exI [of _ fx]) (simp add: place_send_locked_def)
next
  case (some w ws)
  let ?c = "ch\<lparr>ch_receiver_waiters := ws\<rparr>"
  let ?f = "\<lambda>x. x\<lparr>rw_timed_out := False, rw_value := Some v\<rparr>"
  let ?r = "complete_receiver ?f w (?c, fx)"
  from some(1) have ne: "live_receivers ch \<noteq> []" by simp
  with assms(1) have e1: "content ch = []" unfolding ch_inv_def by blast
  then have e: "content ch = []" "live_senders ch = []" by (simp_all add: content_def)
  have d: "w \<notin> set ws" "distinct ws" "set ws \<subseteq> set (ch_receiver_waiters ch)"
  proof -
    let ?P = "\<lambda>w. rw_active (ch_receivers ch w)"
    have pr: "prune_waiters ?P (ch_receiver_waiters ch) = w # ws" using some(3) by (simp add: pruned_receivers_def)
    have "distinct (ch_receiver_waiters ch)" using assms(1) by (simp add: ch_inv_def ch_waiters_ok_def)
    from distinct_prune_waiters [OF this, of ?P] show "w \<notin> set ws" "distinct ws" by (simp_all add: pr)
    from set_prune_waiters [of ?P "ch_receiver_waiters ch"] show "set ws \<subseteq> set (ch_receiver_waiters ch)" by (simp add: pr)
  qed
  have l: "live_senders ?c = []" "content ?c = []"
    using e by (simp_all add: live_senders_def content_def)
  have i: "ch_inv ?c"
    using assms(1) d some(1) l e by (auto simp: ch_inv_def ch_waiters_ok_def has_buffer_capacity_locked_def)
  have r: "ch_inv (fst ?r)" "live_receivers (fst ?r) = live_receivers ?c"
    using ch_inv_complete [of "(?c, fx)" w ?f] live_receivers_complete [of w "(?c, fx)" ?f] i d by simp_all
  have "place_send_locked v (ch, fx) = (fst ?r, (snd ?r)\<lparr>fx_wake_loop := True\<rparr>)"
    using some(2) by (simp add: place_send_locked_def complete_receiver_value_locked_def case_prod_beta)
  moreover have "ch_receivers (fst ?r) = (ch_receivers ch)(w := (ch_receivers ch w)\<lparr>rw_active := False, rw_completed := True,
           rw_timed_out := False, rw_value := Some v, rw_timer := None\<rparr>)"
    by (simp add: complete_receiver_def Let_def)
  moreover have "ch_ready_receivers (fst ?r) = ch_ready_receivers ch @ (if rw_continuation (ch_receivers ch w) then [w] else [])"
    by (simp add: complete_receiver_def Let_def)
  ultimately show ?thesis
    using r l d some(1) e
    by (intro exI [of _ "fst ?r"] exI [of _ "(snd ?r)\<lparr>fx_wake_loop := True\<rparr>"]) simp
qed

end
