(* ===== verification/Channel_Fifo.thy ===== *)
theory Channel_Fifo
  imports Channel_Spec
begin

text \<open>
  Runs of a channel: every sequence of its operations, of firing timers and of turns of the event
  loop does what a bounded FIFO queue does, with the same outcomes.
\<close>

section \<open>The specification\<close>

text \<open>
  The messages in order (those of blocked senders included), the receivers waiting, whether the
  channel is closed, and which message each suspended receiver was given.
\<close>

record 'a fifo =
  ff_capacity :: nat
  ff_queue :: "'a list"
  ff_waiting :: "nat list"
  ff_closed :: bool
  ff_given :: "(nat \<times> 'a) list"

datatype 'a ch_event =
    Ce_try_send bool 'a
  | Ce_send bool nat 'a
  | Ce_try_recv bool
  | Ce_recv bool nat
  | Ce_recv_for bool int nat
  | Ce_fire nat
  | Ce_close
  | Ce_job
  | Ce_async

datatype 'a ch_outcome =
    Oc_sent "bool result"
  | Oc_send "unit awaited"
  | Oc_taken "'a option result"
  | Oc_recv "'a awaited"
  | Oc_recv_for "'a option awaited"
  | Oc_none

definition ff_can_send :: "'a fifo \<Rightarrow> bool" where
  "ff_can_send f \<longleftrightarrow> \<not> ff_closed f \<and>
     (ff_waiting f \<noteq> [] \<or> ff_capacity f = 0 \<or> length (ff_queue f) < ff_capacity f)"

definition ff_put :: "'a \<Rightarrow> 'a fifo \<Rightarrow> 'a fifo" where
  "ff_put v f =
     (case ff_waiting f of
        [] \<Rightarrow> f\<lparr>ff_queue := ff_queue f @ [v]\<rparr>
      | w # ws \<Rightarrow> f\<lparr>ff_waiting := ws, ff_given := ff_given f @ [(w, v)]\<rparr>)"

fun fifo_step :: "'a ch_event \<Rightarrow> 'a fifo \<Rightarrow> 'a ch_outcome \<times> 'a fifo" where
  "fifo_step (Ce_try_send b v) f =
     (if ff_closed f then (Oc_sent (Inl (Runtime_error ''message_channel is closed'')), f)
      else if ff_can_send f then (Oc_sent (Inr True), ff_put v f)
      else (Oc_sent (Inr False), f))"
| "fifo_step (Ce_send b s v) f =
     (if ff_closed f then (Oc_send (Continues (Inl Closed_error)), f)
      else if ff_can_send f then (Oc_send (Continues (Inr ())), ff_put v f)
      else (Oc_send Suspended, f\<lparr>ff_queue := ff_queue f @ [v]\<rparr>))"
| "fifo_step (Ce_try_recv b) f =
     (case ff_queue f of
        [] \<Rightarrow> (Oc_taken (Inr None), f)
      | v # vs \<Rightarrow> (Oc_taken (Inr (Some v)), f\<lparr>ff_queue := vs\<rparr>))"
| "fifo_step (Ce_recv b w) f =
     (case ff_queue f of
        v # vs \<Rightarrow> (Oc_recv (Continues (Inr v)), f\<lparr>ff_queue := vs, ff_given := ff_given f @ [(w, v)]\<rparr>)
      | [] \<Rightarrow> if ff_closed f then (Oc_recv (Continues (Inl Closed_error)), f)
              else (Oc_recv Suspended, f\<lparr>ff_waiting := ff_waiting f @ [w]\<rparr>))"
| "fifo_step (Ce_recv_for b timeout w) f =
     (case ff_queue f of
        v # vs \<Rightarrow> (Oc_recv_for (Continues (Inr (Some v))), f\<lparr>ff_queue := vs, ff_given := ff_given f @ [(w, v)]\<rparr>)
      | [] \<Rightarrow> if ff_closed f then (Oc_recv_for (Continues (Inl Closed_error)), f)
              else if timeout \<le> 0 then (Oc_recv_for (Continues (Inr None)), f)
              else (Oc_recv_for Suspended, f\<lparr>ff_waiting := ff_waiting f @ [w]\<rparr>))"
| "fifo_step (Ce_fire t) f = (Oc_none, f\<lparr>ff_waiting := filter (\<lambda>v. v \<noteq> t) (ff_waiting f)\<rparr>)"
| "fifo_step Ce_close f =
     (Oc_none, f\<lparr>ff_closed := True, ff_waiting := [],
       ff_queue := (if ff_capacity f = 0 then ff_queue f else take (ff_capacity f) (ff_queue f))\<rparr>)"
| "fifo_step Ce_job f = (Oc_none, f)"
| "fifo_step Ce_async f = (Oc_none, f)"

section \<open>The channel's steps\<close>

fun ch_step :: "'a ch_event \<Rightarrow> 'a chan_world \<Rightarrow> 'a ch_outcome \<times> 'a chan_world" where
  "ch_step (Ce_try_send b v) c = (case try_send b v c of (r, c') \<Rightarrow> (Oc_sent r, c'))"
| "ch_step (Ce_send b s v) c = (case channel_async_send b s v c of (r, c') \<Rightarrow> (Oc_send r, c'))"
| "ch_step (Ce_try_recv b) c = (case try_recv b c of (r, c') \<Rightarrow> (Oc_taken r, c'))"
| "ch_step (Ce_recv b w) c = (case recv b w c of (r, c') \<Rightarrow> (Oc_recv r, c'))"
| "ch_step (Ce_recv_for b timeout w) c = (case recv_for b timeout w w c of (r, c') \<Rightarrow> (Oc_recv_for r, c'))"
| "ch_step (Ce_fire t) c = (Oc_none, ct_fire t c)"
| "ch_step Ce_close c = (Oc_none, snd (close_channel c))"
| "ch_step Ce_job c = (Oc_none, chan_job_step Uv_ok Uv_ok c)"
| "ch_step Ce_async c = (Oc_none, chan_on_async c)"

text \<open>
  What the steps assume: each coroutine uses a waiter of its own (its timer has the same number),
  and a timer fires only when it is started and not being closed.
\<close>

fun ch_enabled :: "'a ch_event \<Rightarrow> 'a chan_world \<Rightarrow> 'a fifo \<Rightarrow> bool" where
  "ch_enabled (Ce_send b s v) c f \<longleftrightarrow> s \<notin> set (ch_sender_waiters (cw_ch c))"
| "ch_enabled (Ce_recv b w) c f \<longleftrightarrow> w \<notin> set (ch_receiver_waiters (cw_ch c)) \<and> w \<notin> fst ` set (ff_given f)"
| "ch_enabled (Ce_recv_for b timeout w) c f \<longleftrightarrow>
     w \<notin> set (ch_receiver_waiters (cw_ch c)) \<and> w \<notin> fst ` set (ff_given f) \<and> \<not> ct_handle (cw_timers c w)"
| "ch_enabled (Ce_fire t) c f \<longleftrightarrow> ct_handle (cw_timers c t) \<and> \<not> ct_closing (cw_timers c t)"
| "ch_enabled ev c f \<longleftrightarrow> True"

section \<open>The simulation relation\<close>

definition world_ok :: "'a chan_world \<Rightarrow> bool" where
  "world_ok c \<longleftrightarrow> ch_inv (cw_ch c) \<and> \<not> rt_shutting_down (cw_rt c) \<and> rt_send_rc (cw_rt c) = Uv_ok \<and>
     cw_async_rc c = Uv_ok \<and> (\<not> cw_async_open c \<longrightarrow> ch_closed (cw_ch c)) \<and>
     (Cj_close \<in> set (rt_queue (cw_rt c)) \<longrightarrow> ch_closed (cw_ch c)) \<and>
     (\<forall>t. ct_handle (cw_timers c t) \<longrightarrow> ct_waiter (cw_timers c t) = t) \<and>
     (\<forall>t timeout. Cj_timer_start t timeout \<in> set (rt_queue (cw_rt c)) \<longrightarrow> ct_waiter (cw_timers c t) = t)"

definition ch_sim :: "'a chan_world \<Rightarrow> 'a fifo \<Rightarrow> bool" where
  "ch_sim c f \<longleftrightarrow> world_ok c \<and> ff_capacity f = ch_capacity (cw_ch c) \<and> ff_queue f = content (cw_ch c) \<and>
     ff_waiting f = live_receivers (cw_ch c) \<and> ff_closed f = ch_closed (cw_ch c) \<and>
     (\<forall>(w, v)\<in>set (ff_given f). rw_value (ch_receivers (cw_ch c) w) = Some v \<and>
        rw_completed (ch_receivers (cw_ch c) w) \<and> rw_exception (ch_receivers (cw_ch c) w) = None)"

lemma ch_sim_new: "ch_sim (new_chan_world n) \<lparr>ff_capacity = n, ff_queue = [], ff_waiting = [], ff_closed = False, ff_given = []\<rparr>"
  by (simp add: ch_sim_def world_ok_def new_chan_world_def new_channel_def ch_inv_def ch_waiters_ok_def
    live_receivers_def live_senders_def content_def)

text \<open>Clearing the ready lists changes nothing that the specification sees.\<close>

definition same_core :: "'a channel \<Rightarrow> 'a channel \<Rightarrow> bool" where
  "same_core ch ch' \<longleftrightarrow> ch' = ch\<lparr>ch_ready_receivers := ch_ready_receivers ch', ch_ready_senders := ch_ready_senders ch'\<rparr>"

lemma same_core_refl [simp]: "same_core ch ch"
  by (simp add: same_core_def)

lemma same_coreD:
  assumes "same_core ch ch'"
  shows "content ch' = content ch" "live_receivers ch' = live_receivers ch" "live_senders ch' = live_senders ch"
    "ch_closed ch' = ch_closed ch" "ch_capacity ch' = ch_capacity ch" "ch_receivers ch' = ch_receivers ch"
    "ch_senders ch' = ch_senders ch" "ch_receiver_waiters ch' = ch_receiver_waiters ch" "ch_inv ch' = ch_inv ch"
proof -
  obtain rr rs where e: "ch' = ch\<lparr>ch_ready_receivers := rr, ch_ready_senders := rs\<rparr>" using assms by (auto simp: same_core_def)
  show l: "live_receivers ch' = live_receivers ch" "live_senders ch' = live_senders ch"
    by (simp_all add: e live_receivers_def live_senders_def)
  then show c: "content ch' = content ch" by (simp add: e content_def sender_value_def)
  show "ch_closed ch' = ch_closed ch" "ch_capacity ch' = ch_capacity ch" "ch_receivers ch' = ch_receivers ch"
    "ch_senders ch' = ch_senders ch" "ch_receiver_waiters ch' = ch_receiver_waiters ch"
    by (simp_all add: e)
  show "ch_inv ch' = ch_inv ch"
    using l c by (simp add: ch_inv_def ch_waiters_ok_def has_buffer_capacity_locked_def) (simp add: e)
qed

lemma cancel_timers_only_rt:
  "\<exists>rt. cancel_timers ts c = c\<lparr>cw_rt := rt\<rparr> \<and> rt_shutting_down rt = rt_shutting_down (cw_rt c) \<and>
     rt_send_rc rt = rt_send_rc (cw_rt c) \<and> set (rt_queue rt) \<subseteq> set (rt_queue (cw_rt c)) \<union> range Cj_timer_cancel"
proof (induction ts arbitrary: c)
  case Nil
  show ?case by (rule exI [of _ "cw_rt c"]) (simp add: cancel_timers_def)
next
  case (Cons t ts)
  have u: "cancel_timers (t # ts) c = cancel_timers ts (cancel_timer_posted t c)" by (simp add: cancel_timers_def)
  from Cons.IH [of "cancel_timer_posted t c"] obtain rt where
    "cancel_timers ts (cancel_timer_posted t c) = (cancel_timer_posted t c)\<lparr>cw_rt := rt\<rparr>"
    "rt_shutting_down rt = rt_shutting_down (cw_rt c)" "rt_send_rc rt = rt_send_rc (cw_rt c)"
    "set (rt_queue rt) \<subseteq> set (rt_queue (cw_rt (cancel_timer_posted t c))) \<union> range Cj_timer_cancel"
    by (auto simp: cancel_timer_posted_def)
  moreover have "set (rt_queue (cw_rt (cancel_timer_posted t c))) \<subseteq> set (rt_queue (cw_rt c)) \<union> range Cj_timer_cancel"
    by (auto simp: cancel_timer_posted_def post_queue)
  ultimately show ?case unfolding u by (intro exI [of _ rt]) (auto simp: cancel_timer_posted_def)
qed

text \<open>After unlocking nothing is lost: the job queue grows, the ready ones are flushed or announced.\<close>

lemma world_ok_rt:
  assumes "world_ok c" and "rt_shutting_down rt = rt_shutting_down (cw_rt c)" and "rt_send_rc rt = rt_send_rc (cw_rt c)"
    and "set (rt_queue rt) \<subseteq> set (rt_queue (cw_rt c)) \<union> range Cj_timer_cancel"
  shows "world_ok (c\<lparr>cw_rt := rt\<rparr>)"
  using assms unfolding world_ok_def by auto

lemma world_ok_flush: "world_ok c \<Longrightarrow> world_ok (flush_ready_waiters c)"
  and flush_same_core: "same_core (cw_ch c) (cw_ch (flush_ready_waiters c))"
proof -
  show sc: "same_core (cw_ch c) (cw_ch (flush_ready_waiters c))" by (simp add: same_core_def flush_ready_waiters_def)
  show "world_ok c \<Longrightarrow> world_ok (flush_ready_waiters c)"
    using same_coreD [OF sc] by (simp add: world_ok_def) (simp add: flush_ready_waiters_def)
qed

lemma finalize_sim:
  assumes "world_ok c" and "fx_wake_loop fx \<longrightarrow> b \<or> cw_async_open c"
  shows "\<exists>c'. finalize_after_unlock b fx c = (Inr (), c') \<and> world_ok c' \<and> same_core (cw_ch c) (cw_ch c')"
proof -
  let ?c = "if fx_notify_blocked_senders fx then c\<lparr>cw_cv_notified := cw_cv_notified c + 1\<rparr> else c"
  obtain rt where t: "cancel_timers (fx_timers_to_cancel fx) ?c = ?c\<lparr>cw_rt := rt\<rparr>"
    "rt_shutting_down rt = rt_shutting_down (cw_rt ?c)" "rt_send_rc rt = rt_send_rc (cw_rt ?c)"
    "set (rt_queue rt) \<subseteq> set (rt_queue (cw_rt ?c)) \<union> range Cj_timer_cancel"
    using cancel_timers_only_rt [of "fx_timers_to_cancel fx" ?c] by blast
  let ?d = "?c\<lparr>cw_rt := rt\<rparr>"
  have "world_ok ?c" using assms(1) by (simp add: world_ok_def)
  from world_ok_rt [OF this t(2-4)] have d: "world_ok ?d" .
  have f: "finalize_after_unlock b fx c = (if fx_wake_loop fx then notify_ready_waiters b ?d else (Inr (), ?d))"
    unfolding finalize_after_unlock_def Let_def t(1) ..
  consider "\<not> fx_wake_loop fx" | "fx_wake_loop fx" "b" | "fx_wake_loop fx" "\<not> b" "cw_async_open c" using assms(2) by blast
  then show ?thesis
  proof cases
    case 1
    with d f show ?thesis by (intro exI [of _ ?d]) simp
  next
    case 2
    with f have "finalize_after_unlock b fx c = (Inr (), flush_ready_waiters ?d)" by (simp add: notify_ready_waiters_def)
    moreover have "cw_ch ?d = cw_ch c" by simp
    ultimately show ?thesis using world_ok_flush [OF d] flush_same_core [of ?d] by metis
  next
    case 3
    let ?e = "?d\<lparr>cw_async_pending := True\<rparr>"
    have "cw_async_rc ?d = Uv_ok" "cw_async_open ?d" using assms(1) 3 by (simp_all add: world_ok_def)
    with 3 f have "finalize_after_unlock b fx c = (Inr (), ?e)" by (simp add: notify_ready_waiters_def)
    moreover have "world_ok ?e" using d by (simp add: world_ok_def)
    ultimately show ?thesis by (intro exI [of _ ?e]) simp
  qed
qed

section \<open>Each step\<close>

lemma world_ok_ch:
  "world_ok c \<Longrightarrow> ch_inv ch \<Longrightarrow> (ch_closed (cw_ch c) \<longrightarrow> ch_closed ch) \<Longrightarrow> world_ok (c\<lparr>cw_ch := ch\<rparr>)"
  by (auto simp: world_ok_def)

definition given_ok :: "(nat \<times> 'a) list \<Rightarrow> (nat \<Rightarrow> 'a receiver_waiter) \<Rightarrow> bool" where
  "given_ok gs R \<longleftrightarrow> (\<forall>(w, v)\<in>set gs. rw_value (R w) = Some v \<and> rw_completed (R w) \<and> rw_exception (R w) = None)"

lemma ch_sim_alt:
  "ch_sim c f \<longleftrightarrow> world_ok c \<and> ff_capacity f = ch_capacity (cw_ch c) \<and> ff_queue f = content (cw_ch c) \<and>
     ff_waiting f = live_receivers (cw_ch c) \<and> ff_closed f = ch_closed (cw_ch c) \<and>
     given_ok (ff_given f) (ch_receivers (cw_ch c))"
  by (simp add: ch_sim_def given_ok_def)

text \<open>Storing a new channel state and finishing after the unlock.\<close>

lemma finish_sim:
  assumes "world_ok c" and "ch_inv ch" and "ch_closed ch = ch_closed (cw_ch c)"
    and "fx_wake_loop fx \<longrightarrow> \<not> ch_closed (cw_ch c)"
    and "ff_capacity f = ch_capacity ch" and "ff_queue f = content ch" and "ff_waiting f = live_receivers ch"
    and "ff_closed f = ch_closed ch" and "given_ok (ff_given f) (ch_receivers ch)"
  shows "\<exists>c'. finalize_after_unlock b fx (c\<lparr>cw_ch := ch\<rparr>) = (Inr (), c') \<and> ch_sim c' f \<and>
     ch_receivers (cw_ch c') = ch_receivers ch \<and> ch_senders (cw_ch c') = ch_senders ch"
proof -
  have ok: "world_ok (c\<lparr>cw_ch := ch\<rparr>)" using world_ok_ch assms(1-3) by metis
  have "fx_wake_loop fx \<longrightarrow> b \<or> cw_async_open (c\<lparr>cw_ch := ch\<rparr>)" using assms(1,4) by (auto simp: world_ok_def)
  from finalize_sim [OF ok this] obtain c' where c': "finalize_after_unlock b fx (c\<lparr>cw_ch := ch\<rparr>) = (Inr (), c')"
    "world_ok c'" "same_core ch (cw_ch c')" by auto
  with same_coreD [OF c'(3)] assms(5-9) show ?thesis by (auto simp: ch_sim_alt)
qed

lemma given_ok_upd: "given_ok gs R \<Longrightarrow> w \<notin> fst ` set gs \<Longrightarrow> given_ok gs (R(w := x))"
  unfolding given_ok_def by (auto simp: image_iff split: prod.splits)

lemma given_ok_snoc:
  "given_ok gs R \<Longrightarrow> w \<notin> fst ` set gs \<Longrightarrow> rw_value x = Some v \<Longrightarrow> rw_completed x \<Longrightarrow> rw_exception x = None \<Longrightarrow>
     given_ok (gs @ [(w, v)]) (R(w := x))"
  using given_ok_upd [of gs R w x] by (auto simp: given_ok_def)

lemma waiting_not_given:
  assumes "ch_sim c f" and "w \<in> set (live_receivers (cw_ch c))"
  shows "w \<notin> fst ` set (ff_given f)"
  using assms by (auto simp: ch_sim_alt given_ok_def world_ok_def ch_inv_def ch_waiters_ok_def)

lemma put_given_ok:
  assumes "ch_sim c f" and "live_receivers (cw_ch c) = w # ws"
    and "R = (ch_receivers (cw_ch c))(w := (ch_receivers (cw_ch c) w)\<lparr>rw_active := False, rw_completed := True,
           rw_timed_out := False, rw_value := Some v, rw_timer := None\<rparr>)"
  shows "given_ok (ff_given f @ [(w, v)]) R"
proof -
  have "rw_exception (ch_receivers (cw_ch c) w) = None"
    using assms(1,2) by (auto simp: ch_sim_alt world_ok_def ch_inv_def ch_waiters_ok_def)
  then show ?thesis
    unfolding assms(3)
    by (intro given_ok_snoc) (use assms waiting_not_given [OF assms(1), of w] in \<open>auto simp: ch_sim_alt\<close>)
qed

lemma ch_sim_parts:
  assumes "ch_sim c f"
  shows "ch_inv (cw_ch c)" "world_ok c" "ff_capacity f = ch_capacity (cw_ch c)" "ff_queue f = content (cw_ch c)"
    "ff_waiting f = live_receivers (cw_ch c)" "ff_closed f = ch_closed (cw_ch c)" "given_ok (ff_given f) (ch_receivers (cw_ch c))"
  using assms by (simp_all add: ch_sim_alt world_ok_def)

lemma finalize_no_effects: "finalize_after_unlock b no_effects c = (Inr (), c)"
  by (simp add: finalize_after_unlock_def no_effects_def cancel_timers_def)

text \<open>The state after a message was placed simulates \<open>ff_put\<close>.\<close>

lemma place_sim:
  assumes "ch_sim c f" and "ch_inv ch" and "content ch = content (cw_ch c)" and "live_receivers ch = live_receivers (cw_ch c)"
    and "ch_closed ch = ch_closed (cw_ch c)" and "ch_capacity ch = ch_capacity (cw_ch c)" and "ch_receivers ch = ch_receivers (cw_ch c)"
    and "ff_can_send f"
  shows "\<exists>ch' fx'. place_send_locked v (ch, fx) = (ch', fx') \<and> ch_inv ch' \<and> ch_closed ch' = ch_closed (cw_ch c) \<and>
     ch_senders ch' = ch_senders ch \<and> ff_capacity (ff_put v f) = ch_capacity ch' \<and> ff_queue (ff_put v f) = content ch' \<and>
     ff_waiting (ff_put v f) = live_receivers ch' \<and> ff_closed (ff_put v f) = ch_closed ch' \<and>
     given_ok (ff_given (ff_put v f)) (ch_receivers ch')"
proof -
  note p = ch_sim_parts [OF assms(1)]
  have can: "\<not> ch_closed ch" "live_receivers ch \<noteq> [] \<or> ch_capacity ch = 0 \<or> length (content ch) < ch_capacity ch"
    using assms p by (auto simp: ff_can_send_def)
  from place_send_spec [OF assms(2) can, of v fx] obtain ch' fx' where
    s: "place_send_locked v (ch, fx) = (ch', fx')" "ch_inv ch'" "ch_closed ch' = ch_closed ch" "ch_capacity ch' = ch_capacity ch"
      "ch_senders ch' = ch_senders ch"
      "case live_receivers ch of
       [] \<Rightarrow> content ch' = content ch @ [v] \<and> live_receivers ch' = [] \<and> ch_receivers ch' = ch_receivers ch \<and>
         ch_ready_receivers ch' = ch_ready_receivers ch \<and> fx' = fx
     | w # ws \<Rightarrow> content ch' = [] \<and> live_receivers ch' = ws \<and>
         ch_receivers ch' = (ch_receivers ch)(w := (ch_receivers ch w)\<lparr>rw_active := False, rw_completed := True,
           rw_timed_out := False, rw_value := Some v, rw_timer := None\<rparr>) \<and>
         ch_ready_receivers ch' = ch_ready_receivers ch @ (if rw_continuation (ch_receivers ch w) then [w] else []) \<and>
         fx_wake_loop fx'" by blast
  show ?thesis
  proof (cases "live_receivers ch")
    case Nil
    with s assms p show ?thesis by (intro exI [of _ ch'] exI [of _ fx']) (simp add: ff_put_def)
  next
    case (Cons w ws)
    from Cons assms(4,7) put_given_ok [OF assms(1), of w ws _ v] s(6)
    have "given_ok (ff_given f @ [(w, v)]) (ch_receivers ch')" by simp
    moreover have "content ch = []" using assms(2) Cons by (auto simp: ch_inv_def)
    moreover from s(6) Cons have s6: "content ch' = []" "live_receivers ch' = ws" by simp_all
    moreover have "ff_waiting f = w # ws" using p(5) assms(4) Cons by simp
    ultimately show ?thesis using s(1-5) assms(3,5,6) p(3,4,6)
      by (intro exI [of _ ch'] exI [of _ fx']) (simp add: ff_put_def)
  qed
qed

lemma can_send_sim:
  assumes "ch_sim c f"
  shows "\<exists>ch'. can_send_now_locked (cw_ch c) = (ff_can_send f, ch') \<and> ch_inv ch' \<and> content ch' = content (cw_ch c) \<and>
    live_receivers ch' = live_receivers (cw_ch c) \<and> ch_closed ch' = ch_closed (cw_ch c) \<and>
    ch_capacity ch' = ch_capacity (cw_ch c) \<and> ch_receivers ch' = ch_receivers (cw_ch c) \<and> ch_senders ch' = ch_senders (cw_ch c)"
  using can_send_now_spec [OF ch_sim_parts(1) [OF assms]] ch_sim_parts [OF assms] by (auto simp: ff_can_send_def)

lemma sim_same:
  assumes "ch_sim c f" and "ch_inv ch'" and "content ch' = content (cw_ch c)" and
    "live_receivers ch' = live_receivers (cw_ch c)" and "ch_closed ch' = ch_closed (cw_ch c)" and
    "ch_capacity ch' = ch_capacity (cw_ch c)" and "ch_receivers ch' = ch_receivers (cw_ch c)"
  shows "ch_sim (c\<lparr>cw_ch := ch'\<rparr>) f"
  using assms world_ok_ch [of c ch'] by (auto simp: ch_sim_alt)

lemma try_send_sim:
  assumes "ch_sim c f"
  shows "\<exists>c'. ch_step (Ce_try_send b v) c = (fst (fifo_step (Ce_try_send b v) f), c') \<and> ch_sim c' (snd (fifo_step (Ce_try_send b v) f))"
proof -
  note p = ch_sim_parts [OF assms]
  show ?thesis
  proof (cases "ch_closed (cw_ch c)")
    case True
    with assms p show ?thesis by (auto simp: try_send_def send_refused_def)
  next
    case False
    with ch_inv_simps [OF p(1)] have r: "send_refused (cw_ch c) = None" by (simp add: send_refused_def)
    obtain ch1 where c1: "can_send_now_locked (cw_ch c) = (ff_can_send f, ch1)" "ch_inv ch1" "content ch1 = content (cw_ch c)"
      "live_receivers ch1 = live_receivers (cw_ch c)" "ch_closed ch1 = ch_closed (cw_ch c)"
      "ch_capacity ch1 = ch_capacity (cw_ch c)" "ch_receivers ch1 = ch_receivers (cw_ch c)"
      using can_send_sim [OF assms] by blast
    show ?thesis
    proof (cases "ff_can_send f")
      case False
      with \<open>\<not> ch_closed (cw_ch c)\<close> p r c1 sim_same [OF assms c1(2-7)] show ?thesis
        by (simp add: try_send_def)
    next
      case True
      from place_sim [OF assms c1(2-7) True, of v no_effects] obtain ch2 fx2 where
        c2: "place_send_locked v (ch1, no_effects) = (ch2, fx2)" "ch_inv ch2" "ch_closed ch2 = ch_closed (cw_ch c)"
        "ff_capacity (ff_put v f) = ch_capacity ch2" "ff_queue (ff_put v f) = content ch2"
        "ff_waiting (ff_put v f) = live_receivers ch2" "ff_closed (ff_put v f) = ch_closed ch2"
        "given_ok (ff_given (ff_put v f)) (ch_receivers ch2)" by blast
      have "fx_wake_loop (fx2\<lparr>fx_notify_blocked_senders := False\<rparr>) \<longrightarrow> \<not> ch_closed (cw_ch c)" using \<open>\<not> ch_closed (cw_ch c)\<close> by simp
      from finish_sim [OF p(2) c2(2,3) this c2(4-8), of b] r c1(1) c2(1) True \<open>\<not> ch_closed (cw_ch c)\<close> p(6)
      show ?thesis by (auto simp: try_send_def)
    qed
  qed
qed

lemma take_given: "given_ok gs R \<Longrightarrow> R' = R \<Longrightarrow> given_ok gs R'"
  by simp

lemma try_recv_sim:
  assumes "ch_sim c f"
  shows "\<exists>c'. ch_step (Ce_try_recv b) c = (fst (fifo_step (Ce_try_recv b) f), c') \<and> ch_sim c' (snd (fifo_step (Ce_try_recv b) f))"
proof -
  note p = ch_sim_parts [OF assms]
  from take_message_spec [OF p(1), of no_effects] obtain ch' fx' where
    t: "take_message (cw_ch c, no_effects) = ((case content (cw_ch c) of [] \<Rightarrow> None | v # vs \<Rightarrow> Some v), ch', fx')"
      "ch_inv ch'" "content ch' = tl (content (cw_ch c))" "live_receivers ch' = live_receivers (cw_ch c)"
      "ch_closed ch' = ch_closed (cw_ch c)" "ch_capacity ch' = ch_capacity (cw_ch c)" "ch_receivers ch' = ch_receivers (cw_ch c)"
      "live_senders (cw_ch c) = [] \<longrightarrow> fx_wake_loop fx' = fx_wake_loop no_effects" by blast
  have "ch_closed (cw_ch c) \<longrightarrow> live_senders (cw_ch c) = []" using p(1) by (auto simp: ch_inv_def)
  with t(8) have wake: "fx_wake_loop fx' \<longrightarrow> \<not> ch_closed (cw_ch c)" by (auto simp: no_effects_def)
  let ?f = "f\<lparr>ff_queue := tl (ff_queue f)\<rparr>"
  from finish_sim [OF p(2) t(2,5) wake, of ?f b] t p obtain c' where
    c': "finalize_after_unlock b fx' (c\<lparr>cw_ch := ch'\<rparr>) = (Inr (), c')" "ch_sim c' ?f" by auto
  show ?thesis
  proof (cases "content (cw_ch c)")
    case Nil
    then have "?f = f" using p(4) by (cases f) simp
    with c'(2) have "ch_sim c' f" by metis
    with Nil c'(1) t(1) p(4) show ?thesis by (simp add: try_recv_def)
  next
    case (Cons v vs)
    then have q: "ff_queue f = v # vs" using p(4) by simp
    from Cons c'(1) t(1) have "ch_step (Ce_try_recv b) c = (Oc_taken (Inr (Some v)), c')" by (simp add: try_recv_def)
    with c'(2) q show ?thesis by simp
  qed
qed

text \<open>A fresh receiver outside the queue does not matter.\<close>

lemma fresh_receiver_sim:
  assumes "ch_sim c f" and "w \<notin> set (ch_receiver_waiters (cw_ch c))" and "w \<notin> fst ` set (ff_given f)"
    and "ch = (cw_ch c)\<lparr>ch_receivers := (ch_receivers (cw_ch c))(w := x)\<rparr>"
  shows "ch_inv ch \<and> content ch = content (cw_ch c) \<and> live_receivers ch = live_receivers (cw_ch c) \<and>
    live_senders ch = live_senders (cw_ch c) \<and> ch_closed ch = ch_closed (cw_ch c) \<and> ch_capacity ch = ch_capacity (cw_ch c) \<and>
    given_ok (ff_given f) (ch_receivers ch)"
proof -
  note p = ch_sim_parts [OF assms(1)]
  have l: "live_receivers ch = live_receivers (cw_ch c)" "live_senders ch = live_senders (cw_ch c)"
    using assms(2) unfolding assms(4) by (auto simp: live_receivers_def live_senders_def intro!: filter_cong)
  then have c: "content ch = content (cw_ch c)" by (simp add: content_def sender_value_def assms(4))
  have nw: "v \<noteq> w" if "v \<in> set (live_receivers (cw_ch c))" for v using that assms(2) by (auto simp: live_receivers_def)
  have "ch_waiters_ok ch"
    using p(1) l nw by (auto simp: ch_inv_def ch_waiters_ok_def) (auto simp: assms(4))
  with p(1) l c have "ch_inv ch" by (simp add: ch_inv_def has_buffer_capacity_locked_def) (simp add: assms(4))
  moreover have "given_ok (ff_given f) (ch_receivers ch)"
    using given_ok_upd [OF p(7) assms(3)] by (simp add: assms(4))
  ultimately show ?thesis using l c by (simp add: assms(4))
qed

lemma complete_exception_drop:
  "complete_receiver_exception_locked w e (ch\<lparr>ch_sender_waiters := []\<rparr>, fx) =
     ((fst (complete_receiver_exception_locked w e (ch, fx)))\<lparr>ch_sender_waiters := []\<rparr>,
      snd (complete_receiver_exception_locked w e (ch, fx)))"
  by (simp add: complete_receiver_exception_locked_def complete_receiver_def Let_def split: option.split)

text \<open>\<open>recv\<close> with a fresh receiver that finds a message.\<close>

lemma try_recv_value_sim:
  assumes "ch_sim c f" and "w \<notin> set (ch_receiver_waiters (cw_ch c))" and "w \<notin> fst ` set (ff_given f)"
    and "ch = (cw_ch c)\<lparr>ch_receivers := (ch_receivers (cw_ch c))(w := new_receiver)\<rparr>" and "content (cw_ch c) = v # vs"
  shows "\<exists>ch' fx' c'. try_recv_locked w (ch, no_effects) = (True, ch', fx') \<and>
     finalize_after_unlock b fx' (c\<lparr>cw_ch := ch'\<rparr>) = (Inr (), c') \<and>
     ch_sim c' (f\<lparr>ff_queue := vs, ff_given := ff_given f @ [(w, v)]\<rparr>) \<and>
     ch_receivers (cw_ch c') w = new_receiver\<lparr>rw_active := False, rw_completed := True, rw_value := Some v\<rparr>"
proof -
  note p = ch_sim_parts [OF assms(1)]
  from fresh_receiver_sim [OF assms(1-4)] have fr: "ch_inv ch" "content ch = v # vs" "live_senders ch = live_senders (cw_ch c)"
    "ch_closed ch = ch_closed (cw_ch c)" "ch_capacity ch = ch_capacity (cw_ch c)" "given_ok (ff_given f) (ch_receivers ch)"
    using assms(5) by simp_all
  have nq: "w \<notin> set (ch_receiver_waiters ch)" using assms(2,4) by simp
  from try_recv_locked_value [OF fr(1) nq fr(2), of no_effects] obtain ch' fx' where
    t: "try_recv_locked w (ch, no_effects) = (True, ch', fx')" "ch_inv ch'" "content ch' = vs" "live_receivers ch' = []"
      "ch_closed ch' = ch_closed ch" "ch_capacity ch' = ch_capacity ch"
      "ch_receivers ch' w = (ch_receivers ch w)\<lparr>rw_active := False, rw_completed := True, rw_timed_out := False, rw_value := Some v, rw_timer := None\<rparr>"
      "\<forall>u. u \<noteq> w \<longrightarrow> ch_receivers ch' u = ch_receivers ch u"
      "live_senders ch = [] \<longrightarrow> fx_wake_loop fx' = fx_wake_loop no_effects" by blast
  have x: "ch_receivers ch' w = new_receiver\<lparr>rw_active := False, rw_completed := True, rw_value := Some v\<rparr>"
    using t(7) by (simp add: assms(4) new_receiver_def)
  have "ch_receivers ch' = (ch_receivers ch)(w := ch_receivers ch' w)" using t(8) by (auto simp: fun_eq_iff)
  then have g: "given_ok (ff_given f @ [(w, v)]) (ch_receivers ch')"
    using given_ok_snoc [OF fr(6) assms(3), of "ch_receivers ch' w" v] x by (simp add: new_receiver_def)
  have "ch_closed (cw_ch c) \<longrightarrow> live_senders ch = []" using p(1) fr(3) by (auto simp: ch_inv_def)
  with t(9) have wake: "fx_wake_loop fx' \<longrightarrow> \<not> ch_closed (cw_ch c)" by (auto simp: no_effects_def)
  have lr: "live_receivers (cw_ch c) = []" using p(1) assms(5) by (auto simp: ch_inv_def)
  let ?f = "f\<lparr>ff_queue := vs, ff_given := ff_given f @ [(w, v)]\<rparr>"
  have cl: "ch_closed ch' = ch_closed (cw_ch c)" using t(5) fr(4) by simp
  from finish_sim [OF p(2) t(2) cl wake, of ?f b] t(3,4,6) fr(5) p cl lr g obtain c' where
    "finalize_after_unlock b fx' (c\<lparr>cw_ch := ch'\<rparr>) = (Inr (), c')" "ch_sim c' ?f" "ch_receivers (cw_ch c') = ch_receivers ch'"
    by auto
  with t(1) x show ?thesis by auto
qed

text \<open>A receiver that queues up at an empty open channel.\<close>

lemma enqueue_receiver_sim:
  assumes "ch_sim c f" and "w \<notin> set (ch_receiver_waiters (cw_ch c))" and "w \<notin> fst ` set (ff_given f)"
    and "content (cw_ch c) = []" and "\<not> ch_closed (cw_ch c)"
    and "rw_active x" "\<not> rw_completed x" "rw_value x = None" "rw_exception x = None"
    and "ch = (cw_ch c)\<lparr>ch_receivers := (ch_receivers (cw_ch c))(w := x), ch_sender_waiters := [],
      ch_receiver_waiters := ch_receiver_waiters (cw_ch c) @ [w]\<rparr>"
  shows "ch_sim (c\<lparr>cw_ch := ch\<rparr>) (f\<lparr>ff_waiting := ff_waiting f @ [w]\<rparr>)"
proof -
  note p = ch_sim_parts [OF assms(1)]
  have m: "ch_messages (cw_ch c) = []" "live_senders (cw_ch c) = []" using content_Nil_iff [OF p(1)] assms(4) by simp_all
  have l: "live_receivers ch = live_receivers (cw_ch c) @ [w]"
    using assms(2,6) unfolding assms(10) by (auto simp: live_receivers_def intro!: filter_cong)
  have ls: "live_senders ch = []" by (simp add: assms(10) live_senders_def)
  have c: "content ch = []" using m ls by (simp add: content_def assms(10))
  have nw: "v \<noteq> w" if "v \<in> set (live_receivers (cw_ch c))" for v using that assms(2) by (auto simp: live_receivers_def)
  have R: "ch_receivers ch = (ch_receivers (cw_ch c))(w := x)" by (simp add: assms(10))
  have "ch_waiters_ok ch"
    using p(1) l ls nw assms(2,7-9) R
    by (auto simp: ch_inv_def ch_waiters_ok_def) (auto simp: assms(10))
  with p(1) ls c m assms(5) have "ch_inv ch"
    by (simp add: ch_inv_def has_buffer_capacity_locked_def) (simp add: assms(10))
  moreover have "given_ok (ff_given f) (ch_receivers ch)" unfolding R by (rule given_ok_upd [OF p(7) assms(3)])
  ultimately show ?thesis
    using p world_ok_ch [OF p(2), of ch] l c assms(4,5) by (simp add: ch_sim_alt) (simp add: assms(10))
qed

text \<open>What a receiver finds at an empty channel.\<close>

lemma empty_recv:
  assumes "ch_sim c f" and "w \<notin> set (ch_receiver_waiters (cw_ch c))" and "w \<notin> fst ` set (ff_given f)"
    and "ch = (cw_ch c)\<lparr>ch_receivers := (ch_receivers (cw_ch c))(w := x)\<rparr>" and "content (cw_ch c) = []"
  shows "try_recv_locked w (ch, fx) =
     (if ch_closed (cw_ch c) then (True, complete_receiver_exception_locked w Closed_error (ch\<lparr>ch_sender_waiters := []\<rparr>, fx))
      else (False, ch\<lparr>ch_sender_waiters := []\<rparr>, fx))"
  using try_recv_locked_empty [of ch w fx] fresh_receiver_sim [OF assms(1-4)] assms(5) by simp

lemma drop_senders_sim:
  assumes "ch_sim c f" and "content (cw_ch c) = []"
  shows "ch_sim (c\<lparr>cw_ch := (cw_ch c)\<lparr>ch_sender_waiters := []\<rparr>\<rparr>) f"
proof -
  note p = ch_sim_parts [OF assms(1)]
  have "live_senders (cw_ch c) = []" using content_Nil_iff [OF p(1)] assms(2) by simp
  from ch_inv_drop_senders [OF p(1) this] p world_ok_ch [OF p(2), of "(cw_ch c)\<lparr>ch_sender_waiters := []\<rparr>"]
  show ?thesis by (simp add: ch_sim_alt)
qed

text \<open>Completing a fresh receiver with an exception or a timeout leaves the rest alone.\<close>

lemma fresh_done_sim:
  assumes "ch_sim c f" and "w \<notin> set (ch_receiver_waiters (cw_ch c))" and "w \<notin> fst ` set (ff_given f)"
    and "content (cw_ch c) = []"
  shows "ch_sim (c\<lparr>cw_ch := (cw_ch c)\<lparr>ch_receivers := (ch_receivers (cw_ch c))(w := x), ch_sender_waiters := []\<rparr>\<rparr>) f"
proof -
  let ?c = "c\<lparr>cw_ch := (cw_ch c)\<lparr>ch_receivers := (ch_receivers (cw_ch c))(w := x)\<rparr>\<rparr>"
  from fresh_receiver_sim [OF assms(1-3) refl, of x] ch_sim_parts [OF assms(1)] world_ok_ch [OF ch_sim_parts(2) [OF assms(1)]]
  have "ch_sim ?c f" by (simp add: ch_sim_alt)
  moreover have "content (cw_ch ?c) = []" using fresh_receiver_sim [OF assms(1-3) refl, of x] assms(4) by simp
  ultimately show ?thesis using drop_senders_sim [of ?c f] by simp
qed

lemma recv_sim:
  assumes "ch_sim c f" and "ch_enabled (Ce_recv b w) c f"
  shows "\<exists>c'. ch_step (Ce_recv b w) c = (fst (fifo_step (Ce_recv b w) f), c') \<and> ch_sim c' (snd (fifo_step (Ce_recv b w) f))"
proof -
  note p = ch_sim_parts [OF assms(1)]
  from assms(2) have w: "w \<notin> set (ch_receiver_waiters (cw_ch c))" "w \<notin> fst ` set (ff_given f)" by simp_all
  let ?ch = "(cw_ch c)\<lparr>ch_receivers := (ch_receivers (cw_ch c))(w := new_receiver)\<rparr>"
  show ?thesis
  proof (cases "content (cw_ch c)")
    case (Cons v vs)
    from try_recv_value_sim [OF assms(1) w refl Cons, of b] obtain ch' fx' c' where
      "try_recv_locked w (?ch, no_effects) = (True, ch', fx')" "finalize_after_unlock b fx' (c\<lparr>cw_ch := ch'\<rparr>) = (Inr (), c')"
      "ch_sim c' (f\<lparr>ff_queue := vs, ff_given := ff_given f @ [(w, v)]\<rparr>)"
      "ch_receivers (cw_ch c') w = new_receiver\<lparr>rw_active := False, rw_completed := True, rw_value := Some v\<rparr>" by blast
    moreover have "ff_queue f = v # vs" using p(4) Cons by simp
    ultimately show ?thesis by (simp add: recv_def Let_def recv_await_resume_def new_receiver_def)
  next
    case Nil
    then have q: "ff_queue f = []" using p(4) by simp
    note e = empty_recv [OF assms(1) w refl Nil]
    show ?thesis
    proof (cases "ch_closed (cw_ch c)")
      case True
      let ?x = "new_receiver\<lparr>rw_active := False, rw_completed := True, rw_exception := Some Closed_error\<rparr>"
      let ?c = "c\<lparr>cw_ch := (cw_ch c)\<lparr>ch_receivers := (ch_receivers (cw_ch c))(w := ?x), ch_sender_waiters := []\<rparr>\<rparr>"
      have "recv b w c = (Continues (Inl Closed_error), ?c)"
        using e [of new_receiver no_effects] True
        by (simp add: recv_def Let_def complete_receiver_exception_locked_def complete_receiver_def
            recv_await_resume_def finalize_no_effects new_receiver_def)
      with fresh_done_sim [OF assms(1) w Nil, of ?x] q True p(6) show ?thesis by simp
    next
      case False
      let ?x = "new_receiver\<lparr>rw_continuation := True\<rparr>"
      let ?c = "c\<lparr>cw_ch := (cw_ch c)\<lparr>ch_receivers := (ch_receivers (cw_ch c))(w := ?x), ch_sender_waiters := [],
        ch_receiver_waiters := ch_receiver_waiters (cw_ch c) @ [w]\<rparr>\<rparr>"
      have s1: "try_recv_locked w (?ch, no_effects) = (False, ?ch\<lparr>ch_sender_waiters := []\<rparr>, no_effects)"
        using e [of new_receiver no_effects] False by simp
      let ?d = "c\<lparr>cw_ch := (cw_ch c)\<lparr>ch_sender_waiters := []\<rparr>\<rparr>"
      have ds: "ch_sim ?d f" by (rule drop_senders_sim [OF assms(1) Nil])
      have dn: "content (cw_ch ?d) = []"
        using ch_sim_parts(4) [OF ds] q by simp
      have s2: "try_recv_locked w ((cw_ch ?d)\<lparr>ch_receivers := (ch_receivers (cw_ch ?d))(w := ?x)\<rparr>, no_effects) =
          (False, (cw_ch ?d)\<lparr>ch_receivers := (ch_receivers (cw_ch ?d))(w := ?x)\<rparr>, no_effects)"
        using empty_recv [OF ds _ w(2) refl dn, of ?x no_effects] w(1) False by simp
      have s3: "recv_await_suspend w (?ch\<lparr>ch_sender_waiters := []\<rparr>, no_effects) = (True, cw_ch ?c, no_effects)"
        using s2 by (simp add: recv_await_suspend_def)
      have "recv b w c = (Suspended, ?c)"
        unfolding recv_def Let_def s1 prod.case bool.case s3 by simp
      moreover have "ch_sim ?c (f\<lparr>ff_waiting := ff_waiting f @ [w]\<rparr>)"
        by (rule enqueue_receiver_sim [OF assms(1) w Nil False _ _ _ _ refl]) (simp_all add: new_receiver_def)
      ultimately show ?thesis using q False p(6) by simp
    qed
  qed
qed

lemma recv_for_sim:
  assumes "ch_sim c f" and "ch_enabled (Ce_recv_for b timeout w) c f"
  shows "\<exists>c'. ch_step (Ce_recv_for b timeout w) c = (fst (fifo_step (Ce_recv_for b timeout w) f), c') \<and>
    ch_sim c' (snd (fifo_step (Ce_recv_for b timeout w) f))"
proof -
  note p = ch_sim_parts [OF assms(1)]
  from assms(2) have w: "w \<notin> set (ch_receiver_waiters (cw_ch c))" "w \<notin> fst ` set (ff_given f)"
    and th: "\<not> ct_handle (cw_timers c w)" by simp_all
  let ?ch = "(cw_ch c)\<lparr>ch_receivers := (ch_receivers (cw_ch c))(w := new_receiver)\<rparr>"
  show ?thesis
  proof (cases "content (cw_ch c)")
    case (Cons v vs)
    from try_recv_value_sim [OF assms(1) w refl Cons, of b] obtain ch' fx' c' where
      "try_recv_locked w (?ch, no_effects) = (True, ch', fx')" "finalize_after_unlock b fx' (c\<lparr>cw_ch := ch'\<rparr>) = (Inr (), c')"
      "ch_sim c' (f\<lparr>ff_queue := vs, ff_given := ff_given f @ [(w, v)]\<rparr>)"
      "ch_receivers (cw_ch c') w = new_receiver\<lparr>rw_active := False, rw_completed := True, rw_value := Some v\<rparr>" by blast
    moreover have "ff_queue f = v # vs" using p(4) Cons by simp
    ultimately show ?thesis by (simp add: recv_for_def recv_for_attempt_def Let_def recv_for_await_resume_def new_receiver_def)
  next
    case Nil
    then have q: "ff_queue f = []" using p(4) by simp
    note e = empty_recv [OF assms(1) w refl Nil]
    show ?thesis
    proof (cases "ch_closed (cw_ch c)")
      case True
      let ?x = "new_receiver\<lparr>rw_active := False, rw_completed := True, rw_exception := Some Closed_error\<rparr>"
      let ?c = "c\<lparr>cw_ch := (cw_ch c)\<lparr>ch_receivers := (ch_receivers (cw_ch c))(w := ?x), ch_sender_waiters := []\<rparr>\<rparr>"
      have "recv_for b timeout w w c = (Continues (Inl Closed_error), ?c)"
        using e [of new_receiver no_effects] True
        by (simp add: recv_for_def recv_for_attempt_def Let_def complete_receiver_exception_locked_def complete_receiver_def
            recv_for_await_resume_def finalize_no_effects new_receiver_def)
      with fresh_done_sim [OF assms(1) w Nil, of ?x] q True p(6) show ?thesis by simp
    next
      case False
      have s1: "try_recv_locked w (?ch, no_effects) = (False, ?ch\<lparr>ch_sender_waiters := []\<rparr>, no_effects)"
        using e [of new_receiver no_effects] False by simp
      show ?thesis
      proof (cases "timeout \<le> 0")
        case True
        let ?x = "new_receiver\<lparr>rw_completed := True, rw_timed_out := True\<rparr>"
        let ?c = "c\<lparr>cw_ch := (cw_ch c)\<lparr>ch_receivers := (ch_receivers (cw_ch c))(w := ?x), ch_sender_waiters := []\<rparr>\<rparr>"
        have "recv_for b timeout w w c = (Continues (Inr None), ?c)"
          using s1 True by (simp add: recv_for_def recv_for_attempt_def Let_def recv_for_await_resume_def finalize_no_effects new_receiver_def)
        with fresh_done_sim [OF assms(1) w Nil, of ?x] q True False p(6) show ?thesis by simp
      next
        case tp: False
        let ?x = "new_receiver\<lparr>rw_continuation := True, rw_timer := Some w\<rparr>"
        let ?y = "new_receiver\<lparr>rw_continuation := True\<rparr>"
        let ?t = "\<lparr>ct_waiter = w, ct_handle = False, ct_canceled = False, ct_closing = False\<rparr>"
        let ?rt = "(cw_rt c)\<lparr>rt_queue := rt_queue (cw_rt c) @ [Cj_timer_start w timeout], rt_wakeup := True\<rparr>"
        let ?c1 = "c\<lparr>cw_ch := (cw_ch c)\<lparr>ch_receivers := (ch_receivers (cw_ch c))(w := ?x), ch_sender_waiters := [],
          ch_receiver_waiters := ch_receiver_waiters (cw_ch c) @ [w]\<rparr>\<rparr>"
        let ?c = "?c1\<lparr>cw_rt := ?rt, cw_timers := (cw_timers c)(w := ?t)\<rparr>"
        let ?d = "c\<lparr>cw_ch := (cw_ch c)\<lparr>ch_sender_waiters := []\<rparr>\<rparr>"
        have ds: "ch_sim ?d f" by (rule drop_senders_sim [OF assms(1) Nil])
        have dn: "content (cw_ch ?d) = []" using ch_sim_parts(4) [OF ds] q by simp
        have s2: "try_recv_locked w ((cw_ch ?d)\<lparr>ch_receivers := (ch_receivers (cw_ch ?d))(w := ?y)\<rparr>, no_effects) =
            (False, (cw_ch ?d)\<lparr>ch_receivers := (ch_receivers (cw_ch ?d))(w := ?y)\<rparr>, no_effects)"
          using empty_recv [OF ds _ w(2) refl dn, of ?y no_effects] w(1) False by simp
        have po: "post (Cj_timer_start w timeout) (cw_rt c) = (Inr (), ?rt)"
          using p(2) by (simp add: world_ok_def post_def async_send_def)
        have s3: "recv_for_await_suspend timeout w w no_effects (c\<lparr>cw_ch := ?ch\<lparr>ch_sender_waiters := []\<rparr>\<rparr>) = (True, no_effects, ?c)"
          using s2 tp po by (simp add: recv_for_await_suspend_def recv_for_attempt_def Let_def)
        have "recv_for b timeout w w c = (Suspended, ?c)"
          using s1 s3 tp by (simp add: recv_for_def recv_for_attempt_def Let_def)
        moreover have s4: "ch_sim ?c1 (f\<lparr>ff_waiting := ff_waiting f @ [w]\<rparr>)"
          by (rule enqueue_receiver_sim [OF assms(1) w Nil False _ _ _ _ refl]) (simp_all add: new_receiver_def)
        moreover have "ch_sim ?c (f\<lparr>ff_waiting := ff_waiting f @ [w]\<rparr>)"
          using s4 th unfolding ch_sim_alt world_ok_def by auto
        ultimately show ?thesis using q False tp p(6) by simp
      qed
    qed
  qed
qed

lemma fresh_sender_inv:
  assumes "s \<notin> set (ch_sender_waiters ch)"
  shows "content (ch\<lparr>ch_senders := (ch_senders ch)(s := x)\<rparr>) = content ch"
    "live_senders (ch\<lparr>ch_senders := (ch_senders ch)(s := x)\<rparr>) = live_senders ch"
    "live_receivers (ch\<lparr>ch_senders := (ch_senders ch)(s := x)\<rparr>) = live_receivers ch"
    "ch_inv (ch\<lparr>ch_senders := (ch_senders ch)(s := x)\<rparr>) = ch_inv ch"
proof -
  let ?ch = "ch\<lparr>ch_senders := (ch_senders ch)(s := x)\<rparr>"
  show l: "live_senders ?ch = live_senders ch"
    using assms by (auto simp: live_senders_def intro!: filter_cong)
  show r: "live_receivers ?ch = live_receivers ch" by (simp add: live_receivers_def)
  have ns: "v \<noteq> s" if "v \<in> set (live_senders ch)" for v using that assms by (auto simp: live_senders_def)
  then have "map (sender_value ?ch) (live_senders ch) = map (sender_value ch) (live_senders ch)"
    by (auto simp: sender_value_def)
  with l show c: "content ?ch = content ch" by (simp add: content_def)
  have "ch_waiters_ok ?ch = ch_waiters_ok ch" using l r ns by (auto simp: ch_waiters_ok_def)
  with l r c show "ch_inv ?ch = ch_inv ch" by (simp add: ch_inv_def has_buffer_capacity_locked_def)
qed

lemma fresh_sender_sim:
  assumes "ch_sim c f" and "s \<notin> set (ch_sender_waiters (cw_ch c))"
  shows "ch_sim (c\<lparr>cw_ch := (cw_ch c)\<lparr>ch_senders := (ch_senders (cw_ch c))(s := x)\<rparr>\<rparr>) f"
  using assms fresh_sender_inv [OF assms(2), of x] ch_sim_parts [OF assms(1)]
    world_ok_ch [of c "(cw_ch c)\<lparr>ch_senders := (ch_senders (cw_ch c))(s := x)\<rparr>"]
  by (simp add: ch_sim_alt)

text \<open>A sender that queues up at a full channel.\<close>

lemma enqueue_sender_sim:
  assumes "ch_sim c f" and "s \<notin> set (ch_sender_waiters (cw_ch c))" and "\<not> ff_can_send f" and "\<not> ch_closed (cw_ch c)"
    and "ch_senders (cw_ch c) s = x" and "sd_active x" "\<not> sd_completed x" "sd_value x = Some v"
  shows "ch_sim (c\<lparr>cw_ch := (cw_ch c)\<lparr>ch_sender_waiters := ch_sender_waiters (cw_ch c) @ [s]\<rparr>\<rparr>)
    (f\<lparr>ff_queue := ff_queue f @ [v]\<rparr>)"
proof -
  note p = ch_sim_parts [OF assms(1)]
  let ?ch = "(cw_ch c)\<lparr>ch_sender_waiters := ch_sender_waiters (cw_ch c) @ [s]\<rparr>"
  from assms(3,4) p have full: "live_receivers (cw_ch c) = []" "ch_capacity (cw_ch c) \<noteq> 0"
    "\<not> length (content (cw_ch c)) < ch_capacity (cw_ch c)" by (auto simp: ff_can_send_def)
  have l: "live_senders ?ch = live_senders (cw_ch c) @ [s]" using assms(5,6) by (simp add: live_senders_def)
  have r: "live_receivers ?ch = []" using full(1) by (simp add: live_receivers_def)
  have c: "content ?ch = content (cw_ch c) @ [v]" using l assms(5,8) by (simp add: content_def sender_value_def)
  have nb: "\<not> has_buffer_capacity_locked (cw_ch c)"
  proof (cases "live_senders (cw_ch c)")
    case Nil
    with full show ?thesis by (simp add: content_def has_buffer_capacity_locked_def)
  next
    case Cons
    with p(1) show ?thesis by (simp add: ch_inv_def)
  qed
  have "ch_waiters_ok ?ch"
    using p(1) l r assms(2,5,7,8) by (auto simp: ch_inv_def ch_waiters_ok_def)
  with p(1) r nb assms(4) have "ch_inv ?ch"
    by (simp add: ch_inv_def has_buffer_capacity_locked_def)
  then show ?thesis using p world_ok_ch [OF p(2), of ?ch] r full(1) c by (simp add: ch_sim_alt)
qed

lemma place_send_fresh:
  "ch_senders (fst (place_send_locked v cf)) = ch_senders (fst cf)"
  "ch_sender_waiters (fst (place_send_locked v cf)) = ch_sender_waiters (fst cf)"
  by (auto simp: place_send_locked_def pop_receiver_waiter_locked_def complete_receiver_value_locked_def case_prod_beta
    split: list.split)

lemma can_send_senders:
  "ch_senders (snd (can_send_now_locked ch)) = ch_senders ch"
  "set (ch_sender_waiters (snd (can_send_now_locked ch))) \<subseteq> set (ch_sender_waiters ch)"
  using set_prune_waiters [of "\<lambda>w. sd_active (ch_senders ch w)" "ch_sender_waiters ch"]
  by (auto simp: can_send_now_locked_def has_waiting_senders_locked_def has_waiting_receivers_locked_def Let_def
    pruned_senders_def split: bool.splits)

text \<open>An attempt of \<open>async_send\<close> that succeeds, and one that does not.\<close>

lemma send_attempt_sim:
  assumes "ch_sim c f" and "s \<notin> set (ch_sender_waiters (cw_ch c))" and "\<not> ch_closed (cw_ch c)"
    and "sd_value (ch_senders (cw_ch c) s) = Some v" and "sd_exception (ch_senders (cw_ch c) s) = None"
  shows "if ff_can_send f
    then \<exists>ch' fx' c'. async_send_attempt s (cw_ch c, no_effects) = (True, ch', fx') \<and>
      async_send_await_resume b s fx' (c\<lparr>cw_ch := ch'\<rparr>) = (Inr (), c') \<and> ch_sim c' (ff_put v f)
    else \<exists>ch'. async_send_attempt s (cw_ch c, no_effects) = (False, ch', no_effects) \<and> ch_sim (c\<lparr>cw_ch := ch'\<rparr>) f \<and>
      ch_senders ch' = ch_senders (cw_ch c) \<and> s \<notin> set (ch_sender_waiters ch')"
proof -
  note p = ch_sim_parts [OF assms(1)]
  obtain ch1 where c1: "can_send_now_locked (cw_ch c) = (ff_can_send f, ch1)" "ch_inv ch1" "content ch1 = content (cw_ch c)"
    "live_receivers ch1 = live_receivers (cw_ch c)" "ch_closed ch1 = ch_closed (cw_ch c)"
    "ch_capacity ch1 = ch_capacity (cw_ch c)" "ch_receivers ch1 = ch_receivers (cw_ch c)" "ch_senders ch1 = ch_senders (cw_ch c)"
    using can_send_sim [OF assms(1)] by blast
  have n1: "s \<notin> set (ch_sender_waiters ch1)" using can_send_senders(2) [of "cw_ch c"] c1(1) assms(2) by auto
  have op: "\<not> ch_closed (cw_ch c)" "\<not> ch_handle_closing (cw_ch c)" "ch_handle_initialized (cw_ch c)"
    using assms(3) ch_inv_simps [OF p(1)] by simp_all
  show ?thesis
  proof (cases "ff_can_send f")
    case False
    with op c1 n1 sim_same [OF assms(1) c1(2-7)] show ?thesis by (simp add: async_send_attempt_def Let_def)
  next
    case True
    let ?x = "(ch_senders ch1 s)\<lparr>sd_value := None\<rparr>"
    let ?ch2 = "ch1\<lparr>ch_senders := (ch_senders ch1)(s := ?x)\<rparr>"
    note f2 = fresh_sender_inv [OF n1, of ?x]
    have sim2: "ch_inv ?ch2" "content ?ch2 = content (cw_ch c)" "live_receivers ?ch2 = live_receivers (cw_ch c)"
      "ch_closed ?ch2 = ch_closed (cw_ch c)" "ch_capacity ?ch2 = ch_capacity (cw_ch c)" "ch_receivers ?ch2 = ch_receivers (cw_ch c)"
      using f2 c1 by simp_all
    from place_sim [OF assms(1) sim2 True, of v no_effects] obtain ch3 fx3 where
      c3: "place_send_locked v (?ch2, no_effects) = (ch3, fx3)" "ch_inv ch3" "ch_closed ch3 = ch_closed (cw_ch c)"
      "ch_senders ch3 = ch_senders ?ch2"
      "ff_capacity (ff_put v f) = ch_capacity ch3" "ff_queue (ff_put v f) = content ch3"
      "ff_waiting (ff_put v f) = live_receivers ch3" "ff_closed (ff_put v f) = ch_closed ch3"
      "given_ok (ff_given (ff_put v f)) (ch_receivers ch3)" by blast
    have n3: "s \<notin> set (ch_sender_waiters ch3)" using place_send_fresh(2) [of v "(?ch2, no_effects)"] c3(1) n1 by simp
    let ?y = "(ch_senders ch3 s)\<lparr>sd_completed := True\<rparr>"
    let ?ch4 = "ch3\<lparr>ch_senders := (ch_senders ch3)(s := ?y)\<rparr>"
    have e3: "sd_exception (ch_senders ch3 s) = None" using c3(4) c1(8) assms(5) by simp
    note f4 = fresh_sender_inv [OF n3, of ?y]
    have at: "async_send_attempt s (cw_ch c, no_effects) = (True, ?ch4, fx3)"
      using op c1(1,8) True c3(1) assms(4) e3
      by (simp add: async_send_attempt_def Let_def take_sender_value_def)
    have wk: "fx_wake_loop (fx3\<lparr>fx_notify_blocked_senders := False\<rparr>) \<longrightarrow> \<not> ch_closed (cw_ch c)" using assms(3) by simp
    have "ch_inv ?ch4" "ch_closed ?ch4 = ch_closed (cw_ch c)" "ff_capacity (ff_put v f) = ch_capacity ?ch4"
      "ff_queue (ff_put v f) = content ?ch4" "ff_waiting (ff_put v f) = live_receivers ?ch4" "ff_closed (ff_put v f) = ch_closed ?ch4"
      "given_ok (ff_given (ff_put v f)) (ch_receivers ?ch4)"
      using f4 c3 by simp_all
    from finish_sim [OF p(2) this(1,2) wk this(3-7), of b] obtain c' where
      "finalize_after_unlock b (fx3\<lparr>fx_notify_blocked_senders := False\<rparr>) (c\<lparr>cw_ch := ?ch4\<rparr>) = (Inr (), c')"
      "ch_sim c' (ff_put v f)" "ch_senders (cw_ch c') = ch_senders ?ch4" by blast
    with e3 have "async_send_await_resume b s fx3 (c\<lparr>cw_ch := ?ch4\<rparr>) = (Inr (), c')" "ch_sim c' (ff_put v f)"
      by (simp_all add: async_send_await_resume_def)
    with at True show ?thesis by auto
  qed
qed

lemma send_sim:
  assumes "ch_sim c f" and "ch_enabled (Ce_send b s v) c f"
  shows "\<exists>c'. ch_step (Ce_send b s v) c = (fst (fifo_step (Ce_send b s v) f), c') \<and> ch_sim c' (snd (fifo_step (Ce_send b s v) f))"
proof -
  note p = ch_sim_parts [OF assms(1)]
  from assms(2) have ns: "s \<notin> set (ch_sender_waiters (cw_ch c))" by simp
  let ?c0 = "c\<lparr>cw_ch := (cw_ch c)\<lparr>ch_senders := (ch_senders (cw_ch c))(s := new_sender v)\<rparr>\<rparr>"
  have s0: "ch_sim ?c0 f" by (rule fresh_sender_sim [OF assms(1) ns])
  show ?thesis
  proof (cases "ch_closed (cw_ch c)")
    case True
    let ?c1 = "c\<lparr>cw_ch := (cw_ch c)\<lparr>ch_senders := (ch_senders (cw_ch c))(s := (new_sender v)\<lparr>sd_exception := Some Closed_error, sd_completed := True\<rparr>)\<rparr>\<rparr>"
    have "channel_async_send b s v c = (Continues (Inl Closed_error), ?c1)"
      using True by (simp add: channel_async_send_def Let_def async_send_attempt_def async_send_await_resume_def
        finalize_no_effects [unfolded no_effects_def] no_effects_def)
    with fresh_sender_sim [OF assms(1) ns, of "(new_sender v)\<lparr>sd_exception := Some Closed_error, sd_completed := True\<rparr>"] True p(6)
    show ?thesis by simp
  next
    case False
    have pre: "s \<notin> set (ch_sender_waiters (cw_ch ?c0))" "\<not> ch_closed (cw_ch ?c0)"
      "sd_value (ch_senders (cw_ch ?c0) s) = Some v" "sd_exception (ch_senders (cw_ch ?c0) s) = None"
      using ns False by (simp_all add: new_sender_def)
    note at = send_attempt_sim [OF s0 pre, of b]
    show ?thesis
    proof (cases "ff_can_send f")
      case True
      with at obtain ch' fx' c' where "async_send_attempt s (cw_ch ?c0, no_effects) = (True, ch', fx')"
        "async_send_await_resume b s fx' (?c0\<lparr>cw_ch := ch'\<rparr>) = (Inr (), c')" "ch_sim c' (ff_put v f)" by auto
      then show ?thesis using True False p(6) by (simp add: channel_async_send_def Let_def)
    next
      case nc: False
      with at obtain ch1 where a1: "async_send_attempt s (cw_ch ?c0, no_effects) = (False, ch1, no_effects)" "ch_sim (?c0\<lparr>cw_ch := ch1\<rparr>) f"
        "ch_senders ch1 = ch_senders (cw_ch ?c0)" "s \<notin> set (ch_sender_waiters ch1)" by auto
      let ?x = "(new_sender v)\<lparr>sd_continuation := True\<rparr>"
      let ?c2 = "c\<lparr>cw_ch := ch1\<lparr>ch_senders := (ch_senders ch1)(s := ?x)\<rparr>\<rparr>"
      have "ch_sim (c\<lparr>cw_ch := ch1\<rparr>) f" using a1(2) by simp
      from fresh_sender_sim [OF this, of s ?x] a1(4) have s2: "ch_sim ?c2 f" by simp
      have "ch_closed ch1 = ch_closed (cw_ch c)" using ch_sim_parts(6) [OF s2] p(6) by simp
      then have pre2: "s \<notin> set (ch_sender_waiters (cw_ch ?c2))" "\<not> ch_closed (cw_ch ?c2)"
        "sd_value (ch_senders (cw_ch ?c2) s) = Some v" "sd_exception (ch_senders (cw_ch ?c2) s) = None"
        using a1(4) False by (simp_all add: new_sender_def)
      from send_attempt_sim [OF s2 pre2, of b] nc obtain ch3 where
        a3: "async_send_attempt s (cw_ch ?c2, no_effects) = (False, ch3, no_effects)" "ch_sim (?c2\<lparr>cw_ch := ch3\<rparr>) f"
        "ch_senders ch3 = ch_senders (cw_ch ?c2)" "s \<notin> set (ch_sender_waiters ch3)" by auto
      let ?c4 = "c\<lparr>cw_ch := ch3\<lparr>ch_sender_waiters := ch_sender_waiters ch3 @ [s]\<rparr>\<rparr>"
      have s3: "ch_sim (c\<lparr>cw_ch := ch3\<rparr>) f" using a3(2) by simp
      have "ch_closed ch3 = ch_closed (cw_ch c)" using ch_sim_parts(6) [OF s3] p(6) by simp
      with enqueue_sender_sim [OF s3, of s ?x v] a3(3,4) nc False have s4: "ch_sim ?c4 (f\<lparr>ff_queue := ff_queue f @ [v]\<rparr>)"
        by (simp add: new_sender_def)
      have "async_send_await_suspend s (ch1, no_effects) = (True, cw_ch ?c4, no_effects)"
        using a3(1) a1(3) by (simp add: async_send_await_suspend_def Let_def)
      then have "channel_async_send b s v c = (Suspended, ?c4)"
        using a1(1) by (simp add: channel_async_send_def Let_def)
      with s4 nc False p(6) show ?thesis by simp
    qed
  qed
qed

text \<open>A timer that completes its receiver takes it out of the waiting ones.\<close>

lemma ct_complete_sim:
  assumes "ch_sim c f" and "\<And>x. rw_active (g x) = rw_active x"
  shows "ch_sim (c\<lparr>cw_ch := ct_complete g t (cw_ch c)\<rparr>) (f\<lparr>ff_waiting := filter (\<lambda>v. v \<noteq> t) (ff_waiting f)\<rparr>)"
proof -
  note p = ch_sim_parts [OF assms(1)]
  let ?x = "ch_receivers (cw_ch c) t"
  show ?thesis
  proof (cases "rw_active ?x \<and> \<not> rw_completed ?x")
    case False
    have "t \<notin> set (live_receivers (cw_ch c))"
      using p(1) False by (auto simp: ch_inv_def ch_waiters_ok_def live_receivers_def)
    then have "filter (\<lambda>v. v \<noteq> t) (ff_waiting f) = ff_waiting f" using p(5) by (auto simp: filter_id_conv)
    moreover have "ct_complete g t (cw_ch c) = cw_ch c" unfolding ct_complete_def Let_def if_not_P [OF False] ..
    ultimately show ?thesis using assms(1) by simp
  next
    case True
    let ?y = "g (?x\<lparr>rw_active := False, rw_completed := True, rw_timer := None\<rparr>)"
    let ?R = "(ch_receivers (cw_ch c))(t := ?y)"
    let ?ch = "(cw_ch c)\<lparr>ch_receivers := ?R, ch_ready_receivers := ch_ready_receivers (cw_ch c) @ [t]\<rparr>"
    have e: "ct_complete g t (cw_ch c) = ?ch" using True by (simp add: ct_complete_def)
    have l: "live_receivers ?ch = filter (\<lambda>v. v \<noteq> t) (live_receivers (cw_ch c))"
      by (auto simp: live_receivers_def assms(2) intro!: filter_cong)
    have s: "live_senders ?ch = live_senders (cw_ch c)" "content ?ch = content (cw_ch c)"
      by (simp_all add: live_senders_def content_def sender_value_def)
    have k: "ch_receiver_waiters ?ch = ch_receiver_waiters (cw_ch c)" "ch_receivers ?ch = ?R" "ch_senders ?ch = ch_senders (cw_ch c)" by simp_all
    from p(1) have ok: "ch_waiters_ok (cw_ch c)" by (simp add: ch_inv_def)
    then have "ch_waiters_ok ?ch" unfolding ch_waiters_ok_def l s k by auto
    moreover have "live_receivers ?ch \<noteq> [] \<longrightarrow> live_receivers (cw_ch c) \<noteq> []" using l by auto
    ultimately have i: "ch_inv ?ch" using p(1) s by (simp add: ch_inv_def has_buffer_capacity_locked_def)
    have "t \<notin> fst ` set (ff_given f)" using p(7) True by (auto simp: given_ok_def)
    from given_ok_upd [OF p(7) this] have "given_ok (ff_given f) (ch_receivers ?ch)" by simp
    then show ?thesis using p l s i world_ok_ch [OF p(2) i] unfolding e by (simp add: ch_sim_alt)
  qed
qed

lemma same_core_sim:
  assumes "ch_sim c f" and "world_ok d" and "same_core (cw_ch c) (cw_ch d)"
  shows "ch_sim d f"
  using assms same_coreD [OF assms(3)] by (simp add: ch_sim_alt)

lemma flush_sim: "ch_sim c f \<Longrightarrow> ch_sim (flush_ready_waiters c) f"
  by (rule same_core_sim [OF _ world_ok_flush flush_same_core]) (auto dest: ch_sim_parts)

lemma timers_sim:
  assumes "ch_sim c f" and "ct_waiter x = ct_waiter (cw_timers c t)"
    and "ct_handle x \<longrightarrow> ct_handle (cw_timers c t) \<or> ct_waiter (cw_timers c t) = t"
  shows "ch_sim (c\<lparr>cw_timers := (cw_timers c)(t := x)\<rparr>) f"
  using assms unfolding ch_sim_alt world_ok_def by auto

lemma ct_close_handle_sim: "ch_sim c f \<Longrightarrow> ch_sim (ct_close_handle t c) f"
  using timers_sim [of c f "(cw_timers c t)\<lparr>ct_closing := True\<rparr>" t] by (simp add: ct_close_handle_def)

lemma ct_cancel_sim: "ch_sim c f \<Longrightarrow> ch_sim (ct_cancel t c) f"
  using timers_sim [of c f "(cw_timers c t)\<lparr>ct_canceled := True\<rparr>" t] by (simp add: ct_cancel_def ct_close_handle_sim)

lemma fire_sim:
  assumes "ch_sim c f" and "ch_enabled (Ce_fire t) c f"
  shows "\<exists>c'. ch_step (Ce_fire t) c = (fst (fifo_step (Ce_fire t) f), c') \<and> ch_sim c' (snd (fifo_step (Ce_fire t) f))"
proof -
  from assms(2) ch_sim_parts(2) [OF assms(1)] have w: "ct_waiter (cw_timers c t) = t" by (simp add: world_ok_def)
  have "ch_sim (ct_fire t c) (f\<lparr>ff_waiting := filter (\<lambda>v. v \<noteq> t) (ff_waiting f)\<rparr>)"
    unfolding ct_fire_def Let_def w by (intro ct_close_handle_sim flush_sim ct_complete_sim [OF assms(1)]) simp
  then show ?thesis by simp
qed

lemma ct_start_ok_sim:
  assumes "ch_sim c f" and "ct_waiter (cw_timers c t) = t"
  shows "ch_sim (ct_start Uv_ok Uv_ok t timeout c) f"
  using timers_sim [OF assms(1), of "(cw_timers c t)\<lparr>ct_handle := True\<rparr>" t] assms by (simp add: ct_start_def Let_def)

lemma async_sim:
  assumes "ch_sim c f"
  shows "ch_sim (chan_on_async c) f"
proof -
  have "ch_sim (c\<lparr>cw_async_pending := False\<rparr>) f" using assms by (simp add: ch_sim_alt world_ok_def)
  from flush_sim [OF this] assms show ?thesis by (simp add: chan_on_async_def)
qed

lemma job_sim:
  assumes "ch_sim c f"
  shows "ch_sim (chan_job_step Uv_ok Uv_ok c) f"
proof (cases "rt_queue (cw_rt c)")
  case Nil
  with assms show ?thesis by (simp add: chan_job_step_def)
next
  case (Cons j js)
  let ?c = "c\<lparr>cw_rt := (cw_rt c)\<lparr>rt_queue := js\<rparr>\<rparr>"
  have s: "ch_sim ?c f" using assms Cons by (auto simp: ch_sim_alt world_ok_def)
  show ?thesis
  proof (cases j)
    case (Cj_timer_start t timeout)
    with Cons ch_sim_parts(2) [OF assms] have "ct_waiter (cw_timers ?c t) = t" by (simp add: world_ok_def)
    from ct_start_ok_sim [OF s this] Cons Cj_timer_start show ?thesis by (simp add: chan_job_step_def)
  next
    case (Cj_timer_cancel t)
    with Cons ct_cancel_sim [OF s] show ?thesis by (simp add: chan_job_step_def)
  next
    case Cj_close
    with Cons ch_sim_parts(2) [OF assms] have "ch_closed (cw_ch c)" by (simp add: world_ok_def)
    then have "ch_sim ((flush_ready_waiters ?c)\<lparr>cw_async_open := False\<rparr>) f"
      using flush_sim [OF s] same_coreD(4) [OF flush_same_core [of ?c]] by (simp add: ch_sim_alt world_ok_def)
    with Cons Cj_close show ?thesis by (simp add: chan_job_step_def close_job_def)
  qed
qed


lemma map_filter_cong_set: "(\<And>x. x \<in> set xs \<Longrightarrow> f x = g x) \<Longrightarrow> List.map_filter f xs = List.map_filter g xs"
  by (induction xs) (auto split: option.split)

text \<open>Closing completes everyone who waits, with the exception, in the order of the queues.\<close>

definition closed_receiver :: "'a receiver_waiter \<Rightarrow> 'a receiver_waiter" where
  "closed_receiver x = x\<lparr>rw_active := False, rw_completed := True, rw_exception := Some Closed_error, rw_timer := None\<rparr>"

definition closed_sender :: "'a sender_waiter \<Rightarrow> 'a sender_waiter" where
  "closed_sender x = x\<lparr>sd_active := False, sd_completed := True, sd_exception := Some Closed_error\<rparr>"

lemma close_receivers_spec:
  assumes "distinct (ch_receiver_waiters (fst cf))"
  shows "\<exists>fx. close_receivers cf = ((fst cf)\<lparr>ch_receiver_waiters := [],
      ch_receivers := (\<lambda>w. if w \<in> set (live_receivers (fst cf)) then closed_receiver (ch_receivers (fst cf) w) else ch_receivers (fst cf) w),
      ch_ready_receivers := ch_ready_receivers (fst cf) @ filter (\<lambda>w. rw_continuation (ch_receivers (fst cf) w)) (live_receivers (fst cf))\<rparr>, fx) \<and>
    fx_timers_to_cancel fx = fx_timers_to_cancel (snd cf) @ List.map_filter (\<lambda>w. rw_timer (ch_receivers (fst cf) w)) (live_receivers (fst cf))"
  using assms
proof (induction cf rule: close_receivers.induct)
  case (1 cf)
  show ?case
  proof (cases "fst cf" rule: pop_receiver_cases)
    case none
    then have "pruned_receivers (fst cf) = []" by (simp add: pruned_receivers_def live_receivers_def)
    with none show ?thesis by (simp add: close_receivers.simps [of cf] fun_eq_iff)
  next
    case (some w ws)
    let ?cf = "complete_receiver_exception_locked w Closed_error ((fst cf)\<lparr>ch_receiver_waiters := ws\<rparr>, snd cf)"
    from some(3) 1(2) have d: "distinct (w # ws)" "set (w # ws) \<subseteq> set (ch_receiver_waiters (fst cf))"
      unfolding pruned_receivers_def by (metis distinct_prune_waiters, metis set_prune_waiters)
    have w: "ch_receiver_waiters (fst ?cf) = ws" by (simp add: complete_receiver_exception_locked_def)
    with 1(1) [OF some(3)] d obtain fx where
      r: "close_receivers ?cf = ((fst ?cf)\<lparr>ch_receiver_waiters := [],
        ch_receivers := (\<lambda>w. if w \<in> set (live_receivers (fst ?cf)) then closed_receiver (ch_receivers (fst ?cf) w) else ch_receivers (fst ?cf) w),
        ch_ready_receivers := ch_ready_receivers (fst ?cf) @ filter (\<lambda>w. rw_continuation (ch_receivers (fst ?cf) w)) (live_receivers (fst ?cf))\<rparr>, fx)"
        "fx_timers_to_cancel fx = fx_timers_to_cancel (snd ?cf) @ List.map_filter (\<lambda>w. rw_timer (ch_receivers (fst ?cf) w)) (live_receivers (fst ?cf))"
      by auto
    let ?ls = "live_receivers ((fst cf)\<lparr>ch_receiver_waiters := ws\<rparr>)"
    have l: "live_receivers (fst ?cf) = ?ls"
      unfolding complete_receiver_exception_locked_def using d by (subst live_receivers_complete) simp_all
    have nw: "w \<notin> set ?ls" using d by (simp add: live_receivers_def)
    have o: "ch_receivers (fst ?cf) = (ch_receivers (fst cf))(w := closed_receiver (ch_receivers (fst cf) w))"
      by (simp add: complete_receiver_exception_locked_def complete_receiver_def Let_def closed_receiver_def)
    have f1: "filter (\<lambda>v. rw_continuation (ch_receivers (fst ?cf) v)) ?ls = filter (\<lambda>v. rw_continuation (ch_receivers (fst cf) v)) ?ls"
      by (rule filter_cong) (use nw o in auto)
    have f2: "List.map_filter (\<lambda>v. rw_timer (ch_receivers (fst ?cf) v)) ?ls = List.map_filter (\<lambda>v. rw_timer (ch_receivers (fst cf) v)) ?ls"
      by (rule map_filter_cong_set) (use nw o in auto)
    have u: "close_receivers cf = close_receivers ?cf" using some(3) by (simp add: close_receivers.simps [of cf])
    have ls: "live_receivers (fst cf) = w # ?ls" using some(1) .
    have t: "fx_timers_to_cancel (snd ?cf) = fx_timers_to_cancel (snd cf) @ (case rw_timer (ch_receivers (fst cf) w) of None \<Rightarrow> [] | Some t \<Rightarrow> [t])"
      by (simp add: complete_receiver_exception_locked_def complete_receiver_def Let_def split: option.split)
    have g: "(\<lambda>v. if v \<in> set ?ls then closed_receiver (ch_receivers (fst ?cf) v) else ch_receivers (fst ?cf) v) =
        (\<lambda>v. if v \<in> set (w # ?ls) then closed_receiver (ch_receivers (fst cf) v) else ch_receivers (fst cf) v)"
      using nw by (auto simp: o fun_eq_iff)
    show ?thesis
    proof (rule exI [of _ fx], rule conjI)
      show "close_receivers cf = ((fst cf)\<lparr>ch_receiver_waiters := [],
        ch_receivers := (\<lambda>w. if w \<in> set (live_receivers (fst cf)) then closed_receiver (ch_receivers (fst cf) w) else ch_receivers (fst cf) w),
        ch_ready_receivers := ch_ready_receivers (fst cf) @ filter (\<lambda>w. rw_continuation (ch_receivers (fst cf) w)) (live_receivers (fst cf))\<rparr>, fx)"
        unfolding u r(1) l f1 g ls
        by (simp add: complete_receiver_exception_locked_def complete_receiver_def Let_def)
      show "fx_timers_to_cancel fx = fx_timers_to_cancel (snd cf) @ List.map_filter (\<lambda>w. rw_timer (ch_receivers (fst cf) w)) (live_receivers (fst cf))"
        unfolding r(2) l f2 t ls by (simp split: option.split)
    qed
  qed
qed

lemma close_senders_spec:
  assumes "distinct (ch_sender_waiters ch)"
  shows "close_senders ch = ch\<lparr>ch_sender_waiters := [],
      ch_senders := (\<lambda>s. if s \<in> set (live_senders ch) then closed_sender (ch_senders ch s) else ch_senders ch s),
      ch_ready_senders := ch_ready_senders ch @ filter (\<lambda>s. sd_continuation (ch_senders ch s)) (live_senders ch)\<rparr>"
  using assms
proof (induction ch rule: close_senders.induct)
  case (1 ch)
  show ?case
  proof (cases ch rule: pop_sender_cases)
    case none
    then have "pruned_senders ch = []" by (simp add: pruned_senders_def live_senders_def)
    with none show ?thesis by (simp add: close_senders.simps [of ch] fun_eq_iff)
  next
    case (some s ws)
    let ?c = "complete_sender_exception_locked s Closed_error (ch\<lparr>ch_sender_waiters := ws\<rparr>)"
    let ?ls = "live_senders (ch\<lparr>ch_sender_waiters := ws\<rparr>)"
    from some(3) 1(2) have d: "distinct (s # ws)" unfolding pruned_senders_def by (metis distinct_prune_waiters)
    have o: "ch_senders ?c = (ch_senders ch)(s := closed_sender (ch_senders ch s))"
      by (simp add: complete_sender_exception_locked_def complete_sender_def Let_def closed_sender_def)
    have w: "ch_sender_waiters ?c = ws" by (simp add: complete_sender_exception_locked_def)
    have l: "live_senders ?c = ?ls" using d by (auto simp: live_senders_def o w intro!: filter_cong)
    have ns: "s \<notin> set ?ls" using d by (simp add: live_senders_def)
    have f: "filter (\<lambda>v. sd_continuation (ch_senders ?c v)) ?ls = filter (\<lambda>v. sd_continuation (ch_senders ch v)) ?ls"
      by (rule filter_cong) (use ns o in auto)
    have g: "(\<lambda>v. if v \<in> set ?ls then closed_sender (ch_senders ?c v) else ch_senders ?c v) =
        (\<lambda>v. if v \<in> set (s # ?ls) then closed_sender (ch_senders ch v) else ch_senders ch v)"
      using ns by (auto simp: o fun_eq_iff)
    have u: "close_senders ch = close_senders ?c" using some(3) by (simp add: close_senders.simps [of ch])
    have i: "close_senders ?c = ?c\<lparr>ch_sender_waiters := [],
      ch_senders := (\<lambda>v. if v \<in> set (live_senders ?c) then closed_sender (ch_senders ?c v) else ch_senders ?c v),
      ch_ready_senders := ch_ready_senders ?c @ filter (\<lambda>v. sd_continuation (ch_senders ?c v)) (live_senders ?c)\<rparr>"
      by (rule 1(1) [OF some(3)]) (use d w in simp)
    show ?thesis unfolding u i l f g some(1)
      by (simp add: complete_sender_exception_locked_def complete_sender_def Let_def)
  qed
qed


text \<open>The channel that \<open>close\<close> leaves behind.\<close>

definition closed_channel :: "'a channel \<Rightarrow> 'a channel" where
  "closed_channel ch = ch\<lparr>ch_receiver_waiters := [], ch_sender_waiters := [], ch_closed := True, ch_handle_closing := True,
     ch_receivers := (\<lambda>w. if w \<in> set (live_receivers ch) then closed_receiver (ch_receivers ch w) else ch_receivers ch w),
     ch_senders := (\<lambda>s. if s \<in> set (live_senders ch) then closed_sender (ch_senders ch s) else ch_senders ch s),
     ch_ready_receivers := ch_ready_receivers ch @ filter (\<lambda>w. rw_continuation (ch_receivers ch w)) (live_receivers ch),
     ch_ready_senders := ch_ready_senders ch @ filter (\<lambda>s. sd_continuation (ch_senders ch s)) (live_senders ch)\<rparr>"

lemma live_closed [simp]:
  "live_receivers (ch\<lparr>ch_closed := b\<rparr>) = live_receivers ch" "live_senders (ch\<lparr>ch_closed := b\<rparr>) = live_senders ch"
  by (simp_all add: live_receivers_def live_senders_def)

lemma close_locked_spec:
  assumes "ch_waiters_ok ch"
  shows "\<exists>fx'. close_locked (ch, fx) = (closed_channel ch, fx') \<and>
    fx_timers_to_cancel fx' = fx_timers_to_cancel fx @ List.map_filter (\<lambda>w. rw_timer (ch_receivers ch w)) (live_receivers ch)"
proof -
  from assms have d: "distinct (ch_receiver_waiters ch)" "distinct (ch_sender_waiters ch)" by (simp_all add: ch_waiters_ok_def)
  let ?ch1 = "ch\<lparr>ch_closed := True, ch_receiver_waiters := [],
      ch_receivers := (\<lambda>w. if w \<in> set (live_receivers ch) then closed_receiver (ch_receivers ch w) else ch_receivers ch w),
      ch_ready_receivers := ch_ready_receivers ch @ filter (\<lambda>w. rw_continuation (ch_receivers ch w)) (live_receivers ch)\<rparr>"
  from close_receivers_spec [of "(ch\<lparr>ch_closed := True\<rparr>, fx)"] d(1) obtain fx' where
    r: "close_receivers (ch\<lparr>ch_closed := True\<rparr>, fx) = (?ch1, fx')"
    "fx_timers_to_cancel fx' = fx_timers_to_cancel fx @ List.map_filter (\<lambda>w. rw_timer (ch_receivers ch w)) (live_receivers ch)"
    by (auto simp del: if_image_distrib cong: if_cong)
  have l: "live_senders ?ch1 = live_senders ch" by (simp add: live_senders_def)
  from close_senders_spec [of ?ch1] d(2)
  have s: "close_senders ?ch1 = ?ch1\<lparr>ch_sender_waiters := [],
      ch_senders := (\<lambda>s. if s \<in> set (live_senders ch) then closed_sender (ch_senders ch s) else ch_senders ch s),
      ch_ready_senders := ch_ready_senders ch @ filter (\<lambda>s. sd_continuation (ch_senders ch s)) (live_senders ch)\<rparr>"
    unfolding l by (simp cong: if_cong)
  from r(1) s have "close_locked (ch, fx) = (closed_channel ch, fx')"
    by (simp add: close_locked_def closed_channel_def)
  with r(2) show ?thesis by blast
qed

lemma closed_channel_facts:
  "live_receivers (closed_channel ch) = []" "live_senders (closed_channel ch) = []"
  "content (closed_channel ch) = ch_messages ch" "ch_closed (closed_channel ch)" "ch_capacity (closed_channel ch) = ch_capacity ch"
  by (simp_all add: closed_channel_def live_receivers_def live_senders_def content_def)

lemma closed_content:
  assumes "ch_inv ch"
  shows "ch_messages ch = (if ch_capacity ch = 0 then content ch else take (ch_capacity ch) (content ch))"
proof (cases "live_senders ch")
  case Nil
  with assms show ?thesis by (auto simp: content_def ch_inv_def)
next
  case (Cons s ss)
  with assms have "ch_capacity ch \<noteq> 0" "length (ch_messages ch) = ch_capacity ch"
    by (auto simp: ch_inv_def has_buffer_capacity_locked_def)
  then show ?thesis by (simp add: content_def)
qed

lemma ch_inv_closed: "ch_inv ch \<Longrightarrow> ch_inv (closed_channel ch)"
  using closed_channel_facts [of ch]
  by (simp add: ch_inv_def ch_waiters_ok_def) (simp add: closed_channel_def)

text \<open>\<open>close\<close> as a whole; a second \<open>close\<close> posts nothing.\<close>

lemma close_channel_spec:
  assumes "world_ok c"
  shows "\<exists>rt. close_channel c = (Inr (), c\<lparr>cw_ch := closed_channel (cw_ch c), cw_cv_notified := cw_cv_notified c + 1, cw_rt := rt\<rparr>) \<and>
    rt_shutting_down rt = rt_shutting_down (cw_rt c) \<and> rt_send_rc rt = rt_send_rc (cw_rt c) \<and>
    set (rt_queue rt) \<subseteq> set (rt_queue (cw_rt c)) \<union> range Cj_timer_cancel \<union> {Cj_close} \<and>
    (\<not> ch_closed (cw_ch c) \<longrightarrow> Cj_close \<in> set (rt_queue rt))"
proof -
  from assms have inv: "ch_inv (cw_ch c)" by (simp add: world_ok_def)
  from close_locked_spec [OF ch_inv_simps(1) [OF inv], of no_effects] obtain fx where
    l: "close_locked (cw_ch c, no_effects) = (closed_channel (cw_ch c), fx)" by blast
  let ?c = "c\<lparr>cw_ch := closed_channel (cw_ch c), cw_cv_notified := cw_cv_notified c + 1\<rparr>"
  from cancel_timers_only_rt [of "fx_timers_to_cancel fx" ?c] obtain rt where
    t: "cancel_timers (fx_timers_to_cancel fx) ?c = ?c\<lparr>cw_rt := rt\<rparr>" "rt_shutting_down rt = rt_shutting_down (cw_rt c)"
      "rt_send_rc rt = rt_send_rc (cw_rt c)" "set (rt_queue rt) \<subseteq> set (rt_queue (cw_rt c)) \<union> range Cj_timer_cancel" by auto
  show ?thesis
  proof (cases "ch_closed (cw_ch c)")
    case True
    with l t ch_inv_simps(3) [OF inv] show ?thesis
      by (intro exI [of _ rt]) (auto simp: close_channel_def Let_def)
  next
    case False
    have "post Cj_close rt = (Inr (), rt\<lparr>rt_queue := rt_queue rt @ [Cj_close], rt_wakeup := True\<rparr>)"
      using t(2,3) assms by (simp add: post_def async_send_def world_ok_def)
    with l t False ch_inv_simps(3) [OF inv] show ?thesis
      by (intro exI [of _ "rt\<lparr>rt_queue := rt_queue rt @ [Cj_close], rt_wakeup := True\<rparr>"]) (auto simp: close_channel_def Let_def)
  qed
qed

lemma close_sim:
  assumes "ch_sim c f"
  shows "ch_sim (snd (close_channel c)) (snd (fifo_step Ce_close f))"
proof -
  note p = ch_sim_parts [OF assms]
  from close_channel_spec [OF p(2)] obtain rt where
    r: "close_channel c = (Inr (), c\<lparr>cw_ch := closed_channel (cw_ch c), cw_cv_notified := cw_cv_notified c + 1, cw_rt := rt\<rparr>)"
    "rt_shutting_down rt = rt_shutting_down (cw_rt c)" "rt_send_rc rt = rt_send_rc (cw_rt c)"
    "set (rt_queue rt) \<subseteq> set (rt_queue (cw_rt c)) \<union> range Cj_timer_cancel \<union> {Cj_close}" by blast
  have ok: "world_ok (snd (close_channel c))"
    using p(2) r(2-4) ch_inv_closed [OF p(1)] closed_channel_facts [of "cw_ch c"]
    unfolding r(1) world_ok_def by auto
  have "w \<notin> set (live_receivers (cw_ch c))" if "w \<in> fst ` set (ff_given f)" for w
    using waiting_not_given [OF assms] that by blast
  then have "given_ok (ff_given f) (ch_receivers (closed_channel (cw_ch c)))"
    using p(7) unfolding given_ok_def closed_channel_def by force
  with ok p closed_channel_facts [of "cw_ch c"] closed_content [OF p(1)] show ?thesis
    unfolding r(1) by (simp add: ch_sim_alt)
qed

end
