(* ===== verification/Channel_Runs.thy ===== *)
theory Channel_Runs
  imports Channel_Fifo
begin

text \<open>
  Whole runs of a channel against the FIFO specification: outcomes and order of delivery, what closing
  does to the waiters, and two defects of the notification logic.
\<close>

section \<open>Whole runs\<close>

definition new_fifo :: "nat \<Rightarrow> 'a fifo" where
  "new_fifo n = \<lparr>ff_capacity = n, ff_queue = [], ff_waiting = [], ff_closed = False, ff_given = []\<rparr>"

fun ch_run :: "'a ch_event list \<Rightarrow> 'a chan_world \<Rightarrow> 'a ch_outcome list \<times> 'a chan_world" where
  "ch_run [] c = ([], c)"
| "ch_run (ev # evs) c = (case ch_step ev c of (r, c) \<Rightarrow> (case ch_run evs c of (rs, c) \<Rightarrow> (r # rs, c)))"

fun fifo_run :: "'a ch_event list \<Rightarrow> 'a fifo \<Rightarrow> 'a ch_outcome list \<times> 'a fifo" where
  "fifo_run [] f = ([], f)"
| "fifo_run (ev # evs) f = (case fifo_step ev f of (r, f) \<Rightarrow> (case fifo_run evs f of (rs, f) \<Rightarrow> (r # rs, f)))"

fun ch_runnable :: "'a ch_event list \<Rightarrow> 'a chan_world \<Rightarrow> 'a fifo \<Rightarrow> bool" where
  "ch_runnable [] c f = True"
| "ch_runnable (ev # evs) c f \<longleftrightarrow> ch_enabled ev c f \<and> ch_runnable evs (snd (ch_step ev c)) (snd (fifo_step ev f))"

lemma step_sim:
  assumes "ch_sim c f" and "ch_enabled ev c f"
  shows "\<exists>c'. ch_step ev c = (fst (fifo_step ev f), c') \<and> ch_sim c' (snd (fifo_step ev f))"
proof (cases ev)
  case Ce_try_send
  with try_send_sim [OF assms(1)] show ?thesis by simp
next
  case Ce_send
  with send_sim [OF assms(1)] assms(2) show ?thesis by blast
next
  case Ce_try_recv
  with try_recv_sim [OF assms(1)] show ?thesis by simp
next
  case Ce_recv
  with recv_sim [OF assms(1)] assms(2) show ?thesis by blast
next
  case Ce_recv_for
  with recv_for_sim [OF assms(1)] assms(2) show ?thesis by blast
next
  case Ce_fire
  with fire_sim [OF assms(1)] assms(2) show ?thesis by blast
next
  case Ce_close
  with close_sim [OF assms(1)] show ?thesis by simp
next
  case Ce_job
  with job_sim [OF assms(1)] show ?thesis by simp
next
  case Ce_async
  with async_sim [OF assms(1)] show ?thesis by simp
qed

text \<open>What was accepted from the senders, and what \<open>try_recv\<close> took, in order.\<close>

fun accepted :: "'a ch_event \<Rightarrow> 'a ch_outcome \<Rightarrow> 'a list" where
  "accepted (Ce_try_send b v) (Oc_sent (Inr True)) = [v]"
| "accepted (Ce_send b s v) (Oc_send (Continues (Inr ()))) = [v]"
| "accepted (Ce_send b s v) (Oc_send Suspended) = [v]"
| "accepted ev r = []"

fun taken :: "'a ch_outcome \<Rightarrow> 'a list" where
  "taken (Oc_taken (Inr (Some v))) = [v]"
| "taken r = []"

definition all_accepted :: "'a ch_event list \<Rightarrow> 'a ch_outcome list \<Rightarrow> 'a list" where
  "all_accepted evs rs = concat (map2 accepted evs rs)"

definition all_taken :: "'a ch_outcome list \<Rightarrow> 'a list" where
  "all_taken rs = concat (map taken rs)"

lemma run_sim:
  "ch_sim c f \<Longrightarrow> ch_runnable evs c f \<Longrightarrow>
     fst (ch_run evs c) = fst (fifo_run evs f) \<and> ch_sim (snd (ch_run evs c)) (snd (fifo_run evs f))"
proof (induction evs arbitrary: c f)
  case Nil
  then show ?case by simp
next
  case (Cons ev evs)
  from step_sim [OF Cons.prems(1)] Cons.prems(2) obtain c' where
    c': "ch_step ev c = (fst (fifo_step ev f), c')" "ch_sim c' (snd (fifo_step ev f))" by auto
  with Cons.IH [OF c'(2)] Cons.prems(2) show ?case by (simp add: case_prod_beta)
qed

text \<open>
  The specification's ledger: what was accepted is what came out (to \<open>try_recv\<close> and to receivers),
  then what is inside, then what was dropped by closing.
\<close>

definition fifo_ledger :: "'a list \<Rightarrow> 'a list \<Rightarrow> 'a fifo \<Rightarrow> bool" where
  "fifo_ledger acc tkn f \<longleftrightarrow>
     (\<exists>out dropped. out \<in> shuffles tkn (map snd (ff_given f)) \<and> acc = out @ ff_queue f @ dropped \<and>
        (\<not> ff_closed f \<longrightarrow> dropped = []))"

lemma shuffles_snoc_right: "zs \<in> shuffles xs ys \<Longrightarrow> zs @ [v] \<in> shuffles xs (ys @ [v])"
proof (induction zs arbitrary: xs ys)
  case (Cons z zs)
  from Cons.prems Cons.IH [of "tl xs" ys] Cons.IH [of xs "tl ys"] show ?case
    by (auto simp: Cons_in_shuffles_iff)
qed simp

lemma shuffles_snoc_left: "zs \<in> shuffles xs ys \<Longrightarrow> zs @ [v] \<in> shuffles (xs @ [v]) ys"
  using shuffles_snoc_right [of zs ys xs v] by (simp add: shuffles_commutes)

lemma ledger_put:
  assumes "fifo_ledger acc tkn f" and "\<not> ff_closed f" and "ff_waiting f \<noteq> [] \<longrightarrow> ff_queue f = []"
  shows "fifo_ledger (acc @ [v]) tkn (ff_put v f)"
proof -
  from assms obtain out where o: "out \<in> shuffles tkn (map snd (ff_given f))" "acc = out @ ff_queue f"
    by (auto simp: fifo_ledger_def)
  show ?thesis
  proof (cases "ff_waiting f")
    case Nil
    with o show ?thesis by (auto simp: fifo_ledger_def ff_put_def)
  next
    case (Cons w ws)
    from shuffles_snoc_right [OF o(1), of v] Cons o assms(2,3) show ?thesis
      by (auto simp: fifo_ledger_def ff_put_def)
  qed
qed

lemma ledger_give:
  assumes "fifo_ledger acc tkn f" and "ff_queue f = v # vs"
  shows "fifo_ledger acc tkn (f\<lparr>ff_queue := vs, ff_given := ff_given f @ [(w, v)]\<rparr>)"
    and "fifo_ledger acc (tkn @ [v]) (f\<lparr>ff_queue := vs\<rparr>)"
  using assms shuffles_snoc_right [of _ tkn "map snd (ff_given f)" v] shuffles_snoc_left [of _ tkn "map snd (ff_given f)" v]
  by (fastforce simp: fifo_ledger_def)+

lemma ledger_step:
  assumes "fifo_ledger acc tkn f" and "ff_waiting f \<noteq> [] \<longrightarrow> ff_queue f = []"
  shows "fifo_ledger (acc @ accepted ev (fst (fifo_step ev f))) (tkn @ taken (fst (fifo_step ev f))) (snd (fifo_step ev f))"
proof (cases ev)
  case (Ce_try_send b v)
  with assms ledger_put [OF assms(1), of v] show ?thesis by (simp add: ff_can_send_def)
next
  case (Ce_send b s v)
  with assms ledger_put [OF assms(1), of v] show ?thesis by (auto simp: ff_can_send_def fifo_ledger_def)
next
  case (Ce_try_recv b)
  with assms(1) ledger_give(2) [OF assms(1)] show ?thesis by (cases "ff_queue f") simp_all
next
  case (Ce_recv b w)
  with assms(1) ledger_give(1) [OF assms(1)] show ?thesis by (cases "ff_queue f") (auto simp: fifo_ledger_def)
next
  case (Ce_recv_for b timeout w)
  with assms(1) ledger_give(1) [OF assms(1)] show ?thesis by (cases "ff_queue f") (auto simp: fifo_ledger_def)
next
  case (Ce_fire t)
  with assms(1) show ?thesis by (simp add: fifo_ledger_def)
next
  case Ce_close
  have "ff_queue f @ ds = (if ff_capacity f = 0 then ff_queue f else take (ff_capacity f) (ff_queue f)) @
      ((if ff_capacity f = 0 then [] else drop (ff_capacity f) (ff_queue f)) @ ds)" for ds by simp
  with assms(1) Ce_close show ?thesis by (fastforce simp: fifo_ledger_def)
next
  case Ce_job
  with assms(1) show ?thesis by simp
next
  case Ce_async
  with assms(1) show ?thesis by simp
qed

lemma sim_waiting_empty: "ch_sim c f \<Longrightarrow> ff_waiting f \<noteq> [] \<longrightarrow> ff_queue f = []"
  by (auto simp: ch_sim_alt world_ok_def ch_inv_def)

lemma run_ledger:
  "ch_sim c f \<Longrightarrow> ch_runnable evs c f \<Longrightarrow> fifo_ledger acc tkn f \<Longrightarrow>
     fifo_ledger (acc @ all_accepted evs (fst (ch_run evs c))) (tkn @ all_taken (fst (ch_run evs c))) (snd (fifo_run evs f))"
proof (induction evs arbitrary: c f acc tkn)
  case Nil
  then show ?case by (simp add: all_accepted_def all_taken_def)
next
  case (Cons ev evs)
  from step_sim [OF Cons.prems(1)] Cons.prems(2) obtain c' where
    c': "ch_step ev c = (fst (fifo_step ev f), c')" "ch_sim c' (snd (fifo_step ev f))" by auto
  from Cons.IH [OF c'(2) _ ledger_step [OF Cons.prems(3) sim_waiting_empty [OF Cons.prems(1)], of ev]] c'(1) Cons.prems(2)
  show ?case by (simp add: case_prod_beta all_accepted_def all_taken_def)
qed

lemma new_fifo_ledger: "fifo_ledger [] [] (new_fifo n)"
  by (simp add: fifo_ledger_def new_fifo_def)

text \<open>No receiver is given two messages.\<close>

lemma given_step:
  assumes "ch_sim c f" and "ch_enabled ev c f" and "distinct (map fst (ff_given f))"
  shows "distinct (map fst (ff_given (snd (fifo_step ev f))))"
proof -
  have "ff_given (snd (fifo_step ev f)) = ff_given f \<or>
    (\<exists>w v. ff_given (snd (fifo_step ev f)) = ff_given f @ [(w, v)] \<and> w \<notin> fst ` set (ff_given f))"
    using assms(2) waiting_not_given [OF assms(1)] ch_sim_parts(5) [OF assms(1)]
    by (cases ev) (auto simp: ff_put_def split: list.split)
  with assms(3) show ?thesis by auto
qed

lemma run_given:
  "ch_sim c f \<Longrightarrow> ch_runnable evs c f \<Longrightarrow> distinct (map fst (ff_given f)) \<Longrightarrow>
     distinct (map fst (ff_given (snd (fifo_run evs f))))"
proof (induction evs arbitrary: c f)
  case Nil
  then show ?case by simp
next
  case (Cons ev evs)
  from step_sim [OF Cons.prems(1)] Cons.prems(2) obtain c' where
    c': "ch_step ev c = (fst (fifo_step ev f), c')" "ch_sim c' (snd (fifo_step ev f))" by auto
  from Cons.IH [OF c'(2)] given_step [OF Cons.prems(1) _ Cons.prems(3), of ev] c'(1) Cons.prems(2)
  show ?case by (simp add: case_prod_beta)
qed


text \<open>
  C11. Every run of a channel of any capacity, started fresh, has the outcomes of the
  bounded FIFO queue of the specification, event by event, and ends in a state that represents the
  queue's: same messages in the same order (those of blocked senders behind the buffer), same waiting
  receivers, same closed flag.
\<close>

theorem channel_refines_fifo:
  assumes "ch_runnable evs (new_chan_world n) (new_fifo n)"
    and "ch_run evs (new_chan_world n) = (outs, c)" and "fifo_run evs (new_fifo n) = (outs', f)"
  shows "outs = outs' \<and> content (cw_ch c) = ff_queue f \<and> live_receivers (cw_ch c) = ff_waiting f \<and>
    ch_closed (cw_ch c) = ff_closed f \<and> ch_inv (cw_ch c)"
proof -
  have "ch_sim (new_chan_world n) (new_fifo n)" unfolding new_fifo_def by (rule ch_sim_new)
  from run_sim [OF this assms(1)] have o: "outs = outs'" and s: "ch_sim c f" by (simp_all add: assms(2,3))
  from o ch_sim_parts [OF s] show ?thesis by simp
qed

definition channel_scenario :: "nat ch_event list" where
  "channel_scenario =
     [Ce_recv True 0, Ce_send True 0 10, Ce_try_send True 11, Ce_send True 1 12, Ce_try_recv True, Ce_close, Ce_job]"

text \<open>
  On a channel of capacity one a receiver waits and is given the first message, the second is buffered,
  a sender blocks and moves up when the buffered one is taken; then the channel is closed and the job
  that closes its handle runs.
\<close>

lemma channel_scenario_runs:
  "ch_runnable channel_scenario (new_chan_world 1) (new_fifo 1)"
  by code_simp

theorem channel_refines_fifo_witness:
  "fst (ch_run channel_scenario (new_chan_world 1)) = fst (fifo_run channel_scenario (new_fifo 1)) \<and>
   content (cw_ch (snd (ch_run channel_scenario (new_chan_world 1)))) = ff_queue (snd (fifo_run channel_scenario (new_fifo 1)))"
  using channel_refines_fifo [OF channel_scenario_runs surjective_pairing surjective_pairing] by blast



text \<open>
  C13. \<open>close\<close> fails everyone who waits: each waiting receiver and each blocked sender is completed with
  \<open>closed_error\<close>, the buffered messages stay, the job that closes the handle is queued (by the first
  \<open>close\<close> only), and when it runs, the suspended ones are resumed, each once and in the order they
  came, after those that were ready before.
\<close>

theorem channel_close_fails_waiters:
  assumes "world_ok c" and "\<not> ch_closed (cw_ch c)" and "close_channel c = (r, c')"
  shows "r = Inr () \<and> ch_closed (cw_ch c') \<and> ch_messages (cw_ch c') = ch_messages (cw_ch c) \<and>
    (\<forall>w\<in>set (live_receivers (cw_ch c)). rw_completed (ch_receivers (cw_ch c') w) \<and> \<not> rw_active (ch_receivers (cw_ch c') w) \<and>
       rw_exception (ch_receivers (cw_ch c') w) = Some Closed_error) \<and>
    (\<forall>s\<in>set (live_senders (cw_ch c)). sd_completed (ch_senders (cw_ch c') s) \<and> sd_exception (ch_senders (cw_ch c') s) = Some Closed_error) \<and>
    Cj_close \<in> set (rt_queue (cw_rt c')) \<and>
    cw_resumed (close_job c') = cw_resumed c @
      map Receiver (ch_ready_receivers (cw_ch c) @ filter (\<lambda>w. rw_continuation (ch_receivers (cw_ch c) w)) (live_receivers (cw_ch c))) @
      map Sender (ch_ready_senders (cw_ch c) @ filter (\<lambda>s. sd_continuation (ch_senders (cw_ch c) s)) (live_senders (cw_ch c)))"
proof -
  from close_channel_spec [OF assms(1)] assms(2,3) obtain rt where
    "r = Inr ()" "c' = c\<lparr>cw_ch := closed_channel (cw_ch c), cw_cv_notified := cw_cv_notified c + 1, cw_rt := rt\<rparr>"
    "Cj_close \<in> set (rt_queue rt)" by auto
  then show ?thesis
    by (simp add: closed_channel_def closed_receiver_def closed_sender_def close_job_def flush_ready_waiters_def)
qed

theorem channel_close_fails_waiters_witness:
  "fst (close_channel (new_chan_world 3 :: nat chan_world)) = Inr () \<and>
   Cj_close \<in> set (rt_queue (cw_rt (snd (close_channel (new_chan_world 3 :: nat chan_world)))))"
proof -
  let ?c = "new_chan_world 3 :: nat chan_world"
  have ok: "world_ok ?c" using ch_sim_parts(2) [OF ch_sim_new] .
  have "\<not> ch_closed (cw_ch ?c)" by (simp add: new_chan_world_def new_channel_def)
  from channel_close_fails_waiters [OF ok this surjective_pairing] show ?thesis by blast
qed

lemma blocking_send_is_try_send:
  "fst (try_send False x c) = Inr True \<Longrightarrow> fst (blocking_send_pass False x c) = Send_done"
  "fst (try_send False x c) = Inr False \<Longrightarrow> fst (blocking_send_pass False x c) = Send_waits"
  by (auto simp: try_send_def blocking_send_pass_def split: option.splits prod.splits bool.splits sum.splits)

lemma finalize_cv:
  assumes "\<not> fx_notify_blocked_senders fx"
  shows "cw_cv_notified (snd (finalize_after_unlock b fx c)) = cw_cv_notified c"
proof -
  obtain rt where "cancel_timers (fx_timers_to_cancel fx) c = c\<lparr>cw_rt := rt\<rparr>"
    using cancel_timers_only_rt [of "fx_timers_to_cancel fx" c] by blast
  with assms show ?thesis
    by (simp add: finalize_after_unlock_def Let_def notify_ready_waiters_def flush_ready_waiters_def split: uv_status.split)
qed

lemma try_recv_no_cv:
  assumes "ch_inv (cw_ch c)"
  shows "cw_cv_notified (snd (try_recv b c)) = cw_cv_notified c"
proof -
  from take_message_spec [OF assms, of no_effects] obtain r ch' fx' where
    t: "take_message (cw_ch c, no_effects) = (r, ch', fx')" "\<not> fx_notify_blocked_senders fx'" by (auto simp: no_effects_def)
  then show ?thesis using finalize_cv [OF t(2), of b "c\<lparr>cw_ch := ch'\<rparr>"]
    by (auto simp: try_recv_def split: prod.split sum.split)
qed

definition fifo_of :: "'a chan_world \<Rightarrow> 'a fifo" where
  "fifo_of c = \<lparr>ff_capacity = ch_capacity (cw_ch c), ff_queue = content (cw_ch c), ff_waiting = live_receivers (cw_ch c),
     ff_closed = ch_closed (cw_ch c), ff_given = []\<rparr>"

lemma ch_sim_fifo_of: "world_ok c \<Longrightarrow> ch_sim c (fifo_of c)"
  by (simp add: ch_sim_def fifo_of_def)

text \<open>
  A defect: \<open>try_recv\<close> never notifies \<open>send_cv\<close>, unlike \<open>recv\<close>. When the channel was full, a thread
  blocked in \<open>send\<close> is left asleep although its next pass would succeed.
\<close>

theorem try_recv_strands_blocked_sender:
  assumes "world_ok c" and "\<not> ch_closed (cw_ch c)" and "ch_capacity (cw_ch c) \<noteq> 0"
    and "length (content (cw_ch c)) = ch_capacity (cw_ch c)"
  shows "\<exists>v c'. fst (blocking_send_pass False x c) = Send_waits \<and> try_recv b c = (Inr (Some v), c') \<and>
    cw_cv_notified c' = cw_cv_notified c \<and> fst (blocking_send_pass False x c') = Send_done"
proof -
  let ?f = "fifo_of c"
  note sim = ch_sim_fifo_of [OF assms(1)]
  obtain v vs where c: "content (cw_ch c) = v # vs" using assms(3,4) by (cases "content (cw_ch c)") auto
  with ch_sim_parts(1) [OF sim] have lr: "live_receivers (cw_ch c) = []" by (auto simp: ch_inv_def)
  have "fst (fifo_step (Ce_try_send False x) ?f) = Oc_sent (Inr False)"
    using lr assms(2-4) by (simp add: ff_can_send_def fifo_of_def)
  with try_send_sim [OF sim, of False x] have "fst (try_send False x c) = Inr False"
    by (auto simp: case_prod_beta)
  then have waits: "fst (blocking_send_pass False x c) = Send_waits" by (rule blocking_send_is_try_send)
  from try_recv_sim [OF sim, of b] c obtain c' where
    t: "try_recv b c = (Inr (Some v), c')" "ch_sim c' (?f\<lparr>ff_queue := vs\<rparr>)"
    by (auto simp: fifo_of_def case_prod_beta prod_eq_iff)
  have "fst (fifo_step (Ce_try_send False x) (?f\<lparr>ff_queue := vs\<rparr>)) = Oc_sent (Inr True)"
    using c assms(2-4) by (simp add: ff_can_send_def fifo_of_def)
  with try_send_sim [OF t(2), of False x] have "fst (try_send False x c') = Inr True"
    by (auto simp: case_prod_beta)
  then have "fst (blocking_send_pass False x c') = Send_done" by (rule blocking_send_is_try_send)
  with waits t(1) try_recv_no_cv [OF ch_sim_parts(1) [OF sim], of b] show ?thesis by auto
qed

lemma full_channel_sim:
  "ch_sim (snd (try_send True 7 (new_chan_world 1 :: nat chan_world))) ((new_fifo 1)\<lparr>ff_queue := [7]\<rparr>)"
proof -
  have "ch_sim (snd (ch_step (Ce_try_send True 7) (new_chan_world 1 :: nat chan_world))) (snd (fifo_step (Ce_try_send True 7) (new_fifo 1)))"
    using try_send_sim [of "new_chan_world 1 :: nat chan_world" "new_fifo 1" True 7] ch_sim_new [of 1, where 'a = nat]
    by (auto simp: new_fifo_def)
  then show ?thesis by (simp add: case_prod_beta new_fifo_def ff_can_send_def ff_put_def)
qed

theorem try_recv_strands_blocked_sender_witness:
  "\<exists>v c'. try_recv True (snd (try_send True 7 (new_chan_world 1 :: nat chan_world))) = (Inr (Some v), c') \<and>
     fst (blocking_send_pass False 8 c') = Send_done"
proof -
  let ?c = "snd (try_send True 7 (new_chan_world 1 :: nat chan_world))"
  note p = ch_sim_parts [OF full_channel_sim]
  from p(3,6) p(4) [symmetric] have "\<not> ch_closed (cw_ch ?c)" "ch_capacity (cw_ch ?c) \<noteq> 0" "length (content (cw_ch ?c)) = ch_capacity (cw_ch ?c)"
    by (simp_all add: new_fifo_def flip: One_nat_def)
  from try_recv_strands_blocked_sender [OF p(2) this, of 8 True] show ?thesis by blast
qed



text \<open>
  A defect: a message that arrives between \<open>await_ready\<close> and \<open>await_suspend\<close> of a \<open>recv\<close>. The second
  look under the lock takes it and \<open>await_suspend\<close> answers \<open>false\<close>, so the coroutine goes on at once; but
  its handle is stored already, so it is also put among the ready receivers, and the next flush
  resumes it a second time.
\<close>

theorem recv_race_resumes_twice:
  assumes "ch_inv (cw_ch c)" and "w \<notin> set (ch_receiver_waiters (cw_ch c))" and "content (cw_ch c) = v # vs"
  shows "\<exists>ch fx. recv_await_suspend w (cw_ch c, no_effects) = (False, ch, fx) \<and> rw_value (ch_receivers ch w) = Some v \<and>
    Receiver w \<in> set (cw_resumed (flush_ready_waiters (c\<lparr>cw_ch := ch\<rparr>)))"
proof -
  let ?x = "(ch_receivers (cw_ch c) w)\<lparr>rw_continuation := True\<rparr>"
  let ?ch = "(cw_ch c)\<lparr>ch_receivers := (ch_receivers (cw_ch c))(w := ?x)\<rparr>"
  have l: "live_receivers ?ch = live_receivers (cw_ch c)" "live_senders ?ch = live_senders (cw_ch c)" "content ?ch = content (cw_ch c)"
    by (auto simp: live_receivers_def live_senders_def content_def sender_value_def intro!: filter_cong)
  have "live_receivers (cw_ch c) = []" using assms(1,3) by (auto simp: ch_inv_def)
  with assms(1) l have "ch_inv ?ch" by (simp add: ch_inv_def ch_waiters_ok_def has_buffer_capacity_locked_def)
  from try_recv_locked_value [OF this, of w v vs no_effects] assms(2,3) l(3) obtain ch fx where
    "try_recv_locked w (?ch, no_effects) = (True, ch, fx)" "rw_value (ch_receivers ch w) = Some v" "w \<in> set (ch_ready_receivers ch)"
    by auto
  then show ?thesis by (simp add: recv_await_suspend_def flush_ready_waiters_def)
qed

theorem recv_race_resumes_twice_witness:
  "\<exists>ch fx. recv_await_suspend 0 (cw_ch (snd (try_send True 7 (new_chan_world 1 :: nat chan_world))), no_effects) = (False, ch, fx) \<and>
     rw_value (ch_receivers ch 0) = Some 7"
proof -
  let ?c = "snd (try_send True 7 (new_chan_world 1 :: nat chan_world))"
  note p = ch_sim_parts [OF full_channel_sim]
  have "ch_receiver_waiters (cw_ch ?c) = []" by code_simp
  with recv_race_resumes_twice [OF p(1), of 0 7 "[]"] p(4) show ?thesis by (auto simp: new_fifo_def)
qed

end
