(* ===== verification/One_Shot.thy ===== *)
theory One_Shot
  imports Waiters
begin

text \<open>
  The life of one libuv request awaited by a coroutine. \<open>stream_write\<close> and \<open>stream_shutdown\<close> of
  \<open>src/stream_ops.hpp\<close>, \<open>tcp_client::connect\<close> of \<open>src/tcp.cpp\<close> and \<open>run_fs_request\<close> of \<open>src/fs.cpp\<close> all
  have this shape: an awaiter whose state is shared with two jobs posted to the loop (one starts
  the request, one cancels it) and with libuv's completion callback. The definitions are translated
  from \<open>stream_write\<close>; the theories of the other components instantiate them.
\<close>

section \<open>State\<close>

text \<open>
  The fields of the \<open>state\<close> struct. \<open>rq_in_flight\<close> says that libuv holds the request, so that its
  callback is still to come, and \<open>rq_resumed\<close> counts how often the coroutine was resumed.
\<close>

record uv_request =
  rq_continuation :: bool
  rq_keep_alive :: bool
  rq_stop_callback :: bool
  rq_completed :: bool
  rq_status :: uv_status
  rq_cancel_requested :: bool
  rq_started :: bool
  rq_in_flight :: bool
  rq_resumed :: nat

datatype rq_job = Rj_start | Rj_cancel

type_synonym 'z rq_world = "'z uv_request_scheme \<times> rq_job uv_runtime"

definition rq_complete :: "'z uv_request_scheme \<Rightarrow> 'z uv_request_scheme" where
  "rq_complete x =
     (if rq_completed x then x
      else x\<lparr>rq_completed := True, rq_continuation := False,
             rq_resumed := rq_resumed x + (if rq_continuation x then 1 else 0),
             rq_stop_callback := False, rq_keep_alive := False\<rparr>)"

text \<open>
  The job of the stop callback. \<open>cancel_rc\<close> is what \<open>uv_cancel\<close> answers: the code goes on waiting
  for the callback when it is zero, \<open>UV_EBUSY\<close> or \<open>UV_ENOSYS\<close>. \<open>complete\<close> is the component's
  version of \<open>rq_complete\<close>.
\<close>

definition rq_cancel_pending :: "uv_status \<Rightarrow> bool" where
  "rq_cancel_pending rc \<longleftrightarrow> rc \<in> {Uv_ok, Uv_err UV_EBUSY, Uv_err UV_ENOSYS}"

definition rq_cancel_job :: "('z uv_request_scheme \<Rightarrow> 'z uv_request_scheme) \<Rightarrow> uv_status
    \<Rightarrow> 'z uv_request_scheme \<Rightarrow> 'z uv_request_scheme" where
  "rq_cancel_job complete cancel_rc x =
     (if rq_completed x then x
      else let x = x\<lparr>rq_cancel_requested := True\<rparr>
           in if \<not> rq_started x \<or> \<not> rq_cancel_pending cancel_rc
              then complete (x\<lparr>rq_status := Uv_err UV_ECANCELED\<rparr>)
              else x)"

text \<open>The job that starts the request; \<open>start_rc\<close> is what libuv answers.\<close>

definition rq_start_job :: "uv_status \<Rightarrow> 'z uv_request_scheme \<Rightarrow> 'z uv_request_scheme" where
  "rq_start_job start_rc x =
     (if rq_completed x then x
      else let x = x\<lparr>rq_started := True\<rparr>
           in (case start_rc of
                 Uv_ok \<Rightarrow> x\<lparr>rq_in_flight := True\<rparr>
               | Uv_err e \<Rightarrow> rq_complete (x\<lparr>rq_status := Uv_err e\<rparr>)))"

text \<open>libuv's callback.\<close>

definition rq_on_done :: "uv_status \<Rightarrow> 'z uv_request_scheme \<Rightarrow> 'z uv_request_scheme" where
  "rq_on_done status x = rq_complete (x\<lparr>rq_in_flight := False, rq_status := status\<rparr>)"

text \<open>
  \<open>await_suspend\<close>: the token is asked first; its callback is registered when the token can be
  stopped at all, and runs at once when the stop was requested in between (\<open>stop_meanwhile\<close>).
\<close>

definition rq_stop :: "'z rq_world \<Rightarrow> 'z rq_world" where
  "rq_stop w = (if rq_stop_callback (fst w) then (fst w, snd (post Rj_cancel (snd w))) else w)"

definition rq_await_suspend :: "bool \<Rightarrow> bool \<Rightarrow> bool \<Rightarrow> 'z rq_world \<Rightarrow> bool result \<times> 'z rq_world" where
  "rq_await_suspend stop_requested stop_possible stop_meanwhile w =
     (if stop_requested
      then (Inr False, (fst w)\<lparr>rq_cancel_requested := True, rq_status := Uv_err UV_ECANCELED\<rparr>, snd w)
      else
        let w = ((fst w)\<lparr>rq_continuation := True, rq_keep_alive := True\<rparr>, snd w);
            w = (if stop_possible
                 then (let w = ((fst w)\<lparr>rq_stop_callback := True\<rparr>, snd w)
                       in if stop_meanwhile then rq_stop w else w)
                 else w)
        in (case post Rj_start (snd w) of
              (Inl e, rt) \<Rightarrow> (Inl e, fst w, rt)
            | (Inr _, rt) \<Rightarrow> (Inr True, fst w, rt)))"

definition rq_await_resume :: "string \<Rightarrow> 'z uv_request_scheme \<Rightarrow> unit result" where
  "rq_await_resume op_name x =
     (if rq_status x = Uv_err UV_ECANCELED \<or> (rq_cancel_requested x \<and> rq_status x = Uv_ok)
      then Inl Operation_cancelled
      else (case rq_status x of
              Uv_err e \<Rightarrow> throw_uv_error e op_name
            | Uv_ok \<Rightarrow> Inr ()))"

section \<open>What happens to a request\<close>

text \<open>
  The token is stopped, the loop runs the oldest job (with what the start job finds, and libuv's
  answer to \<open>uv_cancel\<close>), or libuv calls back. \<open>complete\<close>, \<open>start\<close> and \<open>finish\<close> are the component's
  completion, its start job and its callback.
\<close>

datatype ('a, 'b) rq_event = Rq_stop | Rq_job 'a uv_status | Rq_done 'b

definition rq_run_job :: "('z uv_request_scheme \<Rightarrow> 'z uv_request_scheme) \<Rightarrow> ('z uv_request_scheme \<Rightarrow> 'z uv_request_scheme)
    \<Rightarrow> uv_status \<Rightarrow> 'z rq_world \<Rightarrow> 'z rq_world" where
  "rq_run_job complete start cancel_rc w =
     (case rt_queue (snd w) of
        [] \<Rightarrow> w
      | j # js \<Rightarrow>
          (let rt = (snd w)\<lparr>rt_queue := js\<rparr> in
           case j of
             Rj_start \<Rightarrow> (start (fst w), rt)
           | Rj_cancel \<Rightarrow> (rq_cancel_job complete cancel_rc (fst w), rt)))"

fun rq_step :: "('z uv_request_scheme \<Rightarrow> 'z uv_request_scheme) \<Rightarrow> ('a \<Rightarrow> 'z uv_request_scheme \<Rightarrow> 'z uv_request_scheme)
    \<Rightarrow> ('b \<Rightarrow> 'z uv_request_scheme \<Rightarrow> 'z uv_request_scheme) \<Rightarrow> ('a, 'b) rq_event \<Rightarrow> 'z rq_world \<Rightarrow> 'z rq_world" where
  "rq_step complete start finish Rq_stop w = rq_stop w"
| "rq_step complete start finish (Rq_job a cancel_rc) w = rq_run_job complete (start a) cancel_rc w"
| "rq_step complete start finish (Rq_done b) w = (finish b (fst w), snd w)"

text \<open>libuv calls back only for a request it holds.\<close>

fun rq_enabled :: "('a, 'b) rq_event \<Rightarrow> 'z rq_world \<Rightarrow> bool" where
  "rq_enabled (Rq_done b) w \<longleftrightarrow> rq_in_flight (fst w)"
| "rq_enabled ev w \<longleftrightarrow> True"

fun rq_run :: "(('a, 'b) rq_event \<Rightarrow> 'z rq_world \<Rightarrow> 'z rq_world) \<Rightarrow> ('a, 'b) rq_event list \<Rightarrow> 'z rq_world \<Rightarrow> 'z rq_world" where
  "rq_run step [] w = w"
| "rq_run step (ev # evs) w = rq_run step evs (step ev w)"

fun rq_runnable :: "(('a, 'b) rq_event \<Rightarrow> 'z rq_world \<Rightarrow> 'z rq_world) \<Rightarrow> ('a, 'b) rq_event list \<Rightarrow> 'z rq_world \<Rightarrow> bool" where
  "rq_runnable step [] w \<longleftrightarrow> True"
| "rq_runnable step (ev # evs) w \<longleftrightarrow> rq_enabled ev w \<and> rq_runnable step evs (step ev w)"

text \<open>\<open>uv_cancel\<close> succeeds, or says that it is too late or not supported.\<close>

fun rq_calm :: "('a, 'b) rq_event \<Rightarrow> bool" where
  "rq_calm (Rq_job a cancel_rc) \<longleftrightarrow> rq_cancel_pending cancel_rc"
| "rq_calm ev \<longleftrightarrow> True"

section \<open>Invariant\<close>

text \<open>The fields of the request proper, without those a component adds.\<close>

definition rq_core :: "'z uv_request_scheme \<Rightarrow> uv_request" where
  "rq_core = uv_request.truncate"

lemma rq_core_sel [simp]:
  "rq_continuation (rq_core x) = rq_continuation x" "rq_keep_alive (rq_core x) = rq_keep_alive x"
  "rq_stop_callback (rq_core x) = rq_stop_callback x" "rq_completed (rq_core x) = rq_completed x"
  "rq_status (rq_core x) = rq_status x" "rq_cancel_requested (rq_core x) = rq_cancel_requested x"
  "rq_started (rq_core x) = rq_started x" "rq_in_flight (rq_core x) = rq_in_flight x"
  "rq_resumed (rq_core x) = rq_resumed x"
  by (simp_all add: rq_core_def uv_request.truncate_def)

lemma rq_core_upd [simp]:
  "rq_core (x\<lparr>rq_status := s\<rparr>) = (rq_core x)\<lparr>rq_status := s\<rparr>"
  "rq_core (x\<lparr>rq_cancel_requested := b\<rparr>) = (rq_core x)\<lparr>rq_cancel_requested := b\<rparr>"
  "rq_core (x\<lparr>rq_started := b\<rparr>) = (rq_core x)\<lparr>rq_started := b\<rparr>"
  "rq_core (x\<lparr>rq_in_flight := b\<rparr>) = (rq_core x)\<lparr>rq_in_flight := b\<rparr>"
  "rq_core (x\<lparr>rq_completed := b\<rparr>) = (rq_core x)\<lparr>rq_completed := b\<rparr>"
  "rq_core (x\<lparr>rq_continuation := b\<rparr>) = (rq_core x)\<lparr>rq_continuation := b\<rparr>"
  "rq_core (x\<lparr>rq_stop_callback := b\<rparr>) = (rq_core x)\<lparr>rq_stop_callback := b\<rparr>"
  "rq_core (x\<lparr>rq_keep_alive := b\<rparr>) = (rq_core x)\<lparr>rq_keep_alive := b\<rparr>"
  "rq_core (x\<lparr>rq_resumed := n\<rparr>) = (rq_core x)\<lparr>rq_resumed := n\<rparr>"
  by (simp_all add: rq_core_def uv_request.truncate_def)

lemma rq_core_complete [simp]: "rq_core (rq_complete x) = rq_complete (rq_core x)"
  by (simp add: rq_complete_def)

lemma rq_complete_sel:
  "rq_completed (rq_complete x)" "rq_status (rq_complete x) = rq_status x"
  "rq_cancel_requested (rq_complete x) = rq_cancel_requested x" "rq_started (rq_complete x) = rq_started x"
  "rq_in_flight (rq_complete x) = rq_in_flight x"
  by (simp_all add: rq_complete_def)

text \<open>
  Exactly one start job is posted; until it has run the request is not started; a request that is
  not completed is still to be started or held by libuv; it is resumed once, by its completion.
\<close>

definition rq_good :: "uv_request \<Rightarrow> rq_job list \<Rightarrow> bool" where
  "rq_good x js \<longleftrightarrow>
     rq_resumed x = (if rq_completed x then 1 else 0) \<and> (rq_continuation x \<longleftrightarrow> \<not> rq_completed x) \<and>
     (rq_keep_alive x \<longleftrightarrow> \<not> rq_completed x) \<and> (rq_started x \<longrightarrow> Rj_start \<notin> set js) \<and>
     length (filter ((=) Rj_start) js) \<le> 1 \<and>
     (\<not> rq_completed x \<longrightarrow> Rj_start \<in> set js \<or> rq_in_flight x) \<and>
     (rq_in_flight x \<longrightarrow> rq_started x)"

definition rq_inv :: "'z rq_world \<Rightarrow> bool" where
  "rq_inv w \<longleftrightarrow> rq_good (rq_core (fst w)) (rt_queue (snd w))"

definition rq_fresh :: "'z uv_request_scheme \<Rightarrow> bool" where
  "rq_fresh x \<longleftrightarrow> \<not> rq_continuation x \<and> \<not> rq_keep_alive x \<and> \<not> rq_stop_callback x \<and> \<not> rq_completed x \<and>
     rq_status x = Uv_ok \<and> \<not> rq_cancel_requested x \<and> \<not> rq_started x \<and> \<not> rq_in_flight x \<and> rq_resumed x = 0"

text \<open>The state struct outlives libuv's use of it.\<close>

definition rq_safe :: "'z rq_world \<Rightarrow> bool" where
  "rq_safe w \<longleftrightarrow> (rq_in_flight (fst w) \<longrightarrow> rq_keep_alive (fst w))"

lemma rq_suspended_inv:
  assumes "rq_fresh x" and "rt_queue rt = []" and "rq_await_suspend a b c (x, rt) = (Inr True, w)"
  shows "rq_inv w" "rq_safe w" "\<not> rq_completed (fst w)"
  using assms
  by (auto simp: rq_await_suspend_def rq_fresh_def rq_inv_def rq_good_def rq_safe_def Let_def post_def async_send_def rq_stop_def
      split: if_splits uv_status.splits)

lemma rq_good_done: "rq_good x js \<Longrightarrow> rq_in_flight x \<Longrightarrow> rq_good (rq_on_done s x) js"
  by (auto simp: rq_good_def rq_on_done_def rq_complete_def)

lemma rq_good_fail: "rq_good x (Rj_start # js) \<Longrightarrow> \<not> rq_completed x \<Longrightarrow> rq_good (rq_complete (x\<lparr>rq_started := b, rq_status := s\<rparr>)) js"
  by (auto simp: rq_good_def rq_complete_def filter_empty_conv)

lemma rq_good_start: "rq_good x (Rj_start # js) \<Longrightarrow> \<not> rq_completed x \<Longrightarrow> rq_good (x\<lparr>rq_started := True, rq_in_flight := True\<rparr>) js"
  by (auto simp: rq_good_def filter_empty_conv)

lemma rq_good_cancel:
  "rq_good x (Rj_cancel # js) \<Longrightarrow> rq_good (rq_cancel_job rq_complete cancel_rc x) js"
  by (auto simp: rq_good_def rq_cancel_job_def rq_complete_def Let_def)

lemma rq_good_skip: "rq_good x (j # js) \<Longrightarrow> rq_completed x \<Longrightarrow> rq_good x js"
  by (auto simp: rq_good_def split: if_splits)

section \<open>The interface of a request's handlers\<close>

text \<open>
  What a component's three handlers have to do with the shared fields, whatever they do with their
  own. \<open>answer\<close> is the status a callback reports.
\<close>

locale one_shot =
  fixes complete :: "'z uv_request_scheme \<Rightarrow> 'z uv_request_scheme"
    and start :: "'a \<Rightarrow> 'z uv_request_scheme \<Rightarrow> 'z uv_request_scheme"
    and finish :: "'b \<Rightarrow> 'z uv_request_scheme \<Rightarrow> 'z uv_request_scheme"
    and answer :: "'b \<Rightarrow> uv_status"
  assumes complete_core: "rq_core (complete x) = rq_complete (rq_core x)"
    and start_again: "rq_completed x \<Longrightarrow> start a x = x"
    and start_core: "\<not> rq_completed x \<Longrightarrow>
      rq_core (start a x) = (rq_core x)\<lparr>rq_started := True, rq_in_flight := True\<rparr> \<or>
      (\<exists>b e. rq_core (start a x) = rq_complete ((rq_core x)\<lparr>rq_started := b, rq_status := Uv_err e\<rparr>))"
    and finish_core: "\<exists>s. rq_core (finish b x) = rq_on_done s (rq_core x) \<and> (s = Uv_ok \<longrightarrow> answer b = Uv_ok)"
begin

lemma cancel_core: "rq_core (rq_cancel_job complete cancel_rc x) = rq_cancel_job rq_complete cancel_rc (rq_core x)"
  by (simp add: rq_cancel_job_def Let_def complete_core)

lemma complete_sel [simp]: "rq_in_flight (complete x) = rq_in_flight x" "rq_status (complete x) = rq_status x" "rq_completed (complete x)"
  by (metis complete_core rq_complete_sel(5) rq_core_sel(8), metis complete_core rq_complete_sel(2) rq_core_sel(5),
      metis complete_core rq_complete_sel(1) rq_core_sel(4))

lemma inv_step:
  assumes "rq_inv w" and "rq_enabled ev w"
  shows "rq_inv (rq_step complete start finish ev w)"
proof (cases ev)
  case Rq_stop
  with assms show ?thesis by (auto simp: rq_inv_def rq_good_def rq_stop_def post_queue)
next
  case (Rq_done b)
  with assms finish_core [of b "fst w"] rq_good_done [of "rq_core (fst w)"] show ?thesis by (auto simp: rq_inv_def)
next
  case (Rq_job a cancel_rc)
  show ?thesis
  proof (cases "rt_queue (snd w)")
    case Nil
    with assms Rq_job show ?thesis by (simp add: rq_run_job_def)
  next
    case (Cons j js)
    with assms have g: "rq_good (rq_core (fst w)) (j # js)" by (simp add: rq_inv_def)
    show ?thesis
    proof (cases j)
      case Rj_cancel
      with Cons Rq_job rq_good_cancel g show ?thesis by (simp add: rq_inv_def rq_run_job_def cancel_core)
    next
      case Rj_start
      then have "rq_good (rq_core (start a (fst w))) js"
      proof (cases "rq_completed (fst w)")
        case True
        with g show ?thesis by (simp add: start_again rq_good_skip)
      next
        case False
        with g Rj_start start_core [OF False, of a] rq_good_start rq_good_fail show ?thesis
          by (metis rq_core_sel(4))
      qed
      with Cons Rq_job Rj_start show ?thesis by (simp add: rq_inv_def rq_run_job_def)
    qed
  qed
qed

lemma finish_not_in_flight: "\<not> rq_in_flight (finish b x)"
proof -
  obtain s where "rq_core (finish b x) = rq_on_done s (rq_core x)" using finish_core by blast
  then have "rq_in_flight (rq_core (finish b x)) = rq_in_flight (rq_on_done s (rq_core x))" by simp
  then show ?thesis by (simp add: rq_on_done_def rq_complete_sel)
qed

lemma safe_start:
  assumes "rq_good (rq_core x) (Rj_start # js)" and "rq_in_flight x \<longrightarrow> rq_keep_alive x"
  shows "rq_in_flight (start a x) \<longrightarrow> rq_keep_alive (start a x)"
proof (cases "rq_completed x")
  case True
  with assms(2) show ?thesis by (simp add: start_again)
next
  case False
  with assms(1) have k: "rq_keep_alive x" "\<not> rq_in_flight x" by (auto simp: rq_good_def)
  from start_core [OF False, of a] show ?thesis
  proof
    assume "rq_core (start a x) = (rq_core x)\<lparr>rq_started := True, rq_in_flight := True\<rparr>"
    then have "rq_keep_alive (rq_core (start a x)) = rq_keep_alive (rq_core x)" by simp
    with k show ?thesis by simp
  next
    assume "\<exists>b e. rq_core (start a x) = rq_complete ((rq_core x)\<lparr>rq_started := b, rq_status := Uv_err e\<rparr>)"
    then obtain b e where "rq_core (start a x) = rq_complete ((rq_core x)\<lparr>rq_started := b, rq_status := Uv_err e\<rparr>)" by blast
    then have "rq_in_flight (rq_core (start a x)) = rq_in_flight (rq_core x)" by (simp add: rq_complete_sel)
    with k show ?thesis by simp
  qed
qed

lemma safe_cancel:
  assumes "rq_good (rq_core x) js" and "rq_in_flight x \<longrightarrow> rq_keep_alive x" and "rq_cancel_pending rc"
  shows "rq_in_flight (rq_cancel_job complete rc x) \<longrightarrow> rq_keep_alive (rq_cancel_job complete rc x)"
proof (cases "rq_completed x \<or> rq_started x")
  case True
  with assms show ?thesis by (auto simp: rq_cancel_job_def Let_def)
next
  case False
  with assms(1) have "\<not> rq_in_flight x" by (auto simp: rq_good_def)
  moreover have "rq_in_flight (rq_cancel_job complete rc x) = rq_in_flight x"
    by (simp add: rq_cancel_job_def Let_def)
  ultimately show ?thesis by simp
qed

lemma safe_step:
  assumes "rq_inv w" and "rq_safe w" and "rq_calm ev"
  shows "rq_safe (rq_step complete start finish ev w)"
proof (cases ev)
  case Rq_stop
  with assms show ?thesis by (auto simp: rq_safe_def rq_stop_def)
next
  case (Rq_done b)
  then show ?thesis by (simp add: rq_safe_def finish_not_in_flight)
next
  case (Rq_job a rc)
  with assms show ?thesis
    using safe_start [of "fst w" _ a] safe_cancel [of "fst w" "rt_queue (snd w)" rc]
    by (auto simp: rq_safe_def rq_inv_def rq_run_job_def Let_def split: list.split rq_job.split)
qed

abbreviation run_steps :: "('a, 'b) rq_event list \<Rightarrow> 'z rq_world \<Rightarrow> 'z rq_world" where
  "run_steps \<equiv> rq_run (rq_step complete start finish)"

lemma inv_run: "rq_inv w \<Longrightarrow> rq_runnable (rq_step complete start finish) evs w \<Longrightarrow> rq_inv (run_steps evs w)"
proof (induction evs arbitrary: w)
  case (Cons ev evs)
  with inv_step [of w ev] show ?case by simp
qed simp

lemma safe_run:
  "rq_inv w \<Longrightarrow> rq_safe w \<Longrightarrow> list_all rq_calm evs \<Longrightarrow> rq_runnable (rq_step complete start finish) evs w \<Longrightarrow>
     rq_safe (run_steps evs w)"
proof (induction evs arbitrary: w)
  case (Cons ev evs)
  with inv_step [of w ev] safe_step [of w ev] show ?case by simp
qed simp

lemma resumed_exactly_once:
  assumes "rq_inv w" and "rq_runnable (rq_step complete start finish) evs w"
  shows "rq_resumed (fst (run_steps evs w)) \<le> 1"
    and "rt_queue (snd (run_steps evs w)) = [] \<Longrightarrow> \<not> rq_in_flight (fst (run_steps evs w)) \<Longrightarrow>
      rq_resumed (fst (run_steps evs w)) = 1"
  using inv_run [OF assms] by (auto simp: rq_inv_def rq_good_def split: if_splits)

text \<open>A request that ends with status zero was answered so by libuv.\<close>

lemma honest_step:
  assumes "rq_completed (fst w) \<and> rq_status (fst w) = Uv_ok \<longrightarrow> P" and "\<forall>b. ev = Rq_done b \<longrightarrow> answer b = Uv_ok \<longrightarrow> P"
  shows "rq_completed (fst (rq_step complete start finish ev w)) \<and> rq_status (fst (rq_step complete start finish ev w)) = Uv_ok \<longrightarrow> P"
proof (cases ev)
  case Rq_stop
  with assms show ?thesis by (auto simp: rq_stop_def)
next
  case (Rq_done b)
  obtain s where s: "rq_core (finish b (fst w)) = rq_on_done s (rq_core (fst w))" "s = Uv_ok \<longrightarrow> answer b = Uv_ok"
    using finish_core by blast
  have "rq_status (rq_core (finish b (fst w))) = s" unfolding s(1) by (simp add: rq_on_done_def rq_complete_sel)
  with s(2) assms(2) Rq_done show ?thesis by simp
next
  case (Rq_job a rc)
  have st: "rq_completed (start a x) \<and> rq_status (start a x) = Uv_ok \<longrightarrow> P" if "rq_completed x \<and> rq_status x = Uv_ok \<longrightarrow> P" for x
  proof (cases "rq_completed x")
    case True
    with that show ?thesis by (simp add: start_again)
  next
    case False
    from start_core [OF this, of a] False show ?thesis
      by (metis rq_complete_sel(2) rq_core_sel(4,5) uv_request.select_convs(4,5) uv_request.surjective uv_request.update_convs(5,7,8) uv_status.distinct(1))
  qed
  have ca: "rq_completed (rq_cancel_job complete rc x) \<and> rq_status (rq_cancel_job complete rc x) = Uv_ok \<longrightarrow> P"
    if "rq_completed x \<and> rq_status x = Uv_ok \<longrightarrow> P" for x
    using that by (auto simp: rq_cancel_job_def Let_def)
  from st [of "fst w"] ca [of "fst w"] assms(1) Rq_job show ?thesis
    by (auto simp: rq_run_job_def Let_def split: list.split rq_job.split)
qed

lemma honest_run:
  "(rq_completed (fst w) \<and> rq_status (fst w) = Uv_ok \<longrightarrow> P) \<Longrightarrow> (\<forall>b. Rq_done b \<in> set evs \<longrightarrow> answer b = Uv_ok \<longrightarrow> P) \<Longrightarrow>
     rq_completed (fst (run_steps evs w)) \<and> rq_status (fst (run_steps evs w)) = Uv_ok \<longrightarrow> P"
proof (induction evs arbitrary: w)
  case (Cons ev evs)
  from honest_step [of w P ev] Cons.prems Cons.IH [of "rq_step complete start finish ev w"] show ?case by auto
qed simp

end

lemma rq_await_resume_Inr:
  "rq_await_resume op_name x = Inr () \<longleftrightarrow> rq_status x = Uv_ok \<and> \<not> rq_cancel_requested x"
  by (auto simp: rq_await_resume_def split: uv_status.split)

text \<open>The plain handlers are of this kind.\<close>

interpretation plain: one_shot rq_complete rq_start_job rq_on_done "\<lambda>s. s"
proof
  fix a :: uv_status and x :: "'a uv_request_scheme"
  assume "\<not> rq_completed x"
  then show "rq_core (rq_start_job a x) = (rq_core x)\<lparr>rq_started := True, rq_in_flight := True\<rparr> \<or>
      (\<exists>b e. rq_core (rq_start_job a x) = rq_complete ((rq_core x)\<lparr>rq_started := b, rq_status := Uv_err e\<rparr>))"
    by (cases a) (auto simp: rq_start_job_def Let_def)
qed (auto simp: rq_start_job_def rq_on_done_def)

end
