(* ===== verification/Stream_Ops.thy ===== *)
theory Stream_Ops
  imports One_Shot
begin

text \<open>
  The stream operations of \<open>src/stream_ops.hpp\<close>: \<open>stream_write\<close> and \<open>stream_shutdown\<close> as one-shot
  requests, and \<open>stream_read_some_into\<close>, where any number of read operations share the stream's
  \<open>data\<close> pointer. Bytes are characters. libuv's answers are parameters; the bytes the peer has sent
  and libuv has not delivered yet are \<open>rs_rest\<close>.
\<close>

section \<open>Writing\<close>

text \<open>\<open>uv_buf_init(data, static_cast<unsigned int>(size))\<close>: the length is cut to 32 bits.\<close>

definition uv_buf_len :: "nat \<Rightarrow> nat" where
  "uv_buf_len n = unat (word_of_nat n :: 32 word)"

definition uv_buf_init :: "string \<Rightarrow> string" where
  "uv_buf_init data = take (uv_buf_len (length data)) data"

text \<open>\<open>wr_handed\<close> is the buffer given to \<open>uv_write\<close>.\<close>

record write_request = uv_request +
  wr_data :: string
  wr_handed :: "string option"

type_synonym write_world = "write_request \<times> rq_job uv_runtime"

definition new_write_request :: "string \<Rightarrow> write_request" where
  "new_write_request data = \<lparr>rq_continuation = False, rq_keep_alive = False, rq_stop_callback = False,
     rq_completed = False, rq_status = Uv_ok, rq_cancel_requested = False, rq_started = False, rq_in_flight = False,
     rq_resumed = 0, wr_data = data, wr_handed = None\<rparr>"

definition write_start_job :: "uv_status \<Rightarrow> write_request \<Rightarrow> write_request" where
  "write_start_job start_rc x =
     (if rq_completed x then x else rq_start_job start_rc (x\<lparr>wr_handed := Some (uv_buf_init (wr_data x))\<rparr>))"

definition write_await_resume :: "write_request \<Rightarrow> nat result" where
  "write_await_resume x =
     (case rq_await_resume ''uv_write'' x of
        Inl e \<Rightarrow> Inl e
      | Inr _ \<Rightarrow> Inr (length (wr_data x)))"

definition stream_write :: "bool \<Rightarrow> bool \<Rightarrow> bool \<Rightarrow> string \<Rightarrow> rq_job uv_runtime \<Rightarrow> nat awaited \<times> write_world" where
  "stream_write stop_requested stop_possible stop_meanwhile data rt =
     (if data = [] then (Continues (Inr 0), new_write_request data, rt)
      else (case rq_await_suspend stop_requested stop_possible stop_meanwhile (new_write_request data, rt) of
              (Inl e, w) \<Rightarrow> (Continues (Inl e), w)
            | (Inr False, w) \<Rightarrow> (Continues (write_await_resume (fst w)), w)
            | (Inr True, w) \<Rightarrow> (Suspended, w)))"

text \<open>\<open>stream_write_some\<close> copies the span into a string and writes it.\<close>

definition stream_write_some :: "bool \<Rightarrow> bool \<Rightarrow> bool \<Rightarrow> string \<Rightarrow> rq_job uv_runtime \<Rightarrow> nat awaited \<times> write_world" where
  "stream_write_some stop_requested stop_possible stop_meanwhile data rt =
     (if data = [] then (Continues (Inr 0), new_write_request data, rt)
      else stream_write stop_requested stop_possible stop_meanwhile data rt)"

type_synonym write_event = "(uv_status, uv_status) rq_event"

definition write_step :: "write_event \<Rightarrow> write_world \<Rightarrow> write_world" where
  "write_step = rq_step rq_complete write_start_job rq_on_done"

section \<open>Shutting down\<close>

definition new_shutdown_request :: uv_request where
  "new_shutdown_request = \<lparr>rq_continuation = False, rq_keep_alive = False, rq_stop_callback = False,
     rq_completed = False, rq_status = Uv_ok, rq_cancel_requested = False, rq_started = False, rq_in_flight = False,
     rq_resumed = 0\<rparr>"

definition shutdown_await_resume :: "uv_request \<Rightarrow> unit result" where
  "shutdown_await_resume = rq_await_resume ''uv_shutdown''"

definition stream_shutdown :: "bool \<Rightarrow> bool \<Rightarrow> bool \<Rightarrow> rq_job uv_runtime \<Rightarrow> unit awaited \<times> uv_request \<times> rq_job uv_runtime" where
  "stream_shutdown stop_requested stop_possible stop_meanwhile rt =
     (case rq_await_suspend stop_requested stop_possible stop_meanwhile (new_shutdown_request, rt) of
        (Inl e, w) \<Rightarrow> (Continues (Inl e), w)
      | (Inr False, w) \<Rightarrow> (Continues (shutdown_await_resume (fst w)), w)
      | (Inr True, w) \<Rightarrow> (Suspended, w))"

definition shutdown_step :: "(uv_status, uv_status) rq_event \<Rightarrow> uv_request \<times> rq_job uv_runtime \<Rightarrow> uv_request \<times> rq_job uv_runtime" where
  "shutdown_step = rq_step rq_complete rq_start_job rq_on_done"

section \<open>Reading\<close>

record read_op =
  rd_size :: nat
  rd_buffer :: string
  rd_continuation :: bool
  rd_keep_alive :: bool
  rd_stop_callback :: bool
  rd_completed :: bool
  rd_status :: uv_status
  rd_nread :: nat
  rd_cancel_requested :: bool
  rd_resumed :: nat

definition new_read_op :: "nat \<Rightarrow> read_op" where
  "new_read_op n = \<lparr>rd_size = n, rd_buffer = [], rd_continuation = False, rd_keep_alive = False, rd_stop_callback = False,
     rd_completed = False, rd_status = Uv_ok, rd_nread = 0, rd_cancel_requested = False, rd_resumed = 0\<rparr>"

text \<open>
  The stream: its \<open>data\<close> pointer, whether libuv is reading, the operations, how many there have
  been, the bytes still to be delivered and (for the statements) those delivered so far.
\<close>

record read_stream =
  rs_data :: "nat option"
  rs_reading :: bool
  rs_ops :: "nat \<Rightarrow> read_op"
  rs_count :: nat
  rs_rest :: string
  rs_delivered :: "(nat \<times> string) list"

datatype read_job = Sj_read nat | Sj_cancel nat

type_synonym read_world = "read_stream \<times> read_job uv_runtime"

definition rd_complete :: "read_op \<Rightarrow> read_op" where
  "rd_complete x =
     (if rd_completed x then x
      else x\<lparr>rd_completed := True, rd_continuation := False, rd_resumed := rd_resumed x + (if rd_continuation x then 1 else 0),
             rd_stop_callback := False, rd_keep_alive := False\<rparr>)"

definition set_op :: "nat \<Rightarrow> read_op \<Rightarrow> read_stream \<Rightarrow> read_stream" where
  "set_op i x s = s\<lparr>rs_ops := (rs_ops s)(i := x)\<rparr>"

text \<open>The job of the stop callback.\<close>

definition read_cancel_job :: "nat \<Rightarrow> read_stream \<Rightarrow> read_stream" where
  "read_cancel_job i s =
     (let x = rs_ops s i in
      if rd_completed x then s
      else let s = (if rs_data s = Some i then s\<lparr>rs_reading := False, rs_data := None\<rparr> else s)
           in set_op i (rd_complete (x\<lparr>rd_cancel_requested := True, rd_status := Uv_err UV_ECANCELED\<rparr>)) s)"

text \<open>The job that starts to read.\<close>

definition read_start_job :: "uv_status \<Rightarrow> nat \<Rightarrow> read_stream \<Rightarrow> read_stream" where
  "read_start_job start_rc i s =
     (let x = rs_ops s i in
      if rd_completed x then s
      else if rs_data s \<noteq> None then set_op i (rd_complete (x\<lparr>rd_status := Uv_err UV_EBUSY\<rparr>)) s
      else (case start_rc of
              Uv_ok \<Rightarrow> s\<lparr>rs_data := Some i, rs_reading := True\<rparr>
            | Uv_err e \<Rightarrow> set_op i (rd_complete (x\<lparr>rd_status := Uv_err e\<rparr>)) (s\<lparr>rs_data := None\<rparr>)))"

text \<open>
  The read callback. \<open>nread\<close> is a number of bytes (which libuv has put in the buffer that the
  allocation callback offered) or an error code.
\<close>

definition alloc_len :: "read_op \<Rightarrow> nat" where
  "alloc_len x = uv_buf_len (rd_size x)"

definition read_cb :: "uv_errno + nat \<Rightarrow> read_stream \<Rightarrow> read_stream" where
  "read_cb nread s =
     (if nread = Inr 0 then s
      else (case rs_data s of
              None \<Rightarrow> s
            | Some i \<Rightarrow>
                (let x = rs_ops s i;
                     x = (case nread of
                            Inr k \<Rightarrow> x\<lparr>rd_status := Uv_ok, rd_nread := k, rd_buffer := take k (rs_rest s)\<rparr>
                          | Inl e \<Rightarrow> x\<lparr>rd_status := Uv_err e, rd_nread := 0\<rparr>);
                     s = (case nread of
                            Inr k \<Rightarrow> s\<lparr>rs_rest := drop k (rs_rest s), rs_delivered := rs_delivered s @ [(i, take k (rs_rest s))]\<rparr>
                          | Inl e \<Rightarrow> s)
                 in set_op i (rd_complete x) (s\<lparr>rs_reading := False, rs_data := None\<rparr>))))"

definition read_stop :: "nat \<Rightarrow> read_world \<Rightarrow> read_world" where
  "read_stop i w = (if rd_stop_callback (rs_ops (fst w) i) then (fst w, snd (post (Sj_cancel i) (snd w))) else w)"

definition read_await_suspend :: "bool \<Rightarrow> bool \<Rightarrow> bool \<Rightarrow> nat \<Rightarrow> read_world \<Rightarrow> bool result \<times> read_world" where
  "read_await_suspend stop_requested stop_possible stop_meanwhile i w =
     (let x = rs_ops (fst w) i in
      if stop_requested
      then (Inr False, set_op i (x\<lparr>rd_cancel_requested := True, rd_status := Uv_err UV_ECANCELED\<rparr>) (fst w), snd w)
      else
        let w = (set_op i (x\<lparr>rd_continuation := True, rd_keep_alive := True, rd_stop_callback := stop_possible\<rparr>) (fst w), snd w);
            w = (if stop_possible \<and> stop_meanwhile then read_stop i w else w)
        in (case post (Sj_read i) (snd w) of
              (Inl e, rt) \<Rightarrow> (Inl e, fst w, rt)
            | (Inr _, rt) \<Rightarrow> (Inr True, fst w, rt)))"

definition read_await_resume :: "read_op \<Rightarrow> nat result" where
  "read_await_resume x =
     (if rd_status x = Uv_err UV_ECANCELED \<or> (rd_cancel_requested x \<and> rd_status x = Uv_ok)
      then Inl Operation_cancelled
      else (case rd_status x of
              Uv_err e \<Rightarrow> if e = UV_EOF then Inr (rd_nread x) else throw_uv_error e ''uv_read_start''
            | Uv_ok \<Rightarrow> Inr (rd_nread x)))"

text \<open>\<open>stream_read_some_into\<close> up to its suspension; the new operation gets the next number.\<close>

definition stream_read_some_into :: "bool \<Rightarrow> bool \<Rightarrow> bool \<Rightarrow> nat \<Rightarrow> read_world \<Rightarrow> nat awaited \<times> read_world" where
  "stream_read_some_into stop_requested stop_possible stop_meanwhile n w =
     (if n = 0 then (Continues (Inr 0), w)
      else
        let i = rs_count (fst w);
            w = (set_op i (new_read_op n) ((fst w)\<lparr>rs_count := Suc i\<rparr>), snd w)
        in (case read_await_suspend stop_requested stop_possible stop_meanwhile i w of
              (Inl e, w) \<Rightarrow> (Continues (Inl e), w)
            | (Inr False, w) \<Rightarrow> (Continues (read_await_resume (rs_ops (fst w) i)), w)
            | (Inr True, w) \<Rightarrow> (Suspended, w)))"

text \<open>What \<open>stream_read_some\<close> hands back once its read has ended: the buffer cut to \<open>nread\<close>.\<close>

definition stream_read_some_result :: "read_op \<Rightarrow> string result" where
  "stream_read_some_result x =
     (case read_await_resume x of
        Inl e \<Rightarrow> Inl e
      | Inr nread \<Rightarrow> Inr (take nread (rd_buffer x)))"

text \<open>The loop runs the oldest job.\<close>

definition read_run_job :: "uv_status \<Rightarrow> read_world \<Rightarrow> read_world" where
  "read_run_job start_rc w =
     (case rt_queue (snd w) of
        [] \<Rightarrow> w
      | j # js \<Rightarrow>
          (let rt = (snd w)\<lparr>rt_queue := js\<rparr> in
           case j of
             Sj_read i \<Rightarrow> (read_start_job start_rc i (fst w), rt)
           | Sj_cancel i \<Rightarrow> (read_cancel_job i (fst w), rt)))"

datatype read_event =
    Se_read bool bool bool nat
  | Se_stop nat
  | Se_job uv_status
  | Se_cb "uv_errno + nat"

fun read_step :: "read_event \<Rightarrow> read_world \<Rightarrow> read_world" where
  "read_step (Se_read stop_requested stop_possible stop_meanwhile n) w =
     snd (stream_read_some_into stop_requested stop_possible stop_meanwhile n w)"
| "read_step (Se_stop i) w = read_stop i w"
| "read_step (Se_job start_rc) w = read_run_job start_rc w"
| "read_step (Se_cb nread) w = (read_cb nread (fst w), snd w)"

text \<open>
  libuv calls back only while it reads, with at most as many bytes as it was offered and the peer
  has sent.
\<close>

fun read_enabled :: "read_event \<Rightarrow> read_world \<Rightarrow> bool" where
  "read_enabled (Se_cb nread) w \<longleftrightarrow> rs_reading (fst w) \<and>
     (case nread of
        Inl e \<Rightarrow> True
      | Inr k \<Rightarrow> k \<le> length (rs_rest (fst w)) \<and>
          (case rs_data (fst w) of None \<Rightarrow> True | Some i \<Rightarrow> k \<le> alloc_len (rs_ops (fst w) i)))"
| "read_enabled ev w \<longleftrightarrow> True"

fun read_run :: "read_event list \<Rightarrow> read_world \<Rightarrow> read_world" where
  "read_run [] w = w"
| "read_run (ev # evs) w = read_run evs (read_step ev w)"

fun read_runnable :: "read_event list \<Rightarrow> read_world \<Rightarrow> bool" where
  "read_runnable [] w \<longleftrightarrow> True"
| "read_runnable (ev # evs) w \<longleftrightarrow> read_enabled ev w \<and> read_runnable evs (read_step ev w)"

definition new_read_stream :: "string \<Rightarrow> read_stream" where
  "new_read_stream bytes = \<lparr>rs_data = None, rs_reading = False, rs_ops = (\<lambda>_. new_read_op 0), rs_count = 0,
     rs_rest = bytes, rs_delivered = []\<rparr>"

end
