(* ===== verification/Stream_Read.thy ===== *)
theory Stream_Read
  imports Stream_Ops
begin

text \<open>
  The invariant of the reads of one stream (\<open>stream_read_some_into\<close> of \<open>src/stream_ops.hpp\<close>) and what
  it gives: no byte is lost or duplicated and every read ends once.
\<close>

section \<open>Reading: the invariant\<close>

text \<open>
  What the stream and the queue say of the operation \<open>i\<close>: whether it was made, how many of its start
  jobs and whether a cancel job is queued, whether the stream points to it and what was delivered to
  it. An operation is unused, refused at once (its token was stopped already), waiting (its job is
  queued or the stream points to it, not both), or done.
\<close>

definition starts :: "nat \<Rightarrow> read_job list \<Rightarrow> nat" where
  "starts i js = length (filter ((=) (Sj_read i)) js)"

definition given :: "nat \<Rightarrow> read_stream \<Rightarrow> string list" where
  "given i s = map snd (filter (\<lambda>p. fst p = i) (rs_delivered s))"

definition op_unused :: "bool \<Rightarrow> nat \<Rightarrow> bool \<Rightarrow> bool \<Rightarrow> string list \<Rightarrow> read_op \<Rightarrow> bool" where
  "op_unused u q c d g x \<longleftrightarrow> \<not> u \<and> q = 0 \<and> \<not> c \<and> \<not> d \<and> g = [] \<and> \<not> rd_stop_callback x \<and> rd_resumed x = 0 \<and>
     \<not> rd_completed x \<and> \<not> rd_continuation x \<and> rd_nread x = 0"

definition op_refused :: "bool \<Rightarrow> nat \<Rightarrow> bool \<Rightarrow> bool \<Rightarrow> string list \<Rightarrow> read_op \<Rightarrow> bool" where
  "op_refused u q c d g x \<longleftrightarrow> u \<and> q = 0 \<and> \<not> c \<and> \<not> d \<and> g = [] \<and> \<not> rd_stop_callback x \<and> \<not> rd_completed x \<and>
     \<not> rd_continuation x \<and> rd_resumed x = 0 \<and> rd_status x = Uv_err UV_ECANCELED \<and> rd_nread x = 0"

definition op_waiting :: "bool \<Rightarrow> nat \<Rightarrow> bool \<Rightarrow> bool \<Rightarrow> string list \<Rightarrow> read_op \<Rightarrow> bool" where
  "op_waiting u q c d g x \<longleftrightarrow> u \<and> q = (if d then 0 else 1) \<and> g = [] \<and> \<not> rd_completed x \<and> rd_continuation x \<and>
     rd_keep_alive x \<and> rd_resumed x = 0 \<and> \<not> rd_cancel_requested x \<and> rd_nread x = 0"

definition op_done :: "bool \<Rightarrow> nat \<Rightarrow> bool \<Rightarrow> bool \<Rightarrow> string list \<Rightarrow> read_op \<Rightarrow> bool" where
  "op_done u q c d g x \<longleftrightarrow> u \<and> q \<le> 1 \<and> \<not> d \<and> rd_completed x \<and> \<not> rd_stop_callback x \<and> \<not> rd_continuation x \<and> rd_resumed x = 1 \<and>
     (if g = [] then rd_status x \<noteq> Uv_ok \<and> rd_nread x = 0
      else g = [rd_buffer x] \<and> rd_status x = Uv_ok \<and> \<not> rd_cancel_requested x \<and>
        rd_nread x = length (rd_buffer x) \<and> rd_buffer x \<noteq> [])"

definition op_good :: "bool \<Rightarrow> nat \<Rightarrow> bool \<Rightarrow> bool \<Rightarrow> string list \<Rightarrow> read_op \<Rightarrow> bool" where
  "op_good u q c d g x \<longleftrightarrow> op_unused u q c d g x \<or> op_refused u q c d g x \<or> op_waiting u q c d g x \<or> op_done u q c d g x"

definition good_at :: "nat \<Rightarrow> read_stream \<Rightarrow> read_job list \<Rightarrow> bool" where
  "good_at i s js \<longleftrightarrow> op_good (i < rs_count s) (starts i js) (Sj_cancel i \<in> set js) (rs_data s = Some i) (given i s) (rs_ops s i)"

definition read_inv :: "string \<Rightarrow> read_world \<Rightarrow> bool" where
  "read_inv bytes w \<longleftrightarrow> (\<forall>i. good_at i (fst w) (rt_queue (snd w))) \<and>
     (rs_reading (fst w) \<longleftrightarrow> rs_data (fst w) \<noteq> None) \<and>
     concat (map snd (rs_delivered (fst w))) @ rs_rest (fst w) = bytes \<and>
     \<not> rt_shutting_down (snd w) \<and> rt_send_rc (snd w) = Uv_ok"

lemmas op_defs = op_unused_def op_refused_def op_waiting_def op_done_def

lemma starts_simps [simp]:
  "starts i [] = 0" "starts i (Sj_cancel k # js) = starts i js"
  "starts i (Sj_read k # js) = (if k = i then Suc (starts i js) else starts i js)"
  "starts i (js @ js') = starts i js + starts i js'"
  by (auto simp: starts_def)

lemma given_upd [simp]:
  "given i (s\<lparr>rs_data := d\<rparr>) = given i s" "given i (s\<lparr>rs_reading := b\<rparr>) = given i s"
  "given i (s\<lparr>rs_count := n\<rparr>) = given i s" "given i (s\<lparr>rs_rest := r\<rparr>) = given i s"
  "given i (set_op k x s) = given i s"
  by (simp_all add: given_def set_op_def)

lemma set_op_sel [simp]:
  "rs_data (set_op i x s) = rs_data s" "rs_reading (set_op i x s) = rs_reading s" "rs_count (set_op i x s) = rs_count s"
  "rs_rest (set_op i x s) = rs_rest s" "rs_delivered (set_op i x s) = rs_delivered s"
  "rs_ops (set_op i x s) = (rs_ops s)(i := x)"
  by (simp_all add: set_op_def)

lemma given_snoc: "given i (s\<lparr>rs_delivered := rs_delivered s @ [(k, b)]\<rparr>) = given i s @ (if k = i then [b] else [])"
  by (simp add: given_def)

text \<open>The operation's own transitions.\<close>

lemma op_skip: "op_good u (Suc q) c d g x \<Longrightarrow> rd_completed x \<Longrightarrow> op_good u q c d g x"
  by (auto simp: op_good_def op_defs)

lemma op_skip_cancel: "op_good u q True d g x \<Longrightarrow> rd_completed x \<Longrightarrow> op_good u q c d g x"
  by (auto simp: op_good_def op_defs)

lemma op_add_cancel: "op_good u q c d g x \<Longrightarrow> rd_stop_callback x \<Longrightarrow> op_good u q True d g x"
  by (auto simp: op_good_def op_defs)

lemma op_begin: "op_good u (Suc q) c d g x \<Longrightarrow> \<not> rd_completed x \<Longrightarrow> op_good u q c True g x"
  by (auto simp: op_good_def op_defs split: if_split_asm)

lemma op_fail:
  "op_good u q c d g x \<Longrightarrow> \<not> rd_completed x \<Longrightarrow> 0 < q \<or> d \<or> c \<Longrightarrow> s \<noteq> Uv_ok \<Longrightarrow> q' \<le> 1 \<Longrightarrow>
   op_good u q' c' False g (rd_complete (x\<lparr>rd_cancel_requested := b, rd_status := s\<rparr>))"
  by (auto simp: op_good_def op_defs rd_complete_def)

lemma op_error:
  "op_good u q c True g x \<Longrightarrow> op_good u q c False g (rd_complete (x\<lparr>rd_status := Uv_err e, rd_nread := 0\<rparr>))"
  by (auto simp: op_good_def op_defs rd_complete_def)

lemma op_deliver:
  "op_good u q c True g x \<Longrightarrow> bs \<noteq> [] \<Longrightarrow>
   op_good u q c False (g @ [bs]) (rd_complete (x\<lparr>rd_status := Uv_ok, rd_nread := length bs, rd_buffer := bs\<rparr>))"
  by (auto simp: op_good_def op_defs rd_complete_def)

lemma op_begin_waits: "op_good u (Suc q) c d g x \<Longrightarrow> \<not> rd_completed x \<Longrightarrow> q = 0 \<and> \<not> d \<and> u"
  by (cases d) (auto simp: op_good_def op_defs)

lemma op_le: "op_good u q c d g x \<Longrightarrow> q \<le> 1"
  by (auto simp: op_good_def op_defs split: if_splits)

lemma read_inv_new: "read_inv bytes (new_read_stream bytes, new_runtime)"
  by (simp add: read_inv_def good_at_def op_good_def op_unused_def new_read_stream_def given_def new_read_op_def)

lemma stream_post_ok: "\<not> rt_shutting_down rt \<Longrightarrow> rt_send_rc rt = Uv_ok \<Longrightarrow>
    post j rt = (Inr (), rt\<lparr>rt_queue := rt_queue rt @ [j], rt_wakeup := True\<rparr>)"
  by (simp add: post_def async_send_def)

lemma good_other:
  assumes "good_at j s js" and "rs_count s' = rs_count s" and "starts j js' = starts j js"
    and "Sj_cancel j \<in> set js' \<longleftrightarrow> Sj_cancel j \<in> set js" and "rs_data s' = Some j \<longleftrightarrow> rs_data s = Some j"
    and "given j s' = given j s" and "rs_ops s' j = rs_ops s j"
  shows "good_at j s' js'"
  using assms by (simp add: good_at_def)

lemma read_inv_stop:
  assumes "read_inv bytes w"
  shows "read_inv bytes (read_stop i w)"
proof (cases "rd_stop_callback (rs_ops (fst w) i)")
  case False
  with assms show ?thesis by (simp add: read_stop_def)
next
  case True
  let ?q = "rt_queue (snd w)"
  from assms have p: "\<not> rt_shutting_down (snd w)" "rt_send_rc (snd w) = Uv_ok" by (simp_all add: read_inv_def)
  have "good_at j (fst w) (?q @ [Sj_cancel i])" for j
  proof (cases "j = i")
    case False
    with assms show ?thesis by (auto simp: read_inv_def intro: good_other [of j "fst w" ?q])
  next
    case same: True
    from assms have "good_at i (fst w) ?q" by (simp add: read_inv_def)
    with op_add_cancel [OF _ True] show ?thesis by (simp add: good_at_def same)
  qed
  with assms True p show ?thesis by (simp add: read_inv_def read_stop_def stream_post_ok)
qed

text \<open>Taking the oldest job off the queue, then its handler.\<close>

lemma good_start_job:
  assumes g: "good_at j s (Sj_read i # js)" and gi: "good_at i s (Sj_read i # js)"
  shows "good_at j (read_start_job rc i s) js"
proof (cases "j = i")
  case False
  then show ?thesis
    by (intro good_other [OF g]) (auto simp: read_start_job_def Let_def split: uv_status.split)
next
  case same: True
  let ?x = "rs_ops s i"
  from gi have o: "op_good (i < rs_count s) (Suc (starts i js)) (Sj_cancel i \<in> set js) (rs_data s = Some i) (given i s) ?x"
    by (simp add: good_at_def)
  show ?thesis
  proof (cases "rd_completed ?x")
    case True
    with op_skip [OF o] show ?thesis by (simp add: read_start_job_def good_at_def same)
  next
    case False
    note f = op_fail [OF o False, where b = "rd_cancel_requested ?x"]
    from op_begin_waits [OF o False] have w: "starts i js = 0" "rs_data s \<noteq> Some i" by auto
    have upd: "?x\<lparr>rd_cancel_requested := rd_cancel_requested ?x, rd_status := r\<rparr> = ?x\<lparr>rd_status := r\<rparr>" for r by simp
    show ?thesis
    proof (cases "rs_data s = None")
      case taken: False
      from f [of "Uv_err UV_EBUSY" 0] taken False w show ?thesis
        by (simp add: read_start_job_def good_at_def same)
    next
      case free: True
      with False w op_begin [OF o False] f show ?thesis
        by (cases rc) (simp_all add: read_start_job_def good_at_def same)
    qed
  qed
qed

lemma good_cancel_job:
  assumes g: "good_at j s (Sj_cancel i # js)" and gi: "good_at i s (Sj_cancel i # js)"
  shows "good_at j (read_cancel_job i s) js"
proof (cases "j = i")
  case False
  then show ?thesis
    by (intro good_other [OF g]) (auto simp: read_cancel_job_def Let_def)
next
  case same: True
  let ?x = "rs_ops s i"
  from gi have o: "op_good (i < rs_count s) (starts i js) True (rs_data s = Some i) (given i s) ?x"
    by (simp add: good_at_def)
  show ?thesis
  proof (cases "rd_completed ?x")
    case True
    with op_skip_cancel [OF o] show ?thesis by (simp add: read_cancel_job_def good_at_def same)
  next
    case False
    from op_fail [OF o False, where b = True and s = "Uv_err UV_ECANCELED" and q' = "starts i js"] op_le [OF o] False
    show ?thesis by (cases "rs_data s = Some i") (simp_all add: read_cancel_job_def good_at_def same)
  qed
qed

lemma read_inv_job:
  assumes "read_inv bytes w"
  shows "read_inv bytes (read_run_job rc w)"
proof (cases "rt_queue (snd w)")
  case Nil
  with assms show ?thesis by (simp add: read_run_job_def)
next
  case (Cons j js)
  from assms Cons have g: "good_at i (fst w) (j # js)" for i by (simp add: read_inv_def)
  show ?thesis
  proof (cases j)
    case (Sj_read i)
    have "good_at k (read_start_job rc i (fst w)) js" for k
      using good_start_job g unfolding Sj_read by blast
    moreover have "rs_reading (read_start_job rc i (fst w)) \<longleftrightarrow> rs_data (read_start_job rc i (fst w)) \<noteq> None"
      using assms by (cases rc) (simp_all add: read_inv_def read_start_job_def Let_def)
    moreover have "rs_delivered (read_start_job rc i (fst w)) = rs_delivered (fst w)" "rs_rest (read_start_job rc i (fst w)) = rs_rest (fst w)"
      by (cases rc; simp add: read_start_job_def Let_def)+
    ultimately show ?thesis using assms Cons Sj_read by (simp add: read_inv_def read_run_job_def)
  next
    case (Sj_cancel i)
    have "good_at k (read_cancel_job i (fst w)) js" for k
      using good_cancel_job g unfolding Sj_cancel by blast
    moreover have "rs_reading (read_cancel_job i (fst w)) \<longleftrightarrow> rs_data (read_cancel_job i (fst w)) \<noteq> None"
      using assms by (simp add: read_inv_def read_cancel_job_def Let_def)
    moreover have "rs_delivered (read_cancel_job i (fst w)) = rs_delivered (fst w)" "rs_rest (read_cancel_job i (fst w)) = rs_rest (fst w)"
      by (simp_all add: read_cancel_job_def Let_def)
    ultimately show ?thesis using assms Cons Sj_cancel by (simp add: read_inv_def read_run_job_def)
  qed
qed

lemma read_inv_await_suspend:
  assumes "read_inv bytes (s, rt)" and "i = rs_count s"
  shows "read_inv bytes (snd (read_await_suspend a b c i (set_op i (new_read_op n) (s\<lparr>rs_count := Suc i\<rparr>), rt)))"
proof -
  let ?q = "rt_queue rt"
  from assms have g: "good_at j s ?q" for j by (simp add: read_inv_def)
  from assms have p: "\<not> rt_shutting_down rt" "rt_send_rc rt = Uv_ok" by (simp_all add: read_inv_def)
  from g [of i] assms(2) have o: "starts i ?q = 0" "Sj_cancel i \<notin> set ?q" "rs_data s \<noteq> Some i" "given i s = []"
    by (simp_all add: good_at_def op_good_def op_defs)
  have other: "j \<noteq> i \<Longrightarrow> (j < Suc i) = (j < rs_count s)" for j using assms(2) by auto
  have far: "good_at j (set_op i x (s\<lparr>rs_count := Suc i\<rparr>)) q'"
    if "j \<noteq> i" "starts j q' = starts j ?q" "Sj_cancel j \<in> set q' \<longleftrightarrow> Sj_cancel j \<in> set ?q" for j x q'
    using g [of j] that by (simp add: good_at_def other)
  have near: "good_at i (set_op i x (s\<lparr>rs_count := Suc i\<rparr>)) q'"
    if "op_good True (starts i q') (Sj_cancel i \<in> set q') False [] x" for x q'
    using o that by (simp add: good_at_def)
  have all: "good_at j (set_op i x (s\<lparr>rs_count := Suc i\<rparr>)) q'"
    if "op_good True (starts i q') (Sj_cancel i \<in> set q') False [] x"
      "\<And>j. j \<noteq> i \<Longrightarrow> starts j q' = starts j ?q \<and> (Sj_cancel j \<in> set q' \<longleftrightarrow> Sj_cancel j \<in> set ?q)" for j x q'
    using far near that by (cases "j = i") auto
  have two: "set_op i x (set_op i y t) = set_op i x t" for x y t by (simp add: set_op_def)
  show ?thesis
  proof (cases a)
    case True
    with assms(1) o show ?thesis
      by (simp add: read_inv_def read_await_suspend_def two all op_good_def op_defs new_read_op_def)
  next
    case False
    with assms(1) o p show ?thesis
      by (cases "b \<and> c")
         (simp_all add: read_inv_def read_await_suspend_def two all op_good_def op_defs new_read_op_def Let_def stream_post_ok read_stop_def)
  qed
qed

lemma read_inv_read: "read_inv bytes w \<Longrightarrow> read_inv bytes (read_step (Se_read a b c n) w)"
  using read_inv_await_suspend [of bytes "fst w" "snd w" "rs_count (fst w)" a b c n]
  by (auto simp: stream_read_some_into_def Let_def case_prod_beta split: sum.split bool.split)

lemma read_inv_cb:
  assumes "read_inv bytes w" and "read_enabled (Se_cb r) w"
  shows "read_inv bytes (read_step (Se_cb r) w)"
proof (cases "r = Inr 0")
  case True
  with assms show ?thesis by (simp add: read_cb_def)
next
  case False
  let ?s = "fst w" and ?q = "rt_queue (snd w)"
  from assms obtain i where i: "rs_data ?s = Some i" by (auto simp: read_inv_def)
  from assms have g: "good_at j ?s ?q" for j by (simp add: read_inv_def)
  from g [of i] i have o: "op_good (i < rs_count ?s) (starts i ?q) (Sj_cancel i \<in> set ?q) True (given i ?s) (rs_ops ?s i)"
    by (simp add: good_at_def)
  have far: "j \<noteq> i \<Longrightarrow> good_at j (read_cb r ?s) ?q" for j
    by (rule good_other [OF g]) (auto simp: read_cb_def i Let_def given_def split: sum.split)
  have near: "good_at i (read_cb r ?s) ?q"
  proof (cases r)
    case (Inl e)
    with op_error [OF o] i show ?thesis by (simp add: read_cb_def good_at_def)
  next
    case (Inr k)
    with assms(2) False i have k: "take k (rs_rest ?s) \<noteq> []" "length (take k (rs_rest ?s)) = k" by auto
    with op_deliver [OF o k(1)] Inr i False show ?thesis
      by (simp add: read_cb_def good_at_def Let_def given_def)
  qed
  have "good_at j (read_cb r ?s) ?q" for j using far near by (cases "j = i") auto
  with assms(1) i show ?thesis by (cases r) (auto simp: read_inv_def read_cb_def Let_def)
qed

lemma read_inv_step: "read_inv bytes w \<Longrightarrow> read_enabled ev w \<Longrightarrow> read_inv bytes (read_step ev w)"
  using read_inv_read read_inv_stop read_inv_job read_inv_cb by (cases ev) auto

lemma read_inv_run: "read_inv bytes w \<Longrightarrow> read_runnable evs w \<Longrightarrow> read_inv bytes (read_run evs w)"
  by (induction evs arbitrary: w) (auto simp: read_inv_step)

lemma given_iff: "bs \<in> set (given i s) \<longleftrightarrow> (i, bs) \<in> set (rs_delivered s)"
  by (force simp: given_def)

lemma distinct_given: "(\<And>i. length (given i s) \<le> 1) \<Longrightarrow> distinct (map fst (rs_delivered s))"
proof -
  have "(\<And>i. length (filter (\<lambda>p. fst p = i) l) \<le> 1) \<Longrightarrow> distinct (map fst l)" for l :: "(nat \<times> string) list"
  proof (induction l)
    case (Cons p l)
    have "length (filter (\<lambda>p. fst p = i) l) \<le> 1" for i using Cons.prems [of i] by (simp split: if_splits)
    moreover from Cons.prems [of "fst p"] have "fst p \<notin> fst ` set l" by (auto simp: filter_empty_conv)
    ultimately show ?case using Cons.IH by simp
  qed simp
  then show "(\<And>i. length (given i s) \<le> 1) \<Longrightarrow> distinct (map fst (rs_delivered s))" by (simp add: given_def)
qed

lemma read_inv_result:
  assumes "read_inv bytes w" and "rd_completed (rs_ops (fst w) i)"
  shows "rd_resumed (rs_ops (fst w) i) = 1"
    and "bs \<noteq> [] \<Longrightarrow> stream_read_some_result (rs_ops (fst w) i) = Inr bs \<longleftrightarrow> (i, bs) \<in> set (rs_delivered (fst w))"
proof -
  let ?x = "rs_ops (fst w) i"
  from assms obtain u q c d where o: "op_done u q c d (given i (fst w)) ?x"
    by (auto simp: read_inv_def good_at_def op_good_def op_unused_def op_refused_def op_waiting_def)
  show "rd_resumed ?x = 1" using o by (simp add: op_done_def)
  show "stream_read_some_result ?x = Inr bs \<longleftrightarrow> (i, bs) \<in> set (rs_delivered (fst w))" if "bs \<noteq> []"
  proof (cases "given i (fst w) = []")
    case True
    then have "bs \<notin> set (given i (fst w))" by simp
    moreover from o True that have "stream_read_some_result ?x \<noteq> Inr bs"
      by (auto simp: op_done_def stream_read_some_result_def read_await_resume_def throw_uv_error.simps split: uv_status.split)
    ultimately show ?thesis unfolding given_iff by simp
  next
    case False
    with o have "given i (fst w) = [rd_buffer ?x]" "stream_read_some_result ?x = Inr (rd_buffer ?x)"
      by (simp_all add: op_done_def stream_read_some_result_def read_await_resume_def)
    moreover have "bs \<in> set (given i (fst w)) \<longleftrightarrow> (i, bs) \<in> set (rs_delivered (fst w))" by (rule given_iff)
    ultimately show ?thesis by auto
  qed
qed

lemma read_inv_delivered:
  assumes "read_inv bytes w" and "(i, bs) \<in> set (rs_delivered (fst w))"
  shows "rd_completed (rs_ops (fst w) i)" "bs \<noteq> []"
proof -
  from assms(2) have b: "bs \<in> set (given i (fst w))" by (simp add: given_iff)
  from assms(1) have "good_at i (fst w) (rt_queue (snd w))" by (simp add: read_inv_def)
  with b have "op_done (i < rs_count (fst w)) (starts i (rt_queue (snd w))) (Sj_cancel i \<in> set (rt_queue (snd w)))
      (rs_data (fst w) = Some i) (given i (fst w)) (rs_ops (fst w) i)"
    by (auto simp: good_at_def op_good_def op_unused_def op_refused_def op_waiting_def)
  with b show "rd_completed (rs_ops (fst w) i)" "bs \<noteq> []" by (auto simp: op_done_def split: if_splits)
qed

lemma read_inv_len: "read_inv bytes w \<Longrightarrow> length (given i (fst w)) \<le> 1"
proof -
  assume "read_inv bytes w"
  then have "good_at i (fst w) (rt_queue (snd w))" by (simp add: read_inv_def)
  then show ?thesis by (auto simp: good_at_def op_good_def op_defs split: if_splits)
qed

lemma read_inv_quiet:
  assumes "read_inv bytes w" and "rt_queue (snd w) = []" and "\<not> rs_reading (fst w)" and "i < rs_count (fst w)"
  shows "rd_resumed (rs_ops (fst w) i) = 1 \<or> stream_read_some_result (rs_ops (fst w) i) = Inl Operation_cancelled"
proof -
  from assms have "good_at i (fst w) []" "rs_data (fst w) = None" by (auto simp: read_inv_def)
  with assms(4) show ?thesis
    by (auto simp: good_at_def op_good_def op_defs stream_read_some_result_def read_await_resume_def)
qed

text \<open>
  C16. Reads lose nothing and invent nothing. Whatever reads are begun on a fresh stream, whichever
  of them are cancelled, whatever order the loop's jobs and libuv's callbacks come in: the bytes
  handed out so far, in order, with the bytes still to come are the bytes the peer sent; a completed
  read returns a non-empty string exactly when that string was handed to it, and no read is handed
  two; no read is resumed twice; and once nothing is queued and libuv is not reading, every read has
  been resumed once or was refused as cancelled.
\<close>

theorem stream_read_no_loss:
  assumes "read_runnable evs (new_read_stream bytes, new_runtime)"
    and "w = read_run evs (new_read_stream bytes, new_runtime)"
  shows "concat (map snd (rs_delivered (fst w))) @ rs_rest (fst w) = bytes \<and>
    distinct (map fst (rs_delivered (fst w))) \<and>
    (\<forall>i bs. bs \<noteq> [] \<longrightarrow> (i, bs) \<in> set (rs_delivered (fst w)) \<longleftrightarrow>
       rd_completed (rs_ops (fst w) i) \<and> stream_read_some_result (rs_ops (fst w) i) = Inr bs) \<and>
    (\<forall>i. rd_completed (rs_ops (fst w) i) \<longrightarrow> rd_resumed (rs_ops (fst w) i) = 1) \<and>
    (rt_queue (snd w) = [] \<and> \<not> rs_reading (fst w) \<longrightarrow>
       (\<forall>i < rs_count (fst w). rd_resumed (rs_ops (fst w) i) = 1 \<or>
          stream_read_some_result (rs_ops (fst w) i) = Inl Operation_cancelled))"
proof -
  have inv: "read_inv bytes w" unfolding assms(2) by (rule read_inv_run [OF read_inv_new assms(1)])
  then have "concat (map snd (rs_delivered (fst w))) @ rs_rest (fst w) = bytes" by (simp add: read_inv_def)
  with read_inv_result [OF inv] read_inv_delivered [OF inv] read_inv_quiet [OF inv] distinct_given [OF read_inv_len [OF inv]]
  show ?thesis by blast
qed

text \<open>
  Two reads with callbacks of one and two bytes, the second one begun while the first is in progress
  (it is refused as busy), and a third read.
\<close>

definition read_scenario :: "read_event list" where
  "read_scenario = [Se_read False True False 8, Se_read False True False 8, Se_job Uv_ok, Se_job Uv_ok,
     Se_cb (Inr 1), Se_read False False False 2, Se_job Uv_ok, Se_cb (Inr 2)]"

lemma stream_read_no_loss_witness:
  "concat (map snd (rs_delivered (fst (read_run read_scenario (new_read_stream ''abcd'', new_runtime))))) @ ''d'' = ''abcd'' \<and>
   distinct (map fst (rs_delivered (fst (read_run read_scenario (new_read_stream ''abcd'', new_runtime)))))"
proof -
  have "read_runnable read_scenario (new_read_stream ''abcd'', new_runtime)" by code_simp
  moreover have "rs_rest (fst (read_run read_scenario (new_read_stream ''abcd'', new_runtime))) = ''d''" by code_simp
  ultimately show ?thesis using stream_read_no_loss by metis
qed

end
