(* ===== verification/Stream_Buffer.thy ===== *)
theory Stream_Buffer
  imports Stream_Read
begin

text \<open>
  \<open>io::stream_buffer\<close> of \<open>include/luvcoro/io.hpp\<close>: reads from any stream, through a buffer of the
  bytes that were read and not yet handed out. A stream is its \<open>read_some\<close>, run to completion: a
  function from the size and the world to the bytes or the exception, and the world after it; the
  stop token is a question to the world.
\<close>

section \<open>State and operations\<close>

type_synonym 's read_fun = "nat \<Rightarrow> 's \<Rightarrow> string result \<times> 's"

record 's stream_buffer =
  sb_pending :: string
  sb_stream :: 's

definition make_stream_buffer :: "'s \<Rightarrow> 's stream_buffer" where
  "make_stream_buffer s = \<lparr>sb_pending = [], sb_stream = s\<rparr>"

definition sb_read_some :: "'s read_fun \<Rightarrow> nat \<Rightarrow> 's stream_buffer \<Rightarrow> string result \<times> 's stream_buffer" where
  "sb_read_some read_some max_bytes b =
     (if max_bytes = 0 then (Inr [], b)
      else if sb_pending b \<noteq> [] then
        (let k = (if length (sb_pending b) < max_bytes then length (sb_pending b) else max_bytes)
         in (Inr (take k (sb_pending b)), b\<lparr>sb_pending := drop k (sb_pending b)\<rparr>))
      else (case read_some max_bytes (sb_stream b) of (r, s) \<Rightarrow> (r, b\<lparr>sb_stream := s\<rparr>)))"

text \<open>The loop of \<open>read_exact\<close>; \<open>out\<close> is what was read so far.\<close>

function sb_read_exact_loop :: "'s read_fun \<Rightarrow> ('s \<Rightarrow> bool) \<Rightarrow> nat \<Rightarrow> string \<Rightarrow> 's stream_buffer
    \<Rightarrow> string result \<times> 's stream_buffer" where
  "sb_read_exact_loop read_some stop total_bytes out b =
     (if length out < total_bytes then
        if stop (sb_stream b) then (Inl Operation_cancelled, b)
        else if sb_pending b \<noteq> [] then
          (let k = (if length (sb_pending b) < total_bytes - length out then length (sb_pending b) else total_bytes - length out)
           in sb_read_exact_loop read_some stop total_bytes (out @ take k (sb_pending b)) (b\<lparr>sb_pending := drop k (sb_pending b)\<rparr>))
        else
          (case read_some (total_bytes - length out) (sb_stream b) of
             (Inl e, s) \<Rightarrow> (Inl e, b\<lparr>sb_stream := s\<rparr>)
           | (Inr chunk, s) \<Rightarrow>
               if chunk = [] then (Inr out, b\<lparr>sb_stream := s\<rparr>)
               else sb_read_exact_loop read_some stop total_bytes (out @ chunk) (b\<lparr>sb_stream := s\<rparr>))
      else (Inr out, b))"
  by pat_completeness auto
termination
  by (relation "measure (\<lambda>(read_some, stop, total_bytes, out, b). total_bytes - length out)")
     (auto simp: length_greater_0_conv [symmetric] min_def simp del: length_greater_0_conv)

declare sb_read_exact_loop.simps [simp del]

definition sb_read_exact :: "'s read_fun \<Rightarrow> ('s \<Rightarrow> bool) \<Rightarrow> nat \<Rightarrow> 's stream_buffer \<Rightarrow> string result \<times> 's stream_buffer" where
  "sb_read_exact read_some stop total_bytes b = sb_read_exact_loop read_some stop total_bytes [] b"

definition sb_read_exactly :: "'s read_fun \<Rightarrow> ('s \<Rightarrow> bool) \<Rightarrow> nat \<Rightarrow> 's stream_buffer \<Rightarrow> string result \<times> 's stream_buffer" where
  "sb_read_exactly read_some stop total_bytes b =
     (case sb_read_exact read_some stop total_bytes b of
        (Inl e, b) \<Rightarrow> (Inl e, b)
      | (Inr out, b) \<Rightarrow>
          if length out \<noteq> total_bytes then (Inl (Runtime_error ''read_exactly reached eof before enough bytes were read''), b)
          else (Inr out, b))"

text \<open>\<open>std::string::find\<close>.\<close>

fun str_find :: "string \<Rightarrow> string \<Rightarrow> nat option" where
  "str_find d [] = (if d = [] then Some 0 else None)"
| "str_find d (c # cs) = (if take (length d) (c # cs) = d then Some 0 else map_option Suc (str_find d cs))"

record delimiter_match =
  dm_found :: bool
  dm_start_offset :: nat
  dm_end_offset :: nat
  dm_delimiter_index :: nat
  dm_delimiter :: string

definition no_match :: delimiter_match where
  "no_match = \<lparr>dm_found = False, dm_start_offset = 0, dm_end_offset = 0, dm_delimiter_index = 0, dm_delimiter = []\<rparr>"

text \<open>
  \<open>best_start\<close> and \<open>best_length\<close> are read only when there is a match, of which they are the start and
  the length.
\<close>

fun find_any_loop :: "string \<Rightarrow> nat \<Rightarrow> string list \<Rightarrow> delimiter_match \<Rightarrow> delimiter_match" where
  "find_any_loop pending index [] best = best"
| "find_any_loop pending index (delimiter # delimiters) best =
     find_any_loop pending (Suc index) delimiters
       (case str_find delimiter pending of
          None \<Rightarrow> best
        | Some pos \<Rightarrow>
            if \<not> dm_found best \<or> pos < dm_start_offset best \<or>
               (pos = dm_start_offset best \<and> length (dm_delimiter best) < length delimiter)
            then \<lparr>dm_found = True, dm_start_offset = pos, dm_end_offset = pos + length delimiter,
                  dm_delimiter_index = index, dm_delimiter = delimiter\<rparr>
            else best)"

definition find_any_delimiter :: "string list \<Rightarrow> string \<Rightarrow> delimiter_match" where
  "find_any_delimiter delimiters pending = find_any_loop pending 0 delimiters no_match"

fun validate_delimiters :: "string list \<Rightarrow> unit result" where
  "validate_delimiters delimiters =
     (if delimiters = [] then Inl (Invalid_argument ''read_until_any requires at least one delimiter'')
      else if list_ex (\<lambda>d. d = []) delimiters then Inl (Invalid_argument ''read_until_any delimiter must not be empty'')
      else Inr ())"

text \<open>
  The loops of \<open>read_until\<close> and \<open>read_until_any_result\<close> go on for as long as the stream hands out
  bytes without a delimiter; a loop that never returns has the value \<open>None\<close>.
\<close>

partial_function (option) sb_read_until_loop :: "'s read_fun \<Rightarrow> ('s \<Rightarrow> bool) \<Rightarrow> string \<Rightarrow> nat \<Rightarrow> 's stream_buffer
    \<Rightarrow> (string result \<times> 's stream_buffer) option" where
  "sb_read_until_loop read_some stop delimiter chunk_size b =
     (let m = find_any_delimiter [delimiter] (sb_pending b) in
      if dm_found m
      then Some (Inr (take (dm_end_offset m) (sb_pending b)), b\<lparr>sb_pending := drop (dm_end_offset m) (sb_pending b)\<rparr>)
      else if stop (sb_stream b) then Some (Inl Operation_cancelled, b)
      else (case fst (read_some chunk_size (sb_stream b)) of
              Inl e \<Rightarrow> Some (Inl e, b\<lparr>sb_stream := snd (read_some chunk_size (sb_stream b))\<rparr>)
            | Inr chunk \<Rightarrow>
                if chunk = []
                then Some (Inr (sb_pending b), \<lparr>sb_pending = [], sb_stream = snd (read_some chunk_size (sb_stream b))\<rparr>)
                else sb_read_until_loop read_some stop delimiter chunk_size
                  \<lparr>sb_pending = sb_pending b @ chunk, sb_stream = snd (read_some chunk_size (sb_stream b))\<rparr>))"

declare sb_read_until_loop.simps [code]

definition sb_read_until :: "'s read_fun \<Rightarrow> ('s \<Rightarrow> bool) \<Rightarrow> string \<Rightarrow> nat \<Rightarrow> 's stream_buffer
    \<Rightarrow> (string result \<times> 's stream_buffer) option" where
  "sb_read_until read_some stop delimiter chunk_size b =
     (if delimiter = [] then Some (Inl (Invalid_argument ''read_until delimiter must not be empty''), b)
      else sb_read_until_loop read_some stop delimiter chunk_size b)"

record until_any_result =
  ua_data :: string
  ua_delimiter :: string
  ua_delimiter_index :: "nat option"
  ua_matched :: bool

partial_function (option) sb_read_until_any_loop :: "'s read_fun \<Rightarrow> ('s \<Rightarrow> bool) \<Rightarrow> string list \<Rightarrow> nat \<Rightarrow> 's stream_buffer
    \<Rightarrow> (until_any_result result \<times> 's stream_buffer) option" where
  "sb_read_until_any_loop read_some stop delimiters chunk_size b =
     (let m = find_any_delimiter delimiters (sb_pending b) in
      if dm_found m
      then Some (Inr \<lparr>ua_data = take (dm_end_offset m) (sb_pending b), ua_delimiter = dm_delimiter m,
                      ua_delimiter_index = Some (dm_delimiter_index m), ua_matched = True\<rparr>,
                 b\<lparr>sb_pending := drop (dm_end_offset m) (sb_pending b)\<rparr>)
      else if stop (sb_stream b) then Some (Inl Operation_cancelled, b)
      else (case fst (read_some chunk_size (sb_stream b)) of
              Inl e \<Rightarrow> Some (Inl e, b\<lparr>sb_stream := snd (read_some chunk_size (sb_stream b))\<rparr>)
            | Inr chunk \<Rightarrow>
                if chunk = []
                then Some (Inr \<lparr>ua_data = sb_pending b, ua_delimiter = [], ua_delimiter_index = None, ua_matched = False\<rparr>,
                           \<lparr>sb_pending = [], sb_stream = snd (read_some chunk_size (sb_stream b))\<rparr>)
                else sb_read_until_any_loop read_some stop delimiters chunk_size
                  \<lparr>sb_pending = sb_pending b @ chunk, sb_stream = snd (read_some chunk_size (sb_stream b))\<rparr>))"

declare sb_read_until_any_loop.simps [code]

definition sb_read_until_any_result :: "'s read_fun \<Rightarrow> ('s \<Rightarrow> bool) \<Rightarrow> string list \<Rightarrow> nat \<Rightarrow> 's stream_buffer
    \<Rightarrow> (until_any_result result \<times> 's stream_buffer) option" where
  "sb_read_until_any_result read_some stop delimiters chunk_size b =
     (case validate_delimiters delimiters of
        Inl e \<Rightarrow> Some (Inl e, b)
      | Inr _ \<Rightarrow> sb_read_until_any_loop read_some stop delimiters chunk_size b)"

definition sb_read_until_any :: "'s read_fun \<Rightarrow> ('s \<Rightarrow> bool) \<Rightarrow> string list \<Rightarrow> nat \<Rightarrow> 's stream_buffer
    \<Rightarrow> (string result \<times> 's stream_buffer) option" where
  "sb_read_until_any read_some stop delimiters chunk_size b =
     (case sb_read_until_any_result read_some stop delimiters chunk_size b of
        None \<Rightarrow> None
      | Some (Inl e, b) \<Rightarrow> Some (Inl e, b)
      | Some (Inr r, b) \<Rightarrow> Some (Inr (ua_data r), b))"

text \<open>\<open>read_line\<close>: the line without its end (\<open>line.back()\<close> and \<open>pop_back\<close> are \<open>last\<close> and \<open>butlast\<close>).\<close>

definition trim_end_of_line :: "string \<Rightarrow> string" where
  "trim_end_of_line line =
     (let line = (if line \<noteq> [] \<and> last line = CHR 0x0A then butlast line else line)
      in if line \<noteq> [] \<and> last line = CHR 0x0D then butlast line else line)"

definition read_line :: "'s read_fun \<Rightarrow> ('s \<Rightarrow> bool) \<Rightarrow> bool \<Rightarrow> 's stream_buffer \<Rightarrow> (string result \<times> 's stream_buffer) option" where
  "read_line read_some stop keep_end_of_line b =
     (case sb_read_until read_some stop [CHR 0x0A] 4096 b of
        None \<Rightarrow> None
      | Some (Inl e, b) \<Rightarrow> Some (Inl e, b)
      | Some (Inr line, b) \<Rightarrow> Some (Inr (if keep_end_of_line then line else trim_end_of_line line), b))"

text \<open>\<open>read_exactly_into\<close> on a \<open>stream_buffer\<close>: the count, and the bytes copied into the caller's buffer.\<close>

definition sb_read_exactly_into :: "'s read_fun \<Rightarrow> ('s \<Rightarrow> bool) \<Rightarrow> nat \<Rightarrow> 's stream_buffer \<Rightarrow> (nat \<times> string) result \<times> 's stream_buffer" where
  "sb_read_exactly_into read_some stop buffer_size b =
     (case sb_read_exactly read_some stop buffer_size b of
        (Inl e, b) \<Rightarrow> (Inl e, b)
      | (Inr data, b) \<Rightarrow> (Inr (length data, data), b))"

end
