(* ===== verification/Byte_Source.thy ===== *)
theory Byte_Source
  imports Stream_Buffer
begin

text \<open>
  What a stream promises to those who read from it, as a locale over its \<open>read_some\<close>, and what the
  loops of \<open>io::stream_buffer\<close> then guarantee. The model's streams that keep the promise are the
  libuv stream of \<open>src/stream_ops.hpp\<close>, run against any script of libuv's answers, and a
  \<open>stream_buffer\<close> over a stream that keeps it.
\<close>

section \<open>Finding delimiters\<close>

text \<open>What reading up to a delimiter should give, whatever pieces the bytes arrive in.\<close>

definition until_spec :: "string \<Rightarrow> string \<Rightarrow> string" where
  "until_spec d bs = (case str_find d bs of None \<Rightarrow> bs | Some k \<Rightarrow> take (k + length d) bs)"

lemma str_find_SomeD: "str_find d p = Some k \<Longrightarrow> take (length d) (drop k p) = d \<and> k + length d \<le> length p"
proof (induction p arbitrary: k)
  case (Cons c cs)
  then show ?case
    by (cases "take (length d) (c # cs) = d") (auto dest: arg_cong [of _ d length])
qed (simp split: if_splits)

lemma str_find_append: "str_find d p = Some k \<Longrightarrow> str_find d (p @ q) = Some k"
proof (induction p arbitrary: k)
  case Nil
  then show ?case by (cases q) (simp_all split: if_splits)
next
  case (Cons c cs)
  show ?case
  proof (cases "take (length d) (c # cs) = d")
    case True
    then have "length d \<le> length (c # cs)" by (metis length_take min.cobounded1)
    then have "take (length d) ((c # cs) @ q) = take (length d) (c # cs)" unfolding take_append by simp
    with True Cons.prems show ?thesis by simp
  next
    case False
    with Cons.prems obtain m where m: "str_find d cs = Some m" "k = Suc m" by auto
    from False have "take (length d) ((c # cs) @ q) \<noteq> d" if "length d \<le> length (c # cs)"
      using that unfolding take_append by simp
    moreover from str_find_SomeD [OF m(1)] have "length d \<le> length (c # cs)" by simp
    ultimately show ?thesis using Cons.IH [OF m(1)] m(2) by simp
  qed
qed

lemma until_spec_found:
  "str_find d p = Some k \<Longrightarrow> until_spec d (p @ q) = take (k + length d) p"
  by (auto simp: until_spec_def str_find_append dest: str_find_SomeD)

lemma find_any_one:
  "find_any_delimiter [d] p =
     (case str_find d p of
        None \<Rightarrow> no_match
      | Some k \<Rightarrow> \<lparr>dm_found = True, dm_start_offset = k, dm_end_offset = k + length d, dm_delimiter_index = 0, dm_delimiter = d\<rparr>)"
  by (simp add: find_any_delimiter_def no_match_def split: option.split)

text \<open>A match lies in the searched string, at an occurrence of the delimiter it names.\<close>

definition good_match :: "string list \<Rightarrow> string \<Rightarrow> delimiter_match \<Rightarrow> bool" where
  "good_match ds p m \<longleftrightarrow>
     (if dm_found m
      then dm_delimiter_index m < length ds \<and> ds ! dm_delimiter_index m = dm_delimiter m \<and>
        str_find (dm_delimiter m) p = Some (dm_start_offset m) \<and> dm_end_offset m = dm_start_offset m + length (dm_delimiter m)
      else m = no_match)"

definition beats :: "delimiter_match \<Rightarrow> string \<Rightarrow> string \<Rightarrow> bool" where
  "beats m p d \<longleftrightarrow> (case str_find d p of
      None \<Rightarrow> True
    | Some k \<Rightarrow> dm_found m \<and> (dm_start_offset m < k \<or> (dm_start_offset m = k \<and> length d \<le> length (dm_delimiter m))))"

lemma find_any_loop_good:
  assumes "good_match (xs @ ds) p m" and "\<forall>d \<in> set xs. beats m p d"
  shows "good_match (xs @ ds) p (find_any_loop p (length xs) ds m) \<and>
    (\<forall>d \<in> set (xs @ ds). beats (find_any_loop p (length xs) ds m) p d)"
  using assms
proof (induction ds arbitrary: xs m)
  case (Cons d ds)
  let ?m = "case str_find d p of None \<Rightarrow> m | Some pos \<Rightarrow>
      if \<not> dm_found m \<or> pos < dm_start_offset m \<or> (pos = dm_start_offset m \<and> length (dm_delimiter m) < length d)
      then \<lparr>dm_found = True, dm_start_offset = pos, dm_end_offset = pos + length d, dm_delimiter_index = length xs, dm_delimiter = d\<rparr>
      else m"
  have step: "find_any_loop p (length xs) (d # ds) m = find_any_loop p (length (xs @ [d])) ds ?m" by simp
  have g: "good_match ((xs @ [d]) @ ds) p ?m"
    using Cons.prems(1) by (auto simp: good_match_def nth_append split: option.split)
  have b: "beats ?m p x" if "x \<in> set (xs @ [d])" for x
  proof (cases "x = d")
    case True
    then show ?thesis by (cases "str_find d p") (auto simp: beats_def)
  next
    case False
    with that Cons.prems(2) have "beats m p x" by simp
    then show ?thesis
      by (cases "str_find d p"; cases "str_find x p") (auto simp: beats_def)
  qed
  from Cons.IH [OF g] b show ?case unfolding step by simp
qed simp

lemma find_any_good:
  "good_match ds p (find_any_delimiter ds p)" "d \<in> set ds \<Longrightarrow> beats (find_any_delimiter ds p) p d"
  using find_any_loop_good [of "[]" ds p no_match]
  by (auto simp: find_any_delimiter_def good_match_def no_match_def)

section \<open>The promise\<close>

locale byte_source =
  fixes read_some :: "'s read_fun"
    and ok :: "'s \<Rightarrow> bool"
    and rest :: "'s \<Rightarrow> string"
  assumes ok_read: "ok s \<Longrightarrow> ok (snd (read_some n s))"
    and read_bytes: "ok s \<Longrightarrow> fst (read_some n s) = Inr c \<Longrightarrow>
      c @ rest (snd (read_some n s)) = rest s \<and> length c \<le> n \<and> (c = [] \<longrightarrow> n = 0 \<or> rest s = [])"
    and read_fail: "ok s \<Longrightarrow> fst (read_some n s) = Inl e \<Longrightarrow> rest (snd (read_some n s)) = rest s"

text \<open>A read of at most \<open>n\<close> bytes can throw.\<close>

definition source_fails :: "'s read_fun \<Rightarrow> ('s \<Rightarrow> bool) \<Rightarrow> nat \<Rightarrow> bool" where
  "source_fails read_some ok n \<longleftrightarrow> (\<exists>s m e. ok s \<and> 0 < m \<and> m \<le> n \<and> fst (read_some m s) = Inl e)"

text \<open>The bytes a buffer still has to give.\<close>

definition sb_content :: "('s \<Rightarrow> string) \<Rightarrow> 's stream_buffer \<Rightarrow> string" where
  "sb_content rest b = sb_pending b @ rest (sb_stream b)"

lemma sb_content_sel [simp]: "sb_content rest \<lparr>sb_pending = p, sb_stream = s\<rparr> = p @ rest s"
  by (simp add: sb_content_def)

context byte_source begin

lemma read_cases:
  assumes "ok s"
  obtains e where "fst (read_some n s) = Inl e" "rest (snd (read_some n s)) = rest s" "ok (snd (read_some n s))"
  | c where "fst (read_some n s) = Inr c" "c @ rest (snd (read_some n s)) = rest s" "length c \<le> n"
      "c = [] \<longrightarrow> n = 0 \<or> rest s = []" "ok (snd (read_some n s))"
  using ok_read [OF assms] read_bytes [OF assms] read_fail [OF assms] by (cases "fst (read_some n s)") blast+

lemma buffer_read_some:
  assumes "ok (sb_stream b)"
  shows "ok (sb_stream (snd (sb_read_some read_some n b)))"
    and "fst (sb_read_some read_some n b) = Inr c \<Longrightarrow>
      c @ sb_content rest (snd (sb_read_some read_some n b)) = sb_content rest b \<and> length c \<le> n \<and>
      (c = [] \<longrightarrow> n = 0 \<or> sb_content rest b = [])"
    and "fst (sb_read_some read_some n b) = Inl e \<Longrightarrow> sb_content rest (snd (sb_read_some read_some n b)) = sb_content rest b"
proof -
  show "ok (sb_stream (snd (sb_read_some read_some n b)))"
    using assms ok_read [OF assms] by (simp add: sb_read_some_def Let_def case_prod_beta)
  show "c @ sb_content rest (snd (sb_read_some read_some n b)) = sb_content rest b \<and> length c \<le> n \<and>
      (c = [] \<longrightarrow> n = 0 \<or> sb_content rest b = [])" if "fst (sb_read_some read_some n b) = Inr c"
    using read_bytes [OF assms, of n c] that
    by (auto simp: sb_read_some_def sb_content_def Let_def case_prod_beta split: if_splits)
  show "sb_content rest (snd (sb_read_some read_some n b)) = sb_content rest b" if "fst (sb_read_some read_some n b) = Inl e"
    using read_fail [OF assms, of n e] that
    by (auto simp: sb_read_some_def sb_content_def Let_def case_prod_beta split: if_splits)
qed

text \<open>
  \<open>read_exact\<close> gives the first bytes; when it fails it has taken some bytes that it does not give.
\<close>

lemma read_exact_loop:
  "ok (sb_stream b) \<Longrightarrow> length out \<le> n \<Longrightarrow> sb_read_exact_loop read_some stop n out b = (r, b') \<Longrightarrow>
   ok (sb_stream b') \<and>
   (case r of
      Inr res \<Rightarrow> res @ sb_content rest b' = out @ sb_content rest b \<and> res = take n (out @ sb_content rest b)
    | Inl e \<Rightarrow> (\<exists>lost. lost @ sb_content rest b' = sb_content rest b \<and> length out + length lost < n) \<and>
        ((\<exists>s. stop s) \<or> source_fails read_some ok n))"
proof (induction "n - length out" arbitrary: out b r b' rule: less_induct)
  case less
  note eq = sb_read_exact_loop.simps [of read_some stop n out b]
  show ?case
  proof (cases "length out < n \<and> \<not> stop (sb_stream b)")
    case False
    then consider "\<not> length out < n" | "length out < n" "stop (sb_stream b)" by blast
    then show ?thesis
    proof cases
      case 1
      with less.prems eq show ?thesis by auto
    next
      case 2
      with less.prems eq show ?thesis by (auto intro: exI [of _ "[]"])
    qed
  next
    case go: True
    show ?thesis
    proof (cases "sb_pending b = []")
      case False
      let ?k = "if length (sb_pending b) < n - length out then length (sb_pending b) else n - length out"
      let ?b = "b\<lparr>sb_pending := drop ?k (sb_pending b)\<rparr>"
      let ?t = "take ?k (sb_pending b)"
      have k: "length ?t = ?k" "0 < ?k" using False go by auto
      have e: "sb_read_exact_loop read_some stop n (out @ ?t) ?b = (r, b')"
        using less.prems(3) eq go False by (simp add: Let_def)
      have len: "length (out @ ?t) \<le> n" using k(1) go by (auto split: if_splits)
      have m: "n - length (out @ ?t) < n - length out" unfolding length_append k(1) using k(2) go by linarith
      have c: "sb_content rest b = ?t @ sb_content rest ?b" by (simp add: sb_content_def)
      from less.hyps [OF m _ len e] less.prems(1) show ?thesis
        unfolding c by (cases r) (auto intro: exI [of _ "?t @ _"])
    next
      case empty: True
      from less.prems(1) show ?thesis
      proof (cases rule: read_cases [where n = "n - length out"])
        case (1 e)
        have "r = Inl e" "b' = b\<lparr>sb_stream := snd (read_some (n - length out) (sb_stream b))\<rparr>"
          using less.prems(3) eq go empty 1(1) by (simp_all add: case_prod_beta)
        moreover have "source_fails read_some ok n"
          unfolding source_fails_def using 1(1) less.prems(1) go by (intro exI [of _ "sb_stream b"] exI [of _ "n - length out"]) simp
        ultimately show ?thesis using 1 go by (simp add: sb_content_def exI [of _ "[]"])
      next
        case (2 c)
        let ?b = "b\<lparr>sb_stream := snd (read_some (n - length out) (sb_stream b))\<rparr>"
        from 2 empty have cont: "sb_content rest b = c @ sb_content rest ?b" by (simp add: sb_content_def)
        show ?thesis
        proof (cases "c = []")
          case True
          have "r = Inr out" "b' = b\<lparr>sb_stream := snd (read_some (n - length out) (sb_stream b))\<rparr>"
            using less.prems(3) eq go empty 2(1) True by (simp_all add: case_prod_beta)
          with 2 go empty True show ?thesis by (simp add: sb_content_def)
        next
          case False
          have e: "sb_read_exact_loop read_some stop n (out @ c) ?b = (r, b')"
            using less.prems(3) eq go empty 2 False by (simp add: case_prod_beta)
          have m: "n - length (out @ c) < n - length out" using go False by (simp add: diff_less_mono2)
          have len: "length (out @ c) \<le> n" unfolding length_append using 2(3) go by linarith
          from less.hyps [OF m _ len e] 2(5) show ?thesis
            unfolding cont by (cases r) (auto intro: exI [of _ "c @ _"])
        qed
      qed
    qed
  qed
qed

text \<open>\<open>read_until\<close> returns, loses nothing and gives what the specification says, or an exception.\<close>

lemma read_until_loop:
  "ok (sb_stream b) \<Longrightarrow> 0 < n \<Longrightarrow>
   \<exists>r b'. sb_read_until_loop read_some stop d n b = Some (r, b') \<and> ok (sb_stream b') \<and>
     (case r of
        Inr out \<Rightarrow> out @ sb_content rest b' = sb_content rest b \<and> out = until_spec d (sb_content rest b)
      | Inl e \<Rightarrow> sb_content rest b' = sb_content rest b \<and> ((\<exists>s. stop s) \<or> source_fails read_some ok n))"
proof (induction "length (rest (sb_stream b))" arbitrary: b rule: less_induct)
  case less
  note eq = sb_read_until_loop.simps [of read_some stop d n b]
  show ?case
  proof (cases "str_find d (sb_pending b)")
    case (Some k)
    with less.prems eq until_spec_found [OF Some] show ?thesis
      by (simp add: find_any_one sb_content_def)
  next
    case None
    then have nf: "\<not> dm_found (find_any_delimiter [d] (sb_pending b))" by (simp add: find_any_one no_match_def)
    show ?thesis
    proof (cases "stop (sb_stream b)")
      case True
      with eq nf less.prems show ?thesis by auto
    next
      case False
      from less.prems(1) show ?thesis
      proof (cases rule: read_cases [where n = n])
        case (1 e)
        moreover have "source_fails read_some ok n"
          unfolding source_fails_def using 1(1) less.prems(1,2) by (intro exI [of _ "sb_stream b"] exI [of _ n]) simp
        ultimately show ?thesis using eq nf False by (simp add: sb_content_def)
      next
        case (2 c)
        show ?thesis
        proof (cases "c = []")
          case True
          with 2 less.prems(2) have e: "rest (sb_stream b) = []" by simp
          with True 2 eq nf False None show ?thesis by (simp add: sb_content_def until_spec_def)
        next
          case more: False
          let ?b = "\<lparr>sb_pending = sb_pending b @ c, sb_stream = snd (read_some n (sb_stream b))\<rparr>"
          have m: "length (rest (sb_stream ?b)) < length (rest (sb_stream b))"
            using more arg_cong [OF 2(2) [symmetric], of length] by simp
          have cont: "sb_content rest ?b = sb_content rest b" using 2(2) by (simp add: sb_content_def)
          from less.hyps [OF m] 2(5) less.prems(2) eq nf False 2(1) more show ?thesis
            unfolding cont by simp
        qed
      qed
    qed
  qed
qed

lemma read_until_any_loop:
  "ok (sb_stream b) \<Longrightarrow> 0 < n \<Longrightarrow>
   \<exists>r b'. sb_read_until_any_loop read_some stop ds n b = Some (r, b') \<and> ok (sb_stream b') \<and>
     (case r of
        Inr out \<Rightarrow> ua_data out @ sb_content rest b' = sb_content rest b \<and>
          (if ua_matched out
           then \<exists>i pre. ua_delimiter_index out = Some i \<and> i < length ds \<and> ua_delimiter out = ds ! i \<and>
             ua_data out = pre @ ua_delimiter out
           else sb_content rest b' = [] \<and> ua_delimiter_index out = None \<and> (\<forall>d \<in> set ds. str_find d (ua_data out) = None))
      | Inl e \<Rightarrow> sb_content rest b' = sb_content rest b \<and> ((\<exists>s. stop s) \<or> source_fails read_some ok n))"
proof (induction "length (rest (sb_stream b))" arbitrary: b rule: less_induct)
  case less
  note eq = sb_read_until_any_loop.simps [of read_some stop ds n b]
  let ?m = "find_any_delimiter ds (sb_pending b)"
  note good = find_any_good(1) [of ds "sb_pending b", unfolded good_match_def]
  show ?case
  proof (cases "dm_found ?m")
    case True
    with good have g: "dm_delimiter_index ?m < length ds" "ds ! dm_delimiter_index ?m = dm_delimiter ?m"
      "str_find (dm_delimiter ?m) (sb_pending b) = Some (dm_start_offset ?m)"
      "dm_end_offset ?m = dm_start_offset ?m + length (dm_delimiter ?m)" by simp_all
    from str_find_SomeD [OF g(3)]
    have cut: "take (dm_end_offset ?m) (sb_pending b) = take (dm_start_offset ?m) (sb_pending b) @ dm_delimiter ?m"
      unfolding g(4) take_add by simp
    then have all: "take (dm_start_offset ?m) (sb_pending b) @ dm_delimiter ?m @ drop (dm_end_offset ?m) (sb_pending b) = sb_pending b"
      by (metis append_assoc append_take_drop_id)
    show ?thesis
      unfolding eq Let_def using True g(1,2) less.prems cut all by (simp add: sb_content_def)
  next
    case nf: False
    show ?thesis
    proof (cases "stop (sb_stream b)")
      case True
      with eq nf less.prems show ?thesis by auto
    next
      case False
      from less.prems(1) show ?thesis
      proof (cases rule: read_cases [where n = n])
        case (1 e)
        moreover have "source_fails read_some ok n"
          unfolding source_fails_def using 1(1) less.prems(1,2) by (intro exI [of _ "sb_stream b"] exI [of _ n]) simp
        ultimately show ?thesis using eq nf False by (simp add: sb_content_def)
      next
        case (2 c)
        show ?thesis
        proof (cases "c = []")
          case True
          with 2 less.prems(2) have e: "rest (sb_stream b) = []" "rest (snd (read_some n (sb_stream b))) = []" by simp_all
          have "\<forall>d \<in> set ds. str_find d (sb_pending b) = None"
          proof
            fix d assume "d \<in> set ds"
            from find_any_good(2) [OF this, of "sb_pending b"] nf show "str_find d (sb_pending b) = None"
              by (simp add: beats_def split: option.splits)
          qed
          with True 2 eq nf False e show ?thesis by (simp add: sb_content_def)
        next
          case more: False
          let ?b = "\<lparr>sb_pending = sb_pending b @ c, sb_stream = snd (read_some n (sb_stream b))\<rparr>"
          have m: "length (rest (sb_stream ?b)) < length (rest (sb_stream b))"
            using more arg_cong [OF 2(2) [symmetric], of length] by simp
          have cont: "sb_content rest ?b = sb_content rest b" using 2(2) by (simp add: sb_content_def)
          from less.hyps [OF m] 2(5) less.prems(2) eq nf False 2(1) more show ?thesis
            unfolding cont by simp
        qed
      qed
    qed
  qed
qed

text \<open>A buffer keeps the promise that its stream makes.\<close>

lemma buffered: "byte_source (sb_read_some read_some) (\<lambda>b. ok (sb_stream b)) (sb_content rest)"
  by unfold_locales (fact buffer_read_some)+

end

end
