(* ===== verification/Socket_Source.thy ===== *)
theory Socket_Source
  imports Byte_Source
begin

text \<open>
  A libuv stream read to completion: \<open>stream_read_some\<close> of \<open>src/stream_ops.hpp\<close> is called, its job
  runs and libuv calls back once. What libuv answers comes from a script: a number of bytes (cut to
  what the peer has sent and what the read offers room for) or an error; at the end of the peer's
  bytes the answer is \<open>UV_EOF\<close>. Whatever the script, the stream keeps the promise of a byte source.
\<close>

section \<open>Reading to completion\<close>

type_synonym socket = "read_world \<times> (uv_errno + nat) list"

definition uv_answer :: "nat \<Rightarrow> string \<Rightarrow> (uv_errno + nat) list \<Rightarrow> uv_errno + nat" where
  "uv_answer offered bytes script =
     (if offered = 0 then Inl UV_ENOBUFS
      else if bytes = [] then Inl UV_EOF
      else (case script of
              [] \<Rightarrow> Inr (min offered (length bytes))
            | Inl e # _ \<Rightarrow> Inl e
            | Inr k # _ \<Rightarrow> Inr (max 1 (min k (min offered (length bytes))))))"

definition socket_read_some :: "nat \<Rightarrow> socket \<Rightarrow> string result \<times> socket" where
  "socket_read_some n c =
     (if n = 0 then (Inr [], c)
      else
        let i = rs_count (fst (fst c));
            w = read_step (Se_read False False False n) (fst c);
            w = read_step (Se_job Uv_ok) w;
            w = read_step (Se_cb (uv_answer (alloc_len (rs_ops (fst w) i)) (rs_rest (fst w)) (snd c))) w
        in (stream_read_some_result (rs_ops (fst w) i), w, tl (snd c)))"

definition socket_rest :: "socket \<Rightarrow> string" where
  "socket_rest c = rs_rest (fst (fst c))"

definition socket_ok :: "socket \<Rightarrow> bool" where
  "socket_ok c \<longleftrightarrow> read_inv (concat (map snd (rs_delivered (fst (fst c)))) @ rs_rest (fst (fst c))) (fst c) \<and>
     rt_queue (snd (fst c)) = [] \<and> rs_data (fst (fst c)) = None \<and> Inl UV_EOF \<notin> set (snd c)"

definition new_socket :: "string \<Rightarrow> (uv_errno + nat) list \<Rightarrow> socket" where
  "new_socket bytes script = ((new_read_stream bytes, new_runtime), script)"

lemma socket_ok_new: "Inl UV_EOF \<notin> set script \<Longrightarrow> socket_ok (new_socket bytes script)"
  using read_inv_new [of bytes] by (simp add: socket_ok_def new_socket_def new_read_stream_def new_runtime_def)

lemma socket_rest_new [simp]: "socket_rest (new_socket bytes script) = bytes"
  by (simp add: socket_rest_def new_socket_def new_read_stream_def)

section \<open>The promise is kept\<close>

text \<open>The world while libuv reads for the new operation, and after its callback.\<close>

definition reading_op :: "nat \<Rightarrow> read_op" where
  "reading_op n = (new_read_op n)\<lparr>rd_continuation := True, rd_keep_alive := True\<rparr>"

definition reading_world :: "nat \<Rightarrow> read_world \<Rightarrow> read_world" where
  "reading_world n w = read_step (Se_job Uv_ok) (read_step (Se_read False False False n) w)"

lemma reading_world_sel:
  assumes "socket_ok c" and "0 < n"
  defines "w \<equiv> reading_world n (fst c)"
  shows "rs_data (fst w) = Some (rs_count (fst (fst c)))" "rs_ops (fst w) (rs_count (fst (fst c))) = reading_op n"
    "rs_rest (fst w) = socket_rest c" "rs_delivered (fst w) = rs_delivered (fst (fst c))" "rt_queue (snd w) = []"
    "rs_reading (fst w)"
proof -
  obtain s rt script where c: "c = ((s, rt), script)" by (metis surj_pair)
  from assms have p: "\<not> rt_shutting_down rt" "rt_send_rc rt = Uv_ok" "rt_queue rt = []" "rs_data s = None"
    by (simp_all add: socket_ok_def read_inv_def c)
  have "w = (set_op (rs_count s) (reading_op n) (s\<lparr>rs_count := Suc (rs_count s)\<rparr>)\<lparr>rs_data := Some (rs_count s), rs_reading := True\<rparr>,
      rt\<lparr>rt_queue := [], rt_wakeup := True\<rparr>)"
    using p assms(2)
    by (simp add: w_def reading_world_def c stream_read_some_into_def read_await_suspend_def Let_def stream_post_ok read_run_job_def
        read_start_job_def reading_op_def new_read_op_def set_op_def)
  then show "rs_data (fst w) = Some (rs_count (fst (fst c)))" "rs_ops (fst w) (rs_count (fst (fst c))) = reading_op n"
    "rs_rest (fst w) = socket_rest c" "rs_delivered (fst w) = rs_delivered (fst (fst c))" "rt_queue (snd w) = []"
    "rs_reading (fst w)"
    by (simp_all add: c socket_rest_def)
qed

lemma uv_answer_bounds:
  "uv_answer offered bytes script = Inr k \<Longrightarrow> 0 < k \<and> k \<le> offered \<and> k \<le> length bytes"
  by (cases script; cases bytes) (auto simp: uv_answer_def split: if_splits sum.splits)

lemma uv_answer_eof:
  "uv_answer offered bytes script = Inl UV_EOF \<Longrightarrow> Inl UV_EOF \<notin> set script \<Longrightarrow> bytes = []"
  by (auto simp: uv_answer_def split: if_splits sum.splits list.splits)

lemma alloc_len_reading [simp]: "alloc_len (reading_op n) = n mod 2 ^ 32"
  by (simp add: alloc_len_def reading_op_def new_read_op_def uv_buf_len_def unat_of_nat)

lemma socket_read_some_unfold:
  assumes "socket_ok c" and "0 < n"
  defines "a \<equiv> uv_answer (n mod 2 ^ 32) (socket_rest c) (snd c)"
    and "w \<equiv> reading_world n (fst c)"
  shows "socket_read_some n c =
    (stream_read_some_result (rs_ops (read_cb a (fst w)) (rs_count (fst (fst c)))), (read_cb a (fst w), snd w), tl (snd c))"
  using reading_world_sel [OF assms(1,2)] assms(2)
  unfolding socket_read_some_def Let_def reading_world_def [symmetric] a_def w_def by simp

lemma socket_keeps:
  assumes "socket_ok c"
  shows "socket_ok (snd (socket_read_some n c))"
    and "fst (socket_read_some n c) = Inr bs \<Longrightarrow>
      bs @ socket_rest (snd (socket_read_some n c)) = socket_rest c \<and> length bs \<le> n \<and> (bs = [] \<longrightarrow> n = 0 \<or> socket_rest c = [])"
    and "fst (socket_read_some n c) = Inl e \<Longrightarrow> socket_rest (snd (socket_read_some n c)) = socket_rest c"
proof -
  let ?bytes = "concat (map snd (rs_delivered (fst (fst c)))) @ rs_rest (fst (fst c))"
  define w where "w = reading_world n (fst c)"
  define a where "a = uv_answer (n mod 2 ^ 32) (socket_rest c) (snd c)"
  have eof: "Inl UV_EOF \<notin> set (tl (snd c))" "Inl UV_EOF \<notin> set (snd c)"
    using assms by (cases "snd c"; simp add: socket_ok_def)+
  show "socket_ok (snd (socket_read_some n c))"
  proof (cases "n = 0")
    case True
    with assms show ?thesis by (simp add: socket_read_some_def)
  next
    case False
    then have n: "0 < n" by simp
    note sel = reading_world_sel [OF assms n, folded w_def]
    from assms have "read_inv ?bytes (fst c)" by (simp add: socket_ok_def)
    then have "read_inv ?bytes w" unfolding w_def reading_world_def
      using read_inv_read read_inv_job by simp
    moreover have "read_enabled (Se_cb a) w"
      using sel uv_answer_bounds [of "n mod 2 ^ 32" "socket_rest c" "snd c"] by (auto simp: a_def split: sum.split)
    ultimately have inv: "read_inv ?bytes (read_cb a (fst w), snd w)" using read_inv_cb by fastforce
    then have "?bytes = concat (map snd (rs_delivered (read_cb a (fst w)))) @ rs_rest (read_cb a (fst w))" by (simp add: read_inv_def)
    moreover have "a \<noteq> Inr 0" using uv_answer_bounds unfolding a_def by blast
    then have "rs_data (read_cb a (fst w)) = None" using sel by (simp add: read_cb_def Let_def)
    ultimately show ?thesis
      using inv sel eof by (simp add: socket_read_some_unfold [OF assms n, folded a_def w_def] socket_ok_def)
  qed
  show "bs @ socket_rest (snd (socket_read_some n c)) = socket_rest c \<and> length bs \<le> n \<and> (bs = [] \<longrightarrow> n = 0 \<or> socket_rest c = [])"
    if r: "fst (socket_read_some n c) = Inr bs"
  proof (cases "n = 0")
    case True
    with r show ?thesis by (simp add: socket_read_some_def)
  next
    case False
    then have n: "0 < n" by simp
    note sel = reading_world_sel [OF assms n, folded w_def]
    note u = socket_read_some_unfold [OF assms n, folded a_def w_def]
    show ?thesis
    proof (cases a)
      case (Inl e)
      with r sel u have "e = UV_EOF \<and> bs = []"
        by (auto simp: read_cb_def stream_read_some_result_def read_await_resume_def rd_complete_def reading_op_def new_read_op_def
            split: if_splits)
      with Inl uv_answer_eof [OF _ eof(2)] have "socket_rest c = []" unfolding a_def by blast
      with \<open>e = UV_EOF \<and> bs = []\<close> Inl u sel show ?thesis by (simp add: socket_rest_def read_cb_def)
    next
      case (Inr k)
      with uv_answer_bounds [of "n mod 2 ^ 32" "socket_rest c" "snd c" k]
      have k: "0 < k" "k \<le> n mod 2 ^ 32" "k \<le> length (socket_rest c)" by (simp_all add: a_def)
      from k(2) have "k \<le> n" using mod_less_eq_dividend le_trans by blast
      moreover from Inr r sel u k have "bs = take k (socket_rest c)"
        by (simp add: read_cb_def stream_read_some_result_def read_await_resume_def rd_complete_def reading_op_def new_read_op_def)
      ultimately show ?thesis using Inr u sel k by (auto simp: socket_rest_def read_cb_def Let_def)
    qed
  qed
  show "socket_rest (snd (socket_read_some n c)) = socket_rest c" if r: "fst (socket_read_some n c) = Inl e"
  proof (cases "n = 0")
    case True
    with r show ?thesis by (simp add: socket_read_some_def)
  next
    case False
    then have n: "0 < n" by simp
    note sel = reading_world_sel [OF assms n, folded w_def]
    note u = socket_read_some_unfold [OF assms n, folded a_def w_def]
    show ?thesis
    proof (cases a)
      case (Inl e')
      with u sel show ?thesis by (simp add: socket_rest_def read_cb_def)
    next
      case (Inr k)
      with uv_answer_bounds [of "n mod 2 ^ 32" "socket_rest c" "snd c" k] have "0 < k" by (simp add: a_def)
      with Inr r sel u show ?thesis
        by (simp add: read_cb_def stream_read_some_result_def read_await_resume_def rd_complete_def reading_op_def new_read_op_def)
    qed
  qed
qed

interpretation socket: byte_source socket_read_some socket_ok socket_rest
  by unfold_locales (fact socket_keeps)+

interpretation buffered_socket: byte_source "sb_read_some socket_read_some" "\<lambda>b. socket_ok (sb_stream b)" "sb_content socket_rest"
  by (rule socket.buffered)

end
