(* ===== verification/Io_Transfer.thy ===== *)
theory Io_Transfer
  imports Socket_Source
begin

text \<open>
  The free functions of \<open>include/luvcoro/io.hpp\<close> that move bytes: \<open>read_exactly\<close>, \<open>write_all\<close>,
  \<open>write_all_buffer\<close>, \<open>copy\<close> and \<open>copy_n\<close>. A sink is its \<open>write\<close>, run to completion; its promise is the
  locale \<open>byte_sink\<close>, which \<open>stream_write\<close> of \<open>src/stream_ops.hpp\<close> keeps for fewer than 2 ^ 32 bytes.
\<close>

section \<open>Operations\<close>

type_synonym 's write_fun = "string \<Rightarrow> 's \<Rightarrow> nat result \<times> 's"

text \<open>\<open>read_exactly\<close> and \<open>read_exactly_into\<close> of any stream, over its \<open>read_exact\<close>.\<close>

definition io_read_exactly :: "'s read_fun \<Rightarrow> nat \<Rightarrow> 's \<Rightarrow> string result \<times> 's" where
  "io_read_exactly read_exact total_bytes s =
     (case read_exact total_bytes s of
        (Inl e, s) \<Rightarrow> (Inl e, s)
      | (Inr out, s) \<Rightarrow>
          if length out \<noteq> total_bytes then (Inl (Runtime_error ''read_exactly reached eof before enough bytes were read''), s)
          else (Inr out, s))"

definition io_read_exactly_into :: "'s read_fun \<Rightarrow> nat \<Rightarrow> 's \<Rightarrow> (nat \<times> string) result \<times> 's" where
  "io_read_exactly_into read_exact_into buffer_size s =
     (case read_exact_into buffer_size s of
        (Inl e, s) \<Rightarrow> (Inl e, s)
      | (Inr bytes, s) \<Rightarrow>
          if length bytes \<noteq> buffer_size
          then (Inl (Runtime_error ''read_exactly_into reached eof before enough bytes were read''), s)
          else (Inr (length bytes, bytes), s))"

function write_all_loop :: "'s write_fun \<Rightarrow> ('s \<Rightarrow> bool) \<Rightarrow> string \<Rightarrow> nat \<Rightarrow> 's \<Rightarrow> nat result \<times> 's" where
  "write_all_loop write stop owned done s =
     (if done < length owned then
        if stop s then (Inl Operation_cancelled, s)
        else (case write (drop done owned) s of
                (Inl e, s) \<Rightarrow> (Inl e, s)
              | (Inr written, s) \<Rightarrow>
                  if written = 0 then (Inl (Runtime_error ''write_all made no progress''), s)
                  else write_all_loop write stop owned (done + written) s)
      else (Inr done, s))"
  by pat_completeness auto
termination
  by (relation "measure (\<lambda>(write, stop, owned, done, s). length owned - done)") auto

declare write_all_loop.simps [simp del]

definition write_all :: "'s write_fun \<Rightarrow> ('s \<Rightarrow> bool) \<Rightarrow> string \<Rightarrow> 's \<Rightarrow> nat result \<times> 's" where
  "write_all write stop data s = write_all_loop write stop data 0 s"

function write_all_buffer_loop :: "'s write_fun \<Rightarrow> string \<Rightarrow> nat \<Rightarrow> 's \<Rightarrow> nat result \<times> 's" where
  "write_all_buffer_loop write_some buffer done s =
     (if done < length buffer then
        (case write_some (drop done buffer) s of
           (Inl e, s) \<Rightarrow> (Inl e, s)
         | (Inr written, s) \<Rightarrow>
             if written = 0 then (Inl (Runtime_error ''write_all_buffer made no progress''), s)
             else write_all_buffer_loop write_some buffer (done + written) s)
      else (Inr done, s))"
  by pat_completeness auto
termination
  by (relation "measure (\<lambda>(write_some, buffer, done, s). length buffer - done)") auto

declare write_all_buffer_loop.simps [simp del]

definition write_all_buffer :: "'s write_fun \<Rightarrow> string \<Rightarrow> 's \<Rightarrow> nat result \<times> 's" where
  "write_all_buffer write_some buffer s = write_all_buffer_loop write_some buffer 0 s"

text \<open>
  \<open>copy\<close> goes on until the source is at its end, so it need not return. \<open>read_some_into\<close> gives the
  bytes it put at the start of the caller's buffer (its result is their number).
\<close>

partial_function (option) copy_loop :: "'s read_fun \<Rightarrow> 't write_fun \<Rightarrow> nat \<Rightarrow> nat \<Rightarrow> 's \<Rightarrow> 't \<Rightarrow> (nat result \<times> 's \<times> 't) option" where
  "copy_loop read_some_into write_some buffer_size copied s t =
     (case fst (read_some_into buffer_size s) of
        Inl e \<Rightarrow> Some (Inl e, snd (read_some_into buffer_size s), t)
      | Inr bytes \<Rightarrow>
          if bytes = [] then Some (Inr copied, snd (read_some_into buffer_size s), t)
          else (case fst (write_all_buffer write_some bytes t) of
                  Inl e \<Rightarrow> Some (Inl e, snd (read_some_into buffer_size s), snd (write_all_buffer write_some bytes t))
                | Inr k \<Rightarrow> copy_loop read_some_into write_some buffer_size (copied + k)
                    (snd (read_some_into buffer_size s)) (snd (write_all_buffer write_some bytes t))))"

declare copy_loop.simps [code]

definition io_copy :: "'s read_fun \<Rightarrow> 't write_fun \<Rightarrow> nat \<Rightarrow> 's \<Rightarrow> 't \<Rightarrow> (nat result \<times> 's \<times> 't) option" where
  "io_copy read_some_into write_some buffer_size s t =
     (if buffer_size = 0 then Some (Inl (Invalid_argument ''copy buffer_size must be > 0''), s, t)
      else copy_loop read_some_into write_some buffer_size 0 s t)"

text \<open>
  \<open>copy_n\<close>: its loop ends when the sink reports at least one byte for each write, which
  \<open>write_all_buffer\<close> enforces; here it is bounded by what is still to be copied.
\<close>

partial_function (option) copy_n_loop :: "'s read_fun \<Rightarrow> 't write_fun \<Rightarrow> nat \<Rightarrow> nat \<Rightarrow> nat \<Rightarrow> 's \<Rightarrow> 't \<Rightarrow> (nat result \<times> 's \<times> 't) option" where
  "copy_n_loop read_some_into write_some bytes_to_copy buffer_size copied s t =
     (if copied < bytes_to_copy then
        (let wanted = (if bytes_to_copy - copied < buffer_size then bytes_to_copy - copied else buffer_size) in
         case fst (read_some_into wanted s) of
           Inl e \<Rightarrow> Some (Inl e, snd (read_some_into wanted s), t)
         | Inr bytes \<Rightarrow>
             if bytes = [] then Some (Inr copied, snd (read_some_into wanted s), t)
             else (case fst (write_all_buffer write_some bytes t) of
                     Inl e \<Rightarrow> Some (Inl e, snd (read_some_into wanted s), snd (write_all_buffer write_some bytes t))
                   | Inr k \<Rightarrow> copy_n_loop read_some_into write_some bytes_to_copy buffer_size (copied + k)
                       (snd (read_some_into wanted s)) (snd (write_all_buffer write_some bytes t))))
      else Some (Inr copied, s, t))"

declare copy_n_loop.simps [code]

definition io_copy_n :: "'s read_fun \<Rightarrow> 't write_fun \<Rightarrow> nat \<Rightarrow> nat \<Rightarrow> 's \<Rightarrow> 't \<Rightarrow> (nat result \<times> 's \<times> 't) option" where
  "io_copy_n read_some_into write_some bytes_to_copy buffer_size s t =
     (if buffer_size = 0 then Some (Inl (Invalid_argument ''copy_n buffer_size must be > 0''), s, t)
      else copy_n_loop read_some_into write_some bytes_to_copy buffer_size 0 s t)"

section \<open>The promise of a sink\<close>

lemma take_then_drop: "take k (drop i d) @ drop (i + k) d = drop i d"
  by (metis add.commute append_take_drop_id drop_drop)

lemma take_then_take: "take k (drop i d) @ take j (drop (i + k) d) = take (k + j) (drop i d)"
  by (metis add.commute drop_drop take_add)

text \<open>\<open>write_all_buffer\<close> is \<open>write_all\<close> with a token that is never stopped, but for the exception's text.\<close>

lemma write_all_buffer_loop_eq:
  "snd (write_all_buffer_loop w d i s) = snd (write_all_loop w (\<lambda>_. False) d i s) \<and>
   (case fst (write_all_buffer_loop w d i s) of
      Inr n \<Rightarrow> fst (write_all_loop w (\<lambda>_. False) d i s) = Inr n
    | Inl e \<Rightarrow> \<exists>e'. fst (write_all_loop w (\<lambda>_. False) d i s) = Inl e')"
proof (induction w d i s rule: write_all_buffer_loop.induct)
  case (1 w d i s)
  show ?case
  proof (cases "i < length d")
    case False
    then show ?thesis by (simp add: write_all_buffer_loop.simps [of w d i s] write_all_loop.simps [of w _ d i s])
  next
    case True
    obtain r s' where w: "w (drop i d) s = (r, s')" by fastforce
    from True w 1 show ?thesis
      by (cases r; cases "r = Inr 0")
         (simp_all add: write_all_buffer_loop.simps [of w d i s] write_all_loop.simps [of w _ d i s] split: sum.splits)
  qed
qed

text \<open>
  A write of fewer than \<open>limit\<close> bytes that reports a number has written that many of the first
  bytes; one that throws may have written some of them.
\<close>

definition sink_fails :: "'t write_fun \<Rightarrow> ('t \<Rightarrow> bool) \<Rightarrow> nat \<Rightarrow> bool" where
  "sink_fails writer sink_ok limit \<longleftrightarrow>
     (\<exists>t d. sink_ok t \<and> d \<noteq> [] \<and> length d < limit \<and> (\<forall>k. fst (writer d t) = Inr k \<longrightarrow> k = 0))"

locale byte_sink =
  fixes writer :: "'t write_fun"
    and sink_ok :: "'t \<Rightarrow> bool"
    and sent :: "'t \<Rightarrow> string"
    and limit :: nat
  assumes ok_write: "sink_ok t \<Longrightarrow> sink_ok (snd (writer d t))"
    and write_bytes: "sink_ok t \<Longrightarrow> length d < limit \<Longrightarrow> fst (writer d t) = Inr k \<Longrightarrow>
      k \<le> length d \<and> sent (snd (writer d t)) = sent t @ take k d"
    and write_fail: "sink_ok t \<Longrightarrow> length d < limit \<Longrightarrow> fst (writer d t) = Inl e \<Longrightarrow>
      \<exists>k. sent (snd (writer d t)) = sent t @ take k d"
begin

lemma write_all_loop:
  "sink_ok t \<Longrightarrow> length d < limit \<Longrightarrow> i \<le> length d \<Longrightarrow> write_all_loop writer stop d i t = (r, t') \<Longrightarrow>
   sink_ok t' \<and>
   (case r of
      Inr n \<Rightarrow> n = length d \<and> sent t' = sent t @ drop i d
    | Inl e \<Rightarrow> (\<exists>k. sent t' = sent t @ take k (drop i d)) \<and> ((\<exists>s. stop s) \<or> sink_fails writer sink_ok limit))"
proof (induction "length d - i" arbitrary: i t r t' rule: less_induct)
  case less
  note eq = write_all_loop.simps [of writer stop d i t]
  show ?case
  proof (cases "i < length d \<and> \<not> stop t")
    case False
    then consider "i = length d" | "i < length d" "stop t" using less.prems(3) by linarith
    then show ?thesis
    proof cases
      case 1
      with less.prems eq show ?thesis by auto
    next
      case 2
      with less.prems eq show ?thesis by (auto intro: exI [of _ 0])
    qed
  next
    case go: True
    let ?w = "writer (drop i d) t"
    have l: "length (drop i d) < limit" using less.prems(2) by simp
    note okw = ok_write [OF less.prems(1), of "drop i d"]
    show ?thesis
    proof (cases "fst ?w")
      case (Inl e)
      with less.prems(4) eq go have "r = Inl e" "t' = snd ?w" by (simp_all add: case_prod_beta)
      moreover have "sink_fails writer sink_ok limit"
        unfolding sink_fails_def using Inl less.prems(1) l go by (intro exI [of _ t] exI [of _ "drop i d"]) simp
      ultimately show ?thesis using write_fail [OF less.prems(1) l Inl] okw by simp
    next
      case (Inr k)
      note w = write_bytes [OF less.prems(1) l Inr]
      show ?thesis
      proof (cases "k = 0")
        case True
        with less.prems(4) eq go Inr have "r = Inl (Runtime_error ''write_all made no progress'')" "t' = snd ?w"
          by (simp_all add: case_prod_beta)
        moreover have "sink_fails writer sink_ok limit"
          unfolding sink_fails_def using Inr True less.prems(1) l go by (intro exI [of _ t] exI [of _ "drop i d"]) simp
        ultimately show ?thesis using w True okw by (auto intro: exI [of _ 0])
      next
        case False
        with less.prems(4) eq go Inr have e: "write_all_loop writer stop d (i + k) (snd ?w) = (r, t')"
          by (simp add: case_prod_beta)
        have m: "length d - (i + k) < length d - i" "i + k \<le> length d" using False go w by auto
        from less.hyps [OF m(1) okw less.prems(2) m(2) e] w show ?thesis
          by (cases r) (auto simp: take_then_drop take_then_take)
      qed
    qed
  qed
qed

lemma write_all_buffer:
  assumes "sink_ok t" and "length d < limit" and "write_all_buffer writer d t = (r, t')"
  shows "sink_ok t' \<and>
    (case r of
       Inr n \<Rightarrow> n = length d \<and> sent t' = sent t @ d
     | Inl e \<Rightarrow> (\<exists>k. sent t' = sent t @ take k d) \<and> sink_fails writer sink_ok limit)"
proof -
  obtain r0 where w: "write_all_loop writer (\<lambda>_. False) d 0 t = (r0, t')"
    and rel: "case r of Inr n \<Rightarrow> r0 = Inr n | Inl e \<Rightarrow> \<exists>e'. r0 = Inl e'"
    using write_all_buffer_loop_eq [of writer d 0 t] assms(3)
    by (metis fst_conv snd_conv surjective_pairing write_all_buffer_def)
  from write_all_loop [OF assms(1,2) _ w] rel show ?thesis by (cases r) auto
qed

end

text \<open>A source and a sink together.\<close>

locale byte_pipe = byte_source read_some ok rest + byte_sink writer sink_ok sent limit
  for read_some :: "'s read_fun" and ok :: "'s \<Rightarrow> bool" and rest :: "'s \<Rightarrow> string"
    and writer :: "'t write_fun" and sink_ok :: "'t \<Rightarrow> bool" and sent :: "'t \<Rightarrow> string" and limit :: nat
begin

text \<open>\<open>copy\<close> returns; it has moved everything, or a first part of it when it throws.\<close>

lemma copy_loop:
  "ok s \<Longrightarrow> sink_ok t \<Longrightarrow> 0 < n \<Longrightarrow> n < limit \<Longrightarrow>
   \<exists>r s' t'. copy_loop read_some writer n m s t = Some (r, s', t') \<and>
     (case r of
        Inr k \<Rightarrow> rest s' = [] \<and> sent t' = sent t @ rest s \<and> k = m + length (rest s)
      | Inl e \<Rightarrow> (\<exists>k. sent t' = sent t @ take k (rest s)) \<and> (source_fails read_some ok n \<or> sink_fails writer sink_ok limit))"
proof (induction "length (rest s)" arbitrary: s t m rule: less_induct)
  case less
  note eq = copy_loop.simps [of read_some writer n m s t]
  from less.prems(1) show ?case
  proof (cases rule: read_cases [where n = n])
    case (1 e)
    moreover have "source_fails read_some ok n"
      unfolding source_fails_def using 1(1) less.prems(1,3) by (intro exI [of _ s] exI [of _ n]) simp
    ultimately show ?thesis using eq by (auto intro: exI [of _ 0])
  next
    case (2 c)
    show ?thesis
    proof (cases "c = []")
      case True
      with 2 less.prems(3) eq show ?thesis by simp
    next
      case False
      obtain r t' where w: "write_all_buffer writer c t = (r, t')" by fastforce
      from 2(3) less.prems(4) have "length c < limit" by simp
      note b = write_all_buffer [OF less.prems(2) this w]
      show ?thesis
      proof (cases r)
        case (Inl e)
        with b obtain k where "sent t' = sent t @ take k c" and sf: "sink_fails writer sink_ok limit" by auto
        moreover have "take k c = take (min k (length c)) (rest s)" unfolding 2(2) [symmetric] by (simp add: min_def)
        ultimately show ?thesis using eq 2(1) False w Inl sf by auto
      next
        case (Inr k)
        have m: "length (rest (snd (read_some n s))) < length (rest s)"
          using False arg_cong [OF 2(2) [symmetric], of length] by simp
        from b Inr have t': "sink_ok t'" "k = length c" "sent t' = sent t @ c" by simp_all
        from less.hyps [OF m 2(5) t'(1) less.prems(3,4), of "m + k"] obtain r' s'' t'' where
          run: "copy_loop read_some writer n (m + k) (snd (read_some n s)) t' = Some (r', s'', t'')"
          and res: "case r' of Inr k' \<Rightarrow> rest s'' = [] \<and> sent t'' = sent t' @ rest (snd (read_some n s)) \<and>
              k' = m + k + length (rest (snd (read_some n s)))
            | Inl e \<Rightarrow> (\<exists>k. sent t'' = sent t' @ take k (rest (snd (read_some n s)))) \<and>
                (source_fails read_some ok n \<or> sink_fails writer sink_ok limit)" by blast
        have run': "copy_loop read_some writer n m s t = Some (r', s'', t'')" using eq 2(1) False w Inr run by simp
        show ?thesis
        proof (cases r')
          case (Inl e)
          with res obtain j where "sent t'' = sent t @ c @ take j (rest (snd (read_some n s)))" using t' by auto
          moreover have "c @ take j (rest (snd (read_some n s))) = take (length c + j) (rest s)"
            unfolding 2(2) [symmetric] by simp
          ultimately show ?thesis using run' Inl res by auto
        next
          case (Inr k')
          have "length (rest s) = length c + length (rest (snd (read_some n s)))"
            using arg_cong [OF 2(2) [symmetric], of length] by simp
          with res t' Inr run' 2(2) show ?thesis by simp
        qed
      qed
    qed
  qed
qed

lemma copy_n_loop:
  "ok s \<Longrightarrow> sink_ok t \<Longrightarrow> 0 < n \<Longrightarrow> n < limit \<Longrightarrow> m \<le> bound \<Longrightarrow>
   \<exists>r s' t'. copy_n_loop read_some writer bound n m s t = Some (r, s', t') \<and>
     (case r of
        Inr k \<Rightarrow> k = m + min (bound - m) (length (rest s)) \<and> sent t' = sent t @ take (bound - m) (rest s) \<and>
          rest s' = drop (bound - m) (rest s)
      | Inl e \<Rightarrow> (\<exists>k. sent t' = sent t @ take k (rest s)) \<and> (source_fails read_some ok n \<or> sink_fails writer sink_ok limit))"
proof (induction "bound - m" arbitrary: s t m rule: less_induct)
  case less
  note eq = copy_n_loop.simps [of read_some writer bound n m s t]
  show ?case
  proof (cases "m < bound")
    case False
    with less.prems eq show ?thesis by simp
  next
    case go: True
    define wanted where "wanted = (if bound - m < n then bound - m else n)"
    have wn: "0 < wanted" "wanted \<le> n" "wanted \<le> bound - m" using go less.prems(3) by (auto simp: wanted_def)
    note eq = eq [folded wanted_def, unfolded Let_def]
    from less.prems(1) show ?thesis
    proof (cases rule: read_cases [where n = wanted])
      case (1 e)
      moreover have "source_fails read_some ok n"
        unfolding source_fails_def using 1(1) less.prems(1) wn by (intro exI [of _ s] exI [of _ wanted]) simp
      ultimately show ?thesis using eq go by (auto intro: exI [of _ 0])
    next
      case (2 c)
      show ?thesis
      proof (cases "c = []")
        case True
        with 2 wn have "rest s = []" by simp
        with 2 True eq go less.prems(5) show ?thesis by simp
      next
        case False
        obtain r t' where w: "write_all_buffer writer c t = (r, t')" by fastforce
        from 2(3) wn(2) less.prems(4) have "length c < limit" by simp
        note b = write_all_buffer [OF less.prems(2) this w]
        show ?thesis
        proof (cases r)
          case (Inl e)
          with b obtain k where "sent t' = sent t @ take k c" and sf: "sink_fails writer sink_ok limit" by auto
          moreover have "take k c = take (min k (length c)) (rest s)" unfolding 2(2) [symmetric] by (simp add: min_def)
          ultimately show ?thesis using eq go 2(1) False w Inl sf by auto
        next
          case (Inr k)
          from b Inr have t': "sink_ok t'" "k = length c" "sent t' = sent t @ c" by simp_all
          have m: "bound - (m + k) < bound - m" "m + k \<le> bound" using go False t'(2) 2(3) wn(3) by (auto simp: diff_less_mono2)
          let ?rest = "rest (snd (read_some wanted s))"
          from less.hyps [OF m(1) 2(5) t'(1) less.prems(3,4) m(2)] obtain r' s'' t'' where
            run: "copy_n_loop read_some writer bound n (m + k) (snd (read_some wanted s)) t' = Some (r', s'', t'')"
            and res: "case r' of Inr k' \<Rightarrow> k' = (m + k) + min (bound - (m + k)) (length ?rest) \<and>
                sent t'' = sent t' @ take (bound - (m + k)) ?rest \<and> rest s'' = drop (bound - (m + k)) ?rest
              | Inl e \<Rightarrow> (\<exists>k. sent t'' = sent t' @ take k ?rest) \<and>
                  (source_fails read_some ok n \<or> sink_fails writer sink_ok limit)" by blast
          have run': "copy_n_loop read_some writer bound n m s t = Some (r', s'', t'')" using eq go 2(1) False w Inr run by simp
          have split: "c @ take j ?rest = take (length c + j) (rest s)" "drop j ?rest = drop (length c + j) (rest s)" for j
            unfolding 2(2) [symmetric] by simp_all
          show ?thesis
          proof (cases r')
            case (Inl e)
            with res obtain j where "sent t'' = sent t @ take (length c + j) (rest s)" using t' split(1) by auto
            then show ?thesis using run' Inl res by auto
          next
            case (Inr k')
            have "length (rest s) = length c + length ?rest" using arg_cong [OF 2(2) [symmetric], of length] by simp
            then have num: "(m + k) + min (bound - (m + k)) (length ?rest) = m + min (bound - m) (length (rest s))"
              using m(2) t'(2) by linarith
            have "bound - m = length c + (bound - (m + k))" using m t'(2) by simp
            with res t' Inr run' split num show ?thesis by simp
          qed
        qed
      qed
    qed
  qed
qed

end

end
