(* ===== verification/Stream_Write.thy ===== *)
theory Stream_Write
  imports Stream_Ops
begin

text \<open>
  Properties of \<open>stream_write\<close> (\<open>src/stream_ops.hpp\<close>): the life of a write as a one-shot request, what
  happens when \<open>uv_cancel\<close> refuses, and the length that reaches libuv.
\<close>

section \<open>Writing: lemmas and properties\<close>

lemma uv_buf_len_mod: "uv_buf_len n = n mod 2 ^ 32"
  by (simp add: uv_buf_len_def unat_of_nat)

lemma uv_buf_init_exact: "uv_buf_init data = data \<longleftrightarrow> length data < 2 ^ 32"
proof
  assume "uv_buf_init data = data"
  then have "length (take (length data mod 2 ^ 32) data) = length data" by (simp only: uv_buf_init_def uv_buf_len_mod)
  then have "length data mod 2 ^ 32 = length data" by (simp del: take_all)
  then show "length data < 2 ^ 32" by (metis mod_less_divisor zero_less_numeral zero_less_power)
qed (simp add: uv_buf_init_def uv_buf_len_mod)

interpretation writing: one_shot rq_complete write_start_job rq_on_done "\<lambda>s. s"
proof
  fix a :: uv_status and x :: write_request
  assume "\<not> rq_completed x"
  then show "rq_core (write_start_job a x) = (rq_core x)\<lparr>rq_started := True, rq_in_flight := True\<rparr> \<or>
      (\<exists>b e. rq_core (write_start_job a x) = rq_complete ((rq_core x)\<lparr>rq_started := b, rq_status := Uv_err e\<rparr>))"
    using plain.start_core [of "x\<lparr>wr_handed := Some (uv_buf_init (wr_data x))\<rparr>" a]
    by (simp add: write_start_job_def) (simp add: rq_core_def uv_request.truncate_def)
qed (auto simp: write_start_job_def rq_on_done_def)

text \<open>What was handed to libuv, in every state of a write.\<close>

definition handed_ok :: "string \<Rightarrow> write_request \<Rightarrow> bool" where
  "handed_ok data x \<longleftrightarrow> wr_data x = data \<and> (rq_started x \<longrightarrow> wr_handed x = Some (uv_buf_init data))"

lemma rq_complete_wr [simp]: "wr_data (rq_complete x) = wr_data x" "wr_handed (rq_complete x) = wr_handed x"
  by (simp_all add: rq_complete_def)

lemma handed_step: "handed_ok data (fst w) \<Longrightarrow> handed_ok data (fst (write_step ev w))"
  by (cases ev)
    (auto simp: write_step_def handed_ok_def rq_stop_def rq_run_job_def write_start_job_def rq_start_job_def rq_cancel_job_def
       rq_on_done_def rq_complete_sel Let_def split: list.split rq_job.split uv_status.split)

lemma handed_run: "handed_ok data (fst w) \<Longrightarrow> handed_ok data (fst (rq_run write_step evs w))"
  by (induction evs arbitrary: w) (simp_all add: handed_step)

lemma stream_write_suspended:
  assumes "rt_queue rt = []" and "stream_write a b c data rt = (Suspended, w)"
  shows "rq_inv w" "rq_safe w" "\<not> rq_completed (fst w)" "handed_ok data (fst w)"
proof -
  have s: "rq_await_suspend a b c (new_write_request data, rt) = (Inr True, w)"
    using assms(2) by (auto simp: stream_write_def split: if_splits prod.splits sum.splits bool.splits)
  have f: "rq_fresh (new_write_request data)" by (simp add: rq_fresh_def new_write_request_def)
  from rq_suspended_inv [OF f assms(1) s] show "rq_inv w" "rq_safe w" "\<not> rq_completed (fst w)" .
  from s show "handed_ok data (fst w)"
    by (auto simp: rq_await_suspend_def handed_ok_def new_write_request_def rq_stop_def Let_def split: if_splits prod.splits sum.splits)
qed

text \<open>A completed request was started, unless an error or a cancellation ended it.\<close>

lemma started_step:
  assumes "rq_inv w" and "rq_enabled ev w" and "rq_completed (fst w) \<and> rq_status (fst w) = Uv_ok \<longrightarrow> rq_started (fst w)"
  shows "rq_completed (fst (write_step ev w)) \<and> rq_status (fst (write_step ev w)) = Uv_ok \<longrightarrow> rq_started (fst (write_step ev w))"
  using assms
  by (cases ev)
    (auto simp: write_step_def rq_stop_def rq_run_job_def write_start_job_def rq_start_job_def rq_cancel_job_def rq_inv_def rq_good_def
       rq_on_done_def rq_complete_sel Let_def split: list.split rq_job.split uv_status.split)

lemma started_run:
  "rq_inv w \<Longrightarrow> rq_runnable write_step evs w \<Longrightarrow> (rq_completed (fst w) \<and> rq_status (fst w) = Uv_ok \<longrightarrow> rq_started (fst w)) \<Longrightarrow>
     rq_completed (fst (rq_run write_step evs w)) \<and> rq_status (fst (rq_run write_step evs w)) = Uv_ok \<longrightarrow>
     rq_started (fst (rq_run write_step evs w))"
proof (induction evs arbitrary: w)
  case (Cons ev evs)
  from Cons.prems have e: "rq_enabled ev w" "rq_runnable write_step evs (write_step ev w)" by simp_all
  from Cons.IH [OF writing.inv_step [OF Cons.prems(1) e(1), folded write_step_def] e(2) started_step [OF Cons.prems(1) e(1) Cons.prems(3)]]
  show ?case by simp
qed simp

text \<open>A write that returned a size had been handed to libuv and confirmed by it.\<close>

lemma stream_write_returned:
  assumes "rt_queue rt = []" and "stream_write stop_requested stop_possible stop_meanwhile data rt = (Suspended, w)"
    and "rq_runnable write_step evs w" and "rq_run write_step evs w = (x, rt')"
    and "rq_completed x" and "write_await_resume x = Inr n"
  shows "n = length data \<and> Rq_done Uv_ok \<in> set evs \<and> wr_handed x = Some (uv_buf_init data)"
proof -
  note s = stream_write_suspended [OF assms(1,2)]
  from writing.honest_run [of w "Rq_done Uv_ok \<in> set evs" evs] s(3) assms(4)
  have hon: "rq_completed x \<and> rq_status x = Uv_ok \<longrightarrow> Rq_done Uv_ok \<in> set evs" by (simp add: write_step_def)
  from started_run [OF s(1) assms(3)] s(3) assms(4) have st: "rq_completed x \<and> rq_status x = Uv_ok \<longrightarrow> rq_started x" by simp
  from handed_run [OF s(4), of evs] assms(4) have "handed_ok data x" by simp
  with st hon assms(5,6) show ?thesis
    using rq_await_resume_Inr [of "''uv_write''" x]
    by (auto simp: write_await_resume_def handed_ok_def split: sum.splits)
qed

text \<open>
  C14. \<open>stream_write\<close>: however stops, loop turns, failures to start and libuv's callback interleave, the
  coroutine is resumed at most once, and exactly once when nothing is left to happen; it reports the
  size of the data only when libuv was handed a buffer of it and confirmed the write; and as long as
  \<open>uv_cancel\<close> answers zero, \<open>UV_EBUSY\<close> or \<open>UV_ENOSYS\<close>, the state struct is kept alive for as long as
  libuv holds the request in it.
\<close>

theorem stream_write_once_honest_safe:
  assumes "rt_queue rt = []" and "stream_write stop_requested stop_possible stop_meanwhile data rt = (Suspended, w)"
    and "rq_runnable write_step evs w" and "rq_run write_step evs w = (x, rt')"
  shows "rq_resumed x \<le> 1 \<and> (rt_queue rt' = [] \<longrightarrow> \<not> rq_in_flight x \<longrightarrow> rq_resumed x = 1) \<and>
    (rq_completed x \<longrightarrow> write_await_resume x = Inr n \<longrightarrow>
       n = length data \<and> Rq_done Uv_ok \<in> set evs \<and> wr_handed x = Some (uv_buf_init data)) \<and>
    (list_all rq_calm evs \<longrightarrow> rq_in_flight x \<longrightarrow> rq_keep_alive x)"
proof -
  note s = stream_write_suspended [OF assms(1,2)]
  from writing.resumed_exactly_once [OF s(1) assms(3) [unfolded write_step_def]] assms(4)
  have once: "rq_resumed x \<le> 1" "rt_queue rt' = [] \<longrightarrow> \<not> rq_in_flight x \<longrightarrow> rq_resumed x = 1"
    by (simp_all add: write_step_def)
  from writing.safe_run [OF s(1,2) _ assms(3) [unfolded write_step_def]] assms(4)
  have safe: "list_all rq_calm evs \<longrightarrow> rq_in_flight x \<longrightarrow> rq_keep_alive x" by (simp add: write_step_def rq_safe_def)
  from stream_write_returned [OF assms] have "rq_completed x \<longrightarrow> write_await_resume x = Inr n \<longrightarrow>
       n = length data \<and> Rq_done Uv_ok \<in> set evs \<and> wr_handed x = Some (uv_buf_init data)" by blast
  with once safe show ?thesis by blast
qed


definition writing_scenario :: "write_event list" where
  "writing_scenario = [Rq_job Uv_ok Uv_ok, Rq_stop, Rq_job Uv_ok (Uv_err UV_EBUSY), Rq_done Uv_ok]"

theorem stream_write_once_honest_safe_witness:
  "rq_resumed (fst (rq_run write_step writing_scenario (snd (stream_write False True False ''abc'' new_runtime)))) = 1"
proof -
  let ?w = "snd (stream_write False True False ''abc'' new_runtime)"
  have s: "stream_write False True False ''abc'' new_runtime = (Suspended, ?w)"
    by (simp add: stream_write_def rq_await_suspend_def post_def async_send_def)
  have r: "rq_runnable write_step writing_scenario ?w" by code_simp
  have q: "rt_queue (snd (rq_run write_step writing_scenario ?w)) = [] \<and> \<not> rq_in_flight (fst (rq_run write_step writing_scenario ?w))"
    by code_simp
  from stream_write_once_honest_safe [OF _ s r surjective_pairing] q show ?thesis by simp
qed

text \<open>
  A defect: libuv cancels only file-system, resolver and work requests, and answers another error
  (\<open>UV_EINVAL\<close>) for a write. When a started write is stopped, the awaiter then completes at once and
  drops the state struct, which holds the \<open>uv_write_t\<close> and the data, while libuv still has both and
  will call back into them.
\<close>

theorem stream_write_cancel_dangles:
  assumes "cancel_rc \<notin> {Uv_ok, Uv_err UV_EBUSY, Uv_err UV_ENOSYS}" and "data \<noteq> []"
  shows "\<exists>w x rt. stream_write False True False data new_runtime = (Suspended, w) \<and>
    rq_run write_step [Rq_job Uv_ok Uv_ok, Rq_stop, Rq_job Uv_ok cancel_rc] w = (x, rt) \<and>
    rq_resumed x = 1 \<and> write_await_resume x = Inl Operation_cancelled \<and> rq_in_flight x \<and> \<not> rq_keep_alive x"
  using assms
  by (simp add: stream_write_def rq_await_suspend_def post_def async_send_def write_step_def rq_run_job_def Let_def
      write_start_job_def rq_start_job_def rq_stop_def rq_cancel_job_def rq_cancel_pending_def rq_complete_def
      new_write_request_def write_await_resume_def rq_await_resume_def)

theorem stream_write_cancel_dangles_witness:
  "\<exists>w x rt. stream_write False True False ''abc'' new_runtime = (Suspended, w) \<and>
    rq_run write_step [Rq_job Uv_ok Uv_ok, Rq_stop, Rq_job Uv_ok (Uv_err (UV_other 22))] w = (x, rt) \<and> rq_in_flight x \<and> \<not> rq_keep_alive x"
  using stream_write_cancel_dangles [of "Uv_err (UV_other 22)" "''abc''"] by auto

text \<open>
  C15. The length of a write is cut to 32 bits when it is handed to libuv, the reported size is not:
  whenever \<open>stream_write\<close> returns a size, it is the size of the data, and libuv was handed the first
  bytes of the data, as many as that size modulo 2 ^ 32. So all the data went out exactly when there
  were fewer than 2 ^ 32 bytes, and a longer write is reported as complete although it was not.
\<close>

theorem stream_write_truncation:
  assumes "rt_queue rt = []" and "stream_write stop_requested stop_possible stop_meanwhile data rt = (Suspended, w)"
    and "rq_runnable write_step evs w" and "rq_run write_step evs w = (x, rt')"
    and "rq_completed x" and "write_await_resume x = Inr n"
  shows "\<exists>handed. wr_handed x = Some handed \<and> n = length data \<and> handed = take (n mod 2 ^ 32) data \<and>
    length handed = n mod 2 ^ 32 \<and> (handed = data \<longleftrightarrow> n < 2 ^ 32) \<and> (2 ^ 32 \<le> n \<longrightarrow> length handed < n)"
proof -
  from stream_write_returned [OF assms] have n: "n = length data" and h: "wr_handed x = Some (uv_buf_init data)" by simp_all
  have t: "uv_buf_init data = take (n mod 2 ^ 32) data" unfolding uv_buf_init_def uv_buf_len_mod n ..
  have l: "length (take (n mod 2 ^ 32) data) = n mod 2 ^ 32" unfolding n length_take by (rule min_absorb2) simp
  have "n mod 2 ^ 32 < 2 ^ 32" by (rule mod_less_divisor) simp
  then have "2 ^ 32 \<le> n \<longrightarrow> n mod 2 ^ 32 < n" by linarith
  with l h n t uv_buf_init_exact [of data] show ?thesis by (intro exI [of _ "take (n mod 2 ^ 32) data"]) simp
qed

theorem stream_write_truncation_witness:
  "wr_handed (fst (rq_run write_step [Rq_job Uv_ok Uv_ok, Rq_done Uv_ok]
     (snd (stream_write False False False ''abc'' new_runtime)))) = Some ''abc''"
proof -
  let ?w = "snd (stream_write False False False ''abc'' new_runtime)" and ?evs = "[Rq_job Uv_ok Uv_ok, Rq_done Uv_ok]"
  have s: "stream_write False False False ''abc'' new_runtime = (Suspended, ?w)"
    by (simp add: stream_write_def rq_await_suspend_def post_def async_send_def)
  have r: "rq_runnable write_step ?evs ?w" by code_simp
  have d: "rq_completed (fst (rq_run write_step ?evs ?w))" "write_await_resume (fst (rq_run write_step ?evs ?w)) = Inr 3"
    by code_simp+
  from stream_write_truncation [OF _ s r surjective_pairing d] show ?thesis by auto
qed

end
