(* ===== verification/Io_Properties.thy ===== *)
theory Io_Properties
  imports Io_Transfer Stream_Write
begin

text \<open>
  The interfaces of \<open>Byte_Source\<close> and \<open>Io_Transfer\<close> on the library's own streams, and the properties
  of buffered reading, writing and copying over them.
\<close>

section \<open>Streams without errors\<close>

definition script_calm :: "(uv_errno + nat) list \<Rightarrow> bool" where
  "script_calm script \<longleftrightarrow> list_all (case_sum (\<lambda>e. False) (\<lambda>k. True)) script"

definition socket_calm :: "socket \<Rightarrow> bool" where
  "socket_calm c \<longleftrightarrow> socket_ok c \<and> script_calm (snd c)"

lemma script_calm_Nil [simp]: "script_calm []"
  by (simp add: script_calm_def)

lemma script_calm_tl: "script_calm script \<Longrightarrow> script_calm (tl script)"
  by (cases script) (auto simp: script_calm_def)

lemma script_calm_eof: "script_calm script \<Longrightarrow> Inl e \<notin> set script"
  by (auto simp: script_calm_def list_all_iff)

lemma socket_calm_new: "script_calm script \<Longrightarrow> socket_calm (new_socket bytes script)"
  using socket_ok_new script_calm_eof [of script UV_EOF] by (simp add: socket_calm_def new_socket_def)

lemma socket_script: "socket_ok c \<Longrightarrow> snd (snd (socket_read_some n c)) = (if n = 0 then snd c else tl (snd c))"
  by (simp add: socket_read_some_def Let_def)

lemma socket_answers:
  assumes "socket_calm c" and "n < 2 ^ 32"
  shows "\<exists>bs. fst (socket_read_some n c) = Inr bs"
proof (cases "n = 0")
  case True
  then show ?thesis by (simp add: socket_read_some_def)
next
  case False
  then have n: "0 < n" "n mod 2 ^ 32 = n" using assms(2) by simp_all
  from assms(1) have ok: "socket_ok c" by (simp add: socket_calm_def)
  have a: "uv_answer (n mod 2 ^ 32) (socket_rest c) (snd c) = Inl UV_EOF \<or> (\<exists>k. uv_answer (n mod 2 ^ 32) (socket_rest c) (snd c) = Inr k)"
    using assms(1) n unfolding n(2)
    by (auto simp: uv_answer_def socket_calm_def script_calm_def split: list.split sum.splits)
  show ?thesis
    using a reading_world_sel [OF ok n(1)] socket_read_some_unfold [OF ok n(1)]
      uv_answer_bounds [of "n mod 2 ^ 32" "socket_rest c" "snd c"]
    by (auto simp: read_cb_def stream_read_some_result_def read_await_resume_def rd_complete_def reading_op_def new_read_op_def)
qed

interpretation calm_socket: byte_source socket_read_some socket_calm socket_rest
proof
  show "socket_calm (snd (socket_read_some n s))" if "socket_calm s" for n s
    using that socket.ok_read [of s n] script_calm_tl by (auto simp: socket_calm_def socket_script)
qed (use socket.read_bytes socket.read_fail in \<open>blast intro: socket_calm_def [THEN iffD1, THEN conjunct1]\<close>)+

lemma calm_socket_never_fails: "n < 2 ^ 32 \<Longrightarrow> \<not> source_fails socket_read_some socket_calm n"
proof
  assume "n < 2 ^ 32" and "source_fails socket_read_some socket_calm n"
  then obtain s m e where "socket_calm s" "m < 2 ^ 32" "fst (socket_read_some m s) = Inl e"
    unfolding source_fails_def by (meson le_less_trans)
  with socket_answers show False by fastforce
qed

section \<open>Writing to completion\<close>

text \<open>
  The bytes libuv was handed, and the script of its answers: what \<open>uv_write\<close> returns and what the
  callback reports.
\<close>

type_synonym outlet = "string \<times> (uv_status \<times> uv_status) list"

definition socket_write :: "string \<Rightarrow> outlet \<Rightarrow> nat result \<times> outlet" where
  "socket_write data t =
     (case stream_write False False False data new_runtime of
        (Continues r, _) \<Rightarrow> (r, t)
      | (Suspended, w) \<Rightarrow>
          (let answers = (case snd t of [] \<Rightarrow> (Uv_ok, Uv_ok) | a # _ \<Rightarrow> a);
               w = write_step (Rq_job (fst answers) Uv_ok) w
           in if rq_in_flight (fst w)
              then (write_await_resume (fst (write_step (Rq_done (snd answers)) w)), fst t @ the (wr_handed (fst w)), tl (snd t))
              else (write_await_resume (fst w), fst t, tl (snd t))))"

lemma socket_write_eq:
  "socket_write data t =
     (if data = [] then (Inr 0, t)
      else case snd t of
        [] \<Rightarrow> (Inr (length data), fst t @ uv_buf_init data, [])
      | (Uv_ok, Uv_ok) # as \<Rightarrow> (Inr (length data), fst t @ uv_buf_init data, as)
      | (Uv_ok, Uv_err e) # as \<Rightarrow> (if e = UV_ECANCELED then Inl Operation_cancelled else Inl (Uv_error e ''uv_write''), fst t @ uv_buf_init data, as)
      | (Uv_err e, _) # as \<Rightarrow> (if e = UV_ECANCELED then Inl Operation_cancelled else Inl (Uv_error e ''uv_write''), fst t, as))"
  by (simp add: socket_write_def stream_write_def rq_await_suspend_def post_def async_send_def write_step_def rq_run_job_def
      Let_def new_write_request_def write_start_job_def rq_start_job_def rq_on_done_def rq_complete_def write_await_resume_def
      rq_await_resume_def split: list.split uv_status.split)

definition outlet_calm :: "outlet \<Rightarrow> bool" where
  "outlet_calm t \<longleftrightarrow> snd t = []"

lemma socket_write_laws:
  assumes "length d < 2 ^ 32"
  shows "fst (socket_write d t) = Inr k \<Longrightarrow> k \<le> length d \<and> fst (snd (socket_write d t)) = fst t @ take k d"
    and "fst (socket_write d t) = Inl e \<Longrightarrow> \<exists>k. fst (snd (socket_write d t)) = fst t @ take k d"
proof -
  have full: "uv_buf_init d = d" using assms uv_buf_init_exact by simp
  then have part: "\<exists>k. d = take k d" "\<exists>k. [] = take k d" using take_all [of d "length d"] by (auto intro: exI [of _ 0] exI [of _ "length d"])
  show "k \<le> length d \<and> fst (snd (socket_write d t)) = fst t @ take k d" if "fst (socket_write d t) = Inr k"
    using that full by (auto simp: socket_write_eq split: list.splits uv_status.splits if_splits)
  show "\<exists>k. fst (snd (socket_write d t)) = fst t @ take k d" if "fst (socket_write d t) = Inl e"
    using that full part by (auto simp: socket_write_eq split: list.splits uv_status.splits if_splits)
qed

interpretation outlet: byte_sink socket_write "\<lambda>t. True" fst "2 ^ 32"
  by unfold_locales (simp_all add: socket_write_laws)

interpretation calm_outlet: byte_sink socket_write outlet_calm fst "2 ^ 32"
proof
  show "outlet_calm (snd (socket_write d t))" if "outlet_calm t" for t d
    using that by (simp add: outlet_calm_def socket_write_eq)
qed (use socket_write_laws in blast)+

lemma calm_outlet_never_fails: "\<not> sink_fails socket_write outlet_calm n"
  by (auto simp: sink_fails_def outlet_calm_def socket_write_eq)

interpretation transfer: byte_pipe socket_read_some socket_ok socket_rest socket_write "\<lambda>t. True" fst "2 ^ 32"
  by unfold_locales

interpretation calm_transfer: byte_pipe socket_read_some socket_calm socket_rest socket_write outlet_calm fst "2 ^ 32"
  by unfold_locales

section \<open>Properties\<close>

text \<open>
  C17. Reading up to a delimiter from a libuv stream through a \<open>stream_buffer\<close> returns, whatever pieces
  the bytes arrive in, and gives exactly what the specification takes from the front of the buffered
  and coming bytes: up to and with the first occurrence of the delimiter, or everything. Nothing is
  lost: also when it throws, every byte is still to be read. Without errors and stops it does not
  throw.
\<close>

theorem buffered_read_until_equiv:
  assumes "socket_ok (sb_stream b)" and "0 < n" and "d \<noteq> []"
  shows "\<exists>r b'. sb_read_until socket_read_some stop d n b = Some (r, b') \<and>
    (case r of
       Inr out \<Rightarrow> out = until_spec d (sb_content socket_rest b) \<and> out @ sb_content socket_rest b' = sb_content socket_rest b
     | Inl e \<Rightarrow> sb_content socket_rest b' = sb_content socket_rest b) \<and>
    (script_calm (snd (sb_stream b)) \<and> n < 2 ^ 32 \<and> (\<forall>c. \<not> stop c) \<longrightarrow> (\<exists>out. r = Inr out))"
proof -
  from socket.read_until_loop [OF assms(1,2), of stop d] assms(3) obtain r b' where
    run: "sb_read_until socket_read_some stop d n b = Some (r, b')"
    and res: "case r of
       Inr out \<Rightarrow> out @ sb_content socket_rest b' = sb_content socket_rest b \<and> out = until_spec d (sb_content socket_rest b)
     | Inl e \<Rightarrow> sb_content socket_rest b' = sb_content socket_rest b \<and> ((\<exists>s. stop s) \<or> source_fails socket_read_some socket_ok n)"
    by (auto simp: sb_read_until_def)
  have "\<exists>out. r = Inr out" if calm: "script_calm (snd (sb_stream b))" "n < 2 ^ 32" "\<forall>c. \<not> stop c"
    using calm_socket.read_until_loop [of b n stop d] assms run calm calm_socket_never_fails
    by (auto simp: sb_read_until_def socket_calm_def split: sum.splits)
  with run res show ?thesis by (auto split: sum.splits)
qed

theorem buffered_read_until_equiv_witness:
  "\<exists>r b'. sb_read_until socket_read_some (\<lambda>_. False) ''cd'' 3 (make_stream_buffer (new_socket ''abcde'' [Inr 1, Inr 2])) = Some (r, b') \<and>
    r = Inr ''abcd'' \<and> sb_content socket_rest b' = ''e''"
proof -
  let ?b = "make_stream_buffer (new_socket ''abcde'' [Inr 1, Inr 2])"
  have "socket_ok (sb_stream ?b)" by (simp add: make_stream_buffer_def socket_ok_new)
  moreover have "script_calm (snd (sb_stream ?b))" by (simp add: make_stream_buffer_def new_socket_def script_calm_def)
  moreover have c: "sb_content socket_rest ?b = ''abcde''" by (simp add: make_stream_buffer_def)
  moreover have "until_spec ''cd'' ''abcde'' = ''abcd''" by (simp add: until_spec_def)
  ultimately show ?thesis using buffered_read_until_equiv [of ?b 3 "''cd''" "\<lambda>_. False"] by fastforce
qed

text \<open>
  Reading up to any of several delimiters does depend on the pieces: \<open>find_any_delimiter\<close> prefers the
  longest delimiter at the earliest place, but only among the bytes that have arrived. With the line
  ends CR LF and CR, a line that arrives whole ends in CR LF; when the piece ends after CR the line
  ends there and the next one begins with a stray LF.
\<close>

definition any_line_end :: "(uv_errno + nat) list \<Rightarrow> string result" where
  "any_line_end script =
     fst (the (sb_read_until_any socket_read_some (\<lambda>_. False) [[CHR 0x0D, CHR 0x0A], [CHR 0x0D]] 8
       (make_stream_buffer (new_socket [CHR ''x'', CHR 0x0D, CHR 0x0A, CHR ''y''] script))))"

lemma read_until_any_depends_on_pieces:
  "any_line_end [Inr 4] = Inr [CHR ''x'', CHR 0x0D, CHR 0x0A]" "any_line_end [Inr 2] = Inr [CHR ''x'', CHR 0x0D]"
  by code_simp+

text \<open>
  \<open>read_exact\<close> keeps what it has read in a local string: when the token is stopped between two reads,
  those bytes are neither returned nor still to be read.
\<close>

lemma read_exact_loses_bytes:
  "sb_read_exact socket_read_some (\<lambda>c. length (snd c) < 2) 3 (make_stream_buffer (new_socket ''abcd'' [Inr 2, Inr 1])) =
     (Inl Operation_cancelled, b) \<Longrightarrow> sb_content socket_rest b = ''cd''"
proof -
  have "sb_content socket_rest (snd (sb_read_exact socket_read_some (\<lambda>c. length (snd c) < 2) 3
      (make_stream_buffer (new_socket ''abcd'' [Inr 2, Inr 1])))) = ''cd''" by code_simp
  then show "sb_read_exact socket_read_some (\<lambda>c. length (snd c) < 2) 3 (make_stream_buffer (new_socket ''abcd'' [Inr 2, Inr 1])) =
     (Inl Operation_cancelled, b) \<Longrightarrow> sb_content socket_rest b = ''cd''" by simp
qed

text \<open>
  C18. What \<open>write_all\<close> sends through libuv is what \<open>read_exactly\<close> receives: for every data of fewer
  than 2 ^ 32 bytes, when libuv reports no error on either side, writing it all returns its size,
  and a buffered reader on the other side gets it back unchanged whatever pieces it arrives in;
  asking for more than that many bytes is an error.
\<close>

theorem write_read_roundtrip:
  assumes "length data < 2 ^ 32" and "script_calm script"
  shows "\<exists>t b. write_all socket_write (\<lambda>_. False) data ([], []) = (Inr (length data), t) \<and>
    sb_read_exactly socket_read_some (\<lambda>_. False) (length data) (make_stream_buffer (new_socket (fst t) script)) = (Inr data, b)"
proof -
  obtain r t where w: "write_all_loop socket_write (\<lambda>_. False) data 0 ([], []) = (r, t)" by (metis surj_pair)
  have t: "r = Inr (length data)" "fst t = data"
    using calm_outlet.write_all_loop [OF _ assms(1) _ w] calm_outlet_never_fails by (auto simp: outlet_calm_def split: sum.splits)
  let ?b = "make_stream_buffer (new_socket data script)"
  obtain r' b' where e: "sb_read_exact_loop socket_read_some (\<lambda>_. False) (length data) [] ?b = (r', b')" by fastforce
  have "socket_calm (sb_stream ?b)" "sb_content socket_rest ?b = data"
    using assms(2) by (simp_all add: make_stream_buffer_def socket_calm_new)
  with calm_socket.read_exact_loop [OF _ _ e] calm_socket_never_fails [OF assms(1)]
  have "r' = Inr data" by (auto split: sum.splits)
  with w t e show ?thesis by (auto simp: write_all_def sb_read_exactly_def sb_read_exact_def)
qed

theorem write_read_roundtrip_witness:
  "\<exists>t b. write_all socket_write (\<lambda>_. False) ''hello'' ([], []) = (Inr 5, t) \<and>
    sb_read_exactly socket_read_some (\<lambda>_. False) 5 (make_stream_buffer (new_socket (fst t) [Inr 2, Inr 1])) = (Inr ''hello'', b)"
proof -
  have l: "length ''hello'' = 5" by simp
  have a: "length ''hello'' < 2 ^ 32" unfolding l by simp
  have b: "script_calm [Inr 2, Inr 1]" by (simp add: script_calm_def)
  from write_read_roundtrip [OF a b] show ?thesis unfolding l .
qed

text \<open>
  C19. \<open>copy\<close> from one libuv stream to another returns: with the number of bytes of the source when
  the source has ended and all its bytes were sent, in order, or with an exception when a first part
  of them was sent. Without errors it is the former, for every buffer of fewer than 2 ^ 32 bytes.
\<close>

theorem copy_terminates_complete:
  assumes "socket_ok s" and "0 < n" and "n < 2 ^ 32"
  shows "\<exists>r s' t'. io_copy socket_read_some socket_write n s t = Some (r, s', t') \<and>
    (case r of
       Inr k \<Rightarrow> socket_rest s' = [] \<and> fst t' = fst t @ socket_rest s \<and> k = length (socket_rest s)
     | Inl e \<Rightarrow> \<exists>k. fst t' = fst t @ take k (socket_rest s)) \<and>
    (script_calm (snd s) \<and> snd t = [] \<longrightarrow> (\<exists>k. r = Inr k))"
proof -
  from transfer.copy_loop [OF assms(1) _ assms(2,3), where t = t and m = 0] assms(2) obtain r s' t' where
    run: "io_copy socket_read_some socket_write n s t = Some (r, s', t')"
    and res: "case r of
       Inr k \<Rightarrow> socket_rest s' = [] \<and> fst t' = fst t @ socket_rest s \<and> k = 0 + length (socket_rest s)
     | Inl e \<Rightarrow> (\<exists>k. fst t' = fst t @ take k (socket_rest s)) \<and>
         (source_fails socket_read_some socket_ok n \<or> sink_fails socket_write (\<lambda>t. True) (2 ^ 32))"
    by (auto simp: io_copy_def)
  have "\<exists>k. r = Inr k" if "script_calm (snd s)" "snd t = []"
    using calm_transfer.copy_loop [where s = s and t = t and n = n and m = 0] assms run that calm_socket_never_fails [OF assms(3)] calm_outlet_never_fails
    by (cases r) (auto simp: io_copy_def socket_calm_def outlet_calm_def)
  with run res show ?thesis by (auto split: sum.splits)
qed

theorem copy_terminates_complete_witness:
  "\<exists>s' t'. io_copy socket_read_some socket_write 2 (new_socket ''abcde'' [Inr 1]) ([], []) = Some (Inr 5, s', t') \<and> fst t' = ''abcde''"
proof -
  have "script_calm (snd (new_socket ''abcde'' [Inr 1]))" by (simp add: new_socket_def script_calm_def)
  moreover have "socket_ok (new_socket ''abcde'' [Inr 1])" by (simp add: socket_ok_new)
  ultimately show ?thesis using copy_terminates_complete [of "new_socket ''abcde'' [Inr 1]" 2 "([], [])"] by fastforce
qed

end
