(* ===== verification/Tcp_Client.thy ===== *)
theory Tcp_Client
  imports Io_Properties
begin

text \<open>
  \<open>tcp_client\<close> of \<open>src/tcp.cpp\<close>: who owns the libuv handle through construction, moves, assignment,
  \<open>close\<close> and destruction, connecting as a one-shot request, and the guards of the operations that
  delegate to \<open>src/stream_ops.hpp\<close>. libuv's address functions are parameters.
\<close>

section \<open>Addresses\<close>

record ip_endpoint =
  ep_address :: string
  ep_port :: int
  ep_ipv6 :: bool

text \<open>A socket address as libuv fills it in: its family decides what is read from it.\<close>

datatype 'a sockaddr = Af_inet 'a nat | Af_inet6 'a nat | Af_other

definition parse_ip_endpoint :: "(string \<Rightarrow> int \<Rightarrow> uv_errno + 'a sockaddr) \<Rightarrow> (string \<Rightarrow> int \<Rightarrow> uv_errno + 'a sockaddr)
    \<Rightarrow> ip_endpoint \<Rightarrow> uv_errno + 'a sockaddr" where
  "parse_ip_endpoint uv_ip4_addr uv_ip6_addr endpoint =
     (case uv_ip4_addr (ep_address endpoint) (ep_port endpoint) of
        Inr addr4 \<Rightarrow> Inr addr4
      | Inl _ \<Rightarrow>
          (case uv_ip6_addr (ep_address endpoint) (ep_port endpoint) of
             Inr addr6 \<Rightarrow> Inr addr6
           | Inl rc \<Rightarrow> Inl rc))"

text \<open>\<open>ip_endpoint{buffer, port}\<close> leaves the third member at its default.\<close>

fun sockaddr_to_endpoint :: "('a \<Rightarrow> uv_errno + string) \<Rightarrow> ('a \<Rightarrow> uv_errno + string) \<Rightarrow> 'a sockaddr \<Rightarrow> ip_endpoint result" where
  "sockaddr_to_endpoint uv_ip4_name uv_ip6_name (Af_inet a port) =
     (case uv_ip4_name a of
        Inl rc \<Rightarrow> throw_uv_error rc ''uv_ip4_name''
      | Inr buffer \<Rightarrow> Inr \<lparr>ep_address = buffer, ep_port = int port, ep_ipv6 = False\<rparr>)"
| "sockaddr_to_endpoint uv_ip4_name uv_ip6_name (Af_inet6 a port) =
     (case uv_ip6_name a of
        Inl rc \<Rightarrow> throw_uv_error rc ''uv_ip6_name''
      | Inr buffer \<Rightarrow> Inr \<lparr>ep_address = buffer, ep_port = int port, ep_ipv6 = False\<rparr>)"
| "sockaddr_to_endpoint uv_ip4_name uv_ip6_name Af_other = Inl (Runtime_error ''unsupported socket address family'')"

lemma tcp_endpoint_never_ipv6:
  "sockaddr_to_endpoint n4 n6 a = Inr e \<Longrightarrow> \<not> ep_ipv6 e"
  by (cases a) (auto split: sum.splits)

section \<open>The client object\<close>

text \<open>
  \<open>tc_runtime\<close> says that the runtime pointer is set. Handles are numbered; the loop counts how often
  \<open>uv_close\<close> was called on each (a handle is closing from the first call on), and the only jobs of
  concern here are those that \<open>close\<close> posts.
\<close>

record tcp_client =
  tc_runtime :: bool
  tc_handle :: "nat option"
  tc_connected :: bool

record handle_loop =
  hl_runtime :: "nat uv_runtime"
  hl_next :: nat
  hl_closes :: "nat \<Rightarrow> nat"

text \<open>The constructor; \<open>init_rc\<close> is what \<open>uv_tcp_init\<close> answers.\<close>

definition tcp_client_new :: "uv_status \<Rightarrow> handle_loop \<Rightarrow> tcp_client result \<times> handle_loop" where
  "tcp_client_new init_rc l =
     (case init_rc of
        Uv_err e \<Rightarrow> (throw_uv_error e ''uv_tcp_init'', l)
      | Uv_ok \<Rightarrow> (Inr \<lparr>tc_runtime = True, tc_handle = Some (hl_next l), tc_connected = False\<rparr>, l\<lparr>hl_next := Suc (hl_next l)\<rparr>))"

text \<open>The constructor for a handle that \<open>tcp_server::accept\<close> hands over.\<close>

definition tcp_client_of_handle :: "nat \<Rightarrow> bool \<Rightarrow> tcp_client" where
  "tcp_client_of_handle handle connected = \<lparr>tc_runtime = True, tc_handle = Some handle, tc_connected = connected\<rparr>"

definition tcp_client_close :: "tcp_client \<Rightarrow> handle_loop \<Rightarrow> tcp_client \<times> handle_loop" where
  "tcp_client_close c l =
     (if \<not> tc_runtime c \<or> tc_handle c = None then (c, l)
      else (c\<lparr>tc_handle := None, tc_connected := False\<rparr>,
            l\<lparr>hl_runtime := snd (post (the (tc_handle c)) (hl_runtime l))\<rparr>))"

definition close_handle_job :: "nat \<Rightarrow> handle_loop \<Rightarrow> handle_loop" where
  "close_handle_job handle l =
     (if 0 < hl_closes l handle then l else l\<lparr>hl_closes := (hl_closes l)(handle := Suc (hl_closes l handle))\<rparr>)"

definition tcp_client_moved_from :: "tcp_client \<Rightarrow> tcp_client" where
  "tcp_client_moved_from other = other\<lparr>tc_runtime := False, tc_handle := None, tc_connected := False\<rparr>"

text \<open>
  Move construction and move assignment give the target and what is left of the source;
  \<open>same_object\<close> is \<open>this == &other\<close>.
\<close>

definition tcp_client_move :: "tcp_client \<Rightarrow> tcp_client \<times> tcp_client" where
  "tcp_client_move other =
     (\<lparr>tc_runtime = tc_runtime other, tc_handle = tc_handle other, tc_connected = tc_connected other\<rparr>, tcp_client_moved_from other)"

definition tcp_client_assign :: "bool \<Rightarrow> tcp_client \<Rightarrow> tcp_client \<Rightarrow> handle_loop \<Rightarrow> tcp_client \<times> tcp_client \<times> handle_loop" where
  "tcp_client_assign same_object this other l =
     (if same_object then (this, other, l)
      else let (this, l) = tcp_client_close this l
      in (this\<lparr>tc_runtime := tc_runtime other, tc_handle := tc_handle other, tc_connected := tc_connected other\<rparr>,
          tcp_client_moved_from other, l))"

section \<open>Connecting\<close>

record 'a connect_request = uv_request +
  cn_addr :: "'a sockaddr option"

definition new_connect_request :: "'a connect_request" where
  "new_connect_request = \<lparr>rq_continuation = False, rq_keep_alive = False, rq_stop_callback = False, rq_completed = False,
     rq_status = Uv_ok, rq_cancel_requested = False, rq_started = False, rq_in_flight = False, rq_resumed = 0, cn_addr = None\<rparr>"

text \<open>
  The start job: the address is parsed first (\<open>parsed\<close>), and only then is the request started;
  \<open>connect_rc\<close> is what \<open>uv_tcp_connect\<close> answers.
\<close>

definition connect_start_job :: "(uv_errno + 'a sockaddr) \<times> uv_status \<Rightarrow> 'a connect_request \<Rightarrow> 'a connect_request" where
  "connect_start_job found x =
     (if rq_completed x then x
      else (case fst found of
              Inl rc \<Rightarrow> rq_complete (x\<lparr>rq_status := Uv_err rc\<rparr>)
            | Inr addr \<Rightarrow>
                (let x = x\<lparr>cn_addr := Some addr, rq_started := True\<rparr>
                 in (case snd found of
                       Uv_ok \<Rightarrow> x\<lparr>rq_in_flight := True\<rparr>
                     | Uv_err e \<Rightarrow> rq_complete (x\<lparr>rq_status := Uv_err e\<rparr>)))))"

definition tcp_connect :: "bool \<Rightarrow> bool \<Rightarrow> bool \<Rightarrow> tcp_client \<Rightarrow> rq_job uv_runtime
    \<Rightarrow> unit awaited \<times> 'a connect_request \<times> rq_job uv_runtime" where
  "tcp_connect stop_requested stop_possible stop_meanwhile c rt =
     (if tc_handle c = None then (Continues (Inl (Runtime_error ''tcp handle is null'')), new_connect_request, rt)
      else if tc_connected c then (Continues (Inl (Runtime_error ''tcp client is already connected'')), new_connect_request, rt)
      else (case rq_await_suspend stop_requested stop_possible stop_meanwhile (new_connect_request, rt) of
              (Inl e, w) \<Rightarrow> (Continues (Inl e), w)
            | (Inr False, w) \<Rightarrow> (Continues (rq_await_resume ''uv_tcp_connect'' (fst w)), w)
            | (Inr True, w) \<Rightarrow> (Suspended, w)))"

text \<open>When the request has ended the coroutine goes on: the result, and the client it leaves.\<close>

definition tcp_connect_end :: "'a connect_request \<Rightarrow> tcp_client \<Rightarrow> unit result \<times> tcp_client" where
  "tcp_connect_end x c =
     (case rq_await_resume ''uv_tcp_connect'' x of
        Inl e \<Rightarrow> (Inl e, c)
      | Inr _ \<Rightarrow> (Inr (), c\<lparr>tc_connected := True\<rparr>))"

definition connect_step :: "((uv_errno + 'a sockaddr) \<times> uv_status, uv_status) rq_event
    \<Rightarrow> 'a connect_request \<times> rq_job uv_runtime \<Rightarrow> 'a connect_request \<times> rq_job uv_runtime" where
  "connect_step = rq_step rq_complete connect_start_job rq_on_done"

section \<open>Operations of a connected client\<close>

definition not_connected :: "tcp_client \<Rightarrow> bool" where
  "not_connected c \<longleftrightarrow> \<not> tc_connected c \<or> tc_handle c = None"

definition tcp_write :: "bool \<Rightarrow> bool \<Rightarrow> bool \<Rightarrow> string \<Rightarrow> tcp_client \<Rightarrow> rq_job uv_runtime \<Rightarrow> nat awaited \<times> write_world" where
  "tcp_write stop_requested stop_possible stop_meanwhile data c rt =
     (if not_connected c then (Continues (Inl (Runtime_error ''tcp client is not connected'')), new_write_request data, rt)
      else stream_write stop_requested stop_possible stop_meanwhile data rt)"

definition tcp_write_some :: "bool \<Rightarrow> bool \<Rightarrow> bool \<Rightarrow> string \<Rightarrow> tcp_client \<Rightarrow> rq_job uv_runtime \<Rightarrow> nat awaited \<times> write_world" where
  "tcp_write_some stop_requested stop_possible stop_meanwhile data c rt =
     (if not_connected c then (Continues (Inl (Runtime_error ''tcp client is not connected'')), new_write_request data, rt)
      else stream_write_some stop_requested stop_possible stop_meanwhile data rt)"

definition tcp_shutdown :: "bool \<Rightarrow> bool \<Rightarrow> bool \<Rightarrow> tcp_client \<Rightarrow> rq_job uv_runtime \<Rightarrow> unit awaited \<times> uv_request \<times> rq_job uv_runtime" where
  "tcp_shutdown stop_requested stop_possible stop_meanwhile c rt =
     (if not_connected c then (Continues (Inl (Runtime_error ''tcp client is not connected'')), new_shutdown_request, rt)
      else stream_shutdown stop_requested stop_possible stop_meanwhile rt)"

definition tcp_read_some_into :: "bool \<Rightarrow> bool \<Rightarrow> bool \<Rightarrow> nat \<Rightarrow> tcp_client \<Rightarrow> read_world \<Rightarrow> nat awaited \<times> read_world" where
  "tcp_read_some_into stop_requested stop_possible stop_meanwhile n c w =
     (if not_connected c then (Continues (Inl (Runtime_error ''tcp client is not connected'')), w)
      else stream_read_some_into stop_requested stop_possible stop_meanwhile n w)"

text \<open>\<open>read_some\<close> of a client, run to completion over a stream's \<open>read_some\<close>.\<close>

definition tcp_read_some :: "'s read_fun \<Rightarrow> tcp_client \<Rightarrow> 's read_fun" where
  "tcp_read_some stream_read_some c n s =
     (if not_connected c then (Inl (Runtime_error ''tcp client is not connected''), s) else stream_read_some n s)"

function tcp_read_exact_loop :: "'s read_fun \<Rightarrow> ('s \<Rightarrow> bool) \<Rightarrow> nat \<Rightarrow> string \<Rightarrow> 's \<Rightarrow> string result \<times> 's" where
  "tcp_read_exact_loop read_some stop total_bytes out s =
     (if length out < total_bytes then
        if stop s then (Inl Operation_cancelled, s)
        else (case read_some (total_bytes - length out) s of
                (Inl e, s) \<Rightarrow> (Inl e, s)
              | (Inr chunk, s) \<Rightarrow>
                  if chunk = [] then (Inr out, s)
                  else tcp_read_exact_loop read_some stop total_bytes (out @ chunk) s)
      else (Inr out, s))"
  by pat_completeness auto
termination
  by (relation "measure (\<lambda>(read_some, stop, total_bytes, out, s). total_bytes - length out)")
     (auto simp: length_greater_0_conv [symmetric] simp del: length_greater_0_conv)

declare tcp_read_exact_loop.simps [simp del]

definition tcp_read_exact :: "'s read_fun \<Rightarrow> ('s \<Rightarrow> bool) \<Rightarrow> tcp_client \<Rightarrow> nat \<Rightarrow> 's \<Rightarrow> string result \<times> 's" where
  "tcp_read_exact stream_read_some stop c total_bytes s =
     tcp_read_exact_loop (tcp_read_some stream_read_some c) stop total_bytes [] s"

text \<open>
  \<open>read_exact_into\<close>: each read puts its bytes after those of the reads before it; \<open>got\<close> is the part of
  the caller's buffer that has been filled. The result is its length.
\<close>

function tcp_read_exact_into_loop :: "'s read_fun \<Rightarrow> ('s \<Rightarrow> bool) \<Rightarrow> nat \<Rightarrow> string \<Rightarrow> 's \<Rightarrow> (nat \<times> string) result \<times> 's" where
  "tcp_read_exact_into_loop read_some_into stop buffer_size got s =
     (if length got < buffer_size then
        if stop s then (Inl Operation_cancelled, s)
        else (case read_some_into (buffer_size - length got) s of
                (Inl e, s) \<Rightarrow> (Inl e, s)
              | (Inr chunk, s) \<Rightarrow>
                  if length chunk = 0 then (Inr (length got, got), s)
                  else tcp_read_exact_into_loop read_some_into stop buffer_size (got @ chunk) s)
      else (Inr (length got, got), s))"
  by pat_completeness auto
termination
  by (relation "measure (\<lambda>(read_some_into, stop, buffer_size, got, s). buffer_size - length got)")
     (auto simp: length_greater_0_conv [symmetric] simp del: length_greater_0_conv)

declare tcp_read_exact_into_loop.simps [simp del]

section \<open>Options and endpoints\<close>

text \<open>
  The setters check the handle and the token and then ask libuv on the loop; \<open>rc\<close> is libuv's answer
  and \<open>op_name\<close> is the call.
\<close>

definition tcp_set_nodelay :: "bool \<Rightarrow> uv_status \<Rightarrow> tcp_client \<Rightarrow> unit result" where
  "tcp_set_nodelay stop_requested rc c =
     (if tc_handle c = None then Inl (Runtime_error ''tcp client handle is null'')
      else if stop_requested then Inl Operation_cancelled
      else (case rc of Uv_err e \<Rightarrow> throw_uv_error e ''uv_tcp_nodelay'' | Uv_ok \<Rightarrow> Inr ()))"

definition tcp_set_keepalive :: "bool \<Rightarrow> uv_status \<Rightarrow> tcp_client \<Rightarrow> unit result" where
  "tcp_set_keepalive stop_requested rc c =
     (if tc_handle c = None then Inl (Runtime_error ''tcp client handle is null'')
      else if stop_requested then Inl Operation_cancelled
      else (case rc of Uv_err e \<Rightarrow> throw_uv_error e ''uv_tcp_keepalive'' | Uv_ok \<Rightarrow> Inr ()))"

definition tcp_local_endpoint :: "('a \<Rightarrow> uv_errno + string) \<Rightarrow> ('a \<Rightarrow> uv_errno + string) \<Rightarrow> uv_errno + 'a sockaddr
    \<Rightarrow> tcp_client \<Rightarrow> ip_endpoint result" where
  "tcp_local_endpoint name4 name6 getsockname c =
     (if \<not> tc_runtime c \<or> tc_handle c = None then Inl (Runtime_error ''tcp client handle is null'')
      else (case getsockname of
              Inl rc \<Rightarrow> throw_uv_error rc ''uv_tcp_getsockname''
            | Inr addr \<Rightarrow> sockaddr_to_endpoint name4 name6 addr))"

definition tcp_remote_endpoint :: "('a \<Rightarrow> uv_errno + string) \<Rightarrow> ('a \<Rightarrow> uv_errno + string) \<Rightarrow> uv_errno + 'a sockaddr
    \<Rightarrow> tcp_client \<Rightarrow> ip_endpoint result" where
  "tcp_remote_endpoint name4 name6 getpeername c =
     (if not_connected c \<or> \<not> tc_runtime c then Inl (Runtime_error ''tcp client is not connected'')
      else (case getpeername of
              Inl rc \<Rightarrow> throw_uv_error rc ''uv_tcp_getpeername''
            | Inr addr \<Rightarrow> sockaddr_to_endpoint name4 name6 addr))"

section \<open>Lemmas\<close>

text \<open>Connecting is a one-shot request.\<close>

lemma rq_core_addr [simp]: "rq_core (x\<lparr>cn_addr := a\<rparr>) = rq_core x"
  by (simp add: rq_core_def uv_request.truncate_def)

interpretation connecting: one_shot rq_complete connect_start_job rq_on_done "\<lambda>s. s"
proof
  fix a :: "(uv_errno + 'a sockaddr) \<times> uv_status" and x :: "'a connect_request"
  assume n: "\<not> rq_completed x"
  show "rq_core (connect_start_job a x) = (rq_core x)\<lparr>rq_started := True, rq_in_flight := True\<rparr> \<or>
      (\<exists>b e. rq_core (connect_start_job a x) = rq_complete ((rq_core x)\<lparr>rq_started := b, rq_status := Uv_err e\<rparr>))"
  proof (cases "fst a")
    case (Inl rc)
    have "rq_core (connect_start_job a x) = rq_complete ((rq_core x)\<lparr>rq_started := rq_started x, rq_status := Uv_err rc\<rparr>)"
      using n Inl by (simp add: connect_start_job_def rq_complete_def)
    then show ?thesis by blast
  next
    case (Inr addr)
    with n show ?thesis by (cases "snd a") (auto simp: connect_start_job_def Let_def)
  qed
qed (auto simp: connect_start_job_def rq_on_done_def)

text \<open>\<open>tcp_client::read_exact\<close> is \<open>stream_buffer::read_exact\<close> on an empty buffer.\<close>

lemma tcp_read_exact_loop_eq:
  "tcp_read_exact_loop rd stop n out s =
     (case sb_read_exact_loop rd stop n out (make_stream_buffer s) of (r, b) \<Rightarrow> (r, sb_stream b))"
proof (induction rd stop n out s rule: tcp_read_exact_loop.induct)
  case (1 rd stop n out s)
  obtain r s' where rd: "rd (n - length out) s = (r, s')" by fastforce
  have sb: "sb_read_exact_loop rd stop n out (make_stream_buffer s) =
      (if length out < n then
         if stop s then (Inl Operation_cancelled, make_stream_buffer s)
         else (case r of
             Inl e \<Rightarrow> (Inl e, make_stream_buffer s')
           | Inr chunk \<Rightarrow>
               if chunk = [] then (Inr out, make_stream_buffer s') else sb_read_exact_loop rd stop n (out @ chunk) (make_stream_buffer s'))
       else (Inr out, make_stream_buffer s))"
    unfolding sb_read_exact_loop.simps [of rd stop n out "make_stream_buffer s"] using rd by (cases r) (simp_all add: make_stream_buffer_def)
  have st: "sb_stream (make_stream_buffer t) = t" for t :: 'a by (simp add: make_stream_buffer_def)
  show ?case
  proof (cases "length out < n \<and> \<not> stop s \<and> (\<exists>c. r = Inr c \<and> c \<noteq> [])")
    case True
    then obtain c where c: "r = Inr c" "c \<noteq> []" by blast
    with True 1 rd have "tcp_read_exact_loop rd stop n (out @ c) s' =
        (case sb_read_exact_loop rd stop n (out @ c) (make_stream_buffer s') of (r, b) \<Rightarrow> (r, sb_stream b))" by simp
    with True c rd show ?thesis unfolding sb tcp_read_exact_loop.simps [of rd stop n out s] by simp
  next
    case False
    with rd show ?thesis unfolding sb tcp_read_exact_loop.simps [of rd stop n out s] by (auto simp: st split: sum.split)
  qed
qed

lemma tcp_read_exact_into_loop_eq:
  "tcp_read_exact_into_loop rd stop n out s =
     (case tcp_read_exact_loop rd stop n out s of (Inl e, s) \<Rightarrow> (Inl e, s) | (Inr res, s) \<Rightarrow> (Inr (length res, res), s))"
proof (induction rd stop n out s rule: tcp_read_exact_into_loop.induct)
  case (1 rd stop n out s)
  obtain r s' where rd: "rd (n - length out) s = (r, s')" by fastforce
  from 1 rd show ?case
    by (cases r)
       (auto simp: tcp_read_exact_loop.simps [of rd stop n out s] tcp_read_exact_into_loop.simps [of rd stop n out s])
qed

end
