(* ===== verification/Tcp_Handles.thy ===== *)
theory Tcp_Handles
  imports Tcp_Client
begin

text \<open>
  Any number of \<open>tcp_client\<close> objects that are constructed, moved, assigned, closed and destroyed while
  the loop runs the jobs they post: every libuv handle has one owner and is closed exactly once.
\<close>

section \<open>Programs of client objects\<close>

text \<open>\<open>~tcp_client\<close> is \<open>close\<close>; an object may be constructed where the previous one holds no handle.\<close>

datatype client_event =
    Te_new nat uv_status
  | Te_move nat nat
  | Te_assign nat nat
  | Te_close nat
  | Te_job

type_synonym client_world = "(nat \<Rightarrow> tcp_client) \<times> handle_loop"

fun client_step :: "client_event \<Rightarrow> client_world \<Rightarrow> client_world" where
  "client_step (Te_new i init_rc) (cs, l) =
     (case tcp_client_new init_rc l of
        (Inl e, l) \<Rightarrow> (cs, l)
      | (Inr c, l) \<Rightarrow> (cs(i := c), l))"
| "client_step (Te_move i j) (cs, l) = (cs(i := fst (tcp_client_move (cs j)), j := snd (tcp_client_move (cs j))), l)"
| "client_step (Te_assign i j) (cs, l) =
     (case tcp_client_assign (i = j) (cs i) (cs j) l of (a, b, l) \<Rightarrow> (cs(i := a, j := b), l))"
| "client_step (Te_close i) (cs, l) = (case tcp_client_close (cs i) l of (c, l) \<Rightarrow> (cs(i := c), l))"
| "client_step Te_job (cs, l) =
     (case rt_queue (hl_runtime l) of
        [] \<Rightarrow> (cs, l)
      | h # hs \<Rightarrow> (cs, close_handle_job h (l\<lparr>hl_runtime := (hl_runtime l)\<lparr>rt_queue := hs\<rparr>\<rparr>)))"

fun client_enabled :: "client_event \<Rightarrow> client_world \<Rightarrow> bool" where
  "client_enabled (Te_new i init_rc) w \<longleftrightarrow> tc_handle (fst w i) = None"
| "client_enabled (Te_move i j) w \<longleftrightarrow> i \<noteq> j \<and> tc_handle (fst w i) = None"
| "client_enabled ev w \<longleftrightarrow> True"

fun client_run :: "client_event list \<Rightarrow> client_world \<Rightarrow> client_world" where
  "client_run [] w = w"
| "client_run (ev # evs) w = client_run evs (client_step ev w)"

fun client_runnable :: "client_event list \<Rightarrow> client_world \<Rightarrow> bool" where
  "client_runnable [] w \<longleftrightarrow> True"
| "client_runnable (ev # evs) w \<longleftrightarrow> client_enabled ev w \<and> client_runnable evs (client_step ev w)"

definition no_clients :: client_world where
  "no_clients = (\<lambda>_. \<lparr>tc_runtime = False, tc_handle = None, tc_connected = False\<rparr>,
     \<lparr>hl_runtime = new_runtime, hl_next = 0, hl_closes = (\<lambda>_. 0)\<rparr>)"

section \<open>Invariant\<close>

text \<open>Who is responsible for a handle: its owners, its close jobs and the calls of \<open>uv_close\<close>.\<close>

definition owners :: "nat \<Rightarrow> client_world \<Rightarrow> nat set" where
  "owners h w = {i. tc_handle (fst w i) = Some h}"

definition queued :: "nat \<Rightarrow> client_world \<Rightarrow> nat" where
  "queued h w = length (filter ((=) h) (rt_queue (hl_runtime (snd w))))"

definition handle_good :: "nat \<Rightarrow> client_world \<Rightarrow> bool" where
  "handle_good h w \<longleftrightarrow>
     (if h < hl_next (snd w)
      then ((\<exists>i. owners h w = {i} \<and> tc_runtime (fst w i)) \<and> queued h w = 0 \<and> hl_closes (snd w) h = 0) \<or>
        (owners h w = {} \<and> queued h w = 1 \<and> hl_closes (snd w) h = 0) \<or>
        (owners h w = {} \<and> queued h w = 0 \<and> hl_closes (snd w) h = 1)
      else owners h w = {} \<and> queued h w = 0 \<and> hl_closes (snd w) h = 0)"

definition clients_inv :: "client_world \<Rightarrow> bool" where
  "clients_inv w \<longleftrightarrow> (\<forall>h. handle_good h w) \<and> \<not> rt_shutting_down (hl_runtime (snd w)) \<and> rt_send_rc (hl_runtime (snd w)) = Uv_ok"

lemma clients_inv_init: "clients_inv no_clients"
  by (simp add: clients_inv_def handle_good_def owners_def queued_def no_clients_def new_runtime_def)

lemma owned_runtime: "clients_inv w \<Longrightarrow> tc_handle (fst w i) = Some h \<Longrightarrow> tc_runtime (fst w i)"
proof -
  assume "clients_inv w" and i: "tc_handle (fst w i) = Some h"
  then have "handle_good h w" by (simp add: clients_inv_def)
  moreover from i have "i \<in> owners h w" by (simp add: owners_def)
  ultimately show ?thesis by (auto simp: handle_good_def split: if_splits)
qed

text \<open>An event that gives a handle's owner to another object, or changes nothing that counts.\<close>

lemma handle_good_moved:
  assumes "handle_good h w" and "hl_next (snd w') = hl_next (snd w)" and "queued h w' = queued h w"
    and "hl_closes (snd w') h = hl_closes (snd w) h"
    and "owners h w' = {} \<longleftrightarrow> owners h w = {}" and "\<And>i. owners h w = {i} \<Longrightarrow> tc_runtime (fst w i) \<Longrightarrow> \<exists>j. owners h w' = {j} \<and> tc_runtime (fst w' j)"
  shows "handle_good h w'"
proof -
  from assms(1) consider i where "owners h w = {i}" "tc_runtime (fst w i)" | "owners h w = {}"
    by (auto simp: handle_good_def split: if_splits)
  then show ?thesis
  proof cases
    case (1 i)
    with assms(6) obtain j where j: "owners h w' = {j}" "tc_runtime (fst w' j)" by blast
    with assms 1 show ?thesis by (auto simp: handle_good_def split: if_splits)
  next
    case 2
    with assms have "owners h w' = {}" by blast
    with assms 2 show ?thesis by (auto simp: handle_good_def split: if_splits)
  qed
qed

lemma handle_good_same:
  assumes "handle_good h w" and "h < hl_next (snd w') \<longleftrightarrow> h < hl_next (snd w)" and "queued h w' = queued h w"
    and "hl_closes (snd w') h = hl_closes (snd w) h" and "owners h w' = owners h w"
    and "\<And>i. i \<in> owners h w \<Longrightarrow> fst w' i = fst w i"
  shows "handle_good h w'"
proof -
  have ex: "(\<exists>i. owners h w = {i} \<and> tc_runtime (fst w' i)) \<longleftrightarrow> (\<exists>i. owners h w = {i} \<and> tc_runtime (fst w i))"
    using assms(6) by (metis singletonI)
  show ?thesis using assms(1) unfolding handle_good_def assms(2,3,4,5) ex .
qed

lemma handles_inv_move:
  assumes "clients_inv w" and "i \<noteq> j" and "tc_handle (fst w i) = None"
  shows "clients_inv (client_step (Te_move i j) w)"
proof -
  let ?w = "client_step (Te_move i j) w"
  have s: "snd ?w = snd w" by (cases w) simp
  have f: "fst ?w = (fst w)(i := fst (tcp_client_move (fst w j)), j := snd (tcp_client_move (fst w j)))" by (cases w) simp
  have "handle_good h ?w" for h
  proof (rule handle_good_moved)
    show "handle_good h w" using assms by (simp add: clients_inv_def)
    have o: "owners h ?w = (if tc_handle (fst w j) = Some h then {i} \<union> (owners h w - {j}) else owners h w)"
      using assms unfolding owners_def f by (auto simp: tcp_client_move_def tcp_client_moved_from_def split: if_splits)
    show "owners h ?w = {} \<longleftrightarrow> owners h w = {}"
      unfolding o by (auto simp: owners_def)
    show "\<exists>k. owners h ?w = {k} \<and> tc_runtime (fst ?w k)" if "owners h w = {k'}" "tc_runtime (fst w k')" for k'
    proof (cases "tc_handle (fst w j) = Some h")
      case True
      then have "j = k'" using that by (auto simp: owners_def)
      with that True show ?thesis unfolding o f using assms(2) by (auto simp: tcp_client_move_def)
    next
      case False
      moreover from that(1) have "tc_handle (fst w k') = Some h" unfolding owners_def by blast
      then have "k' \<noteq> j" "k' \<noteq> i" using False assms(3) by auto
      ultimately show ?thesis unfolding o f using that by simp
    qed
  qed (simp_all add: s queued_def)
  with assms(1) show ?thesis by (simp add: clients_inv_def s)
qed

lemma handles_inv_close:
  assumes "clients_inv w"
  shows "clients_inv (client_step (Te_close i) w)"
proof (cases "tc_handle (fst w i)")
  case None
  then show ?thesis using assms by (cases w) (simp add: tcp_client_close_def fun_upd_idem)
next
  case (Some h)
  let ?w = "client_step (Te_close i) w"
  let ?rt = "hl_runtime (snd w)"
  from owned_runtime [OF assms Some] have r: "tc_runtime (fst w i)" .
  from assms have p: "\<not> rt_shutting_down ?rt" "rt_send_rc ?rt = Uv_ok" by (simp_all add: clients_inv_def)
  have w: "?w = ((fst w)(i := (fst w i)\<lparr>tc_handle := None, tc_connected := False\<rparr>),
      (snd w)\<lparr>hl_runtime := ?rt\<lparr>rt_queue := rt_queue ?rt @ [h], rt_wakeup := True\<rparr>\<rparr>)"
    using Some r p by (cases w) (simp add: tcp_client_close_def stream_post_ok)
  have "handle_good k ?w" for k
  proof (cases "k = h")
    case True
    from assms have g: "handle_good h w" by (simp add: clients_inv_def)
    from Some have i: "i \<in> owners h w" by (simp add: owners_def)
    with g have o: "owners h w = {i}" "queued h w = 0" "hl_closes (snd w) h = 0" "h < hl_next (snd w)"
      by (auto simp: handle_good_def split: if_splits)
    then have "owners h ?w = {}" unfolding w owners_def by auto
    with o show ?thesis unfolding True handle_good_def w by (simp add: queued_def)
  next
    case False
    have "handle_good k w" using assms by (simp add: clients_inv_def)
    then show ?thesis
    proof (rule handle_good_same)
      show "owners k ?w = owners k w" unfolding w owners_def using Some False by auto
      show "queued k ?w = queued k w" unfolding w queued_def using False by simp
      show "fst ?w j = fst w j" if "j \<in> owners k w" for j
        using that Some False unfolding w owners_def by auto
    qed (simp_all add: w)
  qed
  with p show ?thesis by (simp add: clients_inv_def w)
qed

lemma handles_inv_job:
  assumes "clients_inv w"
  shows "clients_inv (client_step Te_job w)"
proof (cases "rt_queue (hl_runtime (snd w))")
  case Nil
  with assms show ?thesis by (cases w) simp
next
  case (Cons h hs)
  let ?w = "client_step Te_job w"
  from assms have "handle_good h w" by (simp add: clients_inv_def)
  then have c: "hl_closes (snd w) h = 0" "h \<notin> set hs" "owners h w = {}" "h < hl_next (snd w)"
    using Cons by (auto simp: handle_good_def queued_def filter_empty_conv split: if_splits)
  have w: "?w = (fst w, (snd w)\<lparr>hl_runtime := (hl_runtime (snd w))\<lparr>rt_queue := hs\<rparr>, hl_closes := (hl_closes (snd w))(h := 1)\<rparr>)"
    using Cons c by (cases w) (simp add: close_handle_job_def)
  have "handle_good k ?w" for k
  proof (cases "k = h")
    case True
    with c show ?thesis unfolding w handle_good_def owners_def queued_def by (auto simp: filter_empty_conv)
  next
    case False
    have "handle_good k w" using assms by (simp add: clients_inv_def)
    then show ?thesis
    proof (rule handle_good_same)
      show "queued k ?w = queued k w" unfolding w queued_def using False Cons by simp
    qed (use False in \<open>simp_all add: w owners_def\<close>)
  qed
  with assms show ?thesis by (simp add: clients_inv_def w)
qed

lemma handles_inv_new:
  assumes "clients_inv w" and "tc_handle (fst w i) = None"
  shows "clients_inv (client_step (Te_new i rc) w)"
proof (cases rc)
  case (Uv_err e)
  with assms show ?thesis by (cases w) (simp add: tcp_client_new_def)
next
  case Uv_ok
  let ?w = "client_step (Te_new i rc) w"
  have w: "?w = ((fst w)(i := \<lparr>tc_runtime = True, tc_handle = Some (hl_next (snd w)), tc_connected = False\<rparr>),
      (snd w)\<lparr>hl_next := Suc (hl_next (snd w))\<rparr>)"
    using Uv_ok by (cases w) (simp add: tcp_client_new_def)
  have "handle_good k ?w" for k
  proof (cases "k = hl_next (snd w)")
    case True
    from assms have "handle_good k w" by (simp add: clients_inv_def)
    with True have "owners k w = {}" "queued k w = 0" "hl_closes (snd w) k = 0" by (simp_all add: handle_good_def)
    then show ?thesis unfolding w handle_good_def True by (auto simp: owners_def queued_def)
  next
    case False
    have "handle_good k w" using assms by (simp add: clients_inv_def)
    then show ?thesis
    proof (rule handle_good_same)
      show "owners k ?w = owners k w" unfolding w owners_def using assms(2) False by auto
      show "fst ?w j = fst w j" if "j \<in> owners k w" for j
        using that assms(2) unfolding w owners_def by auto
    qed (use False in \<open>auto simp: w queued_def\<close>)
  qed
  with assms show ?thesis by (simp add: clients_inv_def w)
qed

text \<open>Assignment is \<open>close\<close> of the target and then a move.\<close>

lemma assign_eq:
  "client_step (Te_assign i j) w = (if i = j then w else client_step (Te_move i j) (client_step (Te_close i) w))"
proof (cases "i = j")
  case True
  then show ?thesis by (cases w) (simp add: tcp_client_assign_def)
next
  case False
  obtain cs l where w: "w = (cs, l)" by fastforce
  obtain c l' where c: "tcp_client_close (cs i) l = (c, l')" by fastforce
  have eq: "c\<lparr>tc_runtime := tc_runtime (cs j), tc_handle := tc_handle (cs j), tc_connected := tc_connected (cs j)\<rparr> =
      \<lparr>tc_runtime = tc_runtime (cs j), tc_handle = tc_handle (cs j), tc_connected = tc_connected (cs j)\<rparr>" by simp
  with False c show ?thesis by (simp add: w tcp_client_assign_def tcp_client_move_def eq)
qed

lemma closed_handle: "tc_handle (fst (client_step (Te_close i) w) i) = None \<or> \<not> tc_runtime (fst w i)"
  by (cases w) (auto simp: tcp_client_close_def)

lemma handles_inv_step: "clients_inv w \<Longrightarrow> client_enabled ev w \<Longrightarrow> clients_inv (client_step ev w)"
proof (cases ev)
  case (Te_assign i j)
  assume inv: "clients_inv w"
  have "tc_handle (fst (client_step (Te_close i) w) i) = None"
    using owned_runtime [OF inv, of i] by (cases w; cases "tc_handle (fst w i)") (auto simp: tcp_client_close_def)
  with handles_inv_move [OF handles_inv_close [OF inv, of i]] inv show ?thesis unfolding Te_assign assign_eq by auto
qed (auto simp: handles_inv_new handles_inv_move handles_inv_close handles_inv_job simp del: client_step.simps)

lemma handles_inv_run: "clients_inv w \<Longrightarrow> client_runnable evs w \<Longrightarrow> clients_inv (client_run evs w)"
  by (induction evs arbitrary: w) (auto simp: handles_inv_step)

section \<open>Property\<close>

text \<open>
  C20. Whatever program of constructions, moves, assignments (to itself too), closes and destructions
  runs over any number of \<open>tcp_client\<close> objects, with the loop's jobs at any time in between: a libuv
  handle that some client holds is open and no other client holds it; \<open>uv_close\<close> is called at most
  once on each handle; and on each handle that nobody holds it has been called once the queue is empty.
\<close>

theorem tcp_handles_closed_once:
  assumes "client_runnable evs no_clients" and "client_run evs no_clients = (cs, l)"
  shows "hl_closes l h \<le> 1 \<and>
    (tc_handle (cs i) = Some h \<longrightarrow> hl_closes l h = 0 \<and> (\<forall>j. tc_handle (cs j) = Some h \<longrightarrow> j = i)) \<and>
    (h < hl_next l \<and> rt_queue (hl_runtime l) = [] \<and> (\<forall>j. tc_handle (cs j) \<noteq> Some h) \<longrightarrow> hl_closes l h = 1)"
proof -
  from handles_inv_run [OF clients_inv_init assms(1)] assms(2) have g: "handle_good h (cs, l)" by (simp add: clients_inv_def)
  moreover have "tc_handle (cs j) = Some h \<longleftrightarrow> j \<in> owners h (cs, l)" for j by (simp add: owners_def)
  moreover have "rt_queue (hl_runtime l) = [] \<longrightarrow> queued h (cs, l) = 0" by (simp add: queued_def)
  ultimately show ?thesis by (auto simp: handle_good_def split: if_splits)
qed

theorem tcp_handles_closed_once_witness:
  "hl_closes (snd (client_run [Te_new 0 Uv_ok, Te_new 1 Uv_ok, Te_assign 0 1, Te_assign 0 0, Te_move 2 0, Te_close 2, Te_close 1, Te_job, Te_job] no_clients)) 1 = 1"
proof -
  let ?evs = "[Te_new 0 Uv_ok, Te_new 1 Uv_ok, Te_assign 0 1, Te_assign 0 0, Te_move 2 0, Te_close 2, Te_close 1, Te_job, Te_job]"
  have r: "client_runnable ?evs no_clients" by code_simp
  have q: "rt_queue (hl_runtime (snd (client_run ?evs no_clients))) = []" "1 < hl_next (snd (client_run ?evs no_clients))" by code_simp+
  have "tc_handle (fst (client_run ?evs no_clients) j) \<noteq> Some 1" for j
    by (simp add: no_clients_def tcp_client_new_def tcp_client_assign_def tcp_client_close_def tcp_client_move_def
        tcp_client_moved_from_def Let_def close_handle_job_def post_def async_send_def new_runtime_def)
  with tcp_handles_closed_once [OF r surjective_pairing, of 1] q show ?thesis by blast
qed

end
