(* ===== verification/Tcp_Server.thy ===== *)
theory Tcp_Server
  imports Tcp_Client
begin

text \<open>
  \<open>tcp_server\<close> of \<open>src/tcp.cpp\<close>: binding, listening, the connection callback, \<open>accept\<close> with its
  awaiter and its cancellation, and closing. Everything here runs on the loop's thread. The code that
  follows a resumed \<open>accept\<close> is separate events: each resumption is the last thing its function does,
  except in \<open>close\<close>, after whose resumption a new \<open>accept\<close> is refused.
\<close>

section \<open>State\<close>

text \<open>
  The awaiter of one call of \<open>accept\<close>; \<open>ao_token\<close> is what its stop token says. The awaiter lives until
  \<open>await_resume\<close> has given its result.
\<close>

record accept_op =
  ao_continuation :: bool
  ao_stop_callback :: bool
  ao_status :: uv_status
  ao_token :: bool
  ao_resumed :: nat
  ao_result :: "nat result option"

text \<open>
  The last five fields are not the server's: the calls of \<open>accept\<close>, the handles closed, all handles
  accepted and those handed out, and whether a job touched an awaiter that was gone.
\<close>

record tcp_server =
  sv_runtime :: bool
  sv_handle :: "nat option"
  sv_bound :: bool
  sv_listening :: bool
  sv_pending_clients :: "nat list"
  sv_accept_waiter :: "nat option"
  sv_accept_status :: uv_status
  sv_next :: nat
  sv_ops :: "nat \<Rightarrow> accept_op"
  sv_count :: nat
  sv_closed :: "nat list"
  sv_accepted :: "nat list"
  sv_delivered :: "(nat \<times> nat) list"
  sv_dangling :: bool

type_synonym server_world = "tcp_server \<times> nat uv_runtime"

definition set_accept_op :: "nat \<Rightarrow> accept_op \<Rightarrow> tcp_server \<Rightarrow> tcp_server" where
  "set_accept_op i x s = s\<lparr>sv_ops := (sv_ops s)(i := x)\<rparr>"

definition new_accept_op :: "bool \<Rightarrow> accept_op" where
  "new_accept_op token = \<lparr>ao_continuation = False, ao_stop_callback = False, ao_status = Uv_ok, ao_token = token,
     ao_resumed = 0, ao_result = None\<rparr>"

definition tcp_server_new :: "uv_status \<Rightarrow> tcp_server result" where
  "tcp_server_new init_rc =
     (case init_rc of
        Uv_err e \<Rightarrow> throw_uv_error e ''uv_tcp_init''
      | Uv_ok \<Rightarrow> Inr \<lparr>sv_runtime = True, sv_handle = Some 0, sv_bound = False, sv_listening = False, sv_pending_clients = [],
          sv_accept_waiter = None, sv_accept_status = Uv_ok, sv_next = 1, sv_ops = (\<lambda>_. new_accept_op False), sv_count = 0,
          sv_closed = [], sv_accepted = [], sv_delivered = [], sv_dangling = False\<rparr>)"

section \<open>Binding and listening\<close>

definition tcp_bind :: "bool \<Rightarrow> uv_errno + 'a sockaddr \<Rightarrow> uv_status \<Rightarrow> tcp_server \<Rightarrow> unit result \<times> tcp_server" where
  "tcp_bind stop_requested parsed bind_rc s =
     (if sv_handle s = None then (Inl (Runtime_error ''tcp server handle is null''), s)
      else if stop_requested then (Inl Operation_cancelled, s)
      else (case parsed of
              Inl rc \<Rightarrow> (throw_uv_error rc ''uv_ip*_addr'', s)
            | Inr addr \<Rightarrow>
                (case bind_rc of
                   Uv_err e \<Rightarrow> (throw_uv_error e ''uv_tcp_bind'', s)
                 | Uv_ok \<Rightarrow> (Inr (), s\<lparr>sv_bound := True\<rparr>))))"

definition tcp_set_simultaneous_accepts :: "bool \<Rightarrow> uv_status \<Rightarrow> tcp_server \<Rightarrow> unit result" where
  "tcp_set_simultaneous_accepts stop_requested rc s =
     (if sv_handle s = None then Inl (Runtime_error ''tcp server handle is null'')
      else if stop_requested then Inl Operation_cancelled
      else (case rc of Uv_err e \<Rightarrow> throw_uv_error e ''uv_tcp_simultaneous_accepts'' | Uv_ok \<Rightarrow> Inr ()))"

definition tcp_listen :: "bool \<Rightarrow> uv_status \<Rightarrow> tcp_server \<Rightarrow> unit result \<times> tcp_server" where
  "tcp_listen stop_requested listen_rc s =
     (if sv_handle s = None then (Inl (Runtime_error ''tcp server handle is null''), s)
      else if \<not> sv_bound s then (Inl (Runtime_error ''tcp server is not bound''), s)
      else if stop_requested then (Inl Operation_cancelled, s)
      else (case listen_rc of
              Uv_err e \<Rightarrow> (throw_uv_error e ''uv_listen'', s)
            | Uv_ok \<Rightarrow> (Inr (), s\<lparr>sv_listening := True\<rparr>)))"

definition tcp_server_local_endpoint :: "('a \<Rightarrow> uv_errno + string) \<Rightarrow> ('a \<Rightarrow> uv_errno + string) \<Rightarrow> uv_errno + 'a sockaddr
    \<Rightarrow> tcp_server \<Rightarrow> ip_endpoint result" where
  "tcp_server_local_endpoint name4 name6 getsockname s =
     (if \<not> sv_runtime s \<or> sv_handle s = None then Inl (Runtime_error ''tcp server handle is null'')
      else (case getsockname of
              Inl rc \<Rightarrow> throw_uv_error rc ''uv_tcp_getsockname''
            | Inr addr \<Rightarrow> sockaddr_to_endpoint name4 name6 addr))"

section \<open>Accepting\<close>

text \<open>\<open>await_resume\<close>; the result is the accepted handle, of which the caller makes a \<open>tcp_client\<close>.\<close>

definition accept_result :: "accept_op \<Rightarrow> tcp_server \<Rightarrow> nat result \<times> tcp_server" where
  "accept_result x s =
     (if ao_status x = Uv_err UV_ECANCELED \<or> ao_token x then (Inl Operation_cancelled, s)
      else (case ao_status x of
              Uv_err e \<Rightarrow> (throw_uv_error e ''tcp_server::accept'', s)
            | Uv_ok \<Rightarrow>
                (case sv_accept_status s of
                   Uv_err rc \<Rightarrow> ((if rc = UV_ECANCELED then Inl Operation_cancelled else throw_uv_error rc ''uv_accept''),
                                 s\<lparr>sv_accept_status := Uv_ok\<rparr>)
                 | Uv_ok \<Rightarrow>
                     (case sv_pending_clients s of
                        [] \<Rightarrow> (Inl (Runtime_error ''accept resumed without pending client''), s)
                      | h # hs \<Rightarrow> (Inr h, s\<lparr>sv_pending_clients := hs\<rparr>)))))"

definition accept_await_resume :: "nat \<Rightarrow> tcp_server \<Rightarrow> tcp_server" where
  "accept_await_resume i s =
     (let x = (sv_ops s i)\<lparr>ao_stop_callback := False\<rparr>;
          (r, s) = accept_result x s;
          s = (case r of Inl e \<Rightarrow> s | Inr h \<Rightarrow> s\<lparr>sv_delivered := sv_delivered s @ [(i, h)]\<rparr>)
      in set_accept_op i (x\<lparr>ao_result := Some r\<rparr>) s)"

definition resume_accept :: "nat \<Rightarrow> tcp_server \<Rightarrow> tcp_server" where
  "resume_accept i s = accept_await_resume i (set_accept_op i ((sv_ops s i)\<lparr>ao_resumed := Suc (ao_resumed (sv_ops s i))\<rparr>) s)"

text \<open>The waiting coroutine, if there is one, is taken out and resumed.\<close>

definition wake_accept_waiter :: "tcp_server \<Rightarrow> tcp_server" where
  "wake_accept_waiter s =
     (case sv_accept_waiter s of
        None \<Rightarrow> s
      | Some i \<Rightarrow> resume_accept i (s\<lparr>sv_accept_waiter := None\<rparr>))"

text \<open>The connection callback; the answers of \<open>uv_tcp_init\<close> and \<open>uv_accept\<close> are parameters.\<close>

definition on_connection_impl :: "uv_status \<Rightarrow> uv_status \<Rightarrow> uv_status \<Rightarrow> tcp_server \<Rightarrow> tcp_server" where
  "on_connection_impl status init_rc accept_rc s =
     (if sv_handle s = None then s
      else (case status of
              Uv_err e \<Rightarrow> wake_accept_waiter (s\<lparr>sv_accept_status := Uv_err e\<rparr>)
            | Uv_ok \<Rightarrow>
                (case init_rc of
                   Uv_err e \<Rightarrow> wake_accept_waiter (s\<lparr>sv_accept_status := Uv_err e\<rparr>)
                 | Uv_ok \<Rightarrow>
                     (let client = sv_next s; s = s\<lparr>sv_next := Suc client\<rparr> in
                      case accept_rc of
                        Uv_err e \<Rightarrow> wake_accept_waiter (s\<lparr>sv_closed := sv_closed s @ [client], sv_accept_status := Uv_err e\<rparr>)
                      | Uv_ok \<Rightarrow> wake_accept_waiter
                          (s\<lparr>sv_pending_clients := sv_pending_clients s @ [client], sv_accepted := sv_accepted s @ [client],
                             sv_accept_status := Uv_ok\<rparr>)))))"

text \<open>A stop of the call's token: its callback, if registered, posts the job.\<close>

definition accept_stop :: "nat \<Rightarrow> server_world \<Rightarrow> server_world" where
  "accept_stop i w =
     (let x = sv_ops (fst w) i
      in (set_accept_op i (x\<lparr>ao_token := True\<rparr>) (fst w), if ao_stop_callback x then snd (post i (snd w)) else snd w))"

definition accept_cancel_job :: "nat \<Rightarrow> tcp_server \<Rightarrow> tcp_server" where
  "accept_cancel_job i s =
     (let x = sv_ops s i in
      if ao_result x \<noteq> None then s\<lparr>sv_dangling := True\<rparr>
      else if sv_accept_waiter s = (if ao_continuation x then Some i else None) then
        (let s = set_accept_op i (x\<lparr>ao_continuation := False\<rparr>) (s\<lparr>sv_accept_waiter := None, sv_accept_status := Uv_err UV_ECANCELED\<rparr>)
         in if ao_continuation x then resume_accept i s else s)
      else s)"

text \<open>
  \<open>accept\<close> up to its suspension. \<open>token\<close> is the token at \<open>await_ready\<close>, \<open>token_later\<close> at
  \<open>await_suspend\<close>, and \<open>stop_meanwhile\<close> says that the callback ran while it was registered.
\<close>

definition accept_await_ready :: "accept_op \<Rightarrow> tcp_server \<Rightarrow> bool" where
  "accept_await_ready x s \<longleftrightarrow> ao_token x \<or> sv_pending_clients s \<noteq> [] \<or> sv_accept_status s \<noteq> Uv_ok"

definition accept_await_suspend :: "bool \<Rightarrow> bool \<Rightarrow> nat \<Rightarrow> server_world \<Rightarrow> bool \<times> server_world" where
  "accept_await_suspend stop_possible stop_meanwhile i w =
     (let s = fst w; x = (sv_ops s i)\<lparr>ao_continuation := True\<rparr> in
      if ao_token x then (False, set_accept_op i (x\<lparr>ao_status := Uv_err UV_ECANCELED\<rparr>) s, snd w)
      else if sv_accept_waiter s \<noteq> None then (False, set_accept_op i (x\<lparr>ao_status := Uv_err UV_EBUSY\<rparr>) s, snd w)
      else
        let w = (set_accept_op i (x\<lparr>ao_stop_callback := stop_possible\<rparr>) s, snd w);
            w = (if stop_possible \<and> stop_meanwhile then accept_stop i w else w)
        in (True, (fst w)\<lparr>sv_accept_waiter := Some i\<rparr>, snd w))"

definition tcp_accept :: "bool \<Rightarrow> bool \<Rightarrow> bool \<Rightarrow> bool \<Rightarrow> server_world \<Rightarrow> unit result \<times> server_world" where
  "tcp_accept token token_later stop_possible stop_meanwhile w =
     (let s = fst w in
      if \<not> sv_listening s \<or> sv_handle s = None then (Inl (Runtime_error ''tcp server is not listening''), w)
      else
        let i = sv_count s; x = new_accept_op token; s = set_accept_op i x (s\<lparr>sv_count := Suc i\<rparr>) in
        if accept_await_ready x s then (Inr (), accept_await_resume i s, snd w)
        else (case accept_await_suspend stop_possible stop_meanwhile i (set_accept_op i (x\<lparr>ao_token := token_later\<rparr>) s, snd w) of
                (True, w) \<Rightarrow> (Inr (), w)
              | (False, w) \<Rightarrow> (Inr (), accept_await_resume i (fst w), snd w)))"

section \<open>Closing\<close>

definition tcp_server_close :: "tcp_server \<Rightarrow> tcp_server" where
  "tcp_server_close s =
     (if \<not> sv_runtime s then s
      else (case sv_handle s of
              None \<Rightarrow> s
            | Some server_handle \<Rightarrow>
                (let s = s\<lparr>sv_handle := None, sv_bound := False, sv_listening := False\<rparr>;
                     s = (if sv_accept_waiter s \<noteq> None
                          then wake_accept_waiter (s\<lparr>sv_accept_status := Uv_err UV_ECANCELED\<rparr>) else s);
                     s = s\<lparr>sv_closed := sv_closed s @ sv_pending_clients s, sv_pending_clients := []\<rparr>
                 in s\<lparr>sv_closed := sv_closed s @ [server_handle]\<rparr>)))"

section \<open>What happens to a server\<close>

datatype server_event =
    Av_bind bool uv_status
  | Av_listen bool uv_status
  | Av_accept bool bool bool bool
  | Av_stop nat
  | Av_job
  | Av_connection uv_status uv_status uv_status
  | Av_close

fun server_step :: "server_event \<Rightarrow> server_world \<Rightarrow> server_world" where
  "server_step (Av_bind stop_requested rc) w = (snd (tcp_bind stop_requested (Inr (Af_inet () 0)) rc (fst w)), snd w)"
| "server_step (Av_listen stop_requested rc) w = (snd (tcp_listen stop_requested rc (fst w)), snd w)"
| "server_step (Av_accept a b c d) w = snd (tcp_accept a b c d w)"
| "server_step (Av_stop i) w = (if ao_result (sv_ops (fst w) i) = None \<and> i < sv_count (fst w) then accept_stop i w else w)"
| "server_step Av_job w =
     (case rt_queue (snd w) of
        [] \<Rightarrow> w
      | i # js \<Rightarrow> (accept_cancel_job i (fst w), (snd w)\<lparr>rt_queue := js\<rparr>))"
| "server_step (Av_connection status init_rc accept_rc) w = (on_connection_impl status init_rc accept_rc (fst w), snd w)"
| "server_step Av_close w = (tcp_server_close (fst w), snd w)"

fun server_run :: "server_event list \<Rightarrow> server_world \<Rightarrow> server_world" where
  "server_run [] w = w"
| "server_run (ev # evs) w = server_run evs (server_step ev w)"

end
