(* ===== verification/Tcp_Accept.thy ===== *)
theory Tcp_Accept
  imports Tcp_Server
begin

text \<open>
  The invariant of \<open>tcp_server::accept\<close> and its properties: connections are handed out once each and
  in order, no call of \<open>accept\<close> waits while a connection is pending, and a cancelled \<open>accept\<close> makes
  the next one fail.
\<close>

section \<open>Invariant\<close>

text \<open>
  The calls: apart from those in \<open>E\<close>, which are about to get their result, a call without a result is
  the one that waits.
\<close>

definition calls_good :: "nat set \<Rightarrow> tcp_server \<Rightarrow> bool" where
  "calls_good E s \<longleftrightarrow>
     (\<forall>i < sv_count s. ao_result (sv_ops s i) = None \<longleftrightarrow> sv_accept_waiter s = Some i \<or> i \<in> E) \<and>
     (\<forall>i. sv_accept_waiter s = Some i \<longrightarrow> i < sv_count s \<and> i \<notin> E \<and> ao_continuation (sv_ops s i) \<and> ao_resumed (sv_ops s i) = 0) \<and>
     (\<forall>i \<in> E. i < sv_count s) \<and> (\<forall>i < sv_count s. ao_resumed (sv_ops s i) \<le> 1) \<and>
     (\<forall>i h. (i, h) \<in> set (sv_delivered s) \<longleftrightarrow> i < sv_count s \<and> ao_result (sv_ops s i) = Some (Inr h)) \<and>
     distinct (map fst (sv_delivered s))"

text \<open>The connections: those handed out, then those dropped by \<open>close\<close>, then those pending.\<close>

definition conns_good :: "tcp_server \<Rightarrow> bool" where
  "conns_good s \<longleftrightarrow>
     (\<exists>dropped. map snd (sv_delivered s) @ dropped @ sv_pending_clients s = sv_accepted s \<and> set dropped \<subseteq> set (sv_closed s) \<and>
        (dropped = [] \<or> sv_handle s = None \<and> sv_pending_clients s = [])) \<and>
     distinct (sv_accepted s) \<and> (\<forall>h \<in> set (sv_accepted s). h < sv_next s)"

text \<open>Nobody waits while there is something to take, nor after \<open>close\<close>.\<close>

definition idle_good :: "tcp_server \<Rightarrow> bool" where
  "idle_good s \<longleftrightarrow>
     (sv_accept_waiter s \<noteq> None \<longrightarrow> sv_pending_clients s = [] \<and> sv_accept_status s = Uv_ok \<and> sv_handle s \<noteq> None)"

definition server_inv :: "tcp_server \<Rightarrow> bool" where
  "server_inv s \<longleftrightarrow> calls_good {} s \<and> conns_good s \<and> idle_good s"

lemma set_accept_op_sel [simp]:
  "sv_ops (set_accept_op i x s) = (sv_ops s)(i := x)" "sv_count (set_accept_op i x s) = sv_count s"
  "sv_accept_waiter (set_accept_op i x s) = sv_accept_waiter s" "sv_delivered (set_accept_op i x s) = sv_delivered s"
  "sv_pending_clients (set_accept_op i x s) = sv_pending_clients s" "sv_accepted (set_accept_op i x s) = sv_accepted s"
  "sv_closed (set_accept_op i x s) = sv_closed s" "sv_next (set_accept_op i x s) = sv_next s"
  "sv_handle (set_accept_op i x s) = sv_handle s" "sv_accept_status (set_accept_op i x s) = sv_accept_status s"
  "sv_listening (set_accept_op i x s) = sv_listening s" "sv_runtime (set_accept_op i x s) = sv_runtime s"
  by (simp_all add: set_accept_op_def)

text \<open>What \<open>await_resume\<close> does to the server, in one of two ways.\<close>

lemma accept_await_resume_cases:
  obtains e st where "accept_await_resume i s = set_accept_op i ((sv_ops s i)\<lparr>ao_stop_callback := False, ao_result := Some (Inl e)\<rparr>)
      (s\<lparr>sv_accept_status := st\<rparr>)" "st = sv_accept_status s \<or> st = Uv_ok"
  | h hs where "accept_await_resume i s = set_accept_op i ((sv_ops s i)\<lparr>ao_stop_callback := False, ao_result := Some (Inr h)\<rparr>)
      (s\<lparr>sv_pending_clients := hs, sv_delivered := sv_delivered s @ [(i, h)]\<rparr>)"
    "sv_pending_clients s = h # hs" "ao_status (sv_ops s i) = Uv_ok" "\<not> ao_token (sv_ops s i)" "sv_accept_status s = Uv_ok"
proof -
  have same: "s\<lparr>sv_accept_status := sv_accept_status s\<rparr> = s" by simp
  have ups: "(t :: accept_op)\<lparr>ao_stop_callback := False\<rparr>\<lparr>ao_result := r\<rparr> = t\<lparr>ao_stop_callback := False, ao_result := r\<rparr>" for t r by simp
  let ?x = "(sv_ops s i)\<lparr>ao_stop_callback := False\<rparr>"
  show ?thesis
  proof (cases "ao_status ?x = Uv_err UV_ECANCELED \<or> ao_token ?x")
    case True
    then have "accept_result ?x s = (Inl Operation_cancelled, s)" by (simp add: accept_result_def)
    then show ?thesis using that(1) [of Operation_cancelled "sv_accept_status s"] unfolding accept_await_resume_def Let_def by simp
  next
    case False
    show ?thesis
    proof (cases "ao_status ?x")
      case (Uv_err e)
      with False have "accept_result ?x s = (throw_uv_error e ''tcp_server::accept'', s)" by (simp add: accept_result_def)
      then show ?thesis using that(1) [of "Uv_error e ''tcp_server::accept''" "sv_accept_status s"]
        unfolding accept_await_resume_def Let_def by simp
    next
      case ok: Uv_ok
      show ?thesis
      proof (cases "sv_accept_status s")
        case (Uv_err rc)
        with False ok have "accept_result ?x s = ((if rc = UV_ECANCELED then Inl Operation_cancelled else throw_uv_error rc ''uv_accept''),
            s\<lparr>sv_accept_status := Uv_ok\<rparr>)" by (simp add: accept_result_def)
        then show ?thesis
          using that(1) [of Operation_cancelled Uv_ok] that(1) [of "Uv_error rc ''uv_accept''" Uv_ok]
          unfolding accept_await_resume_def Let_def by (cases "rc = UV_ECANCELED") simp_all
      next
        case st: Uv_ok
        show ?thesis
        proof (cases "sv_pending_clients s")
          case Nil
          with False ok st have "accept_result ?x s = (Inl (Runtime_error ''accept resumed without pending client''), s)"
            by (simp add: accept_result_def)
          then show ?thesis using that(1) [of "Runtime_error ''accept resumed without pending client''" "sv_accept_status s"]
            unfolding accept_await_resume_def Let_def by simp
        next
          case (Cons h hs)
          with False ok st have "accept_result ?x s = (Inr h, s\<lparr>sv_pending_clients := hs\<rparr>)" by (simp add: accept_result_def)
          then show ?thesis using that(2) [of h hs] Cons ok st False unfolding accept_await_resume_def Let_def by simp
        qed
      qed
    qed
  qed
qed

text \<open>Giving a result to a call that is about to get one.\<close>

lemma calls_result:
  assumes "calls_good E s" and "i \<in> E"
  shows "calls_good (E - {i}) (set_accept_op i ((sv_ops s i)\<lparr>ao_stop_callback := False, ao_result := Some (Inl e)\<rparr>) (s\<lparr>sv_accept_status := st\<rparr>))"
    and "calls_good (E - {i}) (set_accept_op i ((sv_ops s i)\<lparr>ao_stop_callback := False, ao_result := Some (Inr h)\<rparr>)
      (s\<lparr>sv_pending_clients := hs, sv_delivered := sv_delivered s @ [(i, h)]\<rparr>))"
proof -
  from assms have i: "i < sv_count s" "sv_accept_waiter s \<noteq> Some i" "ao_result (sv_ops s i) = None" by (auto simp: calls_good_def)
  have n: "(i, k) \<notin> set (sv_delivered s)" for k
  proof
    assume "(i, k) \<in> set (sv_delivered s)"
    with assms(1) have "ao_result (sv_ops s i) = Some (Inr k)" by (simp add: calls_good_def)
    with i(3) show False by simp
  qed
  show "calls_good (E - {i}) (set_accept_op i ((sv_ops s i)\<lparr>ao_stop_callback := False, ao_result := Some (Inl e)\<rparr>) (s\<lparr>sv_accept_status := st\<rparr>))"
    using assms(1) i n unfolding calls_good_def by simp
  have "i \<notin> fst ` set (sv_delivered s)" using n by force
  with assms(1) i n show "calls_good (E - {i}) (set_accept_op i ((sv_ops s i)\<lparr>ao_stop_callback := False, ao_result := Some (Inr h)\<rparr>)
      (s\<lparr>sv_pending_clients := hs, sv_delivered := sv_delivered s @ [(i, h)]\<rparr>))"
    unfolding calls_good_def by simp auto
qed

lemma conns_cong:
  assumes "conns_good s" and "sv_delivered s' = sv_delivered s" and "sv_pending_clients s' = sv_pending_clients s"
    and "sv_accepted s' = sv_accepted s" and "set (sv_closed s) \<subseteq> set (sv_closed s')" and "sv_next s \<le> sv_next s'"
    and "sv_handle s' = sv_handle s \<or> sv_handle s' = None"
  shows "conns_good s'"
proof -
  from assms(1) obtain d where d: "map snd (sv_delivered s) @ d @ sv_pending_clients s = sv_accepted s" "set d \<subseteq> set (sv_closed s)"
    "d = [] \<or> sv_handle s = None \<and> sv_pending_clients s = []" and "distinct (sv_accepted s)" "\<forall>h \<in> set (sv_accepted s). h < sv_next s"
    unfolding conns_good_def by blast
  with assms show ?thesis unfolding conns_good_def by (intro conjI exI [of _ d]) (auto intro: less_le_trans)
qed

lemma conns_take:
  assumes "conns_good s" and "sv_pending_clients s = h # hs"
  shows "conns_good (set_accept_op i x (s\<lparr>sv_pending_clients := hs, sv_delivered := sv_delivered s @ [(i, h)]\<rparr>))"
proof -
  from assms have "map snd (sv_delivered s) @ [] @ h # hs = sv_accepted s" by (auto simp: conns_good_def)
  with assms(1) show ?thesis unfolding conns_good_def by (intro conjI exI [of _ "[]"]) auto
qed

lemma resume_keeps:
  assumes "calls_good {i} s" and "conns_good s" and "idle_good s"
  shows "server_inv (accept_await_resume i s)"
proof (cases rule: accept_await_resume_cases [of i s])
  case (1 e st)
  from calls_result(1) [OF assms(1), of i e st] have "calls_good {} (accept_await_resume i s)" unfolding 1(1) by simp
  moreover have "conns_good (accept_await_resume i s)" unfolding 1(1) by (rule conns_cong [OF assms(2)]) simp_all
  moreover have "idle_good (accept_await_resume i s)" using assms(3) 1(2) unfolding 1(1) idle_good_def by auto
  ultimately show ?thesis by (simp add: server_inv_def)
next
  case (2 h hs)
  from calls_result(2) [OF assms(1), of i h hs] have "calls_good {} (accept_await_resume i s)" unfolding 2(1) by simp
  moreover have "conns_good (accept_await_resume i s)" unfolding 2(1) by (rule conns_take [OF assms(2) 2(2)])
  moreover have "idle_good (accept_await_resume i s)" using assms(3) 2(2) unfolding 2(1) idle_good_def by auto
  ultimately show ?thesis by (simp add: server_inv_def)
qed

text \<open>Taking the waiting call out to be resumed.\<close>

lemma calls_wake:
  assumes "calls_good {} s" and "sv_accept_waiter s = Some i" and "ao_result x = None" and "ao_resumed x \<le> 1"
    and "sv_ops s' = (sv_ops s)(i := x)" and "sv_count s' = sv_count s" and "sv_accept_waiter s' = None" and "sv_delivered s' = sv_delivered s"
  shows "calls_good {i} s'"
proof -
  from assms(1,2) have i: "i < sv_count s" "ao_result (sv_ops s i) = None" by (auto simp: calls_good_def)
  from i(2) have "\<forall>h. ao_result (sv_ops s i) \<noteq> Some (Inr h)" by simp
  with i assms show ?thesis unfolding calls_good_def by simp
qed

lemma calls_cong:
  "calls_good E s \<Longrightarrow> sv_ops s' = sv_ops s \<Longrightarrow> sv_count s' = sv_count s \<Longrightarrow> sv_accept_waiter s' = sv_accept_waiter s \<Longrightarrow>
   sv_delivered s' = sv_delivered s \<Longrightarrow> calls_good E s'"
  by (simp add: calls_good_def)

lemma wake_keeps:
  assumes "calls_good {} s" and "conns_good s"
  shows "server_inv (wake_accept_waiter s)"
proof (cases "sv_accept_waiter s")
  case None
  with assms show ?thesis by (simp add: wake_accept_waiter_def server_inv_def idle_good_def)
next
  case (Some i)
  let ?s = "set_accept_op i ((sv_ops s i)\<lparr>ao_resumed := Suc (ao_resumed (sv_ops s i))\<rparr>) (s\<lparr>sv_accept_waiter := None\<rparr>)"
  have "conns_good ?s" by (rule conns_cong [OF assms(2)]) simp_all
  moreover have "idle_good ?s" by (simp add: idle_good_def)
  moreover have "wake_accept_waiter s = accept_await_resume i ?s" using Some by (simp add: wake_accept_waiter_def resume_accept_def)
  moreover from assms(1) Some have "ao_result (sv_ops s i) = None" "ao_resumed (sv_ops s i) = 0" by (auto simp: calls_good_def)
  then have "calls_good {i} ?s"
    by (intro calls_wake [OF assms(1) Some, of "(sv_ops s i)\<lparr>ao_resumed := Suc (ao_resumed (sv_ops s i))\<rparr>"]) simp_all
  ultimately show ?thesis using resume_keeps by simp
qed

lemma waiter_gone [simp]: "sv_accept_waiter (wake_accept_waiter s) = None"
  by (cases "sv_accept_waiter s")
     (auto simp: wake_accept_waiter_def resume_accept_def accept_await_resume_def Let_def accept_result_def
       split: prod.split sum.split uv_status.split list.split)

section \<open>The events keep it\<close>

lemma server_inv_stop:
  assumes "server_inv (fst w)" and "ao_result (sv_ops (fst w) i) = None" and "i < sv_count (fst w)"
  shows "server_inv (fst (accept_stop i w))"
proof -
  have "calls_good {} (fst (accept_stop i w))"
    using assms by (simp add: server_inv_def calls_good_def accept_stop_def Let_def)
  moreover have "conns_good (fst (accept_stop i w))"
    by (rule conns_cong [of "fst w"]) (use assms in \<open>simp_all add: accept_stop_def Let_def server_inv_def\<close>)
  moreover have "idle_good (fst (accept_stop i w))"
    using assms by (simp add: accept_stop_def Let_def server_inv_def idle_good_def)
  ultimately show ?thesis by (simp add: server_inv_def)
qed

lemma server_inv_connection:
  assumes "server_inv s"
  shows "server_inv (on_connection_impl a b c s)"
proof (cases "sv_handle s")
  case None
  with assms show ?thesis by (simp add: on_connection_impl_def)
next
  case (Some v)
  from assms have g: "calls_good {} s" "conns_good s" by (simp_all add: server_inv_def)
  have quiet: "server_inv (wake_accept_waiter s')"
    if "sv_ops s' = sv_ops s" "sv_count s' = sv_count s" "sv_accept_waiter s' = sv_accept_waiter s" "sv_delivered s' = sv_delivered s"
      and "conns_good s'" for s'
    by (rule wake_keeps [OF calls_cong [OF g(1) that(1-4)] that(5)])
  have err: "conns_good (s\<lparr>sv_accept_status := st\<rparr>)" "conns_good (s\<lparr>sv_next := Suc (sv_next s), sv_closed := cl, sv_accept_status := st\<rparr>)"
    if "set (sv_closed s) \<subseteq> set cl" for cl st
    by (rule conns_cong [OF g(2)]; use that in simp)+
  have new: "conns_good (s\<lparr>sv_next := Suc (sv_next s), sv_pending_clients := sv_pending_clients s @ [sv_next s],
      sv_accepted := sv_accepted s @ [sv_next s], sv_accept_status := Uv_ok\<rparr>)"
  proof -
    from g(2) Some have "map snd (sv_delivered s) @ sv_pending_clients s = sv_accepted s" "distinct (sv_accepted s)"
      "\<forall>h \<in> set (sv_accepted s). h < sv_next s" by (auto simp: conns_good_def)
    then show ?thesis unfolding conns_good_def by (intro conjI exI [of _ "[]"]) (auto simp: less_Suc_eq)
  qed
  show ?thesis
  proof (cases a)
    case (Uv_err e)
    with Some show ?thesis using quiet [OF _ _ _ _ err(1) [OF subset_refl]] by (simp add: on_connection_impl_def)
  next
    case aok: Uv_ok
    show ?thesis
    proof (cases b)
      case (Uv_err e)
      with Some aok show ?thesis using quiet [OF _ _ _ _ err(1) [OF subset_refl]] by (simp add: on_connection_impl_def)
    next
      case bok: Uv_ok
      show ?thesis
      proof (cases c)
        case (Uv_err e)
        have "set (sv_closed s) \<subseteq> set (sv_closed s @ [sv_next s])" by auto
        with Some aok bok Uv_err show ?thesis using quiet [OF _ _ _ _ err(2)] by (simp add: on_connection_impl_def Let_def)
      next
        case Uv_ok
        with Some aok bok show ?thesis using quiet [OF _ _ _ _ new] by (simp add: on_connection_impl_def Let_def)
      qed
    qed
  qed
qed

lemma server_inv_cancel_job:
  assumes "server_inv s"
  shows "server_inv (accept_cancel_job i s)"
proof -
  from assms have g: "calls_good {} s" "conns_good s" "idle_good s" by (simp_all add: server_inv_def)
  consider (gone) "ao_result (sv_ops s i) \<noteq> None"
    | (none) "ao_result (sv_ops s i) = None" "sv_accept_waiter s = None" "\<not> ao_continuation (sv_ops s i)"
    | (waits) "ao_result (sv_ops s i) = None" "sv_accept_waiter s = Some i" "ao_continuation (sv_ops s i)"
    | (other) "ao_result (sv_ops s i) = None" "sv_accept_waiter s \<noteq> (if ao_continuation (sv_ops s i) then Some i else None)"
    by (cases "ao_continuation (sv_ops s i)"; cases "ao_result (sv_ops s i)"; cases "sv_accept_waiter s") auto
  then show ?thesis
  proof cases
    case gone
    have "calls_good {} (s\<lparr>sv_dangling := True\<rparr>)" by (rule calls_cong [OF g(1)]) simp_all
    moreover have "conns_good (s\<lparr>sv_dangling := True\<rparr>)" by (rule conns_cong [OF g(2)]) simp_all
    ultimately show ?thesis using gone g(3) by (simp add: accept_cancel_job_def server_inv_def idle_good_def)
  next
    case none
    let ?s = "set_accept_op i ((sv_ops s i)\<lparr>ao_continuation := False\<rparr>) (s\<lparr>sv_accept_waiter := None, sv_accept_status := Uv_err UV_ECANCELED\<rparr>)"
    have "\<not> i < sv_count s" using g(1) none unfolding calls_good_def by auto
    then have "calls_good {} ?s" using g(1) none unfolding calls_good_def by simp
    moreover have "conns_good ?s" by (rule conns_cong [OF g(2)]) simp_all
    ultimately show ?thesis using none by (simp add: accept_cancel_job_def server_inv_def idle_good_def)
  next
    case waits
    let ?s = "set_accept_op i ((sv_ops s i)\<lparr>ao_continuation := False\<rparr>) (s\<lparr>sv_accept_waiter := None, sv_accept_status := Uv_err UV_ECANCELED\<rparr>)"
    let ?r = "set_accept_op i ((sv_ops ?s i)\<lparr>ao_resumed := Suc (ao_resumed (sv_ops ?s i))\<rparr>) ?s"
    from g(1) waits(2) have "ao_resumed (sv_ops s i) = 0" by (auto simp: calls_good_def)
    then have "calls_good {i} ?r"
      by (intro calls_wake [OF g(1) waits(2), of "(sv_ops ?s i)\<lparr>ao_resumed := Suc (ao_resumed (sv_ops ?s i))\<rparr>"]) (simp_all add: waits(1))
    moreover have "conns_good ?r" by (rule conns_cong [OF g(2)]) simp_all
    ultimately have "server_inv (accept_await_resume i ?r)" by (rule resume_keeps) (simp add: idle_good_def)
    with waits show ?thesis by (simp add: accept_cancel_job_def resume_accept_def Let_def)
  next
    case other
    with assms show ?thesis by (simp add: accept_cancel_job_def Let_def)
  qed
qed

lemma server_inv_close:
  assumes "server_inv s"
  shows "server_inv (tcp_server_close s)"
proof (cases "sv_runtime s \<and> sv_handle s \<noteq> None")
  case False
  with assms show ?thesis by (auto simp: tcp_server_close_def)
next
  case True
  then obtain v where v: "sv_handle s = Some v" "sv_runtime s" by blast
  from assms have g: "calls_good {} s" "conns_good s" by (simp_all add: server_inv_def)
  let ?a = "s\<lparr>sv_handle := None, sv_bound := False, sv_listening := False\<rparr>"
  let ?b = "if sv_accept_waiter ?a \<noteq> None then wake_accept_waiter (?a\<lparr>sv_accept_status := Uv_err UV_ECANCELED\<rparr>) else ?a"
  have ca: "calls_good {} (?a\<lparr>sv_accept_status := st\<rparr>)" for st by (rule calls_cong [OF g(1)]) simp_all
  have na: "conns_good (?a\<lparr>sv_accept_status := st\<rparr>)" for st by (rule conns_cong [OF g(2)]) simp_all
  have b: "calls_good {} ?b" "conns_good ?b" "sv_accept_waiter ?b = None"
    using wake_keeps [OF ca na] ca [of "sv_accept_status ?a"] na [of "sv_accept_status ?a"]
    by (auto simp: server_inv_def)
  define t where "t = ?b"
  from b(2) obtain d where d: "map snd (sv_delivered t) @ d @ sv_pending_clients t = sv_accepted t" "set d \<subseteq> set (sv_closed t)"
    "distinct (sv_accepted t)" "\<forall>h \<in> set (sv_accepted t). h < sv_next t" unfolding conns_good_def t_def by blast
  let ?c = "t\<lparr>sv_closed := sv_closed t @ sv_pending_clients t @ [v], sv_pending_clients := []\<rparr>"
  have h: "sv_handle t = None"
    by (auto simp: t_def wake_accept_waiter_def resume_accept_def accept_await_resume_def Let_def accept_result_def
        split: option.split prod.split sum.split uv_status.split list.split)
  have "calls_good {} ?c" using b(1) unfolding t_def [symmetric] by (rule calls_cong) simp_all
  moreover have "conns_good ?c"
    unfolding conns_good_def using d h by (intro conjI exI [of _ "d @ sv_pending_clients t"]) auto
  moreover have "idle_good ?c" using b(3) unfolding t_def [symmetric] idle_good_def by simp
  moreover have "tcp_server_close s = ?c" unfolding tcp_server_close_def t_def using v by (simp add: Let_def)
  ultimately show ?thesis by (simp add: server_inv_def)
qed

lemma server_inv_accept:
  assumes "server_inv (fst w)"
  shows "server_inv (fst (snd (tcp_accept a b c d w)))"
proof (cases "sv_listening (fst w) \<and> sv_handle (fst w) \<noteq> None")
  case False
  with assms show ?thesis by (auto simp: tcp_accept_def Let_def)
next
  case True
  obtain s rt where w: "w = (s, rt)" by fastforce
  define i where "i = sv_count s"
  from assms w have g: "calls_good {} s" "conns_good s" "idle_good s" by (simp_all add: server_inv_def)
  have fresh: "(i, h) \<notin> set (sv_delivered s)" "sv_accept_waiter s \<noteq> Some i" for h using g(1) by (auto simp: calls_good_def i_def)
  let ?s = "\<lambda>x. set_accept_op i x (s\<lparr>sv_count := Suc i\<rparr>)"
  have calls: "calls_good {i} (?s x)" if "ao_result x = None" "ao_resumed x \<le> 1" for x
    using g(1) fresh that unfolding calls_good_def by (auto simp: less_Suc_eq i_def)
  have conns: "conns_good (?s x)" for x by (rule conns_cong [OF g(2)]) simp_all
  have idle: "idle_good (?s x)" for x using g(3) by (simp add: idle_good_def)
  have fin: "server_inv (accept_await_resume i (?s x))" if "ao_result x = None" "ao_resumed x \<le> 1" for x
    by (rule resume_keeps [OF calls [OF that] conns idle])
  show ?thesis
  proof (cases "accept_await_ready (new_accept_op a) (?s (new_accept_op a))")
    case ready: True
    have "fst (snd (tcp_accept a b c d w)) = accept_await_resume i (?s (new_accept_op a))"
      using True ready by (auto simp: w tcp_accept_def Let_def i_def)
    with fin [of "new_accept_op a"] show ?thesis by (simp add: new_accept_op_def)
  next
    case unready: False
    let ?x = "(new_accept_op a)\<lparr>ao_token := b, ao_continuation := True\<rparr>"
    have upd: "set_accept_op k y (set_accept_op k x t) = set_accept_op k y t" for k x y t by (simp add: set_accept_op_def)
    have nx: "ao_result ?x = None" "ao_resumed ?x \<le> 1" by (simp_all add: new_accept_op_def)
    show ?thesis
    proof (cases "b \<or> sv_accept_waiter s \<noteq> None")
      case refused: True
      then obtain st where "fst (snd (tcp_accept a b c d w)) = accept_await_resume i (?s (?x\<lparr>ao_status := st\<rparr>))"
        using True unready by (cases b) (auto simp: w tcp_accept_def Let_def i_def accept_await_suspend_def upd)
      with fin [of "?x\<lparr>ao_status := st\<rparr>"] nx show ?thesis by simp
    next
      case False
      from unready have p: "sv_pending_clients s = []" "sv_accept_status s = Uv_ok" by (simp_all add: accept_await_ready_def)
      have "\<exists>y. fst (snd (tcp_accept a b c d w)) = (?s y)\<lparr>sv_accept_waiter := Some i\<rparr> \<and> ao_result y = None \<and> ao_resumed y = 0 \<and> ao_continuation y"
        using True unready False
        by (cases "c \<and> d") (auto simp: w tcp_accept_def Let_def i_def accept_await_suspend_def upd accept_stop_def new_accept_op_def)
      then obtain y where y: "fst (snd (tcp_accept a b c d w)) = (?s y)\<lparr>sv_accept_waiter := Some i\<rparr>" "ao_result y = None" "ao_resumed y = 0"
        "ao_continuation y" by blast
      have "calls_good {} ((?s y)\<lparr>sv_accept_waiter := Some i\<rparr>)"
        using calls [of y] y False unfolding calls_good_def by (auto simp: i_def)
      moreover have "conns_good ((?s y)\<lparr>sv_accept_waiter := Some i\<rparr>)" by (rule conns_cong [OF conns [of y]]) simp_all
      moreover have "idle_good ((?s y)\<lparr>sv_accept_waiter := Some i\<rparr>)" using p True w by (simp add: idle_good_def)
      ultimately show ?thesis by (simp add: y(1) server_inv_def)
    qed
  qed
qed

lemma server_inv_same:
  assumes "server_inv s" and "sv_ops s' = sv_ops s" and "sv_count s' = sv_count s" and "sv_accept_waiter s' = sv_accept_waiter s"
    and "sv_delivered s' = sv_delivered s" and "sv_pending_clients s' = sv_pending_clients s" and "sv_accepted s' = sv_accepted s"
    and "sv_closed s' = sv_closed s" and "sv_next s' = sv_next s" and "sv_handle s' = sv_handle s" and "sv_accept_status s' = sv_accept_status s"
  shows "server_inv s'"
proof -
  from assms(1) have g: "calls_good {} s" "conns_good s" "idle_good s" by (simp_all add: server_inv_def)
  have "conns_good s'" by (rule conns_cong [OF g(2)]) (simp_all add: assms)
  with calls_cong [OF g(1) assms(2-5)] g(3) assms show ?thesis by (simp add: server_inv_def idle_good_def)
qed

lemma server_inv_step: "server_inv (fst w) \<Longrightarrow> server_inv (fst (server_step ev w))"
proof (cases ev)
  case (Av_bind a b)
  assume i: "server_inv (fst w)"
  show ?thesis unfolding Av_bind
    by (rule server_inv_same [OF i]) (simp_all add: tcp_bind_def split: uv_status.split)
next
  case (Av_listen a b)
  assume i: "server_inv (fst w)"
  show ?thesis unfolding Av_listen
    by (rule server_inv_same [OF i]) (simp_all add: tcp_listen_def split: uv_status.split)
qed (simp_all add: server_inv_accept server_inv_stop server_inv_connection server_inv_close server_inv_cancel_job split: list.split)

lemma server_inv_run: "server_inv (fst w) \<Longrightarrow> server_inv (fst (server_run evs w))"
  by (induction evs arbitrary: w) (simp_all add: server_inv_step del: server_step.simps)

lemma server_inv_new: "tcp_server_new Uv_ok = Inr s \<Longrightarrow> server_inv s"
  by (auto simp: tcp_server_new_def server_inv_def calls_good_def conns_good_def idle_good_def)

section \<open>Properties\<close>

text \<open>
  C21. Whatever binds, listens, calls of \<open>accept\<close>, stops, jobs, connection callbacks (with libuv's
  errors) and closes happen to a server: the handles of the accepted connections are handed out in the
  order they were accepted, each to one call and each call at most one, and the rest are pending or,
  after \<open>close\<close>, closed; a call returns a handle exactly when it was handed that handle; no call is
  resumed twice; at most one call waits, and only while the server is open and nothing is pending.
\<close>

theorem tcp_accept_fifo_once:
  assumes "tcp_server_new Uv_ok = Inr s0" and "s = fst (server_run evs (s0, rt))"
  shows "(\<exists>dropped. map snd (sv_delivered s) @ dropped @ sv_pending_clients s = sv_accepted s \<and> set dropped \<subseteq> set (sv_closed s)) \<and>
    distinct (map fst (sv_delivered s)) \<and> distinct (map snd (sv_delivered s)) \<and>
    (\<forall>i h. (i, h) \<in> set (sv_delivered s) \<longleftrightarrow> i < sv_count s \<and> ao_result (sv_ops s i) = Some (Inr h)) \<and>
    (\<forall>i < sv_count s. ao_resumed (sv_ops s i) \<le> 1 \<and> (ao_result (sv_ops s i) = None \<longleftrightarrow> sv_accept_waiter s = Some i)) \<and>
    (sv_accept_waiter s \<noteq> None \<longrightarrow> sv_pending_clients s = [] \<and> sv_accept_status s = Uv_ok \<and> sv_handle s \<noteq> None)"
proof -
  from assms server_inv_run [of "(s0, rt)" evs] server_inv_new have inv: "server_inv s" by simp
  then obtain d where d: "map snd (sv_delivered s) @ d @ sv_pending_clients s = sv_accepted s" "set d \<subseteq> set (sv_closed s)"
    "distinct (sv_accepted s)" unfolding server_inv_def conns_good_def by blast
  from d(3) have "distinct (map snd (sv_delivered s))" unfolding d(1) [symmetric] by simp
  moreover from inv have "calls_good {} s" "idle_good s" by (simp_all add: server_inv_def)
  ultimately show ?thesis using d unfolding calls_good_def idle_good_def by blast
qed

definition accept_scenario :: "server_event list" where
  "accept_scenario = [Av_bind False Uv_ok, Av_listen False Uv_ok, Av_accept False False True False,
     Av_connection Uv_ok Uv_ok Uv_ok, Av_connection Uv_ok Uv_ok Uv_ok, Av_accept False False False False]"

theorem tcp_accept_fifo_once_witness:
  "map snd (sv_delivered (fst (server_run accept_scenario (projr (tcp_server_new Uv_ok), new_runtime)))) = [1, 2] \<and>
   distinct (map fst (sv_delivered (fst (server_run accept_scenario (projr (tcp_server_new Uv_ok), new_runtime)))))"
proof -
  have "tcp_server_new Uv_ok = Inr (projr (tcp_server_new Uv_ok))" by (simp add: tcp_server_new_def)
  from tcp_accept_fifo_once [OF this refl, of accept_scenario new_runtime]
  have "distinct (map fst (sv_delivered (fst (server_run accept_scenario (projr (tcp_server_new Uv_ok), new_runtime)))))" by blast
  moreover have "map snd (sv_delivered (fst (server_run accept_scenario (projr (tcp_server_new Uv_ok), new_runtime)))) = [1, 2]" by code_simp
  ultimately show ?thesis by blast
qed

text \<open>
  A defect: cancelling an \<open>accept\<close> that waits leaves \<open>UV_ECANCELED\<close> in the server, because the
  resumed awaiter throws for its stopped token before it clears the status. The next call of
  \<open>accept\<close>, whose own token is not stopped, then throws \<open>operation_cancelled\<close> at once.
\<close>

theorem tcp_accept_cancel_poisons_next:
  assumes "sv_listening s" and "sv_handle s \<noteq> None" and "sv_pending_clients s = []" and "sv_accept_status s = Uv_ok"
    and "sv_accept_waiter s = None" and "rt_queue rt = []" and "\<not> rt_shutting_down rt" and "rt_send_rc rt = Uv_ok"
    and "t = fst (server_run [Av_accept False False True False, Av_stop (sv_count s), Av_job, Av_accept False False False False] (s, rt))"
  shows "sv_count t = sv_count s + 2 \<and> ao_result (sv_ops t (sv_count s)) = Some (Inl Operation_cancelled) \<and>
    \<not> ao_token (sv_ops t (Suc (sv_count s))) \<and> ao_result (sv_ops t (Suc (sv_count s))) = Some (Inl Operation_cancelled)"
proof -
  let ?i = "sv_count s"
  let ?x = "(new_accept_op False)\<lparr>ao_continuation := True, ao_stop_callback := True\<rparr>"
  define s1 where "s1 = (set_accept_op ?i ?x (s\<lparr>sv_count := Suc ?i\<rparr>))\<lparr>sv_accept_waiter := Some ?i\<rparr>"
  have upd: "set_accept_op i y (set_accept_op i x u) = set_accept_op i y u" for i x y u by (simp add: set_accept_op_def)
  have 1: "server_step (Av_accept False False True False) (s, rt) = (s1, rt)"
    using assms(1-5)
    by (auto simp: s1_def tcp_accept_def Let_def accept_await_ready_def accept_await_suspend_def upd new_accept_op_def)
  define s2 where "s2 = set_accept_op ?i (?x\<lparr>ao_token := True\<rparr>) s1"
  have 2: "server_step (Av_stop ?i) (s1, rt) = (s2, rt\<lparr>rt_queue := [?i], rt_wakeup := True\<rparr>)"
    using assms(6-8) by (simp add: s1_def s2_def accept_stop_def Let_def stream_post_ok new_accept_op_def)
  define s3 where "s3 = accept_cancel_job ?i s2"
  have s3: "sv_accept_status s3 = Uv_err UV_ECANCELED" "sv_accept_waiter s3 = None" "sv_pending_clients s3 = []"
      "sv_count s3 = Suc ?i" "ao_result (sv_ops s3 ?i) = Some (Inl Operation_cancelled)" "sv_listening s3" "sv_handle s3 \<noteq> None"
    using assms(1-5)
    by (simp_all add: s3_def s2_def s1_def accept_cancel_job_def Let_def new_accept_op_def resume_accept_def accept_await_resume_def
        accept_result_def)
  have t: "t = fst (server_step (Av_accept False False False False) (s3, rt\<lparr>rt_wakeup := True, rt_queue := []\<rparr>))"
    unfolding assms(9) server_run.simps 1 2 by (simp add: s3_def)
  show ?thesis
    unfolding t using s3
    by (auto simp: tcp_accept_def Let_def accept_await_ready_def accept_await_resume_def accept_result_def new_accept_op_def)
qed

theorem tcp_accept_cancel_poisons_next_witness:
  "\<exists>t. t = fst (server_run [Av_accept False False True False, Av_stop 0, Av_job, Av_accept False False False False]
       (fst (server_run [Av_bind False Uv_ok, Av_listen False Uv_ok] (projr (tcp_server_new Uv_ok), new_runtime)), new_runtime)) \<and>
     ao_result (sv_ops t (Suc 0)) = Some (Inl Operation_cancelled)"
proof -
  let ?s = "fst (server_run [Av_bind False Uv_ok, Av_listen False Uv_ok] (projr (tcp_server_new Uv_ok), new_runtime :: nat uv_runtime))"
  have s: "sv_listening ?s" "sv_handle ?s \<noteq> None" "sv_pending_clients ?s = []" "sv_accept_status ?s = Uv_ok" "sv_accept_waiter ?s = None"
    and c: "sv_count ?s = 0"
    by (simp_all add: tcp_server_new_def tcp_bind_def tcp_listen_def)
  have rt: "rt_queue (new_runtime :: nat uv_runtime) = []" "\<not> rt_shutting_down (new_runtime :: nat uv_runtime)"
    "rt_send_rc (new_runtime :: nat uv_runtime) = Uv_ok" by (simp_all add: new_runtime_def)
  from tcp_accept_cancel_poisons_next [OF s(1-5) rt refl, unfolded c] show ?thesis by blast
qed

text \<open>
  Another defect: the job that a stop posts refers to the awaiter, which lives in the coroutine. When a
  connection arrives between the stop and the job, the coroutine goes on, and the job then reads the
  awaiter that is gone.
\<close>

lemma tcp_accept_stale_cancel_job:
  "sv_dangling (fst (server_run [Av_bind False Uv_ok, Av_listen False Uv_ok, Av_accept False False True False, Av_stop 0,
     Av_connection Uv_ok Uv_ok Uv_ok, Av_job] (projr (tcp_server_new Uv_ok), new_runtime)))"
  by code_simp

end
