(* ===== verification/Fs_Request.thy ===== *)
theory Fs_Request
  imports One_Shot
begin

text \<open>
  \<open>run_fs_request\<close> of \<open>src/fs.cpp\<close>: the one-shot request behind every file-system operation. Beside
  the life of the request it keeps the value that the operation's \<open>finish_fn\<close> takes out of the
  \<open>uv_fs_t\<close>, and frees what libuv allocated in it (\<open>uv_fs_req_cleanup\<close>) when it completes.
\<close>

section \<open>State and handlers\<close>

text \<open>\<open>fq_cleanups\<close> counts the calls of \<open>uv_fs_req_cleanup\<close>.\<close>

record 'r fs_request = uv_request +
  fq_cleanup_required :: bool
  fq_result :: "'r option"
  fq_cleanups :: nat

type_synonym 'r fs_world = "'r fs_request \<times> rq_job uv_runtime"

definition new_fs_request :: "'r fs_request" where
  "new_fs_request = \<lparr>rq_continuation = False, rq_keep_alive = False, rq_stop_callback = False, rq_completed = False,
     rq_status = Uv_ok, rq_cancel_requested = False, rq_started = False, rq_in_flight = False, rq_resumed = 0,
     fq_cleanup_required = False, fq_result = None, fq_cleanups = 0\<rparr>"

definition fs_complete :: "'r fs_request \<Rightarrow> 'r fs_request" where
  "fs_complete x =
     (if rq_completed x then x
      else rq_complete
        (if fq_cleanup_required x then x\<lparr>fq_cleanup_required := False, fq_cleanups := Suc (fq_cleanups x)\<rparr> else x))"

definition fs_start_job :: "uv_status \<Rightarrow> 'r fs_request \<Rightarrow> 'r fs_request" where
  "fs_start_job start_rc x =
     (if rq_completed x then x
      else let x = x\<lparr>rq_started := True, fq_cleanup_required := True\<rparr>
           in (case start_rc of
                 Uv_ok \<Rightarrow> x\<lparr>rq_in_flight := True\<rparr>
               | Uv_err e \<Rightarrow> fs_complete (x\<lparr>rq_status := Uv_err e\<rparr>)))"

text \<open>libuv's callback: an error code, or the value that \<open>finish_fn\<close> reads from the request.\<close>

definition fs_on_done :: "uv_errno + 'r \<Rightarrow> 'r fs_request \<Rightarrow> 'r fs_request" where
  "fs_on_done answer x =
     (let x = x\<lparr>rq_in_flight := False\<rparr>
      in fs_complete (case answer of
           Inl e \<Rightarrow> x\<lparr>rq_status := Uv_err e\<rparr>
         | Inr v \<Rightarrow> x\<lparr>fq_result := Some v\<rparr>))"

text \<open>A result that was never assigned is the value-initialised one, here \<open>None\<close>.\<close>

definition fs_await_resume :: "string \<Rightarrow> 'r fs_request \<Rightarrow> 'r option result" where
  "fs_await_resume op_name x =
     (case rq_await_resume op_name x of
        Inl e \<Rightarrow> Inl e
      | Inr _ \<Rightarrow> Inr (fq_result x))"

definition run_fs_request :: "bool \<Rightarrow> bool \<Rightarrow> bool \<Rightarrow> string \<Rightarrow> rq_job uv_runtime \<Rightarrow> 'r option awaited \<times> 'r fs_world" where
  "run_fs_request stop_requested stop_possible stop_meanwhile op_name rt =
     (case rq_await_suspend stop_requested stop_possible stop_meanwhile (new_fs_request, rt) of
        (Inl e, w) \<Rightarrow> (Continues (Inl e), w)
      | (Inr False, w) \<Rightarrow> (Continues (fs_await_resume op_name (fst w)), w)
      | (Inr True, w) \<Rightarrow> (Suspended, w))"

definition fs_step :: "(uv_status, uv_errno + 'r) rq_event \<Rightarrow> 'r fs_world \<Rightarrow> 'r fs_world" where
  "fs_step = rq_step fs_complete fs_start_job fs_on_done"

section \<open>It is a one-shot request\<close>

lemma rq_core_fs [simp]:
  "rq_core (x\<lparr>fq_cleanup_required := b\<rparr>) = rq_core x" "rq_core (x\<lparr>fq_result := r\<rparr>) = rq_core x"
  "rq_core (x\<lparr>fq_cleanups := n\<rparr>) = rq_core x"
  by (simp_all add: rq_core_def uv_request.truncate_def)

lemma rq_core_fs_complete [simp]: "rq_core (fs_complete x) = rq_complete (rq_core x)"
  by (auto simp: fs_complete_def rq_complete_def)

interpretation fs_requests: one_shot fs_complete fs_start_job fs_on_done "case_sum Uv_err (\<lambda>_. Uv_ok)"
proof
  fix a :: uv_status and x :: "'r fs_request"
  assume "\<not> rq_completed x"
  then show "rq_core (fs_start_job a x) = (rq_core x)\<lparr>rq_started := True, rq_in_flight := True\<rparr> \<or>
      (\<exists>b e. rq_core (fs_start_job a x) = rq_complete ((rq_core x)\<lparr>rq_started := b, rq_status := Uv_err e\<rparr>))"
    by (cases a) (auto simp: fs_start_job_def Let_def)
next
  fix b :: "uv_errno + 'r" and x :: "'r fs_request"
  have eq: "rq_core x\<lparr>rq_in_flight := False\<rparr> = rq_core x\<lparr>rq_in_flight := False, rq_status := rq_status (rq_core x)\<rparr>" by simp
  show "\<exists>s. rq_core (fs_on_done b x) = rq_on_done s (rq_core x) \<and> (s = Uv_ok \<longrightarrow> case_sum Uv_err (\<lambda>_. Uv_ok) b = Uv_ok)"
  proof (cases b)
    case (Inl e)
    then show ?thesis by (intro exI [of _ "Uv_err e"]) (simp add: fs_on_done_def rq_on_done_def)
  next
    case (Inr v)
    have "rq_core (fs_on_done b x) = rq_on_done (rq_status (rq_core x)) (rq_core x)"
      unfolding rq_on_done_def eq [symmetric] by (simp add: Inr fs_on_done_def)
    with Inr show ?thesis by (metis sum.case(2))
  qed
qed (auto simp: fs_start_job_def)

text \<open>The request's memory is freed by the completion, once, and only when it was started.\<close>

definition cleanup_good :: "'r fs_request \<Rightarrow> bool" where
  "cleanup_good x \<longleftrightarrow>
     (if rq_completed x then \<not> fq_cleanup_required x \<and> fq_cleanups x \<le> 1 \<and> (rq_started x \<longrightarrow> fq_cleanups x = 1)
      else fq_cleanups x = 0 \<and> fq_cleanup_required x = rq_started x) \<and>
     (\<not> rq_completed x \<and> \<not> rq_started x \<longrightarrow> rq_status x = Uv_ok)"

lemma cleanup_complete:
  "\<not> rq_completed x \<Longrightarrow> fq_cleanups x = 0 \<Longrightarrow> fq_cleanup_required x = rq_started x \<Longrightarrow> cleanup_good (fs_complete x)"
  by (auto simp: cleanup_good_def fs_complete_def rq_complete_def)

lemma cleanup_step:
  assumes "cleanup_good (fst w)" and "rq_inv w" and "rq_enabled ev w"
  shows "cleanup_good (fst (fs_step ev w))"
proof (cases "rq_completed (fst w)")
  case True
  then have "\<not> rq_in_flight (fst w) \<or> rq_started (fst w)" using assms(2) by (auto simp: rq_inv_def rq_good_def)
  with True assms show ?thesis
    by (cases ev)
       (auto simp: fs_step_def rq_stop_def rq_run_job_def rq_cancel_job_def fs_start_job_def fs_on_done_def fs_complete_def cleanup_good_def
          Let_def rq_inv_def rq_good_def split: list.split rq_job.split sum.split)
next
  case False
  with assms(1) have c: "fq_cleanups (fst w) = 0" "fq_cleanup_required (fst w) = rq_started (fst w)"
    by (simp_all add: cleanup_good_def)
  show ?thesis
  proof (cases ev)
    case Rq_stop
    with assms(1) show ?thesis by (simp add: fs_step_def rq_stop_def)
  next
    case (Rq_done b)
    with False c show ?thesis
      by (cases b) (auto simp: fs_step_def fs_on_done_def Let_def intro!: cleanup_complete)
  next
    case (Rq_job a rc)
    show ?thesis
    proof (cases "rt_queue (snd w)")
      case Nil
      with assms(1) Rq_job show ?thesis by (simp add: fs_step_def rq_run_job_def)
    next
      case (Cons j js)
      show ?thesis
      proof (cases j)
        case Rj_start
        with False c Cons Rq_job show ?thesis
          by (cases a) (auto simp: fs_step_def rq_run_job_def fs_start_job_def Let_def cleanup_good_def [of "_\<lparr>rq_in_flight := True\<rparr>"] intro!: cleanup_complete)
      next
        case Rj_cancel
        from assms(1) False have s: "cleanup_good (fst w\<lparr>rq_cancel_requested := True\<rparr>)" by (simp add: cleanup_good_def)
        from False c Cons Rq_job Rj_cancel s show ?thesis
          by (auto simp: fs_step_def rq_run_job_def rq_cancel_job_def Let_def intro!: cleanup_complete)
      qed
    qed
  qed
qed

lemma cleanup_run:
  "cleanup_good (fst w) \<Longrightarrow> rq_inv w \<Longrightarrow> rq_runnable fs_step evs w \<Longrightarrow> cleanup_good (fst (rq_run fs_step evs w))"
proof (induction evs arbitrary: w)
  case (Cons ev evs)
  from Cons.prems have e: "rq_enabled ev w" "rq_runnable fs_step evs (fs_step ev w)" by simp_all
  from Cons.IH [OF cleanup_step [OF Cons.prems(1,2) e(1)] fs_requests.inv_step [OF Cons.prems(2) e(1), folded fs_step_def] e(2)]
  show ?case by simp
qed simp

text \<open>The value came from a callback, and a request that ended well has one.\<close>

definition result_good :: "'r set \<Rightarrow> 'r fs_request \<Rightarrow> bool" where
  "result_good vs x \<longleftrightarrow> set_option (fq_result x) \<subseteq> vs \<and> (rq_completed x \<and> rq_status x = Uv_ok \<longrightarrow> fq_result x \<noteq> None)"

lemma fs_complete_sel [simp]:
  "fq_result (fs_complete x) = fq_result x" "rq_status (fs_complete x) = rq_status x" "rq_completed (fs_complete x)"
  by (auto simp: fs_complete_def rq_complete_def)

lemma result_step:
  "result_good vs (fst w) \<Longrightarrow> (\<forall>v. ev = Rq_done (Inr v) \<longrightarrow> v \<in> vs) \<Longrightarrow> result_good vs (fst (fs_step ev w))"
  by (cases ev)
    (auto simp: fs_step_def result_good_def rq_stop_def rq_run_job_def rq_cancel_job_def fs_start_job_def fs_on_done_def Let_def
       split: list.split rq_job.split sum.split uv_status.split)

lemma result_run:
  "result_good vs (fst w) \<Longrightarrow> (\<forall>v. Rq_done (Inr v) \<in> set evs \<longrightarrow> v \<in> vs) \<Longrightarrow> result_good vs (fst (rq_run fs_step evs w))"
  by (induction evs arbitrary: w) (simp_all add: result_step)

section \<open>Property\<close>

lemma run_fs_request_suspended:
  assumes "rt_queue rt = []" and "run_fs_request a b c op_name rt = (Suspended, w)"
  shows "rq_inv w" "rq_safe w" "cleanup_good (fst w)" "result_good vs (fst w)"
proof -
  have s: "rq_await_suspend a b c (new_fs_request, rt) = (Inr True, w)"
    using assms(2) by (auto simp: run_fs_request_def split: prod.splits sum.splits bool.splits)
  have f: "rq_fresh (new_fs_request :: 'b fs_request)" by (simp add: rq_fresh_def new_fs_request_def)
  from rq_suspended_inv [OF f assms(1) s] show "rq_inv w" "rq_safe w" by blast+
  from s show "cleanup_good (fst w)" "result_good vs (fst w)"
    by (auto simp: rq_await_suspend_def cleanup_good_def result_good_def new_fs_request_def rq_stop_def Let_def
        split: if_splits prod.splits sum.splits)
qed

text \<open>
  C22. \<open>run_fs_request\<close>: however stops, loop turns, failures to start and libuv's callback interleave,
  the coroutine is resumed at most once, and exactly once when nothing is left to happen; it returns
  only a value that libuv's callback delivered; what libuv allocated is freed at most once, and once
  when a started request has completed; and as long as \<open>uv_cancel\<close> answers zero, \<open>UV_EBUSY\<close> or
  \<open>UV_ENOSYS\<close>, the state is kept alive while libuv holds the request in it.
\<close>

theorem fs_request_once_honest:
  assumes "rt_queue rt = []" and "run_fs_request stop_requested stop_possible stop_meanwhile op_name rt = (Suspended, w)"
    and "rq_runnable fs_step evs w" and "rq_run fs_step evs w = (x, rt')"
  shows "rq_resumed x \<le> 1 \<and> (rt_queue rt' = [] \<longrightarrow> \<not> rq_in_flight x \<longrightarrow> rq_resumed x = 1) \<and>
    (rq_completed x \<longrightarrow> fs_await_resume op_name x = Inr r \<longrightarrow> (\<exists>v. r = Some v \<and> Rq_done (Inr v) \<in> set evs)) \<and>
    fq_cleanups x \<le> 1 \<and> (rq_completed x \<longrightarrow> rq_started x \<longrightarrow> fq_cleanups x = 1) \<and>
    (list_all rq_calm evs \<longrightarrow> rq_in_flight x \<longrightarrow> rq_keep_alive x)"
proof -
  note s = run_fs_request_suspended [OF assms(1,2)]
  from fs_requests.resumed_exactly_once [OF s(1) assms(3) [unfolded fs_step_def]] assms(4)
  have "rq_resumed x \<le> 1" "rt_queue rt' = [] \<longrightarrow> \<not> rq_in_flight x \<longrightarrow> rq_resumed x = 1" by (simp_all add: fs_step_def)
  moreover from fs_requests.safe_run [OF s(1,2) _ assms(3) [unfolded fs_step_def]] assms(4)
  have "list_all rq_calm evs \<longrightarrow> rq_in_flight x \<longrightarrow> rq_keep_alive x" by (simp add: fs_step_def rq_safe_def)
  moreover from cleanup_run [OF s(3,1) assms(3)] assms(4)
  have "fq_cleanups x \<le> 1" "rq_completed x \<longrightarrow> rq_started x \<longrightarrow> fq_cleanups x = 1"
    by (auto simp: cleanup_good_def split: if_splits)
  moreover from result_run [OF s(4) [of "{v. Rq_done (Inr v) \<in> set evs}"], of evs] assms(4)
  have "result_good {v. Rq_done (Inr v) \<in> set evs} x" by simp
  then have "rq_completed x \<longrightarrow> fs_await_resume op_name x = Inr r \<longrightarrow> (\<exists>v. r = Some v \<and> Rq_done (Inr v) \<in> set evs)"
    using rq_await_resume_Inr [of op_name x] by (auto simp: fs_await_resume_def result_good_def split: sum.splits)
  ultimately show ?thesis by blast
qed

text \<open>
  An \<open>open\<close> that is stopped while libuv's thread is at work: \<open>uv_cancel\<close> answers \<open>UV_EBUSY\<close> and the file
  is opened.
\<close>

definition fs_late_stop :: "(uv_status, uv_errno + int) rq_event list" where
  "fs_late_stop = [Rq_job Uv_ok Uv_ok, Rq_stop, Rq_job Uv_ok (Uv_err UV_EBUSY), Rq_done (Inr 7)]"

theorem fs_request_once_honest_witness:
  "rq_resumed (fst (rq_run fs_step fs_late_stop (snd (run_fs_request False True False ''uv_fs_open'' new_runtime)))) = 1 \<and>
   fq_cleanups (fst (rq_run fs_step fs_late_stop (snd (run_fs_request False True False ''uv_fs_open'' new_runtime)))) = 1"
proof -
  let ?w = "snd (run_fs_request False True False ''uv_fs_open'' new_runtime) :: int fs_world"
  have s: "run_fs_request False True False ''uv_fs_open'' new_runtime = (Suspended, ?w)"
    by (simp add: run_fs_request_def rq_await_suspend_def post_def async_send_def new_runtime_def)
  have r: "rq_runnable fs_step fs_late_stop ?w" by code_simp
  have q: "rt_queue (snd (rq_run fs_step fs_late_stop ?w)) = []" "\<not> rq_in_flight (fst (rq_run fs_step fs_late_stop ?w))"
    "rq_completed (fst (rq_run fs_step fs_late_stop ?w))" "rq_started (fst (rq_run fs_step fs_late_stop ?w))" by code_simp+
  have e: "rt_queue (new_runtime :: rq_job uv_runtime) = []" by (simp add: new_runtime_def)
  from fs_request_once_honest [OF e s r surjective_pairing] q show ?thesis by blast
qed

text \<open>
  A defect: the request succeeded, but because the stop was asked for in between \<open>await_resume\<close> throws
  and the value is dropped; when it is the descriptor of a file that was opened, nothing closes it.
\<close>

lemma fs_late_stop_drops_value:
  "fq_result (fst (rq_run fs_step fs_late_stop (snd (run_fs_request False True False ''uv_fs_open'' new_runtime)))) = Some 7 \<and>
   fs_await_resume ''uv_fs_open'' (fst (rq_run fs_step fs_late_stop (snd (run_fs_request False True False ''uv_fs_open'' new_runtime)))) =
     Inl Operation_cancelled"
  by code_simp

end
