(* ===== verification/File_Ops.thy ===== *)
theory File_Ops
  imports Fs_Request Io_Properties
begin

unbundle bit_operations_syntax

text \<open>
  The class \<open>file\<close> and the functions of \<open>namespace fs\<close> of \<open>src/fs.cpp\<close>. What libuv and the operating
  system answer is a record of functions on the world \<open>'w\<close>; each request runs to completion through
  the machine of \<open>Fs_Request\<close>. Paths are strings, offsets and descriptors integers (a 64-bit offset
  would need 2 ^ 63 bytes to overflow).
\<close>

section \<open>The file system\<close>

record uv_stat =
  st_mode :: "32 word"
  st_size :: "64 word"

datatype dirent_type = Dirent_unknown | Dirent_file | Dirent_dir | Dirent_link | Dirent_other

record directory_entry =
  de_name :: string
  de_type :: dirent_type

text \<open>
  \<open>os_stop\<close> is what the caller's stop token says; \<open>os_late\<close> says that it was stopped while the last
  request was under way, so that the cancel job found it busy. The other fields are named after the
  functions; \<open>uv_fs_readlink\<close> and \<open>uv_fs_realpath\<close> deliver a pointer, which may be null.
\<close>

record 'w uv_fs =
  os_stop :: "'w \<Rightarrow> bool"
  os_late :: "'w \<Rightarrow> bool"
  O_RDONLY :: int
  O_WRONLY :: int
  O_CREAT :: int
  O_TRUNC :: int
  uv_fs_open :: "string \<Rightarrow> int \<Rightarrow> int \<Rightarrow> 'w \<Rightarrow> (uv_errno + int) \<times> 'w"
  uv_fs_close :: "int \<Rightarrow> 'w \<Rightarrow> (uv_errno + unit) \<times> 'w"
  uv_fs_read :: "int \<Rightarrow> nat \<Rightarrow> int \<Rightarrow> 'w \<Rightarrow> (uv_errno + string) \<times> 'w"
  uv_fs_write :: "int \<Rightarrow> string \<Rightarrow> int \<Rightarrow> 'w \<Rightarrow> (uv_errno + nat) \<times> 'w"
  uv_fs_ftruncate :: "int \<Rightarrow> int \<Rightarrow> 'w \<Rightarrow> (uv_errno + unit) \<times> 'w"
  uv_fs_sendfile :: "int \<Rightarrow> int \<Rightarrow> int \<Rightarrow> nat \<Rightarrow> 'w \<Rightarrow> (uv_errno + nat) \<times> 'w"
  uv_fs_stat :: "string \<Rightarrow> 'w \<Rightarrow> (uv_errno + uv_stat) \<times> 'w"
  uv_fs_lstat :: "string \<Rightarrow> 'w \<Rightarrow> (uv_errno + uv_stat) \<times> 'w"
  uv_fs_mkdir :: "string \<Rightarrow> int \<Rightarrow> 'w \<Rightarrow> (uv_errno + unit) \<times> 'w"
  uv_fs_rmdir :: "string \<Rightarrow> 'w \<Rightarrow> (uv_errno + unit) \<times> 'w"
  uv_fs_unlink :: "string \<Rightarrow> 'w \<Rightarrow> (uv_errno + unit) \<times> 'w"
  uv_fs_rename :: "string \<Rightarrow> string \<Rightarrow> 'w \<Rightarrow> (uv_errno + unit) \<times> 'w"
  uv_fs_copyfile :: "string \<Rightarrow> string \<Rightarrow> 32 word \<Rightarrow> 'w \<Rightarrow> (uv_errno + unit) \<times> 'w"
  uv_fs_link :: "string \<Rightarrow> string \<Rightarrow> 'w \<Rightarrow> (uv_errno + unit) \<times> 'w"
  uv_fs_symlink :: "string \<Rightarrow> string \<Rightarrow> 32 word \<Rightarrow> 'w \<Rightarrow> (uv_errno + unit) \<times> 'w"
  uv_fs_readlink :: "string \<Rightarrow> 'w \<Rightarrow> (uv_errno + string option) \<times> 'w"
  uv_fs_realpath :: "string \<Rightarrow> 'w \<Rightarrow> (uv_errno + string option) \<times> 'w"
  uv_fs_chmod :: "string \<Rightarrow> int \<Rightarrow> 'w \<Rightarrow> (uv_errno + unit) \<times> 'w"
  uv_fs_scandir :: "string \<Rightarrow> 'w \<Rightarrow> (uv_errno + (uv_errno + directory_entry) list) \<times> 'w"
  os_dup :: "int \<Rightarrow> 'w \<Rightarrow> (uv_errno + int) \<times> 'w"
  os_lseek :: "int \<Rightarrow> int \<Rightarrow> 'w \<Rightarrow> uv_status \<times> 'w"
  os_leftovers :: "string \<Rightarrow> 'w \<Rightarrow> (exn + string list) \<times> 'w"
  os_symlink_status :: "string \<Rightarrow> 'w \<Rightarrow> (unit + bool \<times> bool) \<times> 'w"
  os_remove :: "string \<Rightarrow> 'w \<Rightarrow> bool \<times> 'w"

text \<open>\<open>run_fs_request\<close> run to completion around the operation \<open>f\<close>.\<close>

definition fs_call :: "'w uv_fs \<Rightarrow> string \<Rightarrow> ('w \<Rightarrow> (uv_errno + 'r) \<times> 'w) \<Rightarrow> 'w \<Rightarrow> 'r result \<times> 'w" where
  "fs_call os op_name f w =
     (let (answer, st) = run_fs_request (os_stop os w) True False op_name new_runtime;
          value = (\<lambda>r. case r of Inl e \<Rightarrow> Inl e | Inr v \<Rightarrow> Inr (the v)) in
      case answer of
        Continues r \<Rightarrow> (value r, w)
      | Suspended \<Rightarrow>
          (let (a, w) = f w;
               st = fs_step (Rq_job Uv_ok Uv_ok) st;
               st = (if os_late os w then fs_step (Rq_job Uv_ok (Uv_err UV_EBUSY)) (fs_step Rq_stop st) else st);
               st = fs_step (Rq_done a) st
           in (value (fs_await_resume op_name (fst st)), w)))"

lemma fs_call_eq:
  "fs_call os op_name f w =
     (if os_stop os w then (Inl Operation_cancelled, w)
      else (case f w of
              (Inl e, w) \<Rightarrow> ((if e = UV_ECANCELED then Inl Operation_cancelled else Inl (Uv_error e op_name)), w)
            | (Inr v, w) \<Rightarrow> ((if os_late os w then Inl Operation_cancelled else Inr v), w)))"
proof (cases "os_stop os w")
  case True
  then show ?thesis
    by (simp add: fs_call_def run_fs_request_def rq_await_suspend_def new_fs_request_def fs_await_resume_def rq_await_resume_def)
next
  case False
  obtain a w' where f: "f w = (a, w')" by fastforce
  from False f show ?thesis
    by (cases a; cases "os_late os w'")
       (simp_all add: fs_call_def run_fs_request_def rq_await_suspend_def new_fs_request_def fs_await_resume_def rq_await_resume_def
          new_runtime_def post_def async_send_def fs_step_def rq_run_job_def fs_start_job_def rq_stop_def rq_cancel_job_def
          rq_cancel_pending_def fs_on_done_def fs_complete_def rq_complete_def Let_def)
qed

section \<open>Requests\<close>

definition stat_path :: "'w uv_fs \<Rightarrow> string \<Rightarrow> 'w \<Rightarrow> uv_stat result \<times> 'w" where
  "stat_path os path = fs_call os ''uv_fs_stat'' (uv_fs_stat os path)"

definition lstat_path :: "'w uv_fs \<Rightarrow> string \<Rightarrow> 'w \<Rightarrow> uv_stat result \<times> 'w" where
  "lstat_path os path = fs_call os ''uv_fs_lstat'' (uv_fs_lstat os path)"

definition mkdir_path :: "'w uv_fs \<Rightarrow> string \<Rightarrow> int \<Rightarrow> 'w \<Rightarrow> unit result \<times> 'w" where
  "mkdir_path os path mode = fs_call os ''uv_fs_mkdir'' (uv_fs_mkdir os path mode)"

definition rmdir_path :: "'w uv_fs \<Rightarrow> string \<Rightarrow> 'w \<Rightarrow> unit result \<times> 'w" where
  "rmdir_path os path = fs_call os ''uv_fs_rmdir'' (uv_fs_rmdir os path)"

definition unlink_path :: "'w uv_fs \<Rightarrow> string \<Rightarrow> 'w \<Rightarrow> unit result \<times> 'w" where
  "unlink_path os path = fs_call os ''uv_fs_unlink'' (uv_fs_unlink os path)"

definition rename_path :: "'w uv_fs \<Rightarrow> string \<Rightarrow> string \<Rightarrow> 'w \<Rightarrow> unit result \<times> 'w" where
  "rename_path os path new_path = fs_call os ''uv_fs_rename'' (uv_fs_rename os path new_path)"

definition copy_file_path :: "'w uv_fs \<Rightarrow> string \<Rightarrow> string \<Rightarrow> 32 word \<Rightarrow> 'w \<Rightarrow> unit result \<times> 'w" where
  "copy_file_path os path new_path flags = fs_call os ''uv_fs_copyfile'' (uv_fs_copyfile os path new_path flags)"

definition link_path :: "'w uv_fs \<Rightarrow> string \<Rightarrow> string \<Rightarrow> 'w \<Rightarrow> unit result \<times> 'w" where
  "link_path os path new_path = fs_call os ''uv_fs_link'' (uv_fs_link os path new_path)"

definition symlink_path :: "'w uv_fs \<Rightarrow> string \<Rightarrow> string \<Rightarrow> 32 word \<Rightarrow> 'w \<Rightarrow> unit result \<times> 'w" where
  "symlink_path os path new_path flags = fs_call os ''uv_fs_symlink'' (uv_fs_symlink os path new_path flags)"

text \<open>A null pointer leaves the result string empty.\<close>

definition ptr_value :: "(uv_errno + string option) \<times> 'w \<Rightarrow> (uv_errno + string) \<times> 'w" where
  "ptr_value a = (case a of
      (Inl e, w) \<Rightarrow> (Inl e, w)
    | (Inr None, w) \<Rightarrow> (Inr [], w)
    | (Inr (Some s), w) \<Rightarrow> (Inr s, w))"

definition readlink_path :: "'w uv_fs \<Rightarrow> string \<Rightarrow> 'w \<Rightarrow> string result \<times> 'w" where
  "readlink_path os path = fs_call os ''uv_fs_readlink'' (\<lambda>w. ptr_value (uv_fs_readlink os path w))"

definition realpath_path :: "'w uv_fs \<Rightarrow> string \<Rightarrow> 'w \<Rightarrow> string result \<times> 'w" where
  "realpath_path os path = fs_call os ''uv_fs_realpath'' (\<lambda>w. ptr_value (uv_fs_realpath os path w))"

definition chmod_path :: "'w uv_fs \<Rightarrow> string \<Rightarrow> int \<Rightarrow> 'w \<Rightarrow> unit result \<times> 'w" where
  "chmod_path os path mode = fs_call os ''uv_fs_chmod'' (uv_fs_chmod os path mode)"

definition ftruncate_file :: "'w uv_fs \<Rightarrow> int \<Rightarrow> int \<Rightarrow> 'w \<Rightarrow> unit result \<times> 'w" where
  "ftruncate_file os fd len = fs_call os ''uv_fs_ftruncate'' (uv_fs_ftruncate os fd len)"

definition open_file_async :: "'w uv_fs \<Rightarrow> string \<Rightarrow> int \<Rightarrow> int \<Rightarrow> 'w \<Rightarrow> int result \<times> 'w" where
  "open_file_async os path flags mode = fs_call os ''uv_fs_open'' (uv_fs_open os path flags mode)"

definition close_file_async :: "'w uv_fs \<Rightarrow> int \<Rightarrow> 'w \<Rightarrow> unit result \<times> 'w" where
  "close_file_async os fd = fs_call os ''uv_fs_close'' (uv_fs_close os fd)"

text \<open>The result of a read is the bytes it put in the caller's buffer.\<close>

definition read_file_async_into :: "'w uv_fs \<Rightarrow> int \<Rightarrow> nat \<Rightarrow> int \<Rightarrow> 'w \<Rightarrow> string result \<times> 'w" where
  "read_file_async_into os fd buffer_size offset w =
     (if buffer_size = 0 then (Inr [], w)
      else fs_call os ''uv_fs_read'' (uv_fs_read os fd (uv_buf_len buffer_size) offset) w)"

definition read_file_async :: "'w uv_fs \<Rightarrow> int \<Rightarrow> nat \<Rightarrow> int \<Rightarrow> 'w \<Rightarrow> string result \<times> 'w" where
  "read_file_async os fd max_bytes offset w =
     (if max_bytes = 0 then (Inr [], w) else read_file_async_into os fd max_bytes offset w)"

definition write_file_async :: "'w uv_fs \<Rightarrow> int \<Rightarrow> string \<Rightarrow> int \<Rightarrow> 'w \<Rightarrow> nat result \<times> 'w" where
  "write_file_async os fd data offset w =
     (if data = [] then (Inr 0, w)
      else fs_call os ''uv_fs_write'' (uv_fs_write os fd (uv_buf_init data) offset) w)"

definition write_file_async_owned :: "'w uv_fs \<Rightarrow> int \<Rightarrow> string \<Rightarrow> int \<Rightarrow> 'w \<Rightarrow> nat result \<times> 'w" where
  "write_file_async_owned os fd data offset w = write_file_async os fd data offset w"

definition sendfile_async :: "'w uv_fs \<Rightarrow> int \<Rightarrow> int \<Rightarrow> int \<Rightarrow> int \<Rightarrow> nat \<Rightarrow> 'w \<Rightarrow> nat result \<times> 'w" where
  "sendfile_async os out_fd out_offset in_fd in_offset max_bytes w =
     (if max_bytes = 0 then (Inr 0, w)
      else fs_call os ''uv_fs_sendfile''
        (\<lambda>w. case os_lseek os out_fd out_offset w of
               (Uv_err e, w) \<Rightarrow> (Inl e, w)
             | (Uv_ok, w) \<Rightarrow> uv_fs_sendfile os out_fd in_fd in_offset max_bytes w) w)"

text \<open>
  \<open>scandir_sync\<close>: libuv hands out the entries one by one, or an error in the middle.
\<close>

fun scandir_entries :: "(uv_errno + directory_entry) list \<Rightarrow> directory_entry list result" where
  "scandir_entries [] = Inr []"
| "scandir_entries (Inl rc # es) = throw_uv_error rc ''uv_fs_scandir_next''"
| "scandir_entries (Inr e # es) =
     (case scandir_entries es of
        Inl x \<Rightarrow> Inl x
      | Inr r \<Rightarrow> Inr (if de_name e = ''.'' \<or> de_name e = ''..'' then r else e # r))"

definition scandir_sync :: "'w uv_fs \<Rightarrow> string \<Rightarrow> 'w \<Rightarrow> directory_entry list result \<times> 'w" where
  "scandir_sync os path w =
     (case uv_fs_scandir os path w of
        (Inl rc, w) \<Rightarrow> (throw_uv_error rc ''uv_fs_scandir'', w)
      | (Inr es, w) \<Rightarrow> (scandir_entries es, w))"

text \<open>\<open>std::filesystem::path(base) / name\<close> on POSIX.\<close>

definition join_path :: "string \<Rightarrow> string \<Rightarrow> string" where
  "join_path base name =
     (if name \<noteq> [] \<and> hd name = CHR 0x2F then name
      else if base \<noteq> [] \<and> last base \<noteq> CHR 0x2F then base @ [CHR 0x2F] @ name
      else base @ name)"

section \<open>The class \<open>file\<close>\<close>

record fs_file =
  fl_runtime :: bool
  fl_fd :: int
  fl_offset :: int

type_synonym 'w file_world = "fs_file \<times> 'w"

definition new_file :: fs_file where
  "new_file = \<lparr>fl_runtime = True, fl_fd = - 1, fl_offset = 0\<rparr>"

definition file_is_open :: "fs_file \<Rightarrow> bool" where
  "file_is_open f \<longleftrightarrow> 0 \<le> fl_fd f"

definition file_seek :: "int \<Rightarrow> fs_file \<Rightarrow> fs_file" where
  "file_seek offset f = f\<lparr>fl_offset := offset\<rparr>"

definition file_close_sync_noexcept :: "'w uv_fs \<Rightarrow> 'w file_world \<Rightarrow> 'w file_world" where
  "file_close_sync_noexcept os fw =
     (let f = fst fw in
      if \<not> fl_runtime f \<or> fl_fd f < 0 then fw
      else (f\<lparr>fl_fd := - 1, fl_offset := 0\<rparr>, snd (uv_fs_close os (fl_fd f) (snd fw))))"

text \<open>Move construction and assignment: the target and what is left of the source.\<close>

definition file_move :: "fs_file \<Rightarrow> fs_file \<times> fs_file" where
  "file_move other = (other, \<lparr>fl_runtime = False, fl_fd = - 1, fl_offset = 0\<rparr>)"

definition file_assign :: "'w uv_fs \<Rightarrow> bool \<Rightarrow> fs_file \<Rightarrow> fs_file \<Rightarrow> 'w \<Rightarrow> fs_file \<times> fs_file \<times> 'w" where
  "file_assign os same_object this other w =
     (if same_object then (this, other, w)
      else (other, \<lparr>fl_runtime = False, fl_fd = - 1, fl_offset = 0\<rparr>, snd (file_close_sync_noexcept os (this, w))))"

definition file_close :: "'w uv_fs \<Rightarrow> 'w file_world \<Rightarrow> unit result \<times> 'w file_world" where
  "file_close os fw =
     (let f = fst fw in
      if \<not> file_is_open f then (Inr (), fw)
      else (case close_file_async os (fl_fd f) (snd fw) of
              (r, w) \<Rightarrow> (r, f\<lparr>fl_fd := - 1, fl_offset := 0\<rparr>, w)))"

definition file_open :: "'w uv_fs \<Rightarrow> string \<Rightarrow> int \<Rightarrow> int \<Rightarrow> 'w file_world \<Rightarrow> unit result \<times> 'w file_world" where
  "file_open os path flags mode fw =
     (case (if file_is_open (fst fw) then file_close os fw else (Inr (), fw)) of
        (Inl e, fw) \<Rightarrow> (Inl e, fw)
      | (Inr _, f, w) \<Rightarrow>
          (case open_file_async os path flags mode w of
             (Inl e, w) \<Rightarrow> (Inl e, f, w)
           | (Inr fd, w) \<Rightarrow> (Inr (), f\<lparr>fl_fd := fd, fl_offset := 0\<rparr>, w)))"

definition file_open_fd :: "'w uv_fs \<Rightarrow> int \<Rightarrow> 'w file_world \<Rightarrow> unit result \<times> 'w file_world" where
  "file_open_fd os fd fw =
     (if os_stop os (snd fw) then (Inl Operation_cancelled, fw)
      else if fd < 0 then (Inl (Runtime_error ''file descriptor is invalid''), fw)
      else (case (if file_is_open (fst fw) then file_close os fw else (Inr (), fw)) of
              (Inl e, fw) \<Rightarrow> (Inl e, fw)
            | (Inr _, f, w) \<Rightarrow>
                (case os_dup os fd w of
                   (Inl e, w) \<Rightarrow> (throw_uv_error e ''dup'', f, w)
                 | (Inr d, w) \<Rightarrow> (Inr (), f\<lparr>fl_fd := d, fl_offset := 0\<rparr>, w))))"

definition file_read_at :: "'w uv_fs \<Rightarrow> nat \<Rightarrow> int \<Rightarrow> 'w file_world \<Rightarrow> string result \<times> 'w file_world" where
  "file_read_at os max_bytes offset fw =
     (if \<not> file_is_open (fst fw) then (Inl (Runtime_error ''file is not open''), fw)
      else (case read_file_async os (fl_fd (fst fw)) max_bytes offset (snd fw) of (r, w) \<Rightarrow> (r, fst fw, w)))"

definition file_read_at_into :: "'w uv_fs \<Rightarrow> nat \<Rightarrow> int \<Rightarrow> 'w file_world \<Rightarrow> string result \<times> 'w file_world" where
  "file_read_at_into os buffer_size offset fw =
     (if \<not> file_is_open (fst fw) then (Inl (Runtime_error ''file is not open''), fw)
      else (case read_file_async_into os (fl_fd (fst fw)) buffer_size offset (snd fw) of (r, w) \<Rightarrow> (r, fst fw, w)))"

definition file_write_at :: "'w uv_fs \<Rightarrow> string \<Rightarrow> int \<Rightarrow> 'w file_world \<Rightarrow> nat result \<times> 'w file_world" where
  "file_write_at os data offset fw =
     (if \<not> file_is_open (fst fw) then (Inl (Runtime_error ''file is not open''), fw)
      else (case write_file_async_owned os (fl_fd (fst fw)) data offset (snd fw) of (r, w) \<Rightarrow> (r, fst fw, w)))"

definition file_write_some_at :: "'w uv_fs \<Rightarrow> string \<Rightarrow> int \<Rightarrow> 'w file_world \<Rightarrow> nat result \<times> 'w file_world" where
  "file_write_some_at os data offset fw =
     (if \<not> file_is_open (fst fw) then (Inl (Runtime_error ''file is not open''), fw)
      else (case write_file_async os (fl_fd (fst fw)) data offset (snd fw) of (r, w) \<Rightarrow> (r, fst fw, w)))"

text \<open>The operations that move the file's own offset.\<close>

definition file_read_some :: "'w uv_fs \<Rightarrow> nat \<Rightarrow> 'w file_world \<Rightarrow> string result \<times> 'w file_world" where
  "file_read_some os max_bytes fw =
     (case file_read_at os max_bytes (fl_offset (fst fw)) fw of
        (Inl e, fw) \<Rightarrow> (Inl e, fw)
      | (Inr data, f, w) \<Rightarrow> (Inr data, f\<lparr>fl_offset := fl_offset f + int (length data)\<rparr>, w))"

definition file_read :: "'w uv_fs \<Rightarrow> nat \<Rightarrow> 'w file_world \<Rightarrow> string result \<times> 'w file_world" where
  "file_read os max_bytes fw = file_read_some os max_bytes fw"

definition file_read_some_into :: "'w uv_fs \<Rightarrow> nat \<Rightarrow> 'w file_world \<Rightarrow> string result \<times> 'w file_world" where
  "file_read_some_into os buffer_size fw =
     (case file_read_at_into os buffer_size (fl_offset (fst fw)) fw of
        (Inl e, fw) \<Rightarrow> (Inl e, fw)
      | (Inr bytes, f, w) \<Rightarrow> (Inr bytes, f\<lparr>fl_offset := fl_offset f + int (length bytes)\<rparr>, w))"

definition file_write :: "'w uv_fs \<Rightarrow> string \<Rightarrow> 'w file_world \<Rightarrow> nat result \<times> 'w file_world" where
  "file_write os data fw =
     (case file_write_at os data (fl_offset (fst fw)) fw of
        (Inl e, fw) \<Rightarrow> (Inl e, fw)
      | (Inr written, f, w) \<Rightarrow> (Inr written, f\<lparr>fl_offset := fl_offset f + int written\<rparr>, w))"

definition file_write_some :: "'w uv_fs \<Rightarrow> string \<Rightarrow> 'w file_world \<Rightarrow> nat result \<times> 'w file_world" where
  "file_write_some os data fw =
     (case file_write_some_at os data (fl_offset (fst fw)) fw of
        (Inl e, fw) \<Rightarrow> (Inl e, fw)
      | (Inr written, f, w) \<Rightarrow> (Inr written, f\<lparr>fl_offset := fl_offset f + int written\<rparr>, w))"

function file_read_exact_loop :: "'w uv_fs \<Rightarrow> nat \<Rightarrow> string \<Rightarrow> 'w file_world \<Rightarrow> string result \<times> 'w file_world" where
  "file_read_exact_loop os total_bytes out fw =
     (if length out < total_bytes then
        if os_stop os (snd fw) then (Inl Operation_cancelled, fw)
        else (case file_read_some os (total_bytes - length out) fw of
                (Inl e, fw) \<Rightarrow> (Inl e, fw)
              | (Inr chunk, fw) \<Rightarrow>
                  if chunk = [] then (Inr out, fw) else file_read_exact_loop os total_bytes (out @ chunk) fw)
      else (Inr out, fw))"
  by pat_completeness auto
termination
  by (relation "measure (\<lambda>(os, total_bytes, out, fw). total_bytes - length out)")
     (auto simp: length_greater_0_conv [symmetric] simp del: length_greater_0_conv)

declare file_read_exact_loop.simps [simp del]

definition file_read_exact :: "'w uv_fs \<Rightarrow> nat \<Rightarrow> 'w file_world \<Rightarrow> string result \<times> 'w file_world" where
  "file_read_exact os total_bytes fw = file_read_exact_loop os total_bytes [] fw"

function file_read_exact_into_loop :: "'w uv_fs \<Rightarrow> nat \<Rightarrow> string \<Rightarrow> 'w file_world \<Rightarrow> (nat \<times> string) result \<times> 'w file_world" where
  "file_read_exact_into_loop os buffer_size got fw =
     (if length got < buffer_size then
        if os_stop os (snd fw) then (Inl Operation_cancelled, fw)
        else (case file_read_some_into os (buffer_size - length got) fw of
                (Inl e, fw) \<Rightarrow> (Inl e, fw)
              | (Inr chunk, fw) \<Rightarrow>
                  if length chunk = 0 then (Inr (length got, got), fw)
                  else file_read_exact_into_loop os buffer_size (got @ chunk) fw)
      else (Inr (length got, got), fw))"
  by pat_completeness auto
termination
  by (relation "measure (\<lambda>(os, buffer_size, got, fw). buffer_size - length got)")
     (auto simp: length_greater_0_conv [symmetric] simp del: length_greater_0_conv)

declare file_read_exact_into_loop.simps [simp del]

partial_function (option) file_read_all_loop :: "'w uv_fs \<Rightarrow> string \<Rightarrow> 'w file_world \<Rightarrow> (string result \<times> 'w file_world) option" where
  "file_read_all_loop os out fw =
     (if os_stop os (snd fw) then Some (Inl Operation_cancelled, fw)
      else (case fst (file_read os (64 * 1024) fw) of
              Inl e \<Rightarrow> Some (Inl e, snd (file_read os (64 * 1024) fw))
            | Inr chunk \<Rightarrow>
                if chunk = [] then Some (Inr out, snd (file_read os (64 * 1024) fw))
                else file_read_all_loop os (out @ chunk) (snd (file_read os (64 * 1024) fw))))"

declare file_read_all_loop.simps [code]

definition file_read_all :: "'w uv_fs \<Rightarrow> 'w file_world \<Rightarrow> (string result \<times> 'w file_world) option" where
  "file_read_all os fw = file_read_all_loop os [] fw"

definition file_truncate :: "'w uv_fs \<Rightarrow> int \<Rightarrow> 'w file_world \<Rightarrow> unit result \<times> 'w file_world" where
  "file_truncate os len fw =
     (let f = fst fw in
      if \<not> file_is_open f then (Inl (Runtime_error ''file is not open''), fw)
      else (case ftruncate_file os (fl_fd f) len (snd fw) of
              (Inl e, w) \<Rightarrow> (Inl e, f, w)
            | (Inr _, w) \<Rightarrow> (Inr (), (if len < fl_offset f then f\<lparr>fl_offset := len\<rparr> else f), w)))"

end
