(* ===== verification/Fs_Functions.thy ===== *)
theory Fs_Functions
  imports File_Ops
begin

unbundle bit_operations_syntax

text \<open>
  The functions of \<open>namespace fs\<close> (\<open>src/fs.cpp\<close>), the flag types of \<open>include/luvcoro/fs.hpp\<close> and the
  properties of reading and writing whole files.
\<close>

section \<open>Status and flags\<close>

definition st_kind :: "uv_stat \<Rightarrow> 32 word" where
  "st_kind s = st_mode s AND 0xF000"

definition status_is_directory :: "uv_stat \<Rightarrow> bool" where
  "status_is_directory s \<longleftrightarrow> st_kind s = 0x4000"

definition status_is_regular_file :: "uv_stat \<Rightarrow> bool" where
  "status_is_regular_file s \<longleftrightarrow> st_kind s = 0x8000"

definition status_is_symbolic_link :: "uv_stat \<Rightarrow> bool" where
  "status_is_symbolic_link s \<longleftrightarrow> st_kind s = 0xA000"

definition copy_flags_or :: "32 word \<Rightarrow> 32 word \<Rightarrow> 32 word" where
  "copy_flags_or lhs rhs = lhs OR rhs"

definition copy_flags_and_assign :: "32 word \<Rightarrow> 32 word \<Rightarrow> 32 word" where
  "copy_flags_and_assign lhs rhs = copy_flags_or lhs rhs"

definition symlink_flags_or :: "32 word \<Rightarrow> 32 word \<Rightarrow> 32 word" where
  "symlink_flags_or lhs rhs = lhs OR rhs"

definition symlink_flags_and_assign :: "32 word \<Rightarrow> 32 word \<Rightarrow> 32 word" where
  "symlink_flags_and_assign lhs rhs = symlink_flags_or lhs rhs"

text \<open>The operator written \<open>&=\<close> does not clear a flag.\<close>

lemma flags_and_assign_is_or:
  "copy_flags_and_assign 3 1 = 3" "symlink_flags_and_assign 3 1 = 3" "(3 :: 32 word) AND 1 = 1"
  by (simp_all add: copy_flags_and_assign_def copy_flags_or_def symlink_flags_and_assign_def symlink_flags_or_def)

section \<open>Queries\<close>

definition fs_stat :: "'w uv_fs \<Rightarrow> string \<Rightarrow> 'w \<Rightarrow> uv_stat result \<times> 'w" where
  "fs_stat os path w = stat_path os path w"

definition fs_lstat :: "'w uv_fs \<Rightarrow> string \<Rightarrow> 'w \<Rightarrow> uv_stat result \<times> 'w" where
  "fs_lstat os path w = lstat_path os path w"

definition fs_exists :: "'w uv_fs \<Rightarrow> string \<Rightarrow> 'w \<Rightarrow> bool result \<times> 'w" where
  "fs_exists os path w =
     (case fs_stat os path w of
        (Inr _, w) \<Rightarrow> (Inr True, w)
      | (Inl (Uv_error code op_name), w) \<Rightarrow> (if code = UV_ENOENT then Inr False else Inl (Uv_error code op_name), w)
      | (Inl e, w) \<Rightarrow> (Inl e, w))"

definition fs_is_directory :: "'w uv_fs \<Rightarrow> string \<Rightarrow> 'w \<Rightarrow> bool result \<times> 'w" where
  "fs_is_directory os path w =
     (case fs_stat os path w of
        (Inl e, w) \<Rightarrow> (Inl e, w)
      | (Inr status, w) \<Rightarrow> (Inr (status_is_directory status), w))"

definition fs_file_size :: "'w uv_fs \<Rightarrow> string \<Rightarrow> 'w \<Rightarrow> (64 word) result \<times> 'w" where
  "fs_file_size os path w =
     (case fs_stat os path w of
        (Inl e, w) \<Rightarrow> (Inl e, w)
      | (Inr status, w) \<Rightarrow> (Inr (st_size status), w))"

definition fs_list_directory :: "'w uv_fs \<Rightarrow> string \<Rightarrow> 'w \<Rightarrow> directory_entry list result \<times> 'w" where
  "fs_list_directory os path w =
     (if os_stop os w then (Inl Operation_cancelled, w) else scandir_sync os path w)"

section \<open>Directories\<close>

definition fs_create_directory :: "'w uv_fs \<Rightarrow> string \<Rightarrow> int \<Rightarrow> 'w \<Rightarrow> unit result \<times> 'w" where
  "fs_create_directory os path mode w =
     (case mkdir_path os path mode w of
        (Inr _, w) \<Rightarrow> (Inr (), w)
      | (Inl e, w) \<Rightarrow>
          (if (case e of Uv_error code op_name \<Rightarrow> code = UV_EEXIST | _ \<Rightarrow> False)
           then (case fs_is_directory os path w of
                   (Inl e, w) \<Rightarrow> (Inl e, w)
                 | (Inr True, w) \<Rightarrow> (Inr (), w)
                 | (Inr False, w) \<Rightarrow> (Inl (Runtime_error (''path exists but is not a directory: '' @ path)), w))
           else (Inl e, w)))"

text \<open>
  \<open>std::filesystem::path\<close> on POSIX: the components of a path, \<open>lexically_normal\<close> and \<open>parent_path\<close>.
\<close>

fun path_split :: "string \<Rightarrow> string \<Rightarrow> string list" where
  "path_split acc [] = [acc]"
| "path_split acc (c # cs) = (if c = CHR 0x2F then acc # path_split [] cs else path_split (acc @ [c]) cs)"

fun path_join :: "string list \<Rightarrow> string" where
  "path_join [] = []"
| "path_join [c] = c"
| "path_join (c # cs) = c @ [CHR 0x2F] @ path_join cs"

text \<open>The components kept, the last one first: dots go, and a name goes with the dot-dot after it.\<close>

fun normal_step :: "bool \<Rightarrow> string list \<Rightarrow> string \<Rightarrow> string list" where
  "normal_step root kept c =
     (if c = [] \<or> c = ''.'' then kept
      else if c = ''..'' then
        (case kept of
           [] \<Rightarrow> if root then [] else [c]
         | k # ks \<Rightarrow> if k = ''..'' then c # kept else ks)
      else c # kept)"

definition lexically_normal :: "string \<Rightarrow> string" where
  "lexically_normal p =
     (if p = [] then []
      else
        let root = (hd p = CHR 0x2F);
            cs = path_split [] p;
            kept = fold (\<lambda>c kept. normal_step root kept c) cs [];
            body = path_join (rev kept);
            slash = (kept \<noteq> [] \<and> hd kept \<noteq> ''..'' \<and> last cs \<in> {[], ''.'', ''..''});
            out = (if root then [CHR 0x2F] else []) @ body @ (if slash then [CHR 0x2F] else [])
        in if out = [] then ''.'' else out)"

definition parent_path :: "string \<Rightarrow> string" where
  "parent_path p =
     (let rel = dropWhile ((=) (CHR 0x2F)) p in
      if rel = [] then p
      else
        let up = rev (dropWhile ((\<noteq>) (CHR 0x2F)) (rev p));
            cut = rev (dropWhile ((=) (CHR 0x2F)) (rev up))
        in if up \<noteq> [] \<and> cut = [] then [CHR 0x2F] else cut)"

text \<open>The recursion ends with the path's parents; a run that never returned would be \<open>None\<close>.\<close>

partial_function (option) fs_create_directories :: "'w uv_fs \<Rightarrow> int \<Rightarrow> string \<Rightarrow> 'w \<Rightarrow> (unit result \<times> 'w) option" where
  "fs_create_directories os mode path w =
     (let target = lexically_normal path in
      if target = [] then Some (Inr (), w)
      else (case fst (fs_exists os target w) of
        Inl e \<Rightarrow> Some (Inl e, snd (fs_exists os target w))
      | Inr there \<Rightarrow>
          (if there then Some (Inr (), snd (fs_exists os target w))
           else Option.bind
             (let w = snd (fs_exists os target w); parent = parent_path target in
              if parent = [] \<or> parent = target then Some (Inr (), w)
              else (case fst (fs_exists os parent w) of
                      Inl e \<Rightarrow> Some (Inl e, snd (fs_exists os parent w))
                    | Inr up \<Rightarrow>
                        (if up then Some (Inr (), snd (fs_exists os parent w))
                         else fs_create_directories os mode parent (snd (fs_exists os parent w)))))
             (\<lambda>rw. case rw of
                (Inl e, w) \<Rightarrow> Some (Inl e, w)
              | (Inr _, w) \<Rightarrow>
                  Some (case fs_exists os target w of
                          (Inl e, w) \<Rightarrow> (Inl e, w)
                        | (Inr True, w) \<Rightarrow> (Inr (), w)
                        | (Inr False, w) \<Rightarrow> fs_create_directory os target mode w)))))"

declare fs_create_directories.simps [code]

section \<open>Thin functions\<close>

definition fs_rename :: "'w uv_fs \<Rightarrow> string \<Rightarrow> string \<Rightarrow> 'w \<Rightarrow> unit result \<times> 'w" where
  "fs_rename os path new_path w = rename_path os path new_path w"

definition fs_copy_file :: "'w uv_fs \<Rightarrow> string \<Rightarrow> string \<Rightarrow> 32 word \<Rightarrow> 'w \<Rightarrow> unit result \<times> 'w" where
  "fs_copy_file os path new_path flags w = copy_file_path os path new_path flags w"

definition fs_create_hard_link :: "'w uv_fs \<Rightarrow> string \<Rightarrow> string \<Rightarrow> 'w \<Rightarrow> unit result \<times> 'w" where
  "fs_create_hard_link os path new_path w = link_path os path new_path w"

definition fs_create_symbolic_link :: "'w uv_fs \<Rightarrow> string \<Rightarrow> string \<Rightarrow> 32 word \<Rightarrow> 'w \<Rightarrow> unit result \<times> 'w" where
  "fs_create_symbolic_link os path new_path flags w = symlink_path os path new_path flags w"

definition fs_read_link :: "'w uv_fs \<Rightarrow> string \<Rightarrow> 'w \<Rightarrow> string result \<times> 'w" where
  "fs_read_link os path w = readlink_path os path w"

definition fs_real_path :: "'w uv_fs \<Rightarrow> string \<Rightarrow> 'w \<Rightarrow> string result \<times> 'w" where
  "fs_real_path os path w = realpath_path os path w"

definition fs_chmod :: "'w uv_fs \<Rightarrow> string \<Rightarrow> int \<Rightarrow> 'w \<Rightarrow> unit result \<times> 'w" where
  "fs_chmod os path mode w = chmod_path os path mode w"

definition fs_remove_file :: "'w uv_fs \<Rightarrow> string \<Rightarrow> 'w \<Rightarrow> unit result \<times> 'w" where
  "fs_remove_file os path w = unlink_path os path w"

definition fs_remove_directory :: "'w uv_fs \<Rightarrow> string \<Rightarrow> 'w \<Rightarrow> unit result \<times> 'w" where
  "fs_remove_directory os path w = rmdir_path os path w"

section \<open>Removing a tree\<close>

text \<open>The loop over entries: the token is asked before each one, and the first exception ends it.\<close>

fun for_each_entry :: "('w \<Rightarrow> bool) \<Rightarrow> (string \<Rightarrow> 'w \<Rightarrow> (unit result \<times> 'w) option) \<Rightarrow> string list \<Rightarrow> 'w
    \<Rightarrow> (unit result \<times> 'w) option" where
  "for_each_entry stop f [] w = Some (Inr (), w)"
| "for_each_entry stop f (p # ps) w =
     (if stop w then Some (Inl Operation_cancelled, w)
      else (case f p w of
              None \<Rightarrow> None
            | Some (Inl e, w) \<Rightarrow> Some (Inl e, w)
            | Some (Inr _, w) \<Rightarrow> for_each_entry stop f ps w))"

definition remove_leftover :: "'w uv_fs \<Rightarrow> (string \<Rightarrow> 'w \<Rightarrow> (unit result \<times> 'w) option) \<Rightarrow> string \<Rightarrow> 'w
    \<Rightarrow> (unit result \<times> 'w) option" where
  "remove_leftover os remove_all child w =
     (case os_symlink_status os child w of
        (Inl _, w) \<Rightarrow> Some (Inl (Runtime_error ''failed to inspect leftover directory entry''), w)
      | (Inr (is_symlink, is_dir), w) \<Rightarrow>
          (if is_symlink \<or> \<not> is_dir
           then (case os_remove os child w of
                   (True, w) \<Rightarrow> Some (Inr (), w)
                 | (False, w) \<Rightarrow> Some (Inl (Runtime_error ''failed to remove leftover directory entry''), w))
           else remove_all child w))"

text \<open>
  \<open>remove_all\<close>; the fuel bounds the depth of the tree, and \<open>None\<close> says that it was too small (the
  recursion of the source has no bound).
\<close>

fun fs_remove_all :: "nat \<Rightarrow> 'w uv_fs \<Rightarrow> string \<Rightarrow> 'w \<Rightarrow> (unit result \<times> 'w) option" where
  "fs_remove_all 0 os path w = None"
| "fs_remove_all (Suc fuel) os path w =
     (case fs_exists os path w of
        (Inl e, w) \<Rightarrow> Some (Inl e, w)
      | (Inr False, w) \<Rightarrow> Some (Inr (), w)
      | (Inr True, w) \<Rightarrow>
          (case fs_is_directory os path w of
             (Inl e, w) \<Rightarrow> Some (Inl e, w)
           | (Inr False, w) \<Rightarrow> Some (fs_remove_file os path w)
           | (Inr True, w) \<Rightarrow>
               (case scandir_sync os path w of
                  (Inl e, w) \<Rightarrow> Some (Inl e, w)
                | (Inr entries, w) \<Rightarrow>
                    (case for_each_entry (os_stop os) (fs_remove_all fuel os) (map (\<lambda>e. join_path path (de_name e)) entries) w of
                       None \<Rightarrow> None
                     | Some (Inl e, w) \<Rightarrow> Some (Inl e, w)
                     | Some (Inr _, w) \<Rightarrow>
                         (case fs_remove_directory os path w of
                            (Inr _, w) \<Rightarrow> Some (Inr (), w)
                          | (Inl e, w) \<Rightarrow>
                              (if (case e of Uv_error code op_name \<Rightarrow> code = UV_ENOTEMPTY | _ \<Rightarrow> False)
                               then (case os_leftovers os path w of
                                       (Inl e, w) \<Rightarrow> Some (Inl e, w)
                                     | (Inr leftovers, w) \<Rightarrow>
                                         (case for_each_entry (os_stop os) (remove_leftover os (fs_remove_all fuel os)) leftovers w of
                                            None \<Rightarrow> None
                                          | Some (Inl e, w) \<Rightarrow> Some (Inl e, w)
                                          | Some (Inr _, w) \<Rightarrow> Some (fs_remove_directory os path w)))
                               else Some (Inl e, w)))))))"

section \<open>Whole files\<close>

text \<open>The local \<open>file\<close> is destroyed at the end, also when an exception passes.\<close>

definition leave_file :: "'w uv_fs \<Rightarrow> 'r result \<Rightarrow> 'w file_world \<Rightarrow> 'r result \<times> 'w" where
  "leave_file os r fw = (r, snd (file_close_sync_noexcept os fw))"

definition fs_read_file :: "'w uv_fs \<Rightarrow> string \<Rightarrow> 'w \<Rightarrow> (string result \<times> 'w) option" where
  "fs_read_file os path w =
     (case file_open os path (O_RDONLY os) 0 (new_file, w) of
        (Inl e, fw) \<Rightarrow> Some (leave_file os (Inl e) fw)
      | (Inr _, fw) \<Rightarrow>
          (case file_read_all os fw of
             None \<Rightarrow> None
           | Some (Inl e, fw) \<Rightarrow> Some (leave_file os (Inl e) fw)
           | Some (Inr content, fw) \<Rightarrow>
               (case file_close os fw of
                  (Inl e, fw) \<Rightarrow> Some (leave_file os (Inl e) fw)
                | (Inr _, fw) \<Rightarrow> Some (leave_file os (Inr content) fw))))"

definition fs_write_file :: "'w uv_fs \<Rightarrow> string \<Rightarrow> string \<Rightarrow> int \<Rightarrow> 'w \<Rightarrow> unit result \<times> 'w" where
  "fs_write_file os path data mode w =
     (case file_open os path (O_CREAT os OR O_TRUNC os OR O_WRONLY os) mode (new_file, w) of
        (Inl e, fw) \<Rightarrow> leave_file os (Inl e) fw
      | (Inr _, fw) \<Rightarrow>
          (case file_write os data fw of
             (Inl e, fw) \<Rightarrow> leave_file os (Inl e) fw
           | (Inr _, fw) \<Rightarrow>
               (case file_close os fw of (r, fw) \<Rightarrow> leave_file os r fw)))"

definition fs_append_file :: "'w uv_fs \<Rightarrow> string \<Rightarrow> string \<Rightarrow> int \<Rightarrow> 'w \<Rightarrow> unit result \<times> 'w" where
  "fs_append_file os path data mode w =
     (case (case fs_exists os path w of
              (Inl e, w) \<Rightarrow> (Inl e, w)
            | (Inr False, w) \<Rightarrow> (Inr 0, w)
            | (Inr True, w) \<Rightarrow> fs_file_size os path w) of
        (Inl e, w) \<Rightarrow> (Inl e, w)
      | (Inr offset, w) \<Rightarrow>
          (case file_open os path (O_CREAT os OR O_WRONLY os) mode (new_file, w) of
             (Inl e, fw) \<Rightarrow> leave_file os (Inl e) fw
           | (Inr _, fw) \<Rightarrow>
               (case file_write_at os data (sint offset) fw of
                  (Inl e, fw) \<Rightarrow> leave_file os (Inl e) fw
                | (Inr _, fw) \<Rightarrow>
                    (case file_close os fw of (r, fw) \<Rightarrow> leave_file os r fw))))"

definition fs_sendfile :: "'w uv_fs \<Rightarrow> bool \<Rightarrow> int \<Rightarrow> nat \<Rightarrow> fs_file \<times> fs_file \<times> 'w \<Rightarrow> nat result \<times> fs_file \<times> fs_file \<times> 'w" where
  "fs_sendfile os same_runtime source_offset max_bytes tsw =
     (let (target, source, w) = tsw in
      if \<not> file_is_open target then (Inl (Runtime_error ''sendfile target is not open''), tsw)
      else if \<not> file_is_open source then (Inl (Runtime_error ''sendfile source is not open''), tsw)
      else if \<not> fl_runtime target \<or> \<not> fl_runtime source then (Inl (Runtime_error ''sendfile file has no runtime''), tsw)
      else if \<not> same_runtime then (Inl (Runtime_error ''sendfile requires source and target to use the same runtime''), tsw)
      else (case sendfile_async os (fl_fd target) (fl_offset target) (fl_fd source) source_offset max_bytes w of
              (Inl e, w) \<Rightarrow> (Inl e, target, source, w)
            | (Inr transferred, w) \<Rightarrow>
                (Inr transferred, file_seek (fl_offset target + int transferred) target,
                 file_seek (source_offset + int transferred) source, w)))"

definition fs_sendfile_here :: "'w uv_fs \<Rightarrow> bool \<Rightarrow> nat \<Rightarrow> fs_file \<times> fs_file \<times> 'w \<Rightarrow> nat result \<times> fs_file \<times> fs_file \<times> 'w" where
  "fs_sendfile_here os same_runtime max_bytes tsw = fs_sendfile os same_runtime (fl_offset (fst (snd tsw))) max_bytes tsw"

end
