(* ===== verification/Fs_Properties.thy ===== *)
theory Fs_Properties
  imports Fs_Functions
begin

text \<open>Properties of reading whole files, and what the error paths of \<open>src/fs.cpp\<close> do.\<close>

section \<open>Reading a whole file\<close>

text \<open>
  What \<open>pread\<close> promises for the descriptor \<open>fd\<close> of a file with the content \<open>c\<close>, in the worlds \<open>ok\<close>: some
  of the bytes at the offset, and none only at the end.
\<close>

definition reads_file :: "'w uv_fs \<Rightarrow> ('w \<Rightarrow> bool) \<Rightarrow> int \<Rightarrow> string \<Rightarrow> bool" where
  "reads_file os ok fd c \<longleftrightarrow>
     (\<forall>w. ok w \<longrightarrow> \<not> os_stop os w \<and> \<not> os_late os w) \<and>
     (\<forall>w n off. ok w \<longrightarrow> ok (snd (uv_fs_read os fd n (int off) w)) \<and>
        (0 < n \<longrightarrow> (\<exists>bs. fst (uv_fs_read os fd n (int off) w) = Inr bs \<and> length bs \<le> n \<and>
           bs = take (length bs) (drop off c) \<and> (bs = [] \<longrightarrow> length c \<le> off))))"

lemma file_read_chunk:
  assumes "reads_file os ok fd c" and "ok w" and "0 \<le> fd" and "f = \<lparr>fl_runtime = True, fl_fd = fd, fl_offset = int off\<rparr>"
  obtains bs w' where "file_read os (64 * 1024) (f, w) = (Inr bs, f\<lparr>fl_offset := int (off + length bs)\<rparr>, w')" "ok w'"
    "bs = take (length bs) (drop off c)" "bs = [] \<longrightarrow> length c \<le> off"
proof -
  have u: "uv_buf_len (64 * 1024) = 64 * 1024" by (simp add: uv_buf_len_def)
  obtain a w' where r: "uv_fs_read os fd (64 * 1024) (int off) w = (a, w')" by fastforce
  from assms(1,2) r have "ok w'" "\<not> os_stop os w" unfolding reads_file_def by (metis snd_conv)+
  moreover from assms(1) \<open>ok w'\<close> have "\<not> os_late os w'" unfolding reads_file_def by blast
  moreover have "(0::nat) < 64 * 1024" by simp
  with assms(1,2) have "\<exists>bs. fst (uv_fs_read os fd (64 * 1024) (int off) w) = Inr bs \<and> length bs \<le> 64 * 1024 \<and>
      bs = take (length bs) (drop off c) \<and> (bs = [] \<longrightarrow> length c \<le> off)" unfolding reads_file_def by blast
  then obtain bs where "a = Inr bs" "bs = take (length bs) (drop off c)" "bs = [] \<longrightarrow> length c \<le> off" unfolding r by auto
  ultimately show ?thesis
    using that [of bs w'] assms(3,4) r u
    by (simp add: file_read_def file_read_some_def file_read_at_def file_is_open_def read_file_async_def read_file_async_into_def
        fs_call_eq)
qed

lemma file_read_all_loop_whole:
  "reads_file os ok fd c \<Longrightarrow> ok w \<Longrightarrow> 0 \<le> fd \<Longrightarrow> off \<le> length c \<Longrightarrow> f = \<lparr>fl_runtime = True, fl_fd = fd, fl_offset = int off\<rparr> \<Longrightarrow>
   \<exists>f' w'. file_read_all_loop os out (f, w) = Some (Inr (out @ drop off c), f', w') \<and> ok w' \<and> fl_fd f' = fd \<and> fl_runtime f'"
proof (induction "length c - off" arbitrary: off w f out rule: less_induct)
  case less
  note eq = file_read_all_loop.simps [of os out "(f, w)"]
  from less.prems(1,2) have s: "\<not> os_stop os w" by (simp add: reads_file_def)
  from file_read_chunk [OF less.prems(1,2,3,5)] obtain bs w' where
    r: "file_read os (64 * 1024) (f, w) = (Inr bs, f\<lparr>fl_offset := int (off + length bs)\<rparr>, w')" and okw: "ok w'"
    and b: "bs = take (length bs) (drop off c)" and e: "bs = [] \<longrightarrow> length c \<le> off" by blast
  show ?case
  proof (cases "bs = []")
    case True
    with e have "drop off c = []" by simp
    with True r okw s eq less.prems(5) show ?thesis by auto
  next
    case False
    from b have l: "length bs \<le> length (drop off c)" by (metis length_take min.cobounded1 min.commute)
    have m: "length c - (off + length bs) < length c - off" "off + length bs \<le> length c" using False l less.prems(4) by (cases bs; simp)+
    have f': "f\<lparr>fl_offset := int (off + length bs)\<rparr> = \<lparr>fl_runtime = True, fl_fd = fd, fl_offset = int (off + length bs)\<rparr>"
      using less.prems(5) by simp
    from less.hyps [OF m(1) less.prems(1) okw less.prems(3) m(2) f', of "out @ bs"] obtain f'' w'' where
      run: "file_read_all_loop os (out @ bs) (f\<lparr>fl_offset := int (off + length bs)\<rparr>, w') = Some (Inr ((out @ bs) @ drop (off + length bs) c), f'', w'')"
      and k: "ok w''" "fl_fd f'' = fd" "fl_runtime f''" by blast
    have "bs @ drop (off + length bs) c = drop off c"
      by (metis b append_take_drop_id drop_drop add.commute)
    with run k r s eq False show ?thesis by auto
  qed
qed

text \<open>
  C23. \<open>fs::read_file\<close>: when the file can be opened, read and closed, and the token is not stopped, it
  returns the whole content, whatever pieces the operating system delivers it in. In particular its
  loop ends.
\<close>

theorem fs_read_file_whole:
  assumes "uv_fs_open os path (O_RDONLY os) 0 w = (Inr fd, w1)" and "0 \<le> fd" and "\<not> os_stop os w" and "ok w1"
    and "reads_file os ok fd c"
    and "\<forall>w. ok w \<longrightarrow> fst (uv_fs_close os fd w) = Inr () \<and> \<not> os_late os (snd (uv_fs_close os fd w))"
  shows "\<exists>w'. fs_read_file os path w = Some (Inr c, w')"
proof -
  from assms(4,5) have late: "\<not> os_late os w1" by (simp add: reads_file_def)
  let ?f = "\<lparr>fl_runtime = True, fl_fd = fd, fl_offset = int 0\<rparr>"
  have opened: "file_open os path (O_RDONLY os) 0 (new_file, w) = (Inr (), ?f, w1)"
    using assms(1,3) late by (simp add: file_open_def file_is_open_def new_file_def open_file_async_def fs_call_eq)
  from file_read_all_loop_whole [OF assms(5,4,2) _ refl, of 0 "[]"] obtain f' w2 where
    r: "file_read_all os (?f, w1) = Some (Inr c, f', w2)" "ok w2" "fl_fd f' = fd" "fl_runtime f'" by (auto simp: file_read_all_def)
  from r(2) assms(5) have s: "\<not> os_stop os w2" by (simp add: reads_file_def)
  obtain w3 where c: "uv_fs_close os fd w2 = (Inr (), w3)" "\<not> os_late os w3"
    using assms(6) r(2) by (metis prod.collapse)
  have "file_close os (f', w2) = (Inr (), f'\<lparr>fl_fd := - 1, fl_offset := 0\<rparr>, w3)"
    using r(3) assms(2) s c by (simp add: file_close_def file_is_open_def close_file_async_def fs_call_eq)
  with opened r(1) show ?thesis by (simp add: fs_read_file_def leave_file_def)
qed

section \<open>A small file system\<close>

text \<open>
  One file, that is read in pieces of at most two bytes; a directory \<open>/d\<close> with a symbolic link \<open>l\<close> to
  a directory outside, in which there is a file \<open>f\<close>. The world is the list of names removed so far
  and the count of descriptors closed.
\<close>

definition small_fs :: "string \<Rightarrow> (string list \<times> nat) uv_fs" where
  "small_fs c = \<lparr>
     os_stop = (\<lambda>w. False), os_late = (\<lambda>w. False), O_RDONLY = 0, O_WRONLY = 1, O_CREAT = 64, O_TRUNC = 512,
     uv_fs_open = (\<lambda>path flags mode w. (Inr 3, w)),
     uv_fs_close = (\<lambda>fd w. (Inr (), fst w, Suc (snd w))),
     uv_fs_read = (\<lambda>fd n off w. (Inr (take (min n 2) (drop (nat off) c)), w)),
     uv_fs_write = (\<lambda>fd data off w. (Inr (min 2 (length data)), w)),
     uv_fs_ftruncate = (\<lambda>fd n w. (Inr (), w)), uv_fs_sendfile = (\<lambda>a b off n w. (Inr 0, w)),
     uv_fs_stat = (\<lambda>path w. if path \<in> set (fst w) then (Inl UV_ENOENT, w)
        else (Inr \<lparr>st_mode = (if path = ''/d/l/f'' then 0x8000 else 0x4000), st_size = 0\<rparr>, w)),
     uv_fs_lstat = (\<lambda>path w. (Inr \<lparr>st_mode = (if path = ''/d/l'' then 0xA000 else 0x4000), st_size = 0\<rparr>, w)),
     uv_fs_mkdir = (\<lambda>path mode w. (Inl UV_EEXIST, w)),
     uv_fs_rmdir = (\<lambda>path w. (Inr (), path # fst w, snd w)),
     uv_fs_unlink = (\<lambda>path w. (Inr (), path # fst w, snd w)),
     uv_fs_rename = (\<lambda>a b w. (Inr (), w)), uv_fs_copyfile = (\<lambda>a b n w. (Inr (), w)), uv_fs_link = (\<lambda>a b w. (Inr (), w)),
     uv_fs_symlink = (\<lambda>a b n w. (Inr (), w)), uv_fs_readlink = (\<lambda>path w. (Inr None, w)), uv_fs_realpath = (\<lambda>path w. (Inr None, w)),
     uv_fs_chmod = (\<lambda>path n w. (Inr (), w)),
     uv_fs_scandir = (\<lambda>path w. (Inr [Inr \<lparr>de_name = (if path = ''/d'' then ''l'' else ''f''), de_type = Dirent_unknown\<rparr>], w)),
     os_dup = (\<lambda>fd w. (Inr fd, w)), os_lseek = (\<lambda>fd off w. (Uv_ok, w)), os_leftovers = (\<lambda>path w. (Inr [], w)),
     os_symlink_status = (\<lambda>path w. (Inr (False, True), w)), os_remove = (\<lambda>path w. (True, w))\<rparr>"

theorem fs_read_file_whole_witness:
  "\<exists>w'. fs_read_file (small_fs ''hello'') ''/f'' ([], 0) = Some (Inr ''hello'', w')"
proof -
  have "take (min n 2) (drop off c) = take (length (take (min n 2) (drop off c))) (drop off c)" for n off and c :: string
    by (simp add: min_def)
  then have "reads_file (small_fs ''hello'') (\<lambda>w. True) 3 ''hello''"
    unfolding reads_file_def by (auto simp: small_fs_def)
  with fs_read_file_whole [of "small_fs ''hello''" "''/f''" "([], 0)" 3 "([], 0)" "\<lambda>w. True" "''hello''"]
  show ?thesis by (simp add: small_fs_def)
qed

section \<open>What goes wrong\<close>

text \<open>
  \<open>fs::write_file\<close> awaits one \<open>write\<close> and drops its result: when the system writes less than it was
  asked to, the call ends normally and the file is cut.
\<close>

lemma fs_write_file_ignores_short_write:
  assumes "uv_fs_open os path (O_CREAT os OR O_TRUNC os OR O_WRONLY os) mode w = (Inr fd, w1)" and "0 \<le> fd" and "data \<noteq> []"
    and "uv_fs_write os fd (uv_buf_init data) 0 w1 = (Inr k, w2)" and "uv_fs_close os fd w2 = (Inr (), w3)"
    and "\<forall>w. \<not> os_stop os w \<and> \<not> os_late os w"
  shows "fs_write_file os path data mode w = (Inr (), w3)"
  using assms
  by (simp add: fs_write_file_def file_open_def file_is_open_def new_file_def open_file_async_def fs_call_eq file_write_def file_write_at_def
      write_file_async_owned_def write_file_async_def file_close_def close_file_async_def leave_file_def file_close_sync_noexcept_def)

text \<open>
  \<open>file::close\<close> with a stopped token forgets the descriptor before its request is refused: nothing
  closes it any more.
\<close>

lemma file_close_stopped_leaks:
  assumes "file_is_open f" and "os_stop os w"
  shows "file_close os (f, w) = (Inl Operation_cancelled, f\<lparr>fl_fd := - 1, fl_offset := 0\<rparr>, w) \<and>
    file_close_sync_noexcept os (snd (file_close os (f, w))) = (f\<lparr>fl_fd := - 1, fl_offset := 0\<rparr>, w)"
  using assms by (simp add: file_close_def close_file_async_def fs_call_eq file_close_sync_noexcept_def)

text \<open>
  \<open>fs::remove_all\<close> asks \<open>stat\<close>, which follows symbolic links: a link to a directory is taken for a
  directory, and the files in the directory it points to are removed.
\<close>

lemma fs_remove_all_follows_links:
  "map_option (fst \<circ> snd) (fs_remove_all 4 (small_fs []) ''/d'' ([], 0)) = Some [''/d'', ''/d/l'', ''/d/l/f'']"
  by code_simp

end
