(* ===== verification/Task_Scope.thy ===== *)
theory Task_Scope
  imports Channel_Ops
begin

text \<open>
  \<open>task_scope\<close> of \<open>include/luvcoro/task_scope.hpp\<close>: children run as detached coroutines, each
  reports its end over a channel of \<open>std::monostate\<close>, and \<open>join\<close> receives from that channel until
  no child is active. The scope is built on the model of \<open>message_channel\<close> in \<open>Channel_Ops\<close>.
\<close>

section \<open>State\<close>

text \<open>
  The shared \<open>state\<close> of a scope. \<open>ts_stop\<close> tells whether its stop source has been asked to stop.
  Every \<open>recv\<close> and \<open>async_send\<close> has a waiter of its own, numbered by \<open>ts_recvs\<close> and \<open>ts_sends\<close>.
\<close>

record scope_state =
  ts_active :: nat
  ts_first_exception :: "exn option"
  ts_stop :: bool
  ts_completions :: "unit chan_world"
  ts_recvs :: nat
  ts_sends :: nat

definition task_scope_new :: "uv_status \<Rightarrow> scope_state result" where
  "task_scope_new init_rc =
     (case construct_channel init_rc 0 of
        Inl e \<Rightarrow> Inl e
      | Inr c \<Rightarrow> Inr \<lparr>ts_active = 0, ts_first_exception = None, ts_stop = False, ts_completions = c,
                    ts_recvs = 0, ts_sends = 0\<rparr>)"

definition scope_request_stop :: "scope_state \<Rightarrow> scope_state" where
  "scope_request_stop s = s\<lparr>ts_stop := True\<rparr>"

section \<open>Children\<close>

text \<open>
  What \<open>run_child\<close> does once its task has ended with \<open>r\<close>: the first exception is kept and stops the
  others; the child that leaves the scope empty closes the channel, every other one sends. The
  channel has no capacity limit, so the send does not suspend. An exception that leaves \<open>run_child\<close>
  ends in the detached coroutine that runs it.
\<close>

definition run_child_catch :: "unit result \<Rightarrow> scope_state \<Rightarrow> scope_state" where
  "run_child_catch r s =
     (case r of
        Inr _ \<Rightarrow> s
      | Inl e \<Rightarrow> scope_request_stop
          (if ts_first_exception s = None then s\<lparr>ts_first_exception := Some e\<rparr> else s))"

definition run_child_end :: "bool \<Rightarrow> unit result \<Rightarrow> scope_state \<Rightarrow> unit awaited \<times> scope_state" where
  "run_child_end is_loop_thread r s =
     (let s = run_child_catch r s;
          s = s\<lparr>ts_active := ts_active s - 1\<rparr>
      in if ts_active s = 0
         then (case close_channel (ts_completions s) of (x, c) \<Rightarrow> (Continues x, s\<lparr>ts_completions := c\<rparr>))
         else (case channel_async_send is_loop_thread (ts_sends s) () (ts_completions s) of
                 (x, c) \<Rightarrow> (x, s\<lparr>ts_completions := c, ts_sends := Suc (ts_sends s)\<rparr>)))"

text \<open>
  \<open>spawn_impl\<close>: the child is counted and started. \<open>first_run\<close> is what its task does then: \<open>Some r\<close>
  when it ends with \<open>r\<close> before it suspends, \<open>None\<close> when it suspends.
\<close>

definition spawn_impl :: "bool \<Rightarrow> unit result option \<Rightarrow> scope_state \<Rightarrow> scope_state" where
  "spawn_impl is_loop_thread first_run s =
     (let s = s\<lparr>ts_active := Suc (ts_active s)\<rparr>
      in case first_run of
           None \<Rightarrow> s
         | Some r \<Rightarrow> snd (run_child_end is_loop_thread r s))"

section \<open>Joining\<close>

text \<open>
  What a call of \<open>join\<close> has reached: it waits for the receiver \<open>w\<close>, or it has ended.
  \<open>jn_registered\<close> tells whether its stop callback is registered, \<open>jn_cancelled\<close> is the local
  variable.
\<close>

record join_call =
  jn_cancelled :: bool
  jn_registered :: bool

datatype join_point = Join_waits nat | Joined "unit result"

text \<open>What \<open>join\<close> returns or throws once no child is active.\<close>

definition join_result :: "bool \<Rightarrow> scope_state \<Rightarrow> unit result" where
  "join_result cancelled s =
     (case ts_first_exception s of
        Some e \<Rightarrow> Inl e
      | None \<Rightarrow> if cancelled then Inl Operation_cancelled else Inr ())"

text \<open>The handler around \<open>recv\<close>: it rethrows while a child is active.\<close>

definition join_catch :: "exn \<Rightarrow> join_call \<Rightarrow> scope_state \<Rightarrow> unit result" where
  "join_catch e j s = (if ts_active s = 0 then join_result (jn_cancelled j) s else Inl e)"

text \<open>The stop callback: ask the children to stop and wake \<open>join\<close>; what \<open>send\<close> throws is swallowed.\<close>

definition join_stop_callback :: "bool \<Rightarrow> scope_state \<Rightarrow> scope_state" where
  "join_stop_callback loop_thread s =
     (let s = scope_request_stop s
      in s\<lparr>ts_completions := snd (blocking_send_pass loop_thread () (ts_completions s))\<rparr>)"

text \<open>
  The loop, run on the thread of the runtime, up to the next suspension; \<open>stopped\<close> is
  \<open>stop_token.stop_requested()\<close>.
\<close>

partial_function (option) join_loop :: "bool \<Rightarrow> join_call \<Rightarrow> scope_state \<Rightarrow> (join_point \<times> join_call \<times> scope_state) option" where
  "join_loop stopped j s =
     (let j = (if stopped then j\<lparr>jn_cancelled := True\<rparr> else j);
          s = (if stopped then scope_request_stop s else s)
      in if ts_active s = 0 then Some (Joined (join_result (jn_cancelled j) s), j, s)
         else (case recv True (ts_recvs s) (ts_completions s) of
                 (x, c) \<Rightarrow>
                   (let w = ts_recvs s;
                        s = s\<lparr>ts_completions := c, ts_recvs := Suc (ts_recvs s)\<rparr>
                    in case x of
                         Suspended \<Rightarrow> Some (Join_waits w, j, s)
                       | Continues (Inr _) \<Rightarrow> join_loop stopped j s
                       | Continues (Inl e) \<Rightarrow> Some (Joined (join_catch e j s), j, s))))"

declare join_loop.simps [code]

text \<open>
  \<open>join\<close>: when the token can be stopped the callback is registered, which runs it at once if the
  token is stopped already.
\<close>

definition scope_join :: "bool \<Rightarrow> bool \<Rightarrow> scope_state \<Rightarrow> (join_point \<times> join_call \<times> scope_state) option" where
  "scope_join stop_possible stopped s =
     join_loop (stop_possible \<and> stopped) \<lparr>jn_cancelled = False, jn_registered = stop_possible\<rparr>
       (if stop_possible \<and> stopped then join_stop_callback True s else s)"

text \<open>The receiver \<open>w\<close> that \<open>join\<close> waits for resumes it: the rest of \<open>recv\<close>, then the loop goes on.\<close>

definition join_resumed :: "bool \<Rightarrow> nat \<Rightarrow> join_call \<Rightarrow> scope_state \<Rightarrow> (join_point \<times> join_call \<times> scope_state) option" where
  "join_resumed stopped w j s =
     (case recv_await_resume True w no_effects (ts_completions s) of
        (x, c) \<Rightarrow>
          (let s = s\<lparr>ts_completions := c\<rparr>
           in case x of
                Inr _ \<Rightarrow> join_loop stopped j s
              | Inl e \<Rightarrow> Some (Joined (join_catch e j s), j, s)))"

definition cancel_and_join :: "scope_state \<Rightarrow> (join_point \<times> join_call \<times> scope_state) option" where
  "cancel_and_join s = scope_join False False (scope_request_stop s)"

text \<open>\<open>run_scoped\<close> up to the first suspension of its \<open>join\<close>.\<close>

definition run_scoped :: "uv_status \<Rightarrow> bool \<Rightarrow> bool \<Rightarrow> unit result option list
    \<Rightarrow> (join_point \<times> join_call \<times> scope_state) option result" where
  "run_scoped init_rc stop_possible stopped tasks =
     (case task_scope_new init_rc of
        Inl e \<Rightarrow> Inl e
      | Inr s \<Rightarrow> Inr (scope_join stop_possible stopped (fold (spawn_impl True) tasks s)))"

end
