(* ===== verification/Scope_Runs.thy ===== *)
theory Scope_Runs
  imports Task_Scope
begin

text \<open>
  Runs of a task scope: children spawned and ending on any thread, stop requests, one \<open>join\<close> at a
  time, and the turns of the event loop in between, in any order. What \<open>join\<close> answers, that it is
  woken when the scope is empty, and where it gives up while a child still runs.
\<close>

section \<open>The channel of a scope\<close>

text \<open>
  The states the scope's channel can be in: without limit, without waiting senders, and with at
  most the one receiver of \<open>join\<close>.
\<close>

definition chan_calm :: "unit chan_world \<Rightarrow> bool" where
  "chan_calm c \<longleftrightarrow> ch_capacity (cw_ch c) = 0 \<and> ch_sender_waiters (cw_ch c) = [] \<and> ch_handle_initialized (cw_ch c) \<and>
     ch_handle_closing (cw_ch c) = ch_closed (cw_ch c) \<and> (\<not> ch_closed (cw_ch c) \<longrightarrow> cw_async_open c) \<and> cw_async_rc c = Uv_ok \<and>
     \<not> rt_shutting_down (cw_rt c) \<and> rt_send_rc (cw_rt c) = Uv_ok \<and> set (rt_queue (cw_rt c)) \<subseteq> {Cj_close} \<and>
     (Cj_close \<in> set (rt_queue (cw_rt c)) \<longrightarrow> ch_closed (cw_ch c))"

definition chan_idle :: "unit chan_world \<Rightarrow> bool" where
  "chan_idle c \<longleftrightarrow> chan_calm c \<and> ch_receiver_waiters (cw_ch c) = []"

definition chan_waiting :: "nat \<Rightarrow> unit chan_world \<Rightarrow> bool" where
  "chan_waiting w c \<longleftrightarrow> chan_calm c \<and> ch_receiver_waiters (cw_ch c) = [w] \<and> ch_messages (cw_ch c) = [] \<and> \<not> ch_closed (cw_ch c) \<and>
     ch_receivers (cw_ch c) w = new_receiver\<lparr>rw_continuation := True\<rparr>"

text \<open>The receiver has what it waited for, and its coroutine has been resumed or will be.\<close>

definition woken_by :: "bool \<Rightarrow> nat \<Rightarrow> unit chan_world \<Rightarrow> bool" where
  "woken_by soon w c \<longleftrightarrow> Receiver w \<in> set (cw_resumed c) \<or> w \<in> set (ch_ready_receivers (cw_ch c)) \<and> soon"

definition chan_served :: "nat \<Rightarrow> unit chan_world \<Rightarrow> bool" where
  "chan_served w c \<longleftrightarrow> chan_idle c \<and> rw_exception (ch_receivers (cw_ch c) w) = None \<and> woken_by (cw_async_pending c) w c"

definition chan_ended :: "nat \<Rightarrow> unit chan_world \<Rightarrow> bool" where
  "chan_ended w c \<longleftrightarrow> chan_idle c \<and> ch_closed (cw_ch c) \<and> rw_exception (ch_receivers (cw_ch c) w) = Some Closed_error \<and>
     woken_by (Cj_close \<in> set (rt_queue (cw_rt c))) w c"

definition chan_phase :: "nat option \<Rightarrow> unit chan_world \<Rightarrow> bool" where
  "chan_phase p c \<longleftrightarrow>
     (case p of None \<Rightarrow> chan_idle c | Some w \<Rightarrow> chan_waiting w c \<or> chan_served w c \<or> chan_ended w c)"

text \<open>The receivers that have been completed so far.\<close>

definition woken_set :: "unit chan_world \<Rightarrow> nat set" where
  "woken_set c = {v. Receiver v \<in> set (cw_resumed c)} \<union> set (ch_ready_receivers (cw_ch c))"

lemmas scope_chan_defs = chan_calm_def chan_idle_def chan_waiting_def chan_served_def chan_ended_def woken_by_def

lemmas chan_op_defs = pruned_receivers_def pruned_senders_def pump_locked_def pop_receiver_waiter_locked_def
  pop_sender_waiter_locked_def has_waiting_receivers_locked_def has_waiting_senders_locked_def has_buffer_capacity_locked_def
  can_send_now_locked_def complete_receiver_value_locked_def complete_receiver_exception_locked_def complete_receiver_def
  no_effects_def finalize_after_unlock_def cancel_timers_def notify_ready_waiters_def flush_ready_waiters_def Let_def

lemma waiting_not_idle: "chan_idle c \<Longrightarrow> \<not> chan_waiting w c" "chan_served w c \<Longrightarrow> \<not> chan_waiting v c" "chan_ended w c \<Longrightarrow> \<not> chan_waiting v c"
  by (simp_all add: scope_chan_defs)

lemma ended_closed: "chan_ended w c \<Longrightarrow> ch_closed (cw_ch c)"
  by (simp add: chan_ended_def)

text \<open>\<open>recv\<close> on a channel no one waits on.\<close>

lemma recv_value:
  assumes "chan_idle c" and "ch_messages (cw_ch c) = v # vs"
  shows "\<exists>c'. recv True w c = (Continues (Inr v), c') \<and> chan_idle c' \<and> ch_messages (cw_ch c') = vs \<and>
    ch_closed (cw_ch c') = ch_closed (cw_ch c) \<and> woken_set c' = woken_set c"
  using assms
  by (auto simp: woken_set_def scope_chan_defs recv_def try_recv_locked_def recv_await_resume_def chan_op_defs new_receiver_def
      pump_receivers.simps pump_senders.simps)

lemma recv_closed:
  assumes "chan_idle c" and "ch_messages (cw_ch c) = []" and "ch_closed (cw_ch c)"
  shows "\<exists>c'. recv True w c = (Continues (Inl Closed_error), c') \<and> chan_idle c' \<and> ch_messages (cw_ch c') = [] \<and>
    ch_closed (cw_ch c') \<and> woken_set c' = woken_set c"
  using assms
  by (auto simp: woken_set_def scope_chan_defs recv_def try_recv_locked_def recv_await_resume_def chan_op_defs new_receiver_def)

lemma recv_empty:
  assumes "chan_idle c" and "ch_messages (cw_ch c) = []" and "\<not> ch_closed (cw_ch c)"
  shows "\<exists>c'. recv True w c = (Suspended, c') \<and> chan_waiting w c' \<and> woken_set c' = woken_set c"
  using assms
  by (auto simp: woken_set_def scope_chan_defs recv_def try_recv_locked_def recv_await_suspend_def chan_op_defs new_receiver_def)

text \<open>Sending never suspends: the message is buffered, or given to the receiver that waits.\<close>

definition quiet :: "unit chan_world \<Rightarrow> unit chan_world \<Rightarrow> bool" where
  "quiet c c' \<longleftrightarrow> (chan_idle c \<longrightarrow> chan_idle c') \<and> ch_closed (cw_ch c') = ch_closed (cw_ch c) \<and>
     ch_receivers (cw_ch c') = ch_receivers (cw_ch c) \<and> ch_ready_receivers (cw_ch c') = ch_ready_receivers (cw_ch c) \<and>
     cw_resumed c' = cw_resumed c \<and> cw_async_pending c' = cw_async_pending c \<and> cw_rt c' = cw_rt c"

lemmas send_defs = chan_op_defs channel_async_send_def async_send_attempt_def async_send_await_resume_def
  async_send_await_suspend_def take_sender_value_def place_send_locked_def new_sender_def
  blocking_send_pass_def send_refused_def

lemma send_idle:
  assumes "chan_idle c"
  shows "\<exists>r c'. channel_async_send b s () c = (Continues r, c') \<and> quiet c c'"
    and "\<exists>r c'. blocking_send_pass b () c = (r, c') \<and> r \<noteq> Send_waits \<and> quiet c c'"
  using assms by (auto simp: quiet_def scope_chan_defs send_defs)

lemma send_waiting:
  assumes "chan_waiting w c"
  shows "\<exists>c'. channel_async_send b s () c = (Continues (Inr ()), c') \<and> chan_served w c' \<and> \<not> ch_closed (cw_ch c') \<and>
      woken_set c' = insert w (woken_set c)"
    and "\<exists>c'. blocking_send_pass b () c = (Send_done, c') \<and> chan_served w c' \<and> \<not> ch_closed (cw_ch c') \<and>
      woken_set c' = insert w (woken_set c)"
  using assms by (auto simp: woken_set_def scope_chan_defs send_defs new_receiver_def)

text \<open>Closing ends the wait of the receiver with \<open>closed_error\<close>; the loop then resumes it.\<close>

lemmas close_defs = chan_op_defs close_channel_def close_locked_def close_receivers.simps close_senders.simps post_def async_send_def

lemma close_idle:
  assumes "chan_idle c"
  shows "\<exists>r c'. close_channel c = (r, c') \<and> chan_idle c' \<and> ch_closed (cw_ch c') \<and> woken_set c' = woken_set c \<and>
    ch_receivers (cw_ch c') = ch_receivers (cw_ch c) \<and> (\<forall>w. woken_by (cw_async_pending c) w c \<longrightarrow> woken_by (cw_async_pending c') w c') \<and>
    (\<forall>w. woken_by (Cj_close \<in> set (rt_queue (cw_rt c))) w c \<longrightarrow> woken_by (Cj_close \<in> set (rt_queue (cw_rt c'))) w c')"
  using assms by (auto simp: woken_set_def scope_chan_defs close_defs)

lemma close_waiting:
  assumes "chan_waiting w c"
  shows "\<exists>r c'. close_channel c = (r, c') \<and> chan_ended w c' \<and> woken_set c' = insert w (woken_set c)"
  using assms by (auto simp: woken_set_def scope_chan_defs close_defs new_receiver_def)

lemma flush_idle:
  "chan_idle c \<Longrightarrow> chan_idle (flush_ready_waiters c)"
  "woken_set (flush_ready_waiters c) = woken_set c"
  "w \<in> woken_set c \<Longrightarrow> Receiver w \<in> set (cw_resumed (flush_ready_waiters c))"
  by (auto simp: woken_set_def scope_chan_defs flush_ready_waiters_def)

section \<open>Each phase through the operations\<close>

text \<open>The waiter of the phase stays the only new one that is completed.\<close>

definition phase_step :: "nat option \<Rightarrow> unit chan_world \<Rightarrow> unit chan_world \<Rightarrow> bool" where
  "phase_step p c c' \<longleftrightarrow> chan_phase p c' \<and> woken_set c' \<subseteq> woken_set c \<union> set_option p \<and>
     (ch_closed (cw_ch c) \<longrightarrow> ch_closed (cw_ch c')) \<and>
     (\<forall>w. p = Some w \<longrightarrow> chan_waiting w c' \<longrightarrow> chan_waiting w c \<and> woken_set c' \<subseteq> woken_set c)"

lemma phase_quiet:
  assumes "chan_phase p c" and "quiet c c'" and "\<And>w. p = Some w \<Longrightarrow> \<not> chan_waiting w c"
  shows "phase_step p c c'"
  using assms by (cases p) (auto simp: phase_step_def chan_phase_def quiet_def chan_served_def chan_ended_def woken_by_def woken_set_def waiting_not_idle)

lemma not_waiting_idle: "chan_phase p c \<Longrightarrow> (\<And>w. p = Some w \<Longrightarrow> \<not> chan_waiting w c) \<Longrightarrow> chan_idle c"
  by (cases p) (auto simp: chan_phase_def chan_served_def chan_ended_def)

lemma phase_served:
  "chan_waiting w c \<Longrightarrow> chan_served w c' \<Longrightarrow> \<not> ch_closed (cw_ch c') \<Longrightarrow> woken_set c' = insert w (woken_set c) \<Longrightarrow>
     phase_step (Some w) c c' \<and> ch_closed (cw_ch c') = ch_closed (cw_ch c)"
  by (auto simp: phase_step_def chan_phase_def waiting_not_idle) (simp add: chan_waiting_def)+

lemma phase_cases:
  assumes "chan_phase p c"
  obtains (waiting) w where "p = Some w" "chan_waiting w c"
  | (idle) "chan_idle c" "\<And>c'. quiet c c' \<Longrightarrow> phase_step p c c'"
proof (cases "\<exists>w. p = Some w \<and> chan_waiting w c")
  case True
  with waiting show thesis by blast
next
  case False
  then have n: "\<And>w. p = Some w \<Longrightarrow> \<not> chan_waiting w c" by blast
  show thesis by (rule idle [OF not_waiting_idle [OF assms n] phase_quiet [OF assms _ n]])
qed

lemma send_phase:
  assumes "chan_phase p c"
  shows "\<exists>r c'. channel_async_send b s () c = (Continues r, c') \<and> phase_step p c c' \<and> ch_closed (cw_ch c') = ch_closed (cw_ch c)"
  using assms
proof (cases rule: phase_cases)
  case waiting
  with send_waiting(1) [OF waiting(2), of b s] phase_served [OF waiting(2)] show ?thesis by blast
next
  case idle
  with send_idle(1) [OF idle(1), of b s] show ?thesis unfolding quiet_def by blast
qed

lemma blocking_send_phase:
  assumes "chan_phase p c"
  shows "\<exists>r c'. blocking_send_pass b () c = (r, c') \<and> r \<noteq> Send_waits \<and> phase_step p c c' \<and>
    ch_closed (cw_ch c') = ch_closed (cw_ch c)"
  using assms
proof (cases rule: phase_cases)
  case waiting
  with send_waiting(2) [OF waiting(2), of b] phase_served [OF waiting(2)] show ?thesis by blast
next
  case idle
  with send_idle(2) [OF idle(1), of b] show ?thesis unfolding quiet_def by blast
qed

lemma close_phase:
  assumes "chan_phase p c"
  shows "\<exists>r c'. close_channel c = (r, c') \<and> phase_step p c c' \<and> ch_closed (cw_ch c') \<and> (\<forall>w. \<not> chan_waiting w c')"
proof (cases "\<exists>w. p = Some w \<and> chan_waiting w c")
  case True
  then obtain w where w: "p = Some w" "chan_waiting w c" by blast
  from close_waiting [OF w(2)] w(1) show ?thesis
    by (auto simp: phase_step_def chan_phase_def waiting_not_idle ended_closed)
next
  case False
  then have n: "\<And>w. p = Some w \<Longrightarrow> \<not> chan_waiting w c" by blast
  from close_idle [OF not_waiting_idle [OF assms n]] obtain r c' where c: "close_channel c = (r, c')" "chan_idle c'"
    "ch_closed (cw_ch c')" "woken_set c' = woken_set c" "ch_receivers (cw_ch c') = ch_receivers (cw_ch c)"
    "\<And>w. woken_by (cw_async_pending c) w c \<Longrightarrow> woken_by (cw_async_pending c') w c'"
    "\<And>w. woken_by (Cj_close \<in> set (rt_queue (cw_rt c))) w c \<Longrightarrow> woken_by (Cj_close \<in> set (rt_queue (cw_rt c'))) w c'"
    by blast
  from assms False c(2-7) have "phase_step p c c'"
    by (cases p) (auto simp: phase_step_def chan_phase_def chan_served_def chan_ended_def waiting_not_idle)
  with c(1,3) show ?thesis by (auto simp: chan_waiting_def)
qed

lemma phase_flush:
  assumes "chan_phase p c"
  shows "phase_step p c (flush_ready_waiters c)" and "ch_closed (cw_ch (flush_ready_waiters c)) = ch_closed (cw_ch c)"
    and "chan_waiting w c \<Longrightarrow> chan_waiting w (flush_ready_waiters c)"
    and "w \<in> woken_set c \<Longrightarrow> Receiver w \<in> set (cw_resumed (flush_ready_waiters c))"
  using assms
  by (auto simp: phase_step_def chan_phase_def woken_set_def scope_chan_defs flush_ready_waiters_def split: option.splits)

lemma phase_job:
  assumes "chan_phase p c"
  shows "phase_step p c (chan_job_step i k c)" and "ch_closed (cw_ch (chan_job_step i k c)) = ch_closed (cw_ch c)"
proof -
  have "phase_step p c (chan_job_step i k c) \<and> ch_closed (cw_ch (chan_job_step i k c)) = ch_closed (cw_ch c)"
  proof (cases "rt_queue (cw_rt c)")
    case Nil
    with assms show ?thesis by (simp add: chan_job_step_def phase_step_def)
  next
    case (Cons j js)
    from assms have "chan_calm c" by (cases p) (auto simp: chan_phase_def scope_chan_defs)
    with Cons have "j = Cj_close" "ch_closed (cw_ch c)" "set js \<subseteq> {Cj_close}" by (auto simp: chan_calm_def)
    with assms Cons show ?thesis
      by (cases p) (auto simp: phase_step_def chan_phase_def woken_set_def scope_chan_defs flush_ready_waiters_def chan_job_step_def close_job_def)
  qed
  then show "phase_step p c (chan_job_step i k c)" and "ch_closed (cw_ch (chan_job_step i k c)) = ch_closed (cw_ch c)" by blast+
qed

lemma phase_async:
  assumes "chan_phase p c"
  shows "phase_step p c (chan_on_async c)" and "ch_closed (cw_ch (chan_on_async c)) = ch_closed (cw_ch c)"
  using assms
  by (auto simp: phase_step_def chan_phase_def woken_set_def scope_chan_defs flush_ready_waiters_def chan_on_async_def split: option.splits)

section \<open>The loop of \<open>join\<close>\<close>

abbreviation scope_chan :: "scope_state \<Rightarrow> unit channel" where
  "scope_chan s \<equiv> cw_ch (ts_completions s)"

text \<open>What a call of \<open>join\<close> leaves: it waits on the channel, or it has ended for one of two reasons.\<close>

definition join_point_ok :: "join_point \<Rightarrow> join_call \<Rightarrow> scope_state \<Rightarrow> bool" where
  "join_point_ok jp j s \<longleftrightarrow>
     (case jp of
        Join_waits w \<Rightarrow> chan_waiting w (ts_completions s) \<and> w \<notin> woken_set (ts_completions s) \<and> w < ts_recvs s \<and> 0 < ts_active s
      | Joined r \<Rightarrow> chan_idle (ts_completions s) \<and>
          (ts_active s = 0 \<and> r = join_result (jn_cancelled j) s \<or> 0 < ts_active s \<and> r = Inl Closed_error \<and> ch_closed (scope_chan s)))"

definition join_kept :: "bool \<Rightarrow> join_call \<Rightarrow> scope_state \<Rightarrow> join_call \<Rightarrow> scope_state \<Rightarrow> bool" where
  "join_kept stopped j s j' s' \<longleftrightarrow> ts_active s' = ts_active s \<and> ts_first_exception s' = ts_first_exception s \<and>
     ts_stop s' = (ts_stop s \<or> stopped) \<and> jn_cancelled j' = (jn_cancelled j \<or> stopped) \<and> jn_registered j' = jn_registered j \<and>
     woken_set (ts_completions s') = woken_set (ts_completions s) \<and> ts_recvs s \<le> ts_recvs s' \<and>
     ch_closed (scope_chan s') = ch_closed (scope_chan s)"

lemma join_loop_ends:
  assumes "chan_idle (ts_completions s)" and "\<forall>v\<in>woken_set (ts_completions s). v < ts_recvs s"
  shows "\<exists>jp j' s'. join_loop stopped j s = Some (jp, j', s') \<and> join_point_ok jp j' s' \<and> join_kept stopped j s j' s'"
  using assms
proof (induction "ch_messages (scope_chan s)" arbitrary: j s)
  case Nil
  note idle = Nil(2) and fresh = Nil(3) and empty = Nil(1) [symmetric]
  show ?case
  proof (cases "ts_active s = 0")
    case True
    with idle show ?thesis
      by (auto simp: join_loop.simps Let_def join_point_ok_def join_kept_def scope_request_stop_def)
  next
    case False
    show ?thesis
    proof (cases "ch_closed (scope_chan s)")
      case True
      from recv_closed [OF idle empty True, of "ts_recvs s"] False True fresh show ?thesis
        by (auto simp: join_loop.simps Let_def join_point_ok_def join_kept_def scope_request_stop_def join_catch_def woken_set_def)
    next
      case open_: False
      from recv_empty [OF idle empty open_, of "ts_recvs s"] False fresh show ?thesis
        by (auto simp: join_loop.simps Let_def join_point_ok_def join_kept_def scope_request_stop_def chan_waiting_def open_)
    qed
  qed
next
  case (Cons v vs)
  note idle = Cons(3) and fresh = Cons(4) and msgs = Cons(2) [symmetric]
  show ?case
  proof (cases "ts_active s = 0")
    case True
    with idle show ?thesis
      by (auto simp: join_loop.simps Let_def join_point_ok_def join_kept_def scope_request_stop_def)
  next
    case False
    from recv_value [OF idle msgs, of "ts_recvs s"] obtain c' where c: "recv True (ts_recvs s) (ts_completions s) = (Continues (Inr v), c')"
      "chan_idle c'" "ch_messages (cw_ch c') = vs" "ch_closed (cw_ch c') = ch_closed (scope_chan s)"
      "woken_set c' = woken_set (ts_completions s)" by blast
    define s1 where "s1 = (if stopped then scope_request_stop s else s)\<lparr>ts_completions := c', ts_recvs := Suc (ts_recvs s)\<rparr>"
    define j1 where "j1 = (if stopped then j\<lparr>jn_cancelled := True\<rparr> else j)"
    have "join_loop stopped j s = join_loop stopped j1 s1"
      by (subst join_loop.simps) (simp add: Let_def False c(1) scope_request_stop_def s1_def j1_def)
    moreover have "\<exists>jp j' s'. join_loop stopped j1 s1 = Some (jp, j', s') \<and> join_point_ok jp j' s' \<and> join_kept stopped j1 s1 j' s'"
      by (rule Cons(1)) (use c fresh in \<open>auto simp: s1_def scope_request_stop_def\<close>)
    ultimately show ?thesis using c by (auto simp: join_kept_def s1_def j1_def scope_request_stop_def split: if_splits)
  qed
qed

section \<open>The scope and its surroundings\<close>

text \<open>
  \<open>sw_token\<close> is the token given to \<open>join\<close>; \<open>sw_results\<close> lists how the children that have ended
  ended, in that order, and \<open>sw_spawned\<close> counts all children. \<open>Join_loops\<close> would be a \<open>join\<close> that
  never comes back to the event loop.
\<close>

datatype join_state = No_join | Joining nat join_call | Join_ended "unit result" | Join_loops

record scope_world =
  sw_scope :: scope_state
  sw_token :: bool
  sw_join :: join_state
  sw_results :: "unit result list"
  sw_spawned :: nat

datatype scope_event =
    Sc_spawn bool "unit result option"
  | Sc_child_ends bool "unit result"
  | Sc_request_stop
  | Sc_token_stops bool
  | Sc_join bool
  | Sc_join_resumed
  | Sc_job
  | Sc_async

definition new_scope_world :: scope_world where
  "new_scope_world = \<lparr>sw_scope = \<lparr>ts_active = 0, ts_first_exception = None, ts_stop = False, ts_completions = new_chan_world 0,
     ts_recvs = 0, ts_sends = 0\<rparr>, sw_token = False, sw_join = No_join, sw_results = [], sw_spawned = 0\<rparr>"

definition after_join :: "(join_point \<times> join_call \<times> scope_state) option \<Rightarrow> scope_world \<Rightarrow> scope_world" where
  "after_join x s =
     (case x of
        None \<Rightarrow> s\<lparr>sw_join := Join_loops\<rparr>
      | Some (Join_waits w, j, sc) \<Rightarrow> s\<lparr>sw_scope := sc, sw_join := Joining w j\<rparr>
      | Some (Joined r, j, sc) \<Rightarrow> s\<lparr>sw_scope := sc, sw_join := Join_ended r\<rparr>)"

definition on_chan :: "(unit chan_world \<Rightarrow> unit chan_world) \<Rightarrow> scope_world \<Rightarrow> scope_world" where
  "on_chan f s = s\<lparr>sw_scope := (sw_scope s)\<lparr>ts_completions := f (ts_completions (sw_scope s))\<rparr>\<rparr>"

text \<open>
  One event. A child ends only while one is active, \<open>join\<close> is called only when no call is under way,
  and it goes on only when its receiver has been resumed; otherwise the event does nothing.
\<close>

fun scope_step :: "scope_event \<Rightarrow> scope_world \<Rightarrow> scope_world" where
  "scope_step (Sc_spawn b first_run) s =
     s\<lparr>sw_spawned := Suc (sw_spawned s), sw_scope := spawn_impl b first_run (sw_scope s),
       sw_results := sw_results s @ (case first_run of None \<Rightarrow> [] | Some r \<Rightarrow> [r])\<rparr>"
| "scope_step (Sc_child_ends b r) s =
     (if ts_active (sw_scope s) = 0 then s
      else s\<lparr>sw_scope := snd (run_child_end b r (sw_scope s)), sw_results := sw_results s @ [r]\<rparr>)"
| "scope_step Sc_request_stop s = s\<lparr>sw_scope := scope_request_stop (sw_scope s)\<rparr>"
| "scope_step (Sc_token_stops b) s =
     (if sw_token s then s
      else (case sw_join s of
              Joining w j \<Rightarrow>
                s\<lparr>sw_token := True, sw_scope := (if jn_registered j then join_stop_callback b (sw_scope s) else sw_scope s)\<rparr>
            | _ \<Rightarrow> s\<lparr>sw_token := True\<rparr>))"
| "scope_step (Sc_join stop_possible) s =
     (case sw_join s of
        Joining w j \<Rightarrow> s
      | _ \<Rightarrow> after_join (scope_join stop_possible (sw_token s) (sw_scope s)) s)"
| "scope_step Sc_join_resumed s =
     (case sw_join s of
        Joining w j \<Rightarrow>
          (if Receiver w \<in> set (cw_resumed (ts_completions (sw_scope s)))
           then after_join (join_resumed (jn_registered j \<and> sw_token s) w j (sw_scope s)) s
           else s)
      | _ \<Rightarrow> s)"
| "scope_step Sc_job s = on_chan (chan_job_step Uv_ok Uv_ok) s"
| "scope_step Sc_async s = on_chan chan_on_async s"

fun scope_run :: "scope_event list \<Rightarrow> scope_world \<Rightarrow> scope_world" where
  "scope_run [] s = s"
| "scope_run (ev # evs) s = scope_run evs (scope_step ev s)"

section \<open>The invariant\<close>

fun first_failure :: "unit result list \<Rightarrow> exn option" where
  "first_failure [] = None"
| "first_failure (Inl e # rs) = Some e"
| "first_failure (Inr u # rs) = first_failure rs"

lemma first_failure_append:
  "first_failure (rs @ qs) = (case first_failure rs of Some e \<Rightarrow> Some e | None \<Rightarrow> first_failure qs)"
  by (induction rs rule: first_failure.induct) auto

fun waiting_on :: "join_state \<Rightarrow> nat option" where
  "waiting_on (Joining w j) = Some w"
| "waiting_on js = None"

definition scope_counts :: "scope_world \<Rightarrow> bool" where
  "scope_counts s \<longleftrightarrow> ts_active (sw_scope s) + length (sw_results s) = sw_spawned s \<and>
     ts_first_exception (sw_scope s) = first_failure (sw_results s) \<and>
     (first_failure (sw_results s) \<noteq> None \<longrightarrow> ts_stop (sw_scope s)) \<and>
     (ts_active (sw_scope s) = 0 \<longrightarrow> 0 < sw_spawned s \<longrightarrow> ch_closed (scope_chan (sw_scope s)))"

definition scope_waits :: "scope_world \<Rightarrow> bool" where
  "scope_waits s \<longleftrightarrow> chan_phase (waiting_on (sw_join s)) (ts_completions (sw_scope s)) \<and>
     (\<forall>v\<in>woken_set (ts_completions (sw_scope s)) \<union> set_option (waiting_on (sw_join s)). v < ts_recvs (sw_scope s)) \<and>
     (\<forall>w j. sw_join s = Joining w j \<longrightarrow>
        (chan_waiting w (ts_completions (sw_scope s)) \<longrightarrow> w \<notin> woken_set (ts_completions (sw_scope s)) \<and> 0 < ts_active (sw_scope s)) \<and>
        (jn_cancelled j \<longrightarrow> sw_token s) \<and> (jn_registered j \<and> sw_token s \<longrightarrow> ts_stop (sw_scope s))) \<and>
     sw_join s \<noteq> Join_loops"

definition scope_inv :: "scope_world \<Rightarrow> bool" where
  "scope_inv s \<longleftrightarrow> scope_counts s \<and> scope_waits s"

lemma scope_inv_new: "scope_inv new_scope_world"
  by (simp add: scope_inv_def scope_counts_def scope_waits_def new_scope_world_def chan_phase_def woken_set_def scope_chan_defs
      new_chan_world_def new_channel_def)

section \<open>Every event keeps it\<close>

text \<open>An event that changes the channel and the counts, but not \<open>join\<close>.\<close>

lemma scope_waits_phase:
  assumes "scope_waits s" and "sw_join s' = sw_join s"
    and "phase_step (waiting_on (sw_join s)) (ts_completions (sw_scope s)) (ts_completions (sw_scope s'))"
    and "ts_recvs (sw_scope s') = ts_recvs (sw_scope s)" and "sw_token s \<longrightarrow> sw_token s'"
    and "ts_stop (sw_scope s) \<longrightarrow> ts_stop (sw_scope s')"
    and "\<And>w j. sw_join s = Joining w j \<Longrightarrow> chan_waiting w (ts_completions (sw_scope s')) \<Longrightarrow> 0 < ts_active (sw_scope s')"
    and "\<And>w j. sw_join s = Joining w j \<Longrightarrow> jn_registered j \<Longrightarrow> sw_token s' \<Longrightarrow> ts_stop (sw_scope s')"
  shows "scope_waits s'"
  using assms unfolding scope_waits_def phase_step_def by (auto 4 3)

lemma scope_inv_chan:
  assumes "scope_inv s" and "phase_step (waiting_on (sw_join s)) (ts_completions (sw_scope s)) (f (ts_completions (sw_scope s)))"
    and "ch_closed (cw_ch (f (ts_completions (sw_scope s)))) = ch_closed (scope_chan (sw_scope s))"
  shows "scope_inv (on_chan f s)"
proof -
  from assms(1) have w: "scope_waits s" by (simp add: scope_inv_def)
  have "scope_waits (on_chan f s)"
    by (rule scope_waits_phase [OF w]) (use assms w in \<open>auto simp: on_chan_def scope_waits_def phase_step_def\<close>)
  with assms show ?thesis by (simp add: scope_inv_def scope_counts_def on_chan_def)
qed

text \<open>A child that ends with \<open>r\<close> among \<open>n\<close> active ones.\<close>

lemma run_child_end_spec:
  assumes "chan_phase p (ts_completions s)"
  shows "\<exists>x s'. run_child_end b r s = (Continues x, s') \<and> ts_active s' = ts_active s - 1 \<and>
    ts_first_exception s' = (case ts_first_exception s of Some e \<Rightarrow> Some e | None \<Rightarrow> first_failure [r]) \<and>
    ts_stop s' = (ts_stop s \<or> first_failure [r] \<noteq> None) \<and> ts_recvs s' = ts_recvs s \<and>
    phase_step p (ts_completions s) (ts_completions s') \<and>
    (ts_active s' = 0 \<longrightarrow> ch_closed (scope_chan s') \<and> (\<forall>w. \<not> chan_waiting w (ts_completions s'))) \<and>
    (ts_active s' \<noteq> 0 \<longrightarrow> ch_closed (scope_chan s') = ch_closed (scope_chan s))"
proof -
  define s1 where "s1 = (run_child_catch r s)\<lparr>ts_active := ts_active s - 1\<rparr>"
  have 1: "ts_active s1 = ts_active s - 1" "ts_completions s1 = ts_completions s" "ts_recvs s1 = ts_recvs s"
    "ts_first_exception s1 = (case ts_first_exception s of Some e \<Rightarrow> Some e | None \<Rightarrow> first_failure [r])"
    "ts_stop s1 = (ts_stop s \<or> first_failure [r] \<noteq> None)"
    by (cases r; auto simp: s1_def run_child_catch_def scope_request_stop_def split: option.splits)+
  have a: "ts_active (run_child_catch r s) = ts_active s"
    by (simp add: run_child_catch_def scope_request_stop_def split: sum.split)
  have u: "run_child_end b r s =
      (if ts_active s1 = 0
       then (case close_channel (ts_completions s1) of (x, c) \<Rightarrow> (Continues x, s1\<lparr>ts_completions := c\<rparr>))
       else (case channel_async_send b (ts_sends s1) () (ts_completions s1) of
               (x, c) \<Rightarrow> (x, s1\<lparr>ts_completions := c, ts_sends := Suc (ts_sends s1)\<rparr>)))"
    unfolding run_child_end_def Let_def s1_def a ..
  show ?thesis
  proof (cases "ts_active s1 = 0")
    case True
    with close_phase [OF assms] 1 show ?thesis unfolding u by fastforce
  next
    case False
    with send_phase [OF assms, of b "ts_sends s1"] 1 show ?thesis unfolding u by fastforce
  qed
qed

lemma scope_inv_child_ends:
  assumes "scope_inv s" and "0 < ts_active (sw_scope s)"
    and "s' = s\<lparr>sw_scope := snd (run_child_end b r (sw_scope s)), sw_results := sw_results s @ [r]\<rparr>"
  shows "scope_inv s'"
proof -
  from assms(1) have w: "scope_waits s" and c: "scope_counts s" by (simp_all add: scope_inv_def)
  then have "chan_phase (waiting_on (sw_join s)) (ts_completions (sw_scope s))" by (simp add: scope_waits_def)
  from run_child_end_spec [OF this, of b r] obtain x sc where sc: "run_child_end b r (sw_scope s) = (Continues x, sc)"
    "ts_active sc = ts_active (sw_scope s) - 1"
    "ts_first_exception sc = (case ts_first_exception (sw_scope s) of Some e \<Rightarrow> Some e | None \<Rightarrow> first_failure [r])"
    "ts_stop sc = (ts_stop (sw_scope s) \<or> first_failure [r] \<noteq> None)" "ts_recvs sc = ts_recvs (sw_scope s)"
    "phase_step (waiting_on (sw_join s)) (ts_completions (sw_scope s)) (ts_completions sc)"
    "ts_active sc = 0 \<longrightarrow> ch_closed (scope_chan sc) \<and> (\<forall>w. \<not> chan_waiting w (ts_completions sc))"
    "ts_active sc \<noteq> 0 \<longrightarrow> ch_closed (scope_chan sc) = ch_closed (scope_chan (sw_scope s))" by (elim exE conjE) (rule that)
  have s': "s' = s\<lparr>sw_scope := sc, sw_results := sw_results s @ [r]\<rparr>" by (simp add: assms(3) sc(1))
  have "scope_waits s'"
    by (rule scope_waits_phase [OF w]) (use sc(2-7) w s' in \<open>auto simp: scope_waits_def\<close>)
  moreover have "scope_counts s'"
    using c assms(2) sc(2-7) by (auto simp: s' scope_counts_def first_failure_append split: option.splits)
  ultimately show ?thesis by (simp add: scope_inv_def)
qed

lemma scope_inv_spawn:
  assumes "scope_inv s"
  shows "scope_inv (scope_step (Sc_spawn b first_run) s)"
proof -
  let ?s = "s\<lparr>sw_spawned := Suc (sw_spawned s), sw_scope := (sw_scope s)\<lparr>ts_active := Suc (ts_active (sw_scope s))\<rparr>\<rparr>"
  have i: "scope_inv ?s" using assms by (simp add: scope_inv_def scope_counts_def scope_waits_def)
  show ?thesis
  proof (cases first_run)
    case None
    with i show ?thesis by (simp add: spawn_impl_def Let_def)
  next
    case (Some r)
    from scope_inv_child_ends [OF i, where b = b and r = r] Some show ?thesis by (simp add: spawn_impl_def Let_def)
  qed
qed

lemma scope_inv_token:
  assumes "scope_inv s"
  shows "scope_inv (scope_step (Sc_token_stops b) s)"
proof -
  from assms have w: "scope_waits s" and c: "scope_counts s" by (simp_all add: scope_inv_def)
  show ?thesis
  proof (cases "\<not> sw_token s \<and> (\<exists>w j. sw_join s = Joining w j \<and> jn_registered j)")
    case True
    then obtain v j where j: "sw_join s = Joining v j" "jn_registered j" "\<not> sw_token s" by blast
    from w have "chan_phase (waiting_on (sw_join s)) (ts_completions (sw_scope s))" by (simp add: scope_waits_def)
    from blocking_send_phase [OF this, of b] obtain x c' where c': "blocking_send_pass b () (ts_completions (sw_scope s)) = (x, c')"
      "phase_step (waiting_on (sw_join s)) (ts_completions (sw_scope s)) c'" "ch_closed (cw_ch c') = ch_closed (scope_chan (sw_scope s))"
      by blast
    let ?s = "s\<lparr>sw_token := True, sw_scope := (sw_scope s)\<lparr>ts_stop := True, ts_completions := c'\<rparr>\<rparr>"
    have st: "scope_step (Sc_token_stops b) s = ?s"
      using j c'(1) by (simp add: join_stop_callback_def Let_def scope_request_stop_def)
    have "scope_waits ?s"
      by (rule scope_waits_phase [OF w]) (use c'(2) j w in \<open>auto simp: scope_waits_def phase_step_def\<close>)
    with c c'(3) show ?thesis unfolding st by (simp add: scope_inv_def scope_counts_def)
  next
    case False
    then have "scope_step (Sc_token_stops b) s = s \<and> sw_token s \<or>
        scope_step (Sc_token_stops b) s = s\<lparr>sw_token := True\<rparr> \<and> (\<forall>w j. sw_join s = Joining w j \<longrightarrow> \<not> jn_registered j)"
      by (cases "sw_join s") auto
    with assms show ?thesis
      by (auto simp: scope_inv_def scope_counts_def scope_waits_def)
  qed
qed

text \<open>What \<open>join\<close> may answer in a state in which it ends.\<close>

definition join_answer :: "scope_world \<Rightarrow> unit result \<Rightarrow> bool" where
  "join_answer s r \<longleftrightarrow>
     (if ts_active (sw_scope s) = 0
      then (case first_failure (sw_results s) of
              Some e \<Rightarrow> r = Inl e
            | None \<Rightarrow> r = Inr () \<or> r = Inl Operation_cancelled \<and> sw_token s)
      else r = Inl Closed_error \<and> ch_closed (scope_chan (sw_scope s)))"

definition ended_or_waits :: "scope_world \<Rightarrow> bool" where
  "ended_or_waits s \<longleftrightarrow> (\<exists>r. sw_join s = Join_ended r) \<or> 0 < ts_active (sw_scope s) \<and> \<not> ch_closed (scope_chan (sw_scope s))"

lemma after_join_inv:
  assumes "scope_counts s" and "chan_idle (ts_completions sc)" and "\<forall>v\<in>woken_set (ts_completions sc). v < ts_recvs sc"
    and "ts_active sc = ts_active (sw_scope s)" "ts_first_exception sc = ts_first_exception (sw_scope s)"
    and "ch_closed (scope_chan sc) = ch_closed (scope_chan (sw_scope s))" "ts_stop (sw_scope s) \<longrightarrow> ts_stop sc"
    and "jn_cancelled j \<longrightarrow> sw_token s" "jn_registered j \<and> sw_token s \<longrightarrow> ts_stop sc" "stopped \<longrightarrow> sw_token s"
    and "s' = after_join (join_loop stopped j sc) s"
  shows "scope_inv s' \<and> (\<forall>r. sw_join s' = Join_ended r \<longrightarrow> join_answer s' r) \<and> ts_active (sw_scope s') = ts_active (sw_scope s) \<and>
    ended_or_waits s' \<and> ch_closed (scope_chan (sw_scope s')) = ch_closed (scope_chan (sw_scope s))"
proof -
  from join_loop_ends [OF assms(2,3), of stopped j] obtain jp j' sc' where
    l: "join_loop stopped j sc = Some (jp, j', sc')" and p: "join_point_ok jp j' sc'" and k: "join_kept stopped j sc j' sc'" by blast
  from k assms(1,4-7) have c: "scope_counts (s\<lparr>sw_scope := sc', sw_join := js\<rparr>)" for js
    by (auto simp: scope_counts_def join_kept_def)
  show ?thesis
  proof (cases jp)
    case (Join_waits w)
    from p k assms(3,7-10) have "scope_waits (s\<lparr>sw_scope := sc', sw_join := Joining w j'\<rparr>)"
      by (auto simp: Join_waits scope_waits_def join_point_ok_def join_kept_def chan_phase_def)
    with c k p assms(4,6) show ?thesis
      by (simp add: assms(11) l Join_waits after_join_def scope_inv_def join_kept_def ended_or_waits_def join_point_ok_def chan_waiting_def)
  next
    case (Joined r)
    from p k assms(3) have "scope_waits (s\<lparr>sw_scope := sc', sw_join := Join_ended r\<rparr>)"
      by (auto simp: Joined scope_waits_def join_point_ok_def join_kept_def chan_phase_def)
    moreover have "join_answer (s\<lparr>sw_scope := sc', sw_join := Join_ended r\<rparr>) r"
    proof -
      from k assms(1,5) have e: "ts_first_exception sc' = first_failure (sw_results s)"
        by (simp add: join_kept_def scope_counts_def)
      from k assms(8,10) have "jn_cancelled j' \<longrightarrow> sw_token s" by (auto simp: join_kept_def)
      with p show ?thesis
        by (cases "first_failure (sw_results s)") (auto simp: Joined join_answer_def join_point_ok_def join_result_def e split: if_splits)
    qed
    ultimately show ?thesis using c k assms(4,6) by (simp add: assms(11) l Joined after_join_def scope_inv_def join_kept_def ended_or_waits_def)
  qed
qed

lemma scope_join_inv:
  assumes "scope_inv s" and "s' = scope_step (Sc_join stop_possible) s" and "waiting_on (sw_join s) = None"
  shows "scope_inv s' \<and> (\<forall>r. sw_join s' = Join_ended r \<longrightarrow> join_answer s' r) \<and> ts_active (sw_scope s') = ts_active (sw_scope s) \<and>
    ended_or_waits s' \<and> ch_closed (scope_chan (sw_scope s')) = ch_closed (scope_chan (sw_scope s))"
proof -
  from assms(1) have c: "scope_counts s" and w: "scope_waits s" by (simp_all add: scope_inv_def)
  let ?stopped = "stop_possible \<and> sw_token s" and ?j = "\<lparr>jn_cancelled = False, jn_registered = stop_possible\<rparr>"
  from w assms(3) have idle: "chan_phase None (ts_completions (sw_scope s))"
    and fresh: "\<forall>v\<in>woken_set (ts_completions (sw_scope s)). v < ts_recvs (sw_scope s)" by (auto simp: scope_waits_def)
  obtain sc where sc: "sc = (if ?stopped then join_stop_callback True (sw_scope s) else sw_scope s)" by blast
  from assms(3) have s': "s' = after_join (join_loop ?stopped ?j sc) s"
    unfolding assms(2) sc by (cases "sw_join s") (simp_all add: scope_join_def)
  from blocking_send_phase [OF idle, of True] obtain x c' where b: "blocking_send_pass True () (ts_completions (sw_scope s)) = (x, c')"
    "chan_idle c'" "woken_set c' \<subseteq> woken_set (ts_completions (sw_scope s))" "ch_closed (cw_ch c') = ch_closed (scope_chan (sw_scope s))"
    by (auto simp: phase_step_def chan_phase_def)
  have callback: "join_stop_callback True (sw_scope s) = (sw_scope s)\<lparr>ts_stop := True, ts_completions := c'\<rparr>"
    by (simp add: join_stop_callback_def scope_request_stop_def Let_def b(1))
  have k: "chan_idle (ts_completions sc)" "woken_set (ts_completions sc) \<subseteq> woken_set (ts_completions (sw_scope s))"
      "ts_recvs sc = ts_recvs (sw_scope s)" "ts_active sc = ts_active (sw_scope s)"
      "ts_first_exception sc = ts_first_exception (sw_scope s)" "ch_closed (scope_chan sc) = ch_closed (scope_chan (sw_scope s))"
      "ts_stop (sw_scope s) \<longrightarrow> ts_stop sc" "?stopped \<longrightarrow> ts_stop sc"
    using b(2-4) idle by (simp_all add: sc callback chan_phase_def)
  have "\<forall>v\<in>woken_set (ts_completions sc). v < ts_recvs sc" using k(2,3) fresh by auto
  from after_join_inv [OF c k(1) this k(4-7) _ _ _ s'] k(8) show ?thesis by simp
qed

lemma scope_resumed_inv:
  assumes "scope_inv s" and "s' = scope_step Sc_join_resumed s" and "sw_join s = Joining w j"
    and "Receiver w \<in> set (cw_resumed (ts_completions (sw_scope s)))"
  shows "scope_inv s' \<and> (\<forall>r. sw_join s' = Join_ended r \<longrightarrow> join_answer s' r) \<and> ts_active (sw_scope s') = ts_active (sw_scope s) \<and>
    ended_or_waits s' \<and> ch_closed (scope_chan (sw_scope s')) = ch_closed (scope_chan (sw_scope s))"
proof -
  from assms(1) have c: "scope_counts s" and w: "scope_waits s" by (simp_all add: scope_inv_def)
  let ?c = "ts_completions (sw_scope s)"
  from assms(4) have "w \<in> woken_set ?c" by (simp add: woken_set_def)
  with w assms(3) have ph: "chan_served w ?c \<or> chan_ended w ?c" by (auto simp: scope_waits_def chan_phase_def)
  from w assms(3) have fresh: "\<forall>v\<in>woken_set ?c. v < ts_recvs (sw_scope s)"
    and j: "jn_cancelled j \<longrightarrow> sw_token s" "jn_registered j \<and> sw_token s \<longrightarrow> ts_stop (sw_scope s)" by (auto simp: scope_waits_def)
  have r: "recv_await_resume True w no_effects ?c =
      ((case rw_exception (ch_receivers (cw_ch ?c) w) of Some e \<Rightarrow> Inl e | None \<Rightarrow> Inr (the (rw_value (ch_receivers (cw_ch ?c) w)))), ?c)"
    by (simp add: recv_await_resume_def finalize_after_unlock_def no_effects_def cancel_timers_def split: option.split)
  from ph show ?thesis
  proof
    assume served: "chan_served w ?c"
    then have "s' = after_join (join_loop (jn_registered j \<and> sw_token s) j (sw_scope s)) s"
      using assms r by (simp add: join_resumed_def chan_served_def)
    from after_join_inv [OF c _ fresh refl refl refl _ j _ this] served show ?thesis by (simp add: chan_served_def)
  next
    assume ended: "chan_ended w ?c"
    then have s': "s' = s\<lparr>sw_join := Join_ended (join_catch Closed_error j (sw_scope s))\<rparr>"
      using assms r by (simp add: join_resumed_def chan_ended_def after_join_def Let_def)
    from w ended have "scope_waits s'" by (auto simp: s' scope_waits_def chan_phase_def chan_ended_def)
    with c j(1) ended show ?thesis
      by (auto simp: s' scope_inv_def scope_counts_def join_answer_def join_catch_def join_result_def chan_ended_def ended_or_waits_def split: option.split)
  qed
qed

lemma scope_inv_step:
  assumes "scope_inv s"
  shows "scope_inv (scope_step ev s)"
proof (cases ev)
  case (Sc_spawn b fr)
  with scope_inv_spawn [OF assms, of b fr] show ?thesis by simp
next
  case (Sc_child_ends b r)
  with scope_inv_child_ends [OF assms _ refl] assms show ?thesis by auto
next
  case Sc_request_stop
  with assms show ?thesis by (simp add: scope_inv_def scope_counts_def scope_waits_def scope_request_stop_def)
next
  case (Sc_token_stops b)
  with scope_inv_token [OF assms] show ?thesis by simp
next
  case (Sc_join p)
  with scope_join_inv [OF assms refl, of p] assms show ?thesis by (cases "sw_join s") auto
next
  case Sc_join_resumed
  with scope_resumed_inv [OF assms refl] assms show ?thesis by (cases "sw_join s") auto
next
  case Sc_job
  from assms have "chan_phase (waiting_on (sw_join s)) (ts_completions (sw_scope s))" by (simp add: scope_inv_def scope_waits_def)
  from scope_inv_chan [where f = "chan_job_step Uv_ok Uv_ok", OF assms phase_job [OF this]] Sc_job show ?thesis by simp
next
  case Sc_async
  from assms have "chan_phase (waiting_on (sw_join s)) (ts_completions (sw_scope s))" by (simp add: scope_inv_def scope_waits_def)
  from scope_inv_chan [where f = chan_on_async, OF assms phase_async [OF this]] Sc_async show ?thesis by simp
qed

lemma scope_inv_run: "scope_inv s \<Longrightarrow> scope_inv (scope_run evs s)"
  by (induction evs arbitrary: s) (simp_all add: scope_inv_step)

lemma scope_run_append: "scope_run (evs @ es) s = scope_run es (scope_run evs s)"
  by (induction evs arbitrary: s) auto

lemma scope_reachable_inv: "scope_inv (scope_run evs new_scope_world)"
  by (rule scope_inv_run) (rule scope_inv_new)

section \<open>What join answers\<close>

text \<open>The event \<open>ev\<close> starts or resumes a call of \<open>join\<close>, and the call ends with \<open>r\<close>.\<close>

definition join_ends_with :: "scope_event \<Rightarrow> scope_world \<Rightarrow> unit result \<Rightarrow> bool" where
  "join_ends_with ev s r \<longleftrightarrow>
     (case ev of
        Sc_join stop_possible \<Rightarrow> waiting_on (sw_join s) = None
      | Sc_join_resumed \<Rightarrow> waiting_on (sw_join s) \<noteq> None
      | _ \<Rightarrow> False) \<and> sw_join (scope_step ev s) = Join_ended r"

lemma join_answer_step:
  assumes "scope_inv s" and "join_ends_with ev s r"
  shows "join_answer (scope_step ev s) r"
proof (cases ev)
  case (Sc_join p)
  with assms(2) scope_join_inv [OF assms(1) refl] show ?thesis by (auto simp: join_ends_with_def)
next
  case Sc_join_resumed
  with assms(2) obtain w j where j: "sw_join s = Joining w j" by (cases "sw_join s") (auto simp: join_ends_with_def)
  show ?thesis
  proof (cases "Receiver w \<in> set (cw_resumed (ts_completions (sw_scope s)))")
    case True
    with scope_resumed_inv [OF assms(1) refl j] assms(2) Sc_join_resumed show ?thesis by (simp add: join_ends_with_def)
  next
    case False
    with assms(2) Sc_join_resumed j show ?thesis by (simp add: join_ends_with_def)
  qed
qed (use assms(2) in \<open>simp_all add: join_ends_with_def\<close>)

text \<open>The channel of a scope is closed only where the last active child ends.\<close>

definition scope_emptied :: "scope_world \<Rightarrow> bool" where
  "scope_emptied s \<longleftrightarrow> ts_active (sw_scope s) = 0 \<and> 0 < sw_spawned s"

lemma child_ends_closed:
  assumes "scope_inv s" and "0 < ts_active (sw_scope s)" and "ch_closed (scope_chan (snd (run_child_end b r (sw_scope s))))"
  shows "ch_closed (scope_chan (sw_scope s)) \<or> ts_active (snd (run_child_end b r (sw_scope s))) = 0"
proof -
  from assms(1) have "chan_phase (waiting_on (sw_join s)) (ts_completions (sw_scope s))" by (simp add: scope_inv_def scope_waits_def)
  from run_child_end_spec [OF this, of b r] assms(3) show ?thesis by auto
qed

lemma scope_step_closed:
  assumes "scope_inv s" and "ch_closed (scope_chan (sw_scope (scope_step ev s)))"
  shows "ch_closed (scope_chan (sw_scope s)) \<or> scope_emptied (scope_step ev s)"
proof -
  from assms(1) have ph: "chan_phase (waiting_on (sw_join s)) (ts_completions (sw_scope s))" by (simp add: scope_inv_def scope_waits_def)
  show ?thesis
  proof (cases ev)
    case (Sc_spawn b fr)
    let ?s = "s\<lparr>sw_spawned := Suc (sw_spawned s), sw_scope := (sw_scope s)\<lparr>ts_active := Suc (ts_active (sw_scope s))\<rparr>\<rparr>"
    have "scope_inv ?s" using assms(1) by (simp add: scope_inv_def scope_counts_def scope_waits_def)
    from child_ends_closed [OF this, of b] assms(2) Sc_spawn show ?thesis
      by (auto simp: spawn_impl_def Let_def scope_emptied_def split: option.splits)
  next
    case (Sc_child_ends b r)
    from assms(1) have "0 < ts_active (sw_scope s) \<longrightarrow> 0 < sw_spawned s" by (auto simp: scope_inv_def scope_counts_def)
    with child_ends_closed [OF assms(1), of b r] assms(2) Sc_child_ends show ?thesis
      by (auto simp: scope_emptied_def split: if_splits)
  next
    case (Sc_token_stops b)
    from blocking_send_phase [OF ph, of b] assms(2) Sc_token_stops show ?thesis
      by (auto simp: join_stop_callback_def Let_def scope_request_stop_def split: if_splits join_state.splits)
  next
    case (Sc_join p)
    with scope_join_inv [OF assms(1) refl, of p] assms(2) show ?thesis by (cases "sw_join s") auto
  next
    case Sc_join_resumed
    with scope_resumed_inv [OF assms(1) refl] assms(2) show ?thesis
      by (cases "sw_join s") (auto split: if_splits)
  next
    case Sc_job
    with assms(2) phase_job(2) [OF ph, of Uv_ok Uv_ok] show ?thesis by (simp add: on_chan_def)
  next
    case Sc_async
    with assms(2) phase_async(2) [OF ph] show ?thesis by (simp add: on_chan_def)
  qed (use assms(2) in \<open>simp add: scope_request_stop_def\<close>)
qed

lemma scope_closed_emptied:
  "ch_closed (scope_chan (sw_scope (scope_run evs new_scope_world))) \<Longrightarrow>
     \<exists>pre post. evs = pre @ post \<and> scope_emptied (scope_run pre new_scope_world)"
proof (induction evs rule: rev_induct)
  case Nil
  then show ?case by (simp add: new_scope_world_def new_chan_world_def new_channel_def)
next
  case (snoc ev evs)
  let ?s = "scope_run evs new_scope_world"
  from snoc.prems have "ch_closed (scope_chan (sw_scope (scope_step ev ?s)))" by (simp add: scope_run_append)
  from scope_step_closed [OF scope_reachable_inv this] show ?case
  proof
    assume "ch_closed (scope_chan (sw_scope ?s))"
    with snoc.IH obtain pre post where "evs = pre @ post" "scope_emptied (scope_run pre new_scope_world)" by blast
    then show ?thesis by (intro exI [of _ pre] exI [of _ "post @ [ev]"]) simp
  next
    assume "scope_emptied (scope_step ev ?s)"
    then show ?thesis by (intro exI [of _ "evs @ [ev]"] exI [of _ "[]"]) (simp add: scope_run_append)
  qed
qed

text \<open>
  C24. Whatever children, stop requests and loop turns came before, when a call of \<open>join\<close> ends: if
  no child is active it throws the exception of the first child that failed, and otherwise returns,
  or throws \<open>operation_cancelled\<close> if its token was stopped; if a child is still active it throws
  \<open>closed_error\<close>, and then at some point of the run all the children spawned so far had ended. No
  child is ever lost from the count, and once a child has failed the others have been asked to stop.
\<close>

theorem scope_join_outcome:
  assumes "join_ends_with ev (scope_run evs new_scope_world) r" and "s' = scope_run (evs @ [ev]) new_scope_world"
  shows "join_answer s' r \<and>
    (0 < ts_active (sw_scope s') \<longrightarrow> r = Inl Closed_error \<and>
       (\<exists>pre post. evs @ [ev] = pre @ post \<and> 0 < sw_spawned (scope_run pre new_scope_world) \<and>
          ts_active (sw_scope (scope_run pre new_scope_world)) = 0)) \<and>
    ts_active (sw_scope s') + length (sw_results s') = sw_spawned s' \<and>
    (first_failure (sw_results s') \<noteq> None \<longrightarrow> ts_stop (sw_scope s'))"
proof -
  have "s' = scope_step ev (scope_run evs new_scope_world)" by (simp add: assms(2) scope_run_append)
  with join_answer_step [OF scope_reachable_inv assms(1)] have a: "join_answer s' r" by simp
  have "0 < ts_active (sw_scope s') \<longrightarrow> r = Inl Closed_error \<and>
      (\<exists>pre post. evs @ [ev] = pre @ post \<and> 0 < sw_spawned (scope_run pre new_scope_world) \<and>
         ts_active (sw_scope (scope_run pre new_scope_world)) = 0)"
  proof
    assume "0 < ts_active (sw_scope s')"
    with a have "r = Inl Closed_error" "ch_closed (scope_chan (sw_scope s'))" by (simp_all add: join_answer_def)
    with scope_closed_emptied [of "evs @ [ev]"] show "r = Inl Closed_error \<and>
      (\<exists>pre post. evs @ [ev] = pre @ post \<and> 0 < sw_spawned (scope_run pre new_scope_world) \<and>
         ts_active (sw_scope (scope_run pre new_scope_world)) = 0)"
      unfolding scope_emptied_def assms(2) by blast
  qed
  with a scope_reachable_inv [of "evs @ [ev]"] show ?thesis
    by (simp add: scope_inv_def scope_counts_def flip: assms(2))
qed

definition scope_scenario :: "scope_event list" where
  "scope_scenario = [Sc_spawn True None, Sc_spawn True None, Sc_join True, Sc_child_ends False (Inl (User_exception 7)), Sc_async,
     Sc_join_resumed, Sc_child_ends True (Inl Operation_cancelled), Sc_job]"

lemma scope_join_outcome_witness:
  "join_answer (scope_run (scope_scenario @ [Sc_join_resumed]) new_scope_world) (Inl (User_exception 7))"
proof -
  have "join_ends_with Sc_join_resumed (scope_run scope_scenario new_scope_world) (Inl (User_exception 7))"
    by code_simp
  from scope_join_outcome [OF this refl] show ?thesis by blast
qed

text \<open>A join that waits for nothing any more goes on and ends as soon as the loop has woken it.\<close>

lemma join_wakes_drained:
  assumes "scope_inv s" and "sw_join s = Joining w j" and "ts_active (sw_scope s) = 0"
    and "rt_queue (cw_rt (ts_completions (sw_scope s))) = []" and "\<not> cw_async_pending (ts_completions (sw_scope s))"
  shows "\<exists>r. sw_join (scope_step Sc_join_resumed s) = Join_ended r"
proof -
  let ?c = "ts_completions (sw_scope s)"
  from assms(1) have w: "scope_waits s" by (simp add: scope_inv_def)
  with assms(2,3) have "chan_served w ?c \<or> chan_ended w ?c" by (auto simp: scope_waits_def chan_phase_def)
  with assms(4,5) have r: "Receiver w \<in> set (cw_resumed ?c)" by (auto simp: chan_served_def chan_ended_def woken_by_def)
  from scope_resumed_inv [OF assms(1) refl assms(2) r] assms(3) show ?thesis
    by (auto simp: ended_or_waits_def simp del: scope_step.simps)
qed

text \<open>A turn of the loop leaves one job fewer; neither it nor the wake-up touches the call of join.\<close>

lemma scope_job_queue:
  assumes "scope_inv s"
  shows "rt_queue (cw_rt (ts_completions (sw_scope (scope_step Sc_job s)))) = tl (rt_queue (cw_rt (ts_completions (sw_scope s))))"
    and "sw_join (scope_step Sc_job s) = sw_join s" and "ts_active (sw_scope (scope_step Sc_job s)) = ts_active (sw_scope s)"
proof -
  from assms have "chan_calm (ts_completions (sw_scope s))"
    by (cases "waiting_on (sw_join s)") (auto simp: scope_inv_def scope_waits_def chan_phase_def scope_chan_defs)
  then have "set (rt_queue (cw_rt (ts_completions (sw_scope s)))) \<subseteq> {Cj_close}" by (simp add: chan_calm_def)
  then show "rt_queue (cw_rt (ts_completions (sw_scope (scope_step Sc_job s)))) = tl (rt_queue (cw_rt (ts_completions (sw_scope s))))"
    by (auto simp: on_chan_def chan_job_step_def close_job_def flush_ready_waiters_def Let_def split: list.split)
qed (simp_all add: on_chan_def)

lemma scope_jobs_drain:
  "scope_inv s \<Longrightarrow> n = length (rt_queue (cw_rt (ts_completions (sw_scope s)))) \<Longrightarrow> t = scope_run (replicate n Sc_job) s \<Longrightarrow>
     scope_inv t \<and> rt_queue (cw_rt (ts_completions (sw_scope t))) = [] \<and> sw_join t = sw_join s \<and>
     ts_active (sw_scope t) = ts_active (sw_scope s)"
proof (induction n arbitrary: s)
  case (Suc n)
  note q = scope_job_queue [OF Suc.prems(1)]
  from Suc.prems(2) q(1) have "n = length (rt_queue (cw_rt (ts_completions (sw_scope (scope_step Sc_job s)))))"
    by (simp del: scope_step.simps add: eq_diff_iff)
  from Suc.IH [OF scope_inv_step [OF Suc.prems(1)] this] q(2,3) Suc.prems(3) show ?case
    by (simp del: scope_step.simps)
qed simp

text \<open>
  C25. \<open>join\<close> always comes back: no run of the scope has a call of it that never ends its turn, and
  every call either waits or has ended. A call that waits while no child is active ends as soon as the
  loop has run the posted jobs and the channel's wake-up; and a token stopped while it waits has asked
  the children to stop.
\<close>

theorem scope_join_wakes:
  assumes "s = scope_run evs new_scope_world"
  shows "sw_join s \<noteq> Join_loops \<and>
    ((\<exists>w j. sw_join (scope_step (Sc_join stop_possible) s) = Joining w j) \<or>
     (\<exists>r. sw_join (scope_step (Sc_join stop_possible) s) = Join_ended r)) \<and>
    (\<forall>w j. sw_join s = Joining w j \<longrightarrow>
      (ts_active (sw_scope s) = 0 \<longrightarrow>
         (\<exists>r. sw_join (scope_run (replicate (length (rt_queue (cw_rt (ts_completions (sw_scope s))))) Sc_job @
                [Sc_async, Sc_join_resumed]) s) = Join_ended r)) \<and>
      (jn_registered j \<and> sw_token s \<longrightarrow> ts_stop (sw_scope s)))"
proof -
  have i: "scope_inv s" unfolding assms by (rule scope_reachable_inv)
  then have w: "scope_waits s" by (simp add: scope_inv_def)
  have "\<exists>r. sw_join (scope_run (replicate (length (rt_queue (cw_rt (ts_completions (sw_scope s))))) Sc_job @
      [Sc_async, Sc_join_resumed]) s) = Join_ended r" if "sw_join s = Joining w j" "ts_active (sw_scope s) = 0" for w j
  proof -
    let ?n = "length (rt_queue (cw_rt (ts_completions (sw_scope s))))"
    let ?t = "scope_run (replicate ?n Sc_job) s"
    let ?u = "scope_step Sc_async ?t"
    from scope_jobs_drain [OF i refl refl] that have t: "scope_inv ?t" "rt_queue (cw_rt (ts_completions (sw_scope ?t))) = []"
      "sw_join ?t = Joining w j" "ts_active (sw_scope ?t) = 0" by simp_all
    have "sw_join ?u = Joining w j" "ts_active (sw_scope ?u) = 0" "rt_queue (cw_rt (ts_completions (sw_scope ?u))) = []"
      "\<not> cw_async_pending (ts_completions (sw_scope ?u))"
      using t by (simp_all add: on_chan_def chan_on_async_def flush_ready_waiters_def Let_def)
    from join_wakes_drained [OF scope_inv_step [OF t(1)] this] show ?thesis
      by (simp add: scope_run_append del: scope_step.simps)
  qed
  moreover from scope_inv_step [OF i, of "Sc_join stop_possible"] i
  have "sw_join (scope_step (Sc_join stop_possible) s) \<noteq> Join_loops \<and> sw_join (scope_step (Sc_join stop_possible) s) \<noteq> No_join"
    by (cases "sw_join s")
      (auto simp: scope_inv_def scope_waits_def after_join_def split: option.splits prod.splits join_point.splits)
  then have "(\<exists>w j. sw_join (scope_step (Sc_join stop_possible) s) = Joining w j) \<or>
     (\<exists>r. sw_join (scope_step (Sc_join stop_possible) s) = Join_ended r)"
    by (cases "sw_join (scope_step (Sc_join stop_possible) s)") auto
  ultimately show ?thesis using w by (simp add: scope_waits_def)
qed

lemma scope_join_wakes_witness:
  "\<exists>r. sw_join (scope_run [Sc_spawn True None, Sc_join True, Sc_child_ends False (Inr ()), Sc_job, Sc_async, Sc_join_resumed]
     new_scope_world) = Join_ended r"
proof -
  let ?evs = "[Sc_spawn True None, Sc_join True, Sc_child_ends False (Inr ())]"
  have "sw_join (scope_run ?evs new_scope_world) = Joining 0 \<lparr>jn_cancelled = False, jn_registered = True\<rparr>" by code_simp
  moreover have "length (rt_queue (cw_rt (ts_completions (sw_scope (scope_run ?evs new_scope_world))))) = 1" by code_simp
  moreover have "ts_active (sw_scope (scope_run ?evs new_scope_world)) = 0" by code_simp
  ultimately have "\<exists>r. sw_join (scope_run [Sc_job, Sc_async, Sc_join_resumed] (scope_run ?evs new_scope_world)) = Join_ended r"
    using scope_join_wakes [OF refl, of ?evs] by (auto simp del: scope_step.simps scope_run.simps(2))
  then show ?thesis by (simp add: scope_run_append [symmetric])
qed

text \<open>
  A scope that has once been empty cannot be joined again: when the children spawned so far have
  all ended and then another one is spawned that suspends, \<open>join\<close> throws \<open>closed_error\<close> at once
  while that child is still running. So does \<open>run_scoped\<close> when its first task ends without
  suspending and its second does not.
\<close>

theorem scope_join_throws_while_running:
  assumes "s = scope_run evs new_scope_world" and "ts_active (sw_scope s) = 0" and "0 < sw_spawned s"
    and "waiting_on (sw_join s) = None"
  shows "sw_join (scope_run [Sc_spawn b None, Sc_join stop_possible] s) = Join_ended (Inl Closed_error) \<and>
    ts_active (sw_scope (scope_run [Sc_spawn b None, Sc_join stop_possible] s)) = 1"
proof -
  have i: "scope_inv s" unfolding assms(1) by (rule scope_reachable_inv)
  let ?t = "scope_step (Sc_spawn b None) s" and ?u = "scope_step (Sc_join stop_possible) (scope_step (Sc_spawn b None) s)"
  have t: "ts_active (sw_scope ?t) = 1" "waiting_on (sw_join ?t) = None" "scope_chan (sw_scope ?t) = scope_chan (sw_scope s)"
    using assms(2,4) by (simp_all add: spawn_impl_def Let_def)
  from scope_join_inv [OF scope_inv_step [OF i] refl t(2), of stop_possible] t(1,3) have u: "ts_active (sw_scope ?u) = 1"
    "\<forall>r. sw_join ?u = Join_ended r \<longrightarrow> join_answer ?u r" "ended_or_waits ?u"
    "ch_closed (scope_chan (sw_scope ?u)) = ch_closed (scope_chan (sw_scope s))" by (auto simp del: scope_step.simps)
  from i assms(2,3) have "ch_closed (scope_chan (sw_scope s))" by (simp add: scope_inv_def scope_counts_def)
  with u have "sw_join ?u = Join_ended (Inl Closed_error)" by (auto simp: ended_or_waits_def join_answer_def simp del: scope_step.simps)
  with u(1) show ?thesis by (simp del: scope_step.simps)
qed

lemma scope_join_throws_while_running_witness:
  "sw_join (scope_run [Sc_spawn True (Some (Inr ())), Sc_spawn True None, Sc_join False] new_scope_world) = Join_ended (Inl Closed_error) \<and>
   (case run_scoped Uv_ok False False [Some (Inr ()), None] of
      Inr (Some (Joined r, j, sc)) \<Rightarrow> r = Inl Closed_error \<and> ts_active sc = 1
    | _ \<Rightarrow> False)"
proof -
  let ?s = "scope_run [Sc_spawn True (Some (Inr ()))] new_scope_world"
  have "ts_active (sw_scope ?s) = 0" "0 < sw_spawned ?s" "waiting_on (sw_join ?s) = None" by code_simp+
  from scope_join_throws_while_running [OF refl this, of True False]
  have "sw_join (scope_run [Sc_spawn True None, Sc_join False] ?s) = Join_ended (Inl Closed_error)" by blast
  moreover have "case run_scoped Uv_ok False False [Some (Inr ()), None] of
      Inr (Some (Joined r, j, sc)) \<Rightarrow> r = Inl Closed_error \<and> ts_active sc = 1
    | _ \<Rightarrow> False" by code_simp
  ultimately show ?thesis by simp
qed

end
