(* ===== verification/Blocking.thy ===== *)
theory Blocking
  imports Waiters
begin

text \<open>
  \<open>blocking\<close> of \<open>include/luvcoro/runtime.hpp\<close>: a function run on libuv's thread pool while the
  coroutine waits. The state is shared by the awaiter, two jobs of the loop (queueing the work and
  cancelling it), the pool thread that runs the function, and libuv's callback after the work.
\<close>

section \<open>State\<close>

text \<open>
  Where libuv is with the \<open>uv_work_t\<close>: a queued work can still be cancelled; the callback is to come
  when the work has run or was cancelled.
\<close>

datatype work_stage = Work_idle | Work_queued | Work_ran | Work_cancelled | Work_over

text \<open>
  The fields of \<open>state\<close>. \<open>bk_work\<close> is libuv's side, \<open>bk_runs\<close> lists what the function answered each
  time it ran, and \<open>bk_resumed\<close> counts the resumptions of the coroutine.
\<close>

record 'v blocking_state =
  bk_continuation :: bool
  bk_keep_alive :: bool
  bk_stop_callback :: bool
  bk_completed :: bool
  bk_work_started :: bool
  bk_exception :: "exn option"
  bk_queue_status :: uv_status
  bk_after_status :: uv_status
  bk_queue_started :: bool
  bk_cancelled :: bool
  bk_result :: "'v option"
  bk_work :: work_stage
  bk_runs :: "'v result list"
  bk_resumed :: nat

datatype blocking_job = Bk_start | Bk_cancel

type_synonym 'v blocking_world = "'v blocking_state \<times> blocking_job uv_runtime"

definition new_blocking :: "'v blocking_state" where
  "new_blocking = \<lparr>bk_continuation = False, bk_keep_alive = False, bk_stop_callback = False, bk_completed = False,
     bk_work_started = False, bk_exception = None, bk_queue_status = Uv_ok, bk_after_status = Uv_ok, bk_queue_started = False,
     bk_cancelled = False, bk_result = None, bk_work = Work_idle, bk_runs = [], bk_resumed = 0\<rparr>"

section \<open>Handlers\<close>

definition blocking_complete :: "'v blocking_state \<Rightarrow> 'v blocking_state" where
  "blocking_complete x =
     (if bk_completed x then x
      else x\<lparr>bk_completed := True, bk_continuation := False,
             bk_resumed := bk_resumed x + (if bk_continuation x then 1 else 0),
             bk_stop_callback := False, bk_keep_alive := False\<rparr>)"

text \<open>
  The job of the stop callback. \<open>uv_cancel\<close> can only take back a queued work, and may refuse
  (\<open>takes_back\<close>); whatever it answers the code goes on waiting for the callback.
\<close>

definition blocking_cancel_job :: "bool \<Rightarrow> 'v blocking_state \<Rightarrow> 'v blocking_state" where
  "blocking_cancel_job takes_back x =
     (if bk_completed x then x
      else if \<not> bk_queue_started x then blocking_complete (x\<lparr>bk_cancelled := True\<rparr>)
      else if bk_work x = Work_queued \<and> takes_back then x\<lparr>bk_work := Work_cancelled\<rparr>
      else x)"

definition blocking_start_job :: "uv_status \<Rightarrow> 'v blocking_state \<Rightarrow> 'v blocking_state" where
  "blocking_start_job queue_rc x =
     (if bk_completed x then x
      else let x = x\<lparr>bk_queue_started := True\<rparr>
           in (case queue_rc of
                 Uv_ok \<Rightarrow> x\<lparr>bk_work := Work_queued\<rparr>
               | Uv_err e \<Rightarrow> blocking_complete (x\<lparr>bk_queue_status := Uv_err e\<rparr>)))"

text \<open>The pool thread runs the function, which answers \<open>r\<close>.\<close>

definition blocking_work :: "'v result \<Rightarrow> 'v blocking_state \<Rightarrow> 'v blocking_state" where
  "blocking_work r x =
     (let x = x\<lparr>bk_work_started := True, bk_work := Work_ran, bk_runs := bk_runs x @ [r]\<rparr>
      in case r of Inl e \<Rightarrow> x\<lparr>bk_exception := Some e\<rparr> | Inr v \<Rightarrow> x\<lparr>bk_result := Some v\<rparr>)"

definition blocking_after :: "uv_status \<Rightarrow> 'v blocking_state \<Rightarrow> 'v blocking_state" where
  "blocking_after status x =
     (let x = x\<lparr>bk_work := Work_over, bk_after_status := status\<rparr>
      in blocking_complete (if status = Uv_err UV_ECANCELED then x\<lparr>bk_cancelled := True\<rparr> else x))"

section \<open>The awaiter\<close>

text \<open>The stop callback posts the cancelling job; \<open>blocking_stop\<close> is the token being stopped.\<close>

definition blocking_stop :: "'v blocking_world \<Rightarrow> 'v blocking_world" where
  "blocking_stop w = (if bk_stop_callback (fst w) then (fst w, snd (post Bk_cancel (snd w))) else w)"

definition blocking_await_suspend :: "bool \<Rightarrow> bool \<Rightarrow> bool \<Rightarrow> 'v blocking_world \<Rightarrow> bool \<times> 'v blocking_world" where
  "blocking_await_suspend stop_requested stop_possible stop_meanwhile w =
     (if stop_requested then (False, (fst w)\<lparr>bk_cancelled := True\<rparr>, snd w)
      else
        let w = ((fst w)\<lparr>bk_continuation := True, bk_keep_alive := True\<rparr>, snd w);
            w = (if stop_possible
                 then (let w = ((fst w)\<lparr>bk_stop_callback := True\<rparr>, snd w)
                       in if stop_meanwhile then blocking_stop w else w)
                 else w)
        in (case post Bk_start (snd w) of
              (Inl e, rt) \<Rightarrow> (False, (fst w)\<lparr>bk_exception := Some e\<rparr>, rt)
            | (Inr _, rt) \<Rightarrow> (True, fst w, rt)))"

definition blocking_await_resume :: "'v blocking_state \<Rightarrow> 'v result" where
  "blocking_await_resume x =
     (if bk_cancelled x \<or> bk_after_status x = Uv_err UV_ECANCELED then Inl Operation_cancelled
      else (case bk_queue_status x of
              Uv_err e \<Rightarrow> throw_uv_error e ''uv_queue_work''
            | Uv_ok \<Rightarrow>
                (case bk_after_status x of
                   Uv_err e \<Rightarrow> throw_uv_error e ''uv_queue_work''
                 | Uv_ok \<Rightarrow>
                     (case bk_exception x of
                        Some e \<Rightarrow> Inl e
                      | None \<Rightarrow> Inr (the (bk_result x))))))"

definition blocking :: "bool \<Rightarrow> bool \<Rightarrow> bool \<Rightarrow> blocking_job uv_runtime \<Rightarrow> 'v awaited \<times> 'v blocking_world" where
  "blocking stop_requested stop_possible stop_meanwhile rt =
     (case blocking_await_suspend stop_requested stop_possible stop_meanwhile (new_blocking, rt) of
        (False, w) \<Rightarrow> (Continues (blocking_await_resume (fst w)), w)
      | (True, w) \<Rightarrow> (Suspended, w))"

section \<open>What happens to the work\<close>

datatype 'v blocking_event = Be_stop | Be_job uv_status bool | Be_work "'v result" | Be_after uv_status

fun blocking_step :: "'v blocking_event \<Rightarrow> 'v blocking_world \<Rightarrow> 'v blocking_world" where
  "blocking_step Be_stop w = blocking_stop w"
| "blocking_step (Be_job queue_rc takes_back) w =
     (case rt_queue (snd w) of
        [] \<Rightarrow> w
      | Bk_start # js \<Rightarrow> (blocking_start_job queue_rc (fst w), (snd w)\<lparr>rt_queue := js\<rparr>)
      | Bk_cancel # js \<Rightarrow> (blocking_cancel_job takes_back (fst w), (snd w)\<lparr>rt_queue := js\<rparr>))"
| "blocking_step (Be_work r) w = (blocking_work r (fst w), snd w)"
| "blocking_step (Be_after status) w = (blocking_after status (fst w), snd w)"

text \<open>
  libuv runs a queued work once, and then, or when the work was cancelled, calls back, with
  \<open>UV_ECANCELED\<close> exactly when it was cancelled.
\<close>

fun blocking_enabled :: "'v blocking_event \<Rightarrow> 'v blocking_world \<Rightarrow> bool" where
  "blocking_enabled (Be_work r) w \<longleftrightarrow> bk_work (fst w) = Work_queued"
| "blocking_enabled (Be_after status) w \<longleftrightarrow>
     bk_work (fst w) = Work_ran \<and> status = Uv_ok \<or> bk_work (fst w) = Work_cancelled \<and> status = Uv_err UV_ECANCELED"
| "blocking_enabled ev w \<longleftrightarrow> True"

fun blocking_run :: "'v blocking_event list \<Rightarrow> 'v blocking_world \<Rightarrow> 'v blocking_world" where
  "blocking_run [] w = w"
| "blocking_run (ev # evs) w = blocking_run evs (blocking_step ev w)"

fun blocking_runnable :: "'v blocking_event list \<Rightarrow> 'v blocking_world \<Rightarrow> bool" where
  "blocking_runnable [] w \<longleftrightarrow> True"
| "blocking_runnable (ev # evs) w \<longleftrightarrow> blocking_enabled ev w \<and> blocking_runnable evs (blocking_step ev w)"

section \<open>Invariant\<close>

text \<open>What the function answered is what the state holds.\<close>

definition holds_answer :: "'v result \<Rightarrow> 'v blocking_state \<Rightarrow> bool" where
  "holds_answer r x \<longleftrightarrow>
     (case r of Inl e \<Rightarrow> bk_exception x = Some e | Inr v \<Rightarrow> bk_exception x = None \<and> bk_result x = Some v)"

definition untouched :: "'v blocking_state \<Rightarrow> bool" where
  "untouched x \<longleftrightarrow> \<not> bk_cancelled x \<and> bk_queue_status x = Uv_ok \<and> bk_after_status x = Uv_ok"

definition work_good :: "'v blocking_state \<Rightarrow> bool" where
  "work_good x \<longleftrightarrow>
     (case bk_work x of
        Work_idle \<Rightarrow> bk_runs x = [] \<and> bk_exception x = None \<and> bk_after_status x = Uv_ok \<and>
          (if bk_completed x then bk_cancelled x \<or> bk_queue_status x \<noteq> Uv_ok else untouched x)
      | Work_queued \<Rightarrow> bk_runs x = [] \<and> bk_exception x = None \<and> \<not> bk_completed x \<and> untouched x
      | Work_ran \<Rightarrow> (\<exists>r. bk_runs x = [r] \<and> holds_answer r x) \<and> \<not> bk_completed x \<and> untouched x
      | Work_cancelled \<Rightarrow> bk_runs x = [] \<and> \<not> bk_completed x \<and> untouched x
      | Work_over \<Rightarrow> bk_completed x \<and>
          (bk_runs x = [] \<and> bk_cancelled x \<or> (\<exists>r. bk_runs x = [r] \<and> holds_answer r x) \<and> untouched x))"

definition blocking_good :: "'v blocking_world \<Rightarrow> bool" where
  "blocking_good w \<longleftrightarrow>
     (let x = fst w; js = rt_queue (snd w) in
      bk_resumed x = (if bk_completed x then 1 else 0) \<and> (bk_continuation x \<longleftrightarrow> \<not> bk_completed x) \<and>
      (bk_keep_alive x \<longleftrightarrow> \<not> bk_completed x) \<and> (bk_queue_started x \<longrightarrow> Bk_start \<notin> set js) \<and>
      length (filter ((=) Bk_start) js) \<le> 1 \<and> (bk_work x \<noteq> Work_idle \<longrightarrow> bk_queue_started x) \<and>
      (\<not> bk_completed x \<longrightarrow> Bk_start \<in> set js \<or> bk_work x \<noteq> Work_idle) \<and> work_good x)"

lemmas blocking_good_defs = blocking_good_def work_good_def untouched_def holds_answer_def Let_def

lemma blocking_good_suspended:
  assumes "rt_queue rt = []" and "blocking a b c rt = (Suspended, w)"
  shows "blocking_good w"
  using assms
  by (auto simp: blocking_def blocking_await_suspend_def blocking_good_defs new_blocking_def blocking_stop_def post_def async_send_def
      split: if_splits uv_status.splits bool.splits)

lemma blocking_good_job:
  assumes "blocking_good w"
  shows "blocking_good (blocking_step (Be_job queue_rc takes_back) w)"
proof (cases "rt_queue (snd w)")
  case Nil
  with assms show ?thesis by simp
next
  case (Cons j js)
  show ?thesis
  proof (cases j)
    case Bk_start
    with assms Cons show ?thesis
      by (cases queue_rc; cases "bk_work (fst w)")
        (auto simp: blocking_good_defs blocking_start_job_def blocking_complete_def filter_empty_conv split: if_splits)
  next
    case Bk_cancel
    with assms Cons show ?thesis
      by (cases "bk_work (fst w)")
        (auto simp: blocking_good_defs blocking_cancel_job_def blocking_complete_def split: if_splits)
  qed
qed

lemma blocking_good_step:
  assumes "blocking_good w" and "blocking_enabled ev w"
  shows "blocking_good (blocking_step ev w)"
proof (cases ev)
  case Be_stop
  with assms show ?thesis by (auto simp: blocking_stop_def blocking_good_def Let_def post_queue)
next
  case (Be_job queue_rc takes_back)
  with blocking_good_job [OF assms(1)] show ?thesis by simp
next
  case (Be_work r)
  with assms show ?thesis by (cases r) (auto simp: blocking_good_defs blocking_work_def)
next
  case (Be_after status)
  define y where "y = blocking_after status (fst w)"
  have "holds_answer r y = holds_answer r (fst w)" for r
    by (cases r) (simp_all add: y_def holds_answer_def blocking_after_def blocking_complete_def Let_def)
  with assms Be_after show ?thesis
    by (auto simp: blocking_good_def work_good_def untouched_def blocking_after_def blocking_complete_def Let_def y_def)
qed

lemma blocking_good_run: "blocking_good w \<Longrightarrow> blocking_runnable evs w \<Longrightarrow> blocking_good (blocking_run evs w)"
  by (induction evs arbitrary: w) (simp_all add: blocking_good_step)

text \<open>What the coroutine is told, from what the function answered.\<close>

definition blocking_outcome :: "'v result list \<Rightarrow> 'v result \<Rightarrow> bool" where
  "blocking_outcome runs r \<longleftrightarrow>
     (case runs of
        [] \<Rightarrow> r = Inl Operation_cancelled \<or> (\<exists>e. r = throw_uv_error e ''uv_queue_work'')
      | answer # _ \<Rightarrow> r = answer)"

lemma blocking_outcome_good:
  assumes "blocking_good w" and "bk_completed (fst w)"
  shows "blocking_outcome (bk_runs (fst w)) (blocking_await_resume (fst w))"
proof -
  from assms have "bk_runs (fst w) = [] \<and> (bk_cancelled (fst w) \<or> bk_queue_status (fst w) \<noteq> Uv_ok) \<or>
      (\<exists>r. bk_runs (fst w) = [r] \<and> holds_answer r (fst w)) \<and> untouched (fst w)"
    by (auto simp: blocking_good_def work_good_def Let_def split: work_stage.splits)
  then show ?thesis
  proof
    assume "bk_runs (fst w) = [] \<and> (bk_cancelled (fst w) \<or> bk_queue_status (fst w) \<noteq> Uv_ok)"
    then show ?thesis by (cases "bk_queue_status (fst w)") (auto simp: blocking_outcome_def blocking_await_resume_def)
  next
    assume "(\<exists>r. bk_runs (fst w) = [r] \<and> holds_answer r (fst w)) \<and> untouched (fst w)"
    then obtain r where "bk_runs (fst w) = [r]" "holds_answer r (fst w)" "untouched (fst w)" by blast
    then show ?thesis by (cases r) (simp_all add: holds_answer_def untouched_def blocking_outcome_def blocking_await_resume_def)
  qed
qed

text \<open>
  C26. A coroutine suspended in \<open>blocking\<close>, through stop requests, jobs of the loop, the pool thread
  and libuv's callback in any order: it is resumed at most once, and once nothing is left to happen
  exactly once; the function runs at most once; its state lives as long as libuv holds the work; and
  once the function has run, the coroutine is given its value or its exception, whatever stop request
  came, while it is told of a cancellation or of libuv's error only when the function never ran.
\<close>

theorem blocking_once_honest:
  assumes "blocking stop_requested stop_possible stop_meanwhile rt = (Suspended, w)" and "rt_queue rt = []"
    and "blocking_runnable evs w" and "w' = blocking_run evs w"
  shows "bk_resumed (fst w') \<le> 1 \<and> length (bk_runs (fst w')) \<le> 1 \<and>
    (rt_queue (snd w') = [] \<and> bk_work (fst w') \<in> {Work_idle, Work_over} \<longrightarrow> bk_resumed (fst w') = 1) \<and>
    (bk_work (fst w') \<in> {Work_queued, Work_ran, Work_cancelled} \<longrightarrow> bk_keep_alive (fst w')) \<and>
    (bk_resumed (fst w') = 1 \<longrightarrow> blocking_outcome (bk_runs (fst w')) (blocking_await_resume (fst w')))"
proof -
  from blocking_good_run [OF blocking_good_suspended [OF assms(2,1)] assms(3)] have g: "blocking_good w'" by (simp add: assms(4))
  moreover have "length (bk_runs (fst w')) \<le> 1" using g by (auto simp: blocking_good_def work_good_def Let_def split: work_stage.splits)
  moreover have "bk_work (fst w') \<in> {Work_queued, Work_ran, Work_cancelled} \<longrightarrow> bk_keep_alive (fst w')"
    using g by (auto simp: blocking_good_def work_good_def Let_def)
  moreover have "rt_queue (snd w') = [] \<and> bk_work (fst w') \<in> {Work_idle, Work_over} \<longrightarrow> bk_resumed (fst w') = 1"
    using g by (auto simp: blocking_good_def work_good_def Let_def)
  ultimately show ?thesis using blocking_outcome_good [OF g] by (auto simp: blocking_good_def Let_def split: if_splits)
qed

lemma blocking_once_honest_witness:
  "\<exists>w. (blocking False True False new_runtime :: nat awaited \<times> nat blocking_world) = (Suspended, w) \<and>
     (let w' = blocking_run [Be_job Uv_ok False, Be_stop, Be_work (Inr 7), Be_job Uv_ok True, Be_after Uv_ok] w
      in bk_resumed (fst w') = 1 \<and> blocking_await_resume (fst w') = Inr 7)"
proof -
  let ?evs = "[Be_job Uv_ok False, Be_stop, Be_work (Inr (7 :: nat)), Be_job Uv_ok True, Be_after Uv_ok]"
  let ?w = "snd (blocking False True False new_runtime :: nat awaited \<times> nat blocking_world)"
  have s: "blocking False True False new_runtime = (Suspended, ?w)"
    by (simp add: blocking_def blocking_await_suspend_def post_def async_send_def Let_def)
  have "blocking_runnable ?evs ?w" by code_simp
  from blocking_once_honest [OF s _ this refl] have
    "rt_queue (snd (blocking_run ?evs ?w)) = [] \<and> bk_work (fst (blocking_run ?evs ?w)) \<in> {Work_idle, Work_over} \<longrightarrow>
       bk_resumed (fst (blocking_run ?evs ?w)) = 1"
    "bk_resumed (fst (blocking_run ?evs ?w)) = 1 \<longrightarrow>
       blocking_outcome (bk_runs (fst (blocking_run ?evs ?w))) (blocking_await_resume (fst (blocking_run ?evs ?w)))"
    by simp_all
  moreover have "rt_queue (snd (blocking_run ?evs ?w)) = []" by code_simp
  moreover have "bk_work (fst (blocking_run ?evs ?w)) = Work_over" by code_simp
  moreover have "bk_runs (fst (blocking_run ?evs ?w)) = [Inr 7]" by code_simp
  ultimately have "bk_resumed (fst (blocking_run ?evs ?w)) = 1 \<and> blocking_await_resume (fst (blocking_run ?evs ?w)) = Inr 7"
    by (simp add: blocking_outcome_def)
  with s show ?thesis unfolding Let_def by blast
qed

end
