(* ===== verification/Spawn.thy ===== *)
theory Spawn
  imports Timer
begin

text \<open>
  Detached and periodic tasks of \<open>include/luvcoro/runtime.hpp\<close>: \<open>spawn\<close> and its variants with a
  delay, a name and a handler for exceptions, \<open>periodic_task\<close>, and the three loops behind
  \<open>spawn_every\<close>, \<open>spawn_every_immediate\<close> and \<open>spawn_every_fixed_rate\<close>. Times of a clock and
  durations are nanoseconds. What a task, a sleep and the clock answer is given to the loops as a
  list with one entry for each pass.
\<close>

section \<open>Starting a detached task\<close>

text \<open>
  \<open>spawn_detached\<close>: on the loop thread the task runs up to its first suspension (\<open>resume\<close>), on
  another thread a job that does so is posted; a refused job makes the answer \<open>False\<close>.
\<close>

definition spawn_detached :: "bool \<Rightarrow> 'j \<Rightarrow> ('j uv_runtime \<times> 's \<Rightarrow> 'j uv_runtime \<times> 's) \<Rightarrow> 'j uv_runtime \<times> 's \<Rightarrow> bool \<times> 'j uv_runtime \<times> 's" where
  "spawn_detached is_loop_thread resume_job resume w =
     (if is_loop_thread then (True, resume w)
      else (case post resume_job (fst w) of
              (Inr _, rt) \<Rightarrow> (True, rt, snd w)
            | (Inl e, rt) \<Rightarrow> (False, rt, snd w)))"

text \<open>\<open>spawn\<close> without a runtime takes the one bound to the thread, if there is one.\<close>

definition spawn_current :: "tls \<Rightarrow> (nat \<Rightarrow> 'w \<Rightarrow> bool \<times> 'w) \<Rightarrow> 'w \<Rightarrow> bool \<times> 'w" where
  "spawn_current cur spawn_on w = (case try_current_runtime cur of None \<Rightarrow> (False, w) | Some rt \<Rightarrow> spawn_on rt w)"

text \<open>
  \<open>make_spawn_logged_task\<close>: the handler, if there is one, is given the task's exception, and what
  the handler throws is swallowed. The result is the list of calls of the handler.
\<close>

definition make_spawn_logged_task :: "string \<Rightarrow> bool \<Rightarrow> unit result \<Rightarrow> (string \<times> exn) list \<times> unit result" where
  "make_spawn_logged_task name has_handler task =
     (case task of
        Inr _ \<Rightarrow> ([], Inr ())
      | Inl e \<Rightarrow> (if has_handler then [(name, e)] else [], Inr ()))"

text \<open>\<open>duration_cast\<close> to milliseconds truncates towards zero.\<close>

definition to_milliseconds :: "int \<Rightarrow> int" where
  "to_milliseconds d = (if 0 \<le> d then d div 1000000 else - ((- d) div 1000000))"

text \<open>
  A task started after a delay or at a time: the milliseconds handed to \<open>sleep_for\<close>, and the
  outcome from what the sleep and the task answer.
\<close>

definition after_sleep :: "unit result \<Rightarrow> unit result \<Rightarrow> unit result" where
  "after_sleep slept task = (case slept of Inl e \<Rightarrow> Inl e | Inr _ \<Rightarrow> task)"

definition make_spawn_after_task :: "int \<Rightarrow> unit result \<Rightarrow> unit result \<Rightarrow> int \<times> unit result" where
  "make_spawn_after_task delay slept task = (to_milliseconds delay, after_sleep slept task)"

definition make_spawn_at_task :: "int \<Rightarrow> int \<Rightarrow> unit result \<Rightarrow> unit result \<Rightarrow> int option \<times> unit result" where
  "make_spawn_at_task now deadline slept task =
     (if deadline > now then (Some (to_milliseconds (deadline - now)), after_sleep slept task) else (None, task))"

section \<open>Periodic tasks\<close>

text \<open>\<open>periodic_task\<close> holds a stop source or none; the source is here whether it is stopped.\<close>

record periodic_task =
  pt_stop_source :: "bool option"

definition pt_valid :: "periodic_task \<Rightarrow> bool" where
  "pt_valid t \<longleftrightarrow> pt_stop_source t \<noteq> None"

definition pt_cancel :: "periodic_task \<Rightarrow> periodic_task" where
  "pt_cancel t = (if pt_stop_source t \<noteq> None then t\<lparr>pt_stop_source := Some True\<rparr> else t)"

definition pt_stop_requested :: "periodic_task \<Rightarrow> bool" where
  "pt_stop_requested t \<longleftrightarrow> pt_stop_source t = Some True"

text \<open>
  One pass of a loop: the token before it, the clock, what the sleep answers, the token after the
  first wait, and what the callable answers.
\<close>

record tick =
  tk_stopped :: bool
  tk_now :: int
  tk_slept :: "unit result"
  tk_stopped_after :: bool
  tk_call :: "unit result"

text \<open>The handler around the loops: a cancellation ends them, other exceptions leave them.\<close>

fun periodic_catch :: "exn \<Rightarrow> unit result" where
  "periodic_catch Operation_cancelled = Inr ()"
| "periodic_catch e = Inl e"

text \<open>
  The loops, with how often they called the callable. \<open>None\<close> as result means that they are still
  running when the list ends.
\<close>

fun every_loop :: "tick list \<Rightarrow> unit result option \<times> nat" where
  "every_loop [] = (None, 0)"
| "every_loop (t # ts) =
     (if tk_stopped t then (Some (Inr ()), 0)
      else (case tk_slept t of
              Inl e \<Rightarrow> (Some (periodic_catch e), 0)
            | Inr _ \<Rightarrow>
                if tk_stopped_after t then (Some (Inr ()), 0)
                else (case tk_call t of
                        Inl e \<Rightarrow> (Some (periodic_catch e), 1)
                      | Inr _ \<Rightarrow> (case every_loop ts of (r, n) \<Rightarrow> (r, Suc n)))))"

fun every_immediate_loop :: "tick list \<Rightarrow> unit result option \<times> nat" where
  "every_immediate_loop [] = (None, 0)"
| "every_immediate_loop (t # ts) =
     (if tk_stopped t then (Some (Inr ()), 0)
      else (case tk_call t of
              Inl e \<Rightarrow> (Some (periodic_catch e), 1)
            | Inr _ \<Rightarrow>
                if tk_stopped_after t then (Some (Inr ()), 1)
                else (case tk_slept t of
                        Inl e \<Rightarrow> (Some (periodic_catch e), 1)
                      | Inr _ \<Rightarrow> (case every_immediate_loop ts of (r, n) \<Rightarrow> (r, Suc n)))))"

text \<open>
  Deadlines of the fixed rate are signed 64-bit counts of nanoseconds. A sum outside that range is an
  overflow, whose behaviour C++ leaves open: the model stops there with an outcome of its own.
\<close>

definition ns_ok :: "int \<Rightarrow> bool" where
  "ns_ok n \<longleftrightarrow> - (2 ^ 63) \<le> n \<and> n < 2 ^ 63"

datatype next_slot = Slot int | Slot_overflows

text \<open>
  The inner loop of the fixed rate: skip the deadlines that have passed. \<open>None\<close> is a loop that never
  ends.
\<close>

partial_function (option) catch_up :: "int \<Rightarrow> int \<Rightarrow> int \<Rightarrow> next_slot option" where
  "catch_up interval now next_deadline =
     (if next_deadline \<le> now
      then (if ns_ok (next_deadline + interval) then catch_up interval now (next_deadline + interval)
            else Some Slot_overflows)
      else Some (Slot next_deadline))"

declare catch_up.simps [code]

text \<open>
  How the fixed-rate loop stands when the list ends: it still runs, it has ended, or a deadline has
  overflowed. It also lists, for each pass that got that far, the clock, the deadline it sleeps until
  and whether the callable was then called; the outer option is \<open>None\<close> when the inner loop never ends.
\<close>

datatype fixed_rate_end = Fr_running | Fr_ended "unit result" | Fr_overflow

fun fixed_rate_loop :: "int \<Rightarrow> int \<Rightarrow> tick list \<Rightarrow> (fixed_rate_end \<times> (int \<times> int \<times> bool) list) option" where
  "fixed_rate_loop interval next_deadline [] = Some (Fr_running, [])"
| "fixed_rate_loop interval next_deadline (t # ts) =
     (if tk_stopped t then Some (Fr_ended (Inr ()), [])
      else (case catch_up interval (tk_now t) next_deadline of
              None \<Rightarrow> None
            | Some Slot_overflows \<Rightarrow> Some (Fr_overflow, [])
            | Some (Slot deadline) \<Rightarrow>
                (case tk_slept t of
                   Inl e \<Rightarrow> Some (Fr_ended (periodic_catch e), [(tk_now t, deadline, False)])
                 | Inr _ \<Rightarrow>
                     if tk_stopped_after t then Some (Fr_ended (Inr ()), [(tk_now t, deadline, False)])
                     else (case tk_call t of
                             Inl e \<Rightarrow> Some (Fr_ended (periodic_catch e), [(tk_now t, deadline, True)])
                           | Inr _ \<Rightarrow>
                               if \<not> ns_ok (deadline + interval) then Some (Fr_overflow, [(tk_now t, deadline, True)])
                               else (case fixed_rate_loop interval (deadline + interval) ts of
                                       None \<Rightarrow> None
                                     | Some (r, ds) \<Rightarrow> Some (r, (tk_now t, deadline, True) # ds))))))"

text \<open>The interval is converted from milliseconds where it is added to the clock.\<close>

definition fixed_rate_task :: "int \<Rightarrow> int \<Rightarrow> tick list \<Rightarrow> (fixed_rate_end \<times> (int \<times> int \<times> bool) list) option" where
  "fixed_rate_task interval_ms start ts =
     (let interval = interval_ms * 1000000
      in if \<not> ns_ok interval \<or> \<not> ns_ok (start + interval) then Some (Fr_overflow, [])
         else fixed_rate_loop interval (start + interval) ts)"

text \<open>
  \<open>spawn_every\<close> and its variants: the interval is cut to milliseconds and has to be positive;
  \<open>spawned\<close> is the answer of \<open>spawn\<close> for the loop. The interval in milliseconds goes to the loop.
  Without a runtime given, the one bound to the thread is taken, if there is one.
\<close>

definition spawn_periodic :: "string \<Rightarrow> int \<Rightarrow> bool \<Rightarrow> (int \<times> periodic_task) result" where
  "spawn_periodic message interval spawned =
     (let delay = to_milliseconds interval
      in if delay \<le> 0 then Inl (Invalid_argument message)
         else Inr (delay, \<lparr>pt_stop_source = (if spawned then Some False else None)\<rparr>))"

definition periodic_on_current :: "(int \<Rightarrow> bool \<Rightarrow> (int \<times> periodic_task) result) \<Rightarrow> tls \<Rightarrow> int \<Rightarrow> bool \<Rightarrow> (int \<times> periodic_task) option result" where
  "periodic_on_current variant cur interval spawned =
     (case try_current_runtime cur of
        None \<Rightarrow> Inr None
      | Some rt \<Rightarrow> (case variant interval spawned of Inl e \<Rightarrow> Inl e | Inr x \<Rightarrow> Inr (Some x)))"

definition spawn_every :: "int \<Rightarrow> bool \<Rightarrow> (int \<times> periodic_task) result" where
  "spawn_every = spawn_periodic ''luvcoro::spawn_every requires a positive interval''"

definition spawn_every_immediate :: "int \<Rightarrow> bool \<Rightarrow> (int \<times> periodic_task) result" where
  "spawn_every_immediate = spawn_periodic ''luvcoro::spawn_every_immediate requires a positive interval''"

definition spawn_every_fixed_rate :: "int \<Rightarrow> bool \<Rightarrow> (int \<times> periodic_task) result" where
  "spawn_every_fixed_rate = spawn_periodic ''luvcoro::spawn_every_fixed_rate requires a positive interval''"

definition spawn_logged_every :: "int \<Rightarrow> bool \<Rightarrow> (int \<times> periodic_task) result" where
  "spawn_logged_every = spawn_periodic ''luvcoro::spawn_logged_every requires a positive interval''"

definition spawn_logged_every_immediate :: "int \<Rightarrow> bool \<Rightarrow> (int \<times> periodic_task) result" where
  "spawn_logged_every_immediate = spawn_periodic ''luvcoro::spawn_logged_every_immediate requires a positive interval''"

definition spawn_logged_every_fixed_rate :: "int \<Rightarrow> bool \<Rightarrow> (int \<times> periodic_task) result" where
  "spawn_logged_every_fixed_rate = spawn_periodic ''luvcoro::spawn_logged_every_fixed_rate requires a positive interval''"

definition spawn_every_current :: "tls \<Rightarrow> int \<Rightarrow> bool \<Rightarrow> (int \<times> periodic_task) option result" where
  "spawn_every_current = periodic_on_current spawn_every"

definition spawn_every_immediate_current :: "tls \<Rightarrow> int \<Rightarrow> bool \<Rightarrow> (int \<times> periodic_task) option result" where
  "spawn_every_immediate_current = periodic_on_current spawn_every_immediate"

definition spawn_every_fixed_rate_current :: "tls \<Rightarrow> int \<Rightarrow> bool \<Rightarrow> (int \<times> periodic_task) option result" where
  "spawn_every_fixed_rate_current = periodic_on_current spawn_every_fixed_rate"

definition spawn_logged_every_current :: "tls \<Rightarrow> int \<Rightarrow> bool \<Rightarrow> (int \<times> periodic_task) option result" where
  "spawn_logged_every_current = periodic_on_current spawn_logged_every"

definition spawn_logged_every_immediate_current :: "tls \<Rightarrow> int \<Rightarrow> bool \<Rightarrow> (int \<times> periodic_task) option result" where
  "spawn_logged_every_immediate_current = periodic_on_current spawn_logged_every_immediate"

definition spawn_logged_every_fixed_rate_current :: "tls \<Rightarrow> int \<Rightarrow> bool \<Rightarrow> (int \<times> periodic_task) option result" where
  "spawn_logged_every_fixed_rate_current = periodic_on_current spawn_logged_every_fixed_rate"

section \<open>Sleeping for any duration\<close>

text \<open>
  The templates that take any duration or any clock: the milliseconds handed to \<open>sleep_for\<close> of
  \<open>src/runtime.cpp\<close>. A sleep that asks for the current runtime fails when none is bound.
\<close>

definition sleep_for_duration :: "int \<Rightarrow> sleep_plan" where
  "sleep_for_duration delay = Sleep_for (to_milliseconds delay)"

definition sleep_for_duration_current :: "tls \<Rightarrow> int \<Rightarrow> sleep_plan result" where
  "sleep_for_duration_current cur delay =
     (case current_runtime cur of Inl e \<Rightarrow> Inl e | Inr rt \<Rightarrow> Inr (sleep_for_duration delay))"

definition sleep_until_clock :: "int \<Rightarrow> bool \<Rightarrow> int \<Rightarrow> sleep_plan" where
  "sleep_until_clock now stop_requested deadline =
     (if deadline \<le> now
      then (if stop_requested then Return_now (Inl Operation_cancelled) else Return_now (Inr ()))
      else Sleep_for (to_milliseconds (deadline - now)))"

lemma sleep_until_clock_eq: "sleep_until_clock = sleep_until"
  by (intro ext) (simp add: sleep_until_clock_def sleep_until_def to_milliseconds_def)

section \<open>The schedule of the fixed rate\<close>

lemma catch_up_spec:
  assumes "0 < interval" and "ns_ok next_deadline"
  shows "catch_up interval now next_deadline = Some Slot_overflows \<and> 2 ^ 63 \<le> now + interval \<or>
    (\<exists>k::nat. catch_up interval now next_deadline = Some (Slot (next_deadline + int k * interval)) \<and>
       now < next_deadline + int k * interval \<and> ns_ok (next_deadline + int k * interval) \<and>
       (0 < k \<longrightarrow> next_deadline + int k * interval \<le> now + interval))"
  using assms(2)
proof (induction "nat (now - next_deadline + 1)" arbitrary: next_deadline rule: less_induct)
  case less
  show ?case
  proof (cases "next_deadline \<le> now")
    case False
    with less.prems show ?thesis by (intro disjI2 exI [of _ 0]) (simp add: catch_up.simps)
  next
    case True
    show ?thesis
    proof (cases "ns_ok (next_deadline + interval)")
      case False
      with True assms(1) less.prems show ?thesis by (simp add: catch_up.simps ns_ok_def)
    next
      case ok: True
      have "nat (now - (next_deadline + interval) + 1) < nat (now - next_deadline + 1)" using True assms by simp
      note IH = less.hyps [OF this ok]
      have eq: "catch_up interval now next_deadline = catch_up interval now (next_deadline + interval)"
        using True ok by (subst catch_up.simps) simp
      from IH show ?thesis
      proof (elim disjE exE conjE)
        fix k :: nat
        assume k: "catch_up interval now (next_deadline + interval) = Some (Slot (next_deadline + interval + int k * interval))"
          "now < next_deadline + interval + int k * interval" "ns_ok (next_deadline + interval + int k * interval)"
          "0 < k \<longrightarrow> next_deadline + interval + int k * interval \<le> now + interval"
        from k(4) True have "next_deadline + interval + int k * interval \<le> now + interval" by (cases "k = 0") auto
        with eq k(1-3) show ?thesis by (intro disjI2 exI [of _ "Suc k"]) (simp add: algebra_simps)
      qed (simp add: eq)
    qed
  qed
qed

text \<open>
  The deadlines of a run that starts with \<open>next_deadline\<close>: each lies a whole number of intervals
  behind the one before (the first: behind \<open>next_deadline\<close>), after the clock, and is the first such
  one when deadlines were skipped.
\<close>

fun good_schedule :: "int \<Rightarrow> int \<Rightarrow> (int \<times> int \<times> bool) list \<Rightarrow> bool" where
  "good_schedule interval next_deadline [] = True"
| "good_schedule interval next_deadline ((now, deadline, called) # ds) \<longleftrightarrow>
     next_deadline \<le> deadline \<and> (deadline - next_deadline) mod interval = 0 \<and> now < deadline \<and>
     (next_deadline < deadline \<longrightarrow> deadline \<le> now + interval) \<and>
     (ds \<noteq> [] \<longrightarrow> called) \<and> good_schedule interval (deadline + interval) ds"

lemma fixed_rate_loop_spec:
  assumes "0 < interval" and "ns_ok next_deadline"
  shows "\<exists>r ds. fixed_rate_loop interval next_deadline ts = Some (r, ds) \<and> good_schedule interval next_deadline ds \<and>
    length ds \<le> length ts \<and> (\<forall>d\<in>set ds. ns_ok (fst (snd d))) \<and>
    (r = Fr_running \<longrightarrow> length ds = length ts \<and> (\<forall>d\<in>set ds. snd (snd d)))"
  using assms(2)
proof (induction ts arbitrary: next_deadline)
  case (Cons t ts)
  from catch_up_spec [OF assms(1) Cons.prems, of "tk_now t"] show ?case
  proof (elim disjE exE conjE)
    fix k :: nat
    assume k: "catch_up interval (tk_now t) next_deadline = Some (Slot (next_deadline + int k * interval))"
      "tk_now t < next_deadline + int k * interval" "ns_ok (next_deadline + int k * interval)"
      "0 < k \<longrightarrow> next_deadline + int k * interval \<le> tk_now t + interval"
    define d where "d = next_deadline + int k * interval"
    have d: "catch_up interval (tk_now t) next_deadline = Some (Slot d)" "tk_now t < d" "next_deadline \<le> d" "ns_ok d"
      "(d - next_deadline) mod interval = 0" "next_deadline < d \<longrightarrow> d \<le> tk_now t + interval"
      using k assms(1) by (auto simp: d_def)
    show ?thesis
    proof (cases "ns_ok (d + interval)")
      case False
      with d show ?thesis by (auto split: sum.splits)
    next
      case True
      from Cons.IH [OF True] obtain r ds where
        "fixed_rate_loop interval (d + interval) ts = Some (r, ds)" "good_schedule interval (d + interval) ds"
        "length ds \<le> length ts" "\<forall>d\<in>set ds. ns_ok (fst (snd d))"
        "r = Fr_running \<longrightarrow> length ds = length ts \<and> (\<forall>d\<in>set ds. snd (snd d))" by blast
      with d True show ?thesis by (auto split: sum.splits)
    qed
  qed auto
qed simp

text \<open>Room for one interval more per pass is enough for no deadline to overflow.\<close>

lemma fixed_rate_loop_fits:
  assumes "0 < interval"
  shows "ns_ok next_deadline \<Longrightarrow> \<forall>t\<in>set ts. tk_now t + interval \<le> b \<Longrightarrow> next_deadline \<le> b \<Longrightarrow>
    b + int (length ts) * interval < 2 ^ 63 \<Longrightarrow> fixed_rate_loop interval next_deadline ts = Some (r, ds) \<Longrightarrow> r \<noteq> Fr_overflow"
proof (induction ts arbitrary: next_deadline b r ds)
  case (Cons t ts)
  from Cons.prems(4) assms have room: "b + interval + int (length ts) * interval < 2 ^ 63" "0 \<le> int (length ts) * interval"
    by (simp_all add: algebra_simps)
  with assms have lt: "b + interval < 2 ^ 63" by linarith
  from Cons.prems(2) lt assms have "\<not> 2 ^ 63 \<le> tk_now t + interval" by force
  with catch_up_spec [OF assms Cons.prems(1), of "tk_now t"] obtain k :: nat where
    k: "catch_up interval (tk_now t) next_deadline = Some (Slot (next_deadline + int k * interval))"
      "ns_ok (next_deadline + int k * interval)"
      "0 < k \<longrightarrow> next_deadline + int k * interval \<le> tk_now t + interval" by blast
  define d where "d = next_deadline + int k * interval"
  have d: "catch_up interval (tk_now t) next_deadline = Some (Slot d)" "ns_ok d" using k by (simp_all add: d_def)
  have db: "d \<le> b" using k(3) Cons.prems(2,3) by (cases "k = 0") (auto simp: d_def)
  with d(2) lt assms have ok: "ns_ok (d + interval)" by (simp add: ns_ok_def)
  have later: "\<forall>u\<in>set ts. tk_now u + interval \<le> b + interval" using Cons.prems(2) assms by force
  have "r' \<noteq> Fr_overflow" if "fixed_rate_loop interval (d + interval) ts = Some (r', ds')" for r' ds'
    by (rule Cons.IH [OF ok later _ room(1) that]) (use db in simp)
  with Cons.prems(5) d ok show ?case by (auto split: if_splits sum.splits option.splits prod.splits)
qed simp

lemma grid_trans: "((e::int) - d) mod k = 0 \<Longrightarrow> (d - c) mod k = 0 \<Longrightarrow> (e - c) mod k = 0"
  using dvd_add [of k "e - d" "d - c"] by (simp add: mod_eq_0_iff_dvd)

lemma grid_shift: "((e::int) - (d + k)) mod k = 0 \<Longrightarrow> (e - d) mod k = 0"
  using grid_trans [of e "d + k" k d] by simp

lemma good_schedule_grid:
  assumes "0 < interval" and "good_schedule interval next_deadline ds"
  shows "\<forall>(now, d, called)\<in>set ds. now < d \<and> next_deadline \<le> d \<and> (d - next_deadline) mod interval = 0"
    and "sorted_wrt (<) (map (\<lambda>x. fst (snd x)) ds)"
proof -
  have "(\<forall>(now, d, called)\<in>set ds. now < d \<and> next_deadline \<le> d \<and> (d - next_deadline) mod interval = 0) \<and>
      sorted_wrt (<) (map (\<lambda>x. fst (snd x)) ds)"
    using assms(2)
  proof (induction ds arbitrary: next_deadline)
    case (Cons x ds)
    obtain now d called where x: "x = (now, d, called)" by (cases x) auto
    from Cons.prems have h: "next_deadline \<le> d" "(d - next_deadline) mod interval = 0" "now < d" by (simp_all add: x)
    from Cons have r: "\<forall>(n, e, c)\<in>set ds. n < e \<and> d + interval \<le> e \<and> (e - (d + interval)) mod interval = 0"
      "sorted_wrt (<) (map (\<lambda>x. fst (snd x)) ds)" by (auto simp: x)
    have "(e - next_deadline) mod interval = 0" if "(e - (d + interval)) mod interval = 0" for e
      by (rule grid_trans [OF grid_shift [OF that] h(2)])
    with r h assms(1) show ?case by (fastforce simp: x)
  qed simp
  then show "\<forall>(now, d, called)\<in>set ds. now < d \<and> next_deadline \<le> d \<and> (d - next_deadline) mod interval = 0"
    and "sorted_wrt (<) (map (\<lambda>x. fst (snd x)) ds)" by blast+
qed

text \<open>
  C27. A fixed-rate task with an interval that \<open>spawn_every_fixed_rate\<close> accepts, however long its
  passes take and whatever the clock shows: the skipping of missed deadlines always ends; the
  deadlines it sleeps until are 64-bit times on the grid of its start and interval, each later than the
  clock when it was chosen and than the one before, so that no slot is used twice; missed slots are
  skipped, not caught up; as long as nothing stops it every pass calls the callable; and no deadline
  overflows when the latest reading of the clock leaves room for one interval more than there are
  passes and another for the first.
\<close>

theorem fixed_rate_schedule:
  assumes "spawn_every_fixed_rate interval spawned = Inr (delay, task)" and "step = delay * 1000000"
  shows "\<exists>r ds. fixed_rate_task delay start ts = Some (r, ds) \<and> good_schedule step (start + step) ds \<and>
    (\<forall>(now, d, called)\<in>set ds. now < d \<and> start < d \<and> d < 2 ^ 63 \<and> (d - start) mod step = 0) \<and>
    sorted_wrt (<) (map (\<lambda>x. fst (snd x)) ds) \<and>
    (r = Fr_running \<longrightarrow> length ds = length ts \<and> (\<forall>d\<in>set ds. snd (snd d))) \<and>
    (0 \<le> start \<and> start \<le> latest \<and> (\<forall>t\<in>set ts. tk_now t \<le> latest) \<and>
       latest + (int (length ts) + 1) * step < 2 ^ 63 \<longrightarrow> r \<noteq> Fr_overflow)"
proof -
  from assms have pos: "0 < step" by (simp add: spawn_every_fixed_rate_def spawn_periodic_def Let_def split: if_splits)
  have task: "fixed_rate_task delay start ts =
      (if \<not> ns_ok step \<or> \<not> ns_ok (start + step) then Some (Fr_overflow, []) else fixed_rate_loop step (start + step) ts)"
    by (simp add: fixed_rate_task_def assms(2) Let_def)
  have room: "ns_ok step \<and> ns_ok (start + step) \<and> latest + step + int (length ts) * step < 2 ^ 63"
    if "0 \<le> start" "start \<le> latest" "latest + (int (length ts) + 1) * step < 2 ^ 63"
  proof -
    have eq: "(int (length ts) + 1) * step = step + int (length ts) * step" by (simp add: algebra_simps)
    have "0 \<le> int (length ts) * step" using pos by simp
    with that(1,2) that(3) [unfolded eq] pos have "step < 2 ^ 63" "start + step < 2 ^ 63"
      "latest + step + int (length ts) * step < 2 ^ 63" by linarith+
    with that(1) pos show ?thesis by (simp add: ns_ok_def)
  qed
  show ?thesis
  proof (cases "ns_ok step \<and> ns_ok (start + step)")
    case False
    then have "fixed_rate_task delay start ts = Some (Fr_overflow, [])" by (auto simp: task)
    moreover from False room
    have "\<not> (0 \<le> start \<and> start \<le> latest \<and> (\<forall>t\<in>set ts. tk_now t \<le> latest) \<and> latest + (int (length ts) + 1) * step < 2 ^ 63)" by blast
    ultimately show ?thesis by (intro exI [of _ Fr_overflow] exI [of _ "[]"]) simp
  next
    case True
    then have l0: "fixed_rate_task delay start ts = fixed_rate_loop step (start + step) ts" by (simp add: task)
    from fixed_rate_loop_spec [OF pos, of "start + step" ts] True obtain r ds where
      l: "fixed_rate_loop step (start + step) ts = Some (r, ds)" "good_schedule step (start + step) ds"
      "\<forall>d\<in>set ds. ns_ok (fst (snd d))" "r = Fr_running \<longrightarrow> length ds = length ts \<and> (\<forall>d\<in>set ds. snd (snd d))" by blast
    have grid: "(d - start) mod step = 0" if "(d - (start + step)) mod step = 0" for d by (rule grid_shift [OF that])
    have "r \<noteq> Fr_overflow" if "0 \<le> start" "start \<le> latest" "\<forall>t\<in>set ts. tk_now t \<le> latest"
        "latest + (int (length ts) + 1) * step < 2 ^ 63"
      by (rule fixed_rate_loop_fits [OF pos _ _ _ _ l(1), of "latest + step"]) (use room that True in auto)
    with l0 l(1,2,4) good_schedule_grid(2) [OF pos l(2)] show ?thesis
      using good_schedule_grid(1) [OF pos l(2)] l(3) grid pos by (fastforce simp: ns_ok_def)
  qed
qed

lemma fixed_rate_schedule_witness:
  "\<exists>r ds. fixed_rate_task 2 0 [\<lparr>tk_stopped = False, tk_now = 7000000, tk_slept = Inr (), tk_stopped_after = False, tk_call = Inr ()\<rparr>] =
      Some (r, ds) \<and> map (\<lambda>x. fst (snd x)) ds = [8000000] \<and> r \<noteq> Fr_overflow"
proof -
  let ?ts = "[\<lparr>tk_stopped = False, tk_now = 7000000, tk_slept = Inr (), tk_stopped_after = False, tk_call = Inr ()\<rparr>]"
  have "spawn_every_fixed_rate 2500000 True = Inr (2, \<lparr>pt_stop_source = Some False\<rparr>)"
    by (simp add: spawn_every_fixed_rate_def spawn_periodic_def to_milliseconds_def)
  from fixed_rate_schedule [OF this refl, of 0 ?ts 7000000] obtain r ds where
    "fixed_rate_task 2 0 ?ts = Some (r, ds)" "r \<noteq> Fr_overflow" by auto
  moreover have "fixed_rate_task 2 0 ?ts = Some (Fr_running, [(7000000, 8000000, True)])" by code_simp
  ultimately show ?thesis by auto
qed

text \<open>
  A defect: nothing bounds the interval from above. The longest one in nanoseconds is accepted, and
  unless the steady clock still reads less than a millisecond its first deadline overflows.
\<close>

theorem fixed_rate_interval_overflows:
  assumes "775808 \<le> start"
  shows "spawn_every_fixed_rate (2 ^ 63 - 1) True = Inr (9223372036854, \<lparr>pt_stop_source = Some False\<rparr>) \<and>
    fixed_rate_task 9223372036854 start ts = Some (Fr_overflow, [])"
  using assms
  by (simp add: spawn_every_fixed_rate_def spawn_periodic_def to_milliseconds_def fixed_rate_task_def ns_ok_def Let_def)

theorem fixed_rate_interval_overflows_witness:
  "fixed_rate_task 9223372036854 1000000 [] = Some (Fr_overflow, [])"
  using fixed_rate_interval_overflows [of 1000000 "[]"] by simp

text \<open>With an interval of zero the skipping would never end.\<close>

lemma catch_up_needs_positive_interval:
  assumes "next_deadline \<le> now" and "ns_ok next_deadline"
  shows "catch_up 0 now next_deadline = None"
proof -
  have "interval = 0 \<and> ns_ok d \<longrightarrow> now < d" if "catch_up interval now d = Some x" for interval d x
    by (rule catch_up.raw_induct [where P = "\<lambda>i n d x. i = 0 \<and> ns_ok d \<longrightarrow> n < d", OF _ that]) (fastforce split: if_splits)
  with assms show ?thesis by (cases "catch_up 0 now next_deadline") fastforce+
qed

end
