(* ===== verification/Control.thy ===== *)
theory Control
  imports Spawn
begin

text \<open>
  \<open>wait_for_stop\<close> of \<open>src/runtime.cpp\<close> and the helpers of \<open>include/luvcoro/control.hpp\<close> that run an
  operation against a timeout, a deadline or a stop token. The operation races with a sleep and a
  wait for the token in \<open>coro::when_any\<close>, which is not part of the repository: which contender
  finishes first is the parameter \<open>when_any\<close>.
\<close>

section \<open>wait\_for\_stop\<close>

datatype stop_wait_result = Stop_requested | Stop_cancelled

text \<open>
  \<open>stop_wait_state\<close>, which callbacks are registered, and how often the coroutine went on
  (\<open>wf_resumes\<close>).
\<close>

record stop_wait =
  wf_continuation :: bool
  wf_resumed :: bool
  wf_result :: stop_wait_result
  wf_stop_callback :: bool
  wf_cancel_callback :: bool
  wf_resumes :: nat

datatype stop_wait_job = Wf_resume

type_synonym stop_wait_world = "stop_wait_job uv_runtime \<times> stop_wait"

definition new_stop_wait :: stop_wait where
  "new_stop_wait = \<lparr>wf_continuation = False, wf_resumed = False, wf_result = Stop_requested, wf_stop_callback = False,
     wf_cancel_callback = False, wf_resumes = 0\<rparr>"

definition wf_resume_on_runtime :: "stop_wait_world \<Rightarrow> stop_wait_world" where
  "wf_resume_on_runtime w =
     (if wf_resumed (snd w) then w
      else (snd (post Wf_resume (fst w)), (snd w)\<lparr>wf_resumed := True\<rparr>))"

definition wf_resume_job :: "stop_wait \<Rightarrow> stop_wait" where
  "wf_resume_job x =
     (if wf_continuation x then x\<lparr>wf_continuation := False, wf_resumes := Suc (wf_resumes x)\<rparr> else x)"

text \<open>The two callbacks: the answer is stored, then the coroutine is resumed on the runtime.\<close>

definition wf_callback :: "stop_wait_result \<Rightarrow> stop_wait_world \<Rightarrow> stop_wait_world" where
  "wf_callback result w = wf_resume_on_runtime (fst w, (snd w)\<lparr>wf_result := result\<rparr>)"

definition wf_await_ready :: "bool \<Rightarrow> bool \<Rightarrow> bool" where
  "wf_await_ready stop_requested cancel_requested \<longleftrightarrow> stop_requested \<or> cancel_requested"

text \<open>
  \<open>await_suspend\<close>: the tokens are asked, the handle is stored, then the callbacks are registered; a
  callback runs at once when its token was stopped in the meantime (\<open>stop_meanwhile\<close>,
  \<open>cancel_meanwhile\<close>).
\<close>

definition wf_await_suspend :: "bool \<Rightarrow> bool \<Rightarrow> bool \<Rightarrow> bool \<Rightarrow> stop_wait_world \<Rightarrow> bool \<times> stop_wait_world" where
  "wf_await_suspend stop_requested cancel_requested stop_meanwhile cancel_meanwhile w =
     (if stop_requested then (False, fst w, (snd w)\<lparr>wf_result := Stop_requested\<rparr>)
      else if cancel_requested then (False, fst w, (snd w)\<lparr>wf_result := Stop_cancelled\<rparr>)
      else
        let w = (fst w, (snd w)\<lparr>wf_continuation := True\<rparr>);
            w = (fst w, (snd w)\<lparr>wf_stop_callback := True\<rparr>);
            w = (if stop_meanwhile then wf_callback Stop_requested w else w);
            w = (fst w, (snd w)\<lparr>wf_cancel_callback := True\<rparr>);
            w = (if cancel_meanwhile then wf_callback Stop_cancelled w else w)
        in (\<not> wf_resumed (snd w), w))"

definition wf_await_resume :: "bool \<Rightarrow> bool \<Rightarrow> stop_wait \<Rightarrow> stop_wait_result" where
  "wf_await_resume stop_requested cancel_requested x =
     (if stop_requested then Stop_requested
      else if cancel_requested \<and> \<not> wf_resumed x then Stop_cancelled
      else wf_result x)"

text \<open>
  \<open>wait_for_stop\<close> up to its suspension: \<open>False\<close> says that the coroutine goes on at once, which counts
  as going on.
\<close>

definition wait_for_stop :: "bool \<Rightarrow> bool \<Rightarrow> bool \<Rightarrow> bool \<Rightarrow> stop_wait_job uv_runtime \<Rightarrow> bool \<times> stop_wait_world" where
  "wait_for_stop stop_requested cancel_requested stop_meanwhile cancel_meanwhile rt =
     (let goes_on = (\<lambda>w. (fst w, (snd w)\<lparr>wf_resumes := Suc (wf_resumes (snd w))\<rparr>)) in
      if wf_await_ready stop_requested cancel_requested then (False, goes_on (rt, new_stop_wait))
      else (case wf_await_suspend stop_requested cancel_requested stop_meanwhile cancel_meanwhile (rt, new_stop_wait) of
              (True, w) \<Rightarrow> (True, w)
            | (False, w) \<Rightarrow> (False, goes_on w)))"

text \<open>The overload with one token, which answers nothing.\<close>

definition wf_token_suspend :: "bool \<Rightarrow> bool \<Rightarrow> stop_wait_world \<Rightarrow> bool \<times> stop_wait_world" where
  "wf_token_suspend stop_requested stop_meanwhile w =
     (if stop_requested then (False, w)
      else
        let w = (fst w, (snd w)\<lparr>wf_continuation := True\<rparr>);
            w = (fst w, (snd w)\<lparr>wf_stop_callback := True\<rparr>);
            w = (if stop_meanwhile then wf_callback Stop_requested w else w)
        in (\<not> wf_resumed (snd w), w))"

definition wait_for_stop_token :: "bool \<Rightarrow> bool \<Rightarrow> stop_wait_job uv_runtime \<Rightarrow> bool \<times> stop_wait_world" where
  "wait_for_stop_token stop_requested stop_meanwhile rt =
     (let goes_on = (\<lambda>w. (fst w, (snd w)\<lparr>wf_resumes := Suc (wf_resumes (snd w))\<rparr>)) in
      if stop_requested then (False, goes_on (rt, new_stop_wait))
      else (case wf_token_suspend stop_requested stop_meanwhile (rt, new_stop_wait) of
              (True, w) \<Rightarrow> (True, w)
            | (False, w) \<Rightarrow> (False, goes_on w)))"

text \<open>
  It is the overload with two tokens whose second token is never stopped: the same jobs are posted and
  the coroutine goes on, or is resumed, as often.
\<close>

lemma wait_for_stop_token_eq:
  "fst (wait_for_stop_token sr sm rt) = fst (wait_for_stop sr False sm False rt) \<and>
   fst (snd (wait_for_stop_token sr sm rt)) = fst (snd (wait_for_stop sr False sm False rt)) \<and>
   wf_continuation (snd (snd (wait_for_stop_token sr sm rt))) = wf_continuation (snd (snd (wait_for_stop sr False sm False rt))) \<and>
   wf_resumes (snd (snd (wait_for_stop_token sr sm rt))) = wf_resumes (snd (snd (wait_for_stop sr False sm False rt)))"
  by (simp add: wait_for_stop_token_def wait_for_stop_def wf_token_suspend_def wf_await_suspend_def wf_await_ready_def
      wf_callback_def wf_resume_on_runtime_def new_stop_wait_def post_def Let_def)

datatype stop_wait_event = Wf_stop | Wf_cancel | Wf_job

fun stop_wait_step :: "stop_wait_event \<Rightarrow> stop_wait_world \<Rightarrow> stop_wait_world" where
  "stop_wait_step Wf_stop w = (if wf_stop_callback (snd w) then wf_callback Stop_requested w else w)"
| "stop_wait_step Wf_cancel w = (if wf_cancel_callback (snd w) then wf_callback Stop_cancelled w else w)"
| "stop_wait_step Wf_job w =
     (case rt_queue (fst w) of
        [] \<Rightarrow> w
      | j # js \<Rightarrow> ((fst w)\<lparr>rt_queue := js\<rparr>, wf_resume_job (snd w)))"

fun stop_wait_run :: "stop_wait_event list \<Rightarrow> stop_wait_world \<Rightarrow> stop_wait_world" where
  "stop_wait_run [] w = w"
| "stop_wait_run (ev # evs) w = stop_wait_run evs (stop_wait_step ev w)"

definition stop_wait_good :: "stop_wait_world \<Rightarrow> bool" where
  "stop_wait_good w \<longleftrightarrow> wf_stop_callback (snd w) \<and> wf_cancel_callback (snd w) \<and> \<not> rt_shutting_down (fst w) \<and>
     (if \<not> wf_resumed (snd w) then wf_continuation (snd w) \<and> wf_resumes (snd w) = 0 \<and> rt_queue (fst w) = []
      else if wf_continuation (snd w) then wf_resumes (snd w) = 0 \<and> rt_queue (fst w) = [Wf_resume]
      else wf_resumes (snd w) = 1 \<and> rt_queue (fst w) = [])"

lemma stop_wait_good_step: "stop_wait_good w \<Longrightarrow> stop_wait_good (stop_wait_step ev w)"
  by (cases ev)
    (auto simp: stop_wait_good_def wf_callback_def wf_resume_on_runtime_def wf_resume_job_def post_queue split: if_splits)

lemma stop_wait_good_run: "stop_wait_good w \<Longrightarrow> stop_wait_good (stop_wait_run evs w)"
  by (induction evs arbitrary: w) (simp_all add: stop_wait_good_step)

text \<open>
  A suspended \<open>wait_for_stop\<close> is resumed at most once, and once its jobs have run it has been resumed
  if one of the callbacks ran.
\<close>

lemma wait_for_stop_once:
  assumes "wait_for_stop sr cr sm cm rt = (True, w)" and "rt_queue rt = []" and "\<not> rt_shutting_down rt"
  shows "wf_resumes (snd (stop_wait_run evs w)) \<le> 1"
    and "rt_queue (fst (stop_wait_run evs w)) = [] \<Longrightarrow> wf_resumed (snd (stop_wait_run evs w)) \<Longrightarrow> wf_resumes (snd (stop_wait_run evs w)) = 1"
proof -
  have "stop_wait_good w"
    using assms
    by (auto simp: wait_for_stop_def wf_await_ready_def wf_await_suspend_def stop_wait_good_def wf_callback_def wf_resume_on_runtime_def
        new_stop_wait_def Let_def split: if_splits)
  from stop_wait_good_run [OF this, of evs] show "wf_resumes (snd (stop_wait_run evs w)) \<le> 1"
    and "rt_queue (fst (stop_wait_run evs w)) = [] \<Longrightarrow> wf_resumed (snd (stop_wait_run evs w)) \<Longrightarrow> wf_resumes (snd (stop_wait_run evs w)) = 1"
    by (auto simp: stop_wait_good_def split: if_splits)
qed

text \<open>
  A token stopped between the question and the registration: \<open>await_suspend\<close> answers \<open>False\<close> with the
  handle still stored, and the job that was posted resumes the coroutine a second time.
\<close>

lemma wait_for_stop_resumes_twice:
  assumes "rt_queue rt = []" and "\<not> rt_shutting_down rt" and "rt_send_rc rt = Uv_ok"
  shows "fst (wait_for_stop False False True cm rt) = False \<and>
    wf_resumes (snd (stop_wait_run [Wf_job] (snd (wait_for_stop False False True cm rt)))) = 2"
  using assms
  by (simp add: wait_for_stop_def wf_await_ready_def wf_await_suspend_def wf_callback_def wf_resume_on_runtime_def wf_resume_job_def
      new_stop_wait_def post_def async_send_def Let_def)

section \<open>Outcomes\<close>

datatype outcome_kind = Kind_value | Kind_cancelled | Kind_timeout | Kind_exception

record 'a operation_outcome =
  oo_status :: outcome_kind
  oo_value :: "'a option"
  oo_exception :: "exn option"

definition make_cancelled_outcome :: "'a operation_outcome" where
  "make_cancelled_outcome = \<lparr>oo_status = Kind_cancelled, oo_value = None, oo_exception = None\<rparr>"

definition make_timeout_outcome :: "'a operation_outcome" where
  "make_timeout_outcome = \<lparr>oo_status = Kind_timeout, oo_value = None, oo_exception = None\<rparr>"

definition make_exception_outcome :: "exn \<Rightarrow> 'a operation_outcome" where
  "make_exception_outcome e = \<lparr>oo_status = Kind_exception, oo_value = None, oo_exception = Some e\<rparr>"

definition make_value_outcome :: "'a \<Rightarrow> 'a operation_outcome" where
  "make_value_outcome v = \<lparr>oo_status = Kind_value, oo_value = Some v, oo_exception = None\<rparr>"

fun wrap_operation :: "'a result \<Rightarrow> 'a operation_outcome" where
  "wrap_operation (Inr v) = make_value_outcome v"
| "wrap_operation (Inl Operation_timeout) = make_timeout_outcome"
| "wrap_operation (Inl Operation_cancelled) = make_cancelled_outcome"
| "wrap_operation (Inl e) = make_exception_outcome e"

text \<open>The two other contenders; an exception other than \<open>operation_cancelled\<close> leaves the first.\<close>

definition timeout_outcome_task :: "unit result \<Rightarrow> 'a operation_outcome result" where
  "timeout_outcome_task slept =
     (case slept of
        Inr _ \<Rightarrow> Inr make_timeout_outcome
      | Inl e \<Rightarrow> if e = Operation_cancelled then Inr make_cancelled_outcome else Inl e)"

definition cancellation_outcome_task :: "stop_wait_result \<Rightarrow> 'a operation_outcome" where
  "cancellation_outcome_task result =
     (if result = Stop_requested then make_cancelled_outcome else make_cancelled_outcome)"

definition resolve_operation_outcome :: "'a operation_outcome \<Rightarrow> 'a result" where
  "resolve_operation_outcome x =
     (case oo_status x of
        Kind_value \<Rightarrow> Inr (the (oo_value x))
      | Kind_cancelled \<Rightarrow> Inl Operation_cancelled
      | Kind_timeout \<Rightarrow> Inl Operation_timeout
      | Kind_exception \<Rightarrow> Inl (the (oo_exception x)))"

section \<open>The race\<close>

datatype contender = C_operation | C_timeout int | C_cancellation

text \<open>What each contender ends with, from what the operation, the sleep and the wait for the token answer.\<close>

definition contender_outcome :: "'a result \<Rightarrow> (int \<Rightarrow> unit result) \<Rightarrow> stop_wait_result \<Rightarrow> contender \<Rightarrow> 'a operation_outcome result" where
  "contender_outcome operation sleep stop_wait c =
     (case c of
        C_operation \<Rightarrow> Inr (wrap_operation operation)
      | C_timeout ms \<Rightarrow> timeout_outcome_task (sleep ms)
      | C_cancellation \<Rightarrow> Inr (cancellation_outcome_task stop_wait))"

definition contenders :: "bool \<Rightarrow> int option \<Rightarrow> contender list" where
  "contenders stop_possible timeout =
     C_operation # (case timeout of None \<Rightarrow> [] | Some ms \<Rightarrow> [C_timeout ms]) @ (if stop_possible then [C_cancellation] else [])"

text \<open>
  \<open>run_controlled\<close>; \<open>outcome\<close> says what each contender ends with. The list of contenders that were
  started is returned as well.
\<close>

definition run_controlled :: "(contender list \<Rightarrow> contender) \<Rightarrow> (contender \<Rightarrow> 'a operation_outcome result) \<Rightarrow> bool \<Rightarrow> bool
    \<Rightarrow> int option \<Rightarrow> 'a result \<times> contender list" where
  "run_controlled when_any outcome stop_requested stop_possible timeout =
     (if stop_requested then (Inl Operation_cancelled, [])
      else if (case timeout of None \<Rightarrow> False | Some ms \<Rightarrow> ms \<le> 0) then (Inl Operation_timeout, [])
      else
        let cs = contenders stop_possible timeout
        in (case outcome (when_any cs) of
              Inl e \<Rightarrow> (Inl e, cs)
            | Inr x \<Rightarrow> (resolve_operation_outcome x, cs)))"

definition with_stop_token :: "(contender list \<Rightarrow> contender) \<Rightarrow> (contender \<Rightarrow> 'a operation_outcome result) \<Rightarrow> bool \<Rightarrow> bool
    \<Rightarrow> 'a result \<times> contender list" where
  "with_stop_token when_any outcome stop_requested stop_possible = run_controlled when_any outcome stop_requested stop_possible None"

definition with_timeout :: "(contender list \<Rightarrow> contender) \<Rightarrow> (contender \<Rightarrow> 'a operation_outcome result) \<Rightarrow> bool \<Rightarrow> bool \<Rightarrow> int
    \<Rightarrow> 'a result \<times> contender list" where
  "with_timeout when_any outcome stop_requested stop_possible timeout =
     run_controlled when_any outcome stop_requested stop_possible (Some (to_milliseconds timeout))"

definition with_deadline :: "(contender list \<Rightarrow> contender) \<Rightarrow> (contender \<Rightarrow> 'a operation_outcome result) \<Rightarrow> bool \<Rightarrow> bool \<Rightarrow> int \<Rightarrow> int
    \<Rightarrow> 'a result \<times> contender list" where
  "with_deadline when_any outcome stop_requested stop_possible now deadline =
     (if deadline \<le> now then (Inl Operation_timeout, [])
      else with_timeout when_any outcome stop_requested stop_possible (deadline - now))"

definition throw_if_stop_requested :: "bool \<Rightarrow> unit result" where
  "throw_if_stop_requested stop_requested = (if stop_requested then Inl Operation_cancelled else Inr ())"

text \<open>Wrapping an operation and resolving the outcome gives back what the operation did.\<close>

lemma resolve_wrap: "resolve_operation_outcome (wrap_operation r) = r"
  by (cases r rule: wrap_operation.cases)
    (simp_all add: resolve_operation_outcome_def make_value_outcome_def make_timeout_outcome_def make_cancelled_outcome_def
      make_exception_outcome_def)

lemma resolve_make [simp]:
  "resolve_operation_outcome make_timeout_outcome = Inl Operation_timeout"
  "resolve_operation_outcome make_cancelled_outcome = Inl Operation_cancelled"
  by (simp_all add: resolve_operation_outcome_def make_timeout_outcome_def make_cancelled_outcome_def)

text \<open>
  A deadline less than a millisecond ahead is cut to a timeout of zero: the operation is not even
  started, although the deadline has not passed. The same holds for a timeout under a millisecond.
\<close>

lemma with_deadline_early:
  assumes "now < deadline" and "deadline < now + 1000000"
  shows "with_deadline when_any outcome False stop_possible now deadline = (Inl Operation_timeout, [])"
  using assms by (simp add: with_deadline_def with_timeout_def run_controlled_def to_milliseconds_def div_pos_pos_trivial)

text \<open>
  Who wins decides the answer: the operation's own value or exception, \<open>operation_timeout\<close> when the
  sleep ended first, \<open>operation_cancelled\<close> when the token's wait ended first; the sleep takes part
  with the milliseconds of the timeout, the token only when it can be stopped.
\<close>

lemma with_timeout_answer:
  assumes "\<And>cs. cs \<noteq> [] \<Longrightarrow> when_any cs \<in> set cs" and "1000000 \<le> timeout"
    and "outcome = contender_outcome operation sleep stop_wait"
  shows "(when_any (contenders stop_possible (Some (to_milliseconds timeout))) = C_operation \<longrightarrow>
      fst (with_timeout when_any outcome False stop_possible timeout) = operation) \<and>
    (\<forall>ms. when_any (contenders stop_possible (Some (to_milliseconds timeout))) = C_timeout ms \<longrightarrow> ms = timeout div 1000000 \<and>
      (sleep ms = Inr () \<longrightarrow> fst (with_timeout when_any outcome False stop_possible timeout) = Inl Operation_timeout)) \<and>
    (when_any (contenders stop_possible (Some (to_milliseconds timeout))) = C_cancellation \<longrightarrow> stop_possible \<and>
      fst (with_timeout when_any outcome False stop_possible timeout) = Inl Operation_cancelled)"
proof -
  let ?cs = "contenders stop_possible (Some (to_milliseconds timeout))"
  from assms(2) have ms: "to_milliseconds timeout = timeout div 1000000" "\<not> timeout div 1000000 \<le> 0"
    by (simp_all add: to_milliseconds_def)
  have r: "with_timeout when_any outcome False stop_possible timeout =
      (case outcome (when_any ?cs) of Inl e \<Rightarrow> (Inl e, ?cs) | Inr x \<Rightarrow> (resolve_operation_outcome x, ?cs))"
    using ms(2) unfolding with_timeout_def run_controlled_def ms(1) Let_def by simp
  have "when_any ?cs \<in> set ?cs" by (rule assms(1)) (simp add: contenders_def)
  then show ?thesis
    unfolding r
    unfolding assms(3)
    by (auto simp: contender_outcome_def contenders_def ms(1) resolve_wrap timeout_outcome_task_def cancellation_outcome_task_def
        split: if_splits)
qed

end
