(* ===== verification/Udp_Socket.thy ===== *)
theory Udp_Socket
  imports Tcp_Client
begin

text \<open>
  \<open>udp_socket\<close> of \<open>src/udp.cpp\<close>: the socket object, binding and the options, sending as a one-shot
  request, and receiving through the \<open>data\<close> pointer of the libuv handle. libuv's address functions
  and answers are parameters.
\<close>

section \<open>Data\<close>

record udp_receive_result =
  ur_size :: nat
  ur_peer :: ip_endpoint
  ur_ip :: string
  ur_port :: int
  ur_ipv6 :: bool

record udp_datagram =
  ud_data :: string
  ud_peer :: ip_endpoint
  ud_ip :: string
  ud_port :: int
  ud_ipv6 :: bool

definition udp_parse_ip_endpoint :: "(string \<Rightarrow> int \<Rightarrow> uv_errno + 'a sockaddr) \<Rightarrow> (string \<Rightarrow> int \<Rightarrow> uv_errno + 'a sockaddr)
    \<Rightarrow> ip_endpoint \<Rightarrow> uv_errno + 'a sockaddr" where
  "udp_parse_ip_endpoint uv_ip4_addr uv_ip6_addr endpoint =
     (case uv_ip4_addr (ep_address endpoint) (ep_port endpoint) of
        Inr addr4 \<Rightarrow> Inr addr4
      | Inl _ \<Rightarrow> uv_ip6_addr (ep_address endpoint) (ep_port endpoint))"

definition filled_result :: "nat \<Rightarrow> string \<Rightarrow> nat \<Rightarrow> bool \<Rightarrow> udp_receive_result" where
  "filled_result nread ip port ipv6 =
     \<lparr>ur_size = nread, ur_peer = \<lparr>ep_address = ip, ep_port = int port, ep_ipv6 = ipv6\<rparr>,
      ur_ip = ip, ur_port = int port, ur_ipv6 = ipv6\<rparr>"

fun make_receive_result :: "('a \<Rightarrow> uv_errno + string) \<Rightarrow> ('a \<Rightarrow> uv_errno + string) \<Rightarrow> nat \<Rightarrow> 'a sockaddr \<Rightarrow> udp_receive_result result" where
  "make_receive_result uv_ip4_name uv_ip6_name nread (Af_inet a port) =
     (case uv_ip4_name a of
        Inl rc \<Rightarrow> throw_uv_error rc ''uv_ip4_name''
      | Inr ipbuf \<Rightarrow> Inr (filled_result nread ipbuf port False))"
| "make_receive_result uv_ip4_name uv_ip6_name nread (Af_inet6 a port) =
     (case uv_ip6_name a of
        Inl rc \<Rightarrow> throw_uv_error rc ''uv_ip6_name''
      | Inr ipbuf \<Rightarrow> Inr (filled_result nread ipbuf port True))"
| "make_receive_result uv_ip4_name uv_ip6_name nread Af_other = Inl (Runtime_error ''unsupported udp address family'')"

definition make_datagram :: "string \<Rightarrow> udp_receive_result \<Rightarrow> udp_datagram" where
  "make_datagram buffer info =
     \<lparr>ud_data = take (ur_size info) buffer, ud_peer = ur_peer info, ud_ip = ur_ip info, ud_port = ur_port info, ud_ipv6 = ur_ipv6 info\<rparr>"

section \<open>The socket object\<close>

text \<open>The fields of the class; handles are numbered. \<close>

record udp_socket =
  us_runtime :: bool
  us_handle :: "nat option"
  us_bound :: bool

definition udp_moved_from :: "udp_socket \<Rightarrow> udp_socket" where
  "udp_moved_from other = other\<lparr>us_runtime := False, us_handle := None, us_bound := False\<rparr>"

definition udp_new :: "uv_status \<Rightarrow> nat \<Rightarrow> udp_socket result" where
  "udp_new init_rc h =
     (case init_rc of
        Uv_err e \<Rightarrow> throw_uv_error e ''uv_udp_init''
      | Uv_ok \<Rightarrow> Inr \<lparr>us_runtime = True, us_handle = Some h, us_bound = False\<rparr>)"

definition udp_move :: "udp_socket \<Rightarrow> udp_socket \<times> udp_socket" where
  "udp_move other =
     (\<lparr>us_runtime = us_runtime other, us_handle = us_handle other, us_bound = us_bound other\<rparr>, udp_moved_from other)"

text \<open>\<open>close\<close> forgets the handle and posts the job that closes it (given here by the handle).\<close>

definition udp_close :: "udp_socket \<times> nat uv_runtime \<Rightarrow> udp_socket \<times> nat uv_runtime" where
  "udp_close w =
     (case us_handle (fst w) of
        None \<Rightarrow> w
      | Some h \<Rightarrow>
          if \<not> us_runtime (fst w) then w
          else ((fst w)\<lparr>us_handle := None, us_bound := False\<rparr>, snd (post h (snd w))))"

definition udp_assign :: "bool \<Rightarrow> udp_socket \<Rightarrow> udp_socket \<Rightarrow> nat uv_runtime \<Rightarrow> udp_socket \<times> udp_socket \<times> nat uv_runtime" where
  "udp_assign same_object this other rt =
     (if same_object then (this, other, rt)
      else (case udp_close (this, rt) of
              (this, rt) \<Rightarrow>
                (this\<lparr>us_runtime := us_runtime other, us_handle := us_handle other, us_bound := us_bound other\<rparr>,
                 udp_moved_from other, rt)))"

text \<open>The job of \<open>close\<close>: a handle that is closing already is left alone.\<close>

definition udp_close_job :: "nat \<Rightarrow> nat list \<Rightarrow> nat list" where
  "udp_close_job h closed = (if h \<in> set closed then closed else closed @ [h])"

definition ensure_udp_handle :: "udp_socket \<Rightarrow> unit result" where
  "ensure_udp_handle s = (if us_handle s = None then Inl (Runtime_error ''udp socket handle is null'') else Inr ())"

definition udp_bind :: "bool \<Rightarrow> uv_errno + 'a sockaddr \<Rightarrow> ('a sockaddr \<Rightarrow> uv_status) \<Rightarrow> udp_socket \<Rightarrow> unit result \<times> udp_socket" where
  "udp_bind stop_requested parsed uv_udp_bind s =
     (case ensure_udp_handle s of
        Inl e \<Rightarrow> (Inl e, s)
      | Inr _ \<Rightarrow>
          if stop_requested then (Inl Operation_cancelled, s)
          else (case parsed of
                  Inl rc \<Rightarrow> (throw_uv_error rc ''uv_ip*_addr'', s)
                | Inr addr \<Rightarrow>
                    (case uv_udp_bind addr of
                       Uv_err rc \<Rightarrow> (throw_uv_error rc ''uv_udp_bind'', s)
                     | Uv_ok \<Rightarrow> (Inr (), s\<lparr>us_bound := True\<rparr>))))"

text \<open>The setters: the guard, the token, and libuv's answer \<open>rc\<close> to the call \<open>op_name\<close>.\<close>

definition udp_option :: "string \<Rightarrow> bool \<Rightarrow> uv_status \<Rightarrow> udp_socket \<Rightarrow> unit result" where
  "udp_option op_name stop_requested rc s =
     (case ensure_udp_handle s of
        Inl e \<Rightarrow> Inl e
      | Inr _ \<Rightarrow>
          if stop_requested then Inl Operation_cancelled
          else (case rc of Uv_err e \<Rightarrow> throw_uv_error e op_name | Uv_ok \<Rightarrow> Inr ()))"

definition udp_set_broadcast :: "(bool \<Rightarrow> uv_status) \<Rightarrow> bool \<Rightarrow> bool \<Rightarrow> udp_socket \<Rightarrow> unit result" where
  "udp_set_broadcast libuv enabled stop_requested = udp_option ''uv_udp_set_broadcast'' stop_requested (libuv enabled)"

definition udp_set_multicast_loop :: "(bool \<Rightarrow> uv_status) \<Rightarrow> bool \<Rightarrow> bool \<Rightarrow> udp_socket \<Rightarrow> unit result" where
  "udp_set_multicast_loop libuv enabled stop_requested = udp_option ''uv_udp_set_multicast_loop'' stop_requested (libuv enabled)"

definition udp_set_multicast_ttl :: "(int \<Rightarrow> uv_status) \<Rightarrow> int \<Rightarrow> bool \<Rightarrow> udp_socket \<Rightarrow> unit result" where
  "udp_set_multicast_ttl libuv ttl stop_requested = udp_option ''uv_udp_set_multicast_ttl'' stop_requested (libuv ttl)"

text \<open>An empty interface address is passed as a null pointer.\<close>

definition iface_of :: "string \<Rightarrow> string option" where
  "iface_of interface_address = (if interface_address = [] then None else Some interface_address)"

definition udp_set_multicast_interface :: "(string option \<Rightarrow> uv_status) \<Rightarrow> string \<Rightarrow> bool \<Rightarrow> udp_socket \<Rightarrow> unit result" where
  "udp_set_multicast_interface libuv interface_address stop_requested =
     udp_option ''uv_udp_set_multicast_interface'' stop_requested (libuv (iface_of interface_address))"

datatype uv_membership = UV_JOIN_GROUP | UV_LEAVE_GROUP

definition udp_join_multicast_group :: "(string \<Rightarrow> string option \<Rightarrow> uv_membership \<Rightarrow> uv_status) \<Rightarrow> string \<Rightarrow> string \<Rightarrow> bool
    \<Rightarrow> udp_socket \<Rightarrow> unit result" where
  "udp_join_multicast_group libuv multicast_address interface_address stop_requested =
     udp_option ''uv_udp_set_membership'' stop_requested (libuv multicast_address (iface_of interface_address) UV_JOIN_GROUP)"

definition udp_leave_multicast_group :: "(string \<Rightarrow> string option \<Rightarrow> uv_membership \<Rightarrow> uv_status) \<Rightarrow> string \<Rightarrow> string \<Rightarrow> bool
    \<Rightarrow> udp_socket \<Rightarrow> unit result" where
  "udp_leave_multicast_group libuv multicast_address interface_address stop_requested =
     udp_option ''uv_udp_set_membership'' stop_requested (libuv multicast_address (iface_of interface_address) UV_LEAVE_GROUP)"

section \<open>Sending\<close>

text \<open>The state of a send: the one-shot request, the data, and what was handed to libuv.\<close>

record 'a send_request = uv_request +
  un_data :: string
  un_addr :: "'a sockaddr option"
  un_handed :: "string option"

definition new_send_request :: "string \<Rightarrow> 'a send_request" where
  "new_send_request data = \<lparr>rq_continuation = False, rq_keep_alive = False, rq_stop_callback = False, rq_completed = False,
     rq_status = Uv_ok, rq_cancel_requested = False, rq_started = False, rq_in_flight = False, rq_resumed = 0,
     un_data = data, un_addr = None, un_handed = None\<rparr>"

definition send_start_job :: "(uv_errno + 'a sockaddr) \<times> uv_status \<Rightarrow> 'a send_request \<Rightarrow> 'a send_request" where
  "send_start_job found x =
     (if rq_completed x then x
      else (case fst found of
              Inl rc \<Rightarrow> rq_complete (x\<lparr>rq_status := Uv_err rc\<rparr>)
            | Inr addr \<Rightarrow>
                (let x = x\<lparr>un_addr := Some addr, rq_started := True, un_handed := Some (uv_buf_init (un_data x))\<rparr>
                 in (case snd found of
                       Uv_ok \<Rightarrow> x\<lparr>rq_in_flight := True\<rparr>
                     | Uv_err e \<Rightarrow> rq_complete (x\<lparr>rq_status := Uv_err e\<rparr>)))))"

definition send_await_resume :: "'a send_request \<Rightarrow> nat result" where
  "send_await_resume x =
     (case rq_await_resume ''uv_udp_send'' x of
        Inl e \<Rightarrow> Inl e
      | Inr _ \<Rightarrow> Inr (length (un_data x)))"

type_synonym 'a send_world = "'a send_request \<times> rq_job uv_runtime"

definition udp_send_to :: "bool \<Rightarrow> bool \<Rightarrow> bool \<Rightarrow> string \<Rightarrow> udp_socket \<Rightarrow> rq_job uv_runtime \<Rightarrow> nat awaited \<times> 'a send_world" where
  "udp_send_to stop_requested stop_possible stop_meanwhile data s rt =
     (case ensure_udp_handle s of
        Inl e \<Rightarrow> (Continues (Inl e), new_send_request data, rt)
      | Inr _ \<Rightarrow>
          if data = [] then (Continues (Inr 0), new_send_request data, rt)
          else (case rq_await_suspend stop_requested stop_possible stop_meanwhile (new_send_request data, rt) of
                  (Inl e, w) \<Rightarrow> (Continues (Inl e), w)
                | (Inr False, w) \<Rightarrow> (Continues (send_await_resume (fst w)), w)
                | (Inr True, w) \<Rightarrow> (Suspended, w)))"

definition udp_send_some_to :: "bool \<Rightarrow> bool \<Rightarrow> bool \<Rightarrow> string \<Rightarrow> udp_socket \<Rightarrow> rq_job uv_runtime \<Rightarrow> nat awaited \<times> 'a send_world" where
  "udp_send_some_to stop_requested stop_possible stop_meanwhile data s rt =
     (case ensure_udp_handle s of
        Inl e \<Rightarrow> (Continues (Inl e), new_send_request data, rt)
      | Inr _ \<Rightarrow>
          if data = [] then (Continues (Inr 0), new_send_request data, rt)
          else udp_send_to stop_requested stop_possible stop_meanwhile data s rt)"

lemma rq_core_send [simp]:
  "rq_core (x\<lparr>un_addr := a\<rparr>) = rq_core x" "rq_core (x\<lparr>un_handed := d\<rparr>) = rq_core x"
  by (simp_all add: rq_core_def uv_request.truncate_def)

interpretation udp_sending: one_shot rq_complete send_start_job rq_on_done "\<lambda>s. s"
proof
  fix a :: "(uv_errno + 'a sockaddr) \<times> uv_status" and x :: "'a send_request"
  assume n: "\<not> rq_completed x"
  show "rq_core (send_start_job a x) = (rq_core x)\<lparr>rq_started := True, rq_in_flight := True\<rparr> \<or>
      (\<exists>b e. rq_core (send_start_job a x) = rq_complete ((rq_core x)\<lparr>rq_started := b, rq_status := Uv_err e\<rparr>))"
  proof (cases "fst a")
    case (Inl rc)
    have "rq_core (send_start_job a x) = rq_complete ((rq_core x)\<lparr>rq_started := rq_started x, rq_status := Uv_err rc\<rparr>)"
      using n Inl by (simp add: send_start_job_def rq_complete_def)
    then show ?thesis by blast
  next
    case (Inr addr)
    with n show ?thesis by (cases "snd a") (auto simp: send_start_job_def Let_def)
  qed
qed (auto simp: send_start_job_def rq_on_done_def)

text \<open>A suspended \<open>send_to\<close> is resumed at most once, and once nothing is left to happen exactly once.\<close>

lemma udp_send_once:
  assumes "udp_send_to sr sp sm data s rt = (Suspended, w)" and "rt_queue rt = []"
    and "rq_runnable (rq_step rq_complete send_start_job rq_on_done) evs w"
    and "w' = rq_run (rq_step rq_complete send_start_job rq_on_done) evs w"
  shows "rq_resumed (fst w') \<le> 1" and "rt_queue (snd w') = [] \<Longrightarrow> \<not> rq_in_flight (fst w') \<Longrightarrow> rq_resumed (fst w') = 1"
proof -
  have f: "rq_fresh (new_send_request data)" by (simp add: rq_fresh_def new_send_request_def)
  from assms(1) have "rq_await_suspend sr sp sm (new_send_request data, rt) = (Inr True, w)"
    by (auto simp: udp_send_to_def split: sum.splits if_splits prod.splits bool.splits)
  from rq_suspended_inv(1) [OF f assms(2) this] have "rq_inv w" .
  from udp_sending.resumed_exactly_once [OF this assms(3)] assms(4)
  show "rq_resumed (fst w') \<le> 1" and "rt_queue (snd w') = [] \<Longrightarrow> \<not> rq_in_flight (fst w') \<Longrightarrow> rq_resumed (fst w') = 1" by simp_all
qed

end
