(* ===== verification/Udp_Recv.thy ===== *)
theory Udp_Recv
  imports Udp_Socket
begin

text \<open>
  Receiving on a \<open>udp_socket\<close> (\<open>recv_from\<close>, \<open>recv_from_into\<close> of \<open>src/udp.cpp\<close>): the operations of one
  socket share the \<open>data\<close> pointer of its libuv handle, which names the operation that waits. Closing
  the socket is part of the runs, because the jobs of an operation use the socket's handle.
\<close>

section \<open>State\<close>

record 'a recv_op =
  rv_size :: nat
  rv_buffer :: string
  rv_addr :: "'a sockaddr option"
  rv_continuation :: bool
  rv_keep_alive :: bool
  rv_stop_callback :: bool
  rv_completed :: bool
  rv_status :: uv_status
  rv_nread :: nat
  rv_cancel_requested :: bool
  rv_resumed :: nat

definition new_recv_op :: "nat \<Rightarrow> 'a recv_op" where
  "new_recv_op n = \<lparr>rv_size = n, rv_buffer = [], rv_addr = None, rv_continuation = False, rv_keep_alive = False,
     rv_stop_callback = False, rv_completed = False, rv_status = Uv_ok, rv_nread = 0, rv_cancel_requested = False, rv_resumed = 0\<rparr>"

text \<open>
  The socket, its handle's \<open>data\<close> pointer, whether libuv receives on it and whether it is closed, the
  operations, and the datagrams handed out. \<open>uw_crashed\<close> is set when a job uses the null pointer that
  \<open>close\<close> has left in the socket; nothing happens after that.
\<close>

record 'a udp_state =
  uw_socket :: udp_socket
  uw_data :: "nat option"
  uw_receiving :: bool
  uw_closed :: bool
  uw_ops :: "nat \<Rightarrow> 'a recv_op"
  uw_count :: nat
  uw_delivered :: "(nat \<times> string \<times> 'a sockaddr option) list"
  uw_crashed :: bool

datatype udp_job = Uj_recv nat | Uj_cancel nat | Uj_close

type_synonym 'a udp_world = "'a udp_state \<times> udp_job uv_runtime"

definition set_recv_op :: "nat \<Rightarrow> 'a recv_op \<Rightarrow> 'a udp_state \<Rightarrow> 'a udp_state" where
  "set_recv_op i x s = s\<lparr>uw_ops := (uw_ops s)(i := x)\<rparr>"

section \<open>Handlers\<close>

definition recv_complete :: "'a recv_op \<Rightarrow> 'a recv_op" where
  "recv_complete x =
     (if rv_completed x then x
      else x\<lparr>rv_completed := True, rv_continuation := False, rv_resumed := rv_resumed x + (if rv_continuation x then 1 else 0),
             rv_stop_callback := False, rv_keep_alive := False\<rparr>)"

definition recv_cancel_job :: "nat \<Rightarrow> 'a udp_state \<Rightarrow> 'a udp_state" where
  "recv_cancel_job i s =
     (let x = uw_ops s i in
      if rv_completed x then s
      else if us_handle (uw_socket s) = None then s\<lparr>uw_crashed := True\<rparr>
      else let s = (if uw_data s = Some i then s\<lparr>uw_receiving := False, uw_data := None\<rparr> else s)
           in set_recv_op i (recv_complete (x\<lparr>rv_cancel_requested := True, rv_status := Uv_err UV_ECANCELED\<rparr>)) s)"

definition recv_start_job :: "uv_status \<Rightarrow> nat \<Rightarrow> 'a udp_state \<Rightarrow> 'a udp_state" where
  "recv_start_job start_rc i s =
     (let x = uw_ops s i in
      if rv_completed x then s
      else if us_handle (uw_socket s) = None then s\<lparr>uw_crashed := True\<rparr>
      else if uw_data s \<noteq> None then set_recv_op i (recv_complete (x\<lparr>rv_status := Uv_err UV_EBUSY\<rparr>)) s
      else (case start_rc of
              Uv_ok \<Rightarrow> s\<lparr>uw_data := Some i, uw_receiving := True\<rparr>
            | Uv_err e \<Rightarrow> set_recv_op i (recv_complete (x\<lparr>rv_status := Uv_err e\<rparr>)) (s\<lparr>uw_data := None\<rparr>)))"

text \<open>
  libuv's callback: an error, or a datagram (already cut to the buffer it was offered) with its
  sender. A length of zero is taken for \<open>nothing to read\<close>.
\<close>

definition recv_cb :: "uv_errno + string \<times> 'a sockaddr option \<Rightarrow> 'a udp_state \<Rightarrow> 'a udp_state" where
  "recv_cb nread s =
     (if (case nread of Inl e \<Rightarrow> False | Inr d \<Rightarrow> length (fst d) = 0) then s
      else (case uw_data s of
              None \<Rightarrow> s
            | Some i \<Rightarrow>
                (let x = uw_ops s i;
                     x = (case nread of
                            Inl e \<Rightarrow> x\<lparr>rv_status := Uv_err e, rv_nread := 0\<rparr>
                          | Inr (bytes, addr) \<Rightarrow>
                              (let x = x\<lparr>rv_status := Uv_ok, rv_nread := length bytes, rv_buffer := bytes\<rparr>
                               in case addr of None \<Rightarrow> x | Some a \<Rightarrow> x\<lparr>rv_addr := Some a\<rparr>));
                     s = (case nread of Inl e \<Rightarrow> s | Inr d \<Rightarrow> s\<lparr>uw_delivered := uw_delivered s @ [(i, d)]\<rparr>)
                 in set_recv_op i (recv_complete x) (s\<lparr>uw_receiving := False, uw_data := None\<rparr>))))"

definition recv_stop :: "nat \<Rightarrow> 'a udp_world \<Rightarrow> 'a udp_world" where
  "recv_stop i w = (if rv_stop_callback (uw_ops (fst w) i) then (fst w, snd (post (Uj_cancel i) (snd w))) else w)"

definition recv_await_suspend :: "bool \<Rightarrow> bool \<Rightarrow> bool \<Rightarrow> nat \<Rightarrow> 'a udp_world \<Rightarrow> bool result \<times> 'a udp_world" where
  "recv_await_suspend stop_requested stop_possible stop_meanwhile i w =
     (let x = uw_ops (fst w) i in
      if stop_requested
      then (Inr False, set_recv_op i (x\<lparr>rv_cancel_requested := True, rv_status := Uv_err UV_ECANCELED\<rparr>) (fst w), snd w)
      else
        let w = (set_recv_op i (x\<lparr>rv_continuation := True, rv_keep_alive := True, rv_stop_callback := stop_possible\<rparr>) (fst w), snd w);
            w = (if stop_possible \<and> stop_meanwhile then recv_stop i w else w)
        in (case post (Uj_recv i) (snd w) of
              (Inl e, rt) \<Rightarrow> (Inl e, fst w, rt)
            | (Inr _, rt) \<Rightarrow> (Inr True, fst w, rt)))"

text \<open>What \<open>await_resume\<close> of \<open>recv_from_into\<close> and then \<open>recv_from\<close> hand back.\<close>

definition recv_op_result :: "('a \<Rightarrow> uv_errno + string) \<Rightarrow> ('a \<Rightarrow> uv_errno + string) \<Rightarrow> 'a recv_op \<Rightarrow> udp_receive_result result" where
  "recv_op_result name4 name6 x =
     (if rv_status x = Uv_err UV_ECANCELED \<or> (rv_cancel_requested x \<and> rv_status x = Uv_ok) then Inl Operation_cancelled
      else (case rv_status x of
              Uv_err e \<Rightarrow> throw_uv_error e ''uv_udp_recv_start''
            | Uv_ok \<Rightarrow>
                (case rv_addr x of
                   None \<Rightarrow> Inl (Runtime_error ''udp recv_from missing peer address'')
                 | Some a \<Rightarrow> make_receive_result name4 name6 (rv_nread x) a)))"

definition recv_from_result :: "('a \<Rightarrow> uv_errno + string) \<Rightarrow> ('a \<Rightarrow> uv_errno + string) \<Rightarrow> 'a recv_op \<Rightarrow> udp_datagram result" where
  "recv_from_result name4 name6 x =
     (case recv_op_result name4 name6 x of
        Inl e \<Rightarrow> Inl e
      | Inr result \<Rightarrow> Inr (make_datagram (rv_buffer x) result))"

text \<open>\<open>recv_from_into\<close> up to its suspension; the new operation gets the next number.\<close>

definition recv_from_into :: "('a \<Rightarrow> uv_errno + string) \<Rightarrow> ('a \<Rightarrow> uv_errno + string) \<Rightarrow> bool \<Rightarrow> bool \<Rightarrow> bool \<Rightarrow> nat \<Rightarrow> 'a udp_world
    \<Rightarrow> udp_receive_result awaited \<times> 'a udp_world" where
  "recv_from_into name4 name6 stop_requested stop_possible stop_meanwhile n w =
     (case ensure_udp_handle (uw_socket (fst w)) of
        Inl e \<Rightarrow> (Continues (Inl e), w)
      | Inr _ \<Rightarrow>
          if \<not> us_bound (uw_socket (fst w))
          then (Continues (Inl (Runtime_error ''udp socket must be bound before recv_from'')), w)
          else if n = 0 then (Continues (Inl (Runtime_error ''recv_from_into buffer must not be empty'')), w)
          else
            let i = uw_count (fst w);
                w = (set_recv_op i (new_recv_op n) ((fst w)\<lparr>uw_count := Suc i\<rparr>), snd w)
            in (case recv_await_suspend stop_requested stop_possible stop_meanwhile i w of
                  (Inl e, w) \<Rightarrow> (Continues (Inl e), w)
                | (Inr False, w) \<Rightarrow> (Continues (recv_op_result name4 name6 (uw_ops (fst w) i)), w)
                | (Inr True, w) \<Rightarrow> (Suspended, w)))"

text \<open>\<open>recv_from\<close> checks before it allocates its buffer.\<close>

definition recv_from :: "('a \<Rightarrow> uv_errno + string) \<Rightarrow> ('a \<Rightarrow> uv_errno + string) \<Rightarrow> bool \<Rightarrow> bool \<Rightarrow> bool \<Rightarrow> nat \<Rightarrow> 'a udp_world
    \<Rightarrow> udp_receive_result awaited \<times> 'a udp_world" where
  "recv_from name4 name6 stop_requested stop_possible stop_meanwhile max_bytes w =
     (case ensure_udp_handle (uw_socket (fst w)) of
        Inl e \<Rightarrow> (Continues (Inl e), w)
      | Inr _ \<Rightarrow>
          if \<not> us_bound (uw_socket (fst w))
          then (Continues (Inl (Runtime_error ''udp socket must be bound before recv_from'')), w)
          else if max_bytes = 0 then (Continues (Inl (Runtime_error ''recv_from max_bytes must be > 0'')), w)
          else recv_from_into name4 name6 stop_requested stop_possible stop_meanwhile max_bytes w)"

section \<open>Runs\<close>

text \<open>
  \<open>close\<close> on the socket and its job, which stops receiving and closes the handle.
\<close>

definition udp_close_step :: "'a udp_world \<Rightarrow> 'a udp_world" where
  "udp_close_step w =
     (let k = uw_socket (fst w) in
      if us_handle k = None \<or> \<not> us_runtime k then w
      else ((fst w)\<lparr>uw_socket := k\<lparr>us_handle := None, us_bound := False\<rparr>\<rparr>, snd (post Uj_close (snd w))))"

definition udp_run_job :: "uv_status \<Rightarrow> 'a udp_world \<Rightarrow> 'a udp_world" where
  "udp_run_job start_rc w =
     (case rt_queue (snd w) of
        [] \<Rightarrow> w
      | j # js \<Rightarrow>
          (let rt = (snd w)\<lparr>rt_queue := js\<rparr> in
           case j of
             Uj_recv i \<Rightarrow> (recv_start_job start_rc i (fst w), rt)
           | Uj_cancel i \<Rightarrow> (recv_cancel_job i (fst w), rt)
           | Uj_close \<Rightarrow> ((fst w)\<lparr>uw_receiving := False, uw_closed := True\<rparr>, rt)))"

datatype 'a udp_event =
    Ue_recv bool bool bool nat
  | Ue_stop nat
  | Ue_job uv_status
  | Ue_cb "uv_errno + string \<times> 'a sockaddr option"
  | Ue_close

fun udp_step :: "('a \<Rightarrow> uv_errno + string) \<times> ('a \<Rightarrow> uv_errno + string) \<Rightarrow> 'a udp_event \<Rightarrow> 'a udp_world \<Rightarrow> 'a udp_world" where
  "udp_step names (Ue_recv a b c n) w = (if uw_crashed (fst w) then w else snd (recv_from_into (fst names) (snd names) a b c n w))"
| "udp_step names (Ue_stop i) w = (if uw_crashed (fst w) then w else recv_stop i w)"
| "udp_step names (Ue_job start_rc) w = (if uw_crashed (fst w) then w else udp_run_job start_rc w)"
| "udp_step names (Ue_cb r) w = (if uw_crashed (fst w) \<or> \<not> uw_receiving (fst w) then w else (recv_cb r (fst w), snd w))"
| "udp_step names Ue_close w = (if uw_crashed (fst w) then w else udp_close_step w)"

fun udp_run :: "('a \<Rightarrow> uv_errno + string) \<times> ('a \<Rightarrow> uv_errno + string) \<Rightarrow> 'a udp_event list \<Rightarrow> 'a udp_world \<Rightarrow> 'a udp_world" where
  "udp_run names [] w = w"
| "udp_run names (ev # evs) w = udp_run names evs (udp_step names ev w)"

definition new_udp_state :: "udp_socket \<Rightarrow> 'a udp_state" where
  "new_udp_state k = \<lparr>uw_socket = k, uw_data = None, uw_receiving = False, uw_closed = False, uw_ops = (\<lambda>_. new_recv_op 0), uw_count = 0,
     uw_delivered = [], uw_crashed = False\<rparr>"

section \<open>What a run keeps\<close>

definition recv_op_good :: "'a recv_op \<Rightarrow> bool" where
  "recv_op_good x \<longleftrightarrow> rv_resumed x \<le> 1 \<and> (rv_completed x \<longrightarrow> \<not> rv_continuation x) \<and> (rv_continuation x \<longrightarrow> rv_resumed x = 0)"

text \<open>An operation that was handed the datagram \<open>d\<close>, and one that may still be handed one.\<close>

definition recv_got :: "string \<times> 'a sockaddr option \<Rightarrow> 'a recv_op \<Rightarrow> bool" where
  "recv_got d x \<longleftrightarrow> rv_completed x \<and> rv_resumed x = 1 \<and> rv_status x = Uv_ok \<and> \<not> rv_cancel_requested x
     \<and> rv_nread x = length (fst d) \<and> rv_buffer x = fst d \<and> rv_addr x = snd d"

definition recv_open :: "'a recv_op \<Rightarrow> bool" where
  "recv_open x \<longleftrightarrow> rv_continuation x \<and> \<not> rv_completed x \<and> \<not> rv_cancel_requested x \<and> rv_addr x = None"

fun is_recv :: "udp_job \<Rightarrow> bool" where
  "is_recv (Uj_recv i) = True"
| "is_recv _ = False"

definition udp_inv :: "'a udp_world \<Rightarrow> bool" where
  "udp_inv w \<longleftrightarrow> (\<forall>i. recv_op_good (uw_ops (fst w) i))
     \<and> (\<forall>i\<in>set_option (uw_data (fst w)). i < uw_count (fst w) \<and> recv_open (uw_ops (fst w) i) \<and> Uj_recv i \<notin> set (rt_queue (snd w)))
     \<and> (\<forall>i. Uj_recv i \<in> set (rt_queue (snd w)) \<longrightarrow>
           i < uw_count (fst w) \<and> (rv_completed (uw_ops (fst w) i) \<or> recv_open (uw_ops (fst w) i)))
     \<and> distinct (filter is_recv (rt_queue (snd w)))
     \<and> (\<forall>(i, d)\<in>set (uw_delivered (fst w)). i < uw_count (fst w) \<and> recv_got d (uw_ops (fst w) i))
     \<and> distinct (map fst (uw_delivered (fst w)))"

lemma set_recv_op_sel [simp]:
  "uw_ops (set_recv_op i x s) = (uw_ops s)(i := x)" "uw_count (set_recv_op i x s) = uw_count s"
  "uw_data (set_recv_op i x s) = uw_data s" "uw_socket (set_recv_op i x s) = uw_socket s"
  "uw_crashed (set_recv_op i x s) = uw_crashed s" "uw_receiving (set_recv_op i x s) = uw_receiving s"
  "uw_closed (set_recv_op i x s) = uw_closed s" "uw_delivered (set_recv_op i x s) = uw_delivered s"
  by (simp_all add: set_recv_op_def)

lemma recv_op_good_complete [intro]: "recv_op_good x \<Longrightarrow> recv_op_good (recv_complete x)"
  by (auto simp: recv_op_good_def recv_complete_def)

lemma recv_op_good_upd [simp]:
  "recv_op_good (x\<lparr>rv_status := st\<rparr>) = recv_op_good x" "recv_op_good (x\<lparr>rv_cancel_requested := b\<rparr>) = recv_op_good x"
  "recv_op_good (x\<lparr>rv_nread := n\<rparr>) = recv_op_good x" "recv_op_good (x\<lparr>rv_buffer := bs\<rparr>) = recv_op_good x"
  "recv_op_good (x\<lparr>rv_addr := a\<rparr>) = recv_op_good x"
  by (simp_all add: recv_op_good_def)

lemma recv_complete_sel [simp]:
  "rv_completed (recv_complete x)" "rv_status (recv_complete x) = rv_status x" "rv_nread (recv_complete x) = rv_nread x"
  "rv_buffer (recv_complete x) = rv_buffer x" "rv_addr (recv_complete x) = rv_addr x"
  "rv_cancel_requested (recv_complete x) = rv_cancel_requested x"
  by (simp_all add: recv_complete_def)

text \<open>A completed operation is never changed, so what it was handed stays.\<close>

lemma udp_inv_finish:
  assumes "udp_inv w" and "uw_ops s' = (uw_ops (fst w))(i := x)"
    and "\<not> rv_completed (uw_ops (fst w) i)" and "recv_op_good x" and "rv_completed x"
    and "uw_data s' = None \<or> (uw_data s' = uw_data (fst w) \<and> uw_data (fst w) \<noteq> Some i)"
    and "uw_count s' = uw_count (fst w)"
    and "uw_delivered s' = uw_delivered (fst w) \<or>
      (uw_delivered s' = uw_delivered (fst w) @ [(i, d)] \<and> i < uw_count (fst w) \<and> recv_got d x)"
  shows "udp_inv (s', snd w)"
proof -
  have nd: "i \<noteq> k" if "(k, e) \<in> set (uw_delivered (fst w))" for k e
    using assms(1,3) that by (auto simp: udp_inv_def recv_got_def)
  show ?thesis
    unfolding udp_inv_def fst_conv snd_conv
  proof (intro conjI)
    show "\<forall>k. recv_op_good (uw_ops s' k)" using assms(1,2,4) by (simp add: udp_inv_def)
    show "\<forall>k\<in>set_option (uw_data s'). k < uw_count s' \<and> recv_open (uw_ops s' k) \<and> Uj_recv k \<notin> set (rt_queue (snd w))"
      using assms(1,2,6,7) by (auto simp: udp_inv_def)
    show "\<forall>k. Uj_recv k \<in> set (rt_queue (snd w)) \<longrightarrow> k < uw_count s' \<and> (rv_completed (uw_ops s' k) \<or> recv_open (uw_ops s' k))"
      using assms(1,2,5,7) by (auto simp: udp_inv_def)
    show "distinct (filter is_recv (rt_queue (snd w)))" using assms(1) by (simp add: udp_inv_def)
    have "\<forall>(k, d)\<in>set (uw_delivered (fst w)). k < uw_count s' \<and> recv_got d (uw_ops s' k)"
      using assms(1,2,7) nd by (fastforce simp: udp_inv_def)
    moreover have "uw_ops s' i = x" using assms(2) by simp
    ultimately show "\<forall>(k, d)\<in>set (uw_delivered s'). k < uw_count s' \<and> recv_got d (uw_ops s' k)"
      using assms(7,8) by (elim disjE conjE) simp_all
    show "distinct (map fst (uw_delivered s'))" using assms(1,8) nd by (fastforce simp: udp_inv_def)
  qed
qed

lemma udp_inv_same:
  assumes "udp_inv w" and "uw_ops s' = uw_ops (fst w)" and "uw_count s' = uw_count (fst w)"
    and "uw_data s' = None \<or> uw_data s' = uw_data (fst w)" and "uw_delivered s' = uw_delivered (fst w)"
  shows "udp_inv (s', snd w)"
  using assms unfolding udp_inv_def by auto

text \<open>Popping a job, and posting one that starts no operation.\<close>

lemma udp_inv_pop: "udp_inv w \<Longrightarrow> rt_queue (snd w) = j # js \<Longrightarrow> udp_inv (fst w, (snd w)\<lparr>rt_queue := js\<rparr>)"
  unfolding udp_inv_def by (auto split: if_splits)

lemma udp_inv_post: "udp_inv w \<Longrightarrow> \<not> is_recv j \<Longrightarrow> udp_inv (fst w, snd (post j (snd w)))"
  unfolding udp_inv_def by (cases j) (auto simp: post_queue split: if_splits)

lemma udp_inv_cancel_job:
  assumes "udp_inv w"
  shows "udp_inv (recv_cancel_job i (fst w), snd w)"
proof (cases "rv_completed (uw_ops (fst w) i) \<or> us_handle (uw_socket (fst w)) = None")
  case True
  with assms show ?thesis by (auto simp: recv_cancel_job_def Let_def intro!: udp_inv_same [OF assms])
next
  case False
  have "recv_op_good (uw_ops (fst w) i)" using assms by (simp add: udp_inv_def)
  with False show ?thesis
    by (auto simp: recv_cancel_job_def Let_def intro!: udp_inv_finish [OF assms(1), of _ i] recv_op_good_complete)
qed

lemma udp_inv_start_job:
  assumes "udp_inv w" and "i < uw_count (fst w)" and "rv_completed (uw_ops (fst w) i) \<or> recv_open (uw_ops (fst w) i)"
    and "uw_data (fst w) \<noteq> Some i" and "Uj_recv i \<notin> set (rt_queue (snd w))"
  shows "udp_inv (recv_start_job rc i (fst w), snd w)"
proof (cases "rv_completed (uw_ops (fst w) i) \<or> us_handle (uw_socket (fst w)) = None")
  case True
  with assms show ?thesis by (auto simp: recv_start_job_def Let_def intro!: udp_inv_same [OF assms(1)])
next
  case False
  have g: "recv_op_good (uw_ops (fst w) i)" using assms(1) by (simp add: udp_inv_def)
  show ?thesis
  proof (cases "uw_data (fst w) = None \<and> rc = Uv_ok")
    case True
    with False assms show ?thesis by (auto simp: recv_start_job_def Let_def udp_inv_def)
  next
    case nok: False
    then show ?thesis using False g assms(4)
      by (cases rc) (auto simp: recv_start_job_def Let_def intro!: udp_inv_finish [OF assms(1), of _ i] recv_op_good_complete)
  qed
qed

lemma udp_inv_cb:
  assumes "udp_inv w"
  shows "udp_inv (recv_cb r (fst w), snd w)"
proof (cases "uw_data (fst w)")
  case None
  have "(fst w, snd w) = w" by simp
  with assms None show ?thesis by (auto simp: recv_cb_def)
next
  case (Some i)
  have g: "recv_op_good (uw_ops (fst w) i)" and o: "recv_open (uw_ops (fst w) i)" "i < uw_count (fst w)"
    using assms Some by (simp_all add: udp_inv_def)
  show ?thesis
  proof (cases r)
    case (Inl e)
    with Some g o show ?thesis
      by (auto simp: recv_cb_def Let_def recv_open_def intro!: udp_inv_finish [OF assms(1), of _ i] recv_op_good_complete)
  next
    case (Inr d)
    have "(fst w, snd w) = w" by simp
    with Some g o Inr assms show ?thesis
      by (cases d; cases "snd d")
        (auto simp: recv_cb_def Let_def recv_open_def recv_got_def recv_op_good_def recv_complete_def intro!: udp_inv_finish [OF assms(1), of _ i _ d] recv_op_good_complete)
  qed
qed

lemma udp_inv_close: "udp_inv w \<Longrightarrow> udp_inv (udp_close_step w)"
proof -
  assume i: "udp_inv w"
  let ?s = "(fst w)\<lparr>uw_socket := (uw_socket (fst w))\<lparr>us_handle := None, us_bound := False\<rparr>\<rparr>"
  have "udp_inv (?s, snd w)" by (rule udp_inv_same [OF i]) simp_all
  from udp_inv_post [OF this, of Uj_close] i show ?thesis by (simp add: udp_close_step_def Let_def)
qed

lemma udp_inv_stop: "udp_inv w \<Longrightarrow> udp_inv (recv_stop i w)"
  by (auto simp: recv_stop_def intro!: udp_inv_post)

lemma udp_inv_job:
  assumes "udp_inv w"
  shows "udp_inv (udp_run_job rc w)"
proof (cases "rt_queue (snd w)")
  case Nil
  with assms show ?thesis by (simp add: udp_run_job_def)
next
  case (Cons j js)
  let ?w = "(fst w, (snd w)\<lparr>rt_queue := js\<rparr>)"
  have p: "udp_inv ?w" by (rule udp_inv_pop [OF assms Cons])
  show ?thesis
  proof (cases j)
    case (Uj_recv i)
    have "Uj_recv i \<notin> set js" "i < uw_count (fst w)" "rv_completed (uw_ops (fst w) i) \<or> recv_open (uw_ops (fst w) i)"
      "uw_data (fst w) \<noteq> Some i" using assms Cons Uj_recv by (auto simp: udp_inv_def)
    with udp_inv_start_job [OF p, of i rc] Cons Uj_recv show ?thesis by (simp add: udp_run_job_def)
  next
    case (Uj_cancel i)
    with udp_inv_cancel_job [OF p, of i] Cons show ?thesis by (simp add: udp_run_job_def)
  next
    case Uj_close
    with Cons udp_inv_same [OF p, of "(fst w)\<lparr>uw_receiving := False, uw_closed := True\<rparr>"] show ?thesis
      by (simp add: udp_run_job_def)
  qed
qed

text \<open>A new operation is fresh: no job, delivery or pointer names it yet.\<close>

lemma udp_inv_new:
  assumes "udp_inv w" and "recv_op_good x" and "uw_count s' = Suc (uw_count (fst w))"
    and "uw_ops s' = (uw_ops (fst w))(uw_count (fst w) := x)" and "uw_data s' = uw_data (fst w)" and "uw_delivered s' = uw_delivered (fst w)"
  shows "udp_inv (s', snd w)"
  using assms unfolding udp_inv_def by (fastforce simp: less_Suc_eq)

lemma udp_inv_post_start:
  assumes "udp_inv w" and "i < uw_count (fst w)" and "recv_open (uw_ops (fst w) i)" and "Uj_recv i \<notin> set (rt_queue (snd w))"
    and "uw_data (fst w) \<noteq> Some i"
  shows "udp_inv (fst w, snd (post (Uj_recv i) (snd w)))"
  using assms unfolding udp_inv_def by (auto simp: post_queue split: if_splits)

lemma udp_inv_recv:
  assumes "udp_inv w"
  shows "udp_inv (snd (recv_from_into n4 n6 a b c n w))"
proof (cases "us_handle (uw_socket (fst w)) = None \<or> \<not> us_bound (uw_socket (fst w)) \<or> n = 0")
  case True
  with assms show ?thesis by (auto simp: recv_from_into_def ensure_udp_handle_def)
next
  case ok: False
  let ?i = "uw_count (fst w)"
  let ?x = "(new_recv_op n)\<lparr>rv_continuation := True, rv_keep_alive := True, rv_stop_callback := b\<rparr>"
  let ?s = "set_recv_op ?i ?x (set_recv_op ?i (new_recv_op n) ((fst w)\<lparr>uw_count := Suc ?i\<rparr>))"
  have fresh: "Uj_recv ?i \<notin> set (rt_queue (snd w))" "uw_data (fst w) \<noteq> Some ?i" using assms by (auto simp: udp_inv_def)
  have g: "recv_op_good ?x" "recv_op_good ((new_recv_op n)\<lparr>rv_cancel_requested := True, rv_status := Uv_err UV_ECANCELED\<rparr>)"
    by (simp_all add: recv_op_good_def new_recv_op_def)
  have i1: "udp_inv (?s, snd w)" by (rule udp_inv_new [OF assms g(1)]) simp_all
  have o: "recv_open ?x" by (simp add: recv_open_def new_recv_op_def)
  define W where "W = (if b \<and> c then recv_stop ?i (?s, snd w) else (?s, snd w))"
  have W: "udp_inv W" "Uj_recv ?i \<notin> set (rt_queue (snd W))" "fst W = ?s"
    using udp_inv_stop [OF i1, of ?i] i1 fresh(1) by (auto simp: W_def recv_stop_def post_queue)
  have "udp_inv (fst W, snd (post (Uj_recv ?i) (snd W)))"
    by (rule udp_inv_post_start [OF W(1)]) (use W(2,3) o fresh(2) in simp_all)
  moreover have "udp_inv (set_recv_op ?i ((new_recv_op n)\<lparr>rv_cancel_requested := True, rv_status := Uv_err UV_ECANCELED\<rparr>)
      (set_recv_op ?i (new_recv_op n) ((fst w)\<lparr>uw_count := Suc ?i\<rparr>)), snd w)"
    by (rule udp_inv_new [OF assms g(2)]) simp_all
  ultimately show ?thesis using ok
    by (cases b; cases c) (auto simp: W(3) [symmetric] W_def recv_from_into_def recv_await_suspend_def ensure_udp_handle_def recv_stop_def Let_def
      split: sum.splits prod.splits)
qed

lemma udp_inv_step: "udp_inv w \<Longrightarrow> udp_inv (udp_step names ev w)"
  by (cases ev) (auto simp: udp_inv_recv udp_inv_stop udp_inv_job udp_inv_cb udp_inv_close)

lemma udp_inv_run: "udp_inv w \<Longrightarrow> udp_inv (udp_run names evs w)"
  by (induction evs arbitrary: w) (simp_all add: udp_inv_step)

lemma udp_inv_init: "rt_queue rt = [] \<Longrightarrow> udp_inv (new_udp_state k, rt)"
  by (simp add: udp_inv_def new_udp_state_def recv_op_good_def new_recv_op_def)

section \<open>What the code promises\<close>

text \<open>
  The datagrams libuv reported along a run: its callback with at least one byte, while it received. An
  empty datagram is left out: the callback takes it for \<open>nothing to read\<close>.
\<close>

definition udp_arrived :: "'a udp_event \<Rightarrow> 'a udp_world \<Rightarrow> (string \<times> 'a sockaddr option) list" where
  "udp_arrived ev w =
     (case ev of
        Ue_cb (Inr d) \<Rightarrow> (if \<not> uw_crashed (fst w) \<and> uw_receiving (fst w) \<and> fst d \<noteq> [] then [d] else [])
      | _ \<Rightarrow> [])"

fun udp_arrivals :: "('a \<Rightarrow> uv_errno + string) \<times> ('a \<Rightarrow> uv_errno + string) \<Rightarrow> 'a udp_event list \<Rightarrow> 'a udp_world
    \<Rightarrow> (string \<times> 'a sockaddr option) list" where
  "udp_arrivals names [] w = []"
| "udp_arrivals names (ev # evs) w = udp_arrived ev w @ udp_arrivals names evs (udp_step names ev w)"

text \<open>While libuv receives, an operation waits; and only a datagram sets an address.\<close>

definition udp_exact :: "'a udp_state \<Rightarrow> bool" where
  "udp_exact s \<longleftrightarrow> (uw_receiving s \<longrightarrow> uw_data s \<noteq> None) \<and>
     (\<forall>i. rv_addr (uw_ops s i) \<noteq> None \<longrightarrow> i \<in> fst ` set (uw_delivered s))"

lemma recv_stop_fst: "fst (recv_stop i w) = fst w"
  by (simp add: recv_stop_def)

lemma udp_exact_job:
  "udp_exact (fst w) \<Longrightarrow> udp_exact (fst (udp_run_job rc w)) \<and> uw_delivered (fst (udp_run_job rc w)) = uw_delivered (fst w)"
  by (auto simp: udp_run_job_def recv_start_job_def recv_cancel_job_def udp_exact_def Let_def
      split: list.split udp_job.split uv_status.split)

lemma udp_exact_recv:
  assumes "udp_exact (fst w)"
  shows "udp_exact (fst (snd (recv_from_into n4 n6 a b c n w))) \<and>
    uw_delivered (fst (snd (recv_from_into n4 n6 a b c n w))) = uw_delivered (fst w)"
  using assms
  by (auto simp: recv_from_into_def recv_await_suspend_def Let_def new_recv_op_def recv_stop_fst udp_exact_def
      split: sum.split prod.split)

lemma udp_exact_step:
  assumes "udp_exact (fst w)"
  shows "udp_exact (fst (udp_step names ev w)) \<and>
    map snd (uw_delivered (fst (udp_step names ev w))) = map snd (uw_delivered (fst w)) @ udp_arrived ev w"
proof (cases ev)
  case (Ue_recv a b c n)
  with udp_exact_recv [OF assms, of "fst names" "snd names" a b c n] assms show ?thesis by (simp add: udp_arrived_def)
next
  case (Ue_job rc)
  with udp_exact_job [OF assms, of rc] assms show ?thesis by (simp add: udp_arrived_def)
next
  case (Ue_cb r)
  show ?thesis
  proof (cases "uw_crashed (fst w) \<or> \<not> uw_receiving (fst w)")
    case True
    with assms Ue_cb show ?thesis by (auto simp: udp_arrived_def split: sum.split)
  next
    case False
    with assms obtain i where i: "uw_data (fst w) = Some i" by (auto simp: udp_exact_def)
    with False assms Ue_cb show ?thesis
      by (cases r) (auto simp: udp_arrived_def recv_cb_def udp_exact_def Let_def split: option.split)
  qed
next
  case Ue_close
  with assms show ?thesis by (auto simp: udp_arrived_def udp_close_step_def Let_def udp_exact_def)
qed (use assms in \<open>simp add: udp_arrived_def recv_stop_fst\<close>)

lemma udp_exact_run:
  "udp_exact (fst w) \<Longrightarrow> udp_exact (fst (udp_run names evs w)) \<and>
     map snd (uw_delivered (fst (udp_run names evs w))) = map snd (uw_delivered (fst w)) @ udp_arrivals names evs w"
proof (induction evs arbitrary: w)
  case (Cons ev evs)
  from udp_exact_step [OF Cons.prems, of names ev] Cons.IH show ?case by auto
qed simp

lemma recv_op_result_addr: "recv_op_result n4 n6 x = Inr r \<Longrightarrow> rv_addr x \<noteq> None"
  by (auto simp: recv_op_result_def split: if_splits uv_status.splits option.splits)

lemma recv_got_result:
  assumes "recv_got d x"
  shows "recv_op_result n4 n6 x =
      (case snd d of None \<Rightarrow> Inl (Runtime_error ''udp recv_from missing peer address'')
       | Some a \<Rightarrow> make_receive_result n4 n6 (length (fst d)) a)"
  using assms by (simp add: recv_got_def recv_op_result_def split: option.split)

lemma make_receive_result_size: "make_receive_result n4 n6 n a = Inr r \<Longrightarrow> ur_size r = n"
  by (cases a) (auto simp: filled_result_def split: sum.splits)

lemma recv_got_datagram:
  assumes "recv_got d x" and "recv_from_result n4 n6 x = Inr r"
  shows "ud_data r = fst d"
proof -
  from assms(2) obtain i where "recv_op_result n4 n6 x = Inr i" "r = make_datagram (rv_buffer x) i"
    by (auto simp: recv_from_result_def split: sum.splits)
  moreover from this(1) have "ur_size i = length (fst d)"
    unfolding recv_got_result [OF assms(1)] by (auto split: option.splits dest: make_receive_result_size)
  ultimately show ?thesis using assms(1) by (simp add: make_datagram_def recv_got_def)
qed


definition udp_demo_names :: "(nat \<Rightarrow> uv_errno + string) \<times> (nat \<Rightarrow> uv_errno + string)" where
  "udp_demo_names = (\<lambda>_. Inr ''127.0.0.1'', \<lambda>_. Inr ''::1'')"

text \<open>Two receives, a stop that comes after the first one's datagram, and an empty datagram for the second.\<close>

definition udp_demo_run :: "nat udp_event list" where
  "udp_demo_run = [Ue_recv False True False 16, Ue_job Uv_ok, Ue_cb (Inr (''ping'', Some (Af_inet 1 4242))), Ue_stop 0,
     Ue_recv False True False 16, Ue_job Uv_ok, Ue_cb (Inr ([], Some (Af_inet 1 4242)))]"


text \<open>An empty datagram is not delivered: the callback takes it for nothing to read.\<close>

lemma empty_datagram_ignored: "recv_cb (Inr ([], a)) s = s"
  by (simp add: recv_cb_def)

text \<open>
  \<open>close\<close> with a receive that waits: its job stops libuv's receiving but resumes nobody, and the
  receive stays in the \<open>data\<close> pointer. A stop after that runs a job that uses the null handle.
\<close>

lemma close_strands_receiver:
  assumes "uw_data (fst w) = Some i" and "rv_continuation (uw_ops (fst w) i)" and "rt_queue (snd w) = []"
    and "us_handle (uw_socket (fst w)) = Some h" and "us_runtime (uw_socket (fst w))" and "\<not> uw_crashed (fst w)"
    and "rt_send_rc (snd w) = Uv_ok" and "\<not> rt_shutting_down (snd w)" and "\<not> rv_completed (uw_ops (fst w) i)"
    and "w' = udp_run names [Ue_close, Ue_job rc] w"
  shows "rt_queue (snd w') = []" and "\<not> uw_receiving (fst w')" and "uw_data (fst w') = Some i"
    and "uw_ops (fst w') = uw_ops (fst w)" and "udp_run names (map Ue_cb rs) w' = w'"
    and "rv_stop_callback (uw_ops (fst w) i) \<Longrightarrow> uw_crashed (fst (udp_run names [Ue_stop i, Ue_job rc'] w'))"
proof -
  have cb: "udp_run names (map Ue_cb rs) v = v" if "\<not> uw_receiving (fst v)" for v :: "'a udp_world"
    using that by (induction rs) simp_all
  have w': "w' = ((fst w)\<lparr>uw_socket := (uw_socket (fst w))\<lparr>us_handle := None, us_bound := False\<rparr>, uw_receiving := False, uw_closed := True\<rparr>,
      (snd w)\<lparr>rt_queue := [], rt_wakeup := True\<rparr>)"
    unfolding assms(10) using assms(3-8)
    by (simp add: udp_close_step_def udp_run_job_def Let_def post_def async_send_def)
  then show "rt_queue (snd w') = []" "\<not> uw_receiving (fst w')" "uw_data (fst w') = Some i" "uw_ops (fst w') = uw_ops (fst w)"
    using assms(1) by simp_all
  then show "udp_run names (map Ue_cb rs) w' = w'" by (intro cb)
  show "uw_crashed (fst (udp_run names [Ue_stop i, Ue_job rc'] w'))" if "rv_stop_callback (uw_ops (fst w) i)"
    unfolding w' using that assms
    by (simp add: recv_stop_def udp_run_job_def recv_cancel_job_def Let_def post_def async_send_def)
qed

end
