(* ===== verification/Pipe_Client.thy ===== *)
theory Pipe_Client
  imports Udp_Recv
begin

text \<open>
  \<open>pipe_client\<close> of \<open>src/pipe.cpp\<close>: its handle, connecting, opening a file descriptor, the operations
  that delegate to \<open>src/stream_ops.hpp\<close> or read in a loop, and the loop that fetches a pipe's name.
  File descriptors are counted, because \<open>open\<close> has to give back the one it duplicates.
\<close>

section \<open>The client object\<close>

record pipe_client =
  pc_runtime :: bool
  pc_handle :: "nat option"
  pc_connected :: bool
  pc_ipc :: bool

text \<open>
  The loop's part: posted closing jobs, the next handle, the calls of \<open>uv_close\<close> per handle, and the
  handles that were deleted while libuv still had them. \<open>pl_fds\<close> are the open file descriptors that
  the code handles itself, and \<open>pl_handle_fd\<close> is the one that \<open>uv_pipe_open\<close> has handed to a handle:
  \<open>uv_close\<close> of the handle closes it.
\<close>

record pipe_loop =
  pl_runtime :: "nat uv_runtime"
  pl_next :: nat
  pl_closes :: "nat \<Rightarrow> nat"
  pl_freed :: "nat list"
  pl_fds :: "int list"
  pl_handle_fd :: "nat \<rightharpoonup> int"

definition pipe_client_new :: "bool \<Rightarrow> uv_status \<Rightarrow> pipe_loop \<Rightarrow> pipe_client result \<times> pipe_loop" where
  "pipe_client_new ipc init_rc l =
     (case init_rc of
        Uv_err e \<Rightarrow> (throw_uv_error e ''uv_pipe_init'', l)
      | Uv_ok \<Rightarrow> (Inr \<lparr>pc_runtime = True, pc_handle = Some (pl_next l), pc_connected = False, pc_ipc = ipc\<rparr>,
                 l\<lparr>pl_next := Suc (pl_next l)\<rparr>))"

definition pipe_client_of_handle :: "nat \<Rightarrow> bool \<Rightarrow> bool \<Rightarrow> pipe_client" where
  "pipe_client_of_handle handle connected ipc = \<lparr>pc_runtime = True, pc_handle = Some handle, pc_connected = connected, pc_ipc = ipc\<rparr>"

definition pipe_client_moved_from :: "pipe_client \<Rightarrow> pipe_client" where
  "pipe_client_moved_from other = other\<lparr>pc_runtime := False, pc_handle := None, pc_connected := False, pc_ipc := False\<rparr>"

definition pipe_client_move :: "pipe_client \<Rightarrow> pipe_client \<times> pipe_client" where
  "pipe_client_move other =
     (\<lparr>pc_runtime = pc_runtime other, pc_handle = pc_handle other, pc_connected = pc_connected other, pc_ipc = pc_ipc other\<rparr>,
      pipe_client_moved_from other)"

definition pipe_client_close :: "pipe_client \<Rightarrow> pipe_loop \<Rightarrow> pipe_client \<times> pipe_loop" where
  "pipe_client_close c l =
     (if \<not> pc_runtime c \<or> pc_handle c = None then (c, l)
      else (c\<lparr>pc_handle := None, pc_connected := False\<rparr>,
            l\<lparr>pl_runtime := snd (post (the (pc_handle c)) (pl_runtime l))\<rparr>))"

definition pipe_close_job :: "nat \<Rightarrow> pipe_loop \<Rightarrow> pipe_loop" where
  "pipe_close_job handle l =
     (if 0 < pl_closes l handle then l
      else l\<lparr>pl_closes := (pl_closes l)(handle := Suc (pl_closes l handle)),
             pl_fds := (case pl_handle_fd l handle of None \<Rightarrow> pl_fds l | Some fd \<Rightarrow> remove1 fd (pl_fds l)),
             pl_handle_fd := (pl_handle_fd l)(handle := None)\<rparr>)"

text \<open>The loop runs the oldest job.\<close>

definition pipe_run_job :: "pipe_loop \<Rightarrow> pipe_loop" where
  "pipe_run_job l =
     (case rt_queue (pl_runtime l) of
        [] \<Rightarrow> l
      | h # hs \<Rightarrow> pipe_close_job h (l\<lparr>pl_runtime := (pl_runtime l)\<lparr>rt_queue := hs\<rparr>\<rparr>))"

definition pipe_client_assign :: "bool \<Rightarrow> pipe_client \<Rightarrow> pipe_client \<Rightarrow> pipe_loop \<Rightarrow> pipe_client \<times> pipe_client \<times> pipe_loop" where
  "pipe_client_assign same_object this other l =
     (if same_object then (this, other, l)
      else let (this, l) = pipe_client_close this l
      in (this\<lparr>pc_runtime := pc_runtime other, pc_handle := pc_handle other, pc_connected := pc_connected other, pc_ipc := pc_ipc other\<rparr>,
          pipe_client_moved_from other, l))"

section \<open>Connecting\<close>

text \<open>\<open>uv_pipe_connect\<close> has no result of its own: once the job has run the request is libuv's.\<close>

definition new_pipe_connect :: uv_request where
  "new_pipe_connect = \<lparr>rq_continuation = False, rq_keep_alive = False, rq_stop_callback = False, rq_completed = False,
     rq_status = Uv_ok, rq_cancel_requested = False, rq_started = False, rq_in_flight = False, rq_resumed = 0\<rparr>"

definition pipe_connect_start_job :: "unit \<Rightarrow> uv_request \<Rightarrow> uv_request" where
  "pipe_connect_start_job u x = (if rq_completed x then x else x\<lparr>rq_started := True, rq_in_flight := True\<rparr>)"

definition pipe_connect :: "bool \<Rightarrow> bool \<Rightarrow> bool \<Rightarrow> pipe_client \<Rightarrow> rq_job uv_runtime \<Rightarrow> unit awaited \<times> uv_request \<times> rq_job uv_runtime" where
  "pipe_connect stop_requested stop_possible stop_meanwhile c rt =
     (if pc_handle c = None then (Continues (Inl (Runtime_error ''pipe handle is null'')), new_pipe_connect, rt)
      else if pc_connected c then (Continues (Inl (Runtime_error ''pipe client is already connected'')), new_pipe_connect, rt)
      else (case rq_await_suspend stop_requested stop_possible stop_meanwhile (new_pipe_connect, rt) of
              (Inl e, w) \<Rightarrow> (Continues (Inl e), w)
            | (Inr False, w) \<Rightarrow> (Continues (rq_await_resume ''uv_pipe_connect'' (fst w)), w)
            | (Inr True, w) \<Rightarrow> (Suspended, w)))"

definition pipe_connect_end :: "uv_request \<Rightarrow> pipe_client \<Rightarrow> unit result \<times> pipe_client" where
  "pipe_connect_end x c =
     (case rq_await_resume ''uv_pipe_connect'' x of
        Inl e \<Rightarrow> (Inl e, c)
      | Inr _ \<Rightarrow> (Inr (), c\<lparr>pc_connected := True\<rparr>))"

interpretation pipe_connecting: one_shot rq_complete pipe_connect_start_job rq_on_done "\<lambda>s. s"
  by unfold_locales (auto simp: pipe_connect_start_job_def rq_on_done_def)

section \<open>Opening a file descriptor\<close>

definition duplicate_file_descriptor :: "uv_errno + int \<Rightarrow> pipe_loop \<Rightarrow> int result \<times> pipe_loop" where
  "duplicate_file_descriptor dup l =
     (case dup of
        Inl e \<Rightarrow> (throw_uv_error e ''dup'', l)
      | Inr fd \<Rightarrow> (Inr fd, l\<lparr>pl_fds := fd # pl_fds l\<rparr>))"

definition close_file_descriptor_noexcept :: "int \<Rightarrow> pipe_loop \<Rightarrow> pipe_loop" where
  "close_file_descriptor_noexcept fd l = (if 0 \<le> fd then l\<lparr>pl_fds := remove1 fd (pl_fds l)\<rparr> else l)"

text \<open>
  The function that \<open>open\<close> runs on the loop. \<open>call_rc\<close> is an exception of \<open>call\<close> itself, which then
  does not run it. A handle that \<open>uv_pipe_init\<close> has set up is deleted, without \<open>uv_close\<close>, when
  \<open>uv_pipe_open\<close> fails.
\<close>

definition pipe_open_call :: "exn option \<Rightarrow> uv_status \<Rightarrow> uv_status \<Rightarrow> int \<Rightarrow> pipe_loop \<Rightarrow> nat result \<times> pipe_loop" where
  "pipe_open_call call_rc init_rc open_rc dup_fd l =
     (case call_rc of
        Some e \<Rightarrow> (Inl e, l)
      | None \<Rightarrow>
          (case init_rc of
             Uv_err e \<Rightarrow> (throw_uv_error e ''uv_pipe_init'', l)
           | Uv_ok \<Rightarrow>
               (let handle = pl_next l; l = l\<lparr>pl_next := Suc handle\<rparr> in
                case open_rc of
                  Uv_err e \<Rightarrow> (throw_uv_error e ''uv_pipe_open'', l\<lparr>pl_freed := pl_freed l @ [handle]\<rparr>)
                | Uv_ok \<Rightarrow> (Inr handle, l\<lparr>pl_handle_fd := (pl_handle_fd l)(handle \<mapsto> dup_fd)\<rparr>))))"

definition pipe_open :: "bool \<Rightarrow> int \<Rightarrow> uv_errno + int \<Rightarrow> exn option \<Rightarrow> uv_status \<Rightarrow> uv_status \<Rightarrow> pipe_client \<Rightarrow> pipe_loop
    \<Rightarrow> unit result \<times> pipe_client \<times> pipe_loop" where
  "pipe_open stop_requested fd dup call_rc init_rc open_rc c l =
     (if stop_requested then (Inl Operation_cancelled, c, l)
      else if fd < 0 then (Inl (Runtime_error ''pipe file descriptor is invalid''), c, l)
      else
        let (c, l) = (if pc_handle c \<noteq> None then pipe_client_close c l else (c, l)) in
        (case duplicate_file_descriptor dup l of
           (Inl e, l) \<Rightarrow> (Inl e, c, l)
         | (Inr dup_fd, l) \<Rightarrow>
             (case pipe_open_call call_rc init_rc open_rc dup_fd l of
                (Inl e, l) \<Rightarrow> (Inl e, c, close_file_descriptor_noexcept dup_fd l)
              | (Inr handle, l) \<Rightarrow> (Inr (), c\<lparr>pc_handle := Some handle, pc_connected := True\<rparr>, l))))"

section \<open>Operations of a connected client\<close>

definition pipe_not_connected :: "pipe_client \<Rightarrow> bool" where
  "pipe_not_connected c \<longleftrightarrow> \<not> pc_connected c \<or> pc_handle c = None"

abbreviation pipe_not_connected_error :: exn where
  "pipe_not_connected_error \<equiv> Runtime_error ''pipe client is not connected''"

definition pipe_write :: "bool \<Rightarrow> bool \<Rightarrow> bool \<Rightarrow> string \<Rightarrow> pipe_client \<Rightarrow> rq_job uv_runtime \<Rightarrow> nat awaited \<times> write_world" where
  "pipe_write stop_requested stop_possible stop_meanwhile data c rt =
     (if pipe_not_connected c then (Continues (Inl pipe_not_connected_error), new_write_request data, rt)
      else stream_write stop_requested stop_possible stop_meanwhile data rt)"

definition pipe_write_some :: "bool \<Rightarrow> bool \<Rightarrow> bool \<Rightarrow> string \<Rightarrow> pipe_client \<Rightarrow> rq_job uv_runtime \<Rightarrow> nat awaited \<times> write_world" where
  "pipe_write_some stop_requested stop_possible stop_meanwhile data c rt =
     (if pipe_not_connected c then (Continues (Inl pipe_not_connected_error), new_write_request data, rt)
      else stream_write_some stop_requested stop_possible stop_meanwhile data rt)"

definition pipe_shutdown :: "bool \<Rightarrow> bool \<Rightarrow> bool \<Rightarrow> pipe_client \<Rightarrow> rq_job uv_runtime \<Rightarrow> unit awaited \<times> uv_request \<times> rq_job uv_runtime" where
  "pipe_shutdown stop_requested stop_possible stop_meanwhile c rt =
     (if pipe_not_connected c then (Continues (Inl pipe_not_connected_error), new_shutdown_request, rt)
      else stream_shutdown stop_requested stop_possible stop_meanwhile rt)"

definition pipe_read_some_into :: "bool \<Rightarrow> bool \<Rightarrow> bool \<Rightarrow> nat \<Rightarrow> pipe_client \<Rightarrow> read_world \<Rightarrow> nat awaited \<times> read_world" where
  "pipe_read_some_into stop_requested stop_possible stop_meanwhile n c w =
     (if pipe_not_connected c then (Continues (Inl pipe_not_connected_error), w)
      else stream_read_some_into stop_requested stop_possible stop_meanwhile n w)"

text \<open>Run to completion over a stream's \<open>read_some\<close>, as for TCP; the loops are the same code.\<close>

definition pipe_read_some :: "'s read_fun \<Rightarrow> pipe_client \<Rightarrow> 's read_fun" where
  "pipe_read_some stream_read_some c n s =
     (if pipe_not_connected c then (Inl pipe_not_connected_error, s) else stream_read_some n s)"

definition pipe_read_exact :: "'s read_fun \<Rightarrow> ('s \<Rightarrow> bool) \<Rightarrow> pipe_client \<Rightarrow> nat \<Rightarrow> 's \<Rightarrow> string result \<times> 's" where
  "pipe_read_exact stream_read_some stop c total_bytes s =
     tcp_read_exact_loop (pipe_read_some stream_read_some c) stop total_bytes [] s"

definition pipe_read_exact_into :: "'s read_fun \<Rightarrow> ('s \<Rightarrow> bool) \<Rightarrow> pipe_client \<Rightarrow> nat \<Rightarrow> 's \<Rightarrow> (nat \<times> string) result \<times> 's" where
  "pipe_read_exact_into stream_read_some stop c buffer_size s =
     tcp_read_exact_into_loop (pipe_read_some stream_read_some c) stop buffer_size [] s"

section \<open>Names\<close>

text \<open>
  \<open>getter\<close> is \<open>uv_pipe_getsockname\<close> or \<open>uv_pipe_getpeername\<close>: for a buffer of a size it answers its
  status, the size it reports back, and what it put into the buffer. \<open>resize\<close> cuts or pads.
\<close>

type_synonym name_getter = "nat \<Rightarrow> uv_status \<times> nat \<times> string"

definition resize :: "nat \<Rightarrow> string \<Rightarrow> string" where
  "resize n s = take n s @ replicate (n - length s) (CHR 0x00)"

partial_function (option) get_pipe_name_loop :: "name_getter \<Rightarrow> nat \<Rightarrow> string result option" where
  "get_pipe_name_loop getter sz =
     (case getter sz of
        (rc, needed, out) \<Rightarrow>
          (case rc of
             Uv_ok \<Rightarrow> Some (Inr (resize needed (resize sz out)))
           | Uv_err e \<Rightarrow>
               if e \<noteq> UV_ENOBUFS then Some (throw_uv_error e ''uv_pipe_get*name'')
               else get_pipe_name_loop getter (if needed > sz then needed else sz * 2)))"

declare get_pipe_name_loop.simps [code]

definition get_pipe_name :: "name_getter \<Rightarrow> string result option" where
  "get_pipe_name getter = get_pipe_name_loop getter 256"

definition pipe_local_name :: "name_getter \<Rightarrow> pipe_client \<Rightarrow> string result option" where
  "pipe_local_name getsockname c =
     (if \<not> pc_runtime c \<or> pc_handle c = None then Some (Inl (Runtime_error ''pipe handle is null'')) else get_pipe_name getsockname)"

definition pipe_peer_name :: "name_getter \<Rightarrow> pipe_client \<Rightarrow> string result option" where
  "pipe_peer_name getpeername c =
     (if \<not> pc_runtime c \<or> pc_handle c = None then Some (Inl (Runtime_error ''pipe handle is null'')) else get_pipe_name getpeername)"

section \<open>Lemmas\<close>

lemma pipe_read_exact_eq:
  "pc_connected c \<Longrightarrow> pc_handle c \<noteq> None \<Longrightarrow> tc_connected c' \<Longrightarrow> tc_handle c' \<noteq> None \<Longrightarrow>
   pipe_read_exact rd stop c n s = tcp_read_exact rd stop c' n s"
proof -
  assume "pc_connected c" "pc_handle c \<noteq> None" "tc_connected c'" "tc_handle c' \<noteq> None"
  then have "pipe_read_some rd c = tcp_read_some rd c'"
    by (auto simp: fun_eq_iff pipe_read_some_def tcp_read_some_def pipe_not_connected_def not_connected_def)
  then show ?thesis by (simp add: pipe_read_exact_def tcp_read_exact_def)
qed

lemma pipe_client_close_sel [simp]:
  "pl_fds (snd (pipe_client_close c l)) = pl_fds l" "pl_next (snd (pipe_client_close c l)) = pl_next l"
  "pl_handle_fd (snd (pipe_client_close c l)) = pl_handle_fd l"
  "pl_freed (snd (pipe_client_close c l)) = pl_freed l" "pl_closes (snd (pipe_client_close c l)) = pl_closes l"
  "pc_runtime c \<Longrightarrow> pc_handle (fst (pipe_client_close c l)) = None"
  by (simp_all add: pipe_client_close_def)

text \<open>A single \<open>open\<close>: what it adds to the descriptors, the handles and the posted jobs.\<close>

lemma pipe_open_spec:
  assumes "pipe_open stop fd dup call_rc init_rc open_rc c l = (r, c', l')" and "\<forall>d. dup = Inr d \<longrightarrow> 0 \<le> d"
    and "pc_runtime c" and "\<not> rt_shutting_down (pl_runtime l)"
  shows "pc_runtime c' \<and> \<not> rt_shutting_down (pl_runtime l') \<and> pl_closes l' = pl_closes l \<and> pl_next l \<le> pl_next l' \<and>
    rt_queue (pl_runtime l') @ (case pc_handle c' of None \<Rightarrow> [] | Some h \<Rightarrow> [h]) =
      rt_queue (pl_runtime l) @ (case pc_handle c of None \<Rightarrow> [] | Some h \<Rightarrow> [h]) @ (case r of Inl e \<Rightarrow> [] | Inr _ \<Rightarrow> [pl_next l]) \<and>
    (case r of
       Inl e \<Rightarrow> pl_fds l' = pl_fds l \<and> pl_handle_fd l' = pl_handle_fd l \<and> (c' = c \<or> pc_handle c' = None)
     | Inr _ \<Rightarrow> pl_next l < pl_next l' \<and> pc_handle c' = Some (pl_next l) \<and> pc_connected c' \<and> pl_freed l' = pl_freed l \<and>
         (\<exists>d. dup = Inr d \<and> pl_fds l' = d # pl_fds l \<and> pl_handle_fd l' = (pl_handle_fd l)(pl_next l \<mapsto> d)))"
proof (cases "stop \<or> fd < 0")
  case True
  with assms show ?thesis by (auto simp: pipe_open_def split: if_splits)
next
  case False
  obtain c1 l1 where cl: "(if pc_handle c \<noteq> None then pipe_client_close c l else (c, l)) = (c1, l1)" by (rule prod.exhaust)
  then have k: "pc_runtime c1" "pc_handle c1 = None" "pc_handle c = None \<longrightarrow> c1 = c" "\<not> rt_shutting_down (pl_runtime l1)"
    "rt_queue (pl_runtime l1) = rt_queue (pl_runtime l) @ (case pc_handle c of None \<Rightarrow> [] | Some h \<Rightarrow> [h])"
    "pl_fds l1 = pl_fds l" "pl_next l1 = pl_next l" "pl_closes l1 = pl_closes l" "pl_freed l1 = pl_freed l"
    "pl_handle_fd l1 = pl_handle_fd l"
    using assms(3,4) by (auto simp: pipe_client_close_def post_queue split: if_splits)
  have o: "(case duplicate_file_descriptor dup l1 of
       (Inl e, l) \<Rightarrow> (Inl e, c1, l)
     | (Inr dup_fd, l) \<Rightarrow>
         (case pipe_open_call call_rc init_rc open_rc dup_fd l of
            (Inl e, l) \<Rightarrow> (Inl e, c1, close_file_descriptor_noexcept dup_fd l)
          | (Inr handle, l) \<Rightarrow> (Inr (), c1\<lparr>pc_handle := Some handle, pc_connected := True\<rparr>, l))) = (r, c', l')"
    using assms(1) False unfolding pipe_open_def cl by simp
  show ?thesis
  proof (cases dup)
    case (Inl e)
    with o k show ?thesis by (auto simp: duplicate_file_descriptor_def)
  next
    case (Inr d)
    with o k assms(2) show ?thesis
      by (cases call_rc; cases init_rc; cases open_rc)
        (auto simp: duplicate_file_descriptor_def pipe_open_call_def close_file_descriptor_noexcept_def Let_def)
  qed
qed

section \<open>Descriptors along runs\<close>

text \<open>One client is opened and closed again and again, while the loop runs the closing jobs.\<close>

datatype pipe_event =
    Po_open bool int "uv_errno + int" "exn option" uv_status uv_status
  | Po_close
  | Po_job

fun pipe_step :: "pipe_event \<Rightarrow> pipe_client \<times> pipe_loop \<Rightarrow> pipe_client \<times> pipe_loop" where
  "pipe_step (Po_open stop fd dup call_rc init_rc open_rc) (c, l) = snd (pipe_open stop fd dup call_rc init_rc open_rc c l)"
| "pipe_step Po_close (c, l) = pipe_client_close c l"
| "pipe_step Po_job (c, l) = (c, pipe_run_job l)"

fun pipe_run :: "pipe_event list \<Rightarrow> pipe_client \<times> pipe_loop \<Rightarrow> pipe_client \<times> pipe_loop" where
  "pipe_run [] w = w"
| "pipe_run (ev # evs) w = pipe_run evs (pipe_step ev w)"

text \<open>The operating system's duplicates are descriptors.\<close>

fun dup_answers :: "pipe_event \<Rightarrow> bool" where
  "dup_answers (Po_open stop fd dup call_rc init_rc open_rc) \<longleftrightarrow> (case dup of Inl e \<Rightarrow> True | Inr d \<Rightarrow> 0 \<le> d)"
| "dup_answers ev \<longleftrightarrow> True"

text \<open>The handles still to be closed: those that wait for their job, and the client's own.\<close>

definition pipe_pending :: "pipe_client \<times> pipe_loop \<Rightarrow> nat list" where
  "pipe_pending w = rt_queue (pl_runtime (snd w)) @ (case pc_handle (fst w) of None \<Rightarrow> [] | Some h \<Rightarrow> [h])"

definition owned_fds :: "pipe_loop \<Rightarrow> nat list \<Rightarrow> int list" where
  "owned_fds l hs = List.map_filter (pl_handle_fd l) hs"

definition pipe_owns :: "int list \<Rightarrow> pipe_client \<times> pipe_loop \<Rightarrow> bool" where
  "pipe_owns fds w \<longleftrightarrow> pc_runtime (fst w) \<and> \<not> rt_shutting_down (pl_runtime (snd w)) \<and> distinct (pipe_pending w) \<and>
     (\<forall>h\<in>set (pipe_pending w). h < pl_next (snd w) \<and> pl_closes (snd w) h = 0) \<and>
     (\<forall>h. pl_closes (snd w) h \<le> 1) \<and> (\<forall>h\<ge>pl_next (snd w). pl_closes (snd w) h = 0) \<and>
     mset (pl_fds (snd w)) = mset fds + mset (owned_fds (snd w) (pipe_pending w))"

lemma owned_fds_simps [simp]:
  "owned_fds l [] = []" "owned_fds l (hs @ ks) = owned_fds l hs @ owned_fds l ks"
  "owned_fds l [h] = (case pl_handle_fd l h of None \<Rightarrow> [] | Some fd \<Rightarrow> [fd])"
  by (simp_all add: owned_fds_def List.map_filter_def split: option.split)

lemma owned_fds_cong:
  "(\<And>h. h \<in> set hs \<Longrightarrow> pl_handle_fd l' h = pl_handle_fd l h) \<Longrightarrow> owned_fds l' hs = owned_fds l hs"
  by (simp add: owned_fds_def List.map_filter_def cong: filter_cong map_cong)

lemma pipe_owns_open:
  assumes "pipe_owns fds (c, l)" and "\<forall>d. dup = Inr d \<longrightarrow> 0 \<le> d"
    and "pipe_open stop fd dup call_rc init_rc open_rc c l = (r, c', l')"
  shows "pipe_owns fds (c', l')"
proof -
  from assms(1) have i: "pc_runtime c" "\<not> rt_shutting_down (pl_runtime l)" by (simp_all add: pipe_owns_def)
  note s = pipe_open_spec [OF assms(3,2) i]
  have p: "pipe_pending (c', l') = pipe_pending (c, l) @ (case r of Inl e \<Rightarrow> [] | Inr _ \<Rightarrow> [pl_next l])"
    using s by (simp add: pipe_pending_def)
  show ?thesis
  proof (cases r)
    case (Inl e)
    with s have "owned_fds l' hs = owned_fds l hs" for hs by (intro owned_fds_cong) simp
    with s p Inl assms(1) show ?thesis by (auto simp: pipe_owns_def)
  next
    case (Inr u)
    with s obtain d where d: "pl_fds l' = d # pl_fds l" "pl_handle_fd l' = (pl_handle_fd l)(pl_next l \<mapsto> d)" "pl_next l < pl_next l'"
      by auto
    have n: "pl_next l \<notin> set (pipe_pending (c, l))" using assms(1) by (auto simp: pipe_owns_def)
    then have "owned_fds l' (pipe_pending (c, l)) = owned_fds l (pipe_pending (c, l))" by (intro owned_fds_cong) (auto simp: d(2))
    with s p Inr d n assms(1) show ?thesis by (auto simp: pipe_owns_def)
  qed
qed

lemma pipe_owns_close:
  assumes "pipe_owns fds (c, l)"
  shows "pipe_owns fds (pipe_client_close c l)"
proof (cases "pc_handle c")
  case None
  with assms show ?thesis by (simp add: pipe_client_close_def)
next
  case (Some h)
  with assms have e: "pipe_client_close c l = (c\<lparr>pc_handle := None, pc_connected := False\<rparr>, l\<lparr>pl_runtime := snd (post h (pl_runtime l))\<rparr>)"
    by (simp add: pipe_client_close_def pipe_owns_def)
  have "\<not> rt_shutting_down (pl_runtime l)" using assms by (simp add: pipe_owns_def)
  then have "pipe_pending (pipe_client_close c l) = pipe_pending (c, l)" using Some by (simp add: pipe_pending_def e post_queue)
  moreover have "owned_fds (snd (pipe_client_close c l)) hs = owned_fds l hs" for hs by (rule owned_fds_cong) simp
  ultimately show ?thesis using assms by (simp add: pipe_owns_def e)
qed

lemma pipe_owns_job:
  assumes "pipe_owns fds (c, l)"
  shows "pipe_owns fds (c, pipe_run_job l)"
proof (cases "rt_queue (pl_runtime l)")
  case Nil
  with assms show ?thesis by (simp add: pipe_run_job_def)
next
  case (Cons h hs)
  define ks where "ks = hs @ (case pc_handle c of None \<Rightarrow> [] | Some h \<Rightarrow> [h])"
  have p: "pipe_pending (c, l) = h # ks" by (simp add: pipe_pending_def Cons ks_def)
  with assms have h: "pl_closes l h = 0" "h \<notin> set ks" by (auto simp: pipe_owns_def)
  let ?l = "pipe_run_job l"
  have j: "?l = l\<lparr>pl_runtime := (pl_runtime l)\<lparr>rt_queue := hs\<rparr>, pl_closes := (pl_closes l)(h := 1),
       pl_fds := (case pl_handle_fd l h of None \<Rightarrow> pl_fds l | Some fd \<Rightarrow> remove1 fd (pl_fds l)), pl_handle_fd := (pl_handle_fd l)(h := None)\<rparr>"
    using h(1) by (simp add: pipe_run_job_def Cons pipe_close_job_def split: option.split)
  have q: "pipe_pending (c, ?l) = ks" by (simp add: pipe_pending_def j ks_def)
  have "owned_fds ?l ks = owned_fds l ks" using h(2) by (intro owned_fds_cong) (auto simp: j)
  moreover have "mset (pl_fds l) = mset fds + mset (owned_fds l ([h] @ ks))" using assms p by (simp add: pipe_owns_def)
  then have "mset (pl_fds ?l) = mset fds + mset (owned_fds l ks)"
    unfolding owned_fds_simps(2) by (auto simp: j split: option.split)
  ultimately show ?thesis using assms p q h(2) by (auto simp: pipe_owns_def j)
qed

lemma pipe_owns_run: "pipe_owns fds w \<Longrightarrow> list_all dup_answers evs \<Longrightarrow> pipe_owns fds (pipe_run evs w)"
proof (induction evs arbitrary: w)
  case (Cons ev evs)
  obtain c l where w: "w = (c, l)" by (rule prod.exhaust)
  have "pipe_owns fds (pipe_step ev w)"
  proof (cases ev)
    case (Po_open stop fd dup call_rc init_rc open_rc)
    obtain r c' l' where o: "pipe_open stop fd dup call_rc init_rc open_rc c l = (r, c', l')" by (rule prod_cases3)
    have "\<forall>d. dup = Inr d \<longrightarrow> 0 \<le> d" using Cons.prems(2) Po_open by (auto split: sum.splits)
    from pipe_owns_open [OF Cons.prems(1) [unfolded w] this o] o Po_open w show ?thesis by simp
  qed (use Cons.prems(1) w in \<open>simp_all add: pipe_owns_close pipe_owns_job\<close>)
  with Cons show ?case by simp
qed simp

definition pipe_loop_new :: pipe_loop where
  "pipe_loop_new = \<lparr>pl_runtime = new_runtime, pl_next = 0, pl_closes = (\<lambda>_. 0), pl_freed = [], pl_fds = [0, 1, 2],
     pl_handle_fd = Map.empty\<rparr>"

text \<open>
  C29. No descriptor is leaked or closed twice. Over any run of \<open>open\<close> (on a client that is already open
  as well, and with any failures), \<open>close\<close> and turns of the loop, the open descriptors are the initial
  ones, the one the client's handle owns, and those owned by handles whose closing job waits; each
  handle is closed at most once. After such a run an \<open>open\<close> that throws leaves the descriptors as they
  were, with the client untouched or without a handle; one that succeeds adds exactly the duplicate,
  owned by the client's new handle; either way an old handle is left to its closing job.
\<close>

theorem pipe_open_descriptors:
  assumes "pipe_client_new ipc Uv_ok pipe_loop_new = (Inr c0, l0)" and "list_all dup_answers evs"
    and "pipe_run evs (c0, l0) = (c, l)" and "pipe_open stop fd dup call_rc init_rc open_rc c l = (r, c', l')"
    and "\<forall>d. dup = Inr d \<longrightarrow> 0 \<le> d"
  shows "mset (pl_fds l) = {#0, 1, 2#} + mset (owned_fds l (rt_queue (pl_runtime l) @ (case pc_handle c of None \<Rightarrow> [] | Some h \<Rightarrow> [h]))) \<and>
    (\<forall>h. pl_closes l h \<le> 1) \<and>
    rt_queue (pl_runtime l') @ (case pc_handle c' of None \<Rightarrow> [] | Some h \<Rightarrow> [h]) =
      rt_queue (pl_runtime l) @ (case pc_handle c of None \<Rightarrow> [] | Some h \<Rightarrow> [h]) @ (case r of Inl e \<Rightarrow> [] | Inr _ \<Rightarrow> [pl_next l]) \<and>
    (case r of
       Inl e \<Rightarrow> pl_fds l' = pl_fds l \<and> pl_handle_fd l' = pl_handle_fd l \<and> (c' = c \<or> pc_handle c' = None)
     | Inr _ \<Rightarrow> pc_handle c' = Some (pl_next l) \<and> pc_connected c' \<and>
         (\<exists>d. dup = Inr d \<and> pl_fds l' = d # pl_fds l \<and> pl_handle_fd l' = (pl_handle_fd l)(pl_next l \<mapsto> d)))"
proof -
  have "pipe_owns [0, 1, 2] (c0, l0)"
    using assms(1) by (auto simp: pipe_client_new_def pipe_loop_new_def pipe_owns_def pipe_pending_def new_runtime_def)
  from pipe_owns_run [OF this assms(2)] assms(3) have o: "pipe_owns [0, 1, 2] (c, l)" by simp
  then have i: "pc_runtime c" "\<not> rt_shutting_down (pl_runtime l)" by (simp_all add: pipe_owns_def)
  from o have "mset (pl_fds l) = {#0, 1, 2#} + mset (owned_fds l (rt_queue (pl_runtime l) @ (case pc_handle c of None \<Rightarrow> [] | Some h \<Rightarrow> [h])))"
    "\<forall>h. pl_closes l h \<le> 1" by (simp_all add: pipe_owns_def pipe_pending_def del: owned_fds_simps(2))
  with pipe_open_spec [OF assms(4,5) i] show ?thesis by (auto split: sum.splits)
qed

text \<open>Opened on a duplicate 7, and again on 8 while 7 is still open; the job of the first two handles closes 7.\<close>

definition pipe_demo :: "pipe_event list" where
  "pipe_demo = [Po_open False 5 (Inr 7) None Uv_ok Uv_ok, Po_open False 5 (Inr 8) None Uv_ok Uv_ok, Po_job, Po_job]"

theorem pipe_open_descriptors_witness:
  "\<exists>c l c' l'. pipe_run pipe_demo (fst (apfst projr (pipe_client_new False Uv_ok pipe_loop_new)), snd (pipe_client_new False Uv_ok pipe_loop_new)) = (c, l) \<and>
     mset (pl_fds l) = {#0, 1, 2, 8#} \<and>
     pipe_open False 5 (Inr 9) None Uv_ok (Uv_err UV_EBUSY) c l = (Inl (Uv_error UV_EBUSY ''uv_pipe_open''), c', l') \<and> pl_fds l' = pl_fds l"
proof -
  define c0 l0 where "c0 = projr (fst (pipe_client_new False Uv_ok pipe_loop_new))" and "l0 = snd (pipe_client_new False Uv_ok pipe_loop_new)"
  have n: "pipe_client_new False Uv_ok pipe_loop_new = (Inr c0, l0)" by (simp add: c0_def l0_def pipe_client_new_def)
  obtain c l where r: "pipe_run pipe_demo (c0, l0) = (c, l)" by (rule prod.exhaust)
  obtain q c' l' where o: "pipe_open False 5 (Inr 9) None Uv_ok (Uv_err UV_EBUSY) c l = (q, c', l')" by (rule prod_cases3)
  have d: "list_all dup_answers pipe_demo" by (simp add: pipe_demo_def)
  have "q = Inl (Uv_error UV_EBUSY ''uv_pipe_open'')"
    using o by (auto simp: pipe_open_def duplicate_file_descriptor_def pipe_open_call_def Let_def case_prod_beta)
  moreover have "rt_queue (pl_runtime l) = []" "pc_handle c = Some 2" "pl_handle_fd l 2 = Some 8"
    using r by (auto simp: pipe_demo_def c0_def l0_def pipe_client_new_def pipe_loop_new_def pipe_open_def pipe_client_close_def
        duplicate_file_descriptor_def pipe_open_call_def Let_def post_def async_send_def new_runtime_def pipe_run_job_def pipe_close_job_def)
  ultimately have "mset (pl_fds l) = {#0, 1, 2, 8#}" "pl_fds l' = pl_fds l"
    using pipe_open_descriptors [OF n d r o] by simp_all
  with r o \<open>q = _\<close> n show ?thesis by (intro exI [of _ c] exI [of _ l] exI [of _ c'] exI [of _ l']) simp
qed

text \<open>
  But when \<open>uv_pipe_open\<close> refuses, the handle that \<open>uv_pipe_init\<close> registered with the loop is deleted
  and never closed.
\<close>

lemma pipe_open_deletes_registered_handle:
  assumes "pipe_open False fd (Inr d) None Uv_ok (Uv_err e) c l = (r, c', l')" and "0 \<le> fd"
  shows "r = Inl (Uv_error e ''uv_pipe_open'') \<and> pl_freed l' = pl_freed l @ [pl_next l] \<and> pl_closes l' = pl_closes l"
  using assms
  by (auto simp: pipe_open_def duplicate_file_descriptor_def pipe_open_call_def close_file_descriptor_noexcept_def Let_def case_prod_beta
      split: if_splits)

text \<open>
  The documented behaviour of the getter: with at least \<open>n\<close> bytes it answers the name, with fewer
  \<open>UV_ENOBUFS\<close>, whatever size it reports with that.
\<close>

definition name_contract :: "string \<Rightarrow> nat \<Rightarrow> name_getter \<Rightarrow> bool" where
  "name_contract name n getter \<longleftrightarrow> length name \<le> n \<and>
     (\<forall>sz \<ge> n. getter sz = (Uv_ok, length name, name)) \<and> (\<forall>sz < n. fst (getter sz) = Uv_err UV_ENOBUFS)"

lemma resize_same [simp]: "resize (length s) (resize n s) = s" if "length s \<le> n"
  using that by (simp add: resize_def)

lemma get_pipe_name_loop_returns:
  assumes "name_contract name n getter" and "0 < sz"
  shows "get_pipe_name_loop getter sz = Some (Inr name)"
  using assms(2)
proof (induction "n - sz" arbitrary: sz rule: less_induct)
  case less
  obtain rc needed out where g: "getter sz = (rc, needed, out)" by (cases "getter sz") auto
  show ?case
  proof (cases "n \<le> sz")
    case True
    with assms(1) show ?thesis by (subst get_pipe_name_loop.simps) (auto simp: name_contract_def)
  next
    case False
    with assms(1) have "fst (getter sz) = Uv_err UV_ENOBUFS" by (simp add: name_contract_def)
    with g have "rc = Uv_err UV_ENOBUFS" by simp
    moreover have "get_pipe_name_loop getter (if needed > sz then needed else sz * 2) = Some (Inr name)"
      by (rule less.hyps) (use False less.prems in auto)
    ultimately show ?thesis using g by (subst get_pipe_name_loop.simps) simp
  qed
qed

text \<open>
  \<open>local_name\<close> and \<open>peer_name\<close> return the whole name, however long it is and whatever size
  libuv reports when the buffer is too small: the loop with its growing buffer ends.
\<close>

theorem pipe_name_terminates:
  assumes "name_contract name n getter" and "pc_runtime c" and "pc_handle c = Some h"
  shows "pipe_local_name getter c = Some (Inr name) \<and> pipe_peer_name getter c = Some (Inr name)"
  using get_pipe_name_loop_returns [OF assms(1), of 256] assms(2,3)
  by (simp add: pipe_local_name_def pipe_peer_name_def get_pipe_name_def)

text \<open>A getter that asks for no more than it was offered, so that only the doubling helps.\<close>

definition stubborn_getter :: "string \<Rightarrow> name_getter" where
  "stubborn_getter name sz = (if length name < sz then (Uv_ok, length name, name) else (Uv_err UV_ENOBUFS, sz, []))"

theorem pipe_name_terminates_witness:
  "pipe_peer_name (stubborn_getter (replicate 700 (CHR ''x''))) (pipe_client_of_handle 0 True False) = Some (Inr (replicate 700 (CHR ''x'')))"
proof -
  have "name_contract (replicate 700 (CHR ''x'')) 701 (stubborn_getter (replicate 700 (CHR ''x'')))"
    by (auto simp: name_contract_def stubborn_getter_def)
  from pipe_name_terminates [OF this, of "pipe_client_of_handle 0 True False" 0] show ?thesis
    by (simp add: pipe_client_of_handle_def)
qed

end
