(* ===== verification/Pipe_Server.thy ===== *)
theory Pipe_Server
  imports Pipe_Client Tcp_Accept
begin

text \<open>
  \<open>pipe_server\<close> of \<open>src/pipe.cpp\<close>: binding, listening, accepting and closing. It is a second
  implementation of what \<open>tcp_server\<close> does; the awaiter of \<open>accept\<close> has the same fields, so that it is
  the record \<open>accept_op\<close> here as well. The main lemma is that the two servers behave the same up to
  the texts of their errors.
\<close>

section \<open>State and operations\<close>

text \<open>As for \<open>tcp_server\<close>, the last six fields are not the server's own.\<close>

record pipe_server =
  ps_runtime :: bool
  ps_handle :: "nat option"
  ps_bound :: bool
  ps_listening :: bool
  ps_ipc :: bool
  ps_pending_clients :: "nat list"
  ps_accept_waiter :: "nat option"
  ps_accept_status :: uv_status
  ps_next :: nat
  ps_ops :: "nat \<Rightarrow> accept_op"
  ps_count :: nat
  ps_closed :: "nat list"
  ps_accepted :: "nat list"
  ps_delivered :: "(nat \<times> nat) list"
  ps_dangling :: bool

type_synonym pipe_world = "pipe_server \<times> nat uv_runtime"

definition pipe_set_op :: "nat \<Rightarrow> accept_op \<Rightarrow> pipe_server \<Rightarrow> pipe_server" where
  "pipe_set_op i x s = s\<lparr>ps_ops := (ps_ops s)(i := x)\<rparr>"

definition pipe_server_new :: "bool \<Rightarrow> uv_status \<Rightarrow> pipe_server result" where
  "pipe_server_new ipc init_rc =
     (case init_rc of
        Uv_err e \<Rightarrow> throw_uv_error e ''uv_pipe_init''
      | Uv_ok \<Rightarrow> Inr \<lparr>ps_runtime = True, ps_handle = Some 0, ps_bound = False, ps_listening = False, ps_ipc = ipc, ps_pending_clients = [],
          ps_accept_waiter = None, ps_accept_status = Uv_ok, ps_next = 1, ps_ops = (\<lambda>_. new_accept_op False), ps_count = 0,
          ps_closed = [], ps_accepted = [], ps_delivered = [], ps_dangling = False\<rparr>)"

definition pipe_bind :: "bool \<Rightarrow> uv_status \<Rightarrow> pipe_server \<Rightarrow> unit result \<times> pipe_server" where
  "pipe_bind stop_requested bind_rc s =
     (if ps_handle s = None then (Inl (Runtime_error ''pipe server handle is null''), s)
      else if stop_requested then (Inl Operation_cancelled, s)
      else (case bind_rc of
              Uv_err e \<Rightarrow> (throw_uv_error e ''uv_pipe_bind'', s)
            | Uv_ok \<Rightarrow> (Inr (), s\<lparr>ps_bound := True\<rparr>)))"

text \<open>\<open>uv_pipe_pending_instances\<close> answers nothing.\<close>

definition pipe_set_pending_instances :: "bool \<Rightarrow> pipe_server \<Rightarrow> unit result" where
  "pipe_set_pending_instances stop_requested s =
     (if ps_handle s = None then Inl (Runtime_error ''pipe server handle is null'')
      else if stop_requested then Inl Operation_cancelled else Inr ())"

definition pipe_listen :: "bool \<Rightarrow> uv_status \<Rightarrow> pipe_server \<Rightarrow> unit result \<times> pipe_server" where
  "pipe_listen stop_requested listen_rc s =
     (if ps_handle s = None then (Inl (Runtime_error ''pipe server handle is null''), s)
      else if \<not> ps_bound s then (Inl (Runtime_error ''pipe server is not bound''), s)
      else if stop_requested then (Inl Operation_cancelled, s)
      else (case listen_rc of
              Uv_err e \<Rightarrow> (throw_uv_error e ''uv_listen'', s)
            | Uv_ok \<Rightarrow> (Inr (), s\<lparr>ps_listening := True\<rparr>)))"

definition pipe_server_local_name :: "name_getter \<Rightarrow> pipe_server \<Rightarrow> string result option" where
  "pipe_server_local_name getsockname s =
     (if \<not> ps_runtime s \<or> ps_handle s = None then Some (Inl (Runtime_error ''pipe server handle is null'')) else get_pipe_name getsockname)"

section \<open>Accepting\<close>

definition pipe_accept_result :: "accept_op \<Rightarrow> pipe_server \<Rightarrow> nat result \<times> pipe_server" where
  "pipe_accept_result x s =
     (if ao_status x = Uv_err UV_ECANCELED \<or> ao_token x then (Inl Operation_cancelled, s)
      else (case ao_status x of
              Uv_err e \<Rightarrow> (throw_uv_error e ''pipe_server::accept'', s)
            | Uv_ok \<Rightarrow>
                (case ps_accept_status s of
                   Uv_err rc \<Rightarrow> ((if rc = UV_ECANCELED then Inl Operation_cancelled else throw_uv_error rc ''uv_accept''),
                                 s\<lparr>ps_accept_status := Uv_ok\<rparr>)
                 | Uv_ok \<Rightarrow>
                     (case ps_pending_clients s of
                        [] \<Rightarrow> (Inl (Runtime_error ''accept resumed without pending pipe client''), s)
                      | h # hs \<Rightarrow> (Inr h, s\<lparr>ps_pending_clients := hs\<rparr>)))))"

text \<open>The client that a call which took the handle \<open>h\<close> returns.\<close>

definition pipe_accepted_client :: "nat \<Rightarrow> pipe_server \<Rightarrow> pipe_client" where
  "pipe_accepted_client h s = pipe_client_of_handle h True (ps_ipc s)"

definition pipe_accept_await_resume :: "nat \<Rightarrow> pipe_server \<Rightarrow> pipe_server" where
  "pipe_accept_await_resume i s =
     (let x = (ps_ops s i)\<lparr>ao_stop_callback := False\<rparr>;
          (r, s) = pipe_accept_result x s;
          s = (case r of Inl e \<Rightarrow> s | Inr h \<Rightarrow> s\<lparr>ps_delivered := ps_delivered s @ [(i, h)]\<rparr>)
      in pipe_set_op i (x\<lparr>ao_result := Some r\<rparr>) s)"

definition pipe_resume_accept :: "nat \<Rightarrow> pipe_server \<Rightarrow> pipe_server" where
  "pipe_resume_accept i s =
     pipe_accept_await_resume i (pipe_set_op i ((ps_ops s i)\<lparr>ao_resumed := Suc (ao_resumed (ps_ops s i))\<rparr>) s)"

definition pipe_wake_waiter :: "pipe_server \<Rightarrow> pipe_server" where
  "pipe_wake_waiter s =
     (case ps_accept_waiter s of
        None \<Rightarrow> s
      | Some i \<Rightarrow> pipe_resume_accept i (s\<lparr>ps_accept_waiter := None\<rparr>))"

definition pipe_on_connection :: "uv_status \<Rightarrow> uv_status \<Rightarrow> uv_status \<Rightarrow> pipe_server \<Rightarrow> pipe_server" where
  "pipe_on_connection status init_rc accept_rc s =
     (if ps_handle s = None then s
      else (case status of
              Uv_err e \<Rightarrow> pipe_wake_waiter (s\<lparr>ps_accept_status := Uv_err e\<rparr>)
            | Uv_ok \<Rightarrow>
                (case init_rc of
                   Uv_err e \<Rightarrow> pipe_wake_waiter (s\<lparr>ps_accept_status := Uv_err e\<rparr>)
                 | Uv_ok \<Rightarrow>
                     (let client = ps_next s; s = s\<lparr>ps_next := Suc client\<rparr> in
                      case accept_rc of
                        Uv_err e \<Rightarrow> pipe_wake_waiter (s\<lparr>ps_closed := ps_closed s @ [client], ps_accept_status := Uv_err e\<rparr>)
                      | Uv_ok \<Rightarrow> pipe_wake_waiter
                          (s\<lparr>ps_pending_clients := ps_pending_clients s @ [client], ps_accepted := ps_accepted s @ [client],
                             ps_accept_status := Uv_ok\<rparr>)))))"

definition pipe_accept_stop :: "nat \<Rightarrow> pipe_world \<Rightarrow> pipe_world" where
  "pipe_accept_stop i w =
     (let x = ps_ops (fst w) i
      in (pipe_set_op i (x\<lparr>ao_token := True\<rparr>) (fst w), if ao_stop_callback x then snd (post i (snd w)) else snd w))"

definition pipe_accept_cancel_job :: "nat \<Rightarrow> pipe_server \<Rightarrow> pipe_server" where
  "pipe_accept_cancel_job i s =
     (let x = ps_ops s i in
      if ao_result x \<noteq> None then s\<lparr>ps_dangling := True\<rparr>
      else if ps_accept_waiter s = (if ao_continuation x then Some i else None) then
        (let s = pipe_set_op i (x\<lparr>ao_continuation := False\<rparr>) (s\<lparr>ps_accept_waiter := None, ps_accept_status := Uv_err UV_ECANCELED\<rparr>)
         in if ao_continuation x then pipe_resume_accept i s else s)
      else s)"

definition pipe_accept_await_ready :: "accept_op \<Rightarrow> pipe_server \<Rightarrow> bool" where
  "pipe_accept_await_ready x s \<longleftrightarrow> ao_token x \<or> ps_pending_clients s \<noteq> [] \<or> ps_accept_status s \<noteq> Uv_ok"

definition pipe_accept_await_suspend :: "bool \<Rightarrow> bool \<Rightarrow> nat \<Rightarrow> pipe_world \<Rightarrow> bool \<times> pipe_world" where
  "pipe_accept_await_suspend stop_possible stop_meanwhile i w =
     (let s = fst w; x = (ps_ops s i)\<lparr>ao_continuation := True\<rparr> in
      if ao_token x then (False, pipe_set_op i (x\<lparr>ao_status := Uv_err UV_ECANCELED\<rparr>) s, snd w)
      else if ps_accept_waiter s \<noteq> None then (False, pipe_set_op i (x\<lparr>ao_status := Uv_err UV_EBUSY\<rparr>) s, snd w)
      else
        let w = (pipe_set_op i (x\<lparr>ao_stop_callback := stop_possible\<rparr>) s, snd w);
            w = (if stop_possible \<and> stop_meanwhile then pipe_accept_stop i w else w)
        in (True, (fst w)\<lparr>ps_accept_waiter := Some i\<rparr>, snd w))"

definition pipe_accept :: "bool \<Rightarrow> bool \<Rightarrow> bool \<Rightarrow> bool \<Rightarrow> pipe_world \<Rightarrow> unit result \<times> pipe_world" where
  "pipe_accept token token_later stop_possible stop_meanwhile w =
     (let s = fst w in
      if \<not> ps_listening s \<or> ps_handle s = None then (Inl (Runtime_error ''pipe server is not listening''), w)
      else
        let i = ps_count s; x = new_accept_op token; s = pipe_set_op i x (s\<lparr>ps_count := Suc i\<rparr>) in
        if pipe_accept_await_ready x s then (Inr (), pipe_accept_await_resume i s, snd w)
        else (case pipe_accept_await_suspend stop_possible stop_meanwhile i (pipe_set_op i (x\<lparr>ao_token := token_later\<rparr>) s, snd w) of
                (True, w) \<Rightarrow> (Inr (), w)
              | (False, w) \<Rightarrow> (Inr (), pipe_accept_await_resume i (fst w), snd w)))"

definition pipe_server_close :: "pipe_server \<Rightarrow> pipe_server" where
  "pipe_server_close s =
     (if \<not> ps_runtime s then s
      else (case ps_handle s of
              None \<Rightarrow> s
            | Some server_handle \<Rightarrow>
                (let s = s\<lparr>ps_handle := None, ps_bound := False, ps_listening := False\<rparr>;
                     s = (if ps_accept_waiter s \<noteq> None
                          then pipe_wake_waiter (s\<lparr>ps_accept_status := Uv_err UV_ECANCELED\<rparr>) else s);
                     s = s\<lparr>ps_closed := ps_closed s @ ps_pending_clients s, ps_pending_clients := []\<rparr>
                 in s\<lparr>ps_closed := ps_closed s @ [server_handle]\<rparr>)))"

section \<open>Runs\<close>

fun pipe_step :: "server_event \<Rightarrow> pipe_world \<Rightarrow> pipe_world" where
  "pipe_step (Av_bind stop_requested rc) w = (snd (pipe_bind stop_requested rc (fst w)), snd w)"
| "pipe_step (Av_listen stop_requested rc) w = (snd (pipe_listen stop_requested rc (fst w)), snd w)"
| "pipe_step (Av_accept a b c d) w = snd (pipe_accept a b c d w)"
| "pipe_step (Av_stop i) w = (if ao_result (ps_ops (fst w) i) = None \<and> i < ps_count (fst w) then pipe_accept_stop i w else w)"
| "pipe_step Av_job w =
     (case rt_queue (snd w) of
        [] \<Rightarrow> w
      | i # js \<Rightarrow> (pipe_accept_cancel_job i (fst w), (snd w)\<lparr>rt_queue := js\<rparr>))"
| "pipe_step (Av_connection status init_rc accept_rc) w = (pipe_on_connection status init_rc accept_rc (fst w), snd w)"
| "pipe_step Av_close w = (pipe_server_close (fst w), snd w)"

fun pipe_run :: "server_event list \<Rightarrow> pipe_world \<Rightarrow> pipe_world" where
  "pipe_run [] w = w"
| "pipe_run (ev # evs) w = pipe_run evs (pipe_step ev w)"

section \<open>The two servers agree\<close>

text \<open>A pipe server seen as a TCP server: the errors of \<open>accept\<close> get the TCP server's texts.\<close>

definition as_tcp_exn :: "exn \<Rightarrow> exn" where
  "as_tcp_exn e =
     (if e = Runtime_error ''accept resumed without pending pipe client'' then Runtime_error ''accept resumed without pending client''
      else case e of Uv_error c f \<Rightarrow> Uv_error c (if f = ''pipe_server::accept'' then ''tcp_server::accept'' else f) | _ \<Rightarrow> e)"

definition as_tcp_op :: "accept_op \<Rightarrow> accept_op" where
  "as_tcp_op x = x\<lparr>ao_result := map_option (map_sum as_tcp_exn id) (ao_result x)\<rparr>"

definition as_tcp :: "pipe_server \<Rightarrow> tcp_server" where
  "as_tcp s = \<lparr>sv_runtime = ps_runtime s, sv_handle = ps_handle s, sv_bound = ps_bound s, sv_listening = ps_listening s,
     sv_pending_clients = ps_pending_clients s, sv_accept_waiter = ps_accept_waiter s, sv_accept_status = ps_accept_status s,
     sv_next = ps_next s, sv_ops = as_tcp_op \<circ> ps_ops s, sv_count = ps_count s, sv_closed = ps_closed s, sv_accepted = ps_accepted s,
     sv_delivered = ps_delivered s, sv_dangling = ps_dangling s\<rparr>"

lemma as_tcp_sel [simp]:
  "sv_runtime (as_tcp s) = ps_runtime s" "sv_handle (as_tcp s) = ps_handle s" "sv_bound (as_tcp s) = ps_bound s"
  "sv_listening (as_tcp s) = ps_listening s" "sv_pending_clients (as_tcp s) = ps_pending_clients s"
  "sv_accept_waiter (as_tcp s) = ps_accept_waiter s" "sv_accept_status (as_tcp s) = ps_accept_status s" "sv_next (as_tcp s) = ps_next s"
  "sv_ops (as_tcp s) i = as_tcp_op (ps_ops s i)" "sv_count (as_tcp s) = ps_count s" "sv_closed (as_tcp s) = ps_closed s"
  "sv_accepted (as_tcp s) = ps_accepted s" "sv_delivered (as_tcp s) = ps_delivered s" "sv_dangling (as_tcp s) = ps_dangling s"
  by (simp_all add: as_tcp_def)

lemma as_tcp_op_sel [simp]:
  "ao_continuation (as_tcp_op x) = ao_continuation x" "ao_stop_callback (as_tcp_op x) = ao_stop_callback x"
  "ao_status (as_tcp_op x) = ao_status x" "ao_token (as_tcp_op x) = ao_token x" "ao_resumed (as_tcp_op x) = ao_resumed x"
  "ao_result (as_tcp_op x) = map_option (map_sum as_tcp_exn id) (ao_result x)"
  by (simp_all add: as_tcp_op_def)

lemma as_tcp_op_upd [simp]:
  "as_tcp_op (x\<lparr>ao_continuation := b\<rparr>) = (as_tcp_op x)\<lparr>ao_continuation := b\<rparr>"
  "as_tcp_op (x\<lparr>ao_stop_callback := b\<rparr>) = (as_tcp_op x)\<lparr>ao_stop_callback := b\<rparr>"
  "as_tcp_op (x\<lparr>ao_status := st\<rparr>) = (as_tcp_op x)\<lparr>ao_status := st\<rparr>"
  "as_tcp_op (x\<lparr>ao_token := b\<rparr>) = (as_tcp_op x)\<lparr>ao_token := b\<rparr>"
  "as_tcp_op (x\<lparr>ao_resumed := n\<rparr>) = (as_tcp_op x)\<lparr>ao_resumed := n\<rparr>"
  "as_tcp_op (x\<lparr>ao_result := r\<rparr>) = (as_tcp_op x)\<lparr>ao_result := map_option (map_sum as_tcp_exn id) r\<rparr>"
  "as_tcp_op (new_accept_op b) = new_accept_op b"
  by (simp_all add: as_tcp_op_def new_accept_op_def)

lemma as_tcp_upd [simp]:
  "as_tcp (s\<lparr>ps_handle := h\<rparr>) = (as_tcp s)\<lparr>sv_handle := h\<rparr>" "as_tcp (s\<lparr>ps_bound := b\<rparr>) = (as_tcp s)\<lparr>sv_bound := b\<rparr>"
  "as_tcp (s\<lparr>ps_listening := b\<rparr>) = (as_tcp s)\<lparr>sv_listening := b\<rparr>"
  "as_tcp (s\<lparr>ps_pending_clients := ps\<rparr>) = (as_tcp s)\<lparr>sv_pending_clients := ps\<rparr>"
  "as_tcp (s\<lparr>ps_accept_waiter := wt\<rparr>) = (as_tcp s)\<lparr>sv_accept_waiter := wt\<rparr>"
  "as_tcp (s\<lparr>ps_accept_status := st\<rparr>) = (as_tcp s)\<lparr>sv_accept_status := st\<rparr>"
  "as_tcp (s\<lparr>ps_next := n\<rparr>) = (as_tcp s)\<lparr>sv_next := n\<rparr>" "as_tcp (s\<lparr>ps_count := n\<rparr>) = (as_tcp s)\<lparr>sv_count := n\<rparr>"
  "as_tcp (s\<lparr>ps_closed := cs\<rparr>) = (as_tcp s)\<lparr>sv_closed := cs\<rparr>" "as_tcp (s\<lparr>ps_accepted := cs\<rparr>) = (as_tcp s)\<lparr>sv_accepted := cs\<rparr>"
  "as_tcp (s\<lparr>ps_delivered := ds\<rparr>) = (as_tcp s)\<lparr>sv_delivered := ds\<rparr>" "as_tcp (s\<lparr>ps_dangling := b\<rparr>) = (as_tcp s)\<lparr>sv_dangling := b\<rparr>"
  "as_tcp (pipe_set_op i x s) = set_accept_op i (as_tcp_op x) (as_tcp s)"
  by (simp_all add: as_tcp_def pipe_set_op_def set_accept_op_def fun_eq_iff)

lemma pipe_set_op_sel [simp]:
  "ps_ops (pipe_set_op i x s) = (ps_ops s)(i := x)" "ps_accept_status (pipe_set_op i x s) = ps_accept_status s"
  "ps_pending_clients (pipe_set_op i x s) = ps_pending_clients s" "ps_accept_waiter (pipe_set_op i x s) = ps_accept_waiter s"
  by (simp_all add: pipe_set_op_def)

lemma as_tcp_exn_simps [simp]:
  "as_tcp_exn Operation_cancelled = Operation_cancelled" "as_tcp_exn (Uv_error e ''pipe_server::accept'') = Uv_error e ''tcp_server::accept''"
  "as_tcp_exn (Uv_error e ''uv_accept'') = Uv_error e ''uv_accept''"
  "as_tcp_exn (Runtime_error ''accept resumed without pending pipe client'') = Runtime_error ''accept resumed without pending client''"
  by (simp_all add: as_tcp_exn_def)

lemma as_tcp_result:
  "accept_result (as_tcp_op x) (as_tcp s) = map_prod (map_sum as_tcp_exn id) as_tcp (pipe_accept_result x s)"
  by (auto simp: accept_result_def pipe_accept_result_def split: uv_status.split list.split)

lemma as_tcp_await_resume [simp]: "as_tcp (pipe_accept_await_resume i s) = accept_await_resume i (as_tcp s)"
proof -
  obtain r t where r: "pipe_accept_result ((ps_ops s i)\<lparr>ao_stop_callback := False\<rparr>) s = (r, t)" by fastforce
  with as_tcp_result [of "(ps_ops s i)\<lparr>ao_stop_callback := False\<rparr>" s] show ?thesis
    by (cases r) (simp_all add: accept_await_resume_def pipe_accept_await_resume_def)
qed

lemma as_tcp_resume [simp]: "as_tcp (pipe_resume_accept i s) = resume_accept i (as_tcp s)"
  by (simp add: pipe_resume_accept_def resume_accept_def)

lemma as_tcp_wake [simp]: "as_tcp (pipe_wake_waiter s) = wake_accept_waiter (as_tcp s)"
  by (simp add: pipe_wake_waiter_def wake_accept_waiter_def split: option.split)

lemma as_tcp_connection: "as_tcp (pipe_on_connection a b c s) = on_connection_impl a b c (as_tcp s)"
  by (simp add: pipe_on_connection_def on_connection_impl_def Let_def split: uv_status.split)

lemma as_tcp_cancel: "as_tcp (pipe_accept_cancel_job i s) = accept_cancel_job i (as_tcp s)"
  by (simp add: pipe_accept_cancel_job_def accept_cancel_job_def Let_def)

lemma as_tcp_stop: "map_prod as_tcp id (pipe_accept_stop i w) = accept_stop i (map_prod as_tcp id w)"
  by (cases w) (simp add: pipe_accept_stop_def accept_stop_def Let_def)

lemma as_tcp_close: "as_tcp (pipe_server_close s) = tcp_server_close (as_tcp s)"
proof -
  have "ps_closed (pipe_wake_waiter x) = sv_closed (wake_accept_waiter (as_tcp x))"
    "ps_pending_clients (pipe_wake_waiter x) = sv_pending_clients (wake_accept_waiter (as_tcp x))" for x
    by (simp_all flip: as_tcp_wake)
  then show ?thesis by (simp add: pipe_server_close_def tcp_server_close_def Let_def split: option.split)
qed

lemma as_tcp_suspend:
  "map_prod id (map_prod as_tcp id) (pipe_accept_await_suspend a b i w) = accept_await_suspend a b i (map_prod as_tcp id w)"
  using as_tcp_stop [of i] 
  by (cases w) (simp add: pipe_accept_await_suspend_def accept_await_suspend_def Let_def pipe_accept_stop_def accept_stop_def)

lemma as_tcp_accept: "map_prod as_tcp id (snd (pipe_accept a b c d w)) = snd (tcp_accept a b c d (map_prod as_tcp id w))"
proof (cases w)
  case (Pair s rt)
  let ?x = "(new_accept_op a)\<lparr>ao_token := b\<rparr>"
  let ?s = "pipe_set_op (ps_count s) ?x (pipe_set_op (ps_count s) (new_accept_op a) (s\<lparr>ps_count := Suc (ps_count s)\<rparr>))"
  obtain r t where r: "pipe_accept_await_suspend c d (ps_count s) (?s, rt) = (r, t)" by (rule prod.exhaust)
  with as_tcp_suspend [of c d "ps_count s" "(?s, rt)"]
  have "accept_await_suspend c d (ps_count s) (as_tcp ?s, rt) = (r, map_prod as_tcp id t)" by simp
  with Pair r show ?thesis
    by (cases r; cases t)
      (simp_all add: pipe_accept_def tcp_accept_def Let_def pipe_accept_await_ready_def accept_await_ready_def)
qed

lemma as_tcp_step: "map_prod as_tcp id (pipe_step ev w) = server_step ev (map_prod as_tcp id w)"
proof (cases ev)
  case (Av_accept a b c d)
  then show ?thesis using as_tcp_accept [of a b c d w] by simp
next
  case (Av_stop i)
  then show ?thesis using as_tcp_stop [of i w] by (cases w) simp
qed (cases w; simp add: as_tcp_connection as_tcp_cancel as_tcp_close pipe_bind_def tcp_bind_def pipe_listen_def tcp_listen_def
    split: uv_status.split list.split)+

lemma as_tcp_run: "map_prod as_tcp id (pipe_run evs w) = server_run evs (map_prod as_tcp id w)"
  by (induction evs arbitrary: w) (simp_all add: as_tcp_step del: pipe_step.simps server_step.simps)

lemma as_tcp_new: "pipe_server_new ipc Uv_ok = Inr p \<Longrightarrow> tcp_server_new Uv_ok = Inr (as_tcp p)"
  by (auto simp: pipe_server_new_def tcp_server_new_def as_tcp_def fun_eq_iff)

text \<open>
  C30. \<open>pipe_server\<close> and \<open>tcp_server\<close> are equivalent: after the same events (binds, listens, calls of
  \<open>accept\<close>, stops, jobs, connections with libuv's errors, closes) both have the same calls waiting,
  pending, delivered and closed connections, results and dangling jobs, with only the errors' texts
  different; and so a pipe server, too, hands out each accepted connection at most once, in order.
\<close>

theorem pipe_server_equiv_tcp:
  assumes "pipe_server_new ipc Uv_ok = Inr p" and "tcp_server_new Uv_ok = Inr t"
    and "(p', rtp) = pipe_run evs (p, rt)" and "(t', rtt) = server_run evs (t, rt)"
  shows "as_tcp p' = t' \<and> rtp = rtt \<and> map snd (ps_delivered p') = take (length (ps_delivered p')) (ps_accepted p') \<and>
    distinct (map snd (ps_delivered p')) \<and> distinct (map fst (ps_delivered p'))"
proof -
  from as_tcp_new [OF assms(1)] assms(2) have t: "t = as_tcp p" by simp
  have "map_prod as_tcp id (p', rtp) = (t', rtt)" unfolding assms(3,4) t as_tcp_run by simp
  then have e: "as_tcp p' = t'" "rtp = rtt" by simp_all
  have "server_inv (fst (t', rtt))" unfolding assms(4) by (rule server_inv_run) (simp add: server_inv_new [OF assms(2)])
  then have "server_inv t'" by simp
  then obtain dr where d: "map snd (sv_delivered t') @ dr @ sv_pending_clients t' = sv_accepted t'" "distinct (sv_accepted t')"
    and f: "distinct (map fst (sv_delivered t'))" unfolding server_inv_def conns_good_def calls_good_def by blast
  then have "distinct (map snd (sv_delivered t'))" by (metis distinct_append)
  moreover have "map snd (sv_delivered t') = take (length (sv_delivered t')) (sv_accepted t')"
    by (simp flip: d(1))
  ultimately show ?thesis using f e by auto
qed

theorem pipe_server_equiv_tcp_witness:
  "map snd (ps_delivered (fst (pipe_run accept_scenario (projr (pipe_server_new True Uv_ok), new_runtime)))) = [1, 2] \<and>
   as_tcp (fst (pipe_run accept_scenario (projr (pipe_server_new True Uv_ok), new_runtime))) =
     fst (server_run accept_scenario (projr (tcp_server_new Uv_ok), new_runtime))"
proof -
  let ?p = "projr (pipe_server_new True Uv_ok)" and ?t = "projr (tcp_server_new Uv_ok)"
  have "pipe_server_new True Uv_ok = Inr ?p" "tcp_server_new Uv_ok = Inr ?t" by (simp_all add: pipe_server_new_def tcp_server_new_def)
  from pipe_server_equiv_tcp [OF this, of "fst (pipe_run accept_scenario (?p, new_runtime))" "snd (pipe_run accept_scenario (?p, new_runtime))"
      accept_scenario new_runtime "fst (server_run accept_scenario (?t, new_runtime))" "snd (server_run accept_scenario (?t, new_runtime))"]
  have "as_tcp (fst (pipe_run accept_scenario (?p, new_runtime))) = fst (server_run accept_scenario (?t, new_runtime))" by simp
  moreover have "map snd (ps_delivered (fst (pipe_run accept_scenario (?p, new_runtime)))) = [1, 2]" by code_simp
  ultimately show ?thesis by blast
qed

text \<open>The defects of \<open>tcp_server::accept\<close> are therefore here as well: a cancelled \<open>accept\<close> poisons the next one.\<close>

lemma pipe_accept_cancel_poisons_next:
  "ao_result (ps_ops (fst (pipe_run [Av_bind False Uv_ok, Av_listen False Uv_ok, Av_accept False False True False, Av_stop 0, Av_job,
     Av_accept False False False False] (projr (pipe_server_new False Uv_ok), new_runtime))) 1) = Some (Inl Operation_cancelled)"
  by code_simp

end
