(* ===== verification/Dns.thy ===== *)
theory Dns
  imports Tcp_Client
begin

text \<open>
  \<open>resolve\<close> and \<open>reverse_lookup\<close> of \<open>src/dns.cpp\<close>: two more one-shot requests. What is new here is that
  code inside a libuv callback and inside a posted job can throw: an exception that leaves such code
  is not delivered to the coroutine, it leaves the loop. It is recorded in the request.
\<close>

section \<open>Addresses\<close>

fun dns_sockaddr_to_endpoint :: "('a \<Rightarrow> uv_errno + string) \<Rightarrow> ('a \<Rightarrow> uv_errno + string) \<Rightarrow> 'a sockaddr \<Rightarrow> ip_endpoint result" where
  "dns_sockaddr_to_endpoint uv_ip4_name uv_ip6_name (Af_inet a port) =
     (case uv_ip4_name a of
        Inl rc \<Rightarrow> throw_uv_error rc ''uv_ip4_name''
      | Inr ipbuf \<Rightarrow> Inr \<lparr>ep_address = ipbuf, ep_port = int port, ep_ipv6 = False\<rparr>)"
| "dns_sockaddr_to_endpoint uv_ip4_name uv_ip6_name (Af_inet6 a port) =
     (case uv_ip6_name a of
        Inl rc \<Rightarrow> throw_uv_error rc ''uv_ip6_name''
      | Inr ipbuf \<Rightarrow> Inr \<lparr>ep_address = ipbuf, ep_port = int port, ep_ipv6 = True\<rparr>)"
| "dns_sockaddr_to_endpoint uv_ip4_name uv_ip6_name Af_other = Inl (Runtime_error ''unsupported address family'')"

definition endpoint_to_sockaddr :: "(string \<Rightarrow> int \<Rightarrow> uv_errno + 'a sockaddr) \<Rightarrow> (string \<Rightarrow> int \<Rightarrow> uv_errno + 'a sockaddr)
    \<Rightarrow> ip_endpoint \<Rightarrow> 'a sockaddr result" where
  "endpoint_to_sockaddr uv_ip4_addr uv_ip6_addr endpoint =
     (case uv_ip4_addr (ep_address endpoint) (ep_port endpoint) of
        Inr addr4 \<Rightarrow> Inr addr4
      | Inl _ \<Rightarrow>
          (case uv_ip6_addr (ep_address endpoint) (ep_port endpoint) of
             Inr addr6 \<Rightarrow> Inr addr6
           | Inl rc \<Rightarrow> throw_uv_error rc ''uv_ip*_addr''))"

section \<open>resolve\<close>

text \<open>\<open>rs_escaped\<close> is an exception that left libuv's callback, \<open>rs_freed\<close> counts \<open>uv_freeaddrinfo\<close>.\<close>

record resolve_request = uv_request +
  rs_results :: "ip_endpoint list"
  rs_escaped :: "exn option"
  rs_freed :: nat

definition new_resolve_request :: resolve_request where
  "new_resolve_request = \<lparr>rq_continuation = False, rq_keep_alive = False, rq_stop_callback = False, rq_completed = False,
     rq_status = Uv_ok, rq_cancel_requested = False, rq_started = False, rq_in_flight = False, rq_resumed = 0,
     rs_results = [], rs_escaped = None, rs_freed = 0\<rparr>"

text \<open>The start job asks for an empty host or service as a null pointer.\<close>

definition getaddrinfo_args :: "string \<Rightarrow> string \<Rightarrow> string option \<times> string option" where
  "getaddrinfo_args host service = (if host = [] then None else Some host, if service = [] then None else Some service)"

definition resolve_start_job :: "(string option \<times> string option \<Rightarrow> uv_status) \<Rightarrow> string \<Rightarrow> string \<Rightarrow> resolve_request \<Rightarrow> resolve_request" where
  "resolve_start_job uv_getaddrinfo host service x =
     (if rq_completed x then x
      else let x = x\<lparr>rq_started := True\<rparr>
           in (case uv_getaddrinfo (getaddrinfo_args host service) of
                 Uv_ok \<Rightarrow> x\<lparr>rq_in_flight := True\<rparr>
               | Uv_err rc \<Rightarrow> rq_complete (x\<lparr>rq_status := Uv_err rc\<rparr>)))"

text \<open>The loop over libuv's list: each address is converted and appended, until one throws.\<close>

fun push_results :: "('a sockaddr \<Rightarrow> ip_endpoint result) \<Rightarrow> 'a sockaddr list \<Rightarrow> resolve_request \<Rightarrow> exn option \<times> resolve_request" where
  "push_results convert [] x = (None, x)"
| "push_results convert (current # rest) x =
     (case convert current of
        Inl e \<Rightarrow> (Some e, x)
      | Inr endpoint \<Rightarrow> push_results convert rest (x\<lparr>rs_results := rs_results x @ [endpoint]\<rparr>))"

text \<open>The callback; \<open>None\<close> is a null list. After an exception nothing of it runs.\<close>

definition resolve_cb :: "('a sockaddr \<Rightarrow> ip_endpoint result) \<Rightarrow> uv_status \<times> 'a sockaddr list option \<Rightarrow> resolve_request \<Rightarrow> resolve_request" where
  "resolve_cb convert answer x =
     (let x = x\<lparr>rq_in_flight := False, rq_status := fst answer\<rparr>;
          (thrown, x) = (if fst answer = Uv_ok then push_results convert (case snd answer of None \<Rightarrow> [] | Some res \<Rightarrow> res) x else (None, x))
      in case thrown of
           Some e \<Rightarrow> x\<lparr>rs_escaped := Some e\<rparr>
         | None \<Rightarrow> rq_complete (if snd answer \<noteq> None then x\<lparr>rs_freed := Suc (rs_freed x)\<rparr> else x))"

definition resolve_await_resume :: "resolve_request \<Rightarrow> ip_endpoint list result" where
  "resolve_await_resume x =
     (case rq_await_resume ''uv_getaddrinfo'' x of Inl e \<Rightarrow> Inl e | Inr _ \<Rightarrow> Inr (rs_results x))"

definition dns_resolve :: "bool \<Rightarrow> bool \<Rightarrow> bool \<Rightarrow> rq_job uv_runtime \<Rightarrow> ip_endpoint list awaited \<times> resolve_request \<times> rq_job uv_runtime" where
  "dns_resolve stop_requested stop_possible stop_meanwhile rt =
     (case rq_await_suspend stop_requested stop_possible stop_meanwhile (new_resolve_request, rt) of
        (Inl e, w) \<Rightarrow> (Continues (Inl e), w)
      | (Inr False, w) \<Rightarrow> (Continues (resolve_await_resume (fst w)), w)
      | (Inr True, w) \<Rightarrow> (Suspended, w))"

text \<open>
  What happens to a suspended \<open>resolve\<close>: its start job, with libuv's \<open>uv_getaddrinfo\<close> as the event's
  argument, its cancellation job, and libuv's callback.
\<close>

definition dns_step :: "string \<Rightarrow> string \<Rightarrow> ('a sockaddr \<Rightarrow> ip_endpoint result)
    \<Rightarrow> (string option \<times> string option \<Rightarrow> uv_status, uv_status \<times> 'a sockaddr list option) rq_event
    \<Rightarrow> resolve_request \<times> rq_job uv_runtime \<Rightarrow> resolve_request \<times> rq_job uv_runtime" where
  "dns_step host service convert =
     rq_step rq_complete (\<lambda>uv_getaddrinfo. resolve_start_job uv_getaddrinfo host service) (resolve_cb convert)"

text \<open>The overload for a port: \<open>std::to_string\<close> of it is the service.\<close>

fun digits :: "nat \<Rightarrow> string" where
  "digits n = (if n < 10 then [char_of (48 + n)] else digits (n div 10) @ [char_of (48 + n mod 10)])"

declare digits.simps [simp del]

definition to_string :: "int \<Rightarrow> string" where
  "to_string i = (if i < 0 then CHR ''-'' # digits (nat (- i)) else digits (nat i))"

definition resolve_port_args :: "string \<Rightarrow> int \<Rightarrow> string option \<times> string option" where
  "resolve_port_args host port = getaddrinfo_args host (to_string port)"

section \<open>reverse_lookup\<close>

record name_info =
  ni_host :: string
  ni_service :: string

record 'a reverse_request = uv_request +
  rl_addr :: "'a sockaddr option"
  rl_result :: name_info
  rl_escaped :: "exn option"

definition new_reverse_request :: "'a reverse_request" where
  "new_reverse_request = \<lparr>rq_continuation = False, rq_keep_alive = False, rq_stop_callback = False, rq_completed = False,
     rq_status = Uv_ok, rq_cancel_requested = False, rq_started = False, rq_in_flight = False, rq_resumed = 0,
     rl_addr = None, rl_result = \<lparr>ni_host = [], ni_service = []\<rparr>, rl_escaped = None\<rparr>"

text \<open>The start job converts the address first, and that may throw.\<close>

definition reverse_start_job :: "'a sockaddr result \<times> uv_status \<Rightarrow> 'a reverse_request \<Rightarrow> 'a reverse_request" where
  "reverse_start_job found x =
     (if rq_completed x then x
      else (case fst found of
              Inl e \<Rightarrow> x\<lparr>rl_escaped := Some e\<rparr>
            | Inr addr \<Rightarrow>
                (let x = x\<lparr>rl_addr := Some addr, rq_started := True\<rparr>
                 in (case snd found of
                       Uv_ok \<Rightarrow> x\<lparr>rq_in_flight := True\<rparr>
                     | Uv_err rc \<Rightarrow> rq_complete (x\<lparr>rq_status := Uv_err rc\<rparr>)))))"

definition reverse_cb :: "uv_status \<times> string option \<times> string option \<Rightarrow> 'a reverse_request \<Rightarrow> 'a reverse_request" where
  "reverse_cb answer x =
     (case answer of
        (status, hostname, service) \<Rightarrow>
          let x = x\<lparr>rq_in_flight := False, rq_status := status\<rparr>;
              x = (if status = Uv_ok
                   then x\<lparr>rl_result := \<lparr>ni_host = (case hostname of None \<Rightarrow> [] | Some h \<Rightarrow> h),
                                       ni_service = (case service of None \<Rightarrow> [] | Some s \<Rightarrow> s)\<rparr>\<rparr>
                   else x)
          in rq_complete x)"

definition reverse_await_resume :: "'a reverse_request \<Rightarrow> name_info result" where
  "reverse_await_resume x =
     (case rq_await_resume ''uv_getnameinfo'' x of Inl e \<Rightarrow> Inl e | Inr _ \<Rightarrow> Inr (rl_result x))"

definition reverse_lookup :: "bool \<Rightarrow> bool \<Rightarrow> bool \<Rightarrow> rq_job uv_runtime \<Rightarrow> name_info awaited \<times> 'a reverse_request \<times> rq_job uv_runtime" where
  "reverse_lookup stop_requested stop_possible stop_meanwhile rt =
     (case rq_await_suspend stop_requested stop_possible stop_meanwhile (new_reverse_request, rt) of
        (Inl e, w) \<Rightarrow> (Continues (Inl e), w)
      | (Inr False, w) \<Rightarrow> (Continues (reverse_await_resume (fst w)), w)
      | (Inr True, w) \<Rightarrow> (Suspended, w))"

section \<open>Lemmas\<close>

lemma rq_core_dns [simp]:
  "rq_core (x\<lparr>rs_results := r\<rparr>) = rq_core x" "rq_core (x\<lparr>rs_escaped := e\<rparr>) = rq_core x" "rq_core (x\<lparr>rs_freed := n\<rparr>) = rq_core x"
  "rq_core (y\<lparr>rl_addr := a\<rparr>) = rq_core y" "rq_core (y\<lparr>rl_result := i\<rparr>) = rq_core y" "rq_core (y\<lparr>rl_escaped := e\<rparr>) = rq_core y"
  by (simp_all add: rq_core_def uv_request.truncate_def)

lemma rq_complete_dns [simp]:
  "rs_results (rq_complete x) = rs_results x" "rs_escaped (rq_complete x) = rs_escaped x" "rs_freed (rq_complete x) = rs_freed x"
  "rl_result (rq_complete y) = rl_result y" "rl_escaped (rq_complete y) = rl_escaped y"
  by (simp_all add: rq_complete_def)

text \<open>The loop over convertible addresses appends them all, in their order.\<close>

lemma push_results_ok:
  "\<forall>a\<in>set as. \<exists>e. convert a = Inr e \<Longrightarrow> push_results convert as x = (None, x\<lparr>rs_results := rs_results x @ map (projr \<circ> convert) as\<rparr>)"
proof (induction as arbitrary: x)
  case (Cons a as)
  then obtain e where "convert a = Inr e" by auto
  with Cons show ?case by simp
qed simp

lemma push_results_throws:
  "push_results convert (as @ a # bs) x = (Some e, x\<lparr>rs_results := rs_results x @ map (projr \<circ> convert) as\<rparr>)"
  if "\<forall>a\<in>set as. \<exists>e. convert a = Inr e" and "convert a = Inl e"
  using that
proof (induction as arbitrary: x)
  case (Cons b as)
  then obtain e where "convert b = Inr e" by auto
  with Cons show ?case by simp
qed simp

text \<open>
  What the callback does when every address converts, for the proofs: with it \<open>resolve\<close> is a one-shot
  request, and every run in which no exception escapes is a run of it.
\<close>

definition resolve_done :: "uv_status \<times> ip_endpoint list option \<Rightarrow> resolve_request \<Rightarrow> resolve_request" where
  "resolve_done answer x =
     rq_complete (x\<lparr>rq_in_flight := False, rq_status := fst answer,
       rs_results := rs_results x @ (case answer of (Uv_ok, Some eps) \<Rightarrow> eps | _ \<Rightarrow> []),
       rs_freed := rs_freed x + (if snd answer = None then 0 else 1)\<rparr>)"

lemma resolve_cb_done:
  assumes "st = Uv_ok \<longrightarrow> (\<forall>a\<in>set_option res. \<forall>b\<in>set a. \<exists>e. convert b = Inr e)"
  shows "resolve_cb convert (st, res) x = resolve_done (st, map_option (map (projr \<circ> convert)) res) x"
proof (cases "st = Uv_ok")
  case True
  with assms show ?thesis by (cases res) (simp_all add: resolve_cb_def resolve_done_def push_results_ok)
next
  case False
  then obtain e where "st = Uv_err e" by (cases st) auto
  then show ?thesis by (cases res) (simp_all add: resolve_cb_def resolve_done_def)
qed

text \<open>An exception escapes from the callback exactly when an address of a successful answer does not convert.\<close>

definition bad_answer :: "('a sockaddr \<Rightarrow> ip_endpoint result) \<Rightarrow> uv_status \<times> 'a sockaddr list option \<Rightarrow> bool" where
  "bad_answer convert answer \<longleftrightarrow> fst answer = Uv_ok \<and> (\<exists>as\<in>set_option (snd answer). \<exists>a\<in>set as. \<exists>e. convert a = Inl e)"

lemma first_bad:
  assumes "\<exists>a\<in>set as. \<exists>e. convert a = Inl e"
  obtains bs a cs e where "as = bs @ a # cs" "\<forall>b\<in>set bs. \<exists>ep. convert b = Inr ep" "convert a = Inl e"
proof -
  have "\<exists>a\<in>set as. isl (convert a)" using assms by force
  from split_list_first_prop [OF this] obtain bs a cs where
    s: "as = bs @ a # cs" "isl (convert a)" "\<forall>b\<in>set bs. \<not> isl (convert b)" by blast
  then obtain e where "convert a = Inl e" by (auto simp: isl_def)
  moreover have "\<forall>b\<in>set bs. \<exists>ep. convert b = Inr ep" using s(3) by (metis isl_def sum.exhaust)
  ultimately show thesis using that s(1) by blast
qed

lemma resolve_cb_escapes:
  assumes "bad_answer convert answer"
  shows "rs_escaped (resolve_cb convert answer x) \<noteq> None"
proof -
  from assms obtain as where as: "answer = (Uv_ok, Some as)" "\<exists>a\<in>set as. \<exists>e. convert a = Inl e"
    by (cases answer) (auto simp: bad_answer_def)
  from first_bad [OF as(2)] obtain bs a cs e where
    b: "as = bs @ a # cs" "\<forall>b\<in>set bs. \<exists>ep. convert b = Inr ep" "convert a = Inl e" .
  show ?thesis by (simp add: resolve_cb_def as(1) b(1) push_results_throws [OF b(2,3)])
qed

lemma resolve_cb_good:
  assumes "\<not> bad_answer convert (st, res)"
  shows "resolve_cb convert (st, res) x = resolve_done (st, map_option (map (projr \<circ> convert)) res) x"
  by (rule resolve_cb_done) (use assms in \<open>auto simp: bad_answer_def, metis sum.exhaust\<close>)

abbreviation resolve_start :: "uv_status \<Rightarrow> resolve_request \<Rightarrow> resolve_request" where
  "resolve_start rc \<equiv> resolve_start_job (\<lambda>_. rc) [] []"

lemma resolve_start_eq: "resolve_start_job f host service = resolve_start (f (getaddrinfo_args host service))"
  by (simp add: resolve_start_job_def fun_eq_iff)

interpretation resolving: one_shot rq_complete resolve_start resolve_done fst
proof
  fix a :: uv_status and x :: resolve_request
  assume "\<not> rq_completed x"
  then show "rq_core (resolve_start a x) = (rq_core x)\<lparr>rq_started := True, rq_in_flight := True\<rparr> \<or>
      (\<exists>b e. rq_core (resolve_start a x) = rq_complete ((rq_core x)\<lparr>rq_started := b, rq_status := Uv_err e\<rparr>))"
    by (cases a) (auto simp: resolve_start_job_def Let_def)
next
  fix b :: "uv_status \<times> ip_endpoint list option" and x
  show "\<exists>s. rq_core (resolve_done b x) = rq_on_done s (rq_core x) \<and> (s = Uv_ok \<longrightarrow> fst b = Uv_ok)"
    by (intro exI [of _ "fst b"]) (simp add: resolve_done_def rq_on_done_def)
qed (auto simp: resolve_start_job_def)

definition resolve_step :: "(uv_status, uv_status \<times> ip_endpoint list option) rq_event
    \<Rightarrow> resolve_request \<times> rq_job uv_runtime \<Rightarrow> resolve_request \<times> rq_job uv_runtime" where
  "resolve_step = rq_step rq_complete resolve_start resolve_done"

text \<open>The results: none before libuv's callback, and then those of a successful answer.\<close>

definition results_good :: "ip_endpoint list set \<Rightarrow> resolve_request \<Rightarrow> bool" where
  "results_good A x \<longleftrightarrow> (rq_in_flight x \<or> \<not> rq_started x \<longrightarrow> rs_results x = []) \<and>
     (rq_completed x \<longrightarrow> rq_status x = Uv_ok \<longrightarrow> rs_results x \<in> A)"

lemma results_step:
  assumes "results_good A (fst w)" and "rq_inv w" and "rq_enabled ev w"
    and "\<forall>st res. ev = Rq_done (st, res) \<longrightarrow> st = Uv_ok \<longrightarrow> (case res of None \<Rightarrow> [] | Some eps \<Rightarrow> eps) \<in> A"
  shows "results_good A (fst (resolve_step ev w))"
proof (cases ev)
  case Rq_stop
  with assms(1) show ?thesis by (simp add: resolve_step_def rq_stop_def)
next
  case (Rq_done b)
  obtain st res where b: "b = (st, res)" by fastforce
  from assms(2,3) Rq_done have "rq_started (fst w)" "rq_in_flight (fst w)" by (auto simp: rq_inv_def rq_good_def)
  with assms(1,4) Rq_done b show ?thesis
    by (cases st; cases res) (auto simp: resolve_step_def results_good_def resolve_done_def rq_complete_sel)
next
  case (Rq_job a rc)
  have n: "rq_in_flight (fst w) \<longrightarrow> rq_started (fst w)" using assms(2) by (auto simp: rq_inv_def rq_good_def)
  have "results_good A (resolve_start a (fst w))" if "Rj_start \<in> set (rt_queue (snd w))"
  proof (cases a)
    case Uv_ok
    with assms(1,2) that show ?thesis
      by (auto simp: results_good_def resolve_start_job_def rq_inv_def rq_good_def Let_def)
  next
    case (Uv_err e)
    with assms(1,2) that show ?thesis
      by (auto simp: results_good_def resolve_start_job_def rq_inv_def rq_good_def Let_def rq_complete_sel)
  qed
  moreover have "results_good A (rq_cancel_job rq_complete rc (fst w))"
    using assms(1) n by (auto simp: results_good_def rq_cancel_job_def Let_def rq_complete_sel)
  ultimately show ?thesis using assms(1) Rq_job
    by (auto simp: resolve_step_def rq_run_job_def Let_def split: list.split rq_job.split)
qed

lemma results_run:
  "results_good A (fst w) \<Longrightarrow> rq_inv w \<Longrightarrow> rq_runnable resolve_step evs w \<Longrightarrow>
   \<forall>st res. Rq_done (st, res) \<in> set evs \<longrightarrow> st = Uv_ok \<longrightarrow> (case res of None \<Rightarrow> [] | Some eps \<Rightarrow> eps) \<in> A \<Longrightarrow>
   results_good A (fst (rq_run resolve_step evs w))"
proof (induction evs arbitrary: w)
  case (Cons ev evs)
  from Cons.prems(2,3) resolving.inv_step [of w ev] have "rq_inv (resolve_step ev w)" by (simp add: resolve_step_def)
  moreover have "results_good A (fst (resolve_step ev w))" using results_step [OF Cons.prems(1,2)] Cons.prems(3,4) by simp
  ultimately show ?case using Cons by simp
qed simp

text \<open>A run in which nothing escaped is the run of the one-shot request on converted answers.\<close>

fun converted :: "string \<Rightarrow> string \<Rightarrow> ('a sockaddr \<Rightarrow> ip_endpoint result)
    \<Rightarrow> (string option \<times> string option \<Rightarrow> uv_status, uv_status \<times> 'a sockaddr list option) rq_event
    \<Rightarrow> (uv_status, uv_status \<times> ip_endpoint list option) rq_event" where
  "converted host service convert Rq_stop = Rq_stop"
| "converted host service convert (Rq_job f rc) = Rq_job (f (getaddrinfo_args host service)) rc"
| "converted host service convert (Rq_done answer) = Rq_done (fst answer, map_option (map (projr \<circ> convert)) (snd answer))"

lemma dns_step_converted:
  assumes "\<forall>answer. ev = Rq_done answer \<longrightarrow> \<not> bad_answer convert answer"
  shows "dns_step host service convert ev w = resolve_step (converted host service convert ev) w"
proof (cases ev)
  case (Rq_job f rc)
  then show ?thesis by (simp add: dns_step_def resolve_step_def resolve_start_eq [of f host service])
next
  case (Rq_done answer)
  with assms show ?thesis by (cases answer) (simp add: dns_step_def resolve_step_def resolve_cb_good)
qed (simp add: dns_step_def resolve_step_def)

lemma resolve_step_escaped: "rs_escaped (fst (resolve_step ev w)) = rs_escaped (fst w)"
proof (cases ev)
  case (Rq_job a rc)
  then show ?thesis
    by (cases a) (auto simp: resolve_step_def rq_run_job_def resolve_start_job_def rq_cancel_job_def Let_def
        split: list.split rq_job.split)
qed (simp_all add: resolve_step_def rq_stop_def resolve_done_def)

lemma dns_step_escaped:
  "rs_escaped (fst (dns_step host service convert ev w)) = None \<longleftrightarrow>
     rs_escaped (fst w) = None \<and> (\<forall>answer. ev = Rq_done answer \<longrightarrow> \<not> bad_answer convert answer)"
proof (cases "\<exists>answer. ev = Rq_done answer \<and> bad_answer convert answer")
  case True
  then show ?thesis by (auto simp: dns_step_def resolve_cb_escapes)
next
  case False
  then show ?thesis using dns_step_converted [of ev convert host service w] by (simp add: resolve_step_escaped)
qed

lemma dns_run_escaped:
  "rs_escaped (fst (rq_run (dns_step host service convert) evs w)) = None \<longleftrightarrow>
     rs_escaped (fst w) = None \<and> (\<forall>answer. Rq_done answer \<in> set evs \<longrightarrow> \<not> bad_answer convert answer)"
  by (induction evs arbitrary: w) (auto simp: dns_step_escaped)

lemma converted_enabled [simp]: "rq_enabled (converted host service convert ev) w = rq_enabled ev w"
  by (cases ev) simp_all

lemma dns_run_converted:
  assumes "\<forall>answer. Rq_done answer \<in> set evs \<longrightarrow> \<not> bad_answer convert answer"
  shows "rq_run (dns_step host service convert) evs w = rq_run resolve_step (map (converted host service convert) evs) w"
    and "rq_runnable (dns_step host service convert) evs w = rq_runnable resolve_step (map (converted host service convert) evs) w"
  using assms by (induction evs arbitrary: w) (simp_all add: dns_step_converted)

text \<open>Even an exception that escapes does not make the coroutine resume twice.\<close>

definition resolve_once :: "resolve_request \<Rightarrow> bool" where
  "resolve_once x \<longleftrightarrow> rq_resumed x + (if rq_continuation x then 1 else 0) \<le> 1"

lemma push_results_core: "rq_core (snd (push_results convert as x)) = rq_core x"
  by (induction as arbitrary: x) (auto split: sum.split)

lemma resolve_once_core: "resolve_once x = (rq_resumed (rq_core x) + (if rq_continuation (rq_core x) then 1 else 0) \<le> 1)"
  by (simp add: resolve_once_def)

lemma resolve_once_complete: "resolve_once x \<Longrightarrow> resolve_once (rq_complete x)"
  by (auto simp: resolve_once_def rq_complete_def)

lemma resolve_once_cb:
  assumes "resolve_once x"
  shows "resolve_once (resolve_cb convert answer x)"
proof -
  let ?x = "x\<lparr>rq_in_flight := False, rq_status := fst answer\<rparr>"
  have "resolve_once (snd (push_results convert as ?x))" for as
    using assms by (simp add: resolve_once_core push_results_core)
  then have "resolve_once y" if "push_results convert as ?x = (e, y)" for as e y using that by (metis snd_conv)
  moreover have "resolve_once (y\<lparr>rs_escaped := e\<rparr>) = resolve_once y" "resolve_once (y\<lparr>rs_freed := n\<rparr>) = resolve_once y" for y e n
    by (simp_all add: resolve_once_def)
  moreover have "resolve_once ?x" using assms by (simp add: resolve_once_def)
  ultimately show ?thesis
    by (auto simp: resolve_cb_def Let_def resolve_once_complete split: option.split prod.split)
qed

lemma dns_step_once:
  assumes "resolve_once (fst w)"
  shows "resolve_once (fst (dns_step host service convert ev w))"
proof (cases ev)
  case (Rq_job f rc)
  have u: "resolve_once (x\<lparr>rq_status := s\<rparr>) = resolve_once x" "resolve_once (x\<lparr>rq_started := b\<rparr>) = resolve_once x"
    "resolve_once (x\<lparr>rq_in_flight := b\<rparr>) = resolve_once x" "resolve_once (x\<lparr>rq_cancel_requested := b\<rparr>) = resolve_once x" for x s b
    by (simp_all add: resolve_once_def)
  from assms Rq_job u show ?thesis
    by (auto simp: dns_step_def rq_run_job_def resolve_start_job_def rq_cancel_job_def Let_def resolve_once_complete
        split: list.split rq_job.split uv_status.split)
qed (use assms in \<open>simp_all add: dns_step_def rq_stop_def resolve_once_cb\<close>)

lemma dns_run_once: "resolve_once (fst w) \<Longrightarrow> resolve_once (fst (rq_run (dns_step host service convert) evs w))"
  by (induction evs arbitrary: w) (simp_all add: dns_step_once)

section \<open>Properties\<close>

text \<open>
  C31. A suspended \<open>resolve\<close>: however stops, jobs, failures to start and the callback interleave, the
  coroutine is resumed at most once. Unless an exception has left libuv's callback, which happens
  exactly when an address of a successful answer does not convert, it is resumed once when nothing is
  left to happen, and a list it returns holds the conversions of all addresses of a successful answer
  of libuv, in libuv's order.
\<close>

theorem dns_resolve_once_complete:
  assumes "rt_queue rt = []" and "dns_resolve stop_requested stop_possible stop_meanwhile rt = (Suspended, w)"
    and "rq_runnable (dns_step host service convert) evs w" and "rq_run (dns_step host service convert) evs w = (x, rt')"
  shows "rq_resumed x \<le> 1 \<and>
    (rs_escaped x \<noteq> None \<longleftrightarrow>
      (\<exists>as a e. Rq_done (Uv_ok, Some as) \<in> set evs \<and> a \<in> set as \<and> convert a = Inl e)) \<and>
    (rs_escaped x = None \<longrightarrow>
      (rt_queue rt' = [] \<longrightarrow> \<not> rq_in_flight x \<longrightarrow> rq_resumed x = 1) \<and>
      (rq_completed x \<longrightarrow> resolve_await_resume x = Inr eps \<longrightarrow>
        (\<exists>res. Rq_done (Uv_ok, res) \<in> set evs \<and> map Inr eps = map convert (case res of None \<Rightarrow> [] | Some as \<Rightarrow> as))))"
proof -
  from assms(2) have s: "rq_await_suspend stop_requested stop_possible stop_meanwhile (new_resolve_request, rt) = (Inr True, w)"
    by (auto simp: dns_resolve_def split: sum.splits bool.splits prod.splits)
  have f: "rq_fresh new_resolve_request" by (simp add: rq_fresh_def new_resolve_request_def)
  note i = rq_suspended_inv [OF f assms(1) s]
  have w: "rs_results (fst w) = []" "rs_escaped (fst w) = None" "resolve_once (fst w)" using s
    by (auto simp: rq_await_suspend_def new_resolve_request_def rq_stop_def resolve_once_def Let_def split: if_splits prod.splits sum.splits)
  have once: "rq_resumed x \<le> 1" using dns_run_once [OF w(3), of host service convert evs] assms(4)
    by (simp add: resolve_once_def split: if_splits)
  have esc: "rs_escaped x = None \<longleftrightarrow> (\<forall>answer. Rq_done answer \<in> set evs \<longrightarrow> \<not> bad_answer convert answer)"
    using dns_run_escaped [of host service convert evs w] assms(4) w(2) by simp
  then have esc': "rs_escaped x \<noteq> None \<longleftrightarrow>
      (\<exists>as a e. Rq_done (Uv_ok, Some as) \<in> set evs \<and> a \<in> set as \<and> convert a = Inl e)"
    by (fastforce simp: bad_answer_def)
  have main: "(rt_queue rt' = [] \<longrightarrow> \<not> rq_in_flight x \<longrightarrow> rq_resumed x = 1) \<and>
      (rq_completed x \<longrightarrow> resolve_await_resume x = Inr eps \<longrightarrow>
        (\<exists>res. Rq_done (Uv_ok, res) \<in> set evs \<and> map Inr eps = map convert (case res of None \<Rightarrow> [] | Some as \<Rightarrow> as)))"
    if none: "rs_escaped x = None"
  proof -
    from none esc have good: "\<forall>answer. Rq_done answer \<in> set evs \<longrightarrow> \<not> bad_answer convert answer" by blast
    let ?evs = "map (converted host service convert) evs"
    note c = dns_run_converted [OF good, of host service w]
    from assms(3,4) have r: "rq_runnable resolve_step ?evs w" "rq_run resolve_step ?evs w = (x, rt')" by (simp_all add: c)
    let ?A = "{l. \<exists>res. Rq_done (Uv_ok, res) \<in> set evs \<and> map Inr l = map convert (case res of None \<Rightarrow> [] | Some as \<Rightarrow> as)}"
    have inA: "(case res of None \<Rightarrow> [] | Some eps \<Rightarrow> eps) \<in> ?A" if "Rq_done (Uv_ok, res) \<in> set ?evs" for res
    proof -
      from that obtain ev where ev: "ev \<in> set evs" "converted host service convert ev = Rq_done (Uv_ok, res)" by auto
      obtain ans where "ev = Rq_done (Uv_ok, ans)" "res = map_option (map (projr \<circ> convert)) ans"
        using ev(2) by (cases ev rule: rq_event.exhaust) auto
      with ev(1) have ans: "Rq_done (Uv_ok, ans) \<in> set evs" "res = map_option (map (projr \<circ> convert)) ans" by simp_all
      have "Inr (projr (convert a)) = convert a" if "as \<in> set_option ans" "a \<in> set as" for as a
      proof (cases "convert a")
        case (Inl e)
        with that have "bad_answer convert (Uv_ok, ans)" unfolding bad_answer_def by auto
        with good ans(1) show ?thesis by blast
      qed simp
      with ans show ?thesis by (cases ans) auto
    qed
    have "results_good ?A (fst w)" using i(3) w(1) by (simp add: results_good_def)
    from results_run [OF this i(1) r(1)] inA r(2) have "results_good ?A x" by auto
    then have "rq_completed x \<longrightarrow> resolve_await_resume x = Inr eps \<longrightarrow> eps \<in> ?A"
      using rq_await_resume_Inr [of "''uv_getaddrinfo''" x] by (auto simp: resolve_await_resume_def results_good_def split: sum.splits)
    with resolving.resumed_exactly_once [OF i(1) r(1) [unfolded resolve_step_def]] r(2) show ?thesis
      by (auto simp: resolve_step_def)
  qed
  from once esc' main show ?thesis by blast
qed

text \<open>Two addresses, of which the second is one of IPv6.\<close>

definition resolve_demo :: "(string option \<times> string option \<Rightarrow> uv_status, uv_status \<times> nat sockaddr list option) rq_event list" where
  "resolve_demo = [Rq_job (\<lambda>args. if args = (Some ''localhost'', None) then Uv_ok else Uv_err UV_EBUSY) Uv_ok,
     Rq_done (Uv_ok, Some [Af_inet 1 80, Af_inet6 2 80])]"

definition demo_convert :: "nat sockaddr \<Rightarrow> ip_endpoint result" where
  "demo_convert = dns_sockaddr_to_endpoint (\<lambda>_. Inr ''127.0.0.1'') (\<lambda>_. Inr ''::1'')"

theorem dns_resolve_once_complete_witness:
  "\<exists>x rt'. rq_run (dns_step ''localhost'' [] demo_convert) resolve_demo (snd (dns_resolve False True False new_runtime)) = (x, rt') \<and>
     rq_resumed x = 1 \<and> map_sum id (map ep_address) (resolve_await_resume x) = Inr [''127.0.0.1'', ''::1'']"
proof -
  let ?w = "snd (dns_resolve False True False new_runtime)" and ?step = "dns_step ''localhost'' [] demo_convert"
  have s: "dns_resolve False True False new_runtime = (Suspended, ?w)"
    by (simp add: dns_resolve_def rq_await_suspend_def post_def async_send_def new_runtime_def)
  have r: "rq_runnable ?step resolve_demo ?w" by code_simp
  have e: "rt_queue (new_runtime :: rq_job uv_runtime) = []" by (simp add: new_runtime_def)
  have q: "rt_queue (snd (rq_run ?step resolve_demo ?w)) = []" "\<not> rq_in_flight (fst (rq_run ?step resolve_demo ?w))"
    "rs_escaped (fst (rq_run ?step resolve_demo ?w)) = None"
    "map_sum id (map ep_address) (resolve_await_resume (fst (rq_run ?step resolve_demo ?w))) = Inr [''127.0.0.1'', ''::1'']"
    by code_simp+
  from dns_resolve_once_complete [OF e s r surjective_pairing] q
  show ?thesis by (intro exI [of _ "fst (rq_run ?step resolve_demo ?w)"] exI [of _ "snd (rq_run ?step resolve_demo ?w)"]) simp
qed

text \<open>
  Two defects. An address of another family throws out of libuv's callback: the coroutine is not
  resumed, and libuv's list is not freed. And an endpoint that is no address throws out of the posted
  job of \<open>reverse_lookup\<close>.
\<close>

lemma resolve_throws_into_libuv:
  assumes "convert a = Inl e" and "\<forall>b\<in>set as. \<exists>ep. convert b = Inr ep"
  shows "rs_escaped (resolve_cb convert (Uv_ok, Some (as @ a # bs)) x) = Some e \<and>
    rq_completed (resolve_cb convert (Uv_ok, Some (as @ a # bs)) x) = rq_completed x \<and>
    rq_resumed (resolve_cb convert (Uv_ok, Some (as @ a # bs)) x) = rq_resumed x \<and>
    rs_freed (resolve_cb convert (Uv_ok, Some (as @ a # bs)) x) = rs_freed x"
  using push_results_throws [of as convert a e bs] assms by (simp add: resolve_cb_def)

lemma reverse_lookup_throws_into_loop:
  assumes "uv_ip4_addr (ep_address ep) (ep_port ep) = Inl c4" and "uv_ip6_addr (ep_address ep) (ep_port ep) = Inl c6"
    and "\<not> rq_completed x"
  shows "reverse_start_job (endpoint_to_sockaddr uv_ip4_addr uv_ip6_addr ep, rc) x = x\<lparr>rl_escaped := Some (Uv_error c6 ''uv_ip*_addr'')\<rparr>"
  using assms by (simp add: reverse_start_job_def endpoint_to_sockaddr_def)

text \<open>
  An endpoint that the library made from an address converts back to this address, when libuv's
  parsers invert its printers and the parser for IPv4 refuses what is printed for IPv6.
\<close>

lemma endpoint_roundtrip:
  assumes "\<And>a port t. uv_ip4_name a = Inr t \<Longrightarrow> uv_ip4_addr t (int port) = Inr (Af_inet a port)"
    and "\<And>a port t. uv_ip6_name a = Inr t \<Longrightarrow> uv_ip6_addr t (int port) = Inr (Af_inet6 a port) \<and> (\<exists>c. uv_ip4_addr t (int port) = Inl c)"
    and "dns_sockaddr_to_endpoint uv_ip4_name uv_ip6_name sa = Inr ep"
  shows "endpoint_to_sockaddr uv_ip4_addr uv_ip6_addr ep = Inr sa"
proof (cases sa)
  case (Af_inet a port)
  with assms(3) obtain t where t: "uv_ip4_name a = Inr t" "ep_address ep = t" "ep_port ep = int port"
    by (auto split: sum.splits)
  with assms(1) [OF t(1), of port] Af_inet show ?thesis by (simp add: endpoint_to_sockaddr_def)
next
  case (Af_inet6 a port)
  with assms(3) obtain t where t: "uv_ip6_name a = Inr t" "ep_address ep = t" "ep_port ep = int port"
    by (auto split: sum.splits)
  with assms(2) [OF t(1), of port] Af_inet6 show ?thesis by (auto simp: endpoint_to_sockaddr_def)
next
  case Af_other
  with assms(3) show ?thesis by simp
qed

end
