(* ===== verification/Process.thy ===== *)
theory Process
  imports Pipe_Server
begin

text \<open>
  \<open>process\<close> of \<open>src/process.cpp\<close>: spawning, waiting, killing and closing. A process object refers to a
  shared state, which \<open>spawn\<close> replaces when the old one still has a handle; posted jobs and libuv's
  exit callback refer to the state they were made for. The states are numbered, so are libuv's
  handles and the calls of \<open>wait\<close>.
\<close>

section \<open>Data\<close>

record process_options =
  po_file :: string
  po_args :: "string list"
  po_env :: "string list"
  po_cwd :: string
  po_detached :: bool
  po_windows_hide :: bool
  po_windows_hide_console :: bool
  po_windows_verbatim_arguments :: bool
  po_stdin_pipe :: bool
  po_stdout_pipe :: bool
  po_stderr_pipe :: bool

datatype process_flag =
  UV_PROCESS_DETACHED | UV_PROCESS_WINDOWS_HIDE | UV_PROCESS_WINDOWS_HIDE_CONSOLE | UV_PROCESS_WINDOWS_VERBATIM_ARGUMENTS

datatype stdio_container = UV_INHERIT_FD nat | UV_READABLE_PIPE "nat option" | UV_WRITABLE_PIPE "nat option"

text \<open>What \<open>uv_spawn\<close> is given.\<close>

record spawn_request =
  sr_file :: string
  sr_args :: "string list"
  sr_env :: "string list option"
  sr_cwd :: "string option"
  sr_flags :: "process_flag set"
  sr_stdio :: "stdio_container list"

record process_state =
  pr_handle :: "nat option"
  pr_keep_alive :: bool
  pr_waiter :: "nat option"
  pr_exited :: bool
  pr_wait_status :: uv_status
  pr_exit_status :: int
  pr_term_signal :: int
  pr_pid :: int
  pr_running :: bool

text \<open>
  The awaiter of a call of \<open>wait\<close>, with the state it waits on. \<open>wo_child\<close> is kept for the proofs: the
  handle, that is the child, which the object had when \<open>wait\<close> was called.
\<close>

record wait_op =
  wo_state :: nat
  wo_child :: nat
  wo_continuation :: bool
  wo_stop_callback :: bool
  wo_token :: bool
  wo_resumed :: nat
  wo_result :: "(int \<times> int) result option"

datatype process_job = Pj_cancel nat | Pj_close nat nat | Pj_pipe nat

text \<open>
  The object, the states and the loop. \<open>pw_watch\<close> are the handles whose child libuv watches, with the
  state in their \<open>data\<close>; \<open>pw_exits\<close> are the exits that libuv has reported, with the handle of the child,
  \<open>pw_closed\<close> the handles closed, \<open>pw_closing\<close> those of children whose close callback is to come, with
  the state in their \<open>data\<close>, \<open>pw_freed\<close> those deleted without being closed, and \<open>pw_dangling\<close> says that a job touched an
  awaiter that was gone.
\<close>

record process_world =
  pw_state :: nat
  pw_states :: "nat \<Rightarrow> process_state"
  pw_nstates :: nat
  pw_stdin :: "pipe_client option"
  pw_stdout :: "pipe_client option"
  pw_stderr :: "pipe_client option"
  pw_next :: nat
  pw_ops :: "nat \<Rightarrow> wait_op"
  pw_count :: nat
  pw_rt :: "process_job uv_runtime"
  pw_watch :: "nat \<rightharpoonup> nat"
  pw_exits :: "(nat \<times> int \<times> int) list"
  pw_closed :: "nat list"
  pw_closing :: "(nat \<times> nat) list"
  pw_freed :: "nat list"
  pw_dangling :: bool

definition new_process_state :: process_state where
  "new_process_state = \<lparr>pr_handle = None, pr_keep_alive = False, pr_waiter = None, pr_exited = False, pr_wait_status = Uv_ok,
     pr_exit_status = 0, pr_term_signal = 0, pr_pid = 0, pr_running = False\<rparr>"

definition new_wait_op :: "nat \<Rightarrow> nat \<Rightarrow> bool \<Rightarrow> wait_op" where
  "new_wait_op s child token = \<lparr>wo_state = s, wo_child = child, wo_continuation = False, wo_stop_callback = False, wo_token = token, wo_resumed = 0, wo_result = None\<rparr>"

definition process_new :: "process_job uv_runtime \<Rightarrow> process_world" where
  "process_new rt = \<lparr>pw_state = 0, pw_states = (\<lambda>_. new_process_state), pw_nstates = 1, pw_stdin = None, pw_stdout = None, pw_stderr = None,
     pw_next = 0, pw_ops = (\<lambda>_. new_wait_op 0 0 False), pw_count = 0, pw_rt = rt, pw_watch = Map.empty, pw_exits = [], pw_closed = [],
     pw_closing = [], pw_freed = [], pw_dangling = False\<rparr>"

definition set_process_state :: "nat \<Rightarrow> process_state \<Rightarrow> process_world \<Rightarrow> process_world" where
  "set_process_state s st w = w\<lparr>pw_states := (pw_states w)(s := st)\<rparr>"

definition set_wait_op :: "nat \<Rightarrow> wait_op \<Rightarrow> process_world \<Rightarrow> process_world" where
  "set_wait_op i x w = w\<lparr>pw_ops := (pw_ops w)(i := x)\<rparr>"

definition cur_state :: "process_world \<Rightarrow> process_state" where
  "cur_state w = pw_states w (pw_state w)"

definition process_post :: "process_job \<Rightarrow> process_world \<Rightarrow> process_world" where
  "process_post j w = w\<lparr>pw_rt := snd (post j (pw_rt w))\<rparr>"

section \<open>Waiting\<close>

definition wait_result :: "wait_op \<Rightarrow> process_state \<Rightarrow> (int \<times> int) result \<times> process_state" where
  "wait_result x st =
     (if pr_wait_status st = Uv_err UV_ECANCELED \<or> wo_token x then (Inl Operation_cancelled, st\<lparr>pr_wait_status := Uv_ok\<rparr>)
      else (case pr_wait_status st of
              Uv_err rc \<Rightarrow> (throw_uv_error rc ''process::wait'', st\<lparr>pr_wait_status := Uv_ok\<rparr>)
            | Uv_ok \<Rightarrow>
                if \<not> pr_exited st then (Inl (Runtime_error ''process wait resumed before exit''), st)
                else (Inr (pr_exit_status st, pr_term_signal st), st)))"

definition wait_await_resume :: "nat \<Rightarrow> process_world \<Rightarrow> process_world" where
  "wait_await_resume i w =
     (let x = (pw_ops w i)\<lparr>wo_stop_callback := False\<rparr>;
          (r, st) = wait_result x (pw_states w (wo_state x))
      in set_wait_op i (x\<lparr>wo_result := Some r\<rparr>) (set_process_state (wo_state x) st w))"

definition resume_wait :: "nat \<Rightarrow> process_world \<Rightarrow> process_world" where
  "resume_wait i w = wait_await_resume i (set_wait_op i ((pw_ops w i)\<lparr>wo_resumed := Suc (wo_resumed (pw_ops w i))\<rparr>) w)"

text \<open>Taking the waiter of a state out, if there is one, with a new status or none, and resuming it.\<close>

definition wake_waiter :: "uv_status \<Rightarrow> nat \<Rightarrow> process_world \<Rightarrow> process_world" where
  "wake_waiter status s w =
     (case pr_waiter (pw_states w s) of
        None \<Rightarrow> w
      | Some i \<Rightarrow> resume_wait i (set_process_state s ((pw_states w s)\<lparr>pr_wait_status := status, pr_waiter := None\<rparr>) w))"

definition wait_await_ready :: "wait_op \<Rightarrow> process_world \<Rightarrow> bool" where
  "wait_await_ready x w \<longleftrightarrow> wo_token x \<or> pr_exited (pw_states w (wo_state x))"

definition wait_stop :: "nat \<Rightarrow> process_world \<Rightarrow> process_world" where
  "wait_stop i w =
     (let x = pw_ops w i; w = set_wait_op i (x\<lparr>wo_token := True\<rparr>) w
      in if wo_stop_callback x then process_post (Pj_cancel i) w else w)"

definition wait_cancel_job :: "nat \<Rightarrow> process_world \<Rightarrow> process_world" where
  "wait_cancel_job i w =
     (let x = pw_ops w i; s = wo_state x; st = pw_states w s in
      if wo_result x \<noteq> None then w\<lparr>pw_dangling := True\<rparr>
      else if pr_waiter st = (if wo_continuation x then Some i else None) then
        (let w = set_wait_op i (x\<lparr>wo_continuation := False\<rparr>)
               (set_process_state s (st\<lparr>pr_waiter := None, pr_wait_status := Uv_err UV_ECANCELED\<rparr>) w)
         in if wo_continuation x then resume_wait i w else w)
      else w)"

definition wait_await_suspend :: "bool \<Rightarrow> bool \<Rightarrow> nat \<Rightarrow> process_world \<Rightarrow> bool \<times> process_world" where
  "wait_await_suspend stop_possible stop_meanwhile i w =
     (let x = (pw_ops w i)\<lparr>wo_continuation := True\<rparr>; s = wo_state x; st = pw_states w s in
      if wo_token x then (False, set_wait_op i x (set_process_state s (st\<lparr>pr_wait_status := Uv_err UV_ECANCELED\<rparr>) w))
      else if pr_waiter st \<noteq> None then (False, set_wait_op i x (set_process_state s (st\<lparr>pr_wait_status := Uv_err UV_EBUSY\<rparr>) w))
      else
        let w = set_wait_op i (x\<lparr>wo_stop_callback := stop_possible\<rparr>) w;
            w = (if stop_possible \<and> stop_meanwhile then wait_stop i w else w)
        in (True, set_process_state s ((pw_states w s)\<lparr>pr_waiter := Some i\<rparr>) w))"

definition process_wait :: "bool \<Rightarrow> bool \<Rightarrow> bool \<Rightarrow> bool \<Rightarrow> process_world \<Rightarrow> unit result \<times> process_world" where
  "process_wait token token_later stop_possible stop_meanwhile w =
     (case pr_handle (cur_state w) of
        None \<Rightarrow> (Inl (Runtime_error ''process has not been spawned''), w)
      | Some child \<Rightarrow>
        let i = pw_count w; x = new_wait_op (pw_state w) child token; w = set_wait_op i x (w\<lparr>pw_count := Suc i\<rparr>) in
        if wait_await_ready x w then (Inr (), wait_await_resume i w)
        else (case wait_await_suspend stop_possible stop_meanwhile i (set_wait_op i (x\<lparr>wo_token := token_later\<rparr>) w) of
                (True, w) \<Rightarrow> (Inr (), w)
              | (False, w) \<Rightarrow> (Inr (), wait_await_resume i w)))"

section \<open>Exit, kill, close\<close>

definition process_exit_cb :: "nat \<Rightarrow> int \<Rightarrow> int \<Rightarrow> process_world \<Rightarrow> process_world" where
  "process_exit_cb s exit_status term_signal w =
     (let st = (pw_states w s)\<lparr>pr_exit_status := exit_status, pr_term_signal := term_signal, pr_running := False, pr_exited := True\<rparr>;
          w = set_process_state s st w
      in wake_waiter (pr_wait_status st) s w)"

definition process_kill :: "uv_status \<Rightarrow> process_world \<Rightarrow> unit result" where
  "process_kill kill_rc w =
     (if pr_handle (cur_state w) = None \<or> \<not> pr_running (cur_state w) then Inl (Runtime_error ''process is not running'')
      else (case kill_rc of Uv_err rc \<Rightarrow> throw_uv_error rc ''uv_process_kill'' | Uv_ok \<Rightarrow> Inr ()))"

text \<open>A pipe is closed when its pointer is reset: its handle is posted for closing.\<close>

definition close_pipe :: "pipe_client option \<Rightarrow> process_world \<Rightarrow> process_world" where
  "close_pipe p w =
     (case p of
        None \<Rightarrow> w
      | Some c \<Rightarrow> (case pc_handle c of None \<Rightarrow> w | Some h \<Rightarrow> if pc_runtime c then process_post (Pj_pipe h) w else w))"

definition reset_pipes :: "process_world \<Rightarrow> process_world" where
  "reset_pipes w =
     (let w = (close_pipe (pw_stdin w) w)\<lparr>pw_stdin := None\<rparr>;
          w = (close_pipe (pw_stdout w) w)\<lparr>pw_stdout := None\<rparr>
      in (close_pipe (pw_stderr w) w)\<lparr>pw_stderr := None\<rparr>)"

definition process_close :: "process_world \<Rightarrow> process_world" where
  "process_close w =
     (let w = reset_pipes w in
      case pr_handle (cur_state w) of
        None \<Rightarrow> w
      | Some handle \<Rightarrow>
          process_post (Pj_close (pw_state w) handle) (set_process_state (pw_state w) ((cur_state w)\<lparr>pr_handle := None\<rparr>) w))"

text \<open>The job of \<open>close\<close>, and libuv's callback when the handle is closed.\<close>

definition process_close_job :: "nat \<Rightarrow> nat \<Rightarrow> process_world \<Rightarrow> process_world" where
  "process_close_job s handle w =
     (let w = wake_waiter (Uv_err UV_ECANCELED) s w in
      if handle \<in> set (pw_closed w) then set_process_state s ((pw_states w s)\<lparr>pr_keep_alive := False\<rparr>) w
      else w\<lparr>pw_closed := pw_closed w @ [handle], pw_closing := pw_closing w @ [(handle, s)],
             pw_watch := (pw_watch w)(handle := None)\<rparr>)"

definition process_closed_cb :: "nat \<Rightarrow> process_world \<Rightarrow> process_world" where
  "process_closed_cb handle w =
     (case map_of (pw_closing w) handle of
        None \<Rightarrow> w
      | Some s \<Rightarrow>
          set_process_state s ((pw_states w s)\<lparr>pr_keep_alive := False\<rparr>)
            (w\<lparr>pw_closing := filter (\<lambda>p. fst p \<noteq> handle) (pw_closing w)\<rparr>))"

definition process_running :: "process_world \<Rightarrow> bool" where
  "process_running w = pr_running (cur_state w)"

definition process_pid :: "process_world \<Rightarrow> int" where
  "process_pid w = pr_pid (cur_state w)"

section \<open>Spawning\<close>

definition make_pipe :: "bool \<Rightarrow> uv_status \<Rightarrow> nat \<Rightarrow> pipe_client option result" where
  "make_pipe wanted init_rc handle =
     (if \<not> wanted then Inr None
      else (case init_rc of
              Uv_err e \<Rightarrow> throw_uv_error e ''uv_pipe_init''
            | Uv_ok \<Rightarrow> Inr (Some \<lparr>pc_runtime = True, pc_handle = Some handle, pc_connected = False, pc_ipc = False\<rparr>)))"

text \<open>The pipes are made one after the other; those made before one that fails stay.\<close>

definition make_pipes :: "process_options \<Rightarrow> uv_status \<times> uv_status \<times> uv_status \<Rightarrow> process_world \<Rightarrow> unit result \<times> process_world" where
  "make_pipes options rcs w =
     (case make_pipe (po_stdin_pipe options) (fst rcs) (pw_next w) of
        Inl e \<Rightarrow> (Inl e, w)
      | Inr p0 \<Rightarrow>
          (let w = w\<lparr>pw_stdin := p0, pw_next := Suc (pw_next w)\<rparr> in
           case make_pipe (po_stdout_pipe options) (fst (snd rcs)) (pw_next w) of
             Inl e \<Rightarrow> (Inl e, w)
           | Inr p1 \<Rightarrow>
               (let w = w\<lparr>pw_stdout := p1, pw_next := Suc (pw_next w)\<rparr> in
                case make_pipe (po_stderr_pipe options) (snd (snd rcs)) (pw_next w) of
                  Inl e \<Rightarrow> (Inl e, w)
                | Inr p2 \<Rightarrow> (Inr (), w\<lparr>pw_stderr := p2, pw_next := Suc (pw_next w)\<rparr>))))"

definition spawn_request_of :: "process_options \<Rightarrow> process_world \<Rightarrow> spawn_request" where
  "spawn_request_of options w =
     \<lparr>sr_file = po_file options, sr_args = po_file options # po_args options,
      sr_env = (if po_env options = [] then None else Some (po_env options)),
      sr_cwd = (if po_cwd options = [] then None else Some (po_cwd options)),
      sr_flags = (if po_detached options then {UV_PROCESS_DETACHED} else {})
        \<union> (if po_windows_hide options then {UV_PROCESS_WINDOWS_HIDE} else {})
        \<union> (if po_windows_hide_console options then {UV_PROCESS_WINDOWS_HIDE_CONSOLE} else {})
        \<union> (if po_windows_verbatim_arguments options then {UV_PROCESS_WINDOWS_VERBATIM_ARGUMENTS} else {}),
      sr_stdio = [case pw_stdin w of None \<Rightarrow> UV_INHERIT_FD 0 | Some p \<Rightarrow> UV_READABLE_PIPE (pc_handle p),
                  case pw_stdout w of None \<Rightarrow> UV_INHERIT_FD 1 | Some p \<Rightarrow> UV_WRITABLE_PIPE (pc_handle p),
                  case pw_stderr w of None \<Rightarrow> UV_INHERIT_FD 2 | Some p \<Rightarrow> UV_WRITABLE_PIPE (pc_handle p)]\<rparr>"

text \<open>
  The function that \<open>spawn\<close> runs on the loop; \<open>uv_spawn\<close> answers a status and the new child's id.
  When it fails the handle, which libuv has set up, is deleted without \<open>uv_close\<close>.
\<close>

definition spawn_call :: "process_options \<Rightarrow> (spawn_request \<Rightarrow> uv_status \<times> int) \<Rightarrow> process_world \<Rightarrow> unit result \<times> process_world" where
  "spawn_call options uv_spawn w =
     (let s = pw_state w; handle = pw_next w;
          st = (cur_state w)\<lparr>pr_handle := Some handle, pr_keep_alive := True, pr_wait_status := Uv_ok, pr_exit_status := 0,
                 pr_term_signal := 0, pr_pid := 0, pr_running := False, pr_exited := False\<rparr>;
          w = set_process_state s st (w\<lparr>pw_next := Suc handle\<rparr>)
      in (case uv_spawn (spawn_request_of options w) of
            (Uv_err rc, _) \<Rightarrow>
              (throw_uv_error rc ''uv_spawn'',
               set_process_state s (st\<lparr>pr_handle := None, pr_keep_alive := False\<rparr>) (w\<lparr>pw_freed := pw_freed w @ [handle]\<rparr>))
          | (Uv_ok, pid) \<Rightarrow>
              (Inr (),
               set_process_state s (st\<lparr>pr_running := True, pr_pid := pid\<rparr>)
                 (w\<lparr>pw_watch := (pw_watch w)(handle \<mapsto> s),
                    pw_stdin := map_option (pc_connected_update (\<lambda>_. True)) (pw_stdin w),
                    pw_stdout := map_option (pc_connected_update (\<lambda>_. True)) (pw_stdout w),
                    pw_stderr := map_option (pc_connected_update (\<lambda>_. True)) (pw_stderr w)\<rparr>))))"

definition process_spawn :: "bool \<Rightarrow> process_options \<Rightarrow> uv_status \<times> uv_status \<times> uv_status \<Rightarrow> (spawn_request \<Rightarrow> uv_status \<times> int)
    \<Rightarrow> process_world \<Rightarrow> unit result \<times> process_world" where
  "process_spawn stop_requested options rcs uv_spawn w =
     (if stop_requested then (Inl Operation_cancelled, w)
      else if po_file options = [] then (Inl (Invalid_argument ''process file must not be empty''), w)
      else if pr_running (cur_state w) then (Inl (Runtime_error ''process is already running''), w)
      else
        let w = (if pr_handle (cur_state w) \<noteq> None
                 then (let w = process_close w
                       in set_process_state (pw_nstates w) new_process_state (w\<lparr>pw_state := pw_nstates w, pw_nstates := Suc (pw_nstates w)\<rparr>))
                 else w);
            w = reset_pipes w
        in (case make_pipes options rcs w of
              (Inl e, w) \<Rightarrow> (Inl e, w)
            | (Inr _, w) \<Rightarrow> spawn_call options uv_spawn w))"

section \<open>Runs\<close>

datatype process_event =
    Pe_spawn bool process_options "uv_status \<times> uv_status \<times> uv_status" "uv_status \<times> int"
  | Pe_wait bool bool bool bool
  | Pe_stop nat
  | Pe_exit nat int int
  | Pe_close
  | Pe_job
  | Pe_closed nat

definition process_run_job :: "process_world \<Rightarrow> process_world" where
  "process_run_job w =
     (case rt_queue (pw_rt w) of
        [] \<Rightarrow> w
      | j # js \<Rightarrow>
          (let w = w\<lparr>pw_rt := (pw_rt w)\<lparr>rt_queue := js\<rparr>\<rparr> in
           case j of
             Pj_cancel i \<Rightarrow> wait_cancel_job i w
           | Pj_close s handle \<Rightarrow> process_close_job s handle w
           | Pj_pipe h \<Rightarrow> (if h \<in> set (pw_closed w) then w else w\<lparr>pw_closed := pw_closed w @ [h]\<rparr>)))"

text \<open>libuv reports an exit once, for a handle it watches.\<close>

fun process_step :: "process_event \<Rightarrow> process_world \<Rightarrow> process_world" where
  "process_step (Pe_spawn stop_requested options rcs answer) w = snd (process_spawn stop_requested options rcs (\<lambda>_. answer) w)"
| "process_step (Pe_wait a b c d) w = snd (process_wait a b c d w)"
| "process_step (Pe_stop i) w = (if wo_result (pw_ops w i) = None \<and> i < pw_count w then wait_stop i w else w)"
| "process_step (Pe_exit handle es ts) w =
     (case pw_watch w handle of
        None \<Rightarrow> w
      | Some s \<Rightarrow> process_exit_cb s es ts (w\<lparr>pw_watch := (pw_watch w)(handle := None), pw_exits := pw_exits w @ [(handle, es, ts)]\<rparr>))"
| "process_step Pe_close w = process_close w"
| "process_step Pe_job w = process_run_job w"
| "process_step (Pe_closed handle) w = process_closed_cb handle w"

fun process_runs :: "process_event list \<Rightarrow> process_world \<Rightarrow> process_world" where
  "process_runs [] w = w"
| "process_runs (ev # evs) w = process_runs evs (process_step ev w)"

end
