(* ===== verification/Process_Wait.thy ===== *)
theory Process_Wait
  imports Process
begin

text \<open>
  The invariant of \<open>process\<close> and its properties: a call of \<open>wait\<close> is resumed once and returns an exit that
  libuv reported for the child the object had when \<open>wait\<close> was called; it waits only while the child is watched; closing a running process
  leaves the object unusable.
\<close>

section \<open>Invariant\<close>

text \<open>The calls of \<open>wait\<close>; those in \<open>E\<close> are about to get their result.\<close>

definition waits_ok :: "nat set \<Rightarrow> process_world \<Rightarrow> bool" where
  "waits_ok E w \<longleftrightarrow>
     (\<forall>i < pw_count w. wo_result (pw_ops w i) = None \<longleftrightarrow> pr_waiter (pw_states w (wo_state (pw_ops w i))) = Some i \<or> i \<in> E) \<and>
     (\<forall>s i. pr_waiter (pw_states w s) = Some i \<longrightarrow>
        i < pw_count w \<and> i \<notin> E \<and> wo_state (pw_ops w i) = s \<and> wo_continuation (pw_ops w i) \<and> wo_resumed (pw_ops w i) = 0) \<and>
     (\<forall>i < pw_count w. wo_resumed (pw_ops w i) \<le> 1) \<and> (\<forall>i \<in> E. i < pw_count w) \<and>
     (\<forall>i. Pj_cancel i \<in> set (rt_queue (pw_rt w)) \<longrightarrow> i < pw_count w)"

text \<open>No status is left behind, except in the states of \<open>B\<close>.\<close>

definition status_ok :: "nat set \<Rightarrow> process_world \<Rightarrow> bool" where
  "status_ok B w \<longleftrightarrow> (\<forall>s. s \<notin> B \<longrightarrow> pr_wait_status (pw_states w s) = Uv_ok)"

text \<open>The handles, and which children libuv watches.\<close>

definition handles_ok :: "process_world \<Rightarrow> bool" where
  "handles_ok w \<longleftrightarrow>
     (\<forall>s h. pr_handle (pw_states w s) = Some h \<longrightarrow>
        h < pw_next w \<and> pw_watch w h \<in> {None, Some s} \<and> (pr_exited (pw_states w s) \<or> pw_watch w h = Some s)) \<and>
     (\<forall>s t h. pr_handle (pw_states w s) = Some h \<longrightarrow> pr_handle (pw_states w t) = Some h \<longrightarrow> s = t) \<and>
     (\<forall>s h. pw_watch w h = Some s \<longrightarrow> h < pw_next w \<and> s < pw_nstates w \<and> pr_running (pw_states w s)) \<and>
     (\<forall>s h h'. pw_watch w h = Some s \<longrightarrow> pw_watch w h' = Some s \<longrightarrow> h = h') \<and>
     (\<forall>s h. Pj_close s h \<in> set (rt_queue (pw_rt w)) \<longrightarrow>
        h < pw_next w \<and> pw_watch w h \<in> {None, Some s} \<and> (\<forall>s'. pr_handle (pw_states w s') \<noteq> Some h)) \<and>
     (\<forall>s \<ge> pw_nstates w. pw_states w s = new_process_state) \<and> pw_state w < pw_nstates w"

text \<open>Whoever waits, except on the states of \<open>C\<close>, waits for a child that libuv watches.\<close>

definition watched_ok :: "nat set \<Rightarrow> process_world \<Rightarrow> bool" where
  "watched_ok C w \<longleftrightarrow>
     (\<forall>s. s \<notin> C \<longrightarrow> pr_waiter (pw_states w s) \<noteq> None \<longrightarrow> \<not> pr_exited (pw_states w s) \<and> (\<exists>h. pw_watch w h = Some s))"

text \<open>
  The exit that a state remembers is that of its current handle; a call waits for the child it was
  called for; and what a call has returned was reported for that child.
\<close>

definition exit_of :: "process_state \<Rightarrow> int \<times> int" where
  "exit_of st = (pr_exit_status st, pr_term_signal st)"

lemma exit_of_upd [simp]:
  "exit_of (st\<lparr>pr_wait_status := c\<rparr>) = exit_of st" "exit_of (st\<lparr>pr_waiter := i\<rparr>) = exit_of st"
  "exit_of (st\<lparr>pr_handle := h\<rparr>) = exit_of st" "exit_of (st\<lparr>pr_keep_alive := b\<rparr>) = exit_of st"
  by (simp_all add: exit_of_def)

definition exits_ok :: "process_world \<Rightarrow> bool" where
  "exits_ok w \<longleftrightarrow>
     (\<forall>s h. pr_exited (pw_states w s) \<longrightarrow> pr_handle (pw_states w s) = Some h \<longrightarrow> (h, exit_of (pw_states w s)) \<in> set (pw_exits w)) \<and>
     (\<forall>s i h. pr_waiter (pw_states w s) = Some i \<longrightarrow> pw_watch w h = Some s \<longrightarrow> wo_child (pw_ops w i) = h) \<and>
     (\<forall>s. pr_running (pw_states w s) \<longrightarrow> \<not> pr_exited (pw_states w s)) \<and>
     (\<forall>i r. wo_result (pw_ops w i) = Some (Inr r) \<longrightarrow> (wo_child (pw_ops w i), r) \<in> set (pw_exits w))"

definition process_inv :: "process_world \<Rightarrow> bool" where
  "process_inv w \<longleftrightarrow> waits_ok {} w \<and> status_ok {} w \<and> handles_ok w \<and> watched_ok {} w \<and> exits_ok w"

lemma process_set_sel [simp]:
  "pw_states (set_process_state s st w) = (pw_states w)(s := st)" "pw_ops (set_process_state s st w) = pw_ops w"
  "pw_count (set_process_state s st w) = pw_count w" "pw_rt (set_process_state s st w) = pw_rt w"
  "pw_watch (set_process_state s st w) = pw_watch w" "pw_next (set_process_state s st w) = pw_next w"
  "pw_nstates (set_process_state s st w) = pw_nstates w" "pw_state (set_process_state s st w) = pw_state w"
  "pw_exits (set_process_state s st w) = pw_exits w" "pw_closed (set_process_state s st w) = pw_closed w"
  "pw_states (set_wait_op i x w) = pw_states w" "pw_ops (set_wait_op i x w) = (pw_ops w)(i := x)"
  "pw_count (set_wait_op i x w) = pw_count w" "pw_rt (set_wait_op i x w) = pw_rt w"
  "pw_watch (set_wait_op i x w) = pw_watch w" "pw_next (set_wait_op i x w) = pw_next w"
  "pw_nstates (set_wait_op i x w) = pw_nstates w" "pw_state (set_wait_op i x w) = pw_state w"
  "pw_exits (set_wait_op i x w) = pw_exits w" "pw_closed (set_wait_op i x w) = pw_closed w"
  by (simp_all add: set_process_state_def set_wait_op_def)

lemma process_post_sel [simp]:
  "pw_states (process_post j w) = pw_states w" "pw_ops (process_post j w) = pw_ops w" "pw_count (process_post j w) = pw_count w"
  "pw_watch (process_post j w) = pw_watch w" "pw_next (process_post j w) = pw_next w" "pw_nstates (process_post j w) = pw_nstates w"
  "pw_state (process_post j w) = pw_state w" "pw_exits (process_post j w) = pw_exits w" "pw_closed (process_post j w) = pw_closed w"
  by (simp_all add: process_post_def)

lemma process_post_queue: "set (rt_queue (pw_rt (process_post j w))) \<subseteq> insert j (set (rt_queue (pw_rt w)))"
  by (auto simp: process_post_def post_queue)

lemma waits_cong:
  "waits_ok E w \<Longrightarrow> pw_ops v = pw_ops w \<Longrightarrow> pw_count v = pw_count w \<Longrightarrow> pw_rt v = pw_rt w \<Longrightarrow>
   (\<And>s. pr_waiter (pw_states v s) = pr_waiter (pw_states w s)) \<Longrightarrow> waits_ok E v"
  by (simp add: waits_ok_def)

section \<open>Results\<close>

text \<open>What \<open>await_resume\<close> does: the status is used up, and an exit is returned only if there was one.\<close>

lemma wait_await_resume_cases:
  obtains r where "wait_await_resume i w = set_wait_op i ((pw_ops w i)\<lparr>wo_stop_callback := False, wo_result := Some r\<rparr>)
      (set_process_state (wo_state (pw_ops w i)) ((pw_states w (wo_state (pw_ops w i)))\<lparr>pr_wait_status := Uv_ok\<rparr>) w)"
    and "\<forall>v. r = Inr v \<longrightarrow> pr_exited (pw_states w (wo_state (pw_ops w i))) \<and>
      pr_wait_status (pw_states w (wo_state (pw_ops w i))) = Uv_ok \<and> v = exit_of (pw_states w (wo_state (pw_ops w i)))"
proof -
  let ?st = "pw_states w (wo_state (pw_ops w i))"
  obtain r st where r: "wait_result ((pw_ops w i)\<lparr>wo_stop_callback := False\<rparr>) ?st = (r, st)" by (rule prod.exhaust)
  then have "st = ?st\<lparr>pr_wait_status := Uv_ok\<rparr>"
    "\<forall>v. r = Inr v \<longrightarrow> pr_exited ?st \<and> pr_wait_status ?st = Uv_ok \<and> v = exit_of ?st"
    by (auto simp: wait_result_def exit_of_def split: if_splits uv_status.splits)
  with r that [of r] show ?thesis by (simp add: wait_await_resume_def)
qed

lemma wait_await_resume_sel [simp]:
  "pw_watch (wait_await_resume i w) = pw_watch w" "pw_next (wait_await_resume i w) = pw_next w" "pw_rt (wait_await_resume i w) = pw_rt w"
  "pw_nstates (wait_await_resume i w) = pw_nstates w" "pw_state (wait_await_resume i w) = pw_state w"
  "pw_closed (wait_await_resume i w) = pw_closed w" "pw_exits (wait_await_resume i w) = pw_exits w"
  "pr_handle (pw_states (wait_await_resume i w) t) = pr_handle (pw_states w t)"
  "pr_waiter (pw_states (wait_await_resume i w) t) = pr_waiter (pw_states w t)"
  "pr_running (pw_states (wait_await_resume i w) t) = pr_running (pw_states w t)"
  by (rule wait_await_resume_cases [of i w]; simp)+

lemma wake_waiter_sel [simp]:
  "pw_watch (wake_waiter st s w) = pw_watch w" "pw_next (wake_waiter st s w) = pw_next w" "pw_rt (wake_waiter st s w) = pw_rt w"
  "pw_nstates (wake_waiter st s w) = pw_nstates w" "pw_state (wake_waiter st s w) = pw_state w"
  "pw_closed (wake_waiter st s w) = pw_closed w" "pw_exits (wake_waiter st s w) = pw_exits w"
  "pr_handle (pw_states (wake_waiter st s w) t) = pr_handle (pw_states w t)"
  "pr_running (pw_states (wake_waiter st s w) t) = pr_running (pw_states w t)"
  by (simp_all add: wake_waiter_def resume_wait_def split: option.split)

lemma waits_result:
  assumes "waits_ok E w" and "i \<in> E"
  shows "waits_ok (E - {i}) (set_wait_op i ((pw_ops w i)\<lparr>wo_stop_callback := False, wo_result := Some r\<rparr>)
      (set_process_state s ((pw_states w s)\<lparr>pr_wait_status := Uv_ok\<rparr>) w))"
proof -
  have "\<forall>t. pr_waiter (pw_states w t) \<noteq> Some i" using assms by (auto simp: waits_ok_def)
  with assms show ?thesis by (auto simp: waits_ok_def)
qed

lemma handles_cong:
  assumes "handles_ok w" and "pw_watch w' = pw_watch w" and "pw_next w \<le> pw_next w'" and "pw_nstates w' = pw_nstates w"
    and "pw_state w' = pw_state w" and "\<And>s h. Pj_close s h \<in> set (rt_queue (pw_rt w')) \<Longrightarrow> Pj_close s h \<in> set (rt_queue (pw_rt w))"
    and "\<And>s. pr_handle (pw_states w' s) = pr_handle (pw_states w s)" and "\<And>s. pr_exited (pw_states w' s) = pr_exited (pw_states w s)"
    and "\<And>s. pr_running (pw_states w' s) = pr_running (pw_states w s)"
    and "\<And>s. pw_nstates w \<le> s \<Longrightarrow> pw_states w' s = pw_states w s"
  shows "handles_ok w'"
  using assms(1) unfolding handles_ok_def by (simp add: assms(2,4,5,7-10)) (blast dest: assms(6) intro: less_le_trans [OF _ assms(3)])

lemma resume_wait_keeps:
  assumes "waits_ok {i} w" and "status_ok {wo_state (pw_ops w i)} w" and "handles_ok w" and "watched_ok {} w" and "exits_ok w"
    and "pr_exited (pw_states w (wo_state (pw_ops w i))) \<Longrightarrow> pr_wait_status (pw_states w (wo_state (pw_ops w i))) = Uv_ok \<Longrightarrow>
      (wo_child (pw_ops w i), exit_of (pw_states w (wo_state (pw_ops w i)))) \<in> set (pw_exits w)"
  shows "process_inv (wait_await_resume i w)"
proof -
  obtain r where r: "wait_await_resume i w = set_wait_op i ((pw_ops w i)\<lparr>wo_stop_callback := False, wo_result := Some r\<rparr>)
      (set_process_state (wo_state (pw_ops w i)) ((pw_states w (wo_state (pw_ops w i)))\<lparr>pr_wait_status := Uv_ok\<rparr>) w)"
    (is "_ = ?w") and v: "\<forall>v. r = Inr v \<longrightarrow> pr_exited (pw_states w (wo_state (pw_ops w i))) \<and>
      pr_wait_status (pw_states w (wo_state (pw_ops w i))) = Uv_ok \<and> v = exit_of (pw_states w (wo_state (pw_ops w i)))"
    by (rule wait_await_resume_cases [of i w])
  have "waits_ok {} ?w" using waits_result [OF assms(1), of i r] by simp
  moreover have "status_ok {} ?w" using assms(2) by (simp add: status_ok_def)
  moreover have "handles_ok ?w"
  proof (rule handles_cong [OF assms(3)])
    fix s assume "pw_nstates w \<le> s"
    with assms(3) have "pw_states w s = new_process_state" by (simp add: handles_ok_def)
    then show "pw_states ?w s = pw_states w s" by (cases "s = wo_state (pw_ops w i)") (simp_all add: new_process_state_def)
  qed simp_all
  moreover have "watched_ok {} ?w" using assms(4) by (simp add: watched_ok_def)
  moreover have "exits_ok ?w" using assms(5,6) v by (auto simp: exits_ok_def)
  ultimately show ?thesis by (simp add: r process_inv_def)
qed

lemma wake_waiter_keeps:
  assumes "waits_ok {} w" and "status_ok {} w" and "handles_ok w" and "watched_ok {s} w" and "exits_ok w"
    and "\<And>i. pr_waiter (pw_states w s) = Some i \<Longrightarrow> pr_exited (pw_states w s) \<Longrightarrow> st = Uv_ok \<Longrightarrow>
      (wo_child (pw_ops w i), exit_of (pw_states w s)) \<in> set (pw_exits w)"
  shows "process_inv (wake_waiter st s w)" and "pr_waiter (pw_states (wake_waiter st s w) s) = None"
proof -
  have "process_inv (wake_waiter st s w) \<and> pr_waiter (pw_states (wake_waiter st s w) s) = None"
  proof (cases "pr_waiter (pw_states w s)")
    case None
    moreover from None assms(4) have "watched_ok {} w" unfolding watched_ok_def by (metis empty_iff insert_iff)
    ultimately show ?thesis using assms by (simp add: wake_waiter_def process_inv_def)
  next
    case (Some i)
    let ?v = "set_process_state s ((pw_states w s)\<lparr>pr_wait_status := st, pr_waiter := None\<rparr>) w"
    let ?u = "set_wait_op i ((pw_ops ?v i)\<lparr>wo_resumed := Suc (wo_resumed (pw_ops ?v i))\<rparr>) ?v"
    have i: "i < pw_count w" "wo_state (pw_ops w i) = s" "wo_resumed (pw_ops w i) = 0" "wo_result (pw_ops w i) = None"
      using assms(1) Some by (auto simp: waits_ok_def)
    have "waits_ok {i} ?u" using assms(1) i Some unfolding waits_ok_def by simp (metis option.inject)
    moreover have "status_ok {wo_state (pw_ops ?u i)} ?u" using assms(2) i by (simp add: status_ok_def)
    moreover have "handles_ok ?u"
    proof (rule handles_cong [OF assms(3)])
      fix t assume "pw_nstates w \<le> t"
      with assms(3) have "pw_states w t = new_process_state" by (simp add: handles_ok_def)
      with Some show "pw_states ?u t = pw_states w t" by (auto simp: new_process_state_def)
    qed simp_all
    moreover have "watched_ok {} ?u" using assms(4) by (simp add: watched_ok_def)
    moreover have "exits_ok ?u" using assms(5) by (simp add: exits_ok_def)
    moreover have "(wo_child (pw_ops ?u i), exit_of (pw_states ?u (wo_state (pw_ops ?u i)))) \<in> set (pw_exits ?u)"
      if "pr_exited (pw_states ?u (wo_state (pw_ops ?u i)))" "pr_wait_status (pw_states ?u (wo_state (pw_ops ?u i))) = Uv_ok"
      using assms(6) [OF Some] that i(2) by (simp add: exit_of_def)
    ultimately have "process_inv (wait_await_resume i ?u)" by (rule resume_wait_keeps)
    moreover have "pr_waiter (pw_states (wait_await_resume i ?u) s) = None"
      by (rule wait_await_resume_cases [of i ?u]) (simp add: i)
    moreover have "wake_waiter st s w = wait_await_resume i ?u" using Some by (simp add: wake_waiter_def resume_wait_def)
    ultimately show ?thesis by simp
  qed
  then show "process_inv (wake_waiter st s w)" and "pr_waiter (pw_states (wake_waiter st s w) s) = None" by blast+
qed

section \<open>The events keep it\<close>

lemma process_inv_exit:
  assumes "process_inv w" and "pw_watch w h = Some s"
  shows "process_inv (process_exit_cb s es ts (w\<lparr>pw_watch := (pw_watch w)(h := None), pw_exits := pw_exits w @ [(h, es, ts)]\<rparr>))"
proof -
  let ?w = "w\<lparr>pw_watch := (pw_watch w)(h := None), pw_exits := pw_exits w @ [(h, es, ts)]\<rparr>"
  let ?st = "(pw_states w s)\<lparr>pr_exit_status := es, pr_term_signal := ts, pr_running := False, pr_exited := True\<rparr>"
  let ?v = "set_process_state s ?st ?w"
  from assms(1) have i: "waits_ok {} w" "status_ok {} w" "handles_ok w" "watched_ok {} w" "exits_ok w" by (simp_all add: process_inv_def)
  have "waits_ok {} ?v" using i(1) by (simp add: waits_ok_def)
  moreover have "status_ok {} ?v" using i(2) by (simp add: status_ok_def)
  moreover have "handles_ok ?v"
  proof -
    from i(3) assms(2) have "s < pw_nstates w" "\<And>t. pr_handle (pw_states w t) = Some h \<Longrightarrow> t \<noteq> s \<Longrightarrow> pr_exited (pw_states w t)"
      "\<And>k. pw_watch w k = Some s \<Longrightarrow> k = h" unfolding handles_ok_def by (metis option.inject)+
    with i(3) show ?thesis unfolding handles_ok_def by (auto split: if_splits)
  qed
  moreover have "watched_ok {s} ?v" using i(4) assms(2) unfolding watched_ok_def by simp (metis option.inject)
  moreover have "exits_ok ?v"
  proof -
    have "pr_running (pw_states w s)" using i(3) assms(2) unfolding handles_ok_def by blast
    with i(5) have "\<not> pr_exited (pw_states w s)" by (simp add: exits_ok_def)
    then have "pr_handle (pw_states w s) = Some k \<Longrightarrow> k = h" for k using i(3) assms(2) unfolding handles_ok_def by blast
    with i(5) show ?thesis unfolding exits_ok_def by (auto simp: exit_of_def split: if_splits)
  qed
  moreover have "(wo_child (pw_ops ?v j), exit_of (pw_states ?v s)) \<in> set (pw_exits ?v)" if "pr_waiter (pw_states ?v s) = Some j" for j
    using i(5) assms(2) that by (simp add: exits_ok_def exit_of_def)
  ultimately have "process_inv (wake_waiter (pr_wait_status ?st) s ?v)" by (rule wake_waiter_keeps(1))
  then show ?thesis by (simp add: process_exit_cb_def Let_def)
qed

lemma process_inv_close_job:
  assumes "process_inv w" and "pw_watch w h \<in> {None, Some s}" and "\<forall>t. pr_handle (pw_states w t) \<noteq> Some h"
  shows "process_inv (process_close_job s h w)"
proof -
  from assms(1) have i: "waits_ok {} w" "status_ok {} w" "handles_ok w" "watched_ok {s} w" "exits_ok w"
    by (simp_all add: process_inv_def watched_ok_def)
  let ?w = "wake_waiter (Uv_err UV_ECANCELED) s w"
  have k: "process_inv ?w" "pr_waiter (pw_states ?w s) = None" by (rule wake_waiter_keeps [OF i]; simp)+
  have h: "handles_ok ?w" "waits_ok {} ?w" "status_ok {} ?w" "watched_ok {} ?w" "exits_ok ?w" using k(1) by (simp_all add: process_inv_def)
  show ?thesis
  proof (cases "h \<in> set (pw_closed ?w)")
    case True
    let ?v = "set_process_state s ((pw_states ?w s)\<lparr>pr_keep_alive := False\<rparr>) ?w"
    have "handles_ok ?v"
    proof (rule handles_cong [OF h(1)])
      fix t assume "pw_nstates ?w \<le> t"
      with h(1) have "pw_states ?w t = new_process_state" by (simp add: handles_ok_def)
      then show "pw_states ?v t = pw_states ?w t" by (cases "t = s") (simp_all add: new_process_state_def)
    qed simp_all
    moreover have "waits_ok {} ?v" using h(2) by (simp add: waits_ok_def)
    moreover have "status_ok {} ?v" using h(3) by (simp add: status_ok_def)
    moreover have "watched_ok {} ?v" using h(4) by (simp add: watched_ok_def)
    moreover have "exits_ok ?v" using h(5) by (simp add: exits_ok_def)
    ultimately show ?thesis using True by (simp add: process_close_job_def process_inv_def Let_def)
  next
    case False
    let ?v = "?w\<lparr>pw_closed := pw_closed ?w @ [h], pw_closing := pw_closing ?w @ [(h, s)], pw_watch := (pw_watch ?w)(h := None)\<rparr>"
    have "handles_ok ?v" using h(1) assms(3) unfolding handles_ok_def by auto
    moreover have "waits_ok {} ?v" using h(2) by (simp add: waits_ok_def)
    moreover have "status_ok {} ?v" using h(3) by (simp add: status_ok_def)
    moreover have "watched_ok {} ?v"
      unfolding watched_ok_def
    proof (intro allI impI conjI)
      fix t assume t: "pr_waiter (pw_states ?v t) \<noteq> None"
      with h(4) show "\<not> pr_exited (pw_states ?v t)" by (simp add: watched_ok_def)
      from t k(2) have "t \<noteq> s" by auto
      moreover from t h(4) obtain j where "pw_watch ?w j = Some t" unfolding watched_ok_def by auto
      ultimately show "\<exists>j. pw_watch ?v j = Some t" using assms(2) by (intro exI [of _ j]) auto
    qed
    moreover have "exits_ok ?v" using h(5) by (simp add: exits_ok_def)
    ultimately show ?thesis using False by (simp add: process_close_job_def process_inv_def Let_def)
  qed
qed

text \<open>A waiting call that is taken out of its state and resumed.\<close>

lemma taken_out_keeps:
  assumes "process_inv w" and "pr_waiter (pw_states w s) = Some i"
    and "x = (pw_ops w i)\<lparr>wo_continuation := b, wo_resumed := Suc (wo_resumed (pw_ops w i))\<rparr>" and "st \<noteq> Uv_ok"
    and "u = set_wait_op i x (set_process_state s ((pw_states w s)\<lparr>pr_waiter := None, pr_wait_status := st\<rparr>) w)"
  shows "process_inv (wait_await_resume i u)"
proof (rule resume_wait_keeps)
  from assms(1) have g: "waits_ok {} w" "status_ok {} w" "handles_ok w" "watched_ok {} w" "exits_ok w" by (simp_all add: process_inv_def)
  have i: "i < pw_count w" "wo_state (pw_ops w i) = s" "wo_resumed (pw_ops w i) = 0" "wo_result (pw_ops w i) = None"
    using g(1) assms(2) by (auto simp: waits_ok_def)
  show "waits_ok {i} u" using g(1) i assms(2) unfolding waits_ok_def assms(3,5) by simp (metis option.inject)
  show "status_ok {wo_state (pw_ops u i)} u" using g(2) i by (simp add: status_ok_def assms(3,5))
  show "handles_ok u"
  proof (rule handles_cong [OF g(3)])
    fix t assume "pw_nstates w \<le> t"
    with g(3) have "pw_states w t = new_process_state" by (simp add: handles_ok_def)
    with assms(2) show "pw_states u t = pw_states w t" by (auto simp: new_process_state_def assms(3,5))
  qed (simp_all add: assms(3,5))
  show "watched_ok {} u" using g(4) by (simp add: watched_ok_def assms(3,5))
  show "exits_ok u" using g(5) by (simp add: exits_ok_def exit_of_def assms(3,5))
  show "(wo_child (pw_ops u i), exit_of (pw_states u (wo_state (pw_ops u i)))) \<in> set (pw_exits u)"
    if "pr_wait_status (pw_states u (wo_state (pw_ops u i))) = Uv_ok" using that assms(4) i(2) by (simp add: assms(3,5))
qed

lemma process_inv_cong:
  assumes "process_inv w" and "pw_states w' = pw_states w" "pw_ops w' = pw_ops w" "pw_count w' = pw_count w" "pw_watch w' = pw_watch w"
    "pw_next w \<le> pw_next w'" "pw_nstates w' = pw_nstates w" "pw_state w' = pw_state w" "pw_exits w' = pw_exits w"
    and "set (rt_queue (pw_rt w')) \<subseteq> set (rt_queue (pw_rt w)) \<union> range Pj_pipe \<union> Pj_cancel ` {..<pw_count w}"
  shows "process_inv w'"
proof -
  from assms(1) have g: "waits_ok {} w" "status_ok {} w" "handles_ok w" "watched_ok {} w" "exits_ok w" by (simp_all add: process_inv_def)
  have q: "Pj_cancel i \<in> set (rt_queue (pw_rt w')) \<Longrightarrow> i < pw_count w"
    "Pj_close s h \<in> set (rt_queue (pw_rt w')) \<Longrightarrow> Pj_close s h \<in> set (rt_queue (pw_rt w))" for i s h
    using g(1) assms(10) by (auto simp: waits_ok_def)
  have "waits_ok {} w'" using g(1) q(1) by (simp add: waits_ok_def assms(2-9))
  moreover have "handles_ok w'" by (rule handles_cong [OF g(3)]) (simp_all add: assms(2-9) q(2))
  ultimately show ?thesis using g(2,4,5) by (simp add: process_inv_def status_ok_def watched_ok_def exits_ok_def assms(2-9))
qed

lemma process_inv_cancel_job:
  assumes "process_inv w" and "i < pw_count w"
  shows "process_inv (wait_cancel_job i w)"
proof -
  let ?x = "pw_ops w i" and ?s = "wo_state (pw_ops w i)"
  have wt: "wo_result ?x = None \<longleftrightarrow> pr_waiter (pw_states w ?s) = Some i" using assms by (auto simp: process_inv_def waits_ok_def)
  show ?thesis
  proof (cases "wo_result ?x")
    case None
    with wt have s: "pr_waiter (pw_states w ?s) = Some i" by simp
    with assms have c: "wo_continuation ?x" by (auto simp: process_inv_def waits_ok_def)
    let ?u = "set_wait_op i (?x\<lparr>wo_continuation := False, wo_resumed := Suc (wo_resumed ?x)\<rparr>)
        (set_process_state ?s ((pw_states w ?s)\<lparr>pr_waiter := None, pr_wait_status := Uv_err UV_ECANCELED\<rparr>) w)"
    have "process_inv (wait_await_resume i ?u)" by (rule taken_out_keeps [OF assms(1) s refl _ refl]) simp
    moreover have "wait_cancel_job i w = wait_await_resume i ?u"
      using None s c by (simp add: wait_cancel_job_def resume_wait_def Let_def set_wait_op_def)
    ultimately show ?thesis by simp
  next
    case (Some r)
    then show ?thesis by (auto simp: wait_cancel_job_def intro!: process_inv_cong [OF assms(1)])
  qed
qed

lemma process_inv_stop:
  assumes "process_inv w" and "wo_result (pw_ops w i) = None" and "i < pw_count w"
  shows "process_inv (wait_stop i w)"
proof -
  let ?v = "set_wait_op i ((pw_ops w i)\<lparr>wo_token := True\<rparr>) w"
  from assms(1) have g: "waits_ok {} w" "status_ok {} w" "handles_ok w" "watched_ok {} w" "exits_ok w" by (simp_all add: process_inv_def)
  have "process_inv ?v"
    unfolding process_inv_def
  proof (intro conjI)
    show "waits_ok {} ?v" using g(1) assms(2) by (auto simp: waits_ok_def)
    show "status_ok {} ?v" using g(2) by (simp add: status_ok_def)
    show "handles_ok ?v" by (rule handles_cong [OF g(3)]) simp_all
    show "watched_ok {} ?v" using g(4) by (simp add: watched_ok_def)
    show "exits_ok ?v" using g(5) by (simp add: exits_ok_def)
  qed
  then show ?thesis using assms(3)
    by (auto simp: wait_stop_def Let_def intro!: process_inv_cong [of ?v] dest!: set_mp [OF process_post_queue])
qed

text \<open>A new call, before it waits or gets its result.\<close>

lemma new_wait_keeps:
  assumes "process_inv w" and "i = pw_count w" and "wo_result y = None" and "wo_resumed y = 0"
    and "pw_states v = pw_states w" "pw_ops v = (pw_ops w)(i := y)" "pw_count v = Suc i" "pw_watch v = pw_watch w"
    "pw_next v = pw_next w" "pw_nstates v = pw_nstates w" "pw_state v = pw_state w" "pw_exits v = pw_exits w"
    and "set (rt_queue (pw_rt v)) \<subseteq> insert (Pj_cancel i) (set (rt_queue (pw_rt w)))"
  shows "waits_ok {i} v" and "status_ok {} v" and "handles_ok v" and "watched_ok {} v" and "exits_ok v"
proof -
  from assms(1) have g: "waits_ok {} w" "status_ok {} w" "handles_ok w" "watched_ok {} w" "exits_ok w" by (simp_all add: process_inv_def)
  have n: "pr_waiter (pw_states w t) \<noteq> Some i" for t using g(1) assms(2) by (auto simp: waits_ok_def)
  have q: "Pj_cancel k \<in> set (rt_queue (pw_rt v)) \<Longrightarrow> k < Suc i" for k
    using g(1) assms(2,13) by (auto simp: waits_ok_def less_Suc_eq)
  show "waits_ok {i} v"
    using g(1) n q assms(2-4) unfolding waits_ok_def assms(5-7) by (auto simp: less_Suc_eq)
  show "handles_ok v" by (rule handles_cong [OF g(3)]) (use assms(5-13) in auto)
  show "status_ok {} v" "watched_ok {} v" "exits_ok v"
    using g(2,4,5) assms(3) n by (simp_all add: status_ok_def watched_ok_def exits_ok_def assms(5-12))
qed

lemma process_inv_wait:
  assumes "process_inv w"
  shows "process_inv (snd (process_wait a b c d w))"
proof (cases "pr_handle (cur_state w)")
  case None
  with assms show ?thesis by (simp add: process_wait_def)
next
  case (Some h)
  let ?i = "pw_count w" and ?s = "pw_state w"
  let ?w = "\<lambda>y. set_wait_op ?i y (w\<lparr>pw_count := Suc ?i\<rparr>)"
  have keep: "process_inv (wait_await_resume ?i (set_process_state ?s ((pw_states w ?s)\<lparr>pr_wait_status := st\<rparr>) (?w y)))"
    if y: "wo_result y = None" "wo_resumed y = 0" "wo_state y = ?s" and st: "st \<noteq> Uv_ok" for st y
  proof (rule resume_wait_keeps)
    let ?v = "set_process_state ?s ((pw_states w ?s)\<lparr>pr_wait_status := st\<rparr>) (?w y)"
    have k: "waits_ok {?i} (?w y)" "status_ok {} (?w y)" "handles_ok (?w y)" "watched_ok {} (?w y)" "exits_ok (?w y)"
      by (rule new_wait_keeps [OF assms refl y(1,2)]; auto)+
    show "waits_ok {?i} ?v" by (rule waits_cong [OF k(1)]) simp_all
    show "status_ok {wo_state (pw_ops ?v ?i)} ?v" using k(2) y(3) by (simp add: status_ok_def)
    show "handles_ok ?v"
    proof (rule handles_cong [OF k(3)])
      fix t assume "pw_nstates (?w y) \<le> t"
      moreover have "?s < pw_nstates w" using assms by (simp add: process_inv_def handles_ok_def)
      ultimately show "pw_states ?v t = pw_states (?w y) t" by auto
    qed simp_all
    show "watched_ok {} ?v" using k(4) by (simp add: watched_ok_def)
    show "exits_ok ?v" using k(5) by (simp add: exits_ok_def)
    show "(wo_child (pw_ops ?v ?i), exit_of (pw_states ?v (wo_state (pw_ops ?v ?i)))) \<in> set (pw_exits ?v)"
      if "pr_wait_status (pw_states ?v (wo_state (pw_ops ?v ?i))) = Uv_ok" using that st y(3) by simp
  qed
  have keep0: "process_inv (wait_await_resume ?i (?w y))"
    if y: "wo_result y = None" "wo_resumed y = 0" "wo_state y = ?s" "wo_child y = h" for y
  proof (rule resume_wait_keeps)
    have k: "waits_ok {?i} (?w y)" "status_ok {} (?w y)" "handles_ok (?w y)" "watched_ok {} (?w y)" "exits_ok (?w y)"
      by (rule new_wait_keeps [OF assms refl y(1,2)]; auto)+
    then show "waits_ok {?i} (?w y)" "handles_ok (?w y)" "watched_ok {} (?w y)" "exits_ok (?w y)" by blast+
    show "status_ok {wo_state (pw_ops (?w y) ?i)} (?w y)" using k(2) by (simp add: status_ok_def)
    show "(wo_child (pw_ops (?w y) ?i), exit_of (pw_states (?w y) (wo_state (pw_ops (?w y) ?i)))) \<in> set (pw_exits (?w y))"
      if "pr_exited (pw_states (?w y) (wo_state (pw_ops (?w y) ?i)))"
      using that assms Some y(3,4) by (simp add: process_inv_def exits_ok_def cur_state_def)
  qed
  have enter: "process_inv (set_process_state ?s ((pw_states v ?s)\<lparr>pr_waiter := Some ?i\<rparr>) v)"
    if k: "waits_ok {?i} v" "status_ok {} v" "handles_ok v" "watched_ok {} v" "exits_ok v"
      and y: "wo_state (pw_ops v ?i) = ?s" "wo_child (pw_ops v ?i) = h" "wo_continuation (pw_ops v ?i)" "wo_resumed (pw_ops v ?i) = 0" "wo_result (pw_ops v ?i) = None"
      and e: "pw_states v = pw_states w" "pw_watch v = pw_watch w" "pw_count v = Suc ?i" "pw_nstates v = pw_nstates w"
      and free: "pr_waiter (cur_state w) = None" "\<not> pr_exited (cur_state w)" for v
    unfolding process_inv_def
  proof (intro conjI)
    let ?v = "set_process_state ?s ((pw_states v ?s)\<lparr>pr_waiter := Some ?i\<rparr>) v"
    show "waits_ok {} ?v" using k(1) y free(1) e unfolding waits_ok_def cur_state_def by (auto split: if_splits)
    show "status_ok {} ?v" using k(2) by (simp add: status_ok_def)
    show "handles_ok ?v"
    proof (rule handles_cong [OF k(3)])
      fix t assume "pw_nstates v \<le> t"
      moreover have "?s < pw_nstates w" using assms by (simp add: process_inv_def handles_ok_def)
      ultimately show "pw_states ?v t = pw_states v t" using e(4) by auto
    qed simp_all
    have "pw_watch w h = Some ?s" using assms Some free(2) unfolding process_inv_def handles_ok_def cur_state_def by blast
    with k(4) e(1,2) free(2) show "watched_ok {} ?v" unfolding watched_ok_def cur_state_def by auto
    have "pw_watch w k = Some ?s \<Longrightarrow> k = h" for k
      using assms \<open>pw_watch w h = Some ?s\<close> unfolding process_inv_def handles_ok_def by blast
    with k(5) y(2) e show "exits_ok ?v" unfolding exits_ok_def by (auto split: if_splits)
  qed
  have idem: "set_wait_op k y' (set_wait_op k y v) = set_wait_op k y' v"
    "set_wait_op k y (set_process_state t st v) = set_process_state t st (set_wait_op k y v)" for k y y' t st v
    by (simp_all add: set_wait_op_def set_process_state_def)
  let ?x = "new_wait_op ?s h a"
  have x [simp]: "wo_state ?x = ?s" "wo_child ?x = h" "wo_result ?x = None" "wo_resumed ?x = 0" by (simp_all add: new_wait_op_def)
  show ?thesis
  proof (cases "wait_await_ready ?x (?w ?x)")
    case True
    with Some keep0 [of ?x] show ?thesis by (simp add: process_wait_def Let_def)
  next
    case notready: False
    then have ex: "\<not> pr_exited (cur_state w)" by (simp add: wait_await_ready_def cur_state_def)
    show ?thesis
    proof (cases "b \<or> pr_waiter (cur_state w) \<noteq> None")
      case True
      let ?y = "?x\<lparr>wo_token := b, wo_continuation := True\<rparr>"
      have "snd (process_wait a b c d w) =
          wait_await_resume ?i (set_process_state ?s ((pw_states w ?s)\<lparr>pr_wait_status := Uv_err (if b then UV_ECANCELED else UV_EBUSY)\<rparr>) (?w ?y))"
        using Some notready True by (auto simp: process_wait_def Let_def wait_await_suspend_def idem cur_state_def)
      with keep [of ?y] show ?thesis by simp
    next
      case False
      let ?y = "?x\<lparr>wo_token := b, wo_continuation := True, wo_stop_callback := c\<rparr>"
      define v where "v = (if c \<and> d then wait_stop ?i (?w ?y) else ?w ?y)"
      have "snd (process_wait a b c d w) = set_process_state ?s ((pw_states v ?s)\<lparr>pr_waiter := Some ?i\<rparr>) v"
        using Some notready False by (auto simp: process_wait_def Let_def wait_await_suspend_def idem cur_state_def v_def)
      moreover have v: "pw_states v = pw_states w" "pw_ops v = (pw_ops w)(?i := ?y\<lparr>wo_token := b \<or> (c \<and> d)\<rparr>)" "pw_count v = Suc ?i"
        "pw_watch v = pw_watch w" "pw_next v = pw_next w" "pw_nstates v = pw_nstates w" "pw_state v = pw_state w" "pw_exits v = pw_exits w"
        using False by (auto simp: v_def wait_stop_def Let_def)
      moreover have q: "set (rt_queue (pw_rt v)) \<subseteq> insert (Pj_cancel ?i) (set (rt_queue (pw_rt w)))"
        using process_post_queue [of "Pj_cancel ?i" "set_wait_op ?i (?y\<lparr>wo_token := True\<rparr>) (?w ?y)"]
        by (auto simp: v_def wait_stop_def Let_def)
      moreover have "waits_ok {?i} v" "status_ok {} v" "handles_ok v" "watched_ok {} v" "exits_ok v"
        by (rule new_wait_keeps [OF assms refl _ _ v q]; simp)+
      ultimately show ?thesis using enter [of v] False ex by simp
    qed
  qed
qed

lemma process_inv_reset_pipes: "process_inv w \<Longrightarrow> process_inv (reset_pipes w)"
proof -
  have c: "process_inv (close_pipe p w)" if "process_inv w" for p w
    using that by (auto simp: close_pipe_def intro!: process_inv_cong [OF that] dest!: set_mp [OF process_post_queue] split: option.split)
  have f: "process_inv (w\<lparr>pw_stdin := None\<rparr>)" "process_inv (w\<lparr>pw_stdout := None\<rparr>)" "process_inv (w\<lparr>pw_stderr := None\<rparr>)"
    if "process_inv w" for w by (rule process_inv_cong [OF that]; auto)+
  assume "process_inv w"
  then show ?thesis unfolding reset_pipes_def Let_def by (intro c f)
qed

lemma reset_pipes_sel [simp]:
  "pw_state (reset_pipes w) = pw_state w" "pw_states (reset_pipes w) = pw_states w" "pw_nstates (reset_pipes w) = pw_nstates w"
  "pw_watch (reset_pipes w) = pw_watch w" "pw_next (reset_pipes w) = pw_next w" "cur_state (reset_pipes w) = cur_state w"
proof -
  have c: "pw_state (close_pipe p w) = pw_state w" "pw_states (close_pipe p w) = pw_states w" "pw_nstates (close_pipe p w) = pw_nstates w"
    "pw_watch (close_pipe p w) = pw_watch w" "pw_next (close_pipe p w) = pw_next w" for p w
    by (auto simp: close_pipe_def split: option.split)
  show "pw_state (reset_pipes w) = pw_state w" "pw_states (reset_pipes w) = pw_states w" "pw_nstates (reset_pipes w) = pw_nstates w"
    "pw_watch (reset_pipes w) = pw_watch w" "pw_next (reset_pipes w) = pw_next w" "cur_state (reset_pipes w) = cur_state w"
    by (simp_all add: reset_pipes_def Let_def c cur_state_def)
qed

lemma process_inv_close:
  assumes "process_inv w"
  shows "process_inv (process_close w)"
proof (cases "pr_handle (cur_state w)")
  case None
  with process_inv_reset_pipes [OF assms] show ?thesis by (simp add: process_close_def Let_def)
next
  case (Some h)
  let ?r = "reset_pipes w" and ?s = "pw_state w"
  let ?v = "process_post (Pj_close ?s h) (set_process_state ?s ((cur_state w)\<lparr>pr_handle := None\<rparr>) ?r)"
  from process_inv_reset_pipes [OF assms]
  have g: "waits_ok {} ?r" "status_ok {} ?r" "handles_ok ?r" "watched_ok {} ?r" "exits_ok ?r" by (simp_all add: process_inv_def)
  have q: "set (rt_queue (pw_rt ?v)) \<subseteq> insert (Pj_close ?s h) (set (rt_queue (pw_rt ?r)))"
    using process_post_queue [of "Pj_close ?s h" "set_process_state ?s ((cur_state w)\<lparr>pr_handle := None\<rparr>) ?r"] by simp
  have w: "pr_waiter (pw_states ?v t) = pr_waiter (pw_states ?r t)" for t by (simp add: cur_state_def)
  have "waits_ok {} ?v" using g(1) q w unfolding waits_ok_def by simp blast
  moreover have "status_ok {} ?v" using g(2) by (simp add: status_ok_def cur_state_def)
  moreover have "handles_ok ?v"
  proof -
    have h: "h < pw_next w" "pw_watch w h \<in> {None, Some ?s}" "\<forall>t. pr_handle (pw_states w t) = Some h \<longrightarrow> t = ?s" "?s < pw_nstates w"
      using g(3) Some unfolding handles_ok_def cur_state_def by simp_all
    have e: "pw_watch ?v = pw_watch ?r" "pw_next ?v = pw_next ?r" "pw_nstates ?v = pw_nstates ?r" "pw_state ?v = pw_state ?r"
      "pw_states ?v = (pw_states ?r)(?s := (pw_states ?r ?s)\<lparr>pr_handle := None\<rparr>)" by (simp_all add: cur_state_def)
    have c: "Pj_close t k \<in> set (rt_queue (pw_rt ?v)) \<Longrightarrow> (t = ?s \<and> k = h) \<or> Pj_close t k \<in> set (rt_queue (pw_rt ?r))" for t k
      using q by blast
    show ?thesis
      unfolding handles_ok_def e
    proof (intro conjI)
      show "\<forall>t k. Pj_close t k \<in> set (rt_queue (pw_rt ?v)) \<longrightarrow> k < pw_next ?r \<and> pw_watch ?r k \<in> {None, Some t} \<and>
          (\<forall>s'. pr_handle (((pw_states ?r)(?s := (pw_states ?r ?s)\<lparr>pr_handle := None\<rparr>)) s') \<noteq> Some k)"
      proof (intro allI impI)
        fix t k assume "Pj_close t k \<in> set (rt_queue (pw_rt ?v))"
        from c [OF this] show "k < pw_next ?r \<and> pw_watch ?r k \<in> {None, Some t} \<and>
          (\<forall>s'. pr_handle (((pw_states ?r)(?s := (pw_states ?r ?s)\<lparr>pr_handle := None\<rparr>)) s') \<noteq> Some k)"
        proof
          assume "t = ?s \<and> k = h"
          with h show ?thesis by auto
        next
          assume "Pj_close t k \<in> set (rt_queue (pw_rt ?r))"
          with g(3) show ?thesis unfolding handles_ok_def by simp
        qed
      qed
    qed (use g(3) h(4) in \<open>auto simp: handles_ok_def\<close>)
  qed
  moreover have "watched_ok {} ?v" using g(4) by (simp add: watched_ok_def cur_state_def)
  moreover have "exits_ok ?v" using g(5) by (simp add: exits_ok_def cur_state_def)
  ultimately show ?thesis using Some by (simp add: process_close_def process_inv_def Let_def)
qed

lemma make_pipes_keeps:
  assumes "process_inv w"
  shows "process_inv (snd (make_pipes options rcs w))"
    and "pw_state (snd (make_pipes options rcs w)) = pw_state w" and "pw_states (snd (make_pipes options rcs w)) = pw_states w"
  by (auto simp: make_pipes_def Let_def intro!: process_inv_cong [OF assms] split: sum.split)

lemma spawn_call_keeps:
  assumes "process_inv w" and "pr_handle (cur_state w) = None" and "\<not> pr_running (cur_state w)"
  shows "process_inv (snd (spawn_call options uv_spawn w))"
proof -
  let ?s = "pw_state w" and ?h = "pw_next w"
  from assms(1) have g: "waits_ok {} w" "status_ok {} w" "handles_ok w" "watched_ok {} w" "exits_ok w" by (simp_all add: process_inv_def)
  have nw: "pw_watch w h \<noteq> Some ?s" for h using g(3) assms(3) unfolding handles_ok_def cur_state_def by blast
  have wt: "pr_waiter (pw_states w ?s) = None" using g(4) nw unfolding watched_ok_def by blast
  have keep: "process_inv v"
    if v: "pw_states v = (pw_states w)(?s := st)" "pw_ops v = pw_ops w" "pw_count v = pw_count w" "pw_rt v = pw_rt w" "pw_next v = Suc ?h"
      "pw_nstates v = pw_nstates w" "pw_state v = ?s" "pw_exits v = pw_exits w"
      and st: "pr_waiter st = None" "pr_wait_status st = Uv_ok" "\<not> pr_exited st"
      and hw: "(pr_handle st = None \<and> pw_watch v = pw_watch w) \<or> (pr_handle st = Some ?h \<and> pr_running st \<and> pw_watch v = (pw_watch w)(?h \<mapsto> ?s))"
    for v st
    unfolding process_inv_def
  proof (intro conjI)
    show "waits_ok {} v" by (rule waits_cong [OF g(1)]) (simp_all add: v wt st)
    show "status_ok {} v" using g(2) by (simp add: status_ok_def v st)
    have lt: "pr_handle (pw_states w t) \<noteq> Some ?h" "pw_watch w ?h = None" "Pj_close t ?h \<notin> set (rt_queue (pw_rt w))" for t
      using g(3) unfolding handles_ok_def by (metis less_irrefl not_None_eq)+
    show "exits_ok v"
      unfolding exits_ok_def v
    proof (intro conjI)
      show "\<forall>s i h. pr_waiter (((pw_states w)(?s := st)) s) = Some i \<longrightarrow> pw_watch v h = Some s \<longrightarrow> wo_child (pw_ops w i) = h"
        using g(5) hw st(1) unfolding exits_ok_def by (auto split: if_splits)
    qed (use g(5) st(3) in \<open>simp_all add: exits_ok_def\<close>)
    have "?s < pw_nstates w" using g(3) by (simp add: handles_ok_def)
    with g(3) nw hw lt show "handles_ok v" unfolding handles_ok_def v(1,4-7) by (elim disjE conjE) (auto simp: less_Suc_eq)
    show "watched_ok {} v" using g(4) hw lt(2) unfolding watched_ok_def v(1) by (auto simp: st) (metis option.distinct(1))+
  qed
  show ?thesis
    unfolding spawn_call_def Let_def by (auto simp: cur_state_def wt intro!: keep split: prod.split uv_status.split)
qed

lemma process_inv_spawn:
  assumes "process_inv w"
  shows "process_inv (snd (process_spawn stop options rcs uv_spawn w))"
proof (cases "stop \<or> po_file options = [] \<or> pr_running (cur_state w)")
  case True
  with assms show ?thesis by (auto simp: process_spawn_def)
next
  case False
  define w1 where "w1 = (if pr_handle (cur_state w) \<noteq> None
     then set_process_state (pw_nstates w) new_process_state
       ((process_close w)\<lparr>pw_state := pw_nstates w, pw_nstates := Suc (pw_nstates w)\<rparr>) else w)"
  have n: "pw_nstates (process_close w) = pw_nstates w" by (simp add: process_close_def Let_def split: option.split)
  have w1: "process_inv w1 \<and> pr_handle (cur_state w1) = None \<and> \<not> pr_running (cur_state w1)"
  proof (cases "pr_handle (cur_state w)")
    case None
    with assms False show ?thesis by (simp add: w1_def)
  next
    case (Some h)
    let ?c = "process_close w"
    from process_inv_close [OF assms]
    have g: "waits_ok {} ?c" "status_ok {} ?c" "handles_ok ?c" "watched_ok {} ?c" "exits_ok ?c" by (simp_all add: process_inv_def)
    from g(3) n have new: "pw_states ?c (pw_nstates w) = new_process_state" by (simp add: handles_ok_def)
    have st: "pw_states w1 = pw_states ?c" using Some new by (simp add: w1_def flip: new)
    have e: "pw_watch w1 = pw_watch ?c" "pw_next w1 = pw_next ?c" "pw_rt w1 = pw_rt ?c" "pw_ops w1 = pw_ops ?c" "pw_count w1 = pw_count ?c"
      "pw_exits w1 = pw_exits ?c" "pw_nstates w1 = Suc (pw_nstates w)" "pw_state w1 = pw_nstates w" using Some by (simp_all add: w1_def)
    have "waits_ok {} w1" by (rule waits_cong [OF g(1)]) (simp_all add: e st)
    moreover have "handles_ok w1" using g(3) unfolding handles_ok_def e st n by (auto simp: less_Suc_eq)
    ultimately have "process_inv w1" using g by (simp add: process_inv_def status_ok_def watched_ok_def exits_ok_def e st)
    moreover have "cur_state w1 = new_process_state" by (simp add: cur_state_def e st new)
    ultimately show ?thesis by (simp add: new_process_state_def)
  qed
  let ?r = "reset_pipes w1"
  obtain res v where v: "make_pipes options rcs ?r = (res, v)" by (rule prod.exhaust)
  from make_pipes_keeps [OF process_inv_reset_pipes, of w1 options rcs] w1 v
  have k: "process_inv v" "pr_handle (cur_state v) = None" "\<not> pr_running (cur_state v)" by (simp_all add: cur_state_def)
  have "snd (process_spawn stop options rcs uv_spawn w) = (case res of Inl e \<Rightarrow> v | Inr _ \<Rightarrow> snd (spawn_call options uv_spawn v))"
    using False v n by (auto simp: process_spawn_def Let_def w1_def split: sum.split)
  with k spawn_call_keeps [OF k] show ?thesis by (simp split: sum.split)
qed

lemma process_inv_job:
  assumes "process_inv w"
  shows "process_inv (process_run_job w)"
proof (cases "rt_queue (pw_rt w)")
  case Nil
  with assms show ?thesis by (simp add: process_run_job_def)
next
  case (Cons j js)
  let ?w = "w\<lparr>pw_rt := (pw_rt w)\<lparr>rt_queue := js\<rparr>\<rparr>"
  have p: "process_inv ?w" by (rule process_inv_cong [OF assms]) (auto simp: Cons)
  show ?thesis
  proof (cases j)
    case (Pj_cancel i)
    with Cons assms have "i < pw_count ?w" by (simp add: process_inv_def waits_ok_def)
    with process_inv_cancel_job [OF p] Cons Pj_cancel show ?thesis by (simp add: process_run_job_def)
  next
    case (Pj_close s h)
    with Cons assms have "pw_watch ?w h \<in> {None, Some s}" "\<forall>t. pr_handle (pw_states ?w t) \<noteq> Some h"
      by (auto simp: process_inv_def handles_ok_def)
    from process_inv_close_job [OF p this] Cons Pj_close show ?thesis by (simp add: process_run_job_def)
  next
    case (Pj_pipe h)
    have "process_inv (?w\<lparr>pw_closed := c\<rparr>)" for c by (rule process_inv_cong [OF p]) auto
    with p Cons Pj_pipe show ?thesis by (simp add: process_run_job_def Let_def)
  qed
qed

lemma process_inv_closed:
  assumes "process_inv w"
  shows "process_inv (process_closed_cb h w)"
proof (cases "map_of (pw_closing w) h")
  case None
  with assms show ?thesis by (simp add: process_closed_cb_def)
next
  case (Some s)
  let ?v = "set_process_state s ((pw_states w s)\<lparr>pr_keep_alive := False\<rparr>) (w\<lparr>pw_closing := filter (\<lambda>p. fst p \<noteq> h) (pw_closing w)\<rparr>)"
  from assms have g: "waits_ok {} w" "status_ok {} w" "handles_ok w" "watched_ok {} w" "exits_ok w" by (simp_all add: process_inv_def)
  have "handles_ok ?v"
  proof (rule handles_cong [OF g(3)])
    fix t assume "pw_nstates w \<le> t"
    with g(3) have "pw_states w t = new_process_state" by (simp add: handles_ok_def)
    then show "pw_states ?v t = pw_states w t" by (cases "t = s") (simp_all add: new_process_state_def)
  qed simp_all
  moreover have "waits_ok {} ?v" by (rule waits_cong [OF g(1)]) simp_all
  moreover have "status_ok {} ?v" using g(2) by (simp add: status_ok_def)
  moreover have "watched_ok {} ?v" using g(4) by (simp add: watched_ok_def)
  moreover have "exits_ok ?v" using g(5) by (simp add: exits_ok_def)
  ultimately show ?thesis using Some by (simp add: process_closed_cb_def process_inv_def)
qed

lemma process_inv_step: "process_inv w \<Longrightarrow> process_inv (process_step ev w)"
  by (cases ev)
    (simp_all add: process_inv_spawn process_inv_wait process_inv_stop process_inv_exit process_inv_close process_inv_job process_inv_closed
      split: option.split)

lemma process_inv_runs: "process_inv w \<Longrightarrow> process_inv (process_runs evs w)"
  by (induction evs arbitrary: w) (simp_all add: process_inv_step del: process_step.simps)

lemma process_inv_new: "rt_queue rt = [] \<Longrightarrow> process_inv (process_new rt)"
  by (simp add: process_inv_def process_new_def waits_ok_def status_ok_def handles_ok_def watched_ok_def exits_ok_def new_process_state_def
      new_wait_op_def)

section \<open>Properties\<close>

text \<open>
  C32. Whatever spawns (with libuv's failures), calls of \<open>wait\<close>, stops, exits, closes and jobs happen to
  a process object: no call of \<open>wait\<close> is resumed twice; a call without a result is the one that its
  process has as its waiter, and then the child it was called for has not exited and libuv still watches
  it, so that a wake-up is to come; a call that returns an exit status returns one that libuv reported
  for the very child the object had when \<open>wait\<close> was called, whatever is spawned into the same state
  later or was before; and no call leaves a status behind that would make a later one fail.
\<close>

theorem process_wait_once_honest:
  assumes "rt_queue rt = []" and "w = process_runs evs (process_new rt)"
  shows "\<forall>i < pw_count w. wo_resumed (pw_ops w i) \<le> 1 \<and>
      (case wo_result (pw_ops w i) of
         None \<Rightarrow> pr_waiter (pw_states w (wo_state (pw_ops w i))) = Some i \<and> \<not> pr_exited (pw_states w (wo_state (pw_ops w i))) \<and>
           pw_watch w (wo_child (pw_ops w i)) = Some (wo_state (pw_ops w i))
       | Some (Inl e) \<Rightarrow> pr_waiter (pw_states w (wo_state (pw_ops w i))) \<noteq> Some i
       | Some (Inr r) \<Rightarrow> (wo_child (pw_ops w i), r) \<in> set (pw_exits w)) \<and>
      pr_wait_status (pw_states w (wo_state (pw_ops w i))) = Uv_ok"
proof -
  have "process_inv w" unfolding assms(2) by (rule process_inv_runs, rule process_inv_new [OF assms(1)])
  then have g: "waits_ok {} w" "status_ok {} w" "watched_ok {} w" "exits_ok w" by (simp_all add: process_inv_def)
  show ?thesis
  proof (intro allI impI)
    fix i assume i: "i < pw_count w"
    let ?s = "wo_state (pw_ops w i)"
    have "wo_resumed (pw_ops w i) \<le> 1" "wo_result (pw_ops w i) = None \<longleftrightarrow> pr_waiter (pw_states w ?s) = Some i"
      using g(1) i by (simp_all add: waits_ok_def)
    moreover have "pr_wait_status (pw_states w ?s) = Uv_ok" using g(2) by (simp add: status_ok_def)
    moreover have "pr_waiter (pw_states w ?s) = Some i \<Longrightarrow> \<not> pr_exited (pw_states w ?s) \<and> pw_watch w (wo_child (pw_ops w i)) = Some ?s"
      using g(3,4) unfolding watched_ok_def exits_ok_def by (metis empty_iff option.distinct(1))
    moreover have "wo_result (pw_ops w i) = Some (Inr r) \<Longrightarrow> (wo_child (pw_ops w i), r) \<in> set (pw_exits w)" for r using g(4) by (cases r) (simp add: exits_ok_def)
    ultimately show "wo_resumed (pw_ops w i) \<le> 1 \<and>
      (case wo_result (pw_ops w i) of
         None \<Rightarrow> pr_waiter (pw_states w ?s) = Some i \<and> \<not> pr_exited (pw_states w ?s) \<and> pw_watch w (wo_child (pw_ops w i)) = Some ?s
       | Some (Inl e) \<Rightarrow> pr_waiter (pw_states w ?s) \<noteq> Some i
       | Some (Inr r) \<Rightarrow> (wo_child (pw_ops w i), r) \<in> set (pw_exits w)) \<and>
      pr_wait_status (pw_states w ?s) = Uv_ok"
      by (cases "wo_result (pw_ops w i)") (auto split: sum.split)
  qed
qed

definition demo_options :: process_options where
  "demo_options = \<lparr>po_file = ''ls'', po_args = [], po_env = [], po_cwd = [], po_detached = False, po_windows_hide = False,
     po_windows_hide_console = False, po_windows_verbatim_arguments = False, po_stdin_pipe = False, po_stdout_pipe = True, po_stderr_pipe = False\<rparr>"

abbreviation demo_spawn :: process_event where
  "demo_spawn \<equiv> Pe_spawn False demo_options (Uv_ok, Uv_ok, Uv_ok) (Uv_ok, 4711)"

abbreviation plain_spawn :: process_event where
  "plain_spawn \<equiv> Pe_spawn False (demo_options\<lparr>po_stdout_pipe := False\<rparr>) (Uv_ok, Uv_ok, Uv_ok) (Uv_ok, 4711)"

text \<open>Two children, one after the other, in the same state: each \<open>wait\<close> returns the exit of its own.\<close>

theorem process_wait_once_honest_witness:
  "\<exists>w. w = process_runs [plain_spawn, Pe_wait False False True False, Pe_exit 3 0 15, Pe_close, plain_spawn,
        Pe_wait False False True False, Pe_exit 7 1 0] (process_new new_runtime) \<and>
     wo_state (pw_ops w 0) = wo_state (pw_ops w 1) \<and> wo_child (pw_ops w 0) = 3 \<and> wo_child (pw_ops w 1) = 7 \<and>
     wo_result (pw_ops w 0) = Some (Inr (0, 15)) \<and> wo_result (pw_ops w 1) = Some (Inr (1, 0)) \<and>
     (3, 0, 15) \<in> set (pw_exits w) \<and> (7, 1, 0) \<in> set (pw_exits w) \<and> wo_resumed (pw_ops w 1) \<le> 1"
proof -
  let ?evs = "[plain_spawn, Pe_wait False False True False, Pe_exit 3 0 15, Pe_close, plain_spawn,
        Pe_wait False False True False, Pe_exit 7 1 0]"
  define w where "w = process_runs ?evs (process_new new_runtime)"
  have r: "pw_count w = 2" "wo_result (pw_ops w 0) = Some (Inr (0, 15))" "wo_result (pw_ops w 1) = Some (Inr (1, 0))"
    "wo_child (pw_ops w 0) = 3" "wo_child (pw_ops w 1) = 7" "wo_state (pw_ops w 0) = wo_state (pw_ops w 1)"
    unfolding w_def by code_simp+
  have "rt_queue (new_runtime :: process_job uv_runtime) = []" by (simp add: new_runtime_def)
  note h = process_wait_once_honest [OF this w_def]
  from h [rule_format, of 0] h [rule_format, of 1] r
  have "(3, 0, 15) \<in> set (pw_exits w)" "(7, 1, 0) \<in> set (pw_exits w)" "wo_resumed (pw_ops w 1) \<le> 1" by auto
  with r show ?thesis by (intro exI [of _ w] conjI) (simp_all add: w_def)
qed

text \<open>The object has no handle, is marked running, and libuv watches no child for it.\<close>

definition process_dead :: "process_world \<Rightarrow> bool" where
  "process_dead w \<longleftrightarrow> pr_handle (cur_state w) = None \<and> process_running w \<and> (\<forall>h. pw_watch w h \<noteq> Some (pw_state w))"

lemma process_dead_cong:
  "process_dead w \<Longrightarrow> pw_state v = pw_state w \<Longrightarrow> (\<And>s. pr_handle (pw_states v s) = pr_handle (pw_states w s)) \<Longrightarrow>
   (\<And>s. pr_running (pw_states v s) = pr_running (pw_states w s)) \<Longrightarrow> (\<And>h. pw_watch v h \<in> {None, pw_watch w h}) \<Longrightarrow> process_dead v"
  unfolding process_dead_def cur_state_def process_running_def by (metis insert_iff option.distinct(1) singletonD)

lemma process_dead_step:
  assumes "process_dead w"
  shows "process_dead (process_step ev w)"
proof (cases ev)
  case (Pe_spawn stop options rcs answer)
  with assms show ?thesis by (simp add: process_spawn_def process_dead_def process_running_def)
next
  case (Pe_wait a b c d)
  with assms show ?thesis by (simp add: process_wait_def process_dead_def)
next
  case (Pe_stop i)
  with assms show ?thesis by (auto simp: wait_stop_def Let_def intro!: process_dead_cong [OF assms])
next
  case (Pe_exit h es ts)
  show ?thesis
  proof (cases "pw_watch w h")
    case (Some s)
    with assms have "s \<noteq> pw_state w" by (auto simp: process_dead_def)
    with assms Pe_exit Some show ?thesis
      by (auto simp: process_exit_cb_def Let_def process_dead_def cur_state_def process_running_def)
  qed (use assms Pe_exit in simp)
next
  case Pe_close
  with assms show ?thesis by (simp add: process_close_def Let_def process_dead_def process_running_def)
next
  case (Pe_closed h)
  then show ?thesis
    by (auto simp: process_closed_cb_def intro!: process_dead_cong [OF assms] split: option.split if_splits)
next
  case Pe_job
  have resume: "process_dead (resume_wait i v)" if "process_dead v" for i v
    by (rule process_dead_cong [OF that]) (simp_all add: resume_wait_def)
  have cancel: "process_dead (wait_cancel_job i v)" if "process_dead v" for i v
    using that by (auto simp: wait_cancel_job_def Let_def intro!: resume elim!: process_dead_cong split: if_splits)
  have close: "process_dead (process_close_job s h v)" if "process_dead v" for s h v
    by (rule process_dead_cong [OF that]) (simp_all add: process_close_job_def Let_def)
  show ?thesis
  proof (cases "rt_queue (pw_rt w)")
    case (Cons j js)
    have "process_dead (w\<lparr>pw_rt := rt\<rparr>)" "process_dead (w\<lparr>pw_rt := rt, pw_closed := c\<rparr>)" for rt c by (rule process_dead_cong [OF assms]; simp)+
    with Pe_job Cons cancel close show ?thesis by (cases j) (simp_all add: process_run_job_def Let_def)
  qed (use assms Pe_job in \<open>simp add: process_run_job_def\<close>)
qed

text \<open>
  A defect: \<open>close\<close> of a process that still runs leaves its running flag set, and a closed handle
  reports no exit that could clear it. From then on, whatever happens to the object, \<open>running()\<close> stays
  true and \<open>spawn\<close> throws that the process is already running.
\<close>

theorem process_close_blocks_spawn:
  assumes "pr_handle (cur_state w) = None" and "process_running w" and "\<And>h. pw_watch w h \<noteq> Some (pw_state w)"
    and "w' = process_runs evs w" and "po_file options \<noteq> []"
  shows "process_running w' \<and>
    process_spawn False options rcs uv_spawn w' = (Inl (Runtime_error ''process is already running''), w')"
proof -
  have "process_dead w" using assms(1-3) by (simp add: process_dead_def)
  then have "process_dead (process_runs evs w)" by (induction evs arbitrary: w) (simp_all add: process_dead_step del: process_step.simps)
  with assms(4,5) show ?thesis by (simp add: process_dead_def process_spawn_def process_running_def)
qed

theorem process_close_blocks_spawn_witness:
  "let w = process_runs [demo_spawn, Pe_close, Pe_job, Pe_job] (process_new new_runtime)
   in rt_queue (pw_rt w) = [] \<and> pw_closed w = [1, 3] \<and>
      fst (process_spawn False demo_options (Uv_ok, Uv_ok, Uv_ok) (\<lambda>_. (Uv_ok, 1)) (process_runs [Pe_wait False False False False] w)) =
        Inl (Runtime_error ''process is already running'')"
proof -
  let ?w = "process_runs [demo_spawn, Pe_close, Pe_job, Pe_job] (process_new new_runtime)"
  have h: "pr_handle (cur_state ?w) = None" "process_running ?w" "pw_closed ?w = [1, 3]" "rt_queue (pw_rt ?w) = []" by code_simp+
  have "pw_watch ?w = Map.empty"
    by (simp add: process_spawn_def process_new_def cur_state_def demo_options_def new_process_state_def reset_pipes_def close_pipe_def Let_def
        make_pipes_def make_pipe_def spawn_call_def process_close_def process_run_job_def process_post_def post_def async_send_def
        new_runtime_def set_process_state_def process_close_job_def wake_waiter_def)
  then have "\<And>h. pw_watch ?w h \<noteq> Some (pw_state ?w)" by simp
  moreover have "po_file demo_options \<noteq> []" by (simp add: demo_options_def)
  ultimately have e: "process_spawn False demo_options (Uv_ok, Uv_ok, Uv_ok) (\<lambda>_. (Uv_ok, 1)) (process_runs [Pe_wait False False False False] ?w) =
      (Inl (Runtime_error ''process is already running''), process_runs [Pe_wait False False False False] ?w)"
    by (intro conjunct2 [OF process_close_blocks_spawn [OF h(1,2) _ refl]]) auto
  show ?thesis unfolding Let_def e h(3,4) by simp
qed

text \<open>
  Another defect: the job of \<open>close\<close> refers to the state, which a \<open>spawn\<close> on the loop's thread may use
  again before the job runs. The job then cancels a \<open>wait\<close> for the new child, which nobody stopped.
\<close>

lemma process_close_cancels_next_wait:
  "let w = process_runs [plain_spawn, Pe_exit 3 0 0, Pe_close, plain_spawn, Pe_wait False False False False, Pe_job] (process_new new_runtime)
   in wo_result (pw_ops w 0) = Some (Inl Operation_cancelled) \<and> process_running w \<and> pw_watch w 7 = Some 0"
  by code_simp

text \<open>
  For the same reason the close callback of the old handle gives up the state's reference to itself,
  which the new child's handle in the state still needs.
\<close>

lemma process_closed_drops_keep_alive:
  "let w = process_runs [plain_spawn, Pe_exit 3 0 0, Pe_close, plain_spawn, Pe_job, Pe_closed 3] (process_new new_runtime)
   in process_running w \<and> pw_watch w 7 = Some 0 \<and> pr_handle (pw_states w 0) = Some 7 \<and> \<not> pr_keep_alive (pw_states w 0)"
  by code_simp

text \<open>When \<open>uv_spawn\<close> fails, the handle that libuv has registered is deleted and never closed.\<close>

lemma process_spawn_failure_deletes_handle:
  "let w = process_runs [Pe_spawn False (demo_options\<lparr>po_stdout_pipe := False\<rparr>) (Uv_ok, Uv_ok, Uv_ok) (Uv_err UV_ENOENT, 0)]
         (process_new new_runtime)
   in pw_freed w = [3] \<and> pw_closed w = [] \<and> rt_queue (pw_rt w) = []"
  by code_simp

end
