(* ===== verification/Notifications.thy ===== *)
theory Notifications
  imports Channel_Runs
begin

text \<open>
  The interface between the components that report events (\<open>signal_set\<close>, the file-system watchers) and
  the \<open>message_channel\<close> their clients read from: a callback sends without blocking, closing the
  component closes the channel. It is proved for the channel of \<open>Channel_Ops\<close>, with the FIFO of
  \<open>Channel_Fifo\<close> as what the channel promises.
\<close>

definition put_all :: "'m list \<Rightarrow> 'm fifo \<Rightarrow> 'm fifo" where
  "put_all ms f = fold ff_put ms f"

lemma ff_put_sel [simp]: "ff_capacity (ff_put m f) = ff_capacity f" "ff_closed (ff_put m f) = ff_closed f"
  by (simp_all add: ff_put_def split: list.split)

lemma put_all_simps [simp]: "put_all [] f = f" "put_all (m # ms) f = put_all ms (ff_put m f)"
  "ff_capacity (put_all ms f) = ff_capacity f" "ff_closed (put_all ms f) = ff_closed f"
proof -
  show "put_all [] f = f" "put_all (m # ms) f = put_all ms (ff_put m f)" by (simp_all add: put_all_def)
  show "ff_capacity (put_all ms f) = ff_capacity f" "ff_closed (put_all ms f) = ff_closed f"
    unfolding put_all_def by (induction ms arbitrary: f) simp_all
qed

locale notification_channel =
  fixes send :: "'m \<Rightarrow> 'c \<Rightarrow> bool result \<times> 'c"
    and shut :: "'c \<Rightarrow> unit result \<times> 'c"
    and sim :: "'c \<Rightarrow> 'm fifo \<Rightarrow> bool"
  assumes send_open: "sim c f \<Longrightarrow> ff_capacity f = 0 \<Longrightarrow> \<not> ff_closed f \<Longrightarrow> fst (send m c) = Inr True \<and> sim (snd (send m c)) (ff_put m f)"
    and shut_sim: "sim c f \<Longrightarrow> fst (shut c) = Inr () \<and> sim (snd (shut c)) (snd (fifo_step Ce_close f))"
begin

text \<open>Callbacks that come one after the other append their notifications in that order.\<close>

lemma send_all:
  "sim c f \<Longrightarrow> ff_capacity f = 0 \<Longrightarrow> \<not> ff_closed f \<Longrightarrow> sim (fold (\<lambda>m c. snd (send m c)) ms c) (put_all ms f)"
proof (induction ms arbitrary: c f)
  case (Cons m ms)
  from send_open [OF Cons.prems, of m] have "sim (snd (send m c)) (ff_put m f)" by simp
  from Cons.IH [OF this] Cons.prems show ?case by simp
qed simp

lemma send_then_shut:
  "sim c f \<Longrightarrow> ff_capacity f = 0 \<Longrightarrow> \<not> ff_closed f \<Longrightarrow>
   sim (snd (shut (fold (\<lambda>m c. snd (send m c)) ms c))) (snd (fifo_step Ce_close (put_all ms f)))"
  using send_all shut_sim by blast

end

interpretation notifications: notification_channel "try_send True" close_channel ch_sim
proof
  fix c :: "'a chan_world" and f m
  assume s: "ch_sim c f" and "ff_capacity f = 0" "\<not> ff_closed f"
  then have "fifo_step (Ce_try_send True m) f = (Oc_sent (Inr True), ff_put m f)" by (simp add: ff_can_send_def)
  with step_sim [OF s, of "Ce_try_send True m"] show "fst (try_send True m c) = Inr True \<and> ch_sim (snd (try_send True m c)) (ff_put m f)"
    by (cases "try_send True m c") auto
next
  fix c :: "'a chan_world" and f
  assume s: "ch_sim c f"
  then have "world_ok c" by (simp add: ch_sim_def)
  from step_sim [OF s, of Ce_close] close_channel_spec [OF this]
  show "fst (close_channel c) = Inr () \<and> ch_sim (snd (close_channel c)) (snd (fifo_step Ce_close f))" by auto
qed

text \<open>What the clients of such a component may do with its channel: receive, or let the loop run.\<close>

fun receiving :: "'a ch_event \<Rightarrow> bool" where
  "receiving (Ce_try_send b v) = False"
| "receiving (Ce_send b s v) = False"
| "receiving Ce_close = False"
| "receiving ev = True"

lemma receiving_sim:
  assumes "ch_sim c f" and "ch_enabled ev c f"
  shows "fst (ch_step ev c) = fst (fifo_step ev f) \<and> ch_sim (snd (ch_step ev c)) (snd (fifo_step ev f))"
  using step_sim [OF assms] by auto

lemma receiving_keeps:
  "receiving ev \<Longrightarrow> ff_capacity (snd (fifo_step ev f)) = ff_capacity f \<and> ff_closed (snd (fifo_step ev f)) = ff_closed f"
  by (cases ev) (auto split: list.split)

end
