(* ===== verification/Signal_Set.thy ===== *)
theory Signal_Set
  imports Notifications
begin

text \<open>
  \<open>signal_set\<close> of \<open>src/signal.cpp\<close>: a registry of signals, one libuv handle each, whose callbacks
  put notifications into a \<open>message_channel\<close> that the clients read. The specification is a set of
  signals and a FIFO of notifications.
\<close>

section \<open>State\<close>

text \<open>The entries of the registry are numbered objects; \<open>sn_handle\<close> is null once it is closed.\<close>

record signal_entry =
  sn_handle :: "nat option"
  sn_signum :: int

text \<open>
  \<open>sg_state\<close> says that the set still has its shared state, \<open>sg_entries\<close> is the hash map in its order of
  iteration. On the loop's side: the handles libuv has started, with their signal and the entry in
  their \<open>data\<close>, those closed, and those deleted while libuv had them. A job is the list of entries
  that \<open>close\<close> posts.
\<close>

record signal_world =
  sg_state :: bool
  sg_closed :: bool
  sg_entries :: "(int \<times> nat) list"
  sg_objects :: "nat \<Rightarrow> signal_entry"
  sg_count :: nat
  sg_next :: nat
  sg_started :: "(nat \<times> int \<times> nat) list"
  sg_uv_closed :: "nat list"
  sg_freed :: "nat list"
  sg_rt :: "nat list uv_runtime"
  sg_events :: "int chan_world"

definition signal_set_new :: "nat list uv_runtime \<Rightarrow> signal_world" where
  "signal_set_new rt = \<lparr>sg_state = True, sg_closed = False, sg_entries = [], sg_objects = (\<lambda>_. \<lparr>sn_handle = None, sn_signum = 0\<rparr>),
     sg_count = 0, sg_next = 0, sg_started = [], sg_uv_closed = [], sg_freed = [], sg_rt = rt, sg_events = new_chan_world 0\<rparr>"

section \<open>Operations\<close>

text \<open>
  The callback: \<open>owner\<close> is a weak pointer, which is empty once \<open>close\<close> has given up the state.
\<close>

definition on_signal :: "int \<Rightarrow> signal_world \<Rightarrow> signal_world" where
  "on_signal signum w =
     (if \<not> sg_state w \<or> sg_closed w then w
      else w\<lparr>sg_events := snd (try_send True signum (sg_events w))\<rparr>)"

text \<open>libuv calls the callback of every handle started for a signal that arrives.\<close>

definition deliver_signal :: "int \<Rightarrow> signal_world \<Rightarrow> signal_world" where
  "deliver_signal signum w = fold (\<lambda>_ w. on_signal signum w) (filter (\<lambda>(h, s, e). s = signum) (sg_started w)) w"

definition close_entry :: "nat \<Rightarrow> signal_world \<Rightarrow> signal_world" where
  "close_entry e w =
     (case sn_handle (sg_objects w e) of
        None \<Rightarrow> w
      | Some handle \<Rightarrow>
          (let w = w\<lparr>sg_objects := (sg_objects w)(e := (sg_objects w e)\<lparr>sn_handle := None\<rparr>)\<rparr> in
           if handle \<notin> set (sg_uv_closed w)
           then w\<lparr>sg_started := filter (\<lambda>(h, s, e). h \<noteq> handle) (sg_started w), sg_uv_closed := sg_uv_closed w @ [handle]\<rparr>
           else w\<lparr>sg_freed := sg_freed w @ [handle]\<rparr>))"

definition signal_add_call :: "int \<Rightarrow> uv_status \<Rightarrow> uv_status \<Rightarrow> signal_world \<Rightarrow> unit result \<times> signal_world" where
  "signal_add_call signum init_rc start_rc w =
     (if sg_closed w then (Inl (Runtime_error ''signal_set is closed''), w)
      else if map_of (sg_entries w) signum \<noteq> None then (Inr (), w)
      else
        let e = sg_count w;
            w = w\<lparr>sg_count := Suc e, sg_objects := (sg_objects w)(e := \<lparr>sn_handle = None, sn_signum = signum\<rparr>)\<rparr>
        in (case init_rc of
              Uv_err rc \<Rightarrow> (throw_uv_error rc ''uv_signal_init'', w)
            | Uv_ok \<Rightarrow>
                (let handle = sg_next w; w = w\<lparr>sg_next := Suc handle\<rparr> in
                 case start_rc of
                   Uv_err rc \<Rightarrow> (throw_uv_error rc ''uv_signal_start'', w\<lparr>sg_freed := sg_freed w @ [handle]\<rparr>)
                 | Uv_ok \<Rightarrow>
                     (Inr (), w\<lparr>sg_started := sg_started w @ [(handle, signum, e)],
                        sg_objects := (sg_objects w)(e := (sg_objects w e)\<lparr>sn_handle := Some handle\<rparr>),
                        sg_entries := sg_entries w @ [(signum, e)]\<rparr>))))"

definition signal_add :: "bool \<Rightarrow> int \<Rightarrow> uv_status \<Rightarrow> uv_status \<Rightarrow> signal_world \<Rightarrow> unit result \<times> signal_world" where
  "signal_add stop_requested signum init_rc start_rc w =
     (if \<not> sg_state w then (Inl (Runtime_error ''signal_set is closed''), w)
      else if stop_requested then (Inl Operation_cancelled, w)
      else signal_add_call signum init_rc start_rc w)"

definition signal_remove :: "bool \<Rightarrow> int \<Rightarrow> signal_world \<Rightarrow> unit result \<times> signal_world" where
  "signal_remove stop_requested signum w =
     (if stop_requested then (Inl Operation_cancelled, w)
      else if \<not> sg_state w then (Inr (), w)
      else (case map_of (sg_entries w) signum of
              None \<Rightarrow> (Inr (), w)
            | Some e \<Rightarrow> (Inr (), close_entry e (w\<lparr>sg_entries := filter (\<lambda>p. fst p \<noteq> signum) (sg_entries w)\<rparr>))))"

definition signal_clear :: "bool \<Rightarrow> signal_world \<Rightarrow> unit result \<times> signal_world" where
  "signal_clear stop_requested w =
     (if stop_requested then (Inl Operation_cancelled, w)
      else if \<not> sg_state w then (Inr (), w)
      else (Inr (), fold close_entry (map snd (sg_entries w)) (w\<lparr>sg_entries := []\<rparr>)))"

definition signal_contains :: "int \<Rightarrow> signal_world \<Rightarrow> bool" where
  "signal_contains signum w = (if \<not> sg_state w then False else map_of (sg_entries w) signum \<noteq> None)"

definition signal_registered :: "signal_world \<Rightarrow> int list" where
  "signal_registered w = (if \<not> sg_state w then [] else sort (map fst (sg_entries w)))"

definition signal_close :: "signal_world \<Rightarrow> unit result \<times> signal_world" where
  "signal_close w =
     (if \<not> sg_state w
      then (if \<not> channel_is_closed (sg_events w)
            then (case close_channel (sg_events w) of (r, c) \<Rightarrow> (r, w\<lparr>sg_events := c\<rparr>))
            else (Inr (), w))
      else (case close_channel (sg_events w) of
              (Inl e, c) \<Rightarrow> (Inl e, w\<lparr>sg_state := False, sg_closed := True, sg_events := c\<rparr>)
            | (Inr _, c) \<Rightarrow>
                (Inr (), w\<lparr>sg_state := False, sg_closed := True, sg_events := c, sg_entries := [],
                   sg_rt := snd (post (map snd (sg_entries w)) (sg_rt w))\<rparr>)))"

text \<open>The job that \<open>close\<close> posts.\<close>

definition signal_run_job :: "signal_world \<Rightarrow> signal_world" where
  "signal_run_job w =
     (case rt_queue (sg_rt w) of
        [] \<Rightarrow> w
      | es # js \<Rightarrow> fold close_entry es (w\<lparr>sg_rt := (sg_rt w)\<lparr>rt_queue := js\<rparr>\<rparr>))"

section \<open>Runs\<close>

datatype signal_event =
    Sg_add bool int uv_status uv_status
  | Sg_remove bool int
  | Sg_clear bool
  | Sg_contains int
  | Sg_registered
  | Sg_close
  | Sg_job
  | Sg_signal int
  | Sg_client "int ch_event"

datatype signal_outcome = So_unit "unit result" | So_bool bool | So_list "int list" | So_channel "int ch_outcome" | So_none

fun signal_step :: "signal_event \<Rightarrow> signal_world \<Rightarrow> signal_outcome \<times> signal_world" where
  "signal_step (Sg_add stop signum init_rc start_rc) w = (case signal_add stop signum init_rc start_rc w of (r, w) \<Rightarrow> (So_unit r, w))"
| "signal_step (Sg_remove stop signum) w = (case signal_remove stop signum w of (r, w) \<Rightarrow> (So_unit r, w))"
| "signal_step (Sg_clear stop) w = (case signal_clear stop w of (r, w) \<Rightarrow> (So_unit r, w))"
| "signal_step (Sg_contains signum) w = (So_bool (signal_contains signum w), w)"
| "signal_step Sg_registered w = (So_list (signal_registered w), w)"
| "signal_step Sg_close w = (case signal_close w of (r, w) \<Rightarrow> (So_unit r, w))"
| "signal_step Sg_job w = (So_none, signal_run_job w)"
| "signal_step (Sg_signal signum) w = (So_none, deliver_signal signum w)"
| "signal_step (Sg_client ev) w = (case ch_step ev (sg_events w) of (r, c) \<Rightarrow> (So_channel r, w\<lparr>sg_events := c\<rparr>))"

text \<open>The specification: which signals are registered, and the notifications.\<close>

record signal_spec =
  sp_open :: bool
  sp_signals :: "int set"
  sp_events :: "int fifo"

fun spec_step :: "signal_event \<Rightarrow> signal_spec \<Rightarrow> signal_outcome \<times> signal_spec" where
  "spec_step (Sg_add stop signum init_rc start_rc) p =
     (if \<not> sp_open p then (So_unit (Inl (Runtime_error ''signal_set is closed'')), p)
      else if stop then (So_unit (Inl Operation_cancelled), p)
      else if signum \<in> sp_signals p then (So_unit (Inr ()), p)
      else (case (init_rc, start_rc) of
              (Uv_err rc, _) \<Rightarrow> (So_unit (Inl (Uv_error rc ''uv_signal_init'')), p)
            | (Uv_ok, Uv_err rc) \<Rightarrow> (So_unit (Inl (Uv_error rc ''uv_signal_start'')), p)
            | (Uv_ok, Uv_ok) \<Rightarrow> (So_unit (Inr ()), p\<lparr>sp_signals := insert signum (sp_signals p)\<rparr>)))"
| "spec_step (Sg_remove stop signum) p =
     (if stop then (So_unit (Inl Operation_cancelled), p) else (So_unit (Inr ()), p\<lparr>sp_signals := sp_signals p - {signum}\<rparr>))"
| "spec_step (Sg_clear stop) p =
     (if stop then (So_unit (Inl Operation_cancelled), p) else (So_unit (Inr ()), p\<lparr>sp_signals := {}\<rparr>))"
| "spec_step (Sg_contains signum) p = (So_bool (signum \<in> sp_signals p), p)"
| "spec_step Sg_registered p = (So_list (sorted_list_of_set (sp_signals p)), p)"
| "spec_step Sg_close p =
     (if sp_open p then (So_unit (Inr ()), p\<lparr>sp_open := False, sp_signals := {}, sp_events := snd (fifo_step Ce_close (sp_events p))\<rparr>)
      else (So_unit (Inr ()), p))"
| "spec_step Sg_job p = (So_none, p)"
| "spec_step (Sg_signal signum) p =
     (So_none, if signum \<in> sp_signals p then p\<lparr>sp_events := ff_put signum (sp_events p)\<rparr> else p)"
| "spec_step (Sg_client ev) p = (case fifo_step ev (sp_events p) of (r, f) \<Rightarrow> (So_channel r, p\<lparr>sp_events := f\<rparr>))"

end
