(* ===== verification/Signal_Refine.thy ===== *)
theory Signal_Refine
  imports Signal_Set
begin

text \<open>
  \<open>signal_set\<close> refines its specification: a set of signals, of which libuv watches each exactly once,
  and a FIFO that gets one notification for each signal that arrives while it is registered.
\<close>

section \<open>The handles\<close>

text \<open>
  Every handle that was initialised is in one of three places: started, closed through libuv, or
  deleted after it failed to start. The started ones and the entries' handle pointers name each other.
\<close>

definition handles_live :: "signal_world \<Rightarrow> bool" where
  "handles_live w \<longleftrightarrow> distinct (map fst (sg_started w) @ sg_uv_closed w @ sg_freed w) \<and>
     set (map fst (sg_started w) @ sg_uv_closed w @ sg_freed w) = {..<sg_next w} \<and>
     (\<forall>(h, s, e)\<in>set (sg_started w). sn_handle (sg_objects w e) = Some h \<and> e < sg_count w) \<and>
     (\<forall>e h. sn_handle (sg_objects w e) = Some h \<longrightarrow> (\<exists>s. (h, s, e) \<in> set (sg_started w)))"

lemma close_entry_sel [simp]:
  "sg_state (close_entry e w) = sg_state w" "sg_closed (close_entry e w) = sg_closed w" "sg_entries (close_entry e w) = sg_entries w"
  "sg_rt (close_entry e w) = sg_rt w" "sg_events (close_entry e w) = sg_events w" "sg_count (close_entry e w) = sg_count w"
  "sg_next (close_entry e w) = sg_next w"
  by (simp_all add: close_entry_def Let_def split: option.split)

lemma close_entry_live:
  assumes "handles_live w"
  shows "handles_live (close_entry e w)" and "sg_started (close_entry e w) = filter (\<lambda>t. snd (snd t) \<noteq> e) (sg_started w)"
    and "sg_freed (close_entry e w) = sg_freed w"
proof -
  have "handles_live (close_entry e w) \<and> sg_started (close_entry e w) = filter (\<lambda>t. snd (snd t) \<noteq> e) (sg_started w) \<and>
    sg_freed (close_entry e w) = sg_freed w"
  proof (cases "sn_handle (sg_objects w e)")
    case None
    then have "filter (\<lambda>t. snd (snd t) \<noteq> e) (sg_started w) = sg_started w"
      using assms by (intro filter_True) (force simp: handles_live_def)
    with None assms show ?thesis by (simp add: close_entry_def)
  next
    case (Some k)
    then obtain s where s: "(k, s, e) \<in> set (sg_started w)" using assms unfolding handles_live_def by blast
    then have k: "k \<notin> set (sg_uv_closed w)" using assms by (auto simp: handles_live_def)
    have d: "distinct (map fst (sg_started w))" using assms by (simp add: handles_live_def)
    have eq: "h = k \<longleftrightarrow> e' = e" if m: "(h, s', e') \<in> set (sg_started w)" for h s' e'
    proof
      assume "h = k"
      with m have "(k, s', e') \<in> set (sg_started w)" by simp
      from eq_key_imp_eq_value [OF d this s] show "e' = e" by simp
    next
      assume "e' = e"
      moreover have "sn_handle (sg_objects w e') = Some h" using assms m by (auto simp: handles_live_def)
      ultimately show "h = k" using Some by simp
    qed
    have f: "filter (\<lambda>(h, s, e). h \<noteq> k) (sg_started w) = filter (\<lambda>t. snd (snd t) \<noteq> e) (sg_started w)"
    proof (rule filter_cong [OF refl])
      fix t assume "t \<in> set (sg_started w)"
      with eq show "(case t of (h, s, e) \<Rightarrow> h \<noteq> k) = (snd (snd t) \<noteq> e)" by (cases t) simp
    qed
    have c: "close_entry e w = w\<lparr>sg_objects := (sg_objects w)(e := (sg_objects w e)\<lparr>sn_handle := None\<rparr>),
       sg_started := filter (\<lambda>t. snd (snd t) \<noteq> e) (sg_started w), sg_uv_closed := sg_uv_closed w @ [k]\<rparr>"
      using Some k f by (simp add: close_entry_def)
    have "fst ` set (filter (\<lambda>t. snd (snd t) \<noteq> e) (sg_started w)) = fst ` set (sg_started w) - {k}"
    proof (intro equalityI subsetI)
      fix h assume "h \<in> fst ` set (sg_started w) - {k}"
      then obtain a e' where t: "(h, a, e') \<in> set (sg_started w)" "h \<noteq> k" by auto
      with eq have "e' \<noteq> e" by blast
      with t show "h \<in> fst ` set (filter (\<lambda>t. snd (snd t) \<noteq> e) (sg_started w))" by (auto intro!: image_eqI [of _ _ "(h, a, e')"])
    qed (use eq in \<open>auto dest: iffD1 [OF eq, OF _ refl]\<close>)
    moreover have "k \<in> fst ` set (sg_started w)" using s by force
    ultimately show ?thesis unfolding c using assms k eq unfolding handles_live_def by (auto simp: distinct_map_filter)
  qed
  then show "handles_live (close_entry e w)" and "sg_started (close_entry e w) = filter (\<lambda>t. snd (snd t) \<noteq> e) (sg_started w)"
    and "sg_freed (close_entry e w) = sg_freed w" by blast+
qed

lemma close_entries_live:
  assumes "handles_live w"
  shows "handles_live (fold close_entry es w) \<and> sg_started (fold close_entry es w) = filter (\<lambda>t. snd (snd t) \<notin> set es) (sg_started w) \<and>
    sg_freed (fold close_entry es w) = sg_freed w \<and>
    sg_state (fold close_entry es w) = sg_state w \<and> sg_closed (fold close_entry es w) = sg_closed w \<and>
    sg_entries (fold close_entry es w) = sg_entries w \<and> sg_rt (fold close_entry es w) = sg_rt w \<and>
    sg_events (fold close_entry es w) = sg_events w"
  using assms
proof (induction es arbitrary: w)
  case (Cons e es)
  from Cons.IH [OF close_entry_live(1) [OF Cons.prems, of e]] show ?case
    by (auto simp: close_entry_live(2,3) [OF Cons.prems] intro!: filter_cong)
qed simp

section \<open>The simulation\<close>

definition signal_sim :: "signal_world \<Rightarrow> signal_spec \<Rightarrow> bool" where
  "signal_sim w p \<longleftrightarrow> handles_live w \<and> sg_state w = sp_open p \<and> sg_closed w = (\<not> sp_open p) \<and>
     ch_sim (sg_events w) (sp_events p) \<and> ff_capacity (sp_events p) = 0 \<and> ff_closed (sp_events p) = (\<not> sp_open p) \<and>
     sp_signals p = set (map fst (sg_entries w)) \<and> distinct (map fst (sg_entries w)) \<and> distinct (map snd (sg_entries w)) \<and>
     (if sp_open p then rt_queue (sg_rt w) = [] \<and> map snd (sg_started w) = sg_entries w
      else sg_entries w = [] \<and> (rt_shutting_down (sg_rt w) \<or> (\<forall>t\<in>set (sg_started w). \<exists>es\<in>set (rt_queue (sg_rt w)). snd (snd t) \<in> set es)))"

text \<open>The events a client may cause: it only reads from the channel.\<close>

fun signal_enabled :: "signal_event \<Rightarrow> signal_world \<Rightarrow> signal_spec \<Rightarrow> bool" where
  "signal_enabled (Sg_client ev) w p \<longleftrightarrow> receiving ev \<and> ch_enabled ev (sg_events w) (sp_events p)"
| "signal_enabled ev w p \<longleftrightarrow> True"

definition signal_sound :: "signal_outcome \<times> signal_world \<Rightarrow> signal_outcome \<times> signal_spec \<Rightarrow> bool" where
  "signal_sound a b \<longleftrightarrow> fst a = fst b \<and> signal_sim (snd a) (snd b)"

lemma signal_sim_new:
  assumes "rt_queue rt = []"
  shows "signal_sim (signal_set_new rt) \<lparr>sp_open = True, sp_signals = {}, sp_events = new_fifo 0\<rparr>"
proof -
  have "ch_sim (new_chan_world 0) (new_fifo 0)" unfolding new_fifo_def by (rule ch_sim_new)
  with assms show ?thesis by (simp add: signal_sim_def signal_set_new_def handles_live_def new_fifo_def)
qed

lemma closed_events: "signal_sim w p \<Longrightarrow> channel_is_closed (sg_events w) = (\<not> sp_open p)"
  by (auto simp: signal_sim_def ch_sim_def channel_is_closed_def)

lemma sim_started:
  assumes "signal_sim w p" and "sp_open p"
  shows "t \<in> set (sg_started w) \<Longrightarrow> snd t \<in> set (sg_entries w)" and "q \<in> set (sg_entries w) \<Longrightarrow> snd q < sg_count w"
proof -
  have e: "set (sg_entries w) = snd ` set (sg_started w)" using assms by (auto simp: signal_sim_def simp flip: set_map)
  then show "t \<in> set (sg_started w) \<Longrightarrow> snd t \<in> set (sg_entries w)" by simp
  show "snd q < sg_count w" if "q \<in> set (sg_entries w)" using that assms unfolding e by (auto simp: signal_sim_def handles_live_def)
qed

lemma registered_iff: "signal_sim w p \<Longrightarrow> map_of (sg_entries w) s \<noteq> None \<longleftrightarrow> s \<in> sp_signals p"
  by (auto simp: signal_sim_def map_of_eq_None_iff)

text \<open>A new entry, whose handle may not start.\<close>

lemma handles_live_entry:
  assumes "handles_live w" and "e = sg_count w"
  shows "handles_live (w\<lparr>sg_count := Suc e, sg_objects := (sg_objects w)(e := \<lparr>sn_handle = None, sn_signum = n\<rparr>)\<rparr>)"
    and "handles_live (w\<lparr>sg_count := Suc e,
      sg_objects := (sg_objects w)(e := \<lparr>sn_handle = None, sn_signum = n\<rparr>), sg_next := Suc (sg_next w),
      sg_freed := sg_freed w @ [sg_next w]\<rparr>)"
    and "handles_live (w\<lparr>sg_count := Suc e, sg_next := Suc (sg_next w), sg_started := sg_started w @ [(sg_next w, n, e)],
      sg_objects := (sg_objects w)(e := \<lparr>sn_handle = Some (sg_next w), sn_signum = n\<rparr>), sg_entries := es\<rparr>)"
proof -
  have n: "e' < sg_count w" "e' < Suc (sg_count w)" "e' \<noteq> e" if "(h, s, e') \<in> set (sg_started w)" for h s e'
    using assms that by (auto simp: handles_live_def)
  show "handles_live (w\<lparr>sg_count := Suc e, sg_objects := (sg_objects w)(e := \<lparr>sn_handle = None, sn_signum = n\<rparr>)\<rparr>)"
    using assms(1) n unfolding handles_live_def assms(2) by (simp, auto)
  show "handles_live (w\<lparr>sg_count := Suc e,
      sg_objects := (sg_objects w)(e := \<lparr>sn_handle = None, sn_signum = n\<rparr>), sg_next := Suc (sg_next w),
      sg_freed := sg_freed w @ [sg_next w]\<rparr>)"
    using assms(1) n unfolding handles_live_def assms(2) by (simp add: lessThan_Suc, auto)
  show "handles_live (w\<lparr>sg_count := Suc e, sg_next := Suc (sg_next w), sg_started := sg_started w @ [(sg_next w, n, e)],
      sg_objects := (sg_objects w)(e := \<lparr>sn_handle = Some (sg_next w), sn_signum = n\<rparr>), sg_entries := es\<rparr>)"
    using assms(1) n unfolding handles_live_def assms(2) by (simp add: lessThan_Suc, auto)
qed

lemma sim_add:
  assumes s: "signal_sim w p"
  shows "signal_sound (signal_step (Sg_add stop signum i st) w) (spec_step (Sg_add stop signum i st) p)"
proof -
  have g: "handles_live w" "sg_state w = sp_open p" "sg_closed w = (\<not> sp_open p)" using s by (simp_all add: signal_sim_def)
  note r = registered_iff [OF s, of signum]
  consider "\<not> sp_open p" | "sp_open p" "stop" | "sp_open p" "\<not> stop" "signum \<in> sp_signals p"
    | rc where "sp_open p" "\<not> stop" "signum \<notin> sp_signals p" "i = Uv_err rc"
    | rc where "sp_open p" "\<not> stop" "signum \<notin> sp_signals p" "i = Uv_ok" "st = Uv_err rc"
    | "sp_open p" "\<not> stop" "signum \<notin> sp_signals p" "i = Uv_ok" "st = Uv_ok"
    by (cases i; cases st; blast)
  then show ?thesis
  proof cases
    case 4
    with s g r handles_live_entry(1) [OF g(1) refl, of signum] show ?thesis
      by (simp add: signal_sound_def signal_add_def signal_add_call_def signal_sim_def Let_def)
  next
    case 5
    with s g r handles_live_entry(2) [OF g(1) refl, of signum] show ?thesis
      by (simp add: signal_sound_def signal_add_def signal_add_call_def signal_sim_def Let_def)
  next
    case 6
    have "sg_count w \<notin> snd ` set (sg_entries w)" using sim_started(2) [OF s 6(1)] by force
    with 6 s g r handles_live_entry(3) [OF g(1) refl, where n = signum and es = "sg_entries w @ [(signum, sg_count w)]"] show ?thesis
      by (simp add: signal_sound_def signal_add_def signal_add_call_def signal_sim_def Let_def)
  qed (use s g r in \<open>simp_all add: signal_sound_def signal_add_def signal_add_call_def signal_sim_def\<close>)
qed

text \<open>What the fold over the entries does to the relation.\<close>

lemma sim_remove:
  assumes s: "signal_sim w p"
  shows "signal_sound (signal_step (Sg_remove stop signum) w) (spec_step (Sg_remove stop signum) p)"
proof (cases "\<not> stop \<and> sp_open p \<and> signum \<in> sp_signals p")
  case False
  with s registered_iff [OF s, of signum] show ?thesis
    by (cases "map_of (sg_entries w) signum") (auto simp: signal_sound_def signal_remove_def signal_sim_def)
next
  case True
  with registered_iff [OF s, of signum] obtain e where e: "map_of (sg_entries w) signum = Some e" by auto
  let ?w = "w\<lparr>sg_entries := filter (\<lambda>p. fst p \<noteq> signum) (sg_entries w)\<rparr>"
  have g: "handles_live ?w" using s by (simp add: signal_sim_def handles_live_def)
  have d: "distinct (map fst (sg_entries w))" "distinct (map snd (sg_entries w))" "sg_entries w = map snd (sg_started w)"
    using s True by (auto simp: signal_sim_def)
  have "snd q \<noteq> e \<longleftrightarrow> fst q \<noteq> signum" if "q \<in> set (sg_entries w)" for q
  proof -
    have "inj_on fst (set (sg_entries w))" "inj_on snd (set (sg_entries w))" using d(1,2) by (simp_all add: distinct_map)
    from inj_on_eq_iff [OF this(1) that map_of_SomeD [OF e]] inj_on_eq_iff [OF this(2) that map_of_SomeD [OF e]] show ?thesis by simp
  qed
  then have "filter (\<lambda>p. fst p \<noteq> signum) (sg_entries w) = filter (\<lambda>p. snd p \<noteq> e) (sg_entries w)" by (intro filter_cong) auto
  also have "\<dots> = map snd (filter (\<lambda>t. snd (snd t) \<noteq> e) (sg_started w))" by (simp add: d(3) filter_map comp_def)
  finally have st: "filter (\<lambda>p. fst p \<noteq> signum) (sg_entries w) = map snd (filter (\<lambda>t. snd (snd t) \<noteq> e) (sg_started w))" .
  note st = st [symmetric]
  have f: "set (map fst (filter (\<lambda>p. fst p \<noteq> signum) (sg_entries w))) = sp_signals p - {signum}"
    using s by (auto simp: signal_sim_def)
  from s True e d f close_entry_live [OF g, of e] st show ?thesis
    by (simp add: signal_sound_def signal_remove_def signal_sim_def distinct_map_filter)
qed

lemma sim_clear:
  assumes s: "signal_sim w p"
  shows "signal_sound (signal_step (Sg_clear stop) w) (spec_step (Sg_clear stop) p)"
proof (cases "\<not> stop \<and> sp_open p")
  case False
  with s show ?thesis by (auto simp: signal_sound_def signal_clear_def signal_sim_def)
next
  case True
  let ?w = "w\<lparr>sg_entries := []\<rparr>"
  have g: "handles_live ?w" using s by (simp add: signal_sim_def handles_live_def)
  have "set (sg_entries w) = snd ` set (sg_started w)" using s True by (auto simp: signal_sim_def simp flip: set_map)
  then have "filter (\<lambda>t. snd (snd t) \<notin> set (map snd (sg_entries w))) (sg_started w) = []" by (auto simp: filter_empty_conv)
  with s True close_entries_live [OF g, of "map snd (sg_entries w)"] show ?thesis
    by (simp add: signal_sound_def signal_clear_def signal_sim_def)
qed

lemma sim_close:
  assumes s: "signal_sim w p"
  shows "signal_sound (signal_step Sg_close w) (spec_step Sg_close p)"
proof (cases "sp_open p")
  case False
  with s closed_events [OF s] show ?thesis by (auto simp: signal_sound_def signal_close_def signal_sim_def)
next
  case True
  from s have c: "ch_sim (sg_events w) (sp_events p)" by (simp add: signal_sim_def)
  obtain r c' where e: "close_channel (sg_events w) = (r, c')" by (rule prod.exhaust)
  from notifications.shut_sim [OF c] e have r: "r = Inr ()" and c': "ch_sim c' (snd (fifo_step Ce_close (sp_events p)))" by simp_all
  have "handles_live (w\<lparr>sg_state := False, sg_closed := True, sg_events := c', sg_entries := [], sg_rt := rt\<rparr>)" for rt
    using s by (simp add: signal_sim_def handles_live_def)
  moreover have "snd (snd t) \<in> set (map snd (sg_entries w))" if "t \<in> set (sg_started w)" for t
    using sim_started(1) [OF s True that] by auto
  ultimately show ?thesis using s True e r c'
    by (simp add: signal_sound_def signal_close_def signal_sim_def post_queue)
qed

lemma sim_job:
  assumes s: "signal_sim w p"
  shows "signal_sound (signal_step Sg_job w) (spec_step Sg_job p)"
proof (cases "rt_queue (sg_rt w)")
  case Nil
  with s show ?thesis by (simp add: signal_sound_def signal_run_job_def)
next
  case (Cons es js)
  let ?w = "w\<lparr>sg_rt := (sg_rt w)\<lparr>rt_queue := js\<rparr>\<rparr>"
  have g: "handles_live ?w" using s by (simp add: signal_sim_def handles_live_def)
  from s Cons have "\<not> sp_open p" by (auto simp: signal_sim_def)
  moreover have "rt_shutting_down (sg_rt w) \<or> (\<forall>t\<in>set (sg_started w). snd (snd t) \<in> set es \<or> (\<exists>es\<in>set js. snd (snd t) \<in> set es))"
    using s Cons calculation by (simp add: signal_sim_def)
  then have "rt_shutting_down (sg_rt w) \<or>
      (\<forall>t\<in>set (filter (\<lambda>t. snd (snd t) \<notin> set es) (sg_started w)). \<exists>es\<in>set js. snd (snd t) \<in> set es)"
    unfolding set_filter by blast
  ultimately show ?thesis using s Cons close_entries_live [OF g, of es]
    by (simp add: signal_sound_def signal_run_job_def signal_sim_def)
qed

text \<open>libuv watches a registered signal with one handle.\<close>

lemma one_handle:
  assumes "signal_sim w p" and "sp_open p"
  shows "length (filter (\<lambda>(h, s, e). s = signum) (sg_started w)) = (if signum \<in> sp_signals p then 1 else 0)"
proof -
  have d: "distinct (map fst (map snd (sg_started w)))" and p: "sp_signals p = set (map fst (map snd (sg_started w)))"
    using assms by (simp_all add: signal_sim_def)
  have "length (filter (\<lambda>(h, s, e). s = signum) ts) = (if signum \<in> set (map fst (map snd ts)) then 1 else 0)"
    if "distinct (map fst (map snd ts))" for ts :: "(nat \<times> int \<times> nat) list"
    using that
  proof (induction ts)
    case (Cons t ts)
    then show ?case by (cases t) (auto simp: filter_empty_conv image_iff)
  qed simp
  from this [OF d] show ?thesis by (simp only: p)
qed

lemma sim_signal:
  assumes s: "signal_sim w p"
  shows "signal_sound (signal_step (Sg_signal signum) w) (spec_step (Sg_signal signum) p)"
proof (cases "sp_open p")
  case False
  with s have c: "on_signal signum w = w" "sp_signals p = {}" by (auto simp: on_signal_def signal_sim_def)
  have "fold (\<lambda>_ w. on_signal signum w) xs w = w" for xs :: "(nat \<times> int \<times> nat) list"
    using c(1) by (induction xs) simp_all
  with s c(2) show ?thesis by (simp add: signal_sound_def deliver_signal_def)
next
  case True
  show ?thesis
  proof (cases "signum \<in> sp_signals p")
    case False
    with one_handle [OF s True, of signum] s show ?thesis by (simp add: signal_sound_def deliver_signal_def)
  next
    case reg: True
    with one_handle [OF s True, of signum] obtain t where "filter (\<lambda>(h, s, e). s = signum) (sg_started w) = [t]"
      by (auto simp: length_Suc_conv)
    then have e: "deliver_signal signum w = w\<lparr>sg_events := snd (try_send True signum (sg_events w))\<rparr>"
      using s True by (simp add: deliver_signal_def on_signal_def signal_sim_def)
    have c: "ch_sim (sg_events w) (sp_events p)" "ff_capacity (sp_events p) = 0" "\<not> ff_closed (sp_events p)"
      using s True by (simp_all add: signal_sim_def)
    have "handles_live (w\<lparr>sg_events := x\<rparr>)" for x using s by (simp add: signal_sim_def handles_live_def)
    with s True reg e notifications.send_open [OF c, of signum] show ?thesis by (simp add: signal_sound_def signal_sim_def)
  qed
qed

lemma sim_client:
  assumes s: "signal_sim w p" and "receiving ev" and "ch_enabled ev (sg_events w) (sp_events p)"
  shows "signal_sound (signal_step (Sg_client ev) w) (spec_step (Sg_client ev) p)"
proof -
  have c: "ch_sim (sg_events w) (sp_events p)" using s by (simp add: signal_sim_def)
  obtain r c' where a: "ch_step ev (sg_events w) = (r, c')" by (rule prod.exhaust)
  obtain q f where b: "fifo_step ev (sp_events p) = (q, f)" by (rule prod.exhaust)
  have "handles_live (w\<lparr>sg_events := x\<rparr>)" for x using s by (simp add: signal_sim_def handles_live_def)
  with s a b receiving_sim [OF c assms(3)] receiving_keeps [OF assms(2), of "sp_events p"] show ?thesis
    by (simp add: signal_sound_def signal_sim_def)
qed

lemma sim_step:
  assumes "signal_sim w p" and "signal_enabled ev w p"
  shows "signal_sound (signal_step ev w) (spec_step ev p)"
proof (cases ev)
  case (Sg_contains signum)
  have "signal_contains signum w \<longleftrightarrow> signum \<in> sp_signals p"
    using registered_iff [OF assms(1), of signum] assms(1) by (auto simp: signal_contains_def signal_sim_def)
  with assms(1) Sg_contains show ?thesis by (simp add: signal_sound_def)
next
  case Sg_registered
  have "signal_registered w = sorted_list_of_set (sp_signals p)"
    using assms(1) sorted_list_of_set_sort_remdups [of "map fst (sg_entries w)"]
    by (cases "sp_open p") (simp_all add: signal_registered_def signal_sim_def distinct_remdups_id)
  with assms(1) Sg_registered show ?thesis by (simp add: signal_sound_def)
qed (use assms sim_add sim_remove sim_clear sim_close sim_job sim_signal sim_client in \<open>simp_all del: signal_step.simps spec_step.simps\<close>)

section \<open>Runs\<close>

fun signal_run :: "signal_event list \<Rightarrow> signal_world \<Rightarrow> signal_outcome list \<times> signal_world" where
  "signal_run [] w = ([], w)"
| "signal_run (ev # evs) w = (case signal_step ev w of (r, w) \<Rightarrow> (case signal_run evs w of (rs, w) \<Rightarrow> (r # rs, w)))"

fun spec_run :: "signal_event list \<Rightarrow> signal_spec \<Rightarrow> signal_outcome list \<times> signal_spec" where
  "spec_run [] p = ([], p)"
| "spec_run (ev # evs) p = (case spec_step ev p of (r, p) \<Rightarrow> (case spec_run evs p of (rs, p) \<Rightarrow> (r # rs, p)))"

fun signal_runnable :: "signal_event list \<Rightarrow> signal_world \<Rightarrow> signal_spec \<Rightarrow> bool" where
  "signal_runnable [] w p = True"
| "signal_runnable (ev # evs) w p \<longleftrightarrow> signal_enabled ev w p \<and> signal_runnable evs (snd (signal_step ev w)) (snd (spec_step ev p))"

definition signal_spec_new :: signal_spec where
  "signal_spec_new = \<lparr>sp_open = True, sp_signals = {}, sp_events = new_fifo 0\<rparr>"

lemma sim_runs:
  "signal_sim w p \<Longrightarrow> signal_runnable evs w p \<Longrightarrow>
   fst (signal_run evs w) = fst (spec_run evs p) \<and> signal_sim (snd (signal_run evs w)) (snd (spec_run evs p))"
proof (induction evs arbitrary: w p)
  case (Cons ev evs)
  from sim_step [OF Cons.prems(1)] Cons.prems(2) have h: "signal_sound (signal_step ev w) (spec_step ev p)" by simp
  then have "signal_sim (snd (signal_step ev w)) (snd (spec_step ev p))" by (simp add: signal_sound_def)
  from Cons.IH [OF this] Cons.prems(2) h show ?case by (simp add: signal_sound_def case_prod_beta)
qed simp

text \<open>
  C33. \<open>signal_set\<close> refines its specification: after any additions (also ones that libuv refuses),
  removals, clears, queries, closes, jobs, arriving signals and reads by clients, every outcome is
  that of a set of signals with a FIFO of notifications, to which a signal that arrives is appended
  once if it is registered and not at all otherwise.
\<close>

theorem signal_set_refines:
  assumes "rt_queue rt = []" and "signal_runnable evs (signal_set_new rt) signal_spec_new"
    and "signal_run evs (signal_set_new rt) = (outs, w)" and "spec_run evs signal_spec_new = (outs', p)"
  shows "outs = outs' \<and> content (cw_ch (sg_events w)) = ff_queue (sp_events p) \<and> live_receivers (cw_ch (sg_events w)) = ff_waiting (sp_events p)"
proof -
  from sim_runs [OF signal_sim_new [OF assms(1), folded signal_spec_new_def] assms(2)] assms(3,4)
  have "outs = outs'" "signal_sim w p" by simp_all
  then show ?thesis using ch_sim_parts [of "sg_events w" "sp_events p"] by (simp add: signal_sim_def)
qed

text \<open>A client that only calls \<open>try_recv\<close>.\<close>

definition only_tries :: "signal_event \<Rightarrow> bool" where
  "only_tries ev = (case ev of Sg_client c \<Rightarrow> (case c of Ce_try_recv b \<Rightarrow> True | _ \<Rightarrow> False) | _ \<Rightarrow> True)"

lemma only_tries_runnable: "list_all only_tries evs \<Longrightarrow> signal_runnable evs w p"
proof (induction evs arbitrary: w p)
  case (Cons ev evs)
  then have "\<And>p. signal_enabled ev w p" by (cases ev) (auto simp: only_tries_def split: ch_event.splits)
  with Cons show ?case by simp
qed simp

definition signal_demo :: "signal_event list" where
  "signal_demo = [Sg_add False 2 Uv_ok Uv_ok, Sg_add False 9 Uv_ok (Uv_err (UV_other 22)), Sg_add False 15 Uv_ok Uv_ok,
     Sg_signal 2, Sg_signal 9, Sg_remove False 2, Sg_signal 2, Sg_signal 15, Sg_registered, Sg_client (Ce_try_recv True),
     Sg_close, Sg_job, Sg_signal 15, Sg_client (Ce_try_recv True), Sg_contains 15]"

theorem signal_set_refines_witness:
  "fst (signal_run signal_demo (signal_set_new new_runtime)) =
     [So_unit (Inr ()), So_unit (Inl (Uv_error (UV_other 22) ''uv_signal_start'')), So_unit (Inr ()), So_none, So_none, So_unit (Inr ()),
      So_none, So_none, So_list [15], So_channel (Oc_taken (Inr (Some 2))), So_unit (Inr ()), So_none, So_none,
      So_channel (Oc_taken (Inr (Some 15))), So_bool False]"
proof -
  have "signal_runnable signal_demo (signal_set_new new_runtime) signal_spec_new"
    by (rule only_tries_runnable) (simp add: signal_demo_def only_tries_def)
  from signal_set_refines [OF _ this surjective_pairing surjective_pairing]
  have "fst (signal_run signal_demo (signal_set_new new_runtime)) = fst (spec_run signal_demo signal_spec_new)" by simp
  also have "\<dots> = [So_unit (Inr ()), So_unit (Inl (Uv_error (UV_other 22) ''uv_signal_start'')), So_unit (Inr ()), So_none, So_none, So_unit (Inr ()),
      So_none, So_none, So_list [15], So_channel (Oc_taken (Inr (Some 2))), So_unit (Inr ()), So_none, So_none,
      So_channel (Oc_taken (Inr (Some 15))), So_bool False]"
    by (simp add: signal_demo_def signal_spec_new_def new_fifo_def ff_put_def insert_Diff_if)
  finally show ?thesis .
qed

section \<open>Where the handles go\<close>

text \<open>The handles that a run has started, with their signals and entries; and a failure to start.\<close>

definition newly_started :: "signal_event \<Rightarrow> signal_world \<Rightarrow> (nat \<times> int \<times> nat) list" where
  "newly_started ev w = filter (\<lambda>t. t \<notin> set (sg_started w)) (sg_started (snd (signal_step ev w)))"

fun handles_started :: "signal_event list \<Rightarrow> signal_world \<Rightarrow> (nat \<times> int \<times> nat) list" where
  "handles_started [] w = []"
| "handles_started (ev # evs) w = newly_started ev w @ handles_started evs (snd (signal_step ev w))"

fun start_failed :: "signal_outcome \<Rightarrow> bool" where
  "start_failed (So_unit (Inl (Uv_error rc op_name))) \<longleftrightarrow> op_name = ''uv_signal_start''"
| "start_failed r \<longleftrightarrow> False"

text \<open>The handles that libuv has once started: those not deleted.\<close>

definition not_freed :: "signal_world \<Rightarrow> nat set" where
  "not_freed w = {..<sg_next w} - set (sg_freed w)"

lemma not_freed_eq: "handles_live w \<Longrightarrow> not_freed w = fst ` set (sg_started w) \<union> set (sg_uv_closed w)"
  unfolding handles_live_def not_freed_def by auto

lemma fold_close_next: "sg_next (fold close_entry es w) = sg_next w"
  by (induction es arbitrary: w) simp_all

lemma on_signal_sel:
  "sg_started (on_signal s w) = sg_started w" "sg_freed (on_signal s w) = sg_freed w" "sg_next (on_signal s w) = sg_next w"
  by (simp_all add: on_signal_def)

lemma deliver_signal_sel:
  "sg_started (deliver_signal s w) = sg_started w" "sg_freed (deliver_signal s w) = sg_freed w" "sg_next (deliver_signal s w) = sg_next w"
proof -
  have "sg_started (fold (\<lambda>_ w. on_signal s w) xs w) = sg_started w \<and> sg_freed (fold (\<lambda>_ w. on_signal s w) xs w) = sg_freed w \<and>
      sg_next (fold (\<lambda>_ w. on_signal s w) xs w) = sg_next w" for xs :: "(nat \<times> int \<times> nat) list"
    by (induction xs arbitrary: w) (simp_all add: on_signal_sel)
  then show "sg_started (deliver_signal s w) = sg_started w" "sg_freed (deliver_signal s w) = sg_freed w"
    "sg_next (deliver_signal s w) = sg_next w" by (simp_all add: deliver_signal_def)
qed

text \<open>Only \<open>add\<close> starts handles, and only its failures delete any.\<close>

lemma other_step_handles:
  assumes "handles_live w" and "\<And>stop s i st. ev \<noteq> Sg_add stop s i st"
  shows "sg_freed (snd (signal_step ev w)) = sg_freed w \<and> sg_next (snd (signal_step ev w)) = sg_next w \<and>
    set (sg_started (snd (signal_step ev w))) \<subseteq> set (sg_started w)"
proof -
  have l: "handles_live (w\<lparr>sg_entries := es\<rparr>)" "handles_live (w\<lparr>sg_rt := rt\<rparr>)" for es rt
    using assms(1) by (simp_all add: handles_live_def)
  show ?thesis
  proof (cases ev)
    case (Sg_remove stop s)
    then show ?thesis by (auto simp: signal_remove_def close_entry_live [OF l(1)] split: option.split)
  next
    case (Sg_clear stop)
    then show ?thesis using close_entries_live [OF l(1), of "map snd (sg_entries w)" "[]"]
      by (auto simp: signal_clear_def fold_close_next)
  next
    case Sg_close
    then show ?thesis by (auto simp: signal_close_def split: prod.split sum.split)
  next
    case Sg_job
    then show ?thesis using close_entries_live [OF l(2)]
      by (auto simp: signal_run_job_def fold_close_next split: list.split)
  next
    case (Sg_client c)
    then show ?thesis by (simp split: prod.split)
  qed (use assms(2) in \<open>simp_all add: deliver_signal_sel\<close>)
qed

lemma add_step_handles:
  assumes "handles_live w"
  shows "not_freed (snd (signal_add stop s i st w)) = not_freed w \<union>
      fst ` set (filter (\<lambda>t. t \<notin> set (sg_started w)) (sg_started (snd (signal_add stop s i st w)))) \<and>
    length (sg_freed (snd (signal_add stop s i st w))) =
      length (sg_freed w) + (if start_failed (So_unit (fst (signal_add stop s i st w))) then 1 else 0)"
proof -
  have n: "sg_next w \<notin> set (sg_freed w)" "sg_next w \<notin> fst ` set (sg_started w)"
    using assms unfolding handles_live_def by auto
  from n(2) have "(sg_next w, s', e) \<notin> set (sg_started w)" for s' e by force
  then have "filter (\<lambda>t. t \<notin> set (sg_started w)) (sg_started w @ [(sg_next w, s', e)]) = [(sg_next w, s', e)]" for s' e
    by simp
  with n(1) show ?thesis
    by (cases i; cases st)
      (auto simp: signal_add_def signal_add_call_def not_freed_def lessThan_Suc Let_def simp del: set_filter filter_append)
qed

lemma step_handles:
  assumes "signal_sim w p" and "signal_enabled ev w p"
  shows "not_freed (snd (signal_step ev w)) = not_freed w \<union> fst ` set (newly_started ev w) \<and>
    length (sg_freed (snd (signal_step ev w))) = length (sg_freed w) + (if start_failed (fst (signal_step ev w)) then 1 else 0)"
proof -
  have l: "handles_live w" using assms(1) by (simp add: signal_sim_def)
  show ?thesis
  proof (cases "\<exists>stop s i st. ev = Sg_add stop s i st")
    case True
    then obtain stop s i st where "ev = Sg_add stop s i st" by blast
    with add_step_handles [OF l, of stop s i st] show ?thesis by (simp add: newly_started_def case_prod_beta)
  next
    case False
    then have f: "fst (signal_step ev w) = fst (spec_step ev p)"
      using sim_step [OF assms] by (simp add: signal_sound_def)
    have "\<not> start_failed (fst (spec_step ev p))" using False by (cases ev) (simp_all add: case_prod_beta)
    with f other_step_handles [OF l, of ev] False show ?thesis
      by (auto simp: not_freed_def newly_started_def)
  qed
qed

lemma run_handles:
  "signal_sim w p \<Longrightarrow> signal_runnable evs w p \<Longrightarrow>
     not_freed (snd (signal_run evs w)) = not_freed w \<union> fst ` set (handles_started evs w) \<and>
     length (sg_freed (snd (signal_run evs w))) = length (sg_freed w) + length (filter start_failed (fst (signal_run evs w)))"
proof (induction evs arbitrary: w p)
  case (Cons ev evs)
  then have e: "signal_enabled ev w p" "signal_runnable evs (snd (signal_step ev w)) (snd (spec_step ev p))" by simp_all
  from sim_step [OF Cons.prems(1) e(1)] have "signal_sim (snd (signal_step ev w)) (snd (spec_step ev p))" by (simp add: signal_sound_def)
  from Cons.IH [OF this e(2)] step_handles [OF Cons.prems(1) e(1)] show ?case
    by (simp add: case_prod_beta image_Un Un_assoc)
qed simp

text \<open>
  C34. The registry and libuv agree: whatever happens, an open set has its signals at most once and for
  each of them one started handle, whose data is the signal's entry, and no other handle is started.
  The handles closed through libuv, each once, are exactly those that a run has started and that belong
  to no registered signal any more (or, in a closed set, whose job has run); those deleted are as many
  as the calls of \<open>add\<close> that failed with \<open>uv_signal_start\<close>; there are no others. A closed set has no
  started handle any more once its job has run.
\<close>

theorem signal_registry_exact:
  assumes "rt_queue rt = []" and "signal_runnable evs (signal_set_new rt) signal_spec_new"
    and "signal_run evs (signal_set_new rt) = (outs, w)"
  shows "(sg_state w \<longrightarrow> map snd (sg_started w) = sg_entries w \<and> distinct (map fst (sg_entries w)) \<and>
      (\<forall>(h, s, e)\<in>set (sg_started w). sn_handle (sg_objects w e) = Some h)) \<and>
    set (sg_uv_closed w) = fst ` set (handles_started evs (signal_set_new rt)) - fst ` set (sg_started w) \<and>
    length (sg_freed w) = length (filter start_failed outs) \<and>
    distinct (map fst (sg_started w) @ sg_uv_closed w @ sg_freed w) \<and>
    set (map fst (sg_started w) @ sg_uv_closed w @ sg_freed w) = {..<sg_next w} \<and>
    (\<not> sg_state w \<longrightarrow> rt_queue (sg_rt w) = [] \<longrightarrow> \<not> rt_shutting_down (sg_rt w) \<longrightarrow> sg_started w = [])"
proof -
  note s0 = signal_sim_new [OF assms(1), folded signal_spec_new_def]
  from sim_runs [OF s0 assms(2)] assms(3)
  have s: "signal_sim w (snd (spec_run evs signal_spec_new))" by simp
  then have l: "handles_live w" by (simp add: signal_sim_def)
  have "not_freed (signal_set_new rt) = {}" "sg_freed (signal_set_new rt) = []" by (simp_all add: not_freed_def signal_set_new_def)
  with run_handles [OF s0 assms(2)] assms(3)
  have nf: "not_freed w = fst ` set (handles_started evs (signal_set_new rt))"
    and freed: "length (sg_freed w) = length (filter start_failed outs)" by simp_all
  have "fst ` set (sg_started w) \<inter> set (sg_uv_closed w) = {}" using l unfolding handles_live_def by auto
  with nf not_freed_eq [OF l]
  have closed: "set (sg_uv_closed w) = fst ` set (handles_started evs (signal_set_new rt)) - fst ` set (sg_started w)" by blast
  have "sg_state w \<Longrightarrow> map snd (sg_started w) = sg_entries w" "distinct (map fst (sg_entries w))"
    using s by (auto simp: signal_sim_def)
  moreover have "sg_started w = []" if "\<not> sg_state w" "rt_queue (sg_rt w) = []" "\<not> rt_shutting_down (sg_rt w)"
  proof -
    have "\<forall>t\<in>set (sg_started w). \<exists>es\<in>set (rt_queue (sg_rt w)). snd (snd t) \<in> set es"
      using s that by (simp add: signal_sim_def split: if_splits)
    moreover have "hd (sg_started w) \<in> set (sg_started w)" if "sg_started w \<noteq> []" using that by (rule hd_in_set)
    ultimately show ?thesis using that(2) by (metis empty_iff empty_set)
  qed
  ultimately show ?thesis using l closed freed unfolding handles_live_def by (intro conjI impI) blast+
qed

theorem signal_registry_exact_witness:
  "let w = snd (signal_run signal_demo (signal_set_new new_runtime))
   in set (map fst (sg_started w) @ sg_uv_closed w @ sg_freed w) = {..<sg_next w} \<and> distinct (sg_uv_closed w) \<and>
      set (sg_uv_closed w) = fst ` set (handles_started signal_demo (signal_set_new new_runtime)) - fst ` set (sg_started w)"
proof -
  let ?w = "snd (signal_run signal_demo (signal_set_new new_runtime))"
  have e: "rt_queue (new_runtime :: nat list uv_runtime) = []" by (simp add: new_runtime_def)
  have "signal_runnable signal_demo (signal_set_new new_runtime) signal_spec_new"
    by (rule only_tries_runnable) (simp add: signal_demo_def only_tries_def)
  from signal_registry_exact [OF e this surjective_pairing] have
    "set (map fst (sg_started ?w) @ sg_uv_closed ?w @ sg_freed ?w) = {..<sg_next ?w}"
    "distinct (map fst (sg_started ?w) @ sg_uv_closed ?w @ sg_freed ?w)"
    "set (sg_uv_closed ?w) = fst ` set (handles_started signal_demo (signal_set_new new_runtime)) - fst ` set (sg_started ?w)"
    by blast+
  then show ?thesis by (simp add: Let_def)
qed

text \<open>
  A defect: when \<open>uv_signal_start\<close> fails the handle is deleted, although \<open>uv_signal_init\<close> has put it into
  the loop's list of handles; \<open>close_entry\<close> closes its handles first.
\<close>

lemma signal_add_deletes_handle:
  assumes "sg_state w" and "\<not> sg_closed w" and "map_of (sg_entries w) signum = None"
  shows "sg_freed (snd (signal_add False signum Uv_ok (Uv_err rc) w)) = sg_freed w @ [sg_next w] \<and>
    sg_uv_closed (snd (signal_add False signum Uv_ok (Uv_err rc) w)) = sg_uv_closed w"
  using assms by (simp add: signal_add_def signal_add_call_def Let_def)

end
