(* ===== verification/Fs_Watch.thy ===== *)
theory Fs_Watch
  imports Notifications File_Ops
begin

text \<open>
  \<open>event_watcher\<close> and \<open>poll_watcher\<close> of \<open>src/fs_watch.cpp\<close>: one libuv handle each, whose callback puts
  notifications, labelled with the path that is watched, into a \<open>message_channel\<close>. Both classes keep
  the same state; \<open>poll_watcher\<close> adds an interval, so its record extends the common one, and what both
  do in the same way is defined on the common part.
\<close>

section \<open>Notifications\<close>

definition UV_RENAME :: "32 word" where "UV_RENAME = 1"
definition UV_CHANGE :: "32 word" where "UV_CHANGE = 2"

record event_notification =
  en_watch_path :: string
  en_filename :: string
  en_events :: "32 word"
  en_status :: uv_status

definition event_ok :: "event_notification \<Rightarrow> bool" where
  "event_ok n \<longleftrightarrow> \<not> uv_failed (en_status n)"

definition event_renamed :: "event_notification \<Rightarrow> bool" where
  "event_renamed n \<longleftrightarrow> and (en_events n) UV_RENAME \<noteq> 0"

definition event_changed :: "event_notification \<Rightarrow> bool" where
  "event_changed n \<longleftrightarrow> and (en_events n) UV_CHANGE \<noteq> 0"

text \<open>The times of modification, which the status queries of \<open>fs\<close> do not use.\<close>

record poll_stat = uv_stat +
  st_mtim_sec :: int
  st_mtim_nsec :: int

record poll_notification =
  pn_watch_path :: string
  pn_previous :: poll_stat
  pn_current :: poll_stat
  pn_status :: uv_status

definition poll_ok :: "poll_notification \<Rightarrow> bool" where
  "poll_ok n \<longleftrightarrow> \<not> uv_failed (pn_status n)"

definition size_changed :: "poll_notification \<Rightarrow> bool" where
  "size_changed n \<longleftrightarrow> st_size (pn_previous n) \<noteq> st_size (pn_current n)"

definition modified_time_changed :: "poll_notification \<Rightarrow> bool" where
  "modified_time_changed n \<longleftrightarrow> st_mtim_sec (pn_previous n) \<noteq> st_mtim_sec (pn_current n) \<or>
     st_mtim_nsec (pn_previous n) \<noteq> st_mtim_nsec (pn_current n)"

section \<open>State\<close>

text \<open>
  \<open>fw_handle\<close> says that the shared state still points to its handle; \<open>fw_closed\<close> and \<open>fw_state_path\<close> are
  fields of that state, \<open>fw_path\<close> and \<open>fw_active\<close> of the watcher. On libuv's side: what the handle
  watches, and how often it was closed. The only job is the one that \<open>close\<close> posts.
\<close>

record 'n fs_watcher =
  fw_handle :: bool
  fw_closed :: bool
  fw_state_path :: string
  fw_path :: string
  fw_active :: bool
  fw_events :: "'n chan_world"
  fw_rt :: "unit uv_runtime"
  fw_watching :: "(string \<times> 32 word) option"
  fw_uv_closes :: nat

record poll_watcher = "poll_notification fs_watcher" +
  pw_interval :: int

type_synonym event_watcher = "event_notification fs_watcher"

definition event_watcher_new :: "uv_status \<Rightarrow> unit uv_runtime \<Rightarrow> event_watcher result" where
  "event_watcher_new init_rc rt =
     (case init_rc of
        Uv_err rc \<Rightarrow> throw_uv_error rc ''uv_fs_event_init''
      | Uv_ok \<Rightarrow> Inr \<lparr>fw_handle = True, fw_closed = False, fw_state_path = [], fw_path = [], fw_active = False,
          fw_events = new_chan_world 0, fw_rt = rt, fw_watching = None, fw_uv_closes = 0\<rparr>)"

definition poll_watcher_new :: "uv_status \<Rightarrow> unit uv_runtime \<Rightarrow> poll_watcher result" where
  "poll_watcher_new init_rc rt =
     (case init_rc of
        Uv_err rc \<Rightarrow> throw_uv_error rc ''uv_fs_poll_init''
      | Uv_ok \<Rightarrow> Inr \<lparr>fw_handle = True, fw_closed = False, fw_state_path = [], fw_path = [], fw_active = False,
          fw_events = new_chan_world 0, fw_rt = rt, fw_watching = None, fw_uv_closes = 0, pw_interval = 0\<rparr>)"

section \<open>Operations\<close>

text \<open>
  The callbacks. libuv calls them while the handle watches; the event callback gets the file name, if
  there is one, the poll callback the previous and the current status of the file.
\<close>

definition on_event :: "string option \<times> 32 word \<times> uv_status \<Rightarrow> event_watcher \<Rightarrow> event_watcher" where
  "on_event = (\<lambda>(filename, events, status) w.
     if fw_closed w then w
     else w\<lparr>fw_events := snd (try_send True \<lparr>en_watch_path = fw_state_path w,
       en_filename = (case filename of Some f \<Rightarrow> f | None \<Rightarrow> []), en_events = events, en_status = status\<rparr> (fw_events w))\<rparr>)"

definition zero_stat :: poll_stat where
  "zero_stat = \<lparr>st_mode = 0, st_size = 0, st_mtim_sec = 0, st_mtim_nsec = 0\<rparr>"

definition on_poll :: "uv_status \<times> poll_stat option \<times> poll_stat option \<Rightarrow> poll_watcher \<Rightarrow> poll_watcher" where
  "on_poll = (\<lambda>(status, previous, current) w.
     if fw_closed w then w
     else w\<lparr>fw_events := snd (try_send True \<lparr>pn_watch_path = fw_state_path w,
       pn_previous = (case previous of Some p \<Rightarrow> p | None \<Rightarrow> zero_stat),
       pn_current = (case current of Some c \<Rightarrow> c | None \<Rightarrow> zero_stat), pn_status = status\<rparr> (fw_events w))\<rparr>)"

definition event_watcher_start :: "bool \<Rightarrow> string \<Rightarrow> 32 word \<Rightarrow> uv_status \<Rightarrow> event_watcher \<Rightarrow> unit result \<times> event_watcher" where
  "event_watcher_start stop_requested path flags start_rc w =
     (if \<not> fw_handle w then (Inl (Runtime_error ''fs event watcher is closed''), w)
      else if stop_requested then (Inl Operation_cancelled, w)
      else if fw_closed w then (Inl (Runtime_error ''fs event watcher is closed''), w)
      else
        let w = (if fw_state_path w = path then w\<lparr>fw_watching := None\<rparr>
                 else if fw_state_path w \<noteq> [] then w\<lparr>fw_watching := None\<rparr> else w)
        in (case start_rc of
              Uv_err rc \<Rightarrow> (throw_uv_error rc ''uv_fs_event_start'', w)
            | Uv_ok \<Rightarrow> (Inr (), w\<lparr>fw_watching := Some (path, flags), fw_state_path := path, fw_path := path, fw_active := True\<rparr>)))"

definition poll_watcher_start :: "bool \<Rightarrow> string \<Rightarrow> int \<Rightarrow> uv_status \<Rightarrow> poll_watcher \<Rightarrow> unit result \<times> poll_watcher" where
  "poll_watcher_start stop_requested path interval start_rc w =
     (if \<not> fw_handle w then (Inl (Runtime_error ''fs poll watcher is closed''), w)
      else if interval \<le> 0 then (Inl (Invalid_argument ''fs poll interval must be positive''), w)
      else if stop_requested then (Inl Operation_cancelled, w)
      else if fw_closed w then (Inl (Runtime_error ''fs poll watcher is closed''), w)
      else
        let w = w\<lparr>fw_watching := None\<rparr>
        in (case start_rc of
              Uv_err rc \<Rightarrow> (throw_uv_error rc ''uv_fs_poll_start'', w)
            | Uv_ok \<Rightarrow> (Inr (), w\<lparr>fw_watching := Some (path, word_of_int interval), fw_state_path := path,
                fw_path := path, pw_interval := interval, fw_active := True\<rparr>)))"

text \<open>\<open>stop\<close>, with the name of the libuv function for its error.\<close>

definition watcher_stop :: "string \<Rightarrow> bool \<Rightarrow> uv_status \<Rightarrow> ('n, 'm) fs_watcher_scheme \<Rightarrow> unit result \<times> ('n, 'm) fs_watcher_scheme" where
  "watcher_stop op_name stop_requested stop_rc w =
     (if stop_requested then (Inl Operation_cancelled, w)
      else if \<not> fw_handle w \<or> \<not> fw_active w then (Inr (), w)
      else if fw_closed w then (Inr (), w\<lparr>fw_active := False, fw_path := []\<rparr>)
      else (case stop_rc of
              Uv_err rc \<Rightarrow> (throw_uv_error rc op_name, w)
            | Uv_ok \<Rightarrow> (Inr (), w\<lparr>fw_watching := None, fw_state_path := [], fw_active := False, fw_path := []\<rparr>)))"

definition event_watcher_stop :: "bool \<Rightarrow> uv_status \<Rightarrow> event_watcher \<Rightarrow> unit result \<times> event_watcher" where
  "event_watcher_stop = watcher_stop ''uv_fs_event_stop''"

definition poll_watcher_stop :: "bool \<Rightarrow> uv_status \<Rightarrow> poll_watcher \<Rightarrow> unit result \<times> poll_watcher" where
  "poll_watcher_stop stop_requested stop_rc w =
     (case watcher_stop ''uv_fs_poll_stop'' stop_requested stop_rc w of
        (Inl e, w') \<Rightarrow> (Inl e, w')
      | (Inr u, w') \<Rightarrow> (Inr u, if \<not> fw_handle w \<or> \<not> fw_active w then w' else w'\<lparr>pw_interval := 0\<rparr>))"

definition watcher_close :: "('n, 'm) fs_watcher_scheme \<Rightarrow> unit result \<times> ('n, 'm) fs_watcher_scheme" where
  "watcher_close w =
     (if \<not> fw_handle w
      then (if channel_is_closed (fw_events w) then (Inr (), w\<lparr>fw_active := False, fw_path := []\<rparr>)
            else (case close_channel (fw_events w) of
                    (Inl e, c) \<Rightarrow> (Inl e, w\<lparr>fw_events := c\<rparr>)
                  | (Inr _, c) \<Rightarrow> (Inr (), w\<lparr>fw_events := c, fw_active := False, fw_path := []\<rparr>)))
      else
        let w = w\<lparr>fw_handle := False, fw_closed := True, fw_state_path := [], fw_active := False, fw_path := []\<rparr>
        in (case close_channel (fw_events w) of
              (Inl e, c) \<Rightarrow> (Inl e, w\<lparr>fw_events := c\<rparr>)
            | (Inr _, c) \<Rightarrow> (Inr (), w\<lparr>fw_events := c, fw_rt := snd (post () (fw_rt w))\<rparr>)))"

definition event_watcher_close :: "event_watcher \<Rightarrow> unit result \<times> event_watcher" where
  "event_watcher_close = watcher_close"

definition poll_watcher_close :: "poll_watcher \<Rightarrow> unit result \<times> poll_watcher" where
  "poll_watcher_close w = (case watcher_close w of (r, w') \<Rightarrow> (r, if fw_handle w \<or> r = Inr () then w'\<lparr>pw_interval := 0\<rparr> else w'))"

text \<open>The posted job stops and closes the handle.\<close>

definition watcher_run_job :: "('n, 'm) fs_watcher_scheme \<Rightarrow> ('n, 'm) fs_watcher_scheme" where
  "watcher_run_job w =
     (case rt_queue (fw_rt w) of
        [] \<Rightarrow> w
      | _ # js \<Rightarrow>
          (let w = w\<lparr>fw_rt := (fw_rt w)\<lparr>rt_queue := js\<rparr>\<rparr> in
           if fw_uv_closes w = 0 then w\<lparr>fw_watching := None, fw_uv_closes := 1\<rparr> else w))"

section \<open>Runs\<close>

text \<open>
  libuv reports a change only while the handle watches, with an argument of type \<open>'d\<close>. \<open>'a\<close> is the
  third argument of \<open>start\<close>, the flags or the interval.
\<close>

datatype ('a, 'd, 'n) watch_event =
    We_start bool string 'a uv_status
  | We_stop bool uv_status
  | We_close
  | We_job
  | We_report 'd
  | We_query
  | We_client "'n ch_event"

datatype 'n watch_outcome = Wo_unit "unit result" | Wo_state string bool | Wo_channel "'n ch_outcome" | Wo_none

definition watcher_client :: "'n ch_event \<Rightarrow> ('n, 'm) fs_watcher_scheme \<Rightarrow> 'n watch_outcome \<times> ('n, 'm) fs_watcher_scheme" where
  "watcher_client ev w = (case ch_step ev (fw_events w) of (r, c) \<Rightarrow> (Wo_channel r, w\<lparr>fw_events := c\<rparr>))"

fun event_step :: "(32 word, string option \<times> 32 word \<times> uv_status, event_notification) watch_event \<Rightarrow> event_watcher
    \<Rightarrow> event_notification watch_outcome \<times> event_watcher" where
  "event_step (We_start stop path flags rc) w = (case event_watcher_start stop path flags rc w of (r, w) \<Rightarrow> (Wo_unit r, w))"
| "event_step (We_stop stop rc) w = (case event_watcher_stop stop rc w of (r, w) \<Rightarrow> (Wo_unit r, w))"
| "event_step We_close w = (case event_watcher_close w of (r, w) \<Rightarrow> (Wo_unit r, w))"
| "event_step We_job w = (Wo_none, watcher_run_job w)"
| "event_step (We_report d) w = (Wo_none, if fw_watching w = None then w else on_event d w)"
| "event_step We_query w = (Wo_state (fw_path w) (fw_active w), w)"
| "event_step (We_client ev) w = watcher_client ev w"

fun poll_step :: "(int, uv_status \<times> poll_stat option \<times> poll_stat option, poll_notification) watch_event \<Rightarrow> poll_watcher
    \<Rightarrow> poll_notification watch_outcome \<times> poll_watcher" where
  "poll_step (We_start stop path interval rc) w = (case poll_watcher_start stop path interval rc w of (r, w) \<Rightarrow> (Wo_unit r, w))"
| "poll_step (We_stop stop rc) w = (case poll_watcher_stop stop rc w of (r, w) \<Rightarrow> (Wo_unit r, w))"
| "poll_step We_close w = (case poll_watcher_close w of (r, w) \<Rightarrow> (Wo_unit r, w))"
| "poll_step We_job w = (Wo_none, watcher_run_job w)"
| "poll_step (We_report d) w = (Wo_none, if fw_watching w = None then w else on_poll d w)"
| "poll_step We_query w = (Wo_state (fw_path w) (fw_active w), w)"
| "poll_step (We_client ev) w = watcher_client ev w"

end
