(* ===== verification/Fs_Watch_Refine.thy ===== *)
theory Fs_Watch_Refine
  imports Fs_Watch
begin

text \<open>
  The watchers refine a specification: at most one path is watched, each change that libuv reports for
  it becomes one notification with that path, in order, and nothing is notified after \<open>stop\<close> or
  \<open>close\<close>. The specification is shared; what differs between the two classes is a record.
\<close>

section \<open>The specification\<close>

record ('a, 'd, 'n) watch_kind =
  wk_closed :: string
  wk_start :: string
  wk_stop :: string
  wk_refuses :: "'a \<Rightarrow> exn option"
  wk_label :: "string \<Rightarrow> 'd \<Rightarrow> 'n"

definition event_kind :: "(32 word, string option \<times> 32 word \<times> uv_status, event_notification) watch_kind" where
  "event_kind = \<lparr>wk_closed = ''fs event watcher is closed'', wk_start = ''uv_fs_event_start'', wk_stop = ''uv_fs_event_stop'',
     wk_refuses = (\<lambda>_. None),
     wk_label = (\<lambda>path (filename, events, status). \<lparr>en_watch_path = path, en_filename = (case filename of Some f \<Rightarrow> f | None \<Rightarrow> []),
       en_events = events, en_status = status\<rparr>)\<rparr>"

definition poll_kind :: "(int, uv_status \<times> poll_stat option \<times> poll_stat option, poll_notification) watch_kind" where
  "poll_kind = \<lparr>wk_closed = ''fs poll watcher is closed'', wk_start = ''uv_fs_poll_start'', wk_stop = ''uv_fs_poll_stop'',
     wk_refuses = (\<lambda>interval. if interval \<le> 0 then Some (Invalid_argument ''fs poll interval must be positive'') else None),
     wk_label = (\<lambda>path (status, previous, current). \<lparr>pn_watch_path = path,
       pn_previous = (case previous of Some p \<Rightarrow> p | None \<Rightarrow> zero_stat),
       pn_current = (case current of Some c \<Rightarrow> c | None \<Rightarrow> zero_stat), pn_status = status\<rparr>)\<rparr>"

record 'n watch_spec =
  wp_open :: bool
  wp_active :: bool
  wp_path :: string
  wp_watching :: "string option"
  wp_events :: "'n fifo"

definition watch_spec_new :: "'n watch_spec" where
  "watch_spec_new = \<lparr>wp_open = True, wp_active = False, wp_path = [], wp_watching = None, wp_events = new_fifo 0\<rparr>"

fun watch_spec_step :: "('a, 'd, 'n) watch_kind \<Rightarrow> ('a, 'd, 'n) watch_event \<Rightarrow> 'n watch_spec \<Rightarrow> 'n watch_outcome \<times> 'n watch_spec" where
  "watch_spec_step k (We_start stop path a rc) p =
     (if \<not> wp_open p then (Wo_unit (Inl (Runtime_error (wk_closed k))), p)
      else (case wk_refuses k a of
              Some e \<Rightarrow> (Wo_unit (Inl e), p)
            | None \<Rightarrow>
                if stop then (Wo_unit (Inl Operation_cancelled), p)
                else (case rc of
                        Uv_err e \<Rightarrow> (Wo_unit (Inl (Uv_error e (wk_start k))), p\<lparr>wp_watching := None\<rparr>)
                      | Uv_ok \<Rightarrow> (Wo_unit (Inr ()), p\<lparr>wp_active := True, wp_path := path, wp_watching := Some path\<rparr>))))"
| "watch_spec_step k (We_stop stop rc) p =
     (if stop then (Wo_unit (Inl Operation_cancelled), p)
      else if \<not> wp_active p then (Wo_unit (Inr ()), p)
      else (case rc of
              Uv_err e \<Rightarrow> (Wo_unit (Inl (Uv_error e (wk_stop k))), p)
            | Uv_ok \<Rightarrow> (Wo_unit (Inr ()), p\<lparr>wp_active := False, wp_path := [], wp_watching := None\<rparr>)))"
| "watch_spec_step k We_close p =
     (Wo_unit (Inr ()),
      if wp_open p then p\<lparr>wp_open := False, wp_active := False, wp_path := [], wp_watching := None,
        wp_events := snd (fifo_step Ce_close (wp_events p))\<rparr> else p)"
| "watch_spec_step k We_job p = (Wo_none, p)"
| "watch_spec_step k (We_report d) p =
     (Wo_none, case wp_watching p of None \<Rightarrow> p | Some path \<Rightarrow> p\<lparr>wp_events := ff_put (wk_label k path d) (wp_events p)\<rparr>)"
| "watch_spec_step k We_query p = (Wo_state (wp_path p) (wp_active p), p)"
| "watch_spec_step k (We_client ev) p = (case fifo_step ev (wp_events p) of (r, f) \<Rightarrow> (Wo_channel r, p\<lparr>wp_events := f\<rparr>))"

section \<open>The contract of a watcher\<close>

text \<open>
  The clients only read from the channel, and no file system has a file with the empty name, so libuv
  does not start to watch it.
\<close>

fun watch_enabled :: "('a, 'd, 'n) watch_event \<Rightarrow> ('n, 'm) fs_watcher_scheme \<Rightarrow> 'n watch_spec \<Rightarrow> bool" where
  "watch_enabled (We_client ev) w p \<longleftrightarrow> receiving ev \<and> ch_enabled ev (fw_events w) (wp_events p)"
| "watch_enabled (We_start stop path a rc) w p \<longleftrightarrow> (path = [] \<longrightarrow> rc \<noteq> Uv_ok)"
| "watch_enabled ev w p \<longleftrightarrow> True"

definition watch_sim :: "('n, 'm) fs_watcher_scheme \<Rightarrow> 'n watch_spec \<Rightarrow> bool" where
  "watch_sim w p \<longleftrightarrow> fw_handle w = wp_open p \<and> fw_closed w = (\<not> wp_open p) \<and> fw_active w = wp_active p \<and> fw_path w = wp_path p \<and>
     ch_sim (fw_events w) (wp_events p) \<and> ff_capacity (wp_events p) = 0 \<and> ff_closed (wp_events p) = (\<not> wp_open p) \<and>
     (if wp_open p
      then map_option fst (fw_watching w) = wp_watching p \<and> (\<forall>q. wp_watching p = Some q \<longrightarrow> fw_state_path w = q \<and> q \<noteq> []) \<and>
        rt_queue (fw_rt w) = [] \<and> fw_uv_closes w = 0
      else wp_watching p = None \<and> \<not> wp_active p \<and> wp_path p = [] \<and> fw_uv_closes w \<le> 1)"

definition watch_sound :: "'n watch_outcome \<times> ('n, 'm) fs_watcher_scheme \<Rightarrow> 'n watch_outcome \<times> 'n watch_spec \<Rightarrow> bool" where
  "watch_sound a b \<longleftrightarrow> fst a = fst b \<and> watch_sim (snd a) (snd b)"

locale file_watcher =
  fixes kind :: "('a, 'd, 'n) watch_kind"
    and step :: "('a, 'd, 'n) watch_event \<Rightarrow> ('n, 'm) fs_watcher_scheme \<Rightarrow> 'n watch_outcome \<times> ('n, 'm) fs_watcher_scheme"
  assumes step_sound: "watch_sim w p \<Longrightarrow> watch_enabled ev w p \<Longrightarrow> watch_sound (step ev w) (watch_spec_step kind ev p)"

fun watch_run :: "('e \<Rightarrow> 'w \<Rightarrow> 'r \<times> 'w) \<Rightarrow> 'e list \<Rightarrow> 'w \<Rightarrow> 'r list \<times> 'w" where
  "watch_run step [] w = ([], w)"
| "watch_run step (ev # evs) w = (case step ev w of (r, w) \<Rightarrow> (case watch_run step evs w of (rs, w) \<Rightarrow> (r # rs, w)))"

fun watch_runnable :: "(('a, 'd, 'n) watch_event \<Rightarrow> ('n, 'm) fs_watcher_scheme \<Rightarrow> 'n watch_outcome \<times> ('n, 'm) fs_watcher_scheme)
    \<Rightarrow> ('a, 'd, 'n) watch_kind \<Rightarrow> ('a, 'd, 'n) watch_event list \<Rightarrow> ('n, 'm) fs_watcher_scheme \<Rightarrow> 'n watch_spec \<Rightarrow> bool" where
  "watch_runnable step k [] w p = True"
| "watch_runnable step k (ev # evs) w p \<longleftrightarrow>
     watch_enabled ev w p \<and> watch_runnable step k evs (snd (step ev w)) (snd (watch_spec_step k ev p))"

context file_watcher begin

lemma run_sound:
  "watch_sim w p \<Longrightarrow> watch_runnable step kind evs w p \<Longrightarrow>
   fst (watch_run step evs w) = fst (watch_run (watch_spec_step kind) evs p) \<and>
   watch_sim (snd (watch_run step evs w)) (snd (watch_run (watch_spec_step kind) evs p))"
proof (induction evs arbitrary: w p)
  case (Cons ev evs)
  from step_sound [OF Cons.prems(1)] Cons.prems(2) have h: "watch_sound (step ev w) (watch_spec_step kind ev p)" by simp
  then have "watch_sim (snd (step ev w)) (snd (watch_spec_step kind ev p))" by (simp add: watch_sound_def)
  from Cons.IH [OF this] Cons.prems(2) h show ?case by (simp add: watch_sound_def case_prod_beta)
qed simp

lemma run_outcomes:
  assumes "watch_sim w p" and "watch_runnable step kind evs w p" and "watch_run step evs w = (outs, w')"
    and "watch_run (watch_spec_step kind) evs p = (outs', p')"
  shows "outs = outs' \<and> content (cw_ch (fw_events w')) = ff_queue (wp_events p') \<and> fw_active w' = wp_active p' \<and> fw_path w' = wp_path p' \<and>
    (fw_handle w' \<longrightarrow> map_option fst (fw_watching w') = wp_watching p') \<and> fw_uv_closes w' \<le> 1"
proof -
  from run_sound [OF assms(1,2)] assms(3,4) have "outs = outs'" "watch_sim w' p'" by simp_all
  then show ?thesis using ch_sim_parts [of "fw_events w'" "wp_events p'"] by (auto simp: watch_sim_def split: if_splits)
qed

end

section \<open>The common operations\<close>

lemma watch_sim_cong:
  assumes "watch_sim w p" and "fw_handle w' = fw_handle w" and "fw_closed w' = fw_closed w" and "fw_active w' = fw_active w"
    and "fw_path w' = fw_path w" and "fw_events w' = fw_events w" and "fw_watching w' = fw_watching w"
    and "fw_state_path w' = fw_state_path w" and "fw_rt w' = fw_rt w" and "fw_uv_closes w' = fw_uv_closes w"
  shows "watch_sim w' p"
  using assms by (simp add: watch_sim_def split: if_splits)

lemma stop_sound:
  assumes s: "watch_sim w p"
  shows "watch_sound (case watcher_stop (wk_stop k) stop rc w of (r, w) \<Rightarrow> (Wo_unit r, w)) (watch_spec_step k (We_stop stop rc) p)"
  using s by (cases rc; cases "wp_open p") (auto simp: watch_sound_def watcher_stop_def watch_sim_def)

lemma close_sound:
  assumes s: "watch_sim w p"
  shows "watch_sound (case watcher_close w of (r, w) \<Rightarrow> (Wo_unit r, w)) (watch_spec_step k We_close p)"
proof (cases "wp_open p")
  case False
  with s have "channel_is_closed (fw_events w)" by (auto simp: watch_sim_def ch_sim_def channel_is_closed_def)
  with s False show ?thesis by (auto simp: watch_sound_def watcher_close_def watch_sim_def)
next
  case True
  from s have c: "ch_sim (fw_events w) (wp_events p)" by (simp add: watch_sim_def)
  obtain r c' where e: "close_channel (fw_events w) = (r, c')" by (rule prod.exhaust)
  from notifications.shut_sim [OF c] e have "r = Inr ()" "ch_sim c' (snd (fifo_step Ce_close (wp_events p)))" by simp_all
  with s True e show ?thesis by (simp add: watch_sound_def watcher_close_def watch_sim_def Let_def)
qed

lemma job_sound:
  assumes s: "watch_sim w p"
  shows "watch_sound (Wo_none, watcher_run_job w) (watch_spec_step k We_job p)"
  using s by (cases "rt_queue (fw_rt w)") (auto simp: watch_sound_def watcher_run_job_def watch_sim_def Let_def)

lemma client_sound:
  assumes s: "watch_sim w p" and "receiving ev" and "ch_enabled ev (fw_events w) (wp_events p)"
  shows "watch_sound (watcher_client ev w) (watch_spec_step k (We_client ev) p)"
proof -
  have c: "ch_sim (fw_events w) (wp_events p)" using s by (simp add: watch_sim_def)
  obtain r c' where a: "ch_step ev (fw_events w) = (r, c')" by (rule prod.exhaust)
  obtain q f where b: "fifo_step ev (wp_events p) = (q, f)" by (rule prod.exhaust)
  from s a b receiving_sim [OF c assms(3)] receiving_keeps [OF assms(2), of "wp_events p"] show ?thesis
    by (simp add: watch_sound_def watch_sim_def watcher_client_def split: if_splits)
qed

lemma report_sound:
  assumes s: "watch_sim w p" and "fw_watching w \<noteq> None"
    and "w' = (if fw_closed w then w else w\<lparr>fw_events := snd (try_send True (wk_label k (fw_state_path w) d) (fw_events w))\<rparr>)"
  shows "watch_sound (Wo_none, w') (watch_spec_step k (We_report d) p)"
proof (cases "wp_open p")
  case False
  with s assms(3) show ?thesis by (auto simp: watch_sound_def watch_sim_def)
next
  case True
  then have c: "ch_sim (fw_events w) (wp_events p)" "ff_capacity (wp_events p) = 0" "\<not> ff_closed (wp_events p)"
    using s by (simp_all add: watch_sim_def)
  from True s assms(2) obtain a q where q: "fw_watching w = Some (q, a)" "wp_watching p = Some q" "fw_state_path w = q"
    by (cases "fw_watching w") (auto simp: watch_sim_def)
  with s True assms(3) notifications.send_open [OF c, of "wk_label k q d"] show ?thesis
    by (simp add: watch_sound_def watch_sim_def)
qed

lemma idle_report_sound: "watch_sim w p \<Longrightarrow> fw_watching w = None \<Longrightarrow> watch_sound (Wo_none, w) (watch_spec_step k (We_report d) p)"
  by (cases "wp_open p") (auto simp: watch_sound_def watch_sim_def)

section \<open>The two watchers keep the contract\<close>

lemma event_start_sound:
  assumes "watch_sim w p" and "path = [] \<Longrightarrow> rc \<noteq> Uv_ok"
  shows "watch_sound (event_step (We_start stop path flags rc) w) (watch_spec_step event_kind (We_start stop path flags rc) p)"
proof (cases "wp_open p \<and> \<not> stop")
  case False
  with assms show ?thesis by (auto simp: watch_sound_def event_watcher_start_def watch_sim_def event_kind_def)
next
  case True
  have "fw_watching w = None" if e: "fw_state_path w = []"
  proof (rule ccontr)
    assume "fw_watching w \<noteq> None"
    then obtain q a where "fw_watching w = Some (q, a)" by auto
    with assms(1) True have "wp_watching p = Some q" "\<forall>q. wp_watching p = Some q \<longrightarrow> fw_state_path w = q \<and> q \<noteq> []"
      by (simp_all add: watch_sim_def)
    with e show False by simp
  qed
  with assms True show ?thesis
    by (cases rc) (auto simp: watch_sound_def event_watcher_start_def watch_sim_def event_kind_def Let_def)
qed

lemma poll_start_sound:
  assumes "watch_sim w p" and "path = [] \<Longrightarrow> rc \<noteq> Uv_ok"
  shows "watch_sound (poll_step (We_start stop path interval rc) w) (watch_spec_step poll_kind (We_start stop path interval rc) p)"
  using assms by (cases rc; cases "wp_open p") (auto simp: watch_sound_def poll_watcher_start_def watch_sim_def poll_kind_def Let_def)

lemma interval_only: "watch_sim (w\<lparr>pw_interval := i\<rparr>) p = watch_sim w p"
  by (simp add: watch_sim_def)

interpretation event_watching: file_watcher event_kind event_step
proof
  fix w :: event_watcher and p
    and ev :: "(32 word, string option \<times> 32 word \<times> uv_status, event_notification) watch_event"
  assume s: "watch_sim w p" and e: "watch_enabled ev w p"
  show "watch_sound (event_step ev w) (watch_spec_step event_kind ev p)"
  proof (cases ev)
    case (We_start stop path flags rc)
    with event_start_sound [OF s] e show ?thesis by simp
  next
    case (We_stop stop rc)
    have "event_watcher_stop = watcher_stop (wk_stop event_kind)" by (simp add: event_watcher_stop_def event_kind_def)
    with We_stop stop_sound [OF s, of event_kind stop rc] show ?thesis by simp
  next
    case We_close
    with close_sound [OF s, of event_kind] show ?thesis by (simp add: event_watcher_close_def)
  next
    case We_job
    with job_sound [OF s, of event_kind] show ?thesis by simp
  next
    case (We_report d)
    obtain f es st where d: "d = (f, es, st)" by (cases d)
    show ?thesis
    proof (cases "fw_watching w = None")
      case True
      with We_report idle_report_sound [OF s True, of event_kind d] show ?thesis by simp
    next
      case False
      have "on_event d w = (if fw_closed w then w
        else w\<lparr>fw_events := snd (try_send True (wk_label event_kind (fw_state_path w) d) (fw_events w))\<rparr>)"
        by (simp add: on_event_def event_kind_def d)
      from report_sound [OF s False this] We_report False show ?thesis by auto
    qed
  next
    case We_query
    with s show ?thesis by (simp add: watch_sound_def watch_sim_def split: if_splits)
  next
    case (We_client c)
    with client_sound [OF s, of c event_kind] e show ?thesis by simp
  qed
qed

interpretation poll_watching: file_watcher poll_kind poll_step
proof
  fix w :: poll_watcher and p
    and ev :: "(int, uv_status \<times> poll_stat option \<times> poll_stat option, poll_notification) watch_event"
  assume s: "watch_sim w p" and e: "watch_enabled ev w p"
  show "watch_sound (poll_step ev w) (watch_spec_step poll_kind ev p)"
  proof (cases ev)
    case (We_start stop path interval rc)
    with poll_start_sound [OF s] e show ?thesis by simp
  next
    case (We_stop stop rc)
    obtain r w' where w': "watcher_stop ''uv_fs_poll_stop'' stop rc w = (r, w')" by (rule prod.exhaust)
    have k: "wk_stop poll_kind = ''uv_fs_poll_stop''" by (simp add: poll_kind_def)
    from stop_sound [OF s, of poll_kind stop rc] w' We_stop show ?thesis unfolding k
      by (cases r) (simp_all add: watch_sound_def poll_watcher_stop_def interval_only)
  next
    case We_close
    obtain r w' where w': "watcher_close w = (r, w')" by (rule prod.exhaust)
    from close_sound [OF s, of poll_kind] w' We_close show ?thesis
      by (simp add: watch_sound_def poll_watcher_close_def interval_only)
  next
    case We_job
    with job_sound [OF s, of poll_kind] show ?thesis by simp
  next
    case (We_report d)
    obtain st pr cu where d: "d = (st, pr, cu)" by (cases d)
    show ?thesis
    proof (cases "fw_watching w = None")
      case True
      with We_report idle_report_sound [OF s True, of poll_kind d] show ?thesis by simp
    next
      case False
      have "on_poll d w = (if fw_closed w then w
        else w\<lparr>fw_events := snd (try_send True (wk_label poll_kind (fw_state_path w) d) (fw_events w))\<rparr>)"
        by (simp add: on_poll_def poll_kind_def d)
      from report_sound [OF s False this] We_report False show ?thesis by auto
    qed
  next
    case We_query
    with s show ?thesis by (simp add: watch_sound_def watch_sim_def split: if_splits)
  next
    case (We_client c)
    with client_sound [OF s, of c poll_kind] e show ?thesis by simp
  qed
qed

lemma watch_sim_new:
  assumes "rt_queue rt = []"
  shows "event_watcher_new Uv_ok rt = Inr w \<Longrightarrow> watch_sim w watch_spec_new"
    and "poll_watcher_new Uv_ok rt = Inr v \<Longrightarrow> watch_sim v watch_spec_new"
proof -
  have c: "ch_sim (new_chan_world 0) (new_fifo 0)" unfolding new_fifo_def by (rule ch_sim_new)
  show "event_watcher_new Uv_ok rt = Inr w \<Longrightarrow> watch_sim w watch_spec_new"
    using assms c by (auto simp: event_watcher_new_def watch_sim_def watch_spec_new_def new_fifo_def)
  show "poll_watcher_new Uv_ok rt = Inr v \<Longrightarrow> watch_sim v watch_spec_new"
    using assms c by (auto simp: poll_watcher_new_def watch_sim_def watch_spec_new_def new_fifo_def)
qed

section \<open>Properties\<close>

text \<open>
  C35. \<open>event_watcher\<close> refines its specification: over any starts (also ones that libuv refuses), stops,
  closes, jobs, reports of libuv and reads, each outcome, and what is left in the channel, are those of
  a FIFO to which every report on the watched path is appended once, labelled with that path, and to
  which nothing is appended when nothing is watched; while it is open, libuv watches what the
  specification says, and the handle is closed at most once.
\<close>

theorem event_watcher_refines:
  assumes "rt_queue rt = []" and "event_watcher_new Uv_ok rt = Inr w"
    and "watch_runnable event_step event_kind evs w watch_spec_new" and "watch_run event_step evs w = (outs, w')"
    and "watch_run (watch_spec_step event_kind) evs watch_spec_new = (outs', p')"
  shows "outs = outs' \<and> content (cw_ch (fw_events w')) = ff_queue (wp_events p') \<and> fw_active w' = wp_active p' \<and> fw_path w' = wp_path p' \<and>
    (fw_handle w' \<longrightarrow> map_option fst (fw_watching w') = wp_watching p') \<and> fw_uv_closes w' \<le> 1"
  by (rule event_watching.run_outcomes [OF watch_sim_new(1) [OF assms(1,2)] assms(3-5)])

lemma poll_watcher_refines:
  assumes "rt_queue rt = []" and "poll_watcher_new Uv_ok rt = Inr w"
    and "watch_runnable poll_step poll_kind evs w watch_spec_new" and "watch_run poll_step evs w = (outs, w')"
    and "watch_run (watch_spec_step poll_kind) evs watch_spec_new = (outs', p')"
  shows "outs = outs' \<and> content (cw_ch (fw_events w')) = ff_queue (wp_events p') \<and> fw_active w' = wp_active p' \<and> fw_path w' = wp_path p' \<and>
    (fw_handle w' \<longrightarrow> map_option fst (fw_watching w') = wp_watching p') \<and> fw_uv_closes w' \<le> 1"
  by (rule poll_watching.run_outcomes [OF watch_sim_new(2) [OF assms(1,2)] assms(3-5)])

definition event_demo :: "(32 word, string option \<times> 32 word \<times> uv_status, event_notification) watch_event list" where
  "event_demo = [We_start False ''a'' 0 Uv_ok, We_report (Some ''x'', UV_CHANGE, Uv_ok), We_start False ''b'' 0 Uv_ok,
     We_report (None, UV_RENAME, Uv_ok), We_stop False Uv_ok, We_report (None, UV_CHANGE, Uv_ok), We_query,
     We_client (Ce_try_recv True), We_close, We_job, We_client (Ce_try_recv True), We_start False ''a'' 0 Uv_ok]"

theorem event_watcher_refines_witness:
  "\<exists>w. event_watcher_new Uv_ok new_runtime = Inr w \<and>
     fst (watch_run event_step event_demo w) =
       [Wo_unit (Inr ()), Wo_none, Wo_unit (Inr ()), Wo_none, Wo_unit (Inr ()), Wo_none, Wo_state [] False,
        Wo_channel (Oc_taken (Inr (Some \<lparr>en_watch_path = ''a'', en_filename = ''x'', en_events = UV_CHANGE, en_status = Uv_ok\<rparr>))),
        Wo_unit (Inr ()), Wo_none,
        Wo_channel (Oc_taken (Inr (Some \<lparr>en_watch_path = ''b'', en_filename = [], en_events = UV_RENAME, en_status = Uv_ok\<rparr>))),
        Wo_unit (Inl (Runtime_error ''fs event watcher is closed''))]"
proof -
  obtain w where w: "event_watcher_new Uv_ok new_runtime = Inr w" by (simp add: event_watcher_new_def)
  have "watch_runnable event_step event_kind event_demo w watch_spec_new" by (simp add: event_demo_def)
  from event_watcher_refines [OF _ w this surjective_pairing surjective_pairing]
  have "fst (watch_run event_step event_demo w) = fst (watch_run (watch_spec_step event_kind) event_demo watch_spec_new)" by simp
  then show ?thesis
    by (intro exI [of _ w] conjI w) (simp add: event_demo_def event_kind_def watch_spec_new_def new_fifo_def ff_put_def)
qed

text \<open>
  A defect: \<open>start\<close> stops the old watch before it starts the new one, and when that fails it leaves the
  watcher's own fields: \<open>active()\<close> is still true and \<open>path()\<close> the old path, though nothing is watched.
\<close>

lemma failed_restart_looks_active:
  assumes "fw_handle w" and "\<not> fw_closed w" and "fw_active w" and "fw_path w = fw_state_path w" and "fw_state_path w \<noteq> []"
    and "event_watcher_start False path flags (Uv_err rc) w = (r, w')"
  shows "r = Inl (Uv_error rc ''uv_fs_event_start'') \<and> fw_watching w' = None \<and> fw_active w' \<and> fw_path w' = fw_path w"
  using assms by (auto simp: event_watcher_start_def Let_def split: if_splits)

text \<open>
  A defect: the interval is checked to be positive and then cut to 32 bits, so a positive interval of
  \<open>2 ^ 32\<close> milliseconds becomes zero for libuv.
\<close>

lemma poll_interval_wraps:
  assumes "fw_handle w" and "\<not> fw_closed w"
  shows "fst (poll_watcher_start False path (2 ^ 32) Uv_ok w) = Inr () \<and>
    fw_watching (snd (poll_watcher_start False path (2 ^ 32) Uv_ok w)) = Some (path, 0)"
  using assms by (simp add: poll_watcher_start_def Let_def)

end
