(* ===== verification/Channel_Iteration.thy ===== *)
theory Channel_Iteration
  imports Notifications
begin

text \<open>
  Iterating over a \<open>message_channel\<close> (\<open>message.hpp\<close>): the awaitable messages and the generators that
  yield them, \<open>co_foreach\<close> with and without a window, the blocking iterator, and \<open>select\<close>. The loops are
  written over the receiving operation, run to completion; what the callback does is a parameter.
\<close>

section \<open>Messages\<close>

text \<open>\<open>async_message\<close>: which receiving task \<open>co_await\<close> starts depends on the timeout and the token.\<close>

record async_message =
  as_timeout :: "int option"
  as_stop_possible :: bool

datatype receive_kind = Recv_until_stop int | Recv_for int | Recv_optional

definition message_task :: "async_message \<Rightarrow> receive_kind" where
  "message_task m =
     (case as_timeout m of
        Some t \<Rightarrow> if as_stop_possible m then Recv_until_stop t else Recv_for t
      | None \<Rightarrow> Recv_optional)"

text \<open>\<open>await_resume\<close>: the flag that the generator shares with its messages is set when nothing came.\<close>

definition message_await_resume :: "'a option result \<Rightarrow> bool option \<Rightarrow> 'a option result \<times> bool option" where
  "message_await_resume r stop_requested =
     (case r of
        Inl e \<Rightarrow> (Inl e, stop_requested)
      | Inr v \<Rightarrow> (Inr v, if v = None \<and> stop_requested \<noteq> None then Some True else stop_requested))"

definition channel_next :: async_message where
  "channel_next = \<lparr>as_timeout = None, as_stop_possible = False\<rparr>"

definition channel_next_for :: "int \<Rightarrow> async_message" where
  "channel_next_for timeout = \<lparr>as_timeout = Some timeout, as_stop_possible = False\<rparr>"

definition channel_next_until :: "bool \<Rightarrow> int \<Rightarrow> async_message" where
  "channel_next_until stop_possible poll_interval = \<lparr>as_timeout = Some poll_interval, as_stop_possible = stop_possible\<rparr>"

section \<open>Generators\<close>

text \<open>The message that is yielded, the shared flag, and whether the loop also asks the stop token.\<close>

record message_generator =
  mg_message :: async_message
  mg_stop_requested :: bool
  mg_asks_token :: bool

definition channel_messages :: message_generator where
  "channel_messages = \<lparr>mg_message = channel_next, mg_stop_requested = False, mg_asks_token = False\<rparr>"

definition channel_messages_for :: "int \<Rightarrow> message_generator" where
  "channel_messages_for timeout = \<lparr>mg_message = channel_next_for timeout, mg_stop_requested = False, mg_asks_token = False\<rparr>"

definition channel_messages_until :: "bool \<Rightarrow> int \<Rightarrow> message_generator" where
  "channel_messages_until stop_possible poll_interval =
     \<lparr>mg_message = channel_next_until stop_possible (if poll_interval \<le> 0 then 1 else poll_interval),
      mg_stop_requested = False, mg_asks_token = True\<rparr>"

definition generator_yields :: "bool \<Rightarrow> message_generator \<Rightarrow> bool" where
  "generator_yields token_stopped g \<longleftrightarrow> \<not> mg_stop_requested g \<and> \<not> (mg_asks_token g \<and> token_stopped)"

text \<open>One message of a generator, awaited.\<close>

definition await_message :: "(receive_kind \<Rightarrow> 's \<Rightarrow> 'a option result \<times> 's) \<Rightarrow> message_generator \<Rightarrow> 's
    \<Rightarrow> 'a option result \<times> message_generator \<times> 's" where
  "await_message receive g s =
     (case receive (message_task (mg_message g)) s of
        (r, s) \<Rightarrow>
          (case message_await_resume r (Some (mg_stop_requested g)) of
             (r, flag) \<Rightarrow> (r, g\<lparr>mg_stop_requested := the flag\<rparr>, s)))"

section \<open>Consuming\<close>

text \<open>\<open>co_foreach\<close>: \<open>stopped\<close> is the token's answer, \<open>fn\<close> the callback, run to completion.\<close>

partial_function (option) co_foreach :: "('s \<Rightarrow> bool) \<Rightarrow> (receive_kind \<Rightarrow> 's \<Rightarrow> 'a option result \<times> 's)
    \<Rightarrow> ('a \<Rightarrow> 's \<Rightarrow> unit result \<times> 's) \<Rightarrow> message_generator \<Rightarrow> 's \<Rightarrow> (unit result \<times> 's) option" where
  "co_foreach stopped receive fn g s =
     (if \<not> generator_yields (stopped s) g then Some (Inr (), s)
      else (case await_message receive g s of
              (Inl e, _, s) \<Rightarrow> Some (Inl e, s)
            | (Inr None, _, s) \<Rightarrow> Some (Inr (), s)
            | (Inr (Some v), g, s) \<Rightarrow>
                (case fn v s of
                   (Inl e, s) \<Rightarrow> Some (Inl e, s)
                 | (Inr _, s) \<Rightarrow> co_foreach stopped receive fn g s)))"

text \<open>
  With a window the callbacks' tasks are collected and handed to \<open>when_all\<close> once there are enough of
  them, and at the end. \<open>when_all\<close> is libcoro's; it runs the tasks and returns their results, which the
  code does not look at. A task that was collected and not handed over has not started.
\<close>

partial_function (option) co_foreach_batches :: "('s \<Rightarrow> bool) \<Rightarrow> (receive_kind \<Rightarrow> 's \<Rightarrow> 'a option result \<times> 's)
    \<Rightarrow> (('s \<Rightarrow> unit result \<times> 's) list \<Rightarrow> 's \<Rightarrow> unit result list \<times> 's) \<Rightarrow> ('a \<Rightarrow> 's \<Rightarrow> unit result \<times> 's) \<Rightarrow> nat
    \<Rightarrow> ('s \<Rightarrow> unit result \<times> 's) list \<Rightarrow> message_generator \<Rightarrow> 's \<Rightarrow> (unit result \<times> 's) option" where
  "co_foreach_batches stopped receive when_all fn max_concurrency batch g s =
     (if \<not> generator_yields (stopped s) g
      then Some (Inr (), if batch = [] then s else snd (when_all batch s))
      else (case await_message receive g s of
              (Inl e, _, s) \<Rightarrow> Some (Inl e, s)
            | (Inr None, _, s) \<Rightarrow> Some (Inr (), if batch = [] then s else snd (when_all batch s))
            | (Inr (Some v), g, s) \<Rightarrow>
                (let batch = batch @ [fn v] in
                 if max_concurrency \<le> length batch
                 then co_foreach_batches stopped receive when_all fn max_concurrency [] g (snd (when_all batch s))
                 else co_foreach_batches stopped receive when_all fn max_concurrency batch g s)))"

definition co_foreach_windowed :: "('s \<Rightarrow> bool) \<Rightarrow> (receive_kind \<Rightarrow> 's \<Rightarrow> 'a option result \<times> 's)
    \<Rightarrow> (('s \<Rightarrow> unit result \<times> 's) list \<Rightarrow> 's \<Rightarrow> unit result list \<times> 's) \<Rightarrow> ('a \<Rightarrow> 's \<Rightarrow> unit result \<times> 's) \<Rightarrow> nat
    \<Rightarrow> message_generator \<Rightarrow> 's \<Rightarrow> (unit result \<times> 's) option" where
  "co_foreach_windowed stopped receive when_all fn max_concurrency g s =
     (if max_concurrency = 0
      then Some (Inl (Runtime_error ''co_foreach max_concurrency must be greater than 0''), s)
      else co_foreach_batches stopped receive when_all fn max_concurrency [] g s)"

text \<open>The blocking iterator: its state pointer and its current message.\<close>

record 'a blocking_iterator =
  bi_state :: bool
  bi_current :: "'a option"

definition fetch_next :: "('s \<Rightarrow> 'a option result \<times> 's) \<Rightarrow> 'a blocking_iterator \<Rightarrow> 's \<Rightarrow> ('a blocking_iterator) result \<times> 's" where
  "fetch_next blocking_next it s =
     (let it = it\<lparr>bi_current := None\<rparr> in
      if \<not> bi_state it then (Inr it, s)
      else (case blocking_next s of
              (Inl e, s) \<Rightarrow> (Inl e, s)
            | (Inr v, s) \<Rightarrow> (Inr (it\<lparr>bi_current := v, bi_state := v \<noteq> None\<rparr>), s)))"

definition iterator_begin :: "('s \<Rightarrow> 'a option result \<times> 's) \<Rightarrow> 's \<Rightarrow> ('a blocking_iterator) result \<times> 's" where
  "iterator_begin blocking_next = fetch_next blocking_next \<lparr>bi_state = True, bi_current = None\<rparr>"

definition iterator_at_end :: "'a blocking_iterator \<Rightarrow> bool" where
  "iterator_at_end it \<longleftrightarrow> \<not> bi_state it"

text \<open>A range-based \<open>for\<close> over the channel, with a body that may throw.\<close>

partial_function (option) iterator_loop :: "('s \<Rightarrow> 'a option result \<times> 's) \<Rightarrow> ('a \<Rightarrow> 's \<Rightarrow> unit result \<times> 's)
    \<Rightarrow> 'a blocking_iterator \<Rightarrow> 's \<Rightarrow> (unit result \<times> 's) option" where
  "iterator_loop blocking_next fn it s =
     (if iterator_at_end it then Some (Inr (), s)
      else (case fn (the (bi_current it)) s of
              (Inl e, s) \<Rightarrow> Some (Inl e, s)
            | (Inr _, s) \<Rightarrow>
                (case fetch_next blocking_next it s of
                   (Inl e, s) \<Rightarrow> Some (Inl e, s)
                 | (Inr it, s) \<Rightarrow> iterator_loop blocking_next fn it s)))"

definition range_for :: "('s \<Rightarrow> 'a option result \<times> 's) \<Rightarrow> ('a \<Rightarrow> 's \<Rightarrow> unit result \<times> 's) \<Rightarrow> 's \<Rightarrow> (unit result \<times> 's) option" where
  "range_for blocking_next fn s =
     (case iterator_begin blocking_next s of
        (Inl e, s) \<Rightarrow> Some (Inl e, s)
      | (Inr it, s) \<Rightarrow> iterator_loop blocking_next fn it s)"

declare co_foreach.simps [code] co_foreach_batches.simps [code] iterator_loop.simps [code]

section \<open>A source of messages\<close>

text \<open>What the callbacks do, in order, up to the first that throws, with the messages it leaves.\<close>

fun handle_all :: "('a \<Rightarrow> 'u \<Rightarrow> unit result \<times> 'u) \<Rightarrow> 'a list \<Rightarrow> 'u \<Rightarrow> unit result \<times> 'a list \<times> 'u" where
  "handle_all fn [] u = (Inr (), [], u)"
| "handle_all fn (v # vs) u =
     (case fn v u of
        (Inl e, u) \<Rightarrow> (Inl e, vs, u)
      | (Inr _, u) \<Rightarrow> handle_all fn vs u)"

text \<open>A callback that leaves the source alone.\<close>

definition beside :: "('a \<Rightarrow> 'u \<Rightarrow> 'r \<times> 'u) \<Rightarrow> 'a \<Rightarrow> 'c \<times> 'u \<Rightarrow> 'r \<times> 'c \<times> 'u" where
  "beside fn v s = (case fn v (snd s) of (r, u) \<Rightarrow> (r, fst s, u))"

definition on_source :: "('c \<Rightarrow> 'r \<times> 'c) \<Rightarrow> 'c \<times> 'u \<Rightarrow> 'r \<times> 'c \<times> 'u" where
  "on_source next s = (case next (fst s) of (r, c) \<Rightarrow> (r, c, snd s))"

locale message_source =
  fixes next_message :: "'c \<Rightarrow> 'a option result \<times> 'c"
    and good :: "'c \<Rightarrow> bool"
    and pending :: "'c \<Rightarrow> 'a list"
  assumes next_empty: "good c \<Longrightarrow> pending c = [] \<Longrightarrow> \<exists>c'. next_message c = (Inr None, c') \<and> good c' \<and> pending c' = []"
    and next_some: "good c \<Longrightarrow> pending c = v # vs \<Longrightarrow> \<exists>c'. next_message c = (Inr (Some v), c') \<and> good c' \<and> pending c' = vs"
begin

text \<open>
  Whatever kind of receiving task the messages start, as long as it takes the next message of the
  source: \<open>co_foreach\<close> calls the callback for each pending message in order, up to the first that throws.
\<close>

lemma co_foreach_handles:
  assumes "good c" and "generator_yields False g" and "\<And>k. receive k = on_source next_message"
  shows "\<exists>c'. co_foreach (\<lambda>_. False) receive (beside fn) g (c, u) =
      Some (fst (handle_all fn (pending c) u), c', snd (snd (handle_all fn (pending c) u))) \<and>
    good c' \<and> pending c' = fst (snd (handle_all fn (pending c) u))"
  using assms(1,2)
proof (induction "pending c" arbitrary: c u g)
  case Nil
  from next_empty [OF Nil.prems(1)] Nil.hyps obtain c' where n: "next_message c = (Inr None, c')" "good c'" "pending c' = []" by auto
  have "co_foreach (\<lambda>_. False) receive (beside fn) g (c, u) = Some (Inr (), c', u)"
    using Nil.prems(2) by (subst co_foreach.simps) (simp add: await_message_def assms(3) on_source_def n(1) message_await_resume_def)
  with n(2,3) Nil.hyps show ?case by (simp flip: Nil.hyps)
next
  case (Cons v vs)
  from next_some [OF Cons.prems(1) Cons.hyps(2) [symmetric]] obtain c' where
    n: "next_message c = (Inr (Some v), c')" "good c'" "pending c' = vs" by blast
  obtain r u' where f: "fn v u = (r, u')" by (rule prod.exhaust)
  have a: "await_message receive g (c, u) = (Inr (Some v), g, (c', u))"
    by (simp add: await_message_def assms(3) on_source_def n(1) message_await_resume_def)
  show ?case
  proof (cases r)
    case (Inl e)
    have "co_foreach (\<lambda>_. False) receive (beside fn) g (c, u) = Some (Inl e, c', u')"
      using Cons.prems(2) by (subst co_foreach.simps) (simp add: a beside_def f Inl)
    with n(2,3) f Inl show ?thesis by (simp flip: Cons.hyps(2))
  next
    case (Inr x)
    have "co_foreach (\<lambda>_. False) receive (beside fn) g (c, u) = co_foreach (\<lambda>_. False) receive (beside fn) g (c', u')"
      using Cons.prems(2) by (subst co_foreach.simps) (simp add: a beside_def f Inr)
    moreover from Cons.hyps(1) [OF n(3) [symmetric] n(2) Cons.prems(2), of u'] n(3) obtain c'' where
      "co_foreach (\<lambda>_. False) receive (beside fn) g (c', u') = Some (fst (handle_all fn vs u'), c'', snd (snd (handle_all fn vs u')))"
      "good c''" "pending c'' = fst (snd (handle_all fn vs u'))" by auto
    ultimately show ?thesis using f Inr by (simp flip: Cons.hyps(2))
  qed
qed

text \<open>The blocking iterator: it holds the current message, the source the later ones.\<close>

lemma iterator_handles:
  assumes "good c" and "it = \<lparr>bi_state = True, bi_current = Some v\<rparr>"
  shows "\<exists>c'. iterator_loop (on_source next_message) (beside fn) it (c, u) =
      Some (fst (handle_all fn (v # pending c) u), c', snd (snd (handle_all fn (v # pending c) u))) \<and>
    good c' \<and> pending c' = fst (snd (handle_all fn (v # pending c) u))"
  using assms
proof (induction "pending c" arbitrary: c u v it)
  case Nil
  obtain r u' where f: "fn v u = (r, u')" by (rule prod.exhaust)
  from next_empty [OF Nil.prems(1)] Nil.hyps obtain c' where n: "next_message c = (Inr None, c')" "good c'" "pending c' = []" by auto
  have "iterator_loop (on_source next_message) (beside fn) \<lparr>bi_state = False, bi_current = None\<rparr> (c', u') = Some (Inr (), c', u')"
    by (subst iterator_loop.simps) (simp add: iterator_at_end_def)
  then show ?case using Nil.prems f n Nil.hyps [symmetric]
    by (subst iterator_loop.simps; cases r)
      (simp_all add: iterator_at_end_def beside_def fetch_next_def on_source_def Let_def)
next
  case (Cons x xs)
  obtain r u' where f: "fn v u = (r, u')" by (rule prod.exhaust)
  from next_some [OF Cons.prems(1) Cons.hyps(2) [symmetric]] obtain c' where
    n: "next_message c = (Inr (Some x), c')" "good c'" "pending c' = xs" by blast
  show ?case
  proof (cases r)
    case (Inl e)
    have "iterator_loop (on_source next_message) (beside fn) it (c, u) = Some (Inl e, c, u')"
      using Cons.prems(2) by (subst iterator_loop.simps) (simp add: iterator_at_end_def beside_def f Inl)
    with Cons.prems(1) f Inl show ?thesis by simp
  next
    case (Inr y)
    have "iterator_loop (on_source next_message) (beside fn) it (c, u) =
        iterator_loop (on_source next_message) (beside fn) \<lparr>bi_state = True, bi_current = Some x\<rparr> (c', u')"
      using Cons.prems(2) n(1)
      by (subst iterator_loop.simps) (simp add: iterator_at_end_def beside_def f Inr fetch_next_def on_source_def Let_def)
    with Cons.hyps(1) [OF n(3) [symmetric] n(2) refl, of x u'] n(3) Cons.hyps(2) [symmetric] f Inr show ?thesis by simp
  qed
qed

lemma range_for_handles:
  assumes "good c"
  shows "\<exists>c'. range_for (on_source next_message) (beside fn) (c, u) =
      Some (fst (handle_all fn (pending c) u), c', snd (snd (handle_all fn (pending c) u))) \<and>
    good c' \<and> pending c' = fst (snd (handle_all fn (pending c) u))"
proof (cases "pending c")
  case Nil
  from next_empty [OF assms Nil] obtain c' where n: "next_message c = (Inr None, c')" "good c'" "pending c' = []" by blast
  have "iterator_loop (on_source next_message) (beside fn) \<lparr>bi_state = False, bi_current = None\<rparr> (c', u) = Some (Inr (), c', u)"
    by (subst iterator_loop.simps) (simp add: iterator_at_end_def)
  with n Nil show ?thesis by (simp add: range_for_def iterator_begin_def fetch_next_def on_source_def)
next
  case (Cons v vs)
  from next_some [OF assms Cons] obtain c' where n: "next_message c = (Inr (Some v), c')" "good c'" "pending c' = vs" by blast
  from iterator_handles [OF n(2) refl, where fn = fn and u = u and v = v] n Cons show ?thesis
    by (simp add: range_for_def iterator_begin_def fetch_next_def on_source_def)
qed

end

text \<open>Tasks run one after the other, each to its end.\<close>

fun run_all :: "('s \<Rightarrow> 'r \<times> 's) list \<Rightarrow> 's \<Rightarrow> 'r list \<times> 's" where
  "run_all [] s = ([], s)"
| "run_all (t # ts) s = (case t s of (r, s) \<Rightarrow> (case run_all ts s of (rs, s) \<Rightarrow> (r # rs, s)))"

definition do_all :: "('a \<Rightarrow> 'u \<Rightarrow> 'r \<times> 'u) \<Rightarrow> 'a list \<Rightarrow> 'u \<Rightarrow> 'u" where
  "do_all fn vs u = fold (\<lambda>v u. snd (fn v u)) vs u"

lemma run_all_beside: "snd (run_all (map (beside fn) vs) (c, u)) = (c, do_all fn vs u)"
proof (induction vs arbitrary: u)
  case Nil
  show ?case by (simp add: do_all_def)
next
  case (Cons v vs)
  obtain r u' where f: "fn v u = (r, u')" by (rule prod.exhaust)
  with Cons show ?case by (simp add: beside_def do_all_def case_prod_beta)
qed

context message_source begin

text \<open>
  With a window: all messages are handled, in order, whatever the window, and no batch is larger than
  the window, if \<open>when_all\<close> runs the tasks it is given to their ends.
\<close>

lemma batches_handle:
  assumes "good c" and "generator_yields False g" and "\<And>k. receive k = on_source next_message" and "0 < n" and "length bs < n"
    and "\<And>ts s. ts \<noteq> [] \<Longrightarrow> length ts \<le> n \<Longrightarrow> when_all ts s = run_all ts s"
  shows "\<exists>c'. co_foreach_batches (\<lambda>_. False) receive when_all (beside fn) n (map (beside fn) bs) g (c, u) =
      Some (Inr (), c', do_all fn (bs @ pending c) u) \<and> good c' \<and> pending c' = []"
  using assms(1,2,5)
proof (induction "pending c" arbitrary: c u g bs)
  case Nil
  from next_empty [OF Nil.prems(1)] Nil.hyps obtain c' where n: "next_message c = (Inr None, c')" "good c'" "pending c' = []" by auto
  have a: "await_message receive g (c, u) = (Inr None, g\<lparr>mg_stop_requested := True\<rparr>, (c', u))"
    by (simp add: await_message_def assms(3) on_source_def n(1) message_await_resume_def)
  have w: "snd (when_all (map (beside fn) bs) (c', u)) = (c', do_all fn bs u)" if "bs \<noteq> []"
    using that Nil.prems(3) assms(6) [of "map (beside fn) bs" "(c', u)"] by (simp add: run_all_beside)
  have "co_foreach_batches (\<lambda>_. False) receive when_all (beside fn) n (map (beside fn) bs) g (c, u) = Some (Inr (), c', do_all fn bs u)"
    using Nil.prems(2) w by (subst co_foreach_batches.simps) (auto simp: a do_all_def)
  with n(2,3) show ?case by (simp flip: Nil.hyps)
next
  case (Cons v vs)
  from next_some [OF Cons.prems(1) Cons.hyps(2) [symmetric]] obtain c' where
    n: "next_message c = (Inr (Some v), c')" "good c'" "pending c' = vs" by blast
  have a: "await_message receive g (c, u) = (Inr (Some v), g, (c', u))"
    by (simp add: await_message_def assms(3) on_source_def n(1) message_await_resume_def)
  show ?case
  proof (cases "n \<le> length (bs @ [v])")
    case True
    then have w: "snd (when_all (map (beside fn) bs @ [beside fn v]) (c', u)) = (c', do_all fn (bs @ [v]) u)"
      using Cons.prems(3) assms(6) [of "map (beside fn) (bs @ [v])" "(c', u)"] run_all_beside [of fn "bs @ [v]"] by simp
    have "co_foreach_batches (\<lambda>_. False) receive when_all (beside fn) n (map (beside fn) bs) g (c, u) =
        co_foreach_batches (\<lambda>_. False) receive when_all (beside fn) n (map (beside fn) []) g (c', do_all fn (bs @ [v]) u)"
      using Cons.prems(2) True w by (subst co_foreach_batches.simps) (simp add: a Let_def)
    with Cons.hyps(1) [OF n(3) [symmetric] n(2) Cons.prems(2), of "[]" "do_all fn (bs @ [v]) u"] assms(4) n(3) Cons.hyps(2) [symmetric]
    show ?thesis by (simp add: do_all_def)
  next
    case False
    have "co_foreach_batches (\<lambda>_. False) receive when_all (beside fn) n (map (beside fn) bs) g (c, u) =
        co_foreach_batches (\<lambda>_. False) receive when_all (beside fn) n (map (beside fn) (bs @ [v])) g (c', u)"
      using Cons.prems(2) False by (subst co_foreach_batches.simps) (simp add: a Let_def)
    with Cons.hyps(1) [OF n(3) [symmetric] n(2) Cons.prems(2), of "bs @ [v]" u] False n(3) Cons.hyps(2) [symmetric]
    show ?thesis by simp
  qed
qed

end

section \<open>A closed channel as a source\<close>

text \<open>
  The receiving tasks on a channel. A task that does not suspend is determined by the channel;
  \<open>later\<close> says what comes of one that does.
\<close>

fun recv_optional_task :: "('a chan_world \<Rightarrow> 'a result \<times> 'a chan_world) \<Rightarrow> nat \<Rightarrow> 'a chan_world \<Rightarrow> 'a option result \<times> 'a chan_world" where
  "recv_optional_task later w c =
     (case (case recv True w c of (Continues r, c) \<Rightarrow> (r, c) | (Suspended, c) \<Rightarrow> later c) of
        (r, c) \<Rightarrow> (recv_optional_result r, c))"

definition blocking_next :: "('a chan_world \<Rightarrow> 'a result \<times> 'a chan_world) \<Rightarrow> 'a chan_world \<Rightarrow> 'a option result \<times> 'a chan_world" where
  "blocking_next later c =
     (case blocking_next_start False c of
        (Inl e, c) \<Rightarrow> (Inl e, c)
      | (Inr (Some x), c) \<Rightarrow> (Inr x, c)
      | (Inr None, c) \<Rightarrow> (case later c of (r, c) \<Rightarrow> (recv_optional_result r, c)))"

definition drained_of_waiters :: "'a chan_world \<Rightarrow> bool" where
  "drained_of_waiters c \<longleftrightarrow> ch_closed (cw_ch c) \<and> ch_receiver_waiters (cw_ch c) = [] \<and> ch_sender_waiters (cw_ch c) = []"

definition inside :: "'a chan_world \<Rightarrow> 'a list" where
  "inside c = ch_messages (cw_ch c)"

lemma pump_no_waiters:
  assumes "ch_receiver_waiters (fst cf) = []" and "ch_sender_waiters (fst cf) = []"
  shows "pump_locked cf = cf"
proof -
  have r: "pump_receivers cf = cf" using assms(1) by (subst pump_receivers.simps) (cases cf, simp add: pruned_receivers_def)
  have "pump_senders cf = cf" using assms(2) by (subst pump_senders.simps) (cases cf, simp add: pruned_senders_def)
  with r show ?thesis by (simp add: pump_locked_def)
qed

lemma recv_drained:
  assumes "drained_of_waiters c"
  shows "\<exists>c'. recv_optional_task later w c = (Inr (case inside c of [] \<Rightarrow> None | v # vs \<Rightarrow> Some v), c') \<and>
    drained_of_waiters c' \<and> inside c' = tl (inside c)"
  using assms
  by (cases "ch_messages (cw_ch c)")
    (simp_all add: inside_def drained_of_waiters_def recv_def try_recv_locked_def pop_sender_waiter_locked_def pruned_senders_def
      complete_receiver_value_locked_def complete_receiver_exception_locked_def complete_receiver_def new_receiver_def Let_def
      pump_no_waiters no_effects_def recv_await_resume_def finalize_after_unlock_def cancel_timers_def)

lemma blocking_drained:
  assumes "drained_of_waiters c"
  shows "\<exists>c'. blocking_next later c = (Inr (case inside c of [] \<Rightarrow> None | v # vs \<Rightarrow> Some v), c') \<and>
    drained_of_waiters c' \<and> inside c' = tl (inside c)"
  using assms
  by (cases "ch_messages (cw_ch c)")
    (simp_all add: inside_def drained_of_waiters_def blocking_next_def blocking_next_start_def take_message_def pop_sender_waiter_locked_def
      pruned_senders_def Let_def pump_no_waiters no_effects_def finalize_after_unlock_def cancel_timers_def)

interpretation closed_channel_source: message_source "recv_optional_task later w" drained_of_waiters inside
  for later and w
proof
  show "\<exists>c'. recv_optional_task later w c = (Inr None, c') \<and> drained_of_waiters c' \<and> inside c' = []"
    if "drained_of_waiters c" "inside c = []" for c :: "'a chan_world"
    using recv_drained [OF that(1), of later w] that(2) by simp
  show "\<exists>c'. recv_optional_task later w c = (Inr (Some v), c') \<and> drained_of_waiters c' \<and> inside c' = vs"
    if "drained_of_waiters c" "inside c = v # vs" for c :: "'a chan_world" and v vs
    using recv_drained [OF that(1), of later w] that(2) by simp
qed

interpretation closed_channel_blocking: message_source "blocking_next later" drained_of_waiters inside
  for later
proof
  show "\<exists>c'. blocking_next later c = (Inr None, c') \<and> drained_of_waiters c' \<and> inside c' = []"
    if "drained_of_waiters c" "inside c = []" for c :: "'a chan_world"
    using blocking_drained [OF that(1), of later] that(2) by simp
  show "\<exists>c'. blocking_next later c = (Inr (Some v), c') \<and> drained_of_waiters c' \<and> inside c' = vs"
    if "drained_of_waiters c" "inside c = v # vs" for c :: "'a chan_world" and v vs
    using blocking_drained [OF that(1), of later] that(2) by simp
qed

lemma close_drains:
  assumes "ch_sim c f"
  shows "drained_of_waiters (snd (close_channel c))"
    and "inside (snd (close_channel c)) = (if ff_capacity f = 0 then ff_queue f else take (ff_capacity f) (ff_queue f))"
proof -
  from assms have w: "world_ok c" and i: "ch_inv (cw_ch c)" by (simp_all add: ch_sim_def world_ok_def)
  from close_channel_spec [OF w] obtain rt where
    r: "close_channel c = (Inr (), c\<lparr>cw_ch := closed_channel (cw_ch c), cw_cv_notified := cw_cv_notified c + 1, cw_rt := rt\<rparr>)" by blast
  show "drained_of_waiters (snd (close_channel c))" by (simp add: r drained_of_waiters_def closed_channel_def)
  show "inside (snd (close_channel c)) = (if ff_capacity f = 0 then ff_queue f else take (ff_capacity f) (ff_queue f))"
    using closed_content [OF i] assms by (simp add: r inside_def closed_channel_def ch_sim_def)
qed

section \<open>Properties\<close>


text \<open>The callback of the witness logs the message and refuses the number 13.\<close>

definition log_callback :: "nat \<Rightarrow> nat list \<Rightarrow> unit result \<times> nat list" where
  "log_callback v u = (if v = 13 then Inl (User_exception 0) else Inr (), u @ [v])"

text \<open>A receive that suspends; on a closed channel none does.\<close>

definition never_later :: "nat chan_world \<Rightarrow> nat result \<times> nat chan_world" where
  "never_later c = (Inl Closed_error, c)"


text \<open>
  A defect: only \<open>next\<close> and \<open>next_until\<close> turn the closing of the channel into the end of the iteration. The
  messages of \<open>messages_for\<close> are received with \<open>recv_for\<close>, so on a closed channel the same loop throws.
\<close>

lemma messages_for_throws_when_closed:
  assumes "drained_of_waiters c" and "inside c = []" and "0 < timeout"
  shows "message_task (mg_message (channel_messages_for timeout)) = Recv_for timeout \<and>
    fst (recv_for True timeout w t c) = Continues (Inl Closed_error) \<and>
    fst (recv_optional_task later w c) = Inr None"
  using assms recv_drained [OF assms(1), of later w]
  by (auto simp: channel_messages_for_def channel_next_for_def message_task_def inside_def drained_of_waiters_def recv_for_def recv_for_attempt_def
      try_recv_locked_def pop_sender_waiter_locked_def pruned_senders_def complete_receiver_exception_locked_def complete_receiver_def
      new_receiver_def Let_def no_effects_def recv_for_await_resume_def finalize_after_unlock_def cancel_timers_def)

text \<open>
  A defect: with a token that can never be stopped \<open>messages_until\<close> uses its poll interval as a timeout,
  and the iteration ends as soon as no message comes for that long.
\<close>

lemma messages_until_without_stop_ends:
  assumes "receive (Recv_for 50) s = (Inr None, s')"
  shows "co_foreach (\<lambda>_. False) receive fn (channel_messages_until False 50) s = Some (Inr (), s')"
  using assms
  by (subst co_foreach.simps)
    (simp add: generator_yields_def channel_messages_until_def channel_next_until_def await_message_def message_task_def message_await_resume_def)

section \<open>Selecting\<close>

text \<open>
  \<open>select\<close> starts a \<open>next\<close> on every channel and hands the tasks to libcoro's \<open>when_any\<close>, which starts all of
  them and returns what the one that ends first returns; the other tasks are not stopped. Here the
  channels carry messages of one type, and the task on a channel waits with the same number.
\<close>

record 'a selected_message =
  sm_index :: nat
  sm_message :: "'a option"

fun select_start :: "nat \<Rightarrow> 'a chan_world list \<Rightarrow> 'a awaited list \<times> 'a chan_world list" where
  "select_start w [] = ([], [])"
| "select_start w (c # cs) =
     (case recv True w c of (r, c) \<Rightarrow> (case select_start w cs of (rs, cs) \<Rightarrow> (r # rs, c # cs)))"

definition select_result :: "nat \<Rightarrow> 'a result \<Rightarrow> 'a selected_message result" where
  "select_result index r =
     (case recv_optional_result r of
        Inl e \<Rightarrow> Inl e
      | Inr m \<Rightarrow> Inr \<lparr>sm_index = index, sm_message = m\<rparr>)"

text \<open>
  A defect: \<open>select\<close> loses messages. When two channels have a message both are taken out, and only the
  winner's is returned; when a channel is still empty the task that \<open>select\<close> leaves behind waits there
  and takes the next message that is sent, which no later receive gets.
\<close>

lemma select_loses_messages:
  assumes "ch_sim c0 f0" and "ch_sim c1 f1" and "ff_queue f0 = v0 # vs0" and "w \<notin> set (ch_receiver_waiters (cw_ch c0))"
    and "w \<notin> fst ` set (ff_given f0)" and "w \<notin> set (ch_receiver_waiters (cw_ch c1))" and "w \<notin> fst ` set (ff_given f1)"
    and "select_start w [c0, c1] = (rs, [d0, d1])"
  shows "rs ! 0 = Continues (Inr v0) \<and> content (cw_ch d0) = vs0 \<and>
    (case ff_queue f1 of
       v1 # vs1 \<Rightarrow> rs ! 1 = Continues (Inr v1) \<and> content (cw_ch d1) = vs1
     | [] \<Rightarrow> \<not> ff_closed f1 \<and> ff_waiting f1 = [] \<longrightarrow>
         rs ! 1 = Suspended \<and> fst (try_send True v d1) = Inr True \<and> content (cw_ch (snd (try_send True v d1))) = [])"
proof -
  have e0: "ch_enabled (Ce_recv True w) c0 f0" and e1: "ch_enabled (Ce_recv True w) c1 f1" using assms(4-7) by simp_all
  obtain r0 where r0: "recv True w c0 = (r0, d0)" and r1: "\<exists>r1. recv True w c1 = (r1, d1) \<and> rs = [r0, r1]"
    using assms(8) by (auto split: prod.splits)
  then obtain r1 where r1: "recv True w c1 = (r1, d1)" and rs: "rs = [r0, r1]" by blast
  from step_sim [OF assms(1) e0] r0 assms(3) have a: "r0 = Continues (Inr v0)" "ch_sim d0 (f0\<lparr>ff_queue := vs0, ff_given := ff_given f0 @ [(w, v0)]\<rparr>)"
    by auto
  show ?thesis
  proof (cases "ff_queue f1")
    case (Cons v1 vs1)
    from step_sim [OF assms(2) e1] r1 Cons have "r1 = Continues (Inr v1)" "ch_sim d1 (f1\<lparr>ff_queue := vs1, ff_given := ff_given f1 @ [(w, v1)]\<rparr>)"
      by auto
    with a Cons rs show ?thesis by (simp add: ch_sim_def)
  next
    case Nil
    have "r1 = Suspended \<and> fst (try_send True v d1) = Inr True \<and> content (cw_ch (snd (try_send True v d1))) = []"
      if "\<not> ff_closed f1" "ff_waiting f1 = []"
    proof -
      let ?g = "f1\<lparr>ff_waiting := [w]\<rparr>"
      from step_sim [OF assms(2) e1] r1 Nil that have b: "r1 = Suspended" "ch_sim d1 ?g" by auto
      from step_sim [OF b(2), of "Ce_try_send True v"] that(1) show ?thesis
        using b(1) Nil by (cases "try_send True v d1") (auto simp: ff_can_send_def ff_put_def ch_sim_def)
    qed
    with a rs Nil show ?thesis by (simp add: ch_sim_def)
  qed
qed

end
