(* ===== verification/Channel_Object.thy ===== *)
theory Channel_Object
  imports Notifications
begin

text \<open>
  The class \<open>message_channel\<close> around the shared state of \<open>Channel_Ops\<close> (\<open>message.hpp\<close>): an object is a
  pointer to a state, which moving takes away; a channel whose object is destroyed or assigned to is
  closed. Waiting coroutines keep the state itself alive, so states are never removed here.
\<close>

section \<open>Objects\<close>

record 'a channel_objects =
  co_state :: "nat \<Rightarrow> nat option"
  co_heap :: "nat \<Rightarrow> 'a chan_world"
  co_next :: nat

definition no_channels :: "'a channel_objects" where
  "no_channels = \<lparr>co_state = (\<lambda>_. None), co_heap = (\<lambda>_. new_chan_world 0), co_next = 0\<rparr>"

definition require_state :: "nat \<Rightarrow> 'a channel_objects \<Rightarrow> nat result" where
  "require_state i w = (case co_state w i of None \<Rightarrow> Inl (Runtime_error ''message_channel has no state'') | Some h \<Rightarrow> Inr h)"

definition channel_new :: "uv_status \<Rightarrow> nat \<Rightarrow> nat \<Rightarrow> 'a channel_objects \<Rightarrow> unit result \<times> 'a channel_objects" where
  "channel_new init_rc capacity i w =
     (case construct_channel init_rc capacity of
        Inl e \<Rightarrow> (Inl e, w)
      | Inr c \<Rightarrow> (Inr (), w\<lparr>co_state := (co_state w)(i := Some (co_next w)), co_heap := (co_heap w)(co_next w := c), co_next := Suc (co_next w)\<rparr>))"

text \<open>An operation that starts with \<open>require_state\<close>.\<close>

definition channel_with :: "('a chan_world \<Rightarrow> 'r result \<times> 'a chan_world) \<Rightarrow> nat \<Rightarrow> 'a channel_objects \<Rightarrow> 'r result \<times> 'a channel_objects" where
  "channel_with op i w =
     (case require_state i w of
        Inl e \<Rightarrow> (Inl e, w)
      | Inr h \<Rightarrow> (case op (co_heap w h) of (r, c) \<Rightarrow> (r, w\<lparr>co_heap := (co_heap w)(h := c)\<rparr>)))"

definition object_close :: "nat \<Rightarrow> 'a channel_objects \<Rightarrow> unit result \<times> 'a channel_objects" where
  "object_close = channel_with close_channel"

definition object_size :: "nat \<Rightarrow> 'a channel_objects \<Rightarrow> nat result" where
  "object_size i w = (case require_state i w of Inl e \<Rightarrow> Inl e | Inr h \<Rightarrow> Inr (channel_size (co_heap w h)))"

definition object_empty :: "nat \<Rightarrow> 'a channel_objects \<Rightarrow> bool result" where
  "object_empty i w = (case object_size i w of Inl e \<Rightarrow> Inl e | Inr n \<Rightarrow> Inr (n = 0))"

definition object_capacity :: "nat \<Rightarrow> 'a channel_objects \<Rightarrow> nat" where
  "object_capacity i w = (case co_state w i of None \<Rightarrow> 0 | Some h \<Rightarrow> ch_capacity (cw_ch (co_heap w h)))"

definition object_is_closed :: "nat \<Rightarrow> 'a channel_objects \<Rightarrow> bool" where
  "object_is_closed i w = (case co_state w i of None \<Rightarrow> True | Some h \<Rightarrow> channel_is_closed (co_heap w h))"

definition close_noexcept :: "nat \<Rightarrow> 'a channel_objects \<Rightarrow> 'a channel_objects" where
  "close_noexcept i w = (if co_state w i = None then w else snd (object_close i w))"

definition channel_destroy :: "nat \<Rightarrow> 'a channel_objects \<Rightarrow> 'a channel_objects" where
  "channel_destroy i w = (let w = close_noexcept i w in w\<lparr>co_state := (co_state w)(i := None)\<rparr>)"

definition channel_move :: "nat \<Rightarrow> nat \<Rightarrow> 'a channel_objects \<Rightarrow> 'a channel_objects" where
  "channel_move i other w = w\<lparr>co_state := (co_state w)(i := co_state w other, other := None)\<rparr>"

definition channel_assign :: "nat \<Rightarrow> nat \<Rightarrow> 'a channel_objects \<Rightarrow> 'a channel_objects" where
  "channel_assign i other w = (if i = other then w else channel_move i other (close_noexcept i w))"

section \<open>Programs\<close>

datatype 'a object_event =
    Oe_new uv_status nat nat
  | Oe_move nat nat
  | Oe_assign nat nat
  | Oe_destroy nat
  | Oe_operation nat "'a ch_event"

fun object_step :: "'a object_event \<Rightarrow> 'a channel_objects \<Rightarrow> 'a channel_objects" where
  "object_step (Oe_new init_rc capacity i) w = snd (channel_new init_rc capacity i w)"
| "object_step (Oe_move i j) w = channel_move i j w"
| "object_step (Oe_assign i j) w = channel_assign i j w"
| "object_step (Oe_destroy i) w = channel_destroy i w"
| "object_step (Oe_operation i ev) w = snd (channel_with (\<lambda>c. case ch_step ev c of (r, c) \<Rightarrow> (Inr r, c)) i w)"

text \<open>A constructor makes a new object; the events of a channel are possible in the state it is in.\<close>

fun object_enabled :: "'a object_event \<Rightarrow> 'a channel_objects \<Rightarrow> bool" where
  "object_enabled (Oe_new init_rc capacity i) w \<longleftrightarrow> co_state w i = None"
| "object_enabled (Oe_move i j) w \<longleftrightarrow> i \<noteq> j \<and> co_state w i = None"
| "object_enabled (Oe_operation i ev) w \<longleftrightarrow> (case co_state w i of None \<Rightarrow> True | Some h \<Rightarrow> \<forall>f. ch_sim (co_heap w h) f \<longrightarrow> ch_enabled ev (co_heap w h) f)"
| "object_enabled ev w \<longleftrightarrow> True"

fun object_run :: "'a object_event list \<Rightarrow> 'a channel_objects \<Rightarrow> 'a channel_objects" where
  "object_run [] w = w"
| "object_run (ev # evs) w = object_run evs (object_step ev w)"

fun object_runnable :: "'a object_event list \<Rightarrow> 'a channel_objects \<Rightarrow> bool" where
  "object_runnable [] w \<longleftrightarrow> True"
| "object_runnable (ev # evs) w \<longleftrightarrow> object_enabled ev w \<and> object_runnable evs (object_step ev w)"

section \<open>Invariant\<close>

definition owned_or_closed :: "'a channel_objects \<Rightarrow> nat \<Rightarrow> bool" where
  "owned_or_closed w h \<longleftrightarrow> (\<exists>f. ch_sim (co_heap w h) f \<and> (ff_closed f \<or> (\<exists>i. co_state w i = Some h)))"

definition objects_inv :: "'a channel_objects \<Rightarrow> bool" where
  "objects_inv w \<longleftrightarrow> (\<forall>h < co_next w. owned_or_closed w h) \<and> (\<forall>i h. co_state w i = Some h \<longrightarrow> h < co_next w) \<and>
     (\<forall>i j h. co_state w i = Some h \<longrightarrow> co_state w j = Some h \<longrightarrow> i = j)"

lemma objects_invD:
  "objects_inv w \<Longrightarrow> co_state w i = Some h \<Longrightarrow> h < co_next w"
  "objects_inv w \<Longrightarrow> co_state w i = Some h \<Longrightarrow> co_state w j = Some h \<Longrightarrow> i = j"
  "objects_inv w \<Longrightarrow> h < co_next w \<Longrightarrow> owned_or_closed w h"
  by (auto simp: objects_inv_def)

lemma fifo_closed_stays: "ff_closed f \<Longrightarrow> ff_closed (snd (fifo_step ev f))"
  by (cases ev) (auto simp: ff_put_def split: list.splits)

text \<open>Closing through an object: the channel is closed, everything else is as before.\<close>

lemma close_noexcept_inv:
  assumes "objects_inv w"
  shows "objects_inv (close_noexcept i w) \<and> co_state (close_noexcept i w) = co_state w \<and> co_next (close_noexcept i w) = co_next w \<and>
    (\<forall>h. co_state w i = Some h \<longrightarrow> (\<exists>f. ch_sim (co_heap (close_noexcept i w) h) f \<and> ff_closed f))"
proof (cases "co_state w i")
  case None
  with assms show ?thesis by (simp add: close_noexcept_def)
next
  case (Some h)
  from objects_invD(3) [OF assms objects_invD(1) [OF assms Some]] obtain f where f: "ch_sim (co_heap w h) f"
    by (auto simp: owned_or_closed_def)
  from notifications.shut_sim [OF f] have s: "ch_sim (snd (close_channel (co_heap w h))) (snd (fifo_step Ce_close f))" by blast
  have c: "close_noexcept i w = w\<lparr>co_heap := (co_heap w)(h := snd (close_channel (co_heap w h)))\<rparr>"
    using Some by (simp add: close_noexcept_def object_close_def channel_with_def require_state_def case_prod_beta)
  have "ff_closed (snd (fifo_step Ce_close f))" by simp
  with s assms c Some show ?thesis by (auto simp: objects_inv_def owned_or_closed_def)
qed

lemma owned_or_closed_moved:
  assumes "i \<noteq> j" and "co_state w i \<noteq> Some h" and "owned_or_closed w h"
  shows "owned_or_closed (channel_move i j w) h"
proof -
  from assms(3) obtain f where f: "ch_sim (co_heap w h) f" "ff_closed f \<or> (\<exists>k. co_state w k = Some h)" by (auto simp: owned_or_closed_def)
  have "\<exists>k'. co_state (channel_move i j w) k' = Some h" if "co_state w k = Some h" for k
    using that assms(1,2) by (intro exI [of _ "if k = j then i else k"]) (auto simp: channel_move_def)
  moreover have "co_heap (channel_move i j w) = co_heap w" by (simp add: channel_move_def)
  ultimately show ?thesis using f by (auto simp: owned_or_closed_def)
qed

lemma objects_inv_step:
  assumes "objects_inv w" and "object_enabled ev w"
  shows "objects_inv (object_step ev w)"
proof (cases ev)
  case (Oe_new init_rc capacity i)
  have "ch_sim (new_chan_world capacity) (new_fifo capacity)" unfolding new_fifo_def by (rule ch_sim_new)
  then have n: "owned_or_closed w' (co_next w)" if "co_heap w' (co_next w) = new_chan_world capacity" "co_state w' i = Some (co_next w)" for w'
    using that by (auto simp: owned_or_closed_def)
  show ?thesis
  proof (cases init_rc)
    case Uv_ok
    define w1 where "w1 = object_step ev w"
    have w: "co_state w1 = (co_state w)(i := Some (co_next w))" "co_heap w1 = (co_heap w)(co_next w := new_chan_world capacity)" "co_next w1 = Suc (co_next w)"
      by (simp_all add: w1_def Oe_new Uv_ok channel_new_def construct_channel_def)
    from assms(2) Oe_new have fresh: "co_state w i = None" by simp
    have o1: "owned_or_closed w1 h" if h: "h < co_next w" for h
    proof -
      from objects_invD(3) [OF assms(1) h] obtain f where f: "ch_sim (co_heap w h) f" "ff_closed f \<or> (\<exists>k. co_state w k = Some h)"
        by (auto simp: owned_or_closed_def)
      have "co_heap w1 h = co_heap w h" using h by (simp add: w)
      moreover have "\<exists>k. co_state w1 k = Some h" if "co_state w k = Some h" for k
        using that fresh by (intro exI [of _ k]) (auto simp: w)
      ultimately show ?thesis using f by (auto simp: owned_or_closed_def)
    qed
    have "owned_or_closed w1 (co_next w)" using n [of w1] by (simp add: w)
    moreover have "co_state w k \<noteq> Some (co_next w)" for k using objects_invD(1) [OF assms(1), of k "co_next w"] by auto
    ultimately have "objects_inv w1" using assms(1) o1 by (auto simp: objects_inv_def w less_Suc_eq)
    then show ?thesis by (simp add: w1_def)
  next
    case (Uv_err e)
    with assms show ?thesis by (simp add: Oe_new channel_new_def construct_channel_def)
  qed
next
  case (Oe_move i j)
  from assms(2) Oe_move have m: "i \<noteq> j" "co_state w i = None" by auto
  have "owned_or_closed (channel_move i j w) h" if "owned_or_closed w h" for h
    using owned_or_closed_moved [OF m(1) _ that] m(2) by simp
  with assms Oe_move show ?thesis by (auto simp: objects_inv_def channel_move_def split: if_splits)
next
  case (Oe_assign i j)
  note c = close_noexcept_inv [OF assms(1), of i]
  show ?thesis
  proof (cases "i = j")
    case False
    have "owned_or_closed (channel_move i j (close_noexcept i w)) h" if "h < co_next w" for h
    proof (cases "co_state w i = Some h")
      case True
      with c show ?thesis by (auto simp: owned_or_closed_def channel_move_def)
    next
      case ni: False
      from c objects_invD(3) [of "close_noexcept i w" h] that have "owned_or_closed (close_noexcept i w) h" by simp
      with ni c False show ?thesis by (intro owned_or_closed_moved) simp_all
    qed
    with c False Oe_assign show ?thesis
      by (auto simp: objects_inv_def channel_assign_def channel_move_def split: if_splits)
  qed (use assms Oe_assign in \<open>simp add: channel_assign_def\<close>)
next
  case (Oe_destroy i)
  note c = close_noexcept_inv [OF assms(1), of i]
  have "owned_or_closed (channel_destroy i w) h" if "h < co_next w" for h
  proof (cases "co_state w i = Some h")
    case True
    with c show ?thesis by (auto simp: owned_or_closed_def channel_destroy_def Let_def)
  next
    case False
    from c objects_invD(3) [of "close_noexcept i w" h] that have "owned_or_closed (close_noexcept i w) h" by simp
    with False c show ?thesis by (fastforce simp: owned_or_closed_def channel_destroy_def Let_def)
  qed
  with c Oe_destroy show ?thesis by (auto simp: objects_inv_def channel_destroy_def Let_def split: if_splits)
next
  case (Oe_operation i cev)
  show ?thesis
  proof (cases "co_state w i")
    case None
    with assms Oe_operation show ?thesis by (simp add: channel_with_def require_state_def)
  next
    case (Some h)
    from objects_invD(3) [OF assms(1) objects_invD(1) [OF assms(1) Some]] obtain f where f: "ch_sim (co_heap w h) f"
      by (auto simp: owned_or_closed_def)
    with assms(2) Oe_operation Some have "ch_enabled cev (co_heap w h) f" by simp
    from step_sim [OF f this] have s: "ch_sim (snd (ch_step cev (co_heap w h))) (snd (fifo_step cev f))" by auto
    have w: "object_step ev w = w\<lparr>co_heap := (co_heap w)(h := snd (ch_step cev (co_heap w h)))\<rparr>"
      using Some Oe_operation by (simp add: channel_with_def require_state_def case_prod_beta)
    from s assms(1) Some show ?thesis unfolding w by (auto simp: objects_inv_def owned_or_closed_def)
  qed
qed

lemma objects_inv_run: "objects_inv w \<Longrightarrow> object_runnable evs w \<Longrightarrow> objects_inv (object_run evs w)"
  by (induction evs arbitrary: w) (simp_all add: objects_inv_step)

lemma objects_inv_new: "objects_inv no_channels"
  by (simp add: objects_inv_def no_channels_def)

text \<open>
  C37. Whatever a program does with its channel objects, a channel has at most one of them, and a channel
  that has none is closed, so nobody is left waiting on it for ever.
\<close>

theorem channel_owned_or_closed:
  assumes "object_runnable evs no_channels" and "object_run evs no_channels = w" and "h < co_next w"
  shows "(\<forall>i j. co_state w i = Some h \<longrightarrow> co_state w j = Some h \<longrightarrow> i = j) \<and>
    ((\<forall>i. co_state w i \<noteq> Some h) \<longrightarrow> channel_is_closed (co_heap w h))"
proof -
  have i: "objects_inv w" using objects_inv_run [OF objects_inv_new assms(1)] assms(2) by simp
  from objects_invD(3) [OF i assms(3)] obtain f where "ch_sim (co_heap w h) f" "ff_closed f \<or> (\<exists>k. co_state w k = Some h)"
    by (auto simp: owned_or_closed_def)
  then have "channel_is_closed (co_heap w h)" if "\<forall>k. co_state w k \<noteq> Some h" using that by (auto simp: ch_sim_def channel_is_closed_def)
  with objects_invD(2) [OF i, of _ h] show ?thesis by blast
qed

lemma channel_with_objects [simp]:
  "co_state (snd (channel_with op i w)) = co_state w" "co_next (snd (channel_with op i w)) = co_next w"
  by (simp_all add: channel_with_def case_prod_beta split: sum.split)

lemma close_noexcept_objects [simp]:
  "co_state (close_noexcept i w) = co_state w" "co_next (close_noexcept i w) = co_next w"
  by (simp_all add: close_noexcept_def object_close_def)

lemma object_step_pointers:
  "co_state (object_step (Oe_new Uv_ok n i) w) = (co_state w)(i := Some (co_next w))"
  "co_next (object_step (Oe_new Uv_ok n i) w) = Suc (co_next w)"
  "co_state (object_step (Oe_move i j) w) = (co_state w)(i := co_state w j, j := None)"
  "co_next (object_step (Oe_move i j) w) = co_next w"
  "co_state (object_step (Oe_assign i j) w) = (if i = j then co_state w else (co_state w)(i := co_state w j, j := None))"
  "co_next (object_step (Oe_assign i j) w) = co_next w"
  "co_state (object_step (Oe_operation i ev) w) = co_state w"
  "co_next (object_step (Oe_operation i ev) w) = co_next w"
  by (simp_all add: channel_new_def construct_channel_def channel_move_def channel_assign_def)

text \<open>
  A channel is made, handed on, and its object assigned a second channel: the first is closed, the second
  is owned by the object it was moved to.
\<close>

definition objects_example :: "nat object_event list" where
  "objects_example = [Oe_new Uv_ok 2 0, Oe_move 1 0, Oe_new Uv_ok 3 2, Oe_operation 0 (Ce_try_send True 7), Oe_assign 1 2]"

theorem channel_owned_or_closed_witness:
  "channel_is_closed (co_heap (object_run objects_example no_channels) 0) \<and>
   co_state (object_run objects_example no_channels) 1 = Some 1"
proof -
  have r: "object_runnable objects_example no_channels"
    by (simp add: objects_example_def no_channels_def object_step_pointers del: object_step.simps)
  have n: "co_next (object_run objects_example no_channels) = 2" and
    o: "co_state (object_run objects_example no_channels) = (\<lambda>_. None)(1 := Some 1)"
    by (auto simp: objects_example_def no_channels_def object_step_pointers simp del: object_step.simps)
  have "(0::nat) < co_next (object_run objects_example no_channels)" unfolding n by simp
  from conjunct2 [OF channel_owned_or_closed [OF r refl this]]
  have "channel_is_closed (co_heap (object_run objects_example no_channels) 0)" unfolding o by simp
  moreover have "co_state (object_run objects_example no_channels) 1 = Some 1" unfolding o by simp
  ultimately show ?thesis ..
qed

end
