(* ===== verification/Tty.thy ===== *)
theory Tty
  imports Pipe_Client File_Ops
begin

text \<open>
  \<open>tty_stream\<close> of \<open>src/tty.cpp\<close>. Its handles and descriptors live in the loop of \<open>Pipe_Client\<close>; unlike a pipe
  it is closed on the loop before \<open>close\<close> returns. Reads and writes are guarded calls of
  \<open>src/stream_ops.hpp\<close>, run to completion.
\<close>

section \<open>Descriptors\<close>

text \<open>The answers of \<open>uv_guess_handle\<close>.\<close>

datatype uv_handle_type = UV_UNKNOWN_HANDLE | UV_TTY | UV_NAMED_PIPE | UV_FILE | UV_TCP | UV_UDP

definition guess_handle :: "(int \<Rightarrow> uv_handle_type) \<Rightarrow> int \<Rightarrow> uv_handle_type" where
  "guess_handle uv_guess_handle fd = uv_guess_handle fd"

definition is_tty :: "(int \<Rightarrow> uv_handle_type) \<Rightarrow> int \<Rightarrow> bool" where
  "is_tty uv_guess_handle fd \<longleftrightarrow> guess_handle uv_guess_handle fd = UV_TTY"

section \<open>The stream object\<close>

record tty_stream =
  ts_runtime :: bool
  ts_handle :: "nat option"
  ts_fd :: int
  ts_readable :: bool

definition tty_stream_new :: tty_stream where
  "tty_stream_new = \<lparr>ts_runtime = True, ts_handle = None, ts_fd = - 1, ts_readable = False\<rparr>"

definition tty_is_open :: "tty_stream \<Rightarrow> bool" where
  "tty_is_open t \<longleftrightarrow> ts_handle t \<noteq> None"

definition tty_writable :: "tty_stream \<Rightarrow> bool" where
  "tty_writable t \<longleftrightarrow> tty_is_open t \<and> \<not> ts_readable t"

definition tty_moved_from :: tty_stream where
  "tty_moved_from = \<lparr>ts_runtime = False, ts_handle = None, ts_fd = - 1, ts_readable = False\<rparr>"

definition tty_move :: "tty_stream \<Rightarrow> tty_stream \<times> tty_stream" where
  "tty_move other =
     (\<lparr>ts_runtime = ts_runtime other, ts_handle = ts_handle other, ts_fd = ts_fd other, ts_readable = ts_readable other\<rparr>,
      tty_moved_from)"

text \<open>
  Closing is a function called on the loop; \<open>call_rc\<close> is an exception of \<open>call\<close> itself, which then does
  not run it. The object has forgotten the handle before.
\<close>

definition tty_close_call :: "exn option \<Rightarrow> nat \<Rightarrow> pipe_loop \<Rightarrow> unit result \<times> pipe_loop" where
  "tty_close_call call_rc handle l =
     (case call_rc of
        Some e \<Rightarrow> (Inl e, l)
      | None \<Rightarrow> (Inr (),
          if 0 < pl_closes l handle then l else l\<lparr>pl_closes := (pl_closes l)(handle := Suc (pl_closes l handle))\<rparr>))"

definition tty_forget :: "tty_stream \<Rightarrow> tty_stream" where
  "tty_forget t = t\<lparr>ts_handle := None, ts_fd := - 1, ts_readable := False\<rparr>"

definition tty_close_sync_noexcept :: "exn option \<Rightarrow> tty_stream \<Rightarrow> pipe_loop \<Rightarrow> tty_stream \<times> pipe_loop" where
  "tty_close_sync_noexcept call_rc t l =
     (if \<not> ts_runtime t then (t, l)
      else (case ts_handle t of
              None \<Rightarrow> (t, l)
            | Some handle \<Rightarrow> (tty_forget t, snd (tty_close_call call_rc handle l))))"

definition tty_assign :: "bool \<Rightarrow> exn option \<Rightarrow> tty_stream \<Rightarrow> tty_stream \<Rightarrow> pipe_loop \<Rightarrow> tty_stream \<times> tty_stream \<times> pipe_loop" where
  "tty_assign same_object call_rc this other l =
     (if same_object then (this, other, l)
      else (fst (tty_move other), tty_moved_from, snd (tty_close_sync_noexcept call_rc this l)))"

definition tty_close :: "bool \<Rightarrow> exn option \<Rightarrow> tty_stream \<Rightarrow> pipe_loop \<Rightarrow> unit result \<times> tty_stream \<times> pipe_loop" where
  "tty_close stop_requested call_rc t l =
     (if stop_requested then (Inl Operation_cancelled, t, l)
      else (case ts_handle t of
              None \<Rightarrow> (Inr (), t, l)
            | Some handle \<Rightarrow> (case tty_close_call call_rc handle l of (r, l) \<Rightarrow> (r, tty_forget t, l))))"

section \<open>Opening\<close>

text \<open>
  What opening a descriptor meets: whether the token is stopped before the old stream is closed, the
  exceptions of \<open>call\<close> while closing and while opening, and the answers of \<open>dup\<close>, of the \<open>init\<close> function
  and, for a pipe, of \<open>uv_pipe_open\<close>.
\<close>

record open_answers =
  oa_stop_meanwhile :: bool
  oa_close_call :: "exn option"
  oa_dup :: "uv_errno + int"
  oa_call :: "exn option"
  oa_init :: uv_status
  oa_open :: uv_status

text \<open>
  A handle that \<open>uv_tty_init\<close> refuses is not in the loop, and is deleted. What libuv does with the
  descriptor of a terminal (it may reopen the device) is not modelled: \<open>pl_fds\<close> follows the descriptors
  that the program itself opens and closes, and those of pipes.
\<close>

definition tty_open_call :: "exn option \<Rightarrow> uv_status \<Rightarrow> pipe_loop \<Rightarrow> nat result \<times> pipe_loop" where
  "tty_open_call call_rc init_rc l =
     (case call_rc of
        Some e \<Rightarrow> (Inl e, l)
      | None \<Rightarrow>
          (case init_rc of
             Uv_err e \<Rightarrow> (throw_uv_error e ''uv_tty_init'', l)
           | Uv_ok \<Rightarrow> (Inr (pl_next l), l\<lparr>pl_next := Suc (pl_next l)\<rparr>)))"

definition tty_open :: "(int \<Rightarrow> uv_handle_type) \<Rightarrow> bool \<Rightarrow> open_answers \<Rightarrow> int \<Rightarrow> bool \<Rightarrow> tty_stream \<Rightarrow> pipe_loop
    \<Rightarrow> unit result \<times> tty_stream \<times> pipe_loop" where
  "tty_open guess stop_requested a fd readable t l =
     (if stop_requested then (Inl Operation_cancelled, t, l)
      else if \<not> is_tty guess fd then (Inl (Runtime_error ''requested file descriptor is not a tty''), t, l)
      else (case (if tty_is_open t then tty_close (oa_stop_meanwhile a) (oa_close_call a) t l else (Inr (), t, l)) of
              (Inl e, t, l) \<Rightarrow> (Inl e, t, l)
            | (Inr _, t, l) \<Rightarrow>
                (case duplicate_file_descriptor (oa_dup a) l of
                   (Inl e, l) \<Rightarrow> (Inl e, t, l)
                 | (Inr dup_fd, l) \<Rightarrow>
                     (case tty_open_call (oa_call a) (oa_init a) l of
                        (Inl e, l) \<Rightarrow> (Inl e, t, close_file_descriptor_noexcept dup_fd l)
                      | (Inr handle, l) \<Rightarrow> (Inr (), t\<lparr>ts_handle := Some handle, ts_fd := dup_fd, ts_readable := readable\<rparr>, l)))))"

section \<open>Operations of an open stream\<close>

text \<open>\<open>uv_write\<close>, \<open>uv_read_some\<close> and the others are the operations of \<open>src/stream_ops.hpp\<close> on the stream's handle.\<close>

definition tty_write_guard :: "tty_stream \<Rightarrow> unit result" where
  "tty_write_guard t =
     (if \<not> tty_is_open t then Inl (Runtime_error ''tty stream is not open'')
      else if ts_readable t then Inl (Runtime_error ''tty stream was opened as readable'')
      else Inr ())"

definition tty_read_guard :: "tty_stream \<Rightarrow> unit result" where
  "tty_read_guard t =
     (if \<not> tty_is_open t then Inl (Runtime_error ''tty stream is not open'')
      else if \<not> ts_readable t then Inl (Runtime_error ''tty stream was not opened as readable'')
      else Inr ())"

definition tty_write :: "'s write_fun \<Rightarrow> tty_stream \<Rightarrow> 's write_fun" where
  "tty_write uv_write t data s = (case tty_write_guard t of Inl e \<Rightarrow> (Inl e, s) | Inr _ \<Rightarrow> uv_write data s)"

definition tty_write_some :: "'s write_fun \<Rightarrow> tty_stream \<Rightarrow> 's write_fun" where
  "tty_write_some uv_write_some t data s = (case tty_write_guard t of Inl e \<Rightarrow> (Inl e, s) | Inr _ \<Rightarrow> uv_write_some data s)"

definition tty_read_some :: "'s read_fun \<Rightarrow> tty_stream \<Rightarrow> 's read_fun" where
  "tty_read_some uv_read_some t max_bytes s = (case tty_read_guard t of Inl e \<Rightarrow> (Inl e, s) | Inr _ \<Rightarrow> uv_read_some max_bytes s)"

definition tty_read_some_into :: "'s read_fun \<Rightarrow> tty_stream \<Rightarrow> 's read_fun" where
  "tty_read_some_into uv_read_some_into t buffer_size s =
     (case tty_read_guard t of Inl e \<Rightarrow> (Inl e, s) | Inr _ \<Rightarrow> uv_read_some_into buffer_size s)"

text \<open>The loops are the same code as for TCP.\<close>

definition tty_read_exact :: "'s read_fun \<Rightarrow> ('s \<Rightarrow> bool) \<Rightarrow> tty_stream \<Rightarrow> nat \<Rightarrow> 's \<Rightarrow> string result \<times> 's" where
  "tty_read_exact uv_read_some stop t total_bytes s =
     tcp_read_exact_loop (tty_read_some uv_read_some t) stop total_bytes [] s"

definition tty_read_exact_into :: "'s read_fun \<Rightarrow> ('s \<Rightarrow> bool) \<Rightarrow> tty_stream \<Rightarrow> nat \<Rightarrow> 's \<Rightarrow> (nat \<times> string) result \<times> 's" where
  "tty_read_exact_into uv_read_some_into stop t buffer_size s =
     tcp_read_exact_into_loop (tty_read_some_into uv_read_some_into t) stop buffer_size [] s"

text \<open>The mode and the size; \<open>rc\<close> and \<open>winsize\<close> are libuv's answers on the loop.\<close>

definition tty_set_mode :: "bool \<Rightarrow> exn option \<Rightarrow> uv_status \<Rightarrow> tty_stream \<Rightarrow> unit result" where
  "tty_set_mode stop_requested call_rc rc t =
     (if \<not> tty_is_open t then Inl (Runtime_error ''tty stream is not open'')
      else if stop_requested then Inl Operation_cancelled
      else (case call_rc of
              Some e \<Rightarrow> Inl e
            | None \<Rightarrow> (case rc of Uv_err e \<Rightarrow> throw_uv_error e ''uv_tty_set_mode'' | Uv_ok \<Rightarrow> Inr ())))"

definition tty_winsize :: "exn option \<Rightarrow> uv_errno + int \<times> int \<Rightarrow> tty_stream \<Rightarrow> (int \<times> int) result" where
  "tty_winsize call_rc get_winsize t =
     (if \<not> ts_runtime t \<or> ts_handle t = None then Inl (Runtime_error ''tty stream is not open'')
      else (case call_rc of
              Some e \<Rightarrow> Inl e
            | None \<Rightarrow> (case get_winsize of Inl e \<Rightarrow> throw_uv_error e ''uv_tty_get_winsize'' | Inr ws \<Rightarrow> Inr ws)))"

definition reset_tty_mode :: "bool \<Rightarrow> exn option \<Rightarrow> uv_status \<Rightarrow> unit result" where
  "reset_tty_mode stop_requested call_rc rc =
     (if stop_requested then Inl Operation_cancelled
      else (case call_rc of
              Some e \<Rightarrow> Inl e
            | None \<Rightarrow> (case rc of Uv_err e \<Rightarrow> throw_uv_error e ''uv_tty_reset_mode'' | Uv_ok \<Rightarrow> Inr ())))"

section \<open>Lemmas\<close>

text \<open>
  \<open>open\<close> gives the duplicated descriptor back when it throws, and no handle that the loop knows is
  deleted, which \<open>pipe_client::open\<close> does.
\<close>

lemma tty_open_descriptors:
  assumes "tty_open guess stop a fd readable t l = (r, t', l')" and "\<forall>d. oa_dup a = Inr d \<longrightarrow> 0 \<le> d"
  shows "pl_freed l' = pl_freed l \<and>
    (case r of
       Inl e \<Rightarrow> pl_fds l' = pl_fds l \<and> (t' = t \<or> t' = tty_forget t)
     | Inr _ \<Rightarrow> (\<exists>d. oa_dup a = Inr d \<and> pl_fds l' = d # pl_fds l \<and> ts_fd t' = d) \<and> ts_handle t' = Some (pl_next l) \<and> ts_readable t' = readable)"
  using assms
  by (auto simp: tty_open_def tty_close_def tty_close_call_def duplicate_file_descriptor_def tty_open_call_def
      close_file_descriptor_noexcept_def split: if_splits option.splits uv_status.splits sum.splits)

text \<open>
  When \<open>call\<close> fails in \<open>close\<close>, the stream has forgotten the handle, which nothing closes any more.
\<close>

lemma tty_close_call_failure_leaks:
  assumes "ts_handle t = Some h" and "tty_close False (Some e) t l = (r, t', l')"
  shows "r = Inl e \<and> ts_handle t' = None \<and> l' = l"
  using assms by (auto simp: tty_close_def tty_close_call_def tty_forget_def)

lemma tty_read_exact_eq:
  assumes "tty_read_guard t = Inr ()" and "tc_connected c" and "tc_handle c \<noteq> None"
  shows "tty_read_exact rd stop t n s = tcp_read_exact rd stop c n s"
proof -
  have "tty_read_some rd t = tcp_read_some rd c"
    using assms by (auto simp: fun_eq_iff tty_read_some_def tcp_read_some_def not_connected_def)
  then show ?thesis by (simp add: tty_read_exact_def tcp_read_exact_def)
qed

end
