(* ===== verification/Stdio.thy ===== *)
theory Stdio
  imports Tty
begin

text \<open>
  \<open>stdio_stream\<close> of \<open>src/stdio.cpp\<close>: a terminal, a pipe or a file behind one interface, chosen by what the
  descriptor is. The three backends are optional members; a backend's constructor and destructor run
  when the member is emplaced, assigned or reset. The world is the loop with its handles and
  descriptors, and the state \<open>'w\<close> of the operating system that the file's requests change.
\<close>

section \<open>The stream object\<close>

datatype stdio_kind = Stdio_none | Stdio_tty | Stdio_pipe | Stdio_file

fun stdio_kind_to_string :: "stdio_kind \<Rightarrow> string" where
  "stdio_kind_to_string Stdio_none = ''none''"
| "stdio_kind_to_string Stdio_tty = ''tty''"
| "stdio_kind_to_string Stdio_pipe = ''pipe''"
| "stdio_kind_to_string Stdio_file = ''file''"

record stdio_stream =
  so_kind :: stdio_kind
  so_guessed_handle :: uv_handle_type
  so_readable :: bool
  so_tty :: "tty_stream option"
  so_pipe :: "pipe_client option"
  so_file :: "fs_file option"

type_synonym 'w console = "pipe_loop \<times> 'w"

definition stdio_new :: stdio_stream where
  "stdio_new = \<lparr>so_kind = Stdio_none, so_guessed_handle = UV_UNKNOWN_HANDLE, so_readable = False,
     so_tty = None, so_pipe = None, so_file = None\<rparr>"

definition stdio_is_open :: "stdio_stream \<Rightarrow> bool" where
  "stdio_is_open s \<longleftrightarrow> so_kind s \<noteq> Stdio_none"

definition stdio_writable :: "stdio_stream \<Rightarrow> bool" where
  "stdio_writable s \<longleftrightarrow> stdio_is_open s \<and> \<not> so_readable s"

definition stdio_reset_state :: "stdio_stream \<Rightarrow> stdio_stream" where
  "stdio_reset_state s = s\<lparr>so_kind := Stdio_none, so_guessed_handle := UV_UNKNOWN_HANDLE, so_readable := False\<rparr>"

text \<open>
  The destructors of the backends. An exception of \<open>call\<close> is swallowed; \<open>call_rc\<close> is that of the
  terminal's.
\<close>

definition drop_tty :: "exn option \<Rightarrow> tty_stream option \<Rightarrow> pipe_loop \<Rightarrow> pipe_loop" where
  "drop_tty call_rc t l = (case t of None \<Rightarrow> l | Some t \<Rightarrow> snd (tty_close_sync_noexcept call_rc t l))"

definition drop_pipe :: "pipe_client option \<Rightarrow> pipe_loop \<Rightarrow> pipe_loop" where
  "drop_pipe p l = (case p of None \<Rightarrow> l | Some p \<Rightarrow> snd (pipe_client_close p l))"

definition drop_file :: "'w uv_fs \<Rightarrow> fs_file option \<Rightarrow> 'w \<Rightarrow> 'w" where
  "drop_file os f w = (case f of None \<Rightarrow> w | Some f \<Rightarrow> snd (file_close_sync_noexcept os (f, w)))"

section \<open>Moving\<close>

text \<open>
  Moving an optional member moves what is inside; the source keeps a backend that was moved from.
\<close>

definition stdio_moved_from :: "stdio_stream \<Rightarrow> stdio_stream" where
  "stdio_moved_from other = stdio_reset_state (other\<lparr>
     so_tty := map_option (\<lambda>t. snd (tty_move t)) (so_tty other),
     so_pipe := map_option (\<lambda>p. snd (pipe_client_move p)) (so_pipe other),
     so_file := map_option (\<lambda>f. snd (file_move f)) (so_file other)\<rparr>)"

definition stdio_move :: "stdio_stream \<Rightarrow> stdio_stream \<times> stdio_stream" where
  "stdio_move other =
     (\<lparr>so_kind = so_kind other, so_guessed_handle = so_guessed_handle other, so_readable = so_readable other,
       so_tty = map_option (\<lambda>t. fst (tty_move t)) (so_tty other),
       so_pipe = map_option (\<lambda>p. fst (pipe_client_move p)) (so_pipe other),
       so_file = map_option (\<lambda>f. fst (file_move f)) (so_file other)\<rparr>,
      stdio_moved_from other)"

text \<open>
  Assigning an optional member assigns to the value inside when there is one on both sides, and
  otherwise destroys the old value or constructs the new one; each way the old backend is closed.
\<close>

definition stdio_assign :: "'w uv_fs \<Rightarrow> bool \<Rightarrow> exn option \<Rightarrow> stdio_stream \<Rightarrow> stdio_stream \<Rightarrow> 'w console
    \<Rightarrow> stdio_stream \<times> stdio_stream \<times> 'w console" where
  "stdio_assign os same_object call_rc this other w =
     (if same_object then (this, other, w)
      else (fst (stdio_move other), stdio_moved_from other,
            drop_pipe (so_pipe this) (drop_tty call_rc (so_tty this) (fst w)), drop_file os (so_file this) (snd w)))"

section \<open>Closing and opening\<close>

definition stdio_close :: "'w uv_fs \<Rightarrow> bool \<Rightarrow> open_answers \<Rightarrow> stdio_stream \<Rightarrow> 'w console \<Rightarrow> unit result \<times> stdio_stream \<times> 'w console" where
  "stdio_close os stop_requested a s w =
     (case so_kind s of
        Stdio_none \<Rightarrow> (Inr (), stdio_reset_state s, w)
      | Stdio_tty \<Rightarrow>
          (case so_tty s of
             None \<Rightarrow> (Inr (), stdio_reset_state s, w)
           | Some t \<Rightarrow>
               (case tty_close stop_requested (oa_close_call a) t (fst w) of
                  (Inl e, t, l) \<Rightarrow> (Inl e, s\<lparr>so_tty := Some t\<rparr>, l, snd w)
                | (Inr _, t, l) \<Rightarrow> (Inr (), stdio_reset_state (s\<lparr>so_tty := None\<rparr>), drop_tty (oa_close_call a) (Some t) l, snd w)))
      | Stdio_pipe \<Rightarrow>
          (case so_pipe s of
             None \<Rightarrow> (Inr (), stdio_reset_state s, w)
           | Some p \<Rightarrow>
               (case pipe_client_close p (fst w) of
                  (p, l) \<Rightarrow> (Inr (), stdio_reset_state (s\<lparr>so_pipe := None\<rparr>), drop_pipe (Some p) l, snd w)))
      | Stdio_file \<Rightarrow>
          (case so_file s of
             None \<Rightarrow> (Inr (), stdio_reset_state s, w)
           | Some f \<Rightarrow>
               (case file_close os (f, snd w) of
                  (Inl e, f, v) \<Rightarrow> (Inl e, s\<lparr>so_file := Some f\<rparr>, fst w, v)
                | (Inr _, f, v) \<Rightarrow> (Inr (), stdio_reset_state (s\<lparr>so_file := None\<rparr>), fst w, drop_file os (Some f) v))))"

text \<open>
  \<open>open\<close>. The backend is emplaced (its predecessor, left over from an open that failed, is destroyed),
  then opened, and only then is the kind set. The constructor of a pipe sets up a handle of its own.
\<close>

definition stdio_open_tty :: "(int \<Rightarrow> uv_handle_type) \<Rightarrow> bool \<Rightarrow> open_answers \<Rightarrow> int \<Rightarrow> bool \<Rightarrow> stdio_stream \<Rightarrow> 'w console
    \<Rightarrow> unit result \<times> stdio_stream \<times> 'w console" where
  "stdio_open_tty guess stop a fd readable s w =
     (case tty_open guess stop a fd readable tty_stream_new (drop_tty (oa_close_call a) (so_tty s) (fst w)) of
        (Inl e, t, l) \<Rightarrow> (Inl e, s\<lparr>so_tty := Some t\<rparr>, l, snd w)
      | (Inr _, t, l) \<Rightarrow> (Inr (), s\<lparr>so_tty := Some t, so_kind := Stdio_tty\<rparr>, l, snd w))"

definition stdio_open_pipe :: "bool \<Rightarrow> uv_status \<Rightarrow> open_answers \<Rightarrow> int \<Rightarrow> stdio_stream \<Rightarrow> 'w console
    \<Rightarrow> unit result \<times> stdio_stream \<times> 'w console" where
  "stdio_open_pipe stop new_rc a fd s w =
     (case pipe_client_new False new_rc (drop_pipe (so_pipe s) (fst w)) of
        (Inl e, l) \<Rightarrow> (Inl e, s\<lparr>so_pipe := None\<rparr>, l, snd w)
      | (Inr p, l) \<Rightarrow>
          (case pipe_open stop fd (oa_dup a) (oa_call a) (oa_init a) (oa_open a) p l of
             (Inl e, p, l) \<Rightarrow> (Inl e, s\<lparr>so_pipe := Some p\<rparr>, l, snd w)
           | (Inr _, p, l) \<Rightarrow> (Inr (), s\<lparr>so_pipe := Some p, so_kind := Stdio_pipe\<rparr>, l, snd w)))"

definition stdio_open_file :: "'w uv_fs \<Rightarrow> int \<Rightarrow> stdio_stream \<Rightarrow> 'w console \<Rightarrow> unit result \<times> stdio_stream \<times> 'w console" where
  "stdio_open_file os fd s w =
     (case file_open_fd os fd (new_file, drop_file os (so_file s) (snd w)) of
        (Inl e, f, v) \<Rightarrow> (Inl e, s\<lparr>so_file := Some f\<rparr>, fst w, v)
      | (Inr _, f, v) \<Rightarrow> (Inr (), s\<lparr>so_file := Some f, so_kind := Stdio_file\<rparr>, fst w, v))"

definition stdio_open :: "'w uv_fs \<Rightarrow> (int \<Rightarrow> uv_handle_type) \<Rightarrow> bool \<times> bool \<times> bool \<Rightarrow> uv_status \<Rightarrow> open_answers \<Rightarrow> int \<Rightarrow> bool
    \<Rightarrow> stdio_stream \<Rightarrow> 'w console \<Rightarrow> unit result \<times> stdio_stream \<times> 'w console" where
  "stdio_open os guess stops new_rc a fd readable s w =
     (case stops of
        (stop_first, stop_close, stop_open) \<Rightarrow>
          if stop_first then (Inl Operation_cancelled, s, w)
          else (case (if stdio_is_open s then stdio_close os stop_close a s w else (Inr (), s, w)) of
                  (Inl e, s, w) \<Rightarrow> (Inl e, s, w)
                | (Inr _, s, w) \<Rightarrow>
                    (let handle_type = guess_handle guess fd;
                         s = s\<lparr>so_guessed_handle := handle_type, so_readable := readable\<rparr>
                     in (case handle_type of
                           UV_TTY \<Rightarrow> stdio_open_tty guess stop_open a fd readable s w
                         | UV_NAMED_PIPE \<Rightarrow> stdio_open_pipe stop_open new_rc a fd s w
                         | UV_FILE \<Rightarrow> stdio_open_file os fd s w
                         | _ \<Rightarrow> (Inl (Runtime_error ''unsupported stdio handle type''), stdio_reset_state s, w)))))"

section \<open>Reading and writing\<close>

text \<open>
  \<open>tty_op\<close>, \<open>pipe_op\<close> and \<open>file_op\<close> are the operations of the backends, run to completion; only the file
  changes its object. A backend that is missing cannot be dereferenced; here that is the error of a
  kind that has none, and \<open>stdio_backend_present\<close> shows that it does not occur.
\<close>

definition stdio_dispatch :: "(tty_stream \<Rightarrow> 'v \<Rightarrow> 'r result \<times> 'v) \<Rightarrow> (pipe_client \<Rightarrow> 'v \<Rightarrow> 'r result \<times> 'v)
    \<Rightarrow> (fs_file \<times> 'v \<Rightarrow> 'r result \<times> fs_file \<times> 'v) \<Rightarrow> stdio_stream \<Rightarrow> 'v \<Rightarrow> 'r result \<times> stdio_stream \<times> 'v" where
  "stdio_dispatch tty_op pipe_op file_op s v =
     (case (so_kind s, so_tty s, so_pipe s, so_file s) of
        (Stdio_tty, Some t, _, _) \<Rightarrow> (case tty_op t v of (r, v) \<Rightarrow> (r, s, v))
      | (Stdio_pipe, _, Some p, _) \<Rightarrow> (case pipe_op p v of (r, v) \<Rightarrow> (r, s, v))
      | (Stdio_file, _, _, Some f) \<Rightarrow> (case file_op (f, v) of (r, f, v) \<Rightarrow> (r, s\<lparr>so_file := Some f\<rparr>, v))
      | _ \<Rightarrow> (Inl (Runtime_error ''stdio stream backend is not available''), s, v))"

definition stdio_to_write :: "(stdio_stream \<Rightarrow> 'v \<Rightarrow> 'r result \<times> stdio_stream \<times> 'v) \<Rightarrow> stdio_stream \<Rightarrow> 'v \<Rightarrow> 'r result \<times> stdio_stream \<times> 'v" where
  "stdio_to_write op s v =
     (if \<not> stdio_is_open s then (Inl (Runtime_error ''stdio stream is not open''), s, v)
      else if so_readable s then (Inl (Runtime_error ''stdio stream was opened as readable''), s, v)
      else op s v)"

definition stdio_to_read :: "(stdio_stream \<Rightarrow> 'v \<Rightarrow> 'r result \<times> stdio_stream \<times> 'v) \<Rightarrow> stdio_stream \<Rightarrow> 'v \<Rightarrow> 'r result \<times> stdio_stream \<times> 'v" where
  "stdio_to_read op s v =
     (if \<not> stdio_is_open s then (Inl (Runtime_error ''stdio stream is not open''), s, v)
      else if \<not> so_readable s then (Inl (Runtime_error ''stdio stream was opened as writable''), s, v)
      else op s v)"

text \<open>A pipe's \<open>write\<close> and \<open>read_some_into\<close>, run to completion over the stream's operation.\<close>

definition pipe_op :: "('a \<Rightarrow> 'v \<Rightarrow> 'r result \<times> 'v) \<Rightarrow> pipe_client \<Rightarrow> 'a \<Rightarrow> 'v \<Rightarrow> 'r result \<times> 'v" where
  "pipe_op stream_op c x v = (if pipe_not_connected c then (Inl pipe_not_connected_error, v) else stream_op x v)"

definition stdio_write :: "'v uv_fs \<Rightarrow> 'v write_fun \<Rightarrow> string \<Rightarrow> stdio_stream \<Rightarrow> 'v \<Rightarrow> nat result \<times> stdio_stream \<times> 'v" where
  "stdio_write os uv_write data =
     stdio_to_write (stdio_dispatch (\<lambda>t. tty_write uv_write t data) (\<lambda>p. pipe_op uv_write p data) (file_write os data))"

definition stdio_write_some :: "'v uv_fs \<Rightarrow> 'v write_fun \<Rightarrow> string \<Rightarrow> stdio_stream \<Rightarrow> 'v \<Rightarrow> nat result \<times> stdio_stream \<times> 'v" where
  "stdio_write_some os uv_write_some data =
     stdio_to_write (stdio_dispatch (\<lambda>t. tty_write_some uv_write_some t data) (\<lambda>p. pipe_op uv_write_some p data) (file_write_some os data))"

definition stdio_read_some :: "'v uv_fs \<Rightarrow> 'v read_fun \<Rightarrow> nat \<Rightarrow> stdio_stream \<Rightarrow> 'v \<Rightarrow> string result \<times> stdio_stream \<times> 'v" where
  "stdio_read_some os uv_read_some max_bytes =
     stdio_to_read (stdio_dispatch (\<lambda>t. tty_read_some uv_read_some t max_bytes) (\<lambda>p. pipe_read_some uv_read_some p max_bytes)
       (file_read_some os max_bytes))"

definition stdio_read_some_into :: "'v uv_fs \<Rightarrow> 'v read_fun \<Rightarrow> nat \<Rightarrow> stdio_stream \<Rightarrow> 'v \<Rightarrow> string result \<times> stdio_stream \<times> 'v" where
  "stdio_read_some_into os uv_read_some_into buffer_size =
     stdio_to_read (stdio_dispatch (\<lambda>t. tty_read_some_into uv_read_some_into t buffer_size) (\<lambda>p. pipe_op uv_read_some_into p buffer_size)
       (file_read_some_into os buffer_size))"

definition stdio_read_exact :: "'v uv_fs \<Rightarrow> 'v read_fun \<Rightarrow> nat \<Rightarrow> stdio_stream \<Rightarrow> 'v \<Rightarrow> string result \<times> stdio_stream \<times> 'v" where
  "stdio_read_exact os uv_read_some total_bytes =
     stdio_to_read (stdio_dispatch (\<lambda>t. tty_read_exact uv_read_some (os_stop os) t total_bytes)
       (\<lambda>p. pipe_read_exact uv_read_some (os_stop os) p total_bytes) (file_read_exact os total_bytes))"

definition stdio_read_exact_into :: "'v uv_fs \<Rightarrow> 'v read_fun \<Rightarrow> nat \<Rightarrow> stdio_stream \<Rightarrow> 'v \<Rightarrow> (nat \<times> string) result \<times> stdio_stream \<times> 'v" where
  "stdio_read_exact_into os uv_read_some_into buffer_size =
     stdio_to_read (stdio_dispatch (\<lambda>t. tty_read_exact_into uv_read_some_into (os_stop os) t buffer_size)
       (\<lambda>p. pipe_read_exact_into uv_read_some_into (os_stop os) p buffer_size) (file_read_exact_into_loop os buffer_size []))"

end
