(* ===== verification/Stdio_Runs.thy ===== *)
theory Stdio_Runs
  imports Stdio
begin

text \<open>
  Runs of one \<open>stdio_stream\<close>: it is opened on descriptors of any type, with any failures on the way, read,
  written and closed, while the loop runs the close jobs of its pipes. Who is responsible for a libuv
  handle is counted.
\<close>

section \<open>Runs\<close>

datatype stdio_event =
    Se_open "bool \<times> bool \<times> bool" uv_status open_answers int bool
  | Se_close bool open_answers
  | Se_write string
  | Se_read nat
  | Se_job

datatype stdio_outcome = Sr_unit "unit result" | Sr_written "nat result" | Sr_read "string result" | Sr_none

type_synonym 'w stdio_world = "stdio_stream \<times> 'w console"

text \<open>The reads and writes change the operating system's state.\<close>

fun stdio_step :: "'w uv_fs \<Rightarrow> (int \<Rightarrow> uv_handle_type) \<Rightarrow> 'w write_fun \<Rightarrow> 'w read_fun \<Rightarrow> stdio_event \<Rightarrow> 'w stdio_world
    \<Rightarrow> stdio_outcome \<times> 'w stdio_world" where
  "stdio_step os guess wr rd (Se_open stops new_rc a fd readable) (s, w) =
     (case stdio_open os guess stops new_rc a fd readable s w of (r, s, w) \<Rightarrow> (Sr_unit r, s, w))"
| "stdio_step os guess wr rd (Se_close stop a) (s, w) = (case stdio_close os stop a s w of (r, s, w) \<Rightarrow> (Sr_unit r, s, w))"
| "stdio_step os guess wr rd (Se_write data) (s, l, v) = (case stdio_write os wr data s v of (r, s, v) \<Rightarrow> (Sr_written r, s, l, v))"
| "stdio_step os guess wr rd (Se_read n) (s, l, v) = (case stdio_read_some os rd n s v of (r, s, v) \<Rightarrow> (Sr_read r, s, l, v))"
| "stdio_step os guess wr rd Se_job (s, l, v) = (Sr_none, s, pipe_run_job l, v)"

fun stdio_run :: "'w uv_fs \<Rightarrow> (int \<Rightarrow> uv_handle_type) \<Rightarrow> 'w write_fun \<Rightarrow> 'w read_fun \<Rightarrow> stdio_event list \<Rightarrow> 'w stdio_world
    \<Rightarrow> stdio_outcome list \<times> 'w stdio_world" where
  "stdio_run os guess wr rd [] w = ([], w)"
| "stdio_run os guess wr rd (ev # evs) w =
     (case stdio_step os guess wr rd ev w of (r, w) \<Rightarrow> (case stdio_run os guess wr rd evs w of (rs, w) \<Rightarrow> (r # rs, w)))"

text \<open>The runtime lives: it runs what it is asked to run while a terminal is closed.\<close>

fun close_call_runs :: "stdio_event \<Rightarrow> bool" where
  "close_call_runs (Se_open stops new_rc a fd readable) \<longleftrightarrow> oa_close_call a = None"
| "close_call_runs (Se_close stop a) \<longleftrightarrow> oa_close_call a = None"
| "close_call_runs ev \<longleftrightarrow> True"

definition fresh_loop :: pipe_loop where
  "fresh_loop = \<lparr>pl_runtime = new_runtime, pl_next = 0, pl_closes = (\<lambda>_. 0), pl_freed = [], pl_fds = [],
     pl_handle_fd = Map.empty\<rparr>"

section \<open>Responsibility for a handle\<close>

definition tty_has :: "nat \<Rightarrow> tty_stream option \<Rightarrow> nat" where
  "tty_has h t = (case t of None \<Rightarrow> 0 | Some t \<Rightarrow> of_bool (ts_handle t = Some h))"

definition pipe_has :: "nat \<Rightarrow> pipe_client option \<Rightarrow> nat" where
  "pipe_has h p = (case p of None \<Rightarrow> 0 | Some p \<Rightarrow> of_bool (pc_handle p = Some h))"

text \<open>Close jobs that wait, calls of \<open>uv_close\<close>, and deletions without one.\<close>

definition loop_has :: "nat \<Rightarrow> pipe_loop \<Rightarrow> nat" where
  "loop_has h l = count_list (rt_queue (pl_runtime l)) h + pl_closes l h + count_list (pl_freed l) h"

definition handle_counted :: "tty_stream option \<Rightarrow> pipe_client option \<Rightarrow> pipe_loop \<Rightarrow> bool" where
  "handle_counted t p l \<longleftrightarrow> \<not> rt_shutting_down (pl_runtime l) \<and>
     (\<forall>t'. t = Some t' \<longrightarrow> ts_runtime t') \<and> (\<forall>p'. p = Some p' \<longrightarrow> pc_runtime p') \<and>
     (\<forall>h. tty_has h t + pipe_has h p + loop_has h l = of_bool (h < pl_next l))"

text \<open>
  Whether the last \<open>open\<close> or \<open>close\<close> of a run threw. \<open>close\<close> of a file forgets the descriptor even when it
  throws, and the stream keeps its kind.
\<close>

fun last_switch_threw :: "bool \<Rightarrow> stdio_outcome list \<Rightarrow> bool" where
  "last_switch_threw b [] = b"
| "last_switch_threw b (Sr_unit r # rs) = last_switch_threw (isl r) rs"
| "last_switch_threw b (_ # rs) = last_switch_threw b rs"

definition kind_backed :: "bool \<Rightarrow> stdio_stream \<Rightarrow> bool" where
  "kind_backed b s \<longleftrightarrow>
     (case so_kind s of
        Stdio_none \<Rightarrow> True
      | Stdio_tty \<Rightarrow> (\<exists>t. so_tty s = Some t \<and> ts_handle t \<noteq> None \<and> ts_readable t = so_readable s)
      | Stdio_pipe \<Rightarrow> (\<exists>p. so_pipe s = Some p \<and> \<not> pipe_not_connected p)
      | Stdio_file \<Rightarrow> (\<exists>f. so_file s = Some f \<and> (file_is_open f \<or> b)))"

definition stdio_inv :: "bool \<Rightarrow> 'w stdio_world \<Rightarrow> bool" where
  "stdio_inv b w \<longleftrightarrow> kind_backed b (fst w) \<and> handle_counted (so_tty (fst w)) (so_pipe (fst w)) (fst (snd w))"

text \<open>What the handle functions do to the counts, each for one backend with the other beside it.\<close>

lemma counted_at: "handle_counted t p l \<Longrightarrow> tty_has h t + pipe_has h p + loop_has h l = of_bool (h < pl_next l)"
  by (simp add: handle_counted_def)

lemma counted_le: "handle_counted t p l \<Longrightarrow> tty_has h t + pipe_has h p + loop_has h l \<le> 1"
  by (simp add: counted_at)

lemma counted_drop_tty:
  assumes "handle_counted t p l"
  shows "handle_counted None p (drop_tty None t l) \<and> pl_fds (drop_tty None t l) = pl_fds l"
proof (cases "\<exists>t' h. t = Some t' \<and> ts_handle t' = Some h")
  case False
  then have "drop_tty None t l = l" "\<And>h. tty_has h t = tty_has h None"
    by (auto simp: tty_has_def drop_tty_def tty_close_sync_noexcept_def split: option.splits)
  with assms show ?thesis by (simp add: handle_counted_def)
next
  case True
  then obtain t' h where t: "t = Some t'" "ts_handle t' = Some h" by blast
  from counted_le [OF assms, of h] t have "pl_closes l h = 0" by (simp add: tty_has_def loop_has_def)
  with t assms have d: "drop_tty None t l = l\<lparr>pl_closes := (pl_closes l)(h := 1)\<rparr>"
    by (simp add: drop_tty_def tty_close_sync_noexcept_def tty_close_call_def handle_counted_def)
  have "loop_has k (l\<lparr>pl_closes := (pl_closes l)(h := 1)\<rparr>) = loop_has k l + tty_has k t" for k
    using t \<open>pl_closes l h = 0\<close> by (simp add: loop_has_def tty_has_def)
  moreover have "tty_has k None = 0" for k by (simp add: tty_has_def)
  ultimately show ?thesis using assms unfolding d by (auto simp: handle_counted_def add_ac)
qed

lemma counted_pipe_close:
  assumes "handle_counted t (Some p) l" and "pipe_client_close p l = (p', l')"
  shows "handle_counted t (Some p') l' \<and> pc_handle p' = None \<and> handle_counted t None l'"
proof (cases "pc_handle p")
  case None
  with assms show ?thesis by (auto simp: pipe_client_close_def handle_counted_def pipe_has_def)
next
  case (Some h)
  have r: "pc_runtime p" and q: "\<not> rt_shutting_down (pl_runtime l)" using assms(1) by (simp_all add: handle_counted_def)
  from assms(2) r Some have p': "p' = p\<lparr>pc_handle := None, pc_connected := False\<rparr>"
    and l': "l' = l\<lparr>pl_runtime := snd (post h (pl_runtime l))\<rparr>" by (auto simp: pipe_client_close_def)
  have "loop_has k l' = loop_has k l + pipe_has k (Some p)" for k
    using Some q by (simp add: l' loop_has_def pipe_has_def post_queue)
  moreover have "pipe_has k (Some p') = 0" "pipe_has k None = 0" for k by (simp_all add: pipe_has_def p')
  moreover have "pl_next l' = pl_next l" "rt_shutting_down (pl_runtime l') = rt_shutting_down (pl_runtime l)" by (simp_all add: l')
  ultimately show ?thesis using assms(1) by (auto simp: handle_counted_def p' add_ac)
qed

lemma counted_drop_pipe: "handle_counted t p l \<Longrightarrow> handle_counted t None (drop_pipe p l)"
  using counted_pipe_close by (cases p) (auto simp: drop_pipe_def, metis surjective_pairing)

lemma counted_fds [simp]:
  "handle_counted t p (l\<lparr>pl_fds := fds\<rparr>) = handle_counted t p l"
  "handle_counted t p (l\<lparr>pl_handle_fd := m\<rparr>) = handle_counted t p l"
  by (simp_all add: handle_counted_def loop_has_def)

text \<open>Two states of the loop that differ in the descriptors only.\<close>

definition same_handles :: "pipe_loop \<Rightarrow> pipe_loop \<Rightarrow> bool" where
  "same_handles l l' \<longleftrightarrow> pl_runtime l' = pl_runtime l \<and> pl_next l' = pl_next l \<and> pl_closes l' = pl_closes l \<and> pl_freed l' = pl_freed l"

lemma counted_cong: "handle_counted t p l \<Longrightarrow> same_handles l l' \<Longrightarrow> handle_counted t p l'"
  by (simp add: handle_counted_def loop_has_def same_handles_def)

lemma counted_fresh: "handle_counted t p l \<Longrightarrow> loop_has (pl_next l) l = 0 \<and> tty_has (pl_next l) t = 0 \<and> pipe_has (pl_next l) p = 0"
  using counted_at [of t p l "pl_next l"] by simp

lemma counted_new_pipe:
  assumes "handle_counted t None l" and "pc_handle p = Some (pl_next l)" and "pc_runtime p"
  shows "handle_counted t (Some p) (l\<lparr>pl_next := Suc (pl_next l)\<rparr>)"
  using assms counted_fresh [OF assms(1)]
  by (auto simp: handle_counted_def loop_has_def pipe_has_def less_Suc_eq)

lemma counted_new_tty:
  assumes "handle_counted None p l" and "ts_handle t = Some (pl_next l)" and "ts_runtime t"
  shows "handle_counted (Some t) p (l\<lparr>pl_next := Suc (pl_next l)\<rparr>)"
  using assms counted_fresh [OF assms(1)]
  by (auto simp: handle_counted_def loop_has_def tty_has_def less_Suc_eq)

lemma counted_deleted:
  assumes "handle_counted t p l"
  shows "handle_counted t p (l\<lparr>pl_next := Suc (pl_next l), pl_freed := pl_freed l @ [pl_next l]\<rparr>)"
  using assms counted_fresh [OF assms]
  by (auto simp: handle_counted_def loop_has_def less_Suc_eq)

lemma counted_job: "handle_counted t p l \<Longrightarrow> handle_counted t p (pipe_run_job l)"
proof (cases "rt_queue (pl_runtime l)")
  case (Cons h hs)
  assume c: "handle_counted t p l"
  from counted_le [OF c, of h] Cons have z: "pl_closes l h = 0" by (simp add: loop_has_def)
  obtain fds m where j: "pipe_run_job l = l\<lparr>pl_runtime := (pl_runtime l)\<lparr>rt_queue := hs\<rparr>, pl_closes := (pl_closes l)(h := 1),
      pl_fds := fds, pl_handle_fd := m\<rparr>"
    using Cons z by (simp add: pipe_run_job_def pipe_close_job_def)
  have "loop_has k (pipe_run_job l) = loop_has k l" for k using Cons z by (auto simp: j loop_has_def)
  then show ?thesis using c by (simp add: handle_counted_def j)
qed (simp add: pipe_run_job_def)

text \<open>A backend without a handle does not count.\<close>

lemma counted_tty_idle: "ts_handle t = None \<Longrightarrow> ts_runtime t \<Longrightarrow> handle_counted (Some t) p l = handle_counted None p l"
  by (auto simp: handle_counted_def tty_has_def)

lemma counted_pipe_idle: "pc_handle p = None \<Longrightarrow> pc_runtime p \<Longrightarrow> handle_counted t (Some p) l = handle_counted t None l"
  by (auto simp: handle_counted_def pipe_has_def)

lemma counted_runtime: "handle_counted (Some t) p l \<Longrightarrow> ts_runtime t" "handle_counted t' (Some c) l \<Longrightarrow> pc_runtime c"
  by (simp_all add: handle_counted_def)

section \<open>Operations keep the count\<close>

lemma tty_close_counted:
  assumes "handle_counted (Some t) p l" and "tty_close stop None t l = (r, t', l')"
  shows "handle_counted (Some t') p l' \<and> (\<forall>u. r = Inr u \<longrightarrow> ts_handle t' = None)"
proof (cases "stop \<or> ts_handle t = None")
  case True
  with assms show ?thesis by (auto simp: tty_close_def split: if_splits)
next
  case False
  then obtain h where h: "ts_handle t = Some h" by blast
  have rt: "ts_runtime t" using counted_runtime(1) [OF assms(1)] .
  from False h assms(2) have "t' = tty_forget t" by (auto simp: tty_close_def tty_close_call_def)
  moreover from False h rt assms(2) have "l' = drop_tty None (Some t) l"
    by (auto simp: tty_close_def drop_tty_def tty_close_sync_noexcept_def split: prod.splits)
  moreover have "ts_handle (tty_forget t) = None" "ts_runtime (tty_forget t)" using rt by (simp_all add: tty_forget_def)
  ultimately show ?thesis using counted_drop_tty [OF assms(1)] by (simp add: counted_tty_idle)
qed

lemma tty_open_counted:
  assumes "handle_counted (Some t) p l" and "oa_close_call a = None" and "tty_open guess stop a fd readable t l = (r, t', l')"
  shows "handle_counted (Some t') p l' \<and> (\<forall>u. r = Inr u \<longrightarrow> ts_handle t' \<noteq> None \<and> ts_readable t' = readable)"
proof (cases "stop \<or> \<not> is_tty guess fd")
  case True
  with assms show ?thesis by (auto simp: tty_open_def split: if_splits)
next
  case False
  obtain r1 t1 l1 where c: "(if tty_is_open t then tty_close (oa_stop_meanwhile a) (oa_close_call a) t l else (Inr (), t, l)) = (r1, t1, l1)"
    by (rule prod_cases3)
  have k: "handle_counted (Some t1) p l1" "\<And>u. r1 = Inr u \<Longrightarrow> ts_handle t1 = None"
    using c assms(1,2) tty_close_counted [OF assms(1), of "oa_stop_meanwhile a" r1 t1 l1]
    by (auto simp: tty_is_open_def split: if_splits)
  have e: "(case r1 of
       Inl e \<Rightarrow> (Inl e, t1, l1)
     | Inr _ \<Rightarrow>
         (case duplicate_file_descriptor (oa_dup a) l1 of
            (Inl e, l) \<Rightarrow> (Inl e, t1, l)
          | (Inr dup_fd, l) \<Rightarrow>
              (case tty_open_call (oa_call a) (oa_init a) l of
                 (Inl e, l) \<Rightarrow> (Inl e, t1, close_file_descriptor_noexcept dup_fd l)
               | (Inr handle, l) \<Rightarrow> (Inr (), t1\<lparr>ts_handle := Some handle, ts_fd := dup_fd, ts_readable := readable\<rparr>, l)))) = (r, t', l')"
    using False assms(3) unfolding tty_open_def c by (cases r1) auto
  show ?thesis
  proof (cases "r1 = Inr () \<and> (\<exists>d. oa_dup a = Inr d) \<and> oa_call a = None \<and> oa_init a = Uv_ok")
    case True
    then obtain d where t: "r1 = Inr ()" "oa_dup a = Inr d" "oa_call a = None" "oa_init a = Uv_ok" by blast
    let ?l = "l1\<lparr>pl_fds := d # pl_fds l1\<rparr>"
    have i: "handle_counted None p ?l" using k t counted_runtime(1) [OF k(1)] by (simp add: counted_tty_idle)
    from e t have "r = Inr ()" "t' = t1\<lparr>ts_handle := Some (pl_next ?l), ts_fd := d, ts_readable := readable\<rparr>" "l' = ?l\<lparr>pl_next := Suc (pl_next ?l)\<rparr>"
      by (auto simp: duplicate_file_descriptor_def tty_open_call_def)
    with counted_new_tty [OF i, of t'] counted_runtime(1) [OF k(1)] show ?thesis by simp
  next
    case F: False
    have "(\<exists>e. r = Inl e) \<and> t' = t1 \<and> same_handles l1 l'"
    proof (cases r1)
      case (Inl x)
      with e have "r = Inl x" "t' = t1" "l' = l1" by simp_all
      then show ?thesis by (simp add: same_handles_def)
    next
      case (Inr u)
      show ?thesis
      proof (cases "oa_dup a")
        case (Inl x)
        with e \<open>r1 = Inr u\<close> have "r = Inl (Uv_error x ''dup'')" "t' = t1" "l' = l1"
          by (simp_all add: duplicate_file_descriptor_def)
        then show ?thesis by (simp add: same_handles_def)
      next
        case d: (Inr d)
        with F e Inr show ?thesis
          by (cases "oa_call a"; cases "oa_init a")
            (auto simp: duplicate_file_descriptor_def tty_open_call_def close_file_descriptor_noexcept_def same_handles_def)
      qed
    qed
    with k show ?thesis by (auto intro: counted_cong)
  qed
qed

lemma pipe_open_counted:
  assumes "handle_counted t (Some p) l" and "pipe_open stop fd dup call_rc init_rc open_rc p l = (r, p', l')"
  shows "handle_counted t (Some p') l' \<and> (\<forall>u. r = Inr u \<longrightarrow> \<not> pipe_not_connected p')"
proof (cases "stop \<or> fd < 0")
  case True
  with assms show ?thesis by (auto simp: pipe_open_def split: if_splits)
next
  case False
  obtain p1 l1 where c: "(if pc_handle p \<noteq> None then pipe_client_close p l else (p, l)) = (p1, l1)" by (rule prod.exhaust)
  have k: "handle_counted t (Some p1) l1" "pc_handle p1 = None"
    using c assms(1) counted_pipe_close [OF assms(1), of p1 l1] by (auto split: if_splits)
  have rt: "pc_runtime p1" using counted_runtime(2) [OF k(1)] .
  show ?thesis
  proof (cases dup)
    case (Inl e)
    with False c k assms(2) show ?thesis by (auto simp: pipe_open_def duplicate_file_descriptor_def)
  next
    case (Inr d)
    let ?l = "l1\<lparr>pl_fds := d # pl_fds l1\<rparr>"
    have i: "handle_counted t None ?l" using k rt by (simp add: counted_pipe_idle)
    show ?thesis
    proof (cases "call_rc = None \<and> init_rc = Uv_ok")
      case True
      show ?thesis
      proof (cases open_rc)
        case Uv_ok
        with True False c Inr assms(2) have "r = Inr ()" "p' = p1\<lparr>pc_handle := Some (pl_next l1), pc_connected := True\<rparr>"
          "l' = ?l\<lparr>pl_next := Suc (pl_next ?l), pl_handle_fd := (pl_handle_fd ?l)(pl_next ?l \<mapsto> d)\<rparr>"
          by (auto simp: pipe_open_def duplicate_file_descriptor_def pipe_open_call_def Let_def)
        with counted_new_pipe [OF i, of p'] rt show ?thesis by (simp add: pipe_not_connected_def)
      next
        case (Uv_err e)
        with True False c Inr assms(2) have "r = Inl (Uv_error e ''uv_pipe_open'')" "p' = p1"
          "same_handles (?l\<lparr>pl_next := Suc (pl_next ?l), pl_freed := pl_freed ?l @ [pl_next ?l]\<rparr>) l'"
          by (auto simp: same_handles_def pipe_open_def duplicate_file_descriptor_def pipe_open_call_def Let_def close_file_descriptor_noexcept_def)
        with counted_cong [OF counted_deleted [OF i], of l'] k rt show ?thesis by (simp add: counted_pipe_idle)
      qed
    next
      case F: False
      with False c Inr assms(2) have "(\<exists>e. r = Inl e) \<and> p' = p1 \<and> same_handles l1 l'"
        by (cases call_rc; cases init_rc)
          (auto simp: pipe_open_def duplicate_file_descriptor_def pipe_open_call_def Let_def close_file_descriptor_noexcept_def same_handles_def)
      with k show ?thesis by (auto intro: counted_cong)
    qed
  qed
qed

section \<open>Runs keep the count\<close>

lemma stdio_invD:
  "stdio_inv b (s, l, v) \<Longrightarrow> kind_backed b s" "stdio_inv b (s, l, v) \<Longrightarrow> handle_counted (so_tty s) (so_pipe s) l"
  by (simp_all add: stdio_inv_def)

lemma reset_sel [simp]:
  "so_kind (stdio_reset_state s) = Stdio_none" "so_tty (stdio_reset_state s) = so_tty s" "so_pipe (stdio_reset_state s) = so_pipe s"
  "so_file (stdio_reset_state s) = so_file s"
  by (simp_all add: stdio_reset_state_def)

lemma kind_none [simp]: "so_kind s = Stdio_none \<Longrightarrow> kind_backed b s"
  by (simp add: kind_backed_def)

lemma kind_backed_mono: "kind_backed b s \<Longrightarrow> kind_backed True s"
  by (auto simp: kind_backed_def split: stdio_kind.splits)

lemma stdio_inv_mono: "stdio_inv b w \<Longrightarrow> stdio_inv True w"
  using kind_backed_mono by (auto simp: stdio_inv_def)

lemma stdio_close_inv:
  assumes "stdio_inv b (s, w)" and "oa_close_call a = None" and "stdio_close os stop a s w = (r, s', w')"
  shows "stdio_inv (isl r) (s', w') \<and> (\<forall>u. r = Inr u \<longrightarrow> so_kind s' = Stdio_none)"
proof -
  obtain l v where w: "w = (l, v)" by (rule prod.exhaust)
  note c = stdio_invD(2) [OF assms(1) [unfolded w]] and b = stdio_invD(1) [OF assms(1) [unfolded w]]
  show ?thesis
  proof (cases "so_kind s")
    case Stdio_none
    with assms w show ?thesis by (auto simp: stdio_close_def stdio_inv_def)
  next
    case Stdio_tty
    with b obtain t where t: "so_tty s = Some t" by (auto simp: kind_backed_def)
    obtain r1 t1 l1 where k: "tty_close stop None t l = (r1, t1, l1)" by (rule prod_cases3)
    from tty_close_counted [OF c [unfolded t] k] have i: "handle_counted (Some t1) (so_pipe s) l1" "\<And>u. r1 = Inr u \<Longrightarrow> ts_handle t1 = None" by auto
    show ?thesis
    proof (cases r1)
      case (Inl e)
      then have "t1 = t \<and> l1 = l" using k by (auto simp: tty_close_def tty_close_call_def split: if_splits option.splits)
      with Stdio_tty t k Inl assms w have "s' = s" "w' = (l, v)" "isl r"
        by (auto simp: stdio_close_def)
      then show ?thesis using stdio_inv_mono [OF assms(1)] w Inl assms(3) Stdio_tty t k by (auto simp: stdio_close_def)
    next
      case (Inr u)
      then show ?thesis
        using Stdio_tty t k assms counted_drop_tty [OF i(1)] w by (auto simp: stdio_close_def stdio_inv_def)
    qed
  next
    case Stdio_pipe
    with b obtain p where p: "so_pipe s = Some p" by (auto simp: kind_backed_def)
    obtain p1 l1 where k: "pipe_client_close p l = (p1, l1)" by (rule prod.exhaust)
    from counted_pipe_close [OF c [unfolded p] k] have "handle_counted (so_tty s) None (drop_pipe (Some p1) l1)" by (blast intro: counted_drop_pipe)
    with Stdio_pipe p k assms w show ?thesis by (auto simp: stdio_close_def stdio_inv_def)
  next
    case Stdio_file
    with b c assms w show ?thesis
      by (auto simp: stdio_close_def stdio_inv_def kind_backed_def split: option.splits prod.splits sum.splits)
  qed
qed

lemma file_open_fd_opens:
  assumes "\<forall>fd v d v'. os_dup os fd v = (Inr d, v') \<longrightarrow> 0 \<le> d" and "file_open_fd os fd (new_file, v) = (Inr u, f, v')"
  shows "file_is_open f"
  using assms(2) assms(1) [rule_format, of fd v]
  by (auto simp: file_open_fd_def new_file_def file_is_open_def split: if_splits prod.splits sum.splits)

lemma stdio_open_inv:
  assumes "stdio_inv b (s, w)" and "oa_close_call a = None" and "stdio_open os guess stops new_rc a fd readable s w = (r, s', w')"
    and dup: "\<forall>fd v d v'. os_dup os fd v = (Inr d, v') \<longrightarrow> 0 \<le> d"
  shows "stdio_inv (isl r) (s', w')"
proof -
  obtain st sc so where st: "stops = (st, sc, so)" by (rule prod_cases3)
  obtain r1 s1 l1 v1 where c: "(if stdio_is_open s then stdio_close os sc a s w else (Inr (), s, w)) = (r1, s1, l1, v1)" by (rule prod_cases4)
  have i: "stdio_inv True (s1, l1, v1)" "\<And>u. r1 = Inr u \<Longrightarrow> so_kind s1 = Stdio_none"
    using c stdio_inv_mono [OF assms(1)] stdio_inv_mono stdio_close_inv [OF assms(1,2), of os sc r1 s1 "(l1, v1)"]
    by (auto simp: stdio_is_open_def split: if_splits)
  show ?thesis
  proof (cases "st \<or> (\<exists>e. r1 = Inl e)")
    case True
    have "(\<exists>e. r = Inl e) \<and> (\<exists>b. stdio_inv b (s', w'))"
    proof (cases st)
      case True
      with assms(1,3) st show ?thesis unfolding stdio_open_def by auto
    next
      case False
      with \<open>st \<or> (\<exists>e. r1 = Inl e)\<close> obtain e where "r1 = Inl e" by blast
      with False assms(3) st c i(1) show ?thesis unfolding stdio_open_def by auto
    qed
    then show ?thesis by (auto dest: stdio_inv_mono [of _ "(s', w')"])
  next
    case False
    then have none: "so_kind s1 = Stdio_none" and r1: "r1 = Inr ()" using i(2) by (cases r1, auto)+
    let ?s = "s1\<lparr>so_guessed_handle := guess_handle guess fd, so_readable := readable\<rparr>"
    note k = stdio_invD(2) [OF i(1)]
    consider (a_tty) "guess_handle guess fd = UV_TTY" "stdio_open_tty guess so a fd readable ?s (l1, v1) = (r, s', w')"
      | (a_pipe) "guess_handle guess fd = UV_NAMED_PIPE" "stdio_open_pipe so new_rc a fd ?s (l1, v1) = (r, s', w')"
      | (a_file) "guess_handle guess fd = UV_FILE" "stdio_open_file os fd ?s (l1, v1) = (r, s', w')"
      | (other) "s' = stdio_reset_state ?s" "w' = (l1, v1)"
      using assms(3) False st r1 unfolding stdio_open_def by (cases "guess_handle guess fd") (auto simp: c)
    then show ?thesis
    proof cases
      case a_tty
      have d: "handle_counted (Some tty_stream_new) (so_pipe s1) (drop_tty None (so_tty s1) l1)"
        using counted_drop_tty [OF k] by (simp add: counted_tty_idle tty_stream_new_def)
      obtain r2 t2 l2 where o2: "tty_open guess so a fd readable tty_stream_new (drop_tty None (so_tty s1) l1) = (r2, t2, l2)" by (rule prod_cases3)
      from tty_open_counted [OF d assms(2) o2] a_tty(2) none o2 assms(2) show ?thesis
        by (cases r2) (auto simp: stdio_open_tty_def stdio_inv_def kind_backed_def)
    next
      case a_pipe
      have d: "handle_counted (so_tty s1) None (drop_pipe (so_pipe s1) l1)" using counted_drop_pipe [OF k] .
      show ?thesis
      proof (cases new_rc)
        case (Uv_err e)
        with a_pipe(2) none d show ?thesis by (auto simp: stdio_open_pipe_def pipe_client_new_def stdio_inv_def)
      next
        case Uv_ok
        define p l where "p = \<lparr>pc_runtime = True, pc_handle = Some (pl_next (drop_pipe (so_pipe s1) l1)), pc_connected = False, pc_ipc = False\<rparr>"
          and "l = (drop_pipe (so_pipe s1) l1)\<lparr>pl_next := Suc (pl_next (drop_pipe (so_pipe s1) l1))\<rparr>"
        have d': "handle_counted (so_tty s1) (Some p) l" unfolding l_def by (rule counted_new_pipe [OF d]) (simp_all add: p_def)
        obtain r2 p2 l2 where o2: "pipe_open so fd (oa_dup a) (oa_call a) (oa_init a) (oa_open a) p l = (r2, p2, l2)" by (rule prod_cases3)
        have "pipe_client_new False new_rc (drop_pipe (so_pipe s1) l1) = (Inr p, l)" by (simp add: pipe_client_new_def Uv_ok p_def l_def)
        with pipe_open_counted [OF d' o2] a_pipe(2) none o2 show ?thesis
          by (cases r2) (auto simp: stdio_open_pipe_def stdio_inv_def kind_backed_def)
      qed
    next
      case a_file
      obtain r2 f v2 where o2: "file_open_fd os fd (new_file, drop_file os (so_file s1) v1) = (r2, f, v2)" by (rule prod_cases3)
      have "file_is_open f" if "r2 = Inr u" for u using file_open_fd_opens [OF dup o2 [unfolded that]] .
      with a_file(2) none k o2 show ?thesis
        by (cases r2) (auto simp: stdio_open_file_def stdio_inv_def kind_backed_def)
    next
      case other
      with k show ?thesis by (simp add: stdio_inv_def)
    qed
  qed
qed

text \<open>A read or write only replaces the file object.\<close>

definition keeps_fd :: "('v file_world \<Rightarrow> 'r result \<times> 'v file_world) \<Rightarrow> bool" where
  "keeps_fd file_op \<longleftrightarrow> (\<forall>f v r f' v'. file_op (f, v) = (r, f', v') \<longrightarrow> fl_fd f' = fl_fd f)"

lemma file_ops_keep_fd: "keeps_fd (file_write os data)" "keeps_fd (file_read_some os n)"
  by (auto simp: keeps_fd_def file_write_def file_write_at_def file_read_some_def file_read_at_def split: if_splits prod.splits sum.splits)

lemma stdio_inv_dispatch:
  assumes "keeps_fd file_op" and "stdio_inv b (s, l, v)" and "stdio_dispatch tty_op p_op file_op s v = (r, s', v')"
  shows "stdio_inv b (s', l, v')"
proof -
  have "s' = s \<or> so_kind s = Stdio_file \<and> (\<exists>f f'. so_file s = Some f \<and> s' = s\<lparr>so_file := Some f'\<rparr> \<and> fl_fd f' = fl_fd f)"
    using assms(1,3) unfolding stdio_dispatch_def keeps_fd_def
    by (simp split: stdio_kind.splits option.splits prod.splits) blast
  then show ?thesis using assms(2) by (auto simp: stdio_inv_def kind_backed_def file_is_open_def)
qed

lemma stdio_inv_step:
  assumes "stdio_inv b w" and "close_call_runs ev" and "stdio_step os guess wr rd ev w = (r, w')"
    and dup: "\<forall>fd v d v'. os_dup os fd v = (Inr d, v') \<longrightarrow> 0 \<le> d"
  shows "stdio_inv (last_switch_threw b [r]) w'"
proof -
  obtain s l v s' l' v' where w: "w = (s, l, v)" "w' = (s', l', v')" by (metis prod_cases3)
  show ?thesis
  proof (cases ev)
    case (Se_open stops new_rc a fd readable)
    with assms w show ?thesis by (auto split: prod.splits dest: stdio_open_inv [OF _ _ _ dup])
  next
    case (Se_close stop a)
    with assms w show ?thesis by (auto split: prod.splits dest: stdio_close_inv)
  next
    case (Se_write data)
    with assms w show ?thesis by (auto simp: stdio_write_def stdio_to_write_def split: if_splits prod.splits
      dest: stdio_inv_dispatch [OF file_ops_keep_fd(1)])
  next
    case (Se_read n)
    with assms w show ?thesis by (auto simp: stdio_read_some_def stdio_to_read_def split: if_splits prod.splits
      dest: stdio_inv_dispatch [OF file_ops_keep_fd(2)])
  next
    case Se_job
    with assms w show ?thesis by (auto simp: stdio_inv_def intro: counted_job)
  qed
qed

lemma last_switch_threw_Cons: "last_switch_threw b (r # rs) = last_switch_threw (last_switch_threw b [r]) rs"
  by (cases r) simp_all

lemma stdio_inv_run:
  assumes dup: "\<forall>fd v d v'. os_dup os fd v = (Inr d, v') \<longrightarrow> 0 \<le> d"
  shows "stdio_inv b w \<Longrightarrow> \<forall>ev\<in>set evs. close_call_runs ev \<Longrightarrow> stdio_run os guess wr rd evs w = (rs, w')
    \<Longrightarrow> stdio_inv (last_switch_threw b rs) w'"
proof (induction evs arbitrary: b w rs)
  case Nil
  then show ?case by simp
next
  case (Cons ev evs)
  obtain r w1 where s: "stdio_step os guess wr rd ev w = (r, w1)" by (rule prod.exhaust)
  from Cons.prems(3) s obtain rs' where e: "stdio_run os guess wr rd evs w1 = (rs', w')" "rs = r # rs'" by (auto split: prod.splits)
  with Cons.IH [OF stdio_inv_step [OF Cons.prems(1) _ s dup] _ e(1)] Cons.prems(2)
  show ?case unfolding e(2) by (subst last_switch_threw_Cons) simp
qed

lemma stdio_inv_new: "stdio_inv False (stdio_new, fresh_loop, v)"
  by (simp add: stdio_inv_def stdio_new_def fresh_loop_def handle_counted_def tty_has_def pipe_has_def loop_has_def)

section \<open>Properties\<close>


text \<open>A terminal, then a pipe that cannot be opened, then one that can.\<close>

definition answers :: "uv_status \<Rightarrow> open_answers" where
  "answers open_rc = \<lparr>oa_stop_meanwhile = False, oa_close_call = None, oa_dup = Inr 7, oa_call = None, oa_init = Uv_ok, oa_open = open_rc\<rparr>"

definition stdio_demo :: "stdio_event list" where
  "stdio_demo = [Se_open (False, False, False) Uv_ok (answers Uv_ok) 0 True,
     Se_open (False, False, False) Uv_ok (answers (Uv_err UV_EBUSY)) 1 False, Se_job,
     Se_open (False, False, False) Uv_ok (answers Uv_ok) 1 False]"

definition demo_guess :: "int \<Rightarrow> uv_handle_type" where
  "demo_guess fd = (if fd = 0 then UV_TTY else UV_NAMED_PIPE)"


text \<open>
  A defect: \<open>close\<close> of a file with a stopped token throws after the file has forgotten its descriptor, and
  the stream does not notice: it stays open with the kind of a file, and every operation then throws
  that the file is not open.
\<close>

lemma stdio_close_stopped_looks_open:
  assumes "so_kind s = Stdio_file" and "so_file s = Some f" and "file_is_open f" and "os_stop os (snd w)"
    and "stdio_close os stop a s w = (r, s', w')"
  shows "r = Inl Operation_cancelled \<and> stdio_is_open s' \<and>
    fst (stdio_write os wr data (s'\<lparr>so_readable := False\<rparr>) v) = Inl (Runtime_error ''file is not open'')"
  using assms
  by (auto simp: stdio_close_def file_close_def Let_def close_file_async_def fs_call_eq stdio_is_open_def stdio_write_def stdio_to_write_def
      stdio_dispatch_def file_write_def file_write_at_def file_is_open_def split: prod.splits)

text \<open>
  A defect: \<open>open\<close> sets the direction and the type before it opens the backend, and leaves them when that
  throws: a stream that is not open claims to be readable. For a type it does not support it resets them.
\<close>

lemma stdio_failed_open_looks_readable:
  assumes "so_kind s = Stdio_none" and "guess fd = UV_FILE" and "os_stop os (drop_file os (so_file s) (snd w))"
    and "stdio_open os guess (False, False, False) new_rc a fd True s w = (r, s', w')"
  shows "r = Inl Operation_cancelled \<and> \<not> stdio_is_open s' \<and> so_readable s' \<and> so_guessed_handle s' = UV_FILE"
  using assms
  by (auto simp: stdio_open_def stdio_is_open_def guess_handle_def stdio_open_file_def file_open_fd_def new_file_def Let_def)

text \<open>Moving hands over whatever the source holds, and the source holds nothing after it.\<close>

lemma stdio_move_hands_over:
  "tty_has h (so_tty (fst (stdio_move s))) = tty_has h (so_tty s)" "pipe_has h (so_pipe (fst (stdio_move s))) = pipe_has h (so_pipe s)"
  "tty_has h (so_tty (snd (stdio_move s))) = 0" "pipe_has h (so_pipe (snd (stdio_move s))) = 0" "\<not> stdio_is_open (snd (stdio_move s))"
  by (auto simp: stdio_move_def stdio_moved_from_def tty_has_def pipe_has_def tty_move_def tty_moved_from_def pipe_client_move_def
      pipe_client_moved_from_def stdio_is_open_def split: option.splits)

end
