(* ===== verification/Io_Timed.thy ===== *)
theory Io_Timed
  imports Control Io_Properties
begin

text \<open>
  The functions with a timeout of \<open>io.hpp\<close>, \<open>tcp.hpp\<close> and \<open>pipe.hpp\<close>: each runs an operation against
  \<open>with_timeout\<close>. An operation that loses the race is not destroyed: its token is stopped and it runs to
  its own end, and what it would have returned is dropped. The world in the result is the one that the
  operation has left when it has ended, which may be after the answer.
\<close>

section \<open>Racing an operation\<close>

text \<open>
  How the race goes: who ends first, how the sleep and the wait for the token end, and the caller's
  token.
\<close>

record race =
  ra_when_any :: "contender list \<Rightarrow> contender"
  ra_sleep :: "int \<Rightarrow> unit result"
  ra_stop_wait :: stop_wait_result
  ra_stop_requested :: bool
  ra_stop_possible :: bool

definition race_result :: "race \<Rightarrow> int \<Rightarrow> 'a result \<Rightarrow> 'a result \<times> contender list" where
  "race_result race timeout r =
     with_timeout (ra_when_any race) (contender_outcome r (ra_sleep race) (ra_stop_wait race))
       (ra_stop_requested race) (ra_stop_possible race) timeout"

definition timed :: "race \<Rightarrow> int \<Rightarrow> ('s \<Rightarrow> 'a result \<times> 's) \<Rightarrow> 's \<Rightarrow> 'a result \<times> 's" where
  "timed race timeout operation s =
     (case operation s of
        (r, s') \<Rightarrow> (case race_result race timeout r of (answer, started) \<Rightarrow> (answer, if started = [] then s else s')))"

text \<open>For an operation that may not end.\<close>

definition timed_option :: "race \<Rightarrow> int \<Rightarrow> ('s \<Rightarrow> ('a result \<times> 's) option) \<Rightarrow> 's \<Rightarrow> ('a result \<times> 's) option" where
  "timed_option race timeout operation s =
     (case operation s of
        None \<Rightarrow> None
      | Some (r, s') \<Rightarrow> (case race_result race timeout r of (answer, started) \<Rightarrow> Some (answer, if started = [] then s else s')))"

section \<open>The functions\<close>

definition read_some_for :: "race \<Rightarrow> 's read_fun \<Rightarrow> nat \<Rightarrow> int \<Rightarrow> 's \<Rightarrow> string result \<times> 's" where
  "read_some_for race read_some max_bytes timeout = timed race timeout (read_some max_bytes)"

definition read_exact_for :: "race \<Rightarrow> 's read_fun \<Rightarrow> nat \<Rightarrow> int \<Rightarrow> 's \<Rightarrow> string result \<times> 's" where
  "read_exact_for race read_exact total_bytes timeout = timed race timeout (read_exact total_bytes)"

text \<open>The data is copied before the race, so that a write that goes on owns it.\<close>

definition write_owned :: "'s write_fun \<Rightarrow> string \<Rightarrow> 's \<Rightarrow> nat result \<times> 's" where
  "write_owned write_op data s = write_op data s"

definition write_for :: "race \<Rightarrow> 's write_fun \<Rightarrow> string \<Rightarrow> int \<Rightarrow> 's \<Rightarrow> nat result \<times> 's" where
  "write_for race write_op data timeout = timed race timeout (write_owned write_op data)"

definition receive_for :: "race \<Rightarrow> (nat \<Rightarrow> 's \<Rightarrow> 'd result \<times> 's) \<Rightarrow> nat \<Rightarrow> int \<Rightarrow> 's \<Rightarrow> 'd result \<times> 's" where
  "receive_for race recv_from max_bytes timeout = timed race timeout (recv_from max_bytes)"

definition receive_into_for :: "race \<Rightarrow> (nat \<Rightarrow> 's \<Rightarrow> 'd result \<times> 's) \<Rightarrow> nat \<Rightarrow> int \<Rightarrow> 's \<Rightarrow> 'd result \<times> 's" where
  "receive_into_for race recv_from_into buffer_size timeout = timed race timeout (recv_from_into buffer_size)"

definition read_until_owned :: "'s read_fun \<Rightarrow> ('s \<Rightarrow> bool) \<Rightarrow> string \<Rightarrow> nat \<Rightarrow> 's stream_buffer
    \<Rightarrow> (string result \<times> 's stream_buffer) option" where
  "read_until_owned read_some stop delimiter chunk_size = sb_read_until read_some stop delimiter chunk_size"

definition read_until_for :: "race \<Rightarrow> 's read_fun \<Rightarrow> ('s \<Rightarrow> bool) \<Rightarrow> string \<Rightarrow> int \<Rightarrow> nat \<Rightarrow> 's stream_buffer
    \<Rightarrow> (string result \<times> 's stream_buffer) option" where
  "read_until_for race read_some stop delimiter timeout chunk_size =
     timed_option race timeout (read_until_owned read_some stop delimiter chunk_size)"

definition read_until_any_owned :: "'s read_fun \<Rightarrow> ('s \<Rightarrow> bool) \<Rightarrow> string list \<Rightarrow> nat \<Rightarrow> 's stream_buffer
    \<Rightarrow> (string result \<times> 's stream_buffer) option" where
  "read_until_any_owned read_some stop delimiters chunk_size = sb_read_until_any read_some stop delimiters chunk_size"

definition read_until_any_for :: "race \<Rightarrow> 's read_fun \<Rightarrow> ('s \<Rightarrow> bool) \<Rightarrow> string list \<Rightarrow> int \<Rightarrow> nat \<Rightarrow> 's stream_buffer
    \<Rightarrow> (string result \<times> 's stream_buffer) option" where
  "read_until_any_for race read_some stop delimiters timeout chunk_size =
     timed_option race timeout (read_until_any_owned read_some stop delimiters chunk_size)"

text \<open>Connecting and accepting, for TCP and for pipes.\<close>

definition tcp_connect_for :: "race \<Rightarrow> ('endpoint \<Rightarrow> 's \<Rightarrow> unit result \<times> 's) \<Rightarrow> 'endpoint \<Rightarrow> int \<Rightarrow> 's \<Rightarrow> unit result \<times> 's" where
  "tcp_connect_for race connect endpoint timeout = timed race timeout (connect endpoint)"

definition tcp_accept_for :: "race \<Rightarrow> ('s \<Rightarrow> 'c result \<times> 's) \<Rightarrow> int \<Rightarrow> 's \<Rightarrow> 'c result \<times> 's" where
  "tcp_accept_for race accept timeout = timed race timeout accept"

definition pipe_connect_for :: "race \<Rightarrow> (string \<Rightarrow> 's \<Rightarrow> unit result \<times> 's) \<Rightarrow> string \<Rightarrow> int \<Rightarrow> 's \<Rightarrow> unit result \<times> 's" where
  "pipe_connect_for race connect pipe_name timeout = timed race timeout (connect pipe_name)"

definition pipe_accept_for :: "race \<Rightarrow> ('s \<Rightarrow> 'c result \<times> 's) \<Rightarrow> int \<Rightarrow> 's \<Rightarrow> 'c result \<times> 's" where
  "pipe_accept_for race accept timeout = timed race timeout accept"

section \<open>Lemmas\<close>

text \<open>
  The answer is the operation's only when it won. Otherwise it is an exception, and either nothing was
  started, because the token was stopped or less than a millisecond was given, or the operation's
  result is dropped.
\<close>

definition not_started :: "race \<Rightarrow> int \<Rightarrow> bool" where
  "not_started race timeout \<longleftrightarrow> ra_stop_requested race \<or> timeout < 1000000"

definition operation_won :: "race \<Rightarrow> int \<Rightarrow> bool" where
  "operation_won race timeout \<longleftrightarrow> ra_when_any race (contenders (ra_stop_possible race) (Some (timeout div 1000000))) = C_operation"

lemma race_result_cases:
  "race_result race timeout r = (answer, started) \<Longrightarrow>
   (if not_started race timeout then started = [] \<and> (\<exists>e. answer = Inl e)
    else started \<noteq> [] \<and> (if operation_won race timeout then answer = r else \<exists>e. answer = Inl e))"
proof -
  assume a: "race_result race timeout r = (answer, started)"
  show ?thesis
  proof (cases "ra_stop_requested race")
    case True
    with a show ?thesis by (auto simp: not_started_def race_result_def with_timeout_def run_controlled_def)
  next
    case f: False
    have t: "0 < to_milliseconds timeout \<longleftrightarrow> 1000000 \<le> timeout" "1000000 \<le> timeout \<Longrightarrow> to_milliseconds timeout = timeout div 1000000"
      using pos_imp_zdiv_pos_iff [of 1000000 timeout] by (auto simp: to_milliseconds_def)
    show ?thesis
    proof (cases "timeout < 1000000")
      case True
      with f t(1) a show ?thesis by (auto simp: not_started_def race_result_def with_timeout_def run_controlled_def)
    next
      case False
      let ?cs = "contenders (ra_stop_possible race) (Some (timeout div 1000000))"
      have e: "(case contender_outcome r (ra_sleep race) (ra_stop_wait race) (ra_when_any race ?cs) of
           Inl e \<Rightarrow> (Inl e, ?cs) | Inr x \<Rightarrow> (resolve_operation_outcome x, ?cs)) = (answer, started)"
        using f False t a by (simp add: race_result_def with_timeout_def run_controlled_def Let_def)
      then show ?thesis
        using f False
        by (cases "ra_when_any race ?cs")
          (auto simp: not_started_def operation_won_def contender_outcome_def resolve_wrap timeout_outcome_task_def cancellation_outcome_task_def
            contenders_def split: if_splits sum.splits)
    qed
  qed
qed

lemma timed_cases:
  assumes "operation s = (r, s1)" and "timed race timeout operation s = (answer, s')"
  shows "if not_started race timeout then s' = s \<and> (\<exists>e. answer = Inl e)
    else s' = s1 \<and> (if operation_won race timeout then answer = r else \<exists>e. answer = Inl e)"
proof -
  obtain started where "race_result race timeout r = (answer, started)" "s' = (if started = [] then s else s1)"
    using assms by (auto simp: timed_def split: prod.splits)
  with race_result_cases [OF this(1)] show ?thesis by (auto split: if_splits)
qed

lemma timed_option_cases:
  assumes "operation s = Some (r, s1)"
  shows "\<exists>answer s'. timed_option race timeout operation s = Some (answer, s') \<and>
    (if not_started race timeout then s' = s \<and> (\<exists>e. answer = Inl e)
     else s' = s1 \<and> (if operation_won race timeout then answer = r else \<exists>e. answer = Inl e))"
proof -
  obtain answer started where "race_result race timeout r = (answer, started)" by (rule prod.exhaust)
  with race_result_cases [OF this] assms show ?thesis by (auto simp: timed_option_def split: if_splits)
qed

text \<open>
  The unbuffered read: what the operation has read when it does not win is lost. The bytes left are
  those after the answer, or after bytes that nobody gets.
\<close>

lemma read_some_for_bytes:
  assumes "socket_ok c" and "read_some_for race socket_read_some n timeout c = (r, c')"
  shows "case r of
      Inr bytes \<Rightarrow> bytes @ socket_rest c' = socket_rest c
    | Inl e \<Rightarrow> (\<exists>lost. lost @ socket_rest c' = socket_rest c \<and> length lost \<le> n \<and>
        (not_started race timeout \<or> operation_won race timeout \<longrightarrow> lost = []))"
proof -
  obtain r1 c1 where o1: "socket_read_some n c = (r1, c1)" by (rule prod.exhaust)
  from timed_cases [where operation = "socket_read_some n", OF o1, of race timeout r c'] assms(2)
  have t: "if not_started race timeout then c' = c \<and> (\<exists>e. r = Inl e)
    else c' = c1 \<and> (if operation_won race timeout then r = r1 else \<exists>e. r = Inl e)" by (simp add: read_some_for_def)
  show ?thesis
  proof (cases r1)
    case (Inl e)
    with socket_keeps(3) [OF assms(1), of n e] o1 have "socket_rest c1 = socket_rest c" by simp
    with t Inl show ?thesis by (auto split: if_splits)
  next
    case (Inr bytes)
    with socket_keeps(2) [OF assms(1), of n bytes] o1 have "bytes @ socket_rest c1 = socket_rest c" "length bytes \<le> n" by simp_all
    with t Inr show ?thesis by (auto split: if_splits)
  qed
qed

section \<open>Property\<close>

text \<open>
  C39. \<open>read_until_for\<close> on a libuv stream always answers, however the race goes and whatever pieces the
  bytes arrive in. When it answers with a line, that is what the specification takes from the front
  and the rest is still there. When it throws, no byte is lost and the call can be repeated, unless the
  operation had found the line and another contender ended first: then exactly that line is gone. An
  operation for which the token is stopped already, or less than a millisecond is given, is not started.
\<close>

theorem read_until_for_keeps_bytes:
  assumes "socket_ok (sb_stream b)" and "0 < n" and "d \<noteq> []"
  shows "\<exists>r b'. read_until_for race socket_read_some stop d timeout n b = Some (r, b') \<and> socket_ok (sb_stream b') \<and>
    (case r of
       Inr line \<Rightarrow> line = until_spec d (sb_content socket_rest b) \<and> line @ sb_content socket_rest b' = sb_content socket_rest b
     | Inl e \<Rightarrow> sb_content socket_rest b' = sb_content socket_rest b \<or>
         \<not> operation_won race timeout \<and> until_spec d (sb_content socket_rest b) @ sb_content socket_rest b' = sb_content socket_rest b) \<and>
    (ra_stop_requested race \<or> timeout < 1000000 \<longrightarrow> b' = b)"
proof -
  from socket.read_until_loop [OF assms(1,2), of stop d] obtain r1 b1 where
    l: "sb_read_until_loop socket_read_some stop d n b = Some (r1, b1)" and ok: "socket_ok (sb_stream b1)"
    and c: "case r1 of
       Inr out \<Rightarrow> out @ sb_content socket_rest b1 = sb_content socket_rest b \<and> out = until_spec d (sb_content socket_rest b)
     | Inl e \<Rightarrow> sb_content socket_rest b1 = sb_content socket_rest b \<and> ((\<exists>s. stop s) \<or> source_fails socket_read_some socket_ok n)"
    by blast
  have run: "read_until_owned socket_read_some stop d n b = Some (r1, b1)" using l assms(3) by (simp add: read_until_owned_def sb_read_until_def)
  have res: "case r1 of
       Inr out \<Rightarrow> out @ sb_content socket_rest b1 = sb_content socket_rest b \<and> out = until_spec d (sb_content socket_rest b)
     | Inl e \<Rightarrow> sb_content socket_rest b1 = sb_content socket_rest b" using c by (cases r1) simp_all
  from timed_option_cases [where operation = "read_until_owned socket_read_some stop d n", OF run, of race timeout] obtain r b' where
    t: "timed_option race timeout (read_until_owned socket_read_some stop d n) b = Some (r, b')"
    "if not_started race timeout then b' = b \<and> (\<exists>e. r = Inl e)
     else b' = b1 \<and> (if operation_won race timeout then r = r1 else \<exists>e. r = Inl e)" by blast
  have "read_until_for race socket_read_some stop d timeout n b = Some (r, b')" using t(1) by (simp add: read_until_for_def)
  moreover have "socket_ok (sb_stream b')" using t(2) ok assms(1) by (auto split: if_splits)
  moreover have "case r of
       Inr line \<Rightarrow> line = until_spec d (sb_content socket_rest b) \<and> line @ sb_content socket_rest b' = sb_content socket_rest b
     | Inl e \<Rightarrow> sb_content socket_rest b' = sb_content socket_rest b \<or>
         \<not> operation_won race timeout \<and> until_spec d (sb_content socket_rest b) @ sb_content socket_rest b' = sb_content socket_rest b"
    using t(2) res by (cases r1) (auto split: if_splits)
  moreover have "ra_stop_requested race \<or> timeout < 1000000 \<longrightarrow> b' = b" using t(2) by (simp add: not_started_def)
  ultimately show ?thesis by blast
qed

text \<open>The operation is listed first, the sleep second; here the one at place \<open>k\<close> ends first.\<close>

definition demo_race :: "nat \<Rightarrow> race" where
  "demo_race k = \<lparr>ra_when_any = (\<lambda>cs. cs ! k), ra_sleep = (\<lambda>_. Inr ()), ra_stop_wait = Stop_cancelled,
     ra_stop_requested = False, ra_stop_possible = True\<rparr>"

theorem read_until_for_keeps_bytes_witness:
  "\<exists>r b r' b'.
     read_until_for (demo_race 0) socket_read_some (\<lambda>_. False) ''cd'' 5000000 3 (make_stream_buffer (new_socket ''abcde'' [Inr 1, Inr 2])) = Some (r, b) \<and>
     r = Inr ''abcd'' \<and> sb_content socket_rest b = ''e'' \<and>
     read_until_for (demo_race 1) socket_read_some (\<lambda>c. length (snd c) < 2) ''cd'' 5000000 3
       (make_stream_buffer (new_socket ''abcde'' [Inr 1, Inr 2])) = Some (r', b') \<and>
     r' = Inl Operation_timeout \<and> sb_content socket_rest b' = ''abcde''"
proof -
  let ?b = "make_stream_buffer (new_socket ''abcde'' [Inr 1, Inr 2])"
  have ok: "socket_ok (sb_stream ?b)" by (simp add: make_stream_buffer_def socket_ok_new)
  have c: "sb_content socket_rest ?b = ''abcde''" by (simp add: make_stream_buffer_def)
  have u: "until_spec ''cd'' ''abcde'' = ''abcd''" by (simp add: until_spec_def)
  have won: "fst (the (read_until_for (demo_race 0) socket_read_some (\<lambda>_. False) ''cd'' 5000000 3 ?b)) = Inr ''abcd''" by code_simp
  from read_until_for_keeps_bytes [OF ok, of 3 "''cd''" "demo_race 0" "\<lambda>_. False" 5000000] won c u obtain b where
    1: "read_until_for (demo_race 0) socket_read_some (\<lambda>_. False) ''cd'' 5000000 3 ?b = Some (Inr ''abcd'', b)" "sb_content socket_rest b = ''e''"
    by auto
  have lost: "fst (the (read_until_for (demo_race 1) socket_read_some (\<lambda>c. length (snd c) < 2) ''cd'' 5000000 3 ?b)) = Inl Operation_timeout \<and>
      sb_content socket_rest (snd (the (read_until_for (demo_race 1) socket_read_some (\<lambda>c. length (snd c) < 2) ''cd'' 5000000 3 ?b))) = ''abcde''"
    by code_simp
  from read_until_for_keeps_bytes [OF ok, of 3 "''cd''" "demo_race 1" "\<lambda>c. length (snd c) < 2" 5000000] obtain r' b' where
    "read_until_for (demo_race 1) socket_read_some (\<lambda>c. length (snd c) < 2) ''cd'' 5000000 3 ?b = Some (r', b')" by auto
  with 1 lost show ?thesis by auto
qed

text \<open>
  A defect: a read that ends just after its timeout has taken bytes from the stream that nobody gets.
  With \<open>read_some_for\<close>, and with \<open>read_until_for\<close> when the delimiter was among them, the next read goes on
  after them.
\<close>

lemma timed_out_read_loses_bytes:
  "read_some_for (demo_race 1) socket_read_some 2 5000000 (new_socket ''abcd'' [Inr 2]) = (r, c) \<Longrightarrow>
   r = Inl Operation_timeout \<and> socket_rest c = ''cd''"
proof -
  have "fst (read_some_for (demo_race 1) socket_read_some 2 5000000 (new_socket ''abcd'' [Inr 2])) = Inl Operation_timeout \<and>
    socket_rest (snd (read_some_for (demo_race 1) socket_read_some 2 5000000 (new_socket ''abcd'' [Inr 2]))) = ''cd''" by code_simp
  then show "read_some_for (demo_race 1) socket_read_some 2 5000000 (new_socket ''abcd'' [Inr 2]) = (r, c) \<Longrightarrow>
   r = Inl Operation_timeout \<and> socket_rest c = ''cd''" by simp
qed

end
