(* ===== verification/Spawn_Tasks.thy ===== *)
theory Spawn_Tasks
  imports Spawn
begin

text \<open>
  The overloads of \<open>spawn\<close>, \<open>spawn_logged\<close>, \<open>spawn_after\<close>, \<open>spawn_at\<close>, \<open>spawn_logged_after\<close> and
  \<open>spawn_logged_at\<close> of \<open>include/luvcoro/runtime.hpp\<close>: which task each of them builds around the user's,
  and what such a task does when it runs.
\<close>

section \<open>Tasks\<close>

text \<open>
  A task handed over, a callable that makes the task when it runs, and the tasks around another one;
  a logged task has a name and possibly a handler.
\<close>

datatype detached_task =
    Dt_task nat
  | Dt_call nat
  | Dt_logged string bool detached_task
  | Dt_after int detached_task
  | Dt_at int detached_task

definition make_spawn_task :: "nat \<Rightarrow> detached_task" where
  "make_spawn_task fn = Dt_call fn"

text \<open>What a run shows: sleeps, in milliseconds, starts of user code, and calls of handlers.\<close>

datatype spawn_trace = St_sleep int | St_start nat | St_handler string exn

record spawn_env =
  sp_task :: "nat \<Rightarrow> unit result"
  sp_sleep :: "int \<Rightarrow> unit result"
  sp_now :: int

fun run_detached :: "spawn_env \<Rightarrow> detached_task \<Rightarrow> spawn_trace list \<times> unit result" where
  "run_detached env (Dt_task k) = ([St_start k], sp_task env k)"
| "run_detached env (Dt_call k) = ([St_start k], sp_task env k)"
| "run_detached env (Dt_logged name has_handler task) =
     (case run_detached env task of
        (tr, r) \<Rightarrow>
          (case make_spawn_logged_task name has_handler r of
             (calls, r) \<Rightarrow> (tr @ map (\<lambda>(n, e). St_handler n e) calls, r)))"
| "run_detached env (Dt_after delay task) =
     (case run_detached env task of
        (tr, r) \<Rightarrow>
          (let slept = sp_sleep env (to_milliseconds delay) in
           case make_spawn_after_task delay slept r of
             (ms, r) \<Rightarrow> (St_sleep ms # (if slept = Inr () then tr else []), r)))"
| "run_detached env (Dt_at deadline task) =
     (case run_detached env task of
        (tr, r) \<Rightarrow>
          (let slept = sp_sleep env (to_milliseconds (deadline - sp_now env)) in
           case make_spawn_at_task (sp_now env) deadline slept r of
             (None, r) \<Rightarrow> (tr, r)
           | (Some ms, r) \<Rightarrow> (St_sleep ms # (if slept = Inr () then tr else []), r)))"

section \<open>Spawning\<close>

text \<open>
  The world is the runtime's queue and the tasks that have been started; a posted job starts its task.
  \<open>is_loop_thread\<close> is whether the caller is on the runtime's thread; a runtime may be bound to another.
\<close>

type_synonym spawn_world = "detached_task uv_runtime \<times> detached_task list"

definition spawn :: "bool \<Rightarrow> detached_task \<Rightarrow> spawn_world \<Rightarrow> bool \<times> spawn_world" where
  "spawn is_loop_thread task = spawn_detached is_loop_thread task (\<lambda>w. (fst w, snd w @ [task]))"

definition spawn_here :: "bool \<Rightarrow> tls \<Rightarrow> detached_task \<Rightarrow> spawn_world \<Rightarrow> bool \<times> spawn_world" where
  "spawn_here is_loop_thread cur task = spawn_current cur (\<lambda>_. spawn is_loop_thread task)"

definition spawn_fn :: "bool \<Rightarrow> nat \<Rightarrow> spawn_world \<Rightarrow> bool \<times> spawn_world" where
  "spawn_fn is_loop_thread fn = spawn is_loop_thread (make_spawn_task fn)"

definition spawn_fn_here :: "bool \<Rightarrow> tls \<Rightarrow> nat \<Rightarrow> spawn_world \<Rightarrow> bool \<times> spawn_world" where
  "spawn_fn_here is_loop_thread cur fn = spawn_here is_loop_thread cur (make_spawn_task fn)"

definition spawn_logged :: "bool \<Rightarrow> string \<Rightarrow> detached_task \<Rightarrow> bool \<Rightarrow> spawn_world \<Rightarrow> bool \<times> spawn_world" where
  "spawn_logged is_loop_thread name task handler = spawn is_loop_thread (Dt_logged name handler task)"

definition spawn_logged_here :: "bool \<Rightarrow> tls \<Rightarrow> string \<Rightarrow> detached_task \<Rightarrow> bool \<Rightarrow> spawn_world \<Rightarrow> bool \<times> spawn_world" where
  "spawn_logged_here is_loop_thread cur name task handler = spawn_here is_loop_thread cur (Dt_logged name handler task)"

definition spawn_logged_fn :: "bool \<Rightarrow> string \<Rightarrow> nat \<Rightarrow> bool \<Rightarrow> spawn_world \<Rightarrow> bool \<times> spawn_world" where
  "spawn_logged_fn is_loop_thread name fn handler = spawn_logged is_loop_thread name (make_spawn_task fn) handler"

definition spawn_logged_fn_here :: "bool \<Rightarrow> tls \<Rightarrow> string \<Rightarrow> nat \<Rightarrow> bool \<Rightarrow> spawn_world \<Rightarrow> bool \<times> spawn_world" where
  "spawn_logged_fn_here is_loop_thread cur name fn handler = spawn_logged_here is_loop_thread cur name (make_spawn_task fn) handler"

definition spawn_after :: "bool \<Rightarrow> int \<Rightarrow> detached_task \<Rightarrow> spawn_world \<Rightarrow> bool \<times> spawn_world" where
  "spawn_after is_loop_thread delay task = spawn is_loop_thread (Dt_after delay task)"

definition spawn_after_here :: "bool \<Rightarrow> tls \<Rightarrow> int \<Rightarrow> detached_task \<Rightarrow> spawn_world \<Rightarrow> bool \<times> spawn_world" where
  "spawn_after_here is_loop_thread cur delay task = spawn_here is_loop_thread cur (Dt_after delay task)"

definition spawn_after_fn :: "bool \<Rightarrow> int \<Rightarrow> nat \<Rightarrow> spawn_world \<Rightarrow> bool \<times> spawn_world" where
  "spawn_after_fn is_loop_thread delay fn = spawn_after is_loop_thread delay (make_spawn_task fn)"

definition spawn_after_fn_here :: "bool \<Rightarrow> tls \<Rightarrow> int \<Rightarrow> nat \<Rightarrow> spawn_world \<Rightarrow> bool \<times> spawn_world" where
  "spawn_after_fn_here is_loop_thread cur delay fn = spawn_after_here is_loop_thread cur delay (make_spawn_task fn)"

definition spawn_at :: "bool \<Rightarrow> int \<Rightarrow> detached_task \<Rightarrow> spawn_world \<Rightarrow> bool \<times> spawn_world" where
  "spawn_at is_loop_thread deadline task = spawn is_loop_thread (Dt_at deadline task)"

definition spawn_at_here :: "bool \<Rightarrow> tls \<Rightarrow> int \<Rightarrow> detached_task \<Rightarrow> spawn_world \<Rightarrow> bool \<times> spawn_world" where
  "spawn_at_here is_loop_thread cur deadline task = spawn_here is_loop_thread cur (Dt_at deadline task)"

definition spawn_at_fn :: "bool \<Rightarrow> int \<Rightarrow> nat \<Rightarrow> spawn_world \<Rightarrow> bool \<times> spawn_world" where
  "spawn_at_fn is_loop_thread deadline fn = spawn_at is_loop_thread deadline (make_spawn_task fn)"

definition spawn_at_fn_here :: "bool \<Rightarrow> tls \<Rightarrow> int \<Rightarrow> nat \<Rightarrow> spawn_world \<Rightarrow> bool \<times> spawn_world" where
  "spawn_at_fn_here is_loop_thread cur deadline fn = spawn_at_here is_loop_thread cur deadline (make_spawn_task fn)"

text \<open>With a name and a delay or a deadline the handler stands around the sleep.\<close>

definition spawn_logged_after :: "bool \<Rightarrow> string \<Rightarrow> int \<Rightarrow> detached_task \<Rightarrow> bool \<Rightarrow> spawn_world \<Rightarrow> bool \<times> spawn_world" where
  "spawn_logged_after is_loop_thread name delay task handler = spawn_logged is_loop_thread name (Dt_after delay task) handler"

definition spawn_logged_after_here :: "bool \<Rightarrow> tls \<Rightarrow> string \<Rightarrow> int \<Rightarrow> detached_task \<Rightarrow> bool \<Rightarrow> spawn_world \<Rightarrow> bool \<times> spawn_world" where
  "spawn_logged_after_here is_loop_thread cur name delay task handler = spawn_logged_here is_loop_thread cur name (Dt_after delay task) handler"

definition spawn_logged_after_fn :: "bool \<Rightarrow> string \<Rightarrow> int \<Rightarrow> nat \<Rightarrow> bool \<Rightarrow> spawn_world \<Rightarrow> bool \<times> spawn_world" where
  "spawn_logged_after_fn is_loop_thread name delay fn handler = spawn_logged_after is_loop_thread name delay (make_spawn_task fn) handler"

definition spawn_logged_after_fn_here :: "bool \<Rightarrow> tls \<Rightarrow> string \<Rightarrow> int \<Rightarrow> nat \<Rightarrow> bool \<Rightarrow> spawn_world \<Rightarrow> bool \<times> spawn_world" where
  "spawn_logged_after_fn_here is_loop_thread cur name delay fn handler = spawn_logged_after_here is_loop_thread cur name delay (make_spawn_task fn) handler"

definition spawn_logged_at :: "bool \<Rightarrow> string \<Rightarrow> int \<Rightarrow> detached_task \<Rightarrow> bool \<Rightarrow> spawn_world \<Rightarrow> bool \<times> spawn_world" where
  "spawn_logged_at is_loop_thread name deadline task handler = spawn_logged is_loop_thread name (Dt_at deadline task) handler"

definition spawn_logged_at_here :: "bool \<Rightarrow> tls \<Rightarrow> string \<Rightarrow> int \<Rightarrow> detached_task \<Rightarrow> bool \<Rightarrow> spawn_world \<Rightarrow> bool \<times> spawn_world" where
  "spawn_logged_at_here is_loop_thread cur name deadline task handler = spawn_logged_here is_loop_thread cur name (Dt_at deadline task) handler"

definition spawn_logged_at_fn :: "bool \<Rightarrow> string \<Rightarrow> int \<Rightarrow> nat \<Rightarrow> bool \<Rightarrow> spawn_world \<Rightarrow> bool \<times> spawn_world" where
  "spawn_logged_at_fn is_loop_thread name deadline fn handler = spawn_logged_at is_loop_thread name deadline (make_spawn_task fn) handler"

definition spawn_logged_at_fn_here :: "bool \<Rightarrow> tls \<Rightarrow> string \<Rightarrow> int \<Rightarrow> nat \<Rightarrow> bool \<Rightarrow> spawn_world \<Rightarrow> bool \<times> spawn_world" where
  "spawn_logged_at_fn_here is_loop_thread cur name deadline fn handler = spawn_logged_at_here is_loop_thread cur name deadline (make_spawn_task fn) handler"

text \<open>A job of the loop starts its task.\<close>

definition spawn_job :: "spawn_world \<Rightarrow> spawn_world" where
  "spawn_job w =
     (case rt_queue (fst w) of
        [] \<Rightarrow> w
      | task # js \<Rightarrow> ((fst w)\<lparr>rt_queue := js\<rparr>, snd w @ [task]))"

section \<open>Lemmas\<close>

lemmas spawn_defs = spawn_fn_def spawn_fn_here_def spawn_logged_def spawn_logged_here_def spawn_logged_fn_def spawn_logged_fn_here_def
  spawn_after_def spawn_after_here_def spawn_after_fn_def spawn_after_fn_here_def spawn_at_def spawn_at_here_def spawn_at_fn_def
  spawn_at_fn_here_def spawn_logged_after_def spawn_logged_after_here_def spawn_logged_after_fn_def spawn_logged_after_fn_here_def
  spawn_logged_at_def spawn_logged_at_here_def spawn_logged_at_fn_def spawn_logged_at_fn_here_def

text \<open>
  A spawned task is started exactly once, or the answer is \<open>False\<close>: on the loop's thread at once, from
  another thread when the loop gets to it; a runtime that shuts down refuses and does not start it.
\<close>

lemma spawn_starts_once:
  assumes "rt_queue (fst w) = []" and "spawn is_loop_thread task w = (ok, w')"
  shows "if is_loop_thread then ok \<and> snd w' = snd w @ [task] \<and> fst w' = fst w
    else snd w' = snd w \<and> (if rt_shutting_down (fst w) then \<not> ok \<and> rt_queue (fst w') = []
      else snd (spawn_job w') = snd w @ [task] \<and> rt_queue (fst (spawn_job w')) = [] \<and> (ok \<longleftrightarrow> rt_send_rc (fst w) = Uv_ok))"
  using assms post_queue [of task "fst w"]
  by (cases "rt_send_rc (fst w)")
    (auto simp: spawn_def spawn_detached_def post_def async_send_def spawn_job_def split: if_splits sum.splits prod.splits)

text \<open>
  A logged task never throws, and its handler is called exactly once when what it stands around
  throws, also when that is the sleep before a delayed task.
\<close>

lemma logged_task_contained:
  assumes "run_detached env task = (tr, r)"
  shows "run_detached env (Dt_logged name True task) = (tr @ (case r of Inl e \<Rightarrow> [St_handler name e] | Inr _ \<Rightarrow> []), Inr ())"
  using assms by (cases r) (simp_all add: make_spawn_logged_task_def)

text \<open>User code is started only after the sleep, and not at all when the sleep throws.\<close>

lemma delayed_task_waits:
  assumes "run_detached env task = (tr, r)"
  shows "run_detached env (Dt_after delay task) =
    (case sp_sleep env (to_milliseconds delay) of
       Inr _ \<Rightarrow> (St_sleep (to_milliseconds delay) # tr, r)
     | Inl e \<Rightarrow> ([St_sleep (to_milliseconds delay)], Inl e))"
  using assms by (cases "sp_sleep env (to_milliseconds delay)") (simp_all add: make_spawn_after_task_def after_sleep_def)

text \<open>
  A defect: a \<open>post\<close> whose wake-up fails has already queued the job; \<open>spawn\<close> then answers \<open>False\<close>, but the
  task still runs when the loop wakes up for another reason.
\<close>

lemma refused_spawn_runs:
  assumes "rt_queue (fst w) = []" and "\<not> rt_shutting_down (fst w)" and "rt_send_rc (fst w) = Uv_err e"
  shows "fst (spawn False task w) = False \<and> snd (spawn_job (snd (spawn False task w))) = snd w @ [task]"
  using assms by (simp add: spawn_def spawn_detached_def post_def async_send_def spawn_job_def)

end
