(* ===== verification/Event_Reads.thy ===== *)
theory Event_Reads
  imports Signal_Refine Fs_Watch_Refine Channel_Iteration
begin

text \<open>
  How clients read from the components that report events: the members of \<open>signal_set\<close>
  (\<open>signal.hpp\<close>, \<open>src/signal.cpp\<close>), \<open>event_watcher\<close> and \<open>poll_watcher\<close> (\<open>fs.hpp\<close>, \<open>src/fs_watch.cpp\<close>) that hand
  out the notifications, and what the components and their channels promise together: every
  notification is handed out once, in order.
\<close>

section \<open>The members\<close>

text \<open>
  \<open>next\<close> and \<open>next_for\<close> receive from the channel \<open>events_\<close> at once. The members called \<open>async\<close> return a
  message to be awaited later, the others a generator of messages; both say only how to receive.
\<close>

definition signal_next :: "bool \<Rightarrow> nat \<Rightarrow> signal_world \<Rightarrow> int awaited \<times> signal_world" where
  "signal_next is_loop_thread receiver w = (case recv is_loop_thread receiver (sg_events w) of (r, c) \<Rightarrow> (r, w\<lparr>sg_events := c\<rparr>))"

definition signal_next_for :: "bool \<Rightarrow> int \<Rightarrow> nat \<Rightarrow> signal_world \<Rightarrow> int option awaited \<times> signal_world" where
  "signal_next_for is_loop_thread timeout receiver w =
     (case recv_for is_loop_thread timeout receiver receiver (sg_events w) of (r, c) \<Rightarrow> (r, w\<lparr>sg_events := c\<rparr>))"

definition signal_next_async :: async_message where
  "signal_next_async = channel_next"

definition signal_next_async_for :: "int \<Rightarrow> async_message" where
  "signal_next_async_for timeout = channel_next_for timeout"

definition signal_next_async_until :: "bool \<Rightarrow> int \<Rightarrow> async_message" where
  "signal_next_async_until stop_possible poll_interval = channel_next_until stop_possible poll_interval"

definition signals :: message_generator where
  "signals = channel_messages"

definition signals_for :: "int \<Rightarrow> message_generator" where
  "signals_for timeout = channel_messages_for timeout"

definition signals_until :: "bool \<Rightarrow> int \<Rightarrow> message_generator" where
  "signals_until stop_possible poll_interval = channel_messages_until stop_possible poll_interval"

text \<open>The watchers; their members are the same up to the type of the notification.\<close>

definition watcher_next :: "bool \<Rightarrow> nat \<Rightarrow> ('n, 'm) fs_watcher_scheme \<Rightarrow> 'n awaited \<times> ('n, 'm) fs_watcher_scheme" where
  "watcher_next is_loop_thread receiver w = (case recv is_loop_thread receiver (fw_events w) of (r, c) \<Rightarrow> (r, w\<lparr>fw_events := c\<rparr>))"

definition watcher_next_for :: "bool \<Rightarrow> int \<Rightarrow> nat \<Rightarrow> ('n, 'm) fs_watcher_scheme \<Rightarrow> 'n option awaited \<times> ('n, 'm) fs_watcher_scheme" where
  "watcher_next_for is_loop_thread timeout receiver w =
     (case recv_for is_loop_thread timeout receiver receiver (fw_events w) of (r, c) \<Rightarrow> (r, w\<lparr>fw_events := c\<rparr>))"

definition event_watcher_next :: "bool \<Rightarrow> nat \<Rightarrow> event_watcher \<Rightarrow> event_notification awaited \<times> event_watcher" where
  "event_watcher_next = watcher_next"

definition event_watcher_next_for :: "bool \<Rightarrow> int \<Rightarrow> nat \<Rightarrow> event_watcher \<Rightarrow> event_notification option awaited \<times> event_watcher" where
  "event_watcher_next_for = watcher_next_for"

definition event_watcher_next_async :: async_message where
  "event_watcher_next_async = channel_next"

definition event_watcher_next_async_for :: "int \<Rightarrow> async_message" where
  "event_watcher_next_async_for timeout = channel_next_for timeout"

definition event_watcher_next_async_until :: "bool \<Rightarrow> int \<Rightarrow> async_message" where
  "event_watcher_next_async_until stop_possible poll_interval = channel_next_until stop_possible poll_interval"

definition event_watcher_events :: message_generator where
  "event_watcher_events = channel_messages"

definition event_watcher_events_for :: "int \<Rightarrow> message_generator" where
  "event_watcher_events_for timeout = channel_messages_for timeout"

definition event_watcher_events_until :: "bool \<Rightarrow> int \<Rightarrow> message_generator" where
  "event_watcher_events_until stop_possible poll_interval = channel_messages_until stop_possible poll_interval"

definition poll_watcher_next :: "bool \<Rightarrow> nat \<Rightarrow> poll_watcher \<Rightarrow> poll_notification awaited \<times> poll_watcher" where
  "poll_watcher_next = watcher_next"

definition poll_watcher_next_for :: "bool \<Rightarrow> int \<Rightarrow> nat \<Rightarrow> poll_watcher \<Rightarrow> poll_notification option awaited \<times> poll_watcher" where
  "poll_watcher_next_for = watcher_next_for"

definition poll_watcher_next_async :: async_message where
  "poll_watcher_next_async = channel_next"

definition poll_watcher_next_async_for :: "int \<Rightarrow> async_message" where
  "poll_watcher_next_async_for timeout = channel_next_for timeout"

definition poll_watcher_next_async_until :: "bool \<Rightarrow> int \<Rightarrow> async_message" where
  "poll_watcher_next_async_until stop_possible poll_interval = channel_next_until stop_possible poll_interval"

definition poll_watcher_events :: message_generator where
  "poll_watcher_events = channel_messages"

definition poll_watcher_events_for :: "int \<Rightarrow> message_generator" where
  "poll_watcher_events_for timeout = channel_messages_for timeout"

definition poll_watcher_events_until :: "bool \<Rightarrow> int \<Rightarrow> message_generator" where
  "poll_watcher_events_until stop_possible poll_interval = channel_messages_until stop_possible poll_interval"

text \<open>The members that receive are the events by which clients read in the runs of the components.\<close>

lemma signal_next_steps:
  "signal_step (Sg_client (Ce_recv b k)) w = (case signal_next b k w of (r, w) \<Rightarrow> (So_channel (Oc_recv r), w))"
  "signal_step (Sg_client (Ce_recv_for b t k)) w = (case signal_next_for b t k w of (r, w) \<Rightarrow> (So_channel (Oc_recv_for r), w))"
  by (simp_all add: signal_next_def signal_next_for_def split: prod.split)

lemma watcher_next_steps:
  "watcher_client (Ce_recv b k) w = (case watcher_next b k w of (r, w) \<Rightarrow> (Wo_channel (Oc_recv r), w))"
  "watcher_client (Ce_recv_for b t k) w = (case watcher_next_for b t k w of (r, w) \<Rightarrow> (Wo_channel (Oc_recv_for r), w))"
  by (simp_all add: watcher_client_def watcher_next_def watcher_next_for_def split: prod.split)

section \<open>Delivery\<close>

text \<open>
  The unbounded channel of such a component: what was reported is, in order, what came out (to
  \<open>try_recv\<close> and to receivers) and what is inside, and no receiver got two notifications.
\<close>

definition delivered :: "'a list \<Rightarrow> 'a list \<Rightarrow> 'a fifo \<Rightarrow> bool" where
  "delivered reported got f \<longleftrightarrow>
     (\<exists>out \<in> shuffles got (map snd (ff_given f)). reported = out @ ff_queue f) \<and> distinct (map fst (ff_given f))"

lemma delivered_report:
  assumes "delivered a t f" and "ch_sim c f" and "\<not> ff_closed f"
  shows "delivered (a @ [v]) t (ff_put v f)"
proof -
  have f: "snd (fifo_step (Ce_try_send True v) f) = ff_put v f" if "ff_can_send f" using that assms(3) by simp
  from assms(1) obtain out where o: "out \<in> shuffles t (map snd (ff_given f))" "a = out @ ff_queue f" by (auto simp: delivered_def)
  show ?thesis
  proof (cases "ff_waiting f")
    case Nil
    with assms(1) o show ?thesis by (auto simp: delivered_def ff_put_def)
  next
    case (Cons k ks)
    then have q: "ff_queue f = []" using sim_waiting_empty [OF assms(2)] by simp
    have "ff_can_send f" using Cons assms(3) by (simp add: ff_can_send_def)
    with given_step [OF assms(2), of "Ce_try_send True v"] assms(1) f have "distinct (map fst (ff_given (ff_put v f)))"
      by (simp add: delivered_def)
    moreover have "a @ [v] \<in> shuffles t (map snd (ff_given (ff_put v f)))"
      using shuffles_snoc_right [OF o(1), of v] o(2) q Cons by (simp add: ff_put_def)
    ultimately show ?thesis using q Cons by (auto simp: delivered_def ff_put_def)
  qed
qed

lemma delivered_give:
  assumes "delivered a t f" and "ff_queue f = v # vs"
  shows "k \<notin> fst ` set (ff_given f) \<Longrightarrow> delivered a t (f\<lparr>ff_queue := vs, ff_given := ff_given f @ [(k, v)]\<rparr>)"
    and "delivered a (t @ [v]) (f\<lparr>ff_queue := vs\<rparr>)"
  using assms shuffles_snoc_right [of _ t "map snd (ff_given f)" v] shuffles_snoc_left [of _ t "map snd (ff_given f)" v]
  by (fastforce simp: delivered_def)+

lemma delivered_client:
  assumes "delivered a t f" and "receiving ev" and "ch_enabled ev c f"
  shows "delivered a (t @ taken (fst (fifo_step ev f))) (snd (fifo_step ev f))"
proof (cases ev)
  case (Ce_try_recv b)
  with assms(1) delivered_give(2) [OF assms(1)] show ?thesis by (cases "ff_queue f") simp_all
next
  case (Ce_recv b k)
  with assms delivered_give(1) [OF assms(1), of _ _ k] show ?thesis by (cases "ff_queue f") (auto simp: delivered_def)
next
  case (Ce_recv_for b timeout k)
  with assms delivered_give(1) [OF assms(1), of _ _ k] show ?thesis by (cases "ff_queue f") (auto simp: delivered_def)
qed (use assms in \<open>auto simp: delivered_def\<close>)

lemma delivered_close: "delivered a t f \<Longrightarrow> ff_capacity f = 0 \<Longrightarrow> delivered a t (snd (fifo_step Ce_close f))"
  by (simp add: delivered_def)

lemma delivered_new: "delivered [] [] (new_fifo n)"
  by (simp add: delivered_def new_fifo_def)

text \<open>What the relation between the channel and its queue makes of it.\<close>

definition notified :: "'a list \<Rightarrow> 'a list \<Rightarrow> 'a chan_world \<Rightarrow> bool" where
  "notified reported got c \<longleftrightarrow>
     (\<exists>given out. reported = out @ content (cw_ch c) \<and> out \<in> shuffles got (map snd given) \<and> distinct (map fst given) \<and>
        (\<forall>(k, v)\<in>set given. rw_completed (ch_receivers (cw_ch c) k) \<and> rw_value (ch_receivers (cw_ch c) k) = Some v \<and>
           rw_exception (ch_receivers (cw_ch c) k) = None))"

lemma delivered_notified:
  assumes "delivered a t f" and "ch_sim c f"
  shows "notified a t c"
proof -
  from assms(1) obtain out where o: "out \<in> shuffles t (map snd (ff_given f))" "a = out @ ff_queue f" "distinct (map fst (ff_given f))"
    by (auto simp: delivered_def)
  from ch_sim_parts [OF assms(2)] o show ?thesis
    unfolding notified_def by (intro exI [of _ "ff_given f"] exI [of _ out]) (auto simp: given_ok_def)
qed

section \<open>Signals\<close>

fun signal_reported :: "signal_event \<Rightarrow> signal_world \<Rightarrow> int list" where
  "signal_reported (Sg_signal signum) w = (if signal_contains signum w then [signum] else [])"
| "signal_reported ev w = []"

fun all_reported :: "signal_event list \<Rightarrow> signal_world \<Rightarrow> int list" where
  "all_reported [] w = []"
| "all_reported (ev # evs) w = signal_reported ev w @ all_reported evs (snd (signal_step ev w))"

fun signal_taken :: "signal_outcome \<Rightarrow> int list" where
  "signal_taken (So_channel r) = taken r"
| "signal_taken r = []"

lemma contains_iff: "signal_sim w p \<Longrightarrow> signal_contains s w \<longleftrightarrow> s \<in> sp_signals p"
  using registered_iff [of w p s] by (auto simp: signal_contains_def signal_sim_def)

lemma signal_delivers:
  assumes s: "signal_sim w p" and e: "signal_enabled ev w p" and d: "delivered a t (sp_events p)"
  shows "delivered (a @ signal_reported ev w) (t @ signal_taken (fst (spec_step ev p))) (sp_events (snd (spec_step ev p)))"
proof (cases ev)
  case (Sg_signal signum)
  have "ch_sim (sg_events w) (sp_events p)" using s by (simp add: signal_sim_def)
  moreover have "\<not> ff_closed (sp_events p)" if "signum \<in> sp_signals p" using s that by (auto simp: signal_sim_def split: if_splits)
  ultimately show ?thesis using Sg_signal d delivered_report [OF d, of "sg_events w" signum] contains_iff [OF s, of signum] by simp
next
  case (Sg_client c)
  with e d delivered_client [OF d, of c "sg_events w"] show ?thesis by (simp add: case_prod_beta)
next
  case Sg_close
  have "ff_capacity (sp_events p) = 0" using s by (simp add: signal_sim_def)
  with Sg_close d delivered_close [OF d] show ?thesis by simp
qed (use d in \<open>auto split: uv_status.split\<close>)

lemma signal_run_delivers:
  "signal_sim w p \<Longrightarrow> signal_runnable evs w p \<Longrightarrow> delivered a t (sp_events p) \<Longrightarrow>
   delivered (a @ all_reported evs w) (t @ concat (map signal_taken (fst (signal_run evs w)))) (sp_events (snd (spec_run evs p)))"
proof (induction evs arbitrary: w p a t)
  case (Cons ev evs)
  from sim_step [OF Cons.prems(1)] Cons.prems(2) have h: "signal_sound (signal_step ev w) (spec_step ev p)" by simp
  then have s: "fst (signal_step ev w) = fst (spec_step ev p)" "signal_sim (snd (signal_step ev w)) (snd (spec_step ev p))"
    by (simp_all add: signal_sound_def)
  from Cons.prems(2) have e: "signal_enabled ev w p" by simp
  from Cons.IH [OF s(2) _ signal_delivers [OF Cons.prems(1) e Cons.prems(3)]] Cons.prems(2) s(1)
  show ?case by (simp add: case_prod_beta)
qed simp



section \<open>Watchers\<close>

fun watch_reported :: "('a, 'd, 'n) watch_kind \<Rightarrow> ('a, 'd, 'n) watch_event \<Rightarrow> 'n watch_spec \<Rightarrow> 'n list" where
  "watch_reported k (We_report d) p = (case wp_watching p of None \<Rightarrow> [] | Some path \<Rightarrow> [wk_label k path d])"
| "watch_reported k ev p = []"

fun all_changes :: "('a, 'd, 'n) watch_kind \<Rightarrow> ('a, 'd, 'n) watch_event list \<Rightarrow> 'n watch_spec \<Rightarrow> 'n list" where
  "all_changes k [] p = []"
| "all_changes k (ev # evs) p = watch_reported k ev p @ all_changes k evs (snd (watch_spec_step k ev p))"

fun watch_taken :: "'n watch_outcome \<Rightarrow> 'n list" where
  "watch_taken (Wo_channel r) = taken r"
| "watch_taken r = []"

lemma watch_delivers:
  assumes s: "watch_sim w p" and e: "watch_enabled ev w p" and d: "delivered a t (wp_events p)"
  shows "delivered (a @ watch_reported k ev p) (t @ watch_taken (fst (watch_spec_step k ev p))) (wp_events (snd (watch_spec_step k ev p)))"
proof (cases ev)
  case (We_report x)
  have "ch_sim (fw_events w) (wp_events p)" using s by (simp add: watch_sim_def)
  moreover have "\<not> ff_closed (wp_events p)" if "wp_watching p = Some q" for q using s that by (auto simp: watch_sim_def split: if_splits)
  ultimately show ?thesis using We_report d delivered_report [OF d, of "fw_events w"] by (auto split: option.split)
next
  case (We_client c)
  with e d delivered_client [OF d, of c "fw_events w"] show ?thesis by (simp add: case_prod_beta)
next
  case We_close
  have "ff_capacity (wp_events p) = 0" using s by (simp add: watch_sim_def)
  with We_close d delivered_close [OF d] show ?thesis by simp
qed (use d in \<open>auto split: uv_status.split option.split\<close>)

context file_watcher begin

lemma run_delivers:
  "watch_sim w p \<Longrightarrow> watch_runnable step kind evs w p \<Longrightarrow> delivered a t (wp_events p) \<Longrightarrow>
   notified (a @ all_changes kind evs p) (t @ concat (map watch_taken (fst (watch_run step evs w)))) (fw_events (snd (watch_run step evs w)))"
proof (induction evs arbitrary: w p a t)
  case Nil
  then show ?case using delivered_notified [OF Nil.prems(3)] by (simp add: watch_sim_def)
next
  case (Cons ev evs)
  from step_sound [OF Cons.prems(1)] Cons.prems(2) have h: "watch_sound (step ev w) (watch_spec_step kind ev p)" by simp
  then have s: "fst (step ev w) = fst (watch_spec_step kind ev p)" "watch_sim (snd (step ev w)) (snd (watch_spec_step kind ev p))"
    by (simp_all add: watch_sound_def)
  from Cons.prems(2) have e: "watch_enabled ev w p" by simp
  from Cons.IH [OF s(2) _ watch_delivers [OF Cons.prems(1) e Cons.prems(3)]] Cons.prems(2) s(1)
  show ?case by (simp add: case_prod_beta)
qed

end

text \<open>
  The same for both watchers: the changes that libuv reported while a path was watched, each labelled
  with the path that was watched then, are delivered in order, each once.
\<close>

lemma watch_delivery:
  assumes "rt_queue rt = []"
  shows "event_watcher_new Uv_ok rt = Inr w \<Longrightarrow> watch_runnable event_step event_kind evs w watch_spec_new \<Longrightarrow>
     notified (all_changes event_kind evs watch_spec_new) (concat (map watch_taken (fst (watch_run event_step evs w))))
       (fw_events (snd (watch_run event_step evs w)))"
    and "poll_watcher_new Uv_ok rt = Inr v \<Longrightarrow> watch_runnable poll_step poll_kind evs' v watch_spec_new \<Longrightarrow>
     notified (all_changes poll_kind evs' watch_spec_new) (concat (map watch_taken (fst (watch_run poll_step evs' v))))
       (fw_events (snd (watch_run poll_step evs' v)))"
proof -
  have d: "delivered [] [] (wp_events watch_spec_new)" by (simp add: watch_spec_new_def delivered_new)
  show "event_watcher_new Uv_ok rt = Inr w \<Longrightarrow> watch_runnable event_step event_kind evs w watch_spec_new \<Longrightarrow>
     notified (all_changes event_kind evs watch_spec_new) (concat (map watch_taken (fst (watch_run event_step evs w))))
       (fw_events (snd (watch_run event_step evs w)))"
    using event_watching.run_delivers [OF watch_sim_new(1) [OF assms] _ d] by simp
  show "poll_watcher_new Uv_ok rt = Inr v \<Longrightarrow> watch_runnable poll_step poll_kind evs' v watch_spec_new \<Longrightarrow>
     notified (all_changes poll_kind evs' watch_spec_new) (concat (map watch_taken (fst (watch_run poll_step evs' v))))
       (fw_events (snd (watch_run poll_step evs' v)))"
    using poll_watching.run_delivers [OF watch_sim_new(2) [OF assms] _ d] by simp
qed

end
