(* ===== verification/Clocks.thy ===== *)
theory Clocks
  imports Control "HOL-Library.Signed_Division"
begin

text \<open>
  The overloads of \<open>runtime.hpp\<close>, \<open>src/runtime.cpp\<close> and \<open>control.hpp\<close> that sleep, wait and set
  timeouts with other durations and clocks, without a stop token, or on the current runtime; what they
  do to the time that was asked for; and which waits \<open>steady_timer::cancel\<close> reaches.
\<close>

section \<open>Durations\<close>

text \<open>\<open>std::chrono::duration\<close> with an integral count; its period is \<open>du_num / du_den\<close> seconds.\<close>

record duration =
  du_count :: int
  du_num :: int
  du_den :: int

definition duration_ok :: "duration \<Rightarrow> bool" where
  "duration_ok d \<longleftrightarrow> 0 < du_num d \<and> 0 < du_den d"

text \<open>\<open>std::chrono::duration_cast<std::chrono::milliseconds>\<close>: the division rounds towards zero.\<close>

definition duration_cast_ms :: "duration \<Rightarrow> int" where
  "duration_cast_ms d = (du_count d * du_num d * 1000) sdiv du_den d"

lemma sdiv_pos: "0 < (b :: int) \<Longrightarrow> a sdiv b = (if 0 \<le> a then a div b else - ((- a) div b))"
  by (cases "a = 0"; cases "0 < a") (simp_all add: signed_divide_int_def)

text \<open>Quotient and remainder as two numbers, for linear arithmetic.\<close>

lemma pos_div_cases:
  assumes "0 < (b :: int)"
  obtains r where "a div b * b + r = a" "0 \<le> r" "r < b"
  using that [of "a mod b"] assms by simp

text \<open>The cast never makes a duration longer, and takes less than a millisecond from it.\<close>

lemma duration_cast_bounds:
  assumes "duration_ok d"
  shows "0 \<le> du_count d \<Longrightarrow> duration_cast_ms d * du_den d \<le> du_count d * du_num d * 1000 \<and>
      du_count d * du_num d * 1000 < (duration_cast_ms d + 1) * du_den d \<and> 0 \<le> duration_cast_ms d"
    and "du_count d < 0 \<Longrightarrow> duration_cast_ms d \<le> 0"
proof -
  have n: "0 < du_num d" and p: "0 < du_den d" using assms by (simp_all add: duration_ok_def)
  show "duration_cast_ms d * du_den d \<le> du_count d * du_num d * 1000 \<and>
      du_count d * du_num d * 1000 < (duration_cast_ms d + 1) * du_den d \<and> 0 \<le> duration_cast_ms d" if "0 \<le> du_count d"
  proof -
    let ?a = "du_count d * du_num d * 1000"
    have a: "0 \<le> ?a" using that n by simp
    have e: "duration_cast_ms d = ?a div du_den d" using a p by (simp add: duration_cast_ms_def sdiv_pos)
    obtain r where r: "?a div du_den d * du_den d + r = ?a" "0 \<le> r" "r < du_den d" by (rule pos_div_cases [OF p])
    have "0 \<le> ?a div du_den d" using a p by (simp add: pos_imp_zdiv_nonneg_iff)
    moreover have "(?a div du_den d + 1) * du_den d = ?a div du_den d * du_den d + du_den d" by (simp add: distrib_right)
    ultimately show ?thesis unfolding e using r by linarith
  qed
  show "duration_cast_ms d \<le> 0" if "du_count d < 0"
  proof -
    let ?a = "du_count d * du_num d * 1000"
    have "du_count d * du_num d < 0" using that n by (rule mult_neg_pos)
    then have a: "?a < 0" by simp
    then have "0 \<le> (- ?a) div du_den d" using p by (simp add: pos_imp_zdiv_nonneg_iff)
    with a p show ?thesis by (simp add: duration_cast_ms_def sdiv_pos)
  qed
qed

text \<open>For nanoseconds, the period of the steady clock, it is the cast of the other theories.\<close>

lemma duration_cast_nanoseconds: "duration_cast_ms \<lparr>du_count = t, du_num = 1, du_den = 1000000000\<rparr> = to_milliseconds t"
proof -
  have "(n * 1000) div 1000000000 = n div 1000000" for n :: int
    using zdiv_zmult2_eq [of 1000 "n * 1000" 1000000] by simp
  from this [of t] this [of "- t"] show ?thesis by (simp add: duration_cast_ms_def to_milliseconds_def sdiv_pos)
qed

lemma duration_cast_milliseconds: "duration_cast_ms \<lparr>du_count = t, du_num = 1, du_den = 1000\<rparr> = t"
  using nonzero_mult_div_cancel_right [of 1000 "- t"] by (simp add: duration_cast_ms_def sdiv_pos)

section \<open>Sleeping\<close>

definition sleep_for_ms :: "int \<Rightarrow> sleep_plan" where
  "sleep_for_ms delay = Sleep_for delay"

definition sleep_for_any :: "duration \<Rightarrow> sleep_plan" where
  "sleep_for_any delay = sleep_for_ms (duration_cast_ms delay)"

definition sleep_for_any_token :: "duration \<Rightarrow> sleep_plan" where
  "sleep_for_any_token delay = Sleep_for (duration_cast_ms delay)"

text \<open>\<open>sleep_until\<close> with the steady clock and no token, and with any clock and no token.\<close>

definition sleep_until_plain :: "int \<Rightarrow> int \<Rightarrow> sleep_plan" where
  "sleep_until_plain now deadline = sleep_until now False deadline"

definition sleep_until_clock_plain :: "int \<Rightarrow> int \<Rightarrow> sleep_plan" where
  "sleep_until_clock_plain now deadline =
     (if deadline \<le> now then Return_now (Inr ()) else sleep_for_ms (to_milliseconds (deadline - now)))"

text \<open>The overloads that ask for the current runtime.\<close>

definition on_current :: "tls \<Rightarrow> (nat \<Rightarrow> 'a) \<Rightarrow> 'a result" where
  "on_current cur f = (case current_runtime cur of Inl e \<Rightarrow> Inl e | Inr rt \<Rightarrow> Inr (f rt))"

definition sleep_for_here :: "tls \<Rightarrow> int \<Rightarrow> sleep_plan result" where
  "sleep_for_here cur delay = on_current cur (\<lambda>_. sleep_for_ms delay)"

definition sleep_for_token_here :: "tls \<Rightarrow> int \<Rightarrow> sleep_plan result" where
  "sleep_for_token_here cur delay = on_current cur (\<lambda>_. Sleep_for delay)"

definition sleep_for_any_here :: "tls \<Rightarrow> duration \<Rightarrow> sleep_plan result" where
  "sleep_for_any_here cur delay = on_current cur (\<lambda>_. sleep_for_ms (duration_cast_ms delay))"

definition sleep_until_here :: "tls \<Rightarrow> int \<Rightarrow> int \<Rightarrow> sleep_plan result" where
  "sleep_until_here cur now deadline = on_current cur (\<lambda>_. sleep_until_plain now deadline)"

definition sleep_until_token_here :: "tls \<Rightarrow> int \<Rightarrow> bool \<Rightarrow> int \<Rightarrow> sleep_plan result" where
  "sleep_until_token_here cur now stop_requested deadline = on_current cur (\<lambda>_. sleep_until now stop_requested deadline)"

definition sleep_until_clock_here :: "tls \<Rightarrow> int \<Rightarrow> int \<Rightarrow> sleep_plan result" where
  "sleep_until_clock_here cur now deadline = on_current cur (\<lambda>_. sleep_until_clock_plain now deadline)"

definition sleep_until_clock_token_here :: "tls \<Rightarrow> int \<Rightarrow> bool \<Rightarrow> int \<Rightarrow> sleep_plan result" where
  "sleep_until_clock_token_here cur now stop_requested deadline = on_current cur (\<lambda>_. sleep_until_clock now stop_requested deadline)"

definition wait_for_stop_token_here :: "tls \<Rightarrow> bool \<Rightarrow> bool \<Rightarrow> (nat \<Rightarrow> stop_wait_job uv_runtime) \<Rightarrow> (bool \<times> stop_wait_world) result" where
  "wait_for_stop_token_here cur stop_requested stop_meanwhile runtimes =
     on_current cur (\<lambda>rt. wait_for_stop_token stop_requested stop_meanwhile (runtimes rt))"

definition wait_for_stop_here :: "tls \<Rightarrow> bool \<Rightarrow> bool \<Rightarrow> bool \<Rightarrow> bool \<Rightarrow> (nat \<Rightarrow> stop_wait_job uv_runtime) \<Rightarrow> (bool \<times> stop_wait_world) result" where
  "wait_for_stop_here cur stop_requested cancel_requested stop_meanwhile cancel_meanwhile runtimes =
     on_current cur (\<lambda>rt. wait_for_stop stop_requested cancel_requested stop_meanwhile cancel_meanwhile (runtimes rt))"

section \<open>Timeouts\<close>

definition with_timeout_plain :: "(contender list \<Rightarrow> contender) \<Rightarrow> (contender \<Rightarrow> 'a operation_outcome result) \<Rightarrow> duration
    \<Rightarrow> 'a result \<times> contender list" where
  "with_timeout_plain when_any outcome timeout = run_controlled when_any outcome False False (Some (duration_cast_ms timeout))"

definition with_deadline_plain :: "(contender list \<Rightarrow> contender) \<Rightarrow> (contender \<Rightarrow> 'a operation_outcome result) \<Rightarrow> int \<Rightarrow> int
    \<Rightarrow> 'a result \<times> contender list" where
  "with_deadline_plain when_any outcome now deadline =
     (if deadline \<le> now then (Inl Operation_timeout, [])
      else with_timeout_plain when_any outcome \<lparr>du_count = to_milliseconds (deadline - now), du_num = 1, du_den = 1000\<rparr>)"

definition with_stop_token_here :: "tls \<Rightarrow> (contender list \<Rightarrow> contender) \<Rightarrow> (contender \<Rightarrow> 'a operation_outcome result) \<Rightarrow> bool \<Rightarrow> bool
    \<Rightarrow> ('a result \<times> contender list) result" where
  "with_stop_token_here cur when_any outcome stop_requested stop_possible =
     on_current cur (\<lambda>_. with_stop_token when_any outcome stop_requested stop_possible)"

definition with_timeout_plain_here :: "tls \<Rightarrow> (contender list \<Rightarrow> contender) \<Rightarrow> (contender \<Rightarrow> 'a operation_outcome result) \<Rightarrow> duration
    \<Rightarrow> ('a result \<times> contender list) result" where
  "with_timeout_plain_here cur when_any outcome timeout = on_current cur (\<lambda>_. with_timeout_plain when_any outcome timeout)"

definition with_timeout_here :: "tls \<Rightarrow> (contender list \<Rightarrow> contender) \<Rightarrow> (contender \<Rightarrow> 'a operation_outcome result) \<Rightarrow> bool \<Rightarrow> bool \<Rightarrow> int
    \<Rightarrow> ('a result \<times> contender list) result" where
  "with_timeout_here cur when_any outcome stop_requested stop_possible timeout =
     on_current cur (\<lambda>_. with_timeout when_any outcome stop_requested stop_possible timeout)"

definition with_deadline_plain_here :: "tls \<Rightarrow> (contender list \<Rightarrow> contender) \<Rightarrow> (contender \<Rightarrow> 'a operation_outcome result) \<Rightarrow> int \<Rightarrow> int
    \<Rightarrow> ('a result \<times> contender list) result" where
  "with_deadline_plain_here cur when_any outcome now deadline = on_current cur (\<lambda>_. with_deadline_plain when_any outcome now deadline)"

definition with_deadline_here :: "tls \<Rightarrow> (contender list \<Rightarrow> contender) \<Rightarrow> (contender \<Rightarrow> 'a operation_outcome result) \<Rightarrow> bool \<Rightarrow> bool
    \<Rightarrow> int \<Rightarrow> int \<Rightarrow> ('a result \<times> contender list) result" where
  "with_deadline_here cur when_any outcome stop_requested stop_possible now deadline =
     on_current cur (\<lambda>_. with_deadline when_any outcome stop_requested stop_possible now deadline)"

section \<open>Lemmas\<close>

text \<open>Without a token the overloads are the ones with a token that cannot be stopped.\<close>

lemma plain_overloads:
  "sleep_until_clock_plain now deadline = sleep_until_plain now deadline"
  "with_timeout_plain when_any outcome \<lparr>du_count = t, du_num = 1, du_den = 1000000000\<rparr> = with_timeout when_any outcome False False t"
  "with_deadline_plain when_any outcome now deadline = with_deadline when_any outcome False False now deadline"
  by (simp_all add: sleep_until_clock_plain_def sleep_until_plain_def sleep_until_def sleep_for_ms_def to_milliseconds_def
      with_timeout_plain_def with_timeout_def duration_cast_nanoseconds with_deadline_plain_def with_deadline_def
      duration_cast_milliseconds)

text \<open>No overload asks for a runtime that is not bound.\<close>

lemma unbound_overloads:
  "sleep_for_here None ms = Inl (Runtime_error ''no current luvcoro::uv_runtime bound to this thread'')"
  "sleep_until_here None now deadline = Inl (Runtime_error ''no current luvcoro::uv_runtime bound to this thread'')"
  "with_timeout_here None when_any outcome sr sp t = Inl (Runtime_error ''no current luvcoro::uv_runtime bound to this thread'')"
  by (simp_all add: sleep_for_here_def sleep_until_here_def with_timeout_here_def on_current_def current_runtime_def)

text \<open>
  The operation, with a timeout and no token, is never reported cancelled unless it says so itself.
\<close>

lemma plain_timeout_not_cancelled:
  assumes "\<And>cs. cs \<noteq> [] \<Longrightarrow> when_any cs \<in> set cs" and "\<And>ms. sleep ms = Inr ()" and "operation \<noteq> Inl Operation_cancelled"
  shows "fst (with_timeout_plain when_any (contender_outcome operation sleep stop_wait) timeout) \<noteq> Inl Operation_cancelled"
proof -
  let ?cs = "contenders False (Some (duration_cast_ms timeout))"
  have "when_any ?cs \<in> set ?cs" by (rule assms(1)) (simp add: contenders_def)
  with assms(2,3) show ?thesis
    by (auto simp: with_timeout_plain_def run_controlled_def contenders_def contender_outcome_def resolve_wrap timeout_outcome_task_def Let_def)
qed

text \<open>
  A defect: the time left to a deadline is cut to whole milliseconds, so \<open>sleep_until\<close> and
  \<open>steady_timer::wait\<close> ask for less than the time left, by up to a millisecond; with less than a
  millisecond left they return at once. The cut is never as much as a millisecond.
\<close>

lemma sleep_until_early:
  assumes "now < deadline"
  shows "\<exists>ms. sleep_until now stop_requested deadline = Sleep_for ms \<and> 0 \<le> ms \<and> now + ms * 1000000 \<le> deadline \<and>
      deadline < now + (ms + 1) * 1000000 \<and> (deadline < now + 1000000 \<longrightarrow> sleep_for_await_ready ms False)"
proof -
  let ?ms = "(deadline - now) div 1000000"
  obtain r where r: "?ms * 1000000 + r = deadline - now" "0 \<le> r" "r < 1000000" by (rule pos_div_cases [of 1000000]) simp_all
  have "(?ms + 1) * 1000000 = ?ms * 1000000 + 1000000" by (simp add: distrib_right)
  with r have "now + ?ms * 1000000 \<le> deadline" "deadline < now + (?ms + 1) * 1000000" by linarith+
  moreover have "0 \<le> ?ms" using assms by (simp add: pos_imp_zdiv_nonneg_iff)
  moreover have "?ms = 0" if "deadline < now + 1000000" using that assms by (simp add: div_pos_pos_trivial)
  ultimately show ?thesis using assms
    by (intro exI [of _ ?ms] conjI impI) (simp_all add: sleep_until_def sleep_for_await_ready_def)
qed

section \<open>Cancelling a steady timer\<close>

datatype steady_event = Sy_expires_at int | Sy_cancel

fun steady_step :: "steady_event \<Rightarrow> steady_timer \<Rightarrow> steady_timer" where
  "steady_step (Sy_expires_at deadline) t = expires_at deadline t"
| "steady_step Sy_cancel t = steady_cancel t"

definition steady_ok :: "steady_timer \<Rightarrow> bool" where
  "steady_ok t \<longleftrightarrow> st_source t < st_next t \<and> (\<forall>s\<in>set (st_stopped t). s < st_next t)"

lemma steady_ok_step: "steady_ok t \<Longrightarrow> steady_ok (steady_step ev t)"
  by (cases ev) (auto simp: steady_ok_def expires_at_def steady_cancel_def)

lemma steady_ok_run: "steady_ok t \<Longrightarrow> steady_ok (fold steady_step evs t)"
  by (induction evs arbitrary: t) (simp_all add: steady_ok_step)

text \<open>Which waits of a run a token belongs to: those begun since the last \<open>expires_at\<close>.\<close>

lemma steady_cancels_only:
  "set evs \<subseteq> {Sy_cancel} \<Longrightarrow> st_source (fold steady_step evs t) = st_source t \<and> st_next (fold steady_step evs t) = st_next t \<and>
     st_expiry (fold steady_step evs t) = st_expiry t \<and>
     set (st_stopped (fold steady_step evs t)) = set (st_stopped t) \<union> (if evs = [] then {} else {st_source t})"
proof (induction evs arbitrary: t)
  case (Cons ev evs)
  then have "ev = Sy_cancel" by simp
  with Cons.IH [of "steady_cancel t"] Cons.prems show ?case by (auto simp: steady_cancel_def)
qed simp

text \<open>
  A wait begun now is cancelled from the start exactly when \<open>cancel\<close> was called since the expiry was last
  set; and \<open>expires_at\<close> puts the waits begun before it out of the reach of every later \<open>cancel\<close>.
\<close>

lemma steady_cancel_reach:
  assumes "steady_ok t" and "set evs \<subseteq> {Sy_cancel}" and t': "t' = fold steady_step (Sy_expires_at deadline # evs) t"
  shows "snd (steady_wait now t') \<in> set (st_stopped t') \<longleftrightarrow> evs \<noteq> []"
    and "snd (steady_wait now t) \<in> set (st_stopped t') \<longleftrightarrow> snd (steady_wait now t) \<in> set (st_stopped t)"
    and "evs \<noteq> [] \<Longrightarrow> deadline \<le> now \<Longrightarrow> fst (steady_wait now t') = Return_now (Inl Operation_cancelled)"
proof -
  note c = steady_cancels_only [OF assms(2), of "expires_at deadline t"]
  have s: "st_source (expires_at deadline t) = st_next t" "set (st_stopped (expires_at deadline t)) = set (st_stopped t)"
    "st_expiry (expires_at deadline t) = deadline"
    by (simp_all add: expires_at_def)
  from assms(1) have n: "st_next t \<notin> set (st_stopped t)" "st_source t \<noteq> st_next t" by (auto simp: steady_ok_def)
  show "snd (steady_wait now t') \<in> set (st_stopped t') \<longleftrightarrow> evs \<noteq> []"
    using c s n by (auto simp: t' steady_wait_def)
  show "snd (steady_wait now t) \<in> set (st_stopped t') \<longleftrightarrow> snd (steady_wait now t) \<in> set (st_stopped t)"
    using c s n by (auto simp: t' steady_wait_def)
  show "evs \<noteq> [] \<Longrightarrow> deadline \<le> now \<Longrightarrow> fst (steady_wait now t') = Return_now (Inl Operation_cancelled)"
    using c s n by (auto simp: t' steady_wait_def sleep_until_def)
qed

end
