(* ===== verification/Fs_Types.thy ===== *)
theory Fs_Types
  imports Fs_Functions Fs_Watch
begin

unbundle bit_operations_syntax

text \<open>
  The members of the value types of \<open>include/luvcoro/fs.hpp\<close> that \<open>Fs_Functions\<close> does not need:
  the kinds of a \<open>file_status\<close>, of a \<open>directory_entry\<close>, and the operators of \<open>watch_flags\<close>.
\<close>

section \<open>file\_status and directory\_entry\<close>

definition status_size :: "uv_stat \<Rightarrow> 64 word" where
  "status_size s = st_size s"

text \<open>\<open>mode()\<close> converts to \<open>int\<close>.\<close>

definition status_mode :: "uv_stat \<Rightarrow> int" where
  "status_mode s = sint (st_mode s)"

definition status_is_character_device :: "uv_stat \<Rightarrow> bool" where
  "status_is_character_device s \<longleftrightarrow> st_kind s = 0x2000"

definition status_is_block_device :: "uv_stat \<Rightarrow> bool" where
  "status_is_block_device s \<longleftrightarrow> st_kind s = 0x6000"

definition status_is_fifo :: "uv_stat \<Rightarrow> bool" where
  "status_is_fifo s \<longleftrightarrow> st_kind s = 0x1000"

definition status_is_socket :: "uv_stat \<Rightarrow> bool" where
  "status_is_socket s \<longleftrightarrow> st_kind s = 0xC000"

definition entry_is_file :: "directory_entry \<Rightarrow> bool" where
  "entry_is_file e \<longleftrightarrow> de_type e = Dirent_file"

definition entry_is_directory :: "directory_entry \<Rightarrow> bool" where
  "entry_is_directory e \<longleftrightarrow> de_type e = Dirent_dir"

definition entry_is_link :: "directory_entry \<Rightarrow> bool" where
  "entry_is_link e \<longleftrightarrow> de_type e = Dirent_link"

lemmas status_kinds = status_is_directory_def status_is_regular_file_def status_is_symbolic_link_def status_is_character_device_def
  status_is_block_device_def status_is_fifo_def status_is_socket_def

text \<open>A status has one kind at most: of the seven questions at most one is answered with yes.\<close>

lemma status_one_kind:
  "length (filter (\<lambda>is. is s) [status_is_directory, status_is_regular_file, status_is_symbolic_link, status_is_character_device,
     status_is_block_device, status_is_fifo, status_is_socket]) \<le> 1"
  by (simp add: status_kinds)

text \<open>The kind is read from the bits of the mode for the type: the bits for the permissions do not matter.\<close>

lemma status_kind_permissions:
  assumes "perm AND 0xF000 = 0"
  shows "st_kind (s\<lparr>st_mode := st_mode s OR perm\<rparr>) = st_kind s"
  using assms by (simp add: st_kind_def bit.conj_disj_distrib2)

lemma entry_one_kind: "length (filter (\<lambda>is. is e) [entry_is_file, entry_is_directory, entry_is_link]) \<le> 1"
  by (simp add: entry_is_file_def entry_is_directory_def entry_is_link_def)

section \<open>watch\_flags\<close>

definition watch_flags_or :: "32 word \<Rightarrow> 32 word \<Rightarrow> 32 word" where
  "watch_flags_or lhs rhs = lhs OR rhs"

definition watch_flags_and :: "32 word \<Rightarrow> 32 word \<Rightarrow> 32 word" where
  "watch_flags_and lhs rhs = lhs AND rhs"

definition watch_flags_or_assign :: "32 word \<Rightarrow> 32 word \<Rightarrow> 32 word" where
  "watch_flags_or_assign lhs rhs = watch_flags_or lhs rhs"

text \<open>These are what they say, unlike the assignments of the other two flag types.\<close>

lemma watch_flags_laws:
  "watch_flags_and (watch_flags_or_assign lhs rhs) rhs = rhs"
  "watch_flags_and rhs lhs = 0 \<Longrightarrow> watch_flags_and (watch_flags_or lhs f) rhs = watch_flags_and f rhs"
  by (simp_all add: watch_flags_or_assign_def watch_flags_or_def watch_flags_and_def bit.conj_disj_distrib2 and.commute
      or.commute bit.conj_disj_distrib)

end
