(* ===== verification/Channel_Api.thy ===== *)
theory Channel_Api
  imports Channel_Object Channel_Iteration
begin

text \<open>
  The public members of \<open>message_channel\<close> (\<open>message.hpp\<close>) as members of an object: each asks the object
  for its state and works on the channel of \<open>Channel_Ops\<close> that the state is. What they say about objects:
  one that was moved from refuses all of them, and no member touches a channel but its own.
\<close>

section \<open>Sending and receiving\<close>

text \<open>A coroutine's body, and the exception of \<open>require_state\<close>, run up to the first suspension.\<close>

definition channel_await_with :: "('a chan_world \<Rightarrow> 'r awaited \<times> 'a chan_world) \<Rightarrow> nat \<Rightarrow> 'a channel_objects
    \<Rightarrow> 'r awaited \<times> 'a channel_objects" where
  "channel_await_with op i w =
     (case require_state i w of
        Inl e \<Rightarrow> (Continues (Inl e), w)
      | Inr h \<Rightarrow> (case op (co_heap w h) of (r, c) \<Rightarrow> (r, w\<lparr>co_heap := (co_heap w)(h := c)\<rparr>)))"

text \<open>\<open>send\<close>: one pass of the loop of \<open>blocking_send\<close>.\<close>

definition object_send :: "bool \<Rightarrow> 'a \<Rightarrow> nat \<Rightarrow> 'a channel_objects \<Rightarrow> send_pass \<times> 'a channel_objects" where
  "object_send loop_thread value i w =
     (case require_state i w of
        Inl e \<Rightarrow> (Send_failed e, w)
      | Inr h \<Rightarrow> (case blocking_send_pass loop_thread value (co_heap w h) of (r, c) \<Rightarrow> (r, w\<lparr>co_heap := (co_heap w)(h := c)\<rparr>)))"

definition object_try_send :: "bool \<Rightarrow> 'a \<Rightarrow> nat \<Rightarrow> 'a channel_objects \<Rightarrow> bool result \<times> 'a channel_objects" where
  "object_try_send is_loop_thread value = channel_with (try_send is_loop_thread value)"

definition object_async_send :: "bool \<Rightarrow> nat \<Rightarrow> 'a \<Rightarrow> nat \<Rightarrow> 'a channel_objects \<Rightarrow> unit awaited \<times> 'a channel_objects" where
  "object_async_send is_loop_thread sender value = channel_await_with (channel_async_send is_loop_thread sender value)"

text \<open>\<open>emplace\<close> and \<open>async_emplace\<close> construct the message first; \<open>construct\<close> is its constructor.\<close>

definition object_emplace :: "bool \<Rightarrow> ('b \<Rightarrow> 'a) \<Rightarrow> 'b \<Rightarrow> nat \<Rightarrow> 'a channel_objects \<Rightarrow> send_pass \<times> 'a channel_objects" where
  "object_emplace loop_thread construct args = object_send loop_thread (construct args)"

definition object_async_emplace :: "bool \<Rightarrow> nat \<Rightarrow> ('b \<Rightarrow> 'a) \<Rightarrow> 'b \<Rightarrow> nat \<Rightarrow> 'a channel_objects \<Rightarrow> unit awaited \<times> 'a channel_objects" where
  "object_async_emplace is_loop_thread sender construct args = object_async_send is_loop_thread sender (construct args)"

definition object_recv :: "bool \<Rightarrow> nat \<Rightarrow> nat \<Rightarrow> 'a channel_objects \<Rightarrow> 'a awaited \<times> 'a channel_objects" where
  "object_recv is_loop_thread receiver = channel_await_with (recv is_loop_thread receiver)"

definition object_recv_for :: "bool \<Rightarrow> int \<Rightarrow> nat \<Rightarrow> nat \<Rightarrow> 'a channel_objects \<Rightarrow> 'a option awaited \<times> 'a channel_objects" where
  "object_recv_for is_loop_thread timeout_ms receiver = channel_await_with (recv_for is_loop_thread timeout_ms receiver receiver)"

definition object_try_recv :: "bool \<Rightarrow> nat \<Rightarrow> 'a channel_objects \<Rightarrow> 'a option result \<times> 'a channel_objects" where
  "object_try_recv is_loop_thread = channel_with (try_recv is_loop_thread)"

section \<open>The blocking iterator\<close>

text \<open>The iterator constructed from nothing, its access to the message and its steps.\<close>

definition iterator_default :: "'a blocking_iterator" where
  "iterator_default = \<lparr>bi_state = False, bi_current = None\<rparr>"

definition iterator_new :: "('s \<Rightarrow> 'a option result \<times> 's) \<Rightarrow> 's \<Rightarrow> ('a blocking_iterator) result \<times> 's" where
  "iterator_new next_message = fetch_next next_message \<lparr>bi_state = True, bi_current = None\<rparr>"

definition iterator_deref :: "'a blocking_iterator \<Rightarrow> 'a" where
  "iterator_deref it = the (bi_current it)"

definition iterator_arrow :: "'a blocking_iterator \<Rightarrow> 'a" where
  "iterator_arrow it = the (bi_current it)"

definition iterator_increment :: "('s \<Rightarrow> 'a option result \<times> 's) \<Rightarrow> 'a blocking_iterator \<Rightarrow> 's \<Rightarrow> ('a blocking_iterator) result \<times> 's" where
  "iterator_increment next_message it s = fetch_next next_message it s"

definition iterator_post_increment :: "('s \<Rightarrow> 'a option result \<times> 's) \<Rightarrow> 'a blocking_iterator \<Rightarrow> 's \<Rightarrow> ('a blocking_iterator) result \<times> 's" where
  "iterator_post_increment next_message it s = iterator_increment next_message it s"

definition iterator_not_at_end :: "'a blocking_iterator \<Rightarrow> bool" where
  "iterator_not_at_end it \<longleftrightarrow> \<not> iterator_at_end it"

definition sentinel_equal :: "'a blocking_iterator \<Rightarrow> bool" where
  "sentinel_equal it \<longleftrightarrow> iterator_at_end it"

definition sentinel_not_equal :: "'a blocking_iterator \<Rightarrow> bool" where
  "sentinel_not_equal it \<longleftrightarrow> \<not> sentinel_equal it"

text \<open>An iterator that is not at its end, after a step, has a message to be read.\<close>

lemma iterator_step_has_message:
  assumes "iterator_increment next_message it s = (Inr it', s')" and "iterator_not_at_end it'"
  shows "bi_current it' = Some (iterator_deref it') \<and> iterator_arrow it' = iterator_deref it' \<and> \<not> iterator_at_end it"
  using assms
  by (auto simp: iterator_increment_def fetch_next_def iterator_not_at_end_def iterator_at_end_def iterator_deref_def iterator_arrow_def
      Let_def split: if_splits prod.splits sum.splits)

section \<open>Objects\<close>

lemmas object_members = object_send_def object_try_send_def object_async_send_def object_emplace_def object_async_emplace_def
  object_recv_def object_recv_for_def object_try_recv_def object_close_def channel_with_def channel_await_with_def

text \<open>An object that was moved from refuses every member, and nothing changes.\<close>

lemma moved_from_refuses:
  assumes "co_state w i = None" and "e = Runtime_error ''message_channel has no state''"
  shows "object_send b v i w = (Send_failed e, w)" "object_try_send b v i w = (Inl e, w)"
    "object_async_send b s v i w = (Continues (Inl e), w)" "object_emplace b make args i w = (Send_failed e, w)"
    "object_async_emplace b s make args i w = (Continues (Inl e), w)"
    "object_recv b r i w = (Continues (Inl e), w)" "object_recv_for b t r i w = (Continues (Inl e), w)"
    "object_try_recv b i w = (Inl e, w)" "object_close i w = (Inl e, w)" "object_size i w = Inl e" "object_empty i w = Inl e"
  using assms by (simp_all add: object_members require_state_def object_size_def object_empty_def)

text \<open>Whatever a member does, it does to the channel of its object.\<close>

definition only_its_channel :: "nat \<Rightarrow> 'a channel_objects \<Rightarrow> 'a channel_objects \<Rightarrow> bool" where
  "only_its_channel i w w' \<longleftrightarrow> co_state w' = co_state w \<and> co_next w' = co_next w \<and>
     (\<forall>h. co_state w i \<noteq> Some h \<longrightarrow> co_heap w' h = co_heap w h)"

lemma members_only_their_channel:
  "only_its_channel i w (snd (object_send b v i w))" "only_its_channel i w (snd (object_try_send b v i w))"
  "only_its_channel i w (snd (object_async_send b s v i w))" "only_its_channel i w (snd (object_emplace b make args i w))"
  "only_its_channel i w (snd (object_async_emplace b s make args i w))"
  "only_its_channel i w (snd (object_recv b r i w))" "only_its_channel i w (snd (object_recv_for b t r i w))"
  "only_its_channel i w (snd (object_try_recv b i w))" "only_its_channel i w (snd (object_close i w))"
  by (auto simp: only_its_channel_def object_members require_state_def split: option.splits prod.splits)

text \<open>The members without blocking are the operations in the runs of \<open>Channel_Object\<close>.\<close>

lemma object_members_step:
  "object_step (Oe_operation i (Ce_try_send b v)) w = snd (object_try_send b v i w)"
  "object_step (Oe_operation i (Ce_send b s v)) w = snd (object_async_send b s v i w)"
  "object_step (Oe_operation i (Ce_try_recv b)) w = snd (object_try_recv b i w)"
  "object_step (Oe_operation i (Ce_recv b r)) w = snd (object_recv b r i w)"
  "object_step (Oe_operation i (Ce_recv_for b t r)) w = snd (object_recv_for b t r i w)"
  by (auto simp: object_members require_state_def split: option.splits prod.splits)

end
