(* ===== verification/Io_Front.thy ===== *)
theory Io_Front
  imports Io_Properties Fs_Functions
begin

text \<open>
  \<open>buffer.hpp\<close> and the surface of \<open>io.hpp\<close>: the concepts as records of a stream's operations, the
  references to streams and sockets, and the free functions that call an operation of a stream, of a
  reference or of a \<open>stream_buffer\<close>. The overloads for references have no stop token of their own and run
  the operation with one that is never stopped.
\<close>

section \<open>Buffers\<close>

text \<open>
  A buffer is an address and a length, without the bytes; a default-constructed one has a null address.
  The two classes differ in what may be done through them.
\<close>

record mutable_buffer =
  mb_data :: "nat option"
  mb_size :: nat

record const_buffer =
  cb_data :: "nat option"
  cb_size :: nat

definition null_buffer :: mutable_buffer where
  "null_buffer = \<lparr>mb_data = None, mb_size = 0\<rparr>"

definition null_const_buffer :: const_buffer where
  "null_const_buffer = \<lparr>cb_data = None, cb_size = 0\<rparr>"

definition buffer_is_empty :: "mutable_buffer \<Rightarrow> bool" where
  "buffer_is_empty b \<longleftrightarrow> mb_size b = 0"

definition const_buffer_is_empty :: "const_buffer \<Rightarrow> bool" where
  "const_buffer_is_empty b \<longleftrightarrow> cb_size b = 0"

definition buffer_subspan :: "nat \<Rightarrow> mutable_buffer \<Rightarrow> mutable_buffer" where
  "buffer_subspan offset b =
     (if mb_size b \<le> offset then null_buffer
      else \<lparr>mb_data = map_option (\<lambda>a. a + offset) (mb_data b), mb_size = mb_size b - offset\<rparr>)"

definition const_buffer_subspan :: "nat \<Rightarrow> const_buffer \<Rightarrow> const_buffer" where
  "const_buffer_subspan offset b =
     (if cb_size b \<le> offset then null_const_buffer
      else \<lparr>cb_data = map_option (\<lambda>a. a + offset) (cb_data b), cb_size = cb_size b - offset\<rparr>)"

text \<open>A span is the pair of address and length.\<close>

type_synonym span = "nat option \<times> nat"

definition buffer_as_span :: "mutable_buffer \<Rightarrow> span" where
  "buffer_as_span b = (mb_data b, mb_size b)"

definition const_buffer_as_span :: "const_buffer \<Rightarrow> span" where
  "const_buffer_as_span b = (cb_data b, cb_size b)"

text \<open>
  \<open>buffer\<close>: over an address and a size, over an array, whose whole extent \<open>n\<close> is taken, and over the
  containers, which say their address and size themselves.
\<close>

definition buffer_of_pointer :: "nat option \<Rightarrow> nat \<Rightarrow> mutable_buffer" where
  "buffer_of_pointer data n = \<lparr>mb_data = data, mb_size = n\<rparr>"

definition const_buffer_of_pointer :: "nat option \<Rightarrow> nat \<Rightarrow> const_buffer" where
  "const_buffer_of_pointer data n = \<lparr>cb_data = data, cb_size = n\<rparr>"

definition buffer_of_array :: "nat \<Rightarrow> nat \<Rightarrow> mutable_buffer" where
  "buffer_of_array address n = \<lparr>mb_data = Some address, mb_size = n\<rparr>"

definition const_buffer_of_array :: "nat \<Rightarrow> nat \<Rightarrow> const_buffer" where
  "const_buffer_of_array address n = \<lparr>cb_data = Some address, cb_size = n\<rparr>"

definition buffer_of_container :: "span \<Rightarrow> mutable_buffer" where
  "buffer_of_container c = \<lparr>mb_data = fst c, mb_size = snd c\<rparr>"

definition const_buffer_of_container :: "span \<Rightarrow> const_buffer" where
  "const_buffer_of_container c = \<lparr>cb_data = fst c, cb_size = snd c\<rparr>"

text \<open>The bytes a span covers in a memory.\<close>

definition span_bytes :: "(nat \<Rightarrow> char) \<Rightarrow> span \<Rightarrow> string" where
  "span_bytes memory s = (case fst s of None \<Rightarrow> [] | Some a \<Rightarrow> map (\<lambda>k. memory (a + k)) [0..<snd s])"

lemma map_drop_upt: "drop k (map f [0..<n]) = map (\<lambda>i. f (k + i)) [0..<n - k]"
  by (rule nth_equalityI) (simp_all add: add.commute)

text \<open>
  \<open>subspan\<close> is what is left after the first bytes, and, as \<open>std::span\<close> does not allow, nothing when the offset
  is beyond the end; two of them add up.
\<close>

lemma buffer_subspan_bytes:
  "span_bytes memory (buffer_as_span (buffer_subspan k b)) = drop k (span_bytes memory (buffer_as_span b))"
  "span_bytes memory (const_buffer_as_span (const_buffer_subspan k c)) = drop k (span_bytes memory (const_buffer_as_span c))"
  "mb_size (buffer_subspan k b) = mb_size b - k" "cb_size (const_buffer_subspan k c) = cb_size c - k"
  "mb_size (buffer_subspan j (buffer_subspan k b)) = mb_size (buffer_subspan (k + j) b)"
  by (auto simp: span_bytes_def buffer_as_span_def const_buffer_as_span_def buffer_subspan_def const_buffer_subspan_def null_buffer_def
      null_const_buffer_def map_drop_upt add.assoc split: option.split)

text \<open>
  \<open>buffer\<close> of an array that holds a string as C does, a string literal among them, has the terminating
  zero byte as its last byte.
\<close>

lemma buffer_of_literal:
  assumes "\<forall>k < length text. memory (a + k) = text ! k" and "memory (a + length text) = CHR 0x00"
  shows "span_bytes memory (const_buffer_as_span (const_buffer_of_array a (Suc (length text)))) = text @ [CHR 0x00]"
  using assms by (auto simp: span_bytes_def const_buffer_as_span_def const_buffer_of_array_def intro!: nth_equalityI)

section \<open>Streams and sockets\<close>

type_synonym 's token = "'s \<Rightarrow> bool"

text \<open>The token that every overload without one passes on.\<close>

definition no_token :: "'s token" where
  "no_token = (\<lambda>_. False)"

text \<open>What the concepts require of a type; an operation that fills a span answers the bytes it has put there.\<close>

record 's stream_like =
  sl_read_some :: "'s token \<Rightarrow> 's read_fun"
  sl_read_exact :: "'s token \<Rightarrow> 's read_fun"
  sl_write :: "'s token \<Rightarrow> 's write_fun"

record 's buffered_stream_like =
  bl_read_some_into :: "'s token \<Rightarrow> 's read_fun"
  bl_read_exact_into :: "'s token \<Rightarrow> 's read_fun"
  bl_write_some :: "'s token \<Rightarrow> 's write_fun"

record ('s, 'e, 'd) datagram_socket_like =
  dl_send_to :: "'s token \<Rightarrow> 'e \<Rightarrow> string \<Rightarrow> 's \<Rightarrow> nat result \<times> 's"
  dl_recv_from :: "'s token \<Rightarrow> nat \<Rightarrow> 's \<Rightarrow> 'd result \<times> 's"

record ('s, 'e, 'd) buffered_datagram_socket_like =
  dbl_send_some_to :: "'s token \<Rightarrow> 'e \<Rightarrow> string \<Rightarrow> 's \<Rightarrow> nat result \<times> 's"
  dbl_recv_from_into :: "'s token \<Rightarrow> nat \<Rightarrow> 's \<Rightarrow> 'd result \<times> 's"

text \<open>The members of the references.\<close>

definition stream_ref_read_some :: "'s stream_like \<Rightarrow> 's token \<Rightarrow> 's read_fun" where
  "stream_ref_read_some stream stop max_bytes = sl_read_some stream stop max_bytes"

definition stream_ref_read_exact :: "'s stream_like \<Rightarrow> 's token \<Rightarrow> 's read_fun" where
  "stream_ref_read_exact stream stop total_bytes = sl_read_exact stream stop total_bytes"

definition stream_ref_write :: "'s stream_like \<Rightarrow> 's token \<Rightarrow> 's write_fun" where
  "stream_ref_write stream stop data = sl_write stream stop data"

definition buffered_ref_read_some_into :: "'s buffered_stream_like \<Rightarrow> 's token \<Rightarrow> 's read_fun" where
  "buffered_ref_read_some_into stream stop n = bl_read_some_into stream stop n"

definition buffered_ref_read_exact_into :: "'s buffered_stream_like \<Rightarrow> 's token \<Rightarrow> 's read_fun" where
  "buffered_ref_read_exact_into stream stop n = bl_read_exact_into stream stop n"

definition buffered_ref_write_some :: "'s buffered_stream_like \<Rightarrow> 's token \<Rightarrow> 's write_fun" where
  "buffered_ref_write_some stream stop data = bl_write_some stream stop data"

definition datagram_ref_send_to :: "('s, 'e, 'd) datagram_socket_like \<Rightarrow> 's token \<Rightarrow> 'e \<Rightarrow> string \<Rightarrow> 's \<Rightarrow> nat result \<times> 's" where
  "datagram_ref_send_to socket stop endpoint data = dl_send_to socket stop endpoint data"

definition datagram_ref_receive :: "('s, 'e, 'd) datagram_socket_like \<Rightarrow> 's token \<Rightarrow> nat \<Rightarrow> 's \<Rightarrow> 'd result \<times> 's" where
  "datagram_ref_receive socket stop max_bytes = dl_recv_from socket stop max_bytes"

definition buffered_datagram_ref_send_some_to :: "('s, 'e, 'd) buffered_datagram_socket_like \<Rightarrow> 's token \<Rightarrow> 'e \<Rightarrow> string \<Rightarrow> 's
    \<Rightarrow> nat result \<times> 's" where
  "buffered_datagram_ref_send_some_to socket stop endpoint data = dbl_send_some_to socket stop endpoint data"

definition buffered_datagram_ref_receive_into :: "('s, 'e, 'd) buffered_datagram_socket_like \<Rightarrow> 's token \<Rightarrow> nat \<Rightarrow> 's
    \<Rightarrow> 'd result \<times> 's" where
  "buffered_datagram_ref_receive_into socket stop n = dbl_recv_from_into socket stop n"

text \<open>A reference to a stream satisfies the concept itself; one to a socket has a \<open>receive\<close> instead of a \<open>recv_from\<close>.\<close>

definition as_stream :: "'s stream_like \<Rightarrow> 's stream_like" where
  "as_stream stream = \<lparr>sl_read_some = stream_ref_read_some stream, sl_read_exact = stream_ref_read_exact stream,
     sl_write = stream_ref_write stream\<rparr>"

definition as_buffered_stream :: "'s buffered_stream_like \<Rightarrow> 's buffered_stream_like" where
  "as_buffered_stream stream = \<lparr>bl_read_some_into = buffered_ref_read_some_into stream,
     bl_read_exact_into = buffered_ref_read_exact_into stream, bl_write_some = buffered_ref_write_some stream\<rparr>"

text \<open>So wrapping is transparent: what runs over a stream runs the same over a reference to it.\<close>

lemma as_stream_transparent [simp]: "as_stream stream = stream"
  by (cases stream) (simp add: as_stream_def stream_ref_read_some_def stream_ref_read_exact_def stream_ref_write_def fun_eq_iff)

lemma as_buffered_stream_transparent [simp]: "as_buffered_stream stream = stream"
  by (cases stream) (simp add: as_buffered_stream_def buffered_ref_read_some_into_def buffered_ref_read_exact_into_def
      buffered_ref_write_some_def fun_eq_iff)

end
