(* ===== verification/Io_Api.thy ===== *)
theory Io_Api
  imports Io_Front
begin

text \<open>
  The free functions of \<open>io.hpp\<close> in all their overloads: on a stream, on a reference to one, on a
  \<open>stream_buffer\<close>, and with a span or a buffer of \<open>buffer.hpp\<close>. The overloads for references that repeat a
  loop are written out and proved equal to the loop they repeat.
\<close>

section \<open>Reading\<close>

definition read_some :: "'s stream_like \<Rightarrow> nat \<Rightarrow> 's token \<Rightarrow> 's \<Rightarrow> string result \<times> 's" where
  "read_some stream max_bytes stop = sl_read_some stream stop max_bytes"

definition read_some_ref :: "'s stream_like \<Rightarrow> nat \<Rightarrow> 's token \<Rightarrow> 's \<Rightarrow> string result \<times> 's" where
  "read_some_ref stream max_bytes stop = stream_ref_read_some stream stop max_bytes"

definition read_some_buffered :: "'s stream_like \<Rightarrow> nat \<Rightarrow> 's token \<Rightarrow> 's stream_buffer \<Rightarrow> string result \<times> 's stream_buffer" where
  "read_some_buffered stream max_bytes stop = sb_read_some (sl_read_some stream stop) max_bytes"

definition read_some_into :: "'s buffered_stream_like \<Rightarrow> span \<Rightarrow> 's token \<Rightarrow> 's \<Rightarrow> string result \<times> 's" where
  "read_some_into stream buffer stop = bl_read_some_into stream stop (snd buffer)"

definition read_some_into_buffer :: "'s buffered_stream_like \<Rightarrow> mutable_buffer \<Rightarrow> 's token \<Rightarrow> 's \<Rightarrow> string result \<times> 's" where
  "read_some_into_buffer stream buffer stop = bl_read_some_into stream stop (snd (buffer_as_span buffer))"

definition read_some_into_ref :: "'s buffered_stream_like \<Rightarrow> span \<Rightarrow> 's \<Rightarrow> string result \<times> 's" where
  "read_some_into_ref stream buffer = buffered_ref_read_some_into stream no_token (snd buffer)"

definition read_some_into_ref_buffer :: "'s buffered_stream_like \<Rightarrow> mutable_buffer \<Rightarrow> 's \<Rightarrow> string result \<times> 's" where
  "read_some_into_ref_buffer stream buffer = buffered_ref_read_some_into stream no_token (snd (buffer_as_span buffer))"

definition read_exact :: "'s stream_like \<Rightarrow> nat \<Rightarrow> 's token \<Rightarrow> 's \<Rightarrow> string result \<times> 's" where
  "read_exact stream total_bytes stop = sl_read_exact stream stop total_bytes"

definition read_exact_ref :: "'s stream_like \<Rightarrow> nat \<Rightarrow> 's \<Rightarrow> string result \<times> 's" where
  "read_exact_ref stream total_bytes = stream_ref_read_exact stream no_token total_bytes"

definition read_exact_buffered :: "'s stream_like \<Rightarrow> nat \<Rightarrow> 's stream_buffer \<Rightarrow> string result \<times> 's stream_buffer" where
  "read_exact_buffered stream total_bytes = sb_read_exact (sl_read_some stream no_token) no_token total_bytes"

definition read_exact_into :: "'s buffered_stream_like \<Rightarrow> span \<Rightarrow> 's \<Rightarrow> string result \<times> 's" where
  "read_exact_into stream buffer = bl_read_exact_into stream no_token (snd buffer)"

definition read_exact_into_buffer :: "'s buffered_stream_like \<Rightarrow> mutable_buffer \<Rightarrow> 's \<Rightarrow> string result \<times> 's" where
  "read_exact_into_buffer stream buffer = bl_read_exact_into stream no_token (snd (buffer_as_span buffer))"

definition read_exact_into_ref :: "'s buffered_stream_like \<Rightarrow> span \<Rightarrow> 's \<Rightarrow> string result \<times> 's" where
  "read_exact_into_ref stream buffer = buffered_ref_read_exact_into stream no_token (snd buffer)"

definition read_exact_into_ref_buffer :: "'s buffered_stream_like \<Rightarrow> mutable_buffer \<Rightarrow> 's \<Rightarrow> string result \<times> 's" where
  "read_exact_into_ref_buffer stream buffer = buffered_ref_read_exact_into stream no_token (snd (buffer_as_span buffer))"

text \<open>\<open>read_exactly\<close> and \<open>read_exactly_into\<close>, with the check of the length that each overload repeats.\<close>

definition read_exactly_ref :: "'s stream_like \<Rightarrow> nat \<Rightarrow> 's \<Rightarrow> string result \<times> 's" where
  "read_exactly_ref stream total_bytes s =
     (case stream_ref_read_exact stream no_token total_bytes s of
        (Inl e, s) \<Rightarrow> (Inl e, s)
      | (Inr out, s) \<Rightarrow>
          if length out \<noteq> total_bytes then (Inl (Runtime_error ''read_exactly reached eof before enough bytes were read''), s)
          else (Inr out, s))"

definition read_exactly_buffered :: "'s stream_like \<Rightarrow> nat \<Rightarrow> 's stream_buffer \<Rightarrow> string result \<times> 's stream_buffer" where
  "read_exactly_buffered stream total_bytes = sb_read_exactly (sl_read_some stream no_token) no_token total_bytes"

definition counted_exactly :: "nat \<Rightarrow> string result \<times> 's \<Rightarrow> (nat \<times> string) result \<times> 's" where
  "counted_exactly n r =
     (case r of
        (Inl e, s) \<Rightarrow> (Inl e, s)
      | (Inr bytes, s) \<Rightarrow>
          if length bytes \<noteq> n then (Inl (Runtime_error ''read_exactly_into reached eof before enough bytes were read''), s)
          else (Inr (length bytes, bytes), s))"

definition read_exactly_into_buffer :: "'s buffered_stream_like \<Rightarrow> mutable_buffer \<Rightarrow> 's \<Rightarrow> (nat \<times> string) result \<times> 's" where
  "read_exactly_into_buffer stream buffer s =
     (let span = buffer_as_span buffer in counted_exactly (snd span) (bl_read_exact_into stream no_token (snd span) s))"

definition read_exactly_into_ref :: "'s buffered_stream_like \<Rightarrow> span \<Rightarrow> 's \<Rightarrow> (nat \<times> string) result \<times> 's" where
  "read_exactly_into_ref stream buffer s = counted_exactly (snd buffer) (buffered_ref_read_exact_into stream no_token (snd buffer) s)"

definition read_exactly_into_ref_buffer :: "'s buffered_stream_like \<Rightarrow> mutable_buffer \<Rightarrow> 's \<Rightarrow> (nat \<times> string) result \<times> 's" where
  "read_exactly_into_ref_buffer stream buffer s =
     (let span = buffer_as_span buffer in counted_exactly (snd span) (buffered_ref_read_exact_into stream no_token (snd span) s))"

text \<open>From a \<open>stream_buffer\<close> into a buffer: the bytes are copied into the span.\<close>

definition read_exactly_into_buffered_buffer :: "'s stream_like \<Rightarrow> mutable_buffer \<Rightarrow> 's stream_buffer \<Rightarrow> (nat \<times> string) result \<times> 's stream_buffer" where
  "read_exactly_into_buffered_buffer stream buffer b =
     (let span = buffer_as_span buffer in
      case sb_read_exactly (sl_read_some stream no_token) no_token (snd span) b of
        (Inl e, b) \<Rightarrow> (Inl e, b)
      | (Inr data, b) \<Rightarrow> (Inr (length data, data), b))"

text \<open>Up to delimiters. The delimiters come as a span, an array or a \<open>std::array\<close>; each is their list.\<close>

definition read_until :: "'s stream_like \<Rightarrow> string \<Rightarrow> nat \<Rightarrow> 's token \<Rightarrow> 's stream_buffer \<Rightarrow> (string result \<times> 's stream_buffer) option" where
  "read_until stream delimiter chunk_size stop = sb_read_until (sl_read_some stream stop) stop delimiter chunk_size"

definition read_until_any :: "'s stream_like \<Rightarrow> string list \<Rightarrow> nat \<Rightarrow> 's token \<Rightarrow> 's stream_buffer
    \<Rightarrow> (string result \<times> 's stream_buffer) option" where
  "read_until_any stream delimiters chunk_size stop = sb_read_until_any (sl_read_some stream stop) stop delimiters chunk_size"

definition read_until_any_result :: "'s stream_like \<Rightarrow> string list \<Rightarrow> nat \<Rightarrow> 's token \<Rightarrow> 's stream_buffer
    \<Rightarrow> (until_any_result result \<times> 's stream_buffer) option" where
  "read_until_any_result stream delimiters chunk_size stop = sb_read_until_any_result (sl_read_some stream stop) stop delimiters chunk_size"

definition read_until_any_array :: "'s stream_like \<Rightarrow> string list \<Rightarrow> nat \<Rightarrow> 's stream_buffer \<Rightarrow> (string result \<times> 's stream_buffer) option" where
  "read_until_any_array stream delimiters chunk_size = sb_read_until_any (sl_read_some stream no_token) no_token delimiters chunk_size"

definition read_until_any_result_array :: "'s stream_like \<Rightarrow> string list \<Rightarrow> nat \<Rightarrow> 's stream_buffer
    \<Rightarrow> (until_any_result result \<times> 's stream_buffer) option" where
  "read_until_any_result_array stream delimiters chunk_size =
     sb_read_until_any_result (sl_read_some stream no_token) no_token delimiters chunk_size"

definition read_until_any_std_array :: "'s stream_like \<Rightarrow> string list \<Rightarrow> nat \<Rightarrow> 's stream_buffer \<Rightarrow> (string result \<times> 's stream_buffer) option" where
  "read_until_any_std_array stream delimiters chunk_size = sb_read_until_any (sl_read_some stream no_token) no_token delimiters chunk_size"

definition read_until_any_result_std_array :: "'s stream_like \<Rightarrow> string list \<Rightarrow> nat \<Rightarrow> 's stream_buffer
    \<Rightarrow> (until_any_result result \<times> 's stream_buffer) option" where
  "read_until_any_result_std_array stream delimiters chunk_size =
     sb_read_until_any_result (sl_read_some stream no_token) no_token delimiters chunk_size"

section \<open>Writing\<close>

definition write_stream :: "'s stream_like \<Rightarrow> string \<Rightarrow> 's token \<Rightarrow> 's \<Rightarrow> nat result \<times> 's" where
  "write_stream stream data stop = sl_write stream stop data"

definition write_ref :: "'s stream_like \<Rightarrow> string \<Rightarrow> 's \<Rightarrow> nat result \<times> 's" where
  "write_ref stream data = stream_ref_write stream no_token data"

text \<open>\<open>write_all\<close> for a reference: the loop of \<open>write_all\<close> without the question to the token.\<close>

function write_all_ref_loop :: "'s stream_like \<Rightarrow> string \<Rightarrow> nat \<Rightarrow> 's \<Rightarrow> nat result \<times> 's" where
  "write_all_ref_loop stream owned written s =
     (if written < length owned then
        (case stream_ref_write stream no_token (drop written owned) s of
           (Inl e, s) \<Rightarrow> (Inl e, s)
         | (Inr k, s) \<Rightarrow>
             if k = 0 then (Inl (Runtime_error ''write_all made no progress''), s)
             else write_all_ref_loop stream owned (written + k) s)
      else (Inr written, s))"
  by pat_completeness auto
termination
  by (relation "measure (\<lambda>(stream, owned, written, s). length owned - written)") auto

declare write_all_ref_loop.simps [simp del]

definition write_all_ref :: "'s stream_like \<Rightarrow> string \<Rightarrow> 's \<Rightarrow> nat result \<times> 's" where
  "write_all_ref stream data s = write_all_ref_loop stream data 0 s"

definition write_some :: "'s buffered_stream_like \<Rightarrow> (nat \<Rightarrow> char) \<Rightarrow> span \<Rightarrow> 's token \<Rightarrow> 's \<Rightarrow> nat result \<times> 's" where
  "write_some stream memory buffer stop = bl_write_some stream stop (span_bytes memory buffer)"

definition write_some_buffer :: "'s buffered_stream_like \<Rightarrow> (nat \<Rightarrow> char) \<Rightarrow> const_buffer \<Rightarrow> 's \<Rightarrow> nat result \<times> 's" where
  "write_some_buffer stream memory buffer = bl_write_some stream no_token (span_bytes memory (const_buffer_as_span buffer))"

definition write_some_ref :: "'s buffered_stream_like \<Rightarrow> (nat \<Rightarrow> char) \<Rightarrow> span \<Rightarrow> 's \<Rightarrow> nat result \<times> 's" where
  "write_some_ref stream memory buffer = buffered_ref_write_some stream no_token (span_bytes memory buffer)"

definition write_some_ref_buffer :: "'s buffered_stream_like \<Rightarrow> (nat \<Rightarrow> char) \<Rightarrow> const_buffer \<Rightarrow> 's \<Rightarrow> nat result \<times> 's" where
  "write_some_ref_buffer stream memory buffer =
     buffered_ref_write_some stream no_token (span_bytes memory (const_buffer_as_span buffer))"

section \<open>Datagrams\<close>

definition send_datagram :: "('s, 'e, 'd) datagram_socket_like \<Rightarrow> 'e \<Rightarrow> string \<Rightarrow> 's token \<Rightarrow> 's \<Rightarrow> nat result \<times> 's" where
  "send_datagram socket endpoint data stop = dl_send_to socket stop endpoint data"

definition send_datagram_ref :: "('s, 'e, 'd) datagram_socket_like \<Rightarrow> 'e \<Rightarrow> string \<Rightarrow> 's \<Rightarrow> nat result \<times> 's" where
  "send_datagram_ref socket endpoint data = datagram_ref_send_to socket no_token endpoint data"

definition send_datagram_some :: "('s, 'e, 'd) buffered_datagram_socket_like \<Rightarrow> (nat \<Rightarrow> char) \<Rightarrow> 'e \<Rightarrow> span \<Rightarrow> 's token \<Rightarrow> 's \<Rightarrow> nat result \<times> 's" where
  "send_datagram_some socket memory endpoint buffer stop = dbl_send_some_to socket stop endpoint (span_bytes memory buffer)"

definition send_datagram_some_buffer :: "('s, 'e, 'd) buffered_datagram_socket_like \<Rightarrow> (nat \<Rightarrow> char) \<Rightarrow> 'e \<Rightarrow> const_buffer \<Rightarrow> 's
    \<Rightarrow> nat result \<times> 's" where
  "send_datagram_some_buffer socket memory endpoint buffer =
     dbl_send_some_to socket no_token endpoint (span_bytes memory (const_buffer_as_span buffer))"

definition send_datagram_some_ref :: "('s, 'e, 'd) buffered_datagram_socket_like \<Rightarrow> (nat \<Rightarrow> char) \<Rightarrow> 'e \<Rightarrow> span \<Rightarrow> 's
    \<Rightarrow> nat result \<times> 's" where
  "send_datagram_some_ref socket memory endpoint buffer =
     buffered_datagram_ref_send_some_to socket no_token endpoint (span_bytes memory buffer)"

definition send_datagram_some_ref_buffer :: "('s, 'e, 'd) buffered_datagram_socket_like \<Rightarrow> (nat \<Rightarrow> char) \<Rightarrow> 'e \<Rightarrow> const_buffer \<Rightarrow> 's
    \<Rightarrow> nat result \<times> 's" where
  "send_datagram_some_ref_buffer socket memory endpoint buffer =
     buffered_datagram_ref_send_some_to socket no_token endpoint (span_bytes memory (const_buffer_as_span buffer))"

definition receive_datagram :: "('s, 'e, 'd) datagram_socket_like \<Rightarrow> nat \<Rightarrow> 's token \<Rightarrow> 's \<Rightarrow> 'd result \<times> 's" where
  "receive_datagram socket max_bytes stop = dl_recv_from socket stop max_bytes"

definition receive_datagram_ref :: "('s, 'e, 'd) datagram_socket_like \<Rightarrow> nat \<Rightarrow> 's \<Rightarrow> 'd result \<times> 's" where
  "receive_datagram_ref socket max_bytes = datagram_ref_receive socket no_token max_bytes"

definition receive_datagram_into :: "('s, 'e, 'd) buffered_datagram_socket_like \<Rightarrow> span \<Rightarrow> 's token \<Rightarrow> 's \<Rightarrow> 'd result \<times> 's" where
  "receive_datagram_into socket buffer stop = dbl_recv_from_into socket stop (snd buffer)"

definition receive_datagram_into_buffer :: "('s, 'e, 'd) buffered_datagram_socket_like \<Rightarrow> mutable_buffer \<Rightarrow> 's \<Rightarrow> 'd result \<times> 's" where
  "receive_datagram_into_buffer socket buffer = dbl_recv_from_into socket no_token (snd (buffer_as_span buffer))"

definition receive_datagram_into_ref :: "('s, 'e, 'd) buffered_datagram_socket_like \<Rightarrow> span \<Rightarrow> 's \<Rightarrow> 'd result \<times> 's" where
  "receive_datagram_into_ref socket buffer = buffered_datagram_ref_receive_into socket no_token (snd buffer)"

definition receive_datagram_into_ref_buffer :: "('s, 'e, 'd) buffered_datagram_socket_like \<Rightarrow> mutable_buffer \<Rightarrow> 's \<Rightarrow> 'd result \<times> 's" where
  "receive_datagram_into_ref_buffer socket buffer = buffered_datagram_ref_receive_into socket no_token (snd (buffer_as_span buffer))"

section \<open>Copying\<close>

text \<open>\<open>write_all_buffer\<close>, \<open>copy\<close> and \<open>copy_n\<close> for references.\<close>

function write_all_buffer_ref_loop :: "'s buffered_stream_like \<Rightarrow> string \<Rightarrow> nat \<Rightarrow> 's \<Rightarrow> nat result \<times> 's" where
  "write_all_buffer_ref_loop stream buffer written s =
     (if written < length buffer then
        (case buffered_ref_write_some stream no_token (drop written buffer) s of
           (Inl e, s) \<Rightarrow> (Inl e, s)
         | (Inr k, s) \<Rightarrow>
             if k = 0 then (Inl (Runtime_error ''write_all_buffer made no progress''), s)
             else write_all_buffer_ref_loop stream buffer (written + k) s)
      else (Inr written, s))"
  by pat_completeness auto
termination
  by (relation "measure (\<lambda>(stream, buffer, written, s). length buffer - written)") auto

declare write_all_buffer_ref_loop.simps [simp del]

definition write_all_buffer_ref :: "'s buffered_stream_like \<Rightarrow> string \<Rightarrow> 's \<Rightarrow> nat result \<times> 's" where
  "write_all_buffer_ref stream buffer s = write_all_buffer_ref_loop stream buffer 0 s"

partial_function (option) copy_ref_loop :: "'s buffered_stream_like \<Rightarrow> 't buffered_stream_like \<Rightarrow> nat \<Rightarrow> nat \<Rightarrow> 's \<Rightarrow> 't
    \<Rightarrow> (nat result \<times> 's \<times> 't) option" where
  "copy_ref_loop source sink buffer_size copied s t =
     (case fst (buffered_ref_read_some_into source no_token buffer_size s) of
        Inl e \<Rightarrow> Some (Inl e, snd (buffered_ref_read_some_into source no_token buffer_size s), t)
      | Inr bytes \<Rightarrow>
          if bytes = [] then Some (Inr copied, snd (buffered_ref_read_some_into source no_token buffer_size s), t)
          else (case fst (write_all_buffer_ref sink bytes t) of
                  Inl e \<Rightarrow> Some (Inl e, snd (buffered_ref_read_some_into source no_token buffer_size s), snd (write_all_buffer_ref sink bytes t))
                | Inr k \<Rightarrow> copy_ref_loop source sink buffer_size (copied + k)
                    (snd (buffered_ref_read_some_into source no_token buffer_size s)) (snd (write_all_buffer_ref sink bytes t))))"

definition copy_ref :: "'s buffered_stream_like \<Rightarrow> 't buffered_stream_like \<Rightarrow> nat \<Rightarrow> 's \<Rightarrow> 't \<Rightarrow> (nat result \<times> 's \<times> 't) option" where
  "copy_ref source sink buffer_size s t =
     (if buffer_size = 0 then Some (Inl (Invalid_argument ''copy buffer_size must be > 0''), s, t)
      else copy_ref_loop source sink buffer_size 0 s t)"

partial_function (option) copy_n_ref_loop :: "'s buffered_stream_like \<Rightarrow> 't buffered_stream_like \<Rightarrow> nat \<Rightarrow> nat \<Rightarrow> nat \<Rightarrow> 's \<Rightarrow> 't
    \<Rightarrow> (nat result \<times> 's \<times> 't) option" where
  "copy_n_ref_loop source sink bytes_to_copy buffer_size copied s t =
     (if copied < bytes_to_copy then
        (let wanted = (if bytes_to_copy - copied < buffer_size then bytes_to_copy - copied else buffer_size) in
         case fst (buffered_ref_read_some_into source no_token wanted s) of
           Inl e \<Rightarrow> Some (Inl e, snd (buffered_ref_read_some_into source no_token wanted s), t)
         | Inr bytes \<Rightarrow>
             if bytes = [] then Some (Inr copied, snd (buffered_ref_read_some_into source no_token wanted s), t)
             else (case fst (write_all_buffer_ref sink bytes t) of
                     Inl e \<Rightarrow> Some (Inl e, snd (buffered_ref_read_some_into source no_token wanted s), snd (write_all_buffer_ref sink bytes t))
                   | Inr k \<Rightarrow> copy_n_ref_loop source sink bytes_to_copy buffer_size (copied + k)
                       (snd (buffered_ref_read_some_into source no_token wanted s)) (snd (write_all_buffer_ref sink bytes t))))
      else Some (Inr copied, s, t))"

definition copy_n_ref :: "'s buffered_stream_like \<Rightarrow> 't buffered_stream_like \<Rightarrow> nat \<Rightarrow> nat \<Rightarrow> 's \<Rightarrow> 't \<Rightarrow> (nat result \<times> 's \<times> 't) option" where
  "copy_n_ref source sink bytes_to_copy buffer_size s t =
     (if buffer_size = 0 then Some (Inl (Invalid_argument ''copy_n buffer_size must be > 0''), s, t)
      else copy_n_ref_loop source sink bytes_to_copy buffer_size 0 s t)"

declare copy_ref_loop.simps [code] copy_n_ref_loop.simps [code]

definition io_sendfile :: "'w uv_fs \<Rightarrow> bool \<Rightarrow> nat \<Rightarrow> fs_file \<times> fs_file \<times> 'w \<Rightarrow> nat result \<times> fs_file \<times> fs_file \<times> 'w" where
  "io_sendfile os same_runtime max_bytes = fs_sendfile_here os same_runtime max_bytes"

definition io_sendfile_at :: "'w uv_fs \<Rightarrow> bool \<Rightarrow> int \<Rightarrow> nat \<Rightarrow> fs_file \<times> fs_file \<times> 'w \<Rightarrow> nat result \<times> fs_file \<times> fs_file \<times> 'w" where
  "io_sendfile_at os same_runtime source_offset max_bytes = fs_sendfile os same_runtime source_offset max_bytes"

section \<open>The overloads agree\<close>

lemmas ref_members = stream_ref_read_some_def stream_ref_read_exact_def stream_ref_write_def buffered_ref_read_some_into_def
  buffered_ref_read_exact_into_def buffered_ref_write_some_def

lemma write_all_ref_eq: "write_all_ref_loop stream d i s = write_all_loop (sl_write stream no_token) no_token d i s"
proof (induction stream d i s rule: write_all_ref_loop.induct)
  case (1 stream d i s)
  show ?case
  proof (cases "i < length d")
    case False
    then show ?thesis by (simp add: write_all_ref_loop.simps [of stream d i s] write_all_loop.simps [of _ _ d i s])
  next
    case True
    obtain r s' where w: "sl_write stream no_token (drop i d) s = (r, s')" by (rule prod.exhaust)
    show ?thesis
    proof (cases r)
      case (Inl e)
      with True w show ?thesis
        by (simp add: write_all_ref_loop.simps [of stream d i s] write_all_loop.simps [of _ _ d i s] ref_members no_token_def)
    next
      case (Inr k)
      with True w "1" show ?thesis
        by (simp add: write_all_ref_loop.simps [of stream d i s] write_all_loop.simps [of _ _ d i s] ref_members no_token_def)
    qed
  qed
qed

lemma write_all_buffer_ref_loop_eq:
  "write_all_buffer_ref_loop stream d i s = write_all_buffer_loop (bl_write_some stream no_token) d i s"
proof (induction stream d i s rule: write_all_buffer_ref_loop.induct)
  case (1 stream d i s)
  show ?case
  proof (cases "i < length d")
    case False
    then show ?thesis by (simp add: write_all_buffer_ref_loop.simps [of stream d i s] write_all_buffer_loop.simps [of _ d i s])
  next
    case True
    obtain r s' where w: "bl_write_some stream no_token (drop i d) s = (r, s')" by (rule prod.exhaust)
    from True w "1" show ?thesis
      by (cases r) (simp_all add: write_all_buffer_ref_loop.simps [of stream d i s] write_all_buffer_loop.simps [of _ d i s] ref_members)
  qed
qed

lemma write_all_buffer_ref_eq: "write_all_buffer_ref stream = write_all_buffer (bl_write_some stream no_token)"
  by (simp add: fun_eq_iff write_all_buffer_ref_def write_all_buffer_def write_all_buffer_ref_loop_eq)

text \<open>The loops of \<open>copy\<close> satisfy each other's equations, so where one returns the other returns the same.\<close>

lemma copy_ref_loop_le:
  assumes "copy_ref_loop a b n m s t = Some y"
  shows "copy_loop (bl_read_some_into a no_token) (bl_write_some b no_token) n m s t = Some y"
proof (rule copy_ref_loop.raw_induct [where P = "\<lambda>a b n m s t y.
    copy_loop (bl_read_some_into a no_token) (bl_write_some b no_token) n m s t = Some y", OF _ assms])
  fix f and a :: "'s buffered_stream_like" and b :: "'t buffered_stream_like" and n m s t y
  assume ih: "\<And>a b n m s t y. f a b n m s t = Some y \<Longrightarrow>
      copy_loop (bl_read_some_into a no_token) (bl_write_some b no_token) n m s t = Some y"
    and body: "(case fst (buffered_ref_read_some_into a no_token n s) of
        Inl e \<Rightarrow> Some (Inl e, snd (buffered_ref_read_some_into a no_token n s), t)
      | Inr bytes \<Rightarrow>
          if bytes = [] then Some (Inr m, snd (buffered_ref_read_some_into a no_token n s), t)
          else (case fst (write_all_buffer_ref b bytes t) of
                  Inl e \<Rightarrow> Some (Inl e, snd (buffered_ref_read_some_into a no_token n s), snd (write_all_buffer_ref b bytes t))
                | Inr k \<Rightarrow> f a b n (m + k) (snd (buffered_ref_read_some_into a no_token n s)) (snd (write_all_buffer_ref b bytes t)))) = Some y"
  from body show "copy_loop (bl_read_some_into a no_token) (bl_write_some b no_token) n m s t = Some y"
    unfolding copy_loop.simps [of _ _ n m s t] ref_members write_all_buffer_ref_eq
    by (auto split: sum.splits if_splits intro: ih)
qed

lemma copy_loop_le:
  assumes "copy_loop (bl_read_some_into a no_token) (bl_write_some b no_token) n m s t = Some y"
  shows "copy_ref_loop a b n m s t = Some y"
proof (rule copy_loop.raw_induct [where P = "\<lambda>r w n m s t y.
    r = bl_read_some_into a no_token \<longrightarrow> w = bl_write_some b no_token \<longrightarrow> copy_ref_loop a b n m s t = Some y",
    OF _ assms, rule_format, OF _ refl refl])
  fix f and r :: "'a read_fun" and w :: "'b write_fun" and n m s t y
  assume ih: "\<And>r w n m s t y. f r w n m s t = Some y \<Longrightarrow>
      r = bl_read_some_into a no_token \<Longrightarrow> w = bl_write_some b no_token \<Longrightarrow> copy_ref_loop a b n m s t = Some y"
    and body: "(case fst (r n s) of
        Inl e \<Rightarrow> Some (Inl e, snd (r n s), t)
      | Inr bytes \<Rightarrow>
          if bytes = [] then Some (Inr m, snd (r n s), t)
          else (case fst (write_all_buffer w bytes t) of
                  Inl e \<Rightarrow> Some (Inl e, snd (r n s), snd (write_all_buffer w bytes t))
                | Inr k \<Rightarrow> f r w n (m + k) (snd (r n s)) (snd (write_all_buffer w bytes t)))) = Some y"
    and "r = bl_read_some_into a no_token" and "w = bl_write_some b no_token"
  note ih' = ih [OF _ refl refl]
  from body \<open>r = bl_read_some_into a no_token\<close> \<open>w = bl_write_some b no_token\<close> show "copy_ref_loop a b n m s t = Some y"
    unfolding copy_ref_loop.simps [of _ _ n m s t] ref_members write_all_buffer_ref_eq
    by (auto split: sum.splits if_splits intro: ih')
qed

lemma copy_n_ref_loop_le:
  assumes "copy_n_ref_loop a b j n m s t = Some y"
  shows "copy_n_loop (bl_read_some_into a no_token) (bl_write_some b no_token) j n m s t = Some y"
proof (rule copy_n_ref_loop.raw_induct [unfolded Let_def, where P = "\<lambda>a b j n m s t y.
    copy_n_loop (bl_read_some_into a no_token) (bl_write_some b no_token) j n m s t = Some y", OF _ assms])
  fix f and a :: "'s buffered_stream_like" and b :: "'t buffered_stream_like" and j n m s t y
  assume ih: "\<And>a b j n m s t y. f a b j n m s t = Some y \<Longrightarrow>
      copy_n_loop (bl_read_some_into a no_token) (bl_write_some b no_token) j n m s t = Some y"
    and body: "(if m < j then (case fst (buffered_ref_read_some_into a no_token (if j - m < n then j - m else n) s) of
        Inl e \<Rightarrow> Some (Inl e, snd (buffered_ref_read_some_into a no_token (if j - m < n then j - m else n) s), t)
      | Inr bytes \<Rightarrow>
          if bytes = [] then Some (Inr m, snd (buffered_ref_read_some_into a no_token (if j - m < n then j - m else n) s), t)
          else (case fst (write_all_buffer_ref b bytes t) of
                  Inl e \<Rightarrow> Some (Inl e, snd (buffered_ref_read_some_into a no_token (if j - m < n then j - m else n) s), snd (write_all_buffer_ref b bytes t))
                | Inr k \<Rightarrow> f a b j n (m + k) (snd (buffered_ref_read_some_into a no_token (if j - m < n then j - m else n) s)) (snd (write_all_buffer_ref b bytes t)))) else Some (Inr m, s, t)) = Some y"
  from body show "copy_n_loop (bl_read_some_into a no_token) (bl_write_some b no_token) j n m s t = Some y"
    unfolding copy_n_loop.simps [of _ _ j n m s t] ref_members write_all_buffer_ref_eq Let_def
    by (auto split: sum.splits if_splits intro: ih)
qed

lemma copy_n_loop_le:
  assumes "copy_n_loop (bl_read_some_into a no_token) (bl_write_some b no_token) j n m s t = Some y"
  shows "copy_n_ref_loop a b j n m s t = Some y"
proof (rule copy_n_loop.raw_induct [unfolded Let_def, where P = "\<lambda>r w j n m s t y.
    r = bl_read_some_into a no_token \<longrightarrow> w = bl_write_some b no_token \<longrightarrow> copy_n_ref_loop a b j n m s t = Some y",
    OF _ assms, rule_format, OF _ refl refl])
  fix f and r :: "'a read_fun" and w :: "'b write_fun" and j n m s t y
  assume ih: "\<And>r w j n m s t y. f r w j n m s t = Some y \<Longrightarrow>
      r = bl_read_some_into a no_token \<Longrightarrow> w = bl_write_some b no_token \<Longrightarrow> copy_n_ref_loop a b j n m s t = Some y"
    and body: "(if m < j then (case fst (r (if j - m < n then j - m else n) s) of
        Inl e \<Rightarrow> Some (Inl e, snd (r (if j - m < n then j - m else n) s), t)
      | Inr bytes \<Rightarrow>
          if bytes = [] then Some (Inr m, snd (r (if j - m < n then j - m else n) s), t)
          else (case fst (write_all_buffer w bytes t) of
                  Inl e \<Rightarrow> Some (Inl e, snd (r (if j - m < n then j - m else n) s), snd (write_all_buffer w bytes t))
                | Inr k \<Rightarrow> f r w j n (m + k) (snd (r (if j - m < n then j - m else n) s)) (snd (write_all_buffer w bytes t)))) else Some (Inr m, s, t)) = Some y"
    and "r = bl_read_some_into a no_token" and "w = bl_write_some b no_token"
  note ih' = ih [OF _ refl refl]
  from body \<open>r = bl_read_some_into a no_token\<close> \<open>w = bl_write_some b no_token\<close> show "copy_n_ref_loop a b j n m s t = Some y"
    unfolding copy_n_ref_loop.simps [of _ _ j n m s t] ref_members write_all_buffer_ref_eq Let_def
    by (auto split: sum.splits if_splits intro: ih')
qed

lemma option_eqI: "(\<And>y. x = Some y \<Longrightarrow> z = Some y) \<Longrightarrow> (\<And>y. z = Some y \<Longrightarrow> x = Some y) \<Longrightarrow> x = z"
  by (cases x; cases z) auto

lemma copy_ref_loop_eq: "copy_ref_loop a b n m s t = copy_loop (bl_read_some_into a no_token) (bl_write_some b no_token) n m s t"
  by (rule option_eqI) (erule copy_ref_loop_le, erule copy_loop_le)

lemma copy_n_ref_loop_eq:
  "copy_n_ref_loop a b j n m s t = copy_n_loop (bl_read_some_into a no_token) (bl_write_some b no_token) j n m s t"
  by (rule option_eqI) (erule copy_n_ref_loop_le, erule copy_n_loop_le)

text \<open>
  Every overload for a reference does what the function on the stream does with a token that is never
  stopped; the overloads for a buffer do what those for its span do.
\<close>

lemma ref_overloads:
  "read_some_ref stream n stop = read_some stream n stop"
  "read_exact_ref stream n = read_exact stream n no_token"
  "read_exactly_ref stream n = io_read_exactly (sl_read_exact stream no_token) n"
  "write_ref stream data = write_stream stream data no_token"
  "write_all_ref stream data = write_all (sl_write stream no_token) no_token data"
  "read_some_into_ref bs sp = read_some_into bs sp no_token"
  "read_exact_into_ref bs sp = read_exact_into bs sp"
  "read_exactly_into_ref bs sp = io_read_exactly_into (bl_read_exact_into bs no_token) (snd sp)"
  "write_some_ref bs memory sp = write_some bs memory sp no_token"
  "copy_ref bs sink k = io_copy (bl_read_some_into bs no_token) (bl_write_some sink no_token) k"
  "copy_n_ref bs sink j k = io_copy_n (bl_read_some_into bs no_token) (bl_write_some sink no_token) j k"
proof -
  show "copy_ref bs sink k = io_copy (bl_read_some_into bs no_token) (bl_write_some sink no_token) k"
    by (intro ext) (simp add: copy_ref_def io_copy_def copy_ref_loop_eq)
  show "copy_n_ref bs sink j k = io_copy_n (bl_read_some_into bs no_token) (bl_write_some sink no_token) j k"
    by (intro ext) (simp add: copy_n_ref_def io_copy_n_def copy_n_ref_loop_eq)
  show "write_all_ref stream data = write_all (sl_write stream no_token) no_token data"
    by (rule ext) (simp add: write_all_ref_def write_all_def write_all_ref_eq)
  show "read_exactly_into_ref bs sp = io_read_exactly_into (bl_read_exact_into bs no_token) (snd sp)"
    by (rule ext) (simp only: read_exactly_into_ref_def counted_exactly_def io_read_exactly_into_def ref_members)
  show "read_exactly_ref stream n = io_read_exactly (sl_read_exact stream no_token) n"
    by (rule ext) (simp only: read_exactly_ref_def io_read_exactly_def ref_members)
qed (simp_all add: fun_eq_iff ref_members read_some_ref_def read_some_def read_exact_ref_def read_exact_def write_ref_def
    write_stream_def read_some_into_ref_def read_some_into_def read_exact_into_ref_def read_exact_into_def write_some_ref_def write_some_def)

lemma buffer_overloads:
  "read_some_into_buffer bs b stop = read_some_into bs (buffer_as_span b) stop"
  "read_some_into_ref_buffer bs b = read_some_into_ref bs (buffer_as_span b)"
  "read_exact_into_buffer bs b = read_exact_into bs (buffer_as_span b)"
  "read_exact_into_ref_buffer bs b = read_exact_into_ref bs (buffer_as_span b)"
  "read_exactly_into_ref_buffer bs b = read_exactly_into_ref bs (buffer_as_span b)"
  "read_exactly_into_buffer bs b = io_read_exactly_into (bl_read_exact_into bs no_token) (mb_size b)"
  "write_some_buffer bs memory c = write_some bs memory (const_buffer_as_span c) no_token"
  "write_some_ref_buffer bs memory c = write_some_ref bs memory (const_buffer_as_span c)"
  "read_exactly_into_buffered_buffer stream b = sb_read_exactly_into (sl_read_some stream no_token) no_token (mb_size b)"
  unfolding fun_eq_iff read_some_into_buffer_def read_some_into_def read_some_into_ref_buffer_def read_some_into_ref_def
    read_exact_into_buffer_def read_exact_into_def read_exact_into_ref_buffer_def read_exact_into_ref_def
    read_exactly_into_ref_buffer_def read_exactly_into_ref_def read_exactly_into_buffer_def counted_exactly_def io_read_exactly_into_def
    write_some_buffer_def write_some_def write_some_ref_buffer_def write_some_ref_def read_exactly_into_buffered_buffer_def
    sb_read_exactly_into_def buffer_as_span_def Let_def snd_conv
  by (intro allI refl)+

lemma datagram_ref_overloads:
  "send_datagram_ref socket endpoint data = send_datagram socket endpoint data no_token"
  "receive_datagram_ref socket n = receive_datagram socket n no_token"
  "send_datagram_some_ref bsocket memory endpoint sp = send_datagram_some bsocket memory endpoint sp no_token"
  "receive_datagram_into_ref bsocket sp = receive_datagram_into bsocket sp no_token"
  "send_datagram_some_ref_buffer bsocket memory endpoint c = send_datagram_some_buffer bsocket memory endpoint c"
  "receive_datagram_into_ref_buffer bsocket b = receive_datagram_into_buffer bsocket b"
  by (simp_all add: fun_eq_iff send_datagram_ref_def send_datagram_def receive_datagram_ref_def receive_datagram_def
      send_datagram_some_ref_def send_datagram_some_def receive_datagram_into_ref_def receive_datagram_into_def
      send_datagram_some_ref_buffer_def send_datagram_some_buffer_def receive_datagram_into_ref_buffer_def
      receive_datagram_into_buffer_def datagram_ref_send_to_def datagram_ref_receive_def buffered_datagram_ref_send_some_to_def
      buffered_datagram_ref_receive_into_def)

end
