(* ===== verification/Stream_Close.thy ===== *)
theory Stream_Close
  imports Tcp_Client
begin

text \<open>
  \<open>tcp_client::close\<close> together with the reads of the client's stream (\<open>src/tcp.cpp\<close>, \<open>src/stream_ops.hpp\<close>):
  one queue holds the jobs of both. \<open>uv_close\<close> ends libuv's reading without a call of the read callback,
  which is no request of its own, and the callback of \<open>uv_close\<close> deletes the handle.
\<close>

section \<open>The socket\<close>

datatype socket_job = Sk_read_job read_job | Sk_close_job

record socket =
  sk_client :: tcp_client
  sk_stream :: read_stream
  sk_closing :: bool
  sk_deleted :: bool
  sk_crashed :: bool

type_synonym socket_world = "socket \<times> socket_job uv_runtime"

definition new_socket :: "string \<Rightarrow> socket" where
  "new_socket bytes = \<lparr>sk_client = tcp_client_of_handle 0 True, sk_stream = new_read_stream bytes, sk_closing = False,
     sk_deleted = False, sk_crashed = False\<rparr>"

text \<open>An operation on the stream posts its jobs to the common queue.\<close>

definition on_stream :: "(read_world \<Rightarrow> 'r \<times> read_world) \<Rightarrow> socket_world \<Rightarrow> 'r \<times> socket_world" where
  "on_stream f w =
     (let rt = snd w in
      case f (sk_stream (fst w), \<lparr>rt_queue = [], rt_shutting_down = rt_shutting_down rt, rt_wakeup = rt_wakeup rt, rt_send_rc = rt_send_rc rt\<rparr>) of
        (r, s, posted) \<Rightarrow>
          (r, (fst w)\<lparr>sk_stream := s\<rparr>, rt\<lparr>rt_queue := rt_queue rt @ map Sk_read_job (rt_queue posted), rt_wakeup := rt_wakeup posted\<rparr>))"

definition socket_read :: "bool \<Rightarrow> bool \<Rightarrow> bool \<Rightarrow> nat \<Rightarrow> socket_world \<Rightarrow> nat awaited \<times> socket_world" where
  "socket_read stop_requested stop_possible stop_meanwhile n w =
     on_stream (tcp_read_some_into stop_requested stop_possible stop_meanwhile n (sk_client (fst w))) w"

definition socket_stop :: "nat \<Rightarrow> socket_world \<Rightarrow> socket_world" where
  "socket_stop i w = snd (on_stream (\<lambda>rw. ((), read_stop i rw)) w)"

definition socket_close :: "socket_world \<Rightarrow> socket_world" where
  "socket_close w =
     (let c = sk_client (fst w) in
      if \<not> tc_runtime c \<or> tc_handle c = None then w
      else ((fst w)\<lparr>sk_client := c\<lparr>tc_handle := None, tc_connected := False\<rparr>\<rparr>, snd (post Sk_close_job (snd w))))"

text \<open>\<open>uv_close\<close> of a stream: libuv stops reading and will call the close callback.\<close>

definition socket_close_job :: "socket \<Rightarrow> socket" where
  "socket_close_job s = (if sk_closing s then s else s\<lparr>sk_closing := True, sk_stream := (sk_stream s)\<lparr>rs_reading := False\<rparr>\<rparr>)"

text \<open>
  The job of a read looks at the \<open>data\<close> of the handle unless its operation has ended, which is a use of
  freed memory once the handle is deleted. \<open>uv_read_start\<close> answers \<open>UV_EINVAL\<close> (22) for a handle that is closing.
\<close>

definition touches_handle :: "read_job \<Rightarrow> read_stream \<Rightarrow> bool" where
  "touches_handle j s = (case j of Sj_read i \<Rightarrow> \<not> rd_completed (rs_ops s i) | Sj_cancel i \<Rightarrow> \<not> rd_completed (rs_ops s i))"

definition socket_read_job :: "uv_status \<Rightarrow> read_job \<Rightarrow> socket \<Rightarrow> socket" where
  "socket_read_job start_rc j s =
     (if sk_deleted s \<and> touches_handle j (sk_stream s) then s\<lparr>sk_crashed := True\<rparr>
      else s\<lparr>sk_stream := (case j of
          Sj_read i \<Rightarrow> read_start_job (if sk_closing s then Uv_err (UV_other 22) else start_rc) i (sk_stream s)
        | Sj_cancel i \<Rightarrow> read_cancel_job i (sk_stream s))\<rparr>)"

definition socket_run_job :: "uv_status \<Rightarrow> socket_world \<Rightarrow> socket_world" where
  "socket_run_job start_rc w =
     (case rt_queue (snd w) of
        [] \<Rightarrow> w
      | j # js \<Rightarrow>
          ((case j of Sk_read_job r \<Rightarrow> socket_read_job start_rc r (fst w) | Sk_close_job \<Rightarrow> socket_close_job (fst w)),
           (snd w)\<lparr>rt_queue := js\<rparr>))"

datatype socket_event =
    Sk_read bool bool bool nat
  | Sk_stop nat
  | Sk_close
  | Sk_job uv_status
  | Sk_cb "uv_errno + nat"
  | Sk_closed

fun socket_step :: "socket_event \<Rightarrow> socket_world \<Rightarrow> socket_world" where
  "socket_step (Sk_read stop_requested stop_possible stop_meanwhile n) w =
     snd (socket_read stop_requested stop_possible stop_meanwhile n w)"
| "socket_step (Sk_stop i) w = socket_stop i w"
| "socket_step Sk_close w = socket_close w"
| "socket_step (Sk_job start_rc) w = socket_run_job start_rc w"
| "socket_step (Sk_cb nread) w = ((fst w)\<lparr>sk_stream := read_cb nread (sk_stream (fst w))\<rparr>, snd w)"
| "socket_step Sk_closed w = ((fst w)\<lparr>sk_deleted := True\<rparr>, snd w)"

fun socket_enabled :: "socket_event \<Rightarrow> socket_world \<Rightarrow> bool" where
  "socket_enabled (Sk_cb nread) w \<longleftrightarrow> rs_reading (sk_stream (fst w)) \<and> \<not> sk_closing (fst w)"
| "socket_enabled Sk_closed w \<longleftrightarrow> sk_closing (fst w) \<and> \<not> sk_deleted (fst w)"
| "socket_enabled ev w \<longleftrightarrow> True"

fun socket_run :: "socket_event list \<Rightarrow> socket_world \<Rightarrow> socket_world" where
  "socket_run [] w = w"
| "socket_run (ev # evs) w = socket_run evs (socket_step ev w)"

fun socket_runnable :: "socket_event list \<Rightarrow> socket_world \<Rightarrow> bool" where
  "socket_runnable [] w \<longleftrightarrow> True"
| "socket_runnable (ev # evs) w \<longleftrightarrow> socket_enabled ev w \<and> socket_runnable evs (socket_step ev w)"

section \<open>A read that waits while the client is closed\<close>

text \<open>
  What holds from then on: libuv reads no more, no job of the waiting read is queued, and the client
  starts no new one.
\<close>

definition stranded :: "nat \<Rightarrow> read_op \<Rightarrow> socket_world \<Rightarrow> bool" where
  "stranded i x w \<longleftrightarrow> tc_handle (sk_client (fst w)) = None \<and> rs_data (sk_stream (fst w)) = Some i \<and> rs_ops (sk_stream (fst w)) i = x \<and>
     sk_closing (fst w) \<and>
     set (rt_queue (snd w)) \<subseteq> insert Sk_close_job (Sk_read_job ` Sj_cancel ` (UNIV - {i}))"

lemma stranded_read: "stranded i x w \<Longrightarrow> stranded i x (snd (socket_read a b c n w))"
  by (auto simp: stranded_def socket_read_def on_stream_def tcp_read_some_into_def not_connected_def Let_def)

lemma stranded_stop: "stranded i x w \<Longrightarrow> k \<noteq> i \<Longrightarrow> stranded i x (socket_stop k w)"
  by (auto simp: stranded_def socket_stop_def on_stream_def read_stop_def post_def async_send_def Let_def case_prod_beta
      split: uv_status.splits)

lemma stranded_close: "stranded i x w \<Longrightarrow> stranded i x (socket_close w)"
  by (auto simp: stranded_def socket_close_def)

lemma stranded_job:
  assumes "stranded i x w" and "\<not> rd_completed x"
  shows "stranded i x (socket_run_job rc w)"
proof (cases "rt_queue (snd w)")
  case (Cons j js)
  with assms(1) have "set js \<subseteq> insert Sk_close_job (Sk_read_job ` Sj_cancel ` (UNIV - {i}))"
    and "j = Sk_close_job \<or> (\<exists>k. k \<noteq> i \<and> j = Sk_read_job (Sj_cancel k))" by (auto simp: stranded_def)
  with Cons assms show ?thesis
    by (auto simp: stranded_def socket_run_job_def socket_close_job_def socket_read_job_def read_cancel_job_def set_op_def Let_def)
qed (use assms in \<open>simp add: socket_run_job_def\<close>)

lemma stranded_step:
  assumes "stranded i x w" and "\<not> rd_completed x" and "socket_enabled ev w" and "ev \<noteq> Sk_stop i"
  shows "stranded i x (socket_step ev w)"
proof (cases ev)
  case (Sk_stop k)
  with assms show ?thesis by (simp add: stranded_stop)
next
  case (Sk_cb nread)
  with assms show ?thesis by (simp add: stranded_def)
next
  case Sk_closed
  with assms show ?thesis by (simp add: stranded_def)
qed (use assms in \<open>simp_all add: stranded_read stranded_close stranded_job\<close>)

lemma stranded_run:
  assumes "stranded i x w" and "\<not> rd_completed x" and "socket_runnable evs w" and "Sk_stop i \<notin> set evs"
  shows "stranded i x (socket_run evs w)"
  using assms
proof (induction evs arbitrary: w)
  case (Cons ev evs)
  from Cons.prems have "stranded i x (socket_step ev w)" by (intro stranded_step) auto
  with Cons show ?case by simp
qed simp

text \<open>
  A defect: \<open>close\<close> does not end a read that waits. Whatever happens after its job has run, a stop of
  the read's own token apart, the coroutine is not resumed.
\<close>

lemma tcp_close_strands_read:
  assumes "rs_data (sk_stream (fst w)) = Some i" and "\<not> rd_completed (rs_ops (sk_stream (fst w)) i)"
    and "rt_queue (snd w) = []" and "rt_send_rc (snd w) = Uv_ok" and "\<not> rt_shutting_down (snd w)"
    and "tc_runtime (sk_client (fst w))" and "tc_handle (sk_client (fst w)) = Some h" and "\<not> sk_closing (fst w)"
    and "socket_runnable evs (socket_run [Sk_close, Sk_job rc] w)" and "Sk_stop i \<notin> set evs"
  shows "rs_ops (sk_stream (fst (socket_run ([Sk_close, Sk_job rc] @ evs) w))) i = rs_ops (sk_stream (fst w)) i"
proof -
  have "stranded i (rs_ops (sk_stream (fst w)) i) (socket_run [Sk_close, Sk_job rc] w)"
    using assms(1-8) by (simp add: stranded_def socket_close_def socket_run_job_def socket_close_job_def Let_def post_def async_send_def)
  from stranded_run [OF this assms(2) assms(9,10)] show ?thesis by (simp add: stranded_def)
qed

text \<open>A stop after the handle is deleted: its job uses the handle.\<close>

lemma tcp_close_then_stop_crashes:
  "sk_crashed (fst (socket_run [Sk_read False True False 16, Sk_job Uv_ok, Sk_close, Sk_job Uv_ok, Sk_closed, Sk_stop 0, Sk_job Uv_ok]
     (new_socket ''abc'', new_runtime)))"
  by (simp add: socket_read_def on_stream_def tcp_read_some_into_def not_connected_def new_socket_def tcp_client_of_handle_def new_read_stream_def
      stream_read_some_into_def read_await_suspend_def post_def async_send_def new_runtime_def set_op_def new_read_op_def socket_run_job_def
      socket_read_job_def read_start_job_def socket_close_def socket_close_job_def socket_stop_def read_stop_def touches_handle_def Let_def)

text \<open>The same run without the close delivers what arrives.\<close>

lemma tcp_read_then_close_ends:
  "rd_resumed (rs_ops (sk_stream (fst (socket_run [Sk_read False True False 16, Sk_job Uv_ok, Sk_cb (Inr 3), Sk_close, Sk_job Uv_ok, Sk_closed]
     (new_socket ''abc'', new_runtime)))) 0) = 1"
  by (simp add: socket_read_def on_stream_def tcp_read_some_into_def not_connected_def new_socket_def tcp_client_of_handle_def new_read_stream_def
      stream_read_some_into_def read_await_suspend_def post_def async_send_def new_runtime_def set_op_def new_read_op_def socket_run_job_def
      socket_read_job_def read_start_job_def socket_close_def socket_close_job_def read_cb_def rd_complete_def Let_def)

end
