(* ===== verification/Spawn_Report.thy ===== *)
theory Spawn_Report
  imports Spawn_Tasks
begin

text \<open>
  What the default handler of \<open>spawn_logged\<close> writes to the error output (\<open>runtime.hpp\<close>), with the
  texts of the exceptions (\<open>error.hpp\<close>).
\<close>

section \<open>The texts of exceptions\<close>

text \<open>
  \<open>what()\<close> of an exception, nothing for one that is not a \<open>std::exception\<close>; libuv's texts for its codes
  and those of the user's exceptions are parameters.
\<close>

definition uv_message :: "(uv_errno \<Rightarrow> string) \<Rightarrow> uv_errno \<Rightarrow> string \<Rightarrow> string" where
  "uv_message uv_strerror code op_name = op_name @ '' failed: '' @ uv_strerror code"

fun exn_what :: "(uv_errno \<Rightarrow> string) \<Rightarrow> (nat \<Rightarrow> string option) \<Rightarrow> exn \<Rightarrow> string option" where
  "exn_what uv_strerror user_what (Uv_error code op_name) = Some (uv_message uv_strerror code op_name)"
| "exn_what uv_strerror user_what Operation_cancelled = Some ''operation cancelled''"
| "exn_what uv_strerror user_what Operation_timeout = Some ''operation timed out''"
| "exn_what uv_strerror user_what Closed_error = Some ''message_channel is closed''"
| "exn_what uv_strerror user_what (Runtime_error message) = Some message"
| "exn_what uv_strerror user_what (Invalid_argument message) = Some message"
| "exn_what uv_strerror user_what (User_exception k) = user_what k"

section \<open>The default handler\<close>

definition task_prefix :: "string \<Rightarrow> string" where
  "task_prefix name = ''luvcoro detached task'' @ (if name \<noteq> [] then '' ['' @ name @ '']'' else [])"

definition newline :: string where
  "newline = [CHR 0x0A]"

definition default_spawn_exception_handler :: "(uv_errno \<Rightarrow> string) \<Rightarrow> (nat \<Rightarrow> string option) \<Rightarrow> string \<Rightarrow> exn option \<Rightarrow> string" where
  "default_spawn_exception_handler uv_strerror user_what name exception =
     (case exception of
        None \<Rightarrow> task_prefix name @ '' failed with an unknown exception'' @ newline
      | Some e \<Rightarrow>
          (case exn_what uv_strerror user_what e of
             Some text \<Rightarrow> task_prefix name @ '' failed: '' @ text @ newline
           | None \<Rightarrow> task_prefix name @ '' failed with a non-standard exception'' @ newline))"

text \<open>What a run of spawned tasks with that handler leaves on the error output.\<close>

definition reported :: "(uv_errno \<Rightarrow> string) \<Rightarrow> (nat \<Rightarrow> string option) \<Rightarrow> spawn_trace list \<Rightarrow> string list" where
  "reported uv_strerror user_what tr =
     concat (map (\<lambda>t. case t of St_handler name e \<Rightarrow> [default_spawn_exception_handler uv_strerror user_what name (Some e)] | _ \<Rightarrow> []) tr)"

lemma reported_simps [simp]:
  "reported m u [] = []" "reported m u (tr @ tr') = reported m u tr @ reported m u tr'"
  "reported m u [St_handler name e] = [default_spawn_exception_handler m u name (Some e)]"
  by (simp_all add: reported_def)

text \<open>
  A logged task adds one report when what it runs throws and none otherwise, and it never throws itself.
\<close>

lemma logged_task_reports:
  assumes "run_detached env task = (tr, r)"
  shows "reported m u (fst (run_detached env (Dt_logged name True task))) =
      reported m u tr @ (case r of Inl e \<Rightarrow> [default_spawn_exception_handler m u name (Some e)] | Inr _ \<Rightarrow> [])"
    and "snd (run_detached env (Dt_logged name True task)) = Inr ()"
  using assms by (auto simp: make_spawn_logged_task_def split: sum.split)

text \<open>
  A report says which task failed: it starts with the name, is one line when the name and the text are, and
  names without brackets tell two tasks apart.
\<close>

lemma report_starts_with_name: "\<exists>rest. default_spawn_exception_handler m u name ex = task_prefix name @ rest @ newline"
  by (auto simp: default_spawn_exception_handler_def split: option.split)

lemma report_one_line:
  assumes "CHR 0x0A \<notin> set name" and "\<forall>e text. ex = Some e \<longrightarrow> exn_what m u e = Some text \<longrightarrow> CHR 0x0A \<notin> set text"
  shows "\<exists>line. default_spawn_exception_handler m u name ex = line @ newline \<and> CHR 0x0A \<notin> set line"
proof -
  have "CHR 0x0A \<notin> set (task_prefix name)" using assms(1) by (simp add: task_prefix_def)
  with assms(2) show ?thesis
    by (cases ex) (auto simp: default_spawn_exception_handler_def newline_def split: option.split)
qed

lemma bracket_split: "CHR '']'' \<notin> set a \<Longrightarrow> CHR '']'' \<notin> set b \<Longrightarrow> a @ CHR '']'' # xs = b @ CHR '']'' # ys \<Longrightarrow> a = b"
  by (induction a arbitrary: b) (auto simp: append_eq_Cons_conv Cons_eq_append_conv)

lemma report_identifies_task:
  assumes "name \<noteq> []" and "name' \<noteq> []" and "CHR '']'' \<notin> set name" and "CHR '']'' \<notin> set name'"
    and "default_spawn_exception_handler m u name ex = default_spawn_exception_handler m u name' ex'"
  shows "name = name'"
proof -
  obtain r r' where "task_prefix name @ r @ newline = task_prefix name' @ r' @ newline"
    using report_starts_with_name [of m u] assms(5) by metis
  with assms(1,2) have "name @ CHR '']'' # (r @ newline) = name' @ CHR '']'' # (r' @ newline)" by (simp add: task_prefix_def)
  with assms(3,4) show ?thesis by (rule bracket_split)
qed

end
