(* ===== verification/Spec2Isabelle.thy ===== *)
theory Spec2Isabelle
  imports Timer Mutex_Guards Semaphore Local_Semaphore Condition_Variable Local_Condvar_Event Channel_Runs
    Tcp_Handles Tcp_Accept Fs_Properties Scope_Runs Blocking Control
    Udp_Recv Pipe_Server Dns Process_Wait Signal_Refine
    Fs_Watch_Refine Channel_Iteration Channel_Object Stdio_Runs Io_Timed Spawn_Tasks
    Event_Reads Clocks Fs_Types Channel_Api Io_Api Stream_Close Spawn_Report
begin

text \<open>
  A verification of LuvCoro, a C++20 coroutine library over libuv.

  \<^bold>\<open>The program.\<close> A \<open>uv_runtime\<close> owns one libuv loop, run by one thread. Everything that touches libuv
  is a job posted to that loop: \<open>post\<close> appends the job to a queue and wakes the loop through a
  \<open>uv_async_t\<close>, and \<open>on_async\<close> runs the queued jobs. On top of it an awaitable of the library follows
  one pattern: \<open>await_suspend\<close> stores the coroutine handle in a shared state, registers a stop
  callback that posts a cancelling job, and posts the job that starts the libuv request; libuv's
  callback, or the cancelling job, completes the state and resumes the coroutine. The
  synchronisation primitives and the channel keep queues of such waiters under a lock. The streams,
  TCP, UDP and pipes, files, name resolution, the timer and \<open>blocking\<close> are libuv requests of this kind;
  signals and file-system changes come in through a channel; \<open>io.hpp\<close>, the task scope and the timeouts
  are built from these.

  \<^bold>\<open>How the theories follow it.\<close>

  \<^item> \<open>Prelude\<close>: the exceptions (\<open>error.hpp\<close>) as the values of the type \<open>exn\<close>; an operation that may
    throw returns \<open>exn + 'a\<close>. libuv's status codes. List lemmas.
  \<^item> \<open>Runtime\<close> (\<open>src/runtime.cpp\<close>, \<open>runtime.hpp\<close>): the job queue, \<open>post\<close>, \<open>call\<close>, \<open>drain\<close>, the destructor,
    the thread-local runtime, the thread-pool configuration. Jobs are values; what a job does is a
    parameter, and the locale \<open>posting_jobs\<close> is the contract of the components that post.
  \<^item> \<open>Timer\<close> (\<open>timer_wait_state\<close>, \<open>sleep_for\<close>, \<open>sleep_until\<close>, \<open>steady_timer\<close>), \<open>Blocking\<close> (\<open>blocking\<close>), \<open>Spawn\<close>
    (starting a task, \<open>periodic_task\<close>, the loops of \<open>spawn_every\<close>), \<open>Spawn_Tasks\<close> (the overloads of \<open>spawn\<close>,
    \<open>spawn_logged\<close>, \<open>spawn_after\<close>, \<open>spawn_at\<close> and their combinations), \<open>Spawn_Report\<close> (what the default
    handler writes), \<open>Control\<close> (\<open>wait_for_stop\<close>, \<open>control.hpp\<close>),
    \<open>Clocks\<close> (durations and their casts; the overloads of the sleeps and of the timeouts).
  \<^item> \<open>Waiters\<close>, \<open>Async_Mutex\<close>, \<open>Local_Mutex\<close>, \<open>Mutex_Guards\<close>, \<open>Semaphore\<close>, \<open>Local_Semaphore\<close>,
    \<open>Condition_Variable\<close>, \<open>Local_Condvar_Event\<close> (\<open>sync.hpp\<close>). The waiters are numbered entries of a heap,
    the queues lists of numbers, and the locale \<open>wakeup_queue\<close> states what popping a queue promises.
    Each block that the code runs under its lock is one definition; the theories with threads let
    these blocks interleave in any order.
  \<^item> \<open>Channel\<close>, \<open>Channel_Ops\<close>, \<open>Channel_Spec\<close>, \<open>Channel_Fifo\<close>, \<open>Channel_Runs\<close> (\<open>message.hpp\<close>): the locked
    sections, the public operations, the simulation by a bounded FIFO queue, whole runs. \<open>Channel_Iteration\<close>: the message sequences,
    \<open>co_foreach\<close>, the input iterator and \<open>select\<close>. \<open>Channel_Object\<close>: the objects that own channels.
    \<open>Channel_Api\<close>: the members of such an object, the iterator's operators.
  \<^item> \<open>Task_Scope\<close>, \<open>Scope_Runs\<close> (\<open>task_scope.hpp\<close>), built on the channel's operations.
  \<^item> \<open>One_Shot\<close>: the life of one libuv request (locale \<open>one_shot\<close>), instantiated by \<open>stream_write\<close> and
    \<open>stream_shutdown\<close> (\<open>Stream_Ops\<close>, \<open>Stream_Write\<close>; \<open>src/stream_ops.hpp\<close>), by \<open>tcp_client::connect\<close>
    (\<open>Tcp_Client\<close>), \<open>pipe_client::connect\<close> (\<open>Pipe_Client\<close>), \<open>udp_socket::send_to\<close> (\<open>Udp_Socket\<close>), name
    resolution (\<open>Dns\<close>) and \<open>run_fs_request\<close> (\<open>Fs_Request\<close>). \<open>Stream_Read\<close>: the reads of one stream.
  \<^item> \<open>Stream_Buffer\<close>, \<open>Byte_Source\<close>, \<open>Socket_Source\<close>, \<open>Io_Transfer\<close>, \<open>Io_Properties\<close> (\<open>io.hpp\<close>). A stream is
    its \<open>read_some\<close> and \<open>write_some\<close>; the locales \<open>byte_source\<close>, \<open>byte_sink\<close> and \<open>byte_pipe\<close> are the contracts,
    interpreted on libuv streams (\<open>Socket_Source\<close>) and on streams behind a \<open>stream_buffer\<close>. \<open>Io_Timed\<close>:
    the variants with a timeout, with the timed \<open>connect\<close> and \<open>accept\<close> of TCP and of pipes. \<open>Io_Front\<close>
    (\<open>buffer.hpp\<close>, the concepts and the references of \<open>io.hpp\<close>), \<open>Io_Api\<close>: the free functions of \<open>io.hpp\<close> over
    streams, references, buffers and a \<open>stream_buffer\<close>.
  \<^item> \<open>Tcp_Client\<close>, \<open>Tcp_Handles\<close>, \<open>Tcp_Server\<close>, \<open>Tcp_Accept\<close> (\<open>src/tcp.cpp\<close>, \<open>tcp.hpp\<close>). \<open>Stream_Close\<close>: closing a client whose
    reads wait.
  \<^item> \<open>Pipe_Client\<close>, \<open>Pipe_Server\<close> (\<open>src/pipe.cpp\<close>, \<open>pipe.hpp\<close>), \<open>Udp_Socket\<close>, \<open>Udp_Recv\<close> (\<open>src/udp.cpp\<close>,
    \<open>udp.hpp\<close>), \<open>Dns\<close> (\<open>src/dns.cpp\<close>, \<open>dns.hpp\<close>).
  \<^item> \<open>Fs_Request\<close>, \<open>File_Ops\<close>, \<open>Fs_Functions\<close>, \<open>Fs_Properties\<close> (\<open>src/fs.cpp\<close>, \<open>fs.hpp\<close>). \<open>Fs_Types\<close>: the rest
    of \<open>file_status\<close>, \<open>directory_entry\<close> and \<open>watch_flags\<close>.
  \<^item> \<open>Process\<close>, \<open>Process_Wait\<close> (\<open>src/process.cpp\<close>, \<open>process.hpp\<close>): the shared state of a child, its waiter,
    its handle and the jobs that close it.
  \<^item> \<open>Notifications\<close>: the unbounded channel that libuv's callbacks fill with \<open>try_send\<close> (locale
    \<open>notification_channel\<close> there). \<open>Signal_Set\<close>, \<open>Signal_Refine\<close> (\<open>src/signal.cpp\<close>, \<open>signal.hpp\<close>) and \<open>Fs_Watch\<close>,
    \<open>Fs_Watch_Refine\<close> (\<open>src/fs_watch.cpp\<close>) are its clients, each with its specification and the refinement. \<open>Event_Reads\<close>: how their
    notifications are read, and that each is delivered once.
  \<^item> \<open>Tty\<close> (\<open>src/tty.cpp\<close>, \<open>tty.hpp\<close>), \<open>Stdio\<close>, \<open>Stdio_Runs\<close> (\<open>src/stdio.cpp\<close>, \<open>stdio.hpp\<close>): the stream over a
    terminal, a pipe or a file, whichever the descriptor is.

  \<^bold>\<open>Conventions.\<close> A coroutine handle is a boolean (null or not) with a counter, or a log, of how often the
  coroutine was resumed, so that resuming twice can be stated. An \<open>awaited\<close> result says whether
  an awaitable suspends or continues with a result. A stop token is the boolean it answers when the
  code asks; a stop between two questions is a parameter of the definition or an event of a run.
  What libuv, the operating system and the user's own coroutines answer is always a parameter.

  \<^bold>\<open>What the lemmas show.\<close> Mutual exclusion, FIFO hand-over, no lost wake-up and single resumption of
  the mutexes; the semaphores as counting semaphores; the condition variables and the event; the
  channel as a bounded FIFO queue, with its order of delivery and its closing; the outcome of joining
  a task scope and its wake-up; single resumption, honest results and the lifetime of the shared state
  for every libuv request, and for \<open>blocking\<close> that a function that has run decides the result; that
  reads lose no byte and that \<open>read_until\<close>, \<open>write_all\<close>, \<open>copy\<close> and \<open>read_file\<close> do not depend on how the bytes
  are cut; that handles are closed exactly once and accepted connections handed out once; the
  schedule of a fixed-rate task; datagrams in order, each to one receive; exactly one owner for every
  channel and every handle of the standard streams; a child's exit reported to the call that waits for it; signal
  sets and watchers as their specifications, and from libuv's callback to the reader that every wanted
  notification arrives once and in order; that the overloads of \<open>io.hpp\<close> agree with each other. Beside them are the places where the code does not do what it
  means to do, each as a theorem about a concrete run: a coroutine resumed twice when it is woken
  while it suspends (\<open>async_mutex\<close>, the channel's \<open>recv\<close>, \<open>wait_for_stop\<close>), a request's state freed
  while libuv holds it, lengths of \<open>2 ^ 32\<close> and more, a scope that cannot be joined again, and others.

  \<^bold>\<open>Loops and bounds.\<close> Loops over a queue or a list are structural or have a measure. Loops that may
  run for ever (\<open>read_until\<close>, \<open>read_all\<close>, \<open>copy\<close>, the skipping of missed deadlines, \<open>join\<close>) are partial
  functions with \<open>None\<close> for not returning, and the properties prove that they return. The wake-up loops
  of the local condition variable and event, which resume coroutines that may wait again, take fuel,
  with theorems on how much is enough and on when no fuel is; \<open>remove_all\<close> takes fuel that bounds the
  depth of the tree. Lengths that the code casts to 32 bits are cut modulo \<open>2 ^ 32\<close>, the size of
  the thread pool is a \<open>32 word\<close>, other sizes are natural numbers and times integers.

  \<^bold>\<open>Not modelled.\<close> The branches for Windows, durations counted in floating point; tests, examples and build
  files. The bodies of user coroutines and the types that only carry template parameters have no counterpart.
  Memory is modelled where a property is about it (shared states, handles, waiters), not otherwise;
  exceptions for lack of memory do not occur. libuv, libcoro and the standard library are what their
  documentation says.
\<close>

end
